(* ===== verification/Go_Base.thy ===== *)
theory Go_Base
  imports Main "HOL-Library.Word" "HOL-Library.AList" "HOL-Library.Multiset" "HOL-Library.Sublist"
begin

text \<open>
  The prelude of the development: how Go values are read in HOL.

  \<^item> A Go \<^verbatim>\<open>[]byte\<close> is a list of 8-bit words, a Go \<^verbatim>\<open>string\<close> is HOL's \<open>string\<close> (a sequence
    of 8-bit characters), and the conversion \<^verbatim>\<open>[]byte(s)\<close> is \<open>str_bytes\<close>.
  \<^item> A Go map is an association list with distinct keys where the program counts or iterates
    over it (the order of the list stands for the iteration order the runtime happens to
    choose, and the theorems hold for every list), and a partial function where the program
    only looks keys up.
  \<^item> A call returns an \<open>outcome\<close>: a value, an error value, or a panic.
  \<^item> \<open>binary.BigEndian.PutUint32\<close> and \<open>PutUint64\<close> are \<open>put_u32\<close> and \<open>put_u64\<close>.

  The theory also holds the generic facts on lists, association lists and length-prefixed
  encodings that the components share, and the development's named collections of
  simplification rules.
\<close>

unbundle bit_operations_syntax

named_theorems go_defs \<open>unfolding rules for the small constructors and accessors of the model\<close>
named_theorems store_simps \<open>rewrite rules of the lineage store\<close>
named_theorems runner_simps \<open>rewrite rules of the session runner\<close>

type_synonym byte = "8 word"
type_synonym bytes = "byte list"

definition str_bytes :: "string \<Rightarrow> bytes" where
  "str_bytes s = map of_char s"

text \<open>What a Go call can do: return, return a non-nil error, or panic.\<close>

datatype ('e, 'a) outcome = Ok 'a | Err 'e | Panic string

definition is_ok :: "('e, 'a) outcome \<Rightarrow> bool" where
  "is_ok r \<longleftrightarrow> (case r of Ok _ \<Rightarrow> True | _ \<Rightarrow> False)"

lemma is_ok_simps [simp]:
  "is_ok (Ok a)" "\<not> is_ok (Err e)" "\<not> is_ok (Panic p)"
  by (simp_all add: is_ok_def)

lemma is_ok_iff: "is_ok r \<longleftrightarrow> (\<exists>a. r = Ok a)"
  by (cases r) auto

text \<open>The error component of a result, as an \<open>option\<close>: \<open>None\<close> is Go's nil error.\<close>

definition err_of :: "('e, 'a) outcome \<Rightarrow> 'e option" where
  "err_of r = (case r of Err e \<Rightarrow> Some e | _ \<Rightarrow> None)"

lemma err_of_simps [simp]:
  "err_of (Ok a) = None" "err_of (Err e) = Some e" "err_of (Panic p) = None"
  by (simp_all add: err_of_def)

text \<open>The result is a value, or an error of a given kind, and never a panic.\<close>

fun fails_only :: "('e \<Rightarrow> bool) \<Rightarrow> ('e, 'a) outcome \<Rightarrow> bool" where
  "fails_only P (Ok _) = True"
| "fails_only P (Err e) = P e"
| "fails_only P (Panic _) = False"

section \<open>Big-endian integers\<close>

definition put_u32 :: "32 word \<Rightarrow> bytes" where
  "put_u32 w = [ucast (drop_bit 24 w), ucast (drop_bit 16 w), ucast (drop_bit 8 w), ucast w]"

definition put_u64 :: "64 word \<Rightarrow> bytes" where
  "put_u64 w = put_u32 (ucast (drop_bit 32 w)) @ put_u32 (ucast w)"

definition get_u32 :: "byte \<Rightarrow> byte \<Rightarrow> byte \<Rightarrow> byte \<Rightarrow> 32 word" where
  "get_u32 a b c d =
     push_bit 24 (ucast a) OR push_bit 16 (ucast b) OR push_bit 8 (ucast c) OR ucast d"

lemma length_put_u32 [simp]: "length (put_u32 w) = 4"
  by (simp add: put_u32_def)

lemma length_put_u64 [simp]: "length (put_u64 w) = 8"
  by (simp add: put_u64_def)

lemma get_put_u32:
  "get_u32 (ucast (drop_bit 24 w)) (ucast (drop_bit 16 w)) (ucast (drop_bit 8 w)) (ucast w) = w"
proof (rule bit_word_eqI)
  fix n assume "n < LENGTH(32)"
  then consider "n < 8" | "8 \<le> n" "n < 16" | "16 \<le> n" "n < 24" | "24 \<le> n" "n < 32"
    by (simp; linarith)
  then show "bit (get_u32 (ucast (drop_bit 24 w)) (ucast (drop_bit 16 w)) (ucast (drop_bit 8 w)) (ucast w)) n
      = bit w n"
    by cases (auto simp: get_u32_def bit_simps)
qed

lemma put_u32_inj: "put_u32 a = put_u32 b \<longleftrightarrow> a = b"
proof
  assume eq: "put_u32 a = put_u32 b"
  have "a = get_u32 (ucast (drop_bit 24 a)) (ucast (drop_bit 16 a)) (ucast (drop_bit 8 a)) (ucast a)"
    by (simp add: get_put_u32)
  also have "\<dots> = get_u32 (ucast (drop_bit 24 b)) (ucast (drop_bit 16 b)) (ucast (drop_bit 8 b)) (ucast b)"
    using eq by (simp add: put_u32_def)
  also have "\<dots> = b" by (simp add: get_put_u32)
  finally show "a = b" .
qed simp

lemma of_nat_u32_inj:
  "m < 2 ^ 32 \<Longrightarrow> n < 2 ^ 32 \<Longrightarrow> (of_nat m :: 32 word) = of_nat n \<longleftrightarrow> m = n"
  by (simp add: word_of_nat_eq_iff take_bit_nat_eq_self)

section \<open>Strings as bytes\<close>

lemma of_char_byte_inj: "(of_char c :: byte) = of_char d \<longleftrightarrow> c = d"
proof
  assume "(of_char c :: byte) = of_char d"
  then have "(of_nat (of_char c) :: byte) = of_nat (of_char d)"
    by (simp only: of_nat_of_char)
  then have "(of_char c :: nat) = of_char d"
    by (simp add: word_of_nat_eq_iff take_bit_eq_mod)
  then show "c = d" by simp
qed simp

lemma str_bytes_inj [simp]: "str_bytes s = str_bytes t \<longleftrightarrow> s = t"
  unfolding str_bytes_def
  by (rule inj_map_eq_map) (simp add: inj_def of_char_byte_inj)

lemma length_str_bytes [simp]: "length (str_bytes s) = length s"
  by (simp add: str_bytes_def)

lemma str_bytes_simps [simp]:
  "str_bytes [] = []" "str_bytes (c # s) = of_char c # str_bytes s"
  "str_bytes (s @ t) = str_bytes s @ str_bytes t"
  by (simp_all add: str_bytes_def)

section \<open>Lists and association lists\<close>

lemma append_inj_length:
  "length xs = length ys \<Longrightarrow> xs @ us = ys @ vs \<longleftrightarrow> xs = ys \<and> us = vs"
  by simp

lemma concat_inj_fixlen:
  assumes "\<forall>x \<in> set xs. length x = n" and "\<forall>y \<in> set ys. length y = n"
    and "length xs = length ys" and "concat xs = concat ys"
  shows "xs = ys"
  using assms(3) assms(1,2,4)
  by (induction xs ys rule: list_induct2) auto

text \<open>Go's \<^verbatim>\<open>m[k] = v\<close> on an association list: the value of an existing key is replaced in place.\<close>

abbreviation mput :: "'k \<Rightarrow> 'v \<Rightarrow> ('k \<times> 'v) list \<Rightarrow> ('k \<times> 'v) list" where
  "mput \<equiv> AList.update"

abbreviation mdel :: "'k \<Rightarrow> ('k \<times> 'v) list \<Rightarrow> ('k \<times> 'v) list" where
  "mdel \<equiv> AList.delete"

abbreviation keys_of :: "('k \<times> 'v) list \<Rightarrow> 'k set" where
  "keys_of m \<equiv> fst ` set m"

definition map_wf :: "('k \<times> 'v) list \<Rightarrow> bool" where
  "map_wf m \<longleftrightarrow> distinct (map fst m)"

lemma map_wf_Nil [simp]: "map_wf []"
  by (simp add: map_wf_def)

lemma map_wf_mput [simp]: "map_wf m \<Longrightarrow> map_wf (mput k v m)"
  by (simp add: map_wf_def distinct_update)

lemma map_wf_mdel [simp]: "map_wf m \<Longrightarrow> map_wf (mdel k m)"
  by (simp add: map_wf_def distinct_delete)

lemma map_of_mput [simp]: "map_of (mput k v m) = (map_of m)(k \<mapsto> v)"
  by (simp add: update_conv')

lemma map_of_mdel [simp]: "map_of (mdel k m) = (map_of m)(k := None)"
  by (simp add: delete_conv')

lemma keys_of_mput [simp]: "keys_of (mput k v m) = insert k (keys_of m)"
proof -
  have "dom (map_of (mput k v m)) = insert k (dom (map_of m))" by simp
  then show ?thesis by (simp only: dom_map_of_conv_image_fst)
qed

lemma length_map_wf: "map_wf m \<Longrightarrow> length m = card (keys_of m)"
  by (metis distinct_card length_map list.set_map map_wf_def)

lemma length_mput:
  "map_wf m \<Longrightarrow> length (mput k v m) = (if k \<in> keys_of m then length m else Suc (length m))"
  by (simp add: length_map_wf insert_absorb)

lemma map_of_perm:
  "map_wf m \<Longrightarrow> mset m' = mset m \<Longrightarrow> map_of m' = map_of m"
proof -
  assume wf: "map_wf m" and perm: "mset m' = mset m"
  then have "distinct (map fst m')"
    by (metis map_wf_def mset_eq_imp_distinct_iff mset_map)
  moreover have "set m' = set m" using perm by (rule mset_eq_setD)
  ultimately show ?thesis using wf by (intro map_of_inject_set [THEN iffD2]) (auto simp: map_wf_def)
qed

end
