(* ===== verification/Go_Float.thy ===== *)
theory Go_Float
  imports Complex_Main Go_Base
begin

text \<open>
  Go's \<^verbatim>\<open>float64\<close>: IEEE 754 binary64 with rounding to nearest, ties to even. A finite value is
  the rational it denotes (the two zeros are one value), and an operation computes exactly and
  rounds once (\<open>rnd64\<close>), so every definition evaluates. The facts proved here are the ones
  the components use: integers up to \<^verbatim>\<open>2^53\<close> convert exactly, and rounding is monotone.
\<close>

datatype f64 = FNaN | FInf bool | Fin rat

text \<open>\<open>FInf True\<close> is minus infinity.\<close>

definition rne :: "rat \<Rightarrow> int" where
  "rne x =
     (let f = \<lfloor>x\<rfloor>; d = x - of_int f
      in if d < 1 / 2 then f else if d > 1 / 2 then f + 1 else if even f then f else f + 1)"

function lg :: "rat \<Rightarrow> int" where
  "lg x = (if x \<le> 0 then 0 else if x \<ge> 2 then 1 + lg (x / 2) else if x < 1 then lg (2 * x) - 1 else 0)"
  by pat_completeness auto

lemma floor_half_less: "(y :: rat) \<ge> 2 \<Longrightarrow> nat \<lfloor>y / 2\<rfloor> < nat \<lfloor>y\<rfloor>"
proof -
  assume y: "y \<ge> 2"
  have "of_int \<lfloor>y / 2\<rfloor> \<le> y / 2" by (rule of_int_floor_le)
  also have "y / 2 \<le> y - 1" using y by simp
  finally have "\<lfloor>y / 2\<rfloor> + 1 \<le> \<lfloor>y\<rfloor>" by (simp add: le_floor_iff)
  moreover have "0 \<le> \<lfloor>y / 2\<rfloor>" using y by simp
  ultimately show ?thesis by linarith
qed

termination lg
proof (relation "measure (\<lambda>x. if x \<ge> 2 then nat \<lfloor>x\<rfloor> else if x < 1 then nat \<lfloor>1 / x\<rfloor> else 0)", goal_cases)
  case (2 x)
  then show ?case using floor_half_less [of x] by auto
next
  case (3 x)
  have "nat \<lfloor>1 / (2 * x)\<rfloor> < nat \<lfloor>1 / x\<rfloor>" if "2 * x < 1"
    using floor_half_less [of "1 / x"] 3 that by (simp add: field_simps)
  moreover have "1 < 1 / x" using 3 by (simp add: field_simps)
  then have "0 < nat \<lfloor>1 / x\<rfloor>" by linarith
  ultimately show ?case using 3 by auto
qed simp

declare lg.simps [simp del]

definition rnd64 :: "rat \<Rightarrow> f64" where
  "rnd64 x =
     (if x = 0 then Fin 0
      else let q = 2 powi (max (lg \<bar>x\<bar> - 52) (- 1074)); y = of_int (rne (x / q)) * q
           in if \<bar>y\<bar> \<ge> 2 ^ 1024 then FInf (x < 0) else Fin y)"

definition f_of_int :: "int \<Rightarrow> f64" where
  "f_of_int n = rnd64 (of_int n)"

fun f_le :: "f64 \<Rightarrow> f64 \<Rightarrow> bool" where
  "f_le FNaN _ = False"
| "f_le _ FNaN = False"
| "f_le (FInf True) _ = True"
| "f_le _ (FInf False) = True"
| "f_le (FInf False) _ = False"
| "f_le _ (FInf True) = False"
| "f_le (Fin x) (Fin y) = (x \<le> y)"

definition f_lt :: "f64 \<Rightarrow> f64 \<Rightarrow> bool" where
  "f_lt a b \<longleftrightarrow> f_le a b \<and> \<not> f_le b a"

abbreviation f_ge :: "f64 \<Rightarrow> f64 \<Rightarrow> bool" where
  "f_ge a b \<equiv> f_le b a"

fun f_add :: "f64 \<Rightarrow> f64 \<Rightarrow> f64" where
  "f_add FNaN _ = FNaN"
| "f_add _ FNaN = FNaN"
| "f_add (FInf s) (FInf t) = (if s = t then FInf s else FNaN)"
| "f_add (FInf s) _ = FInf s"
| "f_add _ (FInf s) = FInf s"
| "f_add (Fin x) (Fin y) = rnd64 (x + y)"

fun f_neg :: "f64 \<Rightarrow> f64" where
  "f_neg FNaN = FNaN"
| "f_neg (FInf s) = FInf (\<not> s)"
| "f_neg (Fin x) = Fin (- x)"

definition f_sub :: "f64 \<Rightarrow> f64 \<Rightarrow> f64" where
  "f_sub a b = f_add a (f_neg b)"

fun f_mul :: "f64 \<Rightarrow> f64 \<Rightarrow> f64" where
  "f_mul FNaN _ = FNaN"
| "f_mul _ FNaN = FNaN"
| "f_mul (FInf s) (FInf t) = FInf (s \<noteq> t)"
| "f_mul (FInf s) (Fin y) = (if y = 0 then FNaN else FInf (s \<noteq> (y < 0)))"
| "f_mul (Fin x) (FInf t) = (if x = 0 then FNaN else FInf ((x < 0) \<noteq> t))"
| "f_mul (Fin x) (Fin y) = rnd64 (x * y)"

text \<open>\<^verbatim>\<open>math.Max\<close>: plus infinity wins over NaN, NaN over everything else.\<close>

definition f_max :: "f64 \<Rightarrow> f64 \<Rightarrow> f64" where
  "f_max a b =
     (if a = FInf False \<or> b = FInf False then FInf False
      else if a = FNaN \<or> b = FNaN then FNaN
      else if f_le b a then a else b)"

section \<open>Binary logarithm\<close>

lemma lg_bounds: "x > 0 \<Longrightarrow> 2 powi (lg x) \<le> x \<and> x < 2 powi (lg x + 1)"
proof (induction x rule: lg.induct)
  case (1 x)
  show ?case
  proof (cases "x \<ge> 2")
    case True
    then have "2 powi (lg (x / 2)) \<le> x / 2 \<and> x / 2 < 2 powi (lg (x / 2) + 1)" using 1 by simp
    then show ?thesis
      using True by (subst lg.simps, subst (2) lg.simps) (simp add: power_int_add field_simps)
  next
    case False
    show ?thesis
    proof (cases "x < 1")
      case True
      then have "2 powi (lg (2 * x)) \<le> 2 * x \<and> 2 * x < 2 powi (lg (2 * x) + 1)" using 1 by simp
      then show ?thesis
        using True "1.prems"
        by (subst lg.simps, subst (2) lg.simps) (simp add: power_int_diff power_int_add field_simps)
    next
      case False
      with \<open>\<not> x \<ge> 2\<close> show ?thesis by (subst lg.simps, subst (2) lg.simps) auto
    qed
  qed
qed

lemma powi2_mono: "(m :: int) \<le> n \<Longrightarrow> (2 :: rat) powi m \<le> 2 powi n"
  by (rule power_int_increasing) simp_all

lemma powi2_strict_mono: "(m :: int) < n \<Longrightarrow> (2 :: rat) powi m < 2 powi n"
  by (rule power_int_strict_increasing) simp_all

lemma powi2_mono_iff: "(2 :: rat) powi m < 2 powi n \<longleftrightarrow> m < n"
  using powi2_mono [of n m] powi2_strict_mono [of m n] by linarith

section \<open>Exact integers\<close>

lemma rne_of_int [simp]: "rne (of_int k) = k"
  by (simp add: rne_def)

lemma rnd64_exact:
  assumes "x / 2 powi (max (lg \<bar>x\<bar> - 52) (- 1074)) = of_int k" and "\<bar>x\<bar> < 2 ^ 1024"
  shows "rnd64 x = Fin x"
proof -
  let ?q = "2 powi (max (lg \<bar>x\<bar> - 52) (- 1074)) :: rat"
  have "of_int k * ?q = x" using assms(1) by (simp add: field_simps)
  then show ?thesis using assms by (simp add: rnd64_def Let_def)
qed

lemma f_of_int_exact:
  assumes "\<bar>n\<bar> \<le> 2 ^ 53"
  shows "f_of_int n = Fin (of_int n)"
proof (cases "n = 0")
  case False
  let ?x = "\<bar>of_int n\<bar> :: rat" and ?e = "lg \<bar>of_int n\<bar>"
  have "1 \<le> \<bar>n\<bar>" using False by simp
  then have pos: "?x \<ge> 1" by (metis of_int_1_le_iff of_int_abs)
  have b: "2 powi ?e \<le> ?x" "?x < 2 powi (?e + 1)" using lg_bounds [of ?x] pos by auto
  have le: "?x \<le> 2 powi 53" using assms
    by (metis of_int_abs of_int_le_iff of_int_numeral of_int_power power_int_numeral)
  have "2 powi 0 < (2 :: rat) powi (?e + 1)" using b pos by simp
  then have e0: "0 \<le> ?e" by (simp only: powi2_mono_iff)
  have e53: "?e \<le> 53"
  proof (rule ccontr)
    assume "\<not> ?e \<le> 53"
    then have "(2 :: rat) powi 53 < 2 powi ?e" by (intro powi2_strict_mono) simp
    with b le show False by linarith
  qed
  have "\<exists>k. of_int n / (2 :: rat) powi (?e - 52) = of_int k"
  proof (cases "?e = 53")
    case True
    then have "?x = 2 powi 53" using b le by simp
    then have "\<bar>n\<bar> = 2 ^ 53" using le
      by (metis of_int_abs of_int_eq_iff of_int_numeral of_int_power power_int_numeral)
    then have "n = 2 * (if 0 \<le> n then 2 ^ 52 else - (2 ^ 52))" by (auto split: if_splits)
    then obtain k where "n = 2 * k" by blast
    then show ?thesis using True by simp
  next
    case False
    then have "(2 :: rat) powi (?e - 52) = inverse (2 ^ nat (52 - ?e))"
      using e53 by (auto simp: power_int_def power_one_over inverse_eq_divide)
    then have "of_int n / (2 :: rat) powi (?e - 52) = of_int (n * 2 ^ nat (52 - ?e))"
      by (simp add: field_simps)
    then show ?thesis by blast
  qed
  moreover have "max (?e - 52) (- 1074) = ?e - 52" using e0 by simp
  moreover have "?x < 2 ^ 1024" using le by (simp add: power_int_def)
  ultimately show ?thesis unfolding f_of_int_def by (metis rnd64_exact)
qed (simp add: f_of_int_def rnd64_def)

section \<open>Rounding is monotone below a float\<close>

lemma rne_bounds: "\<lfloor>x\<rfloor> \<le> rne x" "rne x \<le> \<lfloor>x\<rfloor> + 1"
  by (simp_all add: rne_def Let_def)

lemma rne_mono: "x \<le> y \<Longrightarrow> rne x \<le> rne y"
proof (cases "\<lfloor>x\<rfloor> = \<lfloor>y\<rfloor>")
  case True
  moreover assume "x \<le> y"
  ultimately show ?thesis by (auto simp: rne_def Let_def)
next
  case False
  moreover assume "x \<le> y"
  ultimately have "\<lfloor>x\<rfloor> + 1 \<le> \<lfloor>y\<rfloor>" using floor_mono [of x y] by linarith
  then show ?thesis using rne_bounds [of x] rne_bounds [of y] by linarith
qed

text \<open>Rationals that are values of \<^verbatim>\<open>float64\<close>.\<close>

definition is_f64 :: "rat \<Rightarrow> bool" where
  "is_f64 z \<longleftrightarrow> rnd64 z = Fin z"

lemma powi2_split:
  assumes "a \<le> (b :: int)"
  shows "\<exists>k :: int. (2 :: rat) powi b = of_int k * 2 powi a"
proof -
  have "(2 :: rat) powi b = 2 powi (b - a) * 2 powi a" by (simp flip: power_int_add)
  moreover have "(2 :: rat) powi (b - a) = of_int (2 ^ nat (b - a))" using assms by (simp add: power_int_def)
  ultimately show ?thesis by metis
qed

lemma rnd64_below:
  assumes "0 < x" and "x \<le> z" and "is_f64 z"
  shows "\<exists>y. rnd64 x = Fin y \<and> 0 \<le> y \<and> y \<le> z"
proof -
  let ?qx = "2 powi (max (lg \<bar>x\<bar> - 52) (- 1074)) :: rat" and ?qz = "2 powi (max (lg \<bar>z\<bar> - 52) (- 1074)) :: rat"
  have z: "0 < z" using assms by simp
  have "2 powi lg x < (2 :: rat) powi (lg z + 1)"
    using lg_bounds [OF assms(1)] lg_bounds [OF z] assms(2) by linarith
  then have "lg x < lg z + 1" by (simp only: powi2_mono_iff)
  then have "max (lg \<bar>x\<bar> - 52) (- 1074) \<le> max (lg \<bar>z\<bar> - 52) (- 1074)" using assms(1) z by simp
  then obtain k where k: "?qz = of_int k * ?qx" using powi2_split by blast
  let ?m = "rne (z / ?qz)"
  have zm: "of_int ?m * ?qz = z" and zlt: "\<not> 2 ^ 1024 \<le> \<bar>z\<bar>"
    using assms(3) z by (auto simp: is_f64_def rnd64_def Let_def split: if_splits)
  have qpos: "0 < ?qx" by simp
  have zk: "z = of_int (?m * k) * ?qx" using zm k by (metis mult.assoc of_int_mult)
  then have "x / ?qx \<le> of_int (?m * k)" using assms(2) qpos by (simp add: field_simps)
  then have "rne (x / ?qx) \<le> ?m * k" using rne_mono by (metis rne_of_int)
  then have "of_int (rne (x / ?qx)) * ?qx \<le> of_int (?m * k) * ?qx"
    using qpos by (intro mult_right_mono) (simp_all only: of_int_le_iff less_imp_le)
  also have "\<dots> = z" by (rule zk [symmetric])
  finally have le: "of_int (rne (x / ?qx)) * ?qx \<le> z" .
  have "0 \<le> \<lfloor>x / ?qx\<rfloor>" using assms(1) qpos by simp
  then have "0 \<le> rne (x / ?qx)" using rne_bounds(1) [of "x / ?qx"] by linarith
  then have ge: "0 \<le> of_int (rne (x / ?qx)) * ?qx" by simp
  have "\<bar>of_int (rne (x / ?qx)) * ?qx\<bar> < 2 ^ 1024" using le ge zlt z by linarith
  then show ?thesis using le ge assms(1) by (simp add: rnd64_def Let_def not_le [symmetric])
qed

lemma rnd64_nonneg: "0 \<le> x \<Longrightarrow> rnd64 x = FInf False \<or> (\<exists>y. rnd64 x = Fin y \<and> 0 \<le> y)"
proof (cases "x = 0")
  case False
  moreover assume "0 \<le> x"
  ultimately have pos: "0 < x" by simp
  let ?q = "2 powi (max (lg \<bar>x\<bar> - 52) (- 1074)) :: rat"
  have "0 \<le> \<lfloor>x / ?q\<rfloor>" using pos by simp
  then have "0 \<le> rne (x / ?q)" using rne_bounds(1) [of "x / ?q"] by linarith
  then show ?thesis using pos by (simp add: rnd64_def Let_def)
qed (simp add: rnd64_def)

definition f_div :: "f64 \<Rightarrow> rat \<Rightarrow> f64" where
  "f_div a d = (case a of Fin x \<Rightarrow> rnd64 (x / d) | FInf s \<Rightarrow> FInf (s \<noteq> (d < 0)) | FNaN \<Rightarrow> FNaN)"

text \<open>Division of two floats; a zero divisor counts as the positive zero.\<close>

fun f_quot :: "f64 \<Rightarrow> f64 \<Rightarrow> f64" where
  "f_quot FNaN _ = FNaN"
| "f_quot _ FNaN = FNaN"
| "f_quot (FInf _) (FInf _) = FNaN"
| "f_quot (FInf s) (Fin y) = FInf (s \<noteq> (y < 0))"
| "f_quot (Fin _) (FInf _) = Fin 0"
| "f_quot (Fin x) (Fin y) = (if y = 0 then if x = 0 then FNaN else FInf (x < 0) else rnd64 (x / y))"

end
