(* ===== verification/Go_Value.thy ===== *)
theory Go_Value
  imports Go_Float "HOL-Library.Char_ord" "HOL-Library.List_Lexorder"
begin

text \<open>
  Go's \<^verbatim>\<open>any\<close>: the dynamic types that the framework and its phases put into a
  \<^verbatim>\<open>SessionContext\<close> or a constraint map, and the \<^verbatim>\<open>%v\<close> rendering of \<^verbatim>\<open>fmt.Sprintf\<close> on them, which
  \<^verbatim>\<open>equalConstraint\<close> compares. A value of an application's own type is \<open>VApp\<close>; its type is the
  parameter of \<open>any\<close>, and its rendering an argument of \<open>fmtv\<close>. A Go map is an association
  list with distinct keys; \<^verbatim>\<open>%v\<close> prints it in key order.
\<close>

datatype int_kind =
  KInt | KInt8 | KInt16 | KInt32 | KInt64 | KUint | KUint8 | KUint16 | KUint32 | KUint64

datatype 'v any =
    VNil
  | VBool bool
  | VInt int_kind int
  | VFloat64 f64
  | VFloat32 f64
  | VString string
  | VBytes bytes
  | VStrings "string list"
  | VByteMap "(string \<times> bytes) list"
  | VMap "(string \<times> 'v any) list"
  | VApp 'v

section \<open>Decimal numbers\<close>

definition digit_char :: "nat \<Rightarrow> char" where
  "digit_char d = char_of (48 + d)"

function dec_pos :: "int \<Rightarrow> string" where
  "dec_pos i =
     (if i < 10 then [digit_char (nat i)] else dec_pos (i div 10) @ [digit_char (nat (i mod 10))])"
  by pat_completeness auto
termination by (relation "measure nat") auto

declare dec_pos.simps [simp del]

definition dec_nat :: "nat \<Rightarrow> string" where
  "dec_nat n = dec_pos (int n)"

definition dec_int :: "int \<Rightarrow> string" where
  "dec_int i = (if i < 0 then CHR ''-'' # dec_pos (- i) else dec_pos i)"

fun undec_acc :: "int \<Rightarrow> string \<Rightarrow> int" where
  "undec_acc a [] = a"
| "undec_acc a (c # cs) = undec_acc (10 * a + (of_char c - 48)) cs"

lemma undec_acc_append: "undec_acc a (s @ t) = undec_acc (undec_acc a s) t"
  by (induction s arbitrary: a) auto

lemma of_digit_char: "d < 10 \<Longrightarrow> of_char (digit_char d) = (48 + d :: nat)"
  by (simp add: digit_char_def of_char_of)

lemma of_digit_char_int:
  assumes "0 \<le> d" and "d < 10"
  shows "of_char (digit_char (nat d)) = (48 + d :: int)"
proof -
  have "(of_char (digit_char (nat d)) :: int) = int (of_char (digit_char (nat d)))"
    by (rule of_nat_of_char [symmetric])
  then show ?thesis using assms of_digit_char [of "nat d"] by simp
qed

lemma undec_dec_pos: "0 \<le> i \<Longrightarrow> undec_acc 0 (dec_pos i) = i"
proof (induction i rule: dec_pos.induct)
  case (1 i)
  show ?case
  proof (cases "i < 10")
    case True
    then show ?thesis using 1 by (subst dec_pos.simps) (simp add: of_digit_char_int)
  next
    case False
    then have "undec_acc 0 (dec_pos i) = 10 * (i div 10) + i mod 10"
      using 1 by (subst dec_pos.simps) (simp add: undec_acc_append of_digit_char_int)
    then show ?thesis by simp
  qed
qed

lemma dec_pos_inj: "0 \<le> i \<Longrightarrow> 0 \<le> j \<Longrightarrow> dec_pos i = dec_pos j \<longleftrightarrow> i = j"
  by (metis undec_dec_pos)

lemma dec_nat_inj: "dec_nat m = dec_nat n \<longleftrightarrow> m = n"
  by (simp add: dec_nat_def dec_pos_inj)

lemma digit_char_no_minus: "n < 10 \<Longrightarrow> digit_char n \<noteq> CHR ''-''"
proof
  assume "n < 10" and "digit_char n = CHR ''-''"
  then have "(of_char (digit_char n) :: nat) = of_char (CHR ''-'')" by simp
  then show False using \<open>n < 10\<close> by (simp add: of_digit_char)
qed

lemma dec_pos_no_minus: "hd (dec_pos i) \<noteq> CHR ''-'' \<and> dec_pos i \<noteq> []"
proof (induction i rule: dec_pos.induct)
  case (1 i)
  have "digit_char (nat i) \<noteq> CHR ''-''" if "i < 10"
    using that by (intro digit_char_no_minus) simp
  then show ?case using 1 by (subst (1 2) dec_pos.simps) auto
qed

lemma dec_int_inj: "dec_int i = dec_int j \<longleftrightarrow> i = j"
  using dec_pos_no_minus [of i] dec_pos_no_minus [of j]
  by (auto simp: dec_int_def dec_pos_inj split: if_splits dest: sym)

section \<open>Floating point numbers in decimal\<close>

definition rnd32 :: "rat \<Rightarrow> f64" where
  "rnd32 x =
     (if x = 0 then Fin 0
      else let q = 2 powi (max (lg \<bar>x\<bar> - 23) (- 149)); y = of_int (rne (x / q)) * q
           in if \<bar>y\<bar> \<ge> 2 ^ 128 then FInf (x < 0) else Fin y)"

text \<open>The decimal exponent of a positive number, found by scanning the range of a \<^verbatim>\<open>float64\<close>.\<close>

definition lg10 :: "rat \<Rightarrow> int" where
  "lg10 x = (case List.find (\<lambda>e. 10 powi e \<le> x) (rev [-400..400]) of None \<Rightarrow> 0 | Some e \<Rightarrow> e)"

text \<open>
  \<^verbatim>\<open>strconv\<close>'s shortest digits: the least number of digits whose nearest decimal reads back as the
  number (17 digits always do); the result is the digit string and the decimal exponent of its
  first digit.
\<close>

definition round_digits :: "nat \<Rightarrow> rat \<Rightarrow> int \<times> int" where
  "round_digits n x =
     (let e = lg10 x; m = rne (x / 10 powi (e - int n + 1))
      in if m = 10 ^ n then (10 ^ (n - 1), e + 1) else (m, e))"

definition shortest :: "(rat \<Rightarrow> f64) \<Rightarrow> rat \<Rightarrow> string \<times> int" where
  "shortest rnd x =
     (let ok = (\<lambda>n. let (m, e) = round_digits n x
                    in rnd (of_int m * 10 powi (e - int n + 1)) = Fin x);
          n = (case List.find ok [1..<17] of None \<Rightarrow> 17 | Some n \<Rightarrow> n);
          (m, e) = round_digits n x
      in (dec_pos m, e))"

definition fmt_exp :: "int \<Rightarrow> string" where
  "fmt_exp e =
     (let s = dec_pos \<bar>e\<bar>
      in ''e'' @ (if e < 0 then ''-'' else ''+'') @ (if length s < 2 then CHR ''0'' # s else s))"

definition fmt_digits :: "string \<Rightarrow> int \<Rightarrow> string" where
  "fmt_digits ds e =
     (if e < - 4 \<or> e \<ge> 6 then take 1 ds @ (if length ds > 1 then ''.'' @ tl ds else []) @ fmt_exp e
      else if e < 0 then ''0.'' @ replicate (nat (- e) - 1) (CHR ''0'') @ ds
      else let k = nat e + 1
           in take k ds @ replicate (k - length ds) (CHR ''0'') @
              (if length ds > k then ''.'' @ drop k ds else []))"

fun fmt_float :: "(rat \<Rightarrow> f64) \<Rightarrow> f64 \<Rightarrow> string" where
  "fmt_float rnd FNaN = ''NaN''"
| "fmt_float rnd (FInf s) = (if s then ''-Inf'' else ''+Inf'')"
| "fmt_float rnd (Fin x) =
     (if x = 0 then ''0''
      else let (ds, e) = shortest rnd \<bar>x\<bar> in (if x < 0 then ''-'' else []) @ fmt_digits ds e)"

section \<open>The rendering \<open>%v\<close>\<close>

fun join_with :: "string \<Rightarrow> string list \<Rightarrow> string" where
  "join_with sep [] = []"
| "join_with sep [s] = s"
| "join_with sep (s # t # ss) = s @ sep @ join_with sep (t # ss)"

definition fmt_map :: "(string \<times> string) list \<Rightarrow> string" where
  "fmt_map m = ''map['' @ join_with '' '' (map (\<lambda>(k, v). k @ '':'' @ v) (sort_key fst m)) @ '']''"

definition fmt_byte_slice :: "bytes \<Rightarrow> string" where
  "fmt_byte_slice b = ''['' @ join_with '' '' (map (\<lambda>x. dec_nat (unat x)) b) @ '']''"

fun fmtv :: "('v \<Rightarrow> string) \<Rightarrow> 'v any \<Rightarrow> string" where
  "fmtv app VNil = ''<nil>''"
| "fmtv app (VBool b) = (if b then ''true'' else ''false'')"
| "fmtv app (VInt k i) = dec_int i"
| "fmtv app (VFloat64 x) = fmt_float rnd64 x"
| "fmtv app (VFloat32 x) = fmt_float rnd32 x"
| "fmtv app (VString s) = s"
| "fmtv app (VBytes b) = fmt_byte_slice b"
| "fmtv app (VStrings ss) = ''['' @ join_with '' '' ss @ '']''"
| "fmtv app (VByteMap m) = fmt_map (map (\<lambda>(k, b). (k, fmt_byte_slice b)) m)"
| "fmtv app (VMap m) = fmt_map (map (\<lambda>(k, v). (k, fmtv app v)) m)"
| "fmtv app (VApp v) = app v"

end
