(* ===== verification/Bridge_Native.thy ===== *)
theory Bridge_Native
  imports Go_Value
begin

text \<open>
  The ground floor of \<^verbatim>\<open>pkg/ares/crypto/cgo\<close>, the Go side of the OpenFHE bridge: its parameter and
  key types, and the discipline by which Go code holds objects of the C++ library.

  A C handle is an address in an explicit native heap. A cell of the heap holds an object of the
  library, or a buffer the library has malloc'd for Go to copy and free. A call that is given a
  dead handle, a handle of another type, or an array that is too short, and a second free, add to the
  \<^emph>\<open>fault\<close> counter of the state: that is the undefined behaviour of the C side. A program of the bridge is a
  function of the state that returns an \<open>outcome\<close> and the new state, or \<open>None\<close> when it never
  returns. \<^verbatim>\<open>defer\<close> is \<open>deferring\<close>: it runs after the body whatever the outcome, a panic included.

  The library itself (OpenFHE behind \<^verbatim>\<open>openfhe_wrapper.cpp\<close>) is a parameter, the record \<open>openfhe\<close>:
  one function for every kind of C call, over objects of any type and a hidden state (\<open>ns_world\<close>: the
  random numbers, the caches of evaluation keys, what a context remembers). Nothing is assumed of it; in
  particular every call may fail. A \<^verbatim>\<open>DeserializeAVectors\<close> that fails has allocated its object already, and leaves a
  \<open>HalfRead\<close> cell that no handle names.

  \<open>triple P H m Q\<close> is the ownership logic: the program \<open>m\<close> owns the cells \<open>P\<close>, borrows the cells \<open>H\<close>, and
  leaves the cells \<open>Q\<close> of its outcome behind; every other cell is as it was, nothing is freed twice or
  used after it was freed, and \<open>m\<close> returns. \<open>secure H own m\<close> is its form for a program that starts
  with nothing, and \<open>balanced m\<close> the closed form: \<open>m\<close> leaves the heap exactly as it found it.
\<close>

section \<open>Parameters and key types\<close>

record cgo_params =
  cg_RingDim :: "32 word"
  cg_ScalingFactor :: f64
  cg_Depth :: "32 word"
  cg_MinimalRotationKeys :: bool
  cg_ProfileDim :: int
  cg_PayloadSlotCount :: int
  cg_EvalSumOnlyRotationKeys :: bool

partial_function (option) double_until :: "32 word \<Rightarrow> 32 word \<Rightarrow> (32 word) option" where
  "double_until target ringDim = (if ringDim < target then double_until target (push_bit 1 ringDim) else Some ringDim)"

definition DefaultContractParams :: "int \<Rightarrow> 32 word \<Rightarrow> cgo_params option" where
  "DefaultContractParams profileDim depth =
     (case (if profileDim > 0
            then map_option (\<lambda>d. if d < 1024 then 1024 else d) (double_until (word_of_int (profileDim * 2)) 1)
            else Some 1024) of
        None \<Rightarrow> None
      | Some ringDim \<Rightarrow>
          Some \<lparr> cg_RingDim = ringDim, cg_ScalingFactor = Fin (2 ^ 50), cg_Depth = (if depth = 0 then 30 else depth),
                 cg_MinimalRotationKeys = False, cg_ProfileDim = 0, cg_PayloadSlotCount = 0,
                 cg_EvalSumOnlyRotationKeys = False \<rparr>)"

record key_share =
  ks_PublicKey :: bytes
  ks_SecretKeyShare :: bytes
  ks_Lead :: bool

record eval_key_final =
  ek_EvalMultFinal :: bytes
  ek_EvalSumFinal :: bytes

record bfv_params =
  bf_RingDim :: "32 word"
  bf_MultiplicativeDepth :: "32 word"
  bf_PlaintextModulus :: "64 word"
  bf_BatchSize :: int

text \<open>\<^verbatim>\<open>if err != nil { return ..., err }\<close> between calls that keep no native object.\<close>

definition obind :: "(string, 'a) outcome \<Rightarrow> ('a \<Rightarrow> (string, 'b) outcome) \<Rightarrow> (string, 'b) outcome" where
  "obind r k = (case r of Ok a \<Rightarrow> k a | Err e \<Rightarrow> Err e | Panic m \<Rightarrow> Panic m)"

section \<open>The native heap and programs\<close>

datatype hkind =
  CryptoContextHandle | PublicKeyHandle | SecretKeyShareHandle | EvalMultKeyHandle | RotKeyHandle
| CiphertextHandle | AVectorsHandle | CBuffer

text \<open>\<open>HalfRead\<close> is a set of a-vectors whose reading was broken off by an exception: memory that no handle names.\<close>

datatype 'o cell = Obj hkind 'o | Buf bytes | HalfRead

fun cell_kind :: "'o cell \<Rightarrow> hkind" where
  "cell_kind (Obj k _) = k"
| "cell_kind (Buf _) = CBuffer"
| "cell_kind HalfRead = CBuffer"

record ('o, 'g) native =
  ns_cells :: "nat \<Rightarrow> 'o cell option"
  ns_next :: nat
  ns_fault :: nat
  ns_world :: 'g

type_synonym ('o, 'g, 'a) prog = "('o, 'g) native \<Rightarrow> ((string, 'a) outcome \<times> ('o, 'g) native) option"

definition nret :: "'a \<Rightarrow> ('o, 'g, 'a) prog" where "nret a s = Some (Ok a, s)"
definition nfail :: "string \<Rightarrow> ('o, 'g, 'a) prog" where "nfail e s = Some (Err e, s)"
definition npanic :: "string \<Rightarrow> ('o, 'g, 'a) prog" where "npanic m s = Some (Panic m, s)"

definition nfault :: "('o, 'g, 'a) prog" where
  "nfault s = Some (Panic ''undefined behaviour'', s\<lparr> ns_fault := Suc (ns_fault s) \<rparr>)"

definition nbind :: "('o, 'g, 'a) prog \<Rightarrow> ('a \<Rightarrow> ('o, 'g, 'b) prog) \<Rightarrow> ('o, 'g, 'b) prog" where
  "nbind m k s =
     (case m s of
        None \<Rightarrow> None
      | Some (Ok a, s') \<Rightarrow> k a s'
      | Some (Err e, s') \<Rightarrow> Some (Err e, s')
      | Some (Panic p, s') \<Rightarrow> Some (Panic p, s'))"

definition deferring :: "('o, 'g, unit) prog \<Rightarrow> ('o, 'g, 'a) prog \<Rightarrow> ('o, 'g, 'a) prog" where
  "deferring d m s =
     (case m s of
        None \<Rightarrow> None
      | Some (r, s') \<Rightarrow>
          (case d s' of
             None \<Rightarrow> None
           | Some (Panic p, s'') \<Rightarrow> Some (Panic p, s'')
           | Some (_, s'') \<Rightarrow> Some (r, s'')))"

text \<open>\<^verbatim>\<open>if err != nil { ...; return ..., err }\<close> with a clean-up that is not deferred.\<close>

definition on_error :: "('o, 'g, unit) prog \<Rightarrow> ('o, 'g, 'a) prog \<Rightarrow> ('o, 'g, 'a) prog" where
  "on_error d m s =
     (case m s of
        Some (Err e, s') \<Rightarrow> nbind d (\<lambda>_. nfail e) s'
      | r \<Rightarrow> r)"

text \<open>\<^verbatim>\<open>fmt.Errorf("lbl: %w", err)\<close>.\<close>

definition relabel :: "string \<Rightarrow> ('o, 'g, 'a) prog \<Rightarrow> ('o, 'g, 'a) prog" where
  "relabel lbl m s =
     (case m s of
        Some (Err e, s') \<Rightarrow> Some (Err (lbl @ '': '' @ e), s')
      | r \<Rightarrow> r)"

definition alloc :: "'o cell \<Rightarrow> ('o, 'g, nat) prog" where
  "alloc c s = Some (Ok (ns_next s), s\<lparr> ns_cells := (ns_cells s)(ns_next s \<mapsto> c), ns_next := Suc (ns_next s) \<rparr>)"

definition peek :: "hkind \<Rightarrow> nat \<Rightarrow> ('o, 'g, 'o) prog" where
  "peek k x s =
     (case ns_cells s x of
        Some (Obj k' c) \<Rightarrow> if k' = k then Some (Ok c, s) else nfault s
      | _ \<Rightarrow> nfault s)"

fun peeks :: "(nat \<times> hkind) list \<Rightarrow> ('o, 'g, 'o list) prog" where
  "peeks [] = nret []"
| "peeks ((x, k) # xs) = nbind (peek k x) (\<lambda>c. nbind (peeks xs) (\<lambda>cs. nret (c # cs)))"

definition nput :: "nat \<Rightarrow> 'o cell \<Rightarrow> ('o, 'g, unit) prog" where
  "nput x c s = Some (Ok (), s\<lparr> ns_cells := (ns_cells s)(x \<mapsto> c) \<rparr>)"

text \<open>Address 0 is \<^verbatim>\<open>NULL\<close>: freeing it does nothing, any other use is a fault, for no cell is there.\<close>

definition nfree :: "hkind \<Rightarrow> nat \<Rightarrow> ('o, 'g, unit) prog" where
  "nfree k x s =
     (if x = 0 then nret () s
      else case ns_cells s x of
        Some c \<Rightarrow> if cell_kind c = k then Some (Ok (), s\<lparr> ns_cells := (ns_cells s)(x := None) \<rparr>) else nfault s
      | None \<Rightarrow> nfault s)"

fun free_all :: "hkind \<Rightarrow> nat list \<Rightarrow> ('o, 'g, unit) prog" where
  "free_all k [] = nret ()"
| "free_all k (x # xs) = nbind (nfree k x) (\<lambda>_. free_all k xs)"

text \<open>\<^verbatim>\<open>x, err := m; if err != nil { return err }; defer C.Free(x); body\<close>.\<close>

definition scoped :: "('o, 'g, nat) prog \<Rightarrow> hkind \<Rightarrow> (nat \<Rightarrow> ('o, 'g, 'a) prog) \<Rightarrow> ('o, 'g, 'a) prog" where
  "scoped m k body = nbind m (\<lambda>x. deferring (nfree k x) (body x))"

definition scoped_all :: "('o, 'g, nat list) prog \<Rightarrow> hkind \<Rightarrow> (nat list \<Rightarrow> ('o, 'g, 'a) prog) \<Rightarrow> ('o, 'g, 'a) prog" where
  "scoped_all m k body = nbind m (\<lambda>xs. deferring (free_all k xs) (body xs))"

text \<open>\<^verbatim>\<open>r, err := m; C.Free(x); if err != nil { return err }\<close>: a free that is not deferred, and that a panic of \<open>m\<close> skips.\<close>

definition freeing :: "hkind \<Rightarrow> nat \<Rightarrow> ('o, 'g, 'a) prog \<Rightarrow> ('o, 'g, 'a) prog" where
  "freeing k x m s = (case m s of Some (Panic p, s') \<Rightarrow> Some (Panic p, s') | _ \<Rightarrow> deferring (nfree k x) m s)"

section \<open>The C interface\<close>

text \<open>
  The functions of \<^verbatim>\<open>openfhe_wrapper.h\<close> by what they do with objects: make a context, make a key pair, make one
  object from objects, change an object in place, change the hidden state, write an object to bytes, and the
  functions that are determined by their arguments: reading an object from bytes and combining shares. Scalar arguments are arguments of the name.
\<close>

datatype c_ctx =
  CreateCKKSContext "32 word" f64 "32 word" "32 word"
| CreateBFVContext "32 word" "32 word" "64 word" "32 word"

datatype c_new =
  GenEvalMultKeyShare | GenRotKeyShare
| EvalMultKeyGenLead | EvalMultKeySwitchShare | EvalMultKeyFinalShare | SingleKeyEvalMultKeyGenWithOutput
| EvalSumKeyGenLead | EvalSumKeyShare | StreamedEvalSumKeyGenLead | StreamedEvalSumKeyShare
| GeneratePerIndexEvalSumKey "32 word" | GeneratePerIndexEvalSumShare "32 word"
| EncryptDoubles "f64 list" | EncryptPackedInt "int list"
| EvalAdd_c | EvalSub_c | EvalMult_c | EvalMultConst f64 | EvalSum_c "32 word" | EvalPolynomial "f64 list" | MultiDecMain

fun new_kind :: "c_new \<Rightarrow> hkind" where
  "new_kind GenEvalMultKeyShare = EvalMultKeyHandle"
| "new_kind EvalMultKeyGenLead = EvalMultKeyHandle"
| "new_kind EvalMultKeySwitchShare = EvalMultKeyHandle"
| "new_kind EvalMultKeyFinalShare = EvalMultKeyHandle"
| "new_kind SingleKeyEvalMultKeyGenWithOutput = EvalMultKeyHandle"
| "new_kind GenRotKeyShare = RotKeyHandle"
| "new_kind EvalSumKeyGenLead = RotKeyHandle"
| "new_kind EvalSumKeyShare = RotKeyHandle"
| "new_kind StreamedEvalSumKeyGenLead = RotKeyHandle"
| "new_kind StreamedEvalSumKeyShare = RotKeyHandle"
| "new_kind (GeneratePerIndexEvalSumKey _) = RotKeyHandle"
| "new_kind (GeneratePerIndexEvalSumShare _) = RotKeyHandle"
| "new_kind _ = CiphertextHandle"

datatype c_upd = EvalSumCombineFold | MergeEvalSumKeyMaps

datatype c_act =
  SetMinimalRotationKeys "32 word" "32 word" | SetEvalSumOnlyRotationKeys "32 word"
| InsertEvalMultKey | InsertEvalSumKey | ClearEvalSumKeysForContext | InsertEvalSumKeyAppend | SingleKeyEvalMultKeyGen

datatype c_ser =
  SerializePublicKey | SerializeSecretKeyShare | SerializeEvalMultKey | SerializeRotKey | SerializeCiphertext
| SerializeRotKeyAVectors | SerializeRotKeyBVectors

fun ser_kind :: "c_ser \<Rightarrow> hkind" where
  "ser_kind SerializePublicKey = PublicKeyHandle"
| "ser_kind SerializeSecretKeyShare = SecretKeyShareHandle"
| "ser_kind SerializeEvalMultKey = EvalMultKeyHandle"
| "ser_kind SerializeCiphertext = CiphertextHandle"
| "ser_kind _ = RotKeyHandle"

datatype c_fun =
  DeserializePublicKey | DeserializeSecretKeyShare bool | DeserializeEvalMultKey | DeserializeRotKey | DeserializeCiphertext
| DeserializeAVectors | ReconstructRotKeyFromAB | ReconstructRotKeyFromAVectors
| CombineEvalMultSwitchShares_c | CombineEvalMultFinalShares | CombineEvalSumKeys | EvalSumCombineStart

fun fun_kind :: "c_fun \<Rightarrow> hkind" where
  "fun_kind DeserializePublicKey = PublicKeyHandle"
| "fun_kind (DeserializeSecretKeyShare _) = SecretKeyShareHandle"
| "fun_kind DeserializeEvalMultKey = EvalMultKeyHandle"
| "fun_kind CombineEvalMultSwitchShares_c = EvalMultKeyHandle"
| "fun_kind CombineEvalMultFinalShares = EvalMultKeyHandle"
| "fun_kind DeserializeCiphertext = CiphertextHandle"
| "fun_kind DeserializeAVectors = AVectorsHandle"
| "fun_kind _ = RotKeyHandle"

datatype c_dec = MultiDecFusion | DecryptSingle

text \<open>These write their result into a buffer: whether they succeeded, and the buffer, if there is one.\<close>

datatype c_blob =
  EncryptSerializedRepeatedScalarCKKS f64 | EncryptSerializedRepeatedScalarBFV int
| ComputeSerializedSquaredDistanceCKKS f64 f64 | ComputeSerializedSquaredDistanceBFV int int

record ('o, 'g) openfhe =
  lib_ctx :: "c_ctx \<Rightarrow> 'g \<Rightarrow> 'o option \<times> 'g"
  lib_keygen :: "'o \<Rightarrow> 'o option \<Rightarrow> 'g \<Rightarrow> ('o \<times> 'o) option \<times> 'g"
  lib_new :: "c_new \<Rightarrow> 'o list \<Rightarrow> 'g \<Rightarrow> 'o option \<times> 'g"
  lib_upd :: "c_upd \<Rightarrow> 'o list \<Rightarrow> 'o \<Rightarrow> bool \<times> 'o"
  lib_act :: "c_act \<Rightarrow> 'o list \<Rightarrow> 'g \<Rightarrow> bool \<times> 'g"
  lib_ser :: "c_ser \<Rightarrow> 'o \<Rightarrow> bytes option"
  lib_fun :: "c_fun \<Rightarrow> 'o list \<Rightarrow> bytes list \<Rightarrow> 'o option"
  lib_idx :: "'o \<Rightarrow> 'g \<Rightarrow> (32 word) list option"
  lib_argmax :: "'o list \<Rightarrow> f64 list \<Rightarrow> 'g \<Rightarrow> (int + 'o list) \<times> 'g"
  lib_dec :: "c_dec \<Rightarrow> 'o list \<Rightarrow> 32 word \<Rightarrow> 'g \<Rightarrow> f64 list option \<times> 'g"
  lib_decint :: "'o list \<Rightarrow> 32 word \<Rightarrow> 'g \<Rightarrow> int list option \<times> 'g"
  lib_blob :: "c_blob \<Rightarrow> 'o list \<Rightarrow> bytes list \<Rightarrow> 'g \<Rightarrow> (bool \<times> bytes option) \<times> 'g"

text \<open>A call that reads and changes the hidden state.\<close>

definition with_world :: "('g \<Rightarrow> 'x \<times> 'g) \<Rightarrow> ('x \<Rightarrow> ('o, 'g, 'a) prog) \<Rightarrow> ('o, 'g, 'a) prog" where
  "with_world f k s = (case f (ns_world s) of (v, g) \<Rightarrow> k v (s\<lparr> ns_world := g \<rparr>))"

definition c_make :: "('o, 'g) openfhe \<Rightarrow> c_new \<Rightarrow> (nat \<times> hkind) list \<Rightarrow> string \<Rightarrow> ('o, 'g, nat) prog" where
  "c_make L op args msg =
     nbind (peeks args) (\<lambda>cs.
     with_world (lib_new L op cs) (\<lambda>res.
       case res of None \<Rightarrow> nfail msg | Some c \<Rightarrow> alloc (Obj (new_kind op) c)))"

definition c_keygen :: "('o, 'g) openfhe \<Rightarrow> nat \<Rightarrow> nat option \<Rightarrow> string \<Rightarrow> ('o, 'g, nat \<times> nat) prog" where
  "c_keygen L ctx prev msg =
     nbind (peek CryptoContextHandle ctx) (\<lambda>c.
     nbind (case prev of None \<Rightarrow> nret None | Some p \<Rightarrow> nbind (peek PublicKeyHandle p) (\<lambda>o1. nret (Some o1))) (\<lambda>po.
     with_world (lib_keygen L c po) (\<lambda>res.
       case res of
         None \<Rightarrow> nfail msg
       | Some ks \<Rightarrow>
           nbind (alloc (Obj PublicKeyHandle (fst ks))) (\<lambda>x.
           nbind (alloc (Obj SecretKeyShareHandle (snd ks))) (\<lambda>y. nret (x, y))))))"

definition c_update :: "('o, 'g) openfhe \<Rightarrow> c_upd \<Rightarrow> (nat \<times> hkind) list \<Rightarrow> nat \<Rightarrow> string \<Rightarrow> ('o, 'g, unit) prog" where
  "c_update L op args acc msg =
     nbind (peeks args) (\<lambda>cs.
     nbind (peek RotKeyHandle acc) (\<lambda>c.
     nbind (nput acc (Obj RotKeyHandle (snd (lib_upd L op cs c)))) (\<lambda>_.
       if fst (lib_upd L op cs c) then nret () else nfail msg)))"

definition c_act :: "('o, 'g) openfhe \<Rightarrow> c_act \<Rightarrow> (nat \<times> hkind) list \<Rightarrow> ('o, 'g, bool) prog" where
  "c_act L op args =
     nbind (peeks args) (\<lambda>cs. with_world (lib_act L op cs) nret)"

definition c_insert :: "('o, 'g) openfhe \<Rightarrow> c_act \<Rightarrow> (nat \<times> hkind) list \<Rightarrow> string \<Rightarrow> ('o, 'g, unit) prog" where
  "c_insert L op args msg = nbind (c_act L op args) (\<lambda>rc. if rc then nret () else nfail msg)"

text \<open>\<^verbatim>\<open>C.GoBytes(data, C.int(n))\<close>: the length is cut to 32 bits and read as a signed number.\<close>

definition copyCBytes :: "bytes \<Rightarrow> ('o, 'g, bytes) prog" where
  "copyCBytes bs =
     (if bs = [] then nret []
      else let n = sint (word_of_nat (length bs) :: 32 word)
           in if n < 0 then npanic ''runtime error: gobytes: length out of range'' else nret (take (nat n) bs))"

definition c_serialize :: "('o, 'g) openfhe \<Rightarrow> c_ser \<Rightarrow> nat \<Rightarrow> string \<Rightarrow> ('o, 'g, bytes) prog" where
  "c_serialize L op x msg =
     nbind (peek (ser_kind op) x) (\<lambda>c.
       case lib_ser L op c of
         None \<Rightarrow> nfail msg
       | Some bs \<Rightarrow> scoped (alloc (Buf bs)) CBuffer (\<lambda>_. copyCBytes bs))"

text \<open>
  The routines that read or combine objects make theirs at the end, when nothing can fail any more. The exception is
  \<^verbatim>\<open>DeserializeAVectors\<close>: it makes the object first and reads into it, and when the reading throws it returns \<^verbatim>\<open>nullptr\<close> without deleting
  it. No one has the address of that object: it is lost.
\<close>

definition build_failed :: "c_fun \<Rightarrow> string \<Rightarrow> ('o, 'g, nat) prog" where
  "build_failed op msg = (if op = DeserializeAVectors then nbind (alloc HalfRead) (\<lambda>_. nfail msg) else nfail msg)"

definition c_build ::
  "('o, 'g) openfhe \<Rightarrow> c_fun \<Rightarrow> (nat \<times> hkind) list \<Rightarrow> bytes list \<Rightarrow> string \<Rightarrow> string \<Rightarrow> ('o, 'g, nat) prog" where
  "c_build L op args raws required msg =
     (if [] \<in> set raws then nfail required
      else nbind (peeks args) (\<lambda>cs.
             case lib_fun L op cs raws of
               None \<Rightarrow> build_failed op msg
             | Some c \<Rightarrow> alloc (Obj (fun_kind op) c)))"

section \<open>Ownership\<close>

named_theorems secure_intros \<open>introduction rules for programs that free what they make\<close>

definition heap_ok :: "('o, 'g) native \<Rightarrow> bool" where
  "heap_ok s \<longleftrightarrow> 0 < ns_next s \<and> ns_cells s 0 = None \<and> (\<forall>x \<ge> ns_next s. ns_cells s x = None)"

text \<open>
  A list of addresses, each with what is known of the cell there: its kind, or exactly what it holds.
  A postcondition that no state satisfies is \<open>never\<close>: the program does not have that outcome.
\<close>

type_synonym 'o assn = "(nat \<times> ('o cell \<Rightarrow> bool)) list"

definition live :: "('o, 'g) native \<Rightarrow> nat \<times> ('o cell \<Rightarrow> bool) \<Rightarrow> bool" where
  "live s xk \<longleftrightarrow> (\<exists>c. ns_cells s (fst xk) = Some c \<and> snd xk c)"

definition never :: "'o assn" where "never = [(0, \<lambda>_. False)]"

definition is_kind :: "hkind \<Rightarrow> 'o cell \<Rightarrow> bool" where "is_kind k c \<longleftrightarrow> cell_kind c = k"

abbreviation adrs :: "(nat \<times> 'k) list \<Rightarrow> nat set" where "adrs P \<equiv> fst ` set P"

definition owns :: "('o, 'g) native \<Rightarrow> 'o assn \<Rightarrow> 'o assn \<Rightarrow> bool" where
  "owns s P H \<longleftrightarrow> heap_ok s \<and> (\<forall>xk \<in> set P \<union> set H. live s xk) \<and> distinct (map fst P) \<and> adrs P \<inter> adrs H = {}"

definition moved :: "('o, 'g) native \<Rightarrow> ('o, 'g) native \<Rightarrow> 'o assn \<Rightarrow> 'o assn \<Rightarrow> 'o assn \<Rightarrow> bool" where
  "moved s s' P H Q \<longleftrightarrow>
     ns_fault s' = ns_fault s \<and> ns_next s \<le> ns_next s' \<and>
     (\<forall>x \<in> adrs Q. x \<in> adrs P \<or> ns_next s \<le> x) \<and>
     (\<forall>x. x \<notin> adrs Q \<longrightarrow> x \<notin> adrs H \<longrightarrow> ns_cells s' x = (if x \<in> adrs P then None else ns_cells s x))"

definition triple :: "'o assn \<Rightarrow> 'o assn \<Rightarrow> ('o, 'g, 'a) prog \<Rightarrow> ((string, 'a) outcome \<Rightarrow> 'o assn) \<Rightarrow> bool" where
  "triple P H m Q \<longleftrightarrow>
     (\<forall>s. owns s P H \<longrightarrow> (\<exists>r s'. m s = Some (r, s') \<and> owns s' (Q r) H \<and> moved s s' P H (Q r)))"

definition owned :: "('a \<Rightarrow> 'k list) \<Rightarrow> (string, 'a) outcome \<Rightarrow> 'k list" where
  "owned own r = (case r of Ok a \<Rightarrow> own a | _ \<Rightarrow> [])"

lemma owned_simps [simp]: "owned own (Ok a) = own a" "owned own (Err e) = []" "owned own (Panic p) = []"
  by (simp_all add: owned_def)

text \<open>The form that knows the kinds of the cells only.\<close>

type_synonym cells = "(nat \<times> hkind) list"

definition kinds :: "cells \<Rightarrow> 'o assn" where "kinds H = map (\<lambda>(x, k). (x, is_kind k)) H"

lemma kinds_simps [simp]:
  "kinds [] = []" "kinds ((x, k) # H) = (x, is_kind k) # kinds H" "kinds (H @ H') = kinds H @ kinds H'" "adrs (kinds H) = adrs H"
  by (auto simp: kinds_def image_iff) force+

lemma nbind_assoc: "nbind (nbind m k) h = nbind m (\<lambda>a. nbind (k a) h)"
  by (auto simp: fun_eq_iff nbind_def split: option.split outcome.split)

lemma kinds_owned: "(\<lambda>r. kinds (owned own r)) = owned (\<lambda>a. kinds (own a))"
  by (auto simp: fun_eq_iff owned_def split: outcome.splits)

definition secure :: "cells \<Rightarrow> ('a \<Rightarrow> cells) \<Rightarrow> ('o, 'g, 'a) prog \<Rightarrow> bool" where
  "secure H own m \<longleftrightarrow> triple [] (kinds H) m (owned (\<lambda>a. kinds (own a)))"

abbreviation nothing :: "'a \<Rightarrow> cells" where "nothing \<equiv> \<lambda>_. []"

definition balanced :: "('o, 'g, 'a) prog \<Rightarrow> bool" where
  "balanced m \<longleftrightarrow> secure [] nothing m"

text \<open>What the closed form says: the program returns, the heap is the one it started from, and there is no fault.\<close>

lemma live_below: "heap_ok s \<Longrightarrow> live s xk \<Longrightarrow> fst xk < ns_next s"
  by (metis heap_ok_def linorder_not_less live_def option.distinct(1))

lemma live_nonzero: "heap_ok s \<Longrightarrow> live s xk \<Longrightarrow> fst xk \<noteq> 0"
  by (metis heap_ok_def live_def option.distinct(1))

lemma balanced_iff:
  fixes m :: "('a, 'b, 'c) prog"
  shows "balanced m \<longleftrightarrow>
     (\<forall>s. heap_ok s \<longrightarrow> (\<exists>r s'. m s = Some (r, s') \<and> ns_cells s' = ns_cells s \<and> ns_fault s' = ns_fault s \<and>
                              ns_next s \<le> ns_next s' ))"
proof -
  have "owned (\<lambda>_. [] :: 'a assn) r = []" for r :: "(string, 'c) outcome" by (cases r) auto
  moreover have "heap_ok s \<Longrightarrow> ns_next s \<le> ns_next s' \<Longrightarrow> ns_cells s' = ns_cells s \<Longrightarrow> heap_ok s'" for s s' :: "('a, 'b) native"
    by (simp add: heap_ok_def)
  ultimately show ?thesis
    unfolding balanced_def secure_def triple_def owns_def moved_def
    by (simp add: fun_eq_iff) metis
qed

subsection \<open>Rules\<close>

lemma movedD:
  assumes "moved s s' P H Q"
  shows "ns_fault s' = ns_fault s" "ns_next s \<le> ns_next s'"
    "x \<in> adrs Q \<Longrightarrow> x \<in> adrs P \<or> ns_next s \<le> x"
    "x \<notin> adrs Q \<Longrightarrow> x \<notin> adrs H \<Longrightarrow> x \<in> adrs P \<Longrightarrow> ns_cells s' x = None"
    "x \<notin> adrs Q \<Longrightarrow> x \<notin> adrs H \<Longrightarrow> x \<notin> adrs P \<Longrightarrow> ns_cells s' x = ns_cells s x"
  subgoal using assms by (simp only: moved_def)
  subgoal using assms by (simp only: moved_def)
  subgoal using assms by (simp only: moved_def)
  subgoal using assms unfolding moved_def by presburger
  subgoal using assms unfolding moved_def by presburger
  done

lemma movedI:
  assumes "ns_fault s' = ns_fault s" "ns_next s \<le> ns_next s'"
    and "\<And>x. x \<in> adrs Q \<Longrightarrow> x \<in> adrs P \<or> ns_next s \<le> x"
    and "\<And>x. x \<notin> adrs Q \<Longrightarrow> x \<notin> adrs H \<Longrightarrow> x \<in> adrs P \<Longrightarrow> ns_cells s' x = None"
    and "\<And>x. x \<notin> adrs Q \<Longrightarrow> x \<notin> adrs H \<Longrightarrow> x \<notin> adrs P \<Longrightarrow> ns_cells s' x = ns_cells s x"
  shows "moved s s' P H Q"
  unfolding moved_def
proof (intro conjI ballI allI impI)
  fix x assume "x \<notin> adrs Q" "x \<notin> adrs H"
  then show "ns_cells s' x = (if x \<in> adrs P then None else ns_cells s x)"
    using assms(4,5) by presburger
qed (fact assms)+

lemma moved_trans:
  assumes "heap_ok s" and m: "moved s s' P H Q" and m2: "moved s' s2 Q H R"
  shows "moved s s2 P H R"
proof (rule movedI)
  show "ns_fault s2 = ns_fault s" "ns_next s \<le> ns_next s2"
    using movedD(1,2) [OF m] movedD(1,2) [OF m2] by auto
  fix x
  show "x \<in> adrs P \<or> ns_next s \<le> x" if "x \<in> adrs R"
    using movedD(3) [OF m2 that] movedD(3) [OF m, of x] movedD(2) [OF m] by linarith
  assume x: "x \<notin> adrs R" "x \<notin> adrs H"
  show "ns_cells s2 x = None" if "x \<in> adrs P"
    using movedD(4) [OF m2 x] movedD(5) [OF m2 x] movedD(4) [OF m _ x(2) that] by (cases "x \<in> adrs Q") simp_all
  show "ns_cells s2 x = ns_cells s x" if "x \<notin> adrs P"
  proof (cases "x \<in> adrs Q")
    case True
    then show ?thesis
      using movedD(4) [OF m2 x True] movedD(3) [OF m True] that assms(1) by (simp add: heap_ok_def)
  next
    case False
    then show ?thesis using movedD(5) [OF m2 x False] movedD(5) [OF m False x(2) that] by simp
  qed
qed

lemma triple_bind:
  assumes m: "triple P H m Q" and k: "\<And>a. triple (Q (Ok a)) H (k a) R"
    and err: "\<And>e. R (Err e) = Q (Err e)" "\<And>p. R (Panic p) = Q (Panic p)"
  shows "triple P H (nbind m k) R"
  unfolding triple_def
proof (intro allI impI)
  fix s :: "('a, 'b) native" assume "owns s P H"
  then obtain r s' where r: "m s = Some (r, s')" "owns s' (Q r) H" "moved s s' P H (Q r)"
    using m unfolding triple_def by blast
  show "\<exists>r s'. nbind m k s = Some (r, s') \<and> owns s' (R r) H \<and> moved s s' P H (R r)"
  proof (cases r)
    case (Ok a)
    then obtain r2 s2 where r2: "k a s' = Some (r2, s2)" "owns s2 (R r2) H" "moved s' s2 (Q r) H (R r2)"
      using k [of a] r unfolding triple_def by blast
    have "moved s s2 P H (R r2)"
      using moved_trans [OF _ r(3) r2(3)] \<open>owns s P H\<close> by (simp add: owns_def)
    then show ?thesis using r r2 Ok by (simp add: nbind_def)
  qed (use r err in \<open>simp_all add: nbind_def\<close>)
qed

lemma triple_deferring:
  assumes m: "triple P H m Q" and d: "\<And>r. triple (Q r) H d (\<lambda>_. R r)" and ok: "\<And>s r s'. d s = Some (r, s') \<Longrightarrow> ns_fault s' = ns_fault s \<Longrightarrow> is_ok r"
  shows "triple P H (deferring d m) R"
  unfolding triple_def
proof (intro allI impI)
  fix s :: "('a, 'b) native" assume "owns s P H"
  then obtain r s' where r: "m s = Some (r, s')" "owns s' (Q r) H" "moved s s' P H (Q r)"
    using m unfolding triple_def by blast
  then obtain r2 s2 where r2: "d s' = Some (r2, s2)" "owns s2 (R r) H" "moved s' s2 (Q r) H (R r)"
    using d [of r] unfolding triple_def by blast
  have "is_ok r2" using ok r2 by (simp add: moved_def)
  then obtain u where "r2 = Ok u" by (auto simp: is_ok_iff)
  moreover have "moved s s2 P H (R r)"
    using moved_trans [OF _ r(3) r2(3)] \<open>owns s P H\<close> by (simp add: owns_def)
  ultimately show "\<exists>r s'. deferring d m s = Some (r, s') \<and> owns s' (R r) H \<and> moved s s' P H (R r)"
    using r r2 by (simp add: deferring_def)
qed

lemma triple_frame:
  assumes "triple P H m Q"
  shows "triple (P @ R) H m (\<lambda>r. Q r @ R)"
  unfolding triple_def
proof (intro allI impI)
  fix s :: "('a, 'b) native" assume o1: "owns s (P @ R) H"
  then have o: "owns s P H" and dj: "adrs R \<inter> adrs H = {}" "adrs P \<inter> adrs R = {}" "distinct (map fst R)" "\<forall>xk \<in> set R. live s xk"
    by (auto simp: owns_def)
  then obtain r s' where r: "m s = Some (r, s')" "owns s' (Q r) H" "moved s s' P H (Q r)"
    using assms unfolding triple_def by blast
  have ok: "heap_ok s" using o by (simp add: owns_def)
  have R: "x \<in> adrs R \<Longrightarrow> x < ns_next s" for x using live_below [OF ok] dj(4) by fastforce
  have QR: "x \<notin> adrs (Q r)" if "x \<in> adrs R" for x
    using movedD(3) [OF r(3), of x] dj(2) R [OF that] that by (meson disjoint_iff leD)
  have same: "ns_cells s' x = ns_cells s x" if "x \<in> adrs R" for x
    using movedD(5) [OF r(3) QR [OF that]] dj that by (meson disjoint_iff)
  have "adrs (Q r) \<inter> adrs R = {}" using QR by blast
  moreover have "\<forall>xk \<in> set R. live s' xk" using dj(4) same by (simp add: live_def)
  ultimately have "owns s' (Q r @ R) H"
    using r(2) dj by (auto simp: owns_def)
  moreover have "moved s s' (P @ R) H (Q r @ R)"
    using movedD [OF r(3)] by (intro movedI) (auto simp: image_Un)
  ultimately show "\<exists>r s'. m s = Some (r, s') \<and> owns s' (Q r @ R) H \<and> moved s s' (P @ R) H (Q r @ R)"
    using r by auto
qed

text \<open>What is owned may be lent.\<close>

lemma triple_lend:
  assumes "triple P (R @ H) m Q"
  shows "triple (P @ R) H m (\<lambda>r. Q r @ R)"
  unfolding triple_def
proof (intro allI impI)
  fix s :: "('a, 'b) native" assume o1: "owns s (P @ R) H"
  then have o: "owns s P (R @ H)" and dj: "adrs R \<inter> adrs H = {}" "distinct (map fst R)" by (auto simp: owns_def)
  then obtain r s' where r: "m s = Some (r, s')" "owns s' (Q r) (R @ H)" "moved s s' P (R @ H) (Q r)"
    using assms unfolding triple_def by blast
  have "owns s' (Q r @ R) H" using r(2) dj by (auto simp: owns_def)
  moreover have "moved s s' (P @ R) H (Q r @ R)" 
    using movedD [OF r(3)] by (intro movedI) (auto simp: image_Un)
  ultimately show "\<exists>r s'. m s = Some (r, s') \<and> owns s' (Q r @ R) H \<and> moved s s' (P @ R) H (Q r @ R)"
    using r by auto
qed

lemma triple_perm:
  assumes t: "triple P H m Q" and P: "mset P' = mset P" and Q: "\<And>r. mset (Q' r) = mset (Q r)"
  shows "triple P' H m Q'"
proof -
  have set: "set P' = set P" "\<And>r. set (Q' r) = set (Q r)"
    using P Q by (metis set_mset_mset)+
  have dist: "distinct (map fst P') = distinct (map fst P)" "\<And>r. distinct (map fst (Q' r)) = distinct (map fst (Q r))"
    using P Q by (metis mset_map mset_eq_imp_distinct_iff)+
  show ?thesis
    using t unfolding triple_def owns_def moved_def set dist .
qed

lemma triple_nfree:
  assumes "\<And>c. \<phi> c \<Longrightarrow> cell_kind c = k"
  shows "triple [(x, \<phi>)] H (nfree k x) (\<lambda>_. [])"
  unfolding triple_def
proof (intro allI impI)
  fix s assume o: "owns s [(x, \<phi>)] H"
  then obtain c where c: "ns_cells s x = Some c" "cell_kind c = k" using assms by (auto simp: owns_def live_def)
  show "\<exists>r s'. nfree k x s = Some (r, s') \<and> owns s' [] H \<and> moved s s' [(x, \<phi>)] H []"
    using o c by (cases "x = 0") (auto simp: nfree_def owns_def heap_ok_def live_def moved_def)
qed

lemma nfree_ok: "nfree k x s = Some (r, s') \<Longrightarrow> ns_fault s' = ns_fault s \<Longrightarrow> is_ok r"
  by (auto simp: nfree_def nfault_def nret_def split: option.splits if_splits)

subsection \<open>Programs that start with nothing\<close>

abbreviation handles :: "hkind \<Rightarrow> nat list \<Rightarrow> cells" where
  "handles k xs \<equiv> map (\<lambda>x. (x, k)) xs"

lemma moved_refl: "moved s s P H P"
  by (rule movedI) auto

lemma triple_nfail: "triple P H (nfail e) (\<lambda>_. P)" and triple_npanic: "triple P H (npanic m) (\<lambda>_. P)"
  and triple_nret: "triple P H (nret a) (\<lambda>_. P)"
  by (auto simp: triple_def nfail_def npanic_def nret_def moved_refl)

lemma triple_cong: "triple P H m Q \<Longrightarrow> (\<And>r. Q r = Q' r) \<Longrightarrow> triple P H m Q'"
  by (simp add: triple_def)

lemma triple_post:
  assumes "triple P H m Q" and "\<And>s r s'. m s = Some (r, s') \<Longrightarrow> ns_fault s' = ns_fault s \<Longrightarrow> Q' r = Q r"
  shows "triple P H m Q'"
  using assms unfolding triple_def by (metis movedD(1))

lemma owns_never [simp]: "\<not> owns s never H"
  by (simp add: owns_def never_def live_def)

text \<open>An outcome that does not occur may be given any postcondition.\<close>

lemma triple_never: "triple P H m Q \<Longrightarrow> (\<And>r. Q r = Q' r \<or> Q r = never) \<Longrightarrow> triple P H m Q'"
  unfolding triple_def by (metis owns_never)

lemma triple_nil_nret: "P = Q (Ok a) \<Longrightarrow> triple P H (nret a) Q"
  using triple_nret by (rule triple_post) (simp add: nret_def)

lemma secure_nret [secure_intros]: "own a = [] \<Longrightarrow> secure H own (nret a)"
  unfolding secure_def by (rule triple_nil_nret) simp

lemma secure_nfail [secure_intros]: "secure H own (nfail e)"
  unfolding secure_def by (rule triple_post [OF triple_nfail]) (auto simp: nfail_def)

lemma secure_npanic [secure_intros]: "secure H own (npanic m)"
  unfolding secure_def by (rule triple_post [OF triple_npanic]) (auto simp: npanic_def)

lemma secure_nbind [secure_intros]:
  "secure H nothing m \<Longrightarrow> (\<And>a. secure H own (k a)) \<Longrightarrow> secure H own (nbind m k)"
  unfolding secure_def by (rule triple_bind [where Q = "owned (\<lambda>_. kinds [])"]) simp_all

lemma is_kindD: "is_kind k c \<Longrightarrow> cell_kind c = k"
  by (simp add: is_kind_def)

lemma triple_nfree_kind: "triple [(x, is_kind k)] H (nfree k x) (\<lambda>_. [])"
  by (rule triple_nfree [OF is_kindD])

lemma free_all_result: "free_all k xs s = Some (r, s') \<Longrightarrow> ns_fault s' = (if is_ok r then ns_fault s else Suc (ns_fault s))"
proof (induction xs arbitrary: s)
  case (Cons x xs)
  then show ?case
    by (auto simp: nbind_def nfree_def nfault_def nret_def is_ok_iff split: option.splits if_splits)
qed (auto simp: nret_def)

lemma free_all_ok: "free_all k xs s = Some (r, s') \<Longrightarrow> ns_fault s' = ns_fault s \<Longrightarrow> is_ok r"
  using free_all_result [of k xs s r s'] by (simp split: if_splits)

lemma triple_free_all: "triple (kinds (handles k xs)) H (free_all k xs) (\<lambda>_. [])"
proof (induction xs)
  case (Cons x xs)
  have "triple ([(x, is_kind k)] @ kinds (handles k xs)) H (nfree k x) (\<lambda>_. [] @ kinds (handles k xs))"
    by (rule triple_frame [OF triple_nfree [OF is_kindD]])
  then have "triple (kinds (handles k (x # xs))) H (nfree k x) (owned (\<lambda>_. kinds (handles k xs)))"
    unfolding list.map append_Cons append_Nil kinds_simps by (rule triple_post) (auto dest!: nfree_ok simp: is_ok_iff)
  then show ?case
    unfolding free_all.simps by (rule triple_bind) (simp_all add: Cons.IH)
qed (simp add: triple_nret)

text \<open>The body of a scope borrows what the scope owns, and may hand on what it made itself.\<close>

lemma triple_scope:
  assumes m: "triple [] H m (owned own1)"
    and body: "\<And>a. triple [] (own1 a @ H) (body a) (owned own)"
    and d: "\<And>a. triple (own1 a) H (d a) (\<lambda>_. [])"
    and ok: "\<And>a s r s'. d a s = Some (r, s') \<Longrightarrow> ns_fault s' = ns_fault s \<Longrightarrow> is_ok r"
  shows "triple [] H (nbind m (\<lambda>a. deferring (d a) (body a))) (owned own)"
proof (rule triple_bind [OF m])
  fix a
  have "triple ([] @ own1 a) H (body a) (\<lambda>r. owned own r @ own1 a)"
    by (rule triple_lend [OF body])
  moreover have "triple (owned own r @ own1 a) H (d a) (\<lambda>_. owned own r)" for r
    using triple_frame [OF d, of a "owned own r"] by (rule triple_perm) simp_all
  ultimately have "triple ([] @ own1 a) H (deferring (d a) (body a)) (owned own)"
    by (rule triple_deferring) (rule ok)
  then show "triple (owned own1 (Ok a)) H (deferring (d a) (body a)) (owned own)" by simp
qed simp_all

lemma secure_scoped [secure_intros]:
  "secure H (\<lambda>x. [(x, k)]) m \<Longrightarrow> (\<And>x. secure ((x, k) # H) own (body x)) \<Longrightarrow> secure H own (scoped m k body)"
  unfolding secure_def scoped_def
  by (rule triple_scope [where ?own1.0 = "\<lambda>x. [(x, is_kind k)]"]) (auto intro: triple_nfree nfree_ok is_kindD)

lemma secure_scoped_all [secure_intros]:
  "secure H (handles k) m \<Longrightarrow> (\<And>xs. secure (handles k xs @ H) own (body xs)) \<Longrightarrow> secure H own (scoped_all m k body)"
  unfolding secure_def scoped_all_def
  by (rule triple_scope [where ?own1.0 = "\<lambda>xs. kinds (handles k xs)"]) (auto intro: triple_free_all free_all_ok)

lemma secure_if [secure_intros]: "(c \<Longrightarrow> secure H own a) \<Longrightarrow> (\<not> c \<Longrightarrow> secure H own b) \<Longrightarrow> secure H own (if c then a else b)"
  by simp

lemma secure_case_option [secure_intros]:
  "(v = None \<Longrightarrow> secure H own a) \<Longrightarrow> (\<And>x. v = Some x \<Longrightarrow> secure H own (b x)) \<Longrightarrow> secure H own (case v of None \<Rightarrow> a | Some x \<Rightarrow> b x)"
  by (cases v) auto

lemma triple_relabel:
  fixes m :: "('o, 'g, 'a) prog"
  assumes "triple P H m Q" and "\<And>e. Q (Err (lbl @ '': '' @ e)) = Q (Err e)" shows "triple P H (relabel lbl m) Q"
  unfolding triple_def
proof (intro allI impI)
  fix s :: "('o, 'g) native" assume "owns s P H"
  then obtain r s' where r: "m s = Some (r, s')" "owns s' (Q r) H" "moved s s' P H (Q r)"
    using assms unfolding triple_def by blast
  then show "\<exists>r s'. relabel lbl m s = Some (r, s') \<and> owns s' (Q r) H \<and> moved s s' P H (Q r)"
    using assms(2) by (cases r) (auto simp: relabel_def)
qed

lemma secure_relabel [secure_intros]: "secure H own m \<Longrightarrow> secure H own (relabel lbl m)"
  unfolding secure_def by (rule triple_relabel) simp_all

lemma kinds_mem: "(x, k) \<in> set H \<Longrightarrow> (x, is_kind k) \<in> set (kinds H)"
  by (force simp: kinds_def)

text \<open>What a call reads is what the assertion says of the cell.\<close>

lemma triple_peek:
  assumes "(x, \<phi>) \<in> set H" "\<And>c. \<phi> c \<Longrightarrow> \<exists>o1. c = Obj k o1"
  shows "triple P H (peek k x) (\<lambda>r. case r of Ok o1 \<Rightarrow> if \<phi> (Obj k o1) then P else never | _ \<Rightarrow> never)"
  unfolding triple_def
proof (intro allI impI)
  fix s assume o: "owns s P H"
  then have "live s (x, \<phi>)" using assms(1) by (simp add: owns_def)
  then obtain o1 where "ns_cells s x = Some (Obj k o1)" "\<phi> (Obj k o1)" using assms(2) by (auto simp: live_def)
  then show "\<exists>r s'. peek k x s = Some (r, s') \<and> owns s' (case r of Ok o1 \<Rightarrow> if \<phi> (Obj k o1) then P else never | _ \<Rightarrow> never) H \<and>
      moved s s' P H (case r of Ok o1 \<Rightarrow> if \<phi> (Obj k o1) then P else never | _ \<Rightarrow> never)"
    using o by (simp add: peek_def moved_refl)
qed

lemma secure_peek: 
  assumes "(x, k) \<in> set H" "k \<noteq> CBuffer" shows "secure H nothing (peek k x :: ('o, 'g, 'o) prog)"
proof -
  have obj: "\<exists>o1. c = Obj k o1" if "is_kind k c" for c :: "'o cell"
    using that assms(2) by (cases c) (auto simp: is_kind_def)
  have "triple [] (kinds H) (peek k x :: ('o, 'g, 'o) prog) (\<lambda>r. case r of Ok o1 \<Rightarrow> if is_kind k (Obj k o1) then [] else never | _ \<Rightarrow> never)"
    by (rule triple_peek [OF kinds_mem [OF assms(1)] obj])
  then have "triple [] (kinds H) (peek k x :: ('o, 'g, 'o) prog) (owned (\<lambda>_. []))"
    by (rule triple_never) (auto simp: is_kind_def split: outcome.splits)
  then show ?thesis by (simp add: secure_def)
qed

lemma secure_peeks [secure_intros]:
  "set args \<subseteq> set H \<Longrightarrow> CBuffer \<notin> snd ` set args \<Longrightarrow> secure H nothing (peeks args)"
proof (induction args)
  case (Cons xk args)
  obtain x k where [simp]: "xk = (x, k)" by fastforce
  have "set args \<subseteq> set H" "CBuffer \<notin> snd ` set args" "(x, k) \<in> set H" "k \<noteq> CBuffer"
    using Cons.prems by auto
  then show ?case by (simp add: secure_nbind secure_nret secure_peek Cons.IH)
qed (simp add: secure_nret)

lemma triple_alloc: "triple [] H (alloc c) (\<lambda>r. case r of Ok x \<Rightarrow> [(x, \<lambda>c'. c' = c)] | _ \<Rightarrow> never)"
  unfolding triple_def
proof (intro allI impI)
  fix s assume o: "owns s [] H"
  let ?s = "s\<lparr> ns_cells := (ns_cells s)(ns_next s \<mapsto> c), ns_next := Suc (ns_next s) \<rparr>"
  have below: "x \<in> adrs H \<Longrightarrow> x < ns_next s" for x
    using o live_below [of s] by (auto simp: owns_def)
  have "owns ?s [(ns_next s, \<lambda>c'. c' = c)] H"
    using o below by (auto simp: owns_def heap_ok_def live_def)
  moreover have "moved s ?s [] H [(ns_next s, \<lambda>c'. c' = c)]" by (rule movedI) auto
  ultimately show "\<exists>r s'. alloc c s = Some (r, s') \<and> owns s' (case r of Ok x \<Rightarrow> [(x, \<lambda>c'. c' = c)] | _ \<Rightarrow> never) H \<and>
      moved s s' [] H (case r of Ok x \<Rightarrow> [(x, \<lambda>c'. c' = c)] | _ \<Rightarrow> never)"
    by (auto simp: alloc_def)
qed

text \<open>Less may be known of a cell that is owned.\<close>

lemma triple_weaken:
  fixes m :: "('o, 'g, 'a) prog"
  assumes "triple P H m Q" and "\<And>r. Q r = never \<or> list_all2 (\<lambda>xk xk'. fst xk = fst xk' \<and> (\<forall>c. snd xk c \<longrightarrow> snd xk' c)) (Q r) (Q' r)"
  shows "triple P H m Q'"
  unfolding triple_def
proof (intro allI impI)
  fix s :: "('o, 'g) native" assume "owns s P H"
  then obtain r s' where r: "m s = Some (r, s')" "owns s' (Q r) H" "moved s s' P H (Q r)"
    using assms(1) unfolding triple_def by blast
  then have l: "list_all2 (\<lambda>xk xk'. fst xk = fst xk' \<and> (\<forall>c. snd xk c \<longrightarrow> snd xk' c)) (Q r) (Q' r)"
    using assms(2) [of r] by (cases "Q r = never") auto
  have map: "map fst (Q' r) = map fst (Q r)"
    using l by (induction rule: list_all2_induct) auto
  then have ad: "adrs (Q' r) = adrs (Q r)" by (metis list.set_map)
  have live: "live s' xk'" if "xk' \<in> set (Q' r)" for xk'
  proof -
    obtain i where i: "i < length (Q' r)" "xk' = Q' r ! i" using \<open>xk' \<in> set (Q' r)\<close> by (metis in_set_conv_nth)
    have len: "length (Q r) = length (Q' r)" using l by (rule list_all2_lengthD)
    have *: "fst (Q r ! i) = fst xk'" "\<forall>c. snd (Q r ! i) c \<longrightarrow> snd xk' c"
      using list_all2_nthD [OF l, of i] i len by simp_all
    have "live s' (Q r ! i)" using r(2) i len by (simp add: owns_def)
    with * show ?thesis by (auto simp: live_def)
  qed
  have "owns s' (Q' r) H" using r(2) live unfolding owns_def map ad ball_Un by simp
  moreover have "moved s s' P H (Q' r)" using r(3) unfolding moved_def ad .
  ultimately show "\<exists>r s'. m s = Some (r, s') \<and> owns s' (Q' r) H \<and> moved s s' P H (Q' r)" using r(1) by (intro exI conjI)
qed

lemma secure_alloc: "cell_kind c = k \<Longrightarrow> secure H (\<lambda>x. [(x, k)]) (alloc c)"
  unfolding secure_def
proof (rule triple_weaken [OF triple_alloc])
  fix r :: "(string, nat) outcome"
  assume "cell_kind c = k"
  then show "(case r of Ok x \<Rightarrow> [(x, \<lambda>c'. c' = c)] | _ \<Rightarrow> never) = never \<or>
      list_all2 (\<lambda>xk xk'. fst xk = fst xk' \<and> (\<forall>c. snd xk c \<longrightarrow> snd xk' c)) (case r of Ok x \<Rightarrow> [(x, \<lambda>c'. c' = c)] | _ \<Rightarrow> never)
        (owned (\<lambda>a. kinds [(a, k)]) r)"
    by (cases r) (simp_all add: is_kind_def)
qed

text \<open>A change of the hidden state is invisible to the heap.\<close>

lemma triple_with_world:
  fixes k :: "'x \<Rightarrow> ('o, 'g, 'a) prog"
  assumes "\<And>v. triple P H (k v) Q"
  shows "triple P H (with_world f k) Q"
  unfolding triple_def
proof (intro allI impI)
  fix s :: "('o, 'g) native" assume o: "owns s P H"
  obtain v g where f: "f (ns_world s) = (v, g)" by fastforce
  let ?s = "s\<lparr> ns_world := g \<rparr>"
  have o': "owns ?s P H" using o by (auto simp: owns_def heap_ok_def live_def)
  obtain r s' where r: "k v ?s = Some (r, s')" "owns s' (Q r) H" "moved ?s s' P H (Q r)"
    using assms [of v] o' unfolding triple_def by blast
  have "moved s s' P H (Q r)" using movedD [OF r(3)] by (intro movedI) auto
  with r f show "\<exists>r s'. with_world f k s = Some (r, s') \<and> owns s' (Q r) H \<and> moved s s' P H (Q r)"
    by (auto simp: with_world_def)
qed

lemma secure_with_world [secure_intros]: "(\<And>v. secure H own (k v)) \<Longrightarrow> secure H own (with_world f k)"
  unfolding secure_def by (rule triple_with_world)

text \<open>A program that makes several objects hands the first ones on to the rest of it.\<close>

lemma triple_extend:
  assumes m: "triple [] H m (owned own1)"
    and k: "\<And>a. triple [] (own1 a @ H) (k a) (owned (\<lambda>b. own2 a b))"
    and ok: "\<And>a s r s'. k a s = Some (r, s') \<Longrightarrow> ns_fault s' = ns_fault s \<Longrightarrow> is_ok r"
    and own: "\<And>a b s s'. k a s = Some (Ok b, s') \<Longrightarrow> mset (own b) = mset (own1 a) + mset (own2 a b)"
  shows "triple [] H (nbind m k) (owned own)"
proof (rule triple_bind [OF m])
  fix a
  have "triple ([] @ own1 a) H (k a) (\<lambda>r. owned (own2 a) r @ own1 a)"
    by (rule triple_lend [OF k])
  then have "triple (own1 a) H (k a) (\<lambda>r. if r \<in> {r. \<exists>s s'. k a s = Some (r, s')} \<and> is_ok r then owned own r else owned (own2 a) r @ own1 a)"
    by (rule triple_perm) (auto simp: is_ok_iff own)
  then have "triple (own1 a) H (k a) (owned own)"
    by (rule triple_post) (use ok in fastforce)
  then show "triple (owned own1 (Ok a)) H (k a) (owned own)" by simp
qed simp_all

lemma secure_extend:
  assumes m: "secure H own1 m" and k: "\<And>a. secure (own1 a @ H) (own2 a) (k a)"
    and ok: "\<And>a s r s'. k a s = Some (r, s') \<Longrightarrow> ns_fault s' = ns_fault s \<Longrightarrow> is_ok r"
    and own: "\<And>a b s s'. k a s = Some (Ok b, s') \<Longrightarrow> mset (own b) = mset (own1 a) + mset (own2 a b)"
  shows "secure H own (nbind m k)"
  unfolding secure_def
proof (rule triple_extend [OF m [unfolded secure_def] _ ok])
  show "triple [] (kinds (own1 a) @ kinds H) (k a) (owned (\<lambda>b. kinds (own2 a b)))" for a
    using k [of a] by (simp add: secure_def)
  show "mset (kinds (own b)) = mset (kinds (own1 a)) + mset (kinds (own2 a b))" if "k a s = Some (Ok b, s')" for a b s s'
    using own [OF that] unfolding kinds_def by (simp flip: image_mset_union)
qed

subsection \<open>The C calls\<close>

lemma secure_c_make [secure_intros]:
  "new_kind op = k \<Longrightarrow> set args \<subseteq> set H \<Longrightarrow> CBuffer \<notin> snd ` set args \<Longrightarrow> secure H (\<lambda>x. [(x, k)]) (c_make L op args msg)"
  unfolding c_make_def by (intro secure_nbind secure_peeks secure_intros secure_alloc) simp_all

lemma secure_c_act [secure_intros]:
  "set args \<subseteq> set H \<Longrightarrow> CBuffer \<notin> snd ` set args \<Longrightarrow> secure H nothing (c_act L op args)"
  unfolding c_act_def by (intro secure_intros) simp_all

lemma secure_c_keygen:
  assumes "(ctx, CryptoContextHandle) \<in> set H" "\<forall>p. prev = Some p \<longrightarrow> (p, PublicKeyHandle) \<in> set H"
  shows "secure H (\<lambda>(x, y). [(x, PublicKeyHandle), (y, SecretKeyShareHandle)]) (c_keygen L ctx prev msg)"
proof -
  have mk: "secure H (\<lambda>(x, y). [(x, PublicKeyHandle), (y, SecretKeyShareHandle)])
     (nbind (alloc (Obj PublicKeyHandle (fst ks))) (\<lambda>x. nbind (alloc (Obj SecretKeyShareHandle (snd ks))) (\<lambda>y. nret (x, y))))" for ks
  proof (rule secure_extend [where ?own1.0 = "\<lambda>x. [(x, PublicKeyHandle)]" and ?own2.0 = "\<lambda>x (x', y). [(y, SecretKeyShareHandle)]"])
    show "secure H (\<lambda>x. [(x, PublicKeyHandle)]) (alloc (Obj PublicKeyHandle (fst ks)))"
      by (rule secure_alloc) simp
    show "secure ([(x, PublicKeyHandle)] @ H) (\<lambda>(x', y). [(y, SecretKeyShareHandle)])
             (nbind (alloc (Obj SecretKeyShareHandle (snd ks))) (\<lambda>y. nret (x, y)))" for x
      unfolding secure_def
      by (rule triple_bind [OF secure_alloc [where k = SecretKeyShareHandle, unfolded secure_def]]) (simp_all add: triple_nil_nret)
  qed (auto simp: nbind_def alloc_def nret_def)
  show ?thesis
    unfolding c_keygen_def
    using assms by (intro secure_nbind secure_peek secure_with_world secure_case_option secure_nret secure_nfail mk) simp_all
qed

lemma secure_c_insert [secure_intros]:
  "set args \<subseteq> set H \<Longrightarrow> CBuffer \<notin> snd ` set args \<Longrightarrow> secure H nothing (c_insert L op args msg)"
  unfolding c_insert_def by (intro secure_intros) simp_all

lemma secure_copyCBytes [secure_intros]: "secure H nothing (copyCBytes bs)"
  unfolding copyCBytes_def Let_def by (intro secure_intros) simp_all

lemma copyCBytes_short: "length bs < 2 ^ 31 \<Longrightarrow> copyCBytes bs = nret bs"
proof -
  assume "length bs < 2 ^ 31"
  then have "sint (word_of_nat (length bs) :: 32 word) = int (length bs)"
    by (simp add: signed_of_nat signed_take_bit_int_eq_self_iff)
  then show ?thesis by (simp add: copyCBytes_def)
qed

lemma ser_kind_obj [simp]: "ser_kind op \<noteq> CBuffer" "fun_kind d \<noteq> CBuffer" "new_kind n \<noteq> CBuffer"
  subgoal by (cases op) simp_all
  subgoal by (cases d) simp_all
  subgoal by (cases n) simp_all
  done

lemma secure_c_serialize [secure_intros]: "(x, ser_kind op) \<in> set H \<Longrightarrow> secure H nothing (c_serialize L op x msg)"
  unfolding c_serialize_def
  by (intro secure_intros secure_peek secure_alloc) simp_all

text \<open>A call that may fail without losing anything: any but the reading of a-vectors, and that one on readable bytes.\<close>

definition loses_nothing :: "('o, 'g) openfhe \<Rightarrow> c_fun \<Rightarrow> (nat \<times> hkind) list \<Rightarrow> bytes list \<Rightarrow> bool" where
  "loses_nothing L op args raws \<longleftrightarrow>
     (op = DeserializeAVectors \<longrightarrow> args = [] \<and> ([] \<in> set raws \<or> lib_fun L op [] raws \<noteq> None))"

lemma nret_bind: "nbind (nret a) k = k a"
  by (simp add: nbind_def nret_def fun_eq_iff)

lemma loses_nothing_other [simp]: "op \<noteq> DeserializeAVectors \<Longrightarrow> loses_nothing L op args raws"
  by (simp add: loses_nothing_def)

lemma build_failed_other [simp]: "op \<noteq> DeserializeAVectors \<Longrightarrow> build_failed op msg = nfail msg"
  by (simp add: build_failed_def)

lemma secure_c_build [secure_intros]:
  "fun_kind op = k \<Longrightarrow> loses_nothing L op args raws \<Longrightarrow> set args \<subseteq> set H \<Longrightarrow> CBuffer \<notin> snd ` set args
    \<Longrightarrow> secure H (\<lambda>x. [(x, k)]) (c_build L op args raws required msg)"
proof (cases "op = DeserializeAVectors")
  case True
  assume "fun_kind op = k" "loses_nothing L op args raws"
  then show ?thesis using True
    by (auto simp: c_build_def loses_nothing_def nret_bind intro!: secure_nfail secure_alloc)
next
  case False
  assume "fun_kind op = k" "set args \<subseteq> set H" "CBuffer \<notin> snd ` set args"
  then show ?thesis using False
    unfolding c_build_def build_failed_other [OF False]
    by (intro secure_if secure_nbind secure_peeks secure_nfail secure_case_option secure_alloc) simp_all
qed

text \<open>An object may be changed in place: its cell stays.\<close>

lemma triple_nput:
  fixes c :: "'o cell"
  assumes "\<phi> c"
  shows "triple [(x, \<psi>)] H (nput x c :: ('o, 'g, unit) prog) (\<lambda>r. case r of Ok _ \<Rightarrow> [(x, \<phi>)] | _ \<Rightarrow> never)"
  unfolding triple_def
proof (intro allI impI)
  fix s :: "('o, 'g) native" assume o: "owns s [(x, \<psi>)] H"
  let ?s = "s\<lparr> ns_cells := (ns_cells s)(x \<mapsto> c) \<rparr>"
  have "live s (x, \<psi>)" using o by (simp add: owns_def)
  then have "x < ns_next s" "x \<noteq> 0" using o live_below [of s "(x, \<psi>)"] live_nonzero [of s "(x, \<psi>)"] by (auto simp: owns_def)
  then have "owns ?s [(x, \<phi>)] H"
    using o assms by (auto simp: owns_def heap_ok_def live_def)
  moreover have "moved s ?s [(x, \<psi>)] H [(x, \<phi>)]" by (rule movedI) auto
  ultimately show "\<exists>r s'. nput x c s = Some (r, s') \<and> owns s' (case r of Ok _ \<Rightarrow> [(x, \<phi>)] | _ \<Rightarrow> never) H \<and>
      moved s s' [(x, \<psi>)] H (case r of Ok _ \<Rightarrow> [(x, \<phi>)] | _ \<Rightarrow> never)"
    by (auto simp: nput_def)
qed

lemma secure_nput:
  fixes c :: "'o cell"
  assumes "(x, k) \<in> set H" "cell_kind c = k"
  shows "secure H nothing (nput x c :: ('o, 'g, unit) prog)"
  unfolding secure_def triple_def
proof (intro allI impI)
  fix s :: "('o, 'g) native" assume o: "owns s [] (kinds H)"
  let ?s = "s\<lparr> ns_cells := (ns_cells s)(x \<mapsto> c) \<rparr>"
  have "(x, is_kind k) \<in> set (kinds H :: 'o assn)" by (rule kinds_mem [OF assms(1)])
  then have lx: "live s (x, is_kind k)" using o by (simp add: owns_def)
  then have "x < ns_next s" "x \<noteq> 0" using o live_below [OF _ lx] live_nonzero [OF _ lx] by (auto simp: owns_def)
  moreover have "live ?s xk" if "xk \<in> set (kinds H)" for xk
  proof -
    obtain y k' where xk: "xk = (y, is_kind k')" "(y, k') \<in> set H" using \<open>xk \<in> set (kinds H)\<close> by (auto simp: kinds_def)
    have "live s xk" using o that by (simp add: owns_def)
    then show ?thesis using lx assms(2) unfolding xk(1) live_def is_kind_def by (cases "y = x") auto
  qed
  ultimately have "owns ?s [] (kinds H)"
    using o by (auto simp: owns_def heap_ok_def)
  moreover have "x \<in> adrs (kinds H)" using assms(1) unfolding kinds_simps by (rule image_eqI [rotated]) simp
  then have "moved s ?s [] (kinds H) []" by (intro movedI) auto
  ultimately show "\<exists>r s'. nput x c s = Some (r, s') \<and> owns s' (owned (\<lambda>a. kinds []) r) (kinds H) \<and> moved s s' [] (kinds H) (owned (\<lambda>a. kinds []) r)"
    by (auto simp: nput_def)
qed

lemma secure_c_update [secure_intros]:
  "(acc, RotKeyHandle) \<in> set H \<Longrightarrow> set args \<subseteq> set H \<Longrightarrow> CBuffer \<notin> snd ` set args \<Longrightarrow> secure H nothing (c_update L op args acc msg)"
  unfolding c_update_def
  by (intro secure_nbind secure_peeks secure_peek secure_if secure_nret secure_nfail) (auto intro: secure_nput)

lemma triple_on_error:
  fixes m :: "('o, 'g, 'a) prog"
  assumes m: "triple P H m Q" and d: "\<And>e. triple (Q (Err e)) H d (\<lambda>_. R (Err e))"
    and ok: "\<And>s r s'. d s = Some (r, s') \<Longrightarrow> ns_fault s' = ns_fault s \<Longrightarrow> is_ok r"
    and same: "\<And>a. R (Ok a) = Q (Ok a)" "\<And>p. R (Panic p) = Q (Panic p)"
  shows "triple P H (on_error d m) R"
  unfolding triple_def
proof (intro allI impI)
  fix s :: "('o, 'g) native" assume o: "owns s P H"
  then obtain r s' where r: "m s = Some (r, s')" "owns s' (Q r) H" "moved s s' P H (Q r)"
    using m unfolding triple_def by blast
  show "\<exists>r s'. on_error d m s = Some (r, s') \<and> owns s' (R r) H \<and> moved s s' P H (R r)"
  proof (cases r)
    case (Err e)
    then obtain r2 s2 where r2: "d s' = Some (r2, s2)" "owns s2 (R r) H" "moved s' s2 (Q r) H (R r)"
      using d [of e] r unfolding triple_def by blast
    then obtain u where "r2 = Ok u" using ok movedD(1) by (metis is_ok_iff)
    then show ?thesis
      using r r2 Err moved_trans [OF _ r(3) r2(3)] o by (simp add: on_error_def nbind_def nfail_def owns_def)
  qed (use r same in \<open>auto simp: on_error_def\<close>)
qed

subsection \<open>Programs that do not panic\<close>

definition calm :: "('o, 'g, 'a) prog \<Rightarrow> bool" where
  "calm m \<longleftrightarrow> (\<forall>s p s'. m s = Some (Panic p, s') \<longrightarrow> ns_fault s' \<noteq> ns_fault s)"

definition steady :: "('o, 'g, 'a) prog \<Rightarrow> bool" where
  "steady m \<longleftrightarrow> (\<forall>s r s'. m s = Some (r, s') \<longrightarrow> (case r of Panic _ \<Rightarrow> ns_fault s < ns_fault s' | _ \<Rightarrow> ns_fault s' = ns_fault s))"

lemma steady_calm: "steady m \<Longrightarrow> calm m"
  by (fastforce simp: steady_def calm_def)

named_theorems steady_intros \<open>programs that panic only after a fault\<close>

lemma steady_nret [steady_intros]: "steady (nret a)" and steady_nfail [steady_intros]: "steady (nfail e)"
  and steady_alloc [steady_intros]: "steady (alloc c)"
  by (auto simp: steady_def nret_def nfail_def alloc_def)

lemma steady_peek [steady_intros]: "steady (peek k x)"
  by (auto simp: steady_def peek_def nfault_def split: option.splits cell.splits if_splits)

lemma steadyD:
  "steady m \<Longrightarrow> m s = Some (r, s') \<Longrightarrow> (case r of Panic _ \<Rightarrow> ns_fault s < ns_fault s' | _ \<Rightarrow> ns_fault s' = ns_fault s)"
  by (simp add: steady_def)

lemma steady_nbind [steady_intros]:
  assumes m: "steady m" and k: "\<And>a. steady (k a)" shows "steady (nbind m k)"
  unfolding steady_def
proof (intro allI impI)
  fix s r s' assume run: "nbind m k s = Some (r, s')"
  obtain r1 s1 where r1: "m s = Some (r1, s1)" using run by (auto simp: nbind_def split: option.splits)
  show "case r of Panic _ \<Rightarrow> ns_fault s < ns_fault s' | _ \<Rightarrow> ns_fault s' = ns_fault s"
  proof (cases r1)
    case (Ok a)
    then have "k a s1 = Some (r, s')" using run r1 by (simp add: nbind_def)
    then show ?thesis using steadyD [OF k, of a s1] steadyD [OF m r1] Ok by (cases r) simp_all
  qed (use run r1 steadyD [OF m r1] in \<open>auto simp: nbind_def\<close>)
qed

lemma steady_with_world [steady_intros]:
  assumes "\<And>v. steady (k v)" shows "steady (with_world f k)"
  unfolding steady_def
proof (intro allI impI)
  fix s r s' assume run: "with_world f k s = Some (r, s')"
  obtain v g where f: "f (ns_world s) = (v, g)" by fastforce
  with run have "k v (s\<lparr> ns_world := g \<rparr>) = Some (r, s')" by (simp add: with_world_def)
  then show "case r of Panic _ \<Rightarrow> ns_fault s < ns_fault s' | _ \<Rightarrow> ns_fault s' = ns_fault s"
    using steadyD [OF assms, of v "s\<lparr> ns_world := g \<rparr>"] by (cases r) simp_all
qed

lemma steady_peeks [steady_intros]: "steady (peeks args)"
  by (induction args) (auto intro!: steady_intros)

lemma steady_if [steady_intros]: "(c \<Longrightarrow> steady a) \<Longrightarrow> (\<not> c \<Longrightarrow> steady b) \<Longrightarrow> steady (if c then a else b)"
  by simp

lemma steady_case_option [steady_intros]:
  "(v = None \<Longrightarrow> steady a) \<Longrightarrow> (\<And>x. v = Some x \<Longrightarrow> steady (b x)) \<Longrightarrow> steady (case v of None \<Rightarrow> a | Some x \<Rightarrow> b x)"
  by (cases v) auto

lemma steady_relabel [steady_intros]: "steady m \<Longrightarrow> steady (relabel lbl m)"
  unfolding steady_def relabel_def by (fastforce split: option.splits outcome.splits if_splits)

lemma steady_c_calls [steady_intros]:
  "steady (c_make L op args msg)" "steady (c_act L act args)" "steady (c_build L des args raws required msg)"
  unfolding c_make_def c_act_def c_build_def build_failed_def by (intro steady_intros)+

text \<open>What a program that may not panic owns when it does is of no concern.\<close>

lemma triple_calm:
  assumes "triple P H m Q" "calm m" "\<And>a. Q' (Ok a) = Q (Ok a)" "\<And>e. Q' (Err e) = Q (Err e)"
  shows "triple P H m Q'"
  using assms(1)
proof (rule triple_post)
  fix s r s' assume "m s = Some (r, s')" "ns_fault s' = ns_fault s"
  then show "Q' r = Q r" using assms(2-4) by (cases r) (auto simp: calm_def)
qed

lemma triple_freeing:
  fixes m :: "('o, 'g, 'a) prog"
  assumes m: "triple [] ((x, \<phi>) # H) m Q" and calm: "calm m" and k: "\<And>c. \<phi> c \<Longrightarrow> cell_kind c = k"
  shows "triple [(x, \<phi>)] H (freeing k x m) Q"
proof -
  have l: "triple ([] @ [(x, \<phi>)]) H m (\<lambda>r. Q r @ [(x, \<phi>)])"
    by (rule triple_lend) (use m in simp)
  have d: "triple [(x, \<phi>)] H (deferring (nfree k x) m) Q"
  proof (rule triple_deferring [OF _ _ nfree_ok])
    show "triple [(x, \<phi>)] H m (\<lambda>r. Q r @ [(x, \<phi>)])" using l by simp
    show "triple (Q r @ [(x, \<phi>)]) H (nfree k x) (\<lambda>_. Q r)" for r
      using triple_frame [OF triple_nfree [OF k], where R = "Q r"] by (rule triple_perm) simp_all
  qed
  show ?thesis
    unfolding triple_def
  proof (intro allI impI)
    fix s :: "('o, 'g) native" assume o: "owns s [(x, \<phi>)] H"
    obtain r s' where r: "m s = Some (r, s')" "ns_fault s' = ns_fault s"
      using l o movedD(1) unfolding triple_def append_Nil by blast
    have "freeing k x m s = deferring (nfree k x) m s"
      using r calm by (cases r) (auto simp: freeing_def calm_def)
    then show "\<exists>r s'. freeing k x m s = Some (r, s') \<and> owns s' (Q r) H \<and> moved s s' [(x, \<phi>)] H (Q r)"
      using d o unfolding triple_def by simp
  qed
qed

lemma secure_freeing:
  fixes body :: "nat \<Rightarrow> ('o, 'g, 'a) prog"
  assumes m: "secure H (\<lambda>x. [(x, k)]) m" and body: "\<And>x. secure ((x, k) # H) own (body x)" and calm: "\<And>x. calm (body x)"
  shows "secure H own (nbind m (\<lambda>x. freeing k x (body x)))"
  unfolding secure_def
proof (rule triple_bind [OF m [unfolded secure_def]])
  show "triple (owned (\<lambda>a. kinds [(a, k)]) (Ok x)) (kinds H) (freeing k x (body x)) (owned (\<lambda>a. kinds (own a)))" for x
    using triple_freeing [OF body [unfolded secure_def, of x, simplified] calm is_kindD] by simp
qed simp_all

end
