(* ===== verification/Bridge_Keys.thy ===== *)
theory Bridge_Keys
  imports Bridge_Native
begin

text \<open>
  The key ceremonies of \<^verbatim>\<open>pkg/ares/crypto/cgo\<close>: contexts, reading and writing keys, threshold key generation and
  the two rounds of the joint evaluation keys, for CKKS and BFV, with a context of their own or a shared one
  (\<^verbatim>\<open>bridge.go\<close>), the shares that travel without their a-vectors (\<^verbatim>\<open>bonly_keygen.go\<close>) and the per-index
  rotation keys. The CKKS and BFV functions, and the ones with a shared context, have the same bodies up to the word
  \<^verbatim>\<open>BFV\<close> in their error texts: such a body is one definition with the context and the word (\<open>sch\<close>) as arguments.
\<close>

section \<open>Contexts\<close>

definition contract_batch :: "cgo_params \<Rightarrow> (32 word) option" where
  "contract_batch p =
     (if cg_MinimalRotationKeys p \<and> cg_ProfileDim p > 0 \<and> cg_PayloadSlotCount p > 0
      then double_until (word_of_int (max (cg_ProfileDim p) (cg_PayloadSlotCount p))) 1
      else if cg_EvalSumOnlyRotationKeys p \<and> cg_ProfileDim p > 0
      then double_until (word_of_int (cg_ProfileDim p)) 1
      else Some 0)"

definition c_context :: "('o, 'g) openfhe \<Rightarrow> c_ctx \<Rightarrow> string \<Rightarrow> ('o, 'g, nat) prog" where
  "c_context L op msg =
     with_world (lib_ctx L op) (\<lambda>res. case res of None \<Rightarrow> nfail msg | Some c \<Rightarrow> alloc (Obj CryptoContextHandle c))"

definition createContractContext :: "('o, 'g) openfhe \<Rightarrow> cgo_params \<Rightarrow> ('o, 'g, nat) prog" where
  "createContractContext L p s =
     (case contract_batch p of
        None \<Rightarrow> None
      | Some bs \<Rightarrow>
          nbind (c_context L (CreateCKKSContext
                   (if cg_RingDim p = 0 then 1024 else cg_RingDim p)
                   (if cg_ScalingFactor p = Fin 0 then Fin (2 ^ 50) else cg_ScalingFactor p)
                   (if cg_Depth p = 0 then 30 else cg_Depth p) bs) ''failed to create OpenFHE contract context'') (\<lambda>ctx.
          nbind (if cg_MinimalRotationKeys p
                 then c_act L (SetMinimalRotationKeys (word_of_int (cg_ProfileDim p)) (word_of_int (cg_PayloadSlotCount p))) [(ctx, CryptoContextHandle)]
                 else if cg_EvalSumOnlyRotationKeys p
                 then c_act L (SetEvalSumOnlyRotationKeys (word_of_int (cg_ProfileDim p))) [(ctx, CryptoContextHandle)]
                 else nret True) (\<lambda>_. nret ctx)) s)"

definition createBFVContractContext :: "('o, 'g) openfhe \<Rightarrow> bfv_params \<Rightarrow> ('o, 'g, nat) prog" where
  "createBFVContractContext L p =
     (let ring = (if bf_RingDim p = 0 then 32768 else bf_RingDim p) in
      c_context L (CreateBFVContext ring
        (if bf_MultiplicativeDepth p = 0 then 20 else bf_MultiplicativeDepth p)
        (if bf_PlaintextModulus p = 0 then 65537 else bf_PlaintextModulus p)
        (if bf_BatchSize p \<le> 0 then ring div 2 else word_of_int (bf_BatchSize p)))
        ''failed to create OpenFHE BFV contract context'')"

section \<open>Keys as bytes\<close>

definition serializePublicKey :: "('o, 'g) openfhe \<Rightarrow> nat \<Rightarrow> ('o, 'g, bytes) prog" where
  "serializePublicKey L pk = c_serialize L SerializePublicKey pk ''public-key serialization failed''"
definition serializeSecretKeyShare :: "('o, 'g) openfhe \<Rightarrow> nat \<Rightarrow> ('o, 'g, bytes) prog" where
  "serializeSecretKeyShare L sk = c_serialize L SerializeSecretKeyShare sk ''secret-key share serialization failed''"
definition serializeEvalMultKey :: "('o, 'g) openfhe \<Rightarrow> nat \<Rightarrow> ('o, 'g, bytes) prog" where
  "serializeEvalMultKey L key = c_serialize L SerializeEvalMultKey key ''eval-mult key serialization failed''"
definition serializeRotKey :: "('o, 'g) openfhe \<Rightarrow> nat \<Rightarrow> ('o, 'g, bytes) prog" where
  "serializeRotKey L key = c_serialize L SerializeRotKey key ''eval-sum key serialization failed''"
definition serializeCiphertext :: "('o, 'g) openfhe \<Rightarrow> nat \<Rightarrow> ('o, 'g, bytes) prog" where
  "serializeCiphertext L ct = c_serialize L SerializeCiphertext ct ''ciphertext serialization failed''"
definition serializeRotKeyBVectors :: "('o, 'g) openfhe \<Rightarrow> nat \<Rightarrow> ('o, 'g, bytes) prog" where
  "serializeRotKeyBVectors L key = c_serialize L SerializeRotKeyBVectors key ''b-vector rotation-key serialization failed''"
definition serializeRotKeyAVectors :: "('o, 'g) openfhe \<Rightarrow> nat \<Rightarrow> ('o, 'g, bytes) prog" where
  "serializeRotKeyAVectors L key = c_serialize L SerializeRotKeyAVectors key ''a-vector rotation-key serialization failed''"

abbreviation in_ctx :: "nat \<Rightarrow> cells" where "in_ctx ctx \<equiv> [(ctx, CryptoContextHandle)]"

definition deserializePublicKey :: "('o, 'g) openfhe \<Rightarrow> nat \<Rightarrow> bytes \<Rightarrow> ('o, 'g, nat) prog" where
  "deserializePublicKey L ctx raw =
     c_build L DeserializePublicKey (in_ctx ctx) [raw] ''public key bytes are required'' ''public-key deserialization failed''"
definition deserializeCiphertext :: "('o, 'g) openfhe \<Rightarrow> nat \<Rightarrow> bytes \<Rightarrow> ('o, 'g, nat) prog" where
  "deserializeCiphertext L ctx raw =
     c_build L DeserializeCiphertext (in_ctx ctx) [raw] ''ciphertext bytes are required'' ''ciphertext deserialization failed''"
definition deserializeSecretKeyShare :: "('o, 'g) openfhe \<Rightarrow> nat \<Rightarrow> bytes \<Rightarrow> bool \<Rightarrow> ('o, 'g, nat) prog" where
  "deserializeSecretKeyShare L ctx raw lead =
     c_build L (DeserializeSecretKeyShare lead) (in_ctx ctx) [raw]
       ''secret key share bytes are required'' ''secret-key share deserialization failed''"
definition deserializeEvalMultKey :: "('o, 'g) openfhe \<Rightarrow> nat \<Rightarrow> bytes \<Rightarrow> ('o, 'g, nat) prog" where
  "deserializeEvalMultKey L ctx raw =
     c_build L DeserializeEvalMultKey (in_ctx ctx) [raw] ''eval-mult key bytes are required'' ''eval-mult key deserialization failed''"
definition deserializeRotKey :: "('o, 'g) openfhe \<Rightarrow> nat \<Rightarrow> bytes \<Rightarrow> ('o, 'g, nat) prog" where
  "deserializeRotKey L ctx raw =
     c_build L DeserializeRotKey (in_ctx ctx) [raw] ''eval-sum key bytes are required'' ''eval-sum key deserialization failed''"
definition reconstructRotKeyFromAB :: "('o, 'g) openfhe \<Rightarrow> nat \<Rightarrow> bytes \<Rightarrow> bytes \<Rightarrow> ('o, 'g, nat) prog" where
  "reconstructRotKeyFromAB L ctx a b =
     c_build L ReconstructRotKeyFromAB (in_ctx ctx) [a, b]
       ''both a-vectors and b-vectors are required'' ''b-only rotation-key reconstruction failed''"
definition deserializeAVectors :: "('o, 'g) openfhe \<Rightarrow> bytes \<Rightarrow> ('o, 'g, nat) prog" where
  "deserializeAVectors L a =
     c_build L DeserializeAVectors [] [a] ''a-vectors are required'' ''a-vector deserialization failed''"
definition reconstructRotKeyFromAVectors :: "('o, 'g) openfhe \<Rightarrow> nat \<Rightarrow> nat \<Rightarrow> bytes \<Rightarrow> ('o, 'g, nat) prog" where
  "reconstructRotKeyFromAVectors L ctx a b =
     c_build L ReconstructRotKeyFromAVectors [(ctx, CryptoContextHandle), (a, AVectorsHandle)] [b]
       ''b-vectors are required'' ''b-only rotation-key reconstruction from cached a failed''"

text \<open>The handles read so far are freed when one of them cannot be read.\<close>

fun deserialize_all ::
  "(bytes \<Rightarrow> ('o, 'g, nat) prog) \<Rightarrow> hkind \<Rightarrow> (nat \<Rightarrow> string) \<Rightarrow> nat \<Rightarrow> nat list \<Rightarrow> bytes list \<Rightarrow> ('o, 'g, nat list) prog" where
  "deserialize_all f k lbl i hs [] = nret hs"
| "deserialize_all f k lbl i hs (raw # raws) =
     nbind (on_error (free_all k hs) (relabel (lbl i) (f raw)))
       (\<lambda>h. deserialize_all f k lbl (Suc i) (hs @ [h]) raws)"

definition deserializePublicKeys :: "('o, 'g) openfhe \<Rightarrow> nat \<Rightarrow> bytes list \<Rightarrow> ('o, 'g, nat list) prog" where
  "deserializePublicKeys L ctx = deserialize_all (deserializePublicKey L ctx) PublicKeyHandle (\<lambda>i. ''deserialize public key '' @ dec_nat i) 0 []"
definition deserializeEvalMultKeys :: "('o, 'g) openfhe \<Rightarrow> nat \<Rightarrow> bytes list \<Rightarrow> ('o, 'g, nat list) prog" where
  "deserializeEvalMultKeys L ctx = deserialize_all (deserializeEvalMultKey L ctx) EvalMultKeyHandle (\<lambda>i. ''deserialize eval-mult key '' @ dec_nat i) 0 []"
definition deserializeRotKeys :: "('o, 'g) openfhe \<Rightarrow> nat \<Rightarrow> bytes list \<Rightarrow> ('o, 'g, nat list) prog" where
  "deserializeRotKeys L ctx = deserialize_all (deserializeRotKey L ctx) RotKeyHandle (\<lambda>i. ''deserialize eval-sum key '' @ dec_nat i) 0 []"

section \<open>Threshold key generation\<close>

text \<open>\<^verbatim>\<open>defer C.FreePublicKey(pk); defer C.FreeSecretKeyShare(sk)\<close> after a key generation.\<close>

definition scoped_keys ::
  "('o, 'g) openfhe \<Rightarrow> nat \<Rightarrow> nat option \<Rightarrow> string \<Rightarrow> (nat \<Rightarrow> nat \<Rightarrow> ('o, 'g, 'a) prog) \<Rightarrow> ('o, 'g, 'a) prog" where
  "scoped_keys L ctx prev msg body =
     nbind (c_keygen L ctx prev msg) (\<lambda>(pk, sk).
       deferring (nfree PublicKeyHandle pk) (deferring (nfree SecretKeyShareHandle sk) (body pk sk)))"

definition share_bytes :: "('o, 'g) openfhe \<Rightarrow> bool \<Rightarrow> nat \<Rightarrow> nat \<Rightarrow> ('o, 'g, key_share) prog" where
  "share_bytes L lead pk sk =
     nbind (serializePublicKey L pk) (\<lambda>pkBytes.
     nbind (serializeSecretKeyShare L sk) (\<lambda>skBytes.
       nret \<lparr> ks_PublicKey = pkBytes, ks_SecretKeyShare = skBytes, ks_Lead = lead \<rparr>))"

definition keygen_first :: "('o, 'g) openfhe \<Rightarrow> string \<Rightarrow> nat \<Rightarrow> ('o, 'g, key_share) prog" where
  "keygen_first L sch ctx = scoped_keys L ctx None (sch @ ''distributed keygen first failed'') (share_bytes L True)"

definition keygen_next :: "('o, 'g) openfhe \<Rightarrow> string \<Rightarrow> bytes \<Rightarrow> nat \<Rightarrow> ('o, 'g, key_share) prog" where
  "keygen_next L sch prevPublicKey ctx =
     scoped (deserializePublicKey L ctx prevPublicKey) PublicKeyHandle (\<lambda>prev.
     scoped_keys L ctx (Some prev) (sch @ ''distributed keygen next failed'') (share_bytes L False))"

definition DistributedKeyGenFirst :: "('o, 'g) openfhe \<Rightarrow> cgo_params \<Rightarrow> ('o, 'g, key_share) prog" where
  "DistributedKeyGenFirst L ps = scoped (createContractContext L ps) CryptoContextHandle (keygen_first L '''')"
definition BFVDistributedKeyGenFirst :: "('o, 'g) openfhe \<Rightarrow> bfv_params \<Rightarrow> ('o, 'g, key_share) prog" where
  "BFVDistributedKeyGenFirst L ps = scoped (createBFVContractContext L ps) CryptoContextHandle (keygen_first L ''BFV '')"

definition DistributedKeyGenNext :: "('o, 'g) openfhe \<Rightarrow> cgo_params \<Rightarrow> bytes \<Rightarrow> ('o, 'g, key_share) prog" where
  "DistributedKeyGenNext L ps prevPublicKey =
     (if prevPublicKey = [] then nfail ''previous public key is required''
      else scoped (createContractContext L ps) CryptoContextHandle (keygen_next L '''' prevPublicKey))"
definition BFVDistributedKeyGenNext :: "('o, 'g) openfhe \<Rightarrow> bfv_params \<Rightarrow> bytes \<Rightarrow> ('o, 'g, key_share) prog" where
  "BFVDistributedKeyGenNext L ps prevPublicKey =
     (if prevPublicKey = [] then nfail ''previous public key is required''
      else scoped (createBFVContractContext L ps) CryptoContextHandle (keygen_next L ''BFV '' prevPublicKey))"

section \<open>The rounds of the evaluation keys\<close>

text \<open>A round-1 share is the pair of the eval-mult and the eval-sum part.\<close>

type_synonym round1 = "bytes \<times> bytes"

definition round1_lead :: "('o, 'g) openfhe \<Rightarrow> string \<Rightarrow> bytes \<Rightarrow> nat \<Rightarrow> ('o, 'g, round1) prog" where
  "round1_lead L sch secretKeyShare ctx =
     scoped (deserializeSecretKeyShare L ctx secretKeyShare True) SecretKeyShareHandle (\<lambda>sk.
     scoped (c_make L EvalMultKeyGenLead [(ctx, CryptoContextHandle), (sk, SecretKeyShareHandle)]
               (sch @ ''eval-mult lead key generation failed'')) EvalMultKeyHandle (\<lambda>mult.
     nbind (serializeEvalMultKey L mult) (\<lambda>multBytes.
     scoped (c_make L EvalSumKeyGenLead [(ctx, CryptoContextHandle), (sk, SecretKeyShareHandle)]
               (sch @ ''eval-sum lead key generation failed'')) RotKeyHandle (\<lambda>sum.
     nbind (serializeRotKey L sum) (\<lambda>sumBytes. nret (multBytes, sumBytes))))))"

definition round1_participant ::
  "('o, 'g) openfhe \<Rightarrow> string \<Rightarrow> bytes \<Rightarrow> bytes \<Rightarrow> bytes \<Rightarrow> bytes \<Rightarrow> nat \<Rightarrow> ('o, 'g, round1) prog" where
  "round1_participant L sch secretKeyShare evalMultBase evalSumBase ownPublicKey ctx =
     scoped (deserializeSecretKeyShare L ctx secretKeyShare False) SecretKeyShareHandle (\<lambda>sk.
     scoped (deserializeEvalMultKey L ctx evalMultBase) EvalMultKeyHandle (\<lambda>multBase.
     scoped (deserializeRotKey L ctx evalSumBase) RotKeyHandle (\<lambda>sumBase.
     scoped (deserializePublicKey L ctx ownPublicKey) PublicKeyHandle (\<lambda>ownPK.
     scoped (c_make L EvalMultKeySwitchShare
               [(ctx, CryptoContextHandle), (sk, SecretKeyShareHandle), (multBase, EvalMultKeyHandle)]
               (sch @ ''eval-mult switch-share generation failed'')) EvalMultKeyHandle (\<lambda>multShare.
     nbind (serializeEvalMultKey L multShare) (\<lambda>multBytes.
     scoped (c_make L EvalSumKeyShare
               [(ctx, CryptoContextHandle), (sk, SecretKeyShareHandle), (sumBase, RotKeyHandle), (ownPK, PublicKeyHandle)]
               (sch @ ''eval-sum share generation failed'')) RotKeyHandle (\<lambda>sumShare.
     nbind (serializeRotKey L sumShare) (\<lambda>sumBytes. nret (multBytes, sumBytes)))))))))"

definition round2_participant ::
  "('o, 'g) openfhe \<Rightarrow> string \<Rightarrow> bytes \<Rightarrow> bytes \<Rightarrow> bytes \<Rightarrow> bool \<Rightarrow> nat \<Rightarrow> ('o, 'g, bytes) prog" where
  "round2_participant L sch secretKeyShare evalMultJoined finalPublicKey lead ctx =
     scoped (deserializeSecretKeyShare L ctx secretKeyShare lead) SecretKeyShareHandle (\<lambda>sk.
     scoped (deserializeEvalMultKey L ctx evalMultJoined) EvalMultKeyHandle (\<lambda>joined.
     scoped (deserializePublicKey L ctx finalPublicKey) PublicKeyHandle (\<lambda>finalPK.
     scoped (c_make L EvalMultKeyFinalShare
               [(ctx, CryptoContextHandle), (sk, SecretKeyShareHandle), (joined, EvalMultKeyHandle), (finalPK, PublicKeyHandle)]
               (sch @ ''eval-mult final-share generation failed'')) EvalMultKeyHandle (\<lambda>finalShare.
     serializeEvalMultKey L finalShare))))"

text \<open>\<^verbatim>\<open>&xs[0]\<close> panics on an empty slice; the C side reads as many elements of an array as it is told.\<close>

definition combine_mult_final :: "('o, 'g) openfhe \<Rightarrow> string \<Rightarrow> nat \<Rightarrow> nat \<Rightarrow> nat list \<Rightarrow> ('o, 'g, nat) prog" where
  "combine_mult_final L msg ctx finalPK shares =
     (if shares = [] then npanic ''runtime error: index out of range''
      else c_build L CombineEvalMultFinalShares
             ((ctx, CryptoContextHandle) # (finalPK, PublicKeyHandle) # handles EvalMultKeyHandle shares) [] '''' msg)"

definition combine_round2 ::
  "('o, 'g) openfhe \<Rightarrow> string \<Rightarrow> bytes \<Rightarrow> bytes list \<Rightarrow> bytes \<Rightarrow> nat \<Rightarrow> ('o, 'g, eval_key_final) prog" where
  "combine_round2 L sch finalPublicKey evalMultFinalShares evalSumFinal ctx =
     scoped (deserializePublicKey L ctx finalPublicKey) PublicKeyHandle (\<lambda>finalPK.
     scoped_all (deserializeEvalMultKeys L ctx evalMultFinalShares) EvalMultKeyHandle (\<lambda>finalShares.
     scoped (combine_mult_final L (sch @ ''eval-mult final-share combination failed'') ctx finalPK finalShares) EvalMultKeyHandle (\<lambda>final.
     nbind (serializeEvalMultKey L final) (\<lambda>finalBytes.
       nret \<lparr> ek_EvalMultFinal = finalBytes, ek_EvalSumFinal = evalSumFinal \<rparr>))))"

abbreviation ckks :: "('o, 'g) openfhe \<Rightarrow> cgo_params \<Rightarrow> (nat \<Rightarrow> ('o, 'g, 'a) prog) \<Rightarrow> ('o, 'g, 'a) prog" where
  "ckks L ps body \<equiv> scoped (createContractContext L ps) CryptoContextHandle body"
abbreviation bfv :: "('o, 'g) openfhe \<Rightarrow> bfv_params \<Rightarrow> (nat \<Rightarrow> ('o, 'g, 'a) prog) \<Rightarrow> ('o, 'g, 'a) prog" where
  "bfv L ps body \<equiv> scoped (createBFVContractContext L ps) CryptoContextHandle body"

definition EvalKeyRound1Lead :: "('o, 'g) openfhe \<Rightarrow> cgo_params \<Rightarrow> bytes \<Rightarrow> ('o, 'g, round1) prog" where
  "EvalKeyRound1Lead L ps sk = ckks L ps (round1_lead L '''' sk)"
definition BFVEvalKeyRound1Lead :: "('o, 'g) openfhe \<Rightarrow> bfv_params \<Rightarrow> bytes \<Rightarrow> ('o, 'g, round1) prog" where
  "BFVEvalKeyRound1Lead L ps sk = bfv L ps (round1_lead L ''BFV '' sk)"
definition EvalKeyRound1Participant ::
  "('o, 'g) openfhe \<Rightarrow> cgo_params \<Rightarrow> bytes \<Rightarrow> bytes \<Rightarrow> bytes \<Rightarrow> bytes \<Rightarrow> ('o, 'g, round1) prog" where
  "EvalKeyRound1Participant L ps sk multBase sumBase ownPK = ckks L ps (round1_participant L '''' sk multBase sumBase ownPK)"
definition BFVEvalKeyRound1Participant ::
  "('o, 'g) openfhe \<Rightarrow> bfv_params \<Rightarrow> bytes \<Rightarrow> bytes \<Rightarrow> bytes \<Rightarrow> bytes \<Rightarrow> ('o, 'g, round1) prog" where
  "BFVEvalKeyRound1Participant L ps sk multBase sumBase ownPK = bfv L ps (round1_participant L ''BFV '' sk multBase sumBase ownPK)"
definition EvalKeyRound2Participant ::
  "('o, 'g) openfhe \<Rightarrow> cgo_params \<Rightarrow> bytes \<Rightarrow> bytes \<Rightarrow> bytes \<Rightarrow> bool \<Rightarrow> ('o, 'g, bytes) prog" where
  "EvalKeyRound2Participant L ps sk joined finalPK lead = ckks L ps (round2_participant L '''' sk joined finalPK lead)"
definition BFVEvalKeyRound2Participant ::
  "('o, 'g) openfhe \<Rightarrow> bfv_params \<Rightarrow> bytes \<Rightarrow> bytes \<Rightarrow> bytes \<Rightarrow> bool \<Rightarrow> ('o, 'g, bytes) prog" where
  "BFVEvalKeyRound2Participant L ps sk joined finalPK lead = bfv L ps (round2_participant L ''BFV '' sk joined finalPK lead)"

definition CombineEvalKeyRound2 ::
  "('o, 'g) openfhe \<Rightarrow> cgo_params \<Rightarrow> bytes \<Rightarrow> bytes list \<Rightarrow> bytes \<Rightarrow> ('o, 'g, eval_key_final) prog" where
  "CombineEvalKeyRound2 L ps finalPublicKey shares evalSumFinal =
     (if shares = [] then nfail ''at least one eval-mult final share is required''
      else ckks L ps (combine_round2 L '''' finalPublicKey shares evalSumFinal))"
definition BFVCombineEvalKeyRound2 ::
  "('o, 'g) openfhe \<Rightarrow> bfv_params \<Rightarrow> bytes \<Rightarrow> bytes list \<Rightarrow> bytes \<Rightarrow> ('o, 'g, eval_key_final) prog" where
  "BFVCombineEvalKeyRound2 L ps finalPublicKey shares evalSumFinal =
     (if shares = [] then nfail ''at least one eval-mult final share is required''
      else bfv L ps (combine_round2 L ''BFV '' finalPublicKey shares evalSumFinal))"

section \<open>Shared contexts\<close>

text \<open>A \<^verbatim>\<open>*CryptoContext\<close> is the value of its handle field; 0 after \<^verbatim>\<open>Close\<close>.\<close>

type_synonym crypto_context = nat

definition NewCryptoContext :: "('o, 'g) openfhe \<Rightarrow> cgo_params \<Rightarrow> ('o, 'g, crypto_context) prog" where
  "NewCryptoContext L ps = createContractContext L ps"

definition Close :: "crypto_context \<Rightarrow> ('o, 'g, crypto_context) prog" where
  "Close c = (if c \<noteq> 0 then nbind (nfree CryptoContextHandle c) (\<lambda>_. nret 0) else nret c)"

definition EvalKeyRound1LeadWithContext :: "('o, 'g) openfhe \<Rightarrow> crypto_context \<Rightarrow> bytes \<Rightarrow> ('o, 'g, round1) prog" where
  "EvalKeyRound1LeadWithContext L ctx sk = round1_lead L '''' sk ctx"

definition EvalMultKeyGenLeadWithContext :: "('o, 'g) openfhe \<Rightarrow> crypto_context \<Rightarrow> bytes \<Rightarrow> ('o, 'g, bytes) prog" where
  "EvalMultKeyGenLeadWithContext L ctx secretKeyShare =
     scoped (deserializeSecretKeyShare L ctx secretKeyShare True) SecretKeyShareHandle (\<lambda>sk.
     scoped (c_make L EvalMultKeyGenLead [(ctx, CryptoContextHandle), (sk, SecretKeyShareHandle)]
               ''eval-mult lead key generation failed'') EvalMultKeyHandle (serializeEvalMultKey L))"

definition EvalMultKeySwitchShareWithContext :: "('o, 'g) openfhe \<Rightarrow> crypto_context \<Rightarrow> bytes \<Rightarrow> bytes \<Rightarrow> ('o, 'g, bytes) prog" where
  "EvalMultKeySwitchShareWithContext L ctx secretKeyShare evalMultBase =
     scoped (deserializeSecretKeyShare L ctx secretKeyShare False) SecretKeyShareHandle (\<lambda>sk.
     scoped (deserializeEvalMultKey L ctx evalMultBase) EvalMultKeyHandle (\<lambda>multBase.
     scoped (c_make L EvalMultKeySwitchShare
               [(ctx, CryptoContextHandle), (sk, SecretKeyShareHandle), (multBase, EvalMultKeyHandle)]
               ''eval-mult switch-share generation failed'') EvalMultKeyHandle (serializeEvalMultKey L)))"

definition EvalKeyRound1ParticipantWithContext ::
  "('o, 'g) openfhe \<Rightarrow> crypto_context \<Rightarrow> bytes \<Rightarrow> bytes \<Rightarrow> bytes \<Rightarrow> bytes \<Rightarrow> ('o, 'g, round1) prog" where
  "EvalKeyRound1ParticipantWithContext L ctx sk multBase sumBase ownPK = round1_participant L '''' sk multBase sumBase ownPK ctx"

definition EvalKeyRound2ParticipantWithContext ::
  "('o, 'g) openfhe \<Rightarrow> crypto_context \<Rightarrow> bytes \<Rightarrow> bytes \<Rightarrow> bytes \<Rightarrow> bool \<Rightarrow> ('o, 'g, bytes) prog" where
  "EvalKeyRound2ParticipantWithContext L ctx sk joined finalPK lead = round2_participant L '''' sk joined finalPK lead ctx"

text \<open>This one has its own loop, checks that the eval-sum key can be read, and has no guard against an empty list of shares.\<close>

fun deserialize_shares :: "(bytes \<Rightarrow> ('o, 'g, nat) prog) \<Rightarrow> nat list \<Rightarrow> bytes list \<Rightarrow> ('o, 'g, nat list) prog" where
  "deserialize_shares f hs [] = nret hs"
| "deserialize_shares f hs (b # bs) =
     nbind (on_error (free_all EvalMultKeyHandle hs) (f b)) (\<lambda>h. deserialize_shares f (hs @ [h]) bs)"

definition CombineEvalKeyRound2WithContext ::
  "('o, 'g) openfhe \<Rightarrow> crypto_context \<Rightarrow> bytes \<Rightarrow> bytes list \<Rightarrow> bytes \<Rightarrow> ('o, 'g, eval_key_final) prog" where
  "CombineEvalKeyRound2WithContext L ctx finalPublicKey evalMultFinalShares evalSumFinal =
     scoped (deserializePublicKey L ctx finalPublicKey) PublicKeyHandle (\<lambda>finalPK.
     scoped_all (deserialize_shares (deserializeEvalMultKey L ctx) [] evalMultFinalShares) EvalMultKeyHandle (\<lambda>finalShares.
     scoped (deserializeRotKey L ctx evalSumFinal) RotKeyHandle (\<lambda>sumFinal.
     nbind (combine_mult_final L ''combine eval-mult final shares failed'' ctx finalPK finalShares) (\<lambda>final.
     nbind (freeing EvalMultKeyHandle final (serializeEvalMultKey L final)) (\<lambda>finalBytes.
       nret \<lparr> ek_EvalMultFinal = finalBytes, ek_EvalSumFinal = evalSumFinal \<rparr>)))))"

section \<open>Rotation keys one index at a time\<close>

definition StreamedEvalSumKeyGenLeadWithContext :: "('o, 'g) openfhe \<Rightarrow> crypto_context \<Rightarrow> bytes \<Rightarrow> ('o, 'g, bytes) prog" where
  "StreamedEvalSumKeyGenLeadWithContext L ctx secretKeyShare =
     scoped (deserializeSecretKeyShare L ctx secretKeyShare True) SecretKeyShareHandle (\<lambda>sk.
     scoped (c_make L StreamedEvalSumKeyGenLead [(ctx, CryptoContextHandle), (sk, SecretKeyShareHandle)]
               ''streamed eval-sum lead key generation failed'') RotKeyHandle (serializeRotKey L))"

text \<open>The three objects a participant derives a rotation-key share from.\<close>

definition with_base ::
  "('o, 'g) openfhe \<Rightarrow> nat \<Rightarrow> bytes \<Rightarrow> bytes \<Rightarrow> bytes \<Rightarrow> (cells \<Rightarrow> ('o, 'g, 'a) prog) \<Rightarrow> ('o, 'g, 'a) prog" where
  "with_base L ctx secretKeyShare evalSumBase ownPublicKey body =
     scoped (deserializeSecretKeyShare L ctx secretKeyShare False) SecretKeyShareHandle (\<lambda>sk.
     scoped (deserializeRotKey L ctx evalSumBase) RotKeyHandle (\<lambda>base.
     scoped (deserializePublicKey L ctx ownPublicKey) PublicKeyHandle (\<lambda>ownPK.
       body [(ctx, CryptoContextHandle), (sk, SecretKeyShareHandle), (base, RotKeyHandle), (ownPK, PublicKeyHandle)])))"

definition StreamedEvalSumKeyShareWithContext ::
  "('o, 'g) openfhe \<Rightarrow> crypto_context \<Rightarrow> bytes \<Rightarrow> bytes \<Rightarrow> bytes \<Rightarrow> ('o, 'g, bytes) prog" where
  "StreamedEvalSumKeyShareWithContext L ctx secretKeyShare evalSumBase ownPublicKey =
     with_base L ctx secretKeyShare evalSumBase ownPublicKey (\<lambda>args.
     scoped (c_make L StreamedEvalSumKeyShare args ''streamed eval-sum share generation failed'') RotKeyHandle (serializeRotKey L))"

text \<open>The count and the indices are two calls; the library is taken to answer both alike.\<close>

definition MinimalRotationIndicesWithContext :: "('o, 'g) openfhe \<Rightarrow> crypto_context \<Rightarrow> ('o, 'g, (32 word) list) prog" where
  "MinimalRotationIndicesWithContext L ctx =
     nbind (peek CryptoContextHandle ctx) (\<lambda>c.
     with_world (\<lambda>g. (lib_idx L c g, g)) (\<lambda>res.
       case res of None \<Rightarrow> nfail ''get minimal rotation index count failed'' | Some idx \<Rightarrow> nret idx))"

definition GeneratePerIndexEvalSumKeyWithContext :: "('o, 'g) openfhe \<Rightarrow> crypto_context \<Rightarrow> bytes \<Rightarrow> 32 word \<Rightarrow> ('o, 'g, bytes) prog" where
  "GeneratePerIndexEvalSumKeyWithContext L ctx secretKeyShare index =
     scoped (deserializeSecretKeyShare L ctx secretKeyShare True) SecretKeyShareHandle (\<lambda>sk.
     scoped (c_make L (GeneratePerIndexEvalSumKey index) [(ctx, CryptoContextHandle), (sk, SecretKeyShareHandle)]
               (''per-index eval-sum lead key generation failed for index '' @ dec_int (sint index))) RotKeyHandle (serializeRotKey L))"

record indexed_key =
  ik_Index :: int
  ik_Key :: bytes

fun per_index_keys :: "(32 word \<Rightarrow> ('o, 'g, bytes) prog) \<Rightarrow> (32 word) list \<Rightarrow> ('o, 'g, indexed_key list) prog" where
  "per_index_keys gen [] = nret []"
| "per_index_keys gen (index # rest) =
     nbind (gen index) (\<lambda>key. nbind (per_index_keys gen rest) (\<lambda>out. nret (\<lparr> ik_Index = sint index, ik_Key = key \<rparr> # out)))"

definition GeneratePerIndexEvalSumKeysWithContext :: "('o, 'g) openfhe \<Rightarrow> crypto_context \<Rightarrow> bytes \<Rightarrow> ('o, 'g, indexed_key list) prog" where
  "GeneratePerIndexEvalSumKeysWithContext L ctx secretKeyShare =
     nbind (MinimalRotationIndicesWithContext L ctx) (per_index_keys (GeneratePerIndexEvalSumKeyWithContext L ctx secretKeyShare))"

definition GeneratePerIndexEvalSumShareWithContext ::
  "('o, 'g) openfhe \<Rightarrow> crypto_context \<Rightarrow> bytes \<Rightarrow> bytes \<Rightarrow> bytes \<Rightarrow> 32 word \<Rightarrow> ('o, 'g, bytes) prog" where
  "GeneratePerIndexEvalSumShareWithContext L ctx secretKeyShare singleIndexBase ownPublicKey index =
     with_base L ctx secretKeyShare singleIndexBase ownPublicKey (\<lambda>args.
     scoped (c_make L (GeneratePerIndexEvalSumShare index) args
               (''per-index eval-sum share generation failed for index '' @ dec_int (sint index))) RotKeyHandle (serializeRotKey L))"

fun per_index_shares :: "(bytes \<Rightarrow> 32 word \<Rightarrow> ('o, 'g, bytes) prog) \<Rightarrow> indexed_key list \<Rightarrow> ('o, 'g, indexed_key list) prog" where
  "per_index_shares gen [] = nret []"
| "per_index_shares gen (base # rest) =
     nbind (gen (ik_Key base) (word_of_int (ik_Index base))) (\<lambda>key.
     nbind (per_index_shares gen rest) (\<lambda>out. nret (\<lparr> ik_Index = ik_Index base, ik_Key = key \<rparr> # out)))"

definition GeneratePerIndexEvalSumSharesWithContext ::
  "('o, 'g) openfhe \<Rightarrow> crypto_context \<Rightarrow> bytes \<Rightarrow> indexed_key list \<Rightarrow> bytes \<Rightarrow> ('o, 'g, indexed_key list) prog" where
  "GeneratePerIndexEvalSumSharesWithContext L ctx secretKeyShare baseKeys ownPublicKey =
     (if baseKeys = [] then nfail ''per-index eval-sum base keys are required''
      else per_index_shares (\<lambda>base. GeneratePerIndexEvalSumShareWithContext L ctx secretKeyShare base ownPublicKey) baseKeys)"

section \<open>Shares without their a-vectors\<close>

definition SplitRotShareAB :: "('o, 'g) openfhe \<Rightarrow> cgo_params \<Rightarrow> bytes \<Rightarrow> ('o, 'g, bytes \<times> bytes) prog" where
  "SplitRotShareAB L ps fullShare =
     ckks L ps (\<lambda>ctx.
     scoped (deserializeRotKey L ctx fullShare) RotKeyHandle (\<lambda>share.
     nbind (serializeRotKeyAVectors L share) (\<lambda>a.
     nbind (serializeRotKeyBVectors L share) (\<lambda>b. nret (a, b)))))"

definition ReconstructRotShareAB :: "('o, 'g) openfhe \<Rightarrow> cgo_params \<Rightarrow> bytes \<Rightarrow> bytes \<Rightarrow> ('o, 'g, bytes) prog" where
  "ReconstructRotShareAB L ps a b =
     ckks L ps (\<lambda>ctx. scoped (reconstructRotKeyFromAB L ctx a b) RotKeyHandle (serializeRotKey L))"

section \<open>Contexts are made when the batch size is in range\<close>

text \<open>The doubling loop starts at 1, so it visits the powers of two and, after the last one of 32 bits, 0 for ever.\<close>

lemma double_until_push: "double_until target r = Some v \<Longrightarrow> (\<exists>j. v = push_bit j r) \<and> target \<le> v"
proof (rule double_until.raw_induct [where P = "\<lambda>target r v. (\<exists>j. v = push_bit j r) \<and> target \<le> v"], goal_cases)
  case (1 f target r v)
  show ?case
  proof (cases "r < target")
    case True
    then have "f target (push_bit 1 r) = Some v" using 1(3) by (simp only: if_True)
    from 1(2) [OF this] obtain j where "v = push_bit j (push_bit 1 r)" "target \<le> v" by blast
    then have "v = push_bit (j + 1) r \<and> target \<le> v" by (metis push_bit_push_bit)
    then show ?thesis by blast
  next
    case False
    then have "v = push_bit 0 r" "target \<le> v" using 1(3) by auto
    then show ?thesis by blast
  qed
qed

lemma push_bit_one_le: "push_bit j (1 :: 32 word) \<le> 2 ^ 31"
proof (cases "j < 32")
  case True
  then have "(2 :: nat) ^ j < 2 ^ 32" by (intro power_strict_increasing) auto
  then have "unat (word_of_nat (2 ^ j) :: 32 word) = 2 ^ j"
    unfolding unat_of_nat by simp
  then have "unat (push_bit j (1 :: 32 word)) = 2 ^ j" by (simp add: push_bit_eq_mult)
  moreover have "(2 :: nat) ^ j \<le> 2 ^ 31" using True by (intro power_increasing) auto
  ultimately show ?thesis by (simp add: word_le_nat_alt)
next
  case False
  then have "push_bit j (1 :: 32 word) = 0"
    by (intro bit_word_eqI) (auto simp: bit_simps)
  then show ?thesis by (simp only: word_zero_le)
qed

lemma double_until_spec:
  fixes target :: "32 word"
  shows "target \<le> 2 ^ 31 \<Longrightarrow> \<exists>j < 32. double_until target 1 = Some (2 ^ j) \<and> target \<le> 2 ^ j"
    and "\<not> target \<le> 2 ^ 31 \<Longrightarrow> double_until target 1 = None"
proof -
  assume le: "target \<le> 2 ^ 31"
  have "\<exists>j < 32. double_until target (2 ^ i) = Some (2 ^ j) \<and> target \<le> 2 ^ j" if "i < 32" for i
    using that
  proof (induction "31 - i" arbitrary: i)
    case 0
    then have "i = 31" by simp
    then have "double_until target (2 ^ i) = Some (2 ^ i) \<and> target \<le> 2 ^ i"
      using le by (subst double_until.simps) auto
    then show ?case using 0 by blast
  next
    case (Suc n)
    show ?case
    proof (cases "(2 ^ i :: 32 word) < target")
      case True
      have "double_until target (2 ^ i) = double_until target (2 ^ Suc i)"
        using True by (subst double_until.simps) (simp add: push_bit_eq_mult mult.commute)
      then show ?thesis using Suc.hyps(1) [of "Suc i"] Suc.hyps(2) by auto
    next
      case False
      then have "double_until target (2 ^ i) = Some (2 ^ i) \<and> target \<le> 2 ^ i"
        by (subst double_until.simps) auto
      then show ?thesis using Suc.prems by blast
    qed
  qed
  from this [of 0] show "\<exists>j < 32. double_until target 1 = Some (2 ^ j) \<and> target \<le> 2 ^ j" by simp
next
  assume gt: "\<not> target \<le> 2 ^ 31"
  show "double_until target 1 = None"
  proof (rule ccontr)
    assume "double_until target 1 \<noteq> None"
    then obtain v where "double_until target 1 = Some v" by blast
    then obtain j where "v = push_bit j 1" "target \<le> v" using double_until_push by blast
    then show False using push_bit_one_le [of j] gt by (meson order_trans)
  qed
qed

lemma double_until_iff: "target \<le> (2 :: 32 word) ^ 31 \<longleftrightarrow> double_until target 1 \<noteq> None"
  using double_until_spec [of target] by (metis option.distinct(1))

text \<open>What keeps \<^verbatim>\<open>createContractContext\<close> from looping for ever.\<close>

definition batch_ok :: "cgo_params \<Rightarrow> bool" where
  "batch_ok p \<longleftrightarrow>
     (if cg_MinimalRotationKeys p \<and> cg_ProfileDim p > 0 \<and> cg_PayloadSlotCount p > 0
      then (word_of_int (max (cg_ProfileDim p) (cg_PayloadSlotCount p)) :: 32 word) \<le> 2 ^ 31
      else cg_EvalSumOnlyRotationKeys p \<and> cg_ProfileDim p > 0 \<longrightarrow> (word_of_int (cg_ProfileDim p) :: 32 word) \<le> 2 ^ 31)"

lemma contract_batch_iff: "batch_ok p \<longleftrightarrow> contract_batch p \<noteq> None"
  unfolding batch_ok_def contract_batch_def by (simp only: double_until_iff option.distinct simp_thms split: if_split) auto

section \<open>The programs free what they make\<close>

lemma secure_c_context [secure_intros]: "secure H (\<lambda>x. [(x, CryptoContextHandle)]) (c_context L op msg)"
  unfolding c_context_def by (intro secure_intros secure_alloc) simp

lemma secure_createContractContext [secure_intros]:
  assumes "batch_ok ps" shows "secure H (\<lambda>x. [(x, CryptoContextHandle)]) (createContractContext L ps)"
proof -
  obtain bs where bs: "contract_batch ps = Some bs" using assms contract_batch_iff by blast
  let ?k = "\<lambda>ctx. nbind (if cg_MinimalRotationKeys ps
       then c_act L (SetMinimalRotationKeys (word_of_int (cg_ProfileDim ps)) (word_of_int (cg_PayloadSlotCount ps))) [(ctx, CryptoContextHandle)]
       else if cg_EvalSumOnlyRotationKeys ps
       then c_act L (SetEvalSumOnlyRotationKeys (word_of_int (cg_ProfileDim ps))) [(ctx, CryptoContextHandle)]
       else nret True) (\<lambda>_. nret ctx)"
  have "secure H (\<lambda>x. [(x, CryptoContextHandle)]) (nbind (c_context L op msg) ?k)" for op msg
  proof (rule secure_extend [where ?own1.0 = "\<lambda>x. [(x, CryptoContextHandle)]" and ?own2.0 = "\<lambda>_ _. []"])
    show "secure H (\<lambda>x. [(x, CryptoContextHandle)]) (c_context L op msg)" by (rule secure_c_context)
    show "secure ([(ctx, CryptoContextHandle)] @ H) nothing (?k ctx)" for ctx
      by (intro secure_intros) auto
    show "is_ok r" if "?k ctx s = Some (r, s')" "ns_fault s' = ns_fault s" for ctx s r s'
      using that by (auto simp: nbind_def nret_def c_act_def with_world_def peek_def nfault_def split: option.splits outcome.splits prod.splits if_splits cell.splits)
    show "mset [(b, CryptoContextHandle)] = mset [(ctx, CryptoContextHandle)] + mset []" if "?k ctx s = Some (Ok b, s')" for ctx b s s'
      using that by (auto simp: nbind_def nret_def split: option.splits outcome.splits)
  qed
  then show ?thesis unfolding createContractContext_def bs option.case by (simp add: secure_def triple_def)
qed

lemma secure_createBFVContractContext [secure_intros]: "secure H (\<lambda>x. [(x, CryptoContextHandle)]) (createBFVContractContext L ps)"
  unfolding createBFVContractContext_def Let_def by (intro secure_intros)

lemma secure_serialize [secure_intros]:
  "(x, PublicKeyHandle) \<in> set H \<Longrightarrow> secure H nothing (serializePublicKey L x)"
  "(x, SecretKeyShareHandle) \<in> set H \<Longrightarrow> secure H nothing (serializeSecretKeyShare L x)"
  "(x, EvalMultKeyHandle) \<in> set H \<Longrightarrow> secure H nothing (serializeEvalMultKey L x)"
  "(x, RotKeyHandle) \<in> set H \<Longrightarrow> secure H nothing (serializeRotKey L x)"
  "(x, CiphertextHandle) \<in> set H \<Longrightarrow> secure H nothing (serializeCiphertext L x)"
  "(x, RotKeyHandle) \<in> set H \<Longrightarrow> secure H nothing (serializeRotKeyAVectors L x)"
  "(x, RotKeyHandle) \<in> set H \<Longrightarrow> secure H nothing (serializeRotKeyBVectors L x)"
  unfolding serializePublicKey_def serializeSecretKeyShare_def serializeEvalMultKey_def serializeRotKey_def
    serializeCiphertext_def serializeRotKeyAVectors_def serializeRotKeyBVectors_def
  by (simp_all add: secure_c_serialize)

lemma secure_deserialize [secure_intros]:
  "(ctx, CryptoContextHandle) \<in> set H \<Longrightarrow> secure H (\<lambda>x. [(x, PublicKeyHandle)]) (deserializePublicKey L ctx raw)"
  "(ctx, CryptoContextHandle) \<in> set H \<Longrightarrow> secure H (\<lambda>x. [(x, CiphertextHandle)]) (deserializeCiphertext L ctx raw)"
  "(ctx, CryptoContextHandle) \<in> set H \<Longrightarrow> secure H (\<lambda>x. [(x, SecretKeyShareHandle)]) (deserializeSecretKeyShare L ctx raw lead)"
  "(ctx, CryptoContextHandle) \<in> set H \<Longrightarrow> secure H (\<lambda>x. [(x, EvalMultKeyHandle)]) (deserializeEvalMultKey L ctx raw)"
  "(ctx, CryptoContextHandle) \<in> set H \<Longrightarrow> secure H (\<lambda>x. [(x, RotKeyHandle)]) (deserializeRotKey L ctx raw)"
  "(ctx, CryptoContextHandle) \<in> set H \<Longrightarrow> secure H (\<lambda>x. [(x, RotKeyHandle)]) (reconstructRotKeyFromAB L ctx a b)"
  "loses_nothing L DeserializeAVectors [] [a] \<Longrightarrow> secure H (\<lambda>x. [(x, AVectorsHandle)]) (deserializeAVectors L a)"
  "(ctx, CryptoContextHandle) \<in> set H \<Longrightarrow> (av, AVectorsHandle) \<in> set H
    \<Longrightarrow> secure H (\<lambda>x. [(x, RotKeyHandle)]) (reconstructRotKeyFromAVectors L ctx av b)"
  unfolding deserializePublicKey_def deserializeCiphertext_def deserializeSecretKeyShare_def deserializeEvalMultKey_def
    deserializeRotKey_def reconstructRotKeyFromAB_def deserializeAVectors_def reconstructRotKeyFromAVectors_def
  by (simp_all add: secure_c_build)

lemma steady_deserialize [steady_intros]:
  "steady (deserializePublicKey L ctx raw)" "steady (deserializeEvalMultKey L ctx raw)" "steady (deserializeRotKey L ctx raw)"
  "steady (deserializeCiphertext L ctx raw)"
  unfolding deserializePublicKey_def deserializeEvalMultKey_def deserializeRotKey_def deserializeCiphertext_def
  by (intro steady_intros)+

text \<open>A failing loop frees what it has read; the reading itself must not panic, for the clean-up is not deferred.\<close>

lemma triple_collect:
  assumes f: "secure H (\<lambda>x. [(x, k)]) m" and calm: "calm m" and rest: "\<And>x. triple (kinds (handles k (hs @ [x]))) (kinds H) (rest x) (owned (\<lambda>xs. kinds (handles k xs)))"
  shows "triple (kinds (handles k hs)) (kinds H) (nbind (on_error (free_all k hs) m) rest) (owned (\<lambda>xs. kinds (handles k xs)))"
proof (rule triple_bind)
  have "triple ([] @ kinds (handles k hs)) (kinds H) m (\<lambda>r. owned (\<lambda>x. kinds [(x, k)]) r @ kinds (handles k hs))"
    using f unfolding secure_def by (rule triple_frame)
  then have "triple (kinds (handles k hs)) (kinds H) m (\<lambda>r. case r of Ok x \<Rightarrow> kinds (handles k (hs @ [x])) | Err e \<Rightarrow> kinds (handles k hs) | Panic p \<Rightarrow> kinds (handles k hs))"
    by (rule triple_perm) (auto split: outcome.splits)
  then have "triple (kinds (handles k hs)) (kinds H) m (\<lambda>r. case r of Ok x \<Rightarrow> kinds (handles k (hs @ [x])) | Err e \<Rightarrow> kinds (handles k hs) | Panic p \<Rightarrow> [])"
    by (rule triple_calm) (simp_all add: calm)
  then show "triple (kinds (handles k hs)) (kinds H) (on_error (free_all k hs) m) (owned (\<lambda>x. kinds (handles k (hs @ [x]))))"
    by (rule triple_on_error) (auto intro: triple_free_all free_all_ok)
qed (use rest in simp_all)

lemma triple_deserialize_all:
  assumes "\<And>raw. secure H (\<lambda>x. [(x, k)]) (f raw)" "\<And>raw. steady (f raw)"
  shows "triple (kinds (handles k hs)) (kinds H) (deserialize_all f k lbl i hs raws) (owned (\<lambda>xs. kinds (handles k xs)))"
proof (induction raws arbitrary: i hs)
  case Nil
  show ?case unfolding deserialize_all.simps by (rule triple_nil_nret) simp
next
  case (Cons raw raws)
  show ?case
    unfolding deserialize_all.simps
    by (rule triple_collect) (intro secure_intros steady_calm steady_intros assms Cons.IH)+
qed

lemma triple_deserialize_shares:
  assumes "\<And>raw. secure H (\<lambda>x. [(x, EvalMultKeyHandle)]) (f raw)" "\<And>raw. steady (f raw)"
  shows "triple (kinds (handles EvalMultKeyHandle hs)) (kinds H) (deserialize_shares f hs raws) (owned (\<lambda>xs. kinds (handles EvalMultKeyHandle xs)))"
proof (induction raws arbitrary: hs)
  case Nil
  show ?case unfolding deserialize_shares.simps by (rule triple_nil_nret) simp
next
  case (Cons raw raws)
  show ?case
    unfolding deserialize_shares.simps by (rule triple_collect) (intro steady_calm assms Cons.IH)+
qed

lemma secure_deserialize_lists [secure_intros]:
  "(ctx, CryptoContextHandle) \<in> set H \<Longrightarrow> secure H (handles PublicKeyHandle) (deserializePublicKeys L ctx raws)"
  "(ctx, CryptoContextHandle) \<in> set H \<Longrightarrow> secure H (handles EvalMultKeyHandle) (deserializeEvalMultKeys L ctx raws)"
  "(ctx, CryptoContextHandle) \<in> set H \<Longrightarrow> secure H (handles RotKeyHandle) (deserializeRotKeys L ctx raws)"
  "(ctx, CryptoContextHandle) \<in> set H \<Longrightarrow> secure H (handles EvalMultKeyHandle) (deserialize_shares (deserializeEvalMultKey L ctx) [] raws)"
  unfolding secure_def deserializePublicKeys_def deserializeEvalMultKeys_def deserializeRotKeys_def
  by (auto intro!: triple_deserialize_all [where hs = "[]", simplified] triple_deserialize_shares [where hs = "[]", simplified] secure_intros steady_intros)

lemma secure_scoped_keys [secure_intros]:
  assumes "(ctx, CryptoContextHandle) \<in> set H" "\<forall>p. prev = Some p \<longrightarrow> (p, PublicKeyHandle) \<in> set H"
    and body: "\<And>pk sk. secure ((pk, PublicKeyHandle) # (sk, SecretKeyShareHandle) # H) nothing (body pk sk)"
  shows "secure H nothing (scoped_keys L ctx prev msg body)"
proof -
  let ?own = "\<lambda>(pk, sk). [(pk, PublicKeyHandle), (sk, SecretKeyShareHandle)]"
  let ?body = "\<lambda>(pk, sk). deferring (nfree PublicKeyHandle pk) (deferring (nfree SecretKeyShareHandle sk) (body pk sk))"
  have "triple [] (kinds H) (nbind (c_keygen L ctx prev msg) ?body) (owned (\<lambda>_. []))"
  proof (rule triple_bind)
    show "triple [] (kinds H) (c_keygen L ctx prev msg) (owned (\<lambda>a. kinds (?own a)))"
      using secure_c_keygen [OF assms(1,2)] by (simp add: secure_def)
    fix ks :: "nat \<times> nat"
    obtain pk sk where ks: "ks = (pk, sk)" by fastforce
    let ?pk = "(pk, is_kind PublicKeyHandle)" and ?sk = "(sk, is_kind SecretKeyShareHandle)"
    have "triple ([] @ [?pk, ?sk]) (kinds H) (body pk sk) (\<lambda>r. owned (\<lambda>_. []) r @ [?pk, ?sk])"
      by (rule triple_lend) (use body in \<open>simp add: secure_def\<close>)
    then have "triple [?pk, ?sk] (kinds H) (body pk sk) (\<lambda>r. [?sk] @ [?pk])"
      by (rule triple_perm) (simp_all add: owned_def split: outcome.splits)
    then have "triple [?pk, ?sk] (kinds H) (deferring (nfree SecretKeyShareHandle sk) (body pk sk)) (\<lambda>_. [] @ [?pk])"
      by (rule triple_deferring) (use triple_frame [OF triple_nfree_kind] nfree_ok in \<open>blast+\<close>)
    then have "triple [?pk, ?sk] (kinds H)
        (deferring (nfree PublicKeyHandle pk) (deferring (nfree SecretKeyShareHandle sk) (body pk sk))) (\<lambda>_. [])"
      by (rule triple_deferring) (auto intro: triple_nfree nfree_ok is_kindD)
    then show "triple (owned (\<lambda>a. kinds (?own a)) (Ok ks)) (kinds H) (?body ks) (owned (\<lambda>_. []))"
      unfolding ks by (simp, elim triple_cong) (simp add: owned_def split: outcome.splits)
  qed simp_all
  then show ?thesis by (simp add: secure_def scoped_keys_def)
qed

section \<open>The ceremonies are balanced\<close>

lemma secure_keygen [secure_intros]:
  "(ctx, CryptoContextHandle) \<in> set H \<Longrightarrow> secure H nothing (keygen_first L sch ctx)"
  "(ctx, CryptoContextHandle) \<in> set H \<Longrightarrow> secure H nothing (keygen_next L sch prev ctx)"
  unfolding keygen_first_def keygen_next_def share_bytes_def by (intro secure_intros; simp)+

lemma secure_rounds [secure_intros]:
  "(ctx, CryptoContextHandle) \<in> set H \<Longrightarrow> secure H nothing (round1_lead L sch sk ctx)"
  "(ctx, CryptoContextHandle) \<in> set H \<Longrightarrow> secure H nothing (round1_participant L sch sk multBase sumBase ownPK ctx)"
  "(ctx, CryptoContextHandle) \<in> set H \<Longrightarrow> secure H nothing (round2_participant L sch sk joined finalPK lead ctx)"
  unfolding round1_lead_def round1_participant_def round2_participant_def by (intro secure_intros; simp)+

lemma secure_combine_mult_final [secure_intros]:
  "(ctx, CryptoContextHandle) \<in> set H \<Longrightarrow> (pk, PublicKeyHandle) \<in> set H \<Longrightarrow> set (handles EvalMultKeyHandle shares) \<subseteq> set H
    \<Longrightarrow> secure H (\<lambda>x. [(x, EvalMultKeyHandle)]) (combine_mult_final L msg ctx pk shares)"
  unfolding combine_mult_final_def by (intro secure_intros) auto

lemma secure_combine_round2 [secure_intros]:
  "(ctx, CryptoContextHandle) \<in> set H \<Longrightarrow> secure H nothing (combine_round2 L sch finalPK shares sumFinal ctx)"
  unfolding combine_round2_def by (intro secure_intros) auto

lemma secure_with_base [secure_intros]:
  assumes "(ctx, CryptoContextHandle) \<in> set H"
    and "\<And>sk base pk. secure ((pk, PublicKeyHandle) # (base, RotKeyHandle) # (sk, SecretKeyShareHandle) # H) nothing
           (body [(ctx, CryptoContextHandle), (sk, SecretKeyShareHandle), (base, RotKeyHandle), (pk, PublicKeyHandle)])"
  shows "secure H nothing (with_base L ctx sk base pk body)"
  unfolding with_base_def using assms by (intro secure_intros) auto

lemma secure_shared_context [secure_intros]:
  assumes "(ctx, CryptoContextHandle) \<in> set H"
  shows "secure H nothing (EvalKeyRound1LeadWithContext L ctx sk)"
    "secure H nothing (EvalMultKeyGenLeadWithContext L ctx sk)"
    "secure H nothing (EvalMultKeySwitchShareWithContext L ctx sk base)"
    "secure H nothing (EvalKeyRound1ParticipantWithContext L ctx sk base sumBase pk)"
    "secure H nothing (EvalKeyRound2ParticipantWithContext L ctx sk joined pk lead)"
    "secure H nothing (StreamedEvalSumKeyGenLeadWithContext L ctx sk)"
    "secure H nothing (StreamedEvalSumKeyShareWithContext L ctx sk base pk)"
    "secure H nothing (GeneratePerIndexEvalSumKeyWithContext L ctx sk index)"
    "secure H nothing (GeneratePerIndexEvalSumShareWithContext L ctx sk base pk index)"
    "secure H nothing (MinimalRotationIndicesWithContext L ctx)"
  using assms
  unfolding EvalKeyRound1LeadWithContext_def EvalMultKeyGenLeadWithContext_def EvalMultKeySwitchShareWithContext_def
    EvalKeyRound1ParticipantWithContext_def EvalKeyRound2ParticipantWithContext_def StreamedEvalSumKeyGenLeadWithContext_def
    StreamedEvalSumKeyShareWithContext_def GeneratePerIndexEvalSumKeyWithContext_def GeneratePerIndexEvalSumShareWithContext_def
    MinimalRotationIndicesWithContext_def
  by (intro secure_intros secure_peek; simp)+

lemma secure_per_index_keys: "(\<And>i. secure H nothing (gen i)) \<Longrightarrow> secure H nothing (per_index_keys gen is)"
  by (induction "is") (auto intro!: secure_intros)

lemma secure_per_index_shares: "(\<And>b i. secure H nothing (gen b i)) \<Longrightarrow> secure H nothing (per_index_shares gen bs)"
  by (induction bs) (auto intro!: secure_intros)

lemma secure_per_index [secure_intros]:
  assumes "(ctx, CryptoContextHandle) \<in> set H"
  shows "secure H nothing (GeneratePerIndexEvalSumKeysWithContext L ctx sk)"
    "secure H nothing (GeneratePerIndexEvalSumSharesWithContext L ctx sk bases pk)"
  unfolding GeneratePerIndexEvalSumKeysWithContext_def GeneratePerIndexEvalSumSharesWithContext_def
  using assms by (intro secure_intros secure_per_index_keys secure_per_index_shares; simp)+

lemma balanced_keys:
  "batch_ok ps \<Longrightarrow> balanced (DistributedKeyGenFirst L ps)"
  "batch_ok ps \<Longrightarrow> balanced (DistributedKeyGenNext L ps prev)"
  "batch_ok ps \<Longrightarrow> balanced (EvalKeyRound1Lead L ps sk)"
  "batch_ok ps \<Longrightarrow> balanced (EvalKeyRound1Participant L ps sk multBase sumBase pk)"
  "batch_ok ps \<Longrightarrow> balanced (EvalKeyRound2Participant L ps sk joined pk lead)"
  "batch_ok ps \<Longrightarrow> balanced (CombineEvalKeyRound2 L ps pk shares sumFinal)"
  "balanced (BFVDistributedKeyGenFirst L bs)"
  "balanced (BFVDistributedKeyGenNext L bs prev)"
  "balanced (BFVEvalKeyRound1Lead L bs sk)"
  "balanced (BFVEvalKeyRound1Participant L bs sk multBase sumBase pk)"
  "balanced (BFVEvalKeyRound2Participant L bs sk joined pk lead)"
  "balanced (BFVCombineEvalKeyRound2 L bs pk shares sumFinal)"
  "batch_ok ps \<Longrightarrow> balanced (SplitRotShareAB L ps full)"
  "batch_ok ps \<Longrightarrow> balanced (ReconstructRotShareAB L ps a b)"
  unfolding balanced_def DistributedKeyGenFirst_def DistributedKeyGenNext_def EvalKeyRound1Lead_def EvalKeyRound1Participant_def
    EvalKeyRound2Participant_def CombineEvalKeyRound2_def BFVDistributedKeyGenFirst_def BFVDistributedKeyGenNext_def
    BFVEvalKeyRound1Lead_def BFVEvalKeyRound1Participant_def BFVEvalKeyRound2Participant_def BFVCombineEvalKeyRound2_def
    SplitRotShareAB_def ReconstructRotShareAB_def
  by (intro secure_intros; simp)+

end
