(* ===== verification/Bridge_Refine.thy ===== *)
theory Bridge_Refine
  imports Bridge_Keys
begin

text \<open>
  Functional refinement for programs of the bridge. \<open>computes P H m sp R E\<close> says that \<open>m\<close> has exactly the
  outcome that the pure value \<open>sp\<close> says: the same error text, the same panic, or a result that represents
  the value (\<open>R\<close>, for a handle: the cell it names holds the value). It owns \<open>P\<close> before, \<open>R\<close> or, when it fails,
  \<open>E\<close> after. As it is a \<open>triple\<close>, it also says that \<open>m\<close> returns, faults nowhere, leaks nothing and leaves the rest of
  the heap alone. There is one rule for every combinator and one for every C call.

  Go variables that a closure or a deferred function shares with the body (the cache of a-vectors, the handle that is
  freed in the end if it was set) keep their value when the body fails: a program with such variables is a \<open>vprog\<close>.
\<close>

section \<open>Outcomes as values\<close>

lemma obind_simps [simp]: "obind (Ok a) f = f a" "obind (Err e) f = Err e" "obind (Panic p) f = Panic p"
  by (simp_all add: obind_def)

fun olabel :: "string \<Rightarrow> (string, 'a) outcome \<Rightarrow> (string, 'a) outcome" where
  "olabel lbl (Err e) = Err (lbl @ '': '' @ e)"
| "olabel lbl r = r"

lemma olabel_Ok [simp]: "olabel lbl r = Ok a \<longleftrightarrow> r = Ok a" "Ok a = olabel lbl r \<longleftrightarrow> r = Ok a"
  by (cases r; auto)+

lemma obind_Ok [simp]: "obind r f = Ok b \<longleftrightarrow> (\<exists>a. r = Ok a \<and> f a = Ok b)"
  by (cases r) auto

definition orequire :: "string \<Rightarrow> 'a option \<Rightarrow> (string, 'a) outcome" where
  "orequire msg v = (case v of None \<Rightarrow> Err msg | Some a \<Rightarrow> Ok a)"

lemma orequire_simps [simp]: "orequire msg None = Err msg" "orequire msg (Some a) = Ok a" "orequire msg v = Ok a \<longleftrightarrow> v = Some a"
  by (auto simp: orequire_def split: option.splits)

fun is_panic :: "('e, 'a) outcome \<Rightarrow> bool" where
  "is_panic (Panic _) = True"
| "is_panic _ = False"

lemma is_panic_simps [simp]: "\<not> is_panic (orequire msg v)" "is_panic (olabel lbl r) = is_panic r"
  "is_panic (obind r f) \<longleftrightarrow> is_panic r \<or> (\<exists>a. r = Ok a \<and> is_panic (f a))"
  subgoal by (cases v) simp_all
  subgoal by (cases r) simp_all
  subgoal by (cases r) simp_all
  done

section \<open>Refinement\<close>

fun post :: "('a \<Rightarrow> 'v \<Rightarrow> 'o assn) \<Rightarrow> 'o assn \<Rightarrow> (string, 'v) outcome \<Rightarrow> (string, 'a) outcome \<Rightarrow> 'o assn" where
  "post R E (Ok v) (Ok a) = R a v"
| "post R E (Err e) (Err e') = (if e' = e then E else never)"
| "post R E (Panic p) (Panic p') = (if p' = p then E else never)"
| "post R E _ _ = never"

definition computes ::
  "'o assn \<Rightarrow> 'o assn \<Rightarrow> ('o, 'g, 'a) prog \<Rightarrow> (string, 'v) outcome \<Rightarrow> ('a \<Rightarrow> 'v \<Rightarrow> 'o assn) \<Rightarrow> 'o assn \<Rightarrow> bool" where
  "computes P H m sp R E \<longleftrightarrow> triple P H m (post R E sp)"

definition same :: "'v \<Rightarrow> 'v \<Rightarrow> 'o assn" where "same a v = (if a = v then [] else never)"

abbreviation exactly :: "hkind \<Rightarrow> 'o \<Rightarrow> 'o cell \<Rightarrow> bool" where "exactly k v \<equiv> \<lambda>c. c = Obj k v"
abbreviation handle :: "hkind \<Rightarrow> nat \<Rightarrow> 'o \<Rightarrow> 'o assn" where "handle k x v \<equiv> [(x, exactly k v)]"

lemma same_simps [simp]: "same v v = []" by (simp add: same_def)

lemma owns_absurd: "set never \<subseteq> set A \<Longrightarrow> \<not> owns s A H"
proof
  assume n: "set never \<subseteq> set A" and o: "owns s A H"
  then have "(0, \<lambda>_. False) \<in> set A" by (simp add: never_def)
  then have "live s (0, \<lambda>_. False)" using o unfolding owns_def by blast
  then show False by (simp add: live_def)
qed

lemma triple_never':
  fixes m :: "('o, 'g, 'a) prog"
  assumes t: "triple P H m Q" and Q: "\<And>r. Q r = Q' r \<or> set never \<subseteq> set (Q r)" shows "triple P H m Q'"
  unfolding triple_def
proof (intro allI impI)
  fix s :: "('o, 'g) native" assume "owns s P H"
  then obtain r s' where r: "m s = Some (r, s')" "owns s' (Q r) H" "moved s s' P H (Q r)" using t unfolding triple_def by blast
  then have "Q r = Q' r" using Q [of r] owns_absurd by auto
  then show "\<exists>r s'. m s = Some (r, s') \<and> owns s' (Q' r) H \<and> moved s s' P H (Q' r)" using r by auto
qed

text \<open>The consequence rule: assertions may be reordered, and outcomes that cannot occur do not matter.\<close>

lemma triple_conseq:
  assumes t: "triple P H m Q" and P: "mset P' = mset P" and Q: "\<And>r. mset (Q' r) = mset (Q r) \<or> set never \<subseteq> set (Q r)"
  shows "triple P' H m Q'"
proof -
  have "triple P H m (\<lambda>r. if mset (Q' r) = mset (Q r) then Q' r else Q r)"
    using t by (rule triple_perm) simp_all
  then have "triple P H m Q'"
  proof (rule triple_never')
    fix r show "(if mset (Q' r) = mset (Q r) then Q' r else Q r) = Q' r \<or> set never \<subseteq> set (if mset (Q' r) = mset (Q r) then Q' r else Q r)"
      using Q [of r] by auto
  qed
  then show ?thesis by (rule triple_perm) (simp_all add: P)
qed

lemma post_frame:
  "mset (post (\<lambda>a v. R a v @ F) (E @ F) sp r) = mset (post R E sp r @ F) \<or> set never \<subseteq> set (post R E sp r @ F)"
  "mset (post R E sp r @ F) = mset (post (\<lambda>a v. R a v @ F) (E @ F) sp r) \<or> set never \<subseteq> set (post (\<lambda>a v. R a v @ F) (E @ F) sp r)"
  by (cases sp; cases r; auto)+

lemma computes_conseq:
  assumes t: "computes P H m sp R E" and P: "mset P' = mset P"
    and R: "\<And>a v. sp = Ok v \<Longrightarrow> mset (R' a v) = mset (R a v) \<or> set never \<subseteq> set (R a v)"
    and E: "\<not> is_ok sp \<Longrightarrow> mset E' = mset E"
  shows "computes P' H m sp R' E'"
  using t unfolding computes_def
proof (rule triple_conseq [OF _ P])
  fix r show "mset (post R' E' sp r) = mset (post R E sp r) \<or> set never \<subseteq> set (post R E sp r)"
    using R E by (cases sp; cases r) (auto simp: is_ok_iff)
qed

lemma computes_frame: "computes P H m sp R E \<Longrightarrow> computes (P @ F) H m sp (\<lambda>a v. R a v @ F) (E @ F)"
  unfolding computes_def by (drule triple_frame [where R = F], erule triple_conseq) (rule refl, rule post_frame)

lemma computes_lend: "computes P (F @ H) m sp R E \<Longrightarrow> computes (P @ F) H m sp (\<lambda>a v. R a v @ F) (E @ F)"
  unfolding computes_def by (drule triple_lend, erule triple_conseq) (rule refl, rule post_frame)

lemma computes_nret: "P = R a v \<Longrightarrow> computes P H (nret a) (Ok v) R E"
  unfolding computes_def by (rule triple_nil_nret) simp

lemma computes_nfail: "P = E \<Longrightarrow> computes P H (nfail e) (Err e) R E"
  unfolding computes_def by (rule triple_post [OF triple_nfail]) (auto simp: nfail_def)

lemma computes_npanic: "P = E \<Longrightarrow> computes P H (npanic e) (Panic e) R E"
  unfolding computes_def by (rule triple_post [OF triple_npanic]) (auto simp: npanic_def)

lemma computes_nbind:
  fixes m :: "('o, 'g, 'a) prog"
  assumes m: "computes P H m sp R E" and k: "\<And>a v. sp = Ok v \<Longrightarrow> computes (R a v) H (k a) (sp' v) R' E"
  shows "computes P H (nbind m k) (obind sp sp') R' E"
  unfolding computes_def triple_def
proof (intro allI impI)
  fix s :: "('o, 'g) native" assume o: "owns s P H"
  then obtain r s' where r: "m s = Some (r, s')" "owns s' (post R E sp r) H" "moved s s' P H (post R E sp r)"
    using m unfolding computes_def triple_def by blast
  show "\<exists>r s'. nbind m k s = Some (r, s') \<and> owns s' (post R' E (obind sp sp') r) H \<and> moved s s' P H (post R' E (obind sp sp') r)"
  proof (cases sp)
    case (Ok v)
    then obtain a where a: "r = Ok a" using r(2) by (cases r) auto
    obtain r2 s2 where r2: "k a s' = Some (r2, s2)" "owns s2 (post R' E (sp' v) r2) H" "moved s' s2 (R a v) H (post R' E (sp' v) r2)"
      using k [OF Ok, of a] r Ok a unfolding computes_def triple_def by auto
    have "moved s s2 P H (post R' E (sp' v) r2)"
      using moved_trans [OF _ _ r2(3)] r(3) o Ok a by (simp add: owns_def)
    then show ?thesis using r(1) r2 Ok a by (simp add: nbind_def)
  next
    case (Err e)
    then have "r = Err e" using r(2) by (cases r) (auto split: if_splits)
    then show ?thesis using r Err by (simp add: nbind_def)
  next
    case (Panic e)
    then have "r = Panic e" using r(2) by (cases r) (auto split: if_splits)
    then show ?thesis using r Panic by (simp add: nbind_def)
  qed
qed

lemma computes_relabel:
  fixes m :: "('o, 'g, 'a) prog"
  assumes "computes P H m sp R E" shows "computes P H (relabel lbl m) (olabel lbl sp) R E"
  unfolding computes_def triple_def
proof (intro allI impI)
  fix s :: "('o, 'g) native" assume "owns s P H"
  then obtain r s' where r: "m s = Some (r, s')" "owns s' (post R E sp r) H" "moved s s' P H (post R E sp r)"
    using assms unfolding computes_def triple_def by blast
  then show "\<exists>r s'. relabel lbl m s = Some (r, s') \<and> owns s' (post R E (olabel lbl sp) r) H \<and> moved s s' P H (post R E (olabel lbl sp) r)"
    by (cases sp; cases r) (auto simp: relabel_def split: if_splits)
qed

lemma computes_on_error:
  assumes m: "computes P H m sp R E" and d: "\<not> is_ok sp \<Longrightarrow> triple E H d (\<lambda>_. E')"
    and ok: "\<And>s r s'. d s = Some (r, s') \<Longrightarrow> ns_fault s' = ns_fault s \<Longrightarrow> is_ok r" and calm: "\<not> is_panic sp"
  shows "computes P H (on_error d m) sp R E'"
  unfolding computes_def
proof (rule triple_on_error)
  show "triple P H m (\<lambda>r. case r of Err e \<Rightarrow> post R E sp (Err e) | r \<Rightarrow> post R E' sp r)"
    using m unfolding computes_def
    by (rule triple_never) (use calm in \<open>cases sp; auto split: outcome.splits\<close>)
  show "triple (case Err e of Err e \<Rightarrow> post R E sp (Err e) | r \<Rightarrow> post R E' sp r) H d (\<lambda>_. post R E' sp (Err e))" for e
  proof (cases "sp = Err e")
    case True
    then show ?thesis using d by simp
  next
    case False
    then show ?thesis by (cases sp) (simp_all add: triple_def)
  qed
qed (use ok in simp_all)

text \<open>A free that is not deferred, after a program that does not panic.\<close>

lemma computes_freeing:
  fixes m :: "('o, 'g, 'a) prog"
  assumes m: "computes P ((x, \<phi>) # H) m sp R E" and k: "\<And>c. \<phi> c \<Longrightarrow> cell_kind c = k" and calm: "\<not> is_panic sp"
  shows "computes (P @ [(x, \<phi>)]) H (freeing k x m) sp R E"
proof -
  have m': "computes (P @ [(x, \<phi>)]) H m sp (\<lambda>a v. R a v @ [(x, \<phi>)]) (E @ [(x, \<phi>)])"
    by (rule computes_lend) (use m in simp)
  have "triple (P @ [(x, \<phi>)]) H (deferring (nfree k x) m) (post R E sp)"
  proof (rule triple_deferring [OF _ _ nfree_ok])
    show "triple (P @ [(x, \<phi>)]) H m (\<lambda>r. post R E sp r @ [(x, \<phi>)])"
      using m' unfolding computes_def by (rule triple_conseq) (rule refl, rule post_frame)
    show "triple (post R E sp r @ [(x, \<phi>)]) H (nfree k x) (\<lambda>_. post R E sp r)" for r
      using triple_frame [OF triple_nfree [OF k], where R = "post R E sp r"] by (rule triple_perm) simp_all
  qed
  moreover have "freeing k x m s = deferring (nfree k x) m s" if "owns s (P @ [(x, \<phi>)]) H" for s :: "('o, 'g) native"
  proof -
    obtain r s' where r: "m s = Some (r, s')" "owns s' (post (\<lambda>a v. R a v @ [(x, \<phi>)]) (E @ [(x, \<phi>)]) sp r) H"
      using m' \<open>owns s (P @ [(x, \<phi>)]) H\<close> unfolding computes_def triple_def by blast
    then have "\<not> is_panic r" using calm by (cases sp; cases r) auto
    then show ?thesis using r(1) by (cases r) (simp_all add: freeing_def)
  qed
  ultimately show ?thesis by (auto simp: computes_def triple_def)
qed

text \<open>A scope whose body may change the object in place.\<close>

lemma computes_scoped_own:
  assumes m: "computes [] H m sp (\<lambda>x v. [(x, \<phi> v)]) []"
    and body: "\<And>x v. sp = Ok v \<Longrightarrow> computes [(x, \<phi> v)] H (body x) (sp' v) (\<lambda>a w. R a w @ [(x, is_kind k)]) [(x, is_kind k)]"
  shows "computes [] H (scoped m k body) (obind sp sp') R []"
  unfolding scoped_def
proof (rule computes_nbind [OF m])
  fix x v assume "sp = Ok v"
  show "computes [(x, \<phi> v)] H (deferring (nfree k x) (body x)) (sp' v) R []"
    unfolding computes_def
  proof (rule triple_deferring [OF _ _ nfree_ok])
    show "triple [(x, \<phi> v)] H (body x) (\<lambda>r. post R [] (sp' v) r @ [(x, is_kind k)])"
    proof (rule triple_conseq [OF _ refl])
      show "triple [(x, \<phi> v)] H (body x) (post (\<lambda>a w. R a w @ [(x, is_kind k)]) ([] @ [(x, is_kind k)]) (sp' v))"
        using body [OF \<open>sp = Ok v\<close>, of x] by (simp add: computes_def)
    qed (rule post_frame)
    show "triple (post R [] (sp' v) r @ [(x, is_kind k)]) H (nfree k x) (\<lambda>_. post R [] (sp' v) r)" for r
      using triple_frame [OF triple_nfree_kind, where R = "post R [] (sp' v) r"] by (rule triple_perm) simp_all
  qed
qed

section \<open>C calls\<close>

definition holds :: "'o assn \<Rightarrow> cells \<Rightarrow> 'o list \<Rightarrow> bool" where
  "holds H args cs \<longleftrightarrow> list_all2 (\<lambda>xk c. (fst xk, exactly (snd xk) c) \<in> set H) args cs"

lemma holds_simps [simp]: "holds H [] cs \<longleftrightarrow> cs = []"
  "holds H ((x, k) # args) (c # cs) \<longleftrightarrow> (x, exactly k c) \<in> set H \<and> holds H args cs"
  by (auto simp: holds_def)

lemma computes_absurd: "set never \<subseteq> set P \<Longrightarrow> computes P H m sp R E"
  by (simp add: computes_def triple_def owns_absurd)

text \<open>Sequencing after a program whose result is a plain value.\<close>

lemma computes_val:
  assumes m: "computes P H m sp (\<lambda>a v. same a v @ F) E" and k: "\<And>v. sp = Ok v \<Longrightarrow> computes F H (k v) (sp' v) R E"
  shows "computes P H (nbind m k) (obind sp sp') R E"
proof (rule computes_nbind [OF m])
  fix a v assume "sp = Ok v"
  then show "computes (same a v @ F) H (k a) (sp' v) R E"
    using k by (cases "a = v") (auto simp: same_def intro: computes_absurd)
qed

lemma computes_val_nil:
  "computes [] H m sp same [] \<Longrightarrow> (\<And>v. sp = Ok v \<Longrightarrow> computes [] H (k v) (sp' v) R []) \<Longrightarrow> computes [] H (nbind m k) (obind sp sp') R []"
  by (rule computes_val [where F = "[]"]) simp_all

lemma computes_peek: "(x, exactly k c) \<in> set H \<Longrightarrow> computes [] H (peek k x) (Ok c) same []"
  unfolding computes_def
  by (rule triple_never [OF triple_peek [where \<phi> = "exactly k c"]]) (auto simp: same_def split: outcome.splits)

lemma computes_peeks: "holds H args cs \<Longrightarrow> computes [] H (peeks args :: ('o, 'g, 'o list) prog) (Ok cs) same []"
proof (induction args arbitrary: cs)
  case (Cons xk args)
  obtain x k where [simp]: "xk = (x, k)" by fastforce
  obtain c cs' where [simp]: "cs = c # cs'" using Cons.prems by (auto simp: holds_def list_all2_Cons1)
  have x: "(x, exactly k c) \<in> set H" and rest: "holds H args cs'" using Cons.prems by simp_all
  have "computes [] H (nbind (peek k x) (\<lambda>c. nbind (peeks args) (\<lambda>cs. nret (c # cs))) :: ('o, 'g, 'o list) prog) (obind (Ok c) (\<lambda>c. obind (Ok cs') (\<lambda>cs. Ok (c # cs)))) same []"
    by (intro computes_val_nil computes_peek [OF x] Cons.IH [OF rest] computes_nret) simp
  then show ?case by simp
qed (simp add: computes_nret)

lemma computes_alloc: "computes [] H (alloc c) (Ok v) (\<lambda>x _. [(x, \<lambda>c'. c' = c)]) []"
  unfolding computes_def by (rule triple_never [OF triple_alloc]) (simp split: outcome.splits)

lemma computes_alloc_obj: "computes [] H (alloc (Obj k v)) (Ok v) (handle k) []"
  unfolding computes_def by (rule triple_never [OF triple_alloc]) (simp split: outcome.splits)

definition build_spec :: "('o, 'g) openfhe \<Rightarrow> c_fun \<Rightarrow> 'o list \<Rightarrow> bytes list \<Rightarrow> string \<Rightarrow> string \<Rightarrow> (string, 'o) outcome" where
  "build_spec L op cs raws required msg = (if [] \<in> set raws then Err required else orequire msg (lib_fun L op cs raws))"

lemma build_spec_calm [simp]: "\<not> is_panic (build_spec L op cs raws required msg)"
  by (simp add: build_spec_def)

lemma computes_c_build:
  assumes "holds H args cs" "fun_kind op = k" "loses_nothing L op args raws"
  shows "computes [] H (c_build L op args raws required msg) (build_spec L op cs raws required msg) (handle k) []"
proof (cases "[] \<in> set raws")
  case False
  have fails: "computes [] H (build_failed op msg) (Err msg) (handle k) []" if "lib_fun L op cs raws = None"
  proof -
    have "cs = []" if "args = []" using assms(1) that by simp
    then have "op \<noteq> DeserializeAVectors" using assms(3) False that by (auto simp: loses_nothing_def)
    then show ?thesis by (simp add: computes_nfail)
  qed
  have "computes [] H (nbind (peeks args) (\<lambda>cs. case lib_fun L op cs raws of None \<Rightarrow> build_failed op msg | Some c \<Rightarrow> alloc (Obj (fun_kind op) c)))
      (obind (Ok cs) (\<lambda>cs. orequire msg (lib_fun L op cs raws))) (handle k) []"
  proof (rule computes_val_nil [OF computes_peeks [OF assms(1)]])
    fix v assume v: "Ok cs = Ok v"
    show "computes [] H (case lib_fun L op v raws of None \<Rightarrow> build_failed op msg | Some c \<Rightarrow> alloc (Obj (fun_kind op) c))
        (orequire msg (lib_fun L op v raws)) (handle k) []"
      using assms(2) fails v by (cases "lib_fun L op v raws") (simp_all add: computes_alloc_obj)
  qed
  then show ?thesis using False by (simp add: c_build_def build_spec_def)
qed (simp add: c_build_def build_spec_def computes_nfail)

definition copy_spec :: "bytes \<Rightarrow> (string, bytes) outcome" where
  "copy_spec bs =
     (if bs = [] then Ok []
      else let n = sint (word_of_nat (length bs) :: 32 word)
           in if n < 0 then Panic ''runtime error: gobytes: length out of range'' else Ok (take (nat n) bs))"

lemma computes_copy: "computes [] H (copyCBytes bs) (copy_spec bs) same []"
  by (simp add: copyCBytes_def copy_spec_def Let_def computes_nret computes_npanic)

definition ser_spec :: "('o, 'g) openfhe \<Rightarrow> c_ser \<Rightarrow> 'o \<Rightarrow> string \<Rightarrow> (string, bytes) outcome" where
  "ser_spec L op v msg = obind (orequire msg (lib_ser L op v)) copy_spec"

lemma computes_scoped:
  assumes m: "computes [] H m sp (\<lambda>x v. [(x, \<phi> v)]) []" and k: "\<And>v c. \<phi> v c \<Longrightarrow> cell_kind c = k"
    and body: "\<And>x v. sp = Ok v \<Longrightarrow> computes [] ((x, \<phi> v) # H) (body x) (sp' v) R []"
  shows "computes [] H (scoped m k body) (obind sp sp') R []"
proof (rule computes_scoped_own [OF m])
  fix x v assume "sp = Ok v"
  have "computes ([] @ [(x, \<phi> v)]) H (body x) (sp' v) (\<lambda>a w. R a w @ [(x, \<phi> v)]) ([] @ [(x, \<phi> v)])"
    by (rule computes_lend) (use body [OF \<open>sp = Ok v\<close>] in simp)
  then have "computes [(x, \<phi> v)] H (body x) (sp' v) (\<lambda>a w. R a w @ [(x, \<phi> v)]) [(x, \<phi> v)]" by simp
  then show "computes [(x, \<phi> v)] H (body x) (sp' v) (\<lambda>a w. R a w @ [(x, is_kind k)]) [(x, is_kind k)]"
    unfolding computes_def
  proof (rule triple_weaken)
    fix r
    show "post (\<lambda>a w. R a w @ [(x, \<phi> v)]) [(x, \<phi> v)] (sp' v) r = never \<or>
        list_all2 (\<lambda>xk xk'. fst xk = fst xk' \<and> (\<forall>c. snd xk c \<longrightarrow> snd xk' c)) (post (\<lambda>a w. R a w @ [(x, \<phi> v)]) [(x, \<phi> v)] (sp' v) r)
         (post (\<lambda>a w. R a w @ [(x, is_kind k)]) [(x, is_kind k)] (sp' v) r)"
      using k by (cases "sp' v"; cases r) (auto simp: is_kind_def intro!: list_all2_appendI list.rel_refl)
  qed
qed

lemma computes_c_serialize:
  assumes "(x, exactly (ser_kind op) v) \<in> set H"
  shows "computes [] H (c_serialize L op x msg) (ser_spec L op v msg) same []"
proof -
  have "computes [] H (nbind (peek (ser_kind op) x) (\<lambda>c. case lib_ser L op c of None \<Rightarrow> nfail msg
          | Some bs \<Rightarrow> scoped (alloc (Buf bs)) CBuffer (\<lambda>_. copyCBytes bs)))
      (obind (Ok v) (\<lambda>v. obind (orequire msg (lib_ser L op v)) copy_spec)) same []"
  proof (rule computes_val_nil [OF computes_peek [OF assms]])
    fix v show "computes [] H (case lib_ser L op v of None \<Rightarrow> nfail msg | Some bs \<Rightarrow> scoped (alloc (Buf bs)) CBuffer (\<lambda>_. copyCBytes bs))
        (obind (orequire msg (lib_ser L op v)) copy_spec) same []"
    proof (cases "lib_ser L op v")
      case (Some bs)
      have "computes [] H (scoped (alloc (Buf bs)) CBuffer (\<lambda>_. copyCBytes bs)) (obind (Ok ()) (\<lambda>_. copy_spec bs)) same []"
        by (rule computes_scoped [OF computes_alloc _ computes_copy]) auto
      then show ?thesis using Some by simp
    qed (simp add: computes_nfail)
  qed
  then show ?thesis by (simp add: c_serialize_def ser_spec_def)
qed

definition upd_spec :: "('o, 'g) openfhe \<Rightarrow> c_upd \<Rightarrow> 'o list \<Rightarrow> 'o \<Rightarrow> string \<Rightarrow> (string, 'o) outcome" where
  "upd_spec L op cs v msg = (if fst (lib_upd L op cs v) then Ok (snd (lib_upd L op cs v)) else Err msg)"

lemma computes_lend_nil:
  "computes [] (F @ H) m sp R [] \<Longrightarrow> computes F H m sp (\<lambda>a v. R a v @ F) F"
  by (drule computes_lend [where P = "[]"]) simp

lemma computes_frame_nil:
  "computes [] H m sp R [] \<Longrightarrow> computes F H m sp (\<lambda>a v. R a v @ F) F"
  by (drule computes_frame [where F = F]) simp

text \<open>Less may be known of the objects of a failed run.\<close>

lemma computes_weaken:
  assumes "computes P H m sp R E"
    and "list_all2 (\<lambda>xk xk'. fst xk = fst xk' \<and> (\<forall>c. snd xk c \<longrightarrow> snd xk' c)) E E'"
  shows "computes P H m sp R E'"
  using assms(1) unfolding computes_def
proof (rule triple_weaken)
  fix r show "post R E sp r = never \<or> list_all2 (\<lambda>xk xk'. fst xk = fst xk' \<and> (\<forall>c. snd xk c \<longrightarrow> snd xk' c)) (post R E sp r) (post R E' sp r)"
    using assms(2) by (cases sp; cases r) (auto intro!: list.rel_refl)
qed

lemma computes_c_update:
  assumes "holds H args cs"
  shows "computes (handle RotKeyHandle acc v) H (c_update L op args acc msg) (upd_spec L op cs v msg)
           (\<lambda>_ v'. handle RotKeyHandle acc v') [(acc, is_kind RotKeyHandle)]"
proof -
  let ?acc = "handle RotKeyHandle acc v" and ?E = "[(acc, is_kind RotKeyHandle)]"
  have weak: "list_all2 (\<lambda>xk xk'. fst xk = fst xk' \<and> (\<forall>c. snd xk c \<longrightarrow> snd xk' c)) (handle RotKeyHandle acc w) ?E" for w
    by (simp add: is_kind_def)
  have "computes ?acc H (nbind (peeks args) (\<lambda>cs. nbind (peek RotKeyHandle acc) (\<lambda>c.
          nbind (nput acc (Obj RotKeyHandle (snd (lib_upd L op cs c)))) (\<lambda>_. if fst (lib_upd L op cs c) then nret () else nfail msg))))
      (obind (Ok cs) (\<lambda>cs. obind (Ok v) (\<lambda>c. obind (Ok ()) (\<lambda>_. upd_spec L op cs c msg)))) (\<lambda>_ v'. handle RotKeyHandle acc v') ?E"
  proof (rule computes_val [where F = ?acc])
    show "computes ?acc H (peeks args) (Ok cs) (\<lambda>a v. same a v @ ?acc) ?E"
      by (rule computes_weaken [OF computes_frame_nil [OF computes_peeks [OF assms]] weak])
    fix cs'
    show "computes ?acc H (nbind (peek RotKeyHandle acc) (\<lambda>c.
          nbind (nput acc (Obj RotKeyHandle (snd (lib_upd L op cs' c)))) (\<lambda>_. if fst (lib_upd L op cs' c) then nret () else nfail msg)))
       (obind (Ok v) (\<lambda>c. obind (Ok ()) (\<lambda>_. upd_spec L op cs' c msg))) (\<lambda>_ v'. handle RotKeyHandle acc v') ?E"
    proof (rule computes_val [where F = ?acc])
      show "computes ?acc H (peek RotKeyHandle acc) (Ok v) (\<lambda>a v. same a v @ ?acc) ?E"
        by (rule computes_weaken [OF computes_lend_nil [OF computes_peek] weak]) simp
      fix c
      let ?r = "lib_upd L op cs' c"
      show "computes ?acc H (nbind (nput acc (Obj RotKeyHandle (snd ?r))) (\<lambda>_. if fst ?r then nret () else nfail msg))
        (obind (Ok ()) (\<lambda>_. upd_spec L op cs' c msg)) (\<lambda>_ v'. handle RotKeyHandle acc v') ?E"
      proof (rule computes_nbind)
        show "computes ?acc H (nput acc (Obj RotKeyHandle (snd ?r))) (Ok ()) (\<lambda>_ _. handle RotKeyHandle acc (snd ?r)) ?E"
          unfolding computes_def by (rule triple_never [OF triple_nput [where \<phi> = "exactly RotKeyHandle (snd (lib_upd L op cs' c))"]]) (auto split: outcome.splits)
        show "computes (handle RotKeyHandle acc (snd ?r)) H (if fst ?r then nret () else nfail msg) (upd_spec L op cs' c msg)
            (\<lambda>_ v'. handle RotKeyHandle acc v') ?E"
          by (simp add: upd_spec_def computes_nret computes_weaken [OF computes_nfail weak])
      qed
    qed
  qed
  then show ?thesis by (simp add: c_update_def)
qed

section \<open>Programs with variables\<close>

text \<open>The variables keep their value in an error and in a panic, for deferred functions read them.\<close>

type_synonym ('o, 'g, 'v, 'a) vprog = "'v \<Rightarrow> ('o, 'g, (string, 'a) outcome \<times> 'v) prog"

definition vlift :: "('o, 'g, 'a) prog \<Rightarrow> ('o, 'g, 'v, 'a) vprog" where
  "vlift m v s = (case m s of None \<Rightarrow> None | Some (r, s') \<Rightarrow> Some (Ok (r, v), s'))"

definition vbind :: "('o, 'g, 'v, 'a) vprog \<Rightarrow> ('a \<Rightarrow> ('o, 'g, 'v, 'b) vprog) \<Rightarrow> ('o, 'g, 'v, 'b) vprog" where
  "vbind m k v =
     nbind (m v) (\<lambda>(r, v'). case r of Ok a \<Rightarrow> k a v' | Err e \<Rightarrow> nret (Err e, v') | Panic p \<Rightarrow> nret (Panic p, v'))"

definition vlabel :: "string \<Rightarrow> ('o, 'g, 'v, 'a) vprog \<Rightarrow> ('o, 'g, 'v, 'a) vprog" where
  "vlabel lbl m v = nbind (m v) (\<lambda>(r, v'). nret (olabel lbl r, v'))"

text \<open>A deferred function, and a clean-up in an error branch.\<close>

definition vdefer :: "('o, 'g, unit) prog \<Rightarrow> ('o, 'g, 'v, 'a) vprog \<Rightarrow> ('o, 'g, 'v, 'a) vprog" where
  "vdefer d m v = nbind (m v) (\<lambda>(r, v'). nbind d (\<lambda>_. nret (r, v')))"

definition von_error :: "('o, 'g, unit) prog \<Rightarrow> ('o, 'g, 'v, 'a) vprog \<Rightarrow> ('o, 'g, 'v, 'a) vprog" where
  "von_error d m v = nbind (m v) (\<lambda>(r, v'). case r of Err e \<Rightarrow> nbind d (\<lambda>_. nret (r, v')) | _ \<Rightarrow> nret (r, v'))"

text \<open>The function that declares the variables and defers their clean-up.\<close>

definition vscope :: "'v \<Rightarrow> ('v \<Rightarrow> ('o, 'g, unit) prog) \<Rightarrow> ('o, 'g, 'v, 'a) vprog \<Rightarrow> ('o, 'g, 'a) prog" where
  "vscope v0 d m = nbind (m v0) (\<lambda>(r, v'). deferring (d v') (\<lambda>s. Some (r, s)))"

definition vcomputes ::
  "('v \<Rightarrow> 'o assn) \<Rightarrow> 'o assn \<Rightarrow> 'o assn \<Rightarrow> ('o, 'g, 'v, 'a) vprog \<Rightarrow> (string, 'w) outcome \<Rightarrow> ('a \<Rightarrow> 'w \<Rightarrow> 'o assn) \<Rightarrow> 'o assn \<Rightarrow> bool" where
  "vcomputes J P H m sp R E \<longleftrightarrow>
     (\<forall>v. triple (P @ J v) H (m v) (\<lambda>x. case x of Ok (r, v') \<Rightarrow> post R E sp r @ J v' | _ \<Rightarrow> never))"

lemma vcomputes_lend:
  fixes m :: "('o, 'g, 'a) prog"
  assumes m: "\<And>v. computes P (J v @ H) m sp R E"
  shows "vcomputes J P H (vlift m) sp R E"
  unfolding vcomputes_def triple_def
proof (intro allI impI)
  fix v and s :: "('o, 'g) native" assume "owns s (P @ J v) H"
  moreover have "triple (P @ J v) H m (\<lambda>r. post R E sp r @ J v)"
    by (rule triple_lend) (use m in \<open>simp add: computes_def\<close>)
  ultimately obtain r s' where "m s = Some (r, s')" "owns s' (post R E sp r @ J v) H" "moved s s' (P @ J v) H (post R E sp r @ J v)"
    unfolding triple_def by blast
  then show "\<exists>x s'. vlift m v s = Some (x, s') \<and> owns s' (case x of Ok (r, v') \<Rightarrow> post R E sp r @ J v' | _ \<Rightarrow> never) H \<and>
      moved s s' (P @ J v) H (case x of Ok (r, v') \<Rightarrow> post R E sp r @ J v' | _ \<Rightarrow> never)"
    by (intro exI [of _ "Ok (r, v)"] exI [of _ s']) (simp add: vlift_def)
qed

lemma vcomputes_vlift:
  assumes "computes P H m sp R E" shows "vcomputes J P H (vlift m) sp R E"
  unfolding vcomputes_def
proof
  fix v
  have "triple (P @ J v) H m (\<lambda>r. post R E sp r @ J v)" using assms unfolding computes_def by (rule triple_frame)
  then show "triple (P @ J v) H (vlift m v) (\<lambda>x. case x of Ok (r, v') \<Rightarrow> post R E sp r @ J v' | _ \<Rightarrow> never)"
    unfolding triple_def vlift_def by fastforce
qed

text \<open>What runs after the outcome of a program is known.\<close>

lemma vcomputes_after:
  fixes m :: "('o, 'g, 'v, 'a) vprog"
  assumes m: "vcomputes J P H m sp R E"
    and k: "\<And>r v'. triple (post R E sp r @ J v') H (k r v') Q" and never: "\<And>e. Q (Err e) = never" "\<And>e. Q (Panic e) = never"
  shows "triple (P @ J v) H (nbind (m v) (\<lambda>(r, v'). k r v')) Q"
proof (rule triple_bind)
  show "triple (P @ J v) H (m v) (\<lambda>x. case x of Ok (r, v') \<Rightarrow> post R E sp r @ J v' | _ \<Rightarrow> never)"
    using m by (simp add: vcomputes_def)
  fix x :: "(string, 'a) outcome \<times> 'v"
  obtain r v' where "x = (r, v')" by fastforce
  then show "triple (case Ok x of Ok (r, v') \<Rightarrow> post R E sp r @ J v' | _ \<Rightarrow> never) H (case x of (r, v') \<Rightarrow> k r v') Q"
    using k by simp
qed (simp_all add: never)

lemma triple_bind_total:
  assumes m: "triple P H m Q" and k: "\<And>a. triple (Q (Ok a)) H (k a) R" and never: "\<And>e. Q (Err e) = never" "\<And>e. Q (Panic e) = never"
  shows "triple P H (nbind m k) R"
proof (rule triple_bind)
  show "triple P H m (\<lambda>r. case r of Ok a \<Rightarrow> Q r | Err e \<Rightarrow> R (Err e) | Panic p \<Rightarrow> R (Panic p))"
    using m by (rule triple_never) (simp add: never split: outcome.splits)
qed (simp_all add: k)

lemma triple_absurd: "set never \<subseteq> set P \<Longrightarrow> triple P H m Q"
  by (simp add: triple_def owns_absurd)

lemma vcomputes_conseq:
  fixes m :: "('o, 'g, 'v, 'a) vprog"
  assumes t: "vcomputes J P H m sp R E" and P: "mset P' = mset P"
    and R: "\<And>a v. sp = Ok v \<Longrightarrow> mset (R' a v) = mset (R a v) \<or> set never \<subseteq> set (R a v)"
    and E: "\<not> is_ok sp \<Longrightarrow> mset E' = mset E"
  shows "vcomputes J P' H m sp R' E'"
  unfolding vcomputes_def
proof
  fix v
  let ?Q = "\<lambda>R E x. case x of Ok (r, v') \<Rightarrow> post R E sp r @ J v' | _ \<Rightarrow> never"
  show "triple (P' @ J v) H (m v) (?Q R' E')"
  proof (rule triple_conseq)
    show "triple (P @ J v) H (m v) (?Q R E)" using t by (simp add: vcomputes_def)
    fix x :: "(string, (string, 'a) outcome \<times> 'v) outcome"
    show "mset (?Q R' E' x) = mset (?Q R E x) \<or> set never \<subseteq> set (?Q R E x)"
    proof (cases x)
      case (Ok y)
      obtain r v' where "y = (r, v')" by fastforce
      with Ok show ?thesis using R E by (cases sp; cases r) (auto simp: is_ok_iff)
    qed simp_all
  qed (simp add: P)
qed

lemma vcomputes_frame:
  fixes m :: "('o, 'g, 'v, 'a) vprog"
  assumes t: "vcomputes J P H m sp R E"
  shows "vcomputes J (P @ F) H m sp (\<lambda>a w. R a w @ F) (E @ F)"
  unfolding vcomputes_def
proof
  fix v
  let ?Q = "\<lambda>R E x. case x of Ok (r, v') \<Rightarrow> post R E sp r @ J v' | _ \<Rightarrow> never"
  show "triple ((P @ F) @ J v) H (m v) (?Q (\<lambda>a w. R a w @ F) (E @ F))"
  proof (rule triple_conseq)
    show "triple ((P @ J v) @ F) H (m v) (\<lambda>x. ?Q R E x @ F)"
      using t unfolding vcomputes_def by (intro triple_frame) simp
    fix x :: "(string, (string, 'a) outcome \<times> 'v) outcome"
    show "mset (?Q (\<lambda>a w. R a w @ F) (E @ F) x) = mset (?Q R E x @ F) \<or> set never \<subseteq> set (?Q R E x @ F)"
    proof (cases x)
      case (Ok y)
      obtain r v' where "y = (r, v')" by fastforce
      with Ok show ?thesis using post_frame(1) [of R F E sp r] by auto
    qed simp_all
  qed simp
qed

lemma vcomputes_frame_nil: "vcomputes J [] H m sp R [] \<Longrightarrow> vcomputes J F H m sp (\<lambda>a w. R a w @ F) F"
  by (drule vcomputes_frame [where F = F]) simp

definition entails :: "'o assn \<Rightarrow> 'o assn \<Rightarrow> bool" where
  "entails A B \<longleftrightarrow> list_all2 (\<lambda>xk xk'. fst xk = fst xk' \<and> (\<forall>c. snd xk c \<longrightarrow> snd xk' c)) A B"

lemma entails_refl [simp]: "entails A A"
  by (simp add: entails_def list.rel_refl)

lemma entails_append: "entails A B \<Longrightarrow> entails A' B' \<Longrightarrow> entails (A @ A') (B @ B')"
  by (simp add: entails_def list_all2_appendI)

lemma entails_handle [simp]: "entails (handle k x v) [(x, is_kind k)]"
  by (simp add: entails_def is_kind_def)

lemma vcomputes_entails:
  fixes m :: "('o, 'g, 'v, 'a) vprog"
  assumes t: "vcomputes J P H m sp R E" and R: "\<And>a v. sp = Ok v \<Longrightarrow> entails (R a v) (R' a v)" and E: "entails E E'"
  shows "vcomputes J P H m sp R' E'"
  unfolding vcomputes_def
proof (rule allI, rule triple_weaken)
  fix v
  let ?Q = "\<lambda>R E x. case x of Ok (r, v') \<Rightarrow> post R E sp r @ J v' | _ \<Rightarrow> never"
  show "triple (P @ J v) H (m v) (?Q R E)" using t by (simp add: vcomputes_def)
  fix x :: "(string, (string, 'a) outcome \<times> 'v) outcome"
  have "?Q R E x = never \<or> entails (?Q R E x) (?Q R' E' x)"
  proof (cases x)
    case (Ok y)
    obtain r v' where y: "y = (r, v')" by fastforce
    have "entails (post R E sp r) (post R' E' sp r)"
      using R E by (cases sp; cases r) auto
    then show ?thesis using Ok y by (simp add: entails_append)
  qed simp_all
  then show "?Q R E x = never \<or> list_all2 (\<lambda>xk xk'. fst xk = fst xk' \<and> (\<forall>c. snd xk c \<longrightarrow> snd xk' c)) (?Q R E x) (?Q R' E' x)"
    by (simp add: entails_def)
qed

lemma vcomputes_weaken: "vcomputes J P H m sp R E \<Longrightarrow> entails E E' \<Longrightarrow> vcomputes J P H m sp R E'"
  by (erule vcomputes_entails) (rule entails_refl)

lemma vcomputes_vbind:
  fixes m :: "('o, 'g, 'v, 'a) vprog"
  assumes m: "vcomputes J P H m sp R E" and k: "\<And>a w. sp = Ok w \<Longrightarrow> vcomputes J (R a w) H (k a) (sp' w) R' E"
  shows "vcomputes J P H (vbind m k) (obind sp sp') R' E"
  unfolding vcomputes_def vbind_def
proof (intro allI vcomputes_after [OF m])
  fix r :: "(string, 'a) outcome" and v'
  let ?Q = "\<lambda>x. case x of Ok (r, v') \<Rightarrow> post R' E (obind sp sp') r @ J v' | _ \<Rightarrow> never"
  show "triple (post R E sp r @ J v') H (case r of Ok a \<Rightarrow> k a v' | Err e \<Rightarrow> nret (Err e, v') | Panic p \<Rightarrow> nret (Panic p, v')) ?Q"
  proof (cases sp)
    case (Ok w)
    then show ?thesis using k [OF Ok] unfolding Ok obind_simps by (cases r) (auto simp: vcomputes_def intro: triple_absurd)
  qed (cases r; auto intro: triple_absurd triple_nil_nret)+
qed simp_all

lemma vcomputes_vlabel:
  fixes m :: "('o, 'g, 'v, 'a) vprog"
  assumes m: "vcomputes J P H m sp R E" shows "vcomputes J P H (vlabel lbl m) (olabel lbl sp) R E"
  unfolding vcomputes_def vlabel_def
proof (intro allI vcomputes_after [OF m])
  fix r :: "(string, 'a) outcome" and v'
  show "triple (post R E sp r @ J v') H (nret (olabel lbl r, v')) (\<lambda>x. case x of Ok (r, v') \<Rightarrow> post R E (olabel lbl sp) r @ J v' | _ \<Rightarrow> never)"
    by (cases sp; cases r) (auto intro: triple_absurd triple_nil_nret)
qed simp_all

text \<open>The general form, in which the result may speak of the variables.\<close>

definition vstep ::
  "'o assn \<Rightarrow> 'o assn \<Rightarrow> ('o, 'g, (string, 'a) outcome \<times> 'v) prog \<Rightarrow> (string, 'w) outcome \<Rightarrow> ('a \<Rightarrow> 'w \<Rightarrow> 'v \<Rightarrow> 'o assn) \<Rightarrow> ('v \<Rightarrow> 'o assn) \<Rightarrow> bool" where
  "vstep P H mv sp R E \<longleftrightarrow> triple P H mv (\<lambda>x. case x of Ok (r, v') \<Rightarrow> post (\<lambda>a w. R a w v') (E v') sp r | _ \<Rightarrow> never)"

lemma vcomputes_iff_vstep:
  fixes m :: "('o, 'g, 'v, 'a) vprog"
  shows "vcomputes J P H m sp R E \<longleftrightarrow> (\<forall>v. vstep (P @ J v) H (m v) sp (\<lambda>a w v'. R a w @ J v') (\<lambda>v'. E @ J v'))"
proof -
  let ?Q = "\<lambda>x :: (string, (string, 'a) outcome \<times> 'v) outcome. case x of Ok (r, v') \<Rightarrow> post R E sp r @ J v' | _ \<Rightarrow> never"
  let ?Q' = "\<lambda>x :: (string, (string, 'a) outcome \<times> 'v) outcome. case x of Ok (r, v') \<Rightarrow> post (\<lambda>a w. R a w @ J v') (E @ J v') sp r | _ \<Rightarrow> never"
  have q: "mset (?Q' x) = mset (?Q x) \<or> set never \<subseteq> set (?Q x)" "mset (?Q x) = mset (?Q' x) \<or> set never \<subseteq> set (?Q' x)" for x
  proof -
    show "mset (?Q' x) = mset (?Q x) \<or> set never \<subseteq> set (?Q x)"
      by (cases x) (simp_all only: outcome.case split_paired_all prod.case post_frame split: prod.split, auto)
    show "mset (?Q x) = mset (?Q' x) \<or> set never \<subseteq> set (?Q' x)"
      by (cases x) (simp_all only: outcome.case split_paired_all prod.case post_frame split: prod.split, auto)
  qed
  have "triple (P @ J v) H (m v) ?Q \<longleftrightarrow> triple (P @ J v) H (m v) ?Q'" for v
  proof
    show "triple (P @ J v) H (m v) ?Q \<Longrightarrow> triple (P @ J v) H (m v) ?Q'" by (erule triple_conseq [OF _ refl]) (rule q)
    show "triple (P @ J v) H (m v) ?Q' \<Longrightarrow> triple (P @ J v) H (m v) ?Q" by (erule triple_conseq [OF _ refl]) (rule q)
  qed
  then show ?thesis by (simp add: vcomputes_def vstep_def)
qed

lemma vstep_vbind:
  fixes m :: "('o, 'g, 'v, 'a) vprog"
  assumes m: "vstep P H (m v) sp R E" and k: "\<And>a w v'. sp = Ok w \<Longrightarrow> vstep (R a w v') H (k a v') (sp' w) R' E"
  shows "vstep P H (vbind m k v) (obind sp sp') R' E"
  unfolding vstep_def vbind_def
proof (rule triple_bind)
  show "triple P H (m v) (\<lambda>x. case x of Ok (r, v') \<Rightarrow> post (\<lambda>a w. R a w v') (E v') sp r | _ \<Rightarrow> never)"
    using m by (simp add: vstep_def)
  fix x :: "(string, 'a) outcome \<times> 'v"
  obtain r v' where x: "x = (r, v')" by fastforce
  let ?Q = "\<lambda>x. case x of Ok (r, v') \<Rightarrow> post (\<lambda>a w. R' a w v') (E v') (obind sp sp') r | _ \<Rightarrow> never"
  have "triple (post (\<lambda>a w. R a w v') (E v') sp r) H (case r of Ok a \<Rightarrow> k a v' | Err e \<Rightarrow> nret (Err e, v') | Panic p \<Rightarrow> nret (Panic p, v')) ?Q"
  proof (cases sp)
    case (Ok w)
    then show ?thesis using k [OF Ok] unfolding Ok obind_simps by (cases r) (auto simp: vstep_def intro: triple_absurd)
  qed (cases r; auto intro: triple_absurd triple_nil_nret)+
  then show "triple (case Ok x of Ok (r, v') \<Rightarrow> post (\<lambda>a w. R a w v') (E v') sp r | _ \<Rightarrow> never) H
      (case x of (r, v') \<Rightarrow> case r of Ok a \<Rightarrow> k a v' | Err e \<Rightarrow> nret (Err e, v') | Panic p \<Rightarrow> nret (Panic p, v')) ?Q"
    by (simp add: x)
qed simp_all

lemma vstep_vlift:
  assumes "computes P H m sp (\<lambda>a w. R a w v) (E v)" shows "vstep P H (vlift m v) sp R E"
  using assms unfolding vstep_def computes_def triple_def vlift_def by fastforce

lemma vstep_nret: "P = R a w v \<Longrightarrow> vstep P H (nret (Ok a, v)) (Ok w) R E"
  unfolding vstep_def by (rule triple_nil_nret) simp

lemma triple_free_ret:
  assumes "\<And>c. \<phi> c \<Longrightarrow> cell_kind c = k" "mset A = add_mset (x, \<phi>) (mset (Q (Ok b)))"
    "\<And>e. Q (Err e) = never" "\<And>e. Q (Panic e) = never"
  shows "triple A H (nbind (nfree k x) (\<lambda>_. nret b)) Q"
proof (rule triple_bind)
  show "triple A H (nfree k x) (\<lambda>r. if is_ok r then Q (Ok b) else never)"
  proof (rule triple_post)
    show "triple A H (nfree k x) (\<lambda>_. Q (Ok b))"
      using triple_frame [OF triple_nfree [OF assms(1)], where R = "Q (Ok b)"] by (rule triple_perm) (simp_all add: assms(2))
  qed (simp add: nfree_ok)
qed (auto simp: assms is_ok_iff intro: triple_nil_nret)

lemma vcomputes_vdefer:
  fixes m :: "('o, 'g, 'v, 'a) vprog"
  assumes m: "vcomputes J P H m sp (\<lambda>a w. R a w @ [(x, \<phi>)]) (E @ [(x, \<phi>)])" and k: "\<And>c. \<phi> c \<Longrightarrow> cell_kind c = k"
  shows "vcomputes J P H (vdefer (nfree k x) m) sp R E"
  unfolding vcomputes_def vdefer_def
proof (intro allI vcomputes_after [OF m])
  fix r :: "(string, 'a) outcome" and v'
  show "triple (post (\<lambda>a w. R a w @ [(x, \<phi>)]) (E @ [(x, \<phi>)]) sp r @ J v') H (nbind (nfree k x) (\<lambda>_. nret (r, v')))
      (\<lambda>x. case x of Ok (r, v') \<Rightarrow> post R E sp r @ J v' | _ \<Rightarrow> never)"
    by (cases sp; cases r) (auto simp: triple_free_ret [OF k] triple_absurd)
qed simp_all

lemma vcomputes_von_error:
  fixes m :: "('o, 'g, 'v, 'a) vprog"
  assumes m: "vcomputes J P H m sp R (E @ [(x, \<phi>)])" and k: "\<And>c. \<phi> c \<Longrightarrow> cell_kind c = k" and "\<not> is_panic sp"
  shows "vcomputes J P H (von_error (nfree k x) m) sp R E"
  unfolding vcomputes_def von_error_def
proof (intro allI vcomputes_after [OF m])
  fix r :: "(string, 'a) outcome" and v'
  show "triple (post R (E @ [(x, \<phi>)]) sp r @ J v') H (case r of Err e \<Rightarrow> nbind (nfree k x) (\<lambda>_. nret (r, v')) | _ \<Rightarrow> nret (r, v'))
      (\<lambda>x. case x of Ok (r, v') \<Rightarrow> post R E sp r @ J v' | _ \<Rightarrow> never)"
    using assms(3) by (cases sp; cases r) (auto simp: triple_free_ret [OF k] triple_absurd triple_nil_nret)
qed simp_all

lemma computes_vscope_step:
  fixes m :: "('o, 'g, 'v, 'a) vprog"
  assumes m: "vstep [] H (m v0) sp (\<lambda>a w v. R a w @ J v) J" and d: "\<And>v. triple (J v) H (d v) (\<lambda>_. [])"
    and ok: "\<And>v s r s'. d v s = Some (r, s') \<Longrightarrow> ns_fault s' = ns_fault s \<Longrightarrow> is_ok r"
  shows "computes [] H (vscope v0 d m) sp R []"
  unfolding computes_def vscope_def
proof (rule triple_bind_total)
  show "triple [] H (m v0) (\<lambda>x. case x of Ok (r, v') \<Rightarrow> post (\<lambda>a w. R a w @ J v') (J v') sp r | _ \<Rightarrow> never)"
    using m by (simp add: vstep_def)
  fix x :: "(string, 'a) outcome \<times> 'v"
  obtain r v' where x: "x = (r, v')" by fastforce
  let ?P = "post (\<lambda>a w. R a w @ J v') (J v') sp r"
  have "triple ?P H (deferring (d v') (\<lambda>s. Some (r, s))) (post R [] sp)"
  proof (rule triple_deferring [OF _ _ ok])
    show "triple ?P H (\<lambda>s. Some (r, s)) (\<lambda>r'. if r' = r then ?P else never)"
      by (simp add: triple_def moved_refl)
    have "triple ?P H (d v') (\<lambda>_. post R [] sp r)"
    proof (cases "set never \<subseteq> set ?P")
      case False
      then have "mset ?P = mset (post R [] sp r @ J v')" using post_frame(2) [of R "[]" sp r "J v'"] by auto
      then show ?thesis using triple_frame [OF d, of v' "post R [] sp r"] by (elim triple_perm) (simp_all add: union_commute)
    qed (simp add: triple_absurd)
    then show "triple (if r' = r then ?P else never) H (d v') (\<lambda>_. post R [] sp r')" for r'
      by (simp add: triple_absurd)
  qed
  then show "triple (case Ok x of Ok (r, v') \<Rightarrow> post (\<lambda>a w. R a w @ J v') (J v') sp r | _ \<Rightarrow> never) H
      (case x of (r, v') \<Rightarrow> deferring (d v') (\<lambda>s. Some (r, s))) (post R [] sp)"
    by (simp add: x)
qed simp_all

lemma computes_vscope:
  fixes m :: "('o, 'g, 'v, 'a) vprog"
  assumes m: "vcomputes J [] H m sp R []" and J: "J v0 = []" and d: "\<And>v. triple (J v) H (d v) (\<lambda>_. [])"
    and ok: "\<And>v s r s'. d v s = Some (r, s') \<Longrightarrow> ns_fault s' = ns_fault s \<Longrightarrow> is_ok r"
  shows "computes [] H (vscope v0 d m) sp R []"
proof (rule computes_vscope_step [OF _ d ok])
  show "vstep [] H (m v0) sp (\<lambda>a w v. R a w @ J v) J"
    using m [unfolded vcomputes_iff_vstep, rule_format, of v0] by (simp add: J)
qed

lemma triple_pre:
  fixes m :: "('o, 'g, 'a) prog"
  assumes t: "triple P H m Q" and e: "entails P' P" shows "triple P' H m Q"
  unfolding triple_def
proof (intro allI impI)
  fix s :: "('o, 'g) native" assume o: "owns s P' H"
  have map: "map fst P' = map fst P" using e unfolding entails_def by (induction rule: list_all2_induct) auto
  then have ad: "adrs P' = adrs P" by (metis list.set_map)
  have "live s xk" if "xk \<in> set P" for xk
  proof -
    obtain i where i: "i < length P" "xk = P ! i" using \<open>xk \<in> set P\<close> by (metis in_set_conv_nth)
    have len: "length P' = length P" using e unfolding entails_def by (rule list_all2_lengthD)
    have "fst (P' ! i) = fst xk" "\<forall>c. snd (P' ! i) c \<longrightarrow> snd xk c"
      using list_all2_nthD [OF e [unfolded entails_def], of i] i len by simp_all
    moreover have "live s (P' ! i)" using o i len by (simp add: owns_def)
    ultimately show ?thesis by (auto simp: live_def)
  qed
  then have "owns s P H" using o unfolding owns_def map ad ball_Un by simp
  then obtain r s' where r: "m s = Some (r, s')" "owns s' (Q r) H" "moved s s' P H (Q r)" using t unfolding triple_def by blast
  moreover have "moved s s' P' H (Q r)" using r(3) unfolding moved_def ad .
  ultimately show "\<exists>r s'. m s = Some (r, s') \<and> owns s' (Q r) H \<and> moved s s' P' H (Q r)" by (intro exI conjI)
qed

section \<open>From refinement to ownership\<close>

text \<open>What is borrowed exactly as it is may be borrowed from anyone who has it.\<close>

lemma triple_borrow:
  fixes m :: "('o, 'g, 'a) prog"
  assumes t: "\<And>c. cell_kind c = k \<Longrightarrow> triple P [(x, \<lambda>c'. c' = c)] m Q" and x: "(x, k) \<in> set H"
  shows "triple P (kinds H) m Q"
  unfolding triple_def
proof (intro allI impI)
  fix s :: "('o, 'g) native" assume o: "owns s P (kinds H)"
  have "(x, is_kind k) \<in> set (kinds H :: 'o assn)" by (rule kinds_mem [OF x])
  then have l: "live s (x, is_kind k)" using o by (auto simp: owns_def)
  have xH: "x \<in> adrs H" using x by (rule image_eqI [rotated]) simp
  obtain c where c: "ns_cells s x = Some c" "cell_kind c = k" using l by (auto simp: live_def is_kind_def)
  have "owns s P [(x, \<lambda>c'. c' = c)]" using o c xH by (auto simp: owns_def live_def)
  then obtain r s' where r: "m s = Some (r, s')" "owns s' (Q r) [(x, \<lambda>c'. c' = c)]" "moved s s' P [(x, \<lambda>c'. c' = c)] (Q r)"
    using t [OF c(2)] unfolding triple_def by blast
  have ok: "heap_ok s" using o by (simp add: owns_def)
  have Q: "y \<notin> adrs (Q r)" if "y \<in> adrs H" for y
  proof
    assume "y \<in> adrs (Q r)"
    then have "y \<in> adrs P \<or> ns_next s \<le> y" by (rule movedD(3) [OF r(3)])
    moreover have "y < ns_next s"
    proof -
      obtain k' where "(y, k') \<in> set H" using \<open>y \<in> adrs H\<close> by force
      then have "(y, is_kind k') \<in> set (kinds H :: 'o assn)" by (rule kinds_mem)
      then have "live s (y, is_kind k')" using o by (simp add: owns_def)
      then show ?thesis using live_below [OF ok] by force
    qed
    ultimately show False using o \<open>y \<in> adrs H\<close> by (auto simp: owns_def)
  qed
  have cells: "ns_cells s' y = ns_cells s y" if "y \<in> adrs H" for y
  proof (cases "y = x")
    case True
    then show ?thesis using r(2) c by (auto simp: owns_def live_def)
  next
    case False
    have "y \<notin> adrs P" using o that by (auto simp: owns_def)
    then show ?thesis using movedD(5) [OF r(3) Q [OF that]] False by simp
  qed
  have "live s' xk" if "xk \<in> set (kinds H)" for xk
  proof -
    have "fst xk \<in> adrs H" using \<open>xk \<in> set (kinds H)\<close> by (force simp: kinds_def)
    then show ?thesis using o that cells by (simp add: owns_def live_def)
  qed
  then have "owns s' (Q r) (kinds H)" using r(2) Q by (auto simp: owns_def)
  moreover have "moved s s' P (kinds H) (Q r)"
  proof (rule movedI)
    fix y assume "y \<notin> adrs (Q r)" "y \<notin> adrs (kinds H)"
    then have "y \<noteq> x" using xH by auto
    then show "y \<in> adrs P \<Longrightarrow> ns_cells s' y = None" "y \<notin> adrs P \<Longrightarrow> ns_cells s' y = ns_cells s y"
      using movedD(4,5) [OF r(3) \<open>y \<notin> adrs (Q r)\<close>] by auto
  qed (use movedD(1-3) [OF r(3)] in auto)
  ultimately show "\<exists>r s'. m s = Some (r, s') \<and> owns s' (Q r) (kinds H) \<and> moved s s' P (kinds H) (Q r)" using r(1) by auto
qed

lemma secure_computes:
  fixes m :: "('o, 'g, 'a) prog"
  assumes m: "\<And>c. computes [] (handle k x c) m (sp c) same []" and x: "(x, k) \<in> set H" and k: "k \<noteq> CBuffer"
  shows "secure H nothing m"
  unfolding secure_def
proof (rule triple_borrow [OF _ x])
  fix cell :: "'o cell" assume "cell_kind cell = k"
  then obtain c where c: "cell = Obj k c" using k by (cases cell) auto
  show "triple [] [(x, \<lambda>c'. c' = cell)] m (owned (\<lambda>_. kinds []))"
    using m [of c] unfolding c computes_def
  proof (rule triple_never)
    fix r show "post same [] (sp c) r = owned (\<lambda>_. kinds []) r \<or> post same [] (sp c) r = never"
      by (cases "sp c"; cases r) (auto simp: same_def)
  qed
qed

end
