(* ===== verification/Bridge_Combine.thy ===== *)
theory Bridge_Combine
  imports Bridge_Refine
begin

text \<open>
  Combining rotation-key shares, \<^verbatim>\<open>pkg/ares/crypto/cgo/incremental_combine.go\<close> and the round-1 combiners of
  \<^verbatim>\<open>bridge.go\<close>: all shares at once, one share at a time into a live accumulator, one rotation index at a time, and
  the lazy forms that fetch each share when it is needed and keep the a-vectors they have read in a cache.

  The resolver of the lazy forms (\<^verbatim>\<open>EvalSumKeyResolver\<close>, a closure over an artifact store) is a parameter:
  a function of the reference, so that a reference means the same bytes whenever it is resolved.
\<close>

section \<open>Validation of per-index shares\<close>

record key_ref =
  kr_Index :: int
  kr_Ref :: string
  kr_ARef :: string
  kr_BRef :: string

definition validIndexedEvalSumKeyRef :: "key_ref \<Rightarrow> bool" where
  "validIndexedEvalSumKeyRef ref \<longleftrightarrow>
     kr_Ref ref \<noteq> [] \<and> kr_ARef ref = [] \<and> kr_BRef ref = [] \<or> kr_Ref ref = [] \<and> kr_ARef ref \<noteq> [] \<and> kr_BRef ref \<noteq> []"

text \<open>
  The two validators have one body: \<open>ix\<close> and \<open>val\<close> read the index and what is stored of a share, \<open>ok\<close> accepts it,
  \<open>none\<close> and \<open>bad\<close> are the words of the two messages that differ. A Go map is the list of its entries in
  the order they were added; where the code iterates over a map, whose order is unspecified, the model reports the first offender in that order.
\<close>

fun keyed_party ::
  "('s \<Rightarrow> int) \<Rightarrow> ('s \<Rightarrow> 'v) \<Rightarrow> ('s \<Rightarrow> bool) \<Rightarrow> string \<Rightarrow> nat \<Rightarrow> (int \<times> 'v) list \<Rightarrow> 's list \<Rightarrow> string + (int \<times> 'v) list" where
  "keyed_party ix val ok bad party keyed [] = Inr keyed"
| "keyed_party ix val ok bad party keyed (share # shares) =
     (if \<not> ok share then Inl (''eval-sum party '' @ dec_nat party @ '' index '' @ dec_int (ix share) @ bad)
      else if ix share \<in> fst ` set keyed then Inl (''eval-sum party '' @ dec_nat party @ '' duplicated index '' @ dec_int (ix share))
      else keyed_party ix val ok bad party (keyed @ [(ix share, val share)]) shares)"

definition check_indices :: "nat \<Rightarrow> int list \<Rightarrow> (int \<times> 'v) list \<Rightarrow> string option" where
  "check_indices party required keyed =
     (if length keyed \<noteq> length required
      then Some (''eval-sum party '' @ dec_nat party @ '' submitted '' @ dec_nat (length keyed) @ '' indices, want '' @ dec_nat (length required))
      else case find (\<lambda>idx. idx \<notin> fst ` set keyed) required of
             Some idx \<Rightarrow> Some (''eval-sum party '' @ dec_nat party @ '' missing index '' @ dec_int idx)
           | None \<Rightarrow>
               (case find (\<lambda>idx. idx \<notin> set required) (map fst keyed) of
                  Some idx \<Rightarrow> Some (''eval-sum party '' @ dec_nat party @ '' submitted unexpected index '' @ dec_int idx)
                | None \<Rightarrow> None))"

fun validate_parties ::
  "(nat \<Rightarrow> 's list \<Rightarrow> string + (int \<times> 'v) list) \<Rightarrow> string \<Rightarrow> nat \<Rightarrow> int list option \<Rightarrow> 's list list \<Rightarrow> string + (int \<times> 'v) list list" where
  "validate_parties key none party required [] = Inr []"
| "validate_parties key none party required (shares # rest) =
     (if shares = [] then Inl (''eval-sum party '' @ dec_nat party @ '' submitted no per-index '' @ none)
      else case key party shares of
        Inl e \<Rightarrow> Inl e
      | Inr keyed \<Rightarrow>
          (case (case required of None \<Rightarrow> None | Some r \<Rightarrow> check_indices party r keyed) of
             Some e \<Rightarrow> Inl e
           | None \<Rightarrow>
               (case validate_parties key none (Suc party) (Some (case required of None \<Rightarrow> map fst keyed | Some r \<Rightarrow> r)) rest of
                  Inl e \<Rightarrow> Inl e
                | Inr ks \<Rightarrow> Inr (keyed # ks))))"

definition validate_shares ::
  "('s \<Rightarrow> int) \<Rightarrow> ('s \<Rightarrow> 'v) \<Rightarrow> ('s \<Rightarrow> bool) \<Rightarrow> string \<Rightarrow> string \<Rightarrow> 's list list \<Rightarrow> string + int list \<times> (int \<times> 'v) list list" where
  "validate_shares ix val ok none bad byParty =
     (if byParty = [] then Inl ''at least one eval-sum party is required''
      else case validate_parties (\<lambda>party. keyed_party ix val ok bad party []) none 0 None byParty of
             Inl e \<Rightarrow> Inl e
           | Inr ks \<Rightarrow> Inr (map fst (hd ks), ks))"

definition validateIndexedEvalSumShares :: "indexed_key list list \<Rightarrow> string + int list \<times> (int \<times> bytes) list list" where
  "validateIndexedEvalSumShares = validate_shares ik_Index ik_Key (\<lambda>share. ik_Key share \<noteq> []) ''keys'' '' has empty key''"

definition validateIndexedEvalSumShareRefs :: "key_ref list list \<Rightarrow> string + int list \<times> (int \<times> key_ref) list list" where
  "validateIndexedEvalSumShareRefs =
     validate_shares kr_Index (\<lambda>share. share) validIndexedEvalSumKeyRef ''key refs'' '' must contain either full ref or a/b refs''"

section \<open>Folding shares\<close>

type_synonym resolver = "string \<Rightarrow> string + bytes"

definition nresolve :: "resolver \<Rightarrow> string \<Rightarrow> ('o, 'g, bytes) prog" where
  "nresolve resolve ref = (case resolve ref of Inl e \<Rightarrow> nfail e | Inr bs \<Rightarrow> nret bs)"

definition out_of_range :: "('o, 'g, 'a) prog" where "out_of_range = npanic ''runtime error: index out of range''"

definition pk_at :: "('o, 'g) openfhe \<Rightarrow> nat \<Rightarrow> bytes list \<Rightarrow> nat \<Rightarrow> ('o, 'g, nat) prog" where
  "pk_at L ctx pkBytes i = (if i < length pkBytes then deserializePublicKey L ctx (pkBytes ! i) else out_of_range)"

definition rot_at :: "('o, 'g) openfhe \<Rightarrow> nat \<Rightarrow> bytes list \<Rightarrow> nat \<Rightarrow> ('o, 'g, nat) prog" where
  "rot_at L ctx shareBytes i = (if i < length shareBytes then deserializeRotKey L ctx (shareBytes ! i) else out_of_range)"

text \<open>\<^verbatim>\<open>accum := C.EvalSumCombineStart(seed); C.FreeRotKey(seed); if accum == nil { ... }\<close>.\<close>

definition start_accum :: "('o, 'g) openfhe \<Rightarrow> nat \<Rightarrow> string \<Rightarrow> ('o, 'g, nat) prog" where
  "start_accum L seed msg = freeing RotKeyHandle seed (c_build L EvalSumCombineStart [(seed, RotKeyHandle)] [] '''' msg)"

text \<open>Read a public key and a share, fold the share, free both.\<close>

definition fold_one ::
  "('o, 'g) openfhe \<Rightarrow> nat \<Rightarrow> nat \<Rightarrow> ('o, 'g, 'v, nat) vprog \<Rightarrow> ('o, 'g, 'v, nat) vprog \<Rightarrow> string \<Rightarrow> ('o, 'g, 'v, unit) vprog" where
  "fold_one L ctx accum loadPk loadShare msg =
     vbind loadPk (\<lambda>pk.
     vbind (von_error (nfree PublicKeyHandle pk) loadShare) (\<lambda>share.
     vlift (freeing PublicKeyHandle pk (freeing RotKeyHandle share
       (c_update L EvalSumCombineFold [(ctx, CryptoContextHandle), (pk, PublicKeyHandle), (share, RotKeyHandle)] accum msg)))))"

fun vfor :: "nat list \<Rightarrow> (nat \<Rightarrow> ('o, 'g, 'v, unit) vprog) \<Rightarrow> ('o, 'g, 'v, unit) vprog" where
  "vfor [] f = vlift (nret ())"
| "vfor (i # is) f = vbind (f i) (\<lambda>_. vfor is f)"

text \<open>A function without variables of this kind.\<close>

definition vrun :: "('o, 'g, unit, 'a) vprog \<Rightarrow> ('o, 'g, 'a) prog" where "vrun m = vscope () (\<lambda>_. nret ()) m"

text \<open>The loop of the two incremental combiners, over how share \<open>i\<close> of \<open>n\<close> is read.\<close>

definition fold_from ::
  "('o, 'g) openfhe \<Rightarrow> nat \<Rightarrow> bytes list \<Rightarrow> nat \<Rightarrow> (nat \<Rightarrow> ('o, 'g, nat) prog) \<Rightarrow> ('o, 'g, bytes) prog" where
  "fold_from L ctx pkBytes n load =
     vrun (vbind (vlift (load 0)) (\<lambda>seed.
           vbind (vlift (start_accum L seed ''eval-sum combine start failed'')) (\<lambda>accum.
           vdefer (nfree RotKeyHandle accum) (
             vbind (vfor [1..<n] (\<lambda>i. fold_one L ctx accum (vlift (pk_at L ctx pkBytes i)) (vlift (load i))
                                       (''eval-sum combine fold '' @ dec_nat i @ '' failed''))) (\<lambda>_.
             vlift (serializeRotKey L accum))))))"

definition combineEvalSumIncremental :: "('o, 'g) openfhe \<Rightarrow> nat \<Rightarrow> bytes list \<Rightarrow> bytes list \<Rightarrow> ('o, 'g, bytes) prog" where
  "combineEvalSumIncremental L ctx pkBytes shareBytes = fold_from L ctx pkBytes (length shareBytes) (rot_at L ctx shareBytes)"

definition combineEvalSumIncrementalLazy ::
  "('o, 'g) openfhe \<Rightarrow> nat \<Rightarrow> bytes list \<Rightarrow> string list \<Rightarrow> resolver option \<Rightarrow> ('o, 'g, bytes) prog" where
  "combineEvalSumIncrementalLazy L ctx pkBytes shareRefs resolve =
     (if length pkBytes \<noteq> length shareRefs \<or> shareRefs = []
      then nfail ''public-key and eval-sum share counts must match and be non-empty''
      else case resolve of
        None \<Rightarrow> nfail ''eval-sum key resolver is required''
      | Some res \<Rightarrow>
          fold_from L ctx pkBytes (length shareRefs) (\<lambda>i.
            nbind (relabel (''resolve eval-sum share '' @ dec_nat i) (nresolve res (shareRefs ! i))) (deserializeRotKey L ctx)))"

definition CombineEvalSumSharesIncremental ::
  "('o, 'g) openfhe \<Rightarrow> cgo_params \<Rightarrow> bytes list \<Rightarrow> bytes list \<Rightarrow> ('o, 'g, bytes) prog" where
  "CombineEvalSumSharesIncremental L ps publicKeys evalSumShares =
     (if length publicKeys \<noteq> length evalSumShares \<or> evalSumShares = []
      then nfail ''public-key and eval-sum share counts must match and be non-empty''
      else ckks L ps (\<lambda>ctx. combineEvalSumIncremental L ctx publicKeys evalSumShares))"

section \<open>All shares at once\<close>

text \<open>
  The reading loop of \<^verbatim>\<open>combineEvalSumAllAtOnce\<close>: what was read is in two arrays that a deferred function frees, so the
  arrays are the variables of this program.
\<close>

type_synonym read_so_far = "nat list \<times> nat list"

definition read_pair :: "('o, 'g) openfhe \<Rightarrow> nat \<Rightarrow> bytes list \<Rightarrow> bytes list \<Rightarrow> nat \<Rightarrow> ('o, 'g, read_so_far, unit) vprog" where
  "read_pair L ctx pkBytes shareBytes i =
     vbind (vlift (pk_at L ctx pkBytes i)) (\<lambda>pk (pks, shares).
     vbind (vlift (rot_at L ctx shareBytes i)) (\<lambda>share (pks, shares). nret (Ok (), pks, shares @ [share])) (pks @ [pk], shares))"

definition combineEvalSumAllAtOnce :: "('o, 'g) openfhe \<Rightarrow> nat \<Rightarrow> bytes list \<Rightarrow> bytes list \<Rightarrow> ('o, 'g, bytes) prog" where
  "combineEvalSumAllAtOnce L ctx pkBytes shareBytes =
     vscope ([], []) (\<lambda>(pks, shares). nbind (free_all PublicKeyHandle pks) (\<lambda>_. free_all RotKeyHandle shares))
       (vbind (vfor [0..<length shareBytes] (read_pair L ctx pkBytes shareBytes)) (\<lambda>_ (pks, shares).
          vlift (if shareBytes = [] then out_of_range
                 else scoped (c_build L CombineEvalSumKeys
                        ((ctx, CryptoContextHandle) # handles PublicKeyHandle pks @ handles RotKeyHandle shares) [] ''''
                        ''combine eval-sum all-at-once failed'') RotKeyHandle (serializeRotKey L)) (pks, shares)))"

section \<open>One rotation index at a time\<close>

definition index_accum ::
  "('o, 'g) openfhe \<Rightarrow> nat \<Rightarrow> string \<Rightarrow> (nat \<Rightarrow> int \<Rightarrow> ('o, 'g, 'v, nat) vprog) \<Rightarrow> bytes list \<Rightarrow> nat \<Rightarrow> int \<Rightarrow> ('o, 'g, 'v, nat) vprog" where
  "index_accum L ctx verb load publicKeys parties index =
     vbind (vlabel (verb @ '' lead eval-sum index '' @ dec_int index) (load 0 index)) (\<lambda>seed.
     vbind (vlift (start_accum L seed (''eval-sum combine start index '' @ dec_int index @ '' failed''))) (\<lambda>accum.
     vbind (von_error (nfree RotKeyHandle accum) (vfor [1..<parties] (\<lambda>party.
       fold_one L ctx accum
         (vlift (relabel (''deserialize public key party '' @ dec_nat party) (pk_at L ctx publicKeys party)))
         (vlabel (verb @ '' eval-sum party '' @ dec_nat party @ '' index '' @ dec_int index) (load party index))
         (''eval-sum combine fold party '' @ dec_nat party @ '' index '' @ dec_int index @ '' failed'')))) (\<lambda>_.
     vlift (nret accum))))"

text \<open>The first index sets \<^verbatim>\<open>final\<close>, which the deferred function frees; the others are merged into it.\<close>

fun merge_indices :: "('o, 'g) openfhe \<Rightarrow> (int \<Rightarrow> ('o, 'g, 'v, nat) vprog) \<Rightarrow> nat \<Rightarrow> int list \<Rightarrow> ('o, 'g, 'v, unit) vprog" where
  "merge_indices L accum_of final [] = vlift (nret ())"
| "merge_indices L accum_of final (index # rest) =
     vbind (accum_of index) (\<lambda>accum.
     vbind (vlift (freeing RotKeyHandle accum (c_update L MergeEvalSumKeyMaps [(accum, RotKeyHandle)] final
                     (''merge eval-sum index '' @ dec_int index @ '' failed'')))) (\<lambda>_.
     merge_indices L accum_of final rest))"

fun combine_indices :: "('o, 'g) openfhe \<Rightarrow> (int \<Rightarrow> ('o, 'g, 'v, nat) vprog) \<Rightarrow> int list \<Rightarrow> ('o, 'g, 'v, bytes) vprog" where
  "combine_indices L accum_of [] = vlift (nfail ''no per-index eval-sum keys to combine'')"
| "combine_indices L accum_of (index # rest) =
     vbind (accum_of index) (\<lambda>final.
     vdefer (nfree RotKeyHandle final) (
       vbind (merge_indices L accum_of final rest) (\<lambda>_. vlift (serializeRotKey L final))))"

definition keyed_at :: "'v \<Rightarrow> (int \<times> 'v) list list \<Rightarrow> nat \<Rightarrow> int \<Rightarrow> 'v" where
  "keyed_at d ks party index = (case map_of (ks ! party) index of None \<Rightarrow> d | Some v \<Rightarrow> v)"

definition combineEvalSumPerIndex :: "('o, 'g) openfhe \<Rightarrow> nat \<Rightarrow> bytes list \<Rightarrow> indexed_key list list \<Rightarrow> ('o, 'g, bytes) prog" where
  "combineEvalSumPerIndex L ctx publicKeys byParty =
     (case validateIndexedEvalSumShares byParty of
        Inl e \<Rightarrow> nfail e
      | Inr (indices, keyed) \<Rightarrow>
          vrun (combine_indices L
            (index_accum L ctx ''deserialize'' (\<lambda>party index. vlift (deserializeRotKey L ctx (keyed_at [] keyed party index))) publicKeys (length keyed))
            indices))"

text \<open>The cache of a-vectors.\<close>

type_synonym acache = "(string \<times> nat) list"

definition free_cache :: "acache \<Rightarrow> ('o, 'g, unit) prog" where "free_cache cache = free_all AVectorsHandle (map snd cache)"

definition load_a :: "('o, 'g) openfhe \<Rightarrow> resolver \<Rightarrow> string \<Rightarrow> ('o, 'g, nat) prog" where
  "load_a L resolve aref =
     nbind (relabel ''resolve a-vector ref'' (nresolve resolve aref)) (\<lambda>a.
     relabel ''deserialize a-vectors'' (deserializeAVectors L a))"

definition cached_a :: "('o, 'g) openfhe \<Rightarrow> resolver \<Rightarrow> string \<Rightarrow> ('o, 'g, acache, nat) vprog" where
  "cached_a L resolve aref cache =
     (case map_of cache aref of
        Some h \<Rightarrow> nret (Ok h, cache)
      | None \<Rightarrow> vbind (vlift (load_a L resolve aref)) (\<lambda>h cache. nret (Ok h, (aref, h) # cache)) cache)"

definition full_key :: "('o, 'g) openfhe \<Rightarrow> nat \<Rightarrow> resolver \<Rightarrow> string \<Rightarrow> ('o, 'g, nat) prog" where
  "full_key L ctx resolve ref =
     nbind (relabel ''resolve full key ref'' (nresolve resolve ref)) (\<lambda>raw.
     relabel ''deserialize full key ref'' (deserializeRotKey L ctx raw))"

definition resolveKeyRefCached :: "('o, 'g) openfhe \<Rightarrow> nat \<Rightarrow> resolver \<Rightarrow> key_ref \<Rightarrow> ('o, 'g, acache, nat) vprog" where
  "resolveKeyRefCached L ctx resolve ref =
     (if kr_Ref ref \<noteq> [] \<and> kr_ARef ref = [] \<and> kr_BRef ref = [] then vlift (full_key L ctx resolve (kr_Ref ref))
      else if kr_Ref ref = [] \<and> kr_ARef ref \<noteq> [] \<and> kr_BRef ref \<noteq> [] then
        vbind (cached_a L resolve (kr_ARef ref)) (\<lambda>h.
        vlift (nbind (relabel ''resolve b-vector ref'' (nresolve resolve (kr_BRef ref))) (reconstructRotKeyFromAVectors L ctx h)))
      else vlift (nfail ''eval-sum ref must contain either full ref or a/b refs''))"

definition resolveIndexedEvalSumKeyRef :: "('o, 'g) openfhe \<Rightarrow> nat \<Rightarrow> key_ref \<Rightarrow> resolver \<Rightarrow> ('o, 'g, nat) prog" where
  "resolveIndexedEvalSumKeyRef L ctx ref resolve =
     (if kr_Ref ref \<noteq> [] \<and> kr_ARef ref = [] \<and> kr_BRef ref = [] then full_key L ctx resolve (kr_Ref ref)
      else if kr_Ref ref = [] \<and> kr_ARef ref \<noteq> [] \<and> kr_BRef ref \<noteq> [] then
        nbind (relabel ''resolve a-vector ref'' (nresolve resolve (kr_ARef ref))) (\<lambda>a.
        nbind (relabel ''resolve b-vector ref'' (nresolve resolve (kr_BRef ref))) (\<lambda>b.
        reconstructRotKeyFromAB L ctx a b))
      else nfail ''eval-sum ref must contain either full ref or a/b refs'')"

definition no_ref :: key_ref where "no_ref = \<lparr> kr_Index = 0, kr_Ref = [], kr_ARef = [], kr_BRef = [] \<rparr>"

definition lazy_accum ::
  "('o, 'g) openfhe \<Rightarrow> nat \<Rightarrow> resolver \<Rightarrow> bytes list \<Rightarrow> (int \<times> key_ref) list list \<Rightarrow> int \<Rightarrow> ('o, 'g, acache, nat) vprog" where
  "lazy_accum L ctx resolve publicKeys keyed =
     index_accum L ctx ''load'' (\<lambda>party index. resolveKeyRefCached L ctx resolve (keyed_at no_ref keyed party index)) publicKeys (length keyed)"

definition combineEvalSumPerIndexLazy ::
  "('o, 'g) openfhe \<Rightarrow> nat \<Rightarrow> bytes list \<Rightarrow> key_ref list list \<Rightarrow> resolver \<Rightarrow> ('o, 'g, bytes) prog" where
  "combineEvalSumPerIndexLazy L ctx publicKeys byParty resolve =
     (case validateIndexedEvalSumShareRefs byParty of
        Inl e \<Rightarrow> nfail e
      | Inr (indices, keyed) \<Rightarrow> vscope [] free_cache (combine_indices L (lazy_accum L ctx resolve publicKeys keyed) indices))"

fun insert_indices :: "('o, 'g) openfhe \<Rightarrow> nat \<Rightarrow> (int \<Rightarrow> ('o, 'g, 'v, nat) vprog) \<Rightarrow> int list \<Rightarrow> ('o, 'g, 'v, unit) vprog" where
  "insert_indices L ctx accum_of [] = vlift (nret ())"
| "insert_indices L ctx accum_of (index # rest) =
     vbind (accum_of index) (\<lambda>accum.
     vbind (vlift (freeing RotKeyHandle accum (c_insert L InsertEvalSumKeyAppend [(ctx, CryptoContextHandle), (accum, RotKeyHandle)]
                     (''insert eval-sum index '' @ dec_int index @ '' failed'')))) (\<lambda>_.
     insert_indices L ctx accum_of rest))"

definition insertEvalSumPerIndexLazy ::
  "('o, 'g) openfhe \<Rightarrow> nat \<Rightarrow> bytes list \<Rightarrow> key_ref list list \<Rightarrow> resolver option \<Rightarrow> ('o, 'g, unit) prog" where
  "insertEvalSumPerIndexLazy L ctx publicKeys byParty resolve =
     (case validateIndexedEvalSumShareRefs byParty of
        Inl e \<Rightarrow> nfail e
      | Inr (indices, keyed) \<Rightarrow>
          if length publicKeys \<noteq> length keyed then nfail ''public key count must match eval-sum party count''
          else (case resolve of
            None \<Rightarrow> nfail ''eval-sum key resolver is required''
          | Some res \<Rightarrow>
              nbind (c_insert L ClearEvalSumKeysForContext [(ctx, CryptoContextHandle)] ''clear eval-sum key cache failed'') (\<lambda>_.
              vscope [] free_cache (insert_indices L ctx (lazy_accum L ctx res publicKeys keyed) indices))))"

definition InsertEvalSumKeysPerIndexLazyWithContext ::
  "('o, 'g) openfhe \<Rightarrow> crypto_context \<Rightarrow> bytes list \<Rightarrow> key_ref list list \<Rightarrow> resolver option \<Rightarrow> ('o, 'g, unit) prog" where
  "InsertEvalSumKeysPerIndexLazyWithContext L ctx publicKeys byParty resolve =
     (if ctx = 0 then nfail ''crypto context is required'' else insertEvalSumPerIndexLazy L ctx publicKeys byParty resolve)"

section \<open>Round 1\<close>

text \<open>\<^verbatim>\<open>&pks[0]\<close> and \<^verbatim>\<open>&multShares[0]\<close> panic on an empty slice; the C side reads as many keys as there are shares.\<close>

definition combine_mult_switch :: "('o, 'g) openfhe \<Rightarrow> string \<Rightarrow> nat \<Rightarrow> nat list \<Rightarrow> nat list \<Rightarrow> ('o, 'g, nat) prog" where
  "combine_mult_switch L sch ctx pks shares =
     (if pks = [] \<or> shares = [] then out_of_range
      else if length pks < length shares then nfault
      else c_build L CombineEvalMultSwitchShares_c
             ((ctx, CryptoContextHandle) # handles PublicKeyHandle (take (length shares) pks) @ handles EvalMultKeyHandle shares) [] ''''
             (sch @ ''eval-mult switch-share combination failed''))"

definition switch_joined ::
  "('o, 'g) openfhe \<Rightarrow> string \<Rightarrow> nat \<Rightarrow> bytes list \<Rightarrow> bytes list \<Rightarrow> (bytes \<Rightarrow> ('o, 'g, 'a) prog) \<Rightarrow> ('o, 'g, 'a) prog" where
  "switch_joined L sch ctx publicKeys evalMultShares rest =
     scoped_all (deserializePublicKeys L ctx publicKeys) PublicKeyHandle (\<lambda>pks.
     scoped_all (deserializeEvalMultKeys L ctx evalMultShares) EvalMultKeyHandle (\<lambda>multShares.
     scoped (combine_mult_switch L sch ctx pks multShares) EvalMultKeyHandle (\<lambda>joined.
     nbind (serializeEvalMultKey L joined) rest)))"

definition combine_round1 ::
  "('o, 'g) openfhe \<Rightarrow> string \<Rightarrow> nat \<Rightarrow> bytes list \<Rightarrow> bytes list \<Rightarrow> ('o, 'g, bytes) prog \<Rightarrow> ('o, 'g, round1) prog" where
  "combine_round1 L sch ctx publicKeys evalMultShares sumPart =
     switch_joined L sch ctx publicKeys evalMultShares (\<lambda>joinedBytes.
     nbind sumPart (\<lambda>sumFinalBytes. nret (joinedBytes, sumFinalBytes)))"

definition counts_match :: "'a list \<Rightarrow> 'b list \<Rightarrow> 'c list \<Rightarrow> bool" where
  "counts_match pks ms ss \<longleftrightarrow> \<not> (pks = [] \<or> length pks \<noteq> length ms \<or> length pks \<noteq> length ss)"

definition CombineEvalKeyRound1 ::
  "('o, 'g) openfhe \<Rightarrow> cgo_params \<Rightarrow> bytes list \<Rightarrow> bytes list \<Rightarrow> bytes list \<Rightarrow> ('o, 'g, round1) prog" where
  "CombineEvalKeyRound1 L ps publicKeys evalMultShares evalSumShares =
     (if \<not> counts_match publicKeys evalMultShares evalSumShares then nfail ''public/eval-key share counts must match and be non-empty''
      else ckks L ps (\<lambda>ctx. combine_round1 L '''' ctx publicKeys evalMultShares (combineEvalSumIncremental L ctx publicKeys evalSumShares)))"

definition BFVCombineEvalKeyRound1 ::
  "('o, 'g) openfhe \<Rightarrow> bfv_params \<Rightarrow> bytes list \<Rightarrow> bytes list \<Rightarrow> bytes list \<Rightarrow> ('o, 'g, round1) prog" where
  "BFVCombineEvalKeyRound1 L ps publicKeys evalMultShares evalSumShares =
     (if \<not> counts_match publicKeys evalMultShares evalSumShares then nfail ''public/eval-key share counts must match and be non-empty''
      else bfv L ps (\<lambda>ctx. combine_round1 L ''BFV '' ctx publicKeys evalMultShares (combineEvalSumIncremental L ctx publicKeys evalSumShares)))"

definition BFVCombineEvalKeyRound1Lazy ::
  "('o, 'g) openfhe \<Rightarrow> bfv_params \<Rightarrow> bytes list \<Rightarrow> bytes list \<Rightarrow> string list \<Rightarrow> resolver option \<Rightarrow> ('o, 'g, round1) prog" where
  "BFVCombineEvalKeyRound1Lazy L ps publicKeys evalMultShares evalSumShareRefs resolve =
     (if \<not> counts_match publicKeys evalMultShares evalSumShareRefs then nfail ''public/eval-key share counts must match and be non-empty''
      else if resolve = None then nfail ''eval-sum key resolver is required''
      else bfv L ps (\<lambda>ctx. combine_round1 L ''BFV '' ctx publicKeys evalMultShares
                            (combineEvalSumIncrementalLazy L ctx publicKeys evalSumShareRefs resolve)))"

definition combineEvalKeyRound1PerIndex ::
  "('o, 'g) openfhe \<Rightarrow> nat \<Rightarrow> bytes list \<Rightarrow> bytes list \<Rightarrow> indexed_key list list \<Rightarrow> ('o, 'g, round1) prog" where
  "combineEvalKeyRound1PerIndex L ctx publicKeys evalMultShares evalSumSharesByParty =
     (if \<not> counts_match publicKeys evalMultShares evalSumSharesByParty
      then nfail ''public/eval-mult/eval-sum party counts must match and be non-empty''
      else combine_round1 L '''' ctx publicKeys evalMultShares (combineEvalSumPerIndex L ctx publicKeys evalSumSharesByParty))"

definition CombineEvalKeyRound1PerIndexWithContext ::
  "('o, 'g) openfhe \<Rightarrow> crypto_context \<Rightarrow> bytes list \<Rightarrow> bytes list \<Rightarrow> indexed_key list list \<Rightarrow> ('o, 'g, round1) prog" where
  "CombineEvalKeyRound1PerIndexWithContext L ctx publicKeys evalMultShares evalSumSharesByParty =
     combineEvalKeyRound1PerIndex L ctx publicKeys evalMultShares evalSumSharesByParty"

definition combineEvalKeyRound1PerIndexLazy ::
  "('o, 'g) openfhe \<Rightarrow> nat \<Rightarrow> bytes list \<Rightarrow> bytes list \<Rightarrow> key_ref list list \<Rightarrow> resolver \<Rightarrow> ('o, 'g, round1) prog" where
  "combineEvalKeyRound1PerIndexLazy L ctx publicKeys evalMultShares refsByParty resolve =
     (if \<not> counts_match publicKeys evalMultShares refsByParty
      then nfail ''public/eval-mult/eval-sum party counts must match and be non-empty''
      else combine_round1 L '''' ctx publicKeys evalMultShares (combineEvalSumPerIndexLazy L ctx publicKeys refsByParty resolve))"

definition CombineEvalKeyRound1PerIndexLazy ::
  "('o, 'g) openfhe \<Rightarrow> cgo_params \<Rightarrow> bytes list \<Rightarrow> bytes list \<Rightarrow> key_ref list list \<Rightarrow> resolver option \<Rightarrow> ('o, 'g, round1) prog" where
  "CombineEvalKeyRound1PerIndexLazy L ps publicKeys evalMultShares refsByParty resolve =
     (if \<not> counts_match publicKeys evalMultShares refsByParty
      then nfail ''public/eval-mult/eval-sum party counts must match and be non-empty''
      else case resolve of
        None \<Rightarrow> nfail ''eval-sum key resolver is required''
      | Some res \<Rightarrow> ckks L ps (\<lambda>ctx. combineEvalKeyRound1PerIndexLazy L ctx publicKeys evalMultShares refsByParty res))"

definition BFVCombineEvalKeyRound1PerIndexLazy ::
  "('o, 'g) openfhe \<Rightarrow> bfv_params \<Rightarrow> bytes list \<Rightarrow> bytes list \<Rightarrow> key_ref list list \<Rightarrow> resolver option \<Rightarrow> ('o, 'g, round1) prog" where
  "BFVCombineEvalKeyRound1PerIndexLazy L ps publicKeys evalMultShares refsByParty resolve =
     (if \<not> counts_match publicKeys evalMultShares refsByParty
      then nfail ''public/eval-mult/eval-sum party counts must match and be non-empty''
      else case resolve of
        None \<Rightarrow> nfail ''eval-sum key resolver is required''
      | Some res \<Rightarrow> bfv L ps (\<lambda>ctx. combineEvalKeyRound1PerIndexLazy L ctx publicKeys evalMultShares refsByParty res))"

definition CombineEvalMultSwitchSharesWithContext ::
  "('o, 'g) openfhe \<Rightarrow> crypto_context \<Rightarrow> bytes list \<Rightarrow> bytes list \<Rightarrow> ('o, 'g, bytes) prog" where
  "CombineEvalMultSwitchSharesWithContext L ctx publicKeys evalMultShares = switch_joined L '''' ctx publicKeys evalMultShares nret"

definition CombineEvalMultSwitchShares ::
  "('o, 'g) openfhe \<Rightarrow> cgo_params \<Rightarrow> bytes list \<Rightarrow> bytes list \<Rightarrow> ('o, 'g, bytes) prog" where
  "CombineEvalMultSwitchShares L ps publicKeys evalMultShares =
     (if publicKeys = [] \<or> length publicKeys \<noteq> length evalMultShares
      then nfail ''public/eval-mult share counts must match and be non-empty''
      else ckks L ps (\<lambda>ctx. switch_joined L '''' ctx publicKeys evalMultShares nret))"

section \<open>The fold object\<close>

record fold_obj =
  fo_ctx :: nat
  fo_accum :: nat
  fo_ownsCtx :: bool

definition new_fold :: "('o, 'g) openfhe \<Rightarrow> bytes \<Rightarrow> bool \<Rightarrow> nat \<Rightarrow> ('o, 'g, fold_obj) prog" where
  "new_fold L leadBase owns_ctx ctx =
     nbind (deserializeRotKey L ctx leadBase) (\<lambda>seed.
     nbind (start_accum L seed ''eval-sum combine start failed'') (\<lambda>accum.
       nret \<lparr> fo_ctx = ctx, fo_accum = accum, fo_ownsCtx = owns_ctx \<rparr>))"

definition NewEvalSumIncrementalFold :: "('o, 'g) openfhe \<Rightarrow> cgo_params \<Rightarrow> bytes \<Rightarrow> ('o, 'g, fold_obj) prog" where
  "NewEvalSumIncrementalFold L ps leadBase =
     nbind (createContractContext L ps) (\<lambda>ctx. on_error (nfree CryptoContextHandle ctx) (new_fold L leadBase True ctx))"

definition NewEvalSumIncrementalFoldWithContext :: "('o, 'g) openfhe \<Rightarrow> crypto_context \<Rightarrow> bytes \<Rightarrow> ('o, 'g, fold_obj) prog" where
  "NewEvalSumIncrementalFoldWithContext L ctx leadBase = new_fold L leadBase False ctx"

definition Fold :: "('o, 'g) openfhe \<Rightarrow> fold_obj \<Rightarrow> bytes \<Rightarrow> bytes \<Rightarrow> ('o, 'g, unit) prog" where
  "Fold L f publicKey evalSumShare =
     vrun (fold_one L (fo_ctx f) (fo_accum f) (vlift (deserializePublicKey L (fo_ctx f) publicKey))
             (vlift (deserializeRotKey L (fo_ctx f) evalSumShare)) ''eval-sum combine fold failed'')"

definition Finalize :: "('o, 'g) openfhe \<Rightarrow> fold_obj \<Rightarrow> ('o, 'g, bytes) prog" where
  "Finalize L f =
     (let body = deferring (nfree RotKeyHandle (fo_accum f)) (serializeRotKey L (fo_accum f))
      in if fo_ownsCtx f then deferring (nfree CryptoContextHandle (fo_ctx f)) body else body)"

section \<open>The check of the two combiners against each other\<close>

definition runIncrementalCombineCheck :: "('o, 'g) openfhe \<Rightarrow> cgo_params \<Rightarrow> ('o, 'g, bytes \<times> bytes) prog" where
  "runIncrementalCombineCheck L ps =
     ckks L ps (\<lambda>ctx.
     scoped_keys L ctx None ''keygen first failed'' (\<lambda>pk0 sk0.
     scoped_keys L ctx (Some pk0) ''keygen next 1 failed'' (\<lambda>pk1 sk1.
     scoped_keys L ctx (Some pk1) ''keygen next 2 failed'' (\<lambda>pk2 sk2.
     scoped (c_make L EvalSumKeyGenLead [(ctx, CryptoContextHandle), (sk0, SecretKeyShareHandle)] ''eval-sum lead failed'') RotKeyHandle (\<lambda>base.
     scoped (c_make L EvalSumKeyShare [(ctx, CryptoContextHandle), (sk1, SecretKeyShareHandle), (base, RotKeyHandle), (pk1, PublicKeyHandle)]
               ''eval-sum share 1 failed'') RotKeyHandle (\<lambda>s1.
     scoped (c_make L EvalSumKeyShare [(ctx, CryptoContextHandle), (sk2, SecretKeyShareHandle), (base, RotKeyHandle), (pk2, PublicKeyHandle)]
               ''eval-sum share 2 failed'') RotKeyHandle (\<lambda>s2.
     nbind (serializeRotKey L base) (\<lambda>baseBytes.
     nbind (serializeRotKey L s1) (\<lambda>s1Bytes.
     nbind (serializeRotKey L s2) (\<lambda>s2Bytes.
     nbind (serializePublicKey L pk0) (\<lambda>pk0Bytes.
     nbind (serializePublicKey L pk1) (\<lambda>pk1Bytes.
     nbind (serializePublicKey L pk2) (\<lambda>pk2Bytes.
     nbind (combineEvalSumAllAtOnce L ctx [pk0Bytes, pk1Bytes, pk2Bytes] [baseBytes, s1Bytes, s2Bytes]) (\<lambda>allAtOnce.
     nbind (combineEvalSumIncremental L ctx [pk0Bytes, pk1Bytes, pk2Bytes] [baseBytes, s1Bytes, s2Bytes]) (\<lambda>incremental.
       nret (allAtOnce, incremental))))))))))))))))"

section \<open>The rotation set of the scorer\<close>

text \<open>\<^verbatim>\<open>for s := 1; s < n; s *= 2\<close> with the 64-bit product written out; it does not end when \<open>n\<close> is above \<open>2^62\<close>.\<close>

definition wrap64 :: "int \<Rightarrow> int" where "wrap64 i = sint (word_of_int i :: 64 word)"

partial_function (option) doubling_shifts :: "int \<Rightarrow> int \<Rightarrow> int list option" where
  "doubling_shifts n s = (if s < n then Option.bind (doubling_shifts n (wrap64 (s * 2))) (\<lambda>r. Some (s # r)) else Some [])"

definition minimalRotationIndices :: "int \<Rightarrow> int \<Rightarrow> int list option" where
  "minimalRotationIndices profileDim payloadSlots =
     (case doubling_shifts profileDim 1 of
        None \<Rightarrow> None
      | Some pos \<Rightarrow> map_option (\<lambda>neg. pos @ map uminus neg) (doubling_shifts payloadSlots 1))"

lemma wrap64_small: "- (2 ^ 63) \<le> i \<Longrightarrow> i < 2 ^ 63 \<Longrightarrow> wrap64 i = i"
  unfolding wrap64_def by (simp add: signed_take_bit_int_eq_self sint_sbintrunc')

lemma wrap64_double: "i < 62 \<Longrightarrow> wrap64 (2 ^ i * 2) = 2 ^ Suc i"
proof -
  assume "i < 62"
  then have "(2 :: int) ^ Suc i \<le> 2 ^ 62" by (intro power_increasing) simp_all
  moreover have "(0 :: int) < 2 ^ i" by simp
  ultimately have "- (2 ^ 63) \<le> (2 :: int) ^ i * 2" "(2 :: int) ^ i * 2 < 2 ^ 63" by (simp_all del: zero_less_power)
  then show ?thesis by (simp add: wrap64_small)
qed

end
