(* ===== verification/Bridge_Fold.thy ===== *)
theory Bridge_Fold
  imports Bridge_Combine
begin

text \<open>What the combiners of rotation-key shares compute.\<close>

section \<open>Specifications\<close>

definition pk_spec :: "('o, 'g) openfhe \<Rightarrow> 'o \<Rightarrow> bytes \<Rightarrow> (string, 'o) outcome" where
  "pk_spec L c raw = build_spec L DeserializePublicKey [c] [raw] ''public key bytes are required'' ''public-key deserialization failed''"
definition rot_spec :: "('o, 'g) openfhe \<Rightarrow> 'o \<Rightarrow> bytes \<Rightarrow> (string, 'o) outcome" where
  "rot_spec L c raw = build_spec L DeserializeRotKey [c] [raw] ''eval-sum key bytes are required'' ''eval-sum key deserialization failed''"
definition start_spec :: "('o, 'g) openfhe \<Rightarrow> 'o \<Rightarrow> string \<Rightarrow> (string, 'o) outcome" where
  "start_spec L seed msg = build_spec L EvalSumCombineStart [seed] [] '''' msg"
definition rot_bytes_spec :: "('o, 'g) openfhe \<Rightarrow> 'o \<Rightarrow> (string, bytes) outcome" where
  "rot_bytes_spec L v = ser_spec L SerializeRotKey v ''eval-sum key serialization failed''"

definition fold_spec :: "('o, 'g) openfhe \<Rightarrow> 'o \<Rightarrow> (string, 'o) outcome \<Rightarrow> (string, 'o) outcome \<Rightarrow> string \<Rightarrow> 'o \<Rightarrow> (string, 'o) outcome" where
  "fold_spec L c pk share msg acc = obind pk (\<lambda>pk. obind share (\<lambda>share. upd_spec L EvalSumCombineFold [c, pk, share] acc msg))"

fun ofold :: "('i \<Rightarrow> 'v \<Rightarrow> (string, 'v) outcome) \<Rightarrow> 'i list \<Rightarrow> 'v \<Rightarrow> (string, 'v) outcome" where
  "ofold f [] v = Ok v"
| "ofold f (i # is) v = obind (f i v) (ofold f is)"

text \<open>Seed, fold, write: the accumulator after share \<open>n - 1\<close>.\<close>

definition incremental_spec ::
  "('o, 'g) openfhe \<Rightarrow> 'o \<Rightarrow> bytes list \<Rightarrow> nat \<Rightarrow> (nat \<Rightarrow> (string, 'o) outcome) \<Rightarrow> (string, bytes) outcome" where
  "incremental_spec L c pkBytes n load =
     obind (load 0) (\<lambda>seed.
     obind (start_spec L seed ''eval-sum combine start failed'') (\<lambda>acc.
     obind (ofold (\<lambda>i. fold_spec L c (pk_spec L c (pkBytes ! i)) (load i) (''eval-sum combine fold '' @ dec_nat i @ '' failed'')) [1..<n] acc)
       (rot_bytes_spec L)))"

section \<open>The steps\<close>

abbreviation ctx_in :: "nat \<Rightarrow> 'o \<Rightarrow> 'o assn \<Rightarrow> bool" where "ctx_in ctx c H \<equiv> (ctx, exactly CryptoContextHandle c) \<in> set H"

lemma computes_deserialize:
  "ctx_in ctx c H \<Longrightarrow> computes [] H (deserializePublicKey L ctx raw) (pk_spec L c raw) (handle PublicKeyHandle) []"
  "ctx_in ctx c H \<Longrightarrow> computes [] H (deserializeRotKey L ctx raw) (rot_spec L c raw) (handle RotKeyHandle) []"
  unfolding deserializePublicKey_def deserializeRotKey_def pk_spec_def rot_spec_def
  by (rule computes_c_build; simp)+

lemma computes_serializeRotKey:
  "(x, exactly RotKeyHandle v) \<in> set H \<Longrightarrow> computes [] H (serializeRotKey L x) (rot_bytes_spec L v) same []"
  unfolding serializeRotKey_def rot_bytes_spec_def by (rule computes_c_serialize) simp

lemma spec_calm [simp]: "\<not> is_panic (pk_spec L c raw)" "\<not> is_panic (rot_spec L c raw)" "\<not> is_panic (start_spec L seed msg)"
  "\<not> is_panic (upd_spec L op cs v msg)"
  by (simp_all add: pk_spec_def rot_spec_def start_spec_def upd_spec_def)

lemma computes_start_accum:
  "computes (handle RotKeyHandle seed v) H (start_accum L seed msg) (start_spec L v msg) (handle RotKeyHandle) []"
proof -
  have "computes ([] @ handle RotKeyHandle seed v) H (start_accum L seed msg) (start_spec L v msg) (handle RotKeyHandle) []"
    unfolding start_accum_def by (rule computes_freeing) (auto simp: start_spec_def intro!: computes_c_build)
  then show ?thesis by simp
qed

lemma computes_fold_c:
  assumes "ctx_in ctx c H"
  shows "computes (handle RotKeyHandle accum acc @ handle PublicKeyHandle pk pkv @ handle RotKeyHandle share v) H
      (freeing PublicKeyHandle pk (freeing RotKeyHandle share
        (c_update L EvalSumCombineFold [(ctx, CryptoContextHandle), (pk, PublicKeyHandle), (share, RotKeyHandle)] accum msg)))
      (upd_spec L EvalSumCombineFold [c, pkv, v] acc msg) (\<lambda>_. handle RotKeyHandle accum) [(accum, is_kind RotKeyHandle)]"
proof -
  let ?c = "c_update L EvalSumCombineFold [(ctx, CryptoContextHandle), (pk, PublicKeyHandle), (share, RotKeyHandle)] accum msg"
  let ?sp = "upd_spec L EvalSumCombineFold [c, pkv, v] acc msg" and ?E = "[(accum, is_kind RotKeyHandle)]"
  have "computes (handle RotKeyHandle accum acc) ((share, exactly RotKeyHandle v) # (pk, exactly PublicKeyHandle pkv) # H) ?c ?sp (\<lambda>_. handle RotKeyHandle accum) ?E"
    by (rule computes_c_update) (use assms in simp)
  then have "computes (handle RotKeyHandle accum acc @ handle RotKeyHandle share v) ((pk, exactly PublicKeyHandle pkv) # H)
      (freeing RotKeyHandle share ?c) ?sp (\<lambda>_. handle RotKeyHandle accum) ?E"
    by (rule computes_freeing) simp_all
  then have "computes ((handle RotKeyHandle accum acc @ handle RotKeyHandle share v) @ handle PublicKeyHandle pk pkv) H
      (freeing PublicKeyHandle pk (freeing RotKeyHandle share ?c)) ?sp (\<lambda>_. handle RotKeyHandle accum) ?E"
    by (rule computes_freeing) simp_all
  then show ?thesis by (rule computes_conseq) simp_all
qed

lemma vcomputes_fold_one:
  fixes loadPk :: "('o, 'g, 'v, nat) vprog"
  assumes pk: "vcomputes J [] H loadPk pksp (handle PublicKeyHandle) []" and share: "vcomputes J [] H loadShare shsp (handle RotKeyHandle) []"
    and ctx: "ctx_in ctx c H" and calm: "\<not> is_panic shsp"
  shows "vcomputes J (handle RotKeyHandle accum acc) H (fold_one L ctx accum loadPk loadShare msg) (fold_spec L c pksp shsp msg acc)
           (\<lambda>_. handle RotKeyHandle accum) [(accum, is_kind RotKeyHandle)]"
  unfolding fold_one_def fold_spec_def
proof (rule vcomputes_vbind)
  let ?acc = "handle RotKeyHandle accum acc" and ?E = "[(accum, is_kind RotKeyHandle)]"
  show "vcomputes J ?acc H loadPk pksp (\<lambda>a v. handle PublicKeyHandle a v @ ?acc) ?E"
    by (rule vcomputes_weaken [OF vcomputes_frame_nil [OF pk]]) simp
  fix x and pkv :: 'o
  let ?pk = "handle PublicKeyHandle x pkv"
  show "vcomputes J (?pk @ ?acc) H (vbind (von_error (nfree PublicKeyHandle x) loadShare) (\<lambda>share. vlift (freeing PublicKeyHandle x
        (freeing RotKeyHandle share (c_update L EvalSumCombineFold [(ctx, CryptoContextHandle), (x, PublicKeyHandle), (share, RotKeyHandle)] accum msg)))))
      (obind shsp (\<lambda>share. upd_spec L EvalSumCombineFold [c, pkv, share] acc msg)) (\<lambda>_. handle RotKeyHandle accum) ?E"
  proof (rule vcomputes_vbind)
    show "vcomputes J (?pk @ ?acc) H (von_error (nfree PublicKeyHandle x) loadShare) shsp (\<lambda>a v. handle RotKeyHandle a v @ ?pk @ ?acc) ?E"
    proof (rule vcomputes_von_error [OF _ _ calm])
      have "vcomputes J (?pk @ ?acc) H loadShare shsp (\<lambda>a v. handle RotKeyHandle a v @ ?pk @ ?acc) (?acc @ ?pk)"
        using vcomputes_frame_nil [OF share, of "?pk @ ?acc"] by (rule vcomputes_conseq) simp_all
      then show "vcomputes J (?pk @ ?acc) H loadShare shsp (\<lambda>a v. handle RotKeyHandle a v @ ?pk @ ?acc) (?E @ ?pk)"
        by (rule vcomputes_weaken) (simp add: entails_def is_kind_def)
    qed simp
    fix share v
    show "vcomputes J (handle RotKeyHandle share v @ ?pk @ ?acc) H (vlift (freeing PublicKeyHandle x
        (freeing RotKeyHandle share (c_update L EvalSumCombineFold [(ctx, CryptoContextHandle), (x, PublicKeyHandle), (share, RotKeyHandle)] accum msg))))
      (upd_spec L EvalSumCombineFold [c, pkv, v] acc msg) (\<lambda>_. handle RotKeyHandle accum) ?E"
      by (rule vcomputes_conseq [OF vcomputes_vlift [OF computes_fold_c [OF ctx]]]) simp_all
  qed
qed

lemma vcomputes_vfor:
  assumes "\<And>i acc. i \<in> set is \<Longrightarrow> vcomputes J (handle RotKeyHandle accum acc) H (f i) (g i acc) (\<lambda>_. handle RotKeyHandle accum) [(accum, is_kind RotKeyHandle)]"
  shows "vcomputes J (handle RotKeyHandle accum acc) H (vfor is f) (ofold g is acc) (\<lambda>_. handle RotKeyHandle accum) [(accum, is_kind RotKeyHandle)]"
  using assms
proof (induction "is" arbitrary: acc)
  case Nil
  show ?case by (simp add: vcomputes_vlift computes_nret)
next
  case (Cons i "is")
  show ?case unfolding vfor.simps ofold.simps by (rule vcomputes_vbind [OF Cons.prems]) (simp_all add: Cons)
qed

text \<open>What is written in the end is the accumulator, which the deferred free takes.\<close>

lemma vcomputes_write_accum:
  "vcomputes J (handle RotKeyHandle x v) H (vlift (serializeRotKey L x)) (rot_bytes_spec L v)
     (\<lambda>a w. same a w @ [(x, is_kind RotKeyHandle)]) [(x, is_kind RotKeyHandle)]"
proof (rule vcomputes_entails)
  have "computes [] (handle RotKeyHandle x v @ H) (serializeRotKey L x) (rot_bytes_spec L v) same []"
    by (rule computes_serializeRotKey) simp
  then have "computes (handle RotKeyHandle x v) H (serializeRotKey L x) (rot_bytes_spec L v) (\<lambda>a w. same a w @ handle RotKeyHandle x v) (handle RotKeyHandle x v)"
    by (rule computes_lend_nil)
  then show "vcomputes J (handle RotKeyHandle x v) H (vlift (serializeRotKey L x)) (rot_bytes_spec L v)
     (\<lambda>a w. same a w @ handle RotKeyHandle x v) (handle RotKeyHandle x v)"
    by (rule vcomputes_vlift)
qed (simp_all add: entails_append)

lemma computes_vrun: "vcomputes (\<lambda>_. []) [] H m sp R [] \<Longrightarrow> computes [] H (vrun m) sp R []"
  unfolding vrun_def by (rule computes_vscope) (auto simp: triple_nret nret_def)

lemma computes_pk_at:
  "ctx_in ctx c H \<Longrightarrow> i < length pks \<Longrightarrow> computes [] H (pk_at L ctx pks i) (pk_spec L c (pks ! i)) (handle PublicKeyHandle) []"
  by (simp add: pk_at_def computes_deserialize)

section \<open>The incremental combiners\<close>

lemma computes_fold_from:
  assumes ctx: "ctx_in ctx c H" and load: "\<And>i. i < n \<Longrightarrow> computes [] H (load i) (loadsp i) (handle RotKeyHandle) []"
    and calm: "\<And>i. i < n \<Longrightarrow> \<not> is_panic (loadsp i)" and n: "0 < n" "n \<le> length pkBytes"
  shows "computes [] H (fold_from L ctx pkBytes n load) (incremental_spec L c pkBytes n loadsp) same []"
  unfolding fold_from_def incremental_spec_def
proof (rule computes_vrun, rule vcomputes_vbind)
  show "vcomputes (\<lambda>_. []) [] H (vlift (load 0)) (loadsp 0) (handle RotKeyHandle) []"
    by (rule vcomputes_vlift [OF load]) (rule n)
  fix seed v
  let ?f = "\<lambda>accum i. fold_one L ctx accum (vlift (pk_at L ctx pkBytes i)) (vlift (load i)) (''eval-sum combine fold '' @ dec_nat i @ '' failed'')"
  let ?g = "\<lambda>i. fold_spec L c (pk_spec L c (pkBytes ! i)) (loadsp i) (''eval-sum combine fold '' @ dec_nat i @ '' failed'')"
  show "vcomputes (\<lambda>_. []) (handle RotKeyHandle seed v) H
      (vbind (vlift (start_accum L seed ''eval-sum combine start failed'')) (\<lambda>accum.
         vdefer (nfree RotKeyHandle accum) (vbind (vfor [1..<n] (?f accum)) (\<lambda>_. vlift (serializeRotKey L accum)))))
      (obind (start_spec L v ''eval-sum combine start failed'') (\<lambda>acc. obind (ofold ?g [1..<n] acc) (rot_bytes_spec L))) same []"
  proof (rule vcomputes_vbind [OF vcomputes_vlift [OF computes_start_accum]])
    fix accum acc
    show "vcomputes (\<lambda>_. []) (handle RotKeyHandle accum acc) H
        (vdefer (nfree RotKeyHandle accum) (vbind (vfor [1..<n] (?f accum)) (\<lambda>_. vlift (serializeRotKey L accum))))
        (obind (ofold ?g [1..<n] acc) (rot_bytes_spec L)) same []"
    proof (rule vcomputes_vdefer, unfold append_Nil, rule vcomputes_vbind)
      show "vcomputes (\<lambda>_. []) (handle RotKeyHandle accum acc) H (vfor [1..<n] (?f accum)) (ofold ?g [1..<n] acc)
          (\<lambda>_. handle RotKeyHandle accum) [(accum, is_kind RotKeyHandle)]"
      proof (rule vcomputes_vfor)
        fix i acc assume "i \<in> set [1..<n]"
        then have i: "i < n" "i < length pkBytes" using n by auto
        show "vcomputes (\<lambda>_. []) (handle RotKeyHandle accum acc) H (?f accum i) (?g i acc) (\<lambda>_. handle RotKeyHandle accum) [(accum, is_kind RotKeyHandle)]"
          using i by (intro vcomputes_fold_one vcomputes_vlift computes_pk_at ctx load calm) auto
      qed
      fix a w show "vcomputes (\<lambda>_. []) (handle RotKeyHandle accum w) H (vlift (serializeRotKey L accum)) (rot_bytes_spec L w)
          (\<lambda>a w. same a w @ [(accum, is_kind RotKeyHandle)]) [(accum, is_kind RotKeyHandle)]"
        by (rule vcomputes_write_accum)
    qed (rule is_kindD)
  qed
qed

lemma computes_incremental:
  assumes "ctx_in ctx c H" "shareBytes \<noteq> []" "length shareBytes \<le> length pkBytes"
  shows "computes [] H (combineEvalSumIncremental L ctx pkBytes shareBytes)
           (incremental_spec L c pkBytes (length shareBytes) (\<lambda>i. rot_spec L c (shareBytes ! i))) same []"
  unfolding combineEvalSumIncremental_def
  using assms by (intro computes_fold_from) (auto simp: rot_at_def intro!: computes_deserialize)

section \<open>All shares at once\<close>

fun oval :: "('e, 'a) outcome \<Rightarrow> 'a" where "oval (Ok a) = a"

definition pair_spec :: "('o, 'g) openfhe \<Rightarrow> 'o \<Rightarrow> bytes list \<Rightarrow> bytes list \<Rightarrow> nat \<Rightarrow> (string, unit) outcome" where
  "pair_spec L c pkBytes shareBytes i = obind (pk_spec L c (pkBytes ! i)) (\<lambda>_. obind (rot_spec L c (shareBytes ! i)) (\<lambda>_. Ok ()))"

definition all_at_once_spec :: "('o, 'g) openfhe \<Rightarrow> 'o \<Rightarrow> bytes list \<Rightarrow> bytes list \<Rightarrow> (string, bytes) outcome" where
  "all_at_once_spec L c pkBytes shareBytes =
     obind (ofold (\<lambda>i _. pair_spec L c pkBytes shareBytes i) [0..<length shareBytes] ()) (\<lambda>_.
     obind (build_spec L CombineEvalSumKeys
              (c # map (\<lambda>i. oval (pk_spec L c (pkBytes ! i))) [0..<length shareBytes] @ map (\<lambda>i. oval (rot_spec L c (shareBytes ! i))) [0..<length shareBytes])
              [] '''' ''combine eval-sum all-at-once failed'')
       (rot_bytes_spec L))"

text \<open>What the two arrays hold while they are filled.\<close>

definition read_cells :: "('o, 'g) openfhe \<Rightarrow> 'o \<Rightarrow> bytes list \<Rightarrow> bytes list \<Rightarrow> read_so_far \<Rightarrow> 'o assn" where
  "read_cells L c pkBytes shareBytes v =
     map2 (\<lambda>x i. (x, exactly PublicKeyHandle (oval (pk_spec L c (pkBytes ! i))))) (fst v) [0..<length (fst v)] @
     map2 (\<lambda>x i. (x, exactly RotKeyHandle (oval (rot_spec L c (shareBytes ! i))))) (snd v) [0..<length (snd v)]"

lemma read_cells_snoc:
  "mset (read_cells L c pkBytes shareBytes (pks @ [x], shares)) =
     mset (handle PublicKeyHandle x (oval (pk_spec L c (pkBytes ! length pks))) @ read_cells L c pkBytes shareBytes (pks, shares))"
  "mset (read_cells L c pkBytes shareBytes (pks, shares @ [y])) =
     mset (handle RotKeyHandle y (oval (rot_spec L c (shareBytes ! length shares))) @ read_cells L c pkBytes shareBytes (pks, shares))"
  by (simp_all add: read_cells_def)

lemma vstep_perm:
  "vstep P H m sp R E \<Longrightarrow> mset P' = mset P \<Longrightarrow> vstep P' H m sp R E"
  unfolding vstep_def by (erule triple_perm) simp_all

definition full_read :: "('o, 'g) openfhe \<Rightarrow> 'o \<Rightarrow> bytes list \<Rightarrow> bytes list \<Rightarrow> nat \<Rightarrow> read_so_far \<Rightarrow> 'o assn" where
  "full_read L c pkBytes shareBytes k v =
     (if length (fst v) = k \<and> length (snd v) = k then read_cells L c pkBytes shareBytes v else never)"

lemma vstep_absurd: "set never \<subseteq> set P \<Longrightarrow> vstep P H m sp R E"
  by (simp add: vstep_def triple_absurd)

lemma vstep_read_pair:
  assumes ctx: "ctx_in ctx c H" and i: "i < length shareBytes" "i < length pkBytes" and v: "length (fst v) = i" "length (snd v) = i"
  shows "vstep (read_cells L c pkBytes shareBytes v) H (read_pair L ctx pkBytes shareBytes i v) (pair_spec L c pkBytes shareBytes i)
           (\<lambda>_ _. full_read L c pkBytes shareBytes (Suc i)) (read_cells L c pkBytes shareBytes)"
  unfolding read_pair_def pair_spec_def
proof (rule vstep_vbind)
  let ?J = "read_cells L c pkBytes shareBytes"
  show "vstep (?J v) H (vlift (pk_at L ctx pkBytes i) v) (pk_spec L c (pkBytes ! i))
      (\<lambda>a w v'. if v' = v then handle PublicKeyHandle a w @ ?J v else never) ?J"
    using computes_frame_nil [OF computes_pk_at [OF ctx i(2)]] by (intro vstep_vlift) simp
  fix x w v' assume w: "pk_spec L c (pkBytes ! i) = Ok w"
  let ?k = "\<lambda>share (pks, shares). nret (Ok (), pks, shares @ [share])"
  show "vstep (if v' = v then handle PublicKeyHandle x w @ ?J v else never) H
      ((case v' of (pks, shares) \<Rightarrow> vbind (vlift (rot_at L ctx shareBytes i)) ?k (pks @ [x], shares)))
      (obind (rot_spec L c (shareBytes ! i)) (\<lambda>_. Ok ())) (\<lambda>_ _. full_read L c pkBytes shareBytes (Suc i)) ?J"
  proof (cases "v' = v")
    case True
    obtain pks shares where vv: "v = (pks, shares)" by fastforce
    let ?v = "(pks @ [x], shares)"
    have "vstep (?J ?v) H (vbind (vlift (rot_at L ctx shareBytes i)) ?k ?v) (obind (rot_spec L c (shareBytes ! i)) (\<lambda>_. Ok ()))
        (\<lambda>_ _. full_read L c pkBytes shareBytes (Suc i)) ?J"
    proof (rule vstep_vbind)
      show "vstep (?J ?v) H (vlift (rot_at L ctx shareBytes i) ?v) (rot_spec L c (shareBytes ! i))
          (\<lambda>a w v'. if v' = ?v then handle RotKeyHandle a w @ ?J ?v else never) ?J"
        using computes_frame_nil [OF computes_deserialize(2) [OF ctx]] i by (intro vstep_vlift) (simp add: rot_at_def)
      fix y u v2 assume u: "rot_spec L c (shareBytes ! i) = Ok u"
      show "vstep (if v2 = ?v then handle RotKeyHandle y u @ ?J ?v else never) H (case v2 of (pks, shares) \<Rightarrow> nret (Ok (), pks, shares @ [y])) (Ok ())
          (\<lambda>_ _. full_read L c pkBytes shareBytes (Suc i)) ?J"
      proof (cases "v2 = ?v")
        case True
        have "vstep (?J (pks @ [x], shares @ [y])) H (nret (Ok (), pks @ [x], shares @ [y])) (Ok ()) (\<lambda>_ _. full_read L c pkBytes shareBytes (Suc i)) ?J"
          using v vv by (intro vstep_nret) (simp add: full_read_def)
        moreover have "mset (handle RotKeyHandle y u @ ?J ?v) = mset (?J (pks @ [x], shares @ [y]))"
          using u v vv by (simp add: read_cells_snoc(2))
        ultimately have "vstep (handle RotKeyHandle y u @ ?J ?v) H (nret (Ok (), pks @ [x], shares @ [y])) (Ok ()) (\<lambda>_ _. full_read L c pkBytes shareBytes (Suc i)) ?J"
          by (rule vstep_perm)
        then show ?thesis using True by simp
      qed (simp add: vstep_absurd)
    qed
    moreover have "mset (handle PublicKeyHandle x w @ ?J v) = mset (?J ?v)" using w v vv by (simp add: read_cells_snoc(1))
    ultimately have "vstep (handle PublicKeyHandle x w @ ?J v) H (vbind (vlift (rot_at L ctx shareBytes i)) ?k ?v)
        (obind (rot_spec L c (shareBytes ! i)) (\<lambda>_. Ok ())) (\<lambda>_ _. full_read L c pkBytes shareBytes (Suc i)) ?J"
      by (rule vstep_perm)
    then show ?thesis using True vv by simp
  qed (simp add: vstep_absurd)
qed

lemma vstep_read_all:
  assumes ctx: "ctx_in ctx c H" and n: "n \<le> length shareBytes" "n \<le> length pkBytes"
  shows "k \<le> n \<Longrightarrow> length (fst v) = k \<Longrightarrow> length (snd v) = k \<Longrightarrow>
    vstep (read_cells L c pkBytes shareBytes v) H (vfor [k..<n] (read_pair L ctx pkBytes shareBytes) v)
      (ofold (\<lambda>i _. pair_spec L c pkBytes shareBytes i) [k..<n] ())
      (\<lambda>_ _. full_read L c pkBytes shareBytes n) (read_cells L c pkBytes shareBytes)"
proof (induction "n - k" arbitrary: k v)
  case 0
  then show ?case by (auto simp: full_read_def intro!: vstep_vlift computes_nret)
next
  case (Suc d)
  then have k: "k < n" "k < length shareBytes" "k < length pkBytes" using n by auto
  then have up: "[k..<n] = k # [Suc k..<n]" by (simp add: upt_conv_Cons)
  show ?case
    unfolding up vfor.simps ofold.simps
  proof (rule vstep_vbind, rule vstep_read_pair [OF ctx k(2,3) Suc.prems(2,3)])
    fix a w v'
    show "vstep (full_read L c pkBytes shareBytes (Suc k) v') H (vfor [Suc k..<n] (read_pair L ctx pkBytes shareBytes) v')
        (ofold (\<lambda>i _. pair_spec L c pkBytes shareBytes i) [Suc k..<n] w) (\<lambda>_ _. full_read L c pkBytes shareBytes n) (read_cells L c pkBytes shareBytes)"
      using Suc.hyps(1) [of "Suc k" v'] Suc.hyps(2) k by (auto simp: full_read_def intro: vstep_absurd)
  qed
qed

lemma entails_read_cells:
  "entails (read_cells L c pkBytes shareBytes (pks, shares)) (kinds (handles PublicKeyHandle pks) @ kinds (handles RotKeyHandle shares))"
  unfolding read_cells_def fst_conv snd_conv
  by (intro entails_append) (simp_all add: entails_def kinds_def list_all2_conv_all_nth is_kind_def)

lemma free_all_then_ok:
  "nbind (free_all k xs) (\<lambda>_. free_all k' ys) s = Some (r, s') \<Longrightarrow> ns_fault s' = ns_fault s \<Longrightarrow> is_ok r"
  using free_all_result [of k xs s] free_all_result [of k' ys]
  by (fastforce simp: nbind_def is_ok_iff split: option.splits outcome.splits if_splits prod.splits)

lemma triple_free_two:
  "triple (kinds (handles k xs) @ kinds (handles k' ys)) H (nbind (free_all k xs) (\<lambda>_. free_all k' ys)) (\<lambda>_. [])"
proof (rule triple_bind)
  have "triple (kinds (handles k xs) @ kinds (handles k' ys)) H (free_all k xs) (\<lambda>_. [] @ kinds (handles k' ys))"
    by (rule triple_frame [OF triple_free_all])
  then show "triple (kinds (handles k xs) @ kinds (handles k' ys)) H (free_all k xs) (owned (\<lambda>_. kinds (handles k' ys)))"
    by (rule triple_post) (auto dest!: free_all_ok simp: is_ok_iff)
qed (simp_all add: triple_free_all)

lemma holds_read_cells:
  assumes "length pks = n" "length shares = n"
  shows "holds (read_cells L c pkBytes shareBytes (pks, shares) @ H) (handles PublicKeyHandle pks @ handles RotKeyHandle shares)
     (map (\<lambda>i. oval (pk_spec L c (pkBytes ! i))) [0..<n] @ map (\<lambda>i. oval (rot_spec L c (shareBytes ! i))) [0..<n])"
  unfolding holds_def
proof (rule list_all2_appendI)
  have "(pks ! i, exactly PublicKeyHandle (oval (pk_spec L c (pkBytes ! i)))) \<in> set (read_cells L c pkBytes shareBytes (pks, shares) @ H)" if "i < n" for i
    using assms that by (force simp: read_cells_def set_zip)
  then show "list_all2 (\<lambda>xk v. (fst xk, exactly (snd xk) v) \<in> set (read_cells L c pkBytes shareBytes (pks, shares) @ H)) (handles PublicKeyHandle pks)
     (map (\<lambda>i. oval (pk_spec L c (pkBytes ! i))) [0..<n])"
    using assms by (auto simp: list_all2_conv_all_nth)
  have "(shares ! i, exactly RotKeyHandle (oval (rot_spec L c (shareBytes ! i)))) \<in> set (read_cells L c pkBytes shareBytes (pks, shares) @ H)" if "i < n" for i
    using assms that by (force simp: read_cells_def set_zip)
  then show "list_all2 (\<lambda>xk v. (fst xk, exactly (snd xk) v) \<in> set (read_cells L c pkBytes shareBytes (pks, shares) @ H)) (handles RotKeyHandle shares)
     (map (\<lambda>i. oval (rot_spec L c (shareBytes ! i))) [0..<n])"
    using assms by (auto simp: list_all2_conv_all_nth)
qed

lemma computes_all_at_once:
  assumes ctx: "ctx_in ctx c H" and len: "shareBytes \<noteq> []" "length shareBytes \<le> length pkBytes"
  shows "computes [] H (combineEvalSumAllAtOnce L ctx pkBytes shareBytes) (all_at_once_spec L c pkBytes shareBytes) same []"
  unfolding combineEvalSumAllAtOnce_def all_at_once_spec_def
proof (rule computes_vscope_step)
  let ?n = "length shareBytes" and ?J = "read_cells L c pkBytes shareBytes"
  let ?args = "\<lambda>pks shares. (ctx, CryptoContextHandle) # handles PublicKeyHandle pks @ handles RotKeyHandle shares"
  let ?vals = "c # map (\<lambda>i. oval (pk_spec L c (pkBytes ! i))) [0..<?n] @ map (\<lambda>i. oval (rot_spec L c (shareBytes ! i))) [0..<?n]"
  let ?comb = "\<lambda>pks shares. scoped (c_build L CombineEvalSumKeys (?args pks shares) [] '''' ''combine eval-sum all-at-once failed'') RotKeyHandle (serializeRotKey L)"
  let ?sp = "obind (build_spec L CombineEvalSumKeys ?vals [] '''' ''combine eval-sum all-at-once failed'') (rot_bytes_spec L)"
  show "vstep [] H (vbind (vfor [0..<?n] (read_pair L ctx pkBytes shareBytes))
      (\<lambda>_ (pks, shares). vlift (if shareBytes = [] then out_of_range else ?comb pks shares) (pks, shares)) ([], []))
     (obind (ofold (\<lambda>i _. pair_spec L c pkBytes shareBytes i) [0..<?n] ()) (\<lambda>_. ?sp)) (\<lambda>a w v. same a w @ ?J v) ?J"
  proof (rule vstep_vbind)
    show "vstep [] H (vfor [0..<?n] (read_pair L ctx pkBytes shareBytes) ([], [])) (ofold (\<lambda>i _. pair_spec L c pkBytes shareBytes i) [0..<?n] ())
        (\<lambda>_ _. full_read L c pkBytes shareBytes ?n) ?J"
      using vstep_read_all [OF ctx, of ?n shareBytes pkBytes 0 "([], [])" L] len by (simp add: read_cells_def)
    fix a w and v :: read_so_far
    obtain pks shares where v: "v = (pks, shares)" by fastforce
    show "vstep (full_read L c pkBytes shareBytes ?n v) H
        (case v of (pks, shares) \<Rightarrow> vlift (if shareBytes = [] then out_of_range else ?comb pks shares) (pks, shares)) ?sp (\<lambda>a w v. same a w @ ?J v) ?J"
    proof (cases "length pks = ?n \<and> length shares = ?n")
      case True
      have "computes [] (?J v @ H) (?comb pks shares) ?sp same []"
      proof (rule computes_scoped)
        show "computes [] (?J v @ H) (c_build L CombineEvalSumKeys (?args pks shares) [] '''' ''combine eval-sum all-at-once failed'')
            (build_spec L CombineEvalSumKeys ?vals [] '''' ''combine eval-sum all-at-once failed'') (handle RotKeyHandle) []"
          using True ctx holds_read_cells [of pks ?n shares L c pkBytes shareBytes H] unfolding v by (intro computes_c_build) simp_all
      qed (simp_all add: computes_serializeRotKey)
      then have "computes (?J v) H (?comb pks shares) ?sp (\<lambda>a w. same a w @ ?J v) (?J v)" by (rule computes_lend_nil)
      then show ?thesis using True len v by (simp add: full_read_def vstep_vlift)
    next
      case False
      then have n: "full_read L c pkBytes shareBytes ?n v = never" unfolding v full_read_def by auto
      show ?thesis unfolding n by (rule vstep_absurd) simp
    qed
  qed
  fix v :: read_so_far
  obtain pks shares where v: "v = (pks, shares)" by fastforce
  show "triple (?J v) H (case v of (pks, shares) \<Rightarrow> nbind (free_all PublicKeyHandle pks) (\<lambda>_. free_all RotKeyHandle shares)) (\<lambda>_. [])"
    unfolding v by simp (rule triple_pre [OF triple_free_two entails_read_cells])
next
  fix v :: read_so_far and s r s'
  show "(case v of (pks, shares) \<Rightarrow> nbind (free_all PublicKeyHandle pks) (\<lambda>_. free_all RotKeyHandle shares)) s = Some (r, s') \<Longrightarrow>
      ns_fault s' = ns_fault s \<Longrightarrow> is_ok r"
    by (cases v) (simp, rule free_all_then_ok)
qed

section \<open>The C side of the combiners\<close>

text \<open>
  The functions of \<^verbatim>\<open>openfhe_wrapper.cpp\<close> that the combiners call, over OpenFHE's \<^verbatim>\<open>MultiAddEvalAutomorphismKeys\<close>
  (\<open>add\<close>: the context, the sum so far, the share, the key whose tag is passed; it may throw), its reading of a map of vectors (\<open>rd\<close>) and the
  construction of a key from two such maps (\<open>ab\<close>).
\<close>

fun sum_shares :: "('o \<Rightarrow> 'o \<Rightarrow> 'o \<Rightarrow> 'o \<Rightarrow> 'o option) \<Rightarrow> 'o \<Rightarrow> ('o \<times> 'o) list \<Rightarrow> 'o \<Rightarrow> 'o option" where
  "sum_shares add c [] joined = Some joined"
| "sum_shares add c ((pk, share) # rest) joined =
     (case add c joined share pk of None \<Rightarrow> None | Some j \<Rightarrow> sum_shares add c rest j)"

fun CombineEvalSumKeys_c :: "('o \<Rightarrow> 'o \<Rightarrow> 'o \<Rightarrow> 'o \<Rightarrow> 'o option) \<Rightarrow> 'o list \<Rightarrow> 'o option" where
  "CombineEvalSumKeys_c add [] = None"
| "CombineEvalSumKeys_c add (c # objs) =
     (let n = length objs div 2; pks = take n objs; shares = drop n objs
      in if n = 0 then None else sum_shares add c (zip (tl pks) (tl shares)) (hd shares))"

fun EvalSumCombineFold_c :: "('o \<Rightarrow> 'o \<Rightarrow> 'o \<Rightarrow> 'o \<Rightarrow> 'o option) \<Rightarrow> 'o list \<Rightarrow> 'o \<Rightarrow> bool \<times> 'o" where
  "EvalSumCombineFold_c add [c, pk, share] acc = (case add c acc share pk of None \<Rightarrow> (False, acc) | Some r \<Rightarrow> (True, r))"
| "EvalSumCombineFold_c add _ acc = (False, acc)"

fun EvalSumCombineStart_c :: "'o list \<Rightarrow> 'o option" where
  "EvalSumCombineStart_c [seed] = Some seed"
| "EvalSumCombineStart_c _ = None"

fun ReconstructRotKeyFromAB_c :: "(bytes \<Rightarrow> 'o option) \<Rightarrow> ('o \<Rightarrow> 'o \<Rightarrow> 'o \<Rightarrow> 'o option) \<Rightarrow> 'o list \<Rightarrow> bytes list \<Rightarrow> 'o option" where
  "ReconstructRotKeyFromAB_c rd ab [c] [a, b] =
     (case rd a of None \<Rightarrow> None | Some amap \<Rightarrow> (case rd b of None \<Rightarrow> None | Some bmap \<Rightarrow> ab c amap bmap))"
| "ReconstructRotKeyFromAB_c rd ab _ _ = None"

fun ReconstructRotKeyFromAVectors_c :: "(bytes \<Rightarrow> 'o option) \<Rightarrow> ('o \<Rightarrow> 'o \<Rightarrow> 'o \<Rightarrow> 'o option) \<Rightarrow> 'o list \<Rightarrow> bytes list \<Rightarrow> 'o option" where
  "ReconstructRotKeyFromAVectors_c rd ab [c, amap] [b] = (case rd b of None \<Rightarrow> None | Some bmap \<Rightarrow> ab c amap bmap)"
| "ReconstructRotKeyFromAVectors_c rd ab _ _ = None"

fun DeserializeAVectors_c :: "(bytes \<Rightarrow> 'o option) \<Rightarrow> bytes list \<Rightarrow> 'o option" where
  "DeserializeAVectors_c rd [a] = rd a"
| "DeserializeAVectors_c rd _ = None"

definition wrapper ::
  "('o \<Rightarrow> 'o \<Rightarrow> 'o \<Rightarrow> 'o \<Rightarrow> 'o option) \<Rightarrow> (bytes \<Rightarrow> 'o option) \<Rightarrow> ('o \<Rightarrow> 'o \<Rightarrow> 'o \<Rightarrow> 'o option) \<Rightarrow> ('o, 'g) openfhe \<Rightarrow> ('o, 'g) openfhe" where
  "wrapper add rd ab L = L\<lparr>
     lib_fun := (\<lambda>op objs raws. case op of
         CombineEvalSumKeys \<Rightarrow> CombineEvalSumKeys_c add objs
       | EvalSumCombineStart \<Rightarrow> EvalSumCombineStart_c objs
       | ReconstructRotKeyFromAB \<Rightarrow> ReconstructRotKeyFromAB_c rd ab objs raws
       | ReconstructRotKeyFromAVectors \<Rightarrow> ReconstructRotKeyFromAVectors_c rd ab objs raws
       | DeserializeAVectors \<Rightarrow> DeserializeAVectors_c rd raws
       | _ \<Rightarrow> lib_fun L op objs raws),
     lib_upd := (\<lambda>op objs acc. case op of EvalSumCombineFold \<Rightarrow> EvalSumCombineFold_c add objs acc | _ \<Rightarrow> lib_upd L op objs acc) \<rparr>"

text \<open>What the Go side relies on in the C side.\<close>

locale rotation_library =
  fixes L :: "('o, 'g) openfhe" and add :: "'o \<Rightarrow> 'o \<Rightarrow> 'o \<Rightarrow> 'o \<Rightarrow> 'o option"
  assumes start: "lib_fun L EvalSumCombineStart [seed] [] = Some seed"
    and fold: "lib_upd L EvalSumCombineFold [c, pk, share] acc = (case add c acc share pk of None \<Rightarrow> (False, acc) | Some r \<Rightarrow> (True, r))"
    and all: "length pks = length shares \<Longrightarrow> shares \<noteq> [] \<Longrightarrow>
      lib_fun L CombineEvalSumKeys (c # pks @ shares) [] = sum_shares add c (zip (tl pks) (tl shares)) (hd shares)"
    and reconstruct: "lib_fun L ReconstructRotKeyFromAB [c] [a, b] =
      (case lib_fun L DeserializeAVectors [] [a] of None \<Rightarrow> None | Some amap \<Rightarrow> lib_fun L ReconstructRotKeyFromAVectors [c, amap] [b])"
begin

lemma fold_step:
  "fold_spec L c (Ok pk) (Ok share) msg acc = (case add c acc share pk of None \<Rightarrow> Err msg | Some r \<Rightarrow> Ok r)"
  by (simp add: fold_spec_def upd_spec_def fold split: option.splits)

lemma fold_accum:
  assumes "\<And>i. i \<in> set is \<Longrightarrow> pkspec i = Ok (pkv i)" "\<And>i. i \<in> set is \<Longrightarrow> shspec i = Ok (shv i)"
  shows "ofold (\<lambda>i. fold_spec L c (pkspec i) (shspec i) (msg i)) is acc = Ok r \<longleftrightarrow> sum_shares add c (map (\<lambda>i. (pkv i, shv i)) is) acc = Some r"
  using assms
proof (induction "is" arbitrary: acc)
  case (Cons i "is")
  then show ?case by (simp add: fold_step split: option.splits)
qed simp

lemma fold_accum_ok:
  "ofold (\<lambda>i. fold_spec L c (pkspec i) (shspec i) (msg i)) is acc = Ok r \<Longrightarrow> i \<in> set is \<Longrightarrow> is_ok (pkspec i) \<and> is_ok (shspec i)"
proof (induction "is" arbitrary: acc)
  case (Cons j "is")
  then obtain a where "fold_spec L c (pkspec j) (shspec j) (msg j) acc = Ok a" "ofold (\<lambda>i. fold_spec L c (pkspec i) (shspec i) (msg i)) is a = Ok r"
    by auto
  then show ?case using Cons by (auto simp: fold_spec_def is_ok_iff)
qed simp

end

lemma pairs_ok:
  "ofold (\<lambda>i _. pair_spec L c pkBytes shareBytes i) is () = Ok () \<longleftrightarrow>
     (\<forall>i \<in> set is. is_ok (pk_spec L c (pkBytes ! i)) \<and> is_ok (rot_spec L c (shareBytes ! i)))"
  by (induction "is") (auto simp: pair_spec_def is_ok_iff)

lemma oval_ok: "is_ok r \<Longrightarrow> r = Ok (oval r)"
  by (auto simp: is_ok_iff)

context rotation_library
begin

text \<open>The shares are folded to the same key as all at once; the incremental form does not read the first public key.\<close>

lemma incremental_iff:
  assumes n: "shareBytes \<noteq> []" and pk0: "is_ok (pk_spec L c (pkBytes ! 0))"
  shows "incremental_spec L c pkBytes (length shareBytes) (\<lambda>i. rot_spec L c (shareBytes ! i)) = Ok b \<longleftrightarrow> all_at_once_spec L c pkBytes shareBytes = Ok b"
proof -
  let ?n = "length shareBytes"
  let ?pk = "\<lambda>i. pk_spec L c (pkBytes ! i)" and ?sh = "\<lambda>i. rot_spec L c (shareBytes ! i)"
  let ?ok = "\<forall>i < ?n. is_ok (?pk i) \<and> is_ok (?sh i)"
  let ?sum = "sum_shares add c (map (\<lambda>i. (oval (?pk i), oval (?sh i))) [1..<?n]) (oval (?sh 0))"
  have up: "[0..<?n] = 0 # [1..<?n]" using n by (simp add: upt_conv_Cons)
  have "lib_fun L CombineEvalSumKeys (c # map (\<lambda>i. oval (?pk i)) [0..<?n] @ map (\<lambda>i. oval (?sh i)) [0..<?n]) [] =
      sum_shares add c (zip (tl (map (\<lambda>i. oval (?pk i)) [0..<?n])) (tl (map (\<lambda>i. oval (?sh i)) [0..<?n]))) (hd (map (\<lambda>i. oval (?sh i)) [0..<?n]))"
    using n by (intro all) simp_all
  also have "\<dots> = ?sum" by (simp only: up list.map list.sel) (simp add: zip_map_map zip_same_conv_map comp_def)
  finally have lib: "lib_fun L CombineEvalSumKeys (c # map (\<lambda>i. oval (?pk i)) [0..<?n] @ map (\<lambda>i. oval (?sh i)) [0..<?n]) [] = ?sum" .
  have A: "all_at_once_spec L c pkBytes shareBytes = Ok b \<longleftrightarrow> ?ok \<and> (\<exists>r. ?sum = Some r \<and> rot_bytes_spec L r = Ok b)"
    unfolding all_at_once_spec_def obind_Ok build_spec_def lib by (auto simp: pairs_ok)
  have "incremental_spec L c pkBytes ?n ?sh = Ok b \<longleftrightarrow> ?ok \<and> (\<exists>r. ?sum = Some r \<and> rot_bytes_spec L r = Ok b)" (is "?inc \<longleftrightarrow> _")
  proof
    assume ?inc
    then obtain seed r where s: "?sh 0 = Ok seed"
      and f: "ofold (\<lambda>i. fold_spec L c (?pk i) (?sh i) (''eval-sum combine fold '' @ dec_nat i @ '' failed'')) [1..<?n] seed = Ok r" and b: "rot_bytes_spec L r = Ok b"
      by (auto simp: incremental_spec_def start_spec_def build_spec_def start)
    have ok1: "is_ok (?pk i) \<and> is_ok (?sh i)" if "i \<in> set [1..<?n]" for i using fold_accum_ok [OF f that] .
    have ok: ?ok
    proof (intro allI impI)
      fix i assume "i < ?n"
      then show "is_ok (?pk i) \<and> is_ok (?sh i)" using ok1 [of i] pk0 s by (cases "i = 0") (auto simp: is_ok_iff)
    qed
    have "?sum = Some r" using f s ok by (subst (asm) fold_accum [where pkv = "\<lambda>i. oval (?pk i)" and shv = "\<lambda>i. oval (?sh i)"]) (auto intro: oval_ok)
    then show "?ok \<and> (\<exists>r. ?sum = Some r \<and> rot_bytes_spec L r = Ok b)" using ok b by blast
  next
    assume h: "?ok \<and> (\<exists>r. ?sum = Some r \<and> rot_bytes_spec L r = Ok b)"
    then obtain r where r: "?sum = Some r" "rot_bytes_spec L r = Ok b" by blast
    have "?sh 0 = Ok (oval (?sh 0))" using h n by (intro oval_ok) simp
    moreover have "ofold (\<lambda>i. fold_spec L c (?pk i) (?sh i) (''eval-sum combine fold '' @ dec_nat i @ '' failed'')) [1..<?n] (oval (?sh 0)) = Ok r"
      using h r by (subst fold_accum [where pkv = "\<lambda>i. oval (?pk i)" and shv = "\<lambda>i. oval (?sh i)"]) (auto intro: oval_ok)
    ultimately show ?inc using r(2) by (auto simp: incremental_spec_def start_spec_def build_spec_def start)
  qed
  with A show ?thesis by blast
qed

end

interpretation wrapped: rotation_library "wrapper add rd ab L" add
proof
  fix pks shares :: "'a list" and c :: 'a
  assume "length pks = length shares" "shares \<noteq> []"
  then show "lib_fun (wrapper add rd ab L) CombineEvalSumKeys (c # pks @ shares) [] = sum_shares add c (zip (tl pks) (tl shares)) (hd shares)"
    by (simp add: wrapper_def)
qed (simp_all add: wrapper_def split: option.splits)

end
