(* ===== verification/Bridge_Index.thy ===== *)
theory Bridge_Index
  imports Bridge_Fold
begin

text \<open>
  The per-index combiners: what the validators accept, what the loops over the rotation indices compute, and that the cache
  of a-vectors is invisible: the lazy forms give the keys that the eager ones give on the resolved bytes.
\<close>

section \<open>What the validators accept\<close>

lemma keyed_party_iff:
  "keyed_party ix val ok bad party keyed shares = Inr ks \<longleftrightarrow>
     (\<forall>s \<in> set shares. ok s) \<and> distinct (map ix shares) \<and> ix ` set shares \<inter> fst ` set keyed = {} \<and>
     ks = keyed @ map (\<lambda>s. (ix s, val s)) shares"
proof (induction shares arbitrary: keyed)
  case (Cons s shares)
  then show ?case by auto
qed auto

lemma check_indices_iff:
  assumes "distinct required" "distinct (map fst keyed)"
  shows "check_indices party required keyed = None \<longleftrightarrow> set required = fst ` set keyed"
proof -
  have len: "length required = card (set required)" "length keyed = card (fst ` set keyed)"
    using assms distinct_card [of required] distinct_card [of "map fst keyed"] by simp_all
  have "set required = fst ` set keyed" if "length keyed = length required" "set required \<subseteq> fst ` set keyed"
    using that len by (intro card_seteq) auto
  moreover have "check_indices party required keyed = None \<longleftrightarrow>
      length keyed = length required \<and> set required \<subseteq> fst ` set keyed \<and> fst ` set keyed \<subseteq> set required"
  proof -
    have "find (\<lambda>idx. idx \<notin> fst ` set keyed) required = None \<longleftrightarrow> set required \<subseteq> fst ` set keyed"
      "find (\<lambda>idx. idx \<notin> set required) (map fst keyed) = None \<longleftrightarrow> fst ` set keyed \<subseteq> set required"
      unfolding find_None_iff by auto
    then show ?thesis unfolding check_indices_def by (auto split: option.split)
  qed
  ultimately show ?thesis using len by auto
qed

lemma inr_iff_cases:
  assumes "\<And>ks. x = Inr ks \<longleftrightarrow> W \<and> ks = v"
  obtains "W" "x = Inr v" | e where "\<not> W" "x = Inl e"
  using assms by (cases x) auto

definition well_formed_parties :: "('s \<Rightarrow> int) \<Rightarrow> ('s \<Rightarrow> bool) \<Rightarrow> int set \<Rightarrow> 's list list \<Rightarrow> bool" where
  "well_formed_parties ix ok I parties \<longleftrightarrow>
     (\<forall>shares \<in> set parties. shares \<noteq> [] \<and> (\<forall>s \<in> set shares. ok s) \<and> distinct (map ix shares) \<and> ix ` set shares = I)"

lemma validate_parties_some:
  assumes "distinct r"
  shows "validate_parties (\<lambda>party. keyed_party ix val ok bad party []) none party (Some r) parties = Inr ks \<longleftrightarrow>
     well_formed_parties ix ok (set r) parties \<and> ks = map (map (\<lambda>s. (ix s, val s))) parties"
proof (induction parties arbitrary: party ks)
  case Nil
  then show ?case by (auto simp: well_formed_parties_def)
next
  case (Cons shares parties)
  show ?case
  proof (cases "keyed_party ix val ok bad party [] shares")
    case (Inl e)
    then have "\<not> ((\<forall>s \<in> set shares. ok s) \<and> distinct (map ix shares))"
      using keyed_party_iff [of ix val ok bad party "[]" shares "map (\<lambda>s. (ix s, val s)) shares"] by auto
    then show ?thesis using Inl by (auto simp: well_formed_parties_def)
  next
    case (Inr keyed)
    then have k: "(\<forall>s \<in> set shares. ok s)" "distinct (map ix shares)" "keyed = map (\<lambda>s. (ix s, val s)) shares"
      by (auto simp: keyed_party_iff)
    then have "check_indices party r keyed = None \<longleftrightarrow> set r = ix ` set shares"
      using check_indices_iff [OF assms, of keyed party] by (simp add: comp_def image_image)
    moreover have "well_formed_parties ix ok (set r) (shares # parties) \<longleftrightarrow>
        shares \<noteq> [] \<and> set r = ix ` set shares \<and> well_formed_parties ix ok (set r) parties"
      using k by (auto simp: well_formed_parties_def)
    ultimately show ?thesis
      using Inr k(3) by (cases rule: inr_iff_cases [OF Cons.IH [of "Suc party"]]) (auto split: option.split)
  qed
qed

lemma validate_shares_iff:
  "validate_shares ix val ok none bad byParty = Inr (indices, keyed) \<longleftrightarrow>
     byParty \<noteq> [] \<and> well_formed_parties ix ok (ix ` set (hd byParty)) byParty \<and>
     indices = map ix (hd byParty) \<and> keyed = map (map (\<lambda>s. (ix s, val s))) byParty"
proof (cases byParty)
  case Nil
  then show ?thesis by (simp add: validate_shares_def)
next
  case (Cons shares parties)
  show ?thesis
  proof (cases "keyed_party ix val ok bad 0 [] shares")
    case (Inl e)
    then have "\<not> ((\<forall>s \<in> set shares. ok s) \<and> distinct (map ix shares))"
      using keyed_party_iff [of ix val ok bad 0 "[]" shares "map (\<lambda>s. (ix s, val s)) shares"] by auto
    then show ?thesis using Inl Cons by (auto simp: validate_shares_def well_formed_parties_def)
  next
    case (Inr k0)
    then have k: "(\<forall>s \<in> set shares. ok s)" "distinct (map ix shares)" "k0 = map (\<lambda>s. (ix s, val s)) shares"
      by (auto simp: keyed_party_iff)
    have m: "map fst k0 = map ix shares" by (simp add: k comp_def)
    have rest: "validate_parties (\<lambda>party. keyed_party ix val ok bad party []) none (Suc 0) (Some (map ix shares)) parties = Inr ks \<longleftrightarrow>
      well_formed_parties ix ok (ix ` set shares) parties \<and> ks = map (map (\<lambda>s. (ix s, val s))) parties" for ks
      using validate_parties_some [OF k(2)] by simp
    moreover have "well_formed_parties ix ok (ix ` set shares) (shares # parties) \<longleftrightarrow>
        shares \<noteq> [] \<and> well_formed_parties ix ok (ix ` set shares) parties"
      using k by (auto simp: well_formed_parties_def)
    ultimately show ?thesis
      using Inr k(3) Cons m by (cases rule: inr_iff_cases [OF rest]) (auto simp: validate_shares_def comp_def)
  qed
qed

section \<open>The loops over the indices\<close>

definition index_spec ::
  "('o, 'g) openfhe \<Rightarrow> 'o \<Rightarrow> string \<Rightarrow> (nat \<Rightarrow> int \<Rightarrow> (string, 'o) outcome) \<Rightarrow> bytes list \<Rightarrow> nat \<Rightarrow> int \<Rightarrow> (string, 'o) outcome" where
  "index_spec L c verb load publicKeys parties index =
     obind (olabel (verb @ '' lead eval-sum index '' @ dec_int index) (load 0 index)) (\<lambda>seed.
     obind (start_spec L seed (''eval-sum combine start index '' @ dec_int index @ '' failed''))
       (ofold (\<lambda>party. fold_spec L c
           (olabel (''deserialize public key party '' @ dec_nat party) (pk_spec L c (publicKeys ! party)))
           (olabel (verb @ '' eval-sum party '' @ dec_nat party @ '' index '' @ dec_int index) (load party index))
           (''eval-sum combine fold party '' @ dec_nat party @ '' index '' @ dec_int index @ '' failed'')) [1..<parties]))"

definition merge_spec :: "('o, 'g) openfhe \<Rightarrow> (int \<Rightarrow> (string, 'o) outcome) \<Rightarrow> int list \<Rightarrow> 'o \<Rightarrow> (string, 'o) outcome" where
  "merge_spec L idx = ofold (\<lambda>index final. obind (idx index) (\<lambda>acc.
     upd_spec L MergeEvalSumKeyMaps [acc] final (''merge eval-sum index '' @ dec_int index @ '' failed'')))"

fun combine_spec :: "('o, 'g) openfhe \<Rightarrow> (int \<Rightarrow> (string, 'o) outcome) \<Rightarrow> int list \<Rightarrow> (string, bytes) outcome" where
  "combine_spec L idx [] = Err ''no per-index eval-sum keys to combine''"
| "combine_spec L idx (index # rest) = obind (idx index) (\<lambda>final. obind (merge_spec L idx rest final) (rot_bytes_spec L))"

lemma fold_spec_calm [simp]: "\<not> is_panic pk \<Longrightarrow> \<not> is_panic share \<Longrightarrow> \<not> is_panic (fold_spec L c pk share msg acc)"
  by (simp add: fold_spec_def)

lemma ofold_calm: "(\<And>i v. i \<in> set is \<Longrightarrow> \<not> is_panic (f i v)) \<Longrightarrow> \<not> is_panic (ofold f is v)"
  by (induction "is" arbitrary: v) auto

lemma vcomputes_index_accum:
  assumes ctx: "ctx_in ctx c H" and load: "\<And>p. p = 0 \<or> p < n \<Longrightarrow> vcomputes J [] H (load p index) (loadsp p index) (handle RotKeyHandle) []"
    and calm: "\<And>p. \<not> is_panic (loadsp p index)" and n: "n \<le> length pks"
  shows "vcomputes J [] H (index_accum L ctx verb load pks n index) (index_spec L c verb loadsp pks n index) (handle RotKeyHandle) []"
  unfolding index_accum_def index_spec_def
proof (rule vcomputes_vbind [OF vcomputes_vlabel [OF load [of 0]]])
  fix seed v
  let ?f = "\<lambda>accum party. fold_one L ctx accum (vlift (relabel (''deserialize public key party '' @ dec_nat party) (pk_at L ctx pks party)))
       (vlabel (verb @ '' eval-sum party '' @ dec_nat party @ '' index '' @ dec_int index) (load party index))
       (''eval-sum combine fold party '' @ dec_nat party @ '' index '' @ dec_int index @ '' failed'')"
  let ?g = "\<lambda>party. fold_spec L c (olabel (''deserialize public key party '' @ dec_nat party) (pk_spec L c (pks ! party)))
       (olabel (verb @ '' eval-sum party '' @ dec_nat party @ '' index '' @ dec_int index) (loadsp party index))
       (''eval-sum combine fold party '' @ dec_nat party @ '' index '' @ dec_int index @ '' failed'')"
  show "vcomputes J (handle RotKeyHandle seed v) H
      (vbind (vlift (start_accum L seed (''eval-sum combine start index '' @ dec_int index @ '' failed'')))
        (\<lambda>accum. vbind (von_error (nfree RotKeyHandle accum) (vfor [1..<n] (?f accum))) (\<lambda>_. vlift (nret accum))))
      (obind (start_spec L v (''eval-sum combine start index '' @ dec_int index @ '' failed'')) (ofold ?g [1..<n])) (handle RotKeyHandle) []"
  proof (rule vcomputes_vbind [OF vcomputes_vlift [OF computes_start_accum]])
    fix accum acc
    have body: "vcomputes J (handle RotKeyHandle accum acc) H (von_error (nfree RotKeyHandle accum) (vfor [1..<n] (?f accum))) (ofold ?g [1..<n] acc)
        (\<lambda>_. handle RotKeyHandle accum) []"
    proof (rule vcomputes_von_error [OF _ is_kindD], unfold append_Nil, rule vcomputes_vfor)
      fix i acc assume "i \<in> set [1..<n]"
      then have "i < length pks" using n by auto
      then show "vcomputes J (handle RotKeyHandle accum acc) H (?f accum i) (?g i acc) (\<lambda>_. handle RotKeyHandle accum) [(accum, is_kind RotKeyHandle)]"
        by (intro vcomputes_fold_one vcomputes_vlift computes_relabel computes_pk_at ctx vcomputes_vlabel load) (use \<open>i \<in> set [1..<n]\<close> in \<open>auto simp: calm\<close>)
    qed (auto simp: calm intro!: ofold_calm)
    have "vcomputes J (handle RotKeyHandle accum acc) H (vbind (von_error (nfree RotKeyHandle accum) (vfor [1..<n] (?f accum))) (\<lambda>_. vlift (nret accum)))
        (obind (ofold ?g [1..<n] acc) Ok) (handle RotKeyHandle) []"
      by (rule vcomputes_vbind [OF body]) (simp add: vcomputes_vlift computes_nret)
    moreover have "obind r Ok = r" for r :: "(string, 'a) outcome" by (cases r) auto
    ultimately show "vcomputes J (handle RotKeyHandle accum acc) H (vbind (von_error (nfree RotKeyHandle accum) (vfor [1..<n] (?f accum))) (\<lambda>_. vlift (nret accum)))
        (ofold ?g [1..<n] acc) (handle RotKeyHandle) []" by simp
  qed
qed simp

lemma computes_merge_c:
  "computes (handle RotKeyHandle accum acc @ handle RotKeyHandle final fin) H
      (freeing RotKeyHandle accum (c_update L MergeEvalSumKeyMaps [(accum, RotKeyHandle)] final msg))
      (upd_spec L MergeEvalSumKeyMaps [acc] fin msg) (\<lambda>_. handle RotKeyHandle final) [(final, is_kind RotKeyHandle)]"
proof -
  have "computes (handle RotKeyHandle final fin) ((accum, exactly RotKeyHandle acc) # H) (c_update L MergeEvalSumKeyMaps [(accum, RotKeyHandle)] final msg)
      (upd_spec L MergeEvalSumKeyMaps [acc] fin msg) (\<lambda>_. handle RotKeyHandle final) [(final, is_kind RotKeyHandle)]"
    by (rule computes_c_update) simp
  then have "computes (handle RotKeyHandle final fin @ handle RotKeyHandle accum acc) H
      (freeing RotKeyHandle accum (c_update L MergeEvalSumKeyMaps [(accum, RotKeyHandle)] final msg))
      (upd_spec L MergeEvalSumKeyMaps [acc] fin msg) (\<lambda>_. handle RotKeyHandle final) [(final, is_kind RotKeyHandle)]"
    by (rule computes_freeing) simp_all
  then show ?thesis by (rule computes_conseq) simp_all
qed

lemma obind_assoc: "obind (obind r f) g = obind r (\<lambda>x. obind (f x) g)"
  by (cases r) simp_all

lemma obind_id [simp]: "obind r Ok = r"
  by (cases r) simp_all

lemma vcomputes_merge_indices:
  assumes idx: "\<And>index. vcomputes J [] H (accum_of index) (idx index) (handle RotKeyHandle) []"
  shows "vcomputes J (handle RotKeyHandle final fin) H (merge_indices L accum_of final rest) (merge_spec L idx rest fin)
           (\<lambda>_. handle RotKeyHandle final) [(final, is_kind RotKeyHandle)]"
proof (induction rest arbitrary: fin)
  case Nil
  show ?case by (simp add: merge_spec_def vcomputes_vlift computes_nret)
next
  case (Cons index rest)
  let ?msg = "''merge eval-sum index '' @ dec_int index @ '' failed''"
  have "merge_spec L idx (index # rest) fin = obind (idx index) (\<lambda>acc. obind (upd_spec L MergeEvalSumKeyMaps [acc] fin ?msg) (merge_spec L idx rest))"
    by (simp add: merge_spec_def obind_assoc)
  moreover have "vcomputes J (handle RotKeyHandle final fin) H (merge_indices L accum_of final (index # rest))
      (obind (idx index) (\<lambda>acc. obind (upd_spec L MergeEvalSumKeyMaps [acc] fin ?msg) (merge_spec L idx rest)))
      (\<lambda>_. handle RotKeyHandle final) [(final, is_kind RotKeyHandle)]"
    unfolding merge_indices.simps
  proof (rule vcomputes_vbind)
    show "vcomputes J (handle RotKeyHandle final fin) H (accum_of index) (idx index) (\<lambda>a v. handle RotKeyHandle a v @ handle RotKeyHandle final fin)
        [(final, is_kind RotKeyHandle)]"
      by (rule vcomputes_weaken [OF vcomputes_frame_nil [OF idx]]) simp
    fix accum acc
    show "vcomputes J (handle RotKeyHandle accum acc @ handle RotKeyHandle final fin) H
       (vbind (vlift (freeing RotKeyHandle accum (c_update L MergeEvalSumKeyMaps [(accum, RotKeyHandle)] final ?msg))) (\<lambda>_. merge_indices L accum_of final rest))
       (obind (upd_spec L MergeEvalSumKeyMaps [acc] fin ?msg) (merge_spec L idx rest)) (\<lambda>_. handle RotKeyHandle final) [(final, is_kind RotKeyHandle)]"
      by (rule vcomputes_vbind [OF vcomputes_vlift [OF computes_merge_c]]) (rule Cons.IH)
  qed
  ultimately show ?case by simp
qed

lemma vcomputes_combine_indices:
  assumes idx: "\<And>index. vcomputes J [] H (accum_of index) (idx index) (handle RotKeyHandle) []"
  shows "vcomputes J [] H (combine_indices L accum_of is) (combine_spec L idx is) same []"
proof (cases "is")
  case Nil
  then show ?thesis by (simp add: vcomputes_vlift computes_nfail)
next
  case (Cons index rest)
  show ?thesis
    unfolding Cons combine_indices.simps combine_spec.simps
  proof (rule vcomputes_vbind [OF idx], rule vcomputes_vdefer [OF _ is_kindD], unfold append_Nil)
    fix final fin
    show "vcomputes J (handle RotKeyHandle final fin) H (vbind (merge_indices L accum_of final rest) (\<lambda>_. vlift (serializeRotKey L final)))
        (obind (merge_spec L idx rest fin) (rot_bytes_spec L)) (\<lambda>a w. same a w @ [(final, is_kind RotKeyHandle)]) [(final, is_kind RotKeyHandle)]"
      by (rule vcomputes_vbind [OF vcomputes_merge_indices [OF idx] vcomputes_write_accum])
  qed
qed

section \<open>Loading a share\<close>

definition res_spec :: "resolver \<Rightarrow> string \<Rightarrow> (string, bytes) outcome" where
  "res_spec resolve ref = (case resolve ref of Inl e \<Rightarrow> Err e | Inr bs \<Rightarrow> Ok bs)"

lemma computes_nresolve: "computes [] H (nresolve resolve ref) (res_spec resolve ref) same []"
  by (auto simp: nresolve_def res_spec_def computes_nret computes_nfail split: sum.split)

lemma res_spec_calm [simp]: "\<not> is_panic (res_spec resolve ref)"
  by (simp add: res_spec_def split: sum.split)

definition full_spec :: "('o, 'g) openfhe \<Rightarrow> 'o \<Rightarrow> resolver \<Rightarrow> string \<Rightarrow> (string, 'o) outcome" where
  "full_spec L c resolve ref =
     obind (olabel ''resolve full key ref'' (res_spec resolve ref)) (\<lambda>raw. olabel ''deserialize full key ref'' (rot_spec L c raw))"

lemma computes_full_key: "ctx_in ctx c H \<Longrightarrow> computes [] H (full_key L ctx resolve ref) (full_spec L c resolve ref) (handle RotKeyHandle) []"
  unfolding full_key_def full_spec_def
  by (intro computes_val_nil computes_relabel computes_nresolve computes_deserialize)

definition avec_spec :: "('o, 'g) openfhe \<Rightarrow> resolver \<Rightarrow> string \<Rightarrow> (string, 'o) outcome" where
  "avec_spec L resolve aref =
     obind (olabel ''resolve a-vector ref'' (res_spec resolve aref)) (\<lambda>a.
     olabel ''deserialize a-vectors'' (build_spec L DeserializeAVectors [] [a] ''a-vectors are required'' ''a-vector deserialization failed''))"

text \<open>What a reference to a-vectors resolves to can be read; of a key that is given in full nothing is asked.\<close>

definition avec_readable :: "('o, 'g) openfhe \<Rightarrow> resolver \<Rightarrow> string \<Rightarrow> bool" where
  "avec_readable L resolve aref \<longleftrightarrow>
     (case resolve aref of Inl _ \<Rightarrow> True | Inr a \<Rightarrow> a = [] \<or> lib_fun L DeserializeAVectors [] [a] \<noteq> None)"

definition ref_readable :: "('o, 'g) openfhe \<Rightarrow> resolver \<Rightarrow> key_ref \<Rightarrow> bool" where
  "ref_readable L resolve ref \<longleftrightarrow> kr_ARef ref = [] \<or> avec_readable L resolve (kr_ARef ref)"

definition refs_readable :: "('o, 'g) openfhe \<Rightarrow> resolver \<Rightarrow> key_ref list list \<Rightarrow> bool" where
  "refs_readable L resolve refs \<longleftrightarrow> (\<forall>party \<in> set refs. \<forall>ref \<in> set party. ref_readable L resolve ref)"

lemma computes_load_a:
  assumes "avec_readable L resolve aref"
  shows "computes [] H (load_a L resolve aref) (avec_spec L resolve aref) (handle AVectorsHandle) []"
proof (cases "resolve aref")
  case (Inl e)
  then have "load_a L resolve aref = nfail (''resolve a-vector ref'' @ '': '' @ e)"
    by (simp add: load_a_def nresolve_def relabel_def nbind_def nfail_def fun_eq_iff)
  then show ?thesis by (simp add: avec_spec_def res_spec_def Inl computes_nfail)
next
  case (Inr a)
  have l: "loses_nothing L DeserializeAVectors [] [a]" using assms by (auto simp: loses_nothing_def avec_readable_def Inr)
  have "load_a L resolve aref = relabel ''deserialize a-vectors'' (deserializeAVectors L a)"
    by (simp add: load_a_def nresolve_def relabel_def nbind_def nret_def fun_eq_iff Inr)
  then show ?thesis
    unfolding deserializeAVectors_def avec_spec_def res_spec_def Inr
    by (simp add: computes_relabel computes_c_build l)
qed

definition load_spec :: "('o, 'g) openfhe \<Rightarrow> 'o \<Rightarrow> resolver \<Rightarrow> key_ref \<Rightarrow> (string, 'o) outcome" where
  "load_spec L c resolve ref =
     (if kr_Ref ref \<noteq> [] \<and> kr_ARef ref = [] \<and> kr_BRef ref = [] then full_spec L c resolve (kr_Ref ref)
      else if kr_Ref ref = [] \<and> kr_ARef ref \<noteq> [] \<and> kr_BRef ref \<noteq> [] then
        obind (avec_spec L resolve (kr_ARef ref)) (\<lambda>a.
        obind (olabel ''resolve b-vector ref'' (res_spec resolve (kr_BRef ref))) (\<lambda>b.
        build_spec L ReconstructRotKeyFromAVectors [c, a] [b] ''b-vectors are required'' ''b-only rotation-key reconstruction from cached a failed''))
      else Err ''eval-sum ref must contain either full ref or a/b refs'')"

lemma load_spec_calm [simp]: "\<not> is_panic (load_spec L c resolve ref)"
  by (simp add: load_spec_def full_spec_def avec_spec_def)

text \<open>The cache holds, for every reference in it, the a-vectors that the reference means.\<close>

definition cache_cells :: "('o, 'g) openfhe \<Rightarrow> resolver \<Rightarrow> acache \<Rightarrow> 'o assn" where
  "cache_cells L resolve cache =
     (if \<forall>rh \<in> set cache. is_ok (avec_spec L resolve (fst rh))
      then map (\<lambda>rh. (snd rh, exactly AVectorsHandle (oval (avec_spec L resolve (fst rh))))) cache else never)"

lemma vstep_cached_a:
  assumes "avec_readable L resolve aref"
  shows "vstep (cache_cells L resolve v) H (cached_a L resolve aref v) (avec_spec L resolve aref)
     (\<lambda>h _ v'. if map_of v' aref = Some h then cache_cells L resolve v' else never) (cache_cells L resolve)"
proof (cases "\<forall>rh \<in> set v. is_ok (avec_spec L resolve (fst rh))")
  case valid: True
  let ?J = "cache_cells L resolve" and ?R = "\<lambda>h _ v'. if map_of v' aref = Some h then cache_cells L resolve v' else never"
  show ?thesis
  proof (cases "map_of v aref")
    case (Some h)
    then have "(aref, h) \<in> set v" by (rule map_of_SomeD)
    then have "is_ok (avec_spec L resolve aref)" using valid by force
    then obtain av where "avec_spec L resolve aref = Ok av" by (auto simp: is_ok_iff)
    then show ?thesis using Some by (simp add: cached_a_def vstep_nret)
  next
    case None
    have "vstep (?J v) H (vbind (vlift (load_a L resolve aref)) (\<lambda>h cache. nret (Ok h, (aref, h) # cache)) v)
        (obind (avec_spec L resolve aref) Ok) ?R ?J"
    proof (rule vstep_vbind)
      show "vstep (?J v) H (vlift (load_a L resolve aref) v) (avec_spec L resolve aref)
          (\<lambda>h av v'. if v' = v then handle AVectorsHandle h av @ ?J v else never) ?J"
        using computes_frame_nil [OF computes_load_a [OF assms]] by (intro vstep_vlift) simp
      fix h av v' assume av: "avec_spec L resolve aref = Ok av"
      show "vstep (if v' = v then handle AVectorsHandle h av @ ?J v else never) H (nret (Ok h, (aref, h) # v')) (Ok av) ?R ?J"
      proof (cases "v' = v")
        case True
        then show ?thesis using valid av by (intro vstep_nret) (auto simp: cache_cells_def)
      qed (simp add: vstep_absurd)
    qed
    then show ?thesis using None by (simp add: cached_a_def)
  qed
next
  case False
  then have "cache_cells L resolve v = never" unfolding cache_cells_def by (rule if_not_P)
  then show ?thesis by (simp add: vstep_absurd)
qed

lemma vcomputes_cached:
  assumes ctx: "ctx_in ctx c H" and readable: "ref_readable L resolve ref"
  shows "vcomputes (cache_cells L resolve) [] H (resolveKeyRefCached L ctx resolve ref) (load_spec L c resolve ref) (handle RotKeyHandle) []"
proof -
  let ?J = "cache_cells L resolve"
  let ?rb = "\<lambda>h. nbind (relabel ''resolve b-vector ref'' (nresolve resolve (kr_BRef ref))) (reconstructRotKeyFromAVectors L ctx h)"
  let ?rs = "\<lambda>a. obind (olabel ''resolve b-vector ref'' (res_spec resolve (kr_BRef ref))) (\<lambda>b.
        build_spec L ReconstructRotKeyFromAVectors [c, a] [b] ''b-vectors are required'' ''b-only rotation-key reconstruction from cached a failed'')"
  have "vcomputes ?J [] H (vbind (cached_a L resolve (kr_ARef ref)) (\<lambda>h. vlift (?rb h))) (obind (avec_spec L resolve (kr_ARef ref)) ?rs) (handle RotKeyHandle) []"
    if pair: "kr_ARef ref \<noteq> []"
    unfolding vcomputes_iff_vstep append_Nil
  proof (intro allI, rule vstep_vbind [OF vstep_cached_a])
    show "avec_readable L resolve (kr_ARef ref)" using readable pair by (simp add: ref_readable_def)
    fix h a v assume a: "avec_spec L resolve (kr_ARef ref) = Ok a"
    show "vstep (if map_of v (kr_ARef ref) = Some h then ?J v else never) H (vlift (?rb h) v) (?rs a) (\<lambda>a w v'. handle RotKeyHandle a w @ ?J v') ?J"
    proof (cases "map_of v (kr_ARef ref) = Some h \<and> (\<forall>rh \<in> set v. is_ok (avec_spec L resolve (fst rh)))")
      case True
      then have "(kr_ARef ref, h) \<in> set v" by (auto dest: map_of_SomeD)
      then have h: "(h, exactly AVectorsHandle a) \<in> set (?J v)" using True a by (force simp: cache_cells_def)
      have "computes [] (?J v @ H) (?rb h) (?rs a) (handle RotKeyHandle) []"
        using ctx h by (intro computes_val_nil computes_relabel computes_nresolve, unfold reconstructRotKeyFromAVectors_def, intro computes_c_build) simp_all
      then show ?thesis using True by (auto intro!: vstep_vlift dest!: computes_lend_nil)
    qed (auto simp: cache_cells_def intro: vstep_absurd)
  qed
  then show ?thesis
    unfolding resolveKeyRefCached_def load_spec_def
    by (simp add: vcomputes_vlift computes_full_key [OF ctx] computes_nfail)
qed

text \<open>The references that the validator hands on are the caller's.\<close>

lemma keyed_readable:
  assumes "refs_readable L resolve refs" "validateIndexedEvalSumShareRefs refs = Inr (indices, keyed)" "p = 0 \<or> p < length keyed"
  shows "ref_readable L resolve (keyed_at no_ref keyed p i)"
proof -
  have keyed: "keyed = map (map (\<lambda>s. (kr_Index s, s))) refs" "refs \<noteq> []"
    using assms(2) by (simp_all add: validateIndexedEvalSumShareRefs_def validate_shares_iff)
  then have p: "p < length refs" using assms(3) by auto
  have "ref_readable L resolve ref" if "map_of (keyed ! p) i = Some ref" for ref
    using assms(1) [unfolded refs_readable_def, rule_format, OF nth_mem [OF p]] that p by (auto simp: keyed dest!: map_of_SomeD)
  moreover have "ref_readable L resolve no_ref" by (simp add: ref_readable_def no_ref_def)
  ultimately show ?thesis by (auto simp: keyed_at_def split: option.split)
qed

lemma triple_free_cache: "triple (cache_cells L resolve v) H (free_cache v) (\<lambda>_. [])"
proof (cases "\<forall>rh \<in> set v. is_ok (avec_spec L resolve (fst rh))")
  case True
  then have "entails (cache_cells L resolve v) (kinds (handles AVectorsHandle (map snd v)))"
    by (simp add: cache_cells_def entails_def kinds_def list_all2_conv_all_nth is_kind_def)
  then show ?thesis unfolding free_cache_def by (rule triple_pre [OF triple_free_all])
next
  case False
  then have "cache_cells L resolve v = never" unfolding cache_cells_def by (rule if_not_P)
  then show ?thesis by (simp add: triple_absurd)
qed

lemma free_cache_ok: "free_cache v s = Some (r, s') \<Longrightarrow> ns_fault s' = ns_fault s \<Longrightarrow> is_ok r"
  unfolding free_cache_def by (rule free_all_ok)

definition per_index_spec :: "('o, 'g) openfhe \<Rightarrow> 'o \<Rightarrow> bytes list \<Rightarrow> indexed_key list list \<Rightarrow> (string, bytes) outcome" where
  "per_index_spec L c publicKeys byParty =
     (case validateIndexedEvalSumShares byParty of
        Inl e \<Rightarrow> Err e
      | Inr (indices, keyed) \<Rightarrow>
          combine_spec L (index_spec L c ''deserialize'' (\<lambda>p i. rot_spec L c (keyed_at [] keyed p i)) publicKeys (length keyed)) indices)"

definition per_index_lazy_spec :: "('o, 'g) openfhe \<Rightarrow> 'o \<Rightarrow> bytes list \<Rightarrow> key_ref list list \<Rightarrow> resolver \<Rightarrow> (string, bytes) outcome" where
  "per_index_lazy_spec L c publicKeys byParty resolve =
     (case validateIndexedEvalSumShareRefs byParty of
        Inl e \<Rightarrow> Err e
      | Inr (indices, keyed) \<Rightarrow>
          combine_spec L (index_spec L c ''load'' (\<lambda>p i. load_spec L c resolve (keyed_at no_ref keyed p i)) publicKeys (length keyed)) indices)"

lemma validated_length:
  "validateIndexedEvalSumShares byParty = Inr (indices, keyed) \<Longrightarrow> length keyed = length byParty"
  "validateIndexedEvalSumShareRefs refs = Inr (indices, keyed') \<Longrightarrow> length keyed' = length refs"
  by (auto simp: validateIndexedEvalSumShares_def validateIndexedEvalSumShareRefs_def validate_shares_iff)

lemma computes_per_index:
  assumes "ctx_in ctx c H" "length byParty \<le> length pks"
  shows "computes [] H (combineEvalSumPerIndex L ctx pks byParty) (per_index_spec L c pks byParty) same []"
proof (cases "validateIndexedEvalSumShares byParty")
  case (Inr ik)
  obtain indices keyed where ik: "ik = (indices, keyed)" by fastforce
  have n: "length keyed \<le> length pks" using validated_length(1) Inr assms(2) unfolding ik by simp
  let ?load = "\<lambda>p i. vlift (deserializeRotKey L ctx (keyed_at [] keyed p i))"
  have "vcomputes (\<lambda>_. []) [] H (index_accum L ctx ''deserialize'' ?load pks (length keyed) index)
      (index_spec L c ''deserialize'' (\<lambda>p i. rot_spec L c (keyed_at [] keyed p i)) pks (length keyed) index) (handle RotKeyHandle) []" for index
    by (rule vcomputes_index_accum [OF assms(1) _ _ n]) (simp_all add: vcomputes_vlift computes_deserialize assms(1))
  then have "computes [] H (vrun (combine_indices L (index_accum L ctx ''deserialize'' ?load pks (length keyed)) indices))
      (combine_spec L (index_spec L c ''deserialize'' (\<lambda>p i. rot_spec L c (keyed_at [] keyed p i)) pks (length keyed)) indices) same []"
    by (intro computes_vrun vcomputes_combine_indices)
  then show ?thesis by (simp add: combineEvalSumPerIndex_def per_index_spec_def Inr ik)
qed (simp add: combineEvalSumPerIndex_def per_index_spec_def computes_nfail)

lemma vcomputes_lazy_accum:
  assumes "ctx_in ctx c H" "length keyed \<le> length pks"
    and "\<And>p. p = 0 \<or> p < length keyed \<Longrightarrow> ref_readable L resolve (keyed_at no_ref keyed p index)"
  shows "vcomputes (cache_cells L resolve) [] H (lazy_accum L ctx resolve pks keyed index)
      (index_spec L c ''load'' (\<lambda>p i. load_spec L c resolve (keyed_at no_ref keyed p i)) pks (length keyed) index) (handle RotKeyHandle) []"
  unfolding lazy_accum_def
  by (rule vcomputes_index_accum) (simp_all add: assms vcomputes_cached)

lemma computes_per_index_lazy:
  assumes "ctx_in ctx c H" "length byParty \<le> length pks" "refs_readable L resolve byParty"
  shows "computes [] H (combineEvalSumPerIndexLazy L ctx pks byParty resolve) (per_index_lazy_spec L c pks byParty resolve) same []"
proof (cases "validateIndexedEvalSumShareRefs byParty")
  case (Inr ik)
  obtain indices keyed where ik: "ik = (indices, keyed)" by fastforce
  have n: "length keyed \<le> length pks" using validated_length(2) Inr assms(2) unfolding ik by simp
  have "computes [] H (vscope [] free_cache (combine_indices L (lazy_accum L ctx resolve pks keyed) indices))
      (combine_spec L (index_spec L c ''load'' (\<lambda>p i. load_spec L c resolve (keyed_at no_ref keyed p i)) pks (length keyed)) indices) same []"
    by (intro computes_vscope [where J = "cache_cells L resolve"] vcomputes_combine_indices vcomputes_lazy_accum assms n triple_free_cache
        keyed_readable [OF assms(3) Inr [unfolded ik]])
      (auto simp: cache_cells_def intro: free_cache_ok)
  then show ?thesis by (simp add: combineEvalSumPerIndexLazy_def per_index_lazy_spec_def Inr ik)
qed (simp add: combineEvalSumPerIndexLazy_def per_index_lazy_spec_def computes_nfail)

section \<open>The cache is invisible\<close>

definition ok_value :: "('e, 'a) outcome \<Rightarrow> 'a option" where
  "ok_value r = (case r of Ok a \<Rightarrow> Some a | _ \<Rightarrow> None)"

lemma ok_value_simps [simp]: "ok_value (Ok a) = Some a" "ok_value (Err e) = None" "ok_value (Panic p) = None"
  "ok_value (olabel lbl r) = ok_value r" "ok_value (orequire msg v) = v"
  subgoal by (simp add: ok_value_def)
  subgoal by (simp add: ok_value_def)
  subgoal by (simp add: ok_value_def)
  subgoal by (cases r) (simp_all add: ok_value_def)
  subgoal by (cases v) (simp_all add: ok_value_def)
  done

lemma ok_value_obind: "ok_value (obind r f) = Option.bind (ok_value r) (\<lambda>a. ok_value (f a))"
  by (cases r) simp_all

lemma ok_value_ofold:
  "(\<And>i v. i \<in> set is \<Longrightarrow> ok_value (f i v) = ok_value (g i v)) \<Longrightarrow> ok_value (ofold f is v) = ok_value (ofold g is v)"
proof (induction "is" arbitrary: v)
  case (Cons i "is")
  then show ?case by (simp add: ok_value_obind cong: Option.bind_cong)
qed simp

lemma ok_value_upd: "ok_value (upd_spec L op cs v msg) = (if fst (lib_upd L op cs v) then Some (snd (lib_upd L op cs v)) else None)"
  by (simp add: upd_spec_def)

lemma ok_value_fold: "ok_value (fold_spec L c pk share msg acc) =
   Option.bind (ok_value pk) (\<lambda>pk. Option.bind (ok_value share) (\<lambda>share.
     if fst (lib_upd L EvalSumCombineFold [c, pk, share] acc) then Some (snd (lib_upd L EvalSumCombineFold [c, pk, share] acc)) else None))"
  unfolding fold_spec_def ok_value_obind ok_value_upd ..

lemma ok_value_index:
  assumes "\<And>p. p < n \<Longrightarrow> ok_value (load p i) = ok_value (load' p i)" "0 < n"
  shows "ok_value (index_spec L c verb load pks n i) = ok_value (index_spec L c verb' load' pks n i)"
  unfolding index_spec_def ok_value_obind ok_value_simps start_spec_def
  by (intro Option.bind_cong ok_value_ofold refl) (use assms in \<open>simp_all add: ok_value_fold\<close>)

lemma ok_value_combine:
  assumes "\<And>i. i \<in> set is \<Longrightarrow> ok_value (idx i) = ok_value (idx' i)"
  shows "ok_value (combine_spec L idx is) = ok_value (combine_spec L idx' is)"
proof (cases "is")
  case (Cons i rest)
  have "ok_value (merge_spec L idx rest fin) = ok_value (merge_spec L idx' rest fin)" for fin
    unfolding merge_spec_def by (rule ok_value_ofold) (use assms Cons in \<open>simp add: ok_value_obind\<close>)
  then show ?thesis using assms Cons by (simp add: ok_value_obind)
qed simp

lemma keyed_at_map:
  assumes "p < length parties" "s \<in> set (parties ! p)" "distinct (map ix (parties ! p))"
  shows "keyed_at d (map (map (\<lambda>s. (ix s, val s))) parties) p (ix s) = val s"
proof -
  have "map_of (map (\<lambda>s. (ix s, val s)) (parties ! p)) (ix s) = Some (val s)"
    by (rule map_of_is_SomeI) (use assms in \<open>auto simp: comp_def\<close>)
  then show ?thesis using assms(1) by (simp add: keyed_at_def)
qed

text \<open>A reference stands for a key when its full form resolves to it, or it resolves to two halves, the first of them readable, that rebuild it.\<close>

definition resolves_to :: "('o, 'g) openfhe \<Rightarrow> 'o \<Rightarrow> resolver \<Rightarrow> key_ref \<Rightarrow> bytes \<Rightarrow> bool" where
  "resolves_to L c resolve ref key \<longleftrightarrow>
     key \<noteq> [] \<and>
     (kr_Ref ref \<noteq> [] \<and> kr_ARef ref = [] \<and> kr_BRef ref = [] \<and> resolve (kr_Ref ref) = Inr key \<or>
      kr_Ref ref = [] \<and> kr_ARef ref \<noteq> [] \<and> kr_BRef ref \<noteq> [] \<and>
      (\<exists>a b. resolve (kr_ARef ref) = Inr a \<and> resolve (kr_BRef ref) = Inr b \<and> a \<noteq> [] \<and> b \<noteq> [] \<and>
             lib_fun L DeserializeAVectors [] [a] \<noteq> None \<and>
             lib_fun L ReconstructRotKeyFromAB [c] [a, b] = lib_fun L DeserializeRotKey [c] [key]))"

lemma resolves_readable: "resolves_to L c resolve ref key \<Longrightarrow> ref_readable L resolve ref"
  by (auto simp: resolves_to_def ref_readable_def avec_readable_def)

context rotation_library
begin

lemma reconstruct_bind:
  "lib_fun L ReconstructRotKeyFromAB [c] [a, b] =
     Option.bind (lib_fun L DeserializeAVectors [] [a]) (\<lambda>amap. lib_fun L ReconstructRotKeyFromAVectors [c, amap] [b])"
  by (simp add: reconstruct split: option.split)

lemma resolves_to_load: "resolves_to L c resolve ref key \<Longrightarrow> ok_value (load_spec L c resolve ref) = ok_value (rot_spec L c key)"
  by (auto simp: resolves_to_def load_spec_def full_spec_def avec_spec_def res_spec_def rot_spec_def build_spec_def reconstruct_bind ok_value_obind)

text \<open>The cached form of a pair of references loads what the form without a cache loads.\<close>

definition uncached_spec :: "'o \<Rightarrow> resolver \<Rightarrow> key_ref \<Rightarrow> (string, 'o) outcome" where
  "uncached_spec c resolve ref =
     (if kr_Ref ref \<noteq> [] \<and> kr_ARef ref = [] \<and> kr_BRef ref = [] then full_spec L c resolve (kr_Ref ref)
      else if kr_Ref ref = [] \<and> kr_ARef ref \<noteq> [] \<and> kr_BRef ref \<noteq> [] then
        obind (olabel ''resolve a-vector ref'' (res_spec resolve (kr_ARef ref))) (\<lambda>a.
        obind (olabel ''resolve b-vector ref'' (res_spec resolve (kr_BRef ref))) (\<lambda>b.
        build_spec L ReconstructRotKeyFromAB [c] [a, b] ''both a-vectors and b-vectors are required'' ''b-only rotation-key reconstruction failed''))
      else Err ''eval-sum ref must contain either full ref or a/b refs'')"

lemma uncached_load: "ok_value (uncached_spec c resolve ref) = ok_value (load_spec L c resolve ref)"
  by (auto simp: uncached_spec_def load_spec_def avec_spec_def build_spec_def reconstruct_bind ok_value_obind res_spec_def split: sum.split)

lemma lazy_is_eager:
  assumes ref: "\<And>ref. ref \<in> \<Union> (set ` set refs) \<Longrightarrow> resolves_to L c resolve ref (key ref)"
  shows "ok_value (per_index_lazy_spec L c pks refs resolve) =
     ok_value (per_index_spec L c pks (map (map (\<lambda>ref. \<lparr> ik_Index = kr_Index ref, ik_Key = key ref \<rparr>)) refs))"
proof -
  let ?K = "\<lambda>ref. \<lparr> ik_Index = kr_Index ref, ik_Key = key ref \<rparr>"
  let ?keys = "map (map ?K) refs" and ?I = "kr_Index ` set (hd refs)"
  have ok: "validIndexedEvalSumKeyRef ref \<and> key ref \<noteq> []" if "ref \<in> \<Union> (set ` set refs)" for ref
    using ref [OF that] by (auto simp: resolves_to_def validIndexedEvalSumKeyRef_def)
  have wf: "well_formed_parties ik_Index (\<lambda>s. ik_Key s \<noteq> []) ?I ?keys \<longleftrightarrow> well_formed_parties kr_Index validIndexedEvalSumKeyRef ?I refs"
    using ok by (fastforce simp: well_formed_parties_def image_image comp_def)
  have hd: "refs \<noteq> [] \<Longrightarrow> hd ?keys = map ?K (hd refs)" by (cases refs) simp_all
  show ?thesis
  proof (cases "refs \<noteq> [] \<and> well_formed_parties kr_Index validIndexedEvalSumKeyRef ?I refs")
    case True
    let ?ks = "map (map (\<lambda>s. (kr_Index s, s))) refs" and ?ks' = "map (map (\<lambda>s. (ik_Index s, ik_Key s))) ?keys"
    have v1: "validateIndexedEvalSumShareRefs refs = Inr (map kr_Index (hd refs), ?ks)"
      using True by (simp add: validateIndexedEvalSumShareRefs_def validate_shares_iff)
    have v2: "validateIndexedEvalSumShares ?keys = Inr (map kr_Index (hd refs), ?ks')"
      using True wf hd by (simp add: validateIndexedEvalSumShares_def validate_shares_iff image_image comp_def)
    have load: "ok_value (load_spec L c resolve (keyed_at no_ref ?ks p i)) = ok_value (rot_spec L c (keyed_at [] ?ks' p i))"
      if p: "p < length refs" and i: "i \<in> set (map kr_Index (hd refs))" for p i
    proof -
      have d: "distinct (map kr_Index (refs ! p))" and I: "kr_Index ` set (refs ! p) = ?I"
        using True nth_mem [OF p] unfolding well_formed_parties_def by blast+
      have "i \<in> kr_Index ` set (refs ! p)" unfolding I using i by simp
      then obtain s where s: "s \<in> set (refs ! p)" "i = kr_Index s" by auto
      have "keyed_at no_ref ?ks p i = s" unfolding s(2) by (rule keyed_at_map [OF p s(1) d])
      moreover have "keyed_at [] ?ks' p i = key s"
      proof -
        have "keyed_at [] ?ks' p (ik_Index (?K s)) = ik_Key (?K s)"
          by (rule keyed_at_map) (use p s d in \<open>simp_all add: comp_def\<close>)
        then show ?thesis by (simp add: s(2))
      qed
      moreover have "s \<in> \<Union> (set ` set refs)" using s(1) p by (intro UN_I [of "refs ! p"]) simp_all
      ultimately show ?thesis using resolves_to_load [OF ref] by simp
    qed
    have "ok_value (index_spec L c ''load'' (\<lambda>p i. load_spec L c resolve (keyed_at no_ref ?ks p i)) pks (length ?ks) i) =
        ok_value (index_spec L c ''deserialize'' (\<lambda>p i. rot_spec L c (keyed_at [] ?ks' p i)) pks (length ?ks') i)" if "i \<in> set (map kr_Index (hd refs))" for i
      unfolding length_map by (rule ok_value_index) (use load that True in simp_all)
    then show ?thesis
      unfolding per_index_lazy_spec_def per_index_spec_def v1 v2 by (simp only: sum.case prod.case, intro ok_value_combine)
  next
    case False
    then have n1: "validateIndexedEvalSumShareRefs refs \<noteq> Inr ik" for ik
      by (cases ik) (auto simp: validateIndexedEvalSumShareRefs_def validate_shares_iff)
    have n2: "validateIndexedEvalSumShares ?keys \<noteq> Inr ik" for ik
    proof
      assume "validateIndexedEvalSumShares ?keys = Inr ik"
      then have k: "refs \<noteq> []" "well_formed_parties ik_Index (\<lambda>s. ik_Key s \<noteq> []) (ik_Index ` set (hd ?keys)) ?keys"
        by (cases ik; simp add: validateIndexedEvalSumShares_def validate_shares_iff)+
      have I: "ik_Index ` set (hd ?keys) = ?I" unfolding hd [OF k(1)] by (simp add: image_image)
      show False using k(1) k(2) [unfolded I wf] False by blast
    qed
    obtain e where "validateIndexedEvalSumShareRefs refs = Inl e" using n1 by (cases "validateIndexedEvalSumShareRefs refs") auto
    moreover obtain e' where "validateIndexedEvalSumShares ?keys = Inl e'" using n2 by (cases "validateIndexedEvalSumShares ?keys") auto
    ultimately show ?thesis by (auto simp: per_index_lazy_spec_def per_index_spec_def)
  qed
qed

end

end
