(* ===== verification/Bridge_Round1.thy ===== *)
theory Bridge_Round1
  imports Bridge_Index
begin

text \<open>
  The combiners own what they make: round 1 of the joint keys in all its forms, the insertion of per-index keys into a
  context, and the fold object. The statements about the bridge that the development records are at the end.
\<close>

section \<open>Ownership of the combiners\<close>

lemma secure_combiners [secure_intros]:
  assumes "(ctx, CryptoContextHandle) \<in> set H"
  shows "shares \<noteq> [] \<Longrightarrow> length shares \<le> length pks \<Longrightarrow> secure H nothing (combineEvalSumIncremental L ctx pks shares)"
    "shares \<noteq> [] \<Longrightarrow> length shares \<le> length pks \<Longrightarrow> secure H nothing (combineEvalSumAllAtOnce L ctx pks shares)"
    "length byParty \<le> length pks \<Longrightarrow> secure H nothing (combineEvalSumPerIndex L ctx pks byParty)"
    "length refs \<le> length pks \<Longrightarrow> refs_readable L resolve refs \<Longrightarrow> secure H nothing (combineEvalSumPerIndexLazy L ctx pks refs resolve)"
  subgoal by (rule secure_computes [OF computes_incremental assms]) simp_all
  subgoal by (rule secure_computes [OF computes_all_at_once assms]) simp_all
  subgoal by (rule secure_computes [OF computes_per_index assms]) simp_all
  subgoal by (rule secure_computes [OF computes_per_index_lazy assms]) simp_all
  done

lemma computes_incremental_lazy:
  assumes ctx: "ctx_in ctx c H"
  shows "computes [] H (combineEvalSumIncrementalLazy L ctx pks refs (Some resolve))
     (if length pks \<noteq> length refs \<or> refs = [] then Err ''public-key and eval-sum share counts must match and be non-empty''
      else incremental_spec L c pks (length refs) (\<lambda>i.
             obind (olabel (''resolve eval-sum share '' @ dec_nat i) (res_spec resolve (refs ! i))) (rot_spec L c))) same []"
proof (cases "length pks \<noteq> length refs \<or> refs = []")
  case False
  then show ?thesis
    unfolding combineEvalSumIncrementalLazy_def
    using ctx by (auto intro!: computes_fold_from computes_val_nil computes_relabel computes_nresolve computes_deserialize)
qed (auto simp: combineEvalSumIncrementalLazy_def computes_nfail)

lemma secure_incremental_lazy [secure_intros]:
  "(ctx, CryptoContextHandle) \<in> set H \<Longrightarrow> secure H nothing (combineEvalSumIncrementalLazy L ctx pks refs resolve)"
proof (cases resolve)
  case None
  then show ?thesis by (simp add: combineEvalSumIncrementalLazy_def secure_nfail)
next
  case (Some res)
  assume x: "(ctx, CryptoContextHandle) \<in> set H"
  show ?thesis unfolding Some by (rule secure_computes [OF computes_incremental_lazy x]) simp_all
qed

text \<open>A list of keys that was read is as long as the list of bytes.\<close>

lemma deserialize_all_length: "deserialize_all f k lbl i hs raws s = Some (Ok xs, s') \<Longrightarrow> length xs = length hs + length raws"
proof (induction raws arbitrary: i hs s)
  case (Cons raw raws)
  then show ?case by (auto simp: nbind_def split: option.splits outcome.splits prod.splits)
qed (simp add: nret_def)

lemma secure_scoped_all_length:
  assumes m: "secure H (handles k) m" and n: "\<And>s xs s'. m s = Some (Ok xs, s') \<Longrightarrow> length xs = n"
    and body: "\<And>xs. length xs = n \<Longrightarrow> secure (handles k xs @ H) own (body xs)"
  shows "secure H own (scoped_all m k body)"
  unfolding secure_def scoped_all_def
proof (rule triple_scope [where ?own1.0 = "\<lambda>xs. if length xs = n then kinds (handles k xs) else never"])
  show "triple [] (kinds H) m (owned (\<lambda>xs. if length xs = n then kinds (handles k xs) else never))"
    using m unfolding secure_def
  proof (rule triple_post)
    fix s r s' assume "m s = Some (r, s')"
    then show "owned (\<lambda>xs. if length xs = n then kinds (handles k xs) else never) r = owned (\<lambda>xs. kinds (handles k xs)) r"
      using n by (cases r) auto
  qed
  fix xs :: "nat list"
  show "triple [] ((if length xs = n then kinds (handles k xs) else never) @ kinds H) (body xs) (owned (\<lambda>a. kinds (own a)))"
  proof (cases "length xs = n")
    case False
    then show ?thesis by (auto simp: triple_def owns_def never_def live_def)
  qed (use body [of xs] in \<open>simp add: secure_def\<close>)
  show "triple (if length xs = n then kinds (handles k xs) else never) (kinds H) (free_all k xs) (\<lambda>_. [])"
    by (simp add: triple_free_all triple_absurd)
qed (rule free_all_ok)

lemma secure_switch_joined [secure_intros]:
  assumes ctx: "(ctx, CryptoContextHandle) \<in> set H" and n: "pks \<noteq> []" "length pks = length ms"
    and rest: "\<And>H bs. (ctx, CryptoContextHandle) \<in> set H \<Longrightarrow> secure H nothing (rest bs)"
  shows "secure H nothing (switch_joined L sch ctx pks ms rest)"
  unfolding switch_joined_def
proof (rule secure_scoped_all_length [where n = "length pks"], goal_cases)
  case 1
  show ?case using ctx by (rule secure_deserialize_lists)
next
  case (2 s xs s')
  then show ?case by (auto simp: deserializePublicKeys_def dest: deserialize_all_length)
next
  case pk: (3 pkh)
  show ?case
  proof (rule secure_scoped_all_length [where n = "length pks"], goal_cases)
    case 1
    show ?case using ctx by (intro secure_deserialize_lists) simp
  next
    case (2 s xs s')
    then show ?case using n by (auto simp: deserializeEvalMultKeys_def dest: deserialize_all_length)
  next
    case m: (3 mh)
    have "secure (handles EvalMultKeyHandle mh @ handles PublicKeyHandle pkh @ H) (\<lambda>x. [(x, EvalMultKeyHandle)]) (combine_mult_switch L sch ctx pkh mh)"
      using pk m n ctx unfolding combine_mult_switch_def by (auto intro!: secure_c_build)
    then show ?case using ctx by (intro secure_scoped secure_nbind secure_serialize rest) simp_all
  qed
qed

lemma secure_combine_round1 [secure_intros]:
  assumes "(ctx, CryptoContextHandle) \<in> set H" "pks \<noteq> []" "length pks = length ms"
    and "\<And>H. (ctx, CryptoContextHandle) \<in> set H \<Longrightarrow> secure H nothing sumPart"
  shows "secure H nothing (combine_round1 L sch ctx pks ms sumPart)"
  unfolding combine_round1_def using assms by (intro secure_intros) auto

lemma counts_matchD: "counts_match a b c \<Longrightarrow> a \<noteq> [] \<and> length a = length b \<and> c \<noteq> [] \<and> length c = length a"
  by (auto simp: counts_match_def)

lemma secure_round1_per_index [secure_intros]:
  assumes "(ctx, CryptoContextHandle) \<in> set H"
  shows "secure H nothing (combineEvalKeyRound1PerIndex L ctx pks ms byParty)"
    "refs_readable L resolve refs \<Longrightarrow> secure H nothing (combineEvalKeyRound1PerIndexLazy L ctx pks ms refs resolve)"
  unfolding combineEvalKeyRound1PerIndex_def combineEvalKeyRound1PerIndexLazy_def
  using assms by (auto intro!: secure_intros dest!: counts_matchD)

text \<open>The resolver is a Go function value, which may be nil.\<close>

definition given_readable :: "('o, 'g) openfhe \<Rightarrow> resolver option \<Rightarrow> key_ref list list \<Rightarrow> bool" where
  "given_readable L resolve refs \<longleftrightarrow> (case resolve of None \<Rightarrow> True | Some res \<Rightarrow> refs_readable L res refs)"

lemma given_readable_simps [simp]: "given_readable L None refs" "given_readable L (Some res) refs = refs_readable L res refs"
  by (simp_all add: given_readable_def)

lemma balanced_round1:
  "batch_ok ps \<Longrightarrow> balanced (CombineEvalKeyRound1 L ps pks ms shares)"
  "balanced (BFVCombineEvalKeyRound1 L bs pks ms shares)"
  "balanced (BFVCombineEvalKeyRound1Lazy L bs pks ms refs resolve)"
  "batch_ok ps \<Longrightarrow> given_readable L resolve byParty \<Longrightarrow> balanced (CombineEvalKeyRound1PerIndexLazy L ps pks ms byParty resolve)"
  "given_readable L resolve byParty \<Longrightarrow> balanced (BFVCombineEvalKeyRound1PerIndexLazy L bs pks ms byParty resolve)"
  "batch_ok ps \<Longrightarrow> balanced (CombineEvalMultSwitchShares L ps pks ms)"
  "batch_ok ps \<Longrightarrow> balanced (CombineEvalSumSharesIncremental L ps pks shares)"
  "batch_ok ps \<Longrightarrow> balanced (runIncrementalCombineCheck L ps)"
  unfolding balanced_def CombineEvalKeyRound1_def BFVCombineEvalKeyRound1_def BFVCombineEvalKeyRound1Lazy_def
    CombineEvalKeyRound1PerIndexLazy_def BFVCombineEvalKeyRound1PerIndexLazy_def CombineEvalMultSwitchShares_def
    CombineEvalSumSharesIncremental_def
  subgoal by (auto intro!: secure_intros dest!: counts_matchD)
  subgoal by (auto intro!: secure_intros dest!: counts_matchD)
  subgoal by (auto intro!: secure_intros dest!: counts_matchD)
  subgoal by (auto intro!: secure_intros dest!: counts_matchD split: option.splits)
  subgoal by (auto intro!: secure_intros dest!: counts_matchD split: option.splits)
  subgoal by (auto intro!: secure_intros)
  subgoal by (auto intro!: secure_intros)
  subgoal unfolding runIncrementalCombineCheck_def by (intro secure_intros) auto
  done

section \<open>Inserting per-index keys into a context\<close>

text \<open>The insertion changes the library's own cache of keys, so only ownership is stated of the loop.\<close>

definition vsecure :: "('v \<Rightarrow> 'o assn) \<Rightarrow> 'o assn \<Rightarrow> ('a \<Rightarrow> 'o assn) \<Rightarrow> ('o, 'g, 'v, 'a) vprog \<Rightarrow> bool" where
  "vsecure J H own m \<longleftrightarrow> (\<forall>v. triple (J v) H (m v) (\<lambda>x. case x of Ok (r, v') \<Rightarrow> owned own r @ J v' | _ \<Rightarrow> never))"

lemma triple_c_insert:
  assumes "holds H args cs" shows "triple [] H (c_insert L op args msg) (\<lambda>_. [])"
proof -
  have "triple [] H (peeks args) (\<lambda>_. [])"
    using computes_peeks [OF assms] unfolding computes_def
    by (rule triple_never) (rename_tac r, case_tac r; simp add: same_def)
  then show ?thesis
    unfolding c_insert_def c_act_def
    by (intro triple_bind [where Q = "\<lambda>_. []"] triple_with_world) (auto intro: triple_nret triple_nfail)
qed

lemma vsecure_insert_indices:
  fixes accum_of :: "int \<Rightarrow> ('o, 'g, 'v, nat) vprog"
  assumes idx: "\<And>index. vcomputes J [] H (accum_of index) (idx index) (handle RotKeyHandle) []" and ctx: "ctx_in ctx c H"
  shows "vsecure J H (\<lambda>_. []) (insert_indices L ctx accum_of is)"
  unfolding vsecure_def
proof (induction "is")
  case Nil
  show ?case by (auto simp: vlift_def nret_def triple_def moved_refl)
next
  case (Cons index "is")
  show ?case
  proof
    fix v
    let ?ins = "\<lambda>accum. freeing RotKeyHandle accum (c_insert L InsertEvalSumKeyAppend [(ctx, CryptoContextHandle), (accum, RotKeyHandle)]
                     (''insert eval-sum index '' @ dec_int index @ '' failed''))"
    let ?Q = "\<lambda>x :: (string, (string, unit) outcome \<times> 'v) outcome. case x of Ok (r, v') \<Rightarrow> owned (\<lambda>_. []) r @ J v' | _ \<Rightarrow> never"
    have ins: "triple (handle RotKeyHandle accum acc @ J v) H (vbind (vlift (?ins accum)) (\<lambda>_. insert_indices L ctx accum_of is) v) ?Q" for accum acc v
    proof -
      have "triple [] ((accum, exactly RotKeyHandle acc) # H) (c_insert L InsertEvalSumKeyAppend [(ctx, CryptoContextHandle), (accum, RotKeyHandle)]
                     (''insert eval-sum index '' @ dec_int index @ '' failed'')) (\<lambda>_. [])"
        using ctx by (intro triple_c_insert [where cs = "[c, acc]"]) auto
      then have "triple (handle RotKeyHandle accum acc) H (?ins accum) (\<lambda>_. [])"
        by (rule triple_freeing) (auto simp: c_insert_def intro!: steady_calm steady_intros)
      then have "triple (handle RotKeyHandle accum acc @ J v) H (?ins accum) (\<lambda>_. [] @ J v)"
        by (rule triple_frame)
      then have "triple (handle RotKeyHandle accum acc @ J v) H (vlift (?ins accum) v) (\<lambda>x. case x of Ok (r, v') \<Rightarrow> J v' | _ \<Rightarrow> never)"
        unfolding triple_def vlift_def by fastforce
      then show ?thesis
        unfolding vbind_def
      proof (rule triple_bind)
        fix y :: "(string, unit) outcome \<times> 'v"
        obtain r v' where y: "y = (r, v')" by fastforce
        show "triple (case Ok y of Ok (r, v') \<Rightarrow> J v' | _ \<Rightarrow> never) H
            (case y of (r, v') \<Rightarrow> case r of Ok a \<Rightarrow> insert_indices L ctx accum_of is v' | Err e \<Rightarrow> nret (Err e, v') | Panic p \<Rightarrow> nret (Panic p, v')) ?Q"
          using Cons.IH by (cases r) (auto simp: y intro: triple_nil_nret)
      qed simp_all
    qed
    have "triple ([] @ J v) H (nbind (accum_of index v) (\<lambda>(r, v'). case r of
         Ok accum \<Rightarrow> vbind (vlift (?ins accum)) (\<lambda>_. insert_indices L ctx accum_of is) v' | Err e \<Rightarrow> nret (Err e, v') | Panic p \<Rightarrow> nret (Panic p, v'))) ?Q"
    proof (rule vcomputes_after [OF idx])
      fix r :: "(string, nat) outcome" and v'
      show "triple (post (handle RotKeyHandle) [] (idx index) r @ J v') H (case r of
         Ok accum \<Rightarrow> vbind (vlift (?ins accum)) (\<lambda>_. insert_indices L ctx accum_of is) v' | Err e \<Rightarrow> nret (Err e, v') | Panic p \<Rightarrow> nret (Panic p, v')) ?Q"
        using ins by (cases "idx index"; cases r) (auto intro: triple_absurd triple_nil_nret)
    qed simp_all
    then show "triple (J v) H (insert_indices L ctx accum_of (index # is) v) ?Q"
      unfolding insert_indices.simps vbind_def [of "accum_of index"] append_Nil .
  qed
qed

lemma secure_insertEvalSumPerIndexLazy [secure_intros]:
  assumes ctx: "(ctx, CryptoContextHandle) \<in> set H" and readable: "given_readable L resolve refs"
  shows "secure H nothing (insertEvalSumPerIndexLazy L ctx pks refs resolve)"
proof (cases "validateIndexedEvalSumShareRefs refs")
  case (Inr ik)
  obtain indices keyed where ik: "ik = (indices, keyed)" by fastforce
  have scope: "secure H nothing (vscope [] free_cache (insert_indices L ctx (lazy_accum L ctx res pks keyed) indices))"
    if n: "length pks = length keyed" and res: "resolve = Some res" for res
    unfolding secure_def
  proof (rule triple_borrow [OF _ ctx])
    fix cell :: "'a cell" assume "cell_kind cell = CryptoContextHandle"
    then obtain c where c: "cell = Obj CryptoContextHandle c" by (cases cell) auto
    let ?H = "handle CryptoContextHandle ctx c" and ?J = "cache_cells L res"
    have nil: "?J [] = []" by (simp add: cache_cells_def)
    have "vsecure ?J ?H (\<lambda>_. []) (insert_indices L ctx (lazy_accum L ctx res pks keyed) indices)"
      using readable n Inr unfolding res ik
      by (intro vsecure_insert_indices [OF vcomputes_lazy_accum] keyed_readable) simp_all
    then have body: "triple [] ?H (insert_indices L ctx (lazy_accum L ctx res pks keyed) indices []) (\<lambda>x. case x of Ok (r, v') \<Rightarrow> owned (\<lambda>_. []) r @ ?J v' | _ \<Rightarrow> never)"
      unfolding vsecure_def by (metis nil)
    show "triple [] [(ctx, \<lambda>c'. c' = cell)] (vscope [] free_cache (insert_indices L ctx (lazy_accum L ctx res pks keyed) indices)) (owned (\<lambda>_. kinds []))"
      unfolding c vscope_def
    proof (rule triple_bind_total [OF body])
      fix x :: "(string, unit) outcome \<times> acache"
      obtain r v where x: "x = (r, v)" by fastforce
      have none: "owned (\<lambda>_. []) = (\<lambda>_ :: (string, unit) outcome. ([] :: 'a assn))"
        by (simp add: fun_eq_iff owned_def split: outcome.split)
      have "triple (?J v) ?H (deferring (free_cache v) (\<lambda>s. Some (r, s))) (\<lambda>_. [])"
        by (rule triple_deferring [where Q = "\<lambda>_. ?J v", OF _ triple_free_cache]) (simp add: triple_def moved_refl, erule (1) free_cache_ok)
      then show "triple (case Ok x of Ok (r, v') \<Rightarrow> owned (\<lambda>_. []) r @ ?J v' | _ \<Rightarrow> never) ?H
          (case x of (r, v') \<Rightarrow> deferring (free_cache v') (\<lambda>s. Some (r, s))) (owned (\<lambda>_. kinds []))"
        unfolding x outcome.case prod.case none kinds_simps(1) append_Nil .
    qed simp_all
  qed
  show ?thesis
    using ctx unfolding insertEvalSumPerIndexLazy_def Inr ik sum.case prod.case
    by (intro secure_if secure_case_option secure_nfail secure_nbind secure_c_insert scope) auto
qed (simp add: insertEvalSumPerIndexLazy_def secure_nfail)

section \<open>The fold object\<close>

lemma computes_new_fold:
  assumes "ctx_in ctx c H"
  shows "computes [] H (new_fold L leadBase o1 ctx) (obind (rot_spec L c leadBase) (\<lambda>seed. start_spec L seed ''eval-sum combine start failed''))
     (\<lambda>f acc. if fo_ctx f = ctx \<and> fo_ownsCtx f = o1 then handle RotKeyHandle (fo_accum f) acc else never) []"
  unfolding new_fold_def
proof (rule computes_nbind [OF computes_deserialize(2) [OF assms]])
  fix seed v
  let ?R = "\<lambda>f acc. if fo_ctx f = ctx \<and> fo_ownsCtx f = o1 then handle RotKeyHandle (fo_accum f) acc else never"
  have "computes (handle RotKeyHandle seed v) H (nbind (start_accum L seed ''eval-sum combine start failed'')
       (\<lambda>accum. nret \<lparr> fo_ctx = ctx, fo_accum = accum, fo_ownsCtx = o1 \<rparr>)) (obind (start_spec L v ''eval-sum combine start failed'') Ok) ?R []"
    by (rule computes_nbind [OF computes_start_accum]) (simp add: computes_nret)
  then show "computes (handle RotKeyHandle seed v) H (nbind (start_accum L seed ''eval-sum combine start failed'')
       (\<lambda>accum. nret \<lparr> fo_ctx = ctx, fo_accum = accum, fo_ownsCtx = o1 \<rparr>)) (start_spec L v ''eval-sum combine start failed'') ?R []"
    by simp
qed

text \<open>A clean run of the variables' form, for a program that owns objects.\<close>

lemma computes_vrun_own:
  fixes m :: "('o, 'g, unit, 'a) vprog"
  assumes "vcomputes (\<lambda>_. []) P H m sp R E" shows "computes P H (vrun m) sp R E"
  unfolding computes_def vrun_def vscope_def
proof (rule triple_bind_total)
  show "triple P H (m ()) (\<lambda>x. case x of Ok (r, v') \<Rightarrow> post R E sp r | _ \<Rightarrow> never)"
    using assms unfolding vcomputes_def append_Nil2 by blast
  fix x :: "(string, 'a) outcome \<times> unit"
  obtain r where x: "x = (r, ())" by (cases x) simp
  show "triple (case Ok x of Ok (r, v') \<Rightarrow> post R E sp r | _ \<Rightarrow> never) H (case x of (r, v') \<Rightarrow> deferring (nret ()) (\<lambda>s. Some (r, s))) (post R E sp)"
    by (simp add: x deferring_def nret_def triple_def moved_refl)
qed simp_all

lemma computes_Fold:
  assumes "ctx_in (fo_ctx f) c H"
  shows "computes (handle RotKeyHandle (fo_accum f) acc) H (Fold L f pk share)
     (fold_spec L c (pk_spec L c pk) (rot_spec L c share) ''eval-sum combine fold failed'' acc)
     (\<lambda>_. handle RotKeyHandle (fo_accum f)) [(fo_accum f, is_kind RotKeyHandle)]"
  unfolding Fold_def
  by (intro computes_vrun_own vcomputes_fold_one vcomputes_vlift computes_deserialize assms) simp

lemma triple_deferring_nfree:
  assumes "triple P H m (\<lambda>r. Q r @ [(x, is_kind k)])"
  shows "triple P H (deferring (nfree k x) m) Q"
  using assms
proof (rule triple_deferring [OF _ _ nfree_ok])
  show "triple (Q r @ [(x, is_kind k)]) H (nfree k x) (\<lambda>_. Q r)" for r
    using triple_frame [OF triple_nfree_kind, where R = "Q r"] by (rule triple_perm) simp_all
qed

lemma computes_Finalize:
  assumes "\<not> fo_ownsCtx f"
  shows "computes (handle RotKeyHandle (fo_accum f) acc) H (Finalize L f) (rot_bytes_spec L acc) same []"
proof -
  let ?x = "fo_accum f"
  have "vcomputes (\<lambda>_. []) (handle RotKeyHandle ?x acc) H (vlift (serializeRotKey L ?x)) (rot_bytes_spec L acc)
     (\<lambda>a w. same a w @ [(?x, is_kind RotKeyHandle)]) [(?x, is_kind RotKeyHandle)]"
    by (rule vcomputes_write_accum)
  then have "triple (handle RotKeyHandle ?x acc) H (serializeRotKey L ?x)
      (post (\<lambda>a w. same a w @ [(?x, is_kind RotKeyHandle)]) ([] @ [(?x, is_kind RotKeyHandle)]) (rot_bytes_spec L acc))"
    unfolding vcomputes_def vlift_def triple_def by (fastforce split: option.splits)
  then have "triple (handle RotKeyHandle ?x acc) H (serializeRotKey L ?x) (\<lambda>r. post same [] (rot_bytes_spec L acc) r @ [(?x, is_kind RotKeyHandle)])"
    by (rule triple_conseq [OF _ refl]) (rule post_frame)
  then show ?thesis using assms by (simp add: Finalize_def computes_def triple_deferring_nfree)
qed

section \<open>A reference without the cache\<close>

context rotation_library
begin

lemma computes_uncached:
  assumes "ctx_in ctx c H"
  shows "computes [] H (resolveIndexedEvalSumKeyRef L ctx ref resolve) (uncached_spec c resolve ref) (handle RotKeyHandle) []"
  unfolding resolveIndexedEvalSumKeyRef_def uncached_spec_def reconstructRotKeyFromAB_def
  using assms by (auto intro!: computes_full_key computes_val_nil computes_relabel computes_nresolve computes_c_build computes_nfail)

end

end
