(* ===== verification/Bridge_Laws.thy ===== *)
theory Bridge_Laws
  imports Bridge_Round1
begin

text \<open>
  What the bridge promises its callers: the ceremonies leave the native heap as they found it (those that read shares by reference, if
  the first halves they are given can be read), the ways of combining
  rotation-key shares agree with one another, the validators accept exactly the consistent sets of shares, and contexts are
  live from their creation until they are closed.
\<close>

section \<open>Running a program in a state\<close>

definition has_ctx :: "('o, 'g) native \<Rightarrow> nat \<Rightarrow> 'o \<Rightarrow> bool" where
  "has_ctx s ctx c \<longleftrightarrow> heap_ok s \<and> ns_cells s ctx = Some (Obj CryptoContextHandle c)"

definition same_heap :: "('o, 'g) native \<Rightarrow> ('o, 'g) native \<Rightarrow> bool" where
  "same_heap s s' \<longleftrightarrow> ns_cells s' = ns_cells s \<and> ns_fault s' = ns_fault s"

lemma post_same: "owns s (post same [] sp r) H \<Longrightarrow> r = sp \<and> post same [] sp r = []"
  by (cases sp; cases r) (auto simp: same_def owns_absurd split: if_splits)

lemma computes_run:
  assumes m: "computes [] (handle CryptoContextHandle ctx c) m sp same []" and s: "has_ctx s ctx c"
  shows "\<exists>s'. m s = Some (sp, s') \<and> same_heap s s'"
proof -
  have "owns s [] (handle CryptoContextHandle ctx c)" using s by (auto simp: has_ctx_def owns_def live_def)
  then obtain r s' where run: "m s = Some (r, s')" and o1: "owns s' (post same [] sp r) (handle CryptoContextHandle ctx c)"
    and mv: "moved s s' [] (handle CryptoContextHandle ctx c) (post same [] sp r)"
    using m unfolding computes_def triple_def by blast
  have r: "r = sp" and nil: "post same [] sp r = []" using post_same [OF o1] by auto
  have "ns_cells s' ctx = ns_cells s ctx" using o1 s by (auto simp: owns_def live_def has_ctx_def)
  moreover have "ns_cells s' x = ns_cells s x" if "x \<noteq> ctx" for x
    using mv that unfolding nil by (simp add: moved_def)
  ultimately have "ns_cells s' = ns_cells s" by (intro ext) metis
  then show ?thesis using run mv r by (auto simp: same_heap_def moved_def)
qed

lemma secure_run:
  fixes m :: "('o, 'g, 'a) prog"
  assumes m: "secure (in_ctx ctx) nothing m" and s: "has_ctx s ctx c"
  shows "\<exists>r s'. m s = Some (r, s') \<and> ns_fault s' = ns_fault s \<and> (\<exists>c'. has_ctx s' ctx c') \<and> (\<forall>x. x \<noteq> ctx \<longrightarrow> ns_cells s' x = ns_cells s x)"
proof -
  let ?H = "kinds (in_ctx ctx) :: 'o assn"
  have none: "owned (\<lambda>_. kinds []) r = ([] :: 'o assn)" for r :: "(string, 'a) outcome" by (cases r) simp_all
  have "owns s [] ?H" using s by (auto simp: has_ctx_def owns_def live_def is_kind_def)
  then obtain r s' where run: "m s = Some (r, s')" and o1: "owns s' [] ?H" and mv: "moved s s' [] ?H []"
    using m unfolding secure_def triple_def none by blast
  obtain cell where cell: "ns_cells s' ctx = Some cell" "cell_kind cell = CryptoContextHandle" "heap_ok s'"
    using o1 by (auto simp: owns_def live_def is_kind_def)
  then have "\<exists>c'. has_ctx s' ctx c'" by (cases cell) (auto simp: has_ctx_def)
  then show ?thesis using run mv by (auto simp: moved_def)
qed

section \<open>The combiners agree\<close>

lemma ok_value_iff: "ok_value r = Some b \<longleftrightarrow> r = Ok b"
  by (cases r) simp_all

lemma ok_value_eqI: "(\<And>b. r = Ok b \<longleftrightarrow> r' = Ok b) \<Longrightarrow> ok_value r = ok_value r'"
  unfolding ok_value_iff [symmetric] by (metis option.exhaust)

text \<open>A library whose objects are their serialized form, for examples: every key is read as it is, and keys are added by joining their bytes.\<close>

definition plain_lib :: "(bytes, unit) openfhe" where
  "plain_lib = \<lparr> lib_ctx = (\<lambda>_ g. (Some [], g)), lib_keygen = (\<lambda>_ _ g. (Some ([1], [2]), g)), lib_new = (\<lambda>_ _ g. (Some [3], g)),
     lib_upd = (\<lambda>op objs acc. (True, acc @ concat objs)), lib_act = (\<lambda>_ _ g. (True, g)), lib_ser = (\<lambda>_. Some),
     lib_fun = (\<lambda>_ _ raws. case raws of [b] \<Rightarrow> Some b | _ \<Rightarrow> None), lib_idx = (\<lambda>_ _. Some [1]),
     lib_argmax = (\<lambda>cs _ g. (case cs of [] \<Rightarrow> Inl (-1) | _ # ms \<Rightarrow> Inr ms, g)), lib_dec = (\<lambda>_ _ _ g. (Some [Fin 1], g)), lib_decint = (\<lambda>_ _ g. (Some [1], g)),
     lib_blob = (\<lambda>_ _ _ g. ((True, Some [9]), g)) \<rparr>"

definition joined_lib :: "(bytes, unit) openfhe" where
  "joined_lib = wrapper (\<lambda>_ joined share pk. Some (joined @ share)) (\<lambda>b. Some b) (\<lambda>_ a b. Some (a @ b)) plain_lib"

definition one_ctx :: "(bytes, unit) native" where
  "one_ctx = \<lparr> ns_cells = [1 \<mapsto> Obj CryptoContextHandle []], ns_next = 2, ns_fault = 0, ns_world = () \<rparr>"

lemma one_ctx_ok: "has_ctx one_ctx 1 []"
  by (simp add: one_ctx_def has_ctx_def heap_ok_def)

text \<open>
  Claim C11. Folding the eval-sum shares one at a time (\<^verbatim>\<open>combineEvalSumIncremental\<close>) gives the bytes that combining them all
  at once (\<^verbatim>\<open>combineEvalSumAllAtOnce\<close>) gives, for any OpenFHE addition that the C wrapper's two routines are built on: both
  return, one succeeds exactly when the other does, with the same key, and neither leaves a native object behind or frees one it
  does not own. The public key of the first party is read by the second form only, so it has to be readable.
\<close>

theorem incremental_is_all_at_once:
  assumes "has_ctx s ctx c" "shareBytes \<noteq> []" "length shareBytes \<le> length pkBytes"
    and "pkBytes ! 0 \<noteq> []" "lib_fun L DeserializePublicKey [c] [pkBytes ! 0] \<noteq> None"
  shows "\<exists>r s1 r' s2. combineEvalSumIncremental (wrapper add rd ab L) ctx pkBytes shareBytes s = Some (r, s1) \<and>
     combineEvalSumAllAtOnce (wrapper add rd ab L) ctx pkBytes shareBytes s = Some (r', s2) \<and>
     ok_value r = ok_value r' \<and> same_heap s s1 \<and> same_heap s s2"
proof -
  let ?L = "wrapper add rd ab L"
  let ?inc = "incremental_spec ?L c pkBytes (length shareBytes) (\<lambda>i. rot_spec ?L c (shareBytes ! i))" and ?all = "all_at_once_spec ?L c pkBytes shareBytes"
  have "is_ok (pk_spec ?L c (pkBytes ! 0))"
    using assms(4,5) by (auto simp: pk_spec_def build_spec_def wrapper_def is_ok_iff)
  then have "?inc = Ok b \<longleftrightarrow> ?all = Ok b" for b by (rule wrapped.incremental_iff [OF assms(2)])
  then have "ok_value ?inc = ok_value ?all" by (rule ok_value_eqI)
  moreover have "\<exists>s1. combineEvalSumIncremental ?L ctx pkBytes shareBytes s = Some (?inc, s1) \<and> same_heap s s1"
    by (rule computes_run [OF computes_incremental assms(1)]) (use assms(2,3) in simp_all)
  moreover have "\<exists>s2. combineEvalSumAllAtOnce ?L ctx pkBytes shareBytes s = Some (?all, s2) \<and> same_heap s s2"
    by (rule computes_run [OF computes_all_at_once assms(1)]) (use assms(2,3) in simp_all)
  ultimately show ?thesis by blast
qed

theorem incremental_is_all_at_once_witness:
  "has_ctx one_ctx 1 [] \<and> lib_fun plain_lib DeserializePublicKey [[]] [[7]] \<noteq> None \<and>
   (\<exists>r s1 r' s2. combineEvalSumIncremental joined_lib 1 [[7], [8]] [[1], [2]] one_ctx = Some (r, s1) \<and>
     combineEvalSumAllAtOnce joined_lib 1 [[7], [8]] [[1], [2]] one_ctx = Some (r', s2) \<and>
     ok_value r = ok_value r' \<and> same_heap one_ctx s1 \<and> same_heap one_ctx s2)"
  using one_ctx_ok incremental_is_all_at_once [OF one_ctx_ok, of "[[1], [2]]" "[[7], [8]]" plain_lib]
  unfolding joined_lib_def by (simp add: plain_lib_def)

text \<open>
  Claim C12. Combining per-index shares that are fetched by reference, with the a-vectors kept in a cache
  (\<^verbatim>\<open>combineEvalSumPerIndexLazy\<close>), gives the key that combining the same shares held as bytes gives
  (\<^verbatim>\<open>combineEvalSumPerIndex\<close>), whenever each reference stands for its key: a full reference resolves to it, or a pair of
  references resolves to halves that rebuild it. The cache is emptied and no native object is left behind.
\<close>

theorem lazy_per_index_is_eager:
  assumes "has_ctx s ctx c" "length refs \<le> length pks"
    and "\<And>ref. ref \<in> \<Union> (set ` set refs) \<Longrightarrow> resolves_to (wrapper add rd ab L) c resolve ref (key ref)"
  shows "\<exists>r s1 r' s2. combineEvalSumPerIndexLazy (wrapper add rd ab L) ctx pks refs resolve s = Some (r, s1) \<and>
     combineEvalSumPerIndex (wrapper add rd ab L) ctx pks (map (map (\<lambda>ref. \<lparr> ik_Index = kr_Index ref, ik_Key = key ref \<rparr>)) refs) s = Some (r', s2) \<and>
     ok_value r = ok_value r' \<and> same_heap s s1 \<and> same_heap s s2"
proof -
  let ?L = "wrapper add rd ab L" and ?keys = "map (map (\<lambda>ref. \<lparr> ik_Index = kr_Index ref, ik_Key = key ref \<rparr>)) refs"
  have "ok_value (per_index_lazy_spec ?L c pks refs resolve) = ok_value (per_index_spec ?L c pks ?keys)"
    using assms(3) by (rule wrapped.lazy_is_eager)
  moreover have "\<exists>s1. combineEvalSumPerIndexLazy ?L ctx pks refs resolve s = Some (per_index_lazy_spec ?L c pks refs resolve, s1) \<and> same_heap s s1"
    by (rule computes_run [OF computes_per_index_lazy assms(1)])
      (use assms(2) resolves_readable [OF assms(3)] in \<open>auto simp: refs_readable_def\<close>)
  moreover have "\<exists>s2. combineEvalSumPerIndex ?L ctx pks ?keys s = Some (per_index_spec ?L c pks ?keys, s2) \<and> same_heap s s2"
    by (rule computes_run [OF computes_per_index assms(1)]) (use assms(2) in simp_all)
  ultimately show ?thesis by blast
qed

definition two_refs :: "key_ref list list" where
  "two_refs = [[\<lparr> kr_Index = 1, kr_Ref = ''k'', kr_ARef = [], kr_BRef = [] \<rparr>], [\<lparr> kr_Index = 1, kr_Ref = [], kr_ARef = ''a'', kr_BRef = ''b'' \<rparr>]]"

definition two_values :: resolver where
  "two_values ref = (if ref = ''k'' then Inr [1] else if ref = ''a'' then Inr [2] else Inr [3])"

theorem lazy_per_index_is_eager_witness:
  "has_ctx one_ctx 1 [] \<and> (\<exists>r s1 r' s2. combineEvalSumPerIndexLazy joined_lib 1 [[7], [8]] two_refs two_values one_ctx = Some (r, s1) \<and>
     combineEvalSumPerIndex joined_lib 1 [[7], [8]] [[\<lparr> ik_Index = 1, ik_Key = [1] \<rparr>], [\<lparr> ik_Index = 1, ik_Key = [2, 3] \<rparr>]] one_ctx = Some (r', s2) \<and>
     ok_value r = ok_value r' \<and> same_heap one_ctx s1 \<and> same_heap one_ctx s2)"
proof -
  have "resolves_to joined_lib [] two_values ref (if kr_Ref ref = ''k'' then [1] else [2, 3])" if "ref \<in> \<Union> (set ` set two_refs)" for ref
    using that by (auto simp: two_refs_def resolves_to_def two_values_def joined_lib_def wrapper_def plain_lib_def)
  from lazy_per_index_is_eager [OF one_ctx_ok _ this [unfolded joined_lib_def], where pks = "[[7], [8]]" and refs = two_refs] one_ctx_ok
  show ?thesis unfolding joined_lib_def by (simp add: two_refs_def)
qed

section \<open>The fold object\<close>

text \<open>A caller of the fold object that folds the shares of the other parties in order and finalizes.\<close>

fun fold_all :: "('o, 'g) openfhe \<Rightarrow> fold_obj \<Rightarrow> bytes list \<Rightarrow> bytes list \<Rightarrow> nat list \<Rightarrow> ('o, 'g, unit) prog" where
  "fold_all L f pks shares [] = nret ()"
| "fold_all L f pks shares (i # is) = nbind (Fold L f (pks ! i) (shares ! i)) (\<lambda>_. fold_all L f pks shares is)"

definition fold_session :: "('o, 'g) openfhe \<Rightarrow> nat \<Rightarrow> bytes list \<Rightarrow> bytes list \<Rightarrow> ('o, 'g, bytes) prog" where
  "fold_session L ctx pks shares =
     nbind (NewEvalSumIncrementalFoldWithContext L ctx (shares ! 0)) (\<lambda>f.
     nbind (fold_all L f pks shares [1..<length shares]) (\<lambda>_. Finalize L f))"

lemma computes_step:
  assumes "computes P H m sp R E" "owns s P H"
  obtains a v s' where "sp = Ok v" "m s = Some (Ok a, s')" "owns s' (R a v) H" "moved s s' P H (R a v)"
  | r s' where "\<not> is_ok sp" "m s = Some (r, s')" "\<not> is_ok r"
proof -
  obtain r s' where run: "m s = Some (r, s')" "owns s' (post R E sp r) H" "moved s s' P H (post R E sp r)"
    using assms unfolding computes_def triple_def by blast
  then show thesis using that by (cases sp; cases r) (auto simp: owns_absurd)
qed

lemma computes_fold_all:
  assumes "ctx_in (fo_ctx f) c H"
  shows "computes (handle RotKeyHandle (fo_accum f) acc) H (fold_all L f pks shares is)
     (ofold (\<lambda>i. fold_spec L c (pk_spec L c (pks ! i)) (rot_spec L c (shares ! i)) ''eval-sum combine fold failed'') is acc)
     (\<lambda>_. handle RotKeyHandle (fo_accum f)) [(fo_accum f, is_kind RotKeyHandle)]"
proof (induction "is" arbitrary: acc)
  case Nil
  show ?case by (simp add: computes_nret)
next
  case (Cons i "is")
  show ?case unfolding fold_all.simps ofold.simps
    by (rule computes_nbind [OF computes_Fold [OF assms]]) (rule Cons.IH)
qed

lemma fold_session_run:
  fixes L :: "('o, 'g) openfhe"
  assumes s: "has_ctx s ctx c"
  shows "\<exists>r s'. fold_session L ctx pks shares s = Some (r, s') \<and>
    ok_value r = ok_value (incremental_spec L c pks (length shares) (\<lambda>i. rot_spec L c (shares ! i))) \<and> (is_ok r \<longrightarrow> same_heap s s')"
proof -
  let ?H = "handle CryptoContextHandle ctx c" and ?is = "[1..<length shares]"
  let ?new = "obind (rot_spec L c (shares ! 0)) (\<lambda>seed. start_spec L seed ''eval-sum combine start failed'')"
  let ?all = "\<lambda>msg. ofold (\<lambda>i. fold_spec L c (pk_spec L c (pks ! i)) (rot_spec L c (shares ! i)) (msg i)) ?is"
  let ?fold = "?all (\<lambda>_. ''eval-sum combine fold failed'')"
  have sp: "ok_value (incremental_spec L c pks (length shares) (\<lambda>i. rot_spec L c (shares ! i))) =
      ok_value (obind ?new (\<lambda>acc. obind (?fold acc) (rot_bytes_spec L)))"
    unfolding incremental_spec_def obind_assoc ok_value_obind
    by (intro Option.bind_cong refl ok_value_ofold) (simp add: ok_value_fold)
  have bad: "fold_session L ctx pks shares s = Some (r, s') \<Longrightarrow> \<not> is_ok r \<Longrightarrow>
      \<not> is_ok (obind ?new (\<lambda>acc. obind (?fold acc) (rot_bytes_spec L))) \<Longrightarrow> ?thesis" for r :: "(string, bytes) outcome" and s'
    unfolding sp by (cases r; cases "obind ?new (\<lambda>acc. obind (?fold acc) (rot_bytes_spec L))") auto
  have own: "owns s [] ?H" using s by (auto simp: has_ctx_def owns_def live_def)
  have "ctx_in ctx c ?H" by simp
  from computes_new_fold [OF this, of L "shares ! 0" False] own show ?thesis
  proof (cases rule: computes_step)
    case (2 r s')
    then show ?thesis
      by (intro bad [of "case r of Ok _ \<Rightarrow> Panic [] | Err e \<Rightarrow> Err e | Panic p \<Rightarrow> Panic p" s'])
        (auto simp: fold_session_def NewEvalSumIncrementalFoldWithContext_def nbind_def is_ok_iff split: outcome.splits)
  next
    case new: (1 f acc s1)
    have f: "fo_ctx f = ctx" "\<not> fo_ownsCtx f" and o1: "owns s1 (handle RotKeyHandle (fo_accum f) acc) ?H"
      and m1: "moved s s1 [] ?H (handle RotKeyHandle (fo_accum f) acc)"
      using new(3,4) by (auto simp: owns_absurd split: if_splits)
    have "ctx_in (fo_ctx f) c ?H" using f by simp
    from computes_fold_all [OF this, of acc L pks shares ?is] o1 show ?thesis
    proof (cases rule: computes_step)
      case (2 r s')
      then show ?thesis using new(1,2)
        by (intro bad [of "case r of Ok _ \<Rightarrow> Panic [] | Err e \<Rightarrow> Err e | Panic p \<Rightarrow> Panic p" s'])
          (auto simp: fold_session_def NewEvalSumIncrementalFoldWithContext_def nbind_def is_ok_iff split: outcome.splits)
    next
      case all: (1 u acc' s2)
      from computes_Finalize [OF f(2), of acc' ?H L] all(3) show ?thesis
      proof (cases rule: computes_step)
        case (2 r s')
        then show ?thesis using new(1,2) all(1,2)
          by (intro bad [of r s']) (auto simp: fold_session_def NewEvalSumIncrementalFoldWithContext_def nbind_def is_ok_iff)
      next
        case fin: (1 a b s3)
        have ab: "a = b" and o3: "owns s3 [] ?H" and m3: "moved s2 s3 (handle RotKeyHandle (fo_accum f) acc') ?H []"
          using fin(3,4) by (auto simp: same_def owns_absurd split: if_splits)
        have "moved s s3 [] ?H []"
          using own o1 by (intro moved_trans [OF _ m1 moved_trans [OF _ all(4) m3]]) (simp_all add: owns_def)
        moreover have "ns_cells s3 ctx = ns_cells s ctx" using o3 s by (auto simp: owns_def live_def has_ctx_def)
        ultimately have "same_heap s s3" by (auto simp: same_heap_def moved_def fun_eq_iff)
        then show ?thesis using new(1,2) all(1,2) fin(1,2) ab
          by (auto simp: sp fold_session_def NewEvalSumIncrementalFoldWithContext_def nbind_def)
      qed
    qed
  qed
qed

text \<open>
  Claim C27. Folding the shares through the fold object (\<^verbatim>\<open>NewEvalSumIncrementalFoldWithContext\<close>, \<^verbatim>\<open>Fold\<close> for every
  other party, \<^verbatim>\<open>Finalize\<close>) refines the one call that combines them: it returns, with a key exactly when
  \<^verbatim>\<open>combineEvalSumIncremental\<close> returns that key, and when it does the accumulator has been freed and nothing else has.
\<close>

theorem fold_object_refines_incremental:
  assumes "has_ctx s ctx c" "shares \<noteq> []" "length shares \<le> length pks"
  shows "\<exists>r s1 r' s2. fold_session L ctx pks shares s = Some (r, s1) \<and> combineEvalSumIncremental L ctx pks shares s = Some (r', s2) \<and>
     ok_value r = ok_value r' \<and> (is_ok r \<longrightarrow> same_heap s s1) \<and> same_heap s s2"
proof -
  have "\<exists>s2. combineEvalSumIncremental L ctx pks shares s =
      Some (incremental_spec L c pks (length shares) (\<lambda>i. rot_spec L c (shares ! i)), s2) \<and> same_heap s s2"
    by (rule computes_run [OF computes_incremental assms(1)]) (use assms(2,3) in simp_all)
  with fold_session_run [OF assms(1), of L pks shares] show ?thesis by metis
qed

theorem fold_object_refines_incremental_witness:
  "has_ctx one_ctx 1 [] \<and> (\<exists>r s1 r' s2. fold_session joined_lib 1 [[7], [8]] [[1], [2]] one_ctx = Some (r, s1) \<and>
     combineEvalSumIncremental joined_lib 1 [[7], [8]] [[1], [2]] one_ctx = Some (r', s2) \<and>
     ok_value r = ok_value r' \<and> (is_ok r \<longrightarrow> same_heap one_ctx s1) \<and> same_heap one_ctx s2)"
  using one_ctx_ok fold_object_refines_incremental [OF one_ctx_ok, of "[[1], [2]]" "[[7], [8]]" joined_lib] by simp

section \<open>Ownership\<close>

definition keeps_ctx :: "nat \<Rightarrow> ('o, 'g, 'a) prog \<Rightarrow> bool" where
  "keeps_ctx ctx m \<longleftrightarrow> (\<forall>s c. has_ctx s ctx c \<longrightarrow>
     (\<exists>r s'. m s = Some (r, s') \<and> ns_fault s' = ns_fault s \<and> (\<exists>c'. has_ctx s' ctx c') \<and> (\<forall>x. x \<noteq> ctx \<longrightarrow> ns_cells s' x = ns_cells s x)))"

lemma keeps_ctxI: "secure (in_ctx ctx) nothing m \<Longrightarrow> keeps_ctx ctx m"
  unfolding keeps_ctx_def by (intro allI impI secure_run)

definition small_params :: cgo_params where
  "small_params = \<lparr> cg_RingDim = 1024, cg_ScalingFactor = Fin 0, cg_Depth = 0, cg_MinimalRotationKeys = True, cg_ProfileDim = 8,
     cg_PayloadSlotCount = 4, cg_EvalSumOnlyRotationKeys = False \<rparr>"

lemma small_params_ok: "batch_ok small_params"
  by (simp add: small_params_def batch_ok_def)

text \<open>
  Claim C13. The key ceremony does not leak: each function that generates a threshold key share, makes or combines the shares of the
  joint evaluation keys, or splits and rebuilds a rotation share, returns (with a value, an error or a Go panic) with the native heap as
  it found it, every handle it made freed once and none used after it was freed or under another type, whatever the library answers at each
  call. For CKKS the rotation dimensions have to fit the doubling loop that computes the batch size (\<open>batch_ok\<close>). The two functions that
  fetch per-index shares by reference have this property when what their references to a-vectors resolve to can be read
  (\<open>given_readable\<close>): \<^verbatim>\<open>DeserializeAVectors\<close> loses an object when the reading fails.
\<close>

theorem key_ceremony_balanced:
  assumes "batch_ok ps"
  shows "balanced (DistributedKeyGenFirst L ps) \<and> balanced (DistributedKeyGenNext L ps prev) \<and>
    balanced (EvalKeyRound1Lead L ps sk) \<and> balanced (EvalKeyRound1Participant L ps sk multBase sumBase pk) \<and>
    balanced (EvalKeyRound2Participant L ps sk joined pk lead) \<and> balanced (CombineEvalKeyRound2 L ps pk shares sumFinal) \<and>
    balanced (BFVDistributedKeyGenFirst L bs) \<and> balanced (BFVDistributedKeyGenNext L bs prev) \<and>
    balanced (BFVEvalKeyRound1Lead L bs sk) \<and> balanced (BFVEvalKeyRound1Participant L bs sk multBase sumBase pk) \<and>
    balanced (BFVEvalKeyRound2Participant L bs sk joined pk lead) \<and> balanced (BFVCombineEvalKeyRound2 L bs pk shares sumFinal) \<and>
    balanced (SplitRotShareAB L ps full) \<and> balanced (ReconstructRotShareAB L ps a b) \<and>
    balanced (CombineEvalKeyRound1 L ps pks ms shares) \<and> balanced (BFVCombineEvalKeyRound1 L bs pks ms shares) \<and>
    balanced (BFVCombineEvalKeyRound1Lazy L bs pks ms refs resolve) \<and>
    balanced (CombineEvalMultSwitchShares L ps pks ms) \<and> balanced (CombineEvalSumSharesIncremental L ps pks shares) \<and>
    balanced (runIncrementalCombineCheck L ps) \<and>
    (given_readable L resolve byParty \<longrightarrow>
       balanced (CombineEvalKeyRound1PerIndexLazy L ps pks ms byParty resolve) \<and>
       balanced (BFVCombineEvalKeyRound1PerIndexLazy L bs pks ms byParty resolve))"
  using assms by (intro conjI impI balanced_keys balanced_round1)

theorem key_ceremony_balanced_witness:
  "batch_ok small_params \<and> balanced (DistributedKeyGenFirst plain_lib small_params) \<and> balanced (CombineEvalKeyRound2 plain_lib small_params [1] [[2]] [3]) \<and>
   given_readable plain_lib (Some two_values) two_refs \<and>
   balanced (CombineEvalKeyRound1PerIndexLazy plain_lib small_params [[7], [8]] [[1], [2]] two_refs (Some two_values))"
proof -
  have "given_readable plain_lib (Some two_values) two_refs"
    by (simp add: refs_readable_def ref_readable_def avec_readable_def two_refs_def two_values_def plain_lib_def)
  then show ?thesis
    using small_params_ok key_ceremony_balanced [OF small_params_ok, where L = plain_lib and pk = "[1]" and shares = "[[2]]" and sumFinal = "[3]"
        and pks = "[[7], [8]]" and ms = "[[1], [2]]" and byParty = two_refs and resolve = "Some two_values"] by blast
qed

text \<open>A library that cannot read a-vectors: the second reference of \<open>two_refs\<close> makes the insertion fail, and one object more is on the heap.\<close>

definition blind_lib :: "(bytes, unit) openfhe" where
  "blind_lib = plain_lib\<lparr> lib_fun := \<lambda>op objs raws. if op = DeserializeAVectors then None else lib_fun plain_lib op objs raws \<rparr>"

theorem avectors_leak:
  "\<exists>e s'. InsertEvalSumKeysPerIndexLazyWithContext blind_lib 1 [[7], [8]] [two_refs ! 1, two_refs ! 1] (Some two_values) one_ctx = Some (Err e, s') \<and>
     ns_fault s' = 0 \<and> ns_cells one_ctx 2 = None \<and> ns_cells s' 2 = Some HalfRead"
proof -
  have "map_option (\<lambda>(r, s'). (is_ok r \<or> is_panic r, ns_fault s', ns_cells s' 2))
      (InsertEvalSumKeysPerIndexLazyWithContext blind_lib 1 [[7], [8]] [two_refs ! 1, two_refs ! 1] (Some two_values) one_ctx) = Some (False, 0, Some HalfRead)"
    by code_simp
  then obtain r s' where run: "InsertEvalSumKeysPerIndexLazyWithContext blind_lib 1 [[7], [8]] [two_refs ! 1, two_refs ! 1] (Some two_values) one_ctx = Some (r, s')"
    "\<not> is_ok r" "\<not> is_panic r" "ns_fault s' = 0" "ns_cells s' 2 = Some HalfRead" by auto
  then show ?thesis by (cases r) (auto simp: one_ctx_def)
qed

text \<open>The combination of the second round frees its result without a \<^verbatim>\<open>defer\<close>, so writing the result must not panic.\<close>

definition short_keys :: "('o, 'g) openfhe \<Rightarrow> bool" where
  "short_keys L \<longleftrightarrow> (\<forall>c bs. lib_ser L SerializeEvalMultKey c = Some bs \<longrightarrow> length bs < 2 ^ 31)"

lemma calm_serialize_short: "short_keys L \<Longrightarrow> calm (serializeEvalMultKey L x)"
  unfolding calm_def serializeEvalMultKey_def c_serialize_def short_keys_def
  by (auto simp: copyCBytes_short nbind_def peek_def scoped_def deferring_def alloc_def nfree_def nret_def nfail_def nfault_def
      split: option.splits cell.splits if_splits outcome.splits)

definition one_byte_lib :: "(bytes, unit) openfhe" where
  "one_byte_lib = plain_lib\<lparr> lib_ser := \<lambda>_ _. Some [5] \<rparr>"

lemma secure_round2_with_context:
  assumes ctx: "(ctx, CryptoContextHandle) \<in> set H" and short: "short_keys L"
  shows "secure H nothing (CombineEvalKeyRound2WithContext L ctx pk shares sumFinal)"
  unfolding CombineEvalKeyRound2WithContext_def
proof (intro secure_scoped secure_scoped_all secure_deserialize secure_deserialize_lists)
  fix finalPK finalShares sumKey
  let ?H = "(sumKey, RotKeyHandle) # handles EvalMultKeyHandle finalShares @ (finalPK, PublicKeyHandle) # H"
  have "secure ?H nothing (nbind (nbind (combine_mult_final L ''combine eval-mult final shares failed'' ctx finalPK finalShares)
     (\<lambda>final. freeing EvalMultKeyHandle final (serializeEvalMultKey L final))) (\<lambda>b. nret \<lparr> ek_EvalMultFinal = b, ek_EvalSumFinal = sumFinal \<rparr>))"
    using ctx by (intro secure_nbind secure_freeing secure_serialize secure_nret calm_serialize_short short) (auto simp: combine_mult_final_def intro!: secure_intros)
  then show "secure ?H nothing (nbind (combine_mult_final L ''combine eval-mult final shares failed'' ctx finalPK finalShares) (\<lambda>final.
     nbind (freeing EvalMultKeyHandle final (serializeEvalMultKey L final)) (\<lambda>b. nret \<lparr> ek_EvalMultFinal = b, ek_EvalSumFinal = sumFinal \<rparr>)))"
    unfolding nbind_assoc .
qed (use ctx in simp_all)

text \<open>
  Claim C14. A shared context stays a live context under the following operations that borrow it: the shares of both rounds, the streamed and per-index generation of rotation
  keys, the rotation indices, the per-index combination of round 1, and, each under its condition, the combination of switch shares (as many public keys as shares, and at
  least one), the combination of round 2 (no serialized key of 2 GiB or more) and the insertion of per-index keys by reference (what the references to a-vectors resolve to
  can be read). Each returns, without a fault, leaves the handle pointing to a context and every other cell of the native heap as it was. Inserting keys may change what the context
  holds, nothing else. Starting a fold object is not among them, since it leaves its accumulator on the heap, and fusion is treated in
  its own theory; without their conditions the three operations can fault or leak (\<open>unguarded_combiners\<close>, \<open>avectors_leak\<close>).
\<close>

theorem shared_context_kept:
  "keeps_ctx ctx (EvalKeyRound1LeadWithContext L ctx sk) \<and> keeps_ctx ctx (EvalMultKeyGenLeadWithContext L ctx sk) \<and>
   keeps_ctx ctx (EvalMultKeySwitchShareWithContext L ctx sk base) \<and>
   keeps_ctx ctx (EvalKeyRound1ParticipantWithContext L ctx sk base sumBase pk) \<and>
   keeps_ctx ctx (EvalKeyRound2ParticipantWithContext L ctx sk joined pk lead) \<and>
   keeps_ctx ctx (StreamedEvalSumKeyGenLeadWithContext L ctx sk) \<and> keeps_ctx ctx (StreamedEvalSumKeyShareWithContext L ctx sk base pk) \<and>
   keeps_ctx ctx (MinimalRotationIndicesWithContext L ctx) \<and>
   keeps_ctx ctx (GeneratePerIndexEvalSumKeyWithContext L ctx sk index) \<and> keeps_ctx ctx (GeneratePerIndexEvalSumKeysWithContext L ctx sk) \<and>
   keeps_ctx ctx (GeneratePerIndexEvalSumShareWithContext L ctx sk base pk index) \<and>
   keeps_ctx ctx (GeneratePerIndexEvalSumSharesWithContext L ctx sk bases pk) \<and>
   keeps_ctx ctx (CombineEvalKeyRound1PerIndexWithContext L ctx pks ms byParty) \<and>
   (pks \<noteq> [] \<and> length pks = length ms \<longrightarrow> keeps_ctx ctx (CombineEvalMultSwitchSharesWithContext L ctx pks ms)) \<and>
   (short_keys L \<longrightarrow> keeps_ctx ctx (CombineEvalKeyRound2WithContext L ctx pk finals sumFinal)) \<and>
   (given_readable L resolve refs \<longrightarrow> keeps_ctx ctx (InsertEvalSumKeysPerIndexLazyWithContext L ctx pks refs resolve))"
  unfolding CombineEvalKeyRound1PerIndexWithContext_def InsertEvalSumKeysPerIndexLazyWithContext_def CombineEvalMultSwitchSharesWithContext_def
  by (intro conjI impI keeps_ctxI secure_if secure_nfail secure_nret secure_shared_context secure_per_index secure_round1_per_index
      secure_switch_joined secure_round2_with_context secure_insertEvalSumPerIndexLazy list.set_intros) simp_all

theorem shared_context_kept_witness:
  "short_keys one_byte_lib \<and> given_readable one_byte_lib (Some two_values) two_refs \<and> has_ctx one_ctx 1 [] \<and>
   keeps_ctx 1 (CombineEvalMultSwitchSharesWithContext one_byte_lib 1 [[7], [8]] [[1], [2]]) \<and>
   keeps_ctx 1 (CombineEvalKeyRound2WithContext one_byte_lib 1 [7] [[1], [2]] [3]) \<and>
   keeps_ctx 1 (InsertEvalSumKeysPerIndexLazyWithContext one_byte_lib 1 [[7], [8]] two_refs (Some two_values))"
proof -
  have "short_keys one_byte_lib" "given_readable one_byte_lib (Some two_values) two_refs"
    by (simp_all add: short_keys_def one_byte_lib_def refs_readable_def ref_readable_def avec_readable_def two_refs_def two_values_def plain_lib_def)
  then show ?thesis
    using one_ctx_ok shared_context_kept [where ctx = 1 and L = one_byte_lib and pks = "[[7], [8]]" and ms = "[[1], [2]]" and pk = "[7]"
        and finals = "[[1], [2]]" and sumFinal = "[3]" and refs = two_refs and resolve = "Some two_values"] by simp
qed

text \<open>
  The life of a context: \<^verbatim>\<open>NewCryptoContext\<close> returns an error and an unchanged heap, or the handle of a new cell that holds a
  context, everything else being as it was; closing that handle restores the heap and clears it, and closing a cleared one does nothing.
\<close>

theorem context_lifecycle:
  assumes "batch_ok ps" "heap_ok s"
  shows "\<exists>r s'. NewCryptoContext L ps s = Some (r, s') \<and> ns_fault s' = ns_fault s \<and>
     (case r of
        Ok ctx \<Rightarrow> (\<exists>c. has_ctx s' ctx c) \<and> ns_cells s ctx = None \<and> (\<forall>x. x \<noteq> ctx \<longrightarrow> ns_cells s' x = ns_cells s x) \<and>
                  (\<exists>s''. nbind (Close ctx) Close s' = Some (Ok 0, s'') \<and> same_heap s s'')
      | _ \<Rightarrow> same_heap s s')"
proof -
  have "secure [] (\<lambda>x. in_ctx x) (NewCryptoContext L ps)"
    unfolding NewCryptoContext_def using assms(1) by (rule secure_createContractContext)
  moreover have "owns s [] (kinds [])" using assms(2) by (simp add: owns_def)
  ultimately obtain r s' where run: "NewCryptoContext L ps s = Some (r, s')" and o1: "owns s' (owned (\<lambda>x. kinds (in_ctx x)) r) []"
    and mv: "moved s s' [] [] (owned (\<lambda>x. kinds (in_ctx x)) r)"
    unfolding secure_def triple_def by auto
  have flt: "ns_fault s' = ns_fault s" using mv by (simp add: moved_def)
  show ?thesis
  proof (cases r)
    case (Ok ctx)
    obtain cell where cell: "ns_cells s' ctx = Some cell" "cell_kind cell = CryptoContextHandle" and hp: "heap_ok s'"
      using o1 Ok by (auto simp: owns_def live_def is_kind_def)
    then obtain c where c: "cell = Obj CryptoContextHandle c" by (cases cell) auto
    have new: "ns_cells s ctx = None" and rest: "x \<noteq> ctx \<Longrightarrow> ns_cells s' x = ns_cells s x" for x
      using mv Ok assms(2) by (auto simp: moved_def heap_ok_def)
    have "ctx \<noteq> 0" using cell(1) hp by (metis heap_ok_def option.distinct(1))
    then have "nbind (Close ctx) Close s' = Some (Ok 0, s'\<lparr> ns_cells := (ns_cells s')(ctx := None) \<rparr>)"
      by (simp add: Close_def nbind_def nfree_def cell nret_def)
    moreover have "(ns_cells s')(ctx := None) = ns_cells s" using new rest by auto
    ultimately show ?thesis using run flt Ok c cell hp new rest by (auto simp: has_ctx_def same_heap_def)
  qed (use run flt mv in \<open>auto simp: same_heap_def moved_def\<close>)
qed

theorem context_lifecycle_witness:
  "batch_ok small_params \<and> heap_ok one_ctx \<and> (\<exists>r s'. NewCryptoContext plain_lib small_params one_ctx = Some (r, s') \<and> ns_fault s' = ns_fault one_ctx)"
  using small_params_ok one_ctx_ok context_lifecycle [OF small_params_ok, of one_ctx plain_lib] by (auto simp: has_ctx_def)

section \<open>What the validators accept\<close>

text \<open>
  The validators of per-index shares accept exactly the consistent sets: there is a party; every party has submitted something, each share is
  usable (a non-empty key, or a reference that is either full or a pair of halves), no party has an index twice, and all parties have the
  same set of indices. The indices are then those of the first party in its order, and the keyed shares are the parties' own.
\<close>

theorem validators_accept_consistent:
  "(validateIndexedEvalSumShares byParty = Inr (indices, keyed) \<longleftrightarrow>
      byParty \<noteq> [] \<and>
      (\<forall>shares \<in> set byParty. shares \<noteq> [] \<and> (\<forall>s \<in> set shares. ik_Key s \<noteq> []) \<and> distinct (map ik_Index shares) \<and>
         ik_Index ` set shares = ik_Index ` set (hd byParty)) \<and>
      indices = map ik_Index (hd byParty) \<and> keyed = map (map (\<lambda>s. (ik_Index s, ik_Key s))) byParty) \<and>
   (validateIndexedEvalSumShareRefs refs = Inr (indices', keyed') \<longleftrightarrow>
      refs \<noteq> [] \<and>
      (\<forall>shares \<in> set refs. shares \<noteq> [] \<and> (\<forall>s \<in> set shares. validIndexedEvalSumKeyRef s) \<and> distinct (map kr_Index shares) \<and>
         kr_Index ` set shares = kr_Index ` set (hd refs)) \<and>
      indices' = map kr_Index (hd refs) \<and> keyed' = map (map (\<lambda>s. (kr_Index s, s))) refs)"
  unfolding validateIndexedEvalSumShares_def validateIndexedEvalSumShareRefs_def validate_shares_iff well_formed_parties_def by (intro conjI refl)

definition two_keys :: "indexed_key list list" where
  "two_keys = [[\<lparr> ik_Index = 1, ik_Key = [5] \<rparr>, \<lparr> ik_Index = -2, ik_Key = [6] \<rparr>], [\<lparr> ik_Index = -2, ik_Key = [7] \<rparr>, \<lparr> ik_Index = 1, ik_Key = [8] \<rparr>]]"

theorem validators_accept_consistent_witness:
  "validateIndexedEvalSumShares two_keys = Inr ([1, -2], [[(1, [5]), (-2, [6])], [(-2, [7]), (1, [8])]]) \<and>
   validateIndexedEvalSumShareRefs two_refs = Inr ([1], map (map (\<lambda>s. (kr_Index s, s))) two_refs)"
  using validators_accept_consistent [of two_keys "[1, -2]" "[[(1, [5]), (-2, [6])], [(-2, [7]), (1, [8])]]" two_refs "[1]" "map (map (\<lambda>s. (kr_Index s, s))) two_refs"]
  by (auto simp: two_keys_def two_refs_def validIndexedEvalSumKeyRef_def)

section \<open>Lists the guards do not check\<close>

lemma computes_panic_scoped:
  assumes "computes [] H m sp (handle k) []" "is_ok sp" "\<And>x v. computes [] ((x, exactly k v) # H) (body x) (Panic p) R []"
  shows "computes [] H (scoped m k body) (Panic p) R []"
proof -
  obtain v where v: "sp = Ok v" using assms(2) by (auto simp: is_ok_iff)
  have "computes [] H (scoped m k body) (obind sp (\<lambda>_. Panic p)) R []"
    by (rule computes_scoped [OF assms(1)]) (use assms(3) in simp_all)
  then show ?thesis by (simp add: v)
qed

text \<open>
  The variants of the combiners that take a context have no guard of their own. On empty lists
  \<^verbatim>\<open>CombineEvalMultSwitchSharesWithContext\<close> panics, and so does \<^verbatim>\<open>CombineEvalKeyRound2WithContext\<close> without final shares once the other
  keys could be read; their frees still run. With fewer public keys than shares the first one makes the C side read past the end of the array.
\<close>

theorem unguarded_combiners:
  assumes "has_ctx s ctx c" "pk \<noteq> []" "sumFinal \<noteq> []" "m1 \<noteq> []" "m2 \<noteq> []"
    and "lib_fun L DeserializePublicKey [c] [pk] \<noteq> None" "lib_fun L DeserializeRotKey [c] [sumFinal] \<noteq> None"
    and "lib_fun L DeserializeEvalMultKey [c] [m1] \<noteq> None" "lib_fun L DeserializeEvalMultKey [c] [m2] \<noteq> None"
  shows "CombineEvalMultSwitchSharesWithContext L ctx [] [] s = Some (Panic ''runtime error: index out of range'', s) \<and>
    (\<exists>s'. CombineEvalKeyRound2WithContext L ctx pk [] sumFinal s = Some (Panic ''runtime error: index out of range'', s') \<and> same_heap s s') \<and>
    (\<exists>r s'. CombineEvalMultSwitchSharesWithContext L ctx [pk] [m1, m2] s = Some (r, s') \<and> ns_fault s' = Suc (ns_fault s))"
proof (intro conjI)
  show "CombineEvalMultSwitchSharesWithContext L ctx [] [] s = Some (Panic ''runtime error: index out of range'', s)"
    by (simp add: CombineEvalMultSwitchSharesWithContext_def switch_joined_def deserializePublicKeys_def deserializeEvalMultKeys_def scoped_all_def
        scoped_def combine_mult_switch_def out_of_range_def nbind_def nret_def npanic_def deferring_def)
  have "computes [] (handle CryptoContextHandle ctx c) (CombineEvalKeyRound2WithContext L ctx pk [] sumFinal) (Panic ''runtime error: index out of range'') same []"
    unfolding CombineEvalKeyRound2WithContext_def
  proof (rule computes_panic_scoped [OF computes_deserialize(1)])
    fix x v
    show "computes [] ((x, exactly PublicKeyHandle v) # handle CryptoContextHandle ctx c)
       (scoped_all (deserialize_shares (deserializeEvalMultKey L ctx) [] []) EvalMultKeyHandle (\<lambda>finalShares.
        scoped (deserializeRotKey L ctx sumFinal) RotKeyHandle (\<lambda>sumFinal'.
        nbind (combine_mult_final L ''combine eval-mult final shares failed'' ctx x finalShares) (\<lambda>final.
        nbind (freeing EvalMultKeyHandle final (serializeEvalMultKey L final)) (\<lambda>finalBytes.
          nret \<lparr> ek_EvalMultFinal = finalBytes, ek_EvalSumFinal = sumFinal \<rparr>)))))
       (Panic ''runtime error: index out of range'') same []" (is "computes [] ?H ?m ?sp same []")
    proof -
      have "computes [] ?H (scoped (deserializeRotKey L ctx sumFinal) RotKeyHandle (\<lambda>sumFinal'. npanic ''runtime error: index out of range'')) ?sp same []"
        by (rule computes_panic_scoped [OF computes_deserialize(2)]) (use assms in \<open>auto simp: rot_spec_def build_spec_def is_ok_iff intro: computes_npanic\<close>)
      also have "scoped (deserializeRotKey L ctx sumFinal) RotKeyHandle (\<lambda>sumFinal'. npanic ''runtime error: index out of range'') = ?m"
        by (rule ext) (simp add: scoped_all_def scoped_def combine_mult_final_def nbind_def nret_def npanic_def deferring_def nfree_def
            split: option.splits outcome.splits)
      finally show ?thesis .
    qed
  qed (use assms in \<open>auto simp: pk_spec_def build_spec_def is_ok_iff\<close>)
  from computes_run [OF this assms(1)] show "\<exists>s'. CombineEvalKeyRound2WithContext L ctx pk [] sumFinal s =
      Some (Panic ''runtime error: index out of range'', s') \<and> same_heap s s'" .
  show "\<exists>r s'. CombineEvalMultSwitchSharesWithContext L ctx [pk] [m1, m2] s = Some (r, s') \<and> ns_fault s' = Suc (ns_fault s)"
  proof -
    obtain p a b where lib: "lib_fun L DeserializePublicKey [c] [pk] = Some p" "lib_fun L DeserializeEvalMultKey [c] [m1] = Some a"
      "lib_fun L DeserializeEvalMultKey [c] [m2] = Some b" using assms by blast
    have "ns_next s \<noteq> 0" "ns_cells s ctx = Some (Obj CryptoContextHandle c)" "ctx < ns_next s"
      using assms(1) by (auto simp: has_ctx_def heap_ok_def) (metis linorder_not_less option.distinct(1))
    then show ?thesis
      using assms(2,4,5) lib
      by (simp add: CombineEvalMultSwitchSharesWithContext_def switch_joined_def deserializePublicKeys_def deserializeEvalMultKeys_def scoped_all_def
          scoped_def combine_mult_switch_def nfault_def nbind_def nret_def deferring_def deserializePublicKey_def deserializeEvalMultKey_def c_build_def
          peek_def alloc_def on_error_def relabel_def nfree_def)
  qed
qed

theorem unguarded_combiners_witness:
  "has_ctx one_ctx 1 [] \<and> CombineEvalMultSwitchSharesWithContext plain_lib 1 [] [] one_ctx = Some (Panic ''runtime error: index out of range'', one_ctx) \<and>
   (\<exists>r s'. CombineEvalMultSwitchSharesWithContext plain_lib 1 [[7]] [[1], [2]] one_ctx = Some (r, s') \<and> ns_fault s' = Suc (ns_fault one_ctx))"
  using one_ctx_ok unguarded_combiners [OF one_ctx_ok, of "[7]" "[3]" "[1]" "[2]" plain_lib] by (simp add: plain_lib_def)

section \<open>The rotation set of the scorer\<close>

lemma doubling_shifts_powers:
  assumes "n \<le> 2 ^ 62" "i \<le> 62"
  shows "\<exists>k. doubling_shifts n (2 ^ i) = Some (map (\<lambda>j. 2 ^ j) [i..<k]) \<and> (\<forall>j \<ge> i. j < k \<longleftrightarrow> 2 ^ j < n)"
  using assms(2)
proof (induction "62 - i" arbitrary: i)
  case 0
  then have "\<not> (2 :: int) ^ i < n" using assms by simp
  then have "doubling_shifts n (2 ^ i) = Some (map (\<lambda>j. 2 ^ j) [i..<i])" by (simp add: doubling_shifts.simps)
  moreover have "j < i \<longleftrightarrow> 2 ^ j < n" if "j \<ge> i" for j
    using that \<open>\<not> (2 :: int) ^ i < n\<close> power_increasing [OF that, of "2 :: int"] by linarith
  ultimately show ?case by blast
next
  case (Suc d)
  show ?case
  proof (cases "(2 :: int) ^ i < n")
    case True
    have i: "i < 62" using Suc.hyps(2) by simp
    have w: "wrap64 (2 ^ i * 2) = 2 ^ Suc i" using i by (rule wrap64_double)
    obtain k where k: "doubling_shifts n (2 ^ Suc i) = Some (map (\<lambda>j. 2 ^ j) [Suc i..<k])" "\<And>j. j \<ge> Suc i \<Longrightarrow> j < k \<longleftrightarrow> 2 ^ j < n"
      using Suc.hyps(1) [of "Suc i"] Suc.hyps(2) i by (metis Suc_diff_Suc Suc_leI diff_Suc_1)
    define k' where "k' = max k (Suc i)"
    have "doubling_shifts n (2 ^ i) = Some (2 ^ i # map (\<lambda>j. 2 ^ j) [Suc i..<k])"
      using True k(1) unfolding w [symmetric] by (subst doubling_shifts.simps) simp
    also have "2 ^ i # map (\<lambda>j. 2 ^ j) [Suc i..<k] = map (\<lambda>j. 2 ^ j) [i..<k']"
      by (cases "Suc i \<le> k") (simp_all add: k'_def upt_conv_Cons max_def)
    finally have "doubling_shifts n (2 ^ i) = Some (map (\<lambda>j. 2 ^ j) [i..<k'])" .
    moreover have "j < k' \<longleftrightarrow> 2 ^ j < n" if "j \<ge> i" for j
      using k(2) [of j] True that by (cases "j = i") (auto simp: k'_def)
    ultimately show ?thesis by blast
  next
    case False
    then have "doubling_shifts n (2 ^ i) = Some (map (\<lambda>j. 2 ^ j) [i..<i])" by (simp add: doubling_shifts.simps)
    moreover have "j < i \<longleftrightarrow> 2 ^ j < n" if "j \<ge> i" for j
      using that False power_increasing [OF that, of "2 :: int"] by linarith
    ultimately show ?thesis by blast
  qed
qed

lemma doubling_shifts_loops:
  assumes "2 ^ 62 < n" shows "doubling_shifts n 1 = None"
proof -
  define S where "S = {s :: int. s = 0 \<or> s = - (2 ^ 63) \<or> (\<exists>i \<le> 62. s = 2 ^ i)}"
  have below: "s < n" if "s \<in> S" for s
  proof -
    have "(2 :: int) ^ i \<le> 2 ^ 62" if "i \<le> 62" for i using that by (intro power_increasing) simp_all
    then show ?thesis using that assms by (fastforce simp: S_def)
  qed
  have closed: "wrap64 (s * 2) \<in> S" if "s \<in> S" for s
  proof -
    have "wrap64 (2 ^ i * 2) \<in> S" if "i \<le> 62" for i
    proof (cases "i = 62")
      case True
      then show ?thesis by (simp add: S_def wrap64_def signed_take_bit_int_eq_self_iff)
    next
      case False
      then have "wrap64 (2 ^ i * 2) = 2 ^ Suc i" using that by (intro wrap64_double) simp
      then show ?thesis using False that by (auto simp: S_def intro!: exI [of _ "Suc i"])
    qed
    moreover have "wrap64 0 \<in> S" "wrap64 (- (2 ^ 63) * 2) \<in> S" by (simp_all add: S_def wrap64_def)
    ultimately show ?thesis using that by (auto simp: S_def)
  qed
  have "s \<notin> S" if "doubling_shifts n s = Some r" for s r
  proof -
    have "n = n \<longrightarrow> s \<notin> S"
      using that
    proof (rule doubling_shifts.raw_induct [where P = "\<lambda>m s r. m = n \<longrightarrow> s \<notin> S", rotated], goal_cases)
      case (1 f m s r)
      then show ?case using below closed by (fastforce split: if_splits bind_splits)
    qed
    then show ?thesis by simp
  qed
  moreover have "1 \<in> S" by (auto simp: S_def intro!: exI [of _ 0])
  ultimately show ?thesis by (cases "doubling_shifts n 1") auto
qed

text \<open>
  The rotation set of the scorer is the powers of two below the profile dimension and the negated powers of two below the number of payload
  slots, in increasing size; the 64-bit doubling loop ends exactly when neither is above \<open>2^62\<close>.
\<close>

theorem rotation_indices_powers:
  "(if profileDim \<le> 2 ^ 62 \<and> payloadSlots \<le> 2 ^ 62
    then \<exists>k l. minimalRotationIndices profileDim payloadSlots = Some (map (\<lambda>j. 2 ^ j) [0..<k] @ map (\<lambda>j. - (2 ^ j)) [0..<l]) \<and>
           (\<forall>j. (j < k) = (2 ^ j < profileDim)) \<and> (\<forall>j. (j < l) = (2 ^ j < payloadSlots))
    else minimalRotationIndices profileDim payloadSlots = None)"
proof (cases "profileDim \<le> 2 ^ 62")
  case True
  obtain k where k: "doubling_shifts profileDim 1 = Some (map (\<lambda>j. 2 ^ j) [0..<k])" "\<forall>j. (j < k) = (2 ^ j < profileDim)"
    using doubling_shifts_powers [OF True, of 0] by auto
  show ?thesis
  proof (cases "payloadSlots \<le> 2 ^ 62")
    case le: True
    obtain l where l: "doubling_shifts payloadSlots 1 = Some (map (\<lambda>j. 2 ^ j) [0..<l])" "\<forall>j. (j < l) = (2 ^ j < payloadSlots)"
      using doubling_shifts_powers [OF le, of 0] by auto
    show ?thesis unfolding if_P [OF conjI [OF True le]]
      by (intro exI [of _ k] exI [of _ l] conjI k(2) l(2)) (simp add: minimalRotationIndices_def k(1) l(1) comp_def)
  next
    case False
    then show ?thesis using True k(1) doubling_shifts_loops [of payloadSlots] by (simp add: minimalRotationIndices_def)
  qed
next
  case False
  then show ?thesis using doubling_shifts_loops [of profileDim] by (simp add: minimalRotationIndices_def)
qed

end
