(* ===== verification/Bridge_Eval.thy ===== *)
theory Bridge_Eval
  imports Bridge_Round1
begin

text \<open>
  The evaluator of \<^verbatim>\<open>pkg/ares/crypto/cgo/bridge.go\<close>: encryption, arithmetic on ciphertexts, polynomials, the encrypted argmax, partial and
  single-key decryption, and the single-key auction. As in \<open>Bridge_Keys\<close>, functions that differ by the scheme only share their body.

  Floating-point arithmetic rounds after every operation (Go fuses a product and a sum on some processors).
\<close>

section \<open>Calls\<close>

fun alloc_all :: "hkind \<Rightarrow> 'o list \<Rightarrow> ('o, 'g, nat list) prog" where
  "alloc_all k [] = nret []"
| "alloc_all k (c # cs) = nbind (alloc (Obj k c)) (\<lambda>x. nbind (alloc_all k cs) (\<lambda>xs. nret (x # xs)))"

text \<open>The C side fills an array of as many masks as there are ciphertexts.\<close>

definition c_argmax :: "('o, 'g) openfhe \<Rightarrow> nat \<Rightarrow> nat list \<Rightarrow> f64 list \<Rightarrow> (int \<Rightarrow> string) \<Rightarrow> ('o, 'g, nat list) prog" where
  "c_argmax L ctx cts sharp msg =
     nbind (peeks ((ctx, CryptoContextHandle) # handles CiphertextHandle cts)) (\<lambda>os.
     with_world (lib_argmax L os sharp) (\<lambda>res.
       case res of
         Inl rc \<Rightarrow> nfail (msg rc)
       | Inr ms \<Rightarrow> if length ms = length cts then alloc_all CiphertextHandle ms else nfault))"

text \<open>Decryption into an array of \<open>room\<close> values, whose length is passed as a 32-bit number.\<close>

definition c_decrypt :: "('o, 'g) openfhe \<Rightarrow> c_dec \<Rightarrow> cells \<Rightarrow> int \<Rightarrow> string \<Rightarrow> ('o, 'g, f64 list) prog" where
  "c_decrypt L op args room msg =
     nbind (peeks args) (\<lambda>os.
     with_world (lib_dec L op os (word_of_int room)) (\<lambda>res.
       case res of None \<Rightarrow> nfail msg | Some vs \<Rightarrow> if int (length vs) \<le> room then nret vs else nfault))"

definition c_decrypt_int :: "('o, 'g) openfhe \<Rightarrow> cells \<Rightarrow> int \<Rightarrow> string \<Rightarrow> ('o, 'g, int list) prog" where
  "c_decrypt_int L args room msg =
     nbind (peeks args) (\<lambda>os.
     with_world (lib_decint L os (word_of_int room)) (\<lambda>res.
       case res of None \<Rightarrow> nfail msg | Some vs \<Rightarrow> if int (length vs) \<le> room then nret vs else nfault))"

text \<open>\<^verbatim>\<open>rc != 0 || out == nil || outLen == 0\<close> is an error; the buffer is freed in every case.\<close>

definition c_blob :: "('o, 'g) openfhe \<Rightarrow> c_blob \<Rightarrow> cells \<Rightarrow> bytes list \<Rightarrow> string \<Rightarrow> ('o, 'g, bytes) prog" where
  "c_blob L op args raws msg =
     nbind (peeks args) (\<lambda>os.
     with_world (lib_blob L op os raws) (\<lambda>(rc, out).
       case out of
         None \<Rightarrow> nfail msg
       | Some bs \<Rightarrow> scoped (alloc (Buf bs)) CBuffer (\<lambda>_. if \<not> rc \<or> bs = [] then nfail msg else copyCBytes bs)))"

definition with_mult_key :: "('o, 'g) openfhe \<Rightarrow> nat \<Rightarrow> bytes \<Rightarrow> string \<Rightarrow> ('o, 'g, 'a) prog \<Rightarrow> ('o, 'g, 'a) prog" where
  "with_mult_key L ctx key msg body =
     scoped (deserializeEvalMultKey L ctx key) EvalMultKeyHandle (\<lambda>multKey.
     nbind (c_insert L InsertEvalMultKey [(ctx, CryptoContextHandle), (multKey, EvalMultKeyHandle)] msg) (\<lambda>_. body))"

definition with_sum_key :: "('o, 'g) openfhe \<Rightarrow> nat \<Rightarrow> bytes \<Rightarrow> string \<Rightarrow> ('o, 'g, 'a) prog \<Rightarrow> ('o, 'g, 'a) prog" where
  "with_sum_key L ctx key msg body =
     scoped (deserializeRotKey L ctx key) RotKeyHandle (\<lambda>sumKey.
     nbind (c_insert L InsertEvalSumKey [(ctx, CryptoContextHandle), (sumKey, RotKeyHandle)] msg) (\<lambda>_. body))"

definition with_ct :: "('o, 'g) openfhe \<Rightarrow> nat \<Rightarrow> bytes \<Rightarrow> (nat \<Rightarrow> ('o, 'g, 'a) prog) \<Rightarrow> ('o, 'g, 'a) prog" where
  "with_ct L ctx raw body = scoped (deserializeCiphertext L ctx raw) CiphertextHandle body"

abbreviation cts_of :: "nat \<Rightarrow> nat list \<Rightarrow> cells" where "cts_of ctx xs \<equiv> (ctx, CryptoContextHandle) # handles CiphertextHandle xs"

definition ct_bytes :: "('o, 'g) openfhe \<Rightarrow> c_new \<Rightarrow> cells \<Rightarrow> string \<Rightarrow> ('o, 'g, bytes) prog" where
  "ct_bytes L op args msg = scoped (c_make L op args msg) CiphertextHandle (serializeCiphertext L)"

section \<open>Products and sums\<close>

definition product_sum :: "('o, 'g) openfhe \<Rightarrow> string \<Rightarrow> nat \<Rightarrow> bytes \<Rightarrow> bytes \<Rightarrow> int \<Rightarrow> ('o, 'g, bytes) prog" where
  "product_sum L sch ctx leftCiphertext rightCiphertext nSlots =
     with_ct L ctx leftCiphertext (\<lambda>left.
     with_ct L ctx rightCiphertext (\<lambda>right.
     scoped (c_make L EvalMult_c (cts_of ctx [left, right]) (sch @ ''eval-mult failed'')) CiphertextHandle (\<lambda>product.
     ct_bytes L (EvalSum_c (word_of_int nSlots)) (cts_of ctx [product]) (sch @ ''eval-sum failed''))))"

definition evalProductSumInContext :: "('o, 'g) openfhe \<Rightarrow> nat \<Rightarrow> bytes \<Rightarrow> bytes \<Rightarrow> int \<Rightarrow> ('o, 'g, bytes) prog" where
  "evalProductSumInContext L ctx leftCiphertext rightCiphertext nSlots = product_sum L '''' ctx leftCiphertext rightCiphertext nSlots"

definition with_eval_keys :: "('o, 'g) openfhe \<Rightarrow> string \<Rightarrow> eval_key_final \<Rightarrow> ('o, 'g, 'a) prog \<Rightarrow> nat \<Rightarrow> ('o, 'g, 'a) prog" where
  "with_eval_keys L sch evalKeys body ctx =
     with_mult_key L ctx (ek_EvalMultFinal evalKeys) (''insert '' @ sch @ ''eval-mult key failed'')
       (with_sum_key L ctx (ek_EvalSumFinal evalKeys) (''insert '' @ sch @ ''eval-sum key failed'') body)"

definition EvalProductSumForContract :: "('o, 'g) openfhe \<Rightarrow> cgo_params \<Rightarrow> eval_key_final \<Rightarrow> bytes \<Rightarrow> bytes \<Rightarrow> int \<Rightarrow> ('o, 'g, bytes) prog" where
  "EvalProductSumForContract L ps evalKeys leftCiphertext rightCiphertext nSlots =
     (if ek_EvalMultFinal evalKeys = [] \<or> ek_EvalSumFinal evalKeys = [] then nfail ''eval-mult and eval-sum keys are required''
      else if nSlots \<le> 0 then nfail ''nSlots must be positive''
      else ckks L ps (\<lambda>ctx. with_eval_keys L '''' evalKeys (evalProductSumInContext L ctx leftCiphertext rightCiphertext nSlots) ctx))"

definition EvalProductSumBFVForContract :: "('o, 'g) openfhe \<Rightarrow> bfv_params \<Rightarrow> eval_key_final \<Rightarrow> bytes \<Rightarrow> bytes \<Rightarrow> int \<Rightarrow> ('o, 'g, bytes) prog" where
  "EvalProductSumBFVForContract L ps evalKeys leftCiphertext rightCiphertext nSlots =
     (if ek_EvalMultFinal evalKeys = [] \<or> ek_EvalSumFinal evalKeys = [] then nfail ''eval-mult and eval-sum keys are required''
      else if nSlots \<le> 0 then nfail ''nSlots must be positive''
      else bfv L ps (\<lambda>ctx. with_eval_keys L ''BFV '' evalKeys (product_sum L ''BFV '' ctx leftCiphertext rightCiphertext nSlots) ctx))"

definition EvalProductSumForContractWithEvalSumRefs ::
  "('o, 'g) openfhe \<Rightarrow> cgo_params \<Rightarrow> eval_key_final \<Rightarrow> bytes \<Rightarrow> bytes \<Rightarrow> int \<Rightarrow> bytes list \<Rightarrow> key_ref list list \<Rightarrow> resolver option \<Rightarrow> ('o, 'g, bytes) prog" where
  "EvalProductSumForContractWithEvalSumRefs L ps evalKeys leftCiphertext rightCiphertext nSlots publicKeys evalSumRefsByParty resolve =
     (if ek_EvalMultFinal evalKeys = [] then nfail ''eval-mult key is required''
      else if nSlots \<le> 0 then nfail ''nSlots must be positive''
      else if resolve = None then nfail ''eval-sum key resolver is required''
      else ckks L ps (\<lambda>ctx.
        with_mult_key L ctx (ek_EvalMultFinal evalKeys) ''insert eval-mult key failed'' (
        nbind (relabel ''insert per-index eval-sum keys'' (insertEvalSumPerIndexLazy L ctx publicKeys evalSumRefsByParty resolve)) (\<lambda>_.
        evalProductSumInContext L ctx leftCiphertext rightCiphertext nSlots))))"

section \<open>Arithmetic on two ciphertexts\<close>

definition maybe_mult_key :: "('o, 'g) openfhe \<Rightarrow> nat \<Rightarrow> bytes \<Rightarrow> string \<Rightarrow> ('o, 'g, 'a) prog \<Rightarrow> ('o, 'g, 'a) prog" where
  "maybe_mult_key L ctx key msg body = (if key \<noteq> [] then with_mult_key L ctx key msg body else body)"

definition binary_op :: "string \<Rightarrow> c_new option" where
  "binary_op op =
     (if op = ''EvalAdd'' then Some EvalAdd_c else if op = ''EvalSub'' then Some EvalSub_c else if op = ''EvalMult'' then Some EvalMult_c else None)"

definition evalBinaryCKKS :: "('o, 'g) openfhe \<Rightarrow> cgo_params \<Rightarrow> bytes \<Rightarrow> bytes \<Rightarrow> bytes \<Rightarrow> string \<Rightarrow> ('o, 'g, bytes) prog" where
  "evalBinaryCKKS L ps evalMultKey ctA ctB op =
     (if ctA = [] \<or> ctB = [] then nfail (op @ '': both ciphertexts are required'')
      else ckks L ps (\<lambda>cctx.
        maybe_mult_key L cctx evalMultKey (op @ '': insert eval-mult key failed'') (
        with_ct L cctx ctA (\<lambda>a.
        with_ct L cctx ctB (\<lambda>b.
          case binary_op op of
            None \<Rightarrow> nfail (''evalBinaryCKKS: unknown op '' @ [CHR 0x22] @ op @ [CHR 0x22])
          | Some c \<Rightarrow> ct_bytes L c (cts_of cctx [a, b]) (op @ '' failed''))))))"

definition EvalAddCKKSForContract :: "('o, 'g) openfhe \<Rightarrow> cgo_params \<Rightarrow> bytes \<Rightarrow> bytes \<Rightarrow> ('o, 'g, bytes) prog" where
  "EvalAddCKKSForContract L ps ctA ctB = evalBinaryCKKS L ps [] ctA ctB ''EvalAdd''"
definition EvalSubCKKSForContract :: "('o, 'g) openfhe \<Rightarrow> cgo_params \<Rightarrow> bytes \<Rightarrow> bytes \<Rightarrow> ('o, 'g, bytes) prog" where
  "EvalSubCKKSForContract L ps ctA ctB = evalBinaryCKKS L ps [] ctA ctB ''EvalSub''"
definition EvalMultCKKSForContract :: "('o, 'g) openfhe \<Rightarrow> cgo_params \<Rightarrow> bytes \<Rightarrow> bytes \<Rightarrow> bytes \<Rightarrow> ('o, 'g, bytes) prog" where
  "EvalMultCKKSForContract L ps evalMultKey ctA ctB =
     (if evalMultKey = [] then nfail ''eval-mult key is required'' else evalBinaryCKKS L ps evalMultKey ctA ctB ''EvalMult'')"

definition EvalConstMultCKKSForContract :: "('o, 'g) openfhe \<Rightarrow> cgo_params \<Rightarrow> bytes \<Rightarrow> f64 \<Rightarrow> ('o, 'g, bytes) prog" where
  "EvalConstMultCKKSForContract L ps ct scalar =
     (if ct = [] then nfail ''ciphertext is required''
      else ckks L ps (\<lambda>cctx. with_ct L cctx ct (\<lambda>ctH. ct_bytes L (EvalMultConst scalar) (cts_of cctx [ctH]) ''eval-mult-const failed'')))"

definition RoundTripCiphertext :: "('o, 'g) openfhe \<Rightarrow> cgo_params \<Rightarrow> bytes \<Rightarrow> ('o, 'g, bytes) prog" where
  "RoundTripCiphertext L ps ct =
     (if ct = [] then nfail ''ciphertext is required'' else ckks L ps (\<lambda>cctx. with_ct L cctx ct (serializeCiphertext L)))"

text \<open>\<^verbatim>\<open>coeffs[i] != 0\<close> for some \<open>i \<ge> 1\<close>; NaN is different from 0.\<close>

definition hasNonConstantTerm :: "f64 list \<Rightarrow> bool" where
  "hasNonConstantTerm coeffs \<longleftrightarrow> list_ex (\<lambda>c. c \<noteq> Fin 0) (drop 1 coeffs)"

definition EvalPolyCKKSForContract :: "('o, 'g) openfhe \<Rightarrow> cgo_params \<Rightarrow> bytes \<Rightarrow> bytes \<Rightarrow> f64 list \<Rightarrow> ('o, 'g, bytes) prog" where
  "EvalPolyCKKSForContract L ps evalMultKey ciphertext coefficients =
     (if ciphertext = [] then nfail ''ciphertext is required''
      else if coefficients = [] then nfail ''coefficients are required''
      else if evalMultKey = [] \<and> hasNonConstantTerm coefficients then nfail ''eval-mult key is required for non-constant polynomials''
      else ckks L ps (\<lambda>ctx.
        maybe_mult_key L ctx evalMultKey ''insert eval-mult key failed'' (
        with_ct L ctx ciphertext (\<lambda>ct. ct_bytes L (EvalPolynomial coefficients) (cts_of ctx [ct]) ''eval poly failed''))))"

section \<open>The encrypted argmax\<close>

fun serialize_all :: "('o, 'g) openfhe \<Rightarrow> nat \<Rightarrow> nat list \<Rightarrow> ('o, 'g, bytes list) prog" where
  "serialize_all L i [] = nret []"
| "serialize_all L i (h # hs) =
     nbind (relabel (''serialize mask['' @ dec_nat i @ '']'') (serializeCiphertext L h)) (\<lambda>raw.
     nbind (serialize_all L (Suc i) hs) (\<lambda>rest. nret (raw # rest)))"

definition argmax_masks :: "('o, 'g) openfhe \<Rightarrow> nat \<Rightarrow> nat list \<Rightarrow> f64 list \<Rightarrow> (int \<Rightarrow> string) \<Rightarrow> ('o, 'g, bytes list) prog" where
  "argmax_masks L ctx cts sharp msg = scoped_all (c_argmax L ctx cts sharp msg) CiphertextHandle (serialize_all L 0)"

definition EvalArgmaxCKKSForContract :: "('o, 'g) openfhe \<Rightarrow> cgo_params \<Rightarrow> bytes \<Rightarrow> bytes list \<Rightarrow> f64 list \<Rightarrow> ('o, 'g, bytes list) prog" where
  "EvalArgmaxCKKSForContract L ps evalMultKey ciphertexts sharpCoeffs =
     (if length ciphertexts < 2 then nfail (''argmax needs at least 2 candidates, got '' @ dec_nat (length ciphertexts))
      else if evalMultKey = [] then nfail ''eval-mult key is required''
      else if length sharpCoeffs < 2 then nfail ''sharpening polynomial must have at least 2 coefficients''
      else ckks L ps (\<lambda>cctx.
        with_mult_key L cctx evalMultKey ''insert eval-mult key failed'' (
        scoped_all (deserialize_all (deserializeCiphertext L cctx) CiphertextHandle (\<lambda>i. ''ciphertext['' @ dec_nat i @ '']'') 0 [] ciphertexts)
          CiphertextHandle (\<lambda>hs.
          argmax_masks L cctx hs sharpCoeffs (\<lambda>rc. ''eval argmax failed (rc='' @ dec_int rc @ '')'')))))"

section \<open>Encryption and threshold decryption\<close>

definition with_pk :: "('o, 'g) openfhe \<Rightarrow> nat \<Rightarrow> bytes \<Rightarrow> (nat \<Rightarrow> ('o, 'g, 'a) prog) \<Rightarrow> ('o, 'g, 'a) prog" where
  "with_pk L ctx key body = scoped (deserializePublicKey L ctx key) PublicKeyHandle body"

abbreviation in_pk :: "nat \<Rightarrow> nat \<Rightarrow> cells" where "in_pk ctx pk \<equiv> [(ctx, CryptoContextHandle), (pk, PublicKeyHandle)]"

definition EncryptCKKSForContract :: "('o, 'g) openfhe \<Rightarrow> cgo_params \<Rightarrow> bytes \<Rightarrow> f64 list \<Rightarrow> ('o, 'g, bytes) prog" where
  "EncryptCKKSForContract L ps jointPublicKey values =
     (if jointPublicKey = [] then nfail ''joint public key is required''
      else if values = [] then nfail ''values are required''
      else ckks L ps (\<lambda>ctx. with_pk L ctx jointPublicKey (\<lambda>pk. ct_bytes L (EncryptDoubles values) (in_pk ctx pk) ''contract encryption failed'')))"

definition EncryptBFVForContract :: "('o, 'g) openfhe \<Rightarrow> bfv_params \<Rightarrow> bytes \<Rightarrow> int list \<Rightarrow> ('o, 'g, bytes) prog" where
  "EncryptBFVForContract L ps jointPublicKey values =
     (if jointPublicKey = [] then nfail ''joint public key is required''
      else if values = [] then nfail ''values are required''
      else bfv L ps (\<lambda>ctx. with_pk L ctx jointPublicKey (\<lambda>pk. ct_bytes L (EncryptPackedInt values) (in_pk ctx pk) ''BFV contract encryption failed'')))"

definition requireNonEmptyBytes :: "string \<Rightarrow> bytes \<Rightarrow> string option" where
  "requireNonEmptyBytes name b = (if b = [] then Some (name @ '' is required (empty slice)'') else None)"

definition required :: "(string \<times> bytes) list \<Rightarrow> ('o, 'g, 'a) prog \<Rightarrow> ('o, 'g, 'a) prog" where
  "required args body =
     (case find (\<lambda>(name, b). requireNonEmptyBytes name b \<noteq> None) args of
        Some (name, b) \<Rightarrow> nfail (the (requireNonEmptyBytes name b))
      | None \<Rightarrow> body)"

definition EncryptRepeatedScalarCKKSForContract :: "('o, 'g) openfhe \<Rightarrow> cgo_params \<Rightarrow> bytes \<Rightarrow> f64 \<Rightarrow> ('o, 'g, bytes) prog" where
  "EncryptRepeatedScalarCKKSForContract L ps jointPublicKey value =
     required [(''joint public key'', jointPublicKey)] (
     ckks L ps (\<lambda>ctx. with_pk L ctx jointPublicKey (\<lambda>pk.
       c_blob L (EncryptSerializedRepeatedScalarCKKS value) (in_pk ctx pk) [] ''repeated scalar encryption failed'')))"

definition EncryptRepeatedScalarBFVForContract :: "('o, 'g) openfhe \<Rightarrow> bfv_params \<Rightarrow> bytes \<Rightarrow> int \<Rightarrow> ('o, 'g, bytes) prog" where
  "EncryptRepeatedScalarBFVForContract L ps jointPublicKey value =
     required [(''joint public key'', jointPublicKey)] (
     bfv L ps (\<lambda>ctx. with_pk L ctx jointPublicKey (\<lambda>pk.
       c_blob L (EncryptSerializedRepeatedScalarBFV value) (in_pk ctx pk) [] ''repeated BFV scalar encryption failed'')))"

definition EncryptedSquaredDistanceCKKSForContract ::
  "('o, 'g) openfhe \<Rightarrow> cgo_params \<Rightarrow> bytes \<Rightarrow> bytes \<Rightarrow> bytes \<Rightarrow> f64 \<Rightarrow> f64 \<Rightarrow> ('o, 'g, bytes) prog" where
  "EncryptedSquaredDistanceCKKSForContract L ps evalMultKey originFirst originSecond localFirst localSecond =
     required [(''eval-mult key'', evalMultKey), (''origin first ciphertext'', originFirst), (''origin second ciphertext'', originSecond)] (
     ckks L ps (\<lambda>ctx. with_mult_key L ctx evalMultKey ''insert eval-mult key failed'' (
       c_blob L (ComputeSerializedSquaredDistanceCKKS localFirst localSecond) (in_ctx ctx) [originFirst, originSecond] ''encrypted squared distance failed'')))"

definition EncryptedSquaredDistanceBFVForContract ::
  "('o, 'g) openfhe \<Rightarrow> bfv_params \<Rightarrow> bytes \<Rightarrow> bytes \<Rightarrow> bytes \<Rightarrow> int \<Rightarrow> int \<Rightarrow> ('o, 'g, bytes) prog" where
  "EncryptedSquaredDistanceBFVForContract L ps evalMultKey originFirst originSecond localFirst localSecond =
     required [(''eval-mult key'', evalMultKey), (''origin first ciphertext'', originFirst), (''origin second ciphertext'', originSecond)] (
     bfv L ps (\<lambda>ctx. with_mult_key L ctx evalMultKey ''insert BFV eval-mult key failed'' (
       c_blob L (ComputeSerializedSquaredDistanceBFV localFirst localSecond) (in_ctx ctx) [originFirst, originSecond] ''encrypted BFV squared distance failed'')))"

definition partial_decrypt :: "('o, 'g) openfhe \<Rightarrow> string \<Rightarrow> bytes \<Rightarrow> bytes \<Rightarrow> bool \<Rightarrow> nat \<Rightarrow> ('o, 'g, bytes) prog" where
  "partial_decrypt L sch ciphertext secretKeyShare lead ctx =
     with_ct L ctx ciphertext (\<lambda>ct.
     scoped (deserializeSecretKeyShare L ctx secretKeyShare lead) SecretKeyShareHandle (\<lambda>sk.
     ct_bytes L MultiDecMain [(ctx, CryptoContextHandle), (ct, CiphertextHandle), (sk, SecretKeyShareHandle)] (sch @ ''contract partial decrypt failed'')))"

definition PartialDecryptCKKSForContract :: "('o, 'g) openfhe \<Rightarrow> cgo_params \<Rightarrow> bytes \<Rightarrow> bytes \<Rightarrow> bool \<Rightarrow> ('o, 'g, bytes) prog" where
  "PartialDecryptCKKSForContract L ps ciphertext secretKeyShare lead =
     (if ciphertext = [] then nfail ''ciphertext is required''
      else if secretKeyShare = [] then nfail ''secret key share is required''
      else ckks L ps (partial_decrypt L '''' ciphertext secretKeyShare lead))"
definition PartialDecryptBFVForContract :: "('o, 'g) openfhe \<Rightarrow> bfv_params \<Rightarrow> bytes \<Rightarrow> bytes \<Rightarrow> bool \<Rightarrow> ('o, 'g, bytes) prog" where
  "PartialDecryptBFVForContract L ps ciphertext secretKeyShare lead =
     (if ciphertext = [] then nfail ''ciphertext is required''
      else if secretKeyShare = [] then nfail ''secret key share is required''
      else bfv L ps (partial_decrypt L ''BFV '' ciphertext secretKeyShare lead))"

definition with_partials :: "('o, 'g) openfhe \<Rightarrow> string \<Rightarrow> bytes list \<Rightarrow> nat \<Rightarrow> (nat list \<Rightarrow> ('o, 'g, 'a) prog) \<Rightarrow> ('o, 'g, 'a) prog" where
  "with_partials L lbl partials ctx body =
     scoped_all (deserialize_all (deserializeCiphertext L ctx) CiphertextHandle (\<lambda>i. lbl @ dec_nat i) 0 [] partials) CiphertextHandle body"

definition FuseCKKSPartialsForContract :: "('o, 'g) openfhe \<Rightarrow> cgo_params \<Rightarrow> bytes list \<Rightarrow> int \<Rightarrow> ('o, 'g, f64 list) prog" where
  "FuseCKKSPartialsForContract L ps partials nSlots =
     (if partials = [] then nfail ''at least one partial decrypt share is required''
      else if nSlots \<le> 0 then nfail ''nSlots must be positive''
      else ckks L ps (\<lambda>ctx. with_partials L ''deserialize partial '' partials ctx (\<lambda>hs.
        c_decrypt L MultiDecFusion (cts_of ctx hs) nSlots ''contract partial fusion failed'')))"

definition FuseBFVPartialsForContract :: "('o, 'g) openfhe \<Rightarrow> bfv_params \<Rightarrow> bytes list \<Rightarrow> int \<Rightarrow> ('o, 'g, int list) prog" where
  "FuseBFVPartialsForContract L ps partials nSlots =
     (if partials = [] then nfail ''at least one partial decrypt share is required''
      else if nSlots \<le> 0 then nfail ''nSlots must be positive''
      else bfv L ps (\<lambda>ctx. with_partials L ''deserialize BFV partial '' partials ctx (\<lambda>hs.
        c_decrypt_int L (cts_of ctx hs) nSlots ''BFV contract partial fusion failed'')))"

section \<open>The evaluator frees what it makes\<close>

text \<open>What the C side promises: a mask for every ciphertext, and no more values than there is room for.\<close>

definition masks_ok :: "('o, 'g) openfhe \<Rightarrow> bool" where
  "masks_ok L \<longleftrightarrow> (\<forall>os sharp g ms. fst (lib_argmax L os sharp g) = Inr ms \<longrightarrow> length os = Suc (length ms))"

definition room_ok :: "('o, 'g) openfhe \<Rightarrow> bool" where
  "room_ok L \<longleftrightarrow>
     (\<forall>op os n g vs. fst (lib_dec L op os n g) = Some vs \<longrightarrow> int (length vs) \<le> (if 0 < sint n then sint n else 2 ^ 31 - 1)) \<and>
     (\<forall>os n g vs. fst (lib_decint L os n g) = Some vs \<longrightarrow> int (length vs) \<le> (if 0 < sint n then sint n else 2 ^ 31 - 1))"

lemma sint_word_of_int_le: "0 \<le> (i :: int) \<Longrightarrow> sint (word_of_int i :: 32 word) \<le> i"
proof -
  assume i: "0 \<le> i"
  have "sint (word_of_int i :: 32 word) \<le> uint (word_of_int i :: 32 word)"
    unfolding sint_uint signed_take_bit_int_less_eq_self_iff by (rule order_trans [of _ 0]) simp_all
  also have "\<dots> \<le> i" using i by (simp add: unsigned_of_int take_bit_int_less_eq_self_iff)
  finally show ?thesis .
qed

lemma room_enough:
  assumes "0 < room" "int n \<le> (if 0 < sint (word_of_int room :: 32 word) then sint (word_of_int room :: 32 word) else 2 ^ 31 - 1)"
  shows "int n \<le> room"
proof (cases "0 < sint (word_of_int room :: 32 word)")
  case True
  then show ?thesis using assms sint_word_of_int_le [of room] by simp
next
  case False
  have "2 ^ 31 \<le> room"
  proof (rule ccontr)
    assume "\<not> 2 ^ 31 \<le> room"
    then have "sint (word_of_int room :: 32 word) = room"
      using assms(1) by (simp add: sint_sbintrunc' signed_take_bit_int_eq_self)
    then show False using False assms(1) by simp
  qed
  then show ?thesis using assms(2) False by simp
qed

lemma secure_with_world_result:
  fixes k :: "'x \<Rightarrow> ('o, 'g, 'a) prog"
  assumes k: "\<And>g. secure H own (k (fst (f g)))" shows "secure H own (with_world f k)"
proof -
  have eq: "with_world f k = with_world f (\<lambda>v. if v \<in> range (fst \<circ> f) then k v else nfail [])"
  proof
    fix s :: "('o, 'g) native"
    have "fst (f (ns_world s)) \<in> range (fst \<circ> f)" by simp
    then show "with_world f k s = with_world f (\<lambda>v. if v \<in> range (fst \<circ> f) then k v else nfail []) s"
      by (cases "f (ns_world s)") (simp add: with_world_def)
  qed
  show ?thesis unfolding eq by (intro secure_with_world secure_if secure_nfail) (use k in auto)
qed

lemma peeks_length: "peeks args s = Some (Ok os, s') \<Longrightarrow> length os = length args"
proof (induction args arbitrary: os s)
  case (Cons xk args)
  obtain x k where "xk = (x, k)" by fastforce
  then show ?case using Cons by (auto simp: nbind_def nret_def split: option.splits outcome.splits)
qed (simp add: nret_def)

lemma secure_peeks_length:
  assumes args: "set args \<subseteq> set H" "CBuffer \<notin> snd ` set args" and k: "\<And>os. length os = length args \<Longrightarrow> secure H own (k os)"
  shows "secure H own (nbind (peeks args) k)"
proof -
  have eq: "nbind (peeks args) k = nbind (peeks args) (\<lambda>os. if length os = length args then k os else nfail [])"
    by (rule ext) (auto simp: nbind_def dest: peeks_length split: option.splits outcome.splits)
  show ?thesis unfolding eq using args by (intro secure_intros k) auto
qed

lemma secure_alloc_all: "secure H (handles k) (alloc_all k cs :: ('o, 'g, nat list) prog)"
proof (induction cs arbitrary: H)
  case Nil
  show ?case by (simp add: secure_nret)
next
  case (Cons c cs)
  have ok: "alloc_all k cs s = Some (r, s') \<Longrightarrow> is_ok r" for cs and s s' :: "('o, 'g) native" and r
    by (induction cs arbitrary: s r) (auto simp: nret_def nbind_def alloc_def is_ok_iff split: option.splits outcome.splits; fastforce simp: is_ok_iff)+
  show ?case unfolding alloc_all.simps
  proof (rule secure_extend [where ?own1.0 = "\<lambda>x. [(x, k)]" and ?own2.0 = "\<lambda>x xs. handles k (tl xs)"])
    show "secure H (\<lambda>x. [(x, k)]) (alloc (Obj k c) :: ('o, 'g, nat) prog)" by (rule secure_alloc) simp
    show "secure ([(x, k)] @ H) (\<lambda>xs. handles k (tl xs)) (nbind (alloc_all k cs) (\<lambda>xs. nret (x # xs)) :: ('o, 'g, nat list) prog)" for x
      unfolding secure_def
    proof (rule triple_bind [where Q = "owned (\<lambda>a. kinds (handles k a))"])
      show "triple [] (kinds ([(x, k)] @ H)) (alloc_all k cs :: ('o, 'g, nat list) prog) (owned (\<lambda>a. kinds (handles k a)))"
        using Cons.IH [of "[(x, k)] @ H"] unfolding secure_def .
    qed (simp_all add: triple_nil_nret)
    show "is_ok r" if "nbind (alloc_all k cs) (\<lambda>xs. nret (x # xs)) s = Some (r, s')" for x and s s' :: "('o, 'g) native" and r
      using that ok by (auto simp: nbind_def nret_def is_ok_iff split: option.splits outcome.splits; fastforce simp: is_ok_iff)
  qed (auto simp: nbind_def nret_def split: option.splits outcome.splits)
qed

lemma secure_case_sum: "(\<And>e. v = Inl e \<Longrightarrow> secure H own (a e)) \<Longrightarrow> (\<And>x. v = Inr x \<Longrightarrow> secure H own (b x)) \<Longrightarrow> secure H own (case v of Inl e \<Rightarrow> a e | Inr x \<Rightarrow> b x)"
  by (cases v) auto

lemma secure_c_argmax [secure_intros]:
  assumes "masks_ok L" "(ctx, CryptoContextHandle) \<in> set H" "set (handles CiphertextHandle cts) \<subseteq> set H"
  shows "secure H (handles CiphertextHandle) (c_argmax L ctx cts sharp msg)"
  unfolding c_argmax_def
proof (rule secure_peeks_length)
  fix os :: "'a list" assume "length os = length (cts_of ctx cts)"
  then show "secure H (handles CiphertextHandle) (with_world (lib_argmax L os sharp) (\<lambda>res. case res of Inl rc \<Rightarrow> nfail (msg rc)
       | Inr ms \<Rightarrow> if length ms = length cts then alloc_all CiphertextHandle ms else nfault))"
    using assms(1) unfolding masks_ok_def
    by (intro secure_with_world_result secure_case_sum secure_nfail) (auto intro: secure_alloc_all)
qed (use assms in auto)

lemma secure_c_decrypt [secure_intros]:
  assumes "room_ok L" "0 < room" "set args \<subseteq> set H" "CBuffer \<notin> snd ` set args"
  shows "secure H nothing (c_decrypt L op args room msg)" "secure H nothing (c_decrypt_int L args room msg)"
proof -
  have d: "int (length vs) \<le> room" if "fst (lib_dec L op os (word_of_int room) g) = Some vs" for os g vs
    using assms(1) that by (intro room_enough [OF assms(2)]) (simp add: room_ok_def)
  show "secure H nothing (c_decrypt L op args room msg)"
    unfolding c_decrypt_def using assms(3,4) d
    by (intro secure_nbind secure_peeks secure_with_world_result secure_case_option secure_nfail secure_if secure_nret) auto
  have di: "int (length vs) \<le> room" if "fst (lib_decint L os (word_of_int room) g) = Some vs" for os g vs
    using assms(1) that by (intro room_enough [OF assms(2)]) (simp add: room_ok_def)
  show "secure H nothing (c_decrypt_int L args room msg)"
    unfolding c_decrypt_int_def using assms(3,4) di
    by (intro secure_nbind secure_peeks secure_with_world_result secure_case_option secure_nfail secure_if secure_nret) auto
qed

lemma secure_c_blob [secure_intros]:
  "set args \<subseteq> set H \<Longrightarrow> CBuffer \<notin> snd ` set args \<Longrightarrow> secure H nothing (c_blob L op args raws msg)"
  unfolding c_blob_def
  by (intro secure_nbind secure_peeks secure_with_world) (auto intro!: secure_intros secure_alloc split: prod.split option.split)

lemma secure_keyed [secure_intros]:
  assumes "(ctx, CryptoContextHandle) \<in> set H"
  shows "(\<And>x. secure ((x, EvalMultKeyHandle) # H) own body) \<Longrightarrow> secure H own (with_mult_key L ctx key msg body)"
    "(\<And>x. secure ((x, RotKeyHandle) # H) own body) \<Longrightarrow> secure H own (with_sum_key L ctx key msg body)"
    "(\<And>x. secure ((x, EvalMultKeyHandle) # H) own body) \<Longrightarrow> secure H own body \<Longrightarrow> secure H own (maybe_mult_key L ctx key msg body)"
  unfolding with_mult_key_def with_sum_key_def maybe_mult_key_def with_mult_key_def
  using assms by (auto intro!: secure_intros)

lemma secure_with_objects [secure_intros]:
  assumes "(ctx, CryptoContextHandle) \<in> set H"
  shows "(\<And>x. secure ((x, CiphertextHandle) # H) own (body x)) \<Longrightarrow> secure H own (with_ct L ctx raw body)"
    "(\<And>x. secure ((x, PublicKeyHandle) # H) own (body x)) \<Longrightarrow> secure H own (with_pk L ctx raw body)"
    "secure H (handles CiphertextHandle) (deserialize_all (deserializeCiphertext L ctx) CiphertextHandle lbl 0 [] raws)"
  unfolding with_ct_def with_pk_def
  subgoal using assms by (auto intro!: secure_intros)
  subgoal using assms by (auto intro!: secure_intros)
  subgoal using assms unfolding secure_def
    by (auto intro!: triple_deserialize_all [where hs = "[]", simplified] secure_intros steady_intros simp: deserializeCiphertext_def)
  done

lemma secure_ct_bytes [secure_intros]:
  "new_kind op = CiphertextHandle \<Longrightarrow> set args \<subseteq> set H \<Longrightarrow> CBuffer \<notin> snd ` set args \<Longrightarrow> secure H nothing (ct_bytes L op args msg)"
  unfolding ct_bytes_def by (intro secure_intros) simp_all

lemma secure_required [secure_intros]: "secure H own body \<Longrightarrow> secure H own (required args body)"
  unfolding required_def by (auto intro!: secure_intros split: option.split)

lemma secure_serialize_all [secure_intros]: "set (handles CiphertextHandle hs) \<subseteq> set H \<Longrightarrow> secure H nothing (serialize_all L i hs)"
  by (induction hs arbitrary: i) (auto intro!: secure_intros)

lemma secure_argmax_masks [secure_intros]:
  "masks_ok L \<Longrightarrow> (ctx, CryptoContextHandle) \<in> set H \<Longrightarrow> set (handles CiphertextHandle cts) \<subseteq> set H
    \<Longrightarrow> secure H nothing (argmax_masks L ctx cts sharp msg)"
  unfolding argmax_masks_def by (intro secure_intros) auto

lemma secure_eval_bodies [secure_intros]:
  assumes "(ctx, CryptoContextHandle) \<in> set H"
  shows "secure H nothing (product_sum L sch ctx l r n)"
    "secure H nothing (evalProductSumInContext L ctx l r n)"
    "secure H nothing (partial_decrypt L sch ct sk lead ctx)"
    "(\<And>hs. secure (handles CiphertextHandle hs @ H) own (body hs)) \<Longrightarrow> secure H own (with_partials L lbl partials ctx body)"
  using assms unfolding evalProductSumInContext_def product_sum_def partial_decrypt_def with_partials_def
  by (auto intro!: secure_intros)

lemma secure_with_eval_keys [secure_intros]:
  "(ctx, CryptoContextHandle) \<in> set H \<Longrightarrow> (\<And>x y. secure ((y, RotKeyHandle) # (x, EvalMultKeyHandle) # H) own body)
    \<Longrightarrow> secure H own (with_eval_keys L sch keys body ctx)"
  unfolding with_eval_keys_def by (intro secure_intros) auto

lemma new_kind_binary: "binary_op op = Some c \<Longrightarrow> new_kind c = CiphertextHandle"
  by (auto simp: binary_op_def split: if_splits)

lemma balanced_eval:
  "batch_ok ps \<Longrightarrow> balanced (EvalProductSumForContract L ps keys l r n)"
  "balanced (EvalProductSumBFVForContract L bs keys l r n)"
  "batch_ok ps \<Longrightarrow> given_readable L resolve refs \<Longrightarrow> balanced (EvalProductSumForContractWithEvalSumRefs L ps keys l r n pks refs resolve)"
  "batch_ok ps \<Longrightarrow> balanced (EvalAddCKKSForContract L ps a b)"
  "batch_ok ps \<Longrightarrow> balanced (EvalSubCKKSForContract L ps a b)"
  "batch_ok ps \<Longrightarrow> balanced (EvalMultCKKSForContract L ps key a b)"
  "batch_ok ps \<Longrightarrow> balanced (EvalConstMultCKKSForContract L ps a scalar)"
  "batch_ok ps \<Longrightarrow> balanced (RoundTripCiphertext L ps a)"
  "batch_ok ps \<Longrightarrow> balanced (EvalPolyCKKSForContract L ps key a coeffs)"
  "batch_ok ps \<Longrightarrow> masks_ok L \<Longrightarrow> balanced (EvalArgmaxCKKSForContract L ps key cts coeffs)"
  unfolding balanced_def EvalProductSumForContract_def EvalProductSumBFVForContract_def EvalProductSumForContractWithEvalSumRefs_def
    EvalAddCKKSForContract_def EvalSubCKKSForContract_def EvalMultCKKSForContract_def evalBinaryCKKS_def EvalConstMultCKKSForContract_def
    RoundTripCiphertext_def EvalPolyCKKSForContract_def EvalArgmaxCKKSForContract_def
  by (auto intro!: secure_intros dest: new_kind_binary split: option.split)

lemma balanced_crypt:
  "batch_ok ps \<Longrightarrow> balanced (EncryptCKKSForContract L ps pk fvals)"
  "balanced (EncryptBFVForContract L bs pk ivals)"
  "batch_ok ps \<Longrightarrow> balanced (EncryptRepeatedScalarCKKSForContract L ps pk x)"
  "balanced (EncryptRepeatedScalarBFVForContract L bs pk i)"
  "batch_ok ps \<Longrightarrow> balanced (EncryptedSquaredDistanceCKKSForContract L ps key o1 o2 x y)"
  "balanced (EncryptedSquaredDistanceBFVForContract L bs key o1 o2 i j)"
  "batch_ok ps \<Longrightarrow> balanced (PartialDecryptCKKSForContract L ps ct sk lead)"
  "balanced (PartialDecryptBFVForContract L bs ct sk lead)"
  "batch_ok ps \<Longrightarrow> room_ok L \<Longrightarrow> balanced (FuseCKKSPartialsForContract L ps partials n)"
  "room_ok L \<Longrightarrow> balanced (FuseBFVPartialsForContract L bs partials n)"
  unfolding balanced_def EncryptCKKSForContract_def EncryptBFVForContract_def EncryptRepeatedScalarCKKSForContract_def
    EncryptRepeatedScalarBFVForContract_def EncryptedSquaredDistanceCKKSForContract_def EncryptedSquaredDistanceBFVForContract_def
    PartialDecryptCKKSForContract_def PartialDecryptBFVForContract_def FuseCKKSPartialsForContract_def FuseBFVPartialsForContract_def
  by (auto intro!: secure_intros)

end
