(* ===== verification/Bridge_Single.thy ===== *)
theory Bridge_Single
  imports Bridge_Eval
begin

text \<open>
  The single-key functions of \<^verbatim>\<open>pkg/ares/crypto/cgo/bridge.go\<close>: key generation, encryption and decryption under one party's key, and
  the sealed-bid auction that scores encrypted bids and returns encrypted masks.
\<close>

section \<open>Keys, encryption, decryption\<close>

definition SingleKeyGen :: "('o, 'g) openfhe \<Rightarrow> cgo_params \<Rightarrow> ('o, 'g, bytes \<times> bytes) prog" where
  "SingleKeyGen L ps =
     ckks L ps (\<lambda>ctx. scoped_keys L ctx None ''keygen failed'' (\<lambda>cPk cSk.
       nbind (relabel ''serialize pk'' (serializePublicKey L cPk)) (\<lambda>pkBytes.
       nbind (relabel ''serialize sk'' (serializeSecretKeyShare L cSk)) (\<lambda>skBytes. nret (pkBytes, skBytes)))))"

definition SingleKeyGenWithEvalKey :: "('o, 'g) openfhe \<Rightarrow> cgo_params \<Rightarrow> ('o, 'g, bytes \<times> bytes \<times> bytes) prog" where
  "SingleKeyGenWithEvalKey L ps =
     ckks L ps (\<lambda>ctx. scoped_keys L ctx None ''keygen failed'' (\<lambda>cPk cSk.
       scoped (c_make L SingleKeyEvalMultKeyGenWithOutput [(ctx, CryptoContextHandle), (cSk, SecretKeyShareHandle)] ''eval-mult keygen failed'')
         EvalMultKeyHandle (\<lambda>cEvalMultKey.
       nbind (relabel ''serialize pk'' (serializePublicKey L cPk)) (\<lambda>pkBytes.
       nbind (relabel ''serialize sk'' (serializeSecretKeyShare L cSk)) (\<lambda>skBytes.
       nbind (relabel ''serialize eval-mult key'' (serializeEvalMultKey L cEvalMultKey)) (\<lambda>evalMultKeyBytes.
         nret (pkBytes, skBytes, evalMultKeyBytes)))))))"

definition single_vals :: "f64 \<Rightarrow> f64 list" where "single_vals v = [v, Fin 0, Fin 0, Fin 0]"

definition SingleKeyEncrypt :: "('o, 'g) openfhe \<Rightarrow> cgo_params \<Rightarrow> bytes \<Rightarrow> f64 \<Rightarrow> ('o, 'g, bytes) prog" where
  "SingleKeyEncrypt L ps pk value =
     (if pk = [] then nfail ''pk required''
      else ckks L ps (\<lambda>ctx.
        scoped (relabel ''deserialize pk'' (deserializePublicKey L ctx pk)) PublicKeyHandle (\<lambda>cPk.
        ct_bytes L (EncryptDoubles (single_vals value)) (in_pk ctx cPk) ''encrypt failed'')))"

abbreviation ct_sk :: "nat \<Rightarrow> nat \<Rightarrow> nat \<Rightarrow> cells" where
  "ct_sk ctx ct sk \<equiv> [(ctx, CryptoContextHandle), (ct, CiphertextHandle), (sk, SecretKeyShareHandle)]"

text \<open>\<^verbatim>\<open>make([]C.double, nSlots)\<close> panics on a negative length and \<^verbatim>\<open>&out[0]\<close> on an empty slice.\<close>

definition SingleKeyDecrypt :: "('o, 'g) openfhe \<Rightarrow> cgo_params \<Rightarrow> bytes \<Rightarrow> bytes \<Rightarrow> int \<Rightarrow> ('o, 'g, f64 list) prog" where
  "SingleKeyDecrypt L ps sk ct nSlots =
     ckks L ps (\<lambda>ctx.
     scoped (relabel ''deserialize sk'' (deserializeSecretKeyShare L ctx sk True)) SecretKeyShareHandle (\<lambda>cSk.
     scoped (relabel ''deserialize ct'' (deserializeCiphertext L ctx ct)) CiphertextHandle (\<lambda>cCt.
     if nSlots < 0 then npanic ''runtime error: makeslice: len out of range''
     else if nSlots = 0 then out_of_range
     else c_decrypt L DecryptSingle (ct_sk ctx cCt cSk) nSlots ''decrypt failed'')))"

section \<open>The argmax of plain scores\<close>

definition sharp_coeffs :: "int \<Rightarrow> f64 list" where
  "sharp_coeffs degree = (if degree = 1 then [Fin (1 / 2), Fin (1 / 2)] else [Fin (1 / 2), Fin (3 / 4), Fin 0, Fin (- 1 / 4)])"

text \<open>The loop that encrypts the scores; when one of them cannot be encrypted the earlier ones are not freed.\<close>

fun encrypt_scores :: "('o, 'g) openfhe \<Rightarrow> nat \<Rightarrow> nat \<Rightarrow> nat \<Rightarrow> f64 list \<Rightarrow> ('o, 'g, nat list) prog" where
  "encrypt_scores L ctx pk i [] = nret []"
| "encrypt_scores L ctx pk i (score # scores) =
     nbind (c_make L (EncryptDoubles (single_vals score)) (in_pk ctx pk) (''encrypt['' @ dec_nat i @ ''] failed'')) (\<lambda>ct.
     nbind (encrypt_scores L ctx pk (Suc i) scores) (\<lambda>cts. nret (ct # cts)))"

text \<open>\<^verbatim>\<open>var v C.double\<close> is 0 when nothing was written.\<close>

definition first_value :: "f64 list \<Rightarrow> f64" where "first_value vs = (case vs of [] \<Rightarrow> Fin 0 | v # _ \<Rightarrow> v)"

definition better :: "int \<times> f64 \<Rightarrow> int \<Rightarrow> f64 \<Rightarrow> int \<times> f64" where
  "better best i v = (if fst best < 0 \<or> f_lt (snd best) v then (i, v) else best)"

fun decrypt_handles :: "('o, 'g) openfhe \<Rightarrow> nat \<Rightarrow> nat \<Rightarrow> int \<Rightarrow> int \<times> f64 \<Rightarrow> nat list \<Rightarrow> ('o, 'g, f64 list \<times> int) prog" where
  "decrypt_handles L ctx sk i best [] = nret ([], fst best)"
| "decrypt_handles L ctx sk i best (m # ms) =
     nbind (c_decrypt L DecryptSingle (ct_sk ctx m sk) 1 (''decrypt mask['' @ dec_int i @ ''] failed'')) (\<lambda>vs.
     nbind (decrypt_handles L ctx sk (i + 1) (better best i (first_value vs)) ms) (\<lambda>(result, win). nret (first_value vs # result, win)))"

definition soft_params :: cgo_params where
  "soft_params = \<lparr> cg_RingDim = 16384, cg_ScalingFactor = Fin (2 ^ 50), cg_Depth = 4, cg_MinimalRotationKeys = False, cg_ProfileDim = 0,
     cg_PayloadSlotCount = 0, cg_EvalSumOnlyRotationKeys = False \<rparr>"

definition SingleKeySoftArgmin :: "('o, 'g) openfhe \<Rightarrow> f64 list \<Rightarrow> int \<Rightarrow> ('o, 'g, f64 list \<times> int) prog" where
  "SingleKeySoftArgmin L scores degree =
     (if length scores < 2 then nfail ''need >=2 scores''
      else ckks L soft_params (\<lambda>ctx. scoped_keys L ctx None ''keygen failed'' (\<lambda>pk sk.
        nbind (c_insert L SingleKeyEvalMultKeyGen [(ctx, CryptoContextHandle), (sk, SecretKeyShareHandle)] ''eval-mult keygen failed'') (\<lambda>_.
        nbind (encrypt_scores L ctx pk 0 scores) (\<lambda>cts.
        deferring (free_all CiphertextHandle cts) (
          scoped_all (c_argmax L ctx cts (sharp_coeffs degree)
                       (\<lambda>_. ''argmax failed (depth 4 insufficient for n='' @ dec_nat (length scores) @ '')'')) CiphertextHandle (\<lambda>masks.
            decrypt_handles L ctx sk 0 (-1, Fin 0) masks)))))))"

section \<open>The auction\<close>

record auction_weights =
  aw_K :: f64
  aw_WStar :: f64
  aw_WDist :: f64

definition auction_span :: "int \<Rightarrow> int \<Rightarrow> f64" where
  "auction_span floorCents capCents = (let keySpan = f_of_int (wrap64 (capCents - floorCents)) in if f_le keySpan (Fin 0) then Fin 1 else keySpan)"

definition max_key_span :: "auction_weights \<Rightarrow> f64 list \<Rightarrow> f64" where
  "max_key_span w distSqs =
     fold (\<lambda>d m. if f_lt m (f_mul (aw_WDist w) d) then f_mul (aw_WDist w) d else m) distSqs (f_add (aw_K w) (f_mul (aw_WStar w) (Fin 5)))"

definition auction_scale :: "auction_weights \<Rightarrow> f64 list \<Rightarrow> f64" where
  "auction_scale w distSqs = f_quot (rnd64 (9 / 10)) (max_key_span w distSqs)"

definition full_offset :: "auction_weights \<Rightarrow> f64 \<Rightarrow> f64 \<Rightarrow> f64 \<Rightarrow> f64 \<Rightarrow> f64 \<Rightarrow> f64" where
  "full_offset w scale keySpan floorC starNorm distSq =
     f_mul (f_neg scale) (f_sub (f_add (f_mul (aw_WStar w) (f_sub (Fin 5) starNorm)) (f_mul (aw_WDist w) distSq)) (f_quot (f_mul (aw_K w) floorC) keySpan))"

definition price_factor :: "auction_weights \<Rightarrow> f64 \<Rightarrow> f64 \<Rightarrow> f64" where
  "price_factor w scale keySpan = f_quot (f_mul (f_neg scale) (aw_K w)) keySpan"

text \<open>
  \<^verbatim>\<open>defer C.FreeCiphertext(x)\<close> in the loop: the ciphertexts the function holds, the latest first, are its variable, and all of them are
  freed when it returns.
\<close>

definition keep :: "('o, 'g, nat) prog \<Rightarrow> ('o, 'g, nat list, nat) vprog" where
  "keep m = vbind (vlift m) (\<lambda>x held. nret (Ok x, x # held))"

definition score_one ::
  "('o, 'g) openfhe \<Rightarrow> nat \<Rightarrow> nat \<Rightarrow> f64 \<Rightarrow> (nat \<Rightarrow> f64) \<Rightarrow> (nat \<Rightarrow> ('o, 'g, nat) prog) \<Rightarrow> nat \<Rightarrow> ('o, 'g, nat list, nat) vprog" where
  "score_one L ctx cPk factor offset price i =
     vbind (keep (c_make L (EncryptDoubles (single_vals (offset i))) (in_pk ctx cPk) (''encrypt offset['' @ dec_nat i @ ''] failed''))) (\<lambda>offCt.
     vbind (keep (price i)) (\<lambda>pCt.
     keep (nbind (c_make L (EvalMultConst factor) (cts_of ctx [pCt]) (''scale price['' @ dec_nat i @ ''] failed'')) (\<lambda>scaledPrice.
           freeing CiphertextHandle scaledPrice
             (c_make L EvalAdd_c (cts_of ctx [scaledPrice, offCt]) (''assemble score['' @ dec_nat i @ ''] failed''))))))"

fun score_all :: "(nat \<Rightarrow> ('o, 'g, nat list, nat) vprog) \<Rightarrow> nat list \<Rightarrow> ('o, 'g, nat list, nat list) vprog" where
  "score_all f [] = vlift (nret [])"
| "score_all f (i # is) = vbind (f i) (\<lambda>x. vbind (score_all f is) (\<lambda>xs. vlift (nret (x # xs))))"

definition auction_body ::
  "('o, 'g) openfhe \<Rightarrow> cgo_params \<Rightarrow> nat \<Rightarrow> nat \<Rightarrow> f64 list \<Rightarrow> f64 list \<Rightarrow> int \<Rightarrow> int \<Rightarrow> auction_weights \<Rightarrow> int \<Rightarrow> (nat \<Rightarrow> ('o, 'g, nat) prog) \<Rightarrow> ('o, 'g, bytes list) prog" where
  "auction_body L ps ctx cPk starNorms distSqs floorCents capCents w degree price =
     (let n = length starNorms; keySpan = auction_span floorCents capCents; scale = auction_scale w distSqs;
          offset = (\<lambda>i. full_offset w scale keySpan (f_of_int floorCents) (starNorms ! i) (distSqs ! i))
      in vscope [] (free_all CiphertextHandle) (
           vbind (score_all (score_one L ctx cPk (price_factor w scale keySpan) offset price) [0..<n]) (\<lambda>scores.
           vlift (argmax_masks L ctx scores (sharp_coeffs degree)
                    (\<lambda>_. ''argmax failed (depth '' @ dec_nat (unat (cg_Depth ps)) @ '' insufficient for n='' @ dec_nat n @ '')'')))))"

definition auction_server ::
  "('o, 'g) openfhe \<Rightarrow> cgo_params \<Rightarrow> string \<Rightarrow> bytes \<Rightarrow> bytes \<Rightarrow> nat \<Rightarrow> f64 list \<Rightarrow> f64 list \<Rightarrow> bytes list \<Rightarrow> int \<Rightarrow> int \<Rightarrow> auction_weights \<Rightarrow> int
    \<Rightarrow> (nat \<Rightarrow> nat \<Rightarrow> nat \<Rightarrow> ('o, 'g, nat) prog) \<Rightarrow> ('o, 'g, bytes list) prog" where
  "auction_server L ps hint pk evalMultKey n starNorms distSqs nonces floorCents capCents w degree price =
     (if evalMultKey = [] then nfail (''evaluation key required: use '' @ hint)
      else if n < 2 then nfail (''need >= 2 bids, got '' @ dec_nat n)
      else if length starNorms \<noteq> n \<or> length distSqs \<noteq> n \<or> length nonces \<noteq> n then nfail ''mismatched input lengths''
      else if pk = [] then nfail ''pk required''
      else ckks L ps (\<lambda>ctx.
        scoped (relabel ''deserialize pk'' (deserializePublicKey L ctx pk)) PublicKeyHandle (\<lambda>cPk.
        scoped (relabel ''deserialize eval-mult key'' (deserializeEvalMultKey L ctx evalMultKey)) EvalMultKeyHandle (\<lambda>cEvalMultKey.
        nbind (c_insert L InsertEvalMultKey [(ctx, CryptoContextHandle), (cEvalMultKey, EvalMultKeyHandle)] ''insert eval-mult key failed'') (\<lambda>_.
        auction_body L ps ctx cPk starNorms distSqs floorCents capCents w degree (price ctx cPk))))))"

definition singleKeyAuctionServer ::
  "('o, 'g) openfhe \<Rightarrow> cgo_params \<Rightarrow> bytes \<Rightarrow> bytes \<Rightarrow> int list \<Rightarrow> f64 list \<Rightarrow> f64 list \<Rightarrow> bytes list \<Rightarrow> int \<Rightarrow> int \<Rightarrow> auction_weights \<Rightarrow> int \<Rightarrow> ('o, 'g, bytes list) prog" where
  "singleKeyAuctionServer L ps pk evalMultKey priceCents starNorms distSqs nonces floorCents capCents w degree =
     auction_server L ps ''SingleKeyAuctionServerWithEvalKey'' pk evalMultKey (length priceCents) starNorms distSqs nonces floorCents capCents w degree
       (\<lambda>ctx cPk i. c_make L (EncryptDoubles (single_vals (f_of_int (priceCents ! i)))) (in_pk ctx cPk) (''encrypt price['' @ dec_nat i @ ''] failed''))"

definition singleKeyAuctionServerEnc ::
  "('o, 'g) openfhe \<Rightarrow> cgo_params \<Rightarrow> bytes \<Rightarrow> bytes \<Rightarrow> bytes list \<Rightarrow> f64 list \<Rightarrow> f64 list \<Rightarrow> bytes list \<Rightarrow> int \<Rightarrow> int \<Rightarrow> auction_weights \<Rightarrow> int \<Rightarrow> ('o, 'g, bytes list) prog" where
  "singleKeyAuctionServerEnc L ps pk evalMultKey encBids starNorms distSqs nonces floorCents capCents w degree =
     auction_server L ps ''SingleKeyAuctionServerEncWithEvalKey'' pk evalMultKey (length encBids) starNorms distSqs nonces floorCents capCents w degree
       (\<lambda>ctx cPk i. relabel (''deserialize encBid['' @ dec_nat i @ '']'') (deserializeCiphertext L ctx (encBids ! i)))"

text \<open>The four exported forms.\<close>

definition SingleKeyAuctionServer ::
  "('o, 'g) openfhe \<Rightarrow> cgo_params \<Rightarrow> bytes \<Rightarrow> int list \<Rightarrow> f64 list \<Rightarrow> f64 list \<Rightarrow> bytes list \<Rightarrow> int \<Rightarrow> int \<Rightarrow> auction_weights \<Rightarrow> int \<Rightarrow> ('o, 'g, bytes list) prog" where
  "SingleKeyAuctionServer L ps pk priceCents starNorms distSqs nonces floorCents capCents w degree =
     singleKeyAuctionServer L ps pk [] priceCents starNorms distSqs nonces floorCents capCents w degree"
definition SingleKeyAuctionServerWithEvalKey ::
  "('o, 'g) openfhe \<Rightarrow> cgo_params \<Rightarrow> bytes \<Rightarrow> bytes \<Rightarrow> int list \<Rightarrow> f64 list \<Rightarrow> f64 list \<Rightarrow> bytes list \<Rightarrow> int \<Rightarrow> int \<Rightarrow> auction_weights \<Rightarrow> int \<Rightarrow> ('o, 'g, bytes list) prog" where
  "SingleKeyAuctionServerWithEvalKey = singleKeyAuctionServer"
definition SingleKeyAuctionServerEnc ::
  "('o, 'g) openfhe \<Rightarrow> cgo_params \<Rightarrow> bytes \<Rightarrow> bytes list \<Rightarrow> f64 list \<Rightarrow> f64 list \<Rightarrow> bytes list \<Rightarrow> int \<Rightarrow> int \<Rightarrow> auction_weights \<Rightarrow> int \<Rightarrow> ('o, 'g, bytes list) prog" where
  "SingleKeyAuctionServerEnc L ps pk encBids starNorms distSqs nonces floorCents capCents w degree =
     singleKeyAuctionServerEnc L ps pk [] encBids starNorms distSqs nonces floorCents capCents w degree"
definition SingleKeyAuctionServerEncWithEvalKey ::
  "('o, 'g) openfhe \<Rightarrow> cgo_params \<Rightarrow> bytes \<Rightarrow> bytes \<Rightarrow> bytes list \<Rightarrow> f64 list \<Rightarrow> f64 list \<Rightarrow> bytes list \<Rightarrow> int \<Rightarrow> int \<Rightarrow> auction_weights \<Rightarrow> int \<Rightarrow> ('o, 'g, bytes list) prog" where
  "SingleKeyAuctionServerEncWithEvalKey = singleKeyAuctionServerEnc"

fun decrypt_masks :: "('o, 'g) openfhe \<Rightarrow> nat \<Rightarrow> nat \<Rightarrow> int \<Rightarrow> int \<times> f64 \<Rightarrow> bytes list \<Rightarrow> ('o, 'g, f64 list \<times> int) prog" where
  "decrypt_masks L ctx sk i best [] = nret ([], fst best)"
| "decrypt_masks L ctx sk i best (m # ms) =
     nbind (nbind (relabel (''deserialize mask['' @ dec_int i @ '']'') (deserializeCiphertext L ctx m)) (\<lambda>cCt.
              freeing CiphertextHandle cCt (c_decrypt L DecryptSingle (ct_sk ctx cCt sk) 1 (''decrypt mask['' @ dec_int i @ ''] failed'')))) (\<lambda>vs.
     nbind (decrypt_masks L ctx sk (i + 1) (better best i (first_value vs)) ms) (\<lambda>(masks, win). nret (first_value vs # masks, win)))"

definition SingleKeyAuctionDecrypt :: "('o, 'g) openfhe \<Rightarrow> cgo_params \<Rightarrow> bytes \<Rightarrow> bytes list \<Rightarrow> ('o, 'g, f64 list \<times> int) prog" where
  "SingleKeyAuctionDecrypt L ps sk encryptedMasks =
     (if length encryptedMasks < 2 then nfail ''need >= 2 masks''
      else if sk = [] then nfail ''sk required''
      else ckks L ps (\<lambda>ctx.
        scoped (relabel ''deserialize sk'' (deserializeSecretKeyShare L ctx sk True)) SecretKeyShareHandle (\<lambda>cSk.
        decrypt_masks L ctx cSk 0 (-1, Fin 0) encryptedMasks)))"

section \<open>Programs that hold what they make\<close>

text \<open>\<open>base\<close>: objects that are known to be held; \<open>res\<close>: those that the result names.\<close>

definition arena :: "hkind \<Rightarrow> cells \<Rightarrow> nat list \<Rightarrow> ('o, 'g, nat list, 'a) vprog \<Rightarrow> ('a \<Rightarrow> nat list) \<Rightarrow> bool" where
  "arena k H base m res \<longleftrightarrow>
     (\<forall>v. set base \<subseteq> set v \<longrightarrow>
        triple (kinds (handles k v)) (kinds H) (m v) (\<lambda>x. case x of
            Ok (r, v') \<Rightarrow> if set v \<subseteq> set v' \<and> (\<forall>a. r = Ok a \<longrightarrow> set (res a) \<subseteq> set v') then kinds (handles k v') else never
          | _ \<Rightarrow> never))"

lemma arena_ret: "set (res a) \<subseteq> set base \<Longrightarrow> arena k H base (vlift (nret a)) res"
  unfolding arena_def by (auto simp: vlift_def nret_def triple_def moved_refl)

lemma arena_bind:
  fixes m :: "('o, 'g, nat list, 'a) vprog"
  assumes m: "arena k H base m res" and f: "\<And>a. arena k H (res a @ base) (f a) res'"
  shows "arena k H base (vbind m f) res'"
  unfolding arena_def
proof (intro allI impI)
  fix v assume v: "set base \<subseteq> set v"
  let ?Q = "\<lambda>v res x. case x of Ok (r, v') \<Rightarrow> if set v \<subseteq> set v' \<and> (\<forall>a. r = Ok a \<longrightarrow> set (res a) \<subseteq> set v') then kinds (handles k v') else never | _ \<Rightarrow> never"
  show "triple (kinds (handles k v)) (kinds H) (vbind m f v) (?Q v res')"
    unfolding vbind_def
  proof (rule triple_bind_total)
    show "triple (kinds (handles k v)) (kinds H) (m v) (?Q v res)" using m v by (simp add: arena_def)
    fix y :: "(string, 'a) outcome \<times> nat list"
    obtain r v' where y: "y = (r, v')" by fastforce
    show "triple (?Q v res (Ok y)) (kinds H)
        (case y of (r, v') \<Rightarrow> case r of Ok a \<Rightarrow> f a v' | Err e \<Rightarrow> nret (Err e, v') | Panic p \<Rightarrow> nret (Panic p, v')) (?Q v res')"
    proof (cases "set v \<subseteq> set v' \<and> (\<forall>a. r = Ok a \<longrightarrow> set (res a) \<subseteq> set v')")
      case True
      show ?thesis
      proof (cases r)
        case (Ok a)
        have "set (res a @ base) \<subseteq> set v'" using True Ok v by auto
        then have "triple (kinds (handles k v')) (kinds H) (f a v') (?Q v' res')" using f unfolding arena_def by blast
        then have "triple (kinds (handles k v')) (kinds H) (f a v') (?Q v res')"
          by (rule triple_never') (use True in \<open>auto split: outcome.split\<close>)
        then show ?thesis using True Ok y by simp
      qed (use True y in \<open>simp_all add: triple_nil_nret\<close>)
    next
      case False
      then have nv: "?Q v res (Ok y) = never" unfolding y by (simp only: outcome.case prod.case if_False)
      show ?thesis unfolding nv by (rule triple_absurd) simp
    qed
  qed simp_all
qed

lemma arena_lift:
  fixes m :: "('o, 'g, 'a) prog"
  assumes m: "\<And>H'. set H \<subseteq> set H' \<Longrightarrow> set (handles k base) \<subseteq> set H' \<Longrightarrow> secure H' nothing m"
  shows "arena k H base (vlift m) (\<lambda>_. [])"
  unfolding arena_def
proof (intro allI impI)
  fix v assume v: "set base \<subseteq> set v"
  have none: "owned (\<lambda>_. []) = (\<lambda>_ :: (string, 'a) outcome. [] :: 'o assn)" by (simp add: fun_eq_iff owned_def split: outcome.split)
  have "secure (handles k v @ H) nothing m" by (rule m) (use v in auto)
  then have "triple ([] @ kinds (handles k v)) (kinds H) m (\<lambda>_. [] @ kinds (handles k v))"
    unfolding secure_def kinds_simps none by (rule triple_lend)
  then show "triple (kinds (handles k v)) (kinds H) (vlift m v) (\<lambda>x. case x of
      Ok (r, v') \<Rightarrow> if set v \<subseteq> set v' \<and> (\<forall>a. r = Ok a \<longrightarrow> set ([] :: nat list) \<subseteq> set v') then kinds (handles k v') else never | _ \<Rightarrow> never)"
    unfolding triple_def vlift_def by fastforce
qed

lemma arena_keep:
  fixes m :: "('o, 'g, nat) prog"
  assumes m: "\<And>H'. set H \<subseteq> set H' \<Longrightarrow> set (handles k base) \<subseteq> set H' \<Longrightarrow> secure H' (\<lambda>x. [(x, k)]) m"
  shows "arena k H base (keep m) (\<lambda>x. [x])"
  unfolding arena_def
proof (intro allI impI)
  fix v assume v: "set base \<subseteq> set v"
  have "secure (handles k v @ H) (\<lambda>x. [(x, k)]) m" by (rule m) (use v in auto)
  then have t: "triple ([] @ kinds (handles k v)) (kinds H) m (\<lambda>r. owned (\<lambda>x. kinds [(x, k)]) r @ kinds (handles k v))"
    unfolding secure_def kinds_simps by (rule triple_lend)
  let ?Q = "\<lambda>x :: (string, (string, nat) outcome \<times> nat list) outcome. case x of Ok (r, v') \<Rightarrow> if set v \<subseteq> set v' \<and> (\<forall>a. r = Ok a \<longrightarrow> set [a] \<subseteq> set v') then kinds (handles k v') else never | _ \<Rightarrow> never"
  show "triple (kinds (handles k v)) (kinds H) (keep m v) ?Q"
    unfolding triple_def
  proof (intro allI impI)
    fix s :: "('o, 'g) native" assume "owns s (kinds (handles k v)) (kinds H)"
    then obtain r s' where r: "m s = Some (r, s')" "owns s' (owned (\<lambda>x. kinds [(x, k)]) r @ kinds (handles k v)) (kinds H)"
      "moved s s' (kinds (handles k v)) (kinds H) (owned (\<lambda>x. kinds [(x, k)]) r @ kinds (handles k v))"
      using t unfolding triple_def append_Nil by blast
    then show "\<exists>x s'. keep m v s = Some (x, s') \<and> owns s' (?Q x) (kinds H) \<and> moved s s' (kinds (handles k v)) (kinds H) (?Q x)"
      by (cases r) (auto simp: keep_def vbind_def vlift_def nbind_def nret_def)
  qed
qed

lemma secure_arena:
  fixes m :: "('o, 'g, nat list, 'a) vprog"
  assumes "arena k H [] m res"
  shows "secure H nothing (vscope [] (free_all k) m)"
  unfolding secure_def vscope_def
proof (rule triple_bind_total)
  let ?Q = "\<lambda>x. case x of Ok (r, v') \<Rightarrow> if set [] \<subseteq> set v' \<and> (\<forall>a. r = Ok a \<longrightarrow> set (res a) \<subseteq> set v') then kinds (handles k v') else never | _ \<Rightarrow> never"
  have "kinds (handles k []) = ([] :: 'o assn)" by simp
  moreover have "triple (kinds (handles k [])) (kinds H) (m []) ?Q" by (rule assms [unfolded arena_def, rule_format]) simp
  ultimately show "triple [] (kinds H) (m []) ?Q" by (simp only:)
  fix y :: "(string, 'a) outcome \<times> nat list"
  obtain r v' where y: "y = (r, v')" by fastforce
  have none: "owned (\<lambda>_. []) = (\<lambda>_ :: (string, 'a) outcome. [] :: 'o assn)" by (simp add: fun_eq_iff owned_def split: outcome.split)
  have "triple (kinds (handles k v')) (kinds H) (deferring (free_all k v') (\<lambda>s :: ('o, 'g) native. Some (r, s))) (\<lambda>_. [])"
    by (rule triple_deferring [where Q = "\<lambda>_. kinds (handles k v')", OF _ triple_free_all]) (simp add: triple_def moved_refl, erule (1) free_all_ok)
  then have "triple (kinds (handles k v')) (kinds H) (deferring (free_all k v') (\<lambda>s :: ('o, 'g) native. Some (r, s))) (owned (\<lambda>a. kinds []))"
    unfolding kinds_simps none .
  then show "triple (?Q (Ok y)) (kinds H) (case y of (r, v') \<Rightarrow> deferring (free_all k v') (\<lambda>s :: ('o, 'g) native. Some (r, s))) (owned (\<lambda>a. kinds []))"
    unfolding y by (simp add: triple_absurd)
qed simp_all

section \<open>The single-key functions free what they make\<close>

lemma arena_score_one:
  fixes price :: "nat \<Rightarrow> ('o, 'g, nat) prog"
  assumes "(ctx, CryptoContextHandle) \<in> set H" "(cPk, PublicKeyHandle) \<in> set H"
    and price: "\<And>H'. set H \<subseteq> set H' \<Longrightarrow> secure H' (\<lambda>x. [(x, CiphertextHandle)]) (price i)"
  shows "arena CiphertextHandle H base (score_one L ctx cPk factor offset price i) (\<lambda>x. [x])"
  unfolding score_one_def
proof (rule arena_bind [where res = "\<lambda>x. [x]"], rule arena_keep, goal_cases)
  case (1 H')
  then show ?case using assms by (auto intro!: secure_intros)
next
  case (2 offCt)
  show ?case
proof (rule arena_bind [where res = "\<lambda>x. [x]"], rule arena_keep, erule price, rule arena_keep)
  fix pCt and H' :: cells
  assume H': "set H \<subseteq> set H'" "set (handles CiphertextHandle ([pCt] @ [offCt] @ base)) \<subseteq> set H'"
  show "secure H' (\<lambda>x. [(x, CiphertextHandle)]) (nbind (c_make L (EvalMultConst factor) (cts_of ctx [pCt]) (''scale price['' @ dec_nat i @ ''] failed''))
       (\<lambda>scaledPrice. freeing CiphertextHandle scaledPrice (c_make L EvalAdd_c (cts_of ctx [scaledPrice, offCt]) (''assemble score['' @ dec_nat i @ ''] failed''))))"
  proof (rule secure_freeing)
    fix scaledPrice
    show "calm (c_make L EvalAdd_c (cts_of ctx [scaledPrice, offCt]) (''assemble score['' @ dec_nat i @ ''] failed'') :: ('o, 'g, nat) prog)"
      unfolding c_make_def by (intro steady_calm steady_intros)
  qed (use assms H' in \<open>auto intro!: secure_intros\<close>)
qed
qed

lemma arena_score_all:
  assumes "\<And>base i. arena k H base (f i) (\<lambda>x. [x])"
  shows "arena k H base (score_all f is) (\<lambda>xs. xs)"
proof (induction "is" arbitrary: base)
  case Nil
  show ?case by (simp add: arena_ret)
next
  case (Cons i "is")
  show ?case unfolding score_all.simps
    by (intro arena_bind [OF assms] arena_bind [OF Cons.IH] arena_ret) auto
qed

lemma secure_auction_body [secure_intros]:
  assumes "masks_ok L" "(ctx, CryptoContextHandle) \<in> set H" "(cPk, PublicKeyHandle) \<in> set H"
    and price: "\<And>H' i. set H \<subseteq> set H' \<Longrightarrow> secure H' (\<lambda>x. [(x, CiphertextHandle)]) (price i)"
  shows "secure H nothing (auction_body L ps ctx cPk starNorms distSqs floorCents capCents w degree price)"
  unfolding auction_body_def Let_def
  by (rule secure_arena, rule arena_bind [OF arena_score_all], rule arena_score_one, rule assms(2), rule assms(3), erule price, rule arena_lift)
    (use assms(1,2) in \<open>auto intro!: secure_intros\<close>)


lemma steady_c_decrypt [steady_intros]: "steady (c_decrypt L op args room msg)"
  unfolding c_decrypt_def by (intro steady_intros) (auto simp: steady_def nfault_def)

lemma secure_decrypt_masks [secure_intros]:
  assumes "room_ok L" "(ctx, CryptoContextHandle) \<in> set H" "(sk, SecretKeyShareHandle) \<in> set H"
  shows "secure H nothing (decrypt_masks L ctx sk i best ms)"
proof (induction ms arbitrary: i best)
  case (Cons m ms)
  show ?case unfolding decrypt_masks.simps
    by (rule secure_nbind, rule secure_freeing) (use assms in \<open>auto intro!: secure_intros Cons.IH steady_calm steady_intros split: prod.split\<close>)
qed (auto intro!: secure_intros)

lemma balanced_single:
  "batch_ok ps \<Longrightarrow> balanced (SingleKeyGen L ps)"
  "batch_ok ps \<Longrightarrow> balanced (SingleKeyGenWithEvalKey L ps)"
  "batch_ok ps \<Longrightarrow> balanced (SingleKeyEncrypt L ps pk x)"
  "batch_ok ps \<Longrightarrow> room_ok L \<Longrightarrow> balanced (SingleKeyDecrypt L ps sk ct n)"
  "batch_ok ps \<Longrightarrow> masks_ok L \<Longrightarrow> balanced (singleKeyAuctionServer L ps pk mk prices stars dists nonces lo hi w degree)"
  "batch_ok ps \<Longrightarrow> masks_ok L \<Longrightarrow> balanced (singleKeyAuctionServerEnc L ps pk mk bids stars dists nonces lo hi w degree)"
  "batch_ok ps \<Longrightarrow> room_ok L \<Longrightarrow> balanced (SingleKeyAuctionDecrypt L ps sk masks)"
  unfolding balanced_def SingleKeyGen_def SingleKeyGenWithEvalKey_def SingleKeyEncrypt_def SingleKeyDecrypt_def
    singleKeyAuctionServer_def singleKeyAuctionServerEnc_def auction_server_def SingleKeyAuctionDecrypt_def out_of_range_def
  by (auto intro!: secure_intros)

end
