(* ===== verification/Bridge_Auction.thy ===== *)
theory Bridge_Auction
  imports Bridge_Laws Bridge_Single
begin

text \<open>
  What the evaluation and single-key functions of the bridge promise: no native object is leaked or used after it is freed, except in
  \<^verbatim>\<open>SingleKeySoftArgmin\<close>, and the auction names the first of the highest masks.
\<close>

section \<open>The winner\<close>

fun pick :: "int \<Rightarrow> int \<times> f64 \<Rightarrow> f64 list \<Rightarrow> int" where
  "pick i best [] = fst best"
| "pick i best (v # vs) = pick (i + 1) (better best i v) vs"

text \<open>The position of the first highest value.\<close>

definition first_max :: "f64 list \<Rightarrow> nat \<Rightarrow> bool" where
  "first_max vs b \<longleftrightarrow> b < length vs \<and> (\<forall>j < length vs. \<not> f_lt (vs ! b) (vs ! j)) \<and> (\<forall>j < b. f_lt (vs ! j) (vs ! b))"

lemma f_lt_simps:
  "\<not> f_lt FNaN b" "\<not> f_lt a FNaN" "\<not> f_lt a (FInf True)" "\<not> f_lt (FInf False) b" "f_lt (FInf True) (FInf False)"
  "f_lt (FInf True) (Fin y)" "f_lt (Fin x) (FInf False)" "f_lt (Fin x) (Fin y) \<longleftrightarrow> x < y"
  by (auto simp: f_lt_def elim!: f_le.elims)

lemma f_lt_irrefl: "\<not> f_lt a a"
  by (simp add: f_lt_def)

lemma f_lt_trans:
  assumes "f_lt a b" "f_lt b c" shows "f_lt a c"
  using assms by (cases a; cases b; cases c) (auto simp: f_lt_simps f_lt_def split: bool.splits elim!: f_le.elims)

lemma f_lt_cotrans:
  assumes "f_lt a c" "b \<noteq> FNaN" shows "f_lt a b \<or> f_lt b c"
  using assms by (cases a; cases b; cases c) (auto simp: f_lt_def elim!: f_le.elims)

lemma first_max_snoc:
  assumes "first_max vs b" "v \<noteq> FNaN" "FNaN \<notin> set vs"
  shows "first_max (vs @ [v]) (if f_lt (vs ! b) v then length vs else b)"
proof (cases "f_lt (vs ! b) v")
  case True
  have "f_lt (vs ! j) v" if "j < length vs" for j
  proof -
    have "vs ! j \<noteq> FNaN" using assms(3) that by (metis nth_mem)
    then show ?thesis using f_lt_cotrans [OF True] assms(1) that by (auto simp: first_max_def)
  qed
  moreover from this have "\<not> f_lt v (vs ! j)" if "j < length vs" for j using that f_lt_trans f_lt_irrefl by blast
  ultimately show ?thesis using True by (auto simp: first_max_def nth_append less_Suc_eq f_lt_irrefl)
qed (use assms in \<open>auto simp: first_max_def nth_append less_Suc_eq\<close>)

lemma pick_first_max:
  assumes "first_max vs b" "FNaN \<notin> set (vs @ ws)"
  shows "\<exists>b'. pick (int (length vs)) (int b, vs ! b) ws = int b' \<and> first_max (vs @ ws) b'"
  using assms
proof (induction ws arbitrary: vs b)
  case (Cons w ws)
  let ?b = "if f_lt (vs ! b) w then length vs else b"
  have fm: "first_max (vs @ [w]) ?b" using Cons.prems by (intro first_max_snoc) auto
  have "better (int b, vs ! b) (int (length vs)) w = (int ?b, (vs @ [w]) ! ?b)"
    using Cons.prems(1) by (simp add: better_def nth_append first_max_def)
  then show ?case using Cons.IH [OF fm] Cons.prems(2) by (cases "f_lt (vs ! b) w") (simp_all add: add.commute)
qed auto

lemma pick_all:
  assumes "vs \<noteq> []" "FNaN \<notin> set vs"
  shows "\<exists>b. pick 0 (-1, Fin 0) vs = int b \<and> first_max vs b"
proof -
  obtain v ws where vs: "vs = v # ws" using assms(1) by (cases vs) auto
  have "first_max [v] 0" by (simp add: first_max_def f_lt_irrefl)
  then show ?thesis using pick_first_max [of "[v]" 0 ws] assms(2) vs by (simp add: better_def)
qed


section \<open>What a program returns\<close>

definition yields :: "('a \<Rightarrow> bool) \<Rightarrow> ('o, 'g, 'a) prog \<Rightarrow> bool" where
  "yields P m \<longleftrightarrow> (\<forall>s a s'. m s = Some (Ok a, s') \<longrightarrow> P a)"

named_theorems yields_intros \<open>what the combinators return\<close>

lemma yields_nbind':
  assumes "yields Q m" "\<And>a. Q a \<Longrightarrow> yields P (k a)"
  shows "yields P (nbind m k)"
  using assms unfolding yields_def nbind_def by (fastforce split: option.splits outcome.splits)

lemma yields_base [yields_intros]: "P a \<Longrightarrow> yields P (nret a)" "yields P (nfail e)" "yields P (npanic e)"
  by (simp_all add: yields_def nret_def nfail_def npanic_def)

lemma yields_nbind [yields_intros]: "(\<And>a. yields P (k a)) \<Longrightarrow> yields P (nbind m k)"
  by (rule yields_nbind' [where Q = "\<lambda>_. True"]) (simp_all add: yields_def)

lemma yields_deferring [yields_intros]: "yields P m \<Longrightarrow> yields P (deferring d m)"
  unfolding yields_def deferring_def by (fastforce split: option.splits outcome.splits)

lemma yields_if [yields_intros]: "(c \<Longrightarrow> yields P a) \<Longrightarrow> (\<not> c \<Longrightarrow> yields P b) \<Longrightarrow> yields P (if c then a else b)"
  by simp

lemma yields_scoped [yields_intros]: "(\<And>x. yields P (body x)) \<Longrightarrow> yields P (scoped m k body)"
  unfolding scoped_def by (intro yields_intros)

lemma yields_ckks [yields_intros]: "(\<And>ctx. yields P (body ctx)) \<Longrightarrow> yields P (ckks L ps body)"
  by (intro yields_intros)

lemma yields_decrypt_masks: "yields (\<lambda>(vs, win). length vs = length ms \<and> win = pick i best vs) (decrypt_masks L ctx sk i best ms)"
proof (induction ms arbitrary: i best)
  case (Cons m ms)
  show ?case unfolding decrypt_masks.simps
    by (rule yields_nbind, rule yields_nbind' [OF Cons.IH]) (auto intro!: yields_intros)
qed (simp add: yields_intros)

lemma yields_SingleKeyAuctionDecrypt:
  "yields (\<lambda>(vs, win). length vs = length encs \<and> vs \<noteq> [] \<and> win = pick 0 (-1, Fin 0) vs) (SingleKeyAuctionDecrypt L ps sk encs)"
  unfolding SingleKeyAuctionDecrypt_def
proof (intro yields_intros)
  assume "\<not> length encs < 2"
  then show "yields (\<lambda>(vs, win). length vs = length encs \<and> vs \<noteq> [] \<and> win = pick 0 (-1, Fin 0) vs) (decrypt_masks L ctx cSk 0 (-1, Fin 0) encs)" for ctx cSk
    using yields_decrypt_masks [of encs 0 "(-1, Fin 0)" L ctx cSk] by (fastforce simp: yields_def)
qed


section \<open>Claims\<close>

lemma plain_lib_hyps: "masks_ok plain_lib" "room_ok plain_lib"
  by (auto simp: masks_ok_def room_ok_def plain_lib_def split: list.splits)

text \<open>
  Claim C28. Encrypted evaluation and decryption do not leak: each function that encrypts, adds, subtracts, multiplies, sums, evaluates a
  polynomial or an argmax, computes a distance, decrypts partially or fuses partial decryptions, and each single-key function except
  \<^verbatim>\<open>SingleKeySoftArgmin\<close>, returns (with a value, an error or a Go panic) with the native heap as it found it, every handle it made freed
  once and none used after it was freed, whatever the library answers at each call. The rotation dimensions have to fit the loop that computes the batch
  size (\<open>batch_ok\<close>); the argmax routine is taken to return one mask per score (\<open>masks_ok\<close>) and the decryption routines to write no more values than they
  were given room for (\<open>room_ok\<close>). For \<^verbatim>\<open>EvalProductSumForContractWithEvalSumRefs\<close>, what its references to a-vectors resolve to has to be readable: the C side loses an
  object when it is not.
\<close>

theorem evaluator_balanced:
  assumes "batch_ok ps" "masks_ok L" "room_ok L"
  shows "balanced (EvalProductSumForContract L ps keys l r n) \<and> balanced (EvalProductSumBFVForContract L bs keys l r n) \<and>
    (given_readable L resolve refs \<longrightarrow> balanced (EvalProductSumForContractWithEvalSumRefs L ps keys l r n pks refs resolve)) \<and>
    balanced (EvalAddCKKSForContract L ps a b) \<and> balanced (EvalSubCKKSForContract L ps a b) \<and>
    balanced (EvalMultCKKSForContract L ps key a b) \<and> balanced (EvalConstMultCKKSForContract L ps a scalar) \<and>
    balanced (RoundTripCiphertext L ps a) \<and> balanced (EvalPolyCKKSForContract L ps key a coeffs) \<and>
    balanced (EvalArgmaxCKKSForContract L ps key cts coeffs) \<and>
    balanced (EncryptCKKSForContract L ps pk fvals) \<and> balanced (EncryptBFVForContract L bs pk ivals) \<and>
    balanced (EncryptRepeatedScalarCKKSForContract L ps pk x) \<and> balanced (EncryptRepeatedScalarBFVForContract L bs pk i) \<and>
    balanced (EncryptedSquaredDistanceCKKSForContract L ps key o1 o2 x y) \<and>
    balanced (EncryptedSquaredDistanceBFVForContract L bs key o1 o2 i j) \<and>
    balanced (PartialDecryptCKKSForContract L ps ct sk lead) \<and> balanced (PartialDecryptBFVForContract L bs ct sk lead) \<and>
    balanced (FuseCKKSPartialsForContract L ps partials k) \<and> balanced (FuseBFVPartialsForContract L bs partials k) \<and>
    balanced (SingleKeyGen L ps) \<and> balanced (SingleKeyGenWithEvalKey L ps) \<and> balanced (SingleKeyEncrypt L ps pk x) \<and>
    balanced (SingleKeyDecrypt L ps sk ct m) \<and>
    balanced (SingleKeyAuctionServerWithEvalKey L ps pk mk prices stars dists nonces lo hi w degree) \<and>
    balanced (SingleKeyAuctionServerEncWithEvalKey L ps pk mk bids stars dists nonces lo hi w degree) \<and>
    balanced (SingleKeyAuctionDecrypt L ps sk masks)"
  using assms unfolding SingleKeyAuctionServerWithEvalKey_def SingleKeyAuctionServerEncWithEvalKey_def
  by (intro conjI impI balanced_eval balanced_crypt balanced_single)

theorem evaluator_balanced_witness:
  "batch_ok small_params \<and> masks_ok plain_lib \<and> room_ok plain_lib \<and> balanced (SingleKeyAuctionDecrypt plain_lib small_params [1] [[2], [3]]) \<and>
   balanced (EvalArgmaxCKKSForContract plain_lib small_params [1] [[2], [3]] [Fin 1])"
  using small_params_ok plain_lib_hyps evaluator_balanced [OF small_params_ok plain_lib_hyps, where sk = "[1]" and masks = "[[2], [3]]" and key = "[1]" and cts = "[[2], [3]]" and coeffs = "[Fin 1]"] by simp

text \<open>
  Claim C29. The auction names a winner: \<^verbatim>\<open>SingleKeyAuctionDecrypt\<close> returns, leaving the native heap as it was, and when it succeeds there is one
  value per encrypted mask and, none of them being NaN, the winner is the first position whose value is not below any other.
\<close>

theorem auction_winner:
  assumes "batch_ok ps" "room_ok L" "heap_ok s"
  shows "\<exists>r s'. SingleKeyAuctionDecrypt L ps sk encs s = Some (r, s') \<and> same_heap s s' \<and>
     (\<forall>masks win. r = Ok (masks, win) \<longrightarrow> length masks = length encs \<and>
        (FNaN \<notin> set masks \<longrightarrow> (\<exists>b. win = int b \<and> first_max masks b)))"
proof -
  obtain r s' where run: "SingleKeyAuctionDecrypt L ps sk encs s = Some (r, s')" "same_heap s s'"
    using balanced_single(7) [OF assms(1,2)] assms(3) unfolding balanced_iff same_heap_def by blast
  have "length masks = length encs \<and> (FNaN \<notin> set masks \<longrightarrow> (\<exists>b. win = int b \<and> first_max masks b))" if "r = Ok (masks, win)" for masks win
  proof -
    have "length masks = length encs \<and> masks \<noteq> [] \<and> win = pick 0 (-1, Fin 0) masks"
      using yields_SingleKeyAuctionDecrypt [of encs L ps sk] run(1) that unfolding yields_def by fastforce
    then show ?thesis using pick_all by blast
  qed
  then show ?thesis using run by blast
qed

text \<open>A library whose ciphertexts decrypt to their length.\<close>

definition length_lib :: "(bytes, unit) openfhe" where
  "length_lib = plain_lib\<lparr> lib_dec := \<lambda>_ os _ g. (Some [Fin (of_nat (length (os ! 1)))], g) \<rparr>"

definition no_cells :: "(bytes, unit) native" where
  "no_cells = \<lparr> ns_cells = Map.empty, ns_next = 1, ns_fault = 0, ns_world = () \<rparr>"

lemma length_lib_room: "room_ok length_lib"
  by (auto simp: room_ok_def length_lib_def plain_lib_def)

lemma soft_params_ok: "batch_ok soft_params"
  by (simp add: soft_params_def batch_ok_def)

lemma no_cells_ok: "heap_ok no_cells"
  by (simp add: no_cells_def heap_ok_def)


lemma length_lib_run:
  "map_option fst (SingleKeyAuctionDecrypt length_lib soft_params [7] [[1], [1, 1], [1, 1]] no_cells) = Some (Ok ([Fin 1, Fin 2, Fin 2], 1))"
  by code_simp

theorem auction_winner_witness:
  "\<exists>s'. SingleKeyAuctionDecrypt length_lib soft_params [7] [[1], [1, 1], [1, 1]] no_cells = Some (Ok ([Fin 1, Fin 2, Fin 2], 1), s') \<and>
     same_heap no_cells s' \<and> first_max [Fin 1, Fin 2, Fin 2] 1"
proof -
  obtain s' where run: "SingleKeyAuctionDecrypt length_lib soft_params [7] [[1], [1, 1], [1, 1]] no_cells = Some (Ok ([Fin 1, Fin 2, Fin 2], 1), s')"
    using length_lib_run by auto
  moreover have "same_heap no_cells s' \<and> (\<exists>b. 1 = int b \<and> first_max [Fin 1, Fin 2, Fin 2] b)"
    using auction_winner [OF soft_params_ok length_lib_room no_cells_ok, of "[7]" "[[1], [1, 1], [1, 1]]"] run by auto
  ultimately show ?thesis by (metis of_nat_1_eq_iff)
qed

text \<open>
  \<^verbatim>\<open>SingleKeySoftArgmin\<close> leaks when a score cannot be encrypted: the clean-up of the ciphertexts is deferred only after the loop,
  so the ciphertexts of the earlier scores stay allocated when it returns the error.
\<close>

definition fussy_lib :: "(bytes, unit) openfhe" where
  "fussy_lib = plain_lib\<lparr> lib_new := \<lambda>op _ g. (if op = EncryptDoubles (single_vals (Fin 2)) then None else Some [3], g) \<rparr>"

theorem soft_argmin_leaks:
  "\<exists>s'. SingleKeySoftArgmin fussy_lib [Fin 0, Fin 1, Fin 2] 1 no_cells = Some (Err ''encrypt[2] failed'', s') \<and>
     ns_fault s' = 0 \<and> ns_cells no_cells = Map.empty \<and> ns_cells s' 4 = Some (Obj CiphertextHandle [3]) \<and> ns_cells s' 5 = Some (Obj CiphertextHandle [3])"
proof -
  have "map_option (\<lambda>(r, s'). (r, ns_fault s', ns_cells s' 4, ns_cells s' 5)) (SingleKeySoftArgmin fussy_lib [Fin 0, Fin 1, Fin 2] 1 no_cells) =
      Some (Err ''encrypt[2] failed'', 0, Some (Obj CiphertextHandle [3]), Some (Obj CiphertextHandle [3]))"
    by code_simp
  then show ?thesis by (auto simp: no_cells_def)
qed

end
