(* ===== verification/Bridge_Fuse.thy ===== *)
theory Bridge_Fuse
  imports Bridge_Eval
begin

text \<open>
  Payload fusion in \<^verbatim>\<open>pkg/ares/crypto/cgo/bridge.go\<close>: the requests, their validation, the flattening of ciphertexts into one blob with a table of
  lengths, the calls of the C fusion routines and the splitting of what they return. The routines are a function of their arguments, the context
  object if there is one, and the hidden state of the library; they may change both, since they insert the evaluation keys they are given.
\<close>

section \<open>Requests\<close>

record fuse_request =
  fq_InitiatorCiphertext :: bytes
  fq_InitiatorLatQ :: int
  fq_InitiatorLonQ :: int
  fq_CandidateCiphertexts :: "bytes list"
  fq_CandidateLatQ :: "int list"
  fq_CandidateLonQ :: "int list"
  fq_CandidateDistanceCiphertexts :: "bytes list"
  fq_CandidateBrownies :: "int list"
  fq_CandidatePackages :: "int list list"
  fq_CandidatePayloadCiphertexts :: "bytes list list"
  fq_ProfileDim :: int
  fq_Alpha :: f64
  fq_Beta :: f64
  fq_Gamma :: f64
  fq_Comparator :: string
  fq_ComparatorDegree :: int
  fq_ComparatorGain :: f64
  fq_ComparatorScale :: f64
  fq_ComparatorBound :: f64
  fq_SelectorSchedule :: string
  fq_EvalKeys :: eval_key_final
  fq_PackageBytes :: int
  fq_PayloadSlotCount :: int
  fq_MinimalRotationKeys :: bool

record encrypted_request =
  eq_InitiatorCiphertext :: bytes
  eq_CandidateCiphertexts :: "bytes list"
  eq_CandidateDistanceCiphertexts :: "bytes list"
  eq_CandidateBrownies :: "int list"
  eq_CandidatePayloadCiphertexts :: "bytes list list"
  eq_ProfileDim :: int
  eq_Alpha :: f64
  eq_Beta :: f64
  eq_Gamma :: f64
  eq_Comparator :: string
  eq_ComparatorDegree :: int
  eq_ComparatorGain :: f64
  eq_ComparatorScale :: f64
  eq_ComparatorBound :: f64
  eq_SelectorSchedule :: string
  eq_EvalKeys :: eval_key_final
  eq_PayloadSlotCount :: int

record blind_request =
  bq_InitiatorCiphertext :: bytes
  bq_CandidateProfileCiphertexts :: "bytes list"
  bq_CandidatePayloadCiphertexts :: "bytes list"
  bq_CandidateDistanceCiphertexts :: "bytes list"
  bq_CandidateBrownies :: "int list"
  bq_ProfileDim :: int
  bq_ProfileWeight :: int
  bq_DistanceWeight :: int
  bq_BrownieWeight :: int
  bq_PackageBytes :: int
  bq_EvalKeys :: eval_key_final
  bq_StepCoefficients :: "int list"

definition fullFuseRequest :: "encrypted_request \<Rightarrow> fuse_request" where
  "fullFuseRequest req = \<lparr> fq_InitiatorCiphertext = eq_InitiatorCiphertext req, fq_InitiatorLatQ = 0, fq_InitiatorLonQ = 0,
     fq_CandidateCiphertexts = eq_CandidateCiphertexts req, fq_CandidateLatQ = [], fq_CandidateLonQ = [],
     fq_CandidateDistanceCiphertexts = eq_CandidateDistanceCiphertexts req, fq_CandidateBrownies = eq_CandidateBrownies req,
     fq_CandidatePackages = [], fq_CandidatePayloadCiphertexts = eq_CandidatePayloadCiphertexts req, fq_ProfileDim = eq_ProfileDim req,
     fq_Alpha = eq_Alpha req, fq_Beta = eq_Beta req, fq_Gamma = eq_Gamma req, fq_Comparator = eq_Comparator req,
     fq_ComparatorDegree = eq_ComparatorDegree req, fq_ComparatorGain = eq_ComparatorGain req, fq_ComparatorScale = eq_ComparatorScale req,
     fq_ComparatorBound = eq_ComparatorBound req, fq_SelectorSchedule = eq_SelectorSchedule req, fq_EvalKeys = eq_EvalKeys req,
     fq_PackageBytes = 0, fq_PayloadSlotCount = eq_PayloadSlotCount req, fq_MinimalRotationKeys = False \<rparr>"

definition encryptedInputFuseRequestFromFull :: "fuse_request \<Rightarrow> encrypted_request" where
  "encryptedInputFuseRequestFromFull req = \<lparr> eq_InitiatorCiphertext = fq_InitiatorCiphertext req,
     eq_CandidateCiphertexts = fq_CandidateCiphertexts req, eq_CandidateDistanceCiphertexts = fq_CandidateDistanceCiphertexts req,
     eq_CandidateBrownies = fq_CandidateBrownies req, eq_CandidatePayloadCiphertexts = fq_CandidatePayloadCiphertexts req,
     eq_ProfileDim = fq_ProfileDim req, eq_Alpha = fq_Alpha req, eq_Beta = fq_Beta req, eq_Gamma = fq_Gamma req,
     eq_Comparator = fq_Comparator req, eq_ComparatorDegree = fq_ComparatorDegree req, eq_ComparatorGain = fq_ComparatorGain req,
     eq_ComparatorScale = fq_ComparatorScale req, eq_ComparatorBound = fq_ComparatorBound req,
     eq_SelectorSchedule = fq_SelectorSchedule req, eq_EvalKeys = fq_EvalKeys req, eq_PayloadSlotCount = fq_PayloadSlotCount req \<rparr>"

section \<open>Flattening\<close>

definition csize :: "bytes \<Rightarrow> 64 word" where "csize b = word_of_nat (length b)"

definition concatCandidateCiphertexts :: "bytes list \<Rightarrow> bytes \<times> (64 word) list" where
  "concatCandidateCiphertexts cts = (concat cts, map csize cts)"

definition intsToCInts :: "int list \<Rightarrow> (32 word) list" where "intsToCInts values = map word_of_int values"

definition defaultStringGo :: "string \<Rightarrow> string \<Rightarrow> string" where
  "defaultStringGo value fallback = (if value = '''' then fallback else value)"

text \<open>\<^verbatim>\<open>make(..., 0, len(packages)*packageBytes)\<close> is given a positive size by every caller.\<close>

fun flatten_packages :: "nat \<Rightarrow> int list list \<Rightarrow> int \<Rightarrow> (string, (32 word) list) outcome" where
  "flatten_packages i [] packageBytes = Ok []"
| "flatten_packages i (pkg # packages) packageBytes =
     (if int (length pkg) \<noteq> packageBytes
      then Err (''candidate package '' @ dec_nat i @ '' length = '' @ dec_nat (length pkg) @ '', want '' @ dec_int packageBytes)
      else if list_ex (\<lambda>value. value < 0 \<or> value > 255) pkg then Err (''candidate package '' @ dec_nat i @ '' contains byte out of range'')
      else obind (flatten_packages (Suc i) packages packageBytes) (\<lambda>rest. Ok (map word_of_int pkg @ rest)))"

definition flattenCandidatePackages :: "int list list \<Rightarrow> int \<Rightarrow> (string, (32 word) list) outcome" where
  "flattenCandidatePackages packages packageBytes = flatten_packages 0 packages packageBytes"

definition requirePlainPayloadMode :: "fuse_request \<Rightarrow> string option" where
  "requirePlainPayloadMode req =
     (if fq_CandidatePayloadCiphertexts req \<noteq> [] then Some ''plaintext package fusion cannot also include encrypted payload chunks'' else None)"

fun first_empty :: "nat \<Rightarrow> bytes list \<Rightarrow> nat option" where
  "first_empty i [] = None"
| "first_empty i (ct # cts) = (if ct = [] then Some i else first_empty (Suc i) cts)"

definition none_empty :: "(nat \<Rightarrow> string) \<Rightarrow> bytes list \<Rightarrow> (string, bytes list) outcome" where
  "none_empty msg cts = (case first_empty 0 cts of Some i \<Rightarrow> Err (msg i) | None \<Rightarrow> Ok cts)"

text \<open>The rows of the payload matrix, joined; the blob and its lengths are built from the same list.\<close>

fun flatten_payload :: "int \<Rightarrow> nat \<Rightarrow> bytes list list \<Rightarrow> (string, bytes list) outcome" where
  "flatten_payload nChunks i [] = Ok []"
| "flatten_payload nChunks i (chunks # rows) =
     (if int (length chunks) \<noteq> nChunks
      then Err (''encrypted payload candidate '' @ dec_nat i @ '' chunk count = '' @ dec_nat (length chunks) @ '', want '' @ dec_int nChunks)
      else obind (none_empty (\<lambda>c. ''encrypted payload candidate '' @ dec_nat i @ '' chunk '' @ dec_nat c @ '' is empty'') chunks) (\<lambda>cts.
           obind (flatten_payload nChunks (Suc i) rows) (\<lambda>rest. Ok (cts @ rest))))"

partial_function (option) chunk_size :: "int \<Rightarrow> int \<Rightarrow> int option" where
  "chunk_size d c = (if c < d then chunk_size d (wrap64 (c * 2)) else Some c)"

declare chunk_size.simps [code] double_until.simps [code]

definition go_quot :: "int \<Rightarrow> int \<Rightarrow> int" where "go_quot a b = sgn a * sgn b * (\<bar>a\<bar> div \<bar>b\<bar>)"

definition chunk_count :: "int \<Rightarrow> int \<Rightarrow> int" where
  "chunk_count slots chunkSize = go_quot (wrap64 (wrap64 (slots + chunkSize) - 1)) chunkSize"

definition payload_error :: "fuse_request \<Rightarrow> bool \<Rightarrow> string option" where
  "payload_error req requireEvalKeys =
     (let n = length (fq_CandidateCiphertexts req); mk = ek_EvalMultFinal (fq_EvalKeys req); sk = ek_EvalSumFinal (fq_EvalKeys req);
          noCoords = (fq_CandidateLatQ req = [] \<and> fq_CandidateLonQ req = [])
      in if fq_InitiatorCiphertext req = [] then Some ''initiator ciphertext is required''
         else if n = 0 then Some ''at least one candidate ciphertext is required''
         else if length (fq_CandidateBrownies req) \<noteq> n then Some ''candidate metadata counts must match ciphertext count''
         else if fq_CandidateDistanceCiphertexts req = [] \<and> (length (fq_CandidateLatQ req) \<noteq> n \<or> length (fq_CandidateLonQ req) \<noteq> n)
         then Some ''candidate coordinate counts must match ciphertext count''
         else if fq_CandidateDistanceCiphertexts req \<noteq> [] \<and> \<not> noCoords
         then Some ''encrypted distance mode cannot include candidate coordinates''
         else if fq_CandidatePackages req \<noteq> [] then Some ''encrypted payload fusion cannot include plaintext candidate packages''
         else if fq_ProfileDim req \<le> 0 \<or> fq_PayloadSlotCount req \<le> 0 then Some ''profileDim and payloadSlotCount must be positive''
         else if requireEvalKeys \<and> (mk = [] \<or> sk = []) then Some ''final eval-mult and eval-sum keys are required''
         else if \<not> requireEvalKeys \<and> (mk = []) \<noteq> (sk = []) then Some ''eval-mult and eval-sum keys must be supplied together''
         else None)"

text \<open>The result: the number of chunks and the payload ciphertexts in the order of the blob. No value means that the doubling loop does not end.\<close>

definition flattenEncryptedPayloadCiphertexts :: "fuse_request \<Rightarrow> bool \<Rightarrow> (string, nat \<times> int \<times> bytes list) outcome option" where
  "flattenEncryptedPayloadCiphertexts req requireEvalKeys =
     (case payload_error req requireEvalKeys of
        Some e \<Rightarrow> Some (Err e)
      | None \<Rightarrow>
          map_option (\<lambda>chunkSize.
            let n = length (fq_CandidateCiphertexts req); nChunks = chunk_count (fq_PayloadSlotCount req) chunkSize; rows = fq_CandidatePayloadCiphertexts req
            in if nChunks > 256 then Err (''encrypted payload has '' @ dec_int nChunks @ '' chunks; maximum is 256'')
               else if length rows \<noteq> n
               then Err (''encrypted payload candidate count = '' @ dec_nat (length rows) @ '', want '' @ dec_nat n)
               else if wrap64 (int n * nChunks) < 0 then Panic ''runtime error: makeslice: cap out of range''
               else obind (flatten_payload nChunks 0 rows) (\<lambda>cts. Ok (n, nChunks, cts)))
            (chunk_size (fq_ProfileDim req) 1))"

definition flattenEncryptedDistanceCiphertexts :: "fuse_request \<Rightarrow> nat \<Rightarrow> (string, bytes list) outcome" where
  "flattenEncryptedDistanceCiphertexts req n =
     (if length (fq_CandidateDistanceCiphertexts req) \<noteq> n
      then Err (''encrypted distance candidate count = '' @ dec_nat (length (fq_CandidateDistanceCiphertexts req)) @ '', want '' @ dec_nat n)
      else if fq_CandidateLatQ req \<noteq> [] \<or> fq_CandidateLonQ req \<noteq> [] then Err ''encrypted distance mode cannot include candidate coordinates''
      else none_empty (\<lambda>i. ''encrypted distance ciphertext '' @ dec_nat i @ '' is empty'') (fq_CandidateDistanceCiphertexts req))"

section \<open>The C routines\<close>

text \<open>What all routines are given; absent evaluation keys (null pointers) are empty.\<close>

record fuse_args =
  fa_ring :: "32 word"
  fa_factor :: f64
  fa_depth :: "32 word"
  fa_initiator :: bytes
  fa_candidates :: "bytes \<times> (64 word) list"
  fa_latQ :: "(32 word) list"
  fa_lonQ :: "(32 word) list"
  fa_brownies :: "(32 word) list"
  fa_n :: "32 word"
  fa_dim :: "32 word"
  fa_origin :: "32 word \<times> 32 word"
  fa_weights :: "f64 \<times> f64 \<times> f64"
  fa_comparator :: string
  fa_degree :: "32 word"
  fa_shape :: "f64 \<times> f64 \<times> f64"
  fa_schedule :: string
  fa_mult :: bytes
  fa_sum :: bytes

datatype fuse_call =
  ARESFullFusePayloadCKKS fuse_args "(32 word) list" "32 word" "32 word" bool
| ARESChunkedFusePayloadCKKS fuse_args "(32 word) list" "32 word" "32 word"
| ARESChunkedFuseEncryptedPayloadCKKS fuse_args "bytes \<times> (64 word) list" "32 word"
| ARESChunkedFuseEncryptedInputsCKKS fuse_args "bytes \<times> (64 word) list" "bytes \<times> (64 word) list" "32 word"
| ARESBlindFusePayloadBFV bfv_params eval_key_final bytes "bytes list" "bytes list" "bytes list" "(32 word) list" "32 word" "32 word" "int \<times> int \<times> int" "32 word" "int list"

text \<open>Whether it succeeded, the buffer, the chunk lengths it wrote into the caller's array, the number of chunks, the error text.\<close>

record fuse_result =
  fr_ok :: bool
  fr_out :: "bytes option"
  fr_lens :: "(64 word) list"
  fr_n :: int
  fr_err :: string

type_synonym ('o, 'g) fusion = "fuse_call \<Rightarrow> 'o option \<Rightarrow> 'g \<Rightarrow> fuse_result \<times> 'o option \<times> 'g"

definition peek_ctx :: "nat option \<Rightarrow> ('o, 'g, 'o option) prog" where
  "peek_ctx ctx = (case ctx of None \<Rightarrow> nret None | Some x \<Rightarrow> nbind (peek CryptoContextHandle x) (\<lambda>c. nret (Some c)))"

text \<open>A routine that is given a context clears the evaluation keys in it and inserts others: the object behind the handle changes.\<close>

definition put_ctx :: "nat option \<Rightarrow> 'o option \<Rightarrow> ('o, 'g, unit) prog" where
  "put_ctx ctx c = (case (ctx, c) of (Some x, Some o1) \<Rightarrow> nput x (Obj CryptoContextHandle o1) | _ \<Rightarrow> nret ())"

text \<open>The call with the buffer it returns; the array of chunk lengths has 256 entries, and writing past it is a fault.\<close>

definition c_fuse :: "('o, 'g) fusion \<Rightarrow> fuse_call \<Rightarrow> nat option \<Rightarrow> (fuse_result \<Rightarrow> nat \<Rightarrow> ('o, 'g, 'a) prog) \<Rightarrow> ('o, 'g, 'a) prog" where
  "c_fuse F call ctx k =
     nbind (peek_ctx ctx) (\<lambda>c.
     with_world (\<lambda>g. case F call c g of (r, c', g') \<Rightarrow> ((r, c'), g')) (\<lambda>(r, c').
       if length (fr_lens r) > 256 then nfault
       else nbind (put_ctx ctx c') (\<lambda>_. case fr_out r of None \<Rightarrow> k r 0 | Some bs \<Rightarrow> nbind (alloc (Buf bs)) (k r))))"

definition out_bytes :: "fuse_result \<Rightarrow> bytes" where "out_bytes r = (case fr_out r of None \<Rightarrow> [] | Some bs \<Rightarrow> bs)"

definition with_cstring :: "string \<Rightarrow> ('o, 'g, 'a) prog \<Rightarrow> ('o, 'g, 'a) prog" where
  "with_cstring v body = scoped (alloc (Buf (str_bytes v @ [0]))) CBuffer (\<lambda>_. body)"

definition cstr :: "string \<Rightarrow> string" where "cstr v = takeWhile (\<lambda>c. of_char c \<noteq> (0 :: nat)) v"

definition comparator_of :: "fuse_request \<Rightarrow> string" where "comparator_of req = defaultStringGo (fq_Comparator req) ''tanh_chebyshev''"
definition schedule_of :: "fuse_request \<Rightarrow> string" where "schedule_of req = defaultStringGo (fq_SelectorSchedule req) ''none''"

definition with_names :: "fuse_request \<Rightarrow> ('o, 'g, 'a) prog \<Rightarrow> ('o, 'g, 'a) prog" where
  "with_names req body = with_cstring (comparator_of req) (with_cstring (schedule_of req) body)"

definition fuse_args_of :: "cgo_params option \<Rightarrow> fuse_request \<Rightarrow> fuse_args" where
  "fuse_args_of ps req =
     \<lparr> fa_ring = (case ps of Some p \<Rightarrow> cg_RingDim p | None \<Rightarrow> 0), fa_factor = (case ps of Some p \<Rightarrow> cg_ScalingFactor p | None \<Rightarrow> Fin 0),
       fa_depth = (case ps of Some p \<Rightarrow> cg_Depth p | None \<Rightarrow> 0), fa_initiator = fq_InitiatorCiphertext req,
       fa_candidates = concatCandidateCiphertexts (fq_CandidateCiphertexts req), fa_latQ = intsToCInts (fq_CandidateLatQ req),
       fa_lonQ = intsToCInts (fq_CandidateLonQ req), fa_brownies = intsToCInts (fq_CandidateBrownies req),
       fa_n = word_of_nat (length (fq_CandidateCiphertexts req)), fa_dim = word_of_int (fq_ProfileDim req),
       fa_origin = (word_of_int (fq_InitiatorLatQ req), word_of_int (fq_InitiatorLonQ req)),
       fa_weights = (fq_Alpha req, fq_Beta req, fq_Gamma req), fa_comparator = cstr (comparator_of req),
       fa_degree = word_of_int (fq_ComparatorDegree req), fa_shape = (fq_ComparatorGain req, fq_ComparatorScale req, fq_ComparatorBound req),
       fa_schedule = cstr (schedule_of req), fa_mult = ek_EvalMultFinal (fq_EvalKeys req), fa_sum = ek_EvalSumFinal (fq_EvalKeys req) \<rparr>"

section \<open>Fusion of plain packages\<close>

definition plain_error :: "fuse_request \<Rightarrow> string option" where
  "plain_error req =
     (let n = length (fq_CandidateCiphertexts req)
      in case requirePlainPayloadMode req of
           Some e \<Rightarrow> Some e
         | None \<Rightarrow>
             if fq_InitiatorCiphertext req = [] then Some ''initiator ciphertext is required''
             else if n = 0 then Some ''at least one candidate ciphertext is required''
             else if length (fq_CandidateLatQ req) \<noteq> n \<or> length (fq_CandidateLonQ req) \<noteq> n \<or> length (fq_CandidateBrownies req) \<noteq> n
                     \<or> length (fq_CandidatePackages req) \<noteq> n then Some ''candidate metadata counts must match ciphertext count''
             else if ek_EvalMultFinal (fq_EvalKeys req) = [] \<or> ek_EvalSumFinal (fq_EvalKeys req) = []
             then Some ''final eval-mult and eval-sum keys are required''
             else if fq_PackageBytes req \<le> 0 then Some ''packageBytes must be positive''
             else if fq_PayloadSlotCount req \<le> 0 then Some ''payloadSlotCount must be positive''
             else None)"

definition plain_ctx_error :: "crypto_context \<Rightarrow> fuse_request \<Rightarrow> string option" where
  "plain_ctx_error ctx req =
     (let n = length (fq_CandidateCiphertexts req)
      in case requirePlainPayloadMode req of
           Some e \<Rightarrow> Some e
         | None \<Rightarrow>
             if ctx = 0 then Some ''crypto context is required''
             else if n = 0 \<or> fq_InitiatorCiphertext req = [] then Some ''initiator and at least one candidate ciphertext required''
             else if length (fq_CandidateLatQ req) \<noteq> n \<or> length (fq_CandidateLonQ req) \<noteq> n \<or> length (fq_CandidateBrownies req) \<noteq> n
                     \<or> length (fq_CandidatePackages req) \<noteq> n then Some ''candidate metadata counts must match ciphertext count''
             else if ek_EvalMultFinal (fq_EvalKeys req) = [] \<and> ek_EvalSumFinal (fq_EvalKeys req) \<noteq> [] then Some ''final eval-mult key is required''
             else if fq_PackageBytes req \<le> 0 then Some ''packageBytes must be positive''
             else if fq_PayloadSlotCount req \<le> 0 then Some ''payloadSlotCount must be positive''
             else None)"

definition nlift :: "(string, 'a) outcome \<Rightarrow> ('o, 'g, 'a) prog" where "nlift r s = Some (r, s)"

definition guarded :: "string option \<Rightarrow> ('o, 'g, 'a) prog \<Rightarrow> ('o, 'g, 'a) prog" where
  "guarded e body = (case e of Some msg \<Rightarrow> nfail msg | None \<Rightarrow> body)"

text \<open>\<^verbatim>\<open>&candidateBlob[0]\<close> panics when all candidates are empty.\<close>

definition blob_nonempty :: "fuse_request \<Rightarrow> ('o, 'g, 'a) prog \<Rightarrow> ('o, 'g, 'a) prog" where
  "blob_nonempty req body = (if concat (fq_CandidateCiphertexts req) = [] then out_of_range else body)"

definition FullFusePayloadCKKS :: "('o, 'g) fusion \<Rightarrow> cgo_params \<Rightarrow> fuse_request \<Rightarrow> ('o, 'g, bytes) prog" where
  "FullFusePayloadCKKS F ps req =
     guarded (plain_error req) (
     nbind (nlift (none_empty (\<lambda>i. ''candidate ciphertext '' @ dec_nat i @ '' is empty'') (fq_CandidateCiphertexts req))) (\<lambda>_.
     nbind (nlift (flattenCandidatePackages (fq_CandidatePackages req) (fq_PackageBytes req))) (\<lambda>packages.
     with_names req (
       c_fuse F (ARESFullFusePayloadCKKS (fuse_args_of (Some ps) req) packages (word_of_int (fq_PackageBytes req))
                  (word_of_int (fq_PayloadSlotCount req)) (fq_MinimalRotationKeys req)) None (\<lambda>r out.
         if \<not> fr_ok r then nfail (''openfhe full payload fusion failed: '' @ fr_err r)
         else deferring (nfree CBuffer out) (copyCBytes (out_bytes r)))))))"

definition FullFusePayloadCKKSWithContext :: "('o, 'g) fusion \<Rightarrow> crypto_context \<Rightarrow> fuse_request \<Rightarrow> ('o, 'g, bytes) prog" where
  "FullFusePayloadCKKSWithContext F ctx req =
     guarded (plain_ctx_error ctx req) (
     nbind (nlift (flattenCandidatePackages (fq_CandidatePackages req) (fq_PackageBytes req))) (\<lambda>packages.
     with_names req (blob_nonempty req (
       c_fuse F (ARESFullFusePayloadCKKS (fuse_args_of None req) packages (word_of_int (fq_PackageBytes req))
                  (word_of_int (fq_PayloadSlotCount req)) (fq_MinimalRotationKeys req)) (Some ctx) (\<lambda>r out.
         if \<not> fr_ok r then nfail (''full fuse payload: '' @ fr_err r)
         else freeing CBuffer out (copyCBytes (out_bytes r)))))))"

text \<open>The chunk lengths as read back from the array of 256 entries.\<close>

definition chunk_lens :: "fuse_result \<Rightarrow> nat \<Rightarrow> int list" where
  "chunk_lens r n = map (\<lambda>c. if c < length (fr_lens r) then sint (fr_lens r ! c) else 0) [0..<n]"

text \<open>\<^verbatim>\<open>blob[off : off+l]\<close>, with Go's bounds check.\<close>

fun slices :: "bytes \<Rightarrow> nat \<Rightarrow> int list \<Rightarrow> (string, bytes list) outcome" where
  "slices blob off [] = Ok []"
| "slices blob off (l # ls) =
     (if 0 \<le> l \<and> int off + l \<le> int (length blob)
      then obind (slices blob (off + nat l) ls) (\<lambda>rest. Ok (take (nat l) (drop off blob) # rest))
      else Panic ''runtime error: slice bounds out of range'')"

definition plain_chunks :: "fuse_result \<Rightarrow> nat \<Rightarrow> ('o, 'g, bytes list) prog" where
  "plain_chunks r out =
     (if \<not> fr_ok r then nfail (''chunked fuse payload: '' @ fr_err r)
      else if fr_n r > 256
      then nbind (nfree CBuffer out) (\<lambda>_. nfail (''chunked fuse produced '' @ dec_int (fr_n r) @ '' chunks > cap 256''))
      else nbind (freeing CBuffer out (copyCBytes (out_bytes r))) (\<lambda>blob.
           if fr_n r < 0 then npanic ''runtime error: makeslice: len out of range''
           else nlift (slices blob 0 (chunk_lens r (nat (fr_n r))))))"

definition chunked_plain :: "('o, 'g) fusion \<Rightarrow> cgo_params option \<Rightarrow> nat option \<Rightarrow> fuse_request \<Rightarrow> ('o, 'g, bytes list) prog" where
  "chunked_plain F ps ctx req =
     nbind (nlift (flattenCandidatePackages (fq_CandidatePackages req) (fq_PackageBytes req))) (\<lambda>packages.
     with_names req (blob_nonempty req (
       c_fuse F (ARESChunkedFusePayloadCKKS (fuse_args_of ps req) packages (word_of_int (fq_PackageBytes req))
                  (word_of_int (fq_PayloadSlotCount req))) ctx plain_chunks)))"

definition ChunkedFusePayloadCKKS :: "('o, 'g) fusion \<Rightarrow> cgo_params \<Rightarrow> fuse_request \<Rightarrow> ('o, 'g, bytes list) prog" where
  "ChunkedFusePayloadCKKS F ps req = guarded (plain_error req) (chunked_plain F (Some ps) None req)"

definition ChunkedFusePayloadCKKSWithContext :: "('o, 'g) fusion \<Rightarrow> crypto_context \<Rightarrow> fuse_request \<Rightarrow> ('o, 'g, bytes list) prog" where
  "ChunkedFusePayloadCKKSWithContext F ctx req = guarded (plain_ctx_error ctx req) (chunked_plain F None (Some ctx) req)"

section \<open>Fusion of encrypted payloads\<close>

text \<open>The checked splitting: every length is positive and fits, and nothing is left over.\<close>

fun checked_slices :: "(nat \<Rightarrow> string) \<Rightarrow> string \<Rightarrow> nat \<Rightarrow> bytes \<Rightarrow> nat \<Rightarrow> int list \<Rightarrow> (string, bytes list) outcome" where
  "checked_slices bad rest chunk blob offset [] = (if offset \<noteq> length blob then Err rest else Ok [])"
| "checked_slices bad rest chunk blob offset (l # ls) =
     (if l \<le> 0 \<or> l > int (length blob) - int offset then Err (bad chunk)
      else obind (checked_slices bad rest (Suc chunk) blob (offset + nat l) ls) (\<lambda>cs. Ok (take (nat l) (drop offset blob) # cs)))"

definition encrypted_chunks :: "string \<Rightarrow> string \<Rightarrow> int \<Rightarrow> fuse_result \<Rightarrow> nat \<Rightarrow> ('o, 'g, bytes list) prog" where
  "encrypted_chunks lbl what expectedChunks r out =
     (if \<not> fr_ok r then nfail (lbl @ '': '' @ fr_err r)
      else if fr_out r = None then nfail (lbl @ '' returned no ciphertexts'')
      else deferring (nfree CBuffer out) (
        if fr_n r \<noteq> expectedChunks
        then nfail (lbl @ '' produced '' @ dec_int (fr_n r) @ '' chunks, want '' @ dec_int expectedChunks)
        else nbind (copyCBytes (out_bytes r)) (\<lambda>blob.
             nlift (checked_slices (\<lambda>c. ''invalid serialized '' @ what @ '' chunk '' @ dec_nat c @ '' length'')
                     (what @ '' output length does not match chunk lengths'') 0 blob 0 (chunk_lens r (nat (fr_n r)))))))"

definition olift :: "(string, 'a) outcome option \<Rightarrow> ('o, 'g, 'a) prog" where
  "olift r s = map_option (\<lambda>x. (x, s)) r"

definition candidates_present :: "fuse_request \<Rightarrow> ('o, 'g, bytes list) prog" where
  "candidates_present req = nlift (none_empty (\<lambda>i. ''candidate ciphertext '' @ dec_nat i @ '' is empty'') (fq_CandidateCiphertexts req))"

text \<open>The context is absent (\<open>None\<close>) or a handle, and the parameters are used only when it is absent.\<close>

definition chunkedFuseEncryptedPayloadCKKS :: "('o, 'g) fusion \<Rightarrow> nat option \<Rightarrow> cgo_params \<Rightarrow> fuse_request \<Rightarrow> ('o, 'g, bytes list) prog" where
  "chunkedFuseEncryptedPayloadCKKS F ctx ps req =
     (if fq_CandidateDistanceCiphertexts req \<noteq> []
      then nfail ''encrypted payload fusion with raw coordinates cannot include encrypted distances''
      else nbind (olift (flattenEncryptedPayloadCiphertexts req (ctx = None))) (\<lambda>(n, expectedChunks, payload).
           nbind (candidates_present req) (\<lambda>_.
           with_names req (
             c_fuse F (ARESChunkedFuseEncryptedPayloadCKKS (fuse_args_of (if ctx = None then Some ps else None) req)
                        (concatCandidateCiphertexts payload) (word_of_int (fq_PayloadSlotCount req))) ctx
               (encrypted_chunks ''chunked encrypted payload fusion'' ''encrypted payload'' expectedChunks)))))"

definition chunkedFuseEncryptedInputsCKKS :: "('o, 'g) fusion \<Rightarrow> nat option \<Rightarrow> cgo_params \<Rightarrow> fuse_request \<Rightarrow> ('o, 'g, bytes list) prog" where
  "chunkedFuseEncryptedInputsCKKS F ctx ps req =
     nbind (olift (flattenEncryptedPayloadCiphertexts req (ctx = None))) (\<lambda>(n, expectedChunks, payload).
     nbind (nlift (flattenEncryptedDistanceCiphertexts req n)) (\<lambda>distances.
     nbind (candidates_present req) (\<lambda>_.
     with_names req (
       c_fuse F (ARESChunkedFuseEncryptedInputsCKKS (fuse_args_of (if ctx = None then Some ps else None) req)
                  (concatCandidateCiphertexts distances) (concatCandidateCiphertexts payload) (word_of_int (fq_PayloadSlotCount req))) ctx
         (encrypted_chunks ''chunked encrypted input fusion'' ''encrypted input'' expectedChunks)))))"

definition no_params :: cgo_params where
  "no_params = \<lparr> cg_RingDim = 0, cg_ScalingFactor = Fin 0, cg_Depth = 0, cg_MinimalRotationKeys = False, cg_ProfileDim = 0,
     cg_PayloadSlotCount = 0, cg_EvalSumOnlyRotationKeys = False \<rparr>"

definition ChunkedFuseEncryptedPayloadCKKS :: "('o, 'g) fusion \<Rightarrow> cgo_params \<Rightarrow> fuse_request \<Rightarrow> ('o, 'g, bytes list) prog" where
  "ChunkedFuseEncryptedPayloadCKKS F ps req = chunkedFuseEncryptedPayloadCKKS F None ps req"
definition ChunkedFuseEncryptedPayloadCKKSWithContext :: "('o, 'g) fusion \<Rightarrow> crypto_context \<Rightarrow> fuse_request \<Rightarrow> ('o, 'g, bytes list) prog" where
  "ChunkedFuseEncryptedPayloadCKKSWithContext F ctx req =
     (if ctx = 0 then nfail ''crypto context is required'' else chunkedFuseEncryptedPayloadCKKS F (Some ctx) no_params req)"
definition ChunkedFuseEncryptedInputsCKKS :: "('o, 'g) fusion \<Rightarrow> cgo_params \<Rightarrow> encrypted_request \<Rightarrow> ('o, 'g, bytes list) prog" where
  "ChunkedFuseEncryptedInputsCKKS F ps req = chunkedFuseEncryptedInputsCKKS F None ps (fullFuseRequest req)"
definition ChunkedFuseEncryptedInputsCKKSWithContext :: "('o, 'g) fusion \<Rightarrow> crypto_context \<Rightarrow> encrypted_request \<Rightarrow> ('o, 'g, bytes list) prog" where
  "ChunkedFuseEncryptedInputsCKKSWithContext F ctx req =
     (if ctx = 0 then nfail ''crypto context is required'' else chunkedFuseEncryptedInputsCKKS F (Some ctx) no_params (fullFuseRequest req))"

section \<open>Blind fusion in BFV\<close>

text \<open>Three tables of pointers are allocated (\<^verbatim>\<open>malloc\<close> succeeds), filled with pinned pointers, and freed.\<close>

definition with_table :: "nat \<Rightarrow> ('o, 'g, 'a) prog \<Rightarrow> ('o, 'g, 'a) prog" where
  "with_table n body = scoped (alloc (Buf (replicate (n * 8) 0))) CBuffer (\<lambda>_. body)"

definition pinCiphertexts :: "string \<Rightarrow> bytes list \<Rightarrow> ('o, 'g, bytes list) prog" where
  "pinCiphertexts lbl cts = nlift (none_empty (\<lambda>i. ''candidate '' @ dec_nat i @ '' '' @ lbl @ '' ciphertext is empty'') cts)"

definition blind_error :: "blind_request \<Rightarrow> string option" where
  "blind_error req =
     (let n = length (bq_CandidateProfileCiphertexts req)
      in case requireNonEmptyBytes ''initiator ciphertext'' (bq_InitiatorCiphertext req) of
           Some e \<Rightarrow> Some e
         | None \<Rightarrow>
             if n < 2 then Some ''at least two BFV candidates are required''
             else if length (bq_CandidateDistanceCiphertexts req) \<noteq> n \<or> length (bq_CandidatePayloadCiphertexts req) \<noteq> n
                     \<or> length (bq_CandidateBrownies req) \<noteq> n then Some ''BFV candidate ciphertext and brownie counts must match''
             else if ek_EvalMultFinal (bq_EvalKeys req) = [] \<or> ek_EvalSumFinal (bq_EvalKeys req) = []
             then Some ''final BFV eval-mult and eval-sum keys are required''
             else if bq_ProfileDim req \<le> 0 \<or> bq_PackageBytes req \<le> 0 \<or> bq_StepCoefficients req = []
             then Some ''BFV profile dimension, package size, and step coefficients are required''
             else None)"

definition BlindFusePayloadBFVForContract :: "('o, 'g) fusion \<Rightarrow> bfv_params \<Rightarrow> blind_request \<Rightarrow> ('o, 'g, bytes) prog" where
  "BlindFusePayloadBFVForContract F ps req =
     guarded (blind_error req) (
     let n = length (bq_CandidateProfileCiphertexts req)
     in with_table n (with_table n (with_table n (
          nbind (pinCiphertexts ''profile'' (bq_CandidateProfileCiphertexts req)) (\<lambda>profiles.
          nbind (pinCiphertexts ''distance'' (bq_CandidateDistanceCiphertexts req)) (\<lambda>distances.
          nbind (pinCiphertexts ''payload'' (bq_CandidatePayloadCiphertexts req)) (\<lambda>payloads.
          c_fuse F (ARESBlindFusePayloadBFV ps (bq_EvalKeys req) (bq_InitiatorCiphertext req) profiles distances payloads
                     (intsToCInts (bq_CandidateBrownies req)) (word_of_nat n) (word_of_int (bq_ProfileDim req))
                     (bq_ProfileWeight req, bq_DistanceWeight req, bq_BrownieWeight req) (word_of_int (bq_PackageBytes req)) (bq_StepCoefficients req)) None
            (\<lambda>r out. deferring (nfree CBuffer out) (
               if \<not> fr_ok r \<or> out_bytes r = [] then nfail (''openfhe BFV blind payload fusion failed: '' @ fr_err r)
               else copyCBytes (out_bytes r))))))))))"

section \<open>Fusion frees what it is given\<close>

text \<open>
  What the C side promises: a buffer only on success, one that Go can copy, and no more chunk lengths than it has chunks. In the
  encrypted modes it compares the number of payload ciphertexts with the number of candidates times the number of chunks.
\<close>

definition buffers_ok :: "('o, 'g) fusion \<Rightarrow> bool" where
  "buffers_ok F \<longleftrightarrow>
     (\<forall>call c g. (fr_ok (fst (F call c g)) \<or> fr_out (fst (F call c g)) = None) \<and>
                 (\<forall>bs. fr_out (fst (F call c g)) = Some bs \<longrightarrow> length bs < 2 ^ 31))"

fun c_chunks :: "fuse_call \<Rightarrow> nat" where
  "c_chunks (ARESChunkedFusePayloadCKKS a packages packageBytes slots) =
     (case double_until (fa_dim a) 1 of None \<Rightarrow> 0 | Some b \<Rightarrow> nat ((sint slots + sint b - 1) div sint b))"
| "c_chunks (ARESChunkedFuseEncryptedPayloadCKKS a payload slots) = length (snd payload) div unat (fa_n a)"
| "c_chunks (ARESChunkedFuseEncryptedInputsCKKS a distances payload slots) = length (snd payload) div unat (fa_n a)"
| "c_chunks _ = 0"

definition writes_ok :: "('o, 'g) fusion \<Rightarrow> bool" where
  "writes_ok F \<longleftrightarrow> (\<forall>call c g. length (fr_lens (fst (F call c g))) \<le> c_chunks call)"

lemma nbind_nlift: "nbind (nlift r) k = (case r of Ok a \<Rightarrow> k a | Err e \<Rightarrow> nfail e | Panic p \<Rightarrow> npanic p)"
  by (auto simp: fun_eq_iff nbind_def nlift_def nfail_def npanic_def split: outcome.split)

lemma nbind_olift: "nbind (olift (Some r)) k = nbind (nlift r) k"
  by (simp add: fun_eq_iff nbind_def nlift_def olift_def)

lemma secure_nlift_bind [secure_intros]:
  "(\<And>a. r = Ok a \<Longrightarrow> secure H own (k a)) \<Longrightarrow> secure H own (nbind (nlift r) k)"
  unfolding nbind_nlift by (cases r) (auto intro: secure_intros)

lemma secure_olift_bind:
  "r \<noteq> None \<Longrightarrow> (\<And>a. r = Some (Ok a) \<Longrightarrow> secure H own (k a)) \<Longrightarrow> secure H own (nbind (olift r) k)"
  by (cases r) (auto simp: nbind_olift intro: secure_nlift_bind)

lemma secure_nlift [secure_intros]: "secure H nothing (nlift r)"
proof -
  have eq: "nlift r = nbind (nlift r) nret" by (auto simp: fun_eq_iff nbind_def nlift_def nret_def split: outcome.split)
  show ?thesis by (subst eq) (intro secure_intros, simp)
qed

lemma secure_guards [secure_intros]:
  "(e = None \<Longrightarrow> secure H own body) \<Longrightarrow> secure H own (guarded e body)"
  "secure H own body \<Longrightarrow> secure H own (blob_nonempty req body)"
  unfolding guarded_def blob_nonempty_def out_of_range_def by (auto intro: secure_intros split: option.split)

lemma secure_with_cstring: "(\<And>x. secure ((x, CBuffer) # H) own body) \<Longrightarrow> secure H own (with_cstring v body)"
  unfolding with_cstring_def by (intro secure_scoped secure_alloc) auto

lemma secure_with_table: "(\<And>x. secure ((x, CBuffer) # H) own body) \<Longrightarrow> secure H own (with_table n body)"
  unfolding with_table_def by (intro secure_scoped secure_alloc) auto

lemma secure_with_names [secure_intros]: "(\<And>x y. secure ((y, CBuffer) # (x, CBuffer) # H) own body) \<Longrightarrow> secure H own (with_names req body)"
  unfolding with_names_def by (intro secure_with_cstring) auto

definition ctx_held :: "nat option \<Rightarrow> cells \<Rightarrow> bool" where
  "ctx_held ctx H \<longleftrightarrow> (case ctx of None \<Rightarrow> True | Some x \<Rightarrow> (x, CryptoContextHandle) \<in> set H)"

lemma ctx_held_simps [simp]: "ctx_held None H" "ctx_held (Some x) H \<longleftrightarrow> (x, CryptoContextHandle) \<in> set H"
  by (simp_all add: ctx_held_def)

lemma ctx_held_Cons: "ctx_held ctx H \<Longrightarrow> ctx_held ctx (xk # H)"
  by (auto simp: ctx_held_def split: option.splits)

lemma secure_c_fuse:
  fixes k :: "fuse_result \<Rightarrow> nat \<Rightarrow> ('o, 'g, 'a) prog"
  assumes ctx: "ctx_held ctx H" and F: "\<And>c g. length (fr_lens (fst (F call c g))) \<le> 256"
    and none: "\<And>r. r \<in> range (\<lambda>(c, g). fst (F call c g)) \<Longrightarrow> fr_out r = None \<Longrightarrow> secure H own (k r 0)"
    and some: "\<And>r bs. r \<in> range (\<lambda>(c, g). fst (F call c g)) \<Longrightarrow> fr_out r = Some bs \<Longrightarrow> secure H own (nbind (alloc (Buf bs)) (k r))"
  shows "secure H own (c_fuse F call ctx k)"
proof -
  have peek: "secure H nothing (peek_ctx ctx :: ('o, 'g, 'o option) prog)"
    using ctx unfolding peek_ctx_def by (cases ctx) (auto intro!: secure_intros secure_peek)
  have put: "secure H nothing (put_ctx ctx c' :: ('o, 'g, unit) prog)" for c'
    using ctx unfolding put_ctx_def by (auto intro!: secure_intros secure_nput split: option.split)
  show ?thesis unfolding c_fuse_def
  proof (rule secure_nbind [OF peek], rule secure_with_world_result)
    fix c and g :: 'g
    obtain r c' g' where F': "F call c g = (r, c', g')" by (metis prod.exhaust)
    then have r: "r \<in> range (\<lambda>(c, g). fst (F call c g))" by (auto intro!: image_eqI [of _ _ "(c, g)"])
    have "length (fr_lens r) \<le> 256" using F [of c g] F' by simp
    then show "secure H own (case fst (case F call c g of (r, c', g') \<Rightarrow> ((r, c'), g')) of (r, c') \<Rightarrow>
       if length (fr_lens r) > 256 then nfault
       else nbind (put_ctx ctx c') (\<lambda>_. case fr_out r of None \<Rightarrow> k r 0 | Some bs \<Rightarrow> nbind (alloc (Buf bs)) (k r)))"
      using none [OF r] some [OF r] by (auto simp: F' intro!: secure_nbind [OF put] split: option.split)
  qed
qed

text \<open>The buffer is freed by a deferred call, or right after it was copied.\<close>

lemma deferring_null: "deferring (nfree k 0) m = m"
  by (auto simp: fun_eq_iff deferring_def nfree_def nret_def split: option.split)

lemma freeing_null: "freeing k 0 m = m"
  by (auto simp: fun_eq_iff freeing_def deferring_null split: option.split outcome.split)

lemma secure_buffer:
  assumes "\<And>x. secure ((x, CBuffer) # H) own body"
  shows "secure H own (nbind (alloc (Buf bs)) (\<lambda>x. deferring (nfree CBuffer x) body))"
  using secure_scoped [OF secure_alloc [of "Buf bs"], of CBuffer H own "\<lambda>_. body"] assms by (simp add: scoped_def)

lemma calm_copyCBytes: "length bs < 2 ^ 31 \<Longrightarrow> calm (copyCBytes bs)"
  unfolding copyCBytes_short by (intro steady_calm steady_intros)

lemma secure_copied_buffer:
  "length bs < 2 ^ 31 \<Longrightarrow> secure H nothing (nbind (alloc (Buf bs)) (\<lambda>x. freeing CBuffer x (copyCBytes bs)))"
  by (rule secure_freeing [OF secure_alloc]) (auto intro: secure_intros calm_copyCBytes)


lemma free_then_fail: "nbind (nfree k x) (\<lambda>_. nfail e) = deferring (nfree k x) (nfail e)"
  by (auto simp: fun_eq_iff nbind_def deferring_def nfree_def nfail_def nret_def nfault_def split: option.split)

lemma nfree_null: "nbind (nfree k 0) f = f ()"
  by (auto simp: fun_eq_iff nbind_def nfree_def nret_def)

lemma plain_chunks_few:
  assumes "fr_ok r" "out_bytes r = bs" "\<not> fr_n r > 256"
  shows "nbind m (plain_chunks r) = nbind (nbind m (\<lambda>x. freeing CBuffer x (copyCBytes bs))) (\<lambda>blob.
     if fr_n r < 0 then npanic ''runtime error: makeslice: len out of range'' else nlift (slices blob 0 (chunk_lens r (nat (fr_n r)))))"
  unfolding plain_chunks_def nbind_assoc using assms by simp

lemma secure_plain_chunks:
  fixes r :: fuse_result
  assumes "fr_ok r \<or> fr_out r = None"
  shows "fr_out r = None \<Longrightarrow> secure H nothing (plain_chunks r 0)"
    and "fr_out r = Some bs \<Longrightarrow> length bs < 2 ^ 31 \<Longrightarrow> secure H nothing (nbind (alloc (Buf bs)) (plain_chunks r))"
proof -
  show "fr_out r = None \<Longrightarrow> secure H nothing (plain_chunks r 0)"
    unfolding plain_chunks_def nfree_null freeing_null by (intro secure_intros)
next
  assume bs: "fr_out r = Some bs" "length bs < 2 ^ 31"
  then have ok: "fr_ok r" "out_bytes r = bs" using assms by (simp_all add: out_bytes_def)
  show "secure H nothing (nbind (alloc (Buf bs)) (plain_chunks r))"
  proof (cases "fr_n r > 256")
    case True
    then show ?thesis unfolding plain_chunks_def using ok by (simp add: free_then_fail secure_buffer secure_intros)
  next
    case False
    then show ?thesis unfolding plain_chunks_few [OF ok False] using bs(2) by (intro secure_nbind secure_copied_buffer secure_intros)
  qed
qed

lemma secure_encrypted_chunks:
  assumes "fr_ok r \<or> fr_out r = None"
  shows "fr_out r = None \<Longrightarrow> secure H nothing (encrypted_chunks lbl what n r 0)"
    and "fr_out r = Some bs \<Longrightarrow> secure H nothing (nbind (alloc (Buf bs)) (encrypted_chunks lbl what n r))"
  using assms unfolding encrypted_chunks_def by (auto intro!: secure_intros secure_buffer)

lemma in_range_fuse:
  assumes "buffers_ok F" "r \<in> range (\<lambda>(c, g). fst (F call c g))"
  shows "fr_ok r \<or> fr_out r = None" and "fr_out r = Some bs \<Longrightarrow> length bs < 2 ^ 31"
proof -
  obtain c g where r: "r = fst (F call c g)" using assms(2) by auto
  show "fr_ok r \<or> fr_out r = None" using assms(1) unfolding buffers_ok_def r by meson
  show "fr_out r = Some bs \<Longrightarrow> length bs < 2 ^ 31" using assms(1) unfolding buffers_ok_def r by meson
qed

lemma few_lens: "writes_ok F \<Longrightarrow> c_chunks call \<le> 256 \<Longrightarrow> length (fr_lens (fst (F call c g))) \<le> 256"
  unfolding writes_ok_def using order_trans by blast

lemma secure_chunked_plain:
  assumes "buffers_ok F" "writes_ok F" "ctx_held ctx H"
    and "\<And>packages. c_chunks (ARESChunkedFusePayloadCKKS (fuse_args_of ps req) packages (word_of_int (fq_PackageBytes req)) (word_of_int (fq_PayloadSlotCount req))) \<le> 256"
  shows "secure H nothing (chunked_plain F ps ctx req)"
  unfolding chunked_plain_def
proof (rule secure_nlift_bind, rule secure_with_names, rule secure_guards(2), rule secure_c_fuse, goal_cases)
  case (3 packages x y r)
  show ?case by (rule secure_plain_chunks(1) [OF in_range_fuse(1) [OF assms(1) 3(2)] 3(3)])
next
  case (4 packages x y r bs)
  show ?case by (rule secure_plain_chunks(2) [OF in_range_fuse(1) [OF assms(1) 4(2)] 4(3) in_range_fuse(2) [OF assms(1) 4(2,3)]])
qed (use assms(2-4) in \<open>auto intro!: ctx_held_Cons few_lens\<close>)

lemma secure_full_ctx:
  assumes "buffers_ok F" "writes_ok F" "(ctx, CryptoContextHandle) \<in> set H"
  shows "secure H nothing (FullFusePayloadCKKSWithContext F ctx req)"
  unfolding FullFusePayloadCKKSWithContext_def
proof (rule secure_guards(1), rule secure_nlift_bind, rule secure_with_names, rule secure_guards(2), rule secure_c_fuse, goal_cases)
  case (4 packages x y r bs)
  then have "fr_ok r" "length bs < 2 ^ 31" using in_range_fuse(1) [OF assms(1) 4(3)] in_range_fuse(2) [OF assms(1) 4(3,4)] by simp_all
  then show ?case using 4(4) by (simp add: secure_copied_buffer out_bytes_def)
qed (use assms(2-3) in \<open>auto simp: freeing_null intro!: secure_intros few_lens\<close>)

lemma secure_full_fresh:
  assumes "buffers_ok F" "writes_ok F"
  shows "secure H nothing (FullFusePayloadCKKS F ps req)"
  unfolding FullFusePayloadCKKS_def
proof (rule secure_guards(1), rule secure_nlift_bind, rule secure_nlift_bind, rule secure_with_names, rule secure_c_fuse, goal_cases)
  case (4 cts packages x y r bs)
  then have "fr_ok r" using in_range_fuse(1) [OF assms(1) 4(4)] by simp
  then show ?case by (simp add: secure_buffer secure_intros)
qed (use assms(2) in \<open>auto simp: deferring_null intro!: secure_intros few_lens\<close>)


text \<open>The doubling loop ends when the dimension is at most \<^verbatim>\<open>2^62\<close>, with the least power of two that is not below it.\<close>

lemma chunk_size_power:
  assumes "d \<le> 2 ^ 62" "i \<le> 62"
  shows "\<exists>k \<le> 62. i \<le> k \<and> chunk_size d (2 ^ i) = Some (2 ^ k) \<and> d \<le> 2 ^ k \<and> (i < k \<longrightarrow> 2 ^ (k - 1) < d)"
  using assms(2)
proof (induction "62 - i" arbitrary: i)
  case 0
  then show ?case using assms(1) by (intro exI [of _ 62]) (simp add: chunk_size.simps)
next
  case (Suc m)
  show ?case
  proof (cases "2 ^ i < d")
    case True
    have i: "Suc i \<le> 62" "m = 62 - Suc i" using Suc.hyps(2) by simp_all
    have w: "wrap64 (2 ^ i * 2) = 2 ^ Suc i" using i(1) by (intro wrap64_double) simp
    obtain k where k: "k \<le> 62" "Suc i \<le> k" "chunk_size d (2 ^ Suc i) = Some (2 ^ k)" "d \<le> 2 ^ k" "Suc i < k \<longrightarrow> 2 ^ (k - 1) < d"
      using Suc.hyps(1) [OF i(2,1)] by blast
    have "chunk_size d (2 ^ i) = Some (2 ^ k)" using True w k(3) by (subst chunk_size.simps) simp
    moreover have "2 ^ (k - 1) < d" using k(2,5) True by (cases "Suc i = k") auto
    ultimately show ?thesis using k by (intro exI [of _ k]) auto
  qed (use Suc in \<open>auto simp: chunk_size.simps intro!: exI [of _ i]\<close>)
qed

lemma obind_eq_Ok [simp]: "obind r k = Ok b \<longleftrightarrow> (\<exists>a. r = Ok a \<and> k a = Ok b)"
  by (cases r) (auto simp: obind_def)

lemma none_empty_Ok: "none_empty msg cts = Ok xs \<longleftrightarrow> xs = cts \<and> [] \<notin> set cts"
proof -
  have "first_empty i cts = None \<longleftrightarrow> [] \<notin> set cts" for i by (induction i cts rule: first_empty.induct) auto
  from this [of 0] show ?thesis by (cases "first_empty 0 cts") (auto simp: none_empty_def)
qed

lemma flatten_payload_Ok:
  "flatten_payload n i rows = Ok cts \<longleftrightarrow> cts = concat rows \<and> (\<forall>row \<in> set rows. int (length row) = n \<and> [] \<notin> set row)"
  by (induction rows arbitrary: i cts) (auto simp: none_empty_Ok)

lemma concat_uniform: "(\<And>row. row \<in> set rows \<Longrightarrow> length row = k) \<Longrightarrow> length (concat rows) = length rows * k"
  by (induction rows) auto

lemma flattenEncrypted_Ok:
  assumes "flattenEncryptedPayloadCiphertexts req b = Some (Ok (n, nChunks, cts))"
  shows "n = length (fq_CandidateCiphertexts req)" "0 < n" "cts = concat (fq_CandidatePayloadCiphertexts req)"
    and "[] \<notin> set cts" "nChunks \<le> 256" "0 \<le> nChunks" "length cts = n * nat nChunks"
proof -
  obtain chunkSize where e: "payload_error req b = None" "nChunks = chunk_count (fq_PayloadSlotCount req) chunkSize" "\<not> nChunks > 256"
      "length (fq_CandidatePayloadCiphertexts req) = n" and n: "n = length (fq_CandidateCiphertexts req)"
    and f: "flatten_payload nChunks 0 (fq_CandidatePayloadCiphertexts req) = Ok cts"
    using assms by (auto simp: flattenEncryptedPayloadCiphertexts_def Let_def split: option.splits if_splits)
  show "n = length (fq_CandidateCiphertexts req)" by (rule n)
  show n0: "0 < n" using e(1) n by (auto simp: payload_error_def Let_def split: if_splits)
  have rows: "\<forall>row \<in> set (fq_CandidatePayloadCiphertexts req). int (length row) = nChunks \<and> [] \<notin> set row"
    and cts: "cts = concat (fq_CandidatePayloadCiphertexts req)" using f by (auto simp: flatten_payload_Ok)
  show "cts = concat (fq_CandidatePayloadCiphertexts req)" by (rule cts)
  show "[] \<notin> set cts" using rows cts by auto
  show "nChunks \<le> 256" using e(3) by simp
  have "hd (fq_CandidatePayloadCiphertexts req) \<in> set (fq_CandidatePayloadCiphertexts req)" using n0 e(4) by (intro hd_in_set) auto
  then show "0 \<le> nChunks" using rows by fastforce
  show "length cts = n * nat nChunks" unfolding cts e(4) [symmetric] by (rule concat_uniform) (use rows in auto)
qed

lemma encrypted_chunk_count:
  assumes "flattenEncryptedPayloadCiphertexts req b = Some (Ok (n, nChunks, cts))" "length (fq_CandidateCiphertexts req) < 2 ^ 32"
  shows "length (snd (concatCandidateCiphertexts cts)) div unat (fa_n (fuse_args_of ps req)) \<le> 256"
proof -
  have "unat (fa_n (fuse_args_of ps req)) = n"
    using assms(2) flattenEncrypted_Ok(1) [OF assms(1)] by (simp add: fuse_args_of_def unat_of_nat)
  then show ?thesis using flattenEncrypted_Ok(2,5,6,7) [OF assms(1)] by (simp add: concatCandidateCiphertexts_def)
qed

lemma flattenEncrypted_ends: "fq_ProfileDim req \<le> 2 ^ 62 \<Longrightarrow> flattenEncryptedPayloadCiphertexts req b \<noteq> None"
  using chunk_size_power [of "fq_ProfileDim req" 0] by (auto simp: flattenEncryptedPayloadCiphertexts_def split: option.split)

lemma secure_encrypted_tail:
  assumes F: "buffers_ok F" "writes_ok F" "c_chunks call \<le> 256" and ctx: "ctx_held ctx H"
  shows "secure H nothing (with_names req (c_fuse F call ctx (encrypted_chunks lbl what n)))"
proof (rule secure_with_names, rule secure_c_fuse, goal_cases)
  case (3 x y r)
  show ?case by (rule secure_encrypted_chunks(1) [OF in_range_fuse(1) [OF F(1) 3(1)] 3(2)])
next
  case (4 x y r bs)
  show ?case by (rule secure_encrypted_chunks(2) [OF in_range_fuse(1) [OF F(1) 4(1)] 4(2)])
qed (use assms in \<open>auto intro!: ctx_held_Cons few_lens\<close>)

lemma secure_encrypted:
  assumes F: "buffers_ok F" "writes_ok F" and ctx: "ctx_held ctx H"
    and req: "fq_ProfileDim req \<le> 2 ^ 62" "length (fq_CandidateCiphertexts req) < 2 ^ 32"
  shows "secure H nothing (chunkedFuseEncryptedPayloadCKKS F ctx ps req)"
    and "secure H nothing (chunkedFuseEncryptedInputsCKKS F ctx ps req)"
proof -
  note ends = flattenEncrypted_ends [OF req(1)] and count = encrypted_chunk_count [OF _ req(2)]
  show "secure H nothing (chunkedFuseEncryptedPayloadCKKS F ctx ps req)"
    unfolding chunkedFuseEncryptedPayloadCKKS_def candidates_present_def
    by (intro secure_if secure_nfail secure_olift_bind ends, unfold case_prod_beta, intro secure_nlift_bind secure_encrypted_tail F ctx)
      (auto dest: count)
  show "secure H nothing (chunkedFuseEncryptedInputsCKKS F ctx ps req)"
    unfolding chunkedFuseEncryptedInputsCKKS_def candidates_present_def
    by (intro secure_olift_bind ends, unfold case_prod_beta, intro secure_nlift_bind secure_encrypted_tail F ctx)
      (auto dest: count)
qed

lemma secure_blind:
  assumes F: "buffers_ok F" "writes_ok F"
  shows "secure H nothing (BlindFusePayloadBFVForContract F ps req)"
  unfolding BlindFusePayloadBFVForContract_def Let_def pinCiphertexts_def
proof (intro secure_guards(1) secure_with_table secure_nlift_bind, rule secure_c_fuse, goal_cases)
  case (4 x xa xb profiles distances payloads r bs)
  show ?case by (rule secure_buffer) (intro secure_intros)
qed (use F(2) in \<open>auto simp: deferring_null intro!: secure_intros few_lens\<close>)

end
