(* ===== verification/Bridge_Union.thy ===== *)
theory Bridge_Union
  imports Bridge_Fuse
begin

text \<open>
  Union scoring in \<^verbatim>\<open>pkg/ares/crypto/cgo/bridge.go\<close>: several comparators score the same cohort on one context, one after the other or by a pool of
  workers; and the tuning of the comparators from the margins of sample cohorts, in rounded binary64.
\<close>

section \<open>Comparators and their tuning\<close>

record union_comparator =
  uc_ID :: string
  uc_Comparator :: string
  uc_Schedule :: string
  uc_Gain :: f64
  uc_Bound :: f64
  uc_InputScale :: f64
  uc_RangeMargin :: f64
  uc_Degree :: int

record distribution =
  dm_MinMargin :: f64
  dm_MedianMargin :: f64
  dm_MaxMargin :: f64
  dm_MaxPairwiseDiff :: f64

text \<open>The scalar product of two profiles, up to the shorter one.\<close>

definition dot :: "f64 list \<Rightarrow> f64 list \<Rightarrow> f64" where
  "dot xs ys = fold (\<lambda>(x, y) d. f_add d (f_mul x y)) (zip xs ys) (Fin 0)"

type_synonym ranks = "f64 \<times> f64 \<times> f64"

definition rank_step :: "f64 \<Rightarrow> ranks \<Rightarrow> ranks" where
  "rank_step d bsw =
     (case bsw of (best, second, worst) \<Rightarrow>
        let (best', second') = (if f_lt best d then (d, best) else if f_lt second d then (best, d) else (best, second))
        in (best', second', if f_lt d worst then d else worst))"

definition cohort_ranks :: "f64 list list \<Rightarrow> ranks" where
  "cohort_ranks ch = fold (\<lambda>cand. rank_step (dot (ch ! 0) cand)) (drop 1 ch) (FInf True, FInf True, FInf False)"

definition cohort_step :: "f64 list list \<Rightarrow> f64 list \<times> f64 \<Rightarrow> f64 list \<times> f64" where
  "cohort_step ch acc =
     (if length ch < 3 then acc
      else case (acc, cohort_ranks ch) of ((margins, maxPairwise), (best, second, worst)) \<Rightarrow>
        (margins @ [f_sub best second], let pairwise = f_sub best worst in if f_lt maxPairwise pairwise then pairwise else maxPairwise))"

text \<open>\<^verbatim>\<open>sort.Float64s\<close>: NaN comes before every other value.\<close>

definition sort_less :: "f64 \<Rightarrow> f64 \<Rightarrow> bool" where "sort_less x y \<longleftrightarrow> f_lt x y \<or> (x = FNaN \<and> y \<noteq> FNaN)"

fun insert_float :: "f64 \<Rightarrow> f64 list \<Rightarrow> f64 list" where
  "insert_float x [] = [x]"
| "insert_float x (y # ys) = (if sort_less y x then y # insert_float x ys else x # y # ys)"

definition sort_floats :: "f64 list \<Rightarrow> f64 list" where "sort_floats xs = foldr insert_float xs []"

definition MarginStatsFromCohorts :: "f64 list list list \<Rightarrow> distribution" where
  "MarginStatsFromCohorts cohorts =
     (case fold cohort_step cohorts ([], Fin 0) of (margins, maxPairwise) \<Rightarrow>
        if margins = [] then \<lparr> dm_MinMargin = rnd64 (5 / 1000), dm_MedianMargin = rnd64 (126 / 10000), dm_MaxMargin = rnd64 (5 / 100), dm_MaxPairwiseDiff = rnd64 (5 / 100) \<rparr>
        else let ms = sort_floats margins
             in \<lparr> dm_MinMargin = ms ! 0, dm_MedianMargin = ms ! (length ms div 2), dm_MaxMargin = last ms,
                  dm_MaxPairwiseDiff = (if f_le maxPairwise (Fin 0) then last ms else maxPairwise) \<rparr>)"

definition comp_max_diff :: "f64 \<Rightarrow> f64 \<Rightarrow> f64 \<Rightarrow> union_comparator \<Rightarrow> f64" where
  "comp_max_diff target scoreScale rangeMargin c =
     (let compRangeMargin = (if f_lt (Fin 0) (uc_RangeMargin c) then uc_RangeMargin c else rangeMargin);
          compMaxDiff = f_mul (f_quot scoreScale (Fin 2)) compRangeMargin
      in if f_le compMaxDiff (Fin 0) then target else compMaxDiff)"

definition capped :: "f64 \<Rightarrow> f64" where "capped v = (if f_lt (Fin 1) v then Fin 1 else v)"

definition input_scale :: "f64 \<Rightarrow> f64 \<Rightarrow> f64" where
  "input_scale bound compMaxDiff =
     (if f_lt (Fin 0) bound then capped (f_quot bound (f_mul compMaxDiff (rnd64 (115 / 100))))
      else capped (f_quot (rnd64 (67 / 10)) (f_mul compMaxDiff (rnd64 (105 / 100)))))"

definition tune_target :: "f64 \<Rightarrow> f64" where "tune_target target = (if f_le target (Fin 0) then Fin 4 else target)"
definition tune_median :: "distribution \<Rightarrow> f64" where
  "tune_median m = (if f_le (dm_MedianMargin m) (Fin 0) then rnd64 (126 / 10000) else dm_MedianMargin m)"
definition tune_scale :: "distribution \<Rightarrow> f64 \<Rightarrow> f64" where "tune_scale m target = f_quot (f_mul (Fin 2) target) (tune_median m)"
definition tune_range :: "distribution \<Rightarrow> f64" where
  "tune_range m = (if f_lt (dm_MaxMargin m) (dm_MaxPairwiseDiff m) then dm_MaxPairwiseDiff m else dm_MaxMargin m)"

definition TuneUnion :: "distribution \<Rightarrow> union_comparator list \<Rightarrow> f64 \<Rightarrow> f64 \<times> union_comparator list" where
  "TuneUnion m base target0 =
     (let target = tune_target target0; scoreScale = tune_scale m target; rangeMargin = tune_range m
      in (scoreScale, map (\<lambda>c. c\<lparr> uc_InputScale := input_scale (uc_Bound c) (comp_max_diff target scoreScale rangeMargin c) \<rparr>) base))"

section \<open>Lanes\<close>

definition clampUnionConcurrency :: "int \<Rightarrow> union_comparator list \<Rightarrow> int" where
  "clampUnionConcurrency concurrency comparators =
     (let c = (if concurrency \<le> 0 then 1 else concurrency) in if c > int (length comparators) then int (length comparators) else c)"

definition insertUnionEvalKeys :: "('o, 'g) openfhe \<Rightarrow> crypto_context \<Rightarrow> eval_key_final \<Rightarrow> ('o, 'g, unit) prog" where
  "insertUnionEvalKeys L ctx evalKeys =
     (if ek_EvalMultFinal evalKeys = [] \<or> ek_EvalSumFinal evalKeys = [] then nfail ''final eval-mult and eval-sum keys are required''
      else scoped (relabel ''deserialize eval-mult key'' (deserializeEvalMultKey L ctx (ek_EvalMultFinal evalKeys))) EvalMultKeyHandle (\<lambda>multKey.
           nbind (c_insert L InsertEvalMultKey [(ctx, CryptoContextHandle), (multKey, EvalMultKeyHandle)] ''insert eval-mult key failed'') (\<lambda>_.
           scoped (relabel ''deserialize eval-sum key'' (deserializeRotKey L ctx (ek_EvalSumFinal evalKeys))) RotKeyHandle (\<lambda>sumKey.
           c_insert L InsertEvalSumKey [(ctx, CryptoContextHandle), (sumKey, RotKeyHandle)] ''insert eval-sum key failed''))))"

definition unionComparatorRequest :: "fuse_request \<Rightarrow> union_comparator \<Rightarrow> bool \<Rightarrow> fuse_request" where
  "unionComparatorRequest req cmp usePreinsertedEvalKeys =
     req\<lparr> fq_Comparator := uc_Comparator cmp, fq_SelectorSchedule := uc_Schedule cmp, fq_ComparatorGain := uc_Gain cmp,
          fq_ComparatorBound := uc_Bound cmp, fq_ComparatorScale := uc_InputScale cmp, fq_ComparatorDegree := uc_Degree cmp,
          fq_EvalKeys := (if usePreinsertedEvalKeys then \<lparr> ek_EvalMultFinal = [], ek_EvalSumFinal = [] \<rparr> else fq_EvalKeys req) \<rparr>"

type_synonym ('o, 'g) lane = "crypto_context \<Rightarrow> fuse_request \<Rightarrow> union_comparator \<Rightarrow> bool \<Rightarrow> ('o, 'g, bytes list) prog"

definition chunkedUnionComparatorWithContext :: "('o, 'g) fusion \<Rightarrow> ('o, 'g) lane" where
  "chunkedUnionComparatorWithContext F ctx req cmp pre = ChunkedFusePayloadCKKSWithContext F ctx (unionComparatorRequest req cmp pre)"
definition chunkedEncryptedUnionComparatorWithContext :: "('o, 'g) fusion \<Rightarrow> ('o, 'g) lane" where
  "chunkedEncryptedUnionComparatorWithContext F ctx req cmp pre = ChunkedFuseEncryptedPayloadCKKSWithContext F ctx (unionComparatorRequest req cmp pre)"
definition chunkedEncryptedInputUnionComparatorWithContext :: "('o, 'g) fusion \<Rightarrow> ('o, 'g) lane" where
  "chunkedEncryptedInputUnionComparatorWithContext F ctx req cmp pre =
     ChunkedFuseEncryptedInputsCKKSWithContext F ctx (encryptedInputFuseRequestFromFull (unionComparatorRequest req cmp pre))"

text \<open>One lane after the other, stopping at the first error.\<close>

fun union_seq :: "(union_comparator \<Rightarrow> ('o, 'g, bytes list) prog) \<Rightarrow> union_comparator list \<Rightarrow> ('o, 'g, bytes list list) prog" where
  "union_seq fuse [] = nret []"
| "union_seq fuse (cmp # comps) =
     nbind (relabel (''union comparator '' @ uc_ID cmp) (fuse cmp)) (\<lambda>chunks.
     nbind (union_seq fuse comps) (\<lambda>out. nret (chunks # out)))"

text \<open>
  The pool: every job runs, in an order the scheduler chooses, and the results arrive in another one. A lane touches the shared state in
  its one call of the library, so a lane is one step. A panic in a worker ends the program.
\<close>

record schedule =
  sc_runs :: "nat list"
  sc_arrives :: "nat list"

definition attempt :: "('o, 'g, 'a) prog \<Rightarrow> ('o, 'g, (string, 'a) outcome) prog" where
  "attempt m s = (case m s of None \<Rightarrow> None | Some (Panic p, s') \<Rightarrow> Some (Panic p, s') | Some (r, s') \<Rightarrow> Some (Ok r, s'))"

fun run_jobs :: "(nat \<Rightarrow> ('o, 'g, 'a) prog) \<Rightarrow> nat list \<Rightarrow> ('o, 'g, (nat \<times> (string, 'a) outcome) list) prog" where
  "run_jobs f [] = nret []"
| "run_jobs f (i # is) = nbind (attempt (f i)) (\<lambda>r. nbind (run_jobs f is) (\<lambda>rs. nret ((i, r) # rs)))"

text \<open>The loop over the results: only the first error that arrives is kept, and the slot of any later one is set to nil.\<close>

fun collect :: "(nat \<Rightarrow> string) \<Rightarrow> (nat \<times> (string, bytes list) outcome) list \<Rightarrow> string option \<Rightarrow> bytes list list \<Rightarrow> (string, bytes list list) outcome" where
  "collect ids [] firstErr out = (case firstErr of Some e \<Rightarrow> Err e | None \<Rightarrow> Ok out)"
| "collect ids ((i, r) # rs) firstErr out =
     (case r of
        Ok chunks \<Rightarrow> collect ids rs firstErr (out[i := chunks])
      | Err e \<Rightarrow> (if firstErr = None then collect ids rs (Some (''union comparator '' @ ids i @ '': '' @ e)) out
                  else collect ids rs firstErr (out[i := []]))
      | Panic p \<Rightarrow> Panic p)"

definition union_pool :: "(union_comparator \<Rightarrow> ('o, 'g, bytes list) prog) \<Rightarrow> union_comparator list \<Rightarrow> schedule \<Rightarrow> ('o, 'g, bytes list list) prog" where
  "union_pool fuse comparators sched =
     nbind (run_jobs (\<lambda>i. fuse (comparators ! i)) (sc_runs sched)) (\<lambda>rs.
       nlift (collect (\<lambda>i. uc_ID (comparators ! i)) (map (\<lambda>i. (i, the (map_of rs i))) (sc_arrives sched)) None (replicate (length comparators) [])))"

definition runUnionComparatorsWith ::
  "('o, 'g) lane \<Rightarrow> schedule \<Rightarrow> crypto_context \<Rightarrow> fuse_request \<Rightarrow> union_comparator list \<Rightarrow> int \<Rightarrow> bool \<Rightarrow> ('o, 'g, bytes list list) prog" where
  "runUnionComparatorsWith fuse sched ctx req comparators concurrency pre =
     (if concurrency = 1 then union_seq (\<lambda>cmp. fuse ctx req cmp pre) comparators
      else union_pool (\<lambda>cmp. fuse ctx req cmp pre) comparators sched)"

definition runUnionComparators ::
  "('o, 'g) fusion \<Rightarrow> schedule \<Rightarrow> crypto_context \<Rightarrow> fuse_request \<Rightarrow> union_comparator list \<Rightarrow> int \<Rightarrow> bool \<Rightarrow> ('o, 'g, bytes list list) prog" where
  "runUnionComparators F = runUnionComparatorsWith (chunkedUnionComparatorWithContext F)"

section \<open>Entry points\<close>

definition union_score ::
  "('o, 'g) openfhe \<Rightarrow> ('o, 'g) lane \<Rightarrow> schedule \<Rightarrow> cgo_params \<Rightarrow> fuse_request \<Rightarrow> union_comparator list \<Rightarrow> int \<Rightarrow> ('o, 'g, bytes list list) prog" where
  "union_score L fuse sched ps req comparators concurrency0 =
     (if comparators = [] then nfail ''at least one union comparator is required''
      else let concurrency = clampUnionConcurrency concurrency0 comparators
           in ckks L ps (\<lambda>ctx.
                nbind (if concurrency > 1 then insertUnionEvalKeys L ctx (fq_EvalKeys req) else nret ()) (\<lambda>_.
                runUnionComparatorsWith fuse sched ctx req comparators concurrency (concurrency > 1))))"

definition ChunkedUnionScoreCKKSWithConcurrency ::
  "('o, 'g) openfhe \<Rightarrow> ('o, 'g) fusion \<Rightarrow> schedule \<Rightarrow> cgo_params \<Rightarrow> fuse_request \<Rightarrow> union_comparator list \<Rightarrow> int \<Rightarrow> ('o, 'g, bytes list list) prog" where
  "ChunkedUnionScoreCKKSWithConcurrency L F = union_score L (chunkedUnionComparatorWithContext F)"
definition ChunkedUnionScoreCKKS ::
  "('o, 'g) openfhe \<Rightarrow> ('o, 'g) fusion \<Rightarrow> schedule \<Rightarrow> cgo_params \<Rightarrow> fuse_request \<Rightarrow> union_comparator list \<Rightarrow> ('o, 'g, bytes list list) prog" where
  "ChunkedUnionScoreCKKS L F sched ps req comparators = ChunkedUnionScoreCKKSWithConcurrency L F sched ps req comparators 1"
definition ChunkedUnionScoreEncryptedPayloadCKKSWithConcurrency ::
  "('o, 'g) openfhe \<Rightarrow> ('o, 'g) fusion \<Rightarrow> schedule \<Rightarrow> cgo_params \<Rightarrow> fuse_request \<Rightarrow> union_comparator list \<Rightarrow> int \<Rightarrow> ('o, 'g, bytes list list) prog" where
  "ChunkedUnionScoreEncryptedPayloadCKKSWithConcurrency L F = union_score L (chunkedEncryptedUnionComparatorWithContext F)"
definition ChunkedUnionScoreEncryptedPayloadCKKS ::
  "('o, 'g) openfhe \<Rightarrow> ('o, 'g) fusion \<Rightarrow> schedule \<Rightarrow> cgo_params \<Rightarrow> fuse_request \<Rightarrow> union_comparator list \<Rightarrow> ('o, 'g, bytes list list) prog" where
  "ChunkedUnionScoreEncryptedPayloadCKKS L F sched ps req comparators = ChunkedUnionScoreEncryptedPayloadCKKSWithConcurrency L F sched ps req comparators 1"
definition ChunkedUnionScoreEncryptedInputsCKKSWithConcurrency ::
  "('o, 'g) openfhe \<Rightarrow> ('o, 'g) fusion \<Rightarrow> schedule \<Rightarrow> cgo_params \<Rightarrow> encrypted_request \<Rightarrow> union_comparator list \<Rightarrow> int \<Rightarrow> ('o, 'g, bytes list list) prog" where
  "ChunkedUnionScoreEncryptedInputsCKKSWithConcurrency L F sched ps req = union_score L (chunkedEncryptedInputUnionComparatorWithContext F) sched ps (fullFuseRequest req)"
definition ChunkedUnionScoreEncryptedInputsCKKS ::
  "('o, 'g) openfhe \<Rightarrow> ('o, 'g) fusion \<Rightarrow> schedule \<Rightarrow> cgo_params \<Rightarrow> encrypted_request \<Rightarrow> union_comparator list \<Rightarrow> ('o, 'g, bytes list list) prog" where
  "ChunkedUnionScoreEncryptedInputsCKKS L F sched ps req comparators = ChunkedUnionScoreEncryptedInputsCKKSWithConcurrency L F sched ps req comparators 1"

text \<open>With per-index eval-sum keys: both keys are inserted once, whatever the concurrency.\<close>

definition union_score_refs ::
  "('o, 'g) openfhe \<Rightarrow> ('o, 'g) lane \<Rightarrow> schedule \<Rightarrow> cgo_params \<Rightarrow> fuse_request \<Rightarrow> union_comparator list \<Rightarrow> int
    \<Rightarrow> bytes list \<Rightarrow> key_ref list list \<Rightarrow> resolver option \<Rightarrow> ('o, 'g, bytes list list) prog" where
  "union_score_refs L fuse sched ps req comparators concurrency0 publicKeys refs resolve =
     (if comparators = [] then nfail ''at least one union comparator is required''
      else if ek_EvalMultFinal (fq_EvalKeys req) = [] then nfail ''final eval-mult key is required''
      else let concurrency = clampUnionConcurrency concurrency0 comparators
           in ckks L ps (\<lambda>ctx.
                scoped (relabel ''deserialize eval-mult key'' (deserializeEvalMultKey L ctx (ek_EvalMultFinal (fq_EvalKeys req)))) EvalMultKeyHandle (\<lambda>multKey.
                nbind (c_insert L InsertEvalMultKey [(ctx, CryptoContextHandle), (multKey, EvalMultKeyHandle)] ''insert eval-mult key failed'') (\<lambda>_.
                nbind (insertEvalSumPerIndexLazy L ctx publicKeys refs resolve) (\<lambda>_.
                runUnionComparatorsWith fuse sched ctx req comparators concurrency True)))))"

definition ChunkedUnionScoreCKKSWithEvalSumRefs ::
  "('o, 'g) openfhe \<Rightarrow> ('o, 'g) fusion \<Rightarrow> schedule \<Rightarrow> cgo_params \<Rightarrow> fuse_request \<Rightarrow> union_comparator list \<Rightarrow> int
    \<Rightarrow> bytes list \<Rightarrow> key_ref list list \<Rightarrow> resolver option \<Rightarrow> ('o, 'g, bytes list list) prog" where
  "ChunkedUnionScoreCKKSWithEvalSumRefs L F = union_score_refs L (chunkedUnionComparatorWithContext F)"
definition ChunkedUnionScoreEncryptedPayloadCKKSWithEvalSumRefs ::
  "('o, 'g) openfhe \<Rightarrow> ('o, 'g) fusion \<Rightarrow> schedule \<Rightarrow> cgo_params \<Rightarrow> fuse_request \<Rightarrow> union_comparator list \<Rightarrow> int
    \<Rightarrow> bytes list \<Rightarrow> key_ref list list \<Rightarrow> resolver option \<Rightarrow> ('o, 'g, bytes list list) prog" where
  "ChunkedUnionScoreEncryptedPayloadCKKSWithEvalSumRefs L F = union_score_refs L (chunkedEncryptedUnionComparatorWithContext F)"
definition ChunkedUnionScoreEncryptedInputsCKKSWithEvalSumRefs ::
  "('o, 'g) openfhe \<Rightarrow> ('o, 'g) fusion \<Rightarrow> schedule \<Rightarrow> cgo_params \<Rightarrow> encrypted_request \<Rightarrow> union_comparator list \<Rightarrow> int
    \<Rightarrow> bytes list \<Rightarrow> key_ref list list \<Rightarrow> resolver option \<Rightarrow> ('o, 'g, bytes list list) prog" where
  "ChunkedUnionScoreEncryptedInputsCKKSWithEvalSumRefs L F sched ps req = union_score_refs L (chunkedEncryptedInputUnionComparatorWithContext F) sched ps (fullFuseRequest req)"

definition FullFusePayloadCKKSWithEvalSumRefs ::
  "('o, 'g) openfhe \<Rightarrow> ('o, 'g) fusion \<Rightarrow> cgo_params \<Rightarrow> fuse_request \<Rightarrow> bytes list \<Rightarrow> key_ref list list \<Rightarrow> resolver option \<Rightarrow> ('o, 'g, bytes) prog" where
  "FullFusePayloadCKKSWithEvalSumRefs L F ps req publicKeys refs resolve =
     (if ek_EvalMultFinal (fq_EvalKeys req) = [] then nfail ''final eval-mult key is required''
      else ckks L ps (\<lambda>ctx.
        nbind (insertEvalSumPerIndexLazy L ctx publicKeys refs resolve) (\<lambda>_.
        FullFusePayloadCKKSWithContext F ctx (req\<lparr> fq_EvalKeys := (fq_EvalKeys req)\<lparr> ek_EvalSumFinal := [] \<rparr> \<rparr>))))"

section \<open>Lanes free what they are given\<close>

definition sched_ok :: "schedule \<Rightarrow> nat \<Rightarrow> bool" where
  "sched_ok sched n \<longleftrightarrow> sort (sc_runs sched) = [0..<n] \<and> sort (sc_arrives sched) = [0..<n]"

lemma sched_okD:
  assumes "sched_ok sched n"
  shows "set (sc_runs sched) = {0..<n}" "distinct (sc_runs sched)" "set (sc_arrives sched) = {0..<n}" "distinct (sc_arrives sched)"
  using assms by (metis set_sort set_upt sched_ok_def, metis distinct_sort distinct_upt sched_ok_def,
      metis set_sort set_upt sched_ok_def, metis distinct_sort distinct_upt sched_ok_def)

lemma secure_attempt:
  fixes m :: "('o, 'g, 'a) prog"
  assumes "secure H nothing m"
  shows "secure H nothing (attempt m)"
proof -
  have none: "owned (\<lambda>_. kinds []) r = ([] :: 'o assn)" for r :: "(string, 'b) outcome" by (cases r) simp_all
  show ?thesis unfolding secure_def triple_def none
  proof (intro allI impI)
    fix s :: "('o, 'g) native" assume "owns s [] (kinds H)"
    then obtain r s' where r: "m s = Some (r, s')" "owns s' [] (kinds H)" "moved s s' [] (kinds H) []"
      using assms unfolding secure_def triple_def none by blast
    then show "\<exists>r s'. attempt m s = Some (r, s') \<and> owns s' [] (kinds H) \<and> moved s s' [] (kinds H) []"
      by (cases r) (auto simp: attempt_def)
  qed
qed

lemma secure_union_seq: "(\<And>cmp. cmp \<in> set cs \<Longrightarrow> secure H nothing (fuse cmp)) \<Longrightarrow> secure H nothing (union_seq fuse cs)"
  by (induction cs) (auto intro!: secure_intros)

lemma secure_run_jobs: "(\<And>i. i \<in> set is \<Longrightarrow> secure H nothing (f i)) \<Longrightarrow> secure H nothing (run_jobs f is)"
  by (induction "is") (auto intro!: secure_intros secure_attempt)

lemma secure_run_union:
  assumes "\<And>cmp. cmp \<in> set cs \<Longrightarrow> secure H nothing (fuse ctx req cmp pre)" "sched_ok sched (length cs)"
  shows "secure H nothing (runUnionComparatorsWith fuse sched ctx req cs concurrency pre)"
  unfolding runUnionComparatorsWith_def union_pool_def
  using assms sched_okD(1) [OF assms(2)] by (auto intro!: secure_intros secure_union_seq secure_run_jobs)

lemma secure_insertUnionEvalKeys [secure_intros]:
  "(ctx, CryptoContextHandle) \<in> set H \<Longrightarrow> secure H nothing (insertUnionEvalKeys L ctx keys)"
  unfolding insertUnionEvalKeys_def by (auto intro!: secure_intros)

lemma request_simps [simp]:
  "fq_ProfileDim (unionComparatorRequest req cmp pre) = fq_ProfileDim req"
  "fq_PayloadSlotCount (unionComparatorRequest req cmp pre) = fq_PayloadSlotCount req"
  "fq_CandidateCiphertexts (unionComparatorRequest req cmp pre) = fq_CandidateCiphertexts req"
  "fq_ProfileDim (fullFuseRequest (encryptedInputFuseRequestFromFull req)) = fq_ProfileDim req"
  "fq_CandidateCiphertexts (fullFuseRequest (encryptedInputFuseRequestFromFull req)) = fq_CandidateCiphertexts req"
  "fa_dim (fuse_args_of ps req) = word_of_int (fq_ProfileDim req)"
  by (simp_all add: unionComparatorRequest_def fullFuseRequest_def encryptedInputFuseRequestFromFull_def fuse_args_of_def)

text \<open>The check that plain chunked fusion does not make: the array of chunk lengths is large enough.\<close>

definition plain_fits :: "fuse_request \<Rightarrow> bool" where
  "plain_fits req \<longleftrightarrow>
     (case double_until (word_of_int (fq_ProfileDim req)) 1 of
        None \<Rightarrow> True
      | Some b \<Rightarrow> nat ((sint (word_of_int (fq_PayloadSlotCount req) :: 32 word) + sint b - 1) div sint b) \<le> 256)"

definition encrypted_fits :: "fuse_request \<Rightarrow> bool" where
  "encrypted_fits req \<longleftrightarrow> fq_ProfileDim req \<le> 2 ^ 62 \<and> length (fq_CandidateCiphertexts req) < 2 ^ 32"

lemma secure_lanes:
  assumes "buffers_ok F" "writes_ok F" "(ctx, CryptoContextHandle) \<in> set H"
  shows "plain_fits req \<Longrightarrow> secure H nothing (chunkedUnionComparatorWithContext F ctx req cmp pre)"
    and "encrypted_fits req \<Longrightarrow> secure H nothing (chunkedEncryptedUnionComparatorWithContext F ctx req cmp pre)"
    and "encrypted_fits req \<Longrightarrow> secure H nothing (chunkedEncryptedInputUnionComparatorWithContext F ctx req cmp pre)"
proof -
  show "secure H nothing (chunkedUnionComparatorWithContext F ctx req cmp pre)" if "plain_fits req"
    unfolding chunkedUnionComparatorWithContext_def ChunkedFusePayloadCKKSWithContext_def
    by (intro secure_guards secure_chunked_plain assms)
      (use assms(3) that in \<open>simp_all add: plain_fits_def split: option.splits\<close>)
  show "secure H nothing (chunkedEncryptedUnionComparatorWithContext F ctx req cmp pre)" if "encrypted_fits req"
    unfolding chunkedEncryptedUnionComparatorWithContext_def ChunkedFuseEncryptedPayloadCKKSWithContext_def
    by (intro secure_if secure_nfail secure_encrypted assms) (use assms(3) that in \<open>simp_all add: encrypted_fits_def\<close>)
  show "secure H nothing (chunkedEncryptedInputUnionComparatorWithContext F ctx req cmp pre)" if "encrypted_fits req"
    unfolding chunkedEncryptedInputUnionComparatorWithContext_def ChunkedFuseEncryptedInputsCKKSWithContext_def
    by (intro secure_if secure_nfail secure_encrypted assms) (use assms(3) that in \<open>simp_all add: encrypted_fits_def\<close>)
qed

lemma balanced_union:
  assumes "batch_ok ps" "sched_ok sched (length cs)"
    and lane: "\<And>ctx H cmp pre. (ctx, CryptoContextHandle) \<in> set H \<Longrightarrow> secure H nothing (fuse ctx req cmp pre)"
  shows "balanced (union_score L fuse sched ps req cs concurrency)"
    and "given_readable L resolve refs \<Longrightarrow> balanced (union_score_refs L fuse sched ps req cs concurrency pks refs resolve)"
  unfolding balanced_def union_score_def union_score_refs_def Let_def
  using assms by (auto intro!: secure_intros secure_run_union lane)

end
