(* ===== verification/Bridge_Score.thy ===== *)
theory Bridge_Score
  imports Bridge_Auction Bridge_Union
begin

text \<open>
  What union scoring promises: the lanes leave no native object behind, and with the evaluation keys inserted beforehand the worker pool gives what
  running the lanes one after the other gives, for every schedule.
\<close>

section \<open>Programs whose outcome does not depend on where objects are allocated\<close>

definition settles :: "(nat \<Rightarrow> 'o cell option) \<Rightarrow> 'g \<Rightarrow> ('o, 'g, 'a) prog \<Rightarrow> (string, 'a) outcome \<Rightarrow> bool" where
  "settles C g m r \<longleftrightarrow>
     (\<forall>s. heap_ok s \<and> C \<subseteq>\<^sub>m ns_cells s \<and> ns_world s = g \<longrightarrow>
        (\<exists>s'. m s = Some (r, s') \<and> heap_ok s' \<and> ns_cells s' = ns_cells s \<and> ns_world s' = g \<and> ns_fault s' = ns_fault s))"

definition settled :: "(nat \<Rightarrow> 'o cell option) \<Rightarrow> 'g \<Rightarrow> ('o, 'g, 'a) prog \<Rightarrow> bool" where
  "settled C g m \<longleftrightarrow> (\<exists>r. settles C g m r)"

named_theorems settled_intros \<open>programs whose outcome is determined\<close>

lemma settlesD:
  assumes "settles C g m r" "heap_ok s" "C \<subseteq>\<^sub>m ns_cells s" "ns_world s = g"
  obtains s' where "m s = Some (r, s')" "heap_ok s'" "ns_cells s' = ns_cells s" "ns_world s' = g" "ns_fault s' = ns_fault s"
  using assms unfolding settles_def by blast

lemma settles_pure: "settles C g (nret a) (Ok a)" "settles C g (nfail e) (Err e)" "settles C g (npanic p) (Panic p)" "settles C g (nlift r) r"
  by (simp_all add: settles_def nret_def nfail_def npanic_def nlift_def)

lemma settled_pure [settled_intros]: "settled C g (nret a)" "settled C g (nfail e)" "settled C g (npanic p)" "settled C g (nlift r)"
  unfolding settled_def by (rule exI, rule settles_pure)+

lemma settles_nbind:
  assumes m: "settles C g m r" and k: "\<And>a. r = Ok a \<Longrightarrow> settles C g (k a) r'"
    and e: "\<And>e. r = Err e \<Longrightarrow> r' = Err e" "\<And>p. r = Panic p \<Longrightarrow> r' = Panic p"
  shows "settles C g (nbind m k) r'"
  unfolding settles_def
proof (intro allI impI)
  fix s assume s: "heap_ok s \<and> C \<subseteq>\<^sub>m ns_cells s \<and> ns_world s = g"
  obtain s1 where s1: "m s = Some (r, s1)" "heap_ok s1" "ns_cells s1 = ns_cells s" "ns_world s1 = g" "ns_fault s1 = ns_fault s"
    using settlesD [OF m] s by blast
  show "\<exists>s'. nbind m k s = Some (r', s') \<and> heap_ok s' \<and> ns_cells s' = ns_cells s \<and> ns_world s' = g \<and> ns_fault s' = ns_fault s"
  proof (cases r)
    case (Ok a)
    obtain s2 where "k a s1 = Some (r', s2)" "heap_ok s2" "ns_cells s2 = ns_cells s1" "ns_world s2 = g" "ns_fault s2 = ns_fault s1"
      using settlesD [OF k [OF Ok], of s1] s s1 by auto
    then show ?thesis using s1 Ok by (simp add: nbind_def)
  qed (use s1 e in \<open>auto simp: nbind_def\<close>)
qed

lemma settled_nbind [settled_intros]:
  assumes "settled C g m" "\<And>a. settled C g (k a)" shows "settled C g (nbind m k)"
proof -
  obtain r where r: "settles C g m r" using assms(1) by (auto simp: settled_def)
  show ?thesis
  proof (cases r)
    case (Ok a)
    obtain r' where "settles C g (k a) r'" using assms(2) by (auto simp: settled_def)
    then have "settles C g (nbind m k) r'" by (intro settles_nbind [OF r]) (simp_all add: Ok)
    then show ?thesis unfolding settled_def by (rule exI)
  next
    case (Err e)
    have "settles C g (nbind m k) (Err e)" by (rule settles_nbind [OF r]) (simp_all add: Err)
    then show ?thesis unfolding settled_def by (rule exI)
  next
    case (Panic p)
    have "settles C g (nbind m k) (Panic p)" by (rule settles_nbind [OF r]) (simp_all add: Panic)
    then show ?thesis unfolding settled_def by (rule exI)
  qed
qed

lemma settled_if [settled_intros]: "(c \<Longrightarrow> settled C g a) \<Longrightarrow> (\<not> c \<Longrightarrow> settled C g b) \<Longrightarrow> settled C g (if c then a else b)"
  by simp

lemma settled_guarded [settled_intros]: "settled C g body \<Longrightarrow> settled C g (guarded e body)"
  "settled C g body \<Longrightarrow> settled C g (blob_nonempty req body)"
  unfolding guarded_def blob_nonempty_def out_of_range_def by (auto intro: settled_intros split: option.split)

lemma settled_copyCBytes [settled_intros]: "settled C g (copyCBytes bs)"
  unfolding copyCBytes_def Let_def by (intro settled_intros)

text \<open>A buffer that lives only while the body runs.\<close>

lemma grown_ok:
  assumes "heap_ok s" "C \<subseteq>\<^sub>m ns_cells s" "ns_world s = g"
  shows "heap_ok (s\<lparr> ns_cells := (ns_cells s)(ns_next s \<mapsto> b), ns_next := Suc (ns_next s) \<rparr>)"
    and "C \<subseteq>\<^sub>m ns_cells (s\<lparr> ns_cells := (ns_cells s)(ns_next s \<mapsto> b), ns_next := Suc (ns_next s) \<rparr>)"
    and "ns_world (s\<lparr> ns_cells := (ns_cells s)(ns_next s \<mapsto> b), ns_next := Suc (ns_next s) \<rparr>) = g"
proof -
  have n: "ns_cells s (ns_next s) = None" using assms(1) by (simp add: heap_ok_def)
  then have "C (ns_next s) = None" using assms(2) by (metis domIff map_le_def)
  then show "C \<subseteq>\<^sub>m ns_cells (s\<lparr> ns_cells := (ns_cells s)(ns_next s \<mapsto> b), ns_next := Suc (ns_next s) \<rparr>)"
    using assms(2) by (auto simp: map_le_def domIff)
qed (use assms in \<open>auto simp: heap_ok_def\<close>)

lemma settles_scoped_buffer:
  assumes m: "settles C g m r"
  shows "settles C g (nbind (alloc (Buf bs)) (\<lambda>x. deferring (nfree CBuffer x) m)) r"
  unfolding settles_def
proof (intro allI impI)
  fix s assume s: "heap_ok s \<and> C \<subseteq>\<^sub>m ns_cells s \<and> ns_world s = g"
  let ?n = "ns_next s" and ?s = "s\<lparr> ns_cells := (ns_cells s)(ns_next s \<mapsto> Buf bs), ns_next := Suc (ns_next s) \<rparr>"
  have n: "0 < ?n" "ns_cells s ?n = None" using s by (auto simp: heap_ok_def)
  obtain s' where s': "m ?s = Some (r, s')" "heap_ok s'" "ns_cells s' = ns_cells ?s" "ns_world s' = g" "ns_fault s' = ns_fault ?s"
    using settlesD [OF m grown_ok] s by blast
  have restore: "(ns_cells s')(?n := None) = ns_cells s" using s'(3) n(2) by (auto simp: fun_eq_iff)
  have "nbind (alloc (Buf bs)) (\<lambda>x. deferring (nfree CBuffer x) m) s = Some (r, s'\<lparr> ns_cells := ns_cells s \<rparr>)"
    using s'(1,3) n restore by (simp add: nbind_def alloc_def deferring_def nfree_def)
  moreover have "heap_ok (s'\<lparr> ns_cells := ns_cells s \<rparr>)" using s s'(2,3) by (auto simp: heap_ok_def fun_eq_iff split: if_splits)
  ultimately show "\<exists>s'. nbind (alloc (Buf bs)) (\<lambda>x. deferring (nfree CBuffer x) m) s = Some (r, s') \<and> heap_ok s' \<and> ns_cells s' = ns_cells s \<and>
      ns_world s' = g \<and> ns_fault s' = ns_fault s" using s' by auto
qed


lemma settled_scoped_buffer [settled_intros]: "settled C g m \<Longrightarrow> settled C g (nbind (alloc (Buf bs)) (\<lambda>x. deferring (nfree CBuffer x) m))"
  unfolding settled_def by (elim exE, rule exI, rule settles_scoped_buffer)

lemma settles_freed_buffer:
  assumes m: "settles C g m r" and r: "\<nexists>p. r = Panic p"
  shows "settles C g (nbind (alloc (Buf bs)) (\<lambda>x. freeing CBuffer x m)) r"
proof -
  have "nbind (alloc (Buf bs)) (\<lambda>x. freeing CBuffer x m) s = nbind (alloc (Buf bs)) (\<lambda>x. deferring (nfree CBuffer x) m) s"
    if s: "heap_ok s \<and> C \<subseteq>\<^sub>m ns_cells s \<and> ns_world s = g" for s
  proof -
    let ?s = "s\<lparr> ns_cells := (ns_cells s)(ns_next s \<mapsto> Buf bs), ns_next := Suc (ns_next s) \<rparr>"
    obtain s' where "m ?s = Some (r, s')" using settlesD [OF m grown_ok] s by blast
    then show ?thesis using r by (cases r) (simp_all add: nbind_def alloc_def freeing_def)
  qed
  then show ?thesis using settles_scoped_buffer [OF m, of bs] unfolding settles_def by simp
qed

lemma settled_copied_buffer: "length bs < 2 ^ 31 \<Longrightarrow> settled C g (nbind (alloc (Buf bs)) (\<lambda>x. freeing CBuffer x (copyCBytes bs)))"
  by (simp add: copyCBytes_short settled_def) (rule exI, rule settles_freed_buffer [OF settles_pure(1)], simp)

lemma settled_c_fuse:
  assumes ctx: "C ctx = Some (Obj CryptoContextHandle c)" and F: "snd (F call (Some c) g) = (Some c, g)" "length (fr_lens (fst (F call (Some c) g))) \<le> 256"
    and none: "fr_out (fst (F call (Some c) g)) = None \<Longrightarrow> settled C g (k (fst (F call (Some c) g)) 0)"
    and some: "\<And>bs. fr_out (fst (F call (Some c) g)) = Some bs \<Longrightarrow> settled C g (nbind (alloc (Buf bs)) (k (fst (F call (Some c) g))))"
  shows "settled C g (c_fuse F call (Some ctx) k)"
proof -
  let ?r = "fst (F call (Some c) g)" and ?k = "case fr_out (fst (F call (Some c) g)) of None \<Rightarrow> k (fst (F call (Some c) g)) 0 | Some bs \<Rightarrow> nbind (alloc (Buf bs)) (k (fst (F call (Some c) g)))"
  have "settled C g ?k" using none some by (auto split: option.split)
  then obtain r where r: "settles C g ?k r" unfolding settled_def by blast
  have "c_fuse F call (Some ctx) k s = ?k s" if s: "heap_ok s \<and> C \<subseteq>\<^sub>m ns_cells s \<and> ns_world s = g" for s
  proof -
    have "ns_cells s ctx = Some (Obj CryptoContextHandle c)" using ctx s by (metis domI map_le_def)
    moreover have "F call (Some c) (ns_world s) = (?r, Some c, g)" using F(1) s by (metis prod.collapse)
    moreover have "s\<lparr> ns_world := g \<rparr> = s" using s by simp
    moreover have "nput ctx (Obj CryptoContextHandle c) s = Some (Ok (), s)"
      using calculation(1) by (simp add: nput_def fun_upd_idem)
    ultimately show ?thesis using F(2) by (simp add: c_fuse_def put_ctx_def peek_ctx_def nbind_def peek_def nret_def with_world_def)
  qed
  then have "settles C g (c_fuse F call (Some ctx) k) r" using r unfolding settles_def by simp
  then show ?thesis unfolding settled_def by (rule exI)
qed


section \<open>Lanes with the keys inserted beforehand\<close>

text \<open>
  A fusion that is given no keys uses the ones that are inserted and leaves the context and the hidden state alone: the reason why they are inserted once when several
  lanes share the context.
\<close>

fun call_keys :: "fuse_call \<Rightarrow> bytes \<times> bytes" where
  "call_keys (ARESFullFusePayloadCKKS a _ _ _ _) = (fa_mult a, fa_sum a)"
| "call_keys (ARESChunkedFusePayloadCKKS a _ _ _) = (fa_mult a, fa_sum a)"
| "call_keys (ARESChunkedFuseEncryptedPayloadCKKS a _ _) = (fa_mult a, fa_sum a)"
| "call_keys (ARESChunkedFuseEncryptedInputsCKKS a _ _ _) = (fa_mult a, fa_sum a)"
| "call_keys (ARESBlindFusePayloadBFV _ keys _ _ _ _ _ _ _ _ _ _) = (ek_EvalMultFinal keys, ek_EvalSumFinal keys)"

definition keyless_quiet :: "('o, 'g) fusion \<Rightarrow> bool" where
  "keyless_quiet F \<longleftrightarrow> (\<forall>call c g. call_keys call = ([], []) \<longrightarrow> snd (F call (Some c) g) = (Some c, g))"

lemma settled_with_names [settled_intros]: "settled C g body \<Longrightarrow> settled C g (with_names req body)"
  unfolding with_names_def with_cstring_def scoped_def by (intro settled_intros)

lemma settled_plain_chunks:
  assumes "fr_ok r \<or> fr_out r = None"
  shows "fr_out r = None \<Longrightarrow> settled C g (plain_chunks r 0)"
    and "fr_out r = Some bs \<Longrightarrow> length bs < 2 ^ 31 \<Longrightarrow> settled C g (nbind (alloc (Buf bs)) (plain_chunks r))"
proof -
  show "fr_out r = None \<Longrightarrow> settled C g (plain_chunks r 0)"
    unfolding plain_chunks_def nfree_null freeing_null by (intro settled_intros)
next
  assume bs: "fr_out r = Some bs" "length bs < 2 ^ 31"
  then have ok: "fr_ok r" "out_bytes r = bs" using assms by (simp_all add: out_bytes_def)
  show "settled C g (nbind (alloc (Buf bs)) (plain_chunks r))"
  proof (cases "fr_n r > 256")
    case True
    then show ?thesis unfolding plain_chunks_def using ok by (simp add: free_then_fail settled_intros)
  next
    case False
    then show ?thesis unfolding plain_chunks_few [OF ok False] using bs(2) by (intro settled_nbind settled_copied_buffer settled_intros)
  qed
qed

lemma settled_encrypted_chunks:
  assumes "fr_ok r \<or> fr_out r = None"
  shows "fr_out r = None \<Longrightarrow> settled C g (encrypted_chunks lbl what n r 0)"
    and "fr_out r = Some bs \<Longrightarrow> settled C g (nbind (alloc (Buf bs)) (encrypted_chunks lbl what n r))"
  using assms unfolding encrypted_chunks_def by (auto intro!: settled_intros)

lemma settled_fusion_call:
  assumes F: "buffers_ok F" "writes_ok F" "keyless_quiet F" and ctx: "C ctx = Some (Obj CryptoContextHandle c)"
    and call: "call_keys call = ([], [])" "c_chunks call \<le> 256"
  shows "settled C g (c_fuse F call (Some ctx) plain_chunks)" "settled C g (c_fuse F call (Some ctx) (encrypted_chunks lbl what n))"
proof -
  have r: "fst (F call (Some c) g) \<in> range (\<lambda>(c, g). fst (F call c g))" by force
  have quiet: "snd (F call (Some c) g) = (Some c, g)" using F(3) call(1) by (simp add: keyless_quiet_def)
  note settle = settled_c_fuse [where F = F and call = call and ctx = ctx and c = c and C = C and g = g, OF ctx quiet few_lens [OF F(2) call(2)]]
  show "settled C g (c_fuse F call (Some ctx) plain_chunks)"
  proof (rule settle, goal_cases)
    case 1
    show ?case by (rule settled_plain_chunks(1) [OF in_range_fuse(1) [OF F(1) r] 1])
  next
    case (2 bs)
    show ?case by (rule settled_plain_chunks(2) [OF in_range_fuse(1) [OF F(1) r] 2 in_range_fuse(2) [OF F(1) r 2]])
  qed
  show "settled C g (c_fuse F call (Some ctx) (encrypted_chunks lbl what n))"
    by (rule settle) (erule settled_encrypted_chunks [OF in_range_fuse(1) [OF F(1) r]])+
qed

lemma settled_olift_bind:
  "r \<noteq> None \<Longrightarrow> (\<And>a. r = Some (Ok a) \<Longrightarrow> settled C g (k a)) \<Longrightarrow> settled C g (nbind (olift r) k)"
  by (cases r) (auto simp: nbind_olift nbind_nlift intro: settled_intros split: outcome.split)

lemma settled_nlift_bind: "(\<And>a. r = Ok a \<Longrightarrow> settled C g (k a)) \<Longrightarrow> settled C g (nbind (nlift r) k)"
  by (auto simp: nbind_nlift intro: settled_intros split: outcome.split)

lemma keyless_request [simp]:
  "fa_mult (fuse_args_of ps (unionComparatorRequest req cmp True)) = []" "fa_sum (fuse_args_of ps (unionComparatorRequest req cmp True)) = []"
  "fa_mult (fuse_args_of ps (fullFuseRequest (encryptedInputFuseRequestFromFull req'))) = ek_EvalMultFinal (fq_EvalKeys req')"
  "fa_sum (fuse_args_of ps (fullFuseRequest (encryptedInputFuseRequestFromFull req'))) = ek_EvalSumFinal (fq_EvalKeys req')"
  "fq_EvalKeys (unionComparatorRequest req cmp True) = \<lparr> ek_EvalMultFinal = [], ek_EvalSumFinal = [] \<rparr>"
  by (simp_all add: unionComparatorRequest_def fuse_args_of_def fullFuseRequest_def encryptedInputFuseRequestFromFull_def)

lemma settled_lanes:
  assumes F: "buffers_ok F" "writes_ok F" "keyless_quiet F" and ctx: "C ctx = Some (Obj CryptoContextHandle c)"
  shows "plain_fits req \<Longrightarrow> settled C g (chunkedUnionComparatorWithContext F ctx req cmp True)"
    and "encrypted_fits req \<Longrightarrow> settled C g (chunkedEncryptedUnionComparatorWithContext F ctx req cmp True)"
    and "encrypted_fits req \<Longrightarrow> settled C g (chunkedEncryptedInputUnionComparatorWithContext F ctx req cmp True)"
proof -
  note call = settled_fusion_call [where F = F and C = C and ctx = ctx and c = c, OF F ctx]
  show "settled C g (chunkedUnionComparatorWithContext F ctx req cmp True)" if "plain_fits req"
    unfolding chunkedUnionComparatorWithContext_def ChunkedFusePayloadCKKSWithContext_def chunked_plain_def
    by (intro settled_guarded settled_nlift_bind settled_with_names call)
      (use that in \<open>simp_all add: plain_fits_def split: option.splits\<close>)
  show "settled C g (chunkedEncryptedUnionComparatorWithContext F ctx req cmp True)" if fits: "encrypted_fits req"
  proof -
    have "fq_ProfileDim (unionComparatorRequest req cmp True) \<le> 2 ^ 62" "length (fq_CandidateCiphertexts (unionComparatorRequest req cmp True)) < 2 ^ 32"
      using fits by (simp_all add: encrypted_fits_def)
    note ends = flattenEncrypted_ends [OF this(1)] and count = encrypted_chunk_count [OF _ this(2)]
    show ?thesis
      unfolding chunkedEncryptedUnionComparatorWithContext_def ChunkedFuseEncryptedPayloadCKKSWithContext_def chunkedFuseEncryptedPayloadCKKS_def candidates_present_def
      by (intro settled_if settled_pure settled_olift_bind ends, unfold case_prod_beta, intro settled_nlift_bind settled_with_names call) (auto dest: count)
  qed
  show "settled C g (chunkedEncryptedInputUnionComparatorWithContext F ctx req cmp True)" if fits: "encrypted_fits req"
  proof -
    let ?req = "fullFuseRequest (encryptedInputFuseRequestFromFull (unionComparatorRequest req cmp True))"
    have "fq_ProfileDim ?req \<le> 2 ^ 62" "length (fq_CandidateCiphertexts ?req) < 2 ^ 32"
      using fits by (simp_all add: encrypted_fits_def)
    note ends = flattenEncrypted_ends [OF this(1)] and count = encrypted_chunk_count [OF _ this(2)]
    show ?thesis
      unfolding chunkedEncryptedInputUnionComparatorWithContext_def ChunkedFuseEncryptedInputsCKKSWithContext_def chunkedFuseEncryptedInputsCKKS_def candidates_present_def
      by (intro settled_if settled_pure settled_olift_bind ends, unfold case_prod_beta, intro settled_nlift_bind settled_with_names call) (auto dest: count)
  qed
qed


section \<open>The pool and the loop\<close>

lemma settles_relabel:
  assumes "settles C g m r"
  shows "settles C g (relabel lbl m) (case r of Err e \<Rightarrow> Err (lbl @ '': '' @ e) | x \<Rightarrow> x)"
  unfolding settles_def
proof (intro allI impI)
  fix s assume s: "heap_ok s \<and> C \<subseteq>\<^sub>m ns_cells s \<and> ns_world s = g"
  then obtain s' where "m s = Some (r, s')" "heap_ok s'" "ns_cells s' = ns_cells s" "ns_world s' = g" "ns_fault s' = ns_fault s"
    using settlesD [OF assms] by blast
  then show "\<exists>s'. relabel lbl m s = Some (case r of Err e \<Rightarrow> Err (lbl @ '': '' @ e) | x \<Rightarrow> x, s') \<and> heap_ok s' \<and> ns_cells s' = ns_cells s \<and>
      ns_world s' = g \<and> ns_fault s' = ns_fault s" by (cases r) (auto simp: relabel_def)
qed

text \<open>The outcome of the loop, given the outcome of every lane.\<close>

fun seq_outcome :: "(union_comparator \<Rightarrow> (string, bytes list) outcome) \<Rightarrow> union_comparator list \<Rightarrow> (string, bytes list list) outcome" where
  "seq_outcome out [] = Ok []"
| "seq_outcome out (c # cs) =
     obind (case out c of Err e \<Rightarrow> Err (''union comparator '' @ uc_ID c @ '': '' @ e) | x \<Rightarrow> x) (\<lambda>a.
     obind (seq_outcome out cs) (\<lambda>as. Ok (a # as)))"

lemma settles_obind:
  assumes "settles C g m r" "\<And>a. settles C g (k a) (f a)" shows "settles C g (nbind m k) (obind r f)"
  by (rule settles_nbind [OF assms(1)]) (use assms(2) in \<open>auto simp: obind_def\<close>)

lemma settles_union_seq:
  assumes "\<And>c. c \<in> set cs \<Longrightarrow> settles C g (fuse c) (out c)"
  shows "settles C g (union_seq fuse cs) (seq_outcome out cs)"
  using assms
proof (induction cs)
  case (Cons c cs)
  have lane: "settles C g (relabel (''union comparator '' @ uc_ID c) (fuse c)) (case out c of Err e \<Rightarrow> Err (''union comparator '' @ uc_ID c @ '': '' @ e) | x \<Rightarrow> x)"
    using settles_relabel [OF Cons.prems, of c "''union comparator '' @ uc_ID c"] unfolding append_assoc by simp
  show ?case unfolding union_seq.simps seq_outcome.simps
    by (rule settles_obind [OF lane], rule settles_obind) (use Cons settles_pure(1) in auto)
qed (simp add: settles_pure)

lemma settles_attempt:
  assumes "settles C g m r"
  shows "settles C g (attempt m) (case r of Panic p \<Rightarrow> Panic p | x \<Rightarrow> Ok x)"
  unfolding settles_def
proof (intro allI impI)
  fix s assume s: "heap_ok s \<and> C \<subseteq>\<^sub>m ns_cells s \<and> ns_world s = g"
  then obtain s' where "m s = Some (r, s')" "heap_ok s'" "ns_cells s' = ns_cells s" "ns_world s' = g" "ns_fault s' = ns_fault s"
    using settlesD [OF assms] by blast
  then show "\<exists>s'. attempt m s = Some (case r of Panic p \<Rightarrow> Panic p | x \<Rightarrow> Ok x, s') \<and> heap_ok s' \<and> ns_cells s' = ns_cells s \<and>
      ns_world s' = g \<and> ns_fault s' = ns_fault s" by (cases r) (auto simp: attempt_def)
qed

lemma settles_run_jobs:
  assumes "\<And>i. i \<in> set is \<Longrightarrow> settles C g (f i) (out i)"
  shows "\<exists>r. settles C g (run_jobs f is) r \<and>
     (if list_ex (\<lambda>i. is_panic (out i)) is then is_panic r else r = Ok (map (\<lambda>i. (i, out i)) is))"
  using assms
proof (induction "is")
  case (Cons i "is")
  then obtain r where r: "settles C g (run_jobs f is) r"
    "if list_ex (\<lambda>i. is_panic (out i)) is then is_panic r else r = Ok (map (\<lambda>i. (i, out i)) is)" by auto
  let ?r = "obind (case out i of Panic p \<Rightarrow> Panic p | x \<Rightarrow> Ok x) (\<lambda>a. obind r (\<lambda>rs. Ok ((i, a) # rs)))"
  have "settles C g (run_jobs f (i # is)) ?r" unfolding run_jobs.simps
    by (rule settles_obind [OF settles_attempt settles_obind [OF r(1) settles_pure(1)]]) (simp add: Cons.prems)
  moreover have "if list_ex (\<lambda>i. is_panic (out i)) (i # is) then is_panic ?r else ?r = Ok (map (\<lambda>i. (i, out i)) (i # is))"
    using r(2) by (cases "out i"; cases r) (simp_all add: obind_def split: if_splits)
  ultimately show ?case by blast
qed (simp add: settles_pure)

lemma collect_errs: "(\<And>i r. (i, r) \<in> set rs \<Longrightarrow> \<not> is_panic r) \<Longrightarrow> collect ids rs (Some e) out = Err e"
proof (induction rs arbitrary: out)
  case (Cons x rs)
  obtain i r where x: "x = (i, r)" by fastforce
  then have "\<not> is_panic r" using Cons.prems [of i r] by simp
  moreover have "collect ids rs (Some e) out' = Err e" for out' by (rule Cons.IH) (use Cons.prems in auto)
  ultimately show ?case using x by (cases r) simp_all
qed simp

lemma collect_ok:
  assumes "\<And>i. i \<in> set is \<Longrightarrow> out i = Ok (v i)"
  shows "collect ids (map (\<lambda>i. (i, out i)) is) None acc = Ok (fold (\<lambda>i acc. acc[i := v i]) is acc)"
  using assms by (induction "is" arbitrary: acc) auto

lemma collect_err:
  assumes "\<exists>i \<in> set is. \<not> is_ok (out i)" "\<And>i. i \<in> set is \<Longrightarrow> \<not> is_panic (out i)"
  shows "\<exists>i \<in> set is. \<exists>e. out i = Err e \<and> collect ids (map (\<lambda>i. (i, out i)) is) None acc = Err (''union comparator '' @ ids i @ '': '' @ e)"
  using assms
proof (induction "is" arbitrary: acc)
  case (Cons i "is")
  show ?case
  proof (cases "out i")
    case (Ok a)
    then show ?thesis using Cons by auto
  next
    case (Err e)
    have "collect ids (map (\<lambda>i. (i, out i)) is) (Some (''union comparator '' @ ids i @ '': '' @ e)) acc = Err (''union comparator '' @ ids i @ '': '' @ e)"
      by (rule collect_errs) (use Cons.prems(2) in auto)
    then show ?thesis using Err by auto
  next
    case (Panic p)
    then show ?thesis using Cons.prems(2) [of i] by simp
  qed
qed simp

lemma fold_updates:
  "length (fold (\<lambda>i acc. acc[i := v i]) is acc) = length acc"
  "j < length acc \<Longrightarrow> fold (\<lambda>i acc. acc[i := v i]) is acc ! j = (if j \<in> set is then v j else acc ! j)"
  by (induction "is" arbitrary: acc) (auto simp: nth_list_update)

lemma fold_updates_all: "set is = {0..<n} \<Longrightarrow> fold (\<lambda>i acc. acc[i := v i]) is (replicate n d) = map v [0..<n]"
  by (rule nth_equalityI) (simp_all add: fold_updates)

lemma seq_outcome_Ok: "seq_outcome out cs = Ok vs \<longleftrightarrow> map out cs = map Ok vs"
  by (induction cs arbitrary: vs) (auto simp: Cons_eq_map_conv split: outcome.split)

text \<open>
  What the pool gives: the values of the lanes in the order of the comparators when every lane succeeds, and otherwise no value, an error being one that a lane had.
\<close>

lemma settles_union_pool:
  assumes lanes: "\<And>c. c \<in> set cs \<Longrightarrow> settles C g (fuse c) (out c)" and sched: "sched_ok sched (length cs)"
  shows "\<exists>r. settles C g (union_pool fuse cs sched) r \<and> (\<forall>vs. r = Ok vs \<longleftrightarrow> map out cs = map Ok vs) \<and>
     (\<forall>e. r = Err e \<longrightarrow> (\<exists>c \<in> set cs. \<exists>e'. out c = Err e' \<and> e = ''union comparator '' @ uc_ID c @ '': '' @ e'))"
proof -
  let ?out = "\<lambda>i. out (cs ! i)" and ?n = "length cs" and ?ids = "\<lambda>i. uc_ID (cs ! i)"
  let ?rs = "map (\<lambda>i. (i, ?out i)) (sc_arrives sched)"
  note sc = sched_okD [OF sched]
  obtain r where r: "settles C g (run_jobs (\<lambda>i. fuse (cs ! i)) (sc_runs sched)) r"
    "if list_ex (\<lambda>i. is_panic (?out i)) (sc_runs sched) then is_panic r else r = Ok (map (\<lambda>i. (i, ?out i)) (sc_runs sched))"
    using settles_run_jobs [of "sc_runs sched" C g "\<lambda>i. fuse (cs ! i)" ?out] lanes sc(1) by auto
  show ?thesis
  proof (cases "list_ex (\<lambda>i. is_panic (?out i)) (sc_runs sched)")
    case True
    then obtain p where p: "r = Panic p" using r(2) by (cases r) auto
    obtain i where "i < ?n" "is_panic (?out i)" using True sc(1) by (auto simp: list_ex_iff)
    then obtain c where c: "c \<in> set cs" "is_panic (out c)" using nth_mem by blast
    have "settles C g (union_pool fuse cs sched) (Panic p)" unfolding union_pool_def by (rule settles_nbind [OF r(1)]) (simp_all add: p)
    moreover have "map out cs \<noteq> map Ok vs" for vs
    proof
      assume "map out cs = map Ok vs"
      then have "out c \<in> Ok ` set vs" using c(1) by (metis image_eqI list.set_map)
      then show False using c(2) by auto
    qed
    ultimately show ?thesis by auto
  next
    case False
    then have calm: "\<not> is_panic (?out i)" if "i < ?n" for i using that sc(1) by (auto simp: list_ex_iff)
    have look: "map (\<lambda>i. (i, the (map_of (map (\<lambda>i. (i, ?out i)) (sc_runs sched)) i))) (sc_arrives sched) = ?rs"
      using sc(1,3) by (auto simp: map_of_map_restrict restrict_map_def)
    let ?r = "collect ?ids ?rs None (replicate ?n [])"
    have run: "settles C g (union_pool fuse cs sched) ?r" unfolding union_pool_def
    proof (rule settles_nbind [OF r(1)], goal_cases)
      case (1 rs)
      then have "rs = map (\<lambda>i. (i, ?out i)) (sc_runs sched)" using False r(2) by simp
      then show ?case by (simp only: look settles_pure(4))
    qed (use False r(2) in simp_all)
    show ?thesis
    proof (cases "\<exists>i \<in> set (sc_arrives sched). \<not> is_ok (?out i)")
      case True
      then obtain i e where i: "i \<in> set (sc_arrives sched)" "?out i = Err e" "?r = Err (''union comparator '' @ ?ids i @ '': '' @ e)"
        using collect_err [of "sc_arrives sched" ?out ?ids "replicate ?n []"] calm sc(3) by auto
      moreover have "map out cs \<noteq> map Ok vs" for vs
        using i(1,2) sc(3) by (metis atLeastLessThan_iff length_map nth_map outcome.distinct(1))
      ultimately show ?thesis using run sc(3) by (intro exI [of _ ?r]) (auto intro!: bexI [of _ "cs ! i"])
    next
      case False
      then have ok: "?out i = Ok (the (ok_value (?out i)))" if "i < ?n" for i
      proof -
        have "is_ok (?out i)" using False that sc(3) by simp
        then show ?thesis by (cases "?out i") auto
      qed
      have "?r = Ok (map (\<lambda>i. the (ok_value (?out i))) [0..<?n])"
        using collect_ok [of "sc_arrives sched" ?out "\<lambda>i. the (ok_value (?out i))"] ok sc(3) by (simp add: fold_updates_all)
      moreover have "map out cs = map Ok vs \<longleftrightarrow> vs = map (\<lambda>i. the (ok_value (?out i))) [0..<?n]" for vs
      proof -
        have "map out cs = map Ok (map (\<lambda>i. the (ok_value (?out i))) [0..<?n])" by (rule nth_equalityI) (use ok in auto)
        moreover have "inj (Ok :: _ \<Rightarrow> (string, bytes list) outcome)" by (rule injI) simp
        ultimately show ?thesis by (metis map_injective)
      qed
      ultimately show ?thesis using run by (intro exI [of _ ?r]) auto
    qed
  qed
qed


section \<open>Two runs that agree\<close>

text \<open>Both return, with the same value if any, and the states differ at most in the next free address.\<close>

definition agree :: "cells \<Rightarrow> ('o, 'g, 'a) prog \<Rightarrow> ('o, 'g, 'a) prog \<Rightarrow> bool" where
  "agree H m m' \<longleftrightarrow>
     (\<forall>s. owns s [] (kinds H) \<longrightarrow>
        (\<exists>r s1 r' s2. m s = Some (r, s1) \<and> m' s = Some (r', s2) \<and> ok_value r = ok_value r' \<and>
           ns_cells s1 = ns_cells s2 \<and> ns_world s1 = ns_world s2 \<and> ns_fault s1 = ns_fault s2))"

lemma owns_secure:
  fixes m :: "('o, 'g, 'a) prog"
  assumes "secure H own m" "owns s [] (kinds H)"
  obtains r s' where "m s = Some (r, s')" "owns s' (owned (\<lambda>a. kinds (own a)) r) (kinds H)"
  using assms unfolding secure_def triple_def by blast

lemma agree_refl: "secure H nothing m \<Longrightarrow> agree H m m"
  unfolding agree_def by (intro allI impI, erule (1) owns_secure) blast

lemma agree_nbind:
  fixes m :: "('o, 'g, 'a) prog"
  assumes m: "secure H nothing m" and k: "\<And>a. agree H (k a) (k' a)"
  shows "agree H (nbind m k) (nbind m k')"
  unfolding agree_def
proof (intro allI impI)
  fix s :: "('o, 'g) native" assume s: "owns s [] (kinds H)"
  obtain r s1 where r: "m s = Some (r, s1)" "owns s1 (owned (\<lambda>a. kinds []) r) (kinds H)" using owns_secure [OF m s] .
  show "\<exists>r s1 r' s2. nbind m k s = Some (r, s1) \<and> nbind m k' s = Some (r', s2) \<and> ok_value r = ok_value r' \<and>
           ns_cells s1 = ns_cells s2 \<and> ns_world s1 = ns_world s2 \<and> ns_fault s1 = ns_fault s2"
  proof (cases r)
    case (Ok a)
    then have "owns s1 [] (kinds H)" using r(2) by simp
    then show ?thesis using k [of a] r(1) Ok unfolding agree_def nbind_def by simp
  qed (use r(1) in \<open>simp_all add: nbind_def\<close>)
qed

lemma nfree_cong:
  assumes "ns_cells s1 = ns_cells s2" "ns_world s1 = ns_world s2" "ns_fault s1 = ns_fault s2" "nfree k x s1 = Some (r, t1)"
  obtains t2 where "nfree k x s2 = Some (r, t2)" "ns_cells t1 = ns_cells t2" "ns_world t1 = ns_world t2" "ns_fault t1 = ns_fault t2"
  using assms by (auto simp: nfree_def nret_def nfault_def split: if_splits option.splits)

lemma nfree_runs: "\<exists>r s'. nfree k x s = Some (r, s')"
  by (simp add: nfree_def nret_def nfault_def split: option.split)

lemma agree_scoped:
  fixes m :: "('o, 'g, nat) prog"
  assumes m: "secure H (\<lambda>x. [(x, k)]) m" and b: "\<And>x. agree ((x, k) # H) (b x) (b' x)"
  shows "agree H (scoped m k b) (scoped m k b')"
  unfolding agree_def
proof (intro allI impI)
  fix s :: "('o, 'g) native" assume s: "owns s [] (kinds H)"
  obtain r s1 where r: "m s = Some (r, s1)" "owns s1 (owned (\<lambda>x. kinds [(x, k)]) r) (kinds H)" using owns_secure [OF m s] .
  show "\<exists>r s1 r' s2. scoped m k b s = Some (r, s1) \<and> scoped m k b' s = Some (r', s2) \<and> ok_value r = ok_value r' \<and>
           ns_cells s1 = ns_cells s2 \<and> ns_world s1 = ns_world s2 \<and> ns_fault s1 = ns_fault s2"
  proof (cases r)
    case (Ok x)
    then have "owns s1 [] (kinds ((x, k) # H))" using r(2) by (simp add: owns_def)
    then obtain q t1 q' t2 where q: "b x s1 = Some (q, t1)" "b' x s1 = Some (q', t2)" "ok_value q = ok_value q'"
      and t: "ns_cells t1 = ns_cells t2" "ns_world t1 = ns_world t2" "ns_fault t1 = ns_fault t2"
      using b [of x] unfolding agree_def by blast
    obtain f u1 where f: "nfree k x t1 = Some (f, u1)" using nfree_runs by blast
    then obtain u2 where u: "nfree k x t2 = Some (f, u2)" "ns_cells u1 = ns_cells u2" "ns_world u1 = ns_world u2" "ns_fault u1 = ns_fault u2"
      using nfree_cong [OF t] by blast
    then show ?thesis using r(1) Ok q f by (cases f) (simp_all add: scoped_def nbind_def deferring_def)
  qed (use r(1) in \<open>simp_all add: scoped_def nbind_def\<close>)
qed

lemma agree_union:
  fixes fuse :: "('o, 'g) lane"
  assumes ctx: "(ctx, CryptoContextHandle) \<in> set H" and sched: "sched_ok sched (length cs)" "sched_ok sched' (length cs)"
    and lanes: "\<And>C g c cmp. C ctx = Some (Obj CryptoContextHandle c) \<Longrightarrow> settled C g (fuse ctx req cmp True)"
  shows "agree H (runUnionComparatorsWith fuse sched ctx req cs n True) (runUnionComparatorsWith fuse sched' ctx req cs n' True)"
  unfolding agree_def
proof (intro allI impI)
  fix s :: "('o, 'g) native" assume s: "owns s [] (kinds H)"
  obtain cell where cell: "ns_cells s ctx = Some cell" "cell_kind cell = CryptoContextHandle"
    using s kinds_mem [OF ctx] by (fastforce simp: owns_def live_def is_kind_def)
  then obtain c where c: "ns_cells s ctx = Some (Obj CryptoContextHandle c)" by (cases cell) auto
  define out where "out cmp = (SOME r. settles (ns_cells s) (ns_world s) (fuse ctx req cmp True) r)" for cmp
  have out: "settles (ns_cells s) (ns_world s) (fuse ctx req cmp True) (out cmp)" for cmp
    unfolding out_def using lanes [of "ns_cells s" c "ns_world s" cmp, OF c] unfolding settled_def by (rule someI_ex)
  let ?run = "\<lambda>sched n. runUnionComparatorsWith fuse sched ctx req cs n True"
  have run: "\<exists>r. settles (ns_cells s) (ns_world s) (?run sched n) r \<and> (\<forall>vs. r = Ok vs \<longleftrightarrow> map out cs = map Ok vs)"
    if "sched_ok sched (length cs)" for sched n
    using settles_union_seq [of cs "ns_cells s" "ns_world s" "\<lambda>cmp. fuse ctx req cmp True" out]
      settles_union_pool [of cs "ns_cells s" "ns_world s" "\<lambda>cmp. fuse ctx req cmp True" out, OF _ that] out
    by (auto simp: runUnionComparatorsWith_def seq_outcome_Ok)
  obtain r where r: "settles (ns_cells s) (ns_world s) (?run sched n) r" "\<forall>vs. r = Ok vs \<longleftrightarrow> map out cs = map Ok vs" using run [OF sched(1)] by blast
  obtain r' where r': "settles (ns_cells s) (ns_world s) (?run sched' n') r'" "\<forall>vs. r' = Ok vs \<longleftrightarrow> map out cs = map Ok vs" using run [OF sched(2)] by blast
  have h: "heap_ok s" using s by (simp add: owns_def)
  obtain s1 where s1: "?run sched n s = Some (r, s1)" "ns_cells s1 = ns_cells s" "ns_world s1 = ns_world s" "ns_fault s1 = ns_fault s"
    using settlesD [OF r(1) h] by auto
  obtain s2 where s2: "?run sched' n' s = Some (r', s2)" "ns_cells s2 = ns_cells s" "ns_world s2 = ns_world s" "ns_fault s2 = ns_fault s"
    using settlesD [OF r'(1) h] by auto
  have "ok_value r = ok_value r'" by (rule ok_value_eqI) (use r(2) r'(2) in auto)
  then show "\<exists>r s1 r' s2. ?run sched n s = Some (r, s1) \<and> ?run sched' n' s = Some (r', s2) \<and> ok_value r = ok_value r' \<and>
           ns_cells s1 = ns_cells s2 \<and> ns_world s1 = ns_world s2 \<and> ns_fault s1 = ns_fault s2"
    using s1 s2 by auto
qed

lemma agree_if: "(c \<Longrightarrow> agree H a a') \<Longrightarrow> (\<not> c \<Longrightarrow> agree H b b') \<Longrightarrow> agree H (if c then a else b) (if c then a' else b')"
  by simp

lemma agree_union_refs:
  fixes fuse :: "('o, 'g) lane"
  assumes ps: "batch_ok ps" and refs: "given_readable L resolve refs" and sched: "sched_ok sched (length cs)" "sched_ok sched' (length cs)"
    and lanes: "\<And>C g ctx c cmp. C ctx = Some (Obj CryptoContextHandle c) \<Longrightarrow> settled C g (fuse ctx req cmp True)"
  shows "agree [] (union_score_refs L fuse sched ps req cs n pks refs resolve) (union_score_refs L fuse sched' ps req cs n' pks refs resolve)"
  unfolding union_score_refs_def Let_def
  by (intro agree_if agree_refl agree_scoped agree_nbind agree_union secure_intros lanes sched ps refs) (auto intro!: secure_intros lanes ps refs)


section \<open>Claims\<close>

definition same_run :: "('o, 'g) native \<Rightarrow> ('o, 'g, 'a) prog \<Rightarrow> ('o, 'g, 'a) prog \<Rightarrow> bool" where
  "same_run s m m' \<longleftrightarrow>
     (\<exists>r s1 r' s2. m s = Some (r, s1) \<and> m' s = Some (r', s2) \<and> ok_value r = ok_value r' \<and>
        same_heap s s1 \<and> same_heap s s2 \<and> ns_world s1 = ns_world s2)"

lemma same_runI:
  assumes "agree [] m m'" "balanced m" "balanced m'" "heap_ok s"
  shows "same_run s m m'"
proof -
  obtain r s1 r' s2 where run: "m s = Some (r, s1)" "m' s = Some (r', s2)" "ok_value r = ok_value r'" "ns_world s1 = ns_world s2"
    using assms(1,4) by (fastforce simp: agree_def owns_def)
  moreover have "same_heap s s1" "same_heap s s2"
    using assms(2,3,4) run(1,2) unfolding balanced_iff same_heap_def by (metis option.inject prod.inject)+
  ultimately show ?thesis unfolding same_run_def by blast
qed

text \<open>
  Claim C30. The concurrency of union scoring does not matter when the evaluation keys are inserted once (the \<^verbatim>\<open>WithEvalSumRefs\<close> forms): for any
  two limits, any two orders in which the workers run the comparators and any two orders in which their results arrive, both calls
  return, one gives a value exactly when the other does, the same chunks for every comparator in the order of the comparators, and both
  leave the heap as it was and the library in the same state. Fusion without keys is taken not to change the library's state or the context, plain
  payloads are taken to fit the array of chunk lengths, and what the references to a-vectors resolve to is taken to be readable (the C side loses an
  object when it is not).
\<close>

theorem union_concurrency:
  assumes "batch_ok ps" "buffers_ok F" "writes_ok F" "keyless_quiet F" "heap_ok s"
    and "sched_ok sched (length cs)" "sched_ok sched' (length cs)"
    and "plain_fits req" "encrypted_fits req" "encrypted_fits (fullFuseRequest ereq)" "given_readable L resolve refs"
  shows "same_run s (ChunkedUnionScoreCKKSWithEvalSumRefs L F sched ps req cs n pks refs resolve)
      (ChunkedUnionScoreCKKSWithEvalSumRefs L F sched' ps req cs n' pks refs resolve) \<and>
    same_run s (ChunkedUnionScoreEncryptedPayloadCKKSWithEvalSumRefs L F sched ps req cs n pks refs resolve)
      (ChunkedUnionScoreEncryptedPayloadCKKSWithEvalSumRefs L F sched' ps req cs n' pks refs resolve) \<and>
    same_run s (ChunkedUnionScoreEncryptedInputsCKKSWithEvalSumRefs L F sched ps ereq cs n pks refs resolve)
      (ChunkedUnionScoreEncryptedInputsCKKSWithEvalSumRefs L F sched' ps ereq cs n' pks refs resolve)"
  unfolding ChunkedUnionScoreCKKSWithEvalSumRefs_def ChunkedUnionScoreEncryptedPayloadCKKSWithEvalSumRefs_def
    ChunkedUnionScoreEncryptedInputsCKKSWithEvalSumRefs_def
  using assms by (intro conjI same_runI agree_union_refs balanced_union(2)) (auto intro: settled_lanes secure_lanes)

text \<open>A fusion that gives one byte per chunk, the length of the comparator's name.\<close>

fun call_comparator :: "fuse_call \<Rightarrow> string" where
  "call_comparator (ARESFullFusePayloadCKKS a _ _ _ _) = fa_comparator a"
| "call_comparator (ARESChunkedFusePayloadCKKS a _ _ _) = fa_comparator a"
| "call_comparator (ARESChunkedFuseEncryptedPayloadCKKS a _ _) = fa_comparator a"
| "call_comparator (ARESChunkedFuseEncryptedInputsCKKS a _ _ _) = fa_comparator a"
| "call_comparator (ARESBlindFusePayloadBFV _ _ _ _ _ _ _ _ _ _ _ _) = []"

definition name_fusion :: "(bytes, unit) fusion" where
  "name_fusion call c g =
     (let n = c_chunks call; b = word_of_nat (length (call_comparator call))
      in (if n < 300 then \<lparr> fr_ok = True, fr_out = Some (replicate n b), fr_lens = replicate n 1, fr_n = int n, fr_err = '''' \<rparr>
          else \<lparr> fr_ok = False, fr_out = None, fr_lens = [], fr_n = 0, fr_err = ''too many chunks'' \<rparr>, c, g))"

lemma name_fusion_hyps: "buffers_ok name_fusion" "writes_ok name_fusion" "keyless_quiet name_fusion"
  by (auto simp: buffers_ok_def writes_ok_def keyless_quiet_def name_fusion_def Let_def)

definition small_request :: fuse_request where
  "small_request = fullFuseRequest \<lparr> eq_InitiatorCiphertext = [1], eq_CandidateCiphertexts = [[2], [3, 4]], eq_CandidateDistanceCiphertexts = [[8], [9]],
     eq_CandidateBrownies = [1, 2], eq_CandidatePayloadCiphertexts = [[[5], [5]], [[6], [7, 7]]], eq_ProfileDim = 3, eq_Alpha = Fin 1, eq_Beta = Fin 0,
     eq_Gamma = Fin 0, eq_Comparator = '''', eq_ComparatorDegree = 3, eq_ComparatorGain = Fin 1, eq_ComparatorScale = Fin 1,
     eq_ComparatorBound = Fin 1, eq_SelectorSchedule = '''', eq_EvalKeys = \<lparr> ek_EvalMultFinal = [1], ek_EvalSumFinal = [1] \<rparr>, eq_PayloadSlotCount = 6 \<rparr>"

definition two_comparators :: "union_comparator list" where
  "two_comparators = map (\<lambda>name. \<lparr> uc_ID = name, uc_Comparator = name, uc_Schedule = ''none'', uc_Gain = Fin 1, uc_Bound = Fin 1, uc_InputScale = Fin 1,
     uc_RangeMargin = Fin 0, uc_Degree = 3 \<rparr>) [''tanh'', ''logistic'']"

lemma small_request_fits: "plain_fits small_request" "encrypted_fits small_request"
proof -
  have "double_until 3 1 = Some (4 :: 32 word)" by (simp add: double_until.simps)
  then show "plain_fits small_request" by (simp add: plain_fits_def small_request_def fullFuseRequest_def)
qed (simp add: encrypted_fits_def small_request_def fullFuseRequest_def)

definition one_ref :: key_ref where "one_ref = \<lparr> kr_Index = 1, kr_Ref = ''k'', kr_ARef = [], kr_BRef = [] \<rparr>"

lemma small_union_run:
  "map_option fst (ChunkedUnionScoreEncryptedInputsCKKSWithEvalSumRefs joined_lib name_fusion \<lparr> sc_runs = [1, 0], sc_arrives = [0, 1] \<rparr> soft_params
     (encryptedInputFuseRequestFromFull small_request) two_comparators 2 [[1]] [[one_ref]] (Some (\<lambda>_. Inr [1])) no_cells) =
   Some (Ok [[[4], [4]], [[8], [8]]])"
  by code_simp

lemma small_scheds: "sched_ok \<lparr> sc_runs = [1, 0], sc_arrives = [0, 1] \<rparr> (length two_comparators)" "sched_ok \<lparr> sc_runs = [0, 1], sc_arrives = [1, 0] \<rparr> (length two_comparators)"
  by (simp_all add: sched_ok_def two_comparators_def upt_rec)

lemma ok_value_Some: "Some a = ok_value r \<longleftrightarrow> r = Ok a"
  by (cases r) auto

lemma small_round: "fullFuseRequest (encryptedInputFuseRequestFromFull small_request) = small_request"
  by (simp add: small_request_def fullFuseRequest_def encryptedInputFuseRequestFromFull_def)

theorem union_concurrency_witness:
  "\<exists>s1 s2. ChunkedUnionScoreEncryptedInputsCKKSWithEvalSumRefs joined_lib name_fusion \<lparr> sc_runs = [1, 0], sc_arrives = [0, 1] \<rparr> soft_params
       (encryptedInputFuseRequestFromFull small_request) two_comparators 2 [[1]] [[one_ref]] (Some (\<lambda>_. Inr [1])) no_cells =
     Some (Ok [[[4], [4]], [[8], [8]]], s1) \<and>
   ChunkedUnionScoreEncryptedInputsCKKSWithEvalSumRefs joined_lib name_fusion \<lparr> sc_runs = [0, 1], sc_arrives = [1, 0] \<rparr> soft_params
       (encryptedInputFuseRequestFromFull small_request) two_comparators 1 [[1]] [[one_ref]] (Some (\<lambda>_. Inr [1])) no_cells =
     Some (Ok [[[4], [4]], [[8], [8]]], s2) \<and> same_heap no_cells s1 \<and> same_heap no_cells s2"
proof -
  have "same_run no_cells (ChunkedUnionScoreEncryptedInputsCKKSWithEvalSumRefs joined_lib name_fusion \<lparr> sc_runs = [1, 0], sc_arrives = [0, 1] \<rparr> soft_params
       (encryptedInputFuseRequestFromFull small_request) two_comparators 2 [[1]] [[one_ref]] (Some (\<lambda>_. Inr [1])))
    (ChunkedUnionScoreEncryptedInputsCKKSWithEvalSumRefs joined_lib name_fusion \<lparr> sc_runs = [0, 1], sc_arrives = [1, 0] \<rparr> soft_params
       (encryptedInputFuseRequestFromFull small_request) two_comparators 1 [[1]] [[one_ref]] (Some (\<lambda>_. Inr [1])))"
    using union_concurrency [OF soft_params_ok name_fusion_hyps no_cells_ok small_scheds small_request_fits,
        where ereq = "encryptedInputFuseRequestFromFull small_request" and L = joined_lib and resolve = "Some (\<lambda>_. Inr [1])" and refs = "[[one_ref]]"]
      small_request_fits(2) by (simp add: small_round refs_readable_def ref_readable_def one_ref_def)
  then show ?thesis using small_union_run by (auto simp: same_run_def ok_value_Some)
qed

lemma secure_chunked:
  assumes F: "buffers_ok F" "writes_ok F"
  shows "plain_fits req \<Longrightarrow> secure H nothing (ChunkedFusePayloadCKKS F ps req)"
    and "plain_fits req \<Longrightarrow> (ctx, CryptoContextHandle) \<in> set H \<Longrightarrow> secure H nothing (ChunkedFusePayloadCKKSWithContext F ctx req)"
    and "encrypted_fits req \<Longrightarrow> secure H nothing (ChunkedFuseEncryptedPayloadCKKS F ps req)"
    and "encrypted_fits req \<Longrightarrow> (ctx, CryptoContextHandle) \<in> set H \<Longrightarrow> secure H nothing (ChunkedFuseEncryptedPayloadCKKSWithContext F ctx req)"
    and "encrypted_fits (fullFuseRequest ereq) \<Longrightarrow> secure H nothing (ChunkedFuseEncryptedInputsCKKS F ps ereq)"
    and "encrypted_fits (fullFuseRequest ereq) \<Longrightarrow> (ctx, CryptoContextHandle) \<in> set H \<Longrightarrow> secure H nothing (ChunkedFuseEncryptedInputsCKKSWithContext F ctx ereq)"
proof -
  note unf = ChunkedFusePayloadCKKS_def ChunkedFusePayloadCKKSWithContext_def ChunkedFuseEncryptedPayloadCKKS_def
    ChunkedFuseEncryptedPayloadCKKSWithContext_def ChunkedFuseEncryptedInputsCKKS_def ChunkedFuseEncryptedInputsCKKSWithContext_def
  have plain: "plain_fits req \<Longrightarrow> ctx_held c H \<Longrightarrow> secure H nothing (chunked_plain F p c req)" for c p
    by (intro secure_chunked_plain F) (simp_all add: plain_fits_def split: option.splits)
  show "plain_fits req \<Longrightarrow> secure H nothing (ChunkedFusePayloadCKKS F ps req)"
    "plain_fits req \<Longrightarrow> (ctx, CryptoContextHandle) \<in> set H \<Longrightarrow> secure H nothing (ChunkedFusePayloadCKKSWithContext F ctx req)"
    unfolding unf by (auto intro!: secure_guards(1) plain)
  show "encrypted_fits req \<Longrightarrow> secure H nothing (ChunkedFuseEncryptedPayloadCKKS F ps req)"
    "encrypted_fits req \<Longrightarrow> (ctx, CryptoContextHandle) \<in> set H \<Longrightarrow> secure H nothing (ChunkedFuseEncryptedPayloadCKKSWithContext F ctx req)"
    "encrypted_fits (fullFuseRequest ereq) \<Longrightarrow> secure H nothing (ChunkedFuseEncryptedInputsCKKS F ps ereq)"
    "encrypted_fits (fullFuseRequest ereq) \<Longrightarrow> (ctx, CryptoContextHandle) \<in> set H \<Longrightarrow> secure H nothing (ChunkedFuseEncryptedInputsCKKSWithContext F ctx ereq)"
    unfolding unf encrypted_fits_def by (auto intro!: secure_if secure_nfail secure_encrypted F)
qed

lemma secure_full_refs:
  assumes "batch_ok ps" "buffers_ok F" "writes_ok F" "given_readable L resolve refs"
  shows "secure [] nothing (FullFusePayloadCKKSWithEvalSumRefs L F ps req pks refs resolve)"
  unfolding FullFusePayloadCKKSWithEvalSumRefs_def using assms by (auto intro!: secure_intros secure_full_ctx)

text \<open>
  Claim C31. Fusion does not leak: each fusion, with a context of its own or a given one, plain, encrypted or blind, and union
  scoring at every concurrency and for every schedule returns with the native heap as it found it, names, tables, buffers, keys and
  contexts freed once, whatever the routines answer. The handle of a given context still points to a context, which may hold other evaluation keys than before, and every
  other cell is as it was. Conditions: the rotation dimensions fit the batch-size loop (\<open>batch_ok\<close>); the routines give a buffer only on success, one that Go
  can copy (\<open>buffers_ok\<close>), and write no more lengths than there are chunks (\<open>writes_ok\<close>); plain payloads need at most 256 chunks
  (\<open>plain_fits\<close>, without which the array of lengths can be overrun), and the profile dimension and the number of candidates of the encrypted forms fit their
  counters (\<open>encrypted_fits\<close>). For the form that inserts keys by reference, what the references to a-vectors resolve to has to be readable.
\<close>

theorem fusion_balanced:
  assumes "batch_ok ps" "buffers_ok F" "writes_ok F" "sched_ok sched (length cs)"
    and "plain_fits req" "encrypted_fits req" "encrypted_fits (fullFuseRequest ereq)"
  shows "balanced (FullFusePayloadCKKS F ps req) \<and> balanced (ChunkedFusePayloadCKKS F ps req) \<and> balanced (ChunkedFuseEncryptedPayloadCKKS F ps req) \<and>
    balanced (ChunkedFuseEncryptedInputsCKKS F ps ereq) \<and> balanced (BlindFusePayloadBFVForContract F bps breq) \<and>
    (given_readable L resolve refs \<longrightarrow> balanced (FullFusePayloadCKKSWithEvalSumRefs L F ps req pks refs resolve)) \<and>
    balanced (ChunkedUnionScoreCKKSWithConcurrency L F sched ps req cs n) \<and>
    balanced (ChunkedUnionScoreEncryptedPayloadCKKSWithConcurrency L F sched ps req cs n) \<and>
    balanced (ChunkedUnionScoreEncryptedInputsCKKSWithConcurrency L F sched ps ereq cs n) \<and>
    keeps_ctx ctx (FullFusePayloadCKKSWithContext F ctx req) \<and> keeps_ctx ctx (ChunkedFusePayloadCKKSWithContext F ctx req) \<and>
    keeps_ctx ctx (ChunkedFuseEncryptedPayloadCKKSWithContext F ctx req) \<and> keeps_ctx ctx (ChunkedFuseEncryptedInputsCKKSWithContext F ctx ereq)"
  unfolding ChunkedUnionScoreCKKSWithConcurrency_def ChunkedUnionScoreEncryptedPayloadCKKSWithConcurrency_def
    ChunkedUnionScoreEncryptedInputsCKKSWithConcurrency_def balanced_def
  using assms by (intro conjI impI keeps_ctxI secure_full_fresh secure_full_ctx secure_blind secure_full_refs secure_chunked balanced_union(1) [unfolded balanced_def])
    (auto intro: secure_lanes)

theorem fusion_balanced_witness:
  "batch_ok soft_params \<and> buffers_ok name_fusion \<and> writes_ok name_fusion \<and> plain_fits small_request \<and> encrypted_fits small_request \<and>
   balanced (ChunkedFusePayloadCKKS name_fusion soft_params small_request) \<and>
   balanced (ChunkedUnionScoreCKKSWithConcurrency joined_lib name_fusion \<lparr> sc_runs = [1, 0], sc_arrives = [0, 1] \<rparr> soft_params small_request two_comparators 2)"
  using soft_params_ok name_fusion_hyps small_request_fits
    fusion_balanced [OF soft_params_ok name_fusion_hyps(1,2) small_scheds(1) small_request_fits, where ereq = "encryptedInputFuseRequestFromFull small_request"]
  by (simp add: small_round)

section \<open>Splitting and joining\<close>

lemma slices_concat:
  "\<forall>l \<in> set ls. 0 \<le> l \<Longrightarrow> blob = pre @ concat cts \<Longrightarrow> ls = map (\<lambda>b. int (length b)) cts \<Longrightarrow> slices blob (length pre) ls = Ok cts"
proof (induction cts arbitrary: pre ls)
  case (Cons ct cts)
  then have "slices blob (length (pre @ ct)) (map (\<lambda>b. int (length b)) cts) = Ok cts" by (intro Cons.IH) simp_all
  then show ?case using Cons.prems by (simp add: obind_def)
qed simp

lemma checked_slices_concat:
  "[] \<notin> set cts \<Longrightarrow> blob = pre @ concat cts \<Longrightarrow> ls = map (\<lambda>b. int (length b)) cts \<Longrightarrow> checked_slices bad rest i blob (length pre) ls = Ok cts"
proof (induction cts arbitrary: pre ls i)
  case (Cons ct cts)
  then have "checked_slices bad rest (Suc i) blob (length (pre @ ct)) (map (\<lambda>b. int (length b)) cts) = Ok cts" by (intro Cons.IH) simp_all
  then show ?case using Cons.prems by (auto simp: obind_def)
qed simp

lemma checked_slices_Ok:
  assumes "checked_slices bad rest i blob off ls = Ok cs" "off \<le> length blob"
  shows "concat cs = drop off blob \<and> ls = map (\<lambda>b. int (length b)) cs \<and> [] \<notin> set cs"
  using assms
proof (induction ls arbitrary: i off cs)
  case (Cons l ls)
  then obtain cs' where l: "0 < l" "l \<le> int (length blob) - int off" and rec: "checked_slices bad rest (Suc i) blob (off + nat l) ls = Ok cs'"
    and cs: "cs = take (nat l) (drop off blob) # cs'" by (auto split: if_splits)
  have "concat cs' = drop (off + nat l) blob \<and> ls = map (\<lambda>b. int (length b)) cs' \<and> [] \<notin> set cs'"
    by (rule Cons.IH [OF rec]) (use l in linarith)
  moreover have "take (nat l) (drop off blob) @ drop (off + nat l) blob = drop off blob"
    using append_take_drop_id [of "nat l" "drop off blob"] by (simp add: add.commute)
  ultimately show ?case using l cs by auto
qed (simp split: if_splits)

lemma sint_csize: "length b < 2 ^ 63 \<Longrightarrow> sint (csize b) = int (length b)"
  unfolding csize_def by transfer (simp add: signed_take_bit_int_eq_self)

lemma length_concat_mem: "x \<in> set xs \<Longrightarrow> length x \<le> length (concat xs)"
  by (induction xs) auto

text \<open>
  Claim C32. Joining ciphertexts into one blob with a table of lengths and splitting it again gives the ciphertexts back, by the splitting of plain
  fusion and, when none is empty, by the checked splitting of encrypted fusion; and whatever the C side returns, the chunks that the checked
  splitting accepts are not empty, have the lengths of the table and joined are the whole blob.
\<close>

theorem blob_round_trip:
  assumes "length (concat cts) < 2 ^ 63"
  shows "slices (fst (concatCandidateCiphertexts cts)) 0 (map sint (snd (concatCandidateCiphertexts cts))) = Ok cts \<and>
    ([] \<notin> set cts \<longrightarrow> checked_slices bad rest i (fst (concatCandidateCiphertexts cts)) 0 (map sint (snd (concatCandidateCiphertexts cts))) = Ok cts) \<and>
    (checked_slices bad rest i blob 0 ls = Ok cs \<longrightarrow> concat cs = blob \<and> ls = map (\<lambda>b. int (length b)) cs \<and> [] \<notin> set cs)"
proof -
  have ls: "map sint (map csize cts) = map (\<lambda>b. int (length b)) cts"
    using sint_csize order.strict_trans1 [OF length_concat_mem assms] by simp
  show ?thesis unfolding concatCandidateCiphertexts_def fst_conv snd_conv ls
    using slices_concat [of "map (\<lambda>b. int (length b)) cts" "concat cts" "[]" cts] checked_slices_concat [of cts "concat cts" "[]" _ bad rest i]
      checked_slices_Ok [of bad rest i blob 0 ls cs] by auto
qed

theorem blob_round_trip_witness:
  "slices [1, 2, 3] 0 (map sint [1 :: 64 word, 0, 2]) = Ok [[1], [], [2, 3]]"
  using blob_round_trip [of "[[1], [], [2, 3]]"] by (simp add: concatCandidateCiphertexts_def csize_def)


section \<open>Too many chunks\<close>

definition faults :: "('o, 'g, 'a) prog \<Rightarrow> bool" where
  "faults m \<longleftrightarrow> (\<forall>s. heap_ok s \<longrightarrow> (\<exists>s'. m s = Some (Panic ''undefined behaviour'', s') \<and> heap_ok s' \<and> ns_cells s' = ns_cells s \<and> ns_fault s' = Suc (ns_fault s)))"

lemma faults_with_cstring:
  fixes body :: "('o, 'g, 'a) prog"
  assumes "faults body" shows "faults (with_cstring v body)"
  unfolding faults_def
proof (intro allI impI)
  fix s :: "('o, 'g) native" assume s: "heap_ok s"
  let ?n = "ns_next s" and ?s = "s\<lparr> ns_cells := (ns_cells s)(ns_next s \<mapsto> Buf (str_bytes v @ [0])), ns_next := Suc (ns_next s) \<rparr>"
  have n: "0 < ?n" "ns_cells s ?n = None" using s by (auto simp: heap_ok_def)
  have "heap_ok ?s" using s by (auto simp: heap_ok_def)
  then obtain s' where s': "body ?s = Some (Panic ''undefined behaviour'', s')" "heap_ok s'" "ns_cells s' = ns_cells ?s" "ns_fault s' = Suc (ns_fault s)"
    using assms unfolding faults_def by fastforce
  have restore: "(ns_cells s')(?n := None) = ns_cells s" using s'(3) n(2) by (auto simp: fun_eq_iff)
  have "with_cstring v body s = Some (Panic ''undefined behaviour'', s'\<lparr> ns_cells := ns_cells s \<rparr>)"
    using s'(1,3) n restore by (simp add: with_cstring_def scoped_def nbind_def alloc_def deferring_def nfree_def)
  moreover have "heap_ok (s'\<lparr> ns_cells := ns_cells s \<rparr>)" using s s'(2,3) by (auto simp: heap_ok_def fun_eq_iff split: if_splits)
  ultimately show "\<exists>s'. with_cstring v body s = Some (Panic ''undefined behaviour'', s') \<and> heap_ok s' \<and> ns_cells s' = ns_cells s \<and> ns_fault s' = Suc (ns_fault s)"
    using s'(4) by auto
qed

lemma faults_c_fuse:
  assumes "\<And>g. length (fr_lens (fst (F call None g))) > 256" shows "faults (c_fuse F call None k)"
  using assms unfolding faults_def
  by (auto simp: c_fuse_def peek_ctx_def nbind_def nret_def with_world_def nfault_def heap_ok_def case_prod_beta)

text \<open>
  Chunked fusion of plain packages can write past its array when there are more than 256 chunks: once the C routine gets as far as writing the lengths it writes one
  per chunk, the array has 256 entries, and the number of chunks is compared with 256 only after the call, so a request that passes
  the checks before the call and whose slots need more chunks is a fault. The encrypted forms count the chunks first, and go on only
  with at most 256.
\<close>

theorem plain_chunks_overflow:
  fixes F :: "('o, 'g) fusion" and req ps packages
  defines "call \<equiv> ARESChunkedFusePayloadCKKS (fuse_args_of (Some ps) req) packages (word_of_int (fq_PackageBytes req)) (word_of_int (fq_PayloadSlotCount req))"
  assumes "\<And>g. length (fr_lens (fst (F call None g))) = c_chunks call"
    and "\<not> plain_fits req" "plain_error req = None" "concat (fq_CandidateCiphertexts req) \<noteq> []" "heap_ok s"
    and "flattenCandidatePackages (fq_CandidatePackages req) (fq_PackageBytes req) = Ok packages"
  shows "(\<exists>s'. ChunkedFusePayloadCKKS F ps req s = Some (Panic ''undefined behaviour'', s') \<and> ns_fault s' = Suc (ns_fault s)) \<and>
    (flattenEncryptedPayloadCiphertexts req' b = Some (Ok (n, nChunks, cts)) \<longrightarrow> 0 \<le> nChunks \<and> nChunks \<le> 256 \<and> length cts = n * nat nChunks)"
proof -
  have "c_chunks call > 256" using assms(3) by (auto simp: call_def plain_fits_def split: option.splits)
  then have "faults (with_names req (c_fuse F call None plain_chunks))"
    unfolding with_names_def by (intro faults_with_cstring faults_c_fuse) (simp add: assms(2))
  then show ?thesis using assms(4-7) flattenEncrypted_Ok(5-7) [of req' b n nChunks cts]
    by (auto simp: call_def ChunkedFusePayloadCKKS_def guarded_def chunked_plain_def nbind_nlift blob_nonempty_def faults_def)
qed

definition zero_fusion :: "(bytes, unit) fusion" where
  "zero_fusion call c g = (\<lparr> fr_ok = True, fr_out = Some [], fr_lens = replicate (c_chunks call) 0, fr_n = int (c_chunks call), fr_err = [] \<rparr>, c, g)"

definition wide_request :: fuse_request where
  "wide_request = small_request\<lparr> fq_CandidateLatQ := [0, 0], fq_CandidateLonQ := [0, 0], fq_CandidatePayloadCiphertexts := [],
     fq_CandidatePackages := [[1], [2]], fq_PackageBytes := 1, fq_ProfileDim := 1, fq_PayloadSlotCount := 257 \<rparr>"

theorem plain_chunks_overflow_witness:
  "\<exists>s'. ChunkedFusePayloadCKKS zero_fusion soft_params wide_request no_cells = Some (Panic ''undefined behaviour'', s') \<and> ns_fault s' = 1"
proof -
  have "double_until 1 1 = Some (1 :: 32 word)" by (simp add: double_until.simps)
  then have "\<not> plain_fits wide_request" by (simp add: plain_fits_def wide_request_def)
  moreover have "plain_error wide_request = None" "concat (fq_CandidateCiphertexts wide_request) \<noteq> []"
    "flattenCandidatePackages (fq_CandidatePackages wide_request) (fq_PackageBytes wide_request) = Ok [1, 2]" by code_simp+
  ultimately show ?thesis using plain_chunks_overflow [of zero_fusion soft_params wide_request "[1, 2]" no_cells] no_cells_ok
    by (simp add: no_cells_def zero_fusion_def)
qed

end
