(* ===== verification/Bridge_Tune.thy ===== *)
theory Bridge_Tune
  imports Bridge_Union "HOL-Library.Multiset"
begin

text \<open>
  The tuning of union comparators in rounded binary64: the margins are sorted, and every input scale keeps the largest score difference within the
  comparator's bound.
\<close>

section \<open>The error of rounding\<close>

lemma rne_error: "\<bar>of_int (rne x) - x\<bar> \<le> 1 / 2"
proof -
  let ?f = "of_int \<lfloor>x\<rfloor> :: rat"
  have "?f \<le> x" "x < ?f + 1" by linarith+
  then show ?thesis by (auto simp: rne_def Let_def abs_le_iff)
qed

lemma rnd64_error:
  assumes "2 powi (- 1022) \<le> x" "x \<le> 2 powi 1022"
  shows "\<exists>y. rnd64 x = Fin y \<and> \<bar>y - x\<bar> \<le> x / 2 ^ 53"
proof -
  have pos: "0 < x" using assms(1) by (meson less_le_trans zero_less_power_int zero_less_numeral)
  let ?q = "2 powi (lg x - 52) :: rat" and ?y = "of_int (rne (x / 2 powi (lg x - 52))) * 2 powi (lg x - 52) :: rat"
  have l: "2 powi lg x \<le> x" "x < 2 powi (lg x + 1)" using lg_bounds [OF pos] by simp_all
  have "2 powi (- 1022) < (2 :: rat) powi (lg x + 1)" using assms(1) l(2) by linarith
  then have "- 1022 < lg x + 1" by (simp only: powi2_mono_iff)
  then have e: "max (lg \<bar>x\<bar> - 52) (- 1074) = lg x - 52" using pos by simp
  have q: "0 < ?q" "?q = 2 powi lg x / 2 ^ 52" by (simp_all add: power_int_diff)
  have "\<bar>?y - x\<bar> = \<bar>of_int (rne (x / ?q)) - x / ?q\<bar> * ?q" using q(1) by (simp add: abs_mult_pos left_diff_distrib)
  also have "\<dots> \<le> 1 / 2 * ?q" using rne_error [of "x / ?q"] q(1) by (intro mult_right_mono) simp_all
  also have "\<dots> \<le> x / 2 ^ 53" using l(1) unfolding q(2) by simp
  finally have err: "\<bar>?y - x\<bar> \<le> x / 2 ^ 53" .
  have "x / 2 ^ 53 \<le> x" using pos by (simp add: field_simps)
  then have "\<bar>?y\<bar> \<le> 2 * 2 powi 1022" using err assms(2) pos by linarith
  also have "\<dots> < 2 ^ 1024" by simp
  finally have "\<not> \<bar>?y\<bar> \<ge> 2 ^ 1024" by simp
  then have "rnd64 x = Fin ?y" using pos e by (simp add: rnd64_def Let_def)
  then show ?thesis using err by blast
qed

abbreviation moderate :: "rat \<Rightarrow> bool" where "moderate x \<equiv> 2 powi (- 500) \<le> x \<and> x \<le> 2 powi 500"

lemma moderate_pos: "moderate x \<Longrightarrow> 0 < x"
  by (meson less_le_trans zero_less_power_int zero_less_numeral)

lemma moderateI: "1 / 8 \<le> x \<Longrightarrow> x \<le> 8 \<Longrightarrow> moderate x"
  using powi2_mono [of "- 500" "- 3"] powi2_mono [of 3 500] by simp

lemma rnd64_near:
  assumes "1 / 1000 \<le> x" "x \<le> 8"
  shows "\<exists>y. rnd64 x = Fin y \<and> x * (999 / 1000) \<le> y \<and> y \<le> x * (1001 / 1000)"
proof -
  have "2 powi (- 1022) \<le> x" "x \<le> 2 powi 1022" using assms powi2_mono [of "- 1022" "- 10"] powi2_mono [of 3 1022] by simp_all
  then obtain y where y: "rnd64 x = Fin y" "\<bar>y - x\<bar> \<le> x / 2 ^ 53" using rnd64_error by blast
  have "x / 2 ^ 53 \<le> x / 1000" using assms by (intro divide_left_mono) simp_all
  then have "x * (999 / 1000) \<le> y" "y \<le> x * (1001 / 1000)" using y(2) by linarith+
  then show ?thesis using y(1) by blast
qed

lemma moderate_quot:
  fixes B p :: rat
  assumes "moderate B" "2 powi (- 500) \<le> p" "p \<le> 2 powi 502"
  shows "2 powi (- 1022) \<le> B / p" "B / p \<le> 2 powi 1022"
proof -
  have p: "0 < p" and B: "0 < B" using assms by (meson less_le_trans zero_less_power_int zero_less_numeral)+
  have "2 powi (- 1022) * p \<le> 2 powi (- 1022) * 2 powi 502" using assms(3) by (intro mult_left_mono) simp_all
  also have "\<dots> = 2 powi (- 520)" by (simp flip: power_int_add)
  also have "\<dots> \<le> 2 powi (- 500)" by (rule powi2_mono) simp
  finally show "2 powi (- 1022) \<le> B / p" using assms(1) p by (simp add: le_divide_eq)
  have "2 powi 500 \<le> (2 :: rat) powi 522" by (rule powi2_mono) simp
  also have "\<dots> = 2 powi 1022 * 2 powi (- 500)" by (simp flip: power_int_add)
  also have "\<dots> \<le> 2 powi 1022 * p" using assms(2) by (intro mult_left_mono) simp_all
  finally show "B / p \<le> 2 powi 1022" using assms(1) p by (simp add: divide_le_eq)
qed

lemma scaled_in_bound:
  assumes c: "104 / 100 \<le> c" "c \<le> 2" and d: "moderate d" and B: "moderate B"
  shows "\<exists>s. capped (f_quot (Fin B) (f_mul (Fin d) (Fin c))) = Fin s \<and> 0 < s \<and> s \<le> 1 \<and> s * d \<le> B * (101 / 103)"
proof -
  define e :: rat where "e = 1 / 2 ^ 53"
  have e: "0 < e" "e < 1 / 1000" by (simp_all add: e_def)
  note dp = moderate_pos [OF d] and Bp = moderate_pos [OF B]
  have dc: "d * (104 / 100) \<le> d * c" "d * c \<le> d * 2" using c dp by (intro mult_left_mono; simp)+
  have "2 powi (- 1022) \<le> (2 :: rat) powi (- 500)" "2 powi 501 \<le> (2 :: rat) powi 1022" by (rule powi2_mono; simp)+
  moreover have "d * 2 \<le> 2 powi 501" using d by simp
  ultimately have "2 powi (- 1022) \<le> d * c" "d * c \<le> 2 powi 1022" using dc d by linarith+
  then obtain p where p: "rnd64 (d * c) = Fin p" "\<bar>p - d * c\<bar> \<le> d * c * e" using rnd64_error by (auto simp: e_def)
  have "d * c * e \<le> d * 2 * (1 / 1000)" using dc e dp c by (intro mult_mono) auto
  then have p1: "d * (103 / 100) \<le> p" "p \<le> d * 3" using p(2) dc dp by linarith+
  then have pp: "0 < p" using dp by linarith
  have "d * 3 \<le> 2 powi 502" using d by simp
  then have v: "2 powi (- 1022) \<le> B / p" "B / p \<le> 2 powi 1022" using p1 d dp by (intro moderate_quot B; linarith)+
  obtain w where w: "rnd64 (B / p) = Fin w" "\<bar>w - B / p\<bar> \<le> B / p * e" using rnd64_error [OF v] by (auto simp: e_def)
  have Bpp: "0 < B / p" using Bp pp by simp
  have small: "B / p * e \<le> B / p * (1 / 1000)" using Bpp e by (intro mult_left_mono) simp_all
  have "0 < w" and up: "w \<le> B / p * (101 / 100)" using w(2) small Bpp by (auto simp: abs_le_iff)
  have dp': "d \<le> p * (100 / 103)" using p1(1) by simp
  show ?thesis
  proof (cases "1 < w")
    case True
    then have "1 < B / p * (101 / 100)" using up by linarith
    then have "p < B * (101 / 100)" using pp by (simp add: field_simps)
    then have "1 * d \<le> B * (101 / 103)" using dp' by linarith
    moreover have "f_lt (Fin 1) (Fin w)" using True by (simp add: f_lt_def)
    ultimately show ?thesis using p(1) w(1) pp by (simp add: capped_def)
  next
    case False
    have "w * d \<le> B / p * (101 / 100) * (p * (100 / 103))" using up dp' \<open>0 < w\<close> dp Bpp by (intro mult_mono) simp_all
    also have "\<dots> = B * (101 / 103)" using pp by simp
    finally have "w * d \<le> B * (101 / 103)" .
    moreover have "\<not> f_lt (Fin 1) (Fin w)" using False by (simp add: f_lt_def)
    ultimately show ?thesis using p(1) w(1) pp False \<open>0 < w\<close> by (simp add: capped_def)
  qed
qed

section \<open>Sorting\<close>

lemma f64_cases: obtains "x = FNaN" | "x = FInf True" | "x = FInf False" | a where "x = Fin a"
  by (cases x) auto

text \<open>A strict weak order, so its complement is a total preorder.\<close>

lemma sort_less_negtrans: "\<not> sort_less y x \<Longrightarrow> \<not> sort_less z y \<Longrightarrow> \<not> sort_less z x"
  by (cases x rule: f64_cases; cases y rule: f64_cases; cases z rule: f64_cases) (auto simp: sort_less_def f_lt_def)

lemma sort_less_asym: "sort_less x y \<Longrightarrow> \<not> sort_less y x"
  by (cases x rule: f64_cases; cases y rule: f64_cases) (auto simp: sort_less_def f_lt_def)

abbreviation ordered :: "f64 list \<Rightarrow> bool" where "ordered \<equiv> sorted_wrt (\<lambda>x y. \<not> sort_less y x)"

lemma mset_insert_float [simp]: "mset (insert_float x ys) = add_mset x (mset ys)"
  by (induction ys) auto

lemma set_insert_float [simp]: "set (insert_float x ys) = insert x (set ys)"
  by (induction ys) auto

lemma ordered_insert_float: "ordered ys \<Longrightarrow> ordered (insert_float x ys)"
  by (induction ys) (auto dest: sort_less_asym sort_less_negtrans)

lemma sort_floats_sorts: "mset (sort_floats xs) = mset xs" "ordered (sort_floats xs)"
  by (induction xs) (auto simp: sort_floats_def ordered_insert_float)

section \<open>Margins\<close>

text \<open>The best and the second best of a list of scores, counting two scores of minus infinity as given.\<close>

definition top_two :: "f64 multiset \<Rightarrow> f64 \<Rightarrow> f64 \<Rightarrow> bool" where
  "top_two ds best second \<longleftrightarrow> (\<exists>rest. ds + {# FInf True, FInf True #} = rest + {# best, second #} \<and> best \<noteq> FNaN \<and> second \<noteq> FNaN \<and>
     \<not> f_lt best second \<and> (\<forall>d \<in># rest. \<not> f_lt second d))"

lemma f_lt_negtrans: "y \<noteq> FNaN \<Longrightarrow> \<not> f_lt x y \<Longrightarrow> \<not> f_lt y z \<Longrightarrow> \<not> f_lt x z"
  by (cases x rule: f64_cases; cases y rule: f64_cases; cases z rule: f64_cases) (auto simp: f_lt_def)

lemma f_lt_asym: "f_lt x y \<Longrightarrow> \<not> f_lt y x"
  by (simp add: f_lt_def)

lemma f_lt_not_NaN: "f_lt x y \<Longrightarrow> x \<noteq> FNaN \<and> y \<noteq> FNaN"
  by (cases x rule: f64_cases; cases y rule: f64_cases) (auto simp: f_lt_def)

lemma top_two_step:
  assumes "top_two ds best second" "rank_step d (best, second, worst) = (best', second', worst')"
  shows "top_two (add_mset d ds) best' second'"
proof -
  obtain rest where r: "ds + {# FInf True, FInf True #} = rest + {# best, second #}" "best \<noteq> FNaN" "second \<noteq> FNaN"
    "\<not> f_lt best second" "\<forall>d \<in># rest. \<not> f_lt second d" using assms(1) by (auto simp: top_two_def)
  consider "f_lt best d" "best' = d" "second' = best" | "\<not> f_lt best d" "f_lt second d" "best' = best" "second' = d"
    | "\<not> f_lt best d" "\<not> f_lt second d" "best' = best" "second' = second"
    using assms(2) by (auto simp: rank_step_def Let_def split: if_splits)
  then show ?thesis
  proof cases
    case 1
    have "\<forall>x \<in># add_mset second rest. \<not> f_lt best x" using r(4,5) f_lt_negtrans [OF r(3,4)] by simp
    then show ?thesis unfolding top_two_def 1(2,3) using r(1,2) f_lt_asym [OF 1(1)] f_lt_not_NaN [OF 1(1)]
      by (intro exI [of _ "add_mset second rest"]) simp
  next
    case 2
    have "\<forall>x \<in># add_mset second rest. \<not> f_lt d x" using r(3,5) f_lt_negtrans [OF r(3) f_lt_asym [OF 2(2)]] f_lt_asym [OF 2(2)] by simp
    then show ?thesis unfolding top_two_def 2(3,4) using r(1,2) 2(1) f_lt_not_NaN [OF 2(2)]
      by (intro exI [of _ "add_mset second rest"]) simp
  next
    case 3
    then show ?thesis unfolding top_two_def 3(3,4) using r by (intro exI [of _ "add_mset d rest"]) simp
  qed
qed

lemma cohort_ranks_top_two:
  assumes "cohort_ranks ch = (best, second, worst)" shows "top_two (mset (map (dot (ch ! 0)) (drop 1 ch))) best second"
proof -
  have "top_two (ds + mset (map (dot x) cs)) best second" if "fold (\<lambda>cand. rank_step (dot x cand)) cs (b, s, w) = (best, second, worst)" "top_two ds b s"
    for x cs ds b s w using that
  proof (induction cs arbitrary: ds b s w)
    case (Cons c cs)
    obtain b' s' w' where step: "rank_step (dot x c) (b, s, w) = (b', s', w')" by (metis prod_cases3)
    have "top_two (add_mset (dot x c) ds + mset (map (dot x) cs)) best second"
      by (rule Cons.IH [of b' s' w']) (use Cons.prems step top_two_step [OF Cons.prems(2) step] in simp_all)
    then show ?case by simp
  qed simp
  moreover have "top_two {#} (FInf True) (FInf True)" by (auto simp: top_two_def f_lt_def)
  ultimately show ?thesis using assms unfolding cohort_ranks_def by (metis add_0)
qed

definition margin :: "f64 list list \<Rightarrow> f64" where
  "margin ch = (case cohort_ranks ch of (best, second, worst) \<Rightarrow> f_sub best second)"

lemma fold_cohort_margins: "fst (fold cohort_step cohorts (ms, mp)) = ms @ map margin (filter (\<lambda>ch. 3 \<le> length ch) cohorts)"
  by (induction cohorts arbitrary: ms mp) (auto simp: cohort_step_def margin_def not_less Let_def split: prod.split)

section \<open>Claims\<close>

lemma ordered_nth: "ordered ms \<Longrightarrow> i \<le> j \<Longrightarrow> j < length ms \<Longrightarrow> \<not> f_lt (ms ! j) (ms ! i)"
  by (cases "i = j") (auto simp: sorted_wrt_iff_nth_less sort_less_def f_lt_def)

abbreviation ranked :: "f64 list list list \<Rightarrow> f64 list" where
  "ranked cohorts \<equiv> map margin (filter (\<lambda>ch. 3 \<le> length ch) cohorts)"

lemma stats_fold: "fst (fold cohort_step cohorts ([], Fin 0)) = ranked cohorts"
  using fold_cohort_margins by simp

lemma stats_default:
  "ranked cohorts = [] \<Longrightarrow> MarginStatsFromCohorts cohorts =
     \<lparr> dm_MinMargin = rnd64 (5 / 1000), dm_MedianMargin = rnd64 (126 / 10000), dm_MaxMargin = rnd64 (5 / 100), dm_MaxPairwiseDiff = rnd64 (5 / 100) \<rparr>"
  using stats_fold [of cohorts] by (auto simp: MarginStatsFromCohorts_def split: prod.split)

lemma length_sort_floats [simp]: "length (sort_floats xs) = length xs"
  by (metis size_mset sort_floats_sorts(1))

lemma stats_sorted:
  assumes "ranked cohorts \<noteq> []"
  shows "dm_MinMargin (MarginStatsFromCohorts cohorts) = sort_floats (ranked cohorts) ! 0"
    and "dm_MedianMargin (MarginStatsFromCohorts cohorts) = sort_floats (ranked cohorts) ! (length (ranked cohorts) div 2)"
    and "dm_MaxMargin (MarginStatsFromCohorts cohorts) = sort_floats (ranked cohorts) ! (length (ranked cohorts) - 1)"
proof -
  have "sort_floats (ranked cohorts) \<noteq> []" using assms by (metis length_0_conv length_sort_floats)
  then have l: "last (sort_floats (ranked cohorts)) = sort_floats (ranked cohorts) ! (length (ranked cohorts) - 1)" by (simp add: last_conv_nth del: length_map)
  show "dm_MinMargin (MarginStatsFromCohorts cohorts) = sort_floats (ranked cohorts) ! 0"
    "dm_MedianMargin (MarginStatsFromCohorts cohorts) = sort_floats (ranked cohorts) ! (length (ranked cohorts) div 2)"
    "dm_MaxMargin (MarginStatsFromCohorts cohorts) = sort_floats (ranked cohorts) ! (length (ranked cohorts) - 1)"
    unfolding l [symmetric] using assms stats_fold [of cohorts] by (auto simp: MarginStatsFromCohorts_def Let_def split: prod.split)
qed

lemma stats_in_order:
  "\<not> f_lt (dm_MedianMargin (MarginStatsFromCohorts cohorts)) (dm_MinMargin (MarginStatsFromCohorts cohorts)) \<and>
   \<not> f_lt (dm_MaxMargin (MarginStatsFromCohorts cohorts)) (dm_MedianMargin (MarginStatsFromCohorts cohorts))"
proof (cases "ranked cohorts = []")
  case True
  have "\<not> f_lt (rnd64 (126 / 10000)) (rnd64 (5 / 1000)) \<and> \<not> f_lt (rnd64 (5 / 100)) (rnd64 (126 / 10000))"
    using rnd64_near [of "5 / 1000"] rnd64_near [of "126 / 10000"] rnd64_near [of "5 / 100"] by (auto simp: f_lt_def)
  then show ?thesis by (simp add: stats_default [OF True])
next
  case False
  then have "0 < length (ranked cohorts)" by simp
  then show ?thesis unfolding stats_sorted [OF False] by (intro conjI ordered_nth sort_floats_sorts(2)) (simp_all del: length_map)
qed

text \<open>
  \<^verbatim>\<open>MarginStatsFromCohorts\<close> gives order statistics of the margins of the cohorts with two candidates at least: with the margins sorted
  (NaN first), the least, the one at half the length and the greatest, so the minimum is not above the median nor the median
  above the maximum; a margin is the best score of a cohort less the second best; without such a cohort the defaults are in the same order.
\<close>

theorem margin_statistics:
  "(\<exists>ms. mset ms = mset (ranked cohorts) \<and> ordered ms \<and>
     (ms \<noteq> [] \<longrightarrow> dm_MinMargin (MarginStatsFromCohorts cohorts) = ms ! 0 \<and>
        dm_MedianMargin (MarginStatsFromCohorts cohorts) = ms ! (length ms div 2) \<and> dm_MaxMargin (MarginStatsFromCohorts cohorts) = ms ! (length ms - 1))) \<and>
   \<not> f_lt (dm_MedianMargin (MarginStatsFromCohorts cohorts)) (dm_MinMargin (MarginStatsFromCohorts cohorts)) \<and>
   \<not> f_lt (dm_MaxMargin (MarginStatsFromCohorts cohorts)) (dm_MedianMargin (MarginStatsFromCohorts cohorts)) \<and>
   margin ch = f_sub (fst (cohort_ranks ch)) (fst (snd (cohort_ranks ch))) \<and>
   top_two (mset (map (dot (ch ! 0)) (drop 1 ch))) (fst (cohort_ranks ch)) (fst (snd (cohort_ranks ch)))"
proof -
  have "sort_floats (ranked cohorts) \<noteq> [] \<Longrightarrow> ranked cohorts \<noteq> []" by (auto simp: sort_floats_def)
  then have "\<exists>ms. mset ms = mset (ranked cohorts) \<and> ordered ms \<and> (ms \<noteq> [] \<longrightarrow> dm_MinMargin (MarginStatsFromCohorts cohorts) = ms ! 0 \<and>
      dm_MedianMargin (MarginStatsFromCohorts cohorts) = ms ! (length ms div 2) \<and> dm_MaxMargin (MarginStatsFromCohorts cohorts) = ms ! (length ms - 1))"
    using sort_floats_sorts stats_sorted [of cohorts] by (intro exI [of _ "sort_floats (ranked cohorts)"]) (simp del: length_map mset_map)
  moreover have "margin ch = f_sub (fst (cohort_ranks ch)) (fst (snd (cohort_ranks ch)))" by (simp add: margin_def split: prod.split)
  moreover have "top_two (mset (map (dot (ch ! 0)) (drop 1 ch))) (fst (cohort_ranks ch)) (fst (snd (cohort_ranks ch)))"
    using cohort_ranks_top_two by (metis prod.collapse)
  ultimately show ?thesis using stats_in_order by blast
qed

theorem margin_statistics_witness:
  "dm_MedianMargin (MarginStatsFromCohorts [[[Fin 1], [Fin 1], [Fin 2]], []]) = margin [[Fin 1], [Fin 1], [Fin 2]] \<and>
   top_two {# dot [Fin 1] [Fin 1], dot [Fin 1] [Fin 2] #} (fst (cohort_ranks [[Fin 1], [Fin 1], [Fin 2]])) (fst (snd (cohort_ranks [[Fin 1], [Fin 1], [Fin 2]])))"
proof -
  obtain ms where "mset ms = {# margin [[Fin 1], [Fin 1], [Fin 2]] #}"
    "ms \<noteq> [] \<longrightarrow> dm_MedianMargin (MarginStatsFromCohorts [[[Fin 1], [Fin 1], [Fin 2]], []]) = ms ! (length ms div 2)"
    using margin_statistics [of "[[[Fin 1], [Fin 1], [Fin 2]], []]"] by auto
  then show ?thesis using margin_statistics [of _ "[[Fin 1], [Fin 1], [Fin 2]]"] by (auto simp: add_mset_commute)
qed

text \<open>
  Claim C34. \<^verbatim>\<open>TuneUnion\<close> keeps every comparator but for its input scale, which is at most one; and with the rounding of binary64 taken into
  account, the input scale maps the largest score difference that the comparator is tuned for into its range: times that difference it does
  not exceed the comparator's bound, or, for a comparator without one, the peak of the selector cubic (6.7). The difference and the
  bound are taken to be between \<^verbatim>\<open>2^-500\<close> and \<^verbatim>\<open>2^500\<close>.
\<close>

theorem tuning_in_bounds:
  assumes "TuneUnion m base target = (scoreScale, tuned)" "i < length base"
    and "comp_max_diff (tune_target target) scoreScale (tune_range m) (base ! i) = Fin d" "2 powi (- 500) \<le> d" "d \<le> 2 powi 500"
    and "uc_Bound (base ! i) = Fin B" "B \<le> 0 \<or> 2 powi (- 500) \<le> B" "B \<le> 2 powi 500"
  shows "length tuned = length base \<and> (\<exists>s. tuned ! i = (base ! i)\<lparr> uc_InputScale := Fin s \<rparr> \<and> 0 < s \<and> s \<le> 1 \<and> s * d \<le> (if 0 < B then B else 67 / 10))"
proof -
  have tuned: "tuned = map (\<lambda>c. c\<lparr> uc_InputScale := input_scale (uc_Bound c) (comp_max_diff (tune_target target) scoreScale (tune_range m) c) \<rparr>) base"
    using assms(1) by (auto simp: TuneUnion_def Let_def)
  obtain c1 c2 P where c: "rnd64 (115 / 100) = Fin c1" "104 / 100 \<le> c1" "c1 \<le> 2" "rnd64 (105 / 100) = Fin c2" "104 / 100 \<le> c2" "c2 \<le> 2"
    "rnd64 (67 / 10) = Fin P" "67 / 10 * (999 / 1000) \<le> P" "P \<le> 67 / 10 * (1001 / 1000)"
    using rnd64_near [of "115 / 100"] rnd64_near [of "105 / 100"] rnd64_near [of "67 / 10"] by auto
  then have P: "moderate P" by (intro moderateI) linarith+
  have "\<exists>s. input_scale (Fin B) (Fin d) = Fin s \<and> 0 < s \<and> s \<le> 1 \<and> s * d \<le> (if 0 < B then B else 67 / 10)"
  proof (cases "0 < B")
    case True
    then obtain s where "input_scale (Fin B) (Fin d) = Fin s" "0 < s" "s \<le> 1" "s * d \<le> B * (101 / 103)"
      using scaled_in_bound [of c1 d B] assms(4,5,7,8) c(1-3) by (auto simp: input_scale_def f_lt_def)
    then show ?thesis using True by (intro exI [of _ s]) simp
  next
    case False
    then obtain s where "input_scale (Fin B) (Fin d) = Fin s" "0 < s" "s \<le> 1" "s * d \<le> P * (101 / 103)"
      using scaled_in_bound [of c2 d P] assms(4,5) c(4-7) P by (auto simp: input_scale_def f_lt_def)
    then show ?thesis using False c(9) by (intro exI [of _ s]) simp
  qed
  then show ?thesis using assms(2,3,6) by (auto simp: tuned)
qed

lemma rnd64_small: "rnd64 1 = Fin 1" "rnd64 2 = Fin 2" "rnd64 (1 / 2) = Fin (1 / 2)"
proof -
  show "rnd64 1 = Fin 1" "rnd64 2 = Fin 2" using f_of_int_exact [of 1] f_of_int_exact [of 2] by (simp_all add: f_of_int_def)
  show "rnd64 (1 / 2) = Fin (1 / 2)" by (rule rnd64_exact [where k = "2 ^ 52"]) (simp_all add: lg.simps power_int_def power_divide)
qed

theorem tuning_in_bounds_witness:
  "\<exists>s. uc_InputScale (snd (TuneUnion \<lparr> dm_MinMargin = Fin 1, dm_MedianMargin = Fin 2, dm_MaxMargin = Fin 2, dm_MaxPairwiseDiff = Fin 2 \<rparr>
     [\<lparr> uc_ID = ''a'', uc_Comparator = ''tanh'', uc_Schedule = ''none'', uc_Gain = Fin 1, uc_Bound = Fin (1 / 2), uc_InputScale = Fin 0, uc_RangeMargin = Fin 0, uc_Degree = 3 \<rparr>] (Fin 1)) ! 0) = Fin s
     \<and> 0 < s \<and> s \<le> 1 / 2"
proof -
  let ?m = "\<lparr> dm_MinMargin = Fin 1, dm_MedianMargin = Fin 2, dm_MaxMargin = Fin 2, dm_MaxPairwiseDiff = Fin 2 \<rparr>"
  let ?c = "\<lparr> uc_ID = ''a'', uc_Comparator = ''tanh'', uc_Schedule = ''none'', uc_Gain = Fin 1, uc_Bound = Fin (1 / 2), uc_InputScale = Fin 0, uc_RangeMargin = Fin 0, uc_Degree = 3 \<rparr>"
  have scale: "fst (TuneUnion ?m [?c] (Fin 1)) = Fin 1" by (simp add: TuneUnion_def Let_def tune_target_def tune_scale_def tune_median_def rnd64_small)
  have diff: "comp_max_diff (tune_target (Fin 1)) (Fin 1) (tune_range ?m) ?c = Fin 1"
    by (simp add: comp_max_diff_def Let_def tune_target_def tune_range_def f_lt_def rnd64_small)
  show ?thesis using tuning_in_bounds [of ?m "[?c]" "Fin 1" "Fin 1" "snd (TuneUnion ?m [?c] (Fin 1))" 0 1 "1 / 2"] scale diff moderateI [of 1] moderateI [of "1 / 2"]
    by (auto simp: prod_eq_iff)
qed

end
