(* ===== verification/Helper_Wire.thy ===== *)
theory Helper_Wire
  imports Bridge_Eval
begin

text \<open>
  The wire between \<^verbatim>\<open>pkg/ares/crypto/helperclient\<close> and \<^verbatim>\<open>cmd/openfhe-contract-helper\<close>: base64 as in Go's \<^verbatim>\<open>base64.StdEncoding\<close>, and the requests
  and responses of both sides. The helper's structs have the fields of the client's and a few more under the same JSON names, so they
  are extensions of the client's records: JSON sets the extra fields of a request to empty strings and drops those of a response.
\<close>

section \<open>Base64\<close>

definition b64_alphabet :: string where "b64_alphabet = ''ABCDEFGHIJKLMNOPQRSTUVWXYZabcdefghijklmnopqrstuvwxyz0123456789+/''"

definition b64_chr :: "nat \<Rightarrow> char" where "b64_chr n = b64_alphabet ! n"
definition b64_val :: "char \<Rightarrow> nat option" where "b64_val c = map_of (zip b64_alphabet [0..<64]) c"

definition sextets :: "nat \<Rightarrow> string" where
  "sextets v = map b64_chr [v div 262144, v div 4096 mod 64, v div 64 mod 64, v mod 64]"

fun encodeB64 :: "bytes \<Rightarrow> string" where
  "encodeB64 [] = []"
| "encodeB64 [a] = take 2 (sextets (unat a * 65536)) @ ''==''"
| "encodeB64 [a, b] = take 3 (sextets (unat a * 65536 + unat b * 256)) @ ''=''"
| "encodeB64 (a # b # c # rest) = sextets (unat a * 65536 + unat b * 256 + unat c) @ encodeB64 rest"

definition b64_group :: "string \<Rightarrow> nat option" where
  "b64_group cs = fold (\<lambda>c acc. case (acc, b64_val c) of (Some v, Some n) \<Rightarrow> Some (v * 64 + n) | _ \<Rightarrow> None) cs (Some 0)"

definition group_bytes :: "nat \<Rightarrow> nat \<Rightarrow> bytes" where
  "group_bytes k v = take k [word_of_nat (v div 65536), word_of_nat (v div 256 mod 256), word_of_nat (v mod 256)]"

text \<open>Unused bits of the last group are not checked (the encoding is not strict).\<close>

fun decode_groups :: "string \<Rightarrow> bytes option" where
  "decode_groups [] = Some []"
| "decode_groups (a # b # c # d # rest) =
     (if rest = [] \<and> d = CHR ''='' then
        if c = CHR ''='' then map_option (\<lambda>v. group_bytes 1 (v * 4096)) (b64_group [a, b])
        else map_option (\<lambda>v. group_bytes 2 (v * 64)) (b64_group [a, b, c])
      else case (b64_group [a, b, c, d], decode_groups rest) of
             (Some v, Some bs) \<Rightarrow> Some (group_bytes 3 v @ bs) | _ \<Rightarrow> None)"
| "decode_groups _ = None"

text \<open>Carriage returns and line feeds are skipped. The position in Go's error text is left out.\<close>

definition DecodeString :: "string \<Rightarrow> (string, bytes) outcome" where
  "DecodeString s =
     (case decode_groups (filter (\<lambda>c. c \<noteq> CHR 0x0A \<and> c \<noteq> CHR 0x0D) s) of
        Some bs \<Rightarrow> Ok bs | None \<Rightarrow> Err ''illegal base64 data'')"

lemma alphabet_vals: "list_all (\<lambda>n. b64_val (b64_chr n) = Some n \<and> b64_chr n \<noteq> CHR ''='' \<and> b64_chr n \<noteq> CHR 0x0A \<and> b64_chr n \<noteq> CHR 0x0D) [0..<64]"
  by code_simp

lemma b64_chr_simps [simp]:
  assumes "n < 64"
  shows "b64_val (b64_chr n) = Some n" "b64_chr n \<noteq> CHR ''=''" "b64_chr n \<noteq> CHR 0x0A" "b64_chr n \<noteq> CHR 0x0D"
  using alphabet_vals assms by (auto simp: list_all_iff)

lemma group_chrs: "\<forall>n \<in> set ns. n < 64 \<Longrightarrow> b64_group (map b64_chr ns) = Some (fold (\<lambda>n v. v * 64 + n) ns 0)"
proof -
  have "\<forall>n \<in> set ns. n < 64 \<Longrightarrow> fold (\<lambda>c acc. case (acc, b64_val c) of (Some v, Some n) \<Rightarrow> Some (v * 64 + n) | _ \<Rightarrow> None) (map b64_chr ns) (Some v)
      = Some (fold (\<lambda>n v. v * 64 + n) ns v)" for v by (induction ns arbitrary: v) auto
  then show "\<forall>n \<in> set ns. n < 64 \<Longrightarrow> ?thesis" by (simp add: b64_group_def)
qed

lemma byte_less: "unat (a :: 8 word) < 256"
  using unsigned_less [of a] by simp

lemma group_sextets:
  assumes "v < 16777216"
  shows "sextets v = map b64_chr [v div 262144, v div 4096 mod 64, v div 64 mod 64, v mod 64]"
    and "b64_group (map b64_chr [v div 262144, v div 4096 mod 64]) = Some (v div 4096)"
    and "b64_group (map b64_chr [v div 262144, v div 4096 mod 64, v div 64 mod 64]) = Some (v div 64)"
    and "b64_group (map b64_chr [v div 262144, v div 4096 mod 64, v div 64 mod 64, v mod 64]) = Some v"
proof -
  have "v div 262144 < 64" using assms by simp
  moreover have "v div 262144 = v div 4096 div 64" "v div 4096 = v div 64 div 64"
    using div_mult2_eq [of v 4096 64] div_mult2_eq [of v 64 64] by simp_all
  then have "v div 262144 * 64 + v div 4096 mod 64 = v div 4096" "v div 4096 * 64 + v div 64 mod 64 = v div 64" "v div 64 * 64 + v mod 64 = v"
    by simp_all
  ultimately show "b64_group (map b64_chr [v div 262144, v div 4096 mod 64]) = Some (v div 4096)"
    "b64_group (map b64_chr [v div 262144, v div 4096 mod 64, v div 64 mod 64]) = Some (v div 64)"
    "b64_group (map b64_chr [v div 262144, v div 4096 mod 64, v div 64 mod 64, v mod 64]) = Some v"
    by (subst group_chrs; simp)+
qed (simp add: sextets_def)

lemma unat_bytes: "word_of_nat (unat (a :: 8 word)) = a"
  by simp

lemma group_bytes_sum:
  fixes a b c :: "8 word"
  shows "group_bytes 3 (unat a * 65536 + unat b * 256 + unat c) = [a, b, c]" "group_bytes 2 (unat a * 65536 + unat b * 256) = [a, b]" "group_bytes 1 (unat a * 65536) = [a]"
proof -
  have sum: "(x * 65536 + y * 256 + z) div 65536 = x \<and> (x * 65536 + y * 256 + z) div 256 mod 256 = y \<and> (x * 65536 + y * 256 + z) mod 256 = z"
    if "y < 256" "z < 256" for x y z :: nat
  proof -
    have "(x * 65536 + y * 256 + z) div 65536 = x" using that by (intro div_nat_eqI) simp_all
    moreover have "(x * 65536 + y * 256 + z) div 256 = x * 256 + y" using that by (intro div_nat_eqI) simp_all
    moreover have "x * 65536 + y * 256 + z = z + (x * 256 + y) * 256" by simp
    then have "(x * 65536 + y * 256 + z) mod 256 = z" using that(2) by (metis mod_less mod_mult_self1)
    ultimately show ?thesis using that by simp
  qed
  show "group_bytes 3 (unat a * 65536 + unat b * 256 + unat c) = [a, b, c]" "group_bytes 2 (unat a * 65536 + unat b * 256) = [a, b]" "group_bytes 1 (unat a * 65536) = [a]"
    using sum [of "unat b" "unat c" "unat a"] sum [of "unat b" 0 "unat a"] sum [of 0 0 "unat a"] byte_less [of b] byte_less [of c]
    by (simp_all add: group_bytes_def)
qed

lemma decode_encode: "decode_groups (encodeB64 bs) = Some bs \<and> filter (\<lambda>c. c \<noteq> CHR 0x0A \<and> c \<noteq> CHR 0x0D) (encodeB64 bs) = encodeB64 bs"
proof (induction bs rule: encodeB64.induct)
  case (2 a)
  have v: "unat a * 65536 < 16777216" "unat a * 65536 div 4096 * 4096 = unat a * 65536" using byte_less [of a] by (simp_all add: dvd_div_mult_self)
  then show ?case using group_sextets(2) [OF v(1)] group_bytes_sum(3) [of a] by (simp add: sextets_def mult.commute)
next
  case (3 a b)
  have v: "unat a * 65536 + unat b * 256 < 16777216" "(unat a * 65536 + unat b * 256) div 64 * 64 = unat a * 65536 + unat b * 256" using byte_less [of a] byte_less [of b] by (simp_all add: dvd_div_mult_self)
  then show ?case using group_sextets(3) [OF v(1)] group_bytes_sum(2) [of a b] by (simp add: sextets_def mult.commute)
next
  case (4 a b c rest)
  let ?v = "unat a * 65536 + unat b * 256 + unat c"
  have v: "?v < 16777216" using byte_less [of a] byte_less [of b] byte_less [of c] by simp
  have "encodeB64 (a # b # c # rest) = map b64_chr [?v div 262144, ?v div 4096 mod 64, ?v div 64 mod 64, ?v mod 64] @ encodeB64 rest" by (simp add: sextets_def)
  moreover have "?v div 262144 < 64" using v by simp
  ultimately show ?case using 4 group_sextets(4) [OF v] group_bytes_sum(1) [of a b c] by simp
qed simp

lemma DecodeString_encodeB64 [simp]: "DecodeString (encodeB64 bs) = Ok bs"
  using decode_encode [of bs] by (simp add: DecodeString_def)

lemma encodeB64_Nil [simp]: "encodeB64 bs = [] \<longleftrightarrow> bs = []"
  by (cases bs rule: encodeB64.cases) (auto simp: sextets_def)

section \<open>Requests and responses\<close>

record contract_params_json =
  cp_Scheme :: string
  cp_RingDim :: "32 word"
  cp_ScalingFactor :: f64
  cp_ScalingModSize :: int
  cp_Depth :: "32 word"

definition EffectiveScheme :: "contract_params_json \<Rightarrow> string" where
  "EffectiveScheme p = (if cp_Scheme p = '''' then ''ckks'' else cp_Scheme p)"

record hc_request =
  rq_Op :: string
  rq_Params :: contract_params_json
  rq_BFVParams :: bfv_params
  rq_PrevPublicKey :: string
  rq_JointPublicKey :: string
  rq_OwnPublicKey :: string
  rq_FinalPublicKey :: string
  rq_EvalMultBase :: string
  rq_EvalSumBase :: string
  rq_EvalMultJoined :: string
  rq_Values :: "f64 list"
  rq_IntValues :: "int list"
  rq_Ciphertext :: string
  rq_SecretKeyShare :: string
  rq_Lead :: bool
  rq_Partials :: "string list"
  rq_NSlots :: int
  rq_EvalKeys :: string
  rq_CiphertextA :: string
  rq_CiphertextB :: string
  rq_Scalar :: f64
  rq_Coefficients :: "f64 list"
  rq_PolyLowerBound :: f64
  rq_PolyUpperBound :: f64
  rq_Ciphertexts :: "string list"
  rq_PublicKeys :: "string list"
  rq_EvalMultRound1Shares :: "string list"
  rq_EvalSumRound1Shares :: "string list"
  rq_EvalMultFinalShares :: "string list"
  rq_EvalSumFinalKey :: string

record helper_request = hc_request +
  rq_EvalSumShare :: string
  rq_EvalSumShareA :: string
  rq_EvalSumShareB :: string

record hc_response =
  rs_PublicKey :: string
  rs_SecretKeyShare :: string
  rs_Lead :: "bool option"
  rs_Ciphertext :: string
  rs_Partial :: string
  rs_Values :: "f64 list"
  rs_IntValues :: "int list"
  rs_EvalMultBase :: string
  rs_EvalSumBase :: string
  rs_EvalMultShare :: string
  rs_EvalSumShare :: string
  rs_EvalMultJoined :: string
  rs_EvalMultFinalShare :: string
  rs_EvalSumFinal :: string
  rs_EvalMultFinal :: string
  rs_Ciphertexts :: "string list"
  rs_Version :: string

record helper_response = hc_response +
  rs_EvalSumShareA :: string
  rs_EvalSumShareB :: string

record hc_envelope =
  env_Result :: "hc_response option"
  env_Error :: string

definition no_contract :: contract_params_json where
  "no_contract = \<lparr> cp_Scheme = '''', cp_RingDim = 0, cp_ScalingFactor = Fin 0, cp_ScalingModSize = 0, cp_Depth = 0 \<rparr>"

definition no_bfv :: bfv_params where "no_bfv = \<lparr> bf_RingDim = 0, bf_MultiplicativeDepth = 0, bf_PlaintextModulus = 0, bf_BatchSize = 0 \<rparr>"

definition request_of :: "string \<Rightarrow> contract_params_json \<Rightarrow> bfv_params \<Rightarrow> hc_request" where
  "request_of op ps bps = \<lparr> rq_Op = op, rq_Params = ps, rq_BFVParams = bps, rq_PrevPublicKey = '''', rq_JointPublicKey = '''', rq_OwnPublicKey = '''',
     rq_FinalPublicKey = '''', rq_EvalMultBase = '''', rq_EvalSumBase = '''', rq_EvalMultJoined = '''', rq_Values = [], rq_IntValues = [],
     rq_Ciphertext = '''', rq_SecretKeyShare = '''', rq_Lead = False, rq_Partials = [], rq_NSlots = 0, rq_EvalKeys = '''', rq_CiphertextA = '''',
     rq_CiphertextB = '''', rq_Scalar = Fin 0, rq_Coefficients = [], rq_PolyLowerBound = Fin 0, rq_PolyUpperBound = Fin 0, rq_Ciphertexts = [],
     rq_PublicKeys = [], rq_EvalMultRound1Shares = [], rq_EvalSumRound1Shares = [], rq_EvalMultFinalShares = [], rq_EvalSumFinalKey = '''' \<rparr>"

definition no_response :: helper_response where
  "no_response = \<lparr> rs_PublicKey = '''', rs_SecretKeyShare = '''', rs_Lead = None, rs_Ciphertext = '''', rs_Partial = '''', rs_Values = [], rs_IntValues = [],
     rs_EvalMultBase = '''', rs_EvalSumBase = '''', rs_EvalMultShare = '''', rs_EvalSumShare = '''', rs_EvalMultJoined = '''', rs_EvalMultFinalShare = '''',
     rs_EvalSumFinal = '''', rs_EvalMultFinal = '''', rs_Ciphertexts = [], rs_Version = '''', rs_EvalSumShareA = '''', rs_EvalSumShareB = '''' \<rparr>"

text \<open>\<^verbatim>\<open>encoding/json\<close> refuses NaN and infinities and otherwise keeps every field; an omitted empty field is read back as empty.\<close>

definition json_float :: "f64 \<Rightarrow> bool" where "json_float x \<longleftrightarrow> (case x of Fin _ \<Rightarrow> True | _ \<Rightarrow> False)"

definition json_request :: "hc_request \<Rightarrow> bool" where
  "json_request r \<longleftrightarrow> json_float (cp_ScalingFactor (rq_Params r)) \<and> list_all json_float (rq_Values r) \<and> json_float (rq_Scalar r) \<and>
     list_all json_float (rq_Coefficients r) \<and> json_float (rq_PolyLowerBound r) \<and> json_float (rq_PolyUpperBound r)"

definition wire_request :: "hc_request \<Rightarrow> helper_request option" where
  "wire_request r = (if json_request r then Some (hc_request.extend r (helper_request.fields '''' '''' '''')) else None)"

definition wire_response :: "helper_response \<Rightarrow> hc_response option" where
  "wire_response r = (if list_all json_float (rs_Values r) then Some (hc_response.truncate r) else None)"

end
