(* ===== verification/Helper.thy ===== *)
theory Helper
  imports Helper_Wire
begin

text \<open>
  \<^verbatim>\<open>cmd/openfhe-contract-helper\<close>, the process that runs one bridge operation per request, and \<^verbatim>\<open>pkg/ares/crypto/helperclient\<close>, the client that
  drives it over pipes. The library and its version text are parameters. A helper is alive or it has ended: a Go panic and a response that JSON
  refuses both end it without an answer.
\<close>

section \<open>The helper\<close>

definition toContractParams :: "contract_params_json \<Rightarrow> cgo_params" where
  "toContractParams p =
     (let scalingFactor = (if cp_ScalingFactor p = Fin 0 \<and> cp_ScalingModSize p > 0
                           then (if cp_ScalingModSize p < 1024 then Fin (2 ^ nat (cp_ScalingModSize p)) else FInf False)
                           else cp_ScalingFactor p)
      in \<lparr> cg_RingDim = cp_RingDim p, cg_ScalingFactor = scalingFactor, cg_Depth = cp_Depth p, cg_MinimalRotationKeys = False, cg_ProfileDim = 0,
           cg_PayloadSlotCount = 0, cg_EvalSumOnlyRotationKeys = False \<rparr>)"

definition toBFVContractParams :: "bfv_params \<Rightarrow> bfv_params" where
  "toBFVContractParams p = \<lparr> bf_RingDim = bf_RingDim p, bf_MultiplicativeDepth = bf_MultiplicativeDepth p,
     bf_PlaintextModulus = bf_PlaintextModulus p, bf_BatchSize = bf_BatchSize p \<rparr>"

definition decodeField :: "string \<Rightarrow> string \<Rightarrow> ('o, 'g, bytes) prog" where
  "decodeField field v =
     (if v = '''' then nfail (field @ '' is required'')
      else case DecodeString v of
             Ok bs \<Rightarrow> nret bs | Err e \<Rightarrow> nfail (field @ '' must be base64: '' @ e) | Panic p \<Rightarrow> npanic p)"

fun decode_slice :: "string \<Rightarrow> nat \<Rightarrow> string list \<Rightarrow> ('o, 'g, bytes list) prog" where
  "decode_slice field i [] = nret []"
| "decode_slice field i (v # vs) =
     nbind (decodeField (field @ ''['' @ dec_nat i @ '']'') v) (\<lambda>raw. nbind (decode_slice field (Suc i) vs) (\<lambda>rest. nret (raw # rest)))"

definition decodeB64Slice :: "string \<Rightarrow> string list \<Rightarrow> ('o, 'g, bytes list) prog" where
  "decodeB64Slice field values = decode_slice field 0 values"

definition keyShareResponse :: "key_share \<Rightarrow> helper_response" where
  "keyShareResponse share = no_response\<lparr> rs_PublicKey := encodeB64 (ks_PublicKey share),
     rs_SecretKeyShare := encodeB64 (ks_SecretKeyShare share), rs_Lead := Some (ks_Lead share) \<rparr>"

definition ciphertextResponse :: "bytes \<Rightarrow> helper_response" where "ciphertextResponse ct = no_response\<lparr> rs_Ciphertext := encodeB64 ct \<rparr>"
definition partialResponse :: "bytes \<Rightarrow> helper_response" where "partialResponse p = no_response\<lparr> rs_Partial := encodeB64 p \<rparr>"
definition leadResponse :: "round1 \<Rightarrow> helper_response" where
  "leadResponse r = no_response\<lparr> rs_EvalMultBase := encodeB64 (fst r), rs_EvalSumBase := encodeB64 (snd r) \<rparr>"
definition shareResponse :: "round1 \<Rightarrow> helper_response" where
  "shareResponse r = no_response\<lparr> rs_EvalMultShare := encodeB64 (fst r), rs_EvalSumShare := encodeB64 (snd r) \<rparr>"
definition round2Response :: "bytes \<Rightarrow> helper_response" where "round2Response r = no_response\<lparr> rs_EvalMultFinalShare := encodeB64 r \<rparr>"
definition joinedResponse :: "round1 \<Rightarrow> helper_response" where
  "joinedResponse r = no_response\<lparr> rs_EvalMultJoined := encodeB64 (fst r), rs_EvalSumFinal := encodeB64 (snd r) \<rparr>"
definition finalResponse :: "eval_key_final \<Rightarrow> helper_response" where
  "finalResponse k = no_response\<lparr> rs_EvalMultFinal := encodeB64 (ek_EvalMultFinal k), rs_EvalSumFinal := encodeB64 (ek_EvalSumFinal k) \<rparr>"

definition nmap :: "('a \<Rightarrow> 'b) \<Rightarrow> ('o, 'g, 'a) prog \<Rightarrow> ('o, 'g, 'b) prog" where "nmap f m = nbind m (\<lambda>a. nret (f a))"

definition run_secret :: "helper_request \<Rightarrow> (bytes \<Rightarrow> ('o, 'g, 'a) prog) \<Rightarrow> ('o, 'g, 'a) prog" where
  "run_secret req k = nbind (decodeField ''secret_key_share'' (rq_SecretKeyShare req)) k"

definition run_round1_participant :: "helper_request \<Rightarrow> (bytes \<Rightarrow> bytes \<Rightarrow> bytes \<Rightarrow> bytes \<Rightarrow> ('o, 'g, round1) prog) \<Rightarrow> ('o, 'g, helper_response) prog" where
  "run_round1_participant req f =
     run_secret req (\<lambda>sk.
     nbind (decodeField ''eval_mult_base'' (rq_EvalMultBase req)) (\<lambda>multBase.
     nbind (decodeField ''eval_sum_base'' (rq_EvalSumBase req)) (\<lambda>sumBase.
     nbind (decodeField ''own_public_key'' (rq_OwnPublicKey req)) (\<lambda>ownPK. nmap shareResponse (f sk multBase sumBase ownPK)))))"

definition run_round2_participant :: "helper_request \<Rightarrow> (bytes \<Rightarrow> bytes \<Rightarrow> bytes \<Rightarrow> bool \<Rightarrow> ('o, 'g, bytes) prog) \<Rightarrow> ('o, 'g, helper_response) prog" where
  "run_round2_participant req f =
     run_secret req (\<lambda>sk.
     nbind (decodeField ''eval_mult_joined'' (rq_EvalMultJoined req)) (\<lambda>joined.
     nbind (decodeField ''final_public_key'' (rq_FinalPublicKey req)) (\<lambda>finalPK. nmap round2Response (f sk joined finalPK (rq_Lead req)))))"

definition run_partial :: "helper_request \<Rightarrow> (bytes \<Rightarrow> bytes \<Rightarrow> bool \<Rightarrow> ('o, 'g, bytes) prog) \<Rightarrow> ('o, 'g, helper_response) prog" where
  "run_partial req f =
     nbind (decodeField ''ciphertext'' (rq_Ciphertext req)) (\<lambda>ct. run_secret req (\<lambda>sk. nmap partialResponse (f ct sk (rq_Lead req))))"

definition run_combine1 :: "helper_request \<Rightarrow> (bytes list \<Rightarrow> bytes list \<Rightarrow> bytes list \<Rightarrow> ('o, 'g, round1) prog) \<Rightarrow> ('o, 'g, helper_response) prog" where
  "run_combine1 req f =
     nbind (decodeB64Slice ''public_keys'' (rq_PublicKeys req)) (\<lambda>pks.
     nbind (decodeB64Slice ''eval_mult_round1_shares'' (rq_EvalMultRound1Shares req)) (\<lambda>multShares.
     nbind (decodeB64Slice ''eval_sum_round1_shares'' (rq_EvalSumRound1Shares req)) (\<lambda>sumShares. nmap joinedResponse (f pks multShares sumShares))))"

definition run_combine2 :: "helper_request \<Rightarrow> (bytes \<Rightarrow> bytes list \<Rightarrow> bytes \<Rightarrow> ('o, 'g, eval_key_final) prog) \<Rightarrow> ('o, 'g, helper_response) prog" where
  "run_combine2 req f =
     nbind (decodeField ''final_public_key'' (rq_FinalPublicKey req)) (\<lambda>finalPK.
     nbind (decodeB64Slice ''eval_mult_final_shares'' (rq_EvalMultFinalShares req)) (\<lambda>finalShares.
     nbind (decodeField ''eval_sum_final_key'' (rq_EvalSumFinalKey req)) (\<lambda>sumFinal. nmap finalResponse (f finalPK finalShares sumFinal))))"

definition runEvalBinary :: "helper_request \<Rightarrow> cgo_params \<Rightarrow> (cgo_params \<Rightarrow> bytes \<Rightarrow> bytes \<Rightarrow> ('o, 'g, bytes) prog) \<Rightarrow> ('o, 'g, helper_response) prog" where
  "runEvalBinary req params fn =
     nbind (decodeField ''ciphertext_a'' (rq_CiphertextA req)) (\<lambda>ctA.
     nbind (decodeField ''ciphertext_b'' (rq_CiphertextB req)) (\<lambda>ctB. nmap ciphertextResponse (fn params ctA ctB)))"

definition run_product_sum :: "helper_request \<Rightarrow> (eval_key_final \<Rightarrow> bytes \<Rightarrow> bytes \<Rightarrow> int \<Rightarrow> ('o, 'g, bytes) prog) \<Rightarrow> ('o, 'g, helper_response) prog" where
  "run_product_sum req f =
     nbind (decodeField ''eval_keys'' (rq_EvalKeys req)) (\<lambda>evalMult.
     nbind (decodeField ''eval_sum_final_key'' (rq_EvalSumFinalKey req)) (\<lambda>evalSum.
     nbind (decodeField ''ciphertext_a'' (rq_CiphertextA req)) (\<lambda>ctA.
     nbind (decodeField ''ciphertext_b'' (rq_CiphertextB req)) (\<lambda>ctB.
       nmap ciphertextResponse (f \<lparr> ek_EvalMultFinal = evalMult, ek_EvalSumFinal = evalSum \<rparr> ctA ctB (rq_NSlots req))))))"

definition run_poly :: "helper_request \<Rightarrow> (bytes \<Rightarrow> bytes \<Rightarrow> f64 list \<Rightarrow> ('o, 'g, bytes) prog) \<Rightarrow> ('o, 'g, helper_response) prog" where
  "run_poly req f =
     nbind (decodeField ''eval_keys'' (rq_EvalKeys req)) (\<lambda>evalKeys.
     nbind (decodeField ''ciphertext'' (rq_Ciphertext req)) (\<lambda>ct.
       if rq_Coefficients req = [] then nfail ''eval_poly requires coefficients''
       else nmap ciphertextResponse (f evalKeys ct (rq_Coefficients req))))"

definition run_argmax :: "helper_request \<Rightarrow> (bytes \<Rightarrow> bytes list \<Rightarrow> f64 list \<Rightarrow> ('o, 'g, bytes list) prog) \<Rightarrow> ('o, 'g, helper_response) prog" where
  "run_argmax req f =
     nbind (decodeField ''eval_keys'' (rq_EvalKeys req)) (\<lambda>evalKey.
       if length (rq_Ciphertexts req) < 2 then nfail ''argmax requires at least 2 ciphertexts''
       else nbind (decodeB64Slice ''ciphertexts'' (rq_Ciphertexts req)) (\<lambda>cts.
              if length (rq_Coefficients req) < 2 then nfail ''argmax requires sharpening coefficients (>= 2)''
              else nmap (\<lambda>masks. no_response\<lparr> rs_Ciphertexts := map encodeB64 masks \<rparr>) (f evalKey cts (rq_Coefficients req))))"

text \<open>\<^verbatim>\<open>%q\<close> on ASCII text; other bytes are kept, as for printable UTF-8.\<close>

definition hex_digit :: "nat \<Rightarrow> char" where "hex_digit n = ''0123456789abcdef'' ! n"

definition escaped :: "char \<Rightarrow> string" where
  "escaped c =
     (let n = (of_char c :: nat)
      in if n = 34 \<or> n = 92 then [CHR 0x5C, c]
         else if 7 \<le> n \<and> n \<le> 13 then [CHR 0x5C, ''abtnvfr'' ! (n - 7)]
         else if n < 32 \<or> n = 127 then [CHR 0x5C, CHR ''x'', hex_digit (n div 16), hex_digit (n mod 16)]
         else [c])"

definition quoted :: "string \<Rightarrow> string" where "quoted s = [CHR 0x22] @ concat (map escaped s) @ [CHR 0x22]"

definition run :: "('o, 'g) openfhe \<Rightarrow> string \<Rightarrow> helper_request \<Rightarrow> ('o, 'g, helper_response) prog" where
  "run L version req =
     (let params = toContractParams (rq_Params req); bfv = toBFVContractParams (rq_BFVParams req); op = rq_Op req
      in if op = ''version'' then nret (no_response\<lparr> rs_Version := version \<rparr>)
         else if op = ''keygen_first'' then nmap keyShareResponse (DistributedKeyGenFirst L params)
         else if op = ''keygen_next''
         then nbind (decodeField ''prev_public_key'' (rq_PrevPublicKey req)) (\<lambda>prev. nmap keyShareResponse (DistributedKeyGenNext L params prev))
         else if op = ''bfv_keygen_first'' then nmap keyShareResponse (BFVDistributedKeyGenFirst L bfv)
         else if op = ''bfv_keygen_next''
         then nbind (decodeField ''prev_public_key'' (rq_PrevPublicKey req)) (\<lambda>prev. nmap keyShareResponse (BFVDistributedKeyGenNext L bfv prev))
         else if op = ''encrypt_profile''
         then nbind (decodeField ''joint_public_key'' (rq_JointPublicKey req)) (\<lambda>joint. nmap ciphertextResponse (EncryptCKKSForContract L params joint (rq_Values req)))
         else if op = ''bfv_encrypt_int_vector''
         then nbind (decodeField ''joint_public_key'' (rq_JointPublicKey req)) (\<lambda>joint. nmap ciphertextResponse (EncryptBFVForContract L bfv joint (rq_IntValues req)))
         else if op = ''evalkey_round1_lead'' then run_secret req (\<lambda>sk. nmap leadResponse (EvalKeyRound1Lead L params sk))
         else if op = ''bfv_evalkey_round1_lead'' then run_secret req (\<lambda>sk. nmap leadResponse (BFVEvalKeyRound1Lead L bfv sk))
         else if op = ''evalkey_round1_participant'' then run_round1_participant req (EvalKeyRound1Participant L params)
         else if op = ''bfv_evalkey_round1_participant'' then run_round1_participant req (BFVEvalKeyRound1Participant L bfv)
         else if op = ''evalkey_round2_participant'' then run_round2_participant req (EvalKeyRound2Participant L params)
         else if op = ''bfv_evalkey_round2_participant'' then run_round2_participant req (BFVEvalKeyRound2Participant L bfv)
         else if op = ''partial_decrypt'' then run_partial req (PartialDecryptCKKSForContract L params)
         else if op = ''bfv_partial_decrypt'' then run_partial req (PartialDecryptBFVForContract L bfv)
         else if op = ''combine_evalkey_round1'' then run_combine1 req (CombineEvalKeyRound1 L params)
         else if op = ''bfv_combine_evalkey_round1'' then run_combine1 req (BFVCombineEvalKeyRound1 L bfv)
         else if op = ''combine_evalkey_round2'' then run_combine2 req (CombineEvalKeyRound2 L params)
         else if op = ''bfv_combine_evalkey_round2'' then run_combine2 req (BFVCombineEvalKeyRound2 L bfv)
         else if op = ''split_rot_share''
         then nbind (decodeField ''eval_sum_share'' (rq_EvalSumShare req)) (\<lambda>full.
              nmap (\<lambda>(a, b). no_response\<lparr> rs_EvalSumShareA := encodeB64 a, rs_EvalSumShareB := encodeB64 b \<rparr>) (SplitRotShareAB L params full))
         else if op = ''reconstruct_rot_share''
         then nbind (decodeField ''eval_sum_share_a'' (rq_EvalSumShareA req)) (\<lambda>a.
              nbind (decodeField ''eval_sum_share_b'' (rq_EvalSumShareB req)) (\<lambda>b.
              nmap (\<lambda>full. no_response\<lparr> rs_EvalSumShare := encodeB64 full \<rparr>) (ReconstructRotShareAB L params a b)))
         else if op = ''fuse_partials''
         then nbind (decodeB64Slice ''partials'' (rq_Partials req)) (\<lambda>partials.
              nmap (\<lambda>vs. no_response\<lparr> rs_Values := vs \<rparr>) (FuseCKKSPartialsForContract L params partials (rq_NSlots req)))
         else if op = ''bfv_fuse_partials_int''
         then nbind (decodeB64Slice ''partials'' (rq_Partials req)) (\<lambda>partials.
              nmap (\<lambda>vs. no_response\<lparr> rs_IntValues := vs \<rparr>) (FuseBFVPartialsForContract L bfv partials (rq_NSlots req)))
         else if op = ''bfv_eval_product_sum'' then run_product_sum req (EvalProductSumBFVForContract L bfv)
         else if op = ''eval_poly'' then run_poly req (EvalPolyCKKSForContract L params)
         else if op = ''eval_add'' then runEvalBinary req params (EvalAddCKKSForContract L)
         else if op = ''eval_sub'' then runEvalBinary req params (EvalSubCKKSForContract L)
         else if op = ''eval_mult''
         then nbind (decodeField ''ciphertext_a'' (rq_CiphertextA req)) (\<lambda>ctA.
              nbind (decodeField ''ciphertext_b'' (rq_CiphertextB req)) (\<lambda>ctB.
              nbind (decodeField ''eval_keys'' (rq_EvalKeys req)) (\<lambda>evalKey. nmap ciphertextResponse (EvalMultCKKSForContract L params evalKey ctA ctB))))
         else if op = ''eval_const_mult''
         then nbind (decodeField ''ciphertext'' (rq_Ciphertext req)) (\<lambda>ct. nmap ciphertextResponse (EvalConstMultCKKSForContract L params ct (rq_Scalar req)))
         else if op = ''argmax'' then run_argmax req (EvalArgmaxCKKSForContract L params)
         else nfail (''unsupported op '' @ quoted op))"

text \<open>One turn of \<^verbatim>\<open>runDaemon\<close>: the envelope, or none when the process ends without one.\<close>

definition daemon_turn :: "('o, 'g) openfhe \<Rightarrow> string \<Rightarrow> helper_request \<Rightarrow> ('o, 'g) native \<Rightarrow> (hc_envelope option \<times> ('o, 'g) native) option" where
  "daemon_turn L version req s =
     (case run L version req s of
        None \<Rightarrow> None
      | Some (Ok res, s') \<Rightarrow> Some (map_option (\<lambda>r. \<lparr> env_Result = Some r, env_Error = '''' \<rparr>) (wire_response res), s')
      | Some (Err e, s') \<Rightarrow> Some (Some \<lparr> env_Result = None, env_Error = e \<rparr>, s')
      | Some (Panic p, s') \<Rightarrow> Some (None, s'))"

fun runDaemon :: "('o, 'g) openfhe \<Rightarrow> string \<Rightarrow> helper_request list \<Rightarrow> ('o, 'g) native \<Rightarrow> (hc_envelope list \<times> ('o, 'g) native) option" where
  "runDaemon L version [] s = Some ([], s)"
| "runDaemon L version (req # reqs) s =
     (case daemon_turn L version req s of
        None \<Rightarrow> None
      | Some (None, s') \<Rightarrow> Some ([], s')
      | Some (Some env, s') \<Rightarrow> map_option (apfst (Cons env)) (runDaemon L version reqs s'))"

section \<open>The client\<close>

datatype call_error =
  ClientClosed
| EncodeFailed string
| DecodeFailed string
| HelperError string string
| EmptyEnvelope string
| BadBase64 string
| BadCount string int
| ExitStatus
| StartFailed
| Wrapped string call_error

record ('o, 'g) hc_client =
  cl_done :: bool
  cl_alive :: bool
  cl_native :: "('o, 'g) native"

type_synonym ('o, 'g, 'a) cprog = "('o, 'g) hc_client \<Rightarrow> ((call_error, 'a) outcome \<times> ('o, 'g) hc_client) option"

definition cret :: "'a \<Rightarrow> ('o, 'g, 'a) cprog" where "cret a c = Some (Ok a, c)"
definition cfail :: "call_error \<Rightarrow> ('o, 'g, 'a) cprog" where "cfail e c = Some (Err e, c)"
definition cbind :: "('o, 'g, 'a) cprog \<Rightarrow> ('a \<Rightarrow> ('o, 'g, 'b) cprog) \<Rightarrow> ('o, 'g, 'b) cprog" where
  "cbind m k c =
     (case m c of
        None \<Rightarrow> None
      | Some (Ok a, c') \<Rightarrow> k a c'
      | Some (Err e, c') \<Rightarrow> Some (Err e, c')
      | Some (Panic p, c') \<Rightarrow> Some (Panic p, c'))"

definition wrapped :: "string \<Rightarrow> ('o, 'g, 'a) cprog \<Rightarrow> ('o, 'g, 'a) cprog" where
  "wrapped lbl m c = (case m c of Some (Err e, c') \<Rightarrow> Some (Err (Wrapped lbl e), c') | r \<Rightarrow> r)"

text \<open>Writing to a helper that has ended fails, and so does reading the answer of one that ends without giving one.\<close>

definition call :: "('o, 'g) openfhe \<Rightarrow> string \<Rightarrow> hc_request \<Rightarrow> ('o, 'g, hc_response) cprog" where
  "call L version req c =
     (if cl_done c then Some (Err ClientClosed, c)
      else case wire_request req of
             None \<Rightarrow> Some (Err (EncodeFailed (rq_Op req)), c)
           | Some hreq \<Rightarrow>
               if \<not> cl_alive c then Some (Err (EncodeFailed (rq_Op req)), c)
               else (case daemon_turn L version hreq (cl_native c) of
                       None \<Rightarrow> None
                     | Some (None, s') \<Rightarrow> Some (Err (DecodeFailed (rq_Op req)), c\<lparr> cl_alive := False, cl_native := s' \<rparr>)
                     | Some (Some env, s') \<Rightarrow>
                         Some (if env_Error env \<noteq> '''' then Err (HelperError (rq_Op req) (env_Error env))
                               else (case env_Result env of None \<Rightarrow> Err (EmptyEnvelope (rq_Op req)) | Some r \<Rightarrow> Ok r), c\<lparr> cl_native := s' \<rparr>)))"

definition hc_Close :: "('o, 'g, unit) cprog" where
  "hc_Close c = (if cl_done c then Some (Ok (), c) else Some (if cl_alive c then Ok () else Err ExitStatus, c\<lparr> cl_done := True, cl_alive := False \<rparr>))"

definition decodeB64 :: "string \<Rightarrow> ('o, 'g, bytes) cprog" where
  "decodeB64 s = (if s = '''' then cret [] else case DecodeString s of Ok bs \<Rightarrow> cret bs | Err e \<Rightarrow> cfail (BadBase64 e) | Panic p \<Rightarrow> cfail (BadBase64 p))"

definition decode_pair :: "string \<Rightarrow> string \<Rightarrow> ('o, 'g, bytes \<times> bytes) cprog" where
  "decode_pair a b = cbind (decodeB64 a) (\<lambda>x. cbind (decodeB64 b) (\<lambda>y. cret (x, y)))"

fun decode_all :: "string list \<Rightarrow> ('o, 'g, bytes list) cprog" where
  "decode_all [] = cret []"
| "decode_all (s # ss) = cbind (decodeB64 s) (\<lambda>raw. cbind (decode_all ss) (\<lambda>rest. cret (raw # rest)))"

definition decodeKeyShare :: "hc_response \<Rightarrow> ('o, 'g, key_share) cprog" where
  "decodeKeyShare resp =
     cbind (decode_pair (rs_PublicKey resp) (rs_SecretKeyShare resp)) (\<lambda>(pk, sk).
     cret \<lparr> ks_PublicKey = pk, ks_SecretKeyShare = sk, ks_Lead = (case rs_Lead resp of None \<Rightarrow> False | Some lead \<Rightarrow> lead) \<rparr>)"

section \<open>Operations\<close>

definition hc_Version :: "('o, 'g) openfhe \<Rightarrow> string \<Rightarrow> ('o, 'g, string) cprog" where
  "hc_Version L v = cbind (call L v (request_of ''version'' no_contract no_bfv)) (\<lambda>res. cret (rs_Version res))"

text \<open>\<open>launched\<close> is the state of the new process, if it could be started. A version that is not supported is only reported.\<close>

definition hc_Start :: "('o, 'g) openfhe \<Rightarrow> string \<Rightarrow> ('o, 'g) native option \<Rightarrow> (call_error, ('o, 'g) hc_client) outcome option" where
  "hc_Start L v launched =
     (case launched of
        None \<Rightarrow> Some (Err StartFailed)
      | Some s \<Rightarrow> map_option (\<lambda>(_, c). Ok c) (hc_Version L v \<lparr> cl_done = False, cl_alive = True, cl_native = s \<rparr>))"

definition KeygenFirst :: "('o, 'g) openfhe \<Rightarrow> string \<Rightarrow> contract_params_json \<Rightarrow> ('o, 'g, key_share) cprog" where
  "KeygenFirst L v params = cbind (call L v (request_of ''keygen_first'' params no_bfv)) decodeKeyShare"
definition KeygenNext :: "('o, 'g) openfhe \<Rightarrow> string \<Rightarrow> contract_params_json \<Rightarrow> bytes \<Rightarrow> ('o, 'g, key_share) cprog" where
  "KeygenNext L v params prev =
     cbind (call L v ((request_of ''keygen_next'' params no_bfv)\<lparr> rq_PrevPublicKey := encodeB64 prev \<rparr>)) decodeKeyShare"
definition EncryptProfile :: "('o, 'g) openfhe \<Rightarrow> string \<Rightarrow> contract_params_json \<Rightarrow> bytes \<Rightarrow> f64 list \<Rightarrow> ('o, 'g, bytes) cprog" where
  "EncryptProfile L v params joint values =
     cbind (call L v ((request_of ''encrypt_profile'' params no_bfv)\<lparr> rq_JointPublicKey := encodeB64 joint, rq_Values := values \<rparr>))
       (\<lambda>resp. decodeB64 (rs_Ciphertext resp))"
definition hc_EvalKeyRound1Lead :: "('o, 'g) openfhe \<Rightarrow> string \<Rightarrow> contract_params_json \<Rightarrow> bytes \<Rightarrow> ('o, 'g, round1) cprog" where
  "hc_EvalKeyRound1Lead L v params sk =
     cbind (call L v ((request_of ''evalkey_round1_lead'' params no_bfv)\<lparr> rq_SecretKeyShare := encodeB64 sk \<rparr>))
       (\<lambda>resp. decode_pair (rs_EvalMultBase resp) (rs_EvalSumBase resp))"
definition hc_EvalKeyRound1Participant ::
  "('o, 'g) openfhe \<Rightarrow> string \<Rightarrow> contract_params_json \<Rightarrow> bytes \<Rightarrow> bytes \<Rightarrow> bytes \<Rightarrow> bytes \<Rightarrow> ('o, 'g, round1) cprog" where
  "hc_EvalKeyRound1Participant L v params sk multBase sumBase pk =
     cbind (call L v ((request_of ''evalkey_round1_participant'' params no_bfv)\<lparr> rq_SecretKeyShare := encodeB64 sk,
              rq_EvalMultBase := encodeB64 multBase, rq_EvalSumBase := encodeB64 sumBase, rq_OwnPublicKey := encodeB64 pk \<rparr>))
       (\<lambda>resp. decode_pair (rs_EvalMultShare resp) (rs_EvalSumShare resp))"
definition hc_EvalKeyRound2Participant ::
  "('o, 'g) openfhe \<Rightarrow> string \<Rightarrow> contract_params_json \<Rightarrow> bytes \<Rightarrow> bytes \<Rightarrow> bytes \<Rightarrow> bool \<Rightarrow> ('o, 'g, bytes) cprog" where
  "hc_EvalKeyRound2Participant L v params sk joined pk lead =
     cbind (call L v ((request_of ''evalkey_round2_participant'' params no_bfv)\<lparr> rq_SecretKeyShare := encodeB64 sk,
              rq_EvalMultJoined := encodeB64 joined, rq_FinalPublicKey := encodeB64 pk, rq_Lead := lead \<rparr>))
       (\<lambda>resp. decodeB64 (rs_EvalMultFinalShare resp))"
definition PartialDecrypt :: "('o, 'g) openfhe \<Rightarrow> string \<Rightarrow> contract_params_json \<Rightarrow> bytes \<Rightarrow> bytes \<Rightarrow> bool \<Rightarrow> ('o, 'g, bytes) cprog" where
  "PartialDecrypt L v params ct sk lead =
     cbind (call L v ((request_of ''partial_decrypt'' params no_bfv)\<lparr> rq_Ciphertext := encodeB64 ct, rq_SecretKeyShare := encodeB64 sk, rq_Lead := lead \<rparr>))
       (\<lambda>resp. decodeB64 (rs_Partial resp))"
definition hc_CombineEvalKeyRound1 ::
  "('o, 'g) openfhe \<Rightarrow> string \<Rightarrow> contract_params_json \<Rightarrow> bytes list \<Rightarrow> bytes list \<Rightarrow> bytes list \<Rightarrow> ('o, 'g, round1) cprog" where
  "hc_CombineEvalKeyRound1 L v params pks multShares sumShares =
     cbind (call L v ((request_of ''combine_evalkey_round1'' params no_bfv)\<lparr> rq_PublicKeys := map encodeB64 pks,
              rq_EvalMultRound1Shares := map encodeB64 multShares, rq_EvalSumRound1Shares := map encodeB64 sumShares \<rparr>))
       (\<lambda>resp. decode_pair (rs_EvalMultJoined resp) (rs_EvalSumFinal resp))"
definition hc_CombineEvalKeyRound2 ::
  "('o, 'g) openfhe \<Rightarrow> string \<Rightarrow> contract_params_json \<Rightarrow> bytes \<Rightarrow> bytes list \<Rightarrow> bytes \<Rightarrow> ('o, 'g, bytes) cprog" where
  "hc_CombineEvalKeyRound2 L v params pk shares sumFinal =
     cbind (call L v ((request_of ''combine_evalkey_round2'' params no_bfv)\<lparr> rq_FinalPublicKey := encodeB64 pk,
              rq_EvalMultFinalShares := map encodeB64 shares, rq_EvalSumFinalKey := encodeB64 sumFinal \<rparr>))
       (\<lambda>resp. decodeB64 (rs_EvalMultFinal resp))"
definition FusePartials :: "('o, 'g) openfhe \<Rightarrow> string \<Rightarrow> contract_params_json \<Rightarrow> bytes list \<Rightarrow> int \<Rightarrow> ('o, 'g, f64 list) cprog" where
  "FusePartials L v params partials nSlots =
     cbind (call L v ((request_of ''fuse_partials'' params no_bfv)\<lparr> rq_Partials := map encodeB64 partials, rq_NSlots := nSlots \<rparr>))
       (\<lambda>resp. cret (rs_Values resp))"

text \<open>The scoring primitives; \<^verbatim>\<open>EvalPolyParams\<close> are the coefficients and the bounds of the domain.\<close>

record poly_params =
  po_Coefficients :: "f64 list"
  po_LowerBound :: f64
  po_UpperBound :: f64

definition binary_request :: "string \<Rightarrow> contract_params_json \<Rightarrow> bytes \<Rightarrow> bytes \<Rightarrow> bytes \<Rightarrow> hc_request" where
  "binary_request op params evalKeys ctA ctB =
     (request_of op params no_bfv)\<lparr> rq_EvalKeys := encodeB64 evalKeys, rq_CiphertextA := encodeB64 ctA, rq_CiphertextB := encodeB64 ctB \<rparr>"

definition hc_EvalAdd :: "('o, 'g) openfhe \<Rightarrow> string \<Rightarrow> contract_params_json \<Rightarrow> bytes \<Rightarrow> bytes \<Rightarrow> bytes \<Rightarrow> ('o, 'g, bytes) cprog" where
  "hc_EvalAdd L v params evalKeys ctA ctB = cbind (call L v (binary_request ''eval_add'' params evalKeys ctA ctB)) (\<lambda>resp. decodeB64 (rs_Ciphertext resp))"
definition hc_EvalSub :: "('o, 'g) openfhe \<Rightarrow> string \<Rightarrow> contract_params_json \<Rightarrow> bytes \<Rightarrow> bytes \<Rightarrow> bytes \<Rightarrow> ('o, 'g, bytes) cprog" where
  "hc_EvalSub L v params evalKeys ctA ctB = cbind (call L v (binary_request ''eval_sub'' params evalKeys ctA ctB)) (\<lambda>resp. decodeB64 (rs_Ciphertext resp))"
definition hc_EvalMult :: "('o, 'g) openfhe \<Rightarrow> string \<Rightarrow> contract_params_json \<Rightarrow> bytes \<Rightarrow> bytes \<Rightarrow> bytes \<Rightarrow> ('o, 'g, bytes) cprog" where
  "hc_EvalMult L v params evalKeys ctA ctB = cbind (call L v (binary_request ''eval_mult'' params evalKeys ctA ctB)) (\<lambda>resp. decodeB64 (rs_Ciphertext resp))"
definition hc_EvalConstMult :: "('o, 'g) openfhe \<Rightarrow> string \<Rightarrow> contract_params_json \<Rightarrow> bytes \<Rightarrow> f64 \<Rightarrow> ('o, 'g, bytes) cprog" where
  "hc_EvalConstMult L v params ct scalar =
     cbind (call L v ((request_of ''eval_const_mult'' params no_bfv)\<lparr> rq_Ciphertext := encodeB64 ct, rq_Scalar := scalar \<rparr>)) (\<lambda>resp. decodeB64 (rs_Ciphertext resp))"
definition hc_EvalPoly :: "('o, 'g) openfhe \<Rightarrow> string \<Rightarrow> contract_params_json \<Rightarrow> bytes \<Rightarrow> bytes \<Rightarrow> poly_params \<Rightarrow> ('o, 'g, bytes) cprog" where
  "hc_EvalPoly L v params evalKeys ct poly =
     cbind (call L v ((request_of ''eval_poly'' params no_bfv)\<lparr> rq_EvalKeys := encodeB64 evalKeys, rq_Ciphertext := encodeB64 ct,
              rq_Coefficients := po_Coefficients poly, rq_PolyLowerBound := po_LowerBound poly, rq_PolyUpperBound := po_UpperBound poly \<rparr>))
       (\<lambda>resp. decodeB64 (rs_Ciphertext resp))"
definition Argmax :: "('o, 'g) openfhe \<Rightarrow> string \<Rightarrow> contract_params_json \<Rightarrow> bytes \<Rightarrow> bytes list \<Rightarrow> poly_params \<Rightarrow> ('o, 'g, bytes list) cprog" where
  "Argmax L v params evalKeys cts poly =
     cbind (call L v ((request_of ''argmax'' params no_bfv)\<lparr> rq_EvalKeys := encodeB64 evalKeys, rq_Ciphertexts := map encodeB64 cts,
              rq_Coefficients := po_Coefficients poly, rq_PolyLowerBound := po_LowerBound poly, rq_PolyUpperBound := po_UpperBound poly \<rparr>))
       (\<lambda>resp. decode_all (rs_Ciphertexts resp))"

definition SharpenSignDegree3 :: poly_params where
  "SharpenSignDegree3 = \<lparr> po_Coefficients = [Fin 0, Fin (15 / 10), Fin 0, Fin (- 5 / 10)], po_LowerBound = Fin (- 1), po_UpperBound = Fin 1 \<rparr>"
definition SharpenSignDegree9 :: poly_params where
  "SharpenSignDegree9 = \<lparr> po_Coefficients = [Fin 0, Fin (315 / 128), Fin 0, Fin (- 105 / 32), Fin 0, Fin (189 / 64), Fin 0, Fin (- 45 / 32), Fin 0, Fin (35 / 128)],
     po_LowerBound = Fin (- 1), po_UpperBound = Fin 1 \<rparr>"
definition SharpenChebyshev :: "f64 \<Rightarrow> f64 \<Rightarrow> int \<Rightarrow> poly_params" where
  "SharpenChebyshev low high degree = \<lparr> po_Coefficients = [], po_LowerBound = low, po_UpperBound = high \<rparr>"

section \<open>Operations for BFV\<close>

definition BFVKeygenFirst :: "('o, 'g) openfhe \<Rightarrow> string \<Rightarrow> bfv_params \<Rightarrow> ('o, 'g, key_share) cprog" where
  "BFVKeygenFirst L v params = cbind (call L v (request_of ''bfv_keygen_first'' no_contract params)) decodeKeyShare"
definition BFVKeygenNext :: "('o, 'g) openfhe \<Rightarrow> string \<Rightarrow> bfv_params \<Rightarrow> bytes \<Rightarrow> ('o, 'g, key_share) cprog" where
  "BFVKeygenNext L v params prev =
     cbind (call L v ((request_of ''bfv_keygen_next'' no_contract params)\<lparr> rq_PrevPublicKey := encodeB64 prev \<rparr>)) decodeKeyShare"
definition BFVEncryptIntVector :: "('o, 'g) openfhe \<Rightarrow> string \<Rightarrow> bfv_params \<Rightarrow> bytes \<Rightarrow> int list \<Rightarrow> ('o, 'g, bytes) cprog" where
  "BFVEncryptIntVector L v params joint values =
     cbind (call L v ((request_of ''bfv_encrypt_int_vector'' no_contract params)\<lparr> rq_JointPublicKey := encodeB64 joint, rq_IntValues := values \<rparr>))
       (\<lambda>resp. decodeB64 (rs_Ciphertext resp))"
definition hc_BFVEvalKeyRound1Lead :: "('o, 'g) openfhe \<Rightarrow> string \<Rightarrow> bfv_params \<Rightarrow> bytes \<Rightarrow> ('o, 'g, round1) cprog" where
  "hc_BFVEvalKeyRound1Lead L v params sk =
     cbind (call L v ((request_of ''bfv_evalkey_round1_lead'' no_contract params)\<lparr> rq_SecretKeyShare := encodeB64 sk \<rparr>))
       (\<lambda>resp. decode_pair (rs_EvalMultBase resp) (rs_EvalSumBase resp))"
definition hc_BFVEvalKeyRound1Participant ::
  "('o, 'g) openfhe \<Rightarrow> string \<Rightarrow> bfv_params \<Rightarrow> bytes \<Rightarrow> bytes \<Rightarrow> bytes \<Rightarrow> bytes \<Rightarrow> ('o, 'g, round1) cprog" where
  "hc_BFVEvalKeyRound1Participant L v params sk multBase sumBase pk =
     cbind (call L v ((request_of ''bfv_evalkey_round1_participant'' no_contract params)\<lparr> rq_SecretKeyShare := encodeB64 sk,
              rq_EvalMultBase := encodeB64 multBase, rq_EvalSumBase := encodeB64 sumBase, rq_OwnPublicKey := encodeB64 pk \<rparr>))
       (\<lambda>resp. decode_pair (rs_EvalMultShare resp) (rs_EvalSumShare resp))"
definition hc_BFVCombineEvalKeyRound1 ::
  "('o, 'g) openfhe \<Rightarrow> string \<Rightarrow> bfv_params \<Rightarrow> bytes list \<Rightarrow> bytes list \<Rightarrow> bytes list \<Rightarrow> ('o, 'g, round1) cprog" where
  "hc_BFVCombineEvalKeyRound1 L v params pks multShares sumShares =
     cbind (call L v ((request_of ''bfv_combine_evalkey_round1'' no_contract params)\<lparr> rq_PublicKeys := map encodeB64 pks,
              rq_EvalMultRound1Shares := map encodeB64 multShares, rq_EvalSumRound1Shares := map encodeB64 sumShares \<rparr>))
       (\<lambda>resp. decode_pair (rs_EvalMultJoined resp) (rs_EvalSumFinal resp))"
definition hc_BFVEvalKeyRound2Participant ::
  "('o, 'g) openfhe \<Rightarrow> string \<Rightarrow> bfv_params \<Rightarrow> bytes \<Rightarrow> bytes \<Rightarrow> bytes \<Rightarrow> bool \<Rightarrow> ('o, 'g, bytes) cprog" where
  "hc_BFVEvalKeyRound2Participant L v params sk joined pk lead =
     cbind (call L v ((request_of ''bfv_evalkey_round2_participant'' no_contract params)\<lparr> rq_SecretKeyShare := encodeB64 sk,
              rq_EvalMultJoined := encodeB64 joined, rq_FinalPublicKey := encodeB64 pk, rq_Lead := lead \<rparr>))
       (\<lambda>resp. decodeB64 (rs_EvalMultFinalShare resp))"
definition hc_BFVCombineEvalKeyRound2 ::
  "('o, 'g) openfhe \<Rightarrow> string \<Rightarrow> bfv_params \<Rightarrow> bytes \<Rightarrow> bytes list \<Rightarrow> bytes \<Rightarrow> ('o, 'g, bytes) cprog" where
  "hc_BFVCombineEvalKeyRound2 L v params pk shares sumFinal =
     cbind (call L v ((request_of ''bfv_combine_evalkey_round2'' no_contract params)\<lparr> rq_FinalPublicKey := encodeB64 pk,
              rq_EvalMultFinalShares := map encodeB64 shares, rq_EvalSumFinalKey := encodeB64 sumFinal \<rparr>))
       (\<lambda>resp. decodeB64 (rs_EvalMultFinal resp))"
definition BFVEvalProductSum ::
  "('o, 'g) openfhe \<Rightarrow> string \<Rightarrow> bfv_params \<Rightarrow> bytes \<Rightarrow> bytes \<Rightarrow> bytes \<Rightarrow> bytes \<Rightarrow> int \<Rightarrow> ('o, 'g, bytes) cprog" where
  "BFVEvalProductSum L v params evalMultKey evalSumKey left right nSlots =
     cbind (call L v ((request_of ''bfv_eval_product_sum'' no_contract params)\<lparr> rq_EvalKeys := encodeB64 evalMultKey,
              rq_EvalSumFinalKey := encodeB64 evalSumKey, rq_CiphertextA := encodeB64 left, rq_CiphertextB := encodeB64 right, rq_NSlots := nSlots \<rparr>))
       (\<lambda>resp. decodeB64 (rs_Ciphertext resp))"
definition BFVPartialDecrypt :: "('o, 'g) openfhe \<Rightarrow> string \<Rightarrow> bfv_params \<Rightarrow> bytes \<Rightarrow> bytes \<Rightarrow> bool \<Rightarrow> ('o, 'g, bytes) cprog" where
  "BFVPartialDecrypt L v params ct sk lead =
     cbind (call L v ((request_of ''bfv_partial_decrypt'' no_contract params)\<lparr> rq_Ciphertext := encodeB64 ct, rq_SecretKeyShare := encodeB64 sk, rq_Lead := lead \<rparr>))
       (\<lambda>resp. decodeB64 (rs_Partial resp))"
definition BFVFusePartials :: "('o, 'g) openfhe \<Rightarrow> string \<Rightarrow> bfv_params \<Rightarrow> bytes list \<Rightarrow> int \<Rightarrow> ('o, 'g, int list) cprog" where
  "BFVFusePartials L v params partials nSlots =
     cbind (call L v ((request_of ''bfv_fuse_partials_int'' no_contract params)\<lparr> rq_Partials := map encodeB64 partials, rq_NSlots := nSlots \<rparr>))
       (\<lambda>resp. cret (rs_IntValues resp))"

section \<open>The whole key ceremony\<close>

text \<open>
  \<^verbatim>\<open>KeygenChain\<close> and \<^verbatim>\<open>BFVKeygenChain\<close> are the same loop over their own operations; the record holds the operations with the parameters
  applied and the prefixes of the error texts.
\<close>

record key_bundle =
  kb_PublicKey :: bytes
  kb_EvalKeys :: bytes
  kb_EvalSumKeys :: bytes
  kb_KeyShares :: "key_share list"

record ('o, 'g) ceremony =
  ce_name :: string
  ce_op :: string
  ce_first :: "('o, 'g, key_share) cprog"
  ce_next :: "bytes \<Rightarrow> ('o, 'g, key_share) cprog"
  ce_lead :: "bytes \<Rightarrow> ('o, 'g, round1) cprog"
  ce_participant :: "bytes \<Rightarrow> bytes \<Rightarrow> bytes \<Rightarrow> bytes \<Rightarrow> ('o, 'g, round1) cprog"
  ce_combine1 :: "bytes list \<Rightarrow> bytes list \<Rightarrow> bytes list \<Rightarrow> ('o, 'g, round1) cprog"
  ce_final :: "bytes \<Rightarrow> bytes \<Rightarrow> bytes \<Rightarrow> bool \<Rightarrow> ('o, 'g, bytes) cprog"
  ce_combine2 :: "bytes \<Rightarrow> bytes list \<Rightarrow> bytes \<Rightarrow> ('o, 'g, bytes) cprog"

definition at_slot :: "('o, 'g) ceremony \<Rightarrow> nat \<Rightarrow> string \<Rightarrow> ('o, 'g, 'a) cprog \<Rightarrow> ('o, 'g, 'a) cprog" where
  "at_slot E slot op m = wrapped (ce_name E @ '': slot '' @ dec_nat slot @ '' '' @ ce_op E @ op) m"
definition at_step :: "('o, 'g) ceremony \<Rightarrow> string \<Rightarrow> ('o, 'g, 'a) cprog \<Rightarrow> ('o, 'g, 'a) cprog" where
  "at_step E op m = wrapped (ce_name E @ '': '' @ ce_op E @ op) m"

fun chain_shares :: "('o, 'g) ceremony \<Rightarrow> nat \<Rightarrow> nat \<Rightarrow> bytes \<Rightarrow> ('o, 'g, key_share list) cprog" where
  "chain_shares E slot 0 prev = cret []"
| "chain_shares E slot (Suc k) prev =
     cbind (at_slot E slot ''keygen_next'' (ce_next E prev)) (\<lambda>share.
     cbind (chain_shares E (Suc slot) k (ks_PublicKey share)) (\<lambda>rest. cret (share # rest)))"

fun chain_round1 :: "('o, 'g) ceremony \<Rightarrow> round1 \<Rightarrow> nat \<Rightarrow> key_share list \<Rightarrow> ('o, 'g, round1 list) cprog" where
  "chain_round1 E base slot [] = cret []"
| "chain_round1 E base slot (share # shares) =
     cbind (at_slot E slot ''evalkey_round1_participant'' (ce_participant E (ks_SecretKeyShare share) (fst base) (snd base) (ks_PublicKey share))) (\<lambda>ps.
     cbind (chain_round1 E base (Suc slot) shares) (\<lambda>rest. cret (ps # rest)))"

fun chain_round2 :: "('o, 'g) ceremony \<Rightarrow> bytes \<Rightarrow> bytes \<Rightarrow> nat \<Rightarrow> key_share list \<Rightarrow> ('o, 'g, bytes list) cprog" where
  "chain_round2 E joined pk slot [] = cret []"
| "chain_round2 E joined pk slot (share # shares) =
     cbind (at_slot E slot ''evalkey_round2_participant'' (ce_final E (ks_SecretKeyShare share) joined pk (slot = 0))) (\<lambda>final.
     cbind (chain_round2 E joined pk (Suc slot) shares) (\<lambda>rest. cret (final # rest)))"

definition keygen_chain :: "('o, 'g) ceremony \<Rightarrow> int \<Rightarrow> ('o, 'g, key_bundle) cprog" where
  "keygen_chain E n =
     (if n < 2 then cfail (BadCount (ce_name E) n)
      else cbind (at_slot E 0 ''keygen_first'' (ce_first E)) (\<lambda>first.
           cbind (chain_shares E 1 (nat n - 1) (ks_PublicKey first)) (\<lambda>rest.
           let shares = first # rest; finalPublicKey = ks_PublicKey (last shares)
           in cbind (at_step E ''evalkey_round1_lead'' (ce_lead E (ks_SecretKeyShare first))) (\<lambda>r1Lead.
              cbind (chain_round1 E r1Lead 1 rest) (\<lambda>parts.
              let round1 = r1Lead # parts
              in cbind (at_step E ''combine_evalkey_round1'' (ce_combine1 E (map ks_PublicKey shares) (map fst round1) (map snd round1))) (\<lambda>combined.
                 cbind (chain_round2 E (fst combined) finalPublicKey 0 shares) (\<lambda>finals.
                 cbind (at_step E ''combine_evalkey_round2'' (ce_combine2 E finalPublicKey finals (snd combined))) (\<lambda>evalKeys.
                 cret \<lparr> kb_PublicKey = finalPublicKey, kb_EvalKeys = evalKeys, kb_EvalSumKeys = snd combined, kb_KeyShares = shares \<rparr>))))))))"

definition ckks_ceremony :: "('o, 'g) openfhe \<Rightarrow> string \<Rightarrow> contract_params_json \<Rightarrow> ('o, 'g) ceremony" where
  "ckks_ceremony L v params = \<lparr> ce_name = ''KeygenChain'', ce_op = '''', ce_first = KeygenFirst L v params, ce_next = KeygenNext L v params,
     ce_lead = hc_EvalKeyRound1Lead L v params, ce_participant = hc_EvalKeyRound1Participant L v params,
     ce_combine1 = hc_CombineEvalKeyRound1 L v params, ce_final = hc_EvalKeyRound2Participant L v params,
     ce_combine2 = hc_CombineEvalKeyRound2 L v params \<rparr>"

definition bfv_ceremony :: "('o, 'g) openfhe \<Rightarrow> string \<Rightarrow> bfv_params \<Rightarrow> ('o, 'g) ceremony" where
  "bfv_ceremony L v params = \<lparr> ce_name = ''BFVKeygenChain'', ce_op = ''bfv_'', ce_first = BFVKeygenFirst L v params, ce_next = BFVKeygenNext L v params,
     ce_lead = hc_BFVEvalKeyRound1Lead L v params, ce_participant = hc_BFVEvalKeyRound1Participant L v params,
     ce_combine1 = hc_BFVCombineEvalKeyRound1 L v params, ce_final = hc_BFVEvalKeyRound2Participant L v params,
     ce_combine2 = hc_BFVCombineEvalKeyRound2 L v params \<rparr>"

definition KeygenChain :: "('o, 'g) openfhe \<Rightarrow> string \<Rightarrow> contract_params_json \<Rightarrow> int \<Rightarrow> ('o, 'g, key_bundle) cprog" where
  "KeygenChain L v params n = keygen_chain (ckks_ceremony L v params) n"
definition BFVKeygenChain :: "('o, 'g) openfhe \<Rightarrow> string \<Rightarrow> bfv_params \<Rightarrow> int \<Rightarrow> ('o, 'g, key_bundle) cprog" where
  "BFVKeygenChain L v params n = keygen_chain (bfv_ceremony L v params) n"

end
