(* ===== verification/Helper_Laws.thy ===== *)
theory Helper_Laws
  imports Helper Bridge_Auction
begin

text \<open>
  What the helper and its client promise: base64 keeps every blob, a call through the client is the bridge operation itself, the helper keeps
  its heap over any sequence of requests, and a client whose helper has ended only gives errors.
\<close>

section \<open>Fields on the wire\<close>

lemma nbind_nret [simp]: "nbind (nret a) k = k a"
  by (simp add: fun_eq_iff nbind_def nret_def)

lemma decodeField_encodeB64 [simp]: "bs \<noteq> [] \<Longrightarrow> decodeField field (encodeB64 bs) = nret bs"
  by (simp add: decodeField_def)

lemma decodeB64Slice_encodeB64 [simp]: "[] \<notin> set bss \<Longrightarrow> decodeB64Slice field (map encodeB64 bss) = nret bss"
proof -
  have "[] \<notin> set bss \<Longrightarrow> decode_slice field i (map encodeB64 bss) = nret bss" for i
    by (induction bss arbitrary: i) auto
  then show "[] \<notin> set bss \<Longrightarrow> ?thesis" by (simp add: decodeB64Slice_def)
qed

lemma cbind_cret [simp]: "cbind (cret a) k = k a"
  by (simp add: fun_eq_iff cbind_def cret_def)

lemma decodeB64_encodeB64 [simp]: "decodeB64 (encodeB64 bs) = cret bs"
  by (simp add: decodeB64_def)

lemma decode_pair_encodeB64 [simp]: "decode_pair (encodeB64 a) (encodeB64 b) = cret (a, b)"
  by (simp add: decode_pair_def)

lemma decode_all_encodeB64 [simp]: "decode_all (map encodeB64 bss) = cret bss"
  by (induction bss) simp_all

section \<open>A call is the bridge operation\<close>

text \<open>
  What the client gives when its helper runs the bridge operation \<open>f\<close>: its value, its error as the helper's error, and a read error when a panic
  ends the helper.
\<close>

definition answers :: "string \<Rightarrow> ('o, 'g, 'a) prog \<Rightarrow> ('o, 'g, 'a) cprog \<Rightarrow> bool" where
  "answers op f m \<longleftrightarrow>
     (\<forall>c. \<not> cl_done c \<and> cl_alive c \<longrightarrow>
        m c = (case f (cl_native c) of
                 None \<Rightarrow> None
               | Some (Ok a, s') \<Rightarrow> Some (Ok a, c\<lparr> cl_native := s' \<rparr>)
               | Some (Err e, s') \<Rightarrow> Some (Err (if e = '''' then EmptyEnvelope op else HelperError op e), c\<lparr> cl_native := s' \<rparr>)
               | Some (Panic p, s') \<Rightarrow> Some (Err (DecodeFailed op), c\<lparr> cl_alive := False, cl_native := s' \<rparr>)))"

lemma answersI:
  fixes f :: "('o, 'g, 'b) prog" and d :: "hc_response \<Rightarrow> ('o, 'g, 'a) cprog"
  assumes w: "json_request req" and r: "run L v (hc_request.extend req (helper_request.fields [] [] [])) = nmap g f"
    and g: "\<And>a. list_all json_float (rs_Values (g a))" "\<And>a. d (hc_response.truncate (g a)) = cret (k a)"
  shows "answers (rq_Op req) (nmap k f) (cbind (call L v req) d)"
  unfolding answers_def
proof (intro allI impI)
  fix c :: "('o, 'g) hc_client" assume c: "\<not> cl_done c \<and> cl_alive c"
  show "cbind (call L v req) d c = (case nmap k f (cl_native c) of
                 None \<Rightarrow> None
               | Some (Ok a, s') \<Rightarrow> Some (Ok a, c\<lparr> cl_native := s' \<rparr>)
               | Some (Err e, s') \<Rightarrow> Some (Err (if e = '''' then EmptyEnvelope (rq_Op req) else HelperError (rq_Op req) e), c\<lparr> cl_native := s' \<rparr>)
               | Some (Panic p, s') \<Rightarrow> Some (Err (DecodeFailed (rq_Op req)), c\<lparr> cl_alive := False, cl_native := s' \<rparr>))"
  proof (cases "f (cl_native c)")
    case None
    then show ?thesis using c w by (simp add: wire_request_def cbind_def call_def daemon_turn_def r nmap_def nbind_def)
  next
    case (Some rs)
    obtain out s' where rs: "rs = (out, s')" by (cases rs)
    show ?thesis using c w g Some rs
      by (cases out) (simp_all add: wire_request_def wire_response_def cbind_def call_def daemon_turn_def r nmap_def nbind_def nret_def cret_def)
  qed
qed

lemma toBFVContractParams_id [simp]: "toBFVContractParams bps = bps"
  by (simp add: toBFVContractParams_def)

lemma nmap_ident: "nmap (\<lambda>a. a) f = f"
  by (simp add: fun_eq_iff nmap_def nbind_def nret_def split: option.split prod.split outcome.split)

lemmas answers_same = answersI [where k = "\<lambda>a. a", unfolded nmap_ident]

text \<open>A result that JSON refuses ends the helper.\<close>

definition finite_only :: "('o, 'g, f64 list) prog \<Rightarrow> ('o, 'g, f64 list) prog" where
  "finite_only m = nbind m (\<lambda>vs. if list_all json_float vs then nret vs else npanic ''encode response'')"

lemmas op_defs = request_of_def binary_request_def json_request_def no_contract_def json_float_def wire_response_def no_response_def
  hc_request.defs helper_request.defs hc_response.defs helper_response.defs
  keyShareResponse_def ciphertextResponse_def partialResponse_def leadResponse_def shareResponse_def round2Response_def joinedResponse_def finalResponse_def
  run_secret_def run_round1_participant_def run_round2_participant_def run_partial_def run_combine1_def run_combine2_def runEvalBinary_def
  run_product_sum_def run_poly_def run_argmax_def decodeKeyShare_def

lemma key_share_eta: "\<lparr> ks_PublicKey = ks_PublicKey a, ks_SecretKeyShare = ks_SecretKeyShare a, ks_Lead = ks_Lead a \<rparr> = a"
  by simp

lemma answers_keygen:
  assumes ps: "json_float (cp_ScalingFactor ps)"
  shows "answers ''keygen_first'' (DistributedKeyGenFirst L (toContractParams ps)) (KeygenFirst L v ps)"
    and "pk \<noteq> [] \<Longrightarrow> answers ''keygen_next'' (DistributedKeyGenNext L (toContractParams ps) pk) (KeygenNext L v ps pk)"
proof -
  show "answers ''keygen_first'' (DistributedKeyGenFirst L (toContractParams ps)) (KeygenFirst L v ps)"
    using answers_same [where req = "request_of ''keygen_first'' ps no_bfv" and L = L and v = v and g = keyShareResponse and d = decodeKeyShare] ps
    by (simp add: KeygenFirst_def run_def Let_def op_defs key_share_eta)
  show "answers ''keygen_next'' (DistributedKeyGenNext L (toContractParams ps) pk) (KeygenNext L v ps pk)" if "pk \<noteq> []"
    using answers_same [where req = "(request_of ''keygen_next'' ps no_bfv)\<lparr> rq_PrevPublicKey := encodeB64 pk \<rparr>" and L = L and v = v and g = keyShareResponse and d = decodeKeyShare] ps that
    by (simp add: KeygenNext_def run_def Let_def op_defs key_share_eta)
qed

definition json_poly :: "poly_params \<Rightarrow> bool" where
  "json_poly p \<longleftrightarrow> list_all json_float (po_Coefficients p) \<and> json_float (po_LowerBound p) \<and> json_float (po_UpperBound p)"

lemma answers_evalkey_round1_lead:
  assumes ps: "json_float (cp_ScalingFactor ps)"
  shows "sk \<noteq> [] \<Longrightarrow> answers ''evalkey_round1_lead'' (EvalKeyRound1Lead L (toContractParams ps) sk) (hc_EvalKeyRound1Lead L v ps sk)"
  using ps answers_same [where req = "(request_of ''evalkey_round1_lead'' ps no_bfv)\<lparr> rq_SecretKeyShare := encodeB64 sk \<rparr>" and L = L and v = v and g = "leadResponse" and d = "\<lambda>resp. decode_pair (rs_EvalMultBase resp) (rs_EvalSumBase resp)"]
  by (simp_all add: hc_EvalKeyRound1Lead_def run_def Let_def op_defs json_poly_def key_share_eta)

lemma answers_evalkey_round1_participant:
  assumes ps: "json_float (cp_ScalingFactor ps)"
  shows "sk \<noteq> [] \<Longrightarrow> mb \<noteq> [] \<Longrightarrow> sb \<noteq> [] \<Longrightarrow> pk \<noteq> [] \<Longrightarrow> answers ''evalkey_round1_participant'' (EvalKeyRound1Participant L (toContractParams ps) sk mb sb pk) (hc_EvalKeyRound1Participant L v ps sk mb sb pk)"
  using ps answers_same [where req = "(request_of ''evalkey_round1_participant'' ps no_bfv)\<lparr> rq_SecretKeyShare := encodeB64 sk, rq_EvalMultBase := encodeB64 mb, rq_EvalSumBase := encodeB64 sb, rq_OwnPublicKey := encodeB64 pk \<rparr>" and L = L and v = v and g = "shareResponse" and d = "\<lambda>resp. decode_pair (rs_EvalMultShare resp) (rs_EvalSumShare resp)"]
  by (simp_all add: hc_EvalKeyRound1Participant_def run_def Let_def op_defs json_poly_def key_share_eta)

lemma answers_evalkey_round2_participant:
  assumes ps: "json_float (cp_ScalingFactor ps)"
  shows "sk \<noteq> [] \<Longrightarrow> mj \<noteq> [] \<Longrightarrow> pk \<noteq> [] \<Longrightarrow> answers ''evalkey_round2_participant'' (EvalKeyRound2Participant L (toContractParams ps) sk mj pk lead) (hc_EvalKeyRound2Participant L v ps sk mj pk lead)"
  using ps answers_same [where req = "(request_of ''evalkey_round2_participant'' ps no_bfv)\<lparr> rq_SecretKeyShare := encodeB64 sk, rq_EvalMultJoined := encodeB64 mj, rq_FinalPublicKey := encodeB64 pk, rq_Lead := lead \<rparr>" and L = L and v = v and g = "round2Response" and d = "\<lambda>resp. decodeB64 (rs_EvalMultFinalShare resp)"]
  by (simp_all add: hc_EvalKeyRound2Participant_def run_def Let_def op_defs json_poly_def key_share_eta)

lemma answers_combine_evalkey_round1:
  assumes ps: "json_float (cp_ScalingFactor ps)"
  shows "[] \<notin> set pks \<Longrightarrow> [] \<notin> set ms \<Longrightarrow> [] \<notin> set ss \<Longrightarrow> answers ''combine_evalkey_round1'' (CombineEvalKeyRound1 L (toContractParams ps) pks ms ss) (hc_CombineEvalKeyRound1 L v ps pks ms ss)"
  using ps answers_same [where req = "(request_of ''combine_evalkey_round1'' ps no_bfv)\<lparr> rq_PublicKeys := map encodeB64 pks, rq_EvalMultRound1Shares := map encodeB64 ms, rq_EvalSumRound1Shares := map encodeB64 ss \<rparr>" and L = L and v = v and g = "joinedResponse" and d = "\<lambda>resp. decode_pair (rs_EvalMultJoined resp) (rs_EvalSumFinal resp)"]
  by (simp_all add: hc_CombineEvalKeyRound1_def run_def Let_def op_defs json_poly_def key_share_eta)

lemma answers_encrypt_profile:
  assumes ps: "json_float (cp_ScalingFactor ps)"
  shows "pk \<noteq> [] \<Longrightarrow> list_all json_float vs \<Longrightarrow> answers ''encrypt_profile'' (EncryptCKKSForContract L (toContractParams ps) pk vs) (EncryptProfile L v ps pk vs)"
  using ps answers_same [where req = "(request_of ''encrypt_profile'' ps no_bfv)\<lparr> rq_JointPublicKey := encodeB64 pk, rq_Values := vs \<rparr>" and L = L and v = v and g = "ciphertextResponse" and d = "\<lambda>resp. decodeB64 (rs_Ciphertext resp)"]
  by (simp_all add: EncryptProfile_def run_def Let_def op_defs json_poly_def key_share_eta)

lemma answers_partial_decrypt:
  assumes ps: "json_float (cp_ScalingFactor ps)"
  shows "ct \<noteq> [] \<Longrightarrow> sk \<noteq> [] \<Longrightarrow> answers ''partial_decrypt'' (PartialDecryptCKKSForContract L (toContractParams ps) ct sk lead) (PartialDecrypt L v ps ct sk lead)"
  using ps answers_same [where req = "(request_of ''partial_decrypt'' ps no_bfv)\<lparr> rq_Ciphertext := encodeB64 ct, rq_SecretKeyShare := encodeB64 sk, rq_Lead := lead \<rparr>" and L = L and v = v and g = "partialResponse" and d = "\<lambda>resp. decodeB64 (rs_Partial resp)"]
  by (simp_all add: PartialDecrypt_def run_def Let_def op_defs json_poly_def key_share_eta)

lemma answers_eval_add:
  assumes ps: "json_float (cp_ScalingFactor ps)"
  shows "a \<noteq> [] \<Longrightarrow> b \<noteq> [] \<Longrightarrow> answers ''eval_add'' (EvalAddCKKSForContract L (toContractParams ps) a b) (hc_EvalAdd L v ps mk a b)"
  using ps answers_same [where req = "binary_request ''eval_add'' ps mk a b" and L = L and v = v and g = "ciphertextResponse" and d = "\<lambda>resp. decodeB64 (rs_Ciphertext resp)"]
  by (simp_all add: hc_EvalAdd_def run_def Let_def op_defs json_poly_def key_share_eta)

lemma answers_eval_sub:
  assumes ps: "json_float (cp_ScalingFactor ps)"
  shows "a \<noteq> [] \<Longrightarrow> b \<noteq> [] \<Longrightarrow> answers ''eval_sub'' (EvalSubCKKSForContract L (toContractParams ps) a b) (hc_EvalSub L v ps mk a b)"
  using ps answers_same [where req = "binary_request ''eval_sub'' ps mk a b" and L = L and v = v and g = "ciphertextResponse" and d = "\<lambda>resp. decodeB64 (rs_Ciphertext resp)"]
  by (simp_all add: hc_EvalSub_def run_def Let_def op_defs json_poly_def key_share_eta)

lemma answers_eval_mult:
  assumes ps: "json_float (cp_ScalingFactor ps)"
  shows "mk \<noteq> [] \<Longrightarrow> a \<noteq> [] \<Longrightarrow> b \<noteq> [] \<Longrightarrow> answers ''eval_mult'' (EvalMultCKKSForContract L (toContractParams ps) mk a b) (hc_EvalMult L v ps mk a b)"
  using ps answers_same [where req = "binary_request ''eval_mult'' ps mk a b" and L = L and v = v and g = "ciphertextResponse" and d = "\<lambda>resp. decodeB64 (rs_Ciphertext resp)"]
  by (simp_all add: hc_EvalMult_def run_def Let_def op_defs json_poly_def key_share_eta)

lemma answers_eval_const_mult:
  assumes ps: "json_float (cp_ScalingFactor ps)"
  shows "ct \<noteq> [] \<Longrightarrow> json_float x \<Longrightarrow> answers ''eval_const_mult'' (EvalConstMultCKKSForContract L (toContractParams ps) ct x) (hc_EvalConstMult L v ps ct x)"
  using ps answers_same [where req = "(request_of ''eval_const_mult'' ps no_bfv)\<lparr> rq_Ciphertext := encodeB64 ct, rq_Scalar := x \<rparr>" and L = L and v = v and g = "ciphertextResponse" and d = "\<lambda>resp. decodeB64 (rs_Ciphertext resp)"]
  by (simp_all add: hc_EvalConstMult_def run_def Let_def op_defs json_poly_def key_share_eta)

lemma answers_eval_poly:
  assumes ps: "json_float (cp_ScalingFactor ps)"
  shows "mk \<noteq> [] \<Longrightarrow> ct \<noteq> [] \<Longrightarrow> json_poly poly \<Longrightarrow> po_Coefficients poly \<noteq> [] \<Longrightarrow> answers ''eval_poly'' (EvalPolyCKKSForContract L (toContractParams ps) mk ct (po_Coefficients poly)) (hc_EvalPoly L v ps mk ct poly)"
  using ps answers_same [where req = "(request_of ''eval_poly'' ps no_bfv)\<lparr> rq_EvalKeys := encodeB64 mk, rq_Ciphertext := encodeB64 ct, rq_Coefficients := po_Coefficients poly, rq_PolyLowerBound := po_LowerBound poly, rq_PolyUpperBound := po_UpperBound poly \<rparr>" and L = L and v = v and g = "ciphertextResponse" and d = "\<lambda>resp. decodeB64 (rs_Ciphertext resp)"]
  by (simp_all add: hc_EvalPoly_def run_def Let_def op_defs json_poly_def key_share_eta)

lemma answers_argmax:
  assumes ps: "json_float (cp_ScalingFactor ps)"
  shows "mk \<noteq> [] \<Longrightarrow> [] \<notin> set cts \<Longrightarrow> 2 \<le> length cts \<Longrightarrow> json_poly poly \<Longrightarrow> 2 \<le> length (po_Coefficients poly) \<Longrightarrow> answers ''argmax'' (EvalArgmaxCKKSForContract L (toContractParams ps) mk cts (po_Coefficients poly)) (Argmax L v ps mk cts poly)"
  using ps answers_same [where req = "(request_of ''argmax'' ps no_bfv)\<lparr> rq_EvalKeys := encodeB64 mk, rq_Ciphertexts := map encodeB64 cts, rq_Coefficients := po_Coefficients poly, rq_PolyLowerBound := po_LowerBound poly, rq_PolyUpperBound := po_UpperBound poly \<rparr>" and L = L and v = v and g = "\<lambda>masks. no_response\<lparr> rs_Ciphertexts := map encodeB64 masks \<rparr>" and d = "\<lambda>resp. decode_all (rs_Ciphertexts resp)"]
  by (simp_all add: Argmax_def run_def Let_def op_defs json_poly_def key_share_eta)

lemma answers_bfv_evalkey_round1_lead:
  shows "sk \<noteq> [] \<Longrightarrow> answers ''bfv_evalkey_round1_lead'' (BFVEvalKeyRound1Lead L bps sk) (hc_BFVEvalKeyRound1Lead L v bps sk)"
  using answers_same [where req = "(request_of ''bfv_evalkey_round1_lead'' no_contract bps)\<lparr> rq_SecretKeyShare := encodeB64 sk \<rparr>" and L = L and v = v and g = "leadResponse" and d = "\<lambda>resp. decode_pair (rs_EvalMultBase resp) (rs_EvalSumBase resp)"]
  by (simp_all add: hc_BFVEvalKeyRound1Lead_def run_def Let_def op_defs json_poly_def key_share_eta)

lemma answers_bfv_evalkey_round1_participant:
  shows "sk \<noteq> [] \<Longrightarrow> mb \<noteq> [] \<Longrightarrow> sb \<noteq> [] \<Longrightarrow> pk \<noteq> [] \<Longrightarrow> answers ''bfv_evalkey_round1_participant'' (BFVEvalKeyRound1Participant L bps sk mb sb pk) (hc_BFVEvalKeyRound1Participant L v bps sk mb sb pk)"
  using answers_same [where req = "(request_of ''bfv_evalkey_round1_participant'' no_contract bps)\<lparr> rq_SecretKeyShare := encodeB64 sk, rq_EvalMultBase := encodeB64 mb, rq_EvalSumBase := encodeB64 sb, rq_OwnPublicKey := encodeB64 pk \<rparr>" and L = L and v = v and g = "shareResponse" and d = "\<lambda>resp. decode_pair (rs_EvalMultShare resp) (rs_EvalSumShare resp)"]
  by (simp_all add: hc_BFVEvalKeyRound1Participant_def run_def Let_def op_defs json_poly_def key_share_eta)

lemma answers_bfv_evalkey_round2_participant:
  shows "sk \<noteq> [] \<Longrightarrow> mj \<noteq> [] \<Longrightarrow> pk \<noteq> [] \<Longrightarrow> answers ''bfv_evalkey_round2_participant'' (BFVEvalKeyRound2Participant L bps sk mj pk lead) (hc_BFVEvalKeyRound2Participant L v bps sk mj pk lead)"
  using answers_same [where req = "(request_of ''bfv_evalkey_round2_participant'' no_contract bps)\<lparr> rq_SecretKeyShare := encodeB64 sk, rq_EvalMultJoined := encodeB64 mj, rq_FinalPublicKey := encodeB64 pk, rq_Lead := lead \<rparr>" and L = L and v = v and g = "round2Response" and d = "\<lambda>resp. decodeB64 (rs_EvalMultFinalShare resp)"]
  by (simp_all add: hc_BFVEvalKeyRound2Participant_def run_def Let_def op_defs json_poly_def key_share_eta)

lemma answers_bfv_combine_evalkey_round1:
  shows "[] \<notin> set pks \<Longrightarrow> [] \<notin> set ms \<Longrightarrow> [] \<notin> set ss \<Longrightarrow> answers ''bfv_combine_evalkey_round1'' (BFVCombineEvalKeyRound1 L bps pks ms ss) (hc_BFVCombineEvalKeyRound1 L v bps pks ms ss)"
  using answers_same [where req = "(request_of ''bfv_combine_evalkey_round1'' no_contract bps)\<lparr> rq_PublicKeys := map encodeB64 pks, rq_EvalMultRound1Shares := map encodeB64 ms, rq_EvalSumRound1Shares := map encodeB64 ss \<rparr>" and L = L and v = v and g = "joinedResponse" and d = "\<lambda>resp. decode_pair (rs_EvalMultJoined resp) (rs_EvalSumFinal resp)"]
  by (simp_all add: hc_BFVCombineEvalKeyRound1_def run_def Let_def op_defs json_poly_def key_share_eta)

lemma answers_bfv_encrypt_int_vector:
  shows "pk \<noteq> [] \<Longrightarrow> answers ''bfv_encrypt_int_vector'' (EncryptBFVForContract L bps pk ivs) (BFVEncryptIntVector L v bps pk ivs)"
  using answers_same [where req = "(request_of ''bfv_encrypt_int_vector'' no_contract bps)\<lparr> rq_JointPublicKey := encodeB64 pk, rq_IntValues := ivs \<rparr>" and L = L and v = v and g = "ciphertextResponse" and d = "\<lambda>resp. decodeB64 (rs_Ciphertext resp)"]
  by (simp_all add: BFVEncryptIntVector_def run_def Let_def op_defs json_poly_def key_share_eta)

lemma answers_bfv_partial_decrypt:
  shows "ct \<noteq> [] \<Longrightarrow> sk \<noteq> [] \<Longrightarrow> answers ''bfv_partial_decrypt'' (PartialDecryptBFVForContract L bps ct sk lead) (BFVPartialDecrypt L v bps ct sk lead)"
  using answers_same [where req = "(request_of ''bfv_partial_decrypt'' no_contract bps)\<lparr> rq_Ciphertext := encodeB64 ct, rq_SecretKeyShare := encodeB64 sk, rq_Lead := lead \<rparr>" and L = L and v = v and g = "partialResponse" and d = "\<lambda>resp. decodeB64 (rs_Partial resp)"]
  by (simp_all add: BFVPartialDecrypt_def run_def Let_def op_defs json_poly_def key_share_eta)

lemma answers_bfv_fuse_partials_int:
  shows "[] \<notin> set parts \<Longrightarrow> answers ''bfv_fuse_partials_int'' (FuseBFVPartialsForContract L bps parts n) (BFVFusePartials L v bps parts n)"
  using answers_same [where req = "(request_of ''bfv_fuse_partials_int'' no_contract bps)\<lparr> rq_Partials := map encodeB64 parts, rq_NSlots := n \<rparr>" and L = L and v = v and g = "\<lambda>vs. no_response\<lparr> rs_IntValues := vs \<rparr>" and d = "\<lambda>resp. cret (rs_IntValues resp)"]
  by (simp_all add: BFVFusePartials_def run_def Let_def op_defs json_poly_def key_share_eta)

lemma answers_bfv_eval_product_sum:
  shows "mk \<noteq> [] \<Longrightarrow> sk \<noteq> [] \<Longrightarrow> a \<noteq> [] \<Longrightarrow> b \<noteq> [] \<Longrightarrow> answers ''bfv_eval_product_sum'' (EvalProductSumBFVForContract L bps \<lparr> ek_EvalMultFinal = mk, ek_EvalSumFinal = sk \<rparr> a b n) (BFVEvalProductSum L v bps mk sk a b n)"
  using answers_same [where req = "(request_of ''bfv_eval_product_sum'' no_contract bps)\<lparr> rq_EvalKeys := encodeB64 mk, rq_EvalSumFinalKey := encodeB64 sk, rq_CiphertextA := encodeB64 a, rq_CiphertextB := encodeB64 b, rq_NSlots := n \<rparr>" and L = L and v = v and g = "ciphertextResponse" and d = "\<lambda>resp. decodeB64 (rs_Ciphertext resp)"]
  by (simp_all add: BFVEvalProductSum_def run_def Let_def op_defs json_poly_def key_share_eta)

lemma answers_bfv_keygen:
  "answers ''bfv_keygen_first'' (BFVDistributedKeyGenFirst L bps) (BFVKeygenFirst L v bps)"
  "pk \<noteq> [] \<Longrightarrow> answers ''bfv_keygen_next'' (BFVDistributedKeyGenNext L bps pk) (BFVKeygenNext L v bps pk)"
  using answers_same [where req = "request_of ''bfv_keygen_first'' no_contract bps" and L = L and v = v and g = keyShareResponse and d = decodeKeyShare]
    answers_same [where req = "(request_of ''bfv_keygen_next'' no_contract bps)\<lparr> rq_PrevPublicKey := encodeB64 pk \<rparr>" and L = L and v = v and g = keyShareResponse and d = decodeKeyShare]
  by (simp_all add: BFVKeygenFirst_def BFVKeygenNext_def run_def Let_def op_defs key_share_eta)

lemma answers_combine_evalkey_round2:
  assumes "pk \<noteq> []" "[] \<notin> set fs" "sf \<noteq> []"
  shows "json_float (cp_ScalingFactor ps) \<Longrightarrow>
      answers ''combine_evalkey_round2'' (nmap ek_EvalMultFinal (CombineEvalKeyRound2 L (toContractParams ps) pk fs sf)) (hc_CombineEvalKeyRound2 L v ps pk fs sf)"
    and "answers ''bfv_combine_evalkey_round2'' (nmap ek_EvalMultFinal (BFVCombineEvalKeyRound2 L bps pk fs sf)) (hc_BFVCombineEvalKeyRound2 L v bps pk fs sf)"
  using assms answersI [where req = "(request_of ''combine_evalkey_round2'' ps no_bfv)\<lparr> rq_FinalPublicKey := encodeB64 pk, rq_EvalMultFinalShares := map encodeB64 fs, rq_EvalSumFinalKey := encodeB64 sf \<rparr>"
      and L = L and v = v and g = finalResponse and d = "\<lambda>resp. decodeB64 (rs_EvalMultFinal resp)" and k = ek_EvalMultFinal]
    answersI [where req = "(request_of ''bfv_combine_evalkey_round2'' no_contract bps)\<lparr> rq_FinalPublicKey := encodeB64 pk, rq_EvalMultFinalShares := map encodeB64 fs, rq_EvalSumFinalKey := encodeB64 sf \<rparr>"
      and L = L and v = v and g = finalResponse and d = "\<lambda>resp. decodeB64 (rs_EvalMultFinal resp)" and k = ek_EvalMultFinal]
  by (simp_all add: hc_CombineEvalKeyRound2_def hc_BFVCombineEvalKeyRound2_def run_def Let_def op_defs)

lemma answers_fuse_partials:
  fixes L :: "('o, 'g) openfhe"
  assumes "json_float (cp_ScalingFactor ps)" "[] \<notin> set parts"
  shows "answers ''fuse_partials'' (finite_only (FuseCKKSPartialsForContract L (toContractParams ps) parts n)) (FusePartials L v ps parts n)"
  unfolding answers_def
proof (intro allI impI)
  fix c :: "('o, 'g) hc_client" assume c: "\<not> cl_done c \<and> cl_alive c"
  let ?f = "FuseCKKSPartialsForContract L (toContractParams ps) parts n"
  let ?req = "(request_of ''fuse_partials'' ps no_bfv)\<lparr> rq_Partials := map encodeB64 parts, rq_NSlots := n \<rparr>"
  have r: "run L v (hc_request.extend ?req (helper_request.fields [] [] [])) = nmap (\<lambda>vs. no_response\<lparr> rs_Values := vs \<rparr>) ?f"
    using assms(2) by (simp add: run_def Let_def op_defs)
  have w: "wire_request ?req = Some (hc_request.extend ?req (helper_request.fields [] [] []))"
    using assms(1) by (simp add: wire_request_def json_request_def request_of_def json_float_def)
  have v: "rs_Values (hc_response.truncate (no_response\<lparr> rs_Values := vs \<rparr>)) = vs" "rs_Values (no_response\<lparr> rs_Values := vs \<rparr>) = vs" for vs
    by (simp_all add: hc_response.defs no_response_def)
  have op: "rq_Op ?req = ''fuse_partials''" by (simp add: request_of_def)
  show "FusePartials L v ps parts n c = (case finite_only ?f (cl_native c) of
                 None \<Rightarrow> None
               | Some (Ok a, s') \<Rightarrow> Some (Ok a, c\<lparr> cl_native := s' \<rparr>)
               | Some (Err e, s') \<Rightarrow> Some (Err (if e = '''' then EmptyEnvelope ''fuse_partials'' else HelperError ''fuse_partials'' e), c\<lparr> cl_native := s' \<rparr>)
               | Some (Panic p, s') \<Rightarrow> Some (Err (DecodeFailed ''fuse_partials''), c\<lparr> cl_alive := False, cl_native := s' \<rparr>))"
  proof (cases "?f (cl_native c)")
    case None
    then show ?thesis using c w by (simp add: FusePartials_def finite_only_def cbind_def call_def daemon_turn_def r nmap_def nbind_def)
  next
    case (Some rs)
    obtain out s' where rs: "rs = (out, s')" by (cases rs)
    show ?thesis using c w op v Some rs
      by (cases out) (simp_all add: FusePartials_def finite_only_def wire_response_def cbind_def call_def daemon_turn_def r nmap_def nbind_def nret_def npanic_def cret_def)
  qed
qed

section \<open>The helper keeps its heap\<close>

lemma secure_decodeField [secure_intros]: "secure H nothing (decodeField field v)"
  unfolding decodeField_def by (auto intro!: secure_intros split: outcome.split)

lemma secure_decodeB64Slice [secure_intros]: "secure H nothing (decodeB64Slice field vs)"
proof -
  have "secure H nothing (decode_slice field i vs)" for i by (induction vs arbitrary: i) (auto intro!: secure_intros)
  then show ?thesis by (simp add: decodeB64Slice_def)
qed

lemma secure_nmap [secure_intros]: "secure H nothing m \<Longrightarrow> secure H nothing (nmap f m)"
  unfolding nmap_def by (intro secure_intros) simp_all

lemma batch_ok_contract: "batch_ok (toContractParams ps)"
  by (simp add: toContractParams_def batch_ok_def Let_def)

lemmas bridge_secure = balanced_keys [unfolded balanced_def] balanced_round1 [unfolded balanced_def] balanced_eval [unfolded balanced_def]
  balanced_crypt [unfolded balanced_def]

lemma balanced_run:
  assumes "masks_ok L" "room_ok L"
  shows "balanced (run L v req)"
  unfolding balanced_def run_def Let_def run_secret_def run_round1_participant_def run_round2_participant_def run_partial_def run_combine1_def
    run_combine2_def runEvalBinary_def run_product_sum_def run_poly_def run_argmax_def
  by (intro secure_if secure_nret secure_nfail secure_nbind secure_nmap secure_decodeField secure_decodeB64Slice bridge_secure batch_ok_contract assms refl)

lemma daemon_turn_orderly:
  assumes "masks_ok L" "room_ok L" "heap_ok s"
  obtains env s' where "daemon_turn L v req s = Some (env, s')" "same_heap s s'" "heap_ok s'"
proof -
  obtain r s' where r: "run L v req s = Some (r, s')" "same_heap s s'" "ns_next s \<le> ns_next s'"
    using balanced_run [OF assms(1,2), of v req] assms(3) unfolding balanced_iff same_heap_def by blast
  have "heap_ok s'" using assms(3) r(2,3) by (auto simp: heap_ok_def same_heap_def)
  then show thesis using r by (cases r) (auto simp: daemon_turn_def intro: that)
qed

lemma same_heap_trans: "same_heap s s' \<Longrightarrow> same_heap s' s'' \<Longrightarrow> same_heap s s''"
  by (simp add: same_heap_def)

section \<open>Orderly clients\<close>

text \<open>
  An operation that returns, keeps the heap of the helper, never brings back a helper that has ended and leaves a usable client when it succeeds.
\<close>

definition usable :: "('o, 'g) hc_client \<Rightarrow> bool" where "usable c \<longleftrightarrow> \<not> cl_done c \<and> cl_alive c"

definition orderly :: "('o, 'g, 'a) cprog \<Rightarrow> bool" where
  "orderly m \<longleftrightarrow>
     (\<forall>c. heap_ok (cl_native c) \<longrightarrow>
        (\<exists>r c'. m c = Some (r, c') \<and> \<not> is_panic r \<and> same_heap (cl_native c) (cl_native c') \<and> heap_ok (cl_native c') \<and>
           cl_done c' = cl_done c \<and> (is_ok r \<longrightarrow> cl_alive c' = cl_alive c) \<and> (cl_alive c' \<longrightarrow> cl_alive c)))"

lemma orderlyE:
  assumes "orderly m" "heap_ok (cl_native c)"
  obtains r c' where "m c = Some (r, c')" "\<not> is_panic r" "same_heap (cl_native c) (cl_native c')" "heap_ok (cl_native c')"
    "cl_done c' = cl_done c" "is_ok r \<longrightarrow> cl_alive c' = cl_alive c" "cl_alive c' \<longrightarrow> cl_alive c"
  using assms unfolding orderly_def by blast

named_theorems orderly_intros \<open>operations that keep the client in order\<close>

lemma orderly_cret [orderly_intros]: "orderly (cret a)" and orderly_cfail [orderly_intros]: "orderly (cfail e)"
  by (simp_all add: orderly_def cret_def cfail_def same_heap_def)

lemma orderly_cbind [orderly_intros]:
  fixes m :: "('o, 'g, 'a) cprog"
  assumes m: "orderly m" and k: "\<And>a. orderly (k a)"
  shows "orderly (cbind m k)"
  unfolding orderly_def
proof (intro allI impI)
  fix c :: "('o, 'g) hc_client" assume c: "heap_ok (cl_native c)"
  obtain r c1 where r: "m c = Some (r, c1)" "\<not> is_panic r" "same_heap (cl_native c) (cl_native c1)" "heap_ok (cl_native c1)"
    "cl_done c1 = cl_done c" "is_ok r \<longrightarrow> cl_alive c1 = cl_alive c" "cl_alive c1 \<longrightarrow> cl_alive c" using orderlyE [OF m c] .
  show "\<exists>r c'. cbind m k c = Some (r, c') \<and> \<not> is_panic r \<and> same_heap (cl_native c) (cl_native c') \<and> heap_ok (cl_native c') \<and>
           cl_done c' = cl_done c \<and> (is_ok r \<longrightarrow> cl_alive c' = cl_alive c) \<and> (cl_alive c' \<longrightarrow> cl_alive c)"
  proof (cases r)
    case (Ok a)
    obtain r' c2 where "k a c1 = Some (r', c2)" "\<not> is_panic r'" "same_heap (cl_native c1) (cl_native c2)" "heap_ok (cl_native c2)"
      "cl_done c2 = cl_done c1" "is_ok r' \<longrightarrow> cl_alive c2 = cl_alive c1" "cl_alive c2 \<longrightarrow> cl_alive c1" using orderlyE [OF k r(4)] .
    then show ?thesis using r Ok same_heap_trans by (auto simp: cbind_def)
  qed (use r in \<open>auto simp: cbind_def\<close>)
qed

lemma orderly_wrapped [orderly_intros]:
  fixes m :: "('o, 'g, 'a) cprog"
  assumes "orderly m" shows "orderly (wrapped lbl m)"
  unfolding orderly_def
proof (intro allI impI)
  fix c :: "('o, 'g) hc_client" assume c: "heap_ok (cl_native c)"
  obtain r c1 where r: "m c = Some (r, c1)" "\<not> is_panic r" "same_heap (cl_native c) (cl_native c1)" "heap_ok (cl_native c1)"
    "cl_done c1 = cl_done c" "is_ok r \<longrightarrow> cl_alive c1 = cl_alive c" "cl_alive c1 \<longrightarrow> cl_alive c" using orderlyE [OF assms c] .
  then show "\<exists>r c'. wrapped lbl m c = Some (r, c') \<and> \<not> is_panic r \<and> same_heap (cl_native c) (cl_native c') \<and> heap_ok (cl_native c') \<and>
           cl_done c' = cl_done c \<and> (is_ok r \<longrightarrow> cl_alive c' = cl_alive c) \<and> (cl_alive c' \<longrightarrow> cl_alive c)"
    by (cases r) (auto simp: wrapped_def)
qed

lemma orderly_call:
  fixes L :: "('o, 'g) openfhe"
  assumes L: "masks_ok L" "room_ok L"
  shows "orderly (call L v req)"
  unfolding orderly_def
proof (intro allI impI)
  fix c :: "('o, 'g) hc_client" assume c: "heap_ok (cl_native c)"
  show "\<exists>r c'. call L v req c = Some (r, c') \<and> \<not> is_panic r \<and> same_heap (cl_native c) (cl_native c') \<and> heap_ok (cl_native c') \<and>
           cl_done c' = cl_done c \<and> (is_ok r \<longrightarrow> cl_alive c' = cl_alive c) \<and> (cl_alive c' \<longrightarrow> cl_alive c)"
  proof (cases "usable c \<and> wire_request req \<noteq> None")
    case True
    then obtain h where h: "wire_request req = Some h" by blast
    obtain env s' where "daemon_turn L v h (cl_native c) = Some (env, s')" "same_heap (cl_native c) s'" "heap_ok s'"
      using daemon_turn_orderly [OF L c] .
    then show ?thesis using True h by (cases env) (auto simp: usable_def call_def split: option.split)
  next
    case False
    then show ?thesis using c by (auto simp: usable_def call_def same_heap_def split: option.split)
  qed
qed

lemma orderly_decodeB64 [orderly_intros]: "orderly (decodeB64 s)"
  unfolding decodeB64_def by (auto intro: orderly_intros split: outcome.split)

lemma orderly_decode_pair [orderly_intros]: "orderly (decode_pair a b)"
  unfolding decode_pair_def by (intro orderly_intros)

lemma orderly_decodeKeyShare [orderly_intros]: "orderly (decodeKeyShare resp)"
  unfolding decodeKeyShare_def by (auto intro!: orderly_intros)

definition orderly_ceremony :: "('o, 'g) ceremony \<Rightarrow> bool" where
  "orderly_ceremony E \<longleftrightarrow> orderly (ce_first E) \<and> (\<forall>p. orderly (ce_next E p)) \<and> (\<forall>s. orderly (ce_lead E s)) \<and>
     (\<forall>s a b p. orderly (ce_participant E s a b p)) \<and> (\<forall>p m s. orderly (ce_combine1 E p m s)) \<and>
     (\<forall>s j p l. orderly (ce_final E s j p l)) \<and> (\<forall>p f s. orderly (ce_combine2 E p f s))"

lemma ceremonies_orderly:
  assumes "masks_ok L" "room_ok L"
  shows "orderly_ceremony (ckks_ceremony L v ps)" "orderly_ceremony (bfv_ceremony L v bps)"
  unfolding orderly_ceremony_def ckks_ceremony_def bfv_ceremony_def ceremony.simps
    KeygenFirst_def KeygenNext_def hc_EvalKeyRound1Lead_def hc_EvalKeyRound1Participant_def hc_CombineEvalKeyRound1_def hc_EvalKeyRound2Participant_def
    hc_CombineEvalKeyRound2_def BFVKeygenFirst_def BFVKeygenNext_def hc_BFVEvalKeyRound1Lead_def hc_BFVEvalKeyRound1Participant_def
    hc_BFVCombineEvalKeyRound1_def hc_BFVEvalKeyRound2Participant_def hc_BFVCombineEvalKeyRound2_def
  by (intro conjI allI orderly_intros orderly_call assms)+

lemma orderly_chains:
  assumes "orderly_ceremony E"
  shows "orderly (chain_shares E slot k prev)" "orderly (chain_round1 E base slot shares)" "orderly (chain_round2 E j p slot shares)"
proof -
  show "orderly (chain_shares E slot k prev)" using assms
    by (induction k arbitrary: slot prev) (auto simp: at_slot_def orderly_ceremony_def intro!: orderly_intros)
  show "orderly (chain_round1 E base slot shares)" using assms
    by (induction shares arbitrary: slot) (auto simp: at_slot_def orderly_ceremony_def intro!: orderly_intros)
  show "orderly (chain_round2 E j p slot shares)" using assms
    by (induction shares arbitrary: slot) (auto simp: at_slot_def orderly_ceremony_def intro!: orderly_intros)
qed

lemma orderly_keygen_chain: "orderly_ceremony E \<Longrightarrow> orderly (keygen_chain E n)"
  unfolding keygen_chain_def Let_def at_slot_def at_step_def
  by (auto intro!: orderly_intros orderly_chains simp: orderly_ceremony_def at_slot_def at_step_def)

text \<open>What a successful ceremony gives.\<close>

lemma cbind_Ok: "cbind m k c = Some (Ok b, c') \<longleftrightarrow> (\<exists>a c1. m c = Some (Ok a, c1) \<and> k a c1 = Some (Ok b, c'))"
  by (auto simp: cbind_def split: option.splits outcome.splits)

lemma chain_shares_length: "chain_shares E slot k prev c = Some (Ok rest, c') \<Longrightarrow> length rest = k"
  by (induction k arbitrary: slot prev c rest c') (auto simp: cbind_Ok cret_def)

lemma keygen_chain_bundle:
  assumes "keygen_chain E n c = Some (Ok b, c')"
  shows "2 \<le> n" "int (length (kb_KeyShares b)) = n" "kb_PublicKey b = ks_PublicKey (last (kb_KeyShares b))"
proof -
  show n: "2 \<le> n" using assms by (auto simp: keygen_chain_def cfail_def split: if_splits)
  then obtain first rest c1 c2 where "chain_shares E 1 (nat n - 1) (ks_PublicKey first) c1 = Some (Ok rest, c2)"
    and b: "kb_KeyShares b = first # rest" "kb_PublicKey b = ks_PublicKey (last (first # rest))"
    using assms by (auto simp: keygen_chain_def Let_def cbind_Ok cret_def)
  then show "int (length (kb_KeyShares b)) = n" using n chain_shares_length by fastforce
  show "kb_PublicKey b = ks_PublicKey (last (kb_KeyShares b))" using b by simp
qed

section \<open>Claims\<close>

text \<open>
  Claim C35. A call through the helper is the bridge operation: with a running helper, a JSON-representable request and no empty blob, every operation of
  the client gives exactly what the bridge function gives in the helper's state, its value unchanged by base64 and JSON, and leaves the
  helper in the state the function leaves; an error becomes the helper's error under the name of the operation, and a panic ends the helper
  and is a read error. The polynomial is given at least two coefficients and the argmax at least two ciphertexts: below that the helper refuses an argmax with a
  message of its own. The fusion of CKKS partials ends the helper, too, when a decrypted slot is not finite. The second combining
  round gives the multiplication key only, and the bounds of the polynomial's domain have no effect: the bridge is called with the coefficients alone.
\<close>

theorem helper_is_bridge:
  assumes ps: "json_float (cp_ScalingFactor ps)"
    and blobs: "pk \<noteq> []" "sk \<noteq> []" "mb \<noteq> []" "sb \<noteq> []" "mj \<noteq> []" "sf \<noteq> []" "ct \<noteq> []" "mk \<noteq> []" "a \<noteq> []" "b \<noteq> []"
    and lists: "[] \<notin> set pks" "[] \<notin> set ms" "[] \<notin> set ss" "[] \<notin> set fs" "[] \<notin> set parts" "[] \<notin> set cts" "2 \<le> length cts"
    and floats: "list_all json_float vs" "json_float x" "json_poly poly" "2 \<le> length (po_Coefficients poly)"
  shows "answers ''keygen_first'' (DistributedKeyGenFirst L (toContractParams ps)) (KeygenFirst L v ps) \<and>
    answers ''keygen_next'' (DistributedKeyGenNext L (toContractParams ps) pk) (KeygenNext L v ps pk) \<and>
    answers ''encrypt_profile'' (EncryptCKKSForContract L (toContractParams ps) pk vs) (EncryptProfile L v ps pk vs) \<and>
    answers ''evalkey_round1_lead'' (EvalKeyRound1Lead L (toContractParams ps) sk) (hc_EvalKeyRound1Lead L v ps sk) \<and>
    answers ''evalkey_round1_participant'' (EvalKeyRound1Participant L (toContractParams ps) sk mb sb pk) (hc_EvalKeyRound1Participant L v ps sk mb sb pk) \<and>
    answers ''evalkey_round2_participant'' (EvalKeyRound2Participant L (toContractParams ps) sk mj pk lead) (hc_EvalKeyRound2Participant L v ps sk mj pk lead) \<and>
    answers ''combine_evalkey_round1'' (CombineEvalKeyRound1 L (toContractParams ps) pks ms ss) (hc_CombineEvalKeyRound1 L v ps pks ms ss) \<and>
    answers ''combine_evalkey_round2'' (nmap ek_EvalMultFinal (CombineEvalKeyRound2 L (toContractParams ps) pk fs sf)) (hc_CombineEvalKeyRound2 L v ps pk fs sf) \<and>
    answers ''partial_decrypt'' (PartialDecryptCKKSForContract L (toContractParams ps) ct sk lead) (PartialDecrypt L v ps ct sk lead) \<and>
    answers ''fuse_partials'' (finite_only (FuseCKKSPartialsForContract L (toContractParams ps) parts n)) (FusePartials L v ps parts n) \<and>
    answers ''eval_add'' (EvalAddCKKSForContract L (toContractParams ps) a b) (hc_EvalAdd L v ps mk a b) \<and>
    answers ''eval_sub'' (EvalSubCKKSForContract L (toContractParams ps) a b) (hc_EvalSub L v ps mk a b) \<and>
    answers ''eval_mult'' (EvalMultCKKSForContract L (toContractParams ps) mk a b) (hc_EvalMult L v ps mk a b) \<and>
    answers ''eval_const_mult'' (EvalConstMultCKKSForContract L (toContractParams ps) ct x) (hc_EvalConstMult L v ps ct x) \<and>
    answers ''eval_poly'' (EvalPolyCKKSForContract L (toContractParams ps) mk ct (po_Coefficients poly)) (hc_EvalPoly L v ps mk ct poly) \<and>
    answers ''argmax'' (EvalArgmaxCKKSForContract L (toContractParams ps) mk cts (po_Coefficients poly)) (Argmax L v ps mk cts poly) \<and>
    answers ''bfv_keygen_first'' (BFVDistributedKeyGenFirst L bps) (BFVKeygenFirst L v bps) \<and>
    answers ''bfv_keygen_next'' (BFVDistributedKeyGenNext L bps pk) (BFVKeygenNext L v bps pk) \<and>
    answers ''bfv_encrypt_int_vector'' (EncryptBFVForContract L bps pk ivs) (BFVEncryptIntVector L v bps pk ivs) \<and>
    answers ''bfv_evalkey_round1_lead'' (BFVEvalKeyRound1Lead L bps sk) (hc_BFVEvalKeyRound1Lead L v bps sk) \<and>
    answers ''bfv_evalkey_round1_participant'' (BFVEvalKeyRound1Participant L bps sk mb sb pk) (hc_BFVEvalKeyRound1Participant L v bps sk mb sb pk) \<and>
    answers ''bfv_evalkey_round2_participant'' (BFVEvalKeyRound2Participant L bps sk mj pk lead) (hc_BFVEvalKeyRound2Participant L v bps sk mj pk lead) \<and>
    answers ''bfv_combine_evalkey_round1'' (BFVCombineEvalKeyRound1 L bps pks ms ss) (hc_BFVCombineEvalKeyRound1 L v bps pks ms ss) \<and>
    answers ''bfv_combine_evalkey_round2'' (nmap ek_EvalMultFinal (BFVCombineEvalKeyRound2 L bps pk fs sf)) (hc_BFVCombineEvalKeyRound2 L v bps pk fs sf) \<and>
    answers ''bfv_eval_product_sum'' (EvalProductSumBFVForContract L bps \<lparr> ek_EvalMultFinal = mk, ek_EvalSumFinal = sk \<rparr> a b n) (BFVEvalProductSum L v bps mk sk a b n) \<and>
    answers ''bfv_partial_decrypt'' (PartialDecryptBFVForContract L bps ct sk lead) (BFVPartialDecrypt L v bps ct sk lead) \<and>
    answers ''bfv_fuse_partials_int'' (FuseBFVPartialsForContract L bps parts n) (BFVFusePartials L v bps parts n)"
proof -
  have co: "po_Coefficients poly \<noteq> []" using floats(4) by auto
  show ?thesis
    by (intro conjI answers_keygen answers_encrypt_profile answers_evalkey_round1_lead answers_evalkey_round1_participant answers_evalkey_round2_participant
        answers_combine_evalkey_round1 answers_combine_evalkey_round2 answers_partial_decrypt answers_fuse_partials answers_eval_add answers_eval_sub
        answers_eval_mult answers_eval_const_mult answers_eval_poly answers_argmax answers_bfv_keygen answers_bfv_encrypt_int_vector
        answers_bfv_evalkey_round1_lead answers_bfv_evalkey_round1_participant answers_bfv_evalkey_round2_participant
        answers_bfv_combine_evalkey_round1 answers_bfv_eval_product_sum answers_bfv_partial_decrypt answers_bfv_fuse_partials_int assms co)
qed

definition small_contract :: contract_params_json where
  "small_contract = \<lparr> cp_Scheme = ''ckks'', cp_RingDim = 1024, cp_ScalingFactor = Fin 0, cp_ScalingModSize = 50, cp_Depth = 2 \<rparr>"

definition fresh_client :: "(bytes, unit) hc_client" where
  "fresh_client = \<lparr> cl_done = False, cl_alive = True, cl_native = no_cells \<rparr>"

text \<open>A library that joins what it is given.\<close>

definition concat_lib :: "(bytes, unit) openfhe" where "concat_lib = plain_lib\<lparr> lib_fun := \<lambda>_ objs raws. Some (concat (objs @ raws)) \<rparr>"

lemma concat_lib_hyps: "masks_ok concat_lib" "room_ok concat_lib"
  using plain_lib_hyps by (simp_all add: masks_ok_def room_ok_def concat_lib_def)

lemma small_round2: "map_option fst (CombineEvalKeyRound2 concat_lib (toContractParams small_contract) [1] [[2], [3]] [4] no_cells) =
    Some (Ok \<lparr> ek_EvalMultFinal = [1, 2, 3], ek_EvalSumFinal = [4] \<rparr>)"
  by code_simp

theorem helper_is_bridge_witness:
  "\<exists>s'. hc_CombineEvalKeyRound2 concat_lib ''v1.5.1'' small_contract [1] [[2], [3]] [4] fresh_client = Some (Ok [1, 2, 3], fresh_client\<lparr> cl_native := s' \<rparr>)"
proof -
  have "answers ''combine_evalkey_round2'' (nmap ek_EvalMultFinal (CombineEvalKeyRound2 concat_lib (toContractParams small_contract) [1] [[2], [3]] [4]))
      (hc_CombineEvalKeyRound2 concat_lib ''v1.5.1'' small_contract [1] [[2], [3]] [4])"
    using helper_is_bridge [where ps = small_contract and L = concat_lib and v = "''v1.5.1''" and pk = "[1]" and sk = "[1]" and mb = "[1]" and sb = "[1]" and mj = "[1]"
        and sf = "[4]" and ct = "[1]" and mk = "[1]" and a = "[1]" and b = "[1]" and pks = "[]" and ms = "[]" and ss = "[]" and fs = "[[2], [3]]" and parts = "[]"
        and cts = "[[1], [2]]" and vs = "[]" and x = "Fin 0" and poly = SharpenSignDegree3]
    by (simp add: small_contract_def json_float_def json_poly_def SharpenSignDegree3_def)
  then show ?thesis using small_round2 by (auto simp: answers_def fresh_client_def nmap_def nbind_def nret_def)
qed

text \<open>
  Claim C36. The helper process keeps its native heap: over any sequence of requests, well formed or not, each turn returns, and whether it ends with an
  answer, an error or the end of the process, the heap is the one the process started with, without a fault; at most one envelope is
  written per request. The argmax and decryption routines are taken to keep to the sizes they were given.
\<close>

theorem daemon_keeps_heap:
  assumes "masks_ok L" "room_ok L" "heap_ok s"
  shows "\<exists>envs s'. runDaemon L v reqs s = Some (envs, s') \<and> same_heap s s' \<and> length envs \<le> length reqs"
  using assms(3)
proof (induction reqs arbitrary: s)
  case (Cons req reqs)
  obtain env s1 where turn: "daemon_turn L v req s = Some (env, s1)" "same_heap s s1" "heap_ok s1"
    using daemon_turn_orderly [OF assms(1,2) Cons.prems] .
  obtain envs s2 where "runDaemon L v reqs s1 = Some (envs, s2)" "same_heap s1 s2" "length envs \<le> length reqs" using Cons.IH [OF turn(3)] by blast
  then show ?case using turn(1,2) same_heap_trans by (cases env) (auto simp: apfst_def map_prod_def)
qed (simp add: same_heap_def)

theorem daemon_keeps_heap_witness:
  "masks_ok concat_lib \<and> room_ok concat_lib \<and> heap_ok no_cells \<and>
   (\<exists>envs s'. runDaemon concat_lib ''v1.5.1'' [hc_request.extend (request_of ''keygen_first'' small_contract no_bfv) (helper_request.fields [] [] [])] no_cells = Some (envs, s') \<and>
      same_heap no_cells s' \<and> length envs \<le> 1)"
  using concat_lib_hyps no_cells_ok
    daemon_keeps_heap [OF concat_lib_hyps no_cells_ok, of "''v1.5.1''" "[hc_request.extend (request_of ''keygen_first'' small_contract no_bfv) (helper_request.fields [] [] [])]"]
  by simp

text \<open>
  Claim C37. The whole key ceremony over the helper (\<^verbatim>\<open>KeygenChain\<close> and \<^verbatim>\<open>BFVKeygenChain\<close>) returns for every number of participants, a value or an error
  and never a panic of the client, with the helper's heap as it was; on success there are as many key shares as participants (two at
  least), the public key is that of the last share, and the client can go on; a helper that has ended is never brought back.
\<close>

theorem key_ceremony_returns:
  assumes "masks_ok L" "room_ok L" "heap_ok (cl_native c)" "usable c" and m: "m \<in> {KeygenChain L v ps n, BFVKeygenChain L v bps n}"
  shows "\<exists>r c'. m c = Some (r, c') \<and> \<not> is_panic r \<and> same_heap (cl_native c) (cl_native c') \<and>
    (\<forall>b. r = Ok b \<longrightarrow> usable c' \<and> 2 \<le> n \<and> int (length (kb_KeyShares b)) = n \<and> kb_PublicKey b = ks_PublicKey (last (kb_KeyShares b)))"
proof -
  obtain E where E: "m = keygen_chain E n" "orderly_ceremony E"
    using m ceremonies_orderly [OF assms(1,2)] by (auto simp: KeygenChain_def BFVKeygenChain_def)
  obtain r c' where "m c = Some (r, c')" "\<not> is_panic r" "same_heap (cl_native c) (cl_native c')" "cl_done c' = cl_done c" "is_ok r \<longrightarrow> cl_alive c' = cl_alive c"
    using orderlyE [OF orderly_keygen_chain [OF E(2)] assms(3), of n] E(1) by metis
  then show ?thesis using keygen_chain_bundle [of E n c] assms(4) E(1) by (auto simp: usable_def)
qed

theorem key_ceremony_returns_witness:
  "\<exists>r c'. KeygenChain concat_lib ''v1.5.1'' small_contract 2 fresh_client = Some (r, c') \<and> same_heap (cl_native fresh_client) (cl_native c') \<and> \<not> is_panic r"
  using key_ceremony_returns [OF concat_lib_hyps, of fresh_client "KeygenChain concat_lib ''v1.5.1'' small_contract 2" "''v1.5.1''" small_contract 2 no_bfv] no_cells_ok
  by (auto simp: fresh_client_def usable_def)

section \<open>Other behaviour\<close>

text \<open>A client that is closed, or whose helper has ended, gives an error for every request and stays as it is.\<close>

lemma dead_client_errors: "\<not> usable c \<Longrightarrow> \<exists>e. call L v req c = Some (Err e, c)"
  by (auto simp: usable_def call_def split: option.split)

lemma hc_Close_idempotent:
  assumes "hc_Close c = Some (r, c')"
  shows "\<not> usable c'" "hc_Close c' = Some (Ok (), c')"
  using assms by (auto simp: hc_Close_def usable_def split: if_splits)

text \<open>
  \<^verbatim>\<open>SharpenChebyshev\<close> leaves the coefficients out for the helper to choose, but the helper refuses a request without coefficients.
\<close>

lemma chebyshev_refused:
  assumes "usable c" "json_float (cp_ScalingFactor ps)" "mk \<noteq> []" "ct \<noteq> []" "json_float low" "json_float high"
  shows "hc_EvalPoly L v ps mk ct (SharpenChebyshev low high degree) c = Some (Err (HelperError ''eval_poly'' ''eval_poly requires coefficients''), c)"
  using assms
  by (simp add: usable_def hc_EvalPoly_def SharpenChebyshev_def cbind_def call_def wire_request_def daemon_turn_def run_def Let_def op_defs nfail_def)

end
