(* ===== verification/Profiles.thy ===== *)
theory Profiles
  imports Bridge_Union
begin

text \<open>
  \<^verbatim>\<open>pkg/ares/crypto/bfv/encoding.go\<close> (packing of profiles and payloads into integer slots) and \<^verbatim>\<open>pkg/ares/crypto/profiles/profiles.go\<close> (the named
  parameter profiles).
\<close>

section \<open>Integer encoding\<close>

text \<open>\<^verbatim>\<open>math.Round\<close> rounds half away from zero. Outside the range of \<^verbatim>\<open>int64\<close> the conversion is left to the processor: \<open>conv\<close>.\<close>

definition round_away :: "rat \<Rightarrow> int" where "round_away x = (if x < 0 then - \<lfloor>- x + 1 / 2\<rfloor> else \<lfloor>x + 1 / 2\<rfloor>)"

definition to_int64 :: "(f64 \<Rightarrow> int) \<Rightarrow> f64 \<Rightarrow> int" where
  "to_int64 conv v =
     (case v of
        Fin x \<Rightarrow> (let q = round_away x in if - (2 ^ 63) \<le> q \<and> q < 2 ^ 63 then q else conv v)
      | _ \<Rightarrow> conv v)"

definition quantize_one :: "(f64 \<Rightarrow> int) \<Rightarrow> int \<Rightarrow> f64 \<Rightarrow> int" where
  "quantize_one conv scale v =
     (let q = to_int64 conv (f_mul v (f_of_int scale)); q1 = (if q < - scale then - scale else q) in if q1 > scale then scale else q1)"

definition QuantizeSigned :: "(f64 \<Rightarrow> int) \<Rightarrow> f64 list \<Rightarrow> int \<Rightarrow> int list" where
  "QuantizeSigned conv values scale = (if scale \<le> 0 then replicate (length values) 0 else map (quantize_one conv scale) values)"

definition PayloadBytesToSlots :: "bytes \<Rightarrow> int \<Rightarrow> (string, int list) outcome" where
  "PayloadBytesToSlots payload slotCount =
     (if slotCount < 0 then Panic ''runtime error: makeslice: len out of range''
      else Ok (map (\<lambda>i. if i < length payload then uint (payload ! i) else 0) [0..<nat slotCount]))"

fun slot_bytes :: "nat \<Rightarrow> int list \<Rightarrow> (string, bytes) outcome" where
  "slot_bytes i [] = Ok []"
| "slot_bytes i (slot # slots) =
     (if slot < 0 \<or> slot > 255 then Err (''slot '' @ dec_nat i @ '' = '' @ dec_int slot @ '' outside byte range'')
      else obind (slot_bytes (Suc i) slots) (\<lambda>rest. Ok (word_of_int slot # rest)))"

definition SlotsToPayloadBytes :: "int list \<Rightarrow> int \<Rightarrow> (string, bytes) outcome" where
  "SlotsToPayloadBytes slots payloadLen =
     (if payloadLen < 0 then Err ''payloadLen must be non-negative''
      else if payloadLen > int (length slots) then Err (''payloadLen '' @ dec_int payloadLen @ '' exceeds slot count '' @ dec_nat (length slots))
      else slot_bytes 0 (take (nat payloadLen) slots))"

section \<open>Profiles\<close>

record ckks_comparator =
  cc_ID :: string
  cc_Comparator :: string
  cc_SharpenSelector :: bool
  cc_SelectorSchedule :: string
  cc_ComparatorGain :: f64
  cc_ComparatorBound :: f64
  cc_ComparatorDegree :: int
  cc_ComparatorInputScale :: f64

record ckks_union_profile =
  cu_Name :: string
  cu_Scheme :: string
  cu_RingDim :: "32 word"
  cu_Depth :: "32 word"
  cu_ScalingModSize :: int
  cu_ProfileDim :: int
  cu_PayloadSlotCount :: int
  cu_Comparators :: "ckks_comparator list"
  cu_ComparatorWorkers :: int
  cu_OMPThreadsPerWorker :: int

record bfv_blind_profile =
  bp_Name :: string
  bp_Scheme :: string
  bp_RingDim :: "32 word"
  bp_MultiplicativeDepth :: "32 word"
  bp_PlaintextModulus :: "64 word"
  bp_BatchSize :: int
  bp_ProfileDim :: int
  bp_PackageBytes :: int
  bp_QuantizationScale :: int
  bp_StepPolyBits :: int
  bp_ProcessParallelism :: string

definition comparator_lane :: "string \<Rightarrow> string \<Rightarrow> rat \<Rightarrow> rat \<Rightarrow> ckks_comparator" where
  "comparator_lane ident cmp gain bound = \<lparr> cc_ID = ident, cc_Comparator = cmp, cc_SharpenSelector = False, cc_SelectorSchedule = ''none'',
     cc_ComparatorGain = Fin gain, cc_ComparatorBound = Fin bound, cc_ComparatorDegree = 13, cc_ComparatorInputScale = Fin 0 \<rparr>"

definition CKKSRing32KUnionV1 :: ckks_union_profile where
  "CKKSRing32KUnionV1 = \<lparr> cu_Name = ''ckks_ring32k_union_v1'', cu_Scheme = ''ckks'', cu_RingDim = 32768, cu_Depth = 16, cu_ScalingModSize = 35,
     cu_ProfileDim = 128, cu_PayloadSlotCount = 640,
     cu_Comparators = [comparator_lane ''tanh_g5_d13'' ''tanh_chebyshev'' 5 6, comparator_lane ''logi_g4_b5_d13'' ''logistic'' 4 5,
       comparator_lane ''logi_g3_b6_d13'' ''logistic'' 3 6],
     cu_ComparatorWorkers = 3, cu_OMPThreadsPerWorker = 3 \<rparr>"

definition BFVRing32KBlindV1 :: bfv_blind_profile where
  "BFVRing32KBlindV1 = \<lparr> bp_Name = ''bfv_ring32k_blind_v1'', bp_Scheme = ''bfv'', bp_RingDim = 32768, bp_MultiplicativeDepth = 20,
     bp_PlaintextModulus = 65537, bp_BatchSize = 128, bp_ProfileDim = 128, bp_PackageBytes = 80, bp_QuantizationScale = 63, bp_StepPolyBits = 13,
     bp_ProcessParallelism = ''disabled'' \<rparr>"

definition BFVLightBlindV1 :: bfv_blind_profile where
  "BFVLightBlindV1 = \<lparr> bp_Name = ''bfv_light_blind_v1'', bp_Scheme = ''bfv'', bp_RingDim = 8192, bp_MultiplicativeDepth = 10,
     bp_PlaintextModulus = 65537, bp_BatchSize = 32, bp_ProfileDim = 8, bp_PackageBytes = 16, bp_QuantizationScale = 15, bp_StepPolyBits = 6,
     bp_ProcessParallelism = ''disabled'' \<rparr>"

section \<open>Laws\<close>

lemma slot_bytes_bytes: "slot_bytes i (map uint bs) = Ok (bs :: bytes)"
proof (induction bs arbitrary: i)
  case (Cons b bs)
  have "uint b < 256" using unsigned_less [of b] by simp
  then show ?case using Cons by (simp add: obind_def)
qed simp

text \<open>The scalar product of two quantized profiles of dimension \<open>n\<close> is at most \<open>n\<close> times the square of the scale.\<close>

lemma dot_bound:
  assumes "length xs = length ys" "\<forall>x \<in> set xs. \<bar>x\<bar> \<le> s" "\<forall>y \<in> set ys. \<bar>y\<bar> \<le> (s :: int)"
  shows "\<bar>sum_list (map2 (*) xs ys)\<bar> \<le> int (length xs) * s\<^sup>2"
  using assms
proof (induction xs ys rule: list_induct2)
  case (Cons x xs y ys)
  have "0 \<le> s" using Cons.prems(1) by fastforce
  then have "\<bar>x * y\<bar> \<le> s * s" unfolding abs_mult using Cons.prems by (intro mult_mono) auto
  moreover have "\<bar>sum_list (map2 (*) xs ys)\<bar> \<le> int (length xs) * s\<^sup>2" using Cons by simp
  ultimately show ?case by (simp add: power2_eq_square algebra_simps)
qed simp

lemma quantize_one_range: "0 < scale \<Longrightarrow> \<bar>quantize_one conv scale v\<bar> \<le> scale"
  by (auto simp: quantize_one_def Let_def)

text \<open>
  Claim C38. Packing for BFV: a payload that fits its slots is read back unchanged; there are as many quantized values as floats, each within the scale,
  whatever the floats are and however the processor converts values out of range; and the scalar product of two quantized vectors is
  at most their length times the square of the scale.
\<close>

theorem bfv_packing:
  assumes "length payload \<le> nat slotCount" "0 \<le> slotCount" "0 < scale" "length u = length w"
  shows "\<exists>slots. PayloadBytesToSlots payload slotCount = Ok slots \<and> SlotsToPayloadBytes slots (int (length payload)) = Ok payload \<and>
    (\<forall>q \<in> set (QuantizeSigned conv u scale). \<bar>q\<bar> \<le> scale) \<and> length (QuantizeSigned conv u scale) = length u \<and>
    \<bar>sum_list (map2 (*) (QuantizeSigned conv u scale) (QuantizeSigned conv w scale))\<bar> \<le> int (length u) * scale\<^sup>2"
proof -
  let ?slots = "map (\<lambda>i. if i < length payload then uint (payload ! i) else 0) [0..<nat slotCount]"
  have "take (length payload) ?slots = map uint payload"
    by (rule nth_equalityI) (use assms(1) in auto)
  then have "SlotsToPayloadBytes ?slots (int (length payload)) = Ok payload" using assms(1,2) by (simp add: SlotsToPayloadBytes_def slot_bytes_bytes)
  moreover have "\<forall>q \<in> set (QuantizeSigned conv t scale). \<bar>q\<bar> \<le> scale" for t using assms(3) quantize_one_range by (auto simp: QuantizeSigned_def)
  moreover have "length (QuantizeSigned conv t scale) = length t" for t by (simp add: QuantizeSigned_def)
  ultimately show ?thesis using assms(2,4) dot_bound [of "QuantizeSigned conv u scale" "QuantizeSigned conv w scale" scale] by (auto simp: PayloadBytesToSlots_def)
qed

theorem bfv_packing_witness:
  "\<exists>slots. PayloadBytesToSlots [7, 255] 4 = Ok slots \<and> SlotsToPayloadBytes slots 2 = Ok [7, 255] \<and>
     (\<forall>q \<in> set (QuantizeSigned (\<lambda>_. 0) [Fin 1, FNaN] 63). \<bar>q\<bar> \<le> 63)"
  using bfv_packing [of "[7, 255]" 4 63 "[Fin 1, FNaN]" "[Fin 0, Fin 0]" "\<lambda>_. 0"] by auto

text \<open>
  The profiles are consistent: a request of the dimensions of the union profile needs few enough chunks for plain fusion, its lanes carry the schedule
  that they must, the dimensions of the BFV profiles fit their batches, and with the light one no scalar product wraps around the
  plaintext modulus.
\<close>

lemma profiles_fit:
  "fq_ProfileDim req = cu_ProfileDim CKKSRing32KUnionV1 \<Longrightarrow> fq_PayloadSlotCount req = cu_PayloadSlotCount CKKSRing32KUnionV1 \<Longrightarrow> plain_fits req"
  "list_all (\<lambda>c. cc_SelectorSchedule c = ''none'') (cu_Comparators CKKSRing32KUnionV1)"
  "p \<in> {BFVRing32KBlindV1, BFVLightBlindV1} \<Longrightarrow> bp_ProfileDim p \<le> bp_BatchSize p \<and> bp_PackageBytes p \<le> bp_BatchSize p"
  "2 * bp_ProfileDim BFVLightBlindV1 * (bp_QuantizationScale BFVLightBlindV1)\<^sup>2 < uint (bp_PlaintextModulus BFVLightBlindV1)"
proof -
  have "double_until 128 1 = Some (128 :: 32 word)" by (simp add: double_until.simps)
  then show "fq_ProfileDim req = cu_ProfileDim CKKSRing32KUnionV1 \<Longrightarrow> fq_PayloadSlotCount req = cu_PayloadSlotCount CKKSRing32KUnionV1 \<Longrightarrow> plain_fits req"
    by (simp add: plain_fits_def CKKSRing32KUnionV1_def)
qed (auto simp: CKKSRing32KUnionV1_def comparator_lane_def BFVRing32KBlindV1_def BFVLightBlindV1_def)

end
