(* ===== verification/Lineage.thy ===== *)
theory Lineage
  imports Go_Crypto "HOL-Library.List_Lexorder"
begin

text \<open>
  The packages \<^verbatim>\<open>pkg/ares/sign\<close> and \<^verbatim>\<open>pkg/ares/lineage\<close>: signers, the nodes of the
  session-rooted Merkle DAG, \<^verbatim>\<open>Commit\<close>, \<^verbatim>\<open>Verify\<close>, the JSON data-transfer form of a node and the
  in-memory store.

  A \<^verbatim>\<open>NodeRef\<close> (Go's \<^verbatim>\<open>[32]byte\<close>) is a byte list; \<open>ref_wf\<close> is the length its Go type
  guarantees. The clock reading of \<^verbatim>\<open>NewDAGNode\<close> is an argument. The forensic material of a
  \<^verbatim>\<open>MismatchError\<close> is kept structured (\<open>evidence\<close>), one constructor for each text the
  source formats.
\<close>

section \<open>Signers\<close>

record signer =
  sg_Sign :: "bytes \<Rightarrow> (string, bytes) outcome"
  sg_Verify :: "bytes \<Rightarrow> bytes \<Rightarrow> bytes \<Rightarrow> string option"
  sg_PublicKey :: bytes
  sg_Algorithm :: string

text \<open>
  \<open>Ed25519Signer\<close>: the curve operations of \<^verbatim>\<open>crypto/ed25519\<close> are parameters, the size checks
  of the wrapper are the source's.
\<close>

definition Ed25519Algorithm :: string where
  "Ed25519Algorithm = ''ed25519''"

definition ed25519_Verify ::
  "(bytes \<Rightarrow> bytes \<Rightarrow> bytes \<Rightarrow> bool) \<Rightarrow> bytes \<Rightarrow> bytes \<Rightarrow> bytes \<Rightarrow> string option" where
  "ed25519_Verify edverify pubkey msg sig =
     (if length pubkey \<noteq> 32 then Some ''sign: invalid ed25519 pubkey size''
      else if length sig \<noteq> 64 then Some ''sign: invalid ed25519 signature size''
      else if \<not> edverify pubkey msg sig then Some ''sign: ed25519 signature verification failed''
      else None)"

definition NewEd25519SignerFromKey ::
  "('k \<Rightarrow> bytes) \<Rightarrow> ('k \<Rightarrow> bytes \<Rightarrow> bytes) \<Rightarrow> (bytes \<Rightarrow> bytes \<Rightarrow> bytes \<Rightarrow> bool) \<Rightarrow> 'k \<Rightarrow> signer" where
  "NewEd25519SignerFromKey edpub edsign edverify priv =
     \<lparr> sg_Sign = (\<lambda>msg. Ok (edsign priv msg)),
       sg_Verify = ed25519_Verify edverify,
       sg_PublicKey = edpub priv,
       sg_Algorithm = Ed25519Algorithm \<rparr>"

text \<open>
  The contract of \<^verbatim>\<open>sign.Signer\<close>: what \<open>v\<close> accepts are, among others, the signatures \<open>s\<close> makes.
\<close>

definition signer_accepts :: "signer \<Rightarrow> signer \<Rightarrow> bool" where
  "signer_accepts v s \<longleftrightarrow>
     (\<forall>msg sig. sg_Sign s msg = Ok sig \<longrightarrow> sg_Verify v (sg_PublicKey s) msg sig = None)"

lemma ed25519_signer_accepts:
  assumes "\<And>k. length (edpub k) = 32" and "\<And>k m. length (edsign k m) = 64"
    and "\<And>k m. edverify (edpub k) m (edsign k m)"
  shows "signer_accepts (NewEd25519SignerFromKey edpub edsign edverify k')
           (NewEd25519SignerFromKey edpub edsign edverify k)"
  by (simp add: signer_accepts_def NewEd25519SignerFromKey_def ed25519_Verify_def assms)

section \<open>Nodes\<close>

type_synonym node_ref = bytes

definition ref_wf :: "node_ref \<Rightarrow> bool" where
  "ref_wf r \<longleftrightarrow> length r = 32"

record dag_node =
  dn_Hash :: node_ref
  dn_SessionID :: string
  dn_PhaseID :: string
  dn_Role :: string
  dn_Parents :: "node_ref list"
  dn_ParentRoles :: "string list"
  dn_PayloadHash :: node_ref
  dn_CreatedAt :: int
  dn_Producer :: bytes
  dn_Signature :: bytes
  dn_Algorithm :: string

datatype evidence =
    EvNil
  | EvBytes bytes
  | EvVerifierFor string
  | EvNonEmptyProducer
  | EvParentNotInStore nat

record mismatch_error =
  mm_Field :: string
  mm_Expected :: evidence
  mm_Got :: evidence
  mm_NodeHash :: node_ref

datatype lineage_err =
    ErrNilSigner
  | ErrSignFailed string
  | ErrNodeNotFound
  | ErrNodeExists
  | ErrMismatch mismatch_error

definition writeLenPrefixed :: "bytes \<Rightarrow> bytes" where
  "writeLenPrefixed b = put_u32 (of_nat (length b)) @ b"

definition HashPayload :: "bytes \<Rightarrow> node_ref" where
  "HashPayload payload = sha256 payload"

definition node_preimage :: "string \<Rightarrow> string \<Rightarrow> string \<Rightarrow> node_ref \<Rightarrow> node_ref list \<Rightarrow> bytes" where
  "node_preimage sessionID phaseID role payloadHash sortedParents =
     writeLenPrefixed (str_bytes sessionID) @
     writeLenPrefixed (str_bytes phaseID) @
     writeLenPrefixed (str_bytes role) @
     writeLenPrefixed payloadHash @
     put_u32 (of_nat (length sortedParents)) @
     concat sortedParents"

definition DeriveNodeHash :: "string \<Rightarrow> string \<Rightarrow> string \<Rightarrow> bytes \<Rightarrow> node_ref list \<Rightarrow> node_ref" where
  "DeriveNodeHash sessionID phaseID role payload sortedParents =
     sha256 (node_preimage sessionID phaseID role (HashPayload payload) sortedParents)"

definition SigningMessage :: "node_ref \<Rightarrow> string \<Rightarrow> string \<Rightarrow> string \<Rightarrow> bytes" where
  "SigningMessage hash sessionID phaseID role =
     hash @ writeLenPrefixed (str_bytes sessionID) @
     writeLenPrefixed (str_bytes phaseID) @ writeLenPrefixed (str_bytes role)"

text \<open>
  \<^verbatim>\<open>sortParents\<close>: pair every ref with its role (the empty string where roles run out), sort
  stably by the bytes of the ref, and split the pairs again.
\<close>

definition pair_roles :: "node_ref list \<Rightarrow> string list \<Rightarrow> (node_ref \<times> string) list" where
  "pair_roles parents parentRoles =
     zip parents (take (length parents) parentRoles @ replicate (length parents - length parentRoles) [])"

definition sortParents :: "node_ref list \<Rightarrow> string list \<Rightarrow> node_ref list \<times> string list" where
  "sortParents parents parentRoles =
     (let indexed = sort_key fst (pair_roles parents parentRoles)
      in (map fst indexed, map snd indexed))"

definition NewDAGNode ::
  "int \<Rightarrow> string \<Rightarrow> string \<Rightarrow> string \<Rightarrow> bytes \<Rightarrow> node_ref list \<Rightarrow> string list
    \<Rightarrow> bytes \<Rightarrow> bytes \<Rightarrow> string \<Rightarrow> dag_node" where
  "NewDAGNode now sessionID phaseID role payload parents parentRoles producer signature algorithm =
     (let (sortedParents, sortedRoles) = sortParents parents parentRoles
      in \<lparr> dn_Hash = DeriveNodeHash sessionID phaseID role payload sortedParents,
           dn_SessionID = sessionID, dn_PhaseID = phaseID, dn_Role = role,
           dn_Parents = sortedParents, dn_ParentRoles = sortedRoles,
           dn_PayloadHash = HashPayload payload, dn_CreatedAt = now,
           dn_Producer = producer, dn_Signature = signature, dn_Algorithm = algorithm \<rparr>)"

definition Commit ::
  "int \<Rightarrow> string \<Rightarrow> string \<Rightarrow> string \<Rightarrow> bytes \<Rightarrow> dag_node list \<Rightarrow> signer option
    \<Rightarrow> (lineage_err, dag_node) outcome" where
  "Commit now sessionID phaseID role payload parents signer_opt =
     (case signer_opt of
        None \<Rightarrow> Err ErrNilSigner
      | Some s \<Rightarrow>
          (let parentRefs = map dn_Hash parents;
               parentRoles = map dn_Role parents;
               (sortedRefs, sortedRoles) = sortParents parentRefs parentRoles;
               hash = DeriveNodeHash sessionID phaseID role payload sortedRefs;
               sigMsg = SigningMessage hash sessionID phaseID role
           in (case sg_Sign s sigMsg of
                 Err e \<Rightarrow> Err (ErrSignFailed e)
               | Panic p \<Rightarrow> Panic p
               | Ok signature \<Rightarrow>
                   Ok (NewDAGNode now sessionID phaseID role payload sortedRefs sortedRoles
                         (sg_PublicKey s) signature (sg_Algorithm s)))))"

type_synonym verifiers = "(string \<times> signer) list"

definition mismatch :: "string \<Rightarrow> evidence \<Rightarrow> evidence \<Rightarrow> dag_node \<Rightarrow> mismatch_error" where
  "mismatch field expected got node =
     \<lparr> mm_Field = field, mm_Expected = expected, mm_Got = got, mm_NodeHash = dn_Hash node \<rparr>"

text \<open>\<^verbatim>\<open>Verify\<close> returns \<open>None\<close> for Go's nil error.\<close>

definition Verify :: "dag_node \<Rightarrow> bytes \<Rightarrow> verifiers \<Rightarrow> mismatch_error option" where
  "Verify node payload verifiers =
     (case map_of verifiers (dn_Algorithm node) of
        None \<Rightarrow> Some (mismatch ''Algorithm'' (EvVerifierFor (dn_Algorithm node)) EvNil node)
      | Some v \<Rightarrow>
          (let payloadHash = HashPayload payload in
           if payloadHash \<noteq> dn_PayloadHash node
           then Some (mismatch ''PayloadHash'' (EvBytes (dn_PayloadHash node)) (EvBytes payloadHash) node)
           else
             (let derived = DeriveNodeHash (dn_SessionID node) (dn_PhaseID node) (dn_Role node)
                              payload (dn_Parents node) in
              if derived \<noteq> dn_Hash node
              then Some (mismatch ''PayloadHash'' (EvBytes (dn_Hash node)) (EvBytes derived) node)
              else if dn_Producer node = []
              then Some (mismatch ''Signature'' EvNonEmptyProducer EvNil node)
              else
                (case sg_Verify v (dn_Producer node)
                        (SigningMessage (dn_Hash node) (dn_SessionID node) (dn_PhaseID node) (dn_Role node))
                        (dn_Signature node) of
                   Some _ \<Rightarrow> Some (mismatch ''Signature'' (EvBytes (dn_Signature node)) EvNil node)
                 | None \<Rightarrow> None))))"

section \<open>The JSON data-transfer form of a node\<close>

text \<open>
  A Go string is a sequence of bytes; \<^verbatim>\<open>encoding/json\<close> writes it as UTF-8 text, and each byte that does not belong to a
  well-formed sequence as the replacement character. What the reader gets is \<open>as_utf8\<close> of the string. \<open>rune_len\<close> is the length of
  the well-formed sequence a string begins with, 0 if there is none.
\<close>

definition in_byte :: "nat \<Rightarrow> nat \<Rightarrow> char \<Rightarrow> bool" where
  "in_byte lo hi c \<longleftrightarrow> lo \<le> of_char c \<and> of_char c \<le> hi"

definition second_byte :: "char \<Rightarrow> char \<Rightarrow> bool" where
  "second_byte c d \<longleftrightarrow>
     (if of_char c = (224 :: nat) then in_byte 160 191 d
      else if of_char c = (237 :: nat) then in_byte 128 159 d
      else if of_char c = (240 :: nat) then in_byte 144 191 d
      else if of_char c = (244 :: nat) then in_byte 128 143 d
      else in_byte 128 191 d)"

fun rune_len :: "string \<Rightarrow> nat" where
  "rune_len [] = 0"
| "rune_len (c # rest) =
     (if in_byte 0 127 c then 1
      else case rest of
             [] \<Rightarrow> 0
           | d # rest1 \<Rightarrow>
               if in_byte 194 223 c then (if in_byte 128 191 d then 2 else 0)
               else case rest1 of
                      [] \<Rightarrow> 0
                    | e # rest2 \<Rightarrow>
                        if in_byte 224 239 c then (if second_byte c d \<and> in_byte 128 191 e then 3 else 0)
                        else case rest2 of
                               [] \<Rightarrow> 0
                             | f # _ \<Rightarrow> if in_byte 240 244 c \<and> second_byte c d \<and> in_byte 128 191 e \<and> in_byte 128 191 f then 4 else 0)"

definition replacement_char :: string where
  "replacement_char = map char_of [239 :: nat, 191, 189]"

function as_utf8 :: "string \<Rightarrow> string" where
  "as_utf8 [] = []"
| "as_utf8 (c # rest) =
     (if rune_len (c # rest) = 0 then replacement_char @ as_utf8 rest
      else take (rune_len (c # rest)) (c # rest) @ as_utf8 (drop (rune_len (c # rest) - 1) rest))"
  by pat_completeness auto
termination by (relation "measure length") auto

function utf8_valid :: "string \<Rightarrow> bool" where
  "utf8_valid [] = True"
| "utf8_valid (c # rest) = (rune_len (c # rest) \<noteq> 0 \<and> utf8_valid (drop (rune_len (c # rest) - 1) rest))"
  by pat_completeness auto
termination by (relation "measure length") auto

text \<open>\<^verbatim>\<open>time.Time.MarshalJSON\<close> refuses an instant (here in nanoseconds since 1970, UTC) before the year 0 or after the year 9999.\<close>

definition json_time_ok :: "int \<Rightarrow> bool" where
  "json_time_ok t \<longleftrightarrow> - 62167219200 * 10 ^ 9 \<le> t \<and> t < 253402300800 * 10 ^ 9"

record dag_node_json =
  dj_hash :: string
  dj_session_id :: string
  dj_phase_id :: string
  dj_role :: string
  dj_parents :: "string list"
  dj_parent_roles :: "string list"
  dj_payload_hash :: string
  dj_created_at :: int
  dj_producer :: string
  dj_signature :: string
  dj_algorithm :: string

datatype json_err = BadTime | BadRefLength nat | BadRefHex | BadProducerHex | BadSignatureHex

definition NodeRef_UnmarshalJSON :: "string \<Rightarrow> (json_err, node_ref) outcome" where
  "NodeRef_UnmarshalJSON s =
     (if length s \<noteq> 64 then Err (BadRefLength (length s))
      else case hex_decode s of None \<Rightarrow> Err BadRefHex | Some raw \<Rightarrow> Ok raw)"

fun refs_UnmarshalJSON :: "string list \<Rightarrow> (json_err, node_ref list) outcome" where
  "refs_UnmarshalJSON [] = Ok []"
| "refs_UnmarshalJSON (s # ss) =
     (case NodeRef_UnmarshalJSON s of
        Err e \<Rightarrow> Err e
      | Panic p \<Rightarrow> Panic p
      | Ok r \<Rightarrow> (case refs_UnmarshalJSON ss of
                   Err e \<Rightarrow> Err e | Panic p \<Rightarrow> Panic p | Ok rs \<Rightarrow> Ok (r # rs)))"

definition DAGNode_MarshalJSON :: "dag_node \<Rightarrow> (json_err, dag_node_json) outcome" where
  "DAGNode_MarshalJSON n =
     (if \<not> json_time_ok (dn_CreatedAt n) then Err BadTime
      else Ok
        \<lparr> dj_hash = hex_encode (dn_Hash n), dj_session_id = as_utf8 (dn_SessionID n),
          dj_phase_id = as_utf8 (dn_PhaseID n), dj_role = as_utf8 (dn_Role n),
          dj_parents = map hex_encode (dn_Parents n), dj_parent_roles = map as_utf8 (dn_ParentRoles n),
          dj_payload_hash = hex_encode (dn_PayloadHash n), dj_created_at = dn_CreatedAt n,
          dj_producer = hex_encode (dn_Producer n), dj_signature = hex_encode (dn_Signature n),
          dj_algorithm = as_utf8 (dn_Algorithm n) \<rparr>)"

text \<open>
  The decoder reads the refs of the transfer object first (in field order), then the producer
  and the signature.
\<close>

definition DAGNode_UnmarshalJSON :: "dag_node_json \<Rightarrow> (json_err, dag_node) outcome" where
  "DAGNode_UnmarshalJSON d =
     (case NodeRef_UnmarshalJSON (dj_hash d) of Err e \<Rightarrow> Err e | Panic p \<Rightarrow> Panic p | Ok h \<Rightarrow>
     (case refs_UnmarshalJSON (dj_parents d) of Err e \<Rightarrow> Err e | Panic p \<Rightarrow> Panic p | Ok ps \<Rightarrow>
     (case NodeRef_UnmarshalJSON (dj_payload_hash d) of Err e \<Rightarrow> Err e | Panic p \<Rightarrow> Panic p | Ok ph \<Rightarrow>
     (case hex_decode (dj_producer d) of None \<Rightarrow> Err BadProducerHex | Some pub \<Rightarrow>
     (case hex_decode (dj_signature d) of None \<Rightarrow> Err BadSignatureHex | Some sig \<Rightarrow>
       Ok \<lparr> dn_Hash = h, dn_SessionID = dj_session_id d, dn_PhaseID = dj_phase_id d,
            dn_Role = dj_role d, dn_Parents = ps, dn_ParentRoles = dj_parent_roles d,
            dn_PayloadHash = ph, dn_CreatedAt = dj_created_at d,
            dn_Producer = pub, dn_Signature = sig, dn_Algorithm = dj_algorithm d \<rparr>)))))"

section \<open>The in-memory store\<close>

record in_memory_store =
  byHash :: "node_ref \<rightharpoonup> dag_node"
  bySession :: "string \<Rightarrow> node_ref list"

definition NewInMemoryStore :: in_memory_store where
  "NewInMemoryStore = \<lparr> byHash = Map.empty, bySession = (\<lambda>_. []) \<rparr>"

definition store_Append :: "in_memory_store \<Rightarrow> dag_node \<Rightarrow> lineage_err option \<times> in_memory_store" where
  "store_Append s node =
     (case byHash s (dn_Hash node) of
        Some _ \<Rightarrow> (Some ErrNodeExists, s)
      | None \<Rightarrow>
          (None, s\<lparr> byHash := (byHash s)(dn_Hash node \<mapsto> node),
                    bySession := (bySession s)(dn_SessionID node :=
                                   bySession s (dn_SessionID node) @ [dn_Hash node]) \<rparr>))"

definition store_Get :: "in_memory_store \<Rightarrow> node_ref \<Rightarrow> (lineage_err, dag_node) outcome" where
  "store_Get s hash =
     (case byHash s hash of None \<Rightarrow> Err ErrNodeNotFound | Some node \<Rightarrow> Ok node)"

definition store_WalkSession :: "in_memory_store \<Rightarrow> string \<Rightarrow> dag_node list" where
  "store_WalkSession s sessionID = List.map_filter (byHash s) (bySession s sessionID)"

definition store_Clear :: "in_memory_store \<Rightarrow> string \<Rightarrow> in_memory_store" where
  "store_Clear s sessionID =
     s\<lparr> byHash := (byHash s) |` (- set (bySession s sessionID)),
        bySession := (bySession s)(sessionID := []) \<rparr>"

section \<open>Encodings are injective\<close>

lemma length_writeLenPrefixed [simp]: "length (writeLenPrefixed b) = 4 + length b"
  by (simp add: writeLenPrefixed_def)

lemma writeLenPrefixed_append_inj:
  assumes "length b < 2 ^ 32" and "length c < 2 ^ 32"
  shows "writeLenPrefixed b @ x = writeLenPrefixed c @ y \<longleftrightarrow> b = c \<and> x = y"
proof
  assume eq: "writeLenPrefixed b @ x = writeLenPrefixed c @ y"
  then have "put_u32 (of_nat (length b)) @ (b @ x) = put_u32 (of_nat (length c)) @ (c @ y)"
    by (simp add: writeLenPrefixed_def)
  then have len: "put_u32 (of_nat (length b)) = put_u32 (of_nat (length c))" and "b @ x = c @ y"
    by (subst (asm) append_inj_length; simp)+
  moreover have "length b = length c"
    using len assms by (simp only: put_u32_inj of_nat_u32_inj)
  ultimately show "b = c \<and> x = y" by simp
qed auto

lemmas lenprefix_inj =
  writeLenPrefixed_append_inj [where b = "str_bytes s" and c = "str_bytes t" for s t, simplified]

lemma node_preimage_inj:
  assumes fields: "length s < 2 ^ 32" "length s' < 2 ^ 32" "length p < 2 ^ 32" "length p' < 2 ^ 32"
      "length r < 2 ^ 32" "length r' < 2 ^ 32"
    and refs: "ref_wf h" "ref_wf h'" "\<forall>x \<in> set ps. ref_wf x" "\<forall>x \<in> set ps'. ref_wf x"
    and counts: "length ps < 2 ^ 32" "length ps' < 2 ^ 32"
    and eq: "node_preimage s p r h ps = node_preimage s' p' r' h' ps'"
  shows "s = s' \<and> p = p' \<and> r = r' \<and> h = h' \<and> ps = ps'"
proof -
  have hs: "length h < 2 ^ 32" "length h' < 2 ^ 32"
    using refs by (simp_all add: ref_wf_def)
  have same: "s = s' \<and> p = p' \<and> r = r' \<and> h = h' \<and>
      put_u32 (of_nat (length ps)) @ concat ps = put_u32 (of_nat (length ps')) @ concat ps'"
    using eq fields hs by (simp add: node_preimage_def lenprefix_inj writeLenPrefixed_append_inj)
  then have cnt: "put_u32 (of_nat (length ps)) = put_u32 (of_nat (length ps'))"
    and cc: "concat ps = concat ps'" by (subst (asm) append_inj_length; simp)+
  from cnt counts have "length ps = length ps'"
    by (simp only: put_u32_inj of_nat_u32_inj)
  moreover note cc
  ultimately have "ps = ps'"
    using refs(3,4) by (intro concat_inj_fixlen [where n = 32]) (auto simp: ref_wf_def)
  with same show ?thesis by simp
qed

text \<open>Field lengths and ref lengths that the Go types and 32-bit length prefixes can carry.\<close>

definition fields_fit :: "string \<Rightarrow> string \<Rightarrow> string \<Rightarrow> node_ref list \<Rightarrow> bool" where
  "fields_fit s p r ps \<longleftrightarrow> length s < 2 ^ 32 \<and> length p < 2 ^ 32 \<and> length r < 2 ^ 32 \<and>
     length ps < 2 ^ 32 \<and> (\<forall>x \<in> set ps. ref_wf x)"

lemma ref_wf_sha256 [simp]: "ref_wf (sha256 m)"
  by (simp add: ref_wf_def)

lemma ref_wf_HashPayload [simp]: "ref_wf (HashPayload m)"
  by (simp add: HashPayload_def)

lemma ref_wf_DeriveNodeHash [simp]: "ref_wf (DeriveNodeHash s p r m ps)"
  by (simp add: DeriveNodeHash_def)

text \<open>What node hashes are taken of, for the nodes of two payloads.\<close>

definition node_collision ::
  "string \<Rightarrow> string \<Rightarrow> string \<Rightarrow> bytes \<Rightarrow> node_ref list \<Rightarrow> string \<Rightarrow> string \<Rightarrow> string \<Rightarrow> bytes \<Rightarrow> node_ref list \<Rightarrow> bool" where
  "node_collision s p r m ps s' p' r' m' ps' \<longleftrightarrow>
     sha_collision m m' \<or>
     sha_collision (node_preimage s p r (HashPayload m) ps) (node_preimage s' p' r' (HashPayload m') ps')"

lemma DeriveNodeHash_collision:
  assumes "fields_fit s p r ps" and "fields_fit s' p' r' ps'"
    and "DeriveNodeHash s p r m ps = DeriveNodeHash s' p' r' m' ps'"
  shows "(s = s' \<and> p = p' \<and> r = r' \<and> m = m' \<and> ps = ps') \<or> node_collision s p r m ps s' p' r' m' ps'"
proof (rule disjCI)
  assume no: "\<not> node_collision s p r m ps s' p' r' m' ps'"
  then have "node_preimage s p r (HashPayload m) ps = node_preimage s' p' r' (HashPayload m') ps'"
    using assms(3) sha256_eqD unfolding DeriveNodeHash_def node_collision_def by blast
  then have "s = s' \<and> p = p' \<and> r = r' \<and> HashPayload m = HashPayload m' \<and> ps = ps'"
    using assms(1,2) by (intro node_preimage_inj) (auto simp: fields_fit_def)
  moreover have "HashPayload m = HashPayload m' \<Longrightarrow> m = m'"
    using no sha256_eqD unfolding HashPayload_def node_collision_def by blast
  ultimately show "s = s' \<and> p = p' \<and> r = r' \<and> m = m' \<and> ps = ps'" by blast
qed

lemma SigningMessage_inj:
  assumes "ref_wf h" "ref_wf h'" "length s < 2 ^ 32" "length s' < 2 ^ 32" "length p < 2 ^ 32"
    "length p' < 2 ^ 32" "length r < 2 ^ 32" "length r' < 2 ^ 32"
    and "SigningMessage h s p r = SigningMessage h' s' p' r'"
  shows "h = h' \<and> s = s' \<and> p = p' \<and> r = r'"
proof -
  have "length h = length h'" using assms(1,2) by (simp add: ref_wf_def)
  then show ?thesis
    using assms lenprefix_inj [of r r' "[]" "[]"]
    by (simp add: SigningMessage_def lenprefix_inj)
qed

section \<open>Canonical parent order\<close>

lemma length_pair_roles [simp]: "length (pair_roles ps rs) = length ps"
  by (simp add: pair_roles_def)

lemma map_fst_pair_roles [simp]: "map fst (pair_roles ps rs) = ps"
  by (simp add: pair_roles_def map_fst_zip_take)

lemma sortParents_fst: "fst (sortParents ps rs) = sort ps"
proof -
  have "sorted (map fst (sort_key fst (pair_roles ps rs)))" by simp
  moreover have "mset (map fst (sort_key fst (pair_roles ps rs))) = mset ps"
    by (metis map_fst_pair_roles mset_map mset_sort)
  ultimately have "sort ps = map fst (sort_key fst (pair_roles ps rs))"
    by (intro properties_for_sort) simp_all
  then show ?thesis by (simp add: sortParents_def Let_def)
qed

lemma length_sortParents [simp]: "length (snd (sortParents ps rs)) = length ps"
  by (simp add: sortParents_def Let_def)

lemma pair_roles_full: "length rs = length ps \<Longrightarrow> pair_roles ps rs = zip ps rs"
  by (simp add: pair_roles_def)

lemma sortParents_pairs:
  "length rs = length ps \<Longrightarrow>
   zip (fst (sortParents ps rs)) (snd (sortParents ps rs)) = sort_key fst (zip ps rs)"
  by (simp add: sortParents_def pair_roles_full zip_map_fst_snd Let_def)

lemma sortParents_idem:
  "sortParents ps rs = (qs, ss) \<Longrightarrow> sortParents qs ss = (qs, ss)"
proof -
  assume eq: "sortParents ps rs = (qs, ss)"
  have len: "length ss = length qs"
    using eq by (auto simp: sortParents_def Let_def)
  have "zip qs ss = sort_key fst (pair_roles ps rs)"
    using eq by (auto simp: sortParents_def Let_def zip_map_fst_snd)
  then have "sort_key fst (zip qs ss) = zip qs ss"
    by (simp add: sort_key_id_if_sorted)
  with len show ?thesis
    by (simp add: sortParents_def pair_roles_full Let_def)
qed

section \<open>Commit and Verify\<close>

lemma Verify_None_iff:
  "Verify n m vs = None \<longleftrightarrow>
     (\<exists>v. map_of vs (dn_Algorithm n) = Some v \<and> HashPayload m = dn_PayloadHash n \<and>
        DeriveNodeHash (dn_SessionID n) (dn_PhaseID n) (dn_Role n) m (dn_Parents n) = dn_Hash n \<and>
        dn_Producer n \<noteq> [] \<and>
        sg_Verify v (dn_Producer n)
          (SigningMessage (dn_Hash n) (dn_SessionID n) (dn_PhaseID n) (dn_Role n)) (dn_Signature n) = None)"
  by (auto simp: Verify_def Let_def split: option.splits)

lemma Commit_Ok_iff:
  "Commit now sid ph role m parents so = Ok n \<longleftrightarrow>
     (\<exists>s sig refs roles. so = Some s \<and>
        sortParents (map dn_Hash parents) (map dn_Role parents) = (refs, roles) \<and>
        sg_Sign s (SigningMessage (DeriveNodeHash sid ph role m refs) sid ph role) = Ok sig \<and>
        n = \<lparr> dn_Hash = DeriveNodeHash sid ph role m refs, dn_SessionID = sid, dn_PhaseID = ph,
              dn_Role = role, dn_Parents = refs, dn_ParentRoles = roles,
              dn_PayloadHash = HashPayload m, dn_CreatedAt = now, dn_Producer = sg_PublicKey s,
              dn_Signature = sig, dn_Algorithm = sg_Algorithm s \<rparr>)"
  by (auto simp: Commit_def NewDAGNode_def Let_def sortParents_idem
      split: option.splits outcome.splits prod.splits)

lemma Commit_fields:
  assumes "Commit now sid ph role m parents so = Ok n"
  shows "dn_SessionID n = sid" "dn_PhaseID n = ph" "dn_Role n = role"
    "dn_PayloadHash n = HashPayload m" "dn_Parents n = sort (map dn_Hash parents)"
    "dn_Hash n = DeriveNodeHash sid ph role m (sort (map dn_Hash parents))"
  using assms sortParents_fst [of "map dn_Hash parents" "map dn_Role parents"]
  by (auto simp: Commit_Ok_iff)

text \<open>A node whose refs have the length of their Go type.\<close>

definition node_wf :: "dag_node \<Rightarrow> bool" where
  "node_wf n \<longleftrightarrow> ref_wf (dn_Hash n) \<and> ref_wf (dn_PayloadHash n) \<and> (\<forall>r \<in> set (dn_Parents n). ref_wf r)"

lemma Commit_node_wf:
  "Commit now sid ph role m parents so = Ok n \<Longrightarrow> \<forall>p \<in> set parents. node_wf p \<Longrightarrow> node_wf n"
  by (auto simp: node_wf_def Commit_fields)

lemma Verify_Commit:
  assumes "Commit now sid ph role m parents (Some s) = Ok n"
    and "map_of vs (sg_Algorithm s) = Some v" and "signer_accepts v s" and "sg_PublicKey s \<noteq> []"
  shows "Verify n m vs = None"
  using assms by (auto simp: Commit_Ok_iff Verify_None_iff signer_accepts_def)

text \<open>
  Claim C7. A node that \<^verbatim>\<open>Commit\<close> produced passes \<^verbatim>\<open>Verify\<close> on the committed payload, under every
  verifier map in which the signer's algorithm has a verifier that accepts its signatures.
\<close>

theorem commit_verifies:
  assumes "Commit now sid ph role m parents (Some s) = Ok n"
    and "map_of vs (sg_Algorithm s) = Some v" and "signer_accepts v s" and "sg_PublicKey s \<noteq> []"
  shows "Verify n m vs = None \<and> dn_SessionID n = sid \<and> dn_PhaseID n = ph \<and> dn_Role n = role \<and>
    sorted (dn_Parents n) \<and> mset (dn_Parents n) = mset (map dn_Hash parents)"
  using Verify_Commit [OF assms] Commit_fields [OF assms(1)] by simp

text \<open>
  A signer to instantiate the interface with: it signs with the message itself.
\<close>

definition echo_signer :: signer where
  "echo_signer = \<lparr> sg_Sign = (\<lambda>m. Ok m), sg_Verify = (\<lambda>pk m sg. if pk = [7] \<and> sg = m then None else Some ''bad''),
                   sg_PublicKey = [7], sg_Algorithm = ''echo'' \<rparr>"

lemma echo_signer_accepts: "signer_accepts echo_signer echo_signer"
  by (simp add: signer_accepts_def echo_signer_def)

lemma echo_Commit_Ok: "\<exists>n. Commit now sid ph role m parents (Some echo_signer) = Ok n"
  by (simp add: Commit_def echo_signer_def Let_def split: prod.split)

lemma commit_verifies_witness:
  "\<exists>n. Commit 5 ''s1'' ''phase-1b'' ''profile-ct'' [1, 2, 3] [] (Some echo_signer) = Ok n \<and>
       Verify n [1, 2, 3] [(''echo'', echo_signer)] = None"
proof -
  obtain n where n: "Commit 5 ''s1'' ''phase-1b'' ''profile-ct'' [1, 2, 3] [] (Some echo_signer) = Ok n"
    using echo_Commit_Ok by blast
  have "Verify n [1, 2, 3] [(''echo'', echo_signer)] = None"
    using commit_verifies [OF n, of "[(''echo'', echo_signer)]" echo_signer] echo_signer_accepts
    by (simp add: echo_signer_def)
  with n show ?thesis by blast
qed

text \<open>
  Claim C8. Tamper evidence: two nodes with one content hash that both pass \<^verbatim>\<open>Verify\<close> agree on
  session, phase, role, parents and on the payload bytes they were verified against, or the two
  payloads, or the two preimages of the node hash, collide under SHA-256.
\<close>

theorem verify_binds_payload:
  assumes "Verify n m vs = None" and "Verify n' m' vs' = None" and "dn_Hash n = dn_Hash n'"
    and "fields_fit (dn_SessionID n) (dn_PhaseID n) (dn_Role n) (dn_Parents n)"
    and "fields_fit (dn_SessionID n') (dn_PhaseID n') (dn_Role n') (dn_Parents n')"
  shows "(m = m' \<and> dn_SessionID n = dn_SessionID n' \<and> dn_PhaseID n = dn_PhaseID n' \<and>
          dn_Role n = dn_Role n' \<and> dn_Parents n = dn_Parents n') \<or>
    node_collision (dn_SessionID n) (dn_PhaseID n) (dn_Role n) m (dn_Parents n)
      (dn_SessionID n') (dn_PhaseID n') (dn_Role n') m' (dn_Parents n')"
  using DeriveNodeHash_collision [OF assms(4,5), of m m'] assms(1-3)
  by (auto simp: Verify_None_iff)

lemma verify_binds_payload_witness:
  "\<exists>n. Verify n [1] [(''echo'', echo_signer)] = None \<and>
    fields_fit (dn_SessionID n) (dn_PhaseID n) (dn_Role n) (dn_Parents n) \<and>
    (\<forall>m'. Verify n m' [(''echo'', echo_signer)] = None \<longrightarrow> m' = [1] \<or>
       node_collision (dn_SessionID n) (dn_PhaseID n) (dn_Role n) [1] (dn_Parents n)
         (dn_SessionID n) (dn_PhaseID n) (dn_Role n) m' (dn_Parents n))"
proof -
  obtain n where n: "Commit 0 ''s'' ''p'' ''r'' [1] [] (Some echo_signer) = Ok n"
    using echo_Commit_Ok by blast
  have ok: "Verify n [1] [(''echo'', echo_signer)] = None"
    using Verify_Commit [OF n, of "[(''echo'', echo_signer)]" echo_signer] echo_signer_accepts
    by (simp add: echo_signer_def)
  have fit: "fields_fit (dn_SessionID n) (dn_PhaseID n) (dn_Role n) (dn_Parents n)"
    by (simp add: Commit_fields [OF n] fields_fit_def)
  have "m' = [1] \<or> node_collision (dn_SessionID n) (dn_PhaseID n) (dn_Role n) [1] (dn_Parents n)
      (dn_SessionID n) (dn_PhaseID n) (dn_Role n) m' (dn_Parents n)"
    if "Verify n m' [(''echo'', echo_signer)] = None" for m'
    using verify_binds_payload [OF ok that refl fit fit] by auto
  with ok fit show ?thesis by blast
qed

text \<open>
  The content hash and the parent list of a committed node do not depend on the order
  in which the parents are listed.
\<close>

theorem commit_parent_order:
  assumes "mset (map dn_Hash parents) = mset (map dn_Hash parents')"
    and "Commit now sid ph role m parents so = Ok n"
    and "Commit now' sid ph role m parents' so' = Ok n'"
  shows "dn_Hash n = dn_Hash n' \<and> dn_Parents n = dn_Parents n'"
proof -
  have "sort (map dn_Hash parents) = sort (map dn_Hash parents')"
    using assms(1) by (intro properties_for_sort) simp_all
  then show ?thesis using assms(2,3) by (simp add: Commit_fields)
qed

definition sample_node :: "node_ref \<Rightarrow> string \<Rightarrow> string \<Rightarrow> dag_node" where
  "sample_node h sid role =
     \<lparr> dn_Hash = h, dn_SessionID = sid, dn_PhaseID = ''p'', dn_Role = role, dn_Parents = [],
       dn_ParentRoles = [], dn_PayloadHash = replicate 32 0, dn_CreatedAt = 0, dn_Producer = [7],
       dn_Signature = [], dn_Algorithm = ''echo'' \<rparr>"

lemma commit_parent_order_witness:
  "\<exists>n n'. Commit 0 ''s'' ''q'' ''r'' [9] [sample_node [1] ''s'' ''a'', sample_node [2] ''s'' ''b''] (Some echo_signer) = Ok n \<and>
     Commit 1 ''s'' ''q'' ''r'' [9] [sample_node [2] ''s'' ''b'', sample_node [1] ''s'' ''a''] (Some echo_signer) = Ok n' \<and>
     dn_Hash n = dn_Hash n'"
proof -
  let ?a = "sample_node [1] ''s'' ''a''" and ?b = "sample_node [2] ''s'' ''b''"
  obtain n where n: "Commit 0 ''s'' ''q'' ''r'' [9] [?a, ?b] (Some echo_signer) = Ok n"
    using echo_Commit_Ok by blast
  obtain n' where n': "Commit 1 ''s'' ''q'' ''r'' [9] [?b, ?a] (Some echo_signer) = Ok n'"
    using echo_Commit_Ok by blast
  have "mset (map dn_Hash [?a, ?b]) = mset (map dn_Hash [?b, ?a])" by simp
  from commit_parent_order [OF this n n'] n n' show ?thesis by blast
qed

section \<open>The transfer form round-trips\<close>

lemma NodeRef_UnmarshalJSON_hex [simp]:
  "ref_wf r \<Longrightarrow> NodeRef_UnmarshalJSON (hex_encode r) = Ok r"
  by (simp add: NodeRef_UnmarshalJSON_def ref_wf_def)

lemma refs_UnmarshalJSON_hex [simp]:
  "\<forall>r \<in> set rs. ref_wf r \<Longrightarrow> refs_UnmarshalJSON (map hex_encode rs) = Ok rs"
  by (induction rs) simp_all

lemma NodeRef_UnmarshalJSON_wf: "NodeRef_UnmarshalJSON s = Ok r \<Longrightarrow> ref_wf r"
  by (auto simp: NodeRef_UnmarshalJSON_def ref_wf_def split: if_splits option.splits
      dest!: hex_decode_length)

lemma refs_UnmarshalJSON_wf: "refs_UnmarshalJSON ss = Ok rs \<Longrightarrow> \<forall>r \<in> set rs. ref_wf r"
  by (induction ss arbitrary: rs) (auto split: outcome.splits dest: NodeRef_UnmarshalJSON_wf)

lemma rune_len_bound: "rune_len s \<le> length s"
  by (cases s) (auto split: list.split)

lemma as_utf8_longer: "length s \<le> length (as_utf8 s) \<and> (\<not> utf8_valid s \<longrightarrow> length s < length (as_utf8 s))"
proof (induction s rule: as_utf8.induct)
  case (2 c rest)
  show ?case
  proof (cases "rune_len (c # rest) = 0")
    case True
    then show ?thesis using 2(1) by (simp add: replacement_char_def del: rune_len.simps)
  next
    case False
    moreover have "rune_len (c # rest) \<le> length (c # rest)" by (rule rune_len_bound)
    ultimately show ?thesis using 2(2) by (auto simp del: rune_len.simps)
  qed
qed simp

lemma as_utf8_id: "as_utf8 s = s \<longleftrightarrow> utf8_valid s"
proof
  show "utf8_valid s \<Longrightarrow> as_utf8 s = s"
  proof (induction s rule: as_utf8.induct)
    case (2 c rest)
    then have n: "rune_len (c # rest) \<noteq> 0" by (simp del: rune_len.simps)
    then obtain k where k: "rune_len (c # rest) = Suc k" using not0_implies_Suc by blast
    then show ?case using 2 by (simp del: rune_len.simps)
  qed simp
qed (use as_utf8_longer [of s] in auto)

text \<open>What a node is after one trip over the wire, and the nodes that are the same after it.\<close>

definition on_wire :: "dag_node \<Rightarrow> dag_node" where
  "on_wire n = n\<lparr> dn_SessionID := as_utf8 (dn_SessionID n), dn_PhaseID := as_utf8 (dn_PhaseID n), dn_Role := as_utf8 (dn_Role n),
     dn_ParentRoles := map as_utf8 (dn_ParentRoles n), dn_Algorithm := as_utf8 (dn_Algorithm n) \<rparr>"

definition node_text_ok :: "dag_node \<Rightarrow> bool" where
  "node_text_ok n \<longleftrightarrow> utf8_valid (dn_SessionID n) \<and> utf8_valid (dn_PhaseID n) \<and> utf8_valid (dn_Role n) \<and>
     (\<forall>x \<in> set (dn_ParentRoles n). utf8_valid x) \<and> utf8_valid (dn_Algorithm n)"

lemma on_wire_id: "on_wire n = n \<longleftrightarrow> node_text_ok n"
proof -
  have "map as_utf8 xs = xs \<longleftrightarrow> (\<forall>x \<in> set xs. utf8_valid x)" for xs by (induction xs) (auto simp: as_utf8_id)
  then show ?thesis by (cases n) (simp add: on_wire_def node_text_ok_def as_utf8_id)
qed

text \<open>
  Claim C15. The wire form of a node: \<^verbatim>\<open>MarshalJSON\<close> fails exactly on a creation time outside the years 0 to 9999. Otherwise decoding what it produced
  gives the node with every byte of its texts that is not part of well-formed UTF-8 replaced by the replacement character; it is the node itself exactly when its session, phase, role,
  parent roles and algorithm are well-formed UTF-8. Whatever the decoder accepts has refs of exactly 32 bytes.
\<close>

theorem dagnode_json_roundtrip:
  "(is_ok (DAGNode_MarshalJSON n) \<longleftrightarrow> json_time_ok (dn_CreatedAt n)) \<and>
   (\<forall>d. node_wf n \<and> DAGNode_MarshalJSON n = Ok d \<longrightarrow>
      DAGNode_UnmarshalJSON d = Ok (on_wire n) \<and> (DAGNode_UnmarshalJSON d = Ok n \<longleftrightarrow> node_text_ok n)) \<and>
   (\<forall>d n'. DAGNode_UnmarshalJSON d = Ok n' \<longrightarrow> node_wf n')"
proof (intro conjI allI impI)
  show "is_ok (DAGNode_MarshalJSON n) = json_time_ok (dn_CreatedAt n)" by (simp add: DAGNode_MarshalJSON_def)
  fix d assume d: "node_wf n \<and> DAGNode_MarshalJSON n = Ok d"
  then show eq: "DAGNode_UnmarshalJSON d = Ok (on_wire n)"
    by (auto simp: DAGNode_UnmarshalJSON_def DAGNode_MarshalJSON_def node_wf_def on_wire_def split: if_splits)
  show "DAGNode_UnmarshalJSON d = Ok n \<longleftrightarrow> node_text_ok n" unfolding eq using on_wire_id by simp
next
  fix d n' assume "DAGNode_UnmarshalJSON d = Ok n'"
  then show "node_wf n'"
    by (auto simp: DAGNode_UnmarshalJSON_def node_wf_def split: outcome.splits option.splits
        dest: NodeRef_UnmarshalJSON_wf refs_UnmarshalJSON_wf)
qed

lemma dagnode_json_roundtrip_witness:
  "\<exists>d. DAGNode_MarshalJSON (sample_node (replicate 32 1) ''s'' ''r'') = Ok d \<and>
     DAGNode_UnmarshalJSON d = Ok (sample_node (replicate 32 1) ''s'' ''r'')"
proof -
  let ?n = "sample_node (replicate 32 1) ''s'' ''r''"
  have "json_time_ok (dn_CreatedAt ?n)" "node_wf ?n" "node_text_ok ?n"
    by (simp_all add: json_time_ok_def node_wf_def sample_node_def ref_wf_def node_text_ok_def in_byte_def)
  moreover from this(1) have "\<exists>d. DAGNode_MarshalJSON ?n = Ok d" by (simp add: DAGNode_MarshalJSON_def)
  ultimately show ?thesis using dagnode_json_roundtrip [of ?n] by blast
qed

text \<open>A role that is the single byte 255 comes back as the three bytes of the replacement character, so the hash of the node no longer fits it.\<close>

lemma bad_role_changes: "as_utf8 [char_of (255 :: nat)] = replacement_char" "replacement_char \<noteq> [char_of (255 :: nat)]"
  by (simp_all add: in_byte_def replacement_char_def)

section \<open>The store contract\<close>

text \<open>
  What a client of \<^verbatim>\<open>lineage.Store\<close> relies on: append-only, content-addressed, and a session walk
  that lists exactly the session's nodes in the order of their first append.
\<close>

locale lineage_store =
  fixes empty :: 's
    and append :: "'s \<Rightarrow> dag_node \<Rightarrow> lineage_err option \<times> 's"
    and get :: "'s \<Rightarrow> node_ref \<Rightarrow> (lineage_err, dag_node) outcome"
    and walk :: "'s \<Rightarrow> string \<Rightarrow> dag_node list"
    and inv :: "'s \<Rightarrow> bool"
  assumes inv_empty: "inv empty"
    and walk_empty: "walk empty sid = []"
    and get_total: "get s h = Err ErrNodeNotFound \<or> (\<exists>n. get s h = Ok n)"
    and get_hash: "inv s \<Longrightarrow> get s h = Ok n \<Longrightarrow> dn_Hash n = h"
    and append_dup: "get s (dn_Hash n) = Ok m \<Longrightarrow> append s n = (Some ErrNodeExists, s)"
    and append_new: "get s (dn_Hash n) = Err ErrNodeNotFound \<Longrightarrow> fst (append s n) = None"
    and get_append: "get s (dn_Hash n) = Err ErrNodeNotFound \<Longrightarrow>
          get (snd (append s n)) h = (if h = dn_Hash n then Ok n else get s h)"
    and walk_append: "inv s \<Longrightarrow> get s (dn_Hash n) = Err ErrNodeNotFound \<Longrightarrow>
          walk (snd (append s n)) sid = walk s sid @ (if sid = dn_SessionID n then [n] else [])"
    and walk_get: "inv s \<Longrightarrow> n \<in> set (walk s sid) \<longleftrightarrow> dn_SessionID n = sid \<and> get s (dn_Hash n) = Ok n"
    and inv_append: "inv s \<Longrightarrow> inv (snd (append s n))"
begin

lemma append_cases:
  "append s n = (Some ErrNodeExists, s) \<or>
   (get s (dn_Hash n) = Err ErrNodeNotFound \<and> fst (append s n) = None)"
  using get_total [of s "dn_Hash n"] append_dup append_new by blast

lemma append_result: "fst (append s n) = None \<or> fst (append s n) = Some ErrNodeExists"
  using append_cases [of s n] by auto

lemma get_append_self: "\<exists>m. get (snd (append s n)) (dn_Hash n) = Ok m"
proof (cases "get s (dn_Hash n) = Err ErrNodeNotFound")
  case True
  then show ?thesis by (simp add: get_append)
next
  case False
  then obtain m where "get s (dn_Hash n) = Ok m" using get_total by blast
  then show ?thesis by (simp add: append_dup)
qed

lemma get_append_mono: "get s h = Ok m \<Longrightarrow> get (snd (append s n)) h = Ok m"
  using append_cases [of s n] get_append [of s n h] by auto

lemma append_twice: "snd (append (snd (append s n)) n) = snd (append s n)"
  using get_append_self [of s n] append_dup by (metis sndI)

lemma walk_append_prefix: "inv s \<Longrightarrow> prefix (walk s sid) (walk (snd (append s n)) sid)"
  using append_cases [of s n] by (auto simp: walk_append)

lemma get_fold_mono: "get s h = Ok m \<Longrightarrow> get (fold (\<lambda>n s. snd (append s n)) ns s) h = Ok m"
  by (induction ns arbitrary: s) (auto intro: get_append_mono)

lemma inv_fold: "inv s \<Longrightarrow> inv (fold (\<lambda>n s. snd (append s n)) ns s)"
  by (induction ns arbitrary: s) (auto intro: inv_append)

lemma get_fold_all:
  "n \<in> set ns \<Longrightarrow> \<exists>m. get (fold (\<lambda>n s. snd (append s n)) ns s) (dn_Hash n) = Ok m"
proof (induction ns arbitrary: s)
  case (Cons a ns)
  show ?case
  proof (cases "n = a")
    case True
    obtain m where "get (snd (append s a)) (dn_Hash a) = Ok m" using get_append_self by blast
    then show ?thesis using True get_fold_mono by force
  qed (use Cons in auto)
qed simp

end

definition store_wf :: "in_memory_store \<Rightarrow> bool" where
  "store_wf s \<longleftrightarrow>
     (\<forall>h n. byHash s h = Some n \<longrightarrow> dn_Hash n = h \<and> h \<in> set (bySession s (dn_SessionID n))) \<and>
     (\<forall>sid. \<forall>h \<in> set (bySession s sid). \<exists>n. byHash s h = Some n \<and> dn_SessionID n = sid)"

lemma store_wfD1: "store_wf s \<Longrightarrow> byHash s h = Some n \<Longrightarrow> dn_Hash n = h \<and> h \<in> set (bySession s (dn_SessionID n))"
  by (simp add: store_wf_def)

lemma store_wfD2: "store_wf s \<Longrightarrow> h \<in> set (bySession s sid) \<Longrightarrow> \<exists>n. byHash s h = Some n \<and> dn_SessionID n = sid"
  by (simp add: store_wf_def)

lemma store_wf_New [simp]: "store_wf NewInMemoryStore"
  by (simp add: store_wf_def NewInMemoryStore_def)

lemma store_wf_Append: "store_wf s \<Longrightarrow> store_wf (snd (store_Append s n))"
proof (cases "byHash s (dn_Hash n)")
  case None
  assume wf: "store_wf s"
  then have fresh: "dn_Hash n \<notin> set (bySession s sid)" for sid
    using None store_wfD2 by fastforce
  from wf show ?thesis
    using None fresh unfolding store_wf_def store_Append_def by simp metis
qed (simp add: store_Append_def)

lemma store_wf_Clear: "store_wf s \<Longrightarrow> store_wf (store_Clear s sid)"
proof -
  assume wf: "store_wf s"
  let ?s = "store_Clear s sid"
  have "dn_Hash n = h \<and> h \<in> set (bySession ?s (dn_SessionID n))" if "byHash ?s h = Some n" for h n
  proof -
    have h: "byHash s h = Some n" "h \<notin> set (bySession s sid)"
      using that by (auto simp: store_Clear_def restrict_map_def split: if_splits)
    then show ?thesis using store_wfD1 [OF wf h(1)] by (auto simp: store_Clear_def)
  qed
  moreover have "\<exists>n. byHash ?s h = Some n \<and> dn_SessionID n = sid'"
    if "h \<in> set (bySession ?s sid')" for sid' h
  proof -
    have h: "h \<in> set (bySession s sid')" "sid' \<noteq> sid"
      using that by (auto simp: store_Clear_def split: if_splits)
    then obtain n where n: "byHash s h = Some n" "dn_SessionID n = sid'"
      using store_wfD2 [OF wf] by blast
    then have "h \<notin> set (bySession s sid)" using store_wfD2 [OF wf, of h sid] h(2) by auto
    with n show ?thesis by (simp add: store_Clear_def restrict_map_def)
  qed
  ultimately show ?thesis unfolding store_wf_def by blast
qed

lemma map_filter_cong: "(\<And>x. x \<in> set xs \<Longrightarrow> f x = g x) \<Longrightarrow> List.map_filter f xs = List.map_filter g xs"
  by (induction xs) (auto simp: List.map_filter_simps split: option.split)

lemma map_filter_append: "List.map_filter f (xs @ ys) = List.map_filter f xs @ List.map_filter f ys"
  by (simp add: List.map_filter_def)

lemma set_map_filter: "set (List.map_filter f xs) = {y. \<exists>x \<in> set xs. f x = Some y}"
  by (force simp: List.map_filter_def)

lemma store_walk_append:
  assumes wf: "store_wf s" and new: "byHash s (dn_Hash n) = None"
  shows "store_WalkSession (snd (store_Append s n)) sid =
    store_WalkSession s sid @ (if sid = dn_SessionID n then [n] else [])"
proof -
  have "List.map_filter ((byHash s)(dn_Hash n \<mapsto> n)) (bySession s sid)
      = List.map_filter (byHash s) (bySession s sid)" for sid
    using store_wfD2 [OF wf] new by (intro map_filter_cong) force
  then show ?thesis
    using new by (simp add: store_WalkSession_def store_Append_def map_filter_append List.map_filter_simps)
qed

lemma store_walk_get:
  assumes wf: "store_wf s"
  shows "n \<in> set (store_WalkSession s sid) \<longleftrightarrow> dn_SessionID n = sid \<and> store_Get s (dn_Hash n) = Ok n"
proof
  assume "n \<in> set (store_WalkSession s sid)"
  then obtain h where h: "h \<in> set (bySession s sid)" "byHash s h = Some n"
    by (auto simp: store_WalkSession_def set_map_filter)
  with store_wfD1 [OF wf h(2)] store_wfD2 [OF wf h(1)]
  show "dn_SessionID n = sid \<and> store_Get s (dn_Hash n) = Ok n"
    by (auto simp: store_Get_def)
next
  assume "dn_SessionID n = sid \<and> store_Get s (dn_Hash n) = Ok n"
  then have "dn_SessionID n = sid" and "byHash s (dn_Hash n) = Some n"
    by (auto simp: store_Get_def split: option.splits)
  with store_wfD1 [OF wf] show "n \<in> set (store_WalkSession s sid)"
    unfolding store_WalkSession_def set_map_filter by blast
qed

interpretation ims: lineage_store NewInMemoryStore store_Append store_Get store_WalkSession store_wf
proof unfold_locales
  show "store_WalkSession NewInMemoryStore sid = []" for sid
    by (simp add: store_WalkSession_def NewInMemoryStore_def List.map_filter_simps)
  show "store_Get s h = Err ErrNodeNotFound \<or> (\<exists>n. store_Get s h = Ok n)" for s h
    by (simp add: store_Get_def split: option.split)
  show "store_wf s \<Longrightarrow> store_Get s h = Ok n \<Longrightarrow> dn_Hash n = h" for s h n
    by (auto simp: store_Get_def store_wfD1 split: option.splits)
  show "store_Get s (dn_Hash n) = Ok m \<Longrightarrow> store_Append s n = (Some ErrNodeExists, s)" for s n m
    by (auto simp: store_Get_def store_Append_def split: option.splits)
  show "store_Get s (dn_Hash n) = Err ErrNodeNotFound \<Longrightarrow> fst (store_Append s n) = None" for s n
    by (auto simp: store_Get_def store_Append_def split: option.splits)
  show "store_Get s (dn_Hash n) = Err ErrNodeNotFound \<Longrightarrow>
      store_Get (snd (store_Append s n)) h = (if h = dn_Hash n then Ok n else store_Get s h)" for s n h
    by (auto simp: store_Get_def store_Append_def split: option.splits)
  show "store_wf s \<Longrightarrow> store_Get s (dn_Hash n) = Err ErrNodeNotFound \<Longrightarrow>
      store_WalkSession (snd (store_Append s n)) sid
        = store_WalkSession s sid @ (if sid = dn_SessionID n then [n] else [])" for s n sid
    by (rule store_walk_append) (auto simp: store_Get_def split: option.splits)
  show "store_wf s \<Longrightarrow> n \<in> set (store_WalkSession s sid) \<longleftrightarrow>
      dn_SessionID n = sid \<and> store_Get s (dn_Hash n) = Ok n" for s n sid
    by (rule store_walk_get)
qed (simp_all add: store_wf_Append)

text \<open>
  Appending to the in-memory store is idempotent and loses nothing: afterwards the
  node's hash resolves, every hash that resolved before resolves to the same node, the walk of
  every session has the old walk as a prefix, and the only error is \<^verbatim>\<open>ErrNodeExists\<close>, returned
  exactly when the hash was present.
\<close>

theorem store_append_only:
  assumes "store_wf s" and "store_Append s n = (e, s')"
  shows "store_wf s' \<and> (\<exists>m. store_Get s' (dn_Hash n) = Ok m) \<and>
    (\<forall>h m. store_Get s h = Ok m \<longrightarrow> store_Get s' h = Ok m) \<and>
    (\<forall>sid. prefix (store_WalkSession s sid) (store_WalkSession s' sid)) \<and>
    (e = None \<or> e = Some ErrNodeExists) \<and>
    (e = Some ErrNodeExists \<longleftrightarrow> is_ok (store_Get s (dn_Hash n))) \<and>
    store_Append s' n = (Some ErrNodeExists, s')"
proof -
  have s': "s' = snd (store_Append s n)" "e = fst (store_Append s n)" using assms(2) by simp_all
  obtain m where m: "store_Get s' (dn_Hash n) = Ok m" using ims.get_append_self s' by blast
  have "e = Some ErrNodeExists \<longleftrightarrow> is_ok (store_Get s (dn_Hash n))"
    using assms(2) by (auto simp: store_Append_def store_Get_def split: option.splits)
  then show ?thesis
    using s' m ims.inv_append [OF assms(1)] ims.get_append_mono ims.walk_append_prefix [OF assms(1)]
      ims.append_result [of s n] ims.append_dup [OF m] by auto
qed

lemma store_append_only_witness:
  "store_wf (snd (store_Append NewInMemoryStore (sample_node [1] ''s'' ''r'')))"
  using store_append_only [OF store_wf_New surjective_pairing, of "sample_node [1] ''s'' ''r''"]
  by (rule conjunct1)

lemma store_Clear_Get:
  "store_Get (store_Clear s sid) h =
     (if h \<in> set (bySession s sid) then Err ErrNodeNotFound else store_Get s h)"
  by (simp add: store_Get_def store_Clear_def restrict_map_def)

lemma store_session_member:
  "store_wf s \<Longrightarrow> store_Get s h = Ok n \<Longrightarrow> h \<in> set (bySession s sid) \<longleftrightarrow> dn_SessionID n = sid"
  using store_wfD1 [of s h n] store_wfD2 [of s h sid]
  by (auto simp: store_Get_def split: option.splits)

text \<open>
  \<^verbatim>\<open>Clear\<close> drops the nodes of the named session and no others: its walk is empty, its
  hashes no longer resolve, and every node of another session still resolves and is still
  walked.
\<close>

theorem store_clear_session:
  assumes "store_wf s"
  shows "store_wf (store_Clear s sid) \<and> store_WalkSession (store_Clear s sid) sid = [] \<and>
    (\<forall>h n. store_Get s h = Ok n \<longrightarrow>
       store_Get (store_Clear s sid) h = (if dn_SessionID n = sid then Err ErrNodeNotFound else Ok n)) \<and>
    (\<forall>sid'. sid' \<noteq> sid \<longrightarrow> store_WalkSession (store_Clear s sid) sid' = store_WalkSession s sid')"
proof (intro conjI allI impI)
  show "store_wf (store_Clear s sid)" using assms by (rule store_wf_Clear)
  show "store_WalkSession (store_Clear s sid) sid = []"
    by (simp add: store_WalkSession_def store_Clear_def List.map_filter_simps)
next
  fix h n assume "store_Get s h = Ok n"
  then show "store_Get (store_Clear s sid) h = (if dn_SessionID n = sid then Err ErrNodeNotFound else Ok n)"
    using store_session_member [OF assms] by (simp add: store_Clear_Get)
next
  fix sid' assume ne: "sid' \<noteq> sid"
  have "h \<notin> set (bySession s sid)" if "h \<in> set (bySession s sid')" for h
    using that ne store_wfD2 [OF assms, of h sid] store_wfD2 [OF assms, of h sid'] by auto
  then have "List.map_filter (byHash (store_Clear s sid)) (bySession s sid')
      = List.map_filter (byHash s) (bySession s sid')"
    by (intro map_filter_cong) (auto simp: store_Clear_def)
  with ne show "store_WalkSession (store_Clear s sid) sid' = store_WalkSession s sid'"
    by (simp add: store_WalkSession_def store_Clear_def)
qed

lemma store_clear_session_witness:
  "store_WalkSession (store_Clear (snd (store_Append NewInMemoryStore (sample_node [1] ''s'' ''r''))) ''s'') ''s'' = []"
  using store_clear_session [of "snd (store_Append NewInMemoryStore (sample_node [1] ''s'' ''r''))" "''s''"]
    store_wf_Append [OF store_wf_New] by blast

section \<open>Closure of the DAG\<close>

text \<open>Every parent of a stored node is stored.\<close>

definition dag_closed :: "in_memory_store \<Rightarrow> bool" where
  "dag_closed s \<longleftrightarrow> (\<forall>h n. byHash s h = Some n \<longrightarrow> (\<forall>p \<in> set (dn_Parents n). byHash s p \<noteq> None))"

lemma dag_closed_New [simp]: "dag_closed NewInMemoryStore"
  by (simp add: dag_closed_def NewInMemoryStore_def)

lemma dag_closed_Append:
  "dag_closed s \<Longrightarrow> \<forall>p \<in> set (dn_Parents n). is_ok (store_Get s p) \<Longrightarrow> dag_closed (snd (store_Append s n))"
  unfolding dag_closed_def store_Append_def store_Get_def is_ok_def
  by (simp split: option.splits)

lemma store_Get_walk:
  "store_wf s \<Longrightarrow> n \<in> set (store_WalkSession s sid) \<Longrightarrow> store_Get s (dn_Hash n) = Ok n"
  by (simp add: ims.walk_get)

section \<open>Sound stores\<close>

text \<open>A node whose hash is the one its own fields derive.\<close>

definition node_authentic :: "dag_node \<Rightarrow> bool" where
  "node_authentic n \<longleftrightarrow>
     dn_Hash n = sha256 (node_preimage (dn_SessionID n) (dn_PhaseID n) (dn_Role n) (dn_PayloadHash n) (dn_Parents n))"

definition store_sound :: "in_memory_store \<Rightarrow> bool" where
  "store_sound s \<longleftrightarrow> store_wf s \<and> dag_closed s \<and> (\<forall>h n. byHash s h = Some n \<longrightarrow> node_authentic n)"

lemma Commit_authentic: "Commit now sid ph role m parents so = Ok n \<Longrightarrow> node_authentic n"
  by (simp add: node_authentic_def DeriveNodeHash_def Commit_fields)

lemma Verify_authentic: "Verify n m vs = None \<Longrightarrow> node_authentic n"
  by (auto simp: node_authentic_def Verify_None_iff DeriveNodeHash_def)

lemma store_sound_New [simp]: "store_sound NewInMemoryStore"
  by (simp add: store_sound_def) (simp add: NewInMemoryStore_def)

lemma store_sound_Append:
  assumes "store_sound s" and "node_authentic n" and "\<forall>p \<in> set (dn_Parents n). is_ok (store_Get s p)"
  shows "store_sound (snd (store_Append s n))"
  using assms store_wf_Append [of s n] dag_closed_Append [of s n]
  by (auto simp: store_sound_def store_Append_def split: option.splits if_splits)

end
