(* ===== verification/Session_Context.thy ===== *)
theory Session_Context
  imports Lineage Go_Value
begin

text \<open>
  \<^verbatim>\<open>pkg/ares/phase/errors.go\<close>, \<^verbatim>\<open>context.go\<close> and \<^verbatim>\<open>accumulator.go\<close>: the classification of errors,
  the per-session bag of values that the phases share, and the accumulation of one message
  per sender in it.

  An error is a value of \<open>err\<close> that keeps the structure of the \<^verbatim>\<open>fmt.Errorf\<close> calls: \<open>Classified\<close>
  is a \<^verbatim>\<open>%w\<close> of one of the four sentinels, \<open>Note\<close> a prefix around another error, \<open>Msg\<close> a text
  with the values it names, \<open>Lin\<close> an error of the lineage package, \<open>MissingContextError\<close> the
  source's type. The lock of a context makes each of its operations atomic, which is how they
  are modelled.
\<close>

section \<open>Errors\<close>

datatype err_class = ErrTransient | ErrPermanent | ErrAppAttributable | ErrFrameworkBug

datatype err =
    Classified err_class err
  | Note string string err
  | Msg string "string list"
  | Lin lineage_err
  | MissingContextError string string

text \<open>\<^verbatim>\<open>errors.Is(err, phase.ErrXxx)\<close> and \<^verbatim>\<open>errors.As(err, &mismatch)\<close>.\<close>

fun err_is :: "err \<Rightarrow> err_class \<Rightarrow> bool" where
  "err_is (Classified c e) k = (c = k \<or> err_is e k)"
| "err_is (Note _ _ e) k = err_is e k"
| "err_is _ k = False"

fun err_as_mismatch :: "err \<Rightarrow> mismatch_error option" where
  "err_as_mismatch (Classified _ e) = err_as_mismatch e"
| "err_as_mismatch (Note _ _ e) = err_as_mismatch e"
| "err_as_mismatch (Lin (ErrMismatch m)) = Some m"
| "err_as_mismatch _ = None"

abbreviation permanent :: "string \<Rightarrow> string list \<Rightarrow> err" where
  "permanent s args \<equiv> Classified ErrPermanent (Msg s args)"

abbreviation framework_bug :: "string \<Rightarrow> string list \<Rightarrow> err" where
  "framework_bug s args \<equiv> Classified ErrFrameworkBug (Msg s args)"

section \<open>The session context\<close>

record 'v session_context =
  SessionID :: string
  CohortID :: string
  ctx_values :: "(string \<times> 'v any) list"
  ctx_lineageStore :: "in_memory_store option"
  ctx_lineageSigner :: "signer option"

definition NewSessionContext :: "string \<Rightarrow> 'v session_context" where
  "NewSessionContext sessionID =
     \<lparr> SessionID = sessionID, CohortID = [], ctx_values = [],
       ctx_lineageStore = None, ctx_lineageSigner = None \<rparr>"

definition LineageDAG :: "'v session_context \<Rightarrow> dag_node list" where
  "LineageDAG c =
     (case ctx_lineageStore c of None \<Rightarrow> [] | Some st \<Rightarrow> store_WalkSession st (SessionID c))"

definition CommitArtifact ::
  "int \<Rightarrow> 'v session_context \<Rightarrow> string \<Rightarrow> string \<Rightarrow> bytes \<Rightarrow> dag_node list
    \<Rightarrow> (err, dag_node) outcome \<times> 'v session_context" where
  "CommitArtifact now c phaseID role payload parents =
     (case (ctx_lineageStore c, ctx_lineageSigner c) of
        (Some st, Some sg) \<Rightarrow>
          (case Commit now (SessionID c) phaseID role payload parents (Some sg) of
             Panic p \<Rightarrow> (Panic p, c)
           | Err e \<Rightarrow> (Err (Classified ErrFrameworkBug (Note ''CommitArtifact'' [] (Lin e))), c)
           | Ok node \<Rightarrow>
               (let (aerr, st') = store_Append st node; c' = c\<lparr> ctx_lineageStore := Some st' \<rparr>
                in (case aerr of
                      None \<Rightarrow> (Ok node, c')
                    | Some ErrNodeExists \<Rightarrow> (Ok node, c')
                    | Some e \<Rightarrow>
                        (Err (Classified ErrFrameworkBug (Note ''CommitArtifact store.Append'' [] (Lin e))), c'))))
      | _ \<Rightarrow> (Err (permanent ''CommitArtifact requires a lineage-enabled runner (build via ComposeWith)'' []), c))"

definition ctx_Get :: "'v session_context \<Rightarrow> string \<Rightarrow> 'v any option" where
  "ctx_Get c key = map_of (ctx_values c) key"

definition ctx_Set :: "'v session_context \<Rightarrow> string \<Rightarrow> 'v any \<Rightarrow> 'v session_context" where
  "ctx_Set c key v = c\<lparr> ctx_values := mput key v (ctx_values c) \<rparr>"

text \<open>\<^verbatim>\<open>Update\<close> hands \<^verbatim>\<open>nil\<close> to the function when the key is absent.\<close>

definition ctx_Update :: "'v session_context \<Rightarrow> string \<Rightarrow> ('v any \<Rightarrow> 'v any) \<Rightarrow> 'v session_context" where
  "ctx_Update c key fn =
     c\<lparr> ctx_values :=
          mput key (fn (case map_of (ctx_values c) key of None \<Rightarrow> VNil | Some v \<Rightarrow> v)) (ctx_values c) \<rparr>"

definition ctx_Has :: "'v session_context \<Rightarrow> string \<Rightarrow> bool" where
  "ctx_Has c key \<longleftrightarrow> map_of (ctx_values c) key \<noteq> None"

definition ctx_Keys :: "'v session_context \<Rightarrow> string list" where
  "ctx_Keys c = map fst (ctx_values c)"

text \<open>
  Type assertions \<^verbatim>\<open>v.(T)\<close>, one for each \<^verbatim>\<open>T\<close> the program asserts, and the generic accessors
  over them. A failed \<^verbatim>\<open>MustGet\<close> panics.
\<close>

fun as_bytes :: "'v any \<Rightarrow> bytes option" where
  "as_bytes (VBytes b) = Some b"
| "as_bytes _ = None"

fun as_string :: "'v any \<Rightarrow> string option" where
  "as_string (VString s) = Some s"
| "as_string _ = None"

fun as_strings :: "'v any \<Rightarrow> string list option" where
  "as_strings (VStrings ss) = Some ss"
| "as_strings _ = None"

fun as_bool :: "'v any \<Rightarrow> bool option" where
  "as_bool (VBool b) = Some b"
| "as_bool _ = None"

fun as_int :: "'v any \<Rightarrow> int option" where
  "as_int (VInt KInt i) = Some i"
| "as_int _ = None"

fun as_byte_map :: "'v any \<Rightarrow> (string \<times> bytes) list option" where
  "as_byte_map (VByteMap m) = Some m"
| "as_byte_map _ = None"

fun as_map :: "'v any \<Rightarrow> (string \<times> 'v any) list option" where
  "as_map (VMap m) = Some m"
| "as_map _ = None"

fun as_app :: "'v any \<Rightarrow> 'v option" where
  "as_app (VApp v) = Some v"
| "as_app _ = None"

definition TryGet :: "('v any \<Rightarrow> 'a option) \<Rightarrow> 'v session_context \<Rightarrow> string \<Rightarrow> 'a option" where
  "TryGet assert_T c key = (case ctx_Get c key of None \<Rightarrow> None | Some v \<Rightarrow> assert_T v)"

definition MustGet :: "('v any \<Rightarrow> 'a option) \<Rightarrow> 'v session_context \<Rightarrow> string \<Rightarrow> (err, 'a) outcome" where
  "MustGet assert_T c key =
     (case ctx_Get c key of
        None \<Rightarrow> Panic (''phase: required context key '' @ key @ '' is not set'')
      | Some v \<Rightarrow>
          (case assert_T v of
             None \<Rightarrow> Panic (''phase: context key '' @ key @ '' has an unexpected type'')
           | Some t \<Rightarrow> Ok t))"

section \<open>Accumulating messages\<close>

definition AccumulateMessage ::
  "'v session_context \<Rightarrow> string \<Rightarrow> string \<Rightarrow> bytes \<Rightarrow> 'v session_context" where
  "AccumulateMessage ctx bucketKey from payload =
     ctx_Update ctx bucketKey
       (\<lambda>current. let bucket = (case as_byte_map current of None \<Rightarrow> [] | Some b \<Rightarrow> b)
                  in VByteMap (mput from payload bucket))"

definition AccumulatedMessages :: "'v session_context \<Rightarrow> string \<Rightarrow> (string \<times> bytes) list" where
  "AccumulatedMessages ctx bucketKey =
     (case ctx_Get ctx bucketKey of
        None \<Rightarrow> []
      | Some v \<Rightarrow> (case as_byte_map v of None \<Rightarrow> [] | Some b \<Rightarrow> b))"

definition MessageCount :: "'v session_context \<Rightarrow> string \<Rightarrow> nat" where
  "MessageCount ctx bucketKey =
     (case ctx_Get ctx bucketKey of
        None \<Rightarrow> 0
      | Some v \<Rightarrow> (case as_byte_map v of None \<Rightarrow> 0 | Some b \<Rightarrow> length b))"

definition QuorumReached :: "'v session_context \<Rightarrow> string \<Rightarrow> int \<Rightarrow> bool" where
  "QuorumReached ctx bucketKey n \<longleftrightarrow> int (MessageCount ctx bucketKey) \<ge> n"

section \<open>Facts about the context\<close>

lemma ctx_Get_Set [simp]: "ctx_Get (ctx_Set c k v) k' = (if k' = k then Some v else ctx_Get c k')"
  by (simp add: ctx_Get_def ctx_Set_def)

lemma ctx_Get_Update [simp]:
  "ctx_Get (ctx_Update c k f) k' =
     (if k' = k then Some (f (case ctx_Get c k of None \<Rightarrow> VNil | Some v \<Rightarrow> v)) else ctx_Get c k')"
  by (simp add: ctx_Get_def ctx_Update_def)

lemma ctx_Set_fields [simp]:
  "SessionID (ctx_Set c k v) = SessionID c" "CohortID (ctx_Set c k v) = CohortID c"
  "ctx_lineageStore (ctx_Set c k v) = ctx_lineageStore c"
  "ctx_lineageSigner (ctx_Set c k v) = ctx_lineageSigner c"
  by (simp_all add: ctx_Set_def)

lemma ctx_Update_fields [simp]:
  "SessionID (ctx_Update c k f) = SessionID c" "CohortID (ctx_Update c k f) = CohortID c"
  "ctx_lineageStore (ctx_Update c k f) = ctx_lineageStore c"
  "ctx_lineageSigner (ctx_Update c k f) = ctx_lineageSigner c"
  by (simp_all add: ctx_Update_def)

lemma ctx_Has_iff: "ctx_Has c k \<longleftrightarrow> (\<exists>v. ctx_Get c k = Some v)"
  by (simp add: ctx_Has_def ctx_Get_def)

lemma ctx_Has_Set [simp]: "ctx_Has (ctx_Set c k v) k' \<longleftrightarrow> k' = k \<or> ctx_Has c k'"
  by (simp add: ctx_Has_iff)

lemma TryGet_Set [simp]:
  "TryGet as (ctx_Set c k v) k' = (if k' = k then as v else TryGet as c k')"
  by (simp add: TryGet_def)

lemma TryGet_Update_other [simp]: "k' \<noteq> k \<Longrightarrow> TryGet as (ctx_Update c k f) k' = TryGet as c k'"
  by (simp add: TryGet_def)

lemma AccumulatedMessages_Set [simp]:
  "AccumulatedMessages (ctx_Set c k v) b =
     (if b = k then (case as_byte_map v of None \<Rightarrow> [] | Some m \<Rightarrow> m) else AccumulatedMessages c b)"
  by (simp add: AccumulatedMessages_def)

lemma MessageCount_eq: "MessageCount c b = length (AccumulatedMessages c b)"
  by (simp add: MessageCount_def AccumulatedMessages_def split: option.split)

lemma AccumulatedMessages_Accumulate [simp]:
  "AccumulatedMessages (AccumulateMessage c b from m) b' =
     (if b' = b then mput from m (AccumulatedMessages c b) else AccumulatedMessages c b')"
  by (auto simp: AccumulatedMessages_def AccumulateMessage_def Let_def split: option.split)

lemma AccumulateMessage_other [simp]:
  "k \<noteq> b \<Longrightarrow> ctx_Get (AccumulateMessage c b from m) k = ctx_Get c k"
  "SessionID (AccumulateMessage c b from m) = SessionID c"
  "CohortID (AccumulateMessage c b from m) = CohortID c"
  "ctx_lineageStore (AccumulateMessage c b from m) = ctx_lineageStore c"
  "ctx_lineageSigner (AccumulateMessage c b from m) = ctx_lineageSigner c"
  by (simp_all add: AccumulateMessage_def)

text \<open>Feeding a list of (sender, payload) submissions into one bucket, in order.\<close>

definition accumulate_all ::
  "'v session_context \<Rightarrow> string \<Rightarrow> (string \<times> bytes) list \<Rightarrow> 'v session_context" where
  "accumulate_all c b subs = fold (\<lambda>(from, m) c. AccumulateMessage c b from m) subs c"

lemma accumulate_all_simps [simp]:
  "accumulate_all c b [] = c"
  "accumulate_all c b ((from, m) # subs) = accumulate_all (AccumulateMessage c b from m) b subs"
  by (simp_all add: accumulate_all_def)

lemma accumulate_all_bucket:
  "map_wf (AccumulatedMessages c b) \<Longrightarrow>
   map_wf (AccumulatedMessages (accumulate_all c b subs) b) \<and>
   keys_of (AccumulatedMessages (accumulate_all c b subs) b) =
     keys_of (AccumulatedMessages c b) \<union> fst ` set subs \<and>
   map_of (AccumulatedMessages (accumulate_all c b subs) b) =
     map_of (AccumulatedMessages c b) ++ map_of (rev subs)"
proof (induction subs arbitrary: c)
  case (Cons s subs)
  obtain sender m where s: "s = (sender, m)" by fastforce
  have "map_of (AccumulatedMessages c b) ++ map_of (rev (s # subs))
      = (map_of (AccumulatedMessages c b))(sender \<mapsto> m) ++ map_of (rev subs)"
    by (rule ext) (simp add: s map_add_def split: option.split)
  then show ?case using Cons by (simp add: s fun_upd_def)
qed simp

lemma accumulate_all_other:
  "k \<noteq> b \<Longrightarrow> ctx_Get (accumulate_all c b subs) k = ctx_Get c k"
  by (induction subs arbitrary: c) auto

text \<open>
  Claim C33. After any sequence of submissions to a fresh bucket the count is the number of
  distinct senders, whatever the order and however often a sender repeats; the bucket holds
  each sender's last payload; so the quorum of \<open>n\<close> is reached exactly when at least \<open>n\<close> distinct
  senders have submitted, and every other key of the context is untouched.
\<close>

theorem quorum_counts_senders:
  assumes "ctx_Get c b = None"
  shows "MessageCount (accumulate_all c b subs) b = card (fst ` set subs) \<and>
    (\<forall>from. map_of (AccumulatedMessages (accumulate_all c b subs) b) from = map_of (rev subs) from) \<and>
    (QuorumReached (accumulate_all c b subs) b n \<longleftrightarrow> int (card (fst ` set subs)) \<ge> n) \<and>
    (\<forall>k. k \<noteq> b \<longrightarrow> ctx_Get (accumulate_all c b subs) k = ctx_Get c k)"
proof -
  have "AccumulatedMessages c b = []" using assms by (simp add: AccumulatedMessages_def)
  with accumulate_all_bucket [of c b subs] show ?thesis
    by (simp add: MessageCount_eq QuorumReached_def length_map_wf accumulate_all_other)
qed

lemma quorum_counts_senders_witness:
  "MessageCount (accumulate_all (NewSessionContext ''s'' :: unit session_context) ''b''
     [(''alice'', [1]), (''bob'', [2]), (''alice'', [3])]) ''b'' = 2"
  using quorum_counts_senders [of "NewSessionContext ''s'' :: unit session_context" "''b''"
      "[(''alice'', [1]), (''bob'', [2]), (''alice'', [3])]" 2]
  by (simp add: NewSessionContext_def ctx_Get_def card_insert_if)

end
