(* ===== verification/Phase_Compose.thy ===== *)
theory Phase_Compose
  imports Session_Context
begin

text \<open>
  \<^verbatim>\<open>pkg/ares/phase/types.go\<close>, \<^verbatim>\<open>phase.go\<close>, \<^verbatim>\<open>options.go\<close>, \<^verbatim>\<open>hooks.go\<close>, the construction half of
  \<^verbatim>\<open>runner.go\<close> and \<^verbatim>\<open>compose_with.go\<close>: what a phase declares, and the validation of a list of
  phases into a runner.

  A \<^verbatim>\<open>Phase\<close> is a record of what its methods return and of its four hooks. A hook acts on the
  session's context and may return an error or panic. A schema (a Go map) is an association
  list whose order stands for the iteration order of the runtime. The texts of errors keep the
  names they mention and leave out the rendered values.
\<close>

section \<open>Declarations\<close>

datatype lifetime = LifetimePerSession | LifetimePerCohort | LifetimePersistent
datatype runs_at = RunsAtRegistration | RunsAtSessionStart | RunsAtInline

type_synonym session_state = string

definition StateNone :: session_state where
  "StateNone = []"

text \<open>Constraint values are Go values; \<open>unit\<close> stands for \<^verbatim>\<open>struct{}\<close>, printed as \<^verbatim>\<open>{}\<close>.\<close>

type_synonym constraints = "(string \<times> unit any) list"

record context_key_type =
  TypeName :: string
  Required :: bool
  Constraints :: constraints
  NoLineage :: bool

type_synonym context_schema = "(string \<times> context_key_type) list"

type_synonym 'v hook = "'v session_context \<Rightarrow> (err, unit) outcome \<times> 'v session_context"

record 'v phase =
  Name :: string
  Lifetime :: lifetime
  RunsAt :: runs_at
  EntryState :: session_state
  ExitState :: session_state
  InternalStates :: "session_state list"
  ConsumedMessageTypes :: "string list"
  Requires :: context_schema
  Provides :: context_schema
  Enter :: "'v hook"
  OnMessage :: "string \<Rightarrow> string \<Rightarrow> bytes \<Rightarrow> 'v hook"
  CheckComplete :: "'v session_context \<Rightarrow> bool"
  Exit :: "'v hook"

definition phaseConsumes :: "'v phase \<Rightarrow> string \<Rightarrow> bool" where
  "phaseConsumes p msgType \<longleftrightarrow> msgType \<in> set (ConsumedMessageTypes p)"

section \<open>Constraints\<close>

fun asFloat :: "'v any \<Rightarrow> f64 option" where
  "asFloat (VInt k i) =
     (if k \<in> {KInt, KInt32, KInt64, KUint, KUint32, KUint64} then Some (f_of_int i) else None)"
| "asFloat (VFloat32 x) = Some x"
| "asFloat (VFloat64 x) = Some x"
| "asFloat _ = None"

text \<open>\<open>None\<close> is the error for values that are not numbers.\<close>

definition atLeast :: "unit any \<Rightarrow> unit any \<Rightarrow> bool option" where
  "atLeast a b =
     (case (asFloat a, asFloat b) of
        (Some af, Some bf) \<Rightarrow> Some (f_ge af bf)
      | _ \<Rightarrow> None)"

definition fmt_constraint :: "unit any \<Rightarrow> string" where
  "fmt_constraint = fmtv (\<lambda>_. ''{}'')"

definition equalConstraint :: "unit any \<Rightarrow> unit any \<Rightarrow> bool" where
  "equalConstraint a b \<longleftrightarrow> fmt_constraint a = fmt_constraint b"

text \<open>A name of more than four characters that ends in \<^verbatim>\<open>_min\<close>, and what stands before the suffix.\<close>

definition is_min_name :: "string \<Rightarrow> bool" where
  "is_min_name s \<longleftrightarrow> length s > 4 \<and> drop (length s - 4) s = ''_min''"

definition min_base :: "string \<Rightarrow> string" where
  "min_base s = take (length s - 4) s"

fun checkConstraints :: "string \<Rightarrow> string \<Rightarrow> constraints \<Rightarrow> constraints \<Rightarrow> err option" where
  "checkConstraints phaseName key [] got = None"
| "checkConstraints phaseName key ((cname, cval) # want) got =
     (if cname = [] then checkConstraints phaseName key want got
      else if is_min_name cname then
        (case map_of got (min_base cname) of
           None \<Rightarrow> Some (Msg ''requires minimum but producer omits'' [phaseName, key, cname, min_base cname])
         | Some gv \<Rightarrow>
             (case atLeast gv cval of
                None \<Rightarrow> Some (Note ''constraint'' cname (Msg ''non-numeric values'' []))
              | Some b \<Rightarrow>
                  if b then checkConstraints phaseName key want got
                  else Some (Msg ''requires minimum but producer provides'' [phaseName, key, cname, min_base cname])))
      else
        (case map_of got cname of
           None \<Rightarrow> Some (Msg ''requires constraint but producer omits it'' [phaseName, key, cname])
         | Some gv \<Rightarrow>
             if equalConstraint gv cval then checkConstraints phaseName key want got
             else Some (Msg ''constraint: producer differs from required'' [phaseName, key, cname])))"

fun validateRequires :: "string \<Rightarrow> context_schema \<Rightarrow> context_schema \<Rightarrow> err option" where
  "validateRequires phaseName [] provided = None"
| "validateRequires phaseName ((key, want) # reqs) provided =
     (case map_of provided key of
        None \<Rightarrow>
          if Required want
          then Some (Msg ''requires context key but no preceding phase provides it'' [phaseName, key])
          else validateRequires phaseName reqs provided
      | Some got \<Rightarrow>
          if TypeName want \<noteq> [] \<and> TypeName got \<noteq> [] \<and> TypeName want \<noteq> TypeName got
          then Some (Msg ''context key has a different provided type'' [phaseName, key, TypeName got, TypeName want])
          else (case checkConstraints phaseName key (Constraints want) (Constraints got) of
                  Some e \<Rightarrow> Some e
                | None \<Rightarrow> validateRequires phaseName reqs provided))"

section \<open>The runner\<close>

record 'v session_tracker =
  trk_ctx :: "'v session_context"
  trk_state :: session_state
  trk_current :: "'v phase option"
  trk_entered :: bool

record lineage_failure_event =
  ev_Kind :: string
  ev_SessionID :: string
  ev_PhaseID :: string
  ev_Role :: string
  ev_Attributee :: bytes
  ev_DAGNodes :: "dag_node list"

text \<open>
  The application's failure hook may return or panic with a text. What it does besides is the
  application's; the runner's record keeps the sequence of events it was called with
  (\<open>hook_calls\<close>) and what the runner wrote to the panic log (\<open>hookPanicLog\<close>).
\<close>

type_synonym lineage_failure_fn = "lineage_failure_event \<Rightarrow> string option"

record 'v session_runner =
  phases :: "'v phase list"
  byName :: "(string \<times> 'v phase) list"
  byEntryState :: "(session_state \<times> 'v phase) list"
  byInternalState :: "(session_state \<times> 'v phase) list"
  initialState :: session_state
  sessions :: "(string \<times> 'v session_tracker) list"
  lineageStore :: "in_memory_store option"
  lineageSigner :: "signer option"
  lineageVerifiers :: verifiers
  lineageFailureHook :: "lineage_failure_fn option"
  hook_calls :: "lineage_failure_event list"
  hookPanicLog :: "(lineage_failure_event \<times> string) list"

definition attachLineage ::
  "in_memory_store \<Rightarrow> signer \<Rightarrow> verifiers \<Rightarrow> lineage_failure_fn option
    \<Rightarrow> 'v session_runner \<Rightarrow> 'v session_runner" where
  "attachLineage store signer vs hook r =
     r\<lparr> lineageStore := Some store, lineageSigner := Some signer,
        lineageVerifiers := vs, lineageFailureHook := hook \<rparr>"

text \<open>
  The state of \<^verbatim>\<open>Compose\<close>'s loop: the maps of the runner under construction, the keys provided so
  far, and the previous inline phase.
\<close>

record 'v compose_state =
  cs_byName :: "(string \<times> 'v phase) list"
  cs_byEntry :: "(session_state \<times> 'v phase) list"
  cs_byInternal :: "(session_state \<times> 'v phase) list"
  cs_initial :: session_state
  cs_provided :: context_schema
  cs_prevInline :: "'v phase option"

fun register_internal ::
  "'v phase \<Rightarrow> session_state list \<Rightarrow> 'v compose_state \<Rightarrow> (err, 'v compose_state) outcome" where
  "register_internal p [] cs = Ok cs"
| "register_internal p (sub # subs) cs =
     (if sub = StateNone then Err (permanent ''InternalStates contains StateNone'' [Name p])
      else if sub = EntryState p then Err (permanent ''InternalStates duplicates EntryState'' [Name p, sub])
      else if map_of (cs_byEntry cs) sub \<noteq> None
      then Err (permanent ''internal state is also an EntryState'' [Name p, sub])
      else if map_of (cs_byInternal cs) sub \<noteq> None
      then Err (permanent ''internal state is also an internal state'' [Name p, sub])
      else register_internal p subs (cs\<lparr> cs_byInternal := mput sub p (cs_byInternal cs) \<rparr>))"

definition compose_inline :: "'v phase \<Rightarrow> 'v compose_state \<Rightarrow> (err, 'v compose_state) outcome" where
  "compose_inline p cs =
     (let entry = EntryState p in
      if entry = StateNone then Err (permanent ''inline phase needs an EntryState'' [Name p])
      else if map_of (cs_byEntry cs) entry \<noteq> None
      then Err (permanent ''entry state claimed twice'' [entry, Name p])
      else
        (case register_internal p (InternalStates p) (cs\<lparr> cs_byEntry := mput entry p (cs_byEntry cs) \<rparr>) of
           Ok cs1 \<Rightarrow>
             (case cs_prevInline cs1 of
                None \<Rightarrow> Ok (cs1\<lparr> cs_initial := entry, cs_prevInline := Some p \<rparr>)
              | Some prev \<Rightarrow>
                  if ExitState prev \<noteq> entry
                  then Err (permanent ''pipeline is not connected'' [Name prev, ExitState prev, Name p, entry])
                  else Ok (cs1\<lparr> cs_prevInline := Some p \<rparr>))
         | e \<Rightarrow> e))"

definition compose_step :: "'v phase \<Rightarrow> 'v compose_state \<Rightarrow> (err, 'v compose_state) outcome" where
  "compose_step p cs =
     (let name = Name p in
      if name = [] then Err (permanent ''Compose: phase has empty Name()'' [])
      else if map_of (cs_byName cs) name \<noteq> None
      then Err (permanent ''Compose: duplicate phase name'' [name])
      else
        (let cs1 = cs\<lparr> cs_byName := mput name p (cs_byName cs) \<rparr> in
         case validateRequires name (Requires p) (cs_provided cs1) of
           Some e \<Rightarrow> Err (Classified ErrPermanent e)
         | None \<Rightarrow>
             (let cs2 = cs1\<lparr> cs_provided := fold (\<lambda>(k, t). mput k t) (Provides p) (cs_provided cs1) \<rparr> in
              if RunsAt p = RunsAtInline then compose_inline p cs2
              else if EntryState p \<noteq> StateNone \<or> ExitState p \<noteq> StateNone
              then Err (permanent ''non-inline phases must have StateNone for entry and exit'' [name])
              else Ok cs2)))"

fun compose_loop :: "'v phase list \<Rightarrow> 'v compose_state \<Rightarrow> (err, 'v compose_state) outcome" where
  "compose_loop [] cs = Ok cs"
| "compose_loop (p # ps) cs =
     (case compose_step p cs of Ok cs' \<Rightarrow> compose_loop ps cs' | e \<Rightarrow> e)"

definition empty_compose_state :: "'v compose_state" where
  "empty_compose_state =
     \<lparr> cs_byName = [], cs_byEntry = [], cs_byInternal = [], cs_initial = StateNone,
       cs_provided = [], cs_prevInline = None \<rparr>"

definition Compose :: "'v phase list \<Rightarrow> (err, 'v session_runner) outcome" where
  "Compose ps =
     (if ps = [] then Err (permanent ''Compose needs at least one phase'' [])
      else case compose_loop ps empty_compose_state of
             Err e \<Rightarrow> Err e
           | Panic m \<Rightarrow> Panic m
           | Ok cs \<Rightarrow>
               Ok \<lparr> phases = ps, byName = cs_byName cs, byEntryState = cs_byEntry cs,
                    byInternalState = cs_byInternal cs, initialState = cs_initial cs,
                    sessions = [], lineageStore = None, lineageSigner = None,
                    lineageVerifiers = [], lineageFailureHook = None,
                    hook_calls = [], hookPanicLog = [] \<rparr>)"

section \<open>Options and \<open>ComposeWith\<close>\<close>

record runner_opts =
  opt_store :: "in_memory_store option"
  opt_signer :: "signer option"
  opt_peerVerifiers :: verifiers
  opt_failureHook :: "lineage_failure_fn option"

type_synonym compose_option = "runner_opts \<Rightarrow> runner_opts"

definition WithStore :: "in_memory_store \<Rightarrow> compose_option" where
  "WithStore s o' = o'\<lparr> opt_store := Some s \<rparr>"

definition WithSigner :: "signer \<Rightarrow> compose_option" where
  "WithSigner s o' = o'\<lparr> opt_signer := Some s \<rparr>"

definition WithPeerVerifiers :: "verifiers \<Rightarrow> compose_option" where
  "WithPeerVerifiers v o' = o'\<lparr> opt_peerVerifiers := v \<rparr>"

definition WithLineageFailureHook :: "lineage_failure_fn \<Rightarrow> compose_option" where
  "WithLineageFailureHook fn o' = o'\<lparr> opt_failureHook := Some fn \<rparr>"

definition apply_options :: "compose_option list \<Rightarrow> runner_opts" where
  "apply_options opts =
     fold (\<lambda>f x. f x) opts
       \<lparr> opt_store = None, opt_signer = None, opt_peerVerifiers = [], opt_failureHook = None \<rparr>"

definition needsPeers :: "'v phase list \<Rightarrow> bool" where
  "needsPeers ps \<longleftrightarrow> (\<exists>p \<in> set ps. ConsumedMessageTypes p \<noteq> [])"

definition ComposeWith :: "'v phase list \<Rightarrow> compose_option list \<Rightarrow> (err, 'v session_runner) outcome" where
  "ComposeWith ps opts =
     (let o' = apply_options opts
      in case opt_signer o' of
           None \<Rightarrow> Err (permanent ''ComposeWith requires WithSigner(...)'' [])
         | Some signer \<Rightarrow>
             if needsPeers ps \<and> opt_peerVerifiers o' = []
             then Err (permanent ''ComposeWith requires WithPeerVerifiers(...) for multi-party pipelines'' [])
             else
               (let store = (case opt_store o' of None \<Rightarrow> NewInMemoryStore | Some s \<Rightarrow> s);
                    vs = (if map_of (opt_peerVerifiers o') (sg_Algorithm signer) = None
                          then mput (sg_Algorithm signer) signer (opt_peerVerifiers o')
                          else opt_peerVerifiers o')
                in (case Compose ps of
                      Ok r \<Rightarrow> Ok (attachLineage store signer vs (opt_failureHook o') r)
                    | Err e \<Rightarrow> Err (Note ''ComposeWith'' [] e)
                    | Panic m \<Rightarrow> Panic m)))"

section \<open>What a valid pipeline is\<close>

definition constraint_met :: "constraints \<Rightarrow> string \<Rightarrow> unit any \<Rightarrow> bool" where
  "constraint_met got cname cval \<longleftrightarrow>
     cname = [] \<or>
     (if is_min_name cname
      then \<exists>gv. map_of got (min_base cname) = Some gv \<and> atLeast gv cval = Some True
      else \<exists>gv. map_of got cname = Some gv \<and> equalConstraint gv cval)"

definition requirement_met :: "(string \<rightharpoonup> context_key_type) \<Rightarrow> string \<Rightarrow> context_key_type \<Rightarrow> bool" where
  "requirement_met provided key want \<longleftrightarrow>
     (case provided key of
        None \<Rightarrow> \<not> Required want
      | Some got \<Rightarrow>
          (TypeName want = [] \<or> TypeName got = [] \<or> TypeName want = TypeName got) \<and>
          (\<forall>(cname, cval) \<in> set (Constraints want). constraint_met (Constraints got) cname cval))"

text \<open>The declaration in force for a key after some phases: the latest one wins.\<close>

definition latest_provider :: "'v phase list \<Rightarrow> string \<rightharpoonup> context_key_type" where
  "latest_provider ps = map_of (rev (concat (map Provides ps)))"

definition inlines :: "'v phase list \<Rightarrow> 'v phase list" where
  "inlines ps = filter (\<lambda>p. RunsAt p = RunsAtInline) ps"

definition phase_ok :: "'v phase list \<Rightarrow> 'v phase \<Rightarrow> bool" where
  "phase_ok pre p \<longleftrightarrow>
     Name p \<noteq> [] \<and> Name p \<notin> Name ` set pre \<and>
     (\<forall>(key, want) \<in> set (Requires p). requirement_met (latest_provider pre) key want) \<and>
     (if RunsAt p = RunsAtInline
      then EntryState p \<noteq> StateNone \<and> EntryState p \<notin> EntryState ` set (inlines pre) \<and>
        distinct (InternalStates p) \<and>
        (\<forall>sub \<in> set (InternalStates p).
           sub \<noteq> StateNone \<and> sub \<noteq> EntryState p \<and>
           (\<forall>q \<in> set (inlines pre). sub \<noteq> EntryState q \<and> sub \<notin> set (InternalStates q))) \<and>
        (inlines pre \<noteq> [] \<longrightarrow> ExitState (last (inlines pre)) = EntryState p)
      else EntryState p = StateNone \<and> ExitState p = StateNone)"

definition pipeline_ok :: "'v phase list \<Rightarrow> bool" where
  "pipeline_ok ps \<longleftrightarrow> ps \<noteq> [] \<and> (\<forall>i < length ps. phase_ok (take i ps) (ps ! i))"

definition internal_map :: "'v phase list \<Rightarrow> (session_state \<times> 'v phase) list" where
  "internal_map ps = concat (map (\<lambda>p. map (\<lambda>s. (s, p)) (InternalStates p)) ps)"

section \<open>\<open>Compose\<close> accepts exactly the valid pipelines\<close>

lemma mput_fresh: "map_of m k = None \<Longrightarrow> mput k v m = m @ [(k, v)]"
  by (induction m) (auto split: if_splits)

lemma map_of_eq_None_keys: "map_of m k = None \<longleftrightarrow> k \<notin> keys_of m"
  by (simp add: map_of_eq_None_iff)

lemma checkConstraints_None_iff:
  "checkConstraints pn key want got = None \<longleftrightarrow>
     (\<forall>(cname, cval) \<in> set want. constraint_met got cname cval)"
  by (induction pn key want got rule: checkConstraints.induct)
     (auto simp: constraint_met_def split: option.splits)

lemma validateRequires_None_iff:
  "validateRequires pn reqs provided = None \<longleftrightarrow>
     (\<forall>(key, want) \<in> set reqs. requirement_met (map_of provided) key want)"
proof (induction reqs)
  case (Cons x reqs)
  obtain key want where x: "x = (key, want)" by fastforce
  have "validateRequires pn ((key, want) # reqs) provided = None \<longleftrightarrow>
      requirement_met (map_of provided) key want \<and> validateRequires pn reqs provided = None"
  proof (cases "map_of provided key")
    case (Some got)
    then show ?thesis
      using checkConstraints_None_iff [of pn key "Constraints want" "Constraints got"]
      by (cases "checkConstraints pn key (Constraints want) (Constraints got)")
         (auto simp: requirement_met_def)
  qed (simp add: requirement_met_def)
  then show ?case by (simp only: x Cons.IH list.set ball_simps split_conv)
qed simp

lemma map_of_fold_mput:
  "map_of (fold (\<lambda>(k, t). mput k t) xs m) = map_of m ++ map_of (rev xs)"
proof (induction xs arbitrary: m)
  case (Cons x xs)
  obtain k t where "x = (k, t)" by fastforce
  with Cons show ?case by (simp add: map_add_assoc [symmetric] map_add_upd_left fun_upd_def map_add_def
    fun_eq_iff split: option.split)
qed simp

lemma register_internal_iff:
  "register_internal p subs cs = Ok cs' \<longleftrightarrow>
     distinct subs \<and>
     (\<forall>sub \<in> set subs. sub \<noteq> StateNone \<and> sub \<noteq> EntryState p \<and>
        sub \<notin> keys_of (cs_byEntry cs) \<and> sub \<notin> keys_of (cs_byInternal cs)) \<and>
     cs' = cs\<lparr> cs_byInternal := cs_byInternal cs @ map (\<lambda>s. (s, p)) subs \<rparr>"
proof (induction subs arbitrary: cs)
  case (Cons sub subs)
  show ?case
    by (auto simp: Cons.IH mput_fresh map_of_eq_None_keys [symmetric] split: if_splits)
qed auto

lemma compose_loop_snoc:
  "compose_loop (ps @ [p]) cs =
     (case compose_loop ps cs of Ok cs' \<Rightarrow> compose_step p cs' | e \<Rightarrow> e)"
  by (induction ps arbitrary: cs) (auto split: outcome.split)

text \<open>What the loop of \<open>Compose\<close> has built after the phases \<open>ps\<close>.\<close>

definition compose_built :: "'v phase list \<Rightarrow> 'v compose_state \<Rightarrow> bool" where
  "compose_built ps cs \<longleftrightarrow>
     cs_byName cs = map (\<lambda>p. (Name p, p)) ps \<and>
     cs_byEntry cs = map (\<lambda>p. (EntryState p, p)) (inlines ps) \<and>
     cs_byInternal cs = internal_map (inlines ps) \<and>
     cs_initial cs = (if inlines ps = [] then StateNone else EntryState (hd (inlines ps))) \<and>
     map_of (cs_provided cs) = latest_provider ps \<and>
     cs_prevInline cs = (if inlines ps = [] then None else Some (last (inlines ps)))"

lemma inlines_simps [simp]:
  "inlines [] = []"
  "inlines (ps @ qs) = inlines ps @ inlines qs"
  "inlines (p # ps) = (if RunsAt p = RunsAtInline then p # inlines ps else inlines ps)"
  by (simp_all add: inlines_def)

lemma internal_map_simps [simp]:
  "internal_map [] = []"
  "internal_map (ps @ qs) = internal_map ps @ internal_map qs"
  "internal_map (p # ps) = map (\<lambda>s. (s, p)) (InternalStates p) @ internal_map ps"
  by (simp_all add: internal_map_def)

lemma keys_internal_map: "keys_of (internal_map ps) = (\<Union>p \<in> set ps. set (InternalStates p))"
  by (induction ps) (auto simp: image_Un image_image)

lemma latest_provider_snoc:
  "latest_provider (ps @ [p]) = latest_provider ps ++ map_of (rev (Provides p))"
  by (simp add: latest_provider_def)

lemma compose_inline_iff:
  assumes "cs_byEntry cs = map (\<lambda>p. (EntryState p, p)) (inlines ps)"
    and "cs_byInternal cs = internal_map (inlines ps)"
    and "cs_prevInline cs = (if inlines ps = [] then None else Some (last (inlines ps)))"
  shows "compose_inline p cs = Ok cs' \<longleftrightarrow>
    EntryState p \<noteq> StateNone \<and> EntryState p \<notin> EntryState ` set (inlines ps) \<and>
    distinct (InternalStates p) \<and>
    (\<forall>sub \<in> set (InternalStates p). sub \<noteq> StateNone \<and> sub \<noteq> EntryState p \<and>
       (\<forall>q \<in> set (inlines ps). sub \<noteq> EntryState q \<and> sub \<notin> set (InternalStates q))) \<and>
    (inlines ps \<noteq> [] \<longrightarrow> ExitState (last (inlines ps)) = EntryState p) \<and>
    cs' = cs\<lparr> cs_byEntry := cs_byEntry cs @ [(EntryState p, p)],
             cs_byInternal := cs_byInternal cs @ map (\<lambda>s. (s, p)) (InternalStates p),
             cs_initial := (if inlines ps = [] then EntryState p else cs_initial cs),
             cs_prevInline := Some p \<rparr>"
    (is "?lhs \<longleftrightarrow> ?rhs")
proof (cases "EntryState p \<noteq> StateNone \<and> EntryState p \<notin> EntryState ` set (inlines ps)")
  case True
  then have fresh: "map_of (cs_byEntry cs) (EntryState p) = None"
    using assms(1) by (simp add: map_of_eq_None_keys image_image)
  let ?cs1 = "cs\<lparr> cs_byEntry := cs_byEntry cs @ [(EntryState p, p)] \<rparr>"
  have lhs: "?lhs \<longleftrightarrow> (\<exists>cs1. register_internal p (InternalStates p) ?cs1 = Ok cs1 \<and>
      (inlines ps \<noteq> [] \<longrightarrow> ExitState (last (inlines ps)) = EntryState p) \<and>
      cs' = cs1\<lparr> cs_initial := (if inlines ps = [] then EntryState p else cs_initial cs),
                 cs_prevInline := Some p \<rparr>)"
  proof (cases "register_internal p (InternalStates p) ?cs1")
    case (Ok cs1)
    moreover from Ok have "cs_prevInline cs1 = cs_prevInline cs" "cs_initial cs1 = cs_initial cs"
      by (simp_all add: register_internal_iff)
    ultimately show ?thesis
      using True fresh assms(3) by (auto simp: compose_inline_def Let_def mput_fresh)
  qed (use True fresh in \<open>auto simp: compose_inline_def Let_def mput_fresh\<close>)
  show ?thesis unfolding lhs using True assms(1,2)
    by (auto simp: register_internal_iff keys_internal_map image_image)
next
  case False
  then show ?thesis
    using assms(1) by (auto simp: compose_inline_def Let_def map_of_eq_None_keys image_image)
qed

lemma compose_step_iff:
  assumes "compose_built ps cs"
  shows "(\<exists>cs'. compose_step p cs = Ok cs') \<longleftrightarrow> phase_ok ps p"
    and "compose_step p cs = Ok cs' \<Longrightarrow> compose_built (ps @ [p]) cs'"
proof -
  let ?cs2 = "cs\<lparr> cs_byName := cs_byName cs @ [(Name p, p)],
                 cs_provided := fold (\<lambda>(k, t). mput k t) (Provides p) (cs_provided cs) \<rparr>"
  have step: "compose_step p cs = Ok c \<longleftrightarrow>
      Name p \<noteq> [] \<and> Name p \<notin> Name ` set ps \<and>
      (\<forall>(key, want) \<in> set (Requires p). requirement_met (latest_provider ps) key want) \<and>
      (if RunsAt p = RunsAtInline then compose_inline p ?cs2 = Ok c
       else EntryState p = StateNone \<and> ExitState p = StateNone \<and> c = ?cs2)" for c
  proof (cases "Name p \<noteq> [] \<and> Name p \<notin> Name ` set ps")
    case True
    then have "map_of (cs_byName cs) (Name p) = None"
      using assms by (simp add: compose_built_def map_of_eq_None_keys image_image)
    moreover have "map_of (cs_provided cs) = latest_provider ps"
      using assms by (simp add: compose_built_def)
    ultimately show ?thesis
      using True validateRequires_None_iff [of "Name p" "Requires p" "cs_provided cs"]
      by (cases "validateRequires (Name p) (Requires p) (cs_provided cs)")
         (auto simp: compose_step_def Let_def mput_fresh)
  next
    case False
    then show ?thesis
      using assms by (auto simp: compose_step_def Let_def compose_built_def map_of_eq_None_keys image_image)
  qed
  have inl: "compose_inline p ?cs2 = Ok c \<longleftrightarrow>
      EntryState p \<noteq> StateNone \<and> EntryState p \<notin> EntryState ` set (inlines ps) \<and>
      distinct (InternalStates p) \<and>
      (\<forall>sub \<in> set (InternalStates p). sub \<noteq> StateNone \<and> sub \<noteq> EntryState p \<and>
         (\<forall>q \<in> set (inlines ps). sub \<noteq> EntryState q \<and> sub \<notin> set (InternalStates q))) \<and>
      (inlines ps \<noteq> [] \<longrightarrow> ExitState (last (inlines ps)) = EntryState p) \<and>
      c = ?cs2\<lparr> cs_byEntry := cs_byEntry cs @ [(EntryState p, p)],
               cs_byInternal := cs_byInternal cs @ map (\<lambda>s. (s, p)) (InternalStates p),
               cs_initial := (if inlines ps = [] then EntryState p else cs_initial cs),
               cs_prevInline := Some p \<rparr>" for c
    by (subst compose_inline_iff [of _ ps]) (use assms in \<open>simp_all add: compose_built_def\<close>)
  show "(\<exists>cs'. compose_step p cs = Ok cs') \<longleftrightarrow> phase_ok ps p"
    unfolding step phase_ok_def inl by auto
  show "compose_built (ps @ [p]) cs'" if "compose_step p cs = Ok cs'"
  proof (cases "RunsAt p = RunsAtInline")
    case True
    then have "cs' = ?cs2\<lparr> cs_byEntry := cs_byEntry cs @ [(EntryState p, p)],
        cs_byInternal := cs_byInternal cs @ map (\<lambda>s. (s, p)) (InternalStates p),
        cs_initial := (if inlines ps = [] then EntryState p else cs_initial cs),
        cs_prevInline := Some p \<rparr>"
      using that by (simp only: step inl if_True)
    then show ?thesis
      using True assms by (simp add: compose_built_def latest_provider_snoc map_of_fold_mput)
  next
    case False
    then have "cs' = ?cs2" using that by (simp only: step if_False)
    then show ?thesis
      using False assms by (simp add: compose_built_def latest_provider_snoc map_of_fold_mput)
  qed
qed

lemma compose_loop_iff:
  "(\<exists>cs. compose_loop ps empty_compose_state = Ok cs) \<longleftrightarrow> (\<forall>i < length ps. phase_ok (take i ps) (ps ! i))"
  "compose_loop ps empty_compose_state = Ok cs \<Longrightarrow> compose_built ps cs"
proof (induction ps arbitrary: cs rule: rev_induct)
  case Nil
  case 1 show ?case by simp
  case 2 then show ?case
    by (auto simp: empty_compose_state_def compose_built_def latest_provider_def)
next
  case (snoc p ps)
  have ex: "(\<exists>cs. compose_loop (ps @ [p]) empty_compose_state = Ok cs) \<longleftrightarrow>
      (\<exists>cs. compose_loop ps empty_compose_state = Ok cs) \<and> phase_ok ps p"
    using snoc.IH(2) compose_step_iff(1) [of ps _ p]
    by (auto simp: compose_loop_snoc split: outcome.splits)
  case 1
  show ?case unfolding ex snoc.IH(1) by (auto simp: nth_append less_Suc_eq)
  case 2
  then show ?case using snoc.IH(2) compose_step_iff(2) by (auto simp: compose_loop_snoc split: outcome.splits)
qed

lemma compose_errors_permanent: "fails_only (\<lambda>e. err_is e ErrPermanent) (compose_loop ps cs)"
proof -
  let ?ok = "fails_only (\<lambda>e. err_is e ErrPermanent)"
  have reg: "?ok (register_internal p subs cs)" for p :: "'a phase" and subs cs
    by (induction subs arbitrary: cs) auto
  have inl: "?ok (compose_inline p cs)" for p :: "'a phase" and cs
    using reg [of p "InternalStates p" "cs\<lparr> cs_byEntry := mput (EntryState p) p (cs_byEntry cs) \<rparr>"]
    by (cases "register_internal p (InternalStates p) (cs\<lparr> cs_byEntry := mput (EntryState p) p (cs_byEntry cs) \<rparr>)")
       (simp_all add: compose_inline_def Let_def split: option.split)
  have step: "?ok (compose_step p cs)" for p :: "'a phase" and cs
    using inl by (auto simp: compose_step_def Let_def split: option.split)
  show ?thesis
  proof (induction ps arbitrary: cs)
    case (Cons p ps)
    then show ?case using step [of p cs] by (cases "compose_step p cs") auto
  qed simp
qed

lemma Compose_Ok_iff:
  "Compose ps = Ok r \<longleftrightarrow>
     pipeline_ok ps \<and>
     r = \<lparr> phases = ps, byName = map (\<lambda>p. (Name p, p)) ps,
           byEntryState = map (\<lambda>p. (EntryState p, p)) (inlines ps),
           byInternalState = internal_map (inlines ps),
           initialState = (if inlines ps = [] then StateNone else EntryState (hd (inlines ps))),
           sessions = [], lineageStore = None, lineageSigner = None, lineageVerifiers = [],
           lineageFailureHook = None, hook_calls = [], hookPanicLog = [] \<rparr>"
proof (cases "\<exists>cs. compose_loop ps empty_compose_state = Ok cs")
  case True
  then obtain cs where cs: "compose_loop ps empty_compose_state = Ok cs" by blast
  then have "compose_built ps cs" by (rule compose_loop_iff(2))
  with True cs show ?thesis
    by (auto simp: Compose_def pipeline_ok_def compose_loop_iff(1) [symmetric] compose_built_def)
next
  case False
  then show ?thesis
    by (auto simp: Compose_def pipeline_ok_def compose_loop_iff(1) [symmetric] split: outcome.splits)
qed

lemma Compose_accepts:
  "(is_ok (Compose ps) \<longleftrightarrow> pipeline_ok ps) \<and> fails_only (\<lambda>e. err_is e ErrPermanent) (Compose ps)"
proof
  show "is_ok (Compose ps) \<longleftrightarrow> pipeline_ok ps"
    by (simp add: is_ok_iff Compose_Ok_iff)
  show "fails_only (\<lambda>e. err_is e ErrPermanent) (Compose ps)"
    using compose_errors_permanent [of ps empty_compose_state]
    by (cases "compose_loop ps empty_compose_state") (simp_all add: Compose_def)
qed

text \<open>
  Claim C6. \<^verbatim>\<open>Compose\<close> accepts a list of phases exactly when it is a valid pipeline: not empty, names
  non-empty and distinct, every requirement met by the latest preceding declaration of its key
  (type names equal where both give one, every \<^verbatim>\<open>_min\<close> constraint numerically satisfied and every
  other constraint equal), inline phases with distinct non-empty entry states that form a chain
  from exit to entry state, internal states that clash neither among themselves nor with an
  entry state of the same or an earlier phase, and no states on non-inline phases. Every
  rejection is an \<^verbatim>\<open>ErrPermanent\<close>, and \<^verbatim>\<open>Compose\<close> never panics.
\<close>

theorem compose_accepts_iff:
  "(is_ok (Compose ps) \<longleftrightarrow> pipeline_ok ps) \<and> fails_only (\<lambda>e. err_is e ErrPermanent) (Compose ps)"
  by (rule Compose_accepts)

end
