(* ===== verification/Session_Runner.thy ===== *)
theory Session_Runner
  imports Phase_Compose
begin

text \<open>
  The session half of \<^verbatim>\<open>pkg/ares/phase/runner.go\<close> with the auto-commit of \<^verbatim>\<open>runner_lineage.go\<close>:
  beginning and ending sessions, dispatching a message, the cascade of \<^verbatim>\<open>advance\<close>, and
  \<^verbatim>\<open>AdvanceToState\<close>.

  The lineage store is one object that the runner and the contexts of all its sessions point
  to. The model keeps it in the runner: \<open>run_hook\<close> hands it to a hook inside the context and
  takes it back afterwards. Each operation is one atomic step and reads the clock once
  (\<open>now\<close>, the creation time of the nodes it commits, which no hash or signature covers). A call
  of a method on a nil \<^verbatim>\<open>Phase\<close> is a panic.
\<close>

definition put_tracker :: "string \<Rightarrow> 'v session_tracker \<Rightarrow> 'v session_runner \<Rightarrow> 'v session_runner" where
  "put_tracker sid t r = r\<lparr> sessions := mput sid t (sessions r) \<rparr>"

definition run_hook ::
  "'v hook \<Rightarrow> string \<Rightarrow> 'v session_tracker \<Rightarrow> 'v session_runner
    \<Rightarrow> (err, unit) outcome \<times> 'v session_tracker \<times> 'v session_runner" where
  "run_hook h sid t r =
     (let (res, c) = h ((trk_ctx t)\<lparr> ctx_lineageStore := lineageStore r \<rparr>);
          t' = t\<lparr> trk_ctx := c \<rparr>
      in (res, t', put_tracker sid t' (r\<lparr> lineageStore := ctx_lineageStore c \<rparr>)))"

section \<open>Committing the outputs of a phase\<close>

definition resolveParents :: "in_memory_store \<Rightarrow> 'v phase \<Rightarrow> 'v session_context \<Rightarrow> dag_node list" where
  "resolveParents st p c =
     List.map_filter
       (\<lambda>(key, _).
          case ctx_Get c key of
            None \<Rightarrow> None
          | Some raw \<Rightarrow>
              (case as_bytes raw of
                 None \<Rightarrow> None
               | Some payload \<Rightarrow>
                   List.find (\<lambda>node. dn_PayloadHash node = HashPayload payload)
                     (store_WalkSession st (SessionID c))))
       (Requires p)"

fun commit_outputs ::
  "int \<Rightarrow> string \<Rightarrow> signer option \<Rightarrow> dag_node list \<Rightarrow> 'v session_context \<Rightarrow> context_schema
    \<Rightarrow> in_memory_store \<Rightarrow> (err, unit) outcome \<times> in_memory_store" where
  "commit_outputs now pname signer parents c [] st = (Ok (), st)"
| "commit_outputs now pname signer parents c ((key, kt) # rest) st =
     (if NoLineage kt then commit_outputs now pname signer parents c rest st
      else case ctx_Get c key of
             None \<Rightarrow> commit_outputs now pname signer parents c rest st
           | Some raw \<Rightarrow>
               (case as_bytes raw of
                  None \<Rightarrow> commit_outputs now pname signer parents c rest st
                | Some payload \<Rightarrow>
                    (case Commit now (SessionID c) pname key payload parents signer of
                       Panic m \<Rightarrow> (Panic m, st)
                     | Err e \<Rightarrow> (Err (Classified ErrFrameworkBug (Note ''lineage.Commit'' key (Lin e))), st)
                     | Ok node \<Rightarrow>
                         (let (aerr, st') = store_Append st node in
                          if aerr = None \<or> aerr = Some ErrNodeExists
                          then commit_outputs now pname signer parents c rest st'
                          else (Err (Classified ErrFrameworkBug
                                  (Note ''lineage.Store.Append'' key (Lin (the aerr)))), st')))))"

definition commitPhaseOutputsIfEnabled ::
  "int \<Rightarrow> 'v phase \<Rightarrow> 'v session_context \<Rightarrow> 'v session_runner \<Rightarrow> (err, unit) outcome \<times> 'v session_runner" where
  "commitPhaseOutputsIfEnabled now p c r =
     (case lineageStore r of
        None \<Rightarrow> (Ok (), r)
      | Some st \<Rightarrow>
          (let (res, st') = commit_outputs now (Name p) (lineageSigner r) (resolveParents st p c) c (Provides p) st
           in (res, r\<lparr> lineageStore := Some st' \<rparr>)))"

section \<open>One transition\<close>

text \<open>
  \<^verbatim>\<open>Exit\<close> and the auto-commit of its outputs, then the switch of the tracker to the next phase and
  its \<^verbatim>\<open>Enter\<close>: the two halves that the loops of \<^verbatim>\<open>advance\<close> and \<^verbatim>\<open>AdvanceToState\<close> share. \<open>lbl\<close> is the
  text that tells the two in an error.
\<close>

definition exit_phase ::
  "string \<Rightarrow> int \<Rightarrow> string \<Rightarrow> 'v phase \<Rightarrow> 'v session_tracker \<Rightarrow> 'v session_runner
    \<Rightarrow> (err, unit) outcome \<times> 'v session_tracker \<times> 'v session_runner" where
  "exit_phase lbl now sid current t r =
     (case run_hook (Exit current) sid t r of
        (Err e, t1, r1) \<Rightarrow> (Err (Note (''Exit'' @ lbl) (Name current) e), t1, r1)
      | (Panic m, t1, r1) \<Rightarrow> (Panic m, t1, r1)
      | (Ok _, t1, r1) \<Rightarrow>
          (case commitPhaseOutputsIfEnabled now current (trk_ctx t1) r1 of
             (Err e, r2) \<Rightarrow> (Err (Note (''lineage commit'' @ lbl) (Name current) e), t1, r2)
           | (Panic m, r2) \<Rightarrow> (Panic m, t1, r2)
           | (Ok _, r2) \<Rightarrow> (Ok (), t1, r2)))"

definition enter_phase ::
  "string \<Rightarrow> string \<Rightarrow> session_state \<Rightarrow> 'v phase \<Rightarrow> 'v session_tracker \<Rightarrow> 'v session_runner
    \<Rightarrow> (err, unit) outcome \<times> 'v session_tracker \<times> 'v session_runner" where
  "enter_phase lbl sid next nextPhase t r =
     (let t1 = t\<lparr> trk_state := next, trk_current := Some nextPhase, trk_entered := False \<rparr>
      in case run_hook (Enter nextPhase) sid t1 (put_tracker sid t1 r) of
           (Err e, t2, r2) \<Rightarrow> (Err (Note (''Enter'' @ lbl) (Name nextPhase) e), t2, r2)
         | (Panic m, t2, r2) \<Rightarrow> (Panic m, t2, r2)
         | (Ok _, t2, r2) \<Rightarrow>
             (let t3 = t2\<lparr> trk_entered := True \<rparr> in (Ok (), t3, put_tracker sid t3 r2)))"

section \<open>The cascade\<close>

definition nil_deref :: string where
  "nil_deref = ''runtime error: invalid memory address or nil pointer dereference''"

definition hop_limit_err :: err where
  "hop_limit_err = framework_bug ''cascade hop limit exceeded; pipeline likely has a cycle'' []"

fun advance_loop ::
  "nat \<Rightarrow> int \<Rightarrow> string \<Rightarrow> 'v session_tracker \<Rightarrow> 'v session_runner \<Rightarrow> (err, bool) outcome \<times> 'v session_runner" where
  "advance_loop 0 now sid t r = (Err hop_limit_err, r)"
| "advance_loop (Suc n) now sid t r =
     (case trk_current t of
        None \<Rightarrow> (Panic nil_deref, r)
      | Some current \<Rightarrow>
          (case exit_phase [] now sid current t r of
             (Err e, t1, r1) \<Rightarrow> (Err e, r1)
           | (Panic m, t1, r1) \<Rightarrow> (Panic m, r1)
           | (Ok _, t1, r1) \<Rightarrow>
               (let next = ExitState current in
                if next = StateNone
                then (Ok True, put_tracker sid (t1\<lparr> trk_state := StateNone, trk_current := None \<rparr>) r1)
                else case map_of (byEntryState r1) next of
                       None \<Rightarrow> (Err (framework_bug ''no phase claims state'' [next, Name current]), r1)
                     | Some nextPhase \<Rightarrow>
                         (case enter_phase [] sid next nextPhase t1 r1 of
                            (Err e, t2, r2) \<Rightarrow> (Err e, r2)
                          | (Panic m, t2, r2) \<Rightarrow> (Panic m, r2)
                          | (Ok _, t2, r2) \<Rightarrow>
                              if ConsumedMessageTypes nextPhase \<noteq> [] then (Ok True, r2)
                              else if \<not> CheckComplete nextPhase (trk_ctx t2) then (Ok True, r2)
                              else advance_loop n now sid t2 r2))))"

definition advance ::
  "int \<Rightarrow> string \<Rightarrow> 'v session_tracker \<Rightarrow> 'v session_runner \<Rightarrow> (err, bool) outcome \<times> 'v session_runner" where
  "advance now sid t r = advance_loop (length (phases r) + 1) now sid t r"

section \<open>The operations of the runner\<close>

definition PhaseForState :: "'v session_runner \<Rightarrow> session_state \<Rightarrow> 'v phase option" where
  "PhaseForState r s =
     (case map_of (byEntryState r) s of
        Some p \<Rightarrow> Some p
      | None \<Rightarrow> (case map_of (byInternalState r) s of Some p \<Rightarrow> Some p | None \<Rightarrow> None))"

text \<open>
  \<^verbatim>\<open>BeginSession\<close> returns a pointer to the context of the tracker; here the context is reached
  through the runner by the session's id (\<open>session_context_of\<close>, \<open>seed_context\<close>).
\<close>

definition BeginSession ::
  "string \<Rightarrow> string \<Rightarrow> 'v session_runner \<Rightarrow> (err, unit) outcome \<times> 'v session_runner" where
  "BeginSession sessionID cohortID r =
     (if sessionID = [] then (Err (permanent ''BeginSession requires non-empty sessionID'' []), r)
      else if map_of (sessions r) sessionID \<noteq> None
      then (Err (permanent ''BeginSession: session is already active'' [sessionID]), r)
      else
        (let c = (NewSessionContext sessionID)\<lparr> CohortID := cohortID,
                   ctx_lineageStore := lineageStore r, ctx_lineageSigner := lineageSigner r \<rparr>
         in case map_of (byEntryState r) (initialState r) of
              None \<Rightarrow> (Err (framework_bug ''BeginSession: no phase claims initial state'' [initialState r]), r)
            | Some first \<Rightarrow>
                (let t = \<lparr> trk_ctx = c, trk_state = initialState r, trk_current = Some first, trk_entered = False \<rparr>
                 in case run_hook (Enter first) sessionID t (put_tracker sessionID t r) of
                      (Err e, t1, r1) \<Rightarrow>
                        (Err (Note ''Enter'' (Name first) e), r1\<lparr> sessions := mdel sessionID (sessions r1) \<rparr>)
                    | (Panic m, t1, r1) \<Rightarrow> (Panic m, r1)
                    | (Ok _, t1, r1) \<Rightarrow> (Ok (), put_tracker sessionID (t1\<lparr> trk_entered := True \<rparr>) r1))))"

definition HandleMessage ::
  "int \<Rightarrow> string \<Rightarrow> string \<Rightarrow> string \<Rightarrow> bytes \<Rightarrow> 'v session_runner \<Rightarrow> (err, bool) outcome \<times> 'v session_runner" where
  "HandleMessage now sessionID msgType from payload r =
     (case map_of (sessions r) sessionID of
        None \<Rightarrow> (Err (permanent ''HandleMessage: session is not active'' [sessionID]), r)
      | Some t \<Rightarrow>
          (case trk_current t of
             None \<Rightarrow> (Panic nil_deref, r)
           | Some current \<Rightarrow>
               if \<not> phaseConsumes current msgType
               then (Err (permanent ''phase does not consume message type in state'' [Name current, msgType, trk_state t]), r)
               else
                 (case run_hook (OnMessage current msgType from payload) sessionID t r of
                    (Err e, t1, r1) \<Rightarrow> (Err (Note ''OnMessage'' (Name current) e), r1)
                  | (Panic m, t1, r1) \<Rightarrow> (Panic m, r1)
                  | (Ok _, t1, r1) \<Rightarrow>
                      if \<not> CheckComplete current (trk_ctx t1) then (Ok False, r1)
                      else advance now sessionID t1 r1)))"

fun advance_to ::
  "nat \<Rightarrow> int \<Rightarrow> string \<Rightarrow> session_state \<Rightarrow> 'v session_tracker \<Rightarrow> 'v session_runner
    \<Rightarrow> (err, unit) outcome \<times> 'v session_runner" where
  "advance_to 0 now sid target t r =
     (Err (framework_bug ''AdvanceToState: hop limit exceeded'' [sid, target]), r)"
| "advance_to (Suc n) now sid target t r =
     (if trk_state t = target then (Ok (), r)
      else case trk_current t of
             None \<Rightarrow> (Err (framework_bug ''AdvanceToState: session has no current phase'' [sid, target]), r)
           | Some current \<Rightarrow>
               (case exit_phase '' during AdvanceToState'' now sid current t r of
                  (Err e, t1, r1) \<Rightarrow> (Err e, r1)
                | (Panic m, t1, r1) \<Rightarrow> (Panic m, r1)
                | (Ok _, t1, r1) \<Rightarrow>
                    (let next = ExitState current in
                     if next = StateNone
                     then (Err (permanent ''AdvanceToState: reached terminal phase without entering target''
                             [sid, Name current, target]), r1)
                     else case map_of (byEntryState r1) next of
                            None \<Rightarrow> (Err (framework_bug ''AdvanceToState: no phase claims state'' [next]), r1)
                          | Some nextPhase \<Rightarrow>
                              (case enter_phase '' during AdvanceToState'' sid next nextPhase t1 r1 of
                                 (Err e, t2, r2) \<Rightarrow> (Err e, r2)
                               | (Panic m, t2, r2) \<Rightarrow> (Panic m, r2)
                               | (Ok _, t2, r2) \<Rightarrow> advance_to n now sid target t2 r2))))"

definition AdvanceToState ::
  "int \<Rightarrow> string \<Rightarrow> session_state \<Rightarrow> 'v session_runner \<Rightarrow> (err, unit) outcome \<times> 'v session_runner" where
  "AdvanceToState now sessionID target r =
     (case map_of (sessions r) sessionID of
        None \<Rightarrow> (Err (permanent ''AdvanceToState: session is not active'' [sessionID]), r)
      | Some t \<Rightarrow>
          if trk_state t = target then (Ok (), r)
          else if (case trk_current t of None \<Rightarrow> False | Some p \<Rightarrow> target \<in> set (InternalStates p))
          then (Ok (), r)
          else advance_to (length (phases r) + 1) now sessionID target t r)"

definition EndSession :: "string \<Rightarrow> 'v session_runner \<Rightarrow> 'v session_runner" where
  "EndSession sessionID r = r\<lparr> sessions := mdel sessionID (sessions r) \<rparr>"

definition CurrentState :: "'v session_runner \<Rightarrow> string \<Rightarrow> session_state \<times> bool" where
  "CurrentState r sessionID =
     (case map_of (sessions r) sessionID of None \<Rightarrow> (StateNone, False) | Some t \<Rightarrow> (trk_state t, True))"

text \<open>
  The context of a session as its holder sees it: the store in it is the runner's, to which every context points. The copy that
  the tracker keeps between hooks is never read.
\<close>

definition session_context_of :: "'v session_runner \<Rightarrow> string \<Rightarrow> 'v session_context option" where
  "session_context_of r sessionID = map_option (\<lambda>t. (trk_ctx t)\<lparr> ctx_lineageStore := lineageStore r \<rparr>) (map_of (sessions r) sessionID)"

text \<open>The caller's \<^verbatim>\<open>ctx.Set\<close> on the context that \<^verbatim>\<open>BeginSession\<close> or \<^verbatim>\<open>SessionContext\<close> returned.\<close>

definition seed_context :: "string \<Rightarrow> string \<Rightarrow> 'v any \<Rightarrow> 'v session_runner \<Rightarrow> 'v session_runner" where
  "seed_context sessionID key v r =
     (case map_of (sessions r) sessionID of
        None \<Rightarrow> r
      | Some t \<Rightarrow> put_tracker sessionID (t\<lparr> trk_ctx := ctx_Set (trk_ctx t) key v \<rparr>) r)"

end
