(* ===== verification/Runner_Invariants.thy ===== *)
theory Runner_Invariants
  imports Session_Runner
begin

text \<open>
  The invariant of the session runner, that every operation keeps it, and what follows: the
  operations on one session leave every other session alone, sessions move forward through the
  pipeline only, and the cascade cannot exceed its hop limit.
\<close>

section \<open>What a hook may do\<close>

text \<open>
  The fields of a context that hold the lineage store and the signer are private to the
  package, and \<^verbatim>\<open>CommitArtifact\<close> is the only way a hook can reach them; a hook leaves the session's
  id as it is (\<^verbatim>\<open>set once [...] and never changes\<close>), and it commits artifacts with parents that
  are in the store. \<open>hook_confined\<close> says so.
\<close>

fun store_grows :: "in_memory_store option \<Rightarrow> in_memory_store option \<Rightarrow> bool" where
  "store_grows None s' = (s' = None)"
| "store_grows (Some s) s' =
     (\<exists>st. s' = Some st \<and> (store_sound s \<longrightarrow> store_sound st) \<and>
        (\<forall>h n. store_Get s h = Ok n \<longrightarrow> store_Get st h = Ok n))"

definition ctx_confined :: "'v session_context \<Rightarrow> 'v session_context \<Rightarrow> bool" where
  "ctx_confined c c' \<longleftrightarrow>
     SessionID c' = SessionID c \<and> ctx_lineageSigner c' = ctx_lineageSigner c \<and>
     store_grows (ctx_lineageStore c) (ctx_lineageStore c')"

definition hook_confined :: "'v hook \<Rightarrow> bool" where
  "hook_confined h \<longleftrightarrow> (\<forall>c. ctx_confined c (snd (h c)))"

definition phase_confined :: "'v phase \<Rightarrow> bool" where
  "phase_confined p \<longleftrightarrow> hook_confined (Enter p) \<and> hook_confined (Exit p) \<and>
     (\<forall>mt from m. hook_confined (OnMessage p mt from m))"

lemma store_grows_refl [simp]: "store_grows s s"
  by (cases s) auto

lemma store_grows_trans: "store_grows a b \<Longrightarrow> store_grows b c \<Longrightarrow> store_grows a c"
  by (cases a; cases b) auto

lemma store_grows_Append:
  assumes "node_authentic n" and "store_sound s \<Longrightarrow> \<forall>p \<in> set (dn_Parents n). is_ok (store_Get s p)"
  shows "store_grows (Some s) (Some (snd (store_Append s n)))"
  using assms by (auto intro: store_sound_Append ims.get_append_mono)

lemma store_grows_iff: "store_grows a b \<Longrightarrow> a = None \<longleftrightarrow> b = None"
  by (cases a) auto

lemma ctx_confined_refl [simp]: "ctx_confined c c"
  by (simp add: ctx_confined_def)

lemma ctx_confined_trans: "ctx_confined a b \<Longrightarrow> ctx_confined b c \<Longrightarrow> ctx_confined a c"
  by (auto simp: ctx_confined_def intro: store_grows_trans)

lemma ctx_confined_Set [simp]: "ctx_confined a (ctx_Set c k v) = ctx_confined a c"
  by (simp add: ctx_confined_def)

lemma ctx_confined_Update [simp]: "ctx_confined a (ctx_Update c k f) = ctx_confined a c"
  by (simp add: ctx_confined_def)

lemma ctx_confined_Accumulate [simp]: "ctx_confined a (AccumulateMessage c b from m) = ctx_confined a c"
  by (simp add: ctx_confined_def)

text \<open>\<^verbatim>\<open>CommitArtifact\<close> is confined when its parents are in the store: it only appends to it.\<close>

lemma Commit_parents_stored:
  assumes "Commit now sid ph role m parents so = Ok n" and "\<forall>p \<in> set parents. is_ok (store_Get st (dn_Hash p))"
  shows "\<forall>p \<in> set (dn_Parents n). is_ok (store_Get st p)"
  using assms(2) Commit_fields(5) [OF assms(1)] by auto

lemma ctx_confined_CommitArtifact:
  assumes "\<And>st. ctx_lineageStore c = Some st \<Longrightarrow> store_sound st \<Longrightarrow>
      \<forall>p \<in> set parents. is_ok (store_Get st (dn_Hash p))"
  shows "ctx_confined c (snd (CommitArtifact now c ph role m parents))"
proof (cases "\<exists>st sg n. ctx_lineageStore c = Some st \<and> ctx_lineageSigner c = Some sg \<and>
    Commit now (SessionID c) ph role m parents (Some sg) = Ok n")
  case True
  then obtain st sg n where *: "ctx_lineageStore c = Some st" "ctx_lineageSigner c = Some sg"
    "Commit now (SessionID c) ph role m parents (Some sg) = Ok n" by blast
  have "snd (CommitArtifact now c ph role m parents) =
      c\<lparr> ctx_lineageStore := Some (snd (store_Append st n)) \<rparr>"
    using * by (auto simp: CommitArtifact_def Let_def split: prod.split option.split lineage_err.split)
  moreover have "store_grows (Some st) (Some (snd (store_Append st n)))"
    using Commit_authentic Commit_parents_stored assms * by (intro store_grows_Append) blast+
  ultimately show ?thesis using * by (simp add: ctx_confined_def)
next
  case False
  then have "snd (CommitArtifact now c ph role m parents) = c"
    by (auto simp: CommitArtifact_def split: option.split outcome.split)
  then show ?thesis by simp
qed

section \<open>The invariant\<close>

definition config_ok :: "'v session_runner \<Rightarrow> bool" where
  "config_ok r \<longleftrightarrow>
     pipeline_ok (phases r) \<and>
     byEntryState r = map (\<lambda>p. (EntryState p, p)) (inlines (phases r)) \<and>
     initialState r = (if inlines (phases r) = [] then StateNone else EntryState (hd (inlines (phases r)))) \<and>
     (\<forall>p \<in> set (phases r). phase_confined p)"

definition tracker_ok :: "'v session_runner \<Rightarrow> string \<Rightarrow> 'v session_tracker \<Rightarrow> bool" where
  "tracker_ok r sid t \<longleftrightarrow>
     SessionID (trk_ctx t) = sid \<and> ctx_lineageSigner (trk_ctx t) = lineageSigner r \<and>
     (case trk_current t of
        None \<Rightarrow> trk_state t = StateNone
      | Some p \<Rightarrow> p \<in> set (inlines (phases r)) \<and> trk_state t = EntryState p)"

definition store_ok :: "'v session_runner \<Rightarrow> bool" where
  "store_ok r \<longleftrightarrow> (case lineageStore r of None \<Rightarrow> True | Some st \<Rightarrow> store_sound st)"

definition runner_inv :: "'v session_runner \<Rightarrow> bool" where
  "runner_inv r \<longleftrightarrow>
     config_ok r \<and> store_ok r \<and> map_wf (sessions r) \<and>
     (\<forall>sid t. map_of (sessions r) sid = Some t \<longrightarrow> sid \<noteq> [] \<and> tracker_ok r sid t)"

text \<open>\<open>session_frame sid r r'\<close>: from \<open>r\<close> to \<open>r'\<close> only session \<open>sid\<close> and the store may have changed.\<close>

definition same_config :: "'v session_runner \<Rightarrow> 'v session_runner \<Rightarrow> bool" where
  "same_config r r' \<longleftrightarrow>
     phases r' = phases r \<and> byName r' = byName r \<and> byEntryState r' = byEntryState r \<and>
     byInternalState r' = byInternalState r \<and> initialState r' = initialState r \<and>
     lineageSigner r' = lineageSigner r \<and> lineageVerifiers r' = lineageVerifiers r \<and>
     lineageFailureHook r' = lineageFailureHook r"

definition session_frame :: "string \<Rightarrow> 'v session_runner \<Rightarrow> 'v session_runner \<Rightarrow> bool" where
  "session_frame sid r r' \<longleftrightarrow>
     same_config r r' \<and> store_grows (lineageStore r) (lineageStore r') \<and>
     (\<forall>sid'. sid' \<noteq> sid \<longrightarrow> map_of (sessions r') sid' = map_of (sessions r) sid')"

lemma same_config_refl [simp]: "same_config r r"
  by (simp add: same_config_def)

lemma same_config_trans: "same_config a b \<Longrightarrow> same_config b c \<Longrightarrow> same_config a c"
  by (simp add: same_config_def)

lemma session_frame_refl [simp]: "session_frame sid r r"
  by (simp add: session_frame_def)

lemma session_frame_trans:
  "session_frame sid a b \<Longrightarrow> session_frame sid b c \<Longrightarrow> session_frame sid a c"
  unfolding session_frame_def by (metis same_config_trans store_grows_trans)

lemma session_frame_put [simp]: "session_frame sid r (put_tracker sid t r)"
  by (simp add: session_frame_def put_tracker_def same_config_def)

lemma config_ok_same: "same_config r r' \<Longrightarrow> config_ok r' = config_ok r"
  by (simp add: config_ok_def same_config_def)

lemma tracker_ok_same: "same_config r r' \<Longrightarrow> tracker_ok r' sid t = tracker_ok r sid t"
  unfolding tracker_ok_def same_config_def by presburger

lemma store_ok_grows: "store_grows (lineageStore r) (lineageStore r') \<Longrightarrow> store_ok r \<Longrightarrow> store_ok r'"
  by (cases "lineageStore r") (auto simp: store_ok_def)

text \<open>The way an operation keeps the invariant: only its own session changes, and that one stays well-formed.\<close>

lemma runner_inv_frame:
  assumes "runner_inv r" and "session_frame sid r r'" and "map_wf (sessions r')"
    and "\<And>t. map_of (sessions r') sid = Some t \<Longrightarrow> sid \<noteq> [] \<and> tracker_ok r sid t"
  shows "runner_inv r'"
  unfolding runner_inv_def
proof (intro conjI allI impI)
  have same: "same_config r r'" using assms(2) by (simp add: session_frame_def)
  show "config_ok r'" using assms(1) same by (simp add: runner_inv_def config_ok_same)
  show "store_ok r'" using assms(1,2) store_ok_grows by (auto simp: runner_inv_def session_frame_def)
  show "map_wf (sessions r')" by (rule assms(3))
  fix sid' t assume t: "map_of (sessions r') sid' = Some t"
  have "sid' \<noteq> [] \<and> tracker_ok r sid' t"
  proof (cases "sid' = sid")
    case True
    then show ?thesis using t assms(4) by simp
  next
    case False
    then have "map_of (sessions r) sid' = Some t" using t assms(2) by (simp add: session_frame_def)
    then show ?thesis using assms(1) by (simp add: runner_inv_def)
  qed
  then show "sid' \<noteq> []" "tracker_ok r' sid' t" using tracker_ok_same [OF same] by auto
qed

section \<open>The pipeline a runner was composed from\<close>

lemma pipeline_ok_snoc:
  "pipeline_ok (ps @ [p]) \<longleftrightarrow> (ps = [] \<or> pipeline_ok ps) \<and> phase_ok ps p"
  by (auto simp: pipeline_ok_def nth_append less_Suc_eq)

lemma pipeline_entries:
  assumes "pipeline_ok ps"
  shows "distinct (map EntryState (inlines ps))" and "\<forall>p \<in> set (inlines ps). EntryState p \<noteq> StateNone"
    and "\<forall>i. Suc i < length (inlines ps) \<longrightarrow> ExitState (inlines ps ! i) = EntryState (inlines ps ! Suc i)"
proof -
  have "distinct (map EntryState (inlines ps)) \<and> (\<forall>p \<in> set (inlines ps). EntryState p \<noteq> StateNone) \<and>
    (\<forall>i. Suc i < length (inlines ps) \<longrightarrow> ExitState (inlines ps ! i) = EntryState (inlines ps ! Suc i))"
    using assms
  proof (induction ps rule: rev_induct)
    case (snoc p ps)
    show ?case
    proof (cases "RunsAt p = RunsAtInline \<and> inlines ps \<noteq> []")
      case True
      then have ne: "inlines ps \<noteq> []" and "ps \<noteq> []" by auto
      then have IH: "distinct (map EntryState (inlines ps))" "\<forall>q \<in> set (inlines ps). EntryState q \<noteq> StateNone"
        "\<And>i. Suc i < length (inlines ps) \<Longrightarrow> ExitState (inlines ps ! i) = EntryState (inlines ps ! Suc i)"
        and ok: "phase_ok ps p"
        using snoc by (auto simp: pipeline_ok_snoc)
      have "ExitState ((inlines ps @ [p]) ! i) = EntryState ((inlines ps @ [p]) ! Suc i)"
        if "Suc i < Suc (length (inlines ps))" for i
      proof (cases "Suc i < length (inlines ps)")
        case False
        then have "Suc i = length (inlines ps)" using that by simp
        then have "inlines ps ! i = last (inlines ps)" using ne
          by (metis diff_Suc_1 last_conv_nth)
        then show ?thesis using True ok \<open>Suc i = length (inlines ps)\<close>
          by (simp add: nth_append phase_ok_def)
      qed (use IH in \<open>simp add: nth_append\<close>)
      then show ?thesis using True IH ok by (auto simp: phase_ok_def)
    next
      case False
      then show ?thesis using snoc by (auto simp: pipeline_ok_snoc phase_ok_def)
    qed
  qed simp
  then show "distinct (map EntryState (inlines ps))" and "\<forall>p \<in> set (inlines ps). EntryState p \<noteq> StateNone"
    and "\<forall>i. Suc i < length (inlines ps) \<longrightarrow> ExitState (inlines ps ! i) = EntryState (inlines ps ! Suc i)"
    by auto
qed

lemma entry_lookup:
  assumes "config_ok r"
  shows "map_of (byEntryState r) s = Some p \<longleftrightarrow> p \<in> set (inlines (phases r)) \<and> EntryState p = s"
proof -
  have "distinct (map fst (map (\<lambda>p. (EntryState p, p)) (inlines (phases r))))"
    using pipeline_entries(1) [of "phases r"] assms by (simp add: config_ok_def comp_def)
  then show ?thesis using assms by (auto simp: config_ok_def)
qed

section \<open>Every step keeps the invariant\<close>

text \<open>The state of the runner while an operation works on session \<open>sid\<close> with tracker \<open>t\<close>.\<close>

definition working :: "string \<Rightarrow> 'v session_runner \<Rightarrow> 'v session_tracker \<Rightarrow> 'v session_runner \<Rightarrow> bool" where
  "working sid r0 t r \<longleftrightarrow>
     runner_inv r \<and> session_frame sid r0 r \<and> map_of (sessions r) sid = Some t"

lemma working_start: "runner_inv r \<Longrightarrow> map_of (sessions r) sid = Some t \<Longrightarrow> working sid r t r"
  by (simp add: working_def)

lemma working_tracker: "working sid r0 t r \<Longrightarrow> sid \<noteq> [] \<and> tracker_ok r sid t"
  by (simp add: working_def runner_inv_def)

lemma working_put:
  assumes "working sid r0 t r" and "tracker_ok r sid t'"
  shows "working sid r0 t' (put_tracker sid t' r)"
proof -
  have "runner_inv (put_tracker sid t' r)"
  proof (rule runner_inv_frame [OF _ session_frame_put])
    show "runner_inv r" using assms(1) by (simp add: working_def)
    then show "map_wf (sessions (put_tracker sid t' r))" by (simp add: runner_inv_def put_tracker_def)
    show "sid \<noteq> [] \<and> tracker_ok r sid t1" if "map_of (sessions (put_tracker sid t' r)) sid = Some t1" for t1
      using that working_tracker [OF assms(1)] assms(2) by (simp add: put_tracker_def)
  qed
  moreover have "session_frame sid r0 (put_tracker sid t' r)"
    using assms(1) session_frame_trans session_frame_put unfolding working_def by blast
  ultimately show ?thesis by (simp add: working_def put_tracker_def)
qed

lemma working_store:
  assumes "working sid r0 t r" and "store_grows (lineageStore r) s"
  shows "working sid r0 t (r\<lparr> lineageStore := s \<rparr>)"
proof -
  have fr: "session_frame sid r (r\<lparr> lineageStore := s \<rparr>)"
    using assms(2) by (simp add: session_frame_def same_config_def)
  have "runner_inv (r\<lparr> lineageStore := s \<rparr>)"
    using assms working_tracker [OF assms(1)]
    by (intro runner_inv_frame [OF _ fr]) (auto simp: working_def runner_inv_def)
  then show ?thesis
    using assms(1) session_frame_trans [OF _ fr] by (simp add: working_def)
qed

lemma working_hook:
  assumes "working sid r0 t r" and "hook_confined h" and "run_hook h sid t r = (res, t', r')"
  shows "working sid r0 t' r' \<and> trk_state t' = trk_state t \<and> trk_current t' = trk_current t"
proof -
  define c where "c = (trk_ctx t)\<lparr> ctx_lineageStore := lineageStore r \<rparr>"
  obtain c' where h: "h c = (res, c')" and t': "t' = t\<lparr> trk_ctx := c' \<rparr>"
    and r': "r' = put_tracker sid t' (r\<lparr> lineageStore := ctx_lineageStore c' \<rparr>)"
    using assms(3) by (auto simp: run_hook_def c_def Let_def split: prod.splits)
  have conf: "ctx_confined c c'" using assms(2) h unfolding hook_confined_def by (metis snd_conv)
  then have w: "working sid r0 t (r\<lparr> lineageStore := ctx_lineageStore c' \<rparr>)"
    using assms(1) by (intro working_store) (auto simp: ctx_confined_def c_def)
  moreover have "tracker_ok (r\<lparr> lineageStore := ctx_lineageStore c' \<rparr>) sid t'"
    using working_tracker [OF w] conf
    by (simp add: t' tracker_ok_def ctx_confined_def c_def split: option.splits)
  ultimately show ?thesis unfolding r' using working_put by (auto simp: t')
qed

lemma commit_outputs_cons:
  "(snd (commit_outputs now pn sg parents c ((key, kt) # prov) st) = st \<and>
      \<not> is_ok (fst (commit_outputs now pn sg parents c ((key, kt) # prov) st))) \<or>
   (commit_outputs now pn sg parents c ((key, kt) # prov) st = commit_outputs now pn sg parents c prov st \<and>
      (NoLineage kt \<or> TryGet as_bytes c key = None)) \<or>
   (\<exists>payload n. TryGet as_bytes c key = Some payload \<and>
      Commit now (SessionID c) pn key payload parents sg = Ok n \<and>
      commit_outputs now pn sg parents c ((key, kt) # prov) st =
        commit_outputs now pn sg parents c prov (snd (store_Append st n)))"
proof (cases "\<exists>raw payload n. \<not> NoLineage kt \<and> ctx_Get c key = Some raw \<and> as_bytes raw = Some payload \<and>
    Commit now (SessionID c) pn key payload parents sg = Ok n")
  case True
  then obtain raw payload n where *: "\<not> NoLineage kt" "ctx_Get c key = Some raw"
    "as_bytes raw = Some payload" "Commit now (SessionID c) pn key payload parents sg = Ok n" by blast
  obtain aerr st' where a: "store_Append st n = (aerr, st')" by fastforce
  then have "aerr = None \<or> aerr = Some ErrNodeExists" using ims.append_result [of st n] by simp
  then have "commit_outputs now pn sg parents c ((key, kt) # prov) st = commit_outputs now pn sg parents c prov st'"
    using * a by auto
  moreover have "TryGet as_bytes c key = Some payload" using * by (simp add: TryGet_def)
  ultimately show ?thesis using * a by auto
next
  case False
  then show ?thesis by (auto simp: TryGet_def split: option.splits outcome.splits)
qed

lemma commit_outputs_grows:
  assumes "\<forall>p \<in> set parents. is_ok (store_Get st (dn_Hash p))"
  shows "store_grows (Some st) (Some (snd (commit_outputs now pn sg parents c prov st)))"
  using assms
proof (induction prov arbitrary: st)
  case (Cons x prov)
  obtain key kt where x: "x = (key, kt)" by fastforce
  consider (same) "snd (commit_outputs now pn sg parents c (x # prov) st) = st"
    | (skip) "commit_outputs now pn sg parents c (x # prov) st = commit_outputs now pn sg parents c prov st"
    | (commit) payload n where "Commit now (SessionID c) pn key payload parents sg = Ok n"
        "commit_outputs now pn sg parents c (x # prov) st =
          commit_outputs now pn sg parents c prov (snd (store_Append st n))"
    using commit_outputs_cons [of now pn sg parents c key kt prov st] unfolding x by blast
  then show ?case
  proof cases
    case (commit payload n)
    have g: "store_grows (Some st) (Some (snd (store_Append st n)))"
      using Commit_authentic [OF commit(1)] Commit_parents_stored [OF commit(1)] Cons.prems
      by (intro store_grows_Append) blast+
    moreover have "store_grows (Some (snd (store_Append st n)))
        (Some (snd (commit_outputs now pn sg parents c prov (snd (store_Append st n)))))"
      using Cons.prems ims.get_append_mono unfolding is_ok_iff by (intro Cons.IH) (fastforce simp: is_ok_iff)
    ultimately show ?thesis using commit(2) store_grows_trans by metis
  qed (use Cons.IH [of st] Cons.prems in auto)
qed simp

lemma resolveParents_stored:
  assumes "store_wf st"
  shows "\<forall>n \<in> set (resolveParents st p c). n \<in> set (store_WalkSession st (SessionID c)) \<and> store_Get st (dn_Hash n) = Ok n"
proof
  fix n assume "n \<in> set (resolveParents st p c)"
  then have "n \<in> set (store_WalkSession st (SessionID c))"
    by (auto simp: resolveParents_def set_map_filter find_Some_iff split: option.splits)
  then show "n \<in> set (store_WalkSession st (SessionID c)) \<and> store_Get st (dn_Hash n) = Ok n"
    using store_Get_walk [OF assms] by blast
qed

lemma working_commit:
  assumes "working sid r0 t r" and "commitPhaseOutputsIfEnabled now p c r = (res, r')"
  shows "working sid r0 t r'"
proof (cases "lineageStore r")
  case (Some st)
  let ?o = "commit_outputs now (Name p) (lineageSigner r) (resolveParents st p c) c (Provides p) st"
  have "r' = r\<lparr> lineageStore := Some (snd ?o) \<rparr>"
    using assms(2) Some by (auto simp: commitPhaseOutputsIfEnabled_def Let_def split: prod.splits)
  moreover have "store_grows (Some st) (Some (snd ?o))"
    using resolveParents_stored [of st p c] assms(1) Some
    by (intro commit_outputs_grows) (auto simp: working_def runner_inv_def store_ok_def store_sound_def)
  ultimately show ?thesis using working_store [OF assms(1)] Some by metis
qed (use assms in \<open>simp add: commitPhaseOutputsIfEnabled_def\<close>)

lemma working_phase_confined:
  assumes "working sid r0 t r" and "p \<in> set (inlines (phases r))"
  shows "hook_confined (Enter p)" "hook_confined (Exit p)" "hook_confined (OnMessage p mt from m)"
  using assms by (auto simp: working_def runner_inv_def config_ok_def phase_confined_def inlines_def)

lemma working_current:
  "working sid r0 t r \<Longrightarrow> trk_current t = Some p \<Longrightarrow>
     p \<in> set (inlines (phases r)) \<and> trk_state t = EntryState p"
  using working_tracker [of sid r0 t r] by (simp add: tracker_ok_def)

lemma working_config: "working sid r0 t r \<Longrightarrow> same_config r0 r"
  by (simp add: working_def session_frame_def)

lemma working_exit:
  assumes "working sid r0 t r" and "trk_current t = Some p"
    and "exit_phase lbl now sid p t r = (res, t', r')"
  shows "working sid r0 t' r' \<and> trk_state t' = trk_state t \<and> trk_current t' = trk_current t"
proof -
  obtain res1 t1 r1 where h: "run_hook (Exit p) sid t r = (res1, t1, r1)" by (metis prod_cases3)
  have w1: "working sid r0 t1 r1 \<and> trk_state t1 = trk_state t \<and> trk_current t1 = trk_current t"
    using working_hook [OF assms(1) working_phase_confined(2) h] assms(1) working_current [OF assms(1,2)] by blast
  obtain res2 r2 where c: "commitPhaseOutputsIfEnabled now p (trk_ctx t1) r1 = (res2, r2)" by fastforce
  have "working sid r0 t1 r2" using working_commit c w1 by blast
  then show ?thesis using assms(3) h c w1 by (auto simp: exit_phase_def split: outcome.splits)
qed

lemma working_enter:
  assumes "working sid r0 t r" and "p \<in> set (inlines (phases r))" and "EntryState p = next"
    and "enter_phase lbl sid next p t r = (res, t', r')"
  shows "working sid r0 t' r' \<and> trk_state t' = next \<and> trk_current t' = Some p"
proof -
  let ?t1 = "t\<lparr> trk_state := next, trk_current := Some p, trk_entered := False \<rparr>"
  have w: "working sid r0 ?t1 (put_tracker sid ?t1 r)"
    using assms(2,3) working_tracker [OF assms(1)]
    by (intro working_put [OF assms(1)]) (auto simp: tracker_ok_def)
  obtain res2 t2 r2 where h: "run_hook (Enter p) sid ?t1 (put_tracker sid ?t1 r) = (res2, t2, r2)"
    by (metis prod_cases3)
  have w2: "working sid r0 t2 r2 \<and> trk_state t2 = next \<and> trk_current t2 = Some p"
    using working_hook [OF w working_phase_confined(1) [OF assms(1,2)] h] by simp
  have "working sid r0 (t2\<lparr> trk_entered := True \<rparr>) (put_tracker sid (t2\<lparr> trk_entered := True \<rparr>) r2)"
    using w2 working_tracker [of sid r0 t2 r2] by (intro working_put) (auto simp: tracker_ok_def)
  then show ?thesis using assms(4) h w2 by (auto simp: enter_phase_def Let_def split: outcome.splits)
qed

section \<open>Positions in the pipeline\<close>

definition phase_index :: "'v session_runner \<Rightarrow> session_state \<Rightarrow> nat" where
  "phase_index r s = length (takeWhile (\<lambda>p. EntryState p \<noteq> s) (inlines (phases r)))"

text \<open>The pipeline does not lead back into itself: the last exit state is no phase's entry state.\<close>

definition acyclic_pipeline :: "'v phase list \<Rightarrow> bool" where
  "acyclic_pipeline ps \<longleftrightarrow> (inlines ps \<noteq> [] \<longrightarrow> ExitState (last (inlines ps)) \<notin> EntryState ` set (inlines ps))"

lemma phase_index_same: "same_config r r' \<Longrightarrow> phase_index r' s = phase_index r s"
  by (simp add: phase_index_def same_config_def)

lemma phase_index_nth:
  assumes "config_ok r" and "i < length (inlines (phases r))"
  shows "phase_index r (EntryState (inlines (phases r) ! i)) = i"
proof -
  let ?qs = "inlines (phases r)"
  have d: "distinct (map EntryState ?qs)" using assms(1) pipeline_entries(1) by (auto simp: config_ok_def)
  have "takeWhile (\<lambda>p. EntryState p \<noteq> EntryState (?qs ! i)) ?qs = take i ?qs"
  proof (rule takeWhile_eq_take_P_nth)
    fix j assume "j < i" "j < length ?qs"
    then show "EntryState (?qs ! j) \<noteq> EntryState (?qs ! i)"
      using d assms(2) nth_eq_iff_index_eq [of "map EntryState ?qs" j i] by auto
  qed simp
  then show ?thesis using assms(2) by (simp add: phase_index_def)
qed

lemma phase_index_None:
  assumes "config_ok r"
  shows "phase_index r StateNone = length (inlines (phases r))"
proof -
  have "takeWhile (\<lambda>p. EntryState p \<noteq> StateNone) (inlines (phases r)) = inlines (phases r)"
    using assms pipeline_entries(2) [of "phases r"] by (auto simp: config_ok_def takeWhile_eq_all_conv)
  then show ?thesis by (simp only: phase_index_def)
qed

lemma phase_index_current:
  assumes "config_ok r" and "p \<in> set (inlines (phases r))"
  shows "phase_index r (EntryState p) < length (inlines (phases r)) \<and>
    inlines (phases r) ! phase_index r (EntryState p) = p"
  using assms phase_index_nth [OF assms(1)] by (metis in_set_conv_nth)

lemma phase_index_next:
  assumes "config_ok r" and "acyclic_pipeline (phases r)"
    and "p \<in> set (inlines (phases r))" and "q \<in> set (inlines (phases r))" and "EntryState q = ExitState p"
  shows "phase_index r (EntryState q) = Suc (phase_index r (EntryState p))"
proof -
  let ?qs = "inlines (phases r)" and ?i = "phase_index r (EntryState p)"
  have i: "?i < length ?qs" "?qs ! ?i = p" using phase_index_current assms by auto
  have "Suc ?i < length ?qs"
  proof (rule ccontr)
    assume "\<not> Suc ?i < length ?qs"
    then have "?i = length ?qs - 1" using i by simp
    moreover have ne: "?qs \<noteq> []" using assms(3) by auto
    ultimately have "p = last ?qs" using i by (metis last_conv_nth)
    then show False using assms ne unfolding acyclic_pipeline_def by (metis image_eqI)
  qed
  moreover from this have "EntryState (?qs ! Suc ?i) = EntryState q"
    using assms(1,5) pipeline_entries(3) [of "phases r"] i unfolding config_ok_def by metis
  ultimately show ?thesis using phase_index_nth [OF assms(1)] by metis
qed

section \<open>The loops\<close>

lemma advance_hop_cases:
  assumes "working sid r0 t r" and "trk_current t = Some p"
    and "advance_loop (Suc n) now sid t r = (res, r')"
  obtains (stop) t' where "working sid r0 t' r'" "trk_state t' = trk_state t" "trk_current t' = Some p"
      "\<not> is_ok res" "res \<noteq> Err hop_limit_err"
  | (terminal) t' where "working sid r0 t' r'" "ExitState p = StateNone" "trk_state t' = StateNone"
      "trk_current t' = None" "res = Ok True"
  | (entered) t' q where "working sid r0 t' r'" "q \<in> set (inlines (phases r))" "EntryState q = ExitState p"
      "trk_state t' = EntryState q" "trk_current t' = Some q"
      "res = Ok True \<or> \<not> is_ok res" "res \<noteq> Err hop_limit_err"
  | (cascade) t' r1 q where "working sid r0 t' r1" "q \<in> set (inlines (phases r))" "EntryState q = ExitState p"
      "trk_state t' = EntryState q" "trk_current t' = Some q"
      "advance_loop n now sid t' r1 = (res, r')"
proof -
  obtain res1 t1 r1 where x: "exit_phase [] now sid p t r = (res1, t1, r1)" by (metis prod_cases3)
  have w1: "working sid r0 t1 r1" "trk_state t1 = trk_state t" "trk_current t1 = Some p"
    using working_exit [OF assms(1,2) x] assms(2) by auto
  show thesis
  proof (cases "is_ok res1")
    case False
    then show thesis
      using assms(2,3) x w1 by (intro stop [of t1])
        (auto simp: hop_limit_err_def exit_phase_def split: outcome.splits prod.splits)
  next
    case True
    then have loop: "advance_loop (Suc n) now sid t r =
       (if ExitState p = StateNone
        then (Ok True, put_tracker sid (t1\<lparr> trk_state := StateNone, trk_current := None \<rparr>) r1)
        else case map_of (byEntryState r1) (ExitState p) of
               None \<Rightarrow> (Err (framework_bug ''no phase claims state'' [ExitState p, Name p]), r1)
             | Some q \<Rightarrow>
                 (case enter_phase [] sid (ExitState p) q t1 r1 of
                    (Err e, t2, r2) \<Rightarrow> (Err e, r2)
                  | (Panic m, t2, r2) \<Rightarrow> (Panic m, r2)
                  | (Ok _, t2, r2) \<Rightarrow>
                      if ConsumedMessageTypes q \<noteq> [] then (Ok True, r2)
                      else if \<not> CheckComplete q (trk_ctx t2) then (Ok True, r2)
                      else advance_loop n now sid t2 r2))"
      using assms(2) x by (auto simp: is_ok_iff Let_def)
    show thesis
    proof (cases "ExitState p = StateNone")
      case True
      have "working sid r0 (t1\<lparr> trk_state := StateNone, trk_current := None \<rparr>)
          (put_tracker sid (t1\<lparr> trk_state := StateNone, trk_current := None \<rparr>) r1)"
        using working_tracker [OF w1(1)] by (intro working_put [OF w1(1)]) (simp add: tracker_ok_def)
      then show thesis using assms(3) loop True by (intro terminal) auto
    next
      case ne: False
      show thesis
      proof (cases "map_of (byEntryState r1) (ExitState p)")
        case None
        then show thesis using assms(3) loop ne w1 by (intro stop [of t1]) (auto simp: hop_limit_err_def)
      next
        case (Some q)
        have "config_ok r1" and "phases r1 = phases r"
          using w1(1) assms(1) by (auto simp: working_def runner_inv_def session_frame_def same_config_def)
        then have q: "q \<in> set (inlines (phases r1))" "q \<in> set (inlines (phases r))" "EntryState q = ExitState p"
          using Some entry_lookup [of r1] by auto
        obtain res2 t2 r2 where e: "enter_phase [] sid (ExitState p) q t1 r1 = (res2, t2, r2)"
          by (metis prod_cases3)
        have w2: "working sid r0 t2 r2" "trk_state t2 = EntryState q" "trk_current t2 = Some q"
          using working_enter [OF w1(1) q(1,3) e] q(3) by auto
        show thesis
        proof (cases "is_ok res2 \<and> ConsumedMessageTypes q = [] \<and> CheckComplete q (trk_ctx t2)")
          case True
          then have "advance_loop n now sid t2 r2 = (res, r')"
            using assms(3) loop ne Some e by (auto simp: is_ok_iff)
          then show thesis using cascade w2 q by blast
        next
          case False
          then have "(res, r') = (case res2 of Ok _ \<Rightarrow> (Ok True, r2) | Err e \<Rightarrow> (Err e, r2) | Panic m \<Rightarrow> (Panic m, r2))"
            using assms(3) loop ne Some e by (auto simp: is_ok_iff split: outcome.splits)
          moreover have "res2 \<noteq> Err hop_limit_err"
            using e by (auto simp: enter_phase_def Let_def hop_limit_err_def split: outcome.splits prod.splits)
          ultimately show thesis
            using w2 q by (intro entered [of t2 q]) (auto split: outcome.splits)
        qed
      qed
    qed
  qed
qed

lemma working_phase_index:
  "working sid r0 t r \<Longrightarrow> phase_index r = phase_index r0 \<and> phases r = phases r0 \<and> config_ok r0"
  using phase_index_same [OF working_config, of sid r0 t r] working_config [of sid r0 t r] config_ok_same [of r0 r]
  by (auto simp: fun_eq_iff same_config_def working_def runner_inv_def)

lemma advance_loop_moves:
  assumes "working sid r0 t r" and "trk_current t = Some p"
    and "advance_loop n now sid t r = (res, r')"
  shows "\<exists>t'. working sid r0 t' r' \<and> res \<noteq> Ok False \<and>
    (acyclic_pipeline (phases r0) \<longrightarrow>
       phase_index r0 (trk_state t) \<le> phase_index r0 (trk_state t') \<and>
       (is_ok res \<longrightarrow> phase_index r0 (trk_state t) < phase_index r0 (trk_state t')) \<and>
       (length (inlines (phases r0)) - phase_index r0 (trk_state t) < n \<longrightarrow> res \<noteq> Err hop_limit_err))"
  using assms
proof (induction n arbitrary: t r p)
  case 0
  then show ?case by auto
next
  case (Suc n)
  have idx: "phases r = phases r0" "config_ok r0" using working_phase_index [OF Suc.prems(1)] by auto
  have p: "p \<in> set (inlines (phases r0))" "trk_state t = EntryState p"
    using working_current [OF Suc.prems(1,2)] idx by auto
  note pos = phase_index_current [OF idx(2) p(1)]
  from Suc.prems show ?case
  proof (cases rule: advance_hop_cases)
    case (stop t')
    then show ?thesis by auto
  next
    case (terminal t')
    then show ?thesis using phase_index_None [OF idx(2)] pos p(2) by auto
  next
    case (entered t' q)
    then show ?thesis
      using phase_index_next [OF idx(2) _ p(1)] p(2) idx(1) by (intro exI [of _ t']) auto
  next
    case (cascade t' r1 q)
    have nxt: "acyclic_pipeline (phases r0) \<Longrightarrow> phase_index r0 (trk_state t') = Suc (phase_index r0 (trk_state t))"
      using phase_index_next [OF idx(2) _ p(1)] cascade p(2) idx(1) by auto
    obtain t2 where "working sid r0 t2 r'" "res \<noteq> Ok False"
      and step: "acyclic_pipeline (phases r0) \<Longrightarrow>
       phase_index r0 (trk_state t') \<le> phase_index r0 (trk_state t2) \<and>
       (is_ok res \<longrightarrow> phase_index r0 (trk_state t') < phase_index r0 (trk_state t2)) \<and>
       (length (inlines (phases r0)) - phase_index r0 (trk_state t') < n \<longrightarrow> res \<noteq> Err hop_limit_err)"
      using Suc.IH [OF cascade(1,5,6)] by auto
    moreover have "length (inlines (phases r0)) - phase_index r0 (trk_state t') < n"
      if "acyclic_pipeline (phases r0)" "length (inlines (phases r0)) - phase_index r0 (trk_state t) < Suc n"
      using nxt [OF that(1)] that(2) pos [THEN conjunct1] unfolding p(2) by linarith
    ultimately show ?thesis using nxt step by (intro exI [of _ t2]) auto
  qed
qed

lemma advance_to_hop_cases:
  assumes "working sid r0 t r" and "trk_state t \<noteq> target"
    and "advance_to (Suc n) now sid target t r = (res, r')"
  obtains (stop) t' where "working sid r0 t' r'" "\<not> is_ok res" "trk_current t = None \<or> trk_state t' = trk_state t"
  | (enter_failed) t' q where "working sid r0 t' r'" "\<not> is_ok res" "q \<in> set (inlines (phases r))"
      "trk_state t' = EntryState q" "trk_current t \<noteq> None" "EntryState q = ExitState (the (trk_current t))"
  | (walk) t' r1 q p where "working sid r0 t' r1" "trk_current t = Some p" "q \<in> set (inlines (phases r))"
      "EntryState q = ExitState p" "trk_state t' = EntryState q" "trk_current t' = Some q"
      "advance_to n now sid target t' r1 = (res, r')"
proof (cases "trk_current t")
  case None
  then show thesis using assms by (intro stop [of t]) auto
next
  case (Some p)
  let ?l = "'' during AdvanceToState''"
  obtain res1 t1 r1 where x: "exit_phase ?l now sid p t r = (res1, t1, r1)" by (metis prod_cases3)
  have w1: "working sid r0 t1 r1" "trk_state t1 = trk_state t"
    using working_exit [OF assms(1) Some x] by auto
  show thesis
  proof (cases "is_ok res1 \<and> ExitState p \<noteq> StateNone \<and> map_of (byEntryState r1) (ExitState p) \<noteq> None")
    case False
    then show thesis using assms(2,3) Some x w1
      by (intro stop [of t1]) (auto simp: is_ok_iff Let_def split: outcome.splits if_splits)
  next
    case True
    then obtain q where look: "map_of (byEntryState r1) (ExitState p) = Some q" by auto
    have "config_ok r1" and "phases r1 = phases r"
      using w1(1) assms(1) by (auto simp: working_def runner_inv_def session_frame_def same_config_def)
    then have q: "q \<in> set (inlines (phases r1))" "q \<in> set (inlines (phases r))" "EntryState q = ExitState p"
      using look entry_lookup [of r1] by auto
    obtain res2 t2 r2 where e: "enter_phase ?l sid (ExitState p) q t1 r1 = (res2, t2, r2)"
      by (metis prod_cases3)
    have w2: "working sid r0 t2 r2" "trk_state t2 = EntryState q" "trk_current t2 = Some q"
      using working_enter [OF w1(1) q(1,3) e] q(3) by auto
    have loop: "(res, r') = (case res2 of Ok _ \<Rightarrow> advance_to n now sid target t2 r2
        | Err e \<Rightarrow> (Err e, r2) | Panic m \<Rightarrow> (Panic m, r2))"
      using assms(2,3) Some x True look e by (auto simp: is_ok_iff Let_def split: outcome.splits)
    show thesis
    proof (cases res2)
      case (Ok u)
      then show thesis using loop w2 q Some by (intro walk [of t2 r2 p q]) auto
    qed (use loop w2 q Some in \<open>auto intro: enter_failed [of t2 q]\<close>)
  qed
qed

lemma advance_to_moves:
  assumes "working sid r0 t r" and "advance_to n now sid target t r = (res, r')"
  shows "\<exists>t'. working sid r0 t' r' \<and> (is_ok res \<longrightarrow> trk_state t' = target) \<and>
    (acyclic_pipeline (phases r0) \<longrightarrow> phase_index r0 (trk_state t) \<le> phase_index r0 (trk_state t'))"
  using assms
proof (induction n arbitrary: t r)
  case (Suc n)
  show ?case
  proof (cases "trk_state t = target")
    case True
    then show ?thesis using Suc.prems by auto
  next
    case False
    have idx: "phases r = phases r0" "config_ok r0" using working_phase_index [OF Suc.prems(1)] by auto
    have cur: "p \<in> set (inlines (phases r0)) \<and> trk_state t = EntryState p" if "trk_current t = Some p" for p
      using working_current [OF Suc.prems(1) that] idx by auto
    have nxt: "phase_index r0 (EntryState q) = Suc (phase_index r0 (trk_state t))"
      if "acyclic_pipeline (phases r0)" "trk_current t = Some p" "q \<in> set (inlines (phases r))"
        "EntryState q = ExitState p" for p q
      using phase_index_next [OF idx(2) that(1)] cur that idx(1) by auto
    show ?thesis
      using Suc.prems(1) False Suc.prems(2)
    proof (cases rule: advance_to_hop_cases)
      case (stop t')
      then show ?thesis
      proof (cases "trk_current t")
        case None
        then have "(res, r') = (Err (framework_bug ''AdvanceToState: session has no current phase'' [sid, target]), r)"
          using Suc.prems False by simp
        then show ?thesis using Suc.prems(1) by auto
      qed auto
    next
      case (enter_failed t' q)
      then show ?thesis using nxt by (intro exI [of _ t']) force
    next
      case (walk t' r1 q p)
      obtain t2 where "working sid r0 t2 r'" "is_ok res \<longrightarrow> trk_state t2 = target"
        "acyclic_pipeline (phases r0) \<longrightarrow> phase_index r0 (trk_state t') \<le> phase_index r0 (trk_state t2)"
        using Suc.IH [OF walk(1,7)] by blast
      then show ?thesis using nxt walk by (intro exI [of _ t2]) force
    qed
  qed
qed auto

section \<open>The contract of a session operation\<close>

text \<open>
  What every operation of the runner on one session promises. The facts inside are what a
  caller that interleaves operations on many sessions relies on.
\<close>

locale session_op =
  fixes op :: "'v session_runner \<Rightarrow> (err, 'a) outcome \<times> 'v session_runner"
    and sid :: string
  assumes op_inv: "runner_inv r \<Longrightarrow> runner_inv (snd (op r))"
    and op_frame: "runner_inv r \<Longrightarrow> session_frame sid r (snd (op r))"
begin

lemma other_session:
  "runner_inv r \<Longrightarrow> sid' \<noteq> sid \<Longrightarrow> map_of (sessions (snd (op r))) sid' = map_of (sessions r) sid'"
  using op_frame by (simp add: session_frame_def)

lemma other_state:
  "runner_inv r \<Longrightarrow> sid' \<noteq> sid \<Longrightarrow> CurrentState (snd (op r)) sid' = CurrentState r sid'"
  by (simp add: CurrentState_def other_session)

lemma other_context:
  "runner_inv r \<Longrightarrow> sid' \<noteq> sid \<Longrightarrow> session_context_of (snd (op r)) sid' =
     map_option (\<lambda>c. c\<lparr> ctx_lineageStore := lineageStore (snd (op r)) \<rparr>) (session_context_of r sid')"
  by (simp add: session_context_of_def other_session option.map_comp comp_def)

lemma keeps_nodes:
  "runner_inv r \<Longrightarrow> lineageStore r = Some st \<Longrightarrow> store_Get st h = Ok n \<Longrightarrow>
     \<exists>st'. lineageStore (snd (op r)) = Some st' \<and> store_Get st' h = Ok n"
  using op_frame [of r] by (auto simp: session_frame_def)

lemma keeps_config: "runner_inv r \<Longrightarrow> same_config r (snd (op r))"
  using op_frame by (simp add: session_frame_def)

end

lemma session_op_unchanged:
  assumes "\<And>r. runner_inv r \<Longrightarrow> snd (op r) = r \<or> (\<exists>t. working sid r t (snd (op r)))"
  shows "session_op op sid"
proof
  show "runner_inv (snd (op r))" if "runner_inv r" for r
    using assms [OF that] that by (auto simp: working_def)
  show "session_frame sid r (snd (op r))" if "runner_inv r" for r
    using assms [OF that] by (auto simp: working_def)
qed

lemma HandleMessage_cases:
  assumes "runner_inv r" and "HandleMessage now sid mt from m r = (res, r')"
  obtains (inactive) "map_of (sessions r) sid = None" "r' = r" "res = Err (permanent ''HandleMessage: session is not active'' [sid])"
  | (ended) t where "map_of (sessions r) sid = Some t" "trk_current t = None" "r' = r" "res = Panic nil_deref"
  | (refused) t p where "map_of (sessions r) sid = Some t" "trk_current t = Some p" "\<not> phaseConsumes p mt" "r' = r"
      "res = Err (permanent ''phase does not consume message type in state'' [Name p, mt, trk_state t])"
  | (kept) t p t' where "map_of (sessions r) sid = Some t" "trk_current t = Some p" "phaseConsumes p mt"
      "working sid r t' r'" "trk_state t' = trk_state t" "trk_current t' = Some p" "\<not> is_ok res \<or> res = Ok False" "res \<noteq> Err hop_limit_err"
  | (advanced) t p t1 r1 where "map_of (sessions r) sid = Some t" "trk_current t = Some p" "phaseConsumes p mt"
      "working sid r t1 r1" "trk_state t1 = trk_state t" "trk_current t1 = Some p"
      "CheckComplete p (trk_ctx t1)" "advance now sid t1 r1 = (res, r')"
proof (cases "map_of (sessions r) sid")
  case None
  then show thesis using assms(2) by (intro inactive) (auto simp: HandleMessage_def)
next
  case (Some t)
  show thesis
  proof (cases "trk_current t")
    case None
    then show thesis using assms(2) Some by (intro ended) (auto simp: HandleMessage_def)
  next
    case cur: (Some p)
    show thesis
    proof (cases "phaseConsumes p mt")
      case False
      then show thesis using assms(2) Some cur by (intro refused [of t p]) (auto simp: HandleMessage_def)
    next
      case True
      have w: "working sid r t r" using assms(1) Some by (rule working_start)
      obtain res1 t1 r1 where h: "run_hook (OnMessage p mt from m) sid t r = (res1, t1, r1)"
        by (metis prod_cases3)
      have w1: "working sid r t1 r1" "trk_state t1 = trk_state t" "trk_current t1 = Some p"
        using working_hook [OF w working_phase_confined(3) h] w working_current [OF w cur] cur by auto
      have eq: "(res, r') = (case res1 of Err e \<Rightarrow> (Err (Note ''OnMessage'' (Name p) e), r1)
          | Panic x \<Rightarrow> (Panic x, r1)
          | Ok _ \<Rightarrow> if \<not> CheckComplete p (trk_ctx t1) then (Ok False, r1) else advance now sid t1 r1)"
        using assms(2) Some cur True h by (auto simp: HandleMessage_def split: outcome.splits if_splits)
      show thesis
      proof (cases "is_ok res1 \<and> CheckComplete p (trk_ctx t1)")
        case True
        then show thesis using eq w1 Some cur \<open>phaseConsumes p mt\<close>
          by (intro advanced [of t p t1 r1]) (auto simp: is_ok_iff)
      next
        case False
        then show thesis using eq w1 Some cur True
          by (intro kept [of t p t1]) (auto simp: hop_limit_err_def is_ok_iff split: outcome.splits)
      qed
    qed
  qed
qed

lemma advance_working:
  assumes "working sid r0 t r" and "trk_current t = Some p" and "advance now sid t r = (res, r')"
  shows "\<exists>t'. working sid r0 t' r'"
  using advance_loop_moves [OF assms(1,2)] assms(3) unfolding advance_def by blast

interpretation hm: session_op "HandleMessage now sid mt from m" sid for now sid mt "from" m
proof (rule session_op_unchanged)
  fix r :: "'a session_runner" assume inv: "runner_inv r"
  obtain res r' where eq: "HandleMessage now sid mt from m r = (res, r')" by fastforce
  have "r' = r \<or> (\<exists>t. working sid r t r')"
    using inv eq by (cases rule: HandleMessage_cases) (use advance_working in blast)+
  then show "snd (HandleMessage now sid mt from m r) = r \<or>
      (\<exists>t. working sid r t (snd (HandleMessage now sid mt from m r)))"
    by (simp add: eq)
qed

interpretation ad: session_op "AdvanceToState now sid target" sid for now sid target
proof (rule session_op_unchanged)
  fix r :: "'a session_runner" assume inv: "runner_inv r"
  obtain res r' where eq: "AdvanceToState now sid target r = (res, r')" by fastforce
  show "snd (AdvanceToState now sid target r) = r \<or> (\<exists>t. working sid r t (snd (AdvanceToState now sid target r)))"
  proof (cases "map_of (sessions r) sid")
    case (Some t)
    have "AdvanceToState now sid target r = (Ok (), r) \<or>
        AdvanceToState now sid target r = advance_to (length (phases r) + 1) now sid target t r"
      using Some by (simp add: AdvanceToState_def)
    then show ?thesis
      using advance_to_moves [OF working_start [OF inv Some] surjective_pairing] by (metis snd_conv)
  qed (simp add: AdvanceToState_def)
qed

interpretation en: session_op "\<lambda>r. (Ok (), EndSession sid r)" sid for sid
proof
  fix r :: "'a session_runner" assume inv: "runner_inv r"
  show fr: "session_frame sid r (snd (Ok (), EndSession sid r))"
    by (simp add: session_frame_def same_config_def EndSession_def)
  show "runner_inv (snd (Ok (), EndSession sid r))"
    by (rule runner_inv_frame [OF inv fr]) (use inv in \<open>simp_all add: EndSession_def runner_inv_def\<close>)
qed

interpretation sd: session_op "\<lambda>r. (Ok (), seed_context sid key v r)" sid for sid key v
proof (rule session_op_unchanged)
  fix r :: "'a session_runner" assume inv: "runner_inv r"
  have "seed_context sid key v r = r \<or> (\<exists>t. working sid r t (seed_context sid key v r))"
  proof (cases "map_of (sessions r) sid")
    case (Some t)
    have "tracker_ok r sid (t\<lparr> trk_ctx := ctx_Set (trk_ctx t) key v \<rparr>)"
      using working_tracker [OF working_start [OF inv Some]] by (simp add: tracker_ok_def split: option.splits)
    then show ?thesis using working_put [OF working_start [OF inv Some]] Some by (auto simp: seed_context_def)
  qed (simp add: seed_context_def)
  then show "snd (Ok (), seed_context sid key v r) = r \<or> (\<exists>t. working sid r t (snd (Ok (), seed_context sid key v r)))"
    by simp
qed

lemma BeginSession_cases:
  assumes "runner_inv r" and "BeginSession sid coh r = (res, r')"
  obtains (refused) e where "res = Err e" "err_is e ErrPermanent \<or> err_is e ErrFrameworkBug" "r' = r"
      "err_is e ErrFrameworkBug \<longrightarrow> inlines (phases r) = []"
  | (enter_failed) p e r1 t where "res = Err (Note ''Enter'' (Name p) e)" "working sid r t r1"
      "r' = r1\<lparr> sessions := mdel sid (sessions r1) \<rparr>" "map_of (sessions r) sid = None" "trk_current t = Some p"
  | (panicked) p m t where "res = Panic m" "working sid r t r'" "trk_current t = Some p" "trk_state t = initialState r"
      "map_of (sessions r) sid = None"
  | (begun) p t where "res = Ok ()" "working sid r t r'" "trk_current t = Some p" "trk_state t = initialState r"
      "p = hd (inlines (phases r))" "inlines (phases r) \<noteq> []" "map_of (sessions r) sid = None" "trk_entered t"
proof (cases "sid = [] \<or> map_of (sessions r) sid \<noteq> None \<or> map_of (byEntryState r) (initialState r) = None")
  case True
  have "map_of (byEntryState r) (initialState r) = None \<Longrightarrow> inlines (phases r) = []"
    using assms(1) by (cases "inlines (phases r)") (simp_all add: runner_inv_def config_ok_def)
  then have "\<exists>e. (res, r') = (Err e, r) \<and> (err_is e ErrPermanent \<or> err_is e ErrFrameworkBug) \<and>
      (err_is e ErrFrameworkBug \<longrightarrow> inlines (phases r) = [])"
    unfolding assms(2) [symmetric] BeginSession_def Let_def using True by auto
  then show thesis using refused by auto
next
  case False
  then obtain p where p: "map_of (byEntryState r) (initialState r) = Some p" and sid: "sid \<noteq> []"
    and fresh: "map_of (sessions r) sid = None" by auto
  have cfg: "config_ok r" using assms(1) by (simp add: runner_inv_def)
  have pin: "p \<in> set (inlines (phases r))" "EntryState p = initialState r"
    using p entry_lookup [OF cfg] by auto
  have ne: "inlines (phases r) \<noteq> []" using pin(1) by auto
  then have "EntryState p = EntryState (inlines (phases r) ! 0)"
    using cfg pin(2) by (simp add: config_ok_def hd_conv_nth)
  then have hd: "p = hd (inlines (phases r))"
    using phase_index_nth [OF cfg, of 0] phase_index_current [OF cfg pin(1)] ne
    by (metis hd_conv_nth length_greater_0_conv)
  define t where "t = \<lparr> trk_ctx = (NewSessionContext sid)\<lparr> CohortID := coh,
      ctx_lineageStore := lineageStore r, ctx_lineageSigner := lineageSigner r \<rparr>,
      trk_state = initialState r, trk_current = Some p, trk_entered = False \<rparr>"
  have tok: "tracker_ok r sid t" using pin by (simp add: tracker_ok_def t_def NewSessionContext_def)
  have "runner_inv (put_tracker sid t r)"
  proof (rule runner_inv_frame [OF assms(1) session_frame_put])
    show "map_wf (sessions (put_tracker sid t r))" using assms(1) by (simp add: runner_inv_def put_tracker_def)
  qed (use sid tok in \<open>simp add: put_tracker_def\<close>)
  then have w: "working sid r t (put_tracker sid t r)" by (simp add: working_def) (simp add: put_tracker_def)
  obtain res1 t1 r1 where h: "run_hook (Enter p) sid t (put_tracker sid t r) = (res1, t1, r1)"
    by (metis prod_cases3)
  have "hook_confined (Enter p)" using working_phase_confined(1) [OF w] pin(1) by (simp add: put_tracker_def)
  then have w1: "working sid r t1 r1" "trk_state t1 = initialState r" "trk_current t1 = Some p"
    using working_hook [OF w _ h] by (auto simp: t_def)
  have eq: "(res, r') = (case res1 of Err e \<Rightarrow> (Err (Note ''Enter'' (Name p) e), r1\<lparr> sessions := mdel sid (sessions r1) \<rparr>)
      | Panic m \<Rightarrow> (Panic m, r1)
      | Ok _ \<Rightarrow> (Ok (), put_tracker sid (t1\<lparr> trk_entered := True \<rparr>) r1))"
    using assms(2) sid fresh p h by (auto simp: BeginSession_def Let_def t_def split: outcome.splits)
  show thesis
  proof (cases res1)
    case (Ok u)
    have "working sid r (t1\<lparr> trk_entered := True \<rparr>) (put_tracker sid (t1\<lparr> trk_entered := True \<rparr>) r1)"
      using working_tracker [OF w1(1)] by (intro working_put [OF w1(1)]) (auto simp: tracker_ok_def split: option.splits)
    then show thesis using eq Ok w1 hd pin fresh by (intro begun [of "t1\<lparr> trk_entered := True \<rparr>" p]) auto
  next
    case (Err e)
    then show thesis using eq w1 fresh by (intro enter_failed [of p e t1 r1]) auto
  next
    case (Panic m)
    then show thesis using eq w1 fresh by (intro panicked [of m t1 p]) auto
  qed
qed

lemma BeginSession_contract:
  assumes "runner_inv r" and "BeginSession sid coh r = (res, r')"
  shows "runner_inv r' \<and> session_frame sid r r'"
  using assms
proof (cases rule: BeginSession_cases)
  case (enter_failed p e r1 t)
  have fr: "session_frame sid r1 r'" by (simp add: enter_failed session_frame_def same_config_def)
  have inv1: "runner_inv r1" using enter_failed by (simp add: working_def)
  have "runner_inv r'"
    by (rule runner_inv_frame [OF inv1 fr]) (use enter_failed inv1 in \<open>simp_all add: runner_inv_def\<close>)
  then show ?thesis using enter_failed fr session_frame_trans unfolding working_def by blast
qed (use assms in \<open>auto simp: working_def\<close>)

interpretation bg: session_op "BeginSession sid coh" sid for sid coh
  by unfold_locales (use BeginSession_contract [OF _ surjective_pairing] in blast)+

section \<open>The properties of the runner\<close>

text \<open>
  Claim C1. Sessions move forward only. On a runner in a consistent state whose pipeline does not
  lead back into itself, \<^verbatim>\<open>HandleMessage\<close> on a session keeps the invariant of the runner and never
  moves the session to an earlier phase. When it returns without an error, it reports a transition exactly when the session
  has moved to a later phase or to the end, and without a transition the session is in the state it was in. When it returns an error
  or panics the session may have moved forward too: the state is set before \<^verbatim>\<open>Enter\<close> runs, and a cascade may fail at a
  later phase. The cascade never runs into its hop limit.
\<close>

theorem handle_message_progress:
  assumes "runner_inv r" and "acyclic_pipeline (phases r)"
    and "map_of (sessions r) sid = Some t" and "HandleMessage now sid mt from m r = (res, r')"
  shows "runner_inv r' \<and>
    (\<exists>t'. map_of (sessions r') sid = Some t' \<and>
       phase_index r (trk_state t) \<le> phase_index r (trk_state t') \<and>
       (is_ok res \<longrightarrow> (res = Ok True \<longleftrightarrow> phase_index r (trk_state t) < phase_index r (trk_state t'))) \<and>
       (res = Ok False \<longrightarrow> trk_state t' = trk_state t)) \<and>
    res \<noteq> Err hop_limit_err"
  using assms(1,4)
proof (cases rule: HandleMessage_cases)
  case (advanced t0 p t1 r1)
  then have st: "trk_state t1 = trk_state t" using assms(3) by simp
  have "length (inlines (phases r)) - phase_index r (trk_state t1) < length (phases r) + 1"
    using length_filter_le [of "\<lambda>p. RunsAt p = RunsAtInline" "phases r"] unfolding inlines_def by linarith
  moreover have "advance_loop (length (phases r) + 1) now sid t1 r1 = (res, r')"
    using advanced(8) working_phase_index [OF advanced(4)] by (simp add: advance_def)
  then obtain t' where t': "working sid r t' r'" "res \<noteq> Ok False"
    "phase_index r (trk_state t1) \<le> phase_index r (trk_state t')"
    "is_ok res \<longrightarrow> phase_index r (trk_state t1) < phase_index r (trk_state t')"
    "length (inlines (phases r)) - phase_index r (trk_state t1) < length (phases r) + 1 \<longrightarrow> res \<noteq> Err hop_limit_err"
    using advance_loop_moves [OF advanced(4,6)] assms(2) by blast
  ultimately show ?thesis
    unfolding st [symmetric] by (intro conjI exI [of _ t']) (auto simp: working_def is_ok_iff)
qed (use assms in \<open>auto simp: working_def hop_limit_err_def\<close>)

text \<open>A minimal pipeline for the witnesses: one phase that waits for a message, and one that ends.\<close>

definition wait_phase :: "string \<Rightarrow> session_state \<Rightarrow> session_state \<Rightarrow> unit phase" where
  "wait_phase name entry exit_state =
     \<lparr> Name = name, Lifetime = LifetimePerSession, RunsAt = RunsAtInline,
       EntryState = entry, ExitState = exit_state, InternalStates = [],
       ConsumedMessageTypes = [''go''], Requires = [], Provides = [],
       Enter = (\<lambda>c. (Ok (), c)), OnMessage = (\<lambda>_ _ _ c. (Ok (), c)),
       CheckComplete = (\<lambda>_. True), Exit = (\<lambda>c. (Ok (), c)) \<rparr>"

definition two_phases :: "unit phase list" where
  "two_phases = [wait_phase ''a'' ''A'' ''B'', wait_phase ''b'' ''B'' StateNone]"

definition two_runner :: "unit session_runner" where
  "two_runner =
     \<lparr> phases = two_phases, byName = map (\<lambda>p. (Name p, p)) two_phases,
       byEntryState = map (\<lambda>p. (EntryState p, p)) two_phases, byInternalState = [],
       initialState = ''A'', sessions = [], lineageStore = None, lineageSigner = None,
       lineageVerifiers = [], lineageFailureHook = None, hook_calls = [], hookPanicLog = [] \<rparr>"

lemma two_phases_ok: "pipeline_ok two_phases" "inlines two_phases = two_phases" "internal_map two_phases = []"
  "acyclic_pipeline two_phases"
  by (auto simp: two_phases_def pipeline_ok_def phase_ok_def wait_phase_def StateNone_def less_Suc_eq
      acyclic_pipeline_def)

lemma two_runner_Compose: "Compose two_phases = Ok two_runner"
  by (simp add: Compose_Ok_iff two_phases_ok two_runner_def) (simp add: two_phases_def wait_phase_def)

lemma wait_phase_confined [simp]: "phase_confined (wait_phase n a b)"
  by (simp add: phase_confined_def wait_phase_def hook_confined_def)

lemma two_phases_hd: "EntryState (hd two_phases) = ''A''" "two_phases \<noteq> []"
  by (simp_all add: two_phases_def wait_phase_def)

lemma two_phases_confined: "\<forall>p \<in> set two_phases. phase_confined p"
  by (simp add: two_phases_def)

lemma two_runner_inv: "runner_inv two_runner"
  using two_phases_confined
  by (simp add: runner_inv_def config_ok_def store_ok_def two_runner_def two_phases_ok two_phases_hd)

definition two_begun :: "unit session_runner" where
  "two_begun = snd (BeginSession ''s'' [] two_runner)"

lemma two_begun_facts:
  "runner_inv two_begun" "phases two_begun = two_phases" "lineageStore two_begun = None"
  "map_of (sessions two_begun) ''s'' =
     Some \<lparr> trk_ctx = NewSessionContext ''s'', trk_state = ''A'',
            trk_current = Some (wait_phase ''a'' ''A'' ''B''), trk_entered = True \<rparr>"
proof -
  show "runner_inv two_begun" unfolding two_begun_def by (rule bg.op_inv [OF two_runner_inv])
qed (simp_all add: two_begun_def BeginSession_def two_runner_def two_phases_def wait_phase_def run_hook_def
      put_tracker_def NewSessionContext_def Let_def)

lemma handle_message_progress_witness:
  "runner_inv (snd (HandleMessage 0 ''s'' ''go'' ''x'' [] two_begun)) \<and>
   fst (HandleMessage 0 ''s'' ''go'' ''x'' [] two_begun) \<noteq> Err hop_limit_err"
  using handle_message_progress [OF two_begun_facts(1) _ two_begun_facts(4) surjective_pairing,
      of 0 "''go''" "''x''" "[]"] two_phases_ok(4) two_begun_facts(2) by simp

lemma advance_to_state_safe_aux:
  assumes "runner_inv r" and "map_of (sessions r) sid = Some t"
    and "AdvanceToState now sid target r = (res, r')"
  shows "runner_inv r' \<and>
    (\<exists>t'. map_of (sessions r') sid = Some t' \<and>
       (res = Ok () \<longrightarrow> trk_state t' = target \<or>
          r' = r \<and> (\<exists>p. trk_current t = Some p \<and> target \<in> set (InternalStates p))) \<and>
       (acyclic_pipeline (phases r) \<longrightarrow> phase_index r (trk_state t) \<le> phase_index r (trk_state t')))"
proof (cases "trk_state t = target \<or> (\<exists>p. trk_current t = Some p \<and> target \<in> set (InternalStates p))")
  case True
  then have "r' = r" using assms(2,3) by (auto simp: AdvanceToState_def split: if_splits)
  then show ?thesis using assms(1,2) True by auto
next
  case False
  then have "advance_to (length (phases r) + 1) now sid target t r = (res, r')"
    using assms(2,3) by (auto simp: AdvanceToState_def split: option.splits)
  then show ?thesis
    using advance_to_moves [OF working_start [OF assms(1,2)]] by (fastforce simp: working_def)
qed

text \<open>
  Claim C9. \<^verbatim>\<open>AdvanceToState\<close> is safe: it keeps the invariant of the runner, and when it returns without an
  error the session is in the target state, or the target is an internal state of the phase the session was in and
  nothing changed. On a pipeline that does not lead back into itself it never moves the session to an earlier phase; \<^verbatim>\<open>Compose\<close>
  also accepts pipelines whose last phase leads back to an entry state, and there a walk may go round.
\<close>

theorem advance_to_state_safe:
  assumes "runner_inv r" and "map_of (sessions r) sid = Some t"
    and "AdvanceToState now sid target r = (res, r')"
  shows "runner_inv r' \<and>
    (\<exists>t'. map_of (sessions r') sid = Some t' \<and>
       (res = Ok () \<longrightarrow> trk_state t' = target \<or>
          r' = r \<and> (\<exists>p. trk_current t = Some p \<and> target \<in> set (InternalStates p))) \<and>
       (acyclic_pipeline (phases r) \<longrightarrow> phase_index r (trk_state t) \<le> phase_index r (trk_state t')))"
  using assms by (rule advance_to_state_safe_aux)

lemma advance_to_state_safe_witness:
  "runner_inv (snd (AdvanceToState 0 ''s'' ''B'' two_begun))"
  using advance_to_state_safe [OF two_begun_facts(1,4) surjective_pairing, of 0 "''B''"] by blast

text \<open>Hooks that always succeed, and no lineage: then walking forward succeeds.\<close>

definition hooks_succeed :: "'v phase \<Rightarrow> bool" where
  "hooks_succeed p \<longleftrightarrow> (\<forall>c. fst (Enter p c) = Ok () \<and> fst (Exit p c) = Ok ())"

lemma advance_to_succeeds:
  assumes "working sid r0 t r" and "trk_current t = Some (inlines (phases r0) ! i)"
    and "i \<le> j" "j < length (inlines (phases r0))" "j - i < n"
    and "lineageStore r = None" and "\<forall>p \<in> set (phases r0). hooks_succeed p"
  shows "fst (advance_to n now sid (EntryState (inlines (phases r0) ! j)) t r) = Ok ()"
  using assms
proof (induction n arbitrary: i t r)
  case (Suc n)
  let ?qs = "inlines (phases r0)" and ?l = "'' during AdvanceToState''"
  have idx: "phases r = phases r0" "config_ok r0" using working_phase_index [OF Suc.prems(1)] by auto
  have hs: "hooks_succeed (?qs ! k)" if "k < length ?qs" for k
    using Suc.prems(7) that nth_mem [of k ?qs] by (auto simp: inlines_def)
  have st: "trk_state t = EntryState (?qs ! i)" using working_current [OF Suc.prems(1,2)] by simp
  show ?case
  proof (cases "i = j")
    case False
    then have i: "Suc i \<le> j" "Suc i < length ?qs" using Suc.prems(3,4) by auto
    have ne: "trk_state t \<noteq> EntryState (?qs ! j)"
      using phase_index_nth [OF idx(2)] Suc.prems(3,4) False st by (metis le_less_trans)
    obtain res1 t1 r1 where x: "exit_phase ?l now sid (?qs ! i) t r = (res1, t1, r1)" by (metis prod_cases3)
    have w1: "working sid r0 t1 r1" using working_exit [OF Suc.prems(1,2) x] by auto
    have conf: "hook_confined (Exit (?qs ! i))"
      using working_phase_confined(2) [OF Suc.prems(1)] working_current [OF Suc.prems(1,2)] by auto
    have ok1: "res1 = Ok () \<and> lineageStore r1 = None"
    proof -
      obtain c where c: "Exit (?qs ! i) ((trk_ctx t)\<lparr> ctx_lineageStore := None \<rparr>) = (Ok (), c)"
        using hs [of i] i unfolding hooks_succeed_def by (metis Suc_lessD prod.collapse)
      then have "ctx_lineageStore c = None"
        using conf unfolding hook_confined_def ctx_confined_def by (metis snd_conv store_grows.simps(1)
          session_context.select_convs(4) session_context.surjective session_context.update_convs(4))
      then show ?thesis
        using x c Suc.prems(6)
        by (auto simp: exit_phase_def run_hook_def put_tracker_def commitPhaseOutputsIfEnabled_def Let_def)
    qed
    have cfg1: "config_ok r1" "phases r1 = phases r0"
      using w1 working_phase_index [OF w1] by (auto simp: working_def runner_inv_def)
    have nxt: "EntryState (?qs ! Suc i) = ExitState (?qs ! i)" "EntryState (?qs ! Suc i) \<noteq> StateNone"
      using pipeline_entries(2,3) [of "phases r0"] idx(2) i by (auto simp: config_ok_def)
    have look: "map_of (byEntryState r1) (ExitState (?qs ! i)) = Some (?qs ! Suc i)"
      using entry_lookup [OF cfg1(1)] nxt(1) i cfg1(2) by auto
    obtain res2 t2 r2 where e: "enter_phase ?l sid (ExitState (?qs ! i)) (?qs ! Suc i) t1 r1 = (res2, t2, r2)"
      by (metis prod_cases3)
    have w2: "working sid r0 t2 r2" "trk_current t2 = Some (?qs ! Suc i)"
      using working_enter [OF w1 _ nxt(1) e] i cfg1(2) by auto
    have conf2: "hook_confined (Enter (?qs ! Suc i))"
      using working_phase_confined(1) [OF w1] i cfg1(2) by auto
    have ok2: "res2 = Ok () \<and> lineageStore r2 = None"
    proof -
      obtain c where c: "Enter (?qs ! Suc i) ((trk_ctx t1)\<lparr> ctx_lineageStore := None \<rparr>) = (Ok (), c)"
        using hs [of "Suc i"] i unfolding hooks_succeed_def by (metis prod.collapse)
      then have "ctx_lineageStore c = None"
        using conf2 unfolding hook_confined_def ctx_confined_def by (metis snd_conv store_grows.simps(1)
          session_context.select_convs(4) session_context.surjective session_context.update_convs(4))
      then show ?thesis
        using e c ok1 by (auto simp: enter_phase_def run_hook_def put_tracker_def Let_def)
    qed
    have "advance_to (Suc n) now sid (EntryState (?qs ! j)) t r = advance_to n now sid (EntryState (?qs ! j)) t2 r2"
      using Suc.prems(2) ne x ok1 nxt look e ok2 by (simp add: Let_def)
    then show ?thesis
      using Suc.IH [OF w2 i(1) Suc.prems(4) _ conjunct2 [OF ok2] Suc.prems(7)] Suc.prems(5) i by simp
  qed (use st in simp)
qed simp

text \<open>
  Claim C10. On a runner without a lineage store whose hooks succeed, \<^verbatim>\<open>AdvanceToState\<close> reaches every entry state
  ahead that no phase declares as one of its internal states: with the session in phase \<open>i\<close> of the chain and such a target, the entry state of phase
  \<open>j \<ge> i\<close>, the call returns without an error and leaves the session in the target state. (Where the target is also an internal
  state of the current phase, which \<^verbatim>\<open>Compose\<close> does not exclude, the call stops at once.)
\<close>

theorem advance_to_state_reaches:
  assumes "runner_inv r" and "lineageStore r = None" and "\<forall>p \<in> set (phases r). hooks_succeed p"
    and "map_of (sessions r) sid = Some t" and "trk_current t = Some (inlines (phases r) ! i)"
    and "i \<le> j" and "j < length (inlines (phases r))"
    and "\<forall>p \<in> set (phases r). EntryState (inlines (phases r) ! j) \<notin> set (InternalStates p)"
  shows "\<exists>r'. AdvanceToState now sid (EntryState (inlines (phases r) ! j)) r = (Ok (), r') \<and>
    CurrentState r' sid = (EntryState (inlines (phases r) ! j), True)"
proof -
  let ?target = "EntryState (inlines (phases r) ! j)"
  obtain res r' where eq: "AdvanceToState now sid ?target r = (res, r')" by fastforce
  have mem: "inlines (phases r) ! i \<in> set (phases r)"
    using assms(6,7) nth_mem [of i "inlines (phases r)"] by (auto simp: inlines_def)
  have "length (inlines (phases r)) \<le> length (phases r)" by (simp add: inlines_def)
  then have "fst (advance_to (length (phases r) + 1) now sid ?target t r) = Ok ()"
    using assms by (intro advance_to_succeeds [OF working_start [OF assms(1,4)] assms(5,6,7)]) auto
  then have "res = Ok ()"
    using eq assms(4,5,8) mem by (auto simp: AdvanceToState_def split: if_splits)
  moreover have no_int: "\<not> (\<exists>p. trk_current t = Some p \<and> ?target \<in> set (InternalStates p))"
    using assms(5,8) mem by simp
  ultimately obtain t' where "map_of (sessions r') sid = Some t'" "trk_state t' = ?target"
    using advance_to_state_safe_aux [OF assms(1,4) eq] by (elim conjE exE) (simp; blast)
  then show ?thesis using eq \<open>res = Ok ()\<close> by (simp add: CurrentState_def)
qed

lemma advance_to_state_reaches_witness:
  "\<exists>r'. AdvanceToState 0 ''s'' ''B'' two_begun = (Ok (), r') \<and> CurrentState r' ''s'' = (''B'', True)"
proof -
  have hs: "\<forall>p \<in> set (phases two_begun). hooks_succeed p"
    by (simp add: two_begun_facts(2)) (simp add: two_phases_def wait_phase_def hooks_succeed_def)
  have B: "EntryState (two_phases ! 1) = ''B''" "\<forall>p \<in> set two_phases. InternalStates p = []"
    by (simp_all add: two_phases_def wait_phase_def)
  note reach = advance_to_state_reaches [OF two_begun_facts(1,3) hs two_begun_facts(4), of 0 1 0]
  show ?thesis
    using reach unfolding two_begun_facts(2) two_phases_ok(2) B(1) using B(2) by (simp add: two_phases_def)
qed

lemma begin_session_facts:
  assumes "runner_inv r" and "BeginSession sid coh r = (res, r')"
  shows "runner_inv r' \<and>
    (res = Ok () \<longrightarrow>
       CurrentState r sid = (StateNone, False) \<and> CurrentState r' sid = (initialState r, True) \<and>
       (\<exists>t. map_of (sessions r') sid = Some t \<and> trk_current t = Some (hd (inlines (phases r))) \<and>
          trk_entered t \<and> SessionID (trk_ctx t) = sid)) \<and>
    (\<forall>e. res = Err e \<longrightarrow> map_of (sessions r') = map_of (sessions r))"
  using assms
proof (cases rule: BeginSession_cases)
  case (enter_failed p e r1 t)
  have "map_of (sessions r') = map_of (sessions r)"
  proof
    fix s show "map_of (sessions r') s = map_of (sessions r) s"
      using enter_failed by (cases "s = sid") (auto simp: working_def session_frame_def)
  qed
  then show ?thesis using BeginSession_contract [OF assms] enter_failed(1) by simp
next
  case (begun p t)
  have "map_of (sessions r') sid = Some t" "SessionID (trk_ctx t) = sid"
    using begun(2) working_tracker [OF begun(2)] by (simp_all add: working_def tracker_ok_def)
  then show ?thesis
    using begun(1,3-8) BeginSession_contract [OF assms] by (simp add: CurrentState_def)
qed (use BeginSession_contract [OF assms] in auto)

text \<open>
  \<^verbatim>\<open>BeginSession\<close> either succeeds or leaves the set of tracked sessions as it was. On success
  the session was not tracked before, and is now in the initial state, inside the first inline
  phase, with that phase's \<^verbatim>\<open>Enter\<close> done and nothing cascaded past it; on an error (from the arguments
  or from \<^verbatim>\<open>Enter\<close>) every session id is tracked exactly as before.
\<close>

theorem begin_session_spec:
  assumes "runner_inv r" and "BeginSession sid coh r = (res, r')"
  shows "runner_inv r' \<and>
    (res = Ok () \<longrightarrow>
       CurrentState r sid = (StateNone, False) \<and> CurrentState r' sid = (initialState r, True) \<and>
       (\<exists>t. map_of (sessions r') sid = Some t \<and> trk_current t = Some (hd (inlines (phases r))) \<and>
          trk_entered t \<and> SessionID (trk_ctx t) = sid)) \<and>
    (\<forall>e. res = Err e \<longrightarrow> map_of (sessions r') = map_of (sessions r))"
  by (rule begin_session_facts [OF assms])

lemma begin_session_spec_witness:
  "CurrentState (snd (BeginSession ''s'' [] two_runner)) ''s'' = (''A'', True)"
proof -
  have "fst (BeginSession ''s'' [] two_runner) = Ok ()"
    by (simp add: BeginSession_def two_runner_def two_phases_def wait_phase_def run_hook_def put_tracker_def Let_def)
  then show ?thesis
    using begin_session_spec [OF two_runner_inv surjective_pairing, of "''s''" "[]"]
    by (simp add: two_runner_def)
qed

end
