(* ===== verification/Runner_Lineage.thy ===== *)
theory Runner_Lineage
  imports Runner_Invariants
begin

text \<open>
  \<^verbatim>\<open>pkg/ares/phase/runner_lineage.go\<close> and \<^verbatim>\<open>compose_with.go\<close>: the verification of an inbound
  message's lineage node before the phase sees the message, the failure hook, mismatch claims,
  and the auto-commit of a phase's outputs; then the runs of a runner as sequences of
  operations.
\<close>

section \<open>Operations\<close>

definition fireFailureHook :: "lineage_failure_event \<Rightarrow> 'v session_runner \<Rightarrow> 'v session_runner" where
  "fireFailureHook ev r =
     (case lineageFailureHook r of
        None \<Rightarrow> r
      | Some hook \<Rightarrow>
          (let r1 = r\<lparr> hook_calls := hook_calls r @ [ev] \<rparr>
           in case hook ev of
                None \<Rightarrow> r1
              | Some panic_text \<Rightarrow> r1\<lparr> hookPanicLog := hookPanicLog r1 @ [(ev, panic_text)] \<rparr>))"

fun check_parents :: "in_memory_store \<Rightarrow> dag_node \<Rightarrow> nat \<Rightarrow> node_ref list \<Rightarrow> mismatch_error option" where
  "check_parents st node i [] = None"
| "check_parents st node i (parent # rest) =
     (case store_Get st parent of
        Ok _ \<Rightarrow> check_parents st node (Suc i) rest
      | _ \<Rightarrow> Some (mismatch ''ParentRef'' (EvBytes parent) (EvParentNotInStore i) node))"

definition failure_event :: "string \<Rightarrow> string \<Rightarrow> dag_node \<Rightarrow> lineage_failure_event" where
  "failure_event kind sessionID node =
     \<lparr> ev_Kind = kind, ev_SessionID = sessionID, ev_PhaseID = dn_PhaseID node,
       ev_Role = dn_Role node, ev_Attributee = dn_Producer node, ev_DAGNodes = [node] \<rparr>"

definition HandleLineageMessage ::
  "int \<Rightarrow> string \<Rightarrow> string \<Rightarrow> string \<Rightarrow> bytes \<Rightarrow> dag_node option \<Rightarrow> 'v session_runner
    \<Rightarrow> (err, bool) outcome \<times> 'v session_runner" where
  "HandleLineageMessage now sessionID msgType from payload lineageNode r =
     (case lineageStore r of
        None \<Rightarrow> HandleMessage now sessionID msgType from payload r
      | Some st \<Rightarrow>
          (case lineageNode of
             None \<Rightarrow> (Err (permanent ''HandleLineageMessage requires non-nil lineage node (v2 frame)'' []), r)
           | Some node \<Rightarrow>
               (let verifyErr = (case Verify node payload (lineageVerifiers r) of
                                   Some e \<Rightarrow> Some e
                                 | None \<Rightarrow> check_parents st node 0 (dn_Parents node))
                in case verifyErr of
                     Some e \<Rightarrow>
                       (Err (Classified ErrAppAttributable
                               (Note ''HandleLineageMessage'' sessionID (Lin (ErrMismatch e)))),
                        fireFailureHook (failure_event ''mismatch-confirmed'' sessionID node) r)
                   | None \<Rightarrow>
                       (let (aerr, st') = store_Append st node; r1 = r\<lparr> lineageStore := Some st' \<rparr>
                        in if aerr = None \<or> aerr = Some ErrNodeExists
                           then HandleMessage now sessionID msgType from payload r1
                           else (Err (Classified ErrFrameworkBug
                                   (Note ''HandleLineageMessage: store.Append'' [] (Lin (the aerr)))), r1)))))"

text \<open>\<^verbatim>\<open>BuildMismatchClaim\<close> takes the text of the error it is to report.\<close>

definition BuildMismatchClaim ::
  "int \<Rightarrow> string \<Rightarrow> string \<Rightarrow> string \<Rightarrow> string \<Rightarrow> 'v session_runner \<Rightarrow> (err, dag_node) outcome" where
  "BuildMismatchClaim now sessionID phaseID role errText r =
     (case lineageSigner r of
        None \<Rightarrow> Err (permanent ''BuildMismatchClaim requires lineage-enabled runner (build via ComposeWith, not Compose)'' [])
      | Some s \<Rightarrow>
          (case Commit now sessionID phaseID ''mismatch-claim'' (str_bytes errText) [] (Some s) of
             Ok n \<Rightarrow> Ok n | Err e \<Rightarrow> Err (Lin e) | Panic m \<Rightarrow> Panic m))"

definition ReportFalseLineageClaim :: "string \<Rightarrow> dag_node \<Rightarrow> 'v session_runner \<Rightarrow> 'v session_runner" where
  "ReportFalseLineageClaim sessionID claim r =
     fireFailureHook (failure_event ''mismatch-false-claim'' sessionID claim) r"

section \<open>Verify before dispatch\<close>

lemma check_parents_None_iff:
  "check_parents st node i ps = None \<longleftrightarrow> (\<forall>p \<in> set ps. is_ok (store_Get st p))"
  by (induction ps arbitrary: i) (auto split: outcome.splits)

lemma check_parents_hash:
  "check_parents st node i ps = Some e \<Longrightarrow> mm_NodeHash e = dn_Hash node"
  by (induction ps arbitrary: i) (auto simp: mismatch_def split: outcome.splits)

lemma Verify_hash: "Verify node payload vs = Some e \<Longrightarrow> mm_NodeHash e = dn_Hash node"
  by (auto simp: Verify_def mismatch_def Let_def split: option.splits if_splits)

lemma fireFailureHook_frame [simp]:
  "sessions (fireFailureHook ev r) = sessions r" "lineageStore (fireFailureHook ev r) = lineageStore r"
  "same_config r (fireFailureHook ev r)"
  by (simp_all add: fireFailureHook_def same_config_def Let_def split: option.split)

lemma fireFailureHook_calls:
  "hook_calls (fireFailureHook ev r) =
     hook_calls r @ (case lineageFailureHook r of None \<Rightarrow> [] | Some _ \<Rightarrow> [ev])"
  by (simp add: fireFailureHook_def Let_def split: option.split)

text \<open>A node that passes: its signature and hashes verify for the payload and its parents are stored.\<close>

definition admissible :: "verifiers \<Rightarrow> in_memory_store \<Rightarrow> dag_node \<Rightarrow> bytes \<Rightarrow> bool" where
  "admissible vs st node payload \<longleftrightarrow>
     Verify node payload vs = None \<and> (\<forall>p \<in> set (dn_Parents node). is_ok (store_Get st p))"

lemma HandleLineageMessage_admissible:
  assumes "lineageStore r = Some st" and "admissible (lineageVerifiers r) st node payload"
  shows "HandleLineageMessage now sid mt from payload (Some node) r =
    HandleMessage now sid mt from payload (r\<lparr> lineageStore := Some (snd (store_Append st node)) \<rparr>)"
proof -
  obtain aerr st' where a: "store_Append st node = (aerr, st')" by fastforce
  then have "aerr = None \<or> aerr = Some ErrNodeExists" using ims.append_result [of st node] by simp
  moreover have "check_parents st node 0 (dn_Parents node) = None"
    using assms(2) by (simp add: admissible_def check_parents_None_iff)
  ultimately show ?thesis using assms a by (auto simp: HandleLineageMessage_def admissible_def)
qed

lemma HandleLineageMessage_rejected:
  assumes "lineageStore r = Some st" and "\<not> admissible (lineageVerifiers r) st node payload"
  shows "\<exists>e. mm_NodeHash e = dn_Hash node \<and>
    HandleLineageMessage now sid mt from payload (Some node) r =
      (Err (Classified ErrAppAttributable (Note ''HandleLineageMessage'' sid (Lin (ErrMismatch e)))),
       fireFailureHook (failure_event ''mismatch-confirmed'' sid node) r)"
proof (cases "Verify node payload (lineageVerifiers r)")
  case (Some e)
  then show ?thesis using assms Verify_hash [OF Some] by (simp add: HandleLineageMessage_def)
next
  case None
  then obtain e where "check_parents st node 0 (dn_Parents node) = Some e"
    using assms(2) check_parents_None_iff [of st node 0 "dn_Parents node"]
    by (auto simp: admissible_def)
  then show ?thesis using assms None check_parents_hash by (auto simp: HandleLineageMessage_def)
qed

text \<open>
  Claim C2. Verification comes before dispatch. On a lineage-enabled runner, an inbound message
  whose node does not verify against its payload, or names a parent that is not stored, is not
  dispatched: no session and no stored node changes, the error is attributable to the
  application and carries the mismatch with the node's hash, and the failure hook (when there
  is one) is called exactly once, attributing the node's producer. A message that passes is
  dispatched exactly as \<^verbatim>\<open>HandleMessage\<close> would, with its node in the store.
\<close>

theorem lineage_gate:
  assumes "lineageStore r = Some st"
    and "HandleLineageMessage now sid mt from payload (Some node) r = (res, r')"
  shows "if admissible (lineageVerifiers r) st node payload
    then (res, r') = HandleMessage now sid mt from payload (r\<lparr> lineageStore := Some (snd (store_Append st node)) \<rparr>)
    else sessions r' = sessions r \<and> lineageStore r' = lineageStore r \<and>
      (\<exists>e m. res = Err e \<and> err_is e ErrAppAttributable \<and> err_as_mismatch e = Some m \<and> mm_NodeHash m = dn_Hash node) \<and>
      hook_calls r' = hook_calls r @
        (case lineageFailureHook r of None \<Rightarrow> [] | Some _ \<Rightarrow> [failure_event ''mismatch-confirmed'' sid node]) \<and>
      ev_Attributee (failure_event ''mismatch-confirmed'' sid node) = dn_Producer node"
proof (cases "admissible (lineageVerifiers r) st node payload")
  case True
  then show ?thesis using HandleLineageMessage_admissible [OF assms(1)] assms(2) by simp
next
  case False
  then show ?thesis
    using HandleLineageMessage_rejected [OF assms(1) False, of now sid mt "from"] assms(2)
    by (auto simp: fireFailureHook_calls) (simp add: failure_event_def)
qed

lemma lineage_gate_witness:
  "sessions (snd (HandleLineageMessage 0 ''s'' ''go'' ''x'' [] (Some (sample_node [1] ''s'' ''r''))
     (two_runner\<lparr> lineageStore := Some NewInMemoryStore \<rparr>))) = []"
  using lineage_gate [of "two_runner\<lparr> lineageStore := Some NewInMemoryStore \<rparr>" NewInMemoryStore 0 "''s''" "''go''" "''x''" "[]"
      "sample_node [1] ''s'' ''r''", OF _ surjective_pairing]
  by (simp add: admissible_def Verify_None_iff two_runner_def)

section \<open>Auto-commit\<close>

lemma commit_outputs_all:
  assumes "fst (commit_outputs now pn sg parents c prov st) = Ok ()"
    and "(key, kt) \<in> set prov" "\<not> NoLineage kt" "TryGet as_bytes c key = Some payload"
  shows "\<exists>m. store_Get (snd (commit_outputs now pn sg parents c prov st))
      (DeriveNodeHash (SessionID c) pn key payload (sort (map dn_Hash parents))) = Ok m"
  using assms(1,2)
proof (induction prov arbitrary: st)
  case (Cons x prov)
  obtain k kt' where x: "x = (k, kt')" by fastforce
  consider (fail) "\<not> is_ok (fst (commit_outputs now pn sg parents c (x # prov) st))"
    | (skip) "commit_outputs now pn sg parents c (x # prov) st = commit_outputs now pn sg parents c prov st"
        "NoLineage kt' \<or> TryGet as_bytes c k = None"
    | (commit) m n where "TryGet as_bytes c k = Some m" "Commit now (SessionID c) pn k m parents sg = Ok n"
        "commit_outputs now pn sg parents c (x # prov) st =
          commit_outputs now pn sg parents c prov (snd (store_Append st n))"
    using commit_outputs_cons [of now pn sg parents c k kt' prov st] unfolding x
    by (elim disjE conjE exE) (assumption | blast)+
  then show ?case
  proof cases
    case fail
    then show ?thesis using Cons.prems by simp
  next
    case skip
    then have "(key, kt) \<in> set prov" using Cons.prems(2) assms(3,4) x by auto
    then show ?thesis using Cons.IH [of st] Cons.prems(1) skip(1) by simp
  next
    case (commit m n)
    show ?thesis
    proof (cases "(key, kt) \<in> set prov")
      case True
      then show ?thesis using Cons.IH Cons.prems(1) commit(3) by simp
    next
      case False
      then have "k = key" "m = payload" using Cons.prems(2) assms(4) commit(1) x by auto
      then have hash: "dn_Hash n = DeriveNodeHash (SessionID c) pn key payload (sort (map dn_Hash parents))"
        using Commit_fields(6) [OF commit(2)] by simp
      obtain n' where n': "store_Get (snd (store_Append st n)) (dn_Hash n) = Ok n'"
        using ims.get_append_self by blast
      have "store_Get (snd (commit_outputs now pn sg parents c prov st')) h = Ok z"
        if "store_Get st' h = Ok z" for st' h z
        using that
      proof (induction prov arbitrary: st')
        case (Cons y prov)
        obtain ky kty where y: "y = (ky, kty)" by fastforce
        show ?case
          using commit_outputs_cons [of now pn sg parents c ky kty prov st'] Cons
            ims.get_append_mono [OF Cons.prems] unfolding y by metis
      qed simp
      then show ?thesis using n' hash commit(3) by auto
    qed
  qed
qed simp

text \<open>
  Claim C4. Auto-commit is complete: when the auto-commit after \<^verbatim>\<open>Exit\<close> returns without an error, every
  key that the phase provides, is not marked \<^verbatim>\<open>NoLineage\<close> and holds a byte slice has a node in the
  store under the hash derived from the session, the phase's name, the key as role, the bytes
  and the canonically ordered hashes of the parents; those parents are stored nodes of the same
  session, each holding the payload hash of a byte-slice input the phase requires; the store
  stays sound (closed under parents, every hash derived from its own node) and loses nothing.
\<close>

theorem auto_commit_outputs:
  assumes "lineageStore r = Some st" and "store_sound st"
    and "commitPhaseOutputsIfEnabled now p c r = (Ok (), r')"
    and "(key, kt) \<in> set (Provides p)" "\<not> NoLineage kt" "TryGet as_bytes c key = Some payload"
  shows "\<exists>st'. lineageStore r' = Some st' \<and> store_sound st' \<and>
    (\<exists>n. store_Get st' (DeriveNodeHash (SessionID c) (Name p) key payload
       (sort (map dn_Hash (resolveParents st p c)))) = Ok n \<and> node_authentic n) \<and>
    (\<forall>q \<in> set (resolveParents st p c). dn_SessionID q = SessionID c \<and> store_Get st' (dn_Hash q) = Ok q \<and>
       (\<exists>k kt b. (k, kt) \<in> set (Requires p) \<and> TryGet as_bytes c k = Some b \<and> dn_PayloadHash q = HashPayload b)) \<and>
    (\<forall>h n. store_Get st h = Ok n \<longrightarrow> store_Get st' h = Ok n) \<and> sessions r' = sessions r"
proof -
  let ?ps = "resolveParents st p c"
  let ?o = "commit_outputs now (Name p) (lineageSigner r) ?ps c (Provides p) st"
  have wf: "store_wf st" using assms(2) by (simp add: store_sound_def)
  have o: "fst ?o = Ok ()" "r' = r\<lparr> lineageStore := Some (snd ?o) \<rparr>"
    using assms(1,3) by (auto simp: commitPhaseOutputsIfEnabled_def Let_def split: prod.splits)
  have stored: "\<forall>q \<in> set ?ps. q \<in> set (store_WalkSession st (SessionID c)) \<and> store_Get st (dn_Hash q) = Ok q"
    by (rule resolveParents_stored [OF wf])
  then have grows: "store_grows (Some st) (Some (snd ?o))" by (intro commit_outputs_grows) simp
  then have keep: "\<forall>h n. store_Get st h = Ok n \<longrightarrow> store_Get (snd ?o) h = Ok n" and snd: "store_sound (snd ?o)"
    using assms(2) by auto
  obtain n where n: "store_Get (snd ?o) (DeriveNodeHash (SessionID c) (Name p) key payload (sort (map dn_Hash ?ps))) = Ok n"
    using commit_outputs_all [OF o(1) assms(4-6)] by blast
  then have "node_authentic n" using snd by (auto simp: store_sound_def store_Get_def split: option.splits)
  moreover have "dn_SessionID q = SessionID c \<and> store_Get (snd ?o) (dn_Hash q) = Ok q \<and>
      (\<exists>k kt b. (k, kt) \<in> set (Requires p) \<and> TryGet as_bytes c k = Some b \<and> dn_PayloadHash q = HashPayload b)"
    if "q \<in> set ?ps" for q
  proof -
    have "\<exists>k kt b. (k, kt) \<in> set (Requires p) \<and> TryGet as_bytes c k = Some b \<and> dn_PayloadHash q = HashPayload b"
      using that by (fastforce simp: resolveParents_def set_map_filter find_Some_iff TryGet_def split: option.splits)
    then show ?thesis using stored keep that ims.walk_get [OF wf] by blast
  qed
  ultimately show ?thesis using n snd keep o(2) by auto
qed

definition out_phase :: "unit phase" where
  "out_phase = (wait_phase ''a'' ''A'' StateNone)\<lparr> Provides :=
     [(''k'', \<lparr> TypeName = ''[]byte'', Required = False, Constraints = [], NoLineage = False \<rparr>)] \<rparr>"

definition lineage_runner :: "unit session_runner" where
  "lineage_runner = two_runner\<lparr> lineageStore := Some NewInMemoryStore, lineageSigner := Some echo_signer \<rparr>"

lemma auto_commit_outputs_witness:
  "\<exists>st' n. store_sound st' \<and> store_Get st' (DeriveNodeHash ''s'' ''a'' ''k'' [1] []) = Ok n"
proof -
  let ?c = "ctx_Set (NewSessionContext ''s'' :: unit session_context) ''k'' (VBytes [1])"
  obtain n where n: "Commit 0 ''s'' ''a'' ''k'' [1] [] (Some echo_signer) = Ok n" using echo_Commit_Ok by blast
  have rp: "resolveParents NewInMemoryStore out_phase ?c = []"
    by (simp add: resolveParents_def out_phase_def wait_phase_def List.map_filter_simps)
  obtain r' where r': "commitPhaseOutputsIfEnabled 0 out_phase ?c lineage_runner = (Ok (), r')"
    using n rp by (simp add: commitPhaseOutputsIfEnabled_def lineage_runner_def)
      (simp add: out_phase_def wait_phase_def NewSessionContext_def store_Append_def NewInMemoryStore_def)
  have "Provides out_phase = [(''k'', \<lparr> TypeName = ''[]byte'', Required = False, Constraints = [], NoLineage = False \<rparr>)]"
    by (simp add: out_phase_def)
  then have key: "(''k'', \<lparr> TypeName = ''[]byte'', Required = False, Constraints = [], NoLineage = False \<rparr>) \<in> set (Provides out_phase)"
    by simp
  have st: "lineageStore lineage_runner = Some NewInMemoryStore" by (simp add: lineage_runner_def)
  have "Name out_phase = ''a''" by (simp add: out_phase_def wait_phase_def)
  then show ?thesis
    using auto_commit_outputs [OF st store_sound_New r' key, of "[1]"] rp
    by (auto simp: NewSessionContext_def)
qed

section \<open>Runs of the runner\<close>

lemma HandleLineageMessage_contract:
  assumes inv: "runner_inv r"
  shows "runner_inv (snd (HandleLineageMessage now sid mt from m node r)) \<and>
    session_frame sid r (snd (HandleLineageMessage now sid mt from m node r))"
proof (cases "lineageStore r")
  case None
  then show ?thesis using hm.op_inv [OF inv] hm.op_frame [OF inv] by (simp add: HandleLineageMessage_def)
next
  case (Some st)
  show ?thesis
  proof (cases node)
    case None
    then show ?thesis using Some inv by (simp add: HandleLineageMessage_def)
  next
    case node: (Some n)
    show ?thesis
    proof (cases "admissible (lineageVerifiers r) st n m")
      case True
      let ?r1 = "r\<lparr> lineageStore := Some (snd (store_Append st n)) \<rparr>"
      have "store_grows (Some st) (Some (snd (store_Append st n)))"
        using True Verify_authentic by (intro store_grows_Append) (auto simp: admissible_def)
      then have fr: "session_frame sid r ?r1" using Some by (simp add: session_frame_def same_config_def)
      have inv1: "runner_inv ?r1"
        by (rule runner_inv_frame [OF inv fr]) (use inv in \<open>simp_all add: runner_inv_def\<close>)
      then show ?thesis
        using HandleLineageMessage_admissible [OF Some True] node hm.op_inv [OF inv1] hm.op_frame [OF inv1]
          session_frame_trans [OF fr] by simp
    next
      case False
      then obtain ev where "snd (HandleLineageMessage now sid mt from m node r) = fireFailureHook ev r"
        using HandleLineageMessage_rejected [OF Some False, of now sid mt "from"] node by auto
      moreover have fr: "session_frame sid r (fireFailureHook ev r)" by (simp add: session_frame_def)
      moreover have "runner_inv (fireFailureHook ev r)"
        by (rule runner_inv_frame [OF inv fr]) (use inv in \<open>simp_all add: runner_inv_def\<close>)
      ultimately show ?thesis by simp
    qed
  qed
qed

interpretation hl: session_op "HandleLineageMessage now sid mt from m node" sid for now sid mt "from" m node
  by unfold_locales (use HandleLineageMessage_contract in blast)+

text \<open>The operations a service performs on a runner, and a run as a list of them.\<close>

datatype 'v runner_op =
    OpBegin string string
  | OpMessage int string string string bytes
  | OpLineageMessage int string string string bytes "dag_node option"
  | OpAdvance int string session_state
  | OpSeed string string "'v any"
  | OpEnd string
  | OpFalseClaim string dag_node

fun op_session :: "'v runner_op \<Rightarrow> string" where
  "op_session (OpBegin sid _) = sid"
| "op_session (OpMessage _ sid _ _ _) = sid"
| "op_session (OpLineageMessage _ sid _ _ _ _) = sid"
| "op_session (OpAdvance _ sid _) = sid"
| "op_session (OpSeed sid _ _) = sid"
| "op_session (OpEnd sid) = sid"
| "op_session (OpFalseClaim sid _) = sid"

fun run_op :: "'v runner_op \<Rightarrow> 'v session_runner \<Rightarrow> 'v session_runner" where
  "run_op (OpBegin sid coh) r = snd (BeginSession sid coh r)"
| "run_op (OpMessage now sid mt from m) r = snd (HandleMessage now sid mt from m r)"
| "run_op (OpLineageMessage now sid mt from m n) r = snd (HandleLineageMessage now sid mt from m n r)"
| "run_op (OpAdvance now sid target) r = snd (AdvanceToState now sid target r)"
| "run_op (OpSeed sid key v) r = seed_context sid key v r"
| "run_op (OpEnd sid) r = EndSession sid r"
| "run_op (OpFalseClaim sid claim) r = ReportFalseLineageClaim sid claim r"

definition run_ops :: "'v runner_op list \<Rightarrow> 'v session_runner \<Rightarrow> 'v session_runner" where
  "run_ops ops r = fold run_op ops r"

interpretation fc: session_op "\<lambda>r. (Ok (), ReportFalseLineageClaim sid claim r)" sid for sid claim
proof
  fix r :: "'a session_runner" assume inv: "runner_inv r"
  show fr: "session_frame sid r (snd (Ok (), ReportFalseLineageClaim sid claim r))"
    by (simp add: session_frame_def ReportFalseLineageClaim_def)
  show "runner_inv (snd (Ok (), ReportFalseLineageClaim sid claim r))"
    by (rule runner_inv_frame [OF inv fr]) (use inv in \<open>simp_all add: runner_inv_def ReportFalseLineageClaim_def\<close>)
qed

lemma run_op_contract:
  assumes "runner_inv r"
  shows "runner_inv (run_op x r)" and "session_frame (op_session x) r (run_op x r)"
  using bg.op_inv [OF assms] hm.op_inv [OF assms] hl.op_inv [OF assms] ad.op_inv [OF assms]
    en.op_inv [OF assms] sd.op_inv [OF assms] fc.op_inv [OF assms]
    bg.op_frame [OF assms] hm.op_frame [OF assms] hl.op_frame [OF assms] ad.op_frame [OF assms]
    en.op_frame [OF assms] sd.op_frame [OF assms] fc.op_frame [OF assms]
  by (cases x; simp)+

lemma runner_inv_Compose:
  assumes "Compose ps = Ok r" and "\<forall>p \<in> set ps. phase_confined p"
  shows "runner_inv r"
  using assms by (simp add: Compose_Ok_iff runner_inv_def config_ok_def store_ok_def)

lemma run_ops_inv:
  "runner_inv r \<Longrightarrow> runner_inv (run_ops ops r) \<and> same_config r (run_ops ops r) \<and>
     store_grows (lineageStore r) (lineageStore (run_ops ops r))"
proof (induction ops arbitrary: r)
  case (Cons x ops)
  then have inv: "runner_inv (run_op x r)" and fr: "session_frame (op_session x) r (run_op x r)"
    using run_op_contract by auto
  from Cons.IH [OF inv] fr show ?case
    by (auto simp: run_ops_def session_frame_def intro: same_config_trans store_grows_trans)
qed (simp add: run_ops_def)

lemma run_ops_other:
  assumes "runner_inv r" and "\<forall>x \<in> set ops. op_session x \<noteq> sid"
  shows "map_of (sessions (run_ops ops r)) sid = map_of (sessions r) sid"
  using assms
proof (induction ops arbitrary: r)
  case (Cons x ops)
  then have "map_of (sessions (run_ops ops (run_op x r))) sid = map_of (sessions (run_op x r)) sid"
    using run_op_contract(1) [OF Cons.prems(1), of x] by simp
  moreover have "map_of (sessions (run_op x r)) sid = map_of (sessions r) sid"
    using run_op_contract(2) [OF Cons.prems(1), of x] Cons.prems(2) by (auto simp: session_frame_def)
  ultimately show ?case by (simp add: run_ops_def)
qed (simp add: run_ops_def)

text \<open>
  Claim C3. Sessions are isolated up to the shared lineage store: whatever sequence of operations on other sessions runs against a
  consistent runner (beginning, messages with or without lineage, advancing, seeding, ending,
  reports of false claims), the state, the phase, the values and the identity of a session are what they were. The one thing in its context that can have
  changed is the store that all contexts point to, and that has only grown: no node has been lost or changed. (It may have
  nodes that carry the id of this session: a lineage message to another session is not checked for that.)
\<close>

theorem session_isolation:
  assumes "runner_inv r" and "\<forall>x \<in> set ops. op_session x \<noteq> sid"
  shows "CurrentState (run_ops ops r) sid = CurrentState r sid \<and>
    map_option trk_current (map_of (sessions (run_ops ops r)) sid) = map_option trk_current (map_of (sessions r) sid) \<and>
    session_context_of (run_ops ops r) sid =
      map_option (\<lambda>c. c\<lparr> ctx_lineageStore := lineageStore (run_ops ops r) \<rparr>) (session_context_of r sid) \<and>
    store_grows (lineageStore r) (lineageStore (run_ops ops r))"
  using run_ops_other [OF assms] run_ops_inv [OF assms(1), of ops]
  by (simp add: CurrentState_def session_context_of_def option.map_comp comp_def)

lemma session_isolation_witness:
  "CurrentState (run_ops [OpBegin ''t'' [], OpMessage 0 ''t'' ''go'' ''x'' [], OpEnd ''t''] two_begun) ''s'' = (''A'', True)"
  using session_isolation [OF two_begun_facts(1), of "[OpBegin ''t'' [], OpMessage 0 ''t'' ''go'' ''x'' [], OpEnd ''t'']" "''s''"]
    two_begun_facts(4) by (simp add: CurrentState_def)

text \<open>
  Claim C5. Runs keep the runner consistent: from a runner that \<^verbatim>\<open>ComposeWith\<close> built over phases whose
  hooks respect their interface, with a sound store, every sequence of operations leads to a
  state in which each tracked session is inside the inline phase whose entry state it is in, or
  ended with no phase; its context carries its own id; and the lineage store is sound: closed
  under parents, content-addressed, each node's hash derived from its fields.
\<close>

theorem runs_keep_invariant:
  assumes "ComposeWith ps opts = Ok r" and "\<forall>p \<in> set ps. phase_confined p"
    and "\<And>s. lineageStore r = Some s \<Longrightarrow> store_sound s"
  shows "runner_inv (run_ops ops r) \<and>
    (\<exists>st. lineageStore (run_ops ops r) = Some st \<and> store_sound st) \<and>
    (\<forall>sid t. map_of (sessions (run_ops ops r)) sid = Some t \<longrightarrow>
       SessionID (trk_ctx t) = sid \<and>
       (case trk_current t of None \<Rightarrow> trk_state t = StateNone
        | Some p \<Rightarrow> p \<in> set ps \<and> RunsAt p = RunsAtInline \<and> trk_state t = EntryState p \<and> trk_state t \<noteq> StateNone))"
proof -
  obtain r0 store signer vs hook where r0: "Compose ps = Ok r0" and r: "r = attachLineage store signer vs hook r0"
    using assms(1) by (auto simp: ComposeWith_def Let_def split: option.splits if_splits outcome.splits)
  have ph: "phases r = ps" using r0 by (simp add: r attachLineage_def Compose_Ok_iff)
  have inv: "runner_inv r"
    using r0 assms(2,3) by (simp add: r attachLineage_def Compose_Ok_iff runner_inv_def config_ok_def store_ok_def)
  let ?r = "run_ops ops r"
  have run: "runner_inv ?r" "same_config r ?r" "store_grows (lineageStore r) (lineageStore ?r)"
    using run_ops_inv [OF inv] by auto
  have "lineageStore r \<noteq> None" by (simp add: r attachLineage_def)
  then obtain st where st: "lineageStore ?r = Some st" using store_grows_iff [OF run(3)] by auto
  then have "store_sound st" using run(1) by (simp add: runner_inv_def store_ok_def)
  moreover have "SessionID (trk_ctx t) = sid \<and>
       (case trk_current t of None \<Rightarrow> trk_state t = StateNone
        | Some p \<Rightarrow> p \<in> set ps \<and> RunsAt p = RunsAtInline \<and> trk_state t = EntryState p \<and> trk_state t \<noteq> StateNone)"
    if "map_of (sessions ?r) sid = Some t" for sid t
  proof -
    have "tracker_ok ?r sid t" using run(1) that by (simp add: runner_inv_def)
    moreover have "phases ?r = ps" using run(2) ph by (simp add: same_config_def)
    moreover have "\<forall>p \<in> set (inlines ps). EntryState p \<noteq> StateNone"
      using pipeline_entries(2) [of ps] r0 by (simp add: Compose_Ok_iff)
    ultimately show ?thesis by (auto simp: tracker_ok_def inlines_def split: option.splits)
  qed
  ultimately show ?thesis using run(1) st by blast
qed

lemma two_ComposeWith:
  "ComposeWith two_phases [WithSigner echo_signer, WithPeerVerifiers [(''echo'', echo_signer)]] =
     Ok (attachLineage NewInMemoryStore echo_signer [(''echo'', echo_signer)] None two_runner)"
  by (simp add: ComposeWith_def apply_options_def WithSigner_def WithPeerVerifiers_def two_runner_Compose)
     (simp add: echo_signer_def)

lemma runs_keep_invariant_witness:
  "\<exists>st. lineageStore (run_ops [OpBegin ''s'' [], OpMessage 0 ''s'' ''go'' ''x'' []]
     (attachLineage NewInMemoryStore echo_signer [(''echo'', echo_signer)] None two_runner)) = Some st \<and> store_sound st"
  using runs_keep_invariant [OF two_ComposeWith two_phases_confined, of "[OpBegin ''s'' [], OpMessage 0 ''s'' ''go'' ''x'' []]"]
  by (simp add: attachLineage_def)

lemma compose_with_aux:
  assumes o': "o' = apply_options opts"
  shows "(is_ok (ComposeWith ps opts) \<longleftrightarrow>
      opt_signer o' \<noteq> None \<and> (needsPeers ps \<longrightarrow> opt_peerVerifiers o' \<noteq> []) \<and> pipeline_ok ps) \<and>
    fails_only (\<lambda>e. err_is e ErrPermanent) (ComposeWith ps opts) \<and>
    (\<forall>r. ComposeWith ps opts = Ok r \<longrightarrow>
       phases r = ps \<and> sessions r = [] \<and> lineageSigner r = opt_signer o' \<and>
       lineageStore r = Some (case opt_store o' of None \<Rightarrow> NewInMemoryStore | Some s \<Rightarrow> s) \<and>
       (\<exists>v. map_of (lineageVerifiers r) (sg_Algorithm (the (lineageSigner r))) = Some v \<and>
          (v = the (lineageSigner r) \<or> (sg_Algorithm (the (lineageSigner r)), v) \<in> set (opt_peerVerifiers o'))) \<and>
       (\<forall>alg v. map_of (opt_peerVerifiers o') alg = Some v \<longrightarrow> map_of (lineageVerifiers r) alg = Some v))"
proof (cases "opt_signer o'")
  case None
  then show ?thesis by (simp add: ComposeWith_def o' [symmetric])
next
  case (Some sg)
  show ?thesis
  proof (cases "needsPeers ps \<and> opt_peerVerifiers o' = []")
    case True
    then show ?thesis using Some by (simp add: ComposeWith_def o' [symmetric])
  next
    case False
    define vs where "vs = (if map_of (opt_peerVerifiers o') (sg_Algorithm sg) = None
      then mput (sg_Algorithm sg) sg (opt_peerVerifiers o') else opt_peerVerifiers o')"
    have CW: "ComposeWith ps opts = (case Compose ps of
        Ok r \<Rightarrow> Ok (attachLineage (case opt_store o' of None \<Rightarrow> NewInMemoryStore | Some s \<Rightarrow> s) sg vs (opt_failureHook o') r)
      | Err e \<Rightarrow> Err (Note ''ComposeWith'' [] e) | Panic m \<Rightarrow> Panic m)"
      using False Some unfolding ComposeWith_def o' [symmetric] Let_def vs_def by auto
    have vs1: "\<exists>v. map_of vs (sg_Algorithm sg) = Some v \<and> (v = sg \<or> (sg_Algorithm sg, v) \<in> set (opt_peerVerifiers o'))"
      by (auto simp: vs_def dest: map_of_SomeD)
    have vs2: "\<forall>alg v. map_of (opt_peerVerifiers o') alg = Some v \<longrightarrow> map_of vs alg = Some v"
      by (auto simp: vs_def)
    have fo: "fails_only (\<lambda>e. err_is e ErrPermanent) (Compose ps)" and ok: "is_ok (Compose ps) \<longleftrightarrow> pipeline_ok ps"
      using Compose_accepts [of ps] by auto
    show ?thesis
    proof (cases "Compose ps")
      case (Ok r)
      then have eq: "ComposeWith ps opts = Ok (attachLineage
          (case opt_store o' of None \<Rightarrow> NewInMemoryStore | Some s \<Rightarrow> s) sg vs (opt_failureHook o') r)"
        using CW by simp
      have "phases r = ps" "sessions r = []" "pipeline_ok ps" using Ok by (simp_all add: Compose_Ok_iff)
      then show ?thesis
        unfolding eq using Some False vs1 vs2 by (simp add: attachLineage_def)
    qed (use CW Some False fo ok in auto)
  qed
qed

text \<open>
  \<^verbatim>\<open>ComposeWith\<close> accepts exactly the valid pipelines given with a signer, and with peer
  verifiers when some phase consumes messages. The runner it returns has no sessions, the
  given store (a fresh one by default), and a verifier for the signer's own algorithm, so a
  node the runner itself committed passes the runner's own verification when that verifier
  accepts the signer's signatures. Every rejection is an \<^verbatim>\<open>ErrPermanent\<close>.
\<close>

theorem compose_with_spec:
  "(is_ok (ComposeWith ps opts) \<longleftrightarrow>
      opt_signer (apply_options opts) \<noteq> None \<and> (needsPeers ps \<longrightarrow> opt_peerVerifiers (apply_options opts) \<noteq> []) \<and> pipeline_ok ps) \<and>
    fails_only (\<lambda>e. err_is e ErrPermanent) (ComposeWith ps opts) \<and>
    (\<forall>r. ComposeWith ps opts = Ok r \<longrightarrow>
       phases r = ps \<and> sessions r = [] \<and> lineageSigner r = opt_signer (apply_options opts) \<and>
       lineageStore r = Some (case opt_store (apply_options opts) of None \<Rightarrow> NewInMemoryStore | Some s \<Rightarrow> s) \<and>
       (\<exists>v. map_of (lineageVerifiers r) (sg_Algorithm (the (lineageSigner r))) = Some v \<and>
          (v = the (lineageSigner r) \<or> (sg_Algorithm (the (lineageSigner r)), v) \<in> set (opt_peerVerifiers (apply_options opts)))) \<and>
       (\<forall>alg v. map_of (opt_peerVerifiers (apply_options opts)) alg = Some v \<longrightarrow> map_of (lineageVerifiers r) alg = Some v))"
  by (rule compose_with_aux) simp

lemma compose_with_spec_witness:
  "\<exists>r. ComposeWith two_phases [WithSigner echo_signer, WithPeerVerifiers [(''echo'', echo_signer)]] = Ok r \<and>
     phases r = two_phases \<and> sessions r = []"
  using compose_with_spec [of two_phases "[WithSigner echo_signer, WithPeerVerifiers [(''echo'', echo_signer)]]"]
    two_ComposeWith by blast

end
