(* ===== verification/Default_Phases.thy ===== *)
theory Default_Phases
  imports Runner_Lineage
begin

text \<open>
  \<^verbatim>\<open>pkg/ares/phase/defaults\<close> and \<^verbatim>\<open>pkg/ares/phase/keygen\<close>: the phases the framework ships, as values of
  \<open>phase\<close>, and what \<^verbatim>\<open>Compose\<close> makes of pipelines built from them. Most of their hooks do nothing: the
  work happens in the application's own phases, and these declare the arcs, the message types and
  the schemas that tie a pipeline together.
\<close>

section \<open>States and context keys\<close>

definition StateInviting :: session_state where "StateInviting = ''INVITING''"
definition StateLocked :: session_state where "StateLocked = ''LOCKED''"
definition StateKeygen :: session_state where "StateKeygen = ''KEYGEN''"
definition StateGossip :: session_state where "StateGossip = ''GOSSIP''"
definition StateVerifying :: session_state where "StateVerifying = ''VERIFYING''"
definition StateSubmitting :: session_state where "StateSubmitting = ''SUBMITTING''"
definition StateScoring :: session_state where "StateScoring = ''SCORING''"
definition StateDecrypting :: session_state where "StateDecrypting = ''DECRYPTING''"
definition StateBroadcasting :: session_state where "StateBroadcasting = ''BROADCASTING''"
definition StateClosed :: session_state where "StateClosed = ''CLOSED''"

definition CtxParticipants :: string where "CtxParticipants = ''participants''"
definition CtxCryptoContract :: string where "CtxCryptoContract = ''crypto_ctx''"
definition CtxCollectivePublicKey :: string where "CtxCollectivePublicKey = ''collective_pk''"
definition CtxSecretShares :: string where "CtxSecretShares = ''secret_shares''"
definition CtxEvalKeys :: string where "CtxEvalKeys = ''eval_keys''"
definition CtxResultCiphertext :: string where "CtxResultCiphertext = ''result_ct''"
definition CtxResultBytes :: string where "CtxResultBytes = ''result_bytes''"

lemmas state_defs = StateInviting_def StateLocked_def StateKeygen_def StateGossip_def StateVerifying_def
  StateSubmitting_def StateScoring_def StateDecrypting_def StateBroadcasting_def StateClosed_def StateNone_def

lemmas key_defs = CtxParticipants_def CtxCryptoContract_def CtxCollectivePublicKey_def CtxSecretShares_def
  CtxEvalKeys_def CtxResultCiphertext_def CtxResultBytes_def

text \<open>A schema entry, and the hooks that do nothing.\<close>

abbreviation ktype :: "string \<Rightarrow> bool \<Rightarrow> constraints \<Rightarrow> context_key_type" where
  "ktype tn req cs \<equiv> \<lparr> TypeName = tn, Required = req, Constraints = cs, NoLineage = False \<rparr>"

definition skip_hook :: "'v hook" where
  "skip_hook c = (Ok (), c)"

definition skip_message :: "string \<Rightarrow> string \<Rightarrow> bytes \<Rightarrow> 'v hook" where
  "skip_message msgType from payload c = (Ok (), c)"

section \<open>The default phases\<close>

definition Phase0bRegistration :: "'v phase" where
  "Phase0bRegistration =
     \<lparr> Name = ''phase-0b-registration'', Lifetime = LifetimePersistent, RunsAt = RunsAtRegistration,
       EntryState = StateNone, ExitState = StateNone, InternalStates = [], ConsumedMessageTypes = [],
       Requires = [], Provides = [(''participant_identity'', ktype ''ParticipantIdentity'' False [])],
       Enter = skip_hook, OnMessage = skip_message, CheckComplete = (\<lambda>_. True), Exit = skip_hook \<rparr>"

definition Phase1aSessionInitiation :: "'v phase" where
  "Phase1aSessionInitiation =
     \<lparr> Name = ''phase-1a-session-initiation'', Lifetime = LifetimePerSession, RunsAt = RunsAtInline,
       EntryState = StateInviting, ExitState = StateLocked, InternalStates = [],
       ConsumedMessageTypes = [''session.accept''], Requires = [],
       Provides =
         [(CtxParticipants, ktype ''[]string'' False []),
          (CtxCryptoContract, ktype ''OpenFHEContract'' False
             [(''depth'', VInt KInt 30), (''ring_dim'', VInt KInt 4096), (''scaling_mod_size'', VInt KInt 50)])],
       Enter = skip_hook, OnMessage = skip_message, CheckComplete = (\<lambda>_. True), Exit = skip_hook \<rparr>"

definition Phase0aThresholdKeygen :: "'v phase" where
  "Phase0aThresholdKeygen =
     \<lparr> Name = ''phase-0a-threshold-keygen'', Lifetime = LifetimePerSession, RunsAt = RunsAtInline,
       EntryState = StateLocked, ExitState = StateGossip, InternalStates = [StateKeygen],
       ConsumedMessageTypes = [''keygen.share'', ''keygen.eval_round1'', ''keygen.eval_share''],
       Requires =
         [(CtxParticipants, ktype ''[]string'' True []),
          (CtxCryptoContract, ktype ''OpenFHEContract'' True [(''depth_min'', VInt KInt 4)])],
       Provides =
         [(CtxCollectivePublicKey, ktype ''[]byte'' False [(''topology'', VString ''threshold'')]),
          (CtxSecretShares, ktype ''map[string][]byte'' False [(''topology'', VString ''threshold'')]),
          (CtxEvalKeys, ktype ''OpenFHEEvalKeys'' False [])],
       Enter = skip_hook, OnMessage = skip_message, CheckComplete = (\<lambda>_. False), Exit = skip_hook \<rparr>"

definition Phase3ThresholdDecrypt :: "'v phase" where
  "Phase3ThresholdDecrypt =
     \<lparr> Name = ''phase-3-threshold-decrypt'', Lifetime = LifetimePerSession, RunsAt = RunsAtInline,
       EntryState = StateDecrypting, ExitState = StateBroadcasting, InternalStates = [],
       ConsumedMessageTypes = [''decrypt.partial''],
       Requires =
         [(CtxParticipants, ktype ''[]string'' True []),
          (CtxSecretShares, ktype ''map[string][]byte'' True [(''topology'', VString ''threshold'')]),
          (CtxResultCiphertext, ktype ''[]byte'' True [])],
       Provides = [(CtxResultBytes, ktype ''[]byte'' False [])],
       Enter = skip_hook, OnMessage = skip_message, CheckComplete = (\<lambda>_. False), Exit = skip_hook \<rparr>"

section \<open>The key-generation variants\<close>

definition SinglePartyKeygenPhase :: "'v phase" where
  "SinglePartyKeygenPhase =
     \<lparr> Name = ''keygen-single-party'', Lifetime = LifetimePerSession, RunsAt = RunsAtInline,
       EntryState = StateLocked, ExitState = StateGossip, InternalStates = [StateKeygen],
       ConsumedMessageTypes = [],
       Requires =
         [(CtxParticipants, ktype ''[]string'' True []),
          (CtxCryptoContract, ktype ''OpenFHEContract'' True [(''depth_min'', VInt KInt 4)])],
       Provides =
         [(CtxCollectivePublicKey, ktype ''[]byte'' False []),
          (CtxSecretShares, ktype ''map[string][]byte'' False [(''topology'', VString ''single_party'')]),
          (CtxEvalKeys, ktype ''OpenFHEEvalKeys'' False [])],
       Enter = skip_hook, OnMessage = skip_message, CheckComplete = (\<lambda>_. True), Exit = skip_hook \<rparr>"

definition PlaintextKeygenPhase :: "'v phase" where
  "PlaintextKeygenPhase =
     \<lparr> Name = ''keygen-plaintext'', Lifetime = LifetimePerSession, RunsAt = RunsAtInline,
       EntryState = StateLocked, ExitState = StateGossip, InternalStates = [StateKeygen],
       ConsumedMessageTypes = [],
       Requires = [(CtxParticipants, ktype ''[]string'' True [])],
       Provides =
         [(CtxCollectivePublicKey, ktype ''[]byte'' False [(''topology'', VString ''plaintext'')]),
          (CtxSecretShares, ktype ''[]byte'' False [(''topology'', VString ''plaintext'')]),
          (CtxEvalKeys, ktype ''OpenFHEEvalKeys'' False [])],
       Enter = skip_hook, OnMessage = skip_message, CheckComplete = (\<lambda>_. True), Exit = skip_hook \<rparr>"

fun preshared_check :: "string list \<Rightarrow> 'v hook" where
  "preshared_check [] c = (Ok (), c)"
| "preshared_check (key # keys) c =
     (if \<not> ctx_Has c key then (Err (MissingContextError key ''keygen-preshared''), c) else preshared_check keys c)"

definition PreSharedKeygenPhase :: "'v phase" where
  "PreSharedKeygenPhase =
     \<lparr> Name = ''keygen-preshared'', Lifetime = LifetimePerCohort, RunsAt = RunsAtInline,
       EntryState = StateLocked, ExitState = StateGossip, InternalStates = [StateKeygen],
       ConsumedMessageTypes = [],
       Requires =
         [(CtxParticipants, ktype ''[]string'' True []),
          (CtxCollectivePublicKey, ktype ''[]byte'' True []),
          (CtxSecretShares, ktype ''map[string][]byte'' True [(''topology'', VString ''threshold'')]),
          (CtxEvalKeys, ktype ''OpenFHEEvalKeys'' True [])],
       Provides = [],
       Enter = preshared_check [CtxCollectivePublicKey, CtxSecretShares, CtxEvalKeys],
       OnMessage = skip_message, CheckComplete = (\<lambda>_. True), Exit = skip_hook \<rparr>"

lemmas phase_defs = Phase0bRegistration_def Phase1aSessionInitiation_def Phase0aThresholdKeygen_def
  Phase3ThresholdDecrypt_def SinglePartyKeygenPhase_def PlaintextKeygenPhase_def PreSharedKeygenPhase_def

section \<open>Facts\<close>

lemma skip_confined [simp]: "hook_confined skip_hook" "hook_confined (skip_message mt from m)"
  by (simp_all add: hook_confined_def skip_hook_def skip_message_def)

lemma preshared_check_ctx [simp]: "snd (preshared_check keys c) = c"
  by (induction keys) auto

lemma default_phases_confined:
  "phase_confined Phase0bRegistration" "phase_confined Phase1aSessionInitiation" "phase_confined Phase0aThresholdKeygen"
  "phase_confined Phase3ThresholdDecrypt" "phase_confined SinglePartyKeygenPhase" "phase_confined PlaintextKeygenPhase"
  "phase_confined PreSharedKeygenPhase"
  by (simp_all add: phase_confined_def phase_defs) (simp add: hook_confined_def)

lemma preshared_check_spec:
  "fst (preshared_check keys c) =
     (case List.find (\<lambda>k. \<not> ctx_Has c k) keys of
        None \<Rightarrow> Ok () | Some k \<Rightarrow> Err (MissingContextError k ''keygen-preshared''))"
  by (induction keys) auto

lemma Compose_requires:
  assumes "is_ok (Compose ps)" and "i < length ps" and "(key, want) \<in> set (Requires (ps ! i))"
  shows "requirement_met (latest_provider (take i ps)) key want"
proof -
  have "phase_ok (take i ps) (ps ! i)" using Compose_accepts [of ps] assms(1,2) by (simp add: pipeline_ok_def)
  then show ?thesis using assms(3) unfolding phase_ok_def by blast
qed

text \<open>The declaration in force for a key is the one of the last phase that provides it.\<close>

lemma latest_provider_last:
  assumes "j < length ps" and "\<forall>k. j < k \<and> k < length ps \<longrightarrow> key \<notin> keys_of (Provides (ps ! k))"
    and "map_of (rev (Provides (ps ! j))) key = Some got"
  shows "latest_provider ps key = Some got"
  using assms
proof (induction ps rule: rev_induct)
  case (snoc p ps)
  show ?case
  proof (cases "j = length ps")
    case True
    then show ?thesis using snoc.prems(3) by (simp add: latest_provider_snoc)
  next
    case False
    then have "key \<notin> keys_of (Provides p)" using snoc.prems(1,2) by (auto dest!: spec [of _ "length ps"])
    then have none: "map_of (rev (Provides p)) key = None" by (simp add: map_of_eq_None_iff)
    have "latest_provider ps key = Some got"
      by (rule snoc.IH) (use snoc.prems False in \<open>auto simp: nth_append split: if_splits dest!: spec [of _ k for k]\<close>)
    then show ?thesis using none by (simp add: latest_provider_snoc map_add_def)
  qed
qed simp

lemma secret_shares_offered:
  "map_of (rev (Provides SinglePartyKeygenPhase)) CtxSecretShares =
     Some (ktype ''map[string][]byte'' False [(''topology'', VString ''single_party'')])"
  "map_of (rev (Provides PlaintextKeygenPhase)) CtxSecretShares =
     Some (ktype ''[]byte'' False [(''topology'', VString ''plaintext'')])"
  by (simp_all add: phase_defs key_defs)

text \<open>What a phase that demands threshold shares has in front of it in an accepted pipeline.\<close>

lemma threshold_shares_met:
  assumes "requirement_met provided CtxSecretShares (ktype ''map[string][]byte'' True [(''topology'', VString ''threshold'')])"
  shows "\<exists>got v. provided CtxSecretShares = Some got \<and> TypeName got \<in> {[], ''map[string][]byte''} \<and>
    map_of (Constraints got) ''topology'' = Some v \<and> fmt_constraint v = ''threshold''"
  using assms
  by (auto simp: requirement_met_def constraint_met_def is_min_name_def equalConstraint_def fmt_constraint_def
      split: option.splits)

text \<open>
  Claim C20. Threshold decryption cannot be combined with the wrong key topology: in every pipeline that
  \<^verbatim>\<open>Compose\<close> accepts, in front of \<^verbatim>\<open>Phase3ThresholdDecrypt\<close> (and of \<^verbatim>\<open>PreSharedKeygen\<close>) the declaration in
  force for the secret shares has topology \<^verbatim>\<open>threshold\<close>, and the last phase that declared them is
  neither the single-party nor the plaintext key generation. A pipeline that ends in \<^verbatim>\<open>Phase3ThresholdDecrypt\<close> cannot have its key generation
  swapped for one of these two, although the comments of \<^verbatim>\<open>keygen/variants.go\<close> say that it can.
\<close>

theorem topology_enforced:
  assumes "is_ok (Compose ps)" and "i < length ps"
    and "ps ! i = Phase3ThresholdDecrypt \<or> ps ! i = PreSharedKeygenPhase"
  shows "(\<exists>got v. latest_provider (take i ps) CtxSecretShares = Some got \<and> TypeName got \<in> {[], ''map[string][]byte''} \<and>
      map_of (Constraints got) ''topology'' = Some v \<and> fmt_constraint v = ''threshold'') \<and>
    (\<forall>j < i. (\<forall>k. j < k \<and> k < i \<longrightarrow> CtxSecretShares \<notin> keys_of (Provides (ps ! k))) \<longrightarrow>
       ps ! j \<noteq> SinglePartyKeygenPhase \<and> ps ! j \<noteq> PlaintextKeygenPhase)"
proof -
  have "(CtxSecretShares, ktype ''map[string][]byte'' True [(''topology'', VString ''threshold'')]) \<in> set (Requires (ps ! i))"
    using assms(3) by (auto simp: phase_defs)
  then obtain got v where got: "latest_provider (take i ps) CtxSecretShares = Some got" "TypeName got \<in> {[], ''map[string][]byte''}"
    "map_of (Constraints got) ''topology'' = Some v" "fmt_constraint v = ''threshold''"
    using threshold_shares_met [OF Compose_requires [OF assms(1,2)]] by blast
  have "ps ! j \<noteq> SinglePartyKeygenPhase \<and> ps ! j \<noteq> PlaintextKeygenPhase"
    if j: "j < i" and last: "\<forall>k. j < k \<and> k < i \<longrightarrow> CtxSecretShares \<notin> keys_of (Provides (ps ! k))" for j
  proof -
    have off: "g = got" if "map_of (rev (Provides (ps ! j))) CtxSecretShares = Some g" for g
    proof -
      have "latest_provider (take i ps) CtxSecretShares = Some g"
        by (rule latest_provider_last [of j]) (use j last that assms(2) in simp_all)
      then show ?thesis using got(1) by simp
    qed
    have "ps ! j \<noteq> SinglePartyKeygenPhase"
      using off [of "ktype ''map[string][]byte'' False [(''topology'', VString ''single_party'')]"] got(3,4)
      by (auto simp: secret_shares_offered fmt_constraint_def)
    moreover have "ps ! j \<noteq> PlaintextKeygenPhase"
      using off [of "ktype ''[]byte'' False [(''topology'', VString ''plaintext'')]"] got(3,4)
      by (auto simp: secret_shares_offered fmt_constraint_def)
    ultimately show ?thesis by blast
  qed
  with got show ?thesis by blast
qed

definition sample_scorer :: "unit phase" where
  "sample_scorer =
     \<lparr> Name = ''score'', Lifetime = LifetimePerSession, RunsAt = RunsAtInline,
       EntryState = StateGossip, ExitState = StateDecrypting, InternalStates = [], ConsumedMessageTypes = [''input''],
       Requires = [(CtxEvalKeys, ktype ''OpenFHEEvalKeys'' True [])],
       Provides = [(CtxResultCiphertext, ktype ''[]byte'' False [])],
       Enter = skip_hook, OnMessage = skip_message, CheckComplete = (\<lambda>_. True), Exit = skip_hook \<rparr>"

lemma depth_30_is_enough: "atLeast (VInt KInt 30) (VInt KInt 4) = Some True"
  using f_of_int_exact [of 30] f_of_int_exact [of 4] by (simp add: atLeast_def f_of_int_def)

lemma sample_pipeline_ok:
  "is_ok (Compose [Phase1aSessionInitiation, Phase0aThresholdKeygen, sample_scorer, Phase3ThresholdDecrypt])"
proof -
  have min: "is_min_name ''depth_min''" "min_base ''depth_min'' = ''depth''" "\<not> is_min_name ''topology''"
    by (simp_all add: is_min_name_def min_base_def)
  have "pipeline_ok [Phase1aSessionInitiation, Phase0aThresholdKeygen, sample_scorer, Phase3ThresholdDecrypt]"
    by (auto simp: pipeline_ok_def less_Suc_eq phase_ok_def phase_defs sample_scorer_def state_defs key_defs
        latest_provider_def requirement_met_def constraint_met_def min depth_30_is_enough equalConstraint_def)
  then show ?thesis using Compose_accepts by blast
qed

lemma topology_enforced_witness:
  "\<exists>got v. latest_provider [Phase1aSessionInitiation, Phase0aThresholdKeygen, sample_scorer] CtxSecretShares = Some got \<and>
     map_of (Constraints got) ''topology'' = Some v \<and> fmt_constraint v = ''threshold''"
  using topology_enforced [OF sample_pipeline_ok, of 3] by (simp add: numeral_3_eq_3) blast

lemma run_skip:
  "run_hook skip_hook sid t r =
     (let t' = t\<lparr> trk_ctx := (trk_ctx t)\<lparr> ctx_lineageStore := lineageStore r \<rparr> \<rparr> in (Ok (), t', put_tracker sid t' r))"
  by (simp add: run_hook_def skip_hook_def)

lemma exit_skip:
  assumes "Exit q = skip_hook" and "lineageStore r = None"
  shows "\<exists>t'. exit_phase lbl now sid q t r = (Ok (), t', put_tracker sid t' r) \<and>
    trk_state t' = trk_state t \<and> trk_current t' = trk_current t"
  using assms by (simp add: exit_phase_def run_skip Let_def commitPhaseOutputsIfEnabled_def put_tracker_def)

lemma enter_succeeds:
  assumes "fst (Enter q ((trk_ctx t)\<lparr> ctx_lineageStore := lineageStore r \<rparr>)) = Ok ()"
  shows "\<exists>t' r'. enter_phase lbl sid nst q t r = (Ok (), t', r') \<and> trk_state t' = nst \<and> trk_current t' = Some q \<and>
    trk_entered t' \<and> map_of (sessions r') sid = Some t' \<and> byEntryState r' = byEntryState r \<and> phases r' = phases r \<and>
    (Enter q = skip_hook \<longrightarrow> lineageStore r' = lineageStore r)"
proof -
  obtain c where "Enter q ((trk_ctx t)\<lparr> ctx_lineageStore := lineageStore r \<rparr>) = (Ok (), c)"
    using assms by (metis prod.collapse)
  then show ?thesis
    by (auto simp: enter_phase_def run_hook_def put_tracker_def Let_def skip_hook_def)
qed

lemma begin_idle:
  assumes "BeginSession sid coh r = (Ok (), r1)" and "map_of (byEntryState r) (initialState r) = Some q" and "Enter q = skip_hook"
  shows "\<exists>t. map_of (sessions r1) sid = Some t \<and> trk_current t = Some q \<and> byEntryState r1 = byEntryState r \<and>
    phases r1 = phases r \<and> lineageStore r1 = lineageStore r"
  using assms by (auto simp: BeginSession_def Let_def run_skip put_tracker_def split: if_splits)

lemma begin_idle_ok:
  assumes "sid \<noteq> []" "map_of (sessions r) sid = None" "map_of (byEntryState r) (initialState r) = Some q" "Enter q = skip_hook"
  shows "fst (BeginSession sid coh r) = Ok ()"
  using assms by (simp add: BeginSession_def Let_def run_skip)

lemma message_idle:
  assumes "map_of (sessions r) sid = Some t" "trk_current t = Some q" "OnMessage q = skip_message" "phaseConsumes q mt"
    and "\<And>c. CheckComplete q c"
  shows "\<exists>t' r'. HandleMessage now sid mt from payload r = advance now sid t' r' \<and> trk_current t' = Some q \<and>
    byEntryState r' = byEntryState r \<and> phases r' = phases r \<and> lineageStore r' = lineageStore r"
proof -
  let ?t = "t\<lparr> trk_ctx := (trk_ctx t)\<lparr> ctx_lineageStore := lineageStore r \<rparr> \<rparr>"
  have "HandleMessage now sid mt from payload r = advance now sid ?t (put_tracker sid ?t r)"
    using assms by (simp add: HandleMessage_def run_hook_def skip_message_def Let_def)
  moreover have "trk_current ?t = Some q" using assms(2) by simp
  ultimately show ?thesis by (intro exI [of _ ?t] exI [of _ "put_tracker sid ?t r"]) (simp add: put_tracker_def)
qed

text \<open>Two hops of the cascade: out of a phase with idle hooks, through one that waits for nothing, into \<open>p\<close>.\<close>

lemma advance_two_hops:
  assumes "trk_current t = Some a" "Exit a = skip_hook" "lineageStore r = None"
    and "map_of (byEntryState r) (ExitState a) = Some b" "ExitState a \<noteq> StateNone"
    and "Enter b = skip_hook" "Exit b = skip_hook" "ConsumedMessageTypes b = []" "\<And>c. CheckComplete b c"
    and "map_of (byEntryState r) (ExitState b) = Some p" "ExitState b \<noteq> StateNone"
    and "\<And>c. fst (Enter p c) = Ok ()" "ConsumedMessageTypes p \<noteq> []"
  shows "\<exists>r2 t2. advance_loop (Suc (Suc n)) now sid t r = (Ok True, r2) \<and> map_of (sessions r2) sid = Some t2 \<and>
    trk_state t2 = ExitState b \<and> trk_current t2 = Some p \<and> trk_entered t2"
proof -
  obtain t1 where t1: "exit_phase [] now sid a t r = (Ok (), t1, put_tracker sid t1 r)"
    using exit_skip [OF assms(2,3)] by blast
  let ?r1 = "put_tracker sid t1 r"
  have "fst (Enter b c) = Ok ()" for c by (simp add: assms(6) skip_hook_def)
  then obtain t2 r2 where t2: "enter_phase [] sid (ExitState a) b t1 ?r1 = (Ok (), t2, r2)" "trk_current t2 = Some b"
    "byEntryState r2 = byEntryState ?r1" "lineageStore r2 = lineageStore ?r1"
    using enter_succeeds [where q = b and t = t1 and r = ?r1 and lbl = "[]" and sid = sid and nst = "ExitState a"] assms(6) by blast
  then have r2: "byEntryState r2 = byEntryState r" "lineageStore r2 = None" using assms(3) by (simp_all add: put_tracker_def)
  obtain t3 where t3: "exit_phase [] now sid b t2 r2 = (Ok (), t3, put_tracker sid t3 r2)"
    using exit_skip [OF assms(7) r2(2)] by blast
  obtain t4 r4 where t4: "enter_phase [] sid (ExitState b) p t3 (put_tracker sid t3 r2) = (Ok (), t4, r4)"
    "trk_state t4 = ExitState b" "trk_current t4 = Some p" "trk_entered t4" "map_of (sessions r4) sid = Some t4"
    using enter_succeeds [where q = p and t = t3 and r = "put_tracker sid t3 r2" and lbl = "[]" and sid = sid and nst = "ExitState b"] assms(12) by blast
  have "advance_loop (Suc n) now sid t2 r2 = (Ok True, r4)"
    using t2(2) t3 t4(1) assms(10,11,13) r2(1) by (simp add: put_tracker_def)
  then have "advance_loop (Suc (Suc n)) now sid t r = (Ok True, r4)"
    using assms(1,4,5,8,9) t1 t2(1) by (simp add: put_tracker_def)
  then show ?thesis using t4(2-5) by blast
qed

text \<open>
  Key generation without messages cascades: in an accepted pipeline that starts with session
  initiation and the single-party or plaintext key generation, followed by a phase that waits for
  messages and whose \<^verbatim>\<open>Enter\<close> succeeds, the first \<^verbatim>\<open>session.accept\<close> of a begun session runs through the
  key generation and leaves the session in \<^verbatim>\<open>GOSSIP\<close>, inside that phase.
\<close>

theorem keygen_cascade:
  assumes "Compose (Phase1aSessionInitiation # kg # p # rest) = Ok r"
    and "kg = SinglePartyKeygenPhase \<or> kg = PlaintextKeygenPhase"
    and "RunsAt p = RunsAtInline" "EntryState p = StateGossip" "ConsumedMessageTypes p \<noteq> []"
    and "\<And>c. fst (Enter p c) = Ok ()"
    and "BeginSession sid coh r = (Ok (), r1)"
  shows "\<exists>r2. HandleMessage now sid ''session.accept'' from payload r1 = (Ok True, r2) \<and>
    CurrentState r2 sid = (StateGossip, True) \<and>
    (\<exists>t. map_of (sessions r2) sid = Some t \<and> trk_current t = Some p \<and> trk_entered t)"
proof -
  let ?ps = "Phase1aSessionInitiation # kg # p # rest"
  have r: "phases r = ?ps" "initialState r = StateInviting" "lineageStore r = None" "sessions r = []"
    "byEntryState r = map (\<lambda>p. (EntryState p, p)) (inlines ?ps)"
    using assms(1) by (simp_all add: Compose_Ok_iff) (simp add: Phase1aSessionInitiation_def)
  have kg: "RunsAt kg = RunsAtInline" "EntryState kg = StateLocked" "ExitState kg = StateGossip" "Enter kg = skip_hook"
    "Exit kg = skip_hook" "ConsumedMessageTypes kg = []" "CheckComplete kg c" for c
    using assms(2) by (auto simp: phase_defs)
  have be: "map_of (byEntryState r) StateInviting = Some Phase1aSessionInitiation"
    "map_of (byEntryState r) StateLocked = Some kg" "map_of (byEntryState r) StateGossip = Some p"
    using r(5) kg(1,2) assms(3,4) by (simp_all add: Phase1aSessionInitiation_def state_defs)
  have p1: "Enter Phase1aSessionInitiation = skip_hook" "Exit Phase1aSessionInitiation = skip_hook"
    "OnMessage Phase1aSessionInitiation = skip_message" "phaseConsumes Phase1aSessionInitiation ''session.accept''"
    "CheckComplete Phase1aSessionInitiation c" "ExitState Phase1aSessionInitiation = StateLocked" for c
    by (simp_all add: Phase1aSessionInitiation_def phaseConsumes_def)
  obtain t where t: "map_of (sessions r1) sid = Some t" "trk_current t = Some Phase1aSessionInitiation"
    and r1: "byEntryState r1 = byEntryState r" "phases r1 = phases r" "lineageStore r1 = None"
    using begin_idle [OF assms(7) be(1) [folded r(2)] p1(1)] r(3) by auto
  obtain t' r' where m: "HandleMessage now sid ''session.accept'' from payload r1 = advance now sid t' r'"
    "trk_current t' = Some Phase1aSessionInitiation" "byEntryState r' = byEntryState r" "phases r' = phases r" "lineageStore r' = None"
    using message_idle [OF t p1(3-5)] r1 by metis
  have ne: "StateLocked \<noteq> StateNone" "StateGossip \<noteq> StateNone" by (simp_all add: state_defs)
  have "\<exists>r2 t2. advance_loop (Suc (Suc (length rest + 2))) now sid t' r' = (Ok True, r2) \<and> map_of (sessions r2) sid = Some t2 \<and>
      trk_state t2 = ExitState kg \<and> trk_current t2 = Some p \<and> trk_entered t2"
    by (rule advance_two_hops [OF m(2) p1(2) m(5)])
       (simp_all only: m(3) p1(6) kg be ne not_False_eq_True assms(5,6))
  moreover have "length (phases r') + 1 = Suc (Suc (length rest + 2))" using m(4) r(1) by simp
  ultimately obtain r2 t2 where "advance now sid t' r' = (Ok True, r2)" "map_of (sessions r2) sid = Some t2"
    "trk_state t2 = ExitState kg" "trk_current t2 = Some p" "trk_entered t2"
    unfolding advance_def by metis
  then show ?thesis using m(1) kg(3) by (auto simp: CurrentState_def)
qed

lemma keygen_cascade_witness:
  "\<exists>r r1 r2. Compose [Phase1aSessionInitiation, SinglePartyKeygenPhase, sample_scorer] = Ok r \<and>
     BeginSession ''s'' [] r = (Ok (), r1) \<and> HandleMessage 0 ''s'' ''session.accept'' ''x'' [] r1 = (Ok True, r2) \<and>
     CurrentState r2 ''s'' = (StateGossip, True)"
proof -
  have min: "is_min_name ''depth_min''" "min_base ''depth_min'' = ''depth''" by (simp_all add: is_min_name_def min_base_def)
  have "pipeline_ok [Phase1aSessionInitiation, SinglePartyKeygenPhase, sample_scorer]"
    by (auto simp: pipeline_ok_def less_Suc_eq phase_ok_def phase_defs sample_scorer_def state_defs key_defs
        latest_provider_def requirement_met_def constraint_met_def min depth_30_is_enough)
  then obtain r where r: "Compose [Phase1aSessionInitiation, SinglePartyKeygenPhase, sample_scorer] = Ok r"
    using Compose_accepts by (metis is_ok_iff)
  have "fst (BeginSession ''s'' [] r) = Ok ()"
    by (rule begin_idle_ok [where q = Phase1aSessionInitiation])
       (use r in \<open>simp_all add: Compose_Ok_iff\<close>, simp_all add: Phase1aSessionInitiation_def)
  then have b: "BeginSession ''s'' [] r = (Ok (), snd (BeginSession ''s'' [] r))" by (metis prod.collapse)
  from keygen_cascade [OF r _ _ _ _ _ b, of 0 "''x''" "[]"] show ?thesis
    using r b by (auto simp: sample_scorer_def skip_hook_def)
qed

end
