(* ===== verification/Onion.thy ===== *)
theory Onion
  imports Go_Crypto
begin

text \<open>
  \<^verbatim>\<open>pkg/ares/onion\<close>: the slot permutation (\<^verbatim>\<open>permutation.go\<close>), the hybrid encryption of one layer
  (\<^verbatim>\<open>ecies.go\<close>), and the building and peeling of onions (\<^verbatim>\<open>onion.go\<close>).

  The rejection sampling of \<^verbatim>\<open>intn\<close> is a loop over a hash stream that need not end, so it is a
  partial function: \<open>None\<close> is a run that never returns. The curve, the key derivation and the
  authenticated cipher are a record of functions (\<open>ecies_prims\<close>), arguments of what uses them;
  what the code relies on in them is \<open>prims_ok\<close>. The random bytes of an encryption are arguments.
\<close>

section \<open>The seeded permutation\<close>

record seed_stream =
  ss_seed :: bytes
  ss_counter :: "64 word"
  ss_buf :: bytes
  ss_off :: nat

definition stream_next :: "seed_stream \<Rightarrow> byte \<times> seed_stream" where
  "stream_next s =
     (let s1 = (if ss_off s \<ge> length (ss_buf s)
                then s\<lparr> ss_counter := ss_counter s + 1, ss_buf := sha256 (ss_seed s @ put_u64 (ss_counter s)), ss_off := 0 \<rparr>
                else s)
      in (ss_buf s1 ! ss_off s1, s1\<lparr> ss_off := ss_off s1 + 1 \<rparr>))"

definition stream_u32 :: "seed_stream \<Rightarrow> 32 word \<times> seed_stream" where
  "stream_u32 s =
     (let (a, s1) = stream_next s; (b, s2) = stream_next s1; (c, s3) = stream_next s2; (d, s4) = stream_next s3
      in (get_u32 a b c d, s4))"

definition intn_limit :: "nat \<Rightarrow> 32 word" where
  "intn_limit m = (- 1 div of_nat m) * of_nat m"

partial_function (option) intn :: "nat \<Rightarrow> seed_stream \<Rightarrow> (string, nat \<times> seed_stream) outcome option" where
  "intn m s =
     (if m \<le> 1 then Some (Ok (0, s))
      else if (of_nat m :: 32 word) = 0 then Some (Panic ''runtime error: integer divide by zero'')
      else (let (v, s') = stream_u32 s in
            if v < intn_limit m then Some (Ok (unat (v mod of_nat m), s')) else intn m s'))"

text \<open>The loop from the high end: \<open>i\<close> counts down to 1.\<close>

fun fisher_yates :: "nat \<Rightarrow> nat list \<Rightarrow> seed_stream \<Rightarrow> (string, nat list) outcome option" where
  "fisher_yates 0 perm s = Some (Ok perm)"
| "fisher_yates (Suc i) perm s =
     (case intn (Suc i + 1) s of
        None \<Rightarrow> None
      | Some (Err e) \<Rightarrow> Some (Err e)
      | Some (Panic m) \<Rightarrow> Some (Panic m)
      | Some (Ok (j, s')) \<Rightarrow>
          if Suc i < length perm \<and> j < length perm
          then fisher_yates i (perm[Suc i := perm ! j, j := perm ! Suc i]) s'
          else Some (Panic ''runtime error: index out of range''))"

definition SlotPermutation :: "bytes \<Rightarrow> int \<Rightarrow> (string, nat list) outcome option" where
  "SlotPermutation seed n =
     (if n < 0 then Some (Panic ''runtime error: makeslice: len out of range'')
      else fisher_yates (nat n - 1) [0..<nat n] \<lparr> ss_seed = seed, ss_counter = 0, ss_buf = [], ss_off = 0 \<rparr>)"

section \<open>One layer\<close>

text \<open>
  X25519 from \<^verbatim>\<open>crypto/ecdh\<close> (a public key that is not accepted is \<open>\<not> pr_pubOK\<close>, an all-zero shared
  secret an error), HKDF-SHA256 from \<^verbatim>\<open>golang.org/x/crypto\<close>, AES-256-GCM from \<^verbatim>\<open>crypto/cipher\<close>.
\<close>

record ecies_prims =
  pr_pubOK :: "bytes \<Rightarrow> bool"
  pr_privOK :: "bytes \<Rightarrow> bool"
  pr_pub :: "bytes \<Rightarrow> bytes"
  pr_ecdh :: "bytes \<Rightarrow> bytes \<Rightarrow> bytes option"
  pr_hkdf :: "bytes \<Rightarrow> bytes"
  pr_seal :: "bytes \<Rightarrow> bytes \<Rightarrow> bytes \<Rightarrow> bytes"
  pr_open :: "bytes \<Rightarrow> bytes \<Rightarrow> bytes \<Rightarrow> bytes option"

definition x25519KeyLen :: nat where "x25519KeyLen = 32"
definition gcmNonceLen :: nat where "gcmNonceLen = 12"

datatype onion_err =
    BadRecipientPub | BadRecipientPriv | BadEphemeralPub | EcdhFailed | EnvelopeTooShort | AeadOpen
  | WrapLayer nat onion_err | PeelItem nat onion_err | SelfIndexRange int nat | SelfMemoMissing

text \<open>The ephemeral private key and the nonce drawn for one encryption.\<close>

type_synonym enc_coins = "bytes \<times> bytes"

definition deriveKey :: "ecies_prims \<Rightarrow> bytes \<Rightarrow> bytes" where
  "deriveKey P shared = pr_hkdf P shared"

definition ECIESEncrypt :: "ecies_prims \<Rightarrow> enc_coins \<Rightarrow> bytes \<Rightarrow> bytes \<Rightarrow> (onion_err, bytes) outcome" where
  "ECIESEncrypt P coins recipientPub plaintext =
     (let (eph, nonce) = coins in
      if \<not> pr_pubOK P recipientPub then Err BadRecipientPub
      else case pr_ecdh P eph recipientPub of
             None \<Rightarrow> Err EcdhFailed
           | Some shared \<Rightarrow> Ok (pr_pub P eph @ nonce @ pr_seal P (deriveKey P shared) nonce plaintext))"

definition ECIESDecrypt :: "ecies_prims \<Rightarrow> bytes \<Rightarrow> bytes \<Rightarrow> (onion_err, bytes) outcome" where
  "ECIESDecrypt P recipientPriv envelope =
     (if length envelope < x25519KeyLen + gcmNonceLen then Err EnvelopeTooShort
      else if \<not> pr_privOK P recipientPriv then Err BadRecipientPriv
      else
        (let ephPub = take x25519KeyLen envelope;
             nonce = take gcmNonceLen (drop x25519KeyLen envelope);
             ct = drop (x25519KeyLen + gcmNonceLen) envelope
         in if \<not> pr_pubOK P ephPub then Err BadEphemeralPub
            else case pr_ecdh P recipientPriv ephPub of
                   None \<Rightarrow> Err EcdhFailed
                 | Some shared \<Rightarrow>
                     (case pr_open P (deriveKey P shared) nonce ct of None \<Rightarrow> Err AeadOpen | Some pt \<Rightarrow> Ok pt)))"

section \<open>Onions\<close>

text \<open>
  The loop of \<^verbatim>\<open>BuildOnion\<close> from layer \<open>i - 1\<close> down to 0: the data so far and the memo of the own layer.
\<close>

fun build_layers ::
  "ecies_prims \<Rightarrow> (nat \<Rightarrow> enc_coins) \<Rightarrow> bytes list \<Rightarrow> nat \<Rightarrow> nat \<Rightarrow> bytes \<Rightarrow> bytes option
    \<Rightarrow> (onion_err, bytes \<times> bytes option) outcome" where
  "build_layers P coins pubs selfIndex 0 data memo = Ok (data, memo)"
| "build_layers P coins pubs selfIndex (Suc i) data memo =
     (case ECIESEncrypt P (coins i) (pubs ! i) data of
        Err e \<Rightarrow> Err (WrapLayer i e)
      | Panic m \<Rightarrow> Panic m
      | Ok enc \<Rightarrow> build_layers P coins pubs selfIndex i enc (if i = selfIndex then Some enc else memo))"

definition BuildOnion ::
  "ecies_prims \<Rightarrow> (nat \<Rightarrow> enc_coins) \<Rightarrow> bytes \<Rightarrow> bytes list \<Rightarrow> int \<Rightarrow> (onion_err, bytes \<times> bytes option) outcome" where
  "BuildOnion P coins payload peelOrderPubs selfIndex =
     (if selfIndex < 0 \<or> selfIndex \<ge> int (length peelOrderPubs)
      then Err (SelfIndexRange selfIndex (length peelOrderPubs))
      else build_layers P coins peelOrderPubs (nat selfIndex) (length peelOrderPubs) payload None)"

text \<open>The loop of \<^verbatim>\<open>PeelBatch\<close> from item \<open>i\<close> on; a nil memo is \<open>None\<close>.\<close>

fun peel_items ::
  "ecies_prims \<Rightarrow> bytes \<Rightarrow> bytes option \<Rightarrow> nat \<Rightarrow> bytes list \<Rightarrow> int \<Rightarrow> (onion_err, bytes list \<times> int) outcome" where
  "peel_items P priv memo i [] own = Ok ([], own)"
| "peel_items P priv memo i (x # xs) own =
     (let own' = (if memo = Some x then int i else own) in
      case ECIESDecrypt P priv x of
        Err e \<Rightarrow> Err (PeelItem i e)
      | Panic m \<Rightarrow> Panic m
      | Ok inner \<Rightarrow>
          (case peel_items P priv memo (Suc i) xs own' of
             Ok (peeled, o') \<Rightarrow> Ok (inner # peeled, o') | Err e \<Rightarrow> Err e | Panic m \<Rightarrow> Panic m))"

definition PeelBatch :: "ecies_prims \<Rightarrow> bytes \<Rightarrow> bytes option \<Rightarrow> bytes list \<Rightarrow> (onion_err, bytes list \<times> int) outcome" where
  "PeelBatch P priv selfMemo onions =
     (case peel_items P priv selfMemo 0 onions (- 1) of
        Ok (peeled, ownIndex) \<Rightarrow>
          if selfMemo \<noteq> None \<and> ownIndex < 0 then Err SelfMemoMissing else Ok (peeled, ownIndex)
      | e \<Rightarrow> e)"

section \<open>The hash stream as a sequence of words\<close>

text \<open>The word number \<open>i\<close> of the stream of a seed: eight words to a block.\<close>

definition stream_block :: "bytes \<Rightarrow> nat \<Rightarrow> bytes" where
  "stream_block seed b = sha256 (seed @ put_u64 (of_nat b))"

definition stream_word :: "bytes \<Rightarrow> nat \<Rightarrow> 32 word" where
  "stream_word seed i =
     (let blk = stream_block seed (i div 8); k = 4 * (i mod 8)
      in get_u32 (blk ! k) (blk ! (k + 1)) (blk ! (k + 2)) (blk ! (k + 3)))"

text \<open>A state of the stream at a word boundary.\<close>

definition stream_at :: "bytes \<Rightarrow> nat \<Rightarrow> seed_stream \<Rightarrow> bool" where
  "stream_at seed i s \<longleftrightarrow> ss_seed s = seed \<and>
     (if i mod 8 = 0 then ss_off s \<ge> length (ss_buf s) \<and> ss_counter s = of_nat (i div 8)
      else ss_buf s = stream_block seed (i div 8) \<and> ss_off s = 4 * (i mod 8) \<and> ss_counter s = of_nat (i div 8) + 1)"

lemma length_stream_block [simp]: "length (stream_block seed b) = 32"
  by (simp add: stream_block_def)

lemma stream_next_in_block:
  assumes "ss_buf s = stream_block seed b" "ss_off s < 32"
  shows "stream_next s = (stream_block seed b ! ss_off s, s\<lparr> ss_off := ss_off s + 1 \<rparr>)"
  using assms by (simp add: stream_next_def)

lemma stream_u32_in_block:
  assumes "ss_buf s = stream_block seed b" "ss_off s + 4 \<le> 32"
  shows "stream_u32 s = (get_u32 (stream_block seed b ! ss_off s) (stream_block seed b ! (ss_off s + 1))
      (stream_block seed b ! (ss_off s + 2)) (stream_block seed b ! (ss_off s + 3)), s\<lparr> ss_off := ss_off s + 4 \<rparr>)"
  using assms by (simp add: stream_u32_def stream_next_in_block [where seed = seed and b = b] numeral_3_eq_3)

lemma stream_u32_at:
  assumes "stream_at seed i s"
  shows "\<exists>s'. stream_u32 s = (stream_word seed i, s') \<and> stream_at seed (Suc i) s'"
proof -
  let ?b = "i div 8" and ?k = "i mod 8"
  define s0 where "s0 = (if ?k = 0 then s\<lparr> ss_counter := ss_counter s + 1, ss_buf := stream_block seed ?b, ss_off := 0 \<rparr> else s)"
  have s0: "ss_seed s0 = seed" "ss_buf s0 = stream_block seed ?b" "ss_off s0 = 4 * ?k" "ss_counter s0 = of_nat ?b + 1"
    using assms by (simp_all add: s0_def stream_at_def)
  have "?k < 8" by simp
  then have k: "4 * ?k + 4 \<le> 32" by linarith
  have "stream_next s = stream_next s0"
    using assms by (simp add: s0_def stream_next_def stream_at_def stream_block_def Let_def)
  then have "stream_u32 s = stream_u32 s0" by (simp add: stream_u32_def)
  also have "\<dots> = (stream_word seed i, s0\<lparr> ss_off := 4 * ?k + 4 \<rparr>)"
    using stream_u32_in_block [OF s0(2)] s0(3) k by (simp add: stream_word_def Let_def)
  finally have "stream_u32 s = (stream_word seed i, s0\<lparr> ss_off := 4 * ?k + 4 \<rparr>)" .
  moreover have "stream_at seed (Suc i) (s0\<lparr> ss_off := 4 * ?k + 4 \<rparr>)"
  proof (cases "Suc ?k = 8")
    case True
    then have "Suc i mod 8 = 0" "Suc i div 8 = Suc ?b" by (simp_all add: mod_Suc div_Suc)
    then show ?thesis using s0 True by (simp add: stream_at_def)
  next
    case False
    then have "Suc i mod 8 = Suc ?k" "Suc i div 8 = ?b" by (simp_all add: mod_Suc div_Suc)
    then show ?thesis using s0 by (simp add: stream_at_def)
  qed
  ultimately show ?thesis by blast
qed

text \<open>The 64-bit counter wraps around, so every word comes again.\<close>

lemma stream_word_periodic: "stream_word seed (i + 8 * 2 ^ 64 * c) = stream_word seed i"
proof -
  have "i + 8 * 2 ^ 64 * c = i + 8 * (2 ^ 64 * c)" by simp
  then have d: "(i + 8 * 2 ^ 64 * c) div 8 = i div 8 + 2 ^ 64 * c" "(i + 8 * 2 ^ 64 * c) mod 8 = i mod 8"
    by (simp_all only: div_mult_self2 mod_mult_self2)
  have "(of_nat (i div 8 + 2 ^ 64 * c) :: 64 word) = of_nat (i div 8)"
    by (simp only: word_of_nat_eq_iff take_bit_eq_mod) simp
  then show ?thesis by (simp only: stream_word_def d stream_block_def)
qed

section \<open>Drawing a number\<close>

lemma unat_of_nat_32: "m < 2 ^ 32 \<Longrightarrow> unat (of_nat m :: 32 word) = m"
  by (simp add: unat_of_nat take_bit_nat_eq_self)

lemma intn_limit_ge:
  assumes "0 < m" "m < 2 ^ 32"
  shows "2 ^ 32 - m \<le> unat (intn_limit m)"
proof -
  let ?q = "(2 ^ 32 - 1) div m :: nat"
  have "unat (- 1 :: 32 word) = 2 ^ 32 - 1" by (simp add: unsigned_minus_1_eq_mask mask_eq_exp_minus_1)
  then have q: "unat (- 1 div of_nat m :: 32 word) = ?q" using unat_of_nat_32 [OF assms(2)] by (simp add: unat_div)
  have le: "?q * m \<le> 2 ^ 32 - 1" by (metis div_times_less_eq_dividend)
  then have lt: "?q * m < 2 ^ 32" by (rule le_less_trans) simp
  have "unat (intn_limit m) = ?q * m mod 2 ^ 32"
    unfolding intn_limit_def unat_word_ariths(2) q unat_of_nat_32 [OF assms(2)] by simp
  also have "\<dots> = ?q * m" using lt by (rule mod_less)
  finally have u: "unat (intn_limit m) = ?q * m" .
  have "(2 ^ 32 - 1) mod m < m" using assms(1) by simp
  moreover have "?q * m + (2 ^ 32 - 1) mod m = 2 ^ 32 - 1" by (rule div_mult_mod_eq)
  ultimately show ?thesis unfolding u by linarith
qed

lemma mod_draw: "0 < m \<Longrightarrow> m < 2 ^ 32 \<Longrightarrow> unat (v mod of_nat m :: 32 word) < m"
  by (simp add: unat_mod unat_of_nat_32)

lemma of_nat_32_nonzero: "0 < m \<Longrightarrow> m < 2 ^ 32 \<Longrightarrow> (of_nat m :: 32 word) \<noteq> 0"
  using unat_of_nat_32 [of m] by (metis neq0_conv unat_0)

text \<open>Whatever the stream: a draw that returns is in range, and it never panics.\<close>

lemma intn_range:
  assumes "intn m s = Some res" "0 < m" "m < 2 ^ 32"
  shows "\<exists>j s'. res = Ok (j, s') \<and> j < m"
proof -
  have "0 < m \<and> m < 2 ^ 32 \<longrightarrow> (\<exists>j s'. res = Ok (j, s') \<and> j < m)"
    by (rule intn.raw_induct [OF _ assms(1)])
       (auto simp: of_nat_32_nonzero mod_draw split: if_splits prod.splits)
  then show ?thesis using assms by blast
qed

text \<open>A draw returns if some word of the stream is below the limit, and only then.\<close>

lemma intn_returns:
  assumes "0 < m" "m < 2 ^ 32" and "1 < m \<Longrightarrow> stream_word seed k < intn_limit m" and "stream_at seed i s"
  shows "\<exists>j s' i'. intn m s = Some (Ok (j, s')) \<and> j < m \<and> stream_at seed i' s'"
proof -
  define k' where "k' = k + 8 * 2 ^ 64 * i"
  have hit: "1 < m \<Longrightarrow> stream_word seed k' < intn_limit m"
    using assms(3) unfolding k'_def stream_word_periodic .
  have "i \<le> k'" by (simp add: k'_def)
  then show ?thesis
    using assms(4)
  proof (induction "k' - i" arbitrary: i s rule: less_induct)
    case less
    show ?case
    proof (cases "m \<le> 1")
      case True
      then show ?thesis using assms(1) less.prems(2) by (subst intn.simps) auto
    next
      case False
      obtain s' where s': "stream_u32 s = (stream_word seed i, s')" "stream_at seed (Suc i) s'"
        using stream_u32_at [OF less.prems(2)] by blast
      show ?thesis
      proof (cases "stream_word seed i < intn_limit m")
        case True
        then have "intn m s = Some (Ok (unat (stream_word seed i mod of_nat m), s'))"
          using False s'(1) of_nat_32_nonzero [OF assms(1,2)] by (subst intn.simps) simp
        then show ?thesis using s'(2) mod_draw [OF assms(1,2)] by blast
      next
        case miss: False
        then have "i < k'" using hit False less.prems(1) by (cases "i = k'") auto
        then have "\<exists>j s'' i'. intn m s' = Some (Ok (j, s'')) \<and> j < m \<and> stream_at seed i' s''"
          using less.hyps [of "Suc i" s'] s'(2) by simp
        moreover have "intn m s = intn m s'"
          using False miss s'(1) of_nat_32_nonzero [OF assms(1,2)] by (subst intn.simps) simp
        ultimately show ?thesis by simp
      qed
    qed
  qed
qed

lemma intn_hits:
  assumes "intn m s = Some res" "0 < m" "m < 2 ^ 32" "stream_at seed i s"
  shows "\<exists>j s' i'. res = Ok (j, s') \<and> stream_at seed i' s' \<and> (1 < m \<longrightarrow> (\<exists>k. stream_word seed k < intn_limit m))"
proof -
  have "0 < m \<and> m < 2 ^ 32 \<longrightarrow> (\<forall>i. stream_at seed i s \<longrightarrow>
      (\<exists>j s' i'. res = Ok (j, s') \<and> stream_at seed i' s' \<and> (1 < m \<longrightarrow> (\<exists>k. stream_word seed k < intn_limit m))))"
  proof (rule intn.raw_induct [OF _ assms(1)], intro impI allI)
    fix f :: "nat \<Rightarrow> seed_stream \<Rightarrow> (string, nat \<times> seed_stream) outcome option" and m s res i
    assume IH: "\<And>m s res. f m s = Some res \<Longrightarrow> 0 < m \<and> m < 2 ^ 32 \<longrightarrow> (\<forall>i. stream_at seed i s \<longrightarrow>
        (\<exists>j s' i'. res = Ok (j, s') \<and> stream_at seed i' s' \<and> (1 < m \<longrightarrow> (\<exists>k. stream_word seed k < intn_limit m))))"
      and run: "(if m \<le> 1 then Some (Ok (0, s))
        else if (of_nat m :: 32 word) = 0 then Some (Panic ''runtime error: integer divide by zero'')
        else (let (v, s') = stream_u32 s in if v < intn_limit m then Some (Ok (unat (v mod of_nat m), s')) else f m s')) = Some res"
      and m: "0 < m \<and> m < 2 ^ 32" and at: "stream_at seed i s"
    obtain s' where s': "stream_u32 s = (stream_word seed i, s')" "stream_at seed (Suc i) s'" using stream_u32_at [OF at] by blast
    show "\<exists>j s' i'. res = Ok (j, s') \<and> stream_at seed i' s' \<and> (1 < m \<longrightarrow> (\<exists>k. stream_word seed k < intn_limit m))"
    proof (cases "m \<le> 1 \<or> stream_word seed i < intn_limit m")
      case True
      then show ?thesis using run at s' m of_nat_32_nonzero [of m] by (auto split: if_splits)
    next
      case False
      then show ?thesis using IH [of m s' res] run s' m of_nat_32_nonzero [of m] by (auto split: if_splits)
    qed
  qed
  then show ?thesis using assms(2-4) by blast
qed

section \<open>The shuffle\<close>

lemma fisher_yates_perm:
  assumes "fisher_yates i perm s = Some res" "i < length perm \<or> i = 0" "length perm < 2 ^ 32"
  shows "\<exists>p. res = Ok p \<and> mset p = mset perm"
  using assms
proof (induction i arbitrary: perm s)
  case (Suc i)
  obtain r where r: "intn (Suc i + 1) s = Some r" using Suc.prems(1) by (auto split: option.splits)
  then obtain j s' where j: "r = Ok (j, s')" "j < Suc i + 1" using intn_range [OF r] Suc.prems(2,3) by auto
  then have lt: "j < length perm" "Suc i < length perm" using Suc.prems(2) by auto
  then have "fisher_yates i (perm[Suc i := perm ! j, j := perm ! Suc i]) s' = Some res"
    using Suc.prems(1) r j(1) by simp
  from Suc.IH [OF this] show ?case using lt Suc.prems(3) mset_swap [of j perm "Suc i"] by simp
qed auto

text \<open>The draws that do not reject for ever: some word of the stream is below the limit.\<close>

definition drawable :: "bytes \<Rightarrow> nat \<Rightarrow> bool" where
  "drawable seed m \<longleftrightarrow> (\<exists>k. stream_word seed k < intn_limit m)"

lemma fisher_yates_returns:
  assumes "stream_at seed w s" "i < length perm \<or> i = 0" "length perm < 2 ^ 32"
  shows "fisher_yates i perm s \<noteq> None \<longleftrightarrow> (\<forall>m. 2 \<le> m \<and> m \<le> Suc i \<longrightarrow> drawable seed m)"
  using assms
proof (induction i arbitrary: perm s w)
  case (Suc i)
  have split: "(\<forall>m. 2 \<le> m \<and> m \<le> Suc (Suc i) \<longrightarrow> drawable seed m) \<longleftrightarrow> drawable seed (Suc (Suc i)) \<and> (\<forall>m. 2 \<le> m \<and> m \<le> Suc i \<longrightarrow> drawable seed m)"
    by (metis Suc_le_mono le_Suc_eq le_refl numeral_2_eq_2 zero_le)
  show ?case
  proof (cases "intn (Suc i + 1) s")
    case None
    have "\<not> drawable seed (Suc (Suc i))"
    proof
      assume "drawable seed (Suc (Suc i))"
      then obtain k where "stream_word seed k < intn_limit (Suc i + 1)" by (auto simp: drawable_def)
      then show False using intn_returns [of "Suc i + 1" seed k w s] None Suc.prems by auto
    qed
    then show ?thesis using None split by simp
  next
    case (Some res)
    obtain j s' w' where j: "res = Ok (j, s')" "stream_at seed w' s'" "drawable seed (Suc (Suc i))"
      using intn_hits [OF Some _ _ Suc.prems(1)] Suc.prems(2,3) by (auto simp: drawable_def)
    have lt: "j < Suc i + 1" using intn_range [OF Some] j(1) Suc.prems(2,3) by auto
    have "fisher_yates i (perm[Suc i := perm ! j, j := perm ! Suc i]) s' \<noteq> None \<longleftrightarrow> (\<forall>m. 2 \<le> m \<and> m \<le> Suc i \<longrightarrow> drawable seed m)"
      by (rule Suc.IH [OF j(2)]) (use Suc.prems(2,3) in auto)
    then show ?thesis unfolding split using Some j(1,3) lt Suc.prems(2) by simp
  qed
qed auto

lemma SlotPermutation_perm:
  assumes "0 \<le> n" "n < 2 ^ 32" and "SlotPermutation seed n = Some res"
  shows "\<exists>perm. res = Ok perm \<and> mset perm = mset [0..<nat n]"
proof -
  have len: "nat n < 2 ^ 32" using assms by (simp add: nat_less_iff)
  have i: "nat n - 1 < length [0..<nat n] \<or> nat n - 1 = 0" by auto
  show ?thesis using fisher_yates_perm [OF _ i] len assms by (simp add: SlotPermutation_def)
qed

lemma SlotPermutation_returns:
  assumes "0 \<le> n" "n < 2 ^ 32"
  shows "SlotPermutation seed n \<noteq> None \<longleftrightarrow> (\<forall>m. 2 \<le> m \<and> m \<le> nat n \<longrightarrow> drawable seed m)"
proof -
  let ?s = "\<lparr> ss_seed = seed, ss_counter = 0, ss_buf = [], ss_off = 0 \<rparr>"
  have at: "stream_at seed 0 ?s" by (simp add: stream_at_def)
  have i: "nat n - 1 < length [0..<nat n] \<or> nat n - 1 = 0" by auto
  have "fisher_yates (nat n - 1) [0..<nat n] ?s \<noteq> None \<longleftrightarrow> (\<forall>m. 2 \<le> m \<and> m \<le> Suc (nat n - 1) \<longrightarrow> drawable seed m)"
    by (rule fisher_yates_returns [OF at i]) (use assms in \<open>simp add: nat_less_iff\<close>)
  moreover have "2 \<le> m \<Longrightarrow> m \<le> Suc (nat n - 1) \<longleftrightarrow> m \<le> nat n" for m by linarith
  ultimately show ?thesis using assms(1) by (auto simp: SlotPermutation_def)
qed

lemma small_word_drawable:
  assumes "int (unat (stream_word seed k)) < 2 ^ 32 - n" "n < 2 ^ 32" "0 < m" "m \<le> nat n" shows "drawable seed m"
proof -
  have le: "int m \<le> n" using assms(3,4) by linarith
  then have "int m < int (2 ^ 32)" using assms(2) by simp
  then have m: "int m \<le> n" "m < 2 ^ 32" using le by (simp_all only: of_nat_less_iff)
  have "int x < 2 ^ 32 - n \<Longrightarrow> x < 2 ^ 32 - m" for x using le by simp
  then have "unat (stream_word seed k) < 2 ^ 32 - m" using assms(1) by blast
  then show ?thesis using intn_limit_ge [OF assms(3) m(2)] unfolding drawable_def word_less_nat_alt by (meson less_le_trans)
qed

text \<open>
  Claim C21. \<^verbatim>\<open>SlotPermutation\<close> deals out every slot exactly once: for every seed and up to \<open>2\<^sup>3\<^sup>2 - 1\<close> slots it
  never panics and what it returns is a permutation of the slot numbers. It returns (the
  rejection sampling ends at every draw) exactly when for every \<open>m\<close> from 2 to the number of slots some 32-bit word of the seed's hash stream, which repeats with
  its 64-bit counter, is below the limit that a draw from \<open>m\<close> accepts; and one word below \<open>2\<^sup>3\<^sup>2 - n\<close> is enough for all of them.
\<close>

theorem slot_permutation:
  assumes "0 \<le> n" "n < 2 ^ 32"
  shows "(\<forall>res. SlotPermutation seed n = Some res \<longrightarrow> (\<exists>perm. res = Ok perm \<and> mset perm = mset [0..<nat n])) \<and>
    (SlotPermutation seed n \<noteq> None \<longleftrightarrow> (\<forall>m. 2 \<le> m \<and> m \<le> nat n \<longrightarrow> (\<exists>k. stream_word seed k < intn_limit m))) \<and>
    ((\<exists>k. int (unat (stream_word seed k)) < 2 ^ 32 - n) \<longrightarrow> SlotPermutation seed n \<noteq> None)"
proof (intro conjI)
  show "\<forall>res. SlotPermutation seed n = Some res \<longrightarrow> (\<exists>perm. res = Ok perm \<and> mset perm = mset [0..<nat n])"
    using SlotPermutation_perm [OF assms] by blast
  show "SlotPermutation seed n \<noteq> None \<longleftrightarrow> (\<forall>m. 2 \<le> m \<and> m \<le> nat n \<longrightarrow> (\<exists>k. stream_word seed k < intn_limit m))"
    using SlotPermutation_returns [OF assms] unfolding drawable_def .
  show "(\<exists>k. int (unat (stream_word seed k)) < 2 ^ 32 - n) \<longrightarrow> SlotPermutation seed n \<noteq> None"
    unfolding SlotPermutation_returns [OF assms] by (intro impI allI; elim exE conjE) (rule small_word_drawable [OF _ assms(2)]; simp)
qed

text \<open>The first block of the stream of the empty seed, computed.\<close>

lemma sha256_zero_block: "take 4 (sha256 (replicate 8 0)) = [0xaf, 0x55, 0x70, 0xf5]"
  by code_simp

lemma stream_word_empty_seed: "stream_word [] 0 = 0xaf5570f5"
proof -
  have "put_u64 0 = replicate 8 0" by (simp add: put_u64_def put_u32_def numeral_eq_Suc)
  then have "take 4 (stream_block [] 0) = [0xaf, 0x55, 0x70, 0xf5]" using sha256_zero_block by (simp add: stream_block_def)
  then have "\<forall>j < 4. stream_block [] 0 ! j = [0xaf, 0x55, 0x70, 0xf5] ! j" by (metis nth_take)
  then have "stream_block [] 0 ! 0 = 0xaf" "stream_block [] 0 ! 1 = 0x55" "stream_block [] 0 ! 2 = 0x70" "stream_block [] 0 ! 3 = 0xf5"
    by (auto simp: numeral_eq_Suc)
  then have "stream_word [] 0 = get_u32 0xaf 0x55 0x70 0xf5" by (simp add: stream_word_def numeral_2_eq_2)
  also have "\<dots> = 0xaf5570f5" by (simp add: get_u32_def push_bit_eq_mult)
  finally show ?thesis .
qed

lemma slot_permutation_witness:
  "\<exists>perm. SlotPermutation [] 5 = Some (Ok perm) \<and> mset perm = mset [0..<5]"
proof -
  have "\<exists>k. int (unat (stream_word [] k)) < 2 ^ 32 - 5" by (rule exI [of _ 0]) (simp add: stream_word_empty_seed)
  then obtain res where "SlotPermutation [] 5 = Some res"
    using slot_permutation [of 5 "[]", THEN conjunct2, THEN conjunct2] by auto
  then show ?thesis using slot_permutation [of 5 "[]", THEN conjunct1] by auto
qed

section \<open>Onions: what is relied on\<close>

text \<open>
  What the code relies on in the primitives: a generated key has a valid 32-byte public key, two
  parties compute the same shared secret, and opening undoes sealing under the same key and nonce.
\<close>

definition prims_ok :: "ecies_prims \<Rightarrow> bool" where
  "prims_ok P \<longleftrightarrow>
     (\<forall>a. pr_privOK P a \<longrightarrow> pr_pubOK P (pr_pub P a) \<and> length (pr_pub P a) = x25519KeyLen) \<and>
     (\<forall>a b. pr_privOK P a \<and> pr_privOK P b \<longrightarrow> pr_ecdh P a (pr_pub P b) = pr_ecdh P b (pr_pub P a)) \<and>
     (\<forall>k n pt. length n = gcmNonceLen \<longrightarrow> pr_open P k n (pr_seal P k n pt) = Some pt)"

definition coins_ok :: "ecies_prims \<Rightarrow> enc_coins \<Rightarrow> bool" where
  "coins_ok P c \<longleftrightarrow> pr_privOK P (fst c) \<and> length (snd c) = gcmNonceLen"

lemma ecies_roundtrip:
  assumes "prims_ok P" "coins_ok P c" "pr_privOK P priv" "ECIESEncrypt P c (pr_pub P priv) pt = Ok ct"
  shows "ECIESDecrypt P priv ct = Ok pt"
proof -
  obtain eph nonce where c: "c = (eph, nonce)" by fastforce
  obtain shared where sh: "pr_ecdh P eph (pr_pub P priv) = Some shared"
    and ct: "ct = pr_pub P eph @ nonce @ pr_seal P (deriveKey P shared) nonce pt"
    using assms(4) c by (auto simp: ECIESEncrypt_def split: if_splits option.splits)
  have e: "pr_pubOK P (pr_pub P eph)" "length (pr_pub P eph) = x25519KeyLen" "length nonce = gcmNonceLen"
    "pr_ecdh P priv (pr_pub P eph) = Some shared"
    using assms(1-3) sh c by (auto simp: prims_ok_def coins_ok_def)
  then have "take x25519KeyLen ct = pr_pub P eph" "take gcmNonceLen (drop x25519KeyLen ct) = nonce"
    "drop (x25519KeyLen + gcmNonceLen) ct = pr_seal P (deriveKey P shared) nonce pt" "length ct \<ge> x25519KeyLen + gcmNonceLen"
    by (simp_all add: ct)
  then show ?thesis using e assms(1,3) by (simp add: ECIESDecrypt_def prims_ok_def)
qed

text \<open>The layers of an onion: \<open>ls ! k\<close> is what peeler \<open>k\<close> gets, and the last one is the payload.\<close>

definition layers_of :: "ecies_prims \<Rightarrow> bytes list \<Rightarrow> bytes list \<Rightarrow> bool" where
  "layers_of P privs ls \<longleftrightarrow> length ls = Suc (length privs) \<and>
     (\<forall>k < length privs. ECIESDecrypt P (privs ! k) (ls ! k) = Ok (ls ! Suc k))"

lemma build_layers_spec:
  assumes "prims_ok P" "\<forall>k < i. coins_ok P (coins k)" "\<forall>k < i. pr_privOK P (privs ! k)" "i \<le> length privs"
    and "build_layers P coins (map (pr_pub P) privs) self i data memo = Ok (out, memo')"
  shows "\<exists>ls. length ls = Suc i \<and> ls ! 0 = out \<and> ls ! i = data \<and>
    (\<forall>k < i. ECIESDecrypt P (privs ! k) (ls ! k) = Ok (ls ! Suc k)) \<and>
    memo' = (if self < i then Some (ls ! self) else memo)"
  using assms(2-5)
proof (induction i arbitrary: data memo)
  case 0
  then show ?case by (intro exI [of _ "[data]"]) auto
next
  case (Suc i)
  obtain enc where enc: "ECIESEncrypt P (coins i) (pr_pub P (privs ! i)) data = Ok enc"
    and rec: "build_layers P coins (map (pr_pub P) privs) self i enc (if i = self then Some enc else memo) = Ok (out, memo')"
    using Suc.prems(3,4) by (auto split: outcome.splits)
  then obtain ls where ls: "length ls = Suc i" "ls ! 0 = out" "ls ! i = enc"
    "\<forall>k < i. ECIESDecrypt P (privs ! k) (ls ! k) = Ok (ls ! Suc k)"
    "memo' = (if self < i then Some (ls ! self) else (if i = self then Some enc else memo))"
    using Suc.IH [OF _ _ _ rec] Suc.prems(1-3) by auto
  have "ECIESDecrypt P (privs ! i) enc = Ok data" using ecies_roundtrip [OF assms(1) _ _ enc] Suc.prems(1,2) by simp
  then show ?case
    using ls by (intro exI [of _ "ls @ [data]"]) (auto simp: nth_append less_Suc_eq)
qed

lemma BuildOnion_layers:
  assumes "prims_ok P" "\<forall>k < length privs. coins_ok P (coins k)" "\<forall>k < length privs. pr_privOK P (privs ! k)"
    and "BuildOnion P coins payload (map (pr_pub P) privs) self = Ok (out, memo)"
  shows "\<exists>ls. layers_of P privs ls \<and> ls ! 0 = out \<and> ls ! length privs = payload \<and>
    0 \<le> self \<and> self < int (length privs) \<and> memo = Some (ls ! nat self)"
proof -
  have self: "0 \<le> self" "self < int (length privs)" and
    b: "build_layers P coins (map (pr_pub P) privs) (nat self) (length privs) payload None = Ok (out, memo)"
    using assms(4) by (auto simp: BuildOnion_def split: if_splits)
  then show ?thesis
    using build_layers_spec [OF assms(1-3) order_refl b] by (auto simp: layers_of_def nat_less_iff)
qed

section \<open>Onions: peeling a batch\<close>

lemma peel_items_spec:
  assumes "\<forall>x \<in> set xs. ECIESDecrypt P priv x = Ok (f x)"
  shows "\<exists>o'. peel_items P priv memo i xs own = Ok (map f xs, o') \<and>
    (\<forall>m. memo = Some m \<and> m \<in> set xs \<longrightarrow> int i \<le> o' \<and> o' < int (i + length xs) \<and> xs ! (nat o' - i) = m) \<and>
    ((\<forall>m. memo = Some m \<longrightarrow> m \<notin> set xs) \<longrightarrow> o' = own)"
  using assms
proof (induction xs arbitrary: i own)
  case (Cons x xs)
  let ?own = "if memo = Some x then int i else own"
  obtain o' where o': "peel_items P priv memo (Suc i) xs ?own = Ok (map f xs, o')"
    "\<forall>m. memo = Some m \<and> m \<in> set xs \<longrightarrow> int (Suc i) \<le> o' \<and> o' < int (Suc i + length xs) \<and> xs ! (nat o' - Suc i) = m"
    "(\<forall>m. memo = Some m \<longrightarrow> m \<notin> set xs) \<longrightarrow> o' = ?own"
    using Cons.IH [of "Suc i" ?own] Cons.prems by auto
  have "int i \<le> o' \<and> o' < int (i + length (x # xs)) \<and> (x # xs) ! (nat o' - i) = m"
    if m: "memo = Some m" "m \<in> set (x # xs)" for m
  proof (cases "m \<in> set xs")
    case True
    then have b: "int (Suc i) \<le> o'" "o' < int (Suc i + length xs)" "xs ! (nat o' - Suc i) = m" using o'(2) m(1) by auto
    then have "nat o' - i = Suc (nat o' - Suc i)" by linarith
    then show ?thesis using b by simp
  qed (use m o'(3) in auto)
  then show ?case using o'(1,3) Cons.prems by auto
qed simp

lemma PeelBatch_spec:
  assumes "\<forall>x \<in> set batch. ECIESDecrypt P priv x = Ok (f x)" "m \<in> set batch"
  shows "\<exists>own. PeelBatch P priv (Some m) batch = Ok (map f batch, own) \<and> 0 \<le> own \<and> own < int (length batch) \<and> batch ! nat own = m"
  using peel_items_spec [OF assms(1), of "Some m" 0 "- 1"] assms(2) by (fastforce simp: PeelBatch_def)

text \<open>The peel chain: each peeler peels the batch it gets and forwards it in an order of its own.\<close>

fun peel_chain ::
  "ecies_prims \<Rightarrow> (bytes \<times> bytes option \<times> (bytes list \<Rightarrow> bytes list)) list \<Rightarrow> bytes list \<Rightarrow> (onion_err, bytes list) outcome" where
  "peel_chain P [] batch = Ok batch"
| "peel_chain P ((priv, memo, shuffle) # rest) batch =
     (case PeelBatch P priv memo batch of
        Ok (peeled, own) \<Rightarrow> peel_chain P rest (shuffle peeled) | Err e \<Rightarrow> Err e | Panic m \<Rightarrow> Panic m)"

lemma peel_chain_spec:
  assumes "\<forall>q < n. layers_of P privs (L q)" and "length privs = n" and "\<And>k xs. mset (shuf k xs) = mset xs"
    and "k \<le> n" and "mset batch = mset (map (\<lambda>q. L q ! k) [0..<n])"
  shows "\<exists>final. peel_chain P (map (\<lambda>j. (privs ! j, Some (L j ! j), shuf j)) [k..<n]) batch = Ok final \<and>
    mset final = mset (map (\<lambda>q. L q ! n) [0..<n])"
  using assms(4,5)
proof (induction "n - k" arbitrary: k batch)
  case 0
  then show ?case by simp
next
  case (Suc d)
  then have k: "k < n" by simp
  define f where "f x = (case ECIESDecrypt P (privs ! k) x of Ok y \<Rightarrow> y | _ \<Rightarrow> [])" for x
  have dec: "ECIESDecrypt P (privs ! k) (L q ! k) = Ok (L q ! Suc k)" if "q < n" for q
    using assms(1,2) that k by (simp add: layers_of_def)
  have set: "set batch = (\<lambda>q. L q ! k) ` {0..<n}" using mset_eq_setD [OF Suc.prems(2)] by simp
  then have all: "\<forall>x \<in> set batch. ECIESDecrypt P (privs ! k) x = Ok (f x)" using dec by (auto simp: f_def)
  obtain own where own: "PeelBatch P (privs ! k) (Some (L k ! k)) batch = Ok (map f batch, own)"
    using PeelBatch_spec [OF all, of "L k ! k"] set k by auto
  have "mset (map f batch) = image_mset f (mset (map (\<lambda>q. L q ! k) [0..<n]))" by (simp add: Suc.prems(2))
  also have "\<dots> = mset (map (\<lambda>q. f (L q ! k)) [0..<n])" by (simp add: image_mset.compositionality comp_def)
  also have "\<dots> = mset (map (\<lambda>q. L q ! Suc k) [0..<n])" using dec by (intro arg_cong [where f = mset] map_cong) (auto simp: f_def)
  finally have "mset (shuf k (map f batch)) = mset (map (\<lambda>q. L q ! Suc k) [0..<n])" by (simp add: assms(3))
  moreover have "d = n - Suc k" "Suc k \<le> n" using Suc.hyps(2) k by auto
  ultimately obtain final where
    "peel_chain P (map (\<lambda>j. (privs ! j, Some (L j ! j), shuf j)) [Suc k..<n]) (shuf k (map f batch)) = Ok final"
    "mset final = mset (map (\<lambda>q. L q ! n) [0..<n])" using Suc.hyps(1) [of "Suc k"] by blast
  then show ?case using own k by (simp add: upt_conv_Cons)
qed

text \<open>
  Claim C22. The onion shuffle delivers every payload: when each of \<open>n\<close> participants builds its onion for the
  public keys of all of them in peel order, and the participants peel the batch one after the
  other, each with its own memo and each forwarding the batch in any order it likes, then every
  peeler recognises its own item, nobody fails, and the final batch is a permutation of the
  payloads. This rests on the named laws of the primitives only.
\<close>

theorem onion_shuffle:
  assumes "prims_ok P" and "length privs = n" and "\<forall>k < n. pr_privOK P (privs ! k)"
    and "\<forall>q < n. \<forall>k < n. coins_ok P (coins q k)"
    and "\<forall>q < n. BuildOnion P (coins q) (payload q) (map (pr_pub P) privs) (int q) = Ok (onion q, memo q)"
    and "\<And>k xs. mset (shuf k xs) = mset xs"
  shows "\<exists>final. peel_chain P (map (\<lambda>k. (privs ! k, memo k, shuf k)) [0..<n]) (map onion [0..<n]) = Ok final \<and>
    mset final = mset (map payload [0..<n])"
proof -
  have "\<exists>ls. layers_of P privs ls \<and> ls ! 0 = onion q \<and> ls ! n = payload q \<and> memo q = Some (ls ! q)" if "q < n" for q
    using BuildOnion_layers [OF assms(1), of privs "coins q" "payload q" "int q" "onion q" "memo q"] assms(2-5) that by auto
  then have "\<forall>q. \<exists>ls. q < n \<longrightarrow> layers_of P privs ls \<and> ls ! 0 = onion q \<and> ls ! n = payload q \<and> memo q = Some (ls ! q)"
    by blast
  then obtain L where L: "\<And>q. q < n \<Longrightarrow> layers_of P privs (L q) \<and> L q ! 0 = onion q \<and> L q ! n = payload q \<and> memo q = Some (L q ! q)"
    by metis
  have start: "mset (map onion [0..<n]) = mset (map (\<lambda>q. L q ! 0) [0..<n])"
    using L by (intro arg_cong [where f = mset] map_cong) auto
  have "\<forall>q < n. layers_of P privs (L q)" using L by blast
  from peel_chain_spec [where shuf = shuf and k = 0, OF this assms(2) assms(6) _ start]
  obtain final where "peel_chain P (map (\<lambda>k. (privs ! k, Some (L k ! k), shuf k)) [0..<n]) (map onion [0..<n]) = Ok final"
    "mset final = mset (map (\<lambda>q. L q ! n) [0..<n])" by auto
  moreover have "map (\<lambda>k. (privs ! k, Some (L k ! k), shuf k)) [0..<n] = map (\<lambda>k. (privs ! k, memo k, shuf k)) [0..<n]"
    using L by simp
  moreover have "map (\<lambda>q. L q ! n) [0..<n] = map payload [0..<n]" using L by simp
  ultimately show ?thesis by metis
qed

text \<open>Primitives for the witness: the identity as key pair, constant secret, and sealing by a tag byte.\<close>

definition toy_prims :: ecies_prims where
  "toy_prims = \<lparr> pr_pubOK = (\<lambda>_. True), pr_privOK = (\<lambda>k. length k = 32), pr_pub = (\<lambda>k. k),
     pr_ecdh = (\<lambda>_ _. Some []), pr_hkdf = (\<lambda>x. x), pr_seal = (\<lambda>_ _ pt. 1 # pt),
     pr_open = (\<lambda>_ _ ct. case ct of [] \<Rightarrow> None | b # pt \<Rightarrow> if b = 1 then Some pt else None) \<rparr>"

lemma toy_prims_ok: "prims_ok toy_prims"
  by (simp add: prims_ok_def toy_prims_def x25519KeyLen_def)

lemma onion_shuffle_witness:
  "\<exists>onion memo final. peel_chain toy_prims (map (\<lambda>k. (replicate 2 (replicate 32 0) ! k, memo k, rev)) [0..<2]) (map onion [0..<2]) = Ok final \<and>
     mset final = mset (map (\<lambda>q. [of_nat q]) [0..<2])"
proof -
  let ?c = "\<lambda>q k. (replicate 32 (of_nat q), replicate 12 (of_nat k)) :: enc_coins"
  let ?b = "\<lambda>q. BuildOnion toy_prims (?c q) [of_nat q] (map (pr_pub toy_prims) (replicate 2 (replicate 32 0))) (int q)"
  have "\<exists>o' m. ?b q = Ok (o', m)" if "q < 2" for q
    using that by (simp add: BuildOnion_def ECIESEncrypt_def toy_prims_def numeral_2_eq_2)
  then obtain onion memo where b: "\<forall>q < 2. ?b q = Ok (onion q, memo q)" by metis
  have "\<exists>final. peel_chain toy_prims (map (\<lambda>k. (replicate 2 (replicate 32 0) ! k, memo k, rev)) [0..<2]) (map onion [0..<2]) = Ok final \<and>
      mset final = mset (map (\<lambda>q. [of_nat q]) [0..<2])"
    by (rule onion_shuffle [where coins = ?c, OF toy_prims_ok _ _ _ b])
       (simp_all add: toy_prims_def coins_ok_def gcmNonceLen_def)
  then show ?thesis by blast
qed

end
