(* ===== verification/Anon.thy ===== *)
theory Anon
  imports Default_Phases Onion
begin

text \<open>
  \<^verbatim>\<open>pkg/ares/phase/anon\<close>: the anonymous slot assignment. A participant's side (\<^verbatim>\<open>participant.go\<close>) draws
  its slot from the shared permutation, wraps it into an onion and signs it with an ephemeral key;
  the two phases of the orchestrator (\<^verbatim>\<open>shuffle.go\<close>, \<^verbatim>\<open>verify.go\<close>) count the peel rounds and assemble
  the list of slots.

  The JSON form of a slot entry and of the list is a record of functions (\<open>slot_codec\<close>), an
  argument of what uses it: the theorems hold for every decoder, and those about what honest
  participants send assume that decoding an encoded entry gives it back. The fresh keys of
  \<^verbatim>\<open>NewParticipant\<close> and the clock reading of \<^verbatim>\<open>Exit\<close> are arguments.
\<close>

section \<open>Keys, message types, buckets\<close>

definition CtxAnonParticipants :: string where "CtxAnonParticipants = ''anon.participants''"
definition CtxPeelRounds :: string where "CtxPeelRounds = ''anon.peel_rounds''"
definition CtxAssembledSlotList :: string where "CtxAssembledSlotList = ''anon.assembled_slot_list''"
definition RoleSlotSubmission :: string where "RoleSlotSubmission = ''slot-submission''"
definition MsgOnionBatch :: string where "MsgOnionBatch = ''onion.batch''"
definition MsgPeelForward :: string where "MsgPeelForward = ''onion.peel_forward''"
definition MsgSlotSubmit :: string where "MsgSlotSubmit = ''slot.submit''"
definition bucketOnions :: string where "bucketOnions = ''anon.bucket.onions''"
definition bucketPeels :: string where "bucketPeels = ''anon.bucket.peels''"
definition bucketSlots :: string where "bucketSlots = ''anon.bucket.slots''"

lemmas anon_names = CtxAnonParticipants_def CtxPeelRounds_def CtxAssembledSlotList_def RoleSlotSubmission_def
  MsgOnionBatch_def MsgPeelForward_def MsgSlotSubmit_def bucketOnions_def bucketPeels_def bucketSlots_def

definition AccumulatedOnions :: "'v session_context \<Rightarrow> (string \<times> bytes) list" where
  "AccumulatedOnions ctx = AccumulatedMessages ctx bucketOnions"

section \<open>Slot entries\<close>

record slot_entry =
  SlotIndex :: int
  SlotDKPubHex :: string

record slot_codec =
  sc_enc :: "slot_entry \<Rightarrow> bytes"
  sc_dec :: "bytes \<Rightarrow> (string, slot_entry) outcome"
  sc_encList :: "slot_entry list \<Rightarrow> bytes"

section \<open>A participant\<close>

record participant =
  pt_SlotIndex :: int
  pt_SlotPub :: bytes
  pt_slotPriv :: bytes
  pt_sigSigner :: signer

text \<open>\<open>slotKey\<close> and \<open>sigKey\<close> are what the two key generations return.\<close>

definition NewParticipant ::
  "(string, bytes \<times> bytes) outcome \<Rightarrow> (string, signer) outcome \<Rightarrow> bytes \<Rightarrow> int \<Rightarrow> int
    \<Rightarrow> (string, participant) outcome option" where
  "NewParticipant slotKey sigKey seed n selfIndex =
     (case slotKey of
        Err e \<Rightarrow> Some (Err (''anon: slot keygen: '' @ e))
      | Panic m \<Rightarrow> Some (Panic m)
      | Ok (priv, pub) \<Rightarrow>
          (case sigKey of
             Err e \<Rightarrow> Some (Err (''anon: ephemeral signer: '' @ e))
           | Panic m \<Rightarrow> Some (Panic m)
           | Ok sg \<Rightarrow>
               (case SlotPermutation seed n of
                  None \<Rightarrow> None
                | Some (Err e) \<Rightarrow> Some (Err e)
                | Some (Panic m) \<Rightarrow> Some (Panic m)
                | Some (Ok perm) \<Rightarrow>
                    if 0 \<le> selfIndex \<and> selfIndex < int (length perm)
                    then Some (Ok \<lparr> pt_SlotIndex = int (perm ! nat selfIndex), pt_SlotPub = pub,
                                    pt_slotPriv = priv, pt_sigSigner = sg \<rparr>)
                    else Some (Panic ''runtime error: index out of range''))))"

definition own_entry :: "participant \<Rightarrow> slot_entry" where
  "own_entry p = \<lparr> SlotIndex = pt_SlotIndex p, SlotDKPubHex = hex_encode (pt_SlotPub p) \<rparr>"

definition participant_BuildOnion ::
  "slot_codec \<Rightarrow> ecies_prims \<Rightarrow> (nat \<Rightarrow> enc_coins) \<Rightarrow> participant \<Rightarrow> bytes list \<Rightarrow> int
    \<Rightarrow> (onion_err, bytes \<times> bytes option) outcome" where
  "participant_BuildOnion cd P coins p peelOrderPubs selfPeelIndex =
     BuildOnion P coins (sc_enc cd (own_entry p)) peelOrderPubs selfPeelIndex"

definition participant_Peel ::
  "ecies_prims \<Rightarrow> participant \<Rightarrow> bytes option \<Rightarrow> bytes list \<Rightarrow> (onion_err, bytes list \<times> int) outcome" where
  "participant_Peel P p selfMemo onions = PeelBatch P (pt_slotPriv p) selfMemo onions"

definition SlotSubmission ::
  "slot_codec \<Rightarrow> int \<Rightarrow> participant \<Rightarrow> string \<Rightarrow> (err, bytes \<times> dag_node) outcome" where
  "SlotSubmission cd now p sessionID =
     (let payload = sc_enc cd (own_entry p) in
      case Commit now sessionID ''anon-g-verify'' RoleSlotSubmission payload [] (Some (pt_sigSigner p)) of
        Err e \<Rightarrow> Err (Note ''anon: sign submission'' [] (Lin e))
      | Panic m \<Rightarrow> Panic m
      | Ok node \<Rightarrow> Ok (payload, node))"

section \<open>The shuffle phase\<close>

definition shuffle_OnMessage :: "string \<Rightarrow> string \<Rightarrow> bytes \<Rightarrow> 'v hook" where
  "shuffle_OnMessage msgType from payload ctx =
     (Ok (), if msgType = MsgOnionBatch then AccumulateMessage ctx bucketOnions from payload
             else if msgType = MsgPeelForward then AccumulateMessage ctx bucketPeels from payload
             else ctx)"

text \<open>The completion test of both phases: as many senders in the bucket as there are participants.\<close>

definition all_submitted :: "string \<Rightarrow> 'v session_context \<Rightarrow> bool" where
  "all_submitted bucket ctx =
     (case TryGet as_strings ctx CtxAnonParticipants of
        None \<Rightarrow> False
      | Some participants \<Rightarrow> QuorumReached ctx bucket (int (length participants)))"

definition shuffle_Exit :: "'v hook" where
  "shuffle_Exit ctx =
     (Ok (), ctx_Set ctx CtxPeelRounds (VInt KInt (int (length (AccumulatedMessages ctx bucketPeels)))))"

definition PhaseGShuffle :: "'v phase" where
  "PhaseGShuffle =
     \<lparr> Name = ''anon-g-shuffle'', Lifetime = LifetimePerSession, RunsAt = RunsAtInline,
       EntryState = StateGossip, ExitState = StateVerifying, InternalStates = [],
       ConsumedMessageTypes = [MsgOnionBatch, MsgPeelForward],
       Requires = [(CtxAnonParticipants, ktype ''[]string'' True [])],
       Provides = [(CtxPeelRounds, ktype ''int'' False [])],
       Enter = skip_hook, OnMessage = shuffle_OnMessage, CheckComplete = all_submitted bucketPeels,
       Exit = shuffle_Exit \<rparr>"

section \<open>The verify phase\<close>

definition verify_OnMessage :: "string \<Rightarrow> string \<Rightarrow> bytes \<Rightarrow> 'v hook" where
  "verify_OnMessage msgType from payload ctx = (Ok (), AccumulateMessage ctx bucketSlots from payload)"

text \<open>The loop over the submissions, in the order the runtime iterates over the map.\<close>

fun collect_slots ::
  "slot_codec \<Rightarrow> (string \<times> bytes) list \<Rightarrow> int set \<Rightarrow> slot_entry list \<Rightarrow> (err, slot_entry list) outcome" where
  "collect_slots cd [] seen entries = Ok entries"
| "collect_slots cd ((sender, payload) # raw) seen entries =
     (case sc_dec cd payload of
        Err e \<Rightarrow> Err (Note ''anon: decode slot submission'' sender (Msg e []))
      | Panic m \<Rightarrow> Panic m
      | Ok e \<Rightarrow>
          if SlotIndex e \<in> seen then Err (Msg ''anon: duplicate slot index'' [dec_int (SlotIndex e)])
          else collect_slots cd raw (insert (SlotIndex e) seen) (entries @ [e]))"

definition slot_parents :: "'v session_context \<Rightarrow> dag_node list" where
  "slot_parents ctx = filter (\<lambda>node. dn_Role node = RoleSlotSubmission) (LineageDAG ctx)"

definition verify_Exit :: "slot_codec \<Rightarrow> int \<Rightarrow> 'v hook" where
  "verify_Exit cd now ctx =
     (case collect_slots cd (AccumulatedMessages ctx bucketSlots) {} [] of
        Err e \<Rightarrow> (Err e, ctx)
      | Panic m \<Rightarrow> (Panic m, ctx)
      | Ok entries \<Rightarrow>
          (let encoded = sc_encList cd (sort_key SlotIndex entries);
               ctx1 = ctx_Set ctx CtxAssembledSlotList (VBytes encoded)
           in case CommitArtifact now ctx1 ''anon-g-verify'' CtxAssembledSlotList encoded (slot_parents ctx1) of
                (Ok _, ctx2) \<Rightarrow> (Ok (), ctx2)
              | (Panic m, ctx2) \<Rightarrow> (Panic m, ctx2)
              | (Err e, ctx2) \<Rightarrow>
                  if err_is e ErrPermanent then (Ok (), ctx2)
                  else (Err (Note ''anon: commit assembled slot list'' [] e), ctx2)))"

definition PhaseGVerify :: "slot_codec \<Rightarrow> int \<Rightarrow> session_state \<Rightarrow> 'v phase" where
  "PhaseGVerify cd now exitState =
     \<lparr> Name = ''anon-g-verify'', Lifetime = LifetimePerSession, RunsAt = RunsAtInline,
       EntryState = StateVerifying, ExitState = exitState, InternalStates = [],
       ConsumedMessageTypes = [MsgSlotSubmit],
       Requires = [(CtxAnonParticipants, ktype ''[]string'' True [])],
       Provides = [(CtxAssembledSlotList, \<lparr> TypeName = ''[]byte'', Required = False, Constraints = [], NoLineage = True \<rparr>)],
       Enter = skip_hook, OnMessage = verify_OnMessage, CheckComplete = all_submitted bucketSlots,
       Exit = verify_Exit cd now \<rparr>"

section \<open>Assembling the list\<close>

text \<open>What the list of slots of a set of submissions is, without reference to an order of them.\<close>

definition decoded_slots :: "slot_codec \<Rightarrow> (string \<times> bytes) list \<Rightarrow> slot_entry list" where
  "decoded_slots cd raw = List.map_filter (\<lambda>(_, m). case sc_dec cd m of Ok e \<Rightarrow> Some e | _ \<Rightarrow> None) raw"

definition slots_clean :: "slot_codec \<Rightarrow> (string \<times> bytes) list \<Rightarrow> bool" where
  "slots_clean cd raw \<longleftrightarrow> (\<forall>(_, m) \<in> set raw. is_ok (sc_dec cd m)) \<and> distinct (map SlotIndex (decoded_slots cd raw))"

lemma decoded_slots_simps [simp]:
  "decoded_slots cd [] = []"
  "decoded_slots cd ((s, m) # raw) =
     (case sc_dec cd m of Ok e \<Rightarrow> [e] | _ \<Rightarrow> []) @ decoded_slots cd raw"
  by (auto simp: decoded_slots_def List.map_filter_simps split: outcome.split)

lemma collect_slots_spec:
  assumes "\<And>m p. sc_dec cd m \<noteq> Panic p"
  shows "collect_slots cd raw seen entries = Ok es \<longleftrightarrow>
      (\<forall>(_, m) \<in> set raw. is_ok (sc_dec cd m)) \<and> distinct (map SlotIndex (decoded_slots cd raw)) \<and>
      seen \<inter> SlotIndex ` set (decoded_slots cd raw) = {} \<and> es = entries @ decoded_slots cd raw"
    and "collect_slots cd raw seen entries \<noteq> Panic p"
proof (induction raw arbitrary: seen entries)
  case (Cons sm raw)
  obtain s m where sm: "sm = (s, m)" by fastforce
  { case 1 show ?case using Cons.IH(1) assms by (cases "sc_dec cd m") (auto simp: sm) }
  { case 2 show ?case using Cons.IH(2) assms by (cases "sc_dec cd m") (auto simp: sm) }
qed auto

lemma decoded_slots_perm: "mset raw' = mset raw \<Longrightarrow> mset (decoded_slots cd raw') = mset (decoded_slots cd raw)"
  by (simp only: decoded_slots_def List.map_filter_def mset_map mset_filter)

lemma slots_clean_perm: "mset raw' = mset raw \<Longrightarrow> slots_clean cd raw' = slots_clean cd raw"
  using decoded_slots_perm [of raw' raw cd] mset_eq_setD [of raw' raw]
  by (simp add: slots_clean_def) (metis mset_eq_imp_distinct_iff mset_map)

lemma sort_slots_perm:
  assumes "mset xs = mset ys" and "distinct (map SlotIndex ys)"
  shows "sort_key SlotIndex xs = sort_key SlotIndex ys"
proof (rule map_sorted_distinct_set_unique [where f = SlotIndex])
  have "distinct (map SlotIndex xs)" using assms by (metis mset_eq_imp_distinct_iff mset_map)
  then show "distinct (map SlotIndex (sort_key SlotIndex xs))" by (simp add: distinct_map)
  show "distinct (map SlotIndex (sort_key SlotIndex ys))" using assms(2) by (simp add: distinct_map)
  show "inj_on SlotIndex (set (sort_key SlotIndex xs) \<union> set (sort_key SlotIndex ys))"
    using assms mset_eq_setD [OF assms(1)] by (simp add: distinct_map)
qed (use mset_eq_setD [OF assms(1)] in simp_all)


text \<open>The list of slots that a set of submissions stands for.\<close>

definition slot_list :: "slot_codec \<Rightarrow> (string \<times> bytes) list \<Rightarrow> slot_entry list" where
  "slot_list cd raw = sort_key SlotIndex (decoded_slots cd raw)"

lemma slot_list_perm: "slots_clean cd raw \<Longrightarrow> mset raw' = mset raw \<Longrightarrow> slot_list cd raw' = slot_list cd raw"
  unfolding slot_list_def slots_clean_def by (intro sort_slots_perm decoded_slots_perm) auto

lemma slot_list_sorted:
  "slots_clean cd raw \<Longrightarrow> sorted (map SlotIndex (slot_list cd raw)) \<and> distinct (map SlotIndex (slot_list cd raw)) \<and>
     mset (slot_list cd raw) = mset (decoded_slots cd raw)"
  by (simp add: slot_list_def slots_clean_def distinct_map)

lemma collect_slots_all:
  assumes "\<And>m p. sc_dec cd m \<noteq> Panic p"
  shows "slots_clean cd raw \<Longrightarrow> collect_slots cd raw {} [] = Ok (decoded_slots cd raw)"
    and "\<not> slots_clean cd raw \<Longrightarrow> \<exists>e. collect_slots cd raw {} [] = Err e \<and> (\<forall>k. \<not> err_is e k)"
proof -
  show "slots_clean cd raw \<Longrightarrow> collect_slots cd raw {} [] = Ok (decoded_slots cd raw)"
    using collect_slots_spec(1) [OF assms, of raw "{}" "[]"] by (auto simp: slots_clean_def)
  have plain: "collect_slots cd raw seen es = Err e \<Longrightarrow> \<not> err_is e k" for seen es e k
    by (induction raw arbitrary: seen es) (auto split: outcome.splits if_splits)
  show "\<exists>e. collect_slots cd raw {} [] = Err e \<and> (\<forall>k. \<not> err_is e k)" if "\<not> slots_clean cd raw"
  proof (cases "collect_slots cd raw {} []")
    case (Ok es)
    then show ?thesis using collect_slots_spec(1) [OF assms, of raw "{}" "[]" es] that by (auto simp: slots_clean_def)
  qed (use plain collect_slots_spec(2) [OF assms] in auto)
qed

lemma Commit_total: "\<forall>m. is_ok (sg_Sign s m) \<Longrightarrow> \<exists>n. Commit now sid ph role m parents (Some s) = Ok n"
  unfolding Commit_Ok_iff is_ok_iff by (metis surj_pair)

lemma slot_parents_Set [simp]: "slot_parents (ctx_Set c k v) = slot_parents c"
  by (cases "ctx_lineageStore c") (simp_all add: slot_parents_def LineageDAG_def)

lemma verify_Exit_clean:
  assumes "\<And>m p. sc_dec cd m \<noteq> Panic p" and "slots_clean cd (AccumulatedMessages c bucketSlots)"
    and "enc = sc_encList cd (slot_list cd (AccumulatedMessages c bucketSlots))"
    and "c1 = ctx_Set c CtxAssembledSlotList (VBytes enc)"
  shows "verify_Exit cd now c =
    (case CommitArtifact now c1 ''anon-g-verify'' CtxAssembledSlotList enc (slot_parents c) of
       (Ok _, c2) \<Rightarrow> (Ok (), c2)
     | (Panic m, c2) \<Rightarrow> (Panic m, c2)
     | (Err e, c2) \<Rightarrow>
         if err_is e ErrPermanent then (Ok (), c2)
         else (Err (Note ''anon: commit assembled slot list'' [] e), c2))"
  using assms collect_slots_all(1) [OF assms(1,2)]
  by (simp add: verify_Exit_def slot_list_def Let_def)

lemma verify_Exit_no_lineage:
  assumes "\<And>m p. sc_dec cd m \<noteq> Panic p" and "slots_clean cd (AccumulatedMessages c bucketSlots)"
    and "ctx_lineageStore c = None \<or> ctx_lineageSigner c = None"
  shows "verify_Exit cd now c =
    (Ok (), ctx_Set c CtxAssembledSlotList (VBytes (sc_encList cd (slot_list cd (AccumulatedMessages c bucketSlots)))))"
  using assms(3) by (auto simp: verify_Exit_clean [OF assms(1,2) refl refl] CommitArtifact_def split: option.split)

lemma verify_Exit_lineage:
  assumes "\<And>m p. sc_dec cd m \<noteq> Panic p" and "slots_clean cd (AccumulatedMessages c bucketSlots)"
    and "ctx_lineageStore c = Some st" and "ctx_lineageSigner c = Some sg"
    and "enc = sc_encList cd (slot_list cd (AccumulatedMessages c bucketSlots))"
    and "Commit now (SessionID c) ''anon-g-verify'' CtxAssembledSlotList enc (slot_parents c) (Some sg) = Ok n"
  shows "verify_Exit cd now c =
    (Ok (), (ctx_Set c CtxAssembledSlotList (VBytes enc))\<lparr> ctx_lineageStore := Some (snd (store_Append st n)) \<rparr>)"
  using assms(3,4,6) ims.append_result [of st n]
  by (auto simp: verify_Exit_clean [OF assms(1,2,5) refl] CommitArtifact_def Let_def split: prod.split)

lemma slot_parents_set:
  "ctx_lineageStore c = Some st \<Longrightarrow> store_wf st \<Longrightarrow>
   set (slot_parents c) = {m. dn_SessionID m = SessionID c \<and> dn_Role m = RoleSlotSubmission \<and> store_Get st (dn_Hash m) = Ok m}"
  by (auto simp: slot_parents_def LineageDAG_def ims.walk_get)

text \<open>
  The assembled slot list is a function of the set of submissions. When every submission decodes
  and no slot index is claimed twice, \<^verbatim>\<open>PhaseGVerify.Exit\<close> stores the encoding of the entries in
  increasing order of their distinct indices, each submission's entry exactly once, and any other
  iteration order of the submissions yields the same list; otherwise it fails with an error that no
  sentinel classifies, and the context is as it was. With lineage on (and a working signer) the list is
  committed as a node whose parents are exactly the session's stored slot submissions.
\<close>

theorem slot_list_assembled:
  assumes "\<And>m p. sc_dec cd m \<noteq> Panic p" and "raw = AccumulatedMessages c bucketSlots"
  shows "(\<not> slots_clean cd raw \<longrightarrow>
       (\<exists>e. Exit (PhaseGVerify cd now next) c = (Err e, c) \<and> (\<forall>k. \<not> err_is e k))) \<and>
    (slots_clean cd raw \<longrightarrow>
       sorted (map SlotIndex (slot_list cd raw)) \<and> distinct (map SlotIndex (slot_list cd raw)) \<and>
       mset (slot_list cd raw) = mset (decoded_slots cd raw) \<and>
       (\<forall>raw'. mset raw' = mset raw \<longrightarrow> slots_clean cd raw' \<and> slot_list cd raw' = slot_list cd raw) \<and>
       (ctx_lineageStore c = None \<longrightarrow>
          Exit (PhaseGVerify cd now next) c = (Ok (), ctx_Set c CtxAssembledSlotList (VBytes (sc_encList cd (slot_list cd raw))))) \<and>
       (\<forall>st sg. ctx_lineageStore c = Some st \<and> store_wf st \<and> ctx_lineageSigner c = Some sg \<and> (\<forall>m. is_ok (sg_Sign sg m)) \<longrightarrow>
          (\<exists>n c2 st'. Exit (PhaseGVerify cd now next) c = (Ok (), c2) \<and> ctx_lineageStore c2 = Some st' \<and>
             TryGet as_bytes c2 CtxAssembledSlotList = Some (sc_encList cd (slot_list cd raw)) \<and>
             is_ok (store_Get st' (dn_Hash n)) \<and> (\<not> is_ok (store_Get st (dn_Hash n)) \<longrightarrow> store_Get st' (dn_Hash n) = Ok n) \<and>
             dn_SessionID n = SessionID c \<and> dn_Role n = CtxAssembledSlotList \<and>
             dn_PayloadHash n = HashPayload (sc_encList cd (slot_list cd raw)) \<and>
             set (dn_Parents n) = dn_Hash ` {m. dn_SessionID m = SessionID c \<and> dn_Role m = RoleSlotSubmission \<and>
                                                 store_Get st (dn_Hash m) = Ok m})))"
proof (intro conjI impI allI, goal_cases)
  case 1
  then show ?case using collect_slots_all(2) [OF assms(1), of raw] assms(2) by (auto simp: PhaseGVerify_def verify_Exit_def)
next
  case (8 st sg)
  let ?enc = "sc_encList cd (slot_list cd raw)"
  have "\<exists>n. Commit now (SessionID c) ''anon-g-verify'' CtxAssembledSlotList ?enc (slot_parents c) (Some sg) = Ok n"
    using 8(2) Commit_total by blast
  then obtain n where n: "Commit now (SessionID c) ''anon-g-verify'' CtxAssembledSlotList ?enc (slot_parents c) (Some sg) = Ok n" by blast
  let ?c2 = "(ctx_Set c CtxAssembledSlotList (VBytes ?enc))\<lparr> ctx_lineageStore := Some (snd (store_Append st n)) \<rparr>"
  have ex: "Exit (PhaseGVerify cd now next) c = (Ok (), ?c2)"
    using verify_Exit_lineage [OF assms(1) _ _ _ _ n] 8 assms(2) by (simp add: PhaseGVerify_def)
  have "store_Get (snd (store_Append st n)) (dn_Hash n) = Ok n" if "\<not> is_ok (store_Get st (dn_Hash n))"
    using ims.get_append [of st n "dn_Hash n"] ims.get_total [of st "dn_Hash n"] that by auto
  moreover have "is_ok (store_Get (snd (store_Append st n)) (dn_Hash n))" using ims.get_append_self [of st n] by (auto simp: is_ok_iff)
  moreover have "set (dn_Parents n) = dn_Hash ` set (slot_parents c)" using Commit_fields(5) [OF n] by simp
  ultimately show ?case
    using ex Commit_fields [OF n] slot_parents_set [of c st] 8(2)
    by (intro exI [of _ n] exI [of _ ?c2] exI [of _ "snd (store_Append st n)"]) (simp add: TryGet_def ctx_Get_def ctx_Set_def)
next
  case 7
  then show ?case using verify_Exit_no_lineage [OF assms(1), of c now] assms(2) by (simp add: PhaseGVerify_def)
next
  case (5 raw')
  then show ?case using slots_clean_perm by blast
next
  case (6 raw')
  then show ?case by (rule slot_list_perm)
qed (use slot_list_sorted in blast)+

text \<open>Both phases are what the runner's invariants ask of a phase.\<close>

lemma verify_Exit_confined: "ctx_confined c (snd (verify_Exit cd now c))"
proof (cases "collect_slots cd (AccumulatedMessages c bucketSlots) {} []")
  case (Ok entries)
  let ?enc = "sc_encList cd (sort_key SlotIndex entries)"
  let ?c1 = "ctx_Set c CtxAssembledSlotList (VBytes ?enc)"
  have "ctx_confined ?c1 (snd (CommitArtifact now ?c1 ''anon-g-verify'' CtxAssembledSlotList ?enc (slot_parents ?c1)))"
    by (rule ctx_confined_CommitArtifact) (auto simp: slot_parents_set store_sound_def is_ok_iff)
  then have "ctx_confined c (snd (CommitArtifact now ?c1 ''anon-g-verify'' CtxAssembledSlotList ?enc (slot_parents ?c1)))"
    by (simp add: ctx_confined_def)
  then show ?thesis
    by (cases "CommitArtifact now ?c1 ''anon-g-verify'' CtxAssembledSlotList ?enc (slot_parents ?c1)")
       (auto simp: verify_Exit_def Ok Let_def split: outcome.split)
qed (simp_all add: verify_Exit_def)

lemma anon_phases_confined: "phase_confined PhaseGShuffle" "phase_confined (PhaseGVerify cd now nst)"
  by (simp_all add: phase_confined_def hook_confined_def PhaseGShuffle_def PhaseGVerify_def verify_Exit_confined skip_hook_def
      shuffle_OnMessage_def shuffle_Exit_def verify_OnMessage_def)

section \<open>A codec for the witnesses\<close>

text \<open>One byte of index, then the characters of the key.\<close>

definition byte_codec :: slot_codec where
  "byte_codec =
     \<lparr> sc_enc = (\<lambda>e. word_of_int (SlotIndex e) # str_bytes (SlotDKPubHex e)),
       sc_dec = (\<lambda>m. case m of [] \<Rightarrow> Err ''unexpected end of JSON input''
                        | b # k \<Rightarrow> Ok \<lparr> SlotIndex = uint b, SlotDKPubHex = map (\<lambda>x. char_of (unat x)) k \<rparr>),
       sc_encList = (\<lambda>es. concat (map (\<lambda>e. word_of_int (SlotIndex e) # str_bytes (SlotDKPubHex e)) es)) \<rparr>"

lemma byte_codec_panics: "sc_dec byte_codec m \<noteq> Panic p"
  by (simp add: byte_codec_def split: list.split)

lemma char_of_str_bytes: "map (\<lambda>x. char_of (unat x)) (str_bytes s) = s"
proof -
  have "unat (of_char c :: byte) = of_char c" for c
  proof -
    have "unat (of_nat (of_char c) :: byte) = of_char c" by (simp add: unat_of_nat take_bit_eq_mod)
    then show ?thesis by (simp only: of_nat_of_char)
  qed
  then show ?thesis by (simp add: str_bytes_def comp_def map_idI)
qed

lemma byte_codec_roundtrip:
  "0 \<le> SlotIndex e \<Longrightarrow> SlotIndex e < 256 \<Longrightarrow> sc_dec byte_codec (sc_enc byte_codec e) = Ok e"
  by (simp add: byte_codec_def char_of_str_bytes word_uint_eqI uint_word_of_int)

lemma slot_list_assembled_witness:
  "\<exists>c2. Exit (PhaseGVerify byte_codec 0 StateSubmitting)
      (accumulate_all (NewSessionContext ''s'' :: unit session_context) bucketSlots [(''b'', [1, 98]), (''a'', [0, 97])])
      = (Ok (), c2) \<and> TryGet as_bytes c2 CtxAssembledSlotList = Some [0, 97, 1, 98]"
proof -
  let ?c = "accumulate_all (NewSessionContext ''s'' :: unit session_context) bucketSlots [(''b'', [1, 98]), (''a'', [0, 97])]"
  have "AccumulatedMessages (NewSessionContext ''s'' :: unit session_context) bucketSlots = []"
    by (simp add: AccumulatedMessages_def NewSessionContext_def ctx_Get_def)
  then have raw: "AccumulatedMessages ?c bucketSlots = [(''b'', [1, 98]), (''a'', [0, 97])]" by simp
  have dec: "decoded_slots byte_codec [(''b'', [1, 98]), (''a'', [0, 97])] =
      [\<lparr> SlotIndex = 1, SlotDKPubHex = ''b'' \<rparr>, \<lparr> SlotIndex = 0, SlotDKPubHex = ''a'' \<rparr>]"
    by (simp add: byte_codec_def) code_simp
  have clean: "slots_clean byte_codec (AccumulatedMessages ?c bucketSlots)"
    unfolding raw slots_clean_def dec by (simp add: byte_codec_def)
  have "slot_list byte_codec (AccumulatedMessages ?c bucketSlots) =
      [\<lparr> SlotIndex = 0, SlotDKPubHex = ''a'' \<rparr>, \<lparr> SlotIndex = 1, SlotDKPubHex = ''b'' \<rparr>]"
    unfolding raw slot_list_def dec by (simp add: sort_key_def)
  moreover have "ctx_lineageStore ?c = None" by (simp add: NewSessionContext_def)
  ultimately show ?thesis
    using slot_list_assembled [OF byte_codec_panics refl, of ?c 0 StateSubmitting] clean
    by (simp add: byte_codec_def str_bytes_def)
qed

section \<open>A session of honest participants\<close>

text \<open>Operations one after the other, with what each of them returned.\<close>

fun run_all :: "('a \<Rightarrow> 's \<Rightarrow> 'r \<times> 's) \<Rightarrow> 'a list \<Rightarrow> 's \<Rightarrow> 'r list \<times> 's" where
  "run_all f [] s = ([], s)"
| "run_all f (x # xs) s = (let (r, s1) = f x s; (rs, s2) = run_all f xs s1 in (r # rs, s2))"

text \<open>The session \<open>sid\<close> is in the verify phase and has accumulated \<open>raw\<close>.\<close>

definition gathered ::
  "slot_codec \<Rightarrow> int \<Rightarrow> session_state \<Rightarrow> string \<Rightarrow> nat \<Rightarrow> signer \<Rightarrow> (string \<times> bytes) list \<Rightarrow> in_memory_store
    \<Rightarrow> 'v session_runner \<Rightarrow> bool" where
  "gathered cd now nst sid n sg raw st r \<longleftrightarrow>
     lineageStore r = Some st \<and>
     (\<exists>t names. map_of (sessions r) sid = Some t \<and> trk_current t = Some (PhaseGVerify cd now nst) \<and>
        SessionID (trk_ctx t) = sid \<and> ctx_lineageSigner (trk_ctx t) = Some sg \<and>
        TryGet as_strings (trk_ctx t) CtxAnonParticipants = Some names \<and> length names = n \<and>
        AccumulatedMessages (trk_ctx t) bucketSlots = raw)"

lemma mput_new: "k \<notin> keys_of m \<Longrightarrow> mput k v m = m @ [(k, v)]"
  by (induction m) auto

lemma verify_phase_simps [simp]:
  "phaseConsumes (PhaseGVerify cd now nst) mt \<longleftrightarrow> mt = MsgSlotSubmit"
  "OnMessage (PhaseGVerify cd now nst) = verify_OnMessage" "ExitState (PhaseGVerify cd now nst) = nst"
  "CheckComplete (PhaseGVerify cd now nst) = all_submitted bucketSlots" "Exit (PhaseGVerify cd now nst) = verify_Exit cd now"
  by (simp_all add: PhaseGVerify_def phaseConsumes_def)

lemma bucket_not_participants [simp]: "CtxAnonParticipants \<noteq> bucketSlots" "CtxAssembledSlotList \<noteq> bucketSlots"
  by (simp_all add: anon_names)

lemma ctx_lineage_irrelevant [simp]:
  "TryGet a (c\<lparr> ctx_lineageStore := s \<rparr>) k = TryGet a c k"
  "AccumulatedMessages (c\<lparr> ctx_lineageStore := s \<rparr>) b = AccumulatedMessages c b"
  by (simp_all add: TryGet_def AccumulatedMessages_def ctx_Get_def)

lemma TryGet_Accumulate_other [simp]: "k \<noteq> b \<Longrightarrow> TryGet a (AccumulateMessage c b from m) k = TryGet a c k"
  by (simp add: AccumulateMessage_def)

lemma store_unchanged: "lineageStore r = s \<Longrightarrow> r\<lparr> lineageStore := s \<rparr> = r"
  by (cases r) simp

text \<open>One more submission: either the session waits on, or it runs the exit of the phase.\<close>

lemma gathered_message:
  assumes "gathered cd now nst sid n sg raw st r" and "from \<notin> keys_of raw"
  shows "\<exists>t1 r1. run_hook (verify_OnMessage MsgSlotSubmit from m) sid (the (map_of (sessions r) sid)) r = (Ok (), t1, r1) \<and>
    gathered cd now nst sid n sg (raw @ [(from, m)]) st r1 \<and> map_of (sessions r1) sid = Some t1 \<and>
    byEntryState r1 = byEntryState r \<and> phases r1 = phases r \<and> lineageVerifiers r1 = lineageVerifiers r \<and>
    HandleMessage now' sid MsgSlotSubmit from m r =
      (if length raw + 1 < n then (Ok False, r1) else advance now' sid t1 r1)"
proof -
  obtain t names where t: "lineageStore r = Some st" "map_of (sessions r) sid = Some t" "trk_current t = Some (PhaseGVerify cd now nst)"
    "SessionID (trk_ctx t) = sid" "ctx_lineageSigner (trk_ctx t) = Some sg"
    "TryGet as_strings (trk_ctx t) CtxAnonParticipants = Some names" "length names = n" "AccumulatedMessages (trk_ctx t) bucketSlots = raw"
    using assms(1) by (auto simp: gathered_def)
  let ?c = "AccumulateMessage ((trk_ctx t)\<lparr> ctx_lineageStore := Some st \<rparr>) bucketSlots from m"
  let ?t1 = "t\<lparr> trk_ctx := ?c \<rparr>" and ?r1 = "put_tracker sid (t\<lparr> trk_ctx := ?c \<rparr>) r"
  have h: "run_hook (verify_OnMessage MsgSlotSubmit from m) sid t r = (Ok (), ?t1, ?r1)"
    using t(1) by (simp add: run_hook_def verify_OnMessage_def store_unchanged Let_def)
  have raw: "AccumulatedMessages ?c bucketSlots = raw @ [(from, m)]" using t(8) assms(2) by (simp add: mput_new)
  have g: "gathered cd now nst sid n sg (raw @ [(from, m)]) st ?r1"
    using t raw by (simp add: gathered_def put_tracker_def)
  have "all_submitted bucketSlots ?c \<longleftrightarrow> \<not> length raw + 1 < n"
    using t(6,7) raw by (auto simp: all_submitted_def QuorumReached_def MessageCount_eq)
  then have "HandleMessage now' sid MsgSlotSubmit from m r = (if length raw + 1 < n then (Ok False, ?r1) else advance now' sid ?t1 ?r1)"
    using t(2,3) h by (simp add: HandleMessage_def)
  then show ?thesis using h g t(2) by (intro exI [of _ ?t1] exI [of _ ?r1]) (simp add: put_tracker_def)
qed

lemma gathered_exit:
  assumes "gathered cd now nst sid n sg raw st r" and "map_of (sessions r) sid = Some t"
    and "\<And>m p. sc_dec cd m \<noteq> Panic p" and "slots_clean cd raw" and "\<forall>m. is_ok (sg_Sign sg m)"
  shows "\<exists>t' r'. exit_phase lbl now' sid (PhaseGVerify cd now nst) t r = (Ok (), t', r') \<and>
    TryGet as_bytes (trk_ctx t') CtxAssembledSlotList = Some (sc_encList cd (slot_list cd raw)) \<and>
    byEntryState r' = byEntryState r \<and> phases r' = phases r"
proof -
  let ?c = "(trk_ctx t)\<lparr> ctx_lineageStore := lineageStore r \<rparr>" and ?enc = "sc_encList cd (slot_list cd raw)"
  have c: "ctx_lineageStore ?c = Some st" "ctx_lineageSigner ?c = Some sg" "AccumulatedMessages ?c bucketSlots = raw"
    using assms(1,2) by (auto simp: gathered_def)
  obtain node where node: "Commit now (SessionID ?c) ''anon-g-verify'' CtxAssembledSlotList ?enc (slot_parents ?c) (Some sg) = Ok node"
    using Commit_total [OF assms(5)] by blast
  let ?c2 = "(ctx_Set ?c CtxAssembledSlotList (VBytes ?enc))\<lparr> ctx_lineageStore := Some (snd (store_Append st node)) \<rparr>"
  have "verify_Exit cd now ?c = (Ok (), ?c2)"
    using verify_Exit_lineage [OF assms(3) _ c(1,2) _ node] c(3) assms(4) by simp
  then have "run_hook (verify_Exit cd now) sid t r =
      (Ok (), t\<lparr> trk_ctx := ?c2 \<rparr>, put_tracker sid (t\<lparr> trk_ctx := ?c2 \<rparr>) (r\<lparr> lineageStore := Some (snd (store_Append st node)) \<rparr>))"
    by (simp add: run_hook_def Let_def)
  then show ?thesis
    by (simp add: exit_phase_def commitPhaseOutputsIfEnabled_def put_tracker_def PhaseGVerify_def)
qed

text \<open>A phase that leaves the list alone on \<^verbatim>\<open>Enter\<close>, and waits for messages.\<close>

definition takes_over :: "'v phase \<Rightarrow> bool" where
  "takes_over q \<longleftrightarrow> ConsumedMessageTypes q \<noteq> [] \<and>
     (\<forall>c. fst (Enter q c) = Ok () \<and> ctx_Get (snd (Enter q c)) CtxAssembledSlotList = ctx_Get c CtxAssembledSlotList)"

definition assembled :: "slot_codec \<Rightarrow> session_state \<Rightarrow> string \<Rightarrow> (string \<times> bytes) list \<Rightarrow> 'v session_runner \<Rightarrow> bool" where
  "assembled cd nst sid raw r \<longleftrightarrow> CurrentState r sid = (nst, True) \<and>
     (\<exists>c. session_context_of r sid = Some c \<and>
        TryGet as_bytes c CtxAssembledSlotList = Some (sc_encList cd (slot_list cd raw)))"

lemma gathered_last:
  assumes "gathered cd now nst sid n sg raw st r" and "map_of (sessions r) sid = Some t"
    and "\<And>m p. sc_dec cd m \<noteq> Panic p" and "slots_clean cd raw" and "\<forall>m. is_ok (sg_Sign sg m)"
    and "nst \<noteq> StateNone" and "map_of (byEntryState r) nst = Some q" and "takes_over q"
  shows "\<exists>r2. advance now' sid t r = (Ok True, r2) \<and> assembled cd nst sid raw r2"
proof -
  obtain t1 r1 where e: "exit_phase [] now' sid (PhaseGVerify cd now nst) t r = (Ok (), t1, r1)"
    "TryGet as_bytes (trk_ctx t1) CtxAssembledSlotList = Some (sc_encList cd (slot_list cd raw))"
    "byEntryState r1 = byEntryState r"
    using gathered_exit [OF assms(1-5)] by blast
  let ?c = "(trk_ctx t1)\<lparr> ctx_lineageStore := lineageStore r1 \<rparr>"
  obtain c2 where c2: "Enter q ?c = (Ok (), c2)" "ctx_Get c2 CtxAssembledSlotList = ctx_Get (trk_ctx t1) CtxAssembledSlotList"
    using assms(8) [unfolded takes_over_def, THEN conjunct2, THEN spec, of ?c]
    by (cases "Enter q ?c") (simp add: ctx_Get_def)
  let ?t2 = "t1\<lparr> trk_state := nst, trk_current := Some q, trk_entered := True, trk_ctx := c2 \<rparr>"
  let ?r2 = "put_tracker sid ?t2 (r1\<lparr> lineageStore := ctx_lineageStore c2 \<rparr>)"
  have "\<exists>r2. enter_phase [] sid nst q t1 r1 = (Ok (), ?t2, r2) \<and> map_of (sessions r2) sid = Some ?t2"
    using c2(1) by (simp add: enter_phase_def run_hook_def put_tracker_def Let_def)
  then obtain r2 where r2: "enter_phase [] sid nst q t1 r1 = (Ok (), ?t2, r2)" "map_of (sessions r2) sid = Some ?t2" by blast
  have "advance now' sid t r = (Ok True, r2)"
    using e r2(1) assms(1,2,6-8) by (auto simp: advance_def gathered_def takes_over_def)
  moreover have "assembled cd nst sid raw r2"
    using r2(2) c2(2) e(2) by (simp add: assembled_def CurrentState_def session_context_of_def TryGet_def ctx_Get_def)
  ultimately show ?thesis by blast
qed

text \<open>A submission that the runner's check lets through whatever is stored: it verifies and names no parents.\<close>

lemma gathered_run:
  assumes "gathered cd now nst sid n sg raw st r"
    and "\<And>m p. sc_dec cd m \<noteq> Panic p" and "\<forall>m. is_ok (sg_Sign sg m)"
    and "nst \<noteq> StateNone" and "map_of (byEntryState r) nst = Some q" and "takes_over q"
    and "\<forall>k \<in> set ks. Verify (node k) (payload k) (lineageVerifiers r) = None \<and> dn_Parents (node k) = []"
    and "distinct (map sender ks)" and "sender ` set ks \<inter> keys_of raw = {}"
    and "ks \<noteq> []" and "length raw + length ks = n"
    and "slots_clean cd (raw @ map (\<lambda>k. (sender k, payload k)) ks)"
  shows "\<exists>r'. run_all (\<lambda>k. HandleLineageMessage (clock k) sid MsgSlotSubmit (sender k) (payload k) (Some (node k))) ks r =
      (replicate (length ks - 1) (Ok False) @ [Ok True], r') \<and>
    assembled cd nst sid (raw @ map (\<lambda>k. (sender k, payload k)) ks) r'"
  using assms(1,5,7-12)
proof (induction ks arbitrary: raw st r)
  case (Cons k ks)
  note prems = Cons.prems and IH = Cons.IH
  let ?st = "snd (store_Append st (node k))" and ?raw = "raw @ [(sender k, payload k)]"
  let ?r0 = "r\<lparr> lineageStore := Some ?st \<rparr>"
  have st: "lineageStore r = Some st" using prems(1) by (simp add: gathered_def)
  have adm: "admissible (lineageVerifiers r) st (node k) (payload k)" using prems(3) by (simp add: admissible_def)
  have g0: "gathered cd now nst sid n sg raw ?st ?r0" using prems(1) by (auto simp: gathered_def)
  have "sender k \<notin> keys_of raw" using prems(5) by simp
  from gathered_message [OF g0 this, of "payload k" "clock k"] obtain t1 r1 where
    g1: "gathered cd now nst sid n sg ?raw ?st r1" "map_of (sessions r1) sid = Some t1" "byEntryState r1 = byEntryState r"
      "lineageVerifiers r1 = lineageVerifiers r"
    and h: "HandleMessage (clock k) sid MsgSlotSubmit (sender k) (payload k) ?r0 =
      (if length raw + 1 < n then (Ok False, r1) else advance (clock k) sid t1 r1)" by auto
  have hl: "HandleLineageMessage (clock k) sid MsgSlotSubmit (sender k) (payload k) (Some (node k)) r =
      (if length raw + 1 < n then (Ok False, r1) else advance (clock k) sid t1 r1)"
    using HandleLineageMessage_admissible [OF st adm] h by simp
  show ?case
  proof (cases ks)
    case Nil
    then have "\<exists>r2. advance (clock k) sid t1 r1 = (Ok True, r2) \<and> assembled cd nst sid ?raw r2"
      using gathered_last [OF g1(1,2) assms(2) _ assms(3,4) _ assms(6)] prems(2,8) g1(3) by simp
    then show ?thesis using Nil hl prems(7) by auto
  next
    case (Cons k' ks')
    have "\<exists>r'. run_all (\<lambda>k. HandleLineageMessage (clock k) sid MsgSlotSubmit (sender k) (payload k) (Some (node k))) ks r1 =
        (replicate (length ks - 1) (Ok False) @ [Ok True], r') \<and>
      assembled cd nst sid (?raw @ map (\<lambda>k. (sender k, payload k)) ks) r'"
      by (rule IH [OF g1(1)]) (use prems g1(3,4) Cons in auto)
    then show ?thesis using hl Cons prems(7) by auto
  qed
qed simp

lemma participants_slots:
  assumes "n < 2 ^ 32" and "0 < n"
    and "\<forall>k < n. NewParticipant (Ok (key k)) (Ok (sg k)) seed (int n) (int k) = Some (Ok (p k))"
  shows "mset (map (\<lambda>k. pt_SlotIndex (p k)) [0..<n]) = mset (map int [0..<n]) \<and>
    (\<forall>k < n. pt_sigSigner (p k) = sg k \<and> pt_SlotPub (p k) = snd (key k))"
proof -
  obtain perm where perm: "SlotPermutation seed (int n) = Some (Ok perm)"
    using assms(3) [rule_format, OF assms(2)] SlotPermutation_perm [of "int n" seed] assms(1)
    by (cases "SlotPermutation seed (int n)"; cases "key 0") (fastforce simp: NewParticipant_def)+
  then have m: "mset perm = mset [0..<n]" using SlotPermutation_perm [of "int n" seed "Ok perm"] assms(1) by simp
  then have len: "length perm = n" by (metis diff_zero length_upt mset_eq_length)
  have p: "pt_SlotIndex (p k) = int (perm ! k) \<and> pt_sigSigner (p k) = sg k \<and> pt_SlotPub (p k) = snd (key k)" if "k < n" for k
  proof -
    obtain a b where ab: "key k = (a, b)" by fastforce
    then have "p k = \<lparr> pt_SlotIndex = int (perm ! k), pt_SlotPub = b, pt_slotPriv = a, pt_sigSigner = sg k \<rparr>"
      using assms(3) [rule_format, OF that] perm that len by (simp add: NewParticipant_def)
    then show ?thesis using ab by simp
  qed
  then have "map (\<lambda>k. pt_SlotIndex (p k)) [0..<n] = map int perm" using len by (intro nth_equalityI) auto
  then show ?thesis using p m by (metis mset_map)
qed

lemma honest_slot_list:
  assumes "mset (map (\<lambda>k. pt_SlotIndex (p k)) [0..<n]) = mset (map int [0..<n])" and "mset ks = mset [0..<n]"
    and "\<forall>k < n. sc_dec cd (payload k) = Ok (own_entry (p k))"
    and "raw = map (\<lambda>k. (sender k, payload k)) ks"
  shows "slots_clean cd raw \<and> length (slot_list cd raw) = n \<and>
    (\<forall>k < n. slot_list cd raw ! nat (pt_SlotIndex (p k)) = own_entry (p k))"
proof -
  have ks: "set ks = {..<n}" using mset_eq_setD [OF assms(2)] by (simp only: set_upt atLeast0LessThan)
  have dec: "decoded_slots cd raw = map (\<lambda>k. own_entry (p k)) ks" if "set ks \<subseteq> {..<n}" "raw = map (\<lambda>k. (sender k, payload k)) ks" for ks raw
    using that(1) unfolding that(2) by (induction ks) (simp_all add: assms(3))
  have idx: "map SlotIndex (decoded_slots cd raw) = map (\<lambda>k. pt_SlotIndex (p k)) ks"
    using dec [OF _ assms(4)] ks by (simp add: own_entry_def)
  have m: "mset (map SlotIndex (decoded_slots cd raw)) = mset (map int [0..<n])"
    unfolding idx using assms(1,2) by (metis mset_map)
  have "distinct (map int [0..<n])" by (simp add: distinct_map)
  then have "distinct (map SlotIndex (decoded_slots cd raw))" using m by (metis mset_eq_imp_distinct_iff)
  then have clean: "slots_clean cd raw" using ks assms(3,4) by (auto simp: slots_clean_def)
  let ?es = "slot_list cd raw"
  have es: "sorted (map SlotIndex ?es)" "mset ?es = mset (decoded_slots cd raw)" using slot_list_sorted [OF clean] by auto
  have "sort (map int [0..<n]) = map SlotIndex ?es" by (rule properties_for_sort) (use es m in \<open>metis mset_map\<close>)+
  moreover have "sorted (map int [0..<n])" by (simp add: sorted_iff_nth_mono)
  ultimately have nat_idx: "map SlotIndex ?es = map int [0..<n]" by (simp add: sorted_sort_id)
  then have len: "length ?es = n" by (metis diff_zero length_map length_upt)
  have "?es ! nat (pt_SlotIndex (p k)) = own_entry (p k)" if "k < n" for k
  proof -
    have "own_entry (p k) \<in> set ?es" using that ks dec [OF _ assms(4)] mset_eq_setD [OF es(2)] by auto
    then obtain j where j: "j < n" "?es ! j = own_entry (p k)" using len by (auto simp: in_set_conv_nth)
    have "SlotIndex (?es ! j) = int j" using nat_idx j(1) len by (metis diff_zero add_0 length_upt nth_map nth_upt)
    then show ?thesis using j(2) by (simp add: own_entry_def)
  qed
  then show ?thesis using clean len by blast
qed

text \<open>
  Claim C23. A round of honest participants ends with everybody in exactly one slot. Let \<open>n\<close> participants draw
  their slots from one seed and submit them, each with a node signed by its ephemeral key that the
  runner's verifiers accept, in any order, to a session that waits in \<^verbatim>\<open>PhaseGVerify\<close> for \<open>n\<close> senders.
  Then the first \<open>n - 1\<close> messages are accepted without a transition, the last one moves the session to
  the next state, and the assembled list in its context has \<open>n\<close> entries, with the key of each
  participant at the slot the permutation gave it.
\<close>

theorem anon_session:
  assumes "n < 2 ^ 32" "0 < n"
    and "\<forall>k < n. NewParticipant (Ok (key k)) (Ok (sg k)) seed (int n) (int k) = Some (Ok (p k))"
    and "\<forall>k < n. SlotSubmission cd (clock k) (p k) sid = Ok (payload k, node k)"
    and "\<forall>k < n. sc_dec cd (sc_enc cd (own_entry (p k))) = Ok (own_entry (p k))" "\<And>m p. sc_dec cd m \<noteq> Panic p"
    and "\<forall>k < n. \<exists>v. map_of (lineageVerifiers r) (sg_Algorithm (sg k)) = Some v \<and> signer_accepts v (sg k) \<and> sg_PublicKey (sg k) \<noteq> []"
    and "mset order = mset [0..<n]" "inj_on sender {..<n}"
    and "gathered cd now nst sid n osg [] st r" "\<forall>m. is_ok (sg_Sign osg m)"
    and "nst \<noteq> StateNone" "map_of (byEntryState r) nst = Some q" "takes_over q"
  shows "\<exists>r' c es. run_all (\<lambda>k. HandleLineageMessage (clock k) sid MsgSlotSubmit (sender k) (payload k) (Some (node k))) order r =
      (replicate (n - 1) (Ok False) @ [Ok True], r') \<and>
    CurrentState r' sid = (nst, True) \<and> session_context_of r' sid = Some c \<and>
    TryGet as_bytes c CtxAssembledSlotList = Some (sc_encList cd es) \<and> length es = n \<and>
    (\<forall>k < n. es ! nat (pt_SlotIndex (p k)) = \<lparr> SlotIndex = pt_SlotIndex (p k), SlotDKPubHex = hex_encode (snd (key k)) \<rparr>)"
proof -
  let ?raw = "map (\<lambda>k. (sender k, payload k)) order"
  have ord: "set order = {..<n}" "length order = n"
    using mset_eq_setD [OF assms(8)] mset_eq_length [OF assms(8)] by (simp_all only: set_upt atLeast0LessThan length_upt diff_zero)
  have slots: "mset (map (\<lambda>k. pt_SlotIndex (p k)) [0..<n]) = mset (map int [0..<n])"
    "\<And>k. k < n \<Longrightarrow> pt_sigSigner (p k) = sg k \<and> pt_SlotPub (p k) = snd (key k)"
    using participants_slots [OF assms(1-3)] by blast+
  have sub: "payload k = sc_enc cd (own_entry (p k)) \<and>
      Commit (clock k) sid ''anon-g-verify'' RoleSlotSubmission (payload k) [] (Some (sg k)) = Ok (node k)" if "k < n" for k
    using assms(4) [rule_format, OF that] slots(2) [OF that] by (auto simp: SlotSubmission_def Let_def split: outcome.splits)
  have dec: "\<forall>k < n. sc_dec cd (payload k) = Ok (own_entry (p k))" using sub assms(5) by simp
  have list: "slots_clean cd ?raw" "length (slot_list cd ?raw) = n"
    "\<forall>k < n. slot_list cd ?raw ! nat (pt_SlotIndex (p k)) = own_entry (p k)"
    using honest_slot_list [OF slots(1) assms(8) dec refl, of sender] by blast+
  have "Verify (node k) (payload k) (lineageVerifiers r) = None \<and> dn_Parents (node k) = []" if "k < n" for k
    using sub [OF that] assms(7) that Verify_Commit Commit_fields(5) by fastforce
  then have ver: "\<forall>k \<in> set order. Verify (node k) (payload k) (lineageVerifiers r) = None \<and> dn_Parents (node k) = []"
    using ord by blast
  have dist: "distinct (map sender order)"
    using assms(9) ord by (simp add: distinct_map) (metis assms(8) distinct_upt mset_eq_imp_distinct_iff)
  have ne: "order \<noteq> []" "slots_clean cd ([] @ ?raw)" "sender ` set order \<inter> keys_of [] = {}" "length [] + length order = n"
    using ord assms(2) list(1) by auto
  obtain r' where "run_all (\<lambda>k. HandleLineageMessage (clock k) sid MsgSlotSubmit (sender k) (payload k) (Some (node k))) order r =
      (replicate (n - 1) (Ok False) @ [Ok True], r')" and fin: "assembled cd nst sid ?raw r'"
    using gathered_run [OF assms(10,6,11,12,13,14) ver dist ne(3,1,4,2), of clock] unfolding ord(2) append_Nil by blast
  moreover obtain c where "session_context_of r' sid = Some c" "CurrentState r' sid = (nst, True)"
    "TryGet as_bytes c CtxAssembledSlotList = Some (sc_encList cd (slot_list cd ?raw))"
    using fin unfolding assembled_def by blast
  moreover have "slot_list cd ?raw ! nat (pt_SlotIndex (p k)) = \<lparr> SlotIndex = pt_SlotIndex (p k), SlotDKPubHex = hex_encode (snd (key k)) \<rparr>"
    if "k < n" for k using list(3) slots(2) that by (simp add: own_entry_def)
  ultimately show ?thesis using list(2) by blast
qed

text \<open>Two participants with the empty seed, and a runner whose one session waits for them.\<close>

definition pair_key :: "nat \<Rightarrow> bytes \<times> bytes" where
  "pair_key k = ([of_nat k], [of_nat k])"

definition pair_runner :: "unit session_runner" where
  "pair_runner = two_runner\<lparr>
     byEntryState := [(StateSubmitting, wait_phase ''submit'' StateSubmitting StateNone)],
     lineageStore := Some NewInMemoryStore, lineageVerifiers := [(''echo'', echo_signer)],
     sessions := [(''s'', \<lparr> trk_ctx = \<lparr> SessionID = ''s'', CohortID = [],
                                        ctx_values = [(CtxAnonParticipants, VStrings [''a'', ''b''])],
                                        ctx_lineageStore = None, ctx_lineageSigner = Some echo_signer \<rparr>,
                            trk_state = StateVerifying, trk_current = Some (PhaseGVerify byte_codec 0 StateSubmitting),
                            trk_entered = True \<rparr>)] \<rparr>"

lemma pair_gathered: "gathered byte_codec 0 StateSubmitting ''s'' 2 echo_signer [] NewInMemoryStore pair_runner"
  by (simp add: gathered_def pair_runner_def TryGet_def AccumulatedMessages_def ctx_Get_def anon_names)

lemma pair_participants:
  "\<exists>p. \<forall>k < 2. NewParticipant (Ok (pair_key k)) (Ok echo_signer) [] (int 2) (int k) = Some (Ok (p k)) \<and>
     0 \<le> pt_SlotIndex (p k) \<and> pt_SlotIndex (p k) < 256"
proof -
  have small: "int (unat (stream_word [] 0)) < 2 ^ 32 - 2" by (simp add: stream_word_empty_seed)
  have "SlotPermutation [] 2 \<noteq> None"
    by (subst SlotPermutation_returns) (auto intro: small_word_drawable [OF small])
  then obtain perm where perm: "SlotPermutation [] 2 = Some (Ok perm)" "mset perm = mset [0..<2]"
    using SlotPermutation_perm [of 2 "[]"] by fastforce
  then have "length perm = 2" and "set perm = set [0..<2]" by (metis length_upt diff_zero mset_eq_length, metis mset_eq_setD)
  then have "\<forall>k < 2. perm ! k < 256" by (metis nth_mem set_upt atLeastLessThan_iff less_trans numeral_less_iff semiring_norm(76) semiring_norm(78))
  then show ?thesis
    using perm(1) \<open>length perm = 2\<close>
    by (intro exI [of _ "\<lambda>k. \<lparr> pt_SlotIndex = int (perm ! k), pt_SlotPub = [of_nat k], pt_slotPriv = [of_nat k], pt_sigSigner = echo_signer \<rparr>"])
       (simp add: NewParticipant_def pair_key_def)
qed

lemma anon_session_witness:
  "\<exists>payload node r' c es.
     run_all (\<lambda>k. HandleLineageMessage 0 ''s'' MsgSlotSubmit (if k = 0 then ''a'' else ''b'') (payload k) (Some (node k))) [1 :: nat, 0] pair_runner
       = ([Ok False, Ok True], r') \<and>
     CurrentState r' ''s'' = (StateSubmitting, True) \<and> session_context_of r' ''s'' = Some c \<and>
     TryGet as_bytes c CtxAssembledSlotList = Some (sc_encList byte_codec es) \<and> length es = 2"
proof -
  obtain p where p: "\<forall>k < 2. NewParticipant (Ok (pair_key k)) (Ok echo_signer) [] (int 2) (int k) = Some (Ok (p k))"
    "\<forall>k < 2. 0 \<le> pt_SlotIndex (p k) \<and> pt_SlotIndex (p k) < 256" using pair_participants by blast
  have signers: "pt_sigSigner (p k) = echo_signer" if "k < 2" for k
    using participants_slots [OF _ _ p(1)] that by simp
  have "\<exists>pn. SlotSubmission byte_codec 0 (p k) ''s'' = Ok pn" if "k < 2" for k
    using echo_Commit_Ok [of 0 "''s''" "''anon-g-verify''" RoleSlotSubmission "sc_enc byte_codec (own_entry (p k))" "[]"] signers [OF that]
    by (auto simp: SlotSubmission_def)
  then obtain pn where pn: "\<forall>k < 2. SlotSubmission byte_codec 0 (p k) ''s'' = Ok (fst (pn k), snd (pn k))" by (metis prod.collapse)
  have law: "\<forall>k < 2. sc_dec byte_codec (sc_enc byte_codec (own_entry (p k))) = Ok (own_entry (p k))"
    using p(2) by (simp add: byte_codec_roundtrip own_entry_def)
  have ord: "mset [1, 0] = mset [0..<2]" by (simp add: numeral_2_eq_2 upt_rec del: mset_upt)
  have "\<exists>r' c es. run_all (\<lambda>k. HandleLineageMessage 0 ''s'' MsgSlotSubmit (if k = 0 then ''a'' else ''b'') (fst (pn k)) (Some (snd (pn k)))) [1, 0] pair_runner =
      (replicate (2 - 1) (Ok False) @ [Ok True], r') \<and>
    CurrentState r' ''s'' = (StateSubmitting, True) \<and> session_context_of r' ''s'' = Some c \<and>
    TryGet as_bytes c CtxAssembledSlotList = Some (sc_encList byte_codec es) \<and> length es = 2 \<and>
    (\<forall>k < 2. es ! nat (pt_SlotIndex (p k)) = \<lparr> SlotIndex = pt_SlotIndex (p k), SlotDKPubHex = hex_encode (snd (pair_key k)) \<rparr>)"
    by (rule anon_session [where clock = "\<lambda>_. 0" and order = "[1, 0]" and sender = "\<lambda>k. if k = 0 then ''a'' else ''b''",
          OF _ _ p(1) pn law byte_codec_panics _ ord _ pair_gathered, where q = "wait_phase ''submit'' StateSubmitting StateNone"])
       (simp_all add: pair_runner_def echo_signer_accepts wait_phase_def takes_over_def state_defs inj_on_def,
        simp_all add: echo_signer_def numeral_2_eq_2)
  then show ?thesis
    by (intro exI [of _ "\<lambda>k. fst (pn k)"] exI [of _ "\<lambda>k. snd (pn k)"]) (simp del: run_all.simps, blast)
qed

end
