(* ===== verification/Transport_Store.thy ===== *)
theory Transport_Store
  imports Lineage Go_Value
begin

text \<open>
  The passive parts of \<^verbatim>\<open>pkg/ares/transport\<close>: the artifact store (\<^verbatim>\<open>artifacts.go\<close>), the per-session
  event ring (\<^verbatim>\<open>events.go\<close>), the log ring (\<^verbatim>\<open>log_stream.go\<close>), the token check (\<^verbatim>\<open>auth.go\<close>) and the
  frame check (\<^verbatim>\<open>validate.go\<close>).

  A \<^verbatim>\<open>time.Time\<close> is its nanoseconds since the epoch, an argument of every operation that reads the
  clock. A channel of the log stream is its identity with the lines queued in it.
\<close>

section \<open>The artifact store\<close>

record artifact_entry =
  ae_data :: bytes
  ae_expires :: int

record artifact_store =
  as_entries :: "(string \<times> artifact_entry) list"
  as_ttl :: int

definition NewArtifactStoreWithTTL :: "int \<Rightarrow> artifact_store" where
  "NewArtifactStoreWithTTL ttl = \<lparr> as_entries = [], as_ttl = ttl \<rparr>"

definition NewArtifactStore :: artifact_store where
  "NewArtifactStore = NewArtifactStoreWithTTL (30 * 60 * 1000000000)"

definition artifact_Put :: "int \<Rightarrow> string \<Rightarrow> bytes \<Rightarrow> artifact_store \<Rightarrow> artifact_store" where
  "artifact_Put now key data s =
     s\<lparr> as_entries := mput key \<lparr> ae_data = data, ae_expires = now + as_ttl s \<rparr> (as_entries s) \<rparr>"

definition artifact_Get :: "int \<Rightarrow> string \<Rightarrow> artifact_store \<Rightarrow> bytes option" where
  "artifact_Get now key s =
     (case map_of (as_entries s) key of
        None \<Rightarrow> None
      | Some e \<Rightarrow> if now > ae_expires e then None else Some (ae_data e))"

definition artifact_Delete :: "string \<Rightarrow> artifact_store \<Rightarrow> artifact_store" where
  "artifact_Delete key s = s\<lparr> as_entries := mdel key (as_entries s) \<rparr>"

definition artifact_Sweep :: "int \<Rightarrow> artifact_store \<Rightarrow> nat \<times> artifact_store" where
  "artifact_Sweep now s =
     (length (filter (\<lambda>(k, e). now > ae_expires e) (as_entries s)),
      s\<lparr> as_entries := filter (\<lambda>(k, e). \<not> now > ae_expires e) (as_entries s) \<rparr>)"

definition artifact_Resolve :: "int \<Rightarrow> string \<Rightarrow> artifact_store \<Rightarrow> (string, bytes) outcome" where
  "artifact_Resolve now key s =
     (case artifact_Get now key s of Some d \<Rightarrow> Ok d | None \<Rightarrow> Err (''artifact not found: '' @ key))"

definition ContentKey :: "bytes \<Rightarrow> string" where
  "ContentKey handle = ''content:'' @ hex_encode handle"

datatype content_err = ContentNotFound bytes | ErrCorrupted

definition PutContent :: "int \<Rightarrow> bytes \<Rightarrow> artifact_store \<Rightarrow> bytes \<times> artifact_store" where
  "PutContent now data s =
     (let handle = sha256 data in (handle, artifact_Put now (ContentKey handle) data s))"

definition GetContent :: "int \<Rightarrow> bytes \<Rightarrow> artifact_store \<Rightarrow> (content_err, bytes) outcome" where
  "GetContent now handle s =
     (case artifact_Get now (ContentKey handle) s of
        None \<Rightarrow> Err (ContentNotFound handle)
      | Some data \<Rightarrow> if sha256 data \<noteq> handle then Err ErrCorrupted else Ok data)"

section \<open>The event ring\<close>

record session_event =
  se_Time :: int
  se_SessionID :: string
  se_Type :: string
  se_From :: string
  se_Error :: string

record session_event_ring =
  er_cap :: int
  er_ring :: "(string \<times> session_event list) list"

definition NewSessionEventRing :: "int \<Rightarrow> session_event_ring" where
  "NewSessionEventRing cap = \<lparr> er_cap = (if cap \<le> 0 then 128 else cap), er_ring = [] \<rparr>"

definition ring_events :: "session_event_ring \<Rightarrow> string \<Rightarrow> session_event list" where
  "ring_events r sid = (case map_of (er_ring r) sid of None \<Rightarrow> [] | Some es \<Rightarrow> es)"

text \<open>A nil ring accepts every call and records nothing.\<close>

definition ring_Record ::
  "int \<Rightarrow> string \<Rightarrow> string \<Rightarrow> string \<Rightarrow> string \<Rightarrow> session_event_ring option \<Rightarrow> session_event_ring option" where
  "ring_Record now sessionID msgType from errStr ro =
     (case ro of
        None \<Rightarrow> None
      | Some r \<Rightarrow>
          (let ev = \<lparr> se_Time = now, se_SessionID = sessionID, se_Type = msgType, se_From = from, se_Error = errStr \<rparr>;
               events = ring_events r sessionID;
               events1 = (if int (length events) \<ge> er_cap r \<and> er_cap r > 0 then tl events else events)
           in Some (r\<lparr> er_ring := mput sessionID (events1 @ [ev]) (er_ring r) \<rparr>)))"

definition ring_Events :: "string \<Rightarrow> session_event_ring option \<Rightarrow> session_event list option" where
  "ring_Events sessionID ro =
     (case ro of None \<Rightarrow> None | Some r \<Rightarrow> map_of (er_ring r) sessionID)"

definition ring_Prune :: "(string \<Rightarrow> bool) \<Rightarrow> session_event_ring option \<Rightarrow> session_event_ring option" where
  "ring_Prune active ro =
     (case ro of
        None \<Rightarrow> None
      | Some r \<Rightarrow> Some (r\<lparr> er_ring := filter (\<lambda>(id, _). active id) (er_ring r) \<rparr>))"

section \<open>The log ring\<close>

definition logRingSize :: nat where
  "logRingSize = 4000"

record log_stream =
  ls_ring :: "string list"
  ls_pos :: nat
  ls_full :: bool
  ls_subs :: "(nat \<times> string list) list"
  ls_next :: nat

definition NewLogStream :: log_stream where
  "NewLogStream =
     \<lparr> ls_ring = replicate logRingSize [], ls_pos = 0, ls_full = False, ls_subs = [], ls_next = 0 \<rparr>"

definition trim_right :: "char \<Rightarrow> string \<Rightarrow> string" where
  "trim_right c s = rev (dropWhile (\<lambda>x. x = c) (rev s))"

definition newline :: char where
  "newline = CHR 0x0A"

text \<open>A subscriber whose 512-line queue is full misses the line.\<close>

definition log_Write :: "string \<Rightarrow> log_stream \<Rightarrow> log_stream" where
  "log_Write p ls =
     (let line = trim_right newline p; pos = (ls_pos ls + 1) mod logRingSize
      in ls\<lparr> ls_ring := (ls_ring ls)[ls_pos ls := line], ls_pos := pos,
             ls_full := (if pos = 0 then True else ls_full ls),
             ls_subs := map (\<lambda>(ch, q). (ch, if length q < 512 then q @ [line] else q)) (ls_subs ls) \<rparr>)"

definition log_buffered :: "log_stream \<Rightarrow> string list" where
  "log_buffered ls =
     filter (\<lambda>l. l \<noteq> [])
       ((if ls_full ls then drop (ls_pos ls) (ls_ring ls) else []) @ take (ls_pos ls) (ls_ring ls))"

definition log_subscribe :: "log_stream \<Rightarrow> nat \<times> log_stream" where
  "log_subscribe ls =
     (ls_next ls, ls\<lparr> ls_subs := mput (ls_next ls) [] (ls_subs ls), ls_next := ls_next ls + 1 \<rparr>)"

definition log_unsubscribe :: "nat \<Rightarrow> log_stream \<Rightarrow> log_stream" where
  "log_unsubscribe ch ls = ls\<lparr> ls_subs := mdel ch (ls_subs ls) \<rparr>"

fun split_on :: "char \<Rightarrow> string \<Rightarrow> string list" where
  "split_on c [] = [[]]"
| "split_on c (x # xs) =
     (if x = c then [] # split_on c xs
      else case split_on c xs of [] \<Rightarrow> [[x]] | (p # ps) \<Rightarrow> (x # p) # ps)"

definition writeSSE :: "string \<Rightarrow> string" where
  "writeSSE line =
     concat (map (\<lambda>part. ''data: '' @ trim_right (CHR 0x0D) part @ [newline]) (split_on newline line)) @ [newline]"

section \<open>Tokens and frames\<close>

record auth_middleware =
  am_Secret :: bytes
  am_AllowDevBypass :: bool

definition GenerateToken :: "auth_middleware \<Rightarrow> string \<Rightarrow> string" where
  "GenerateToken m pseudonym = hex_encode (hmac_sha256 (am_Secret m) (str_bytes pseudonym))"

definition ValidateToken :: "auth_middleware \<Rightarrow> string \<Rightarrow> string \<Rightarrow> bool" where
  "ValidateToken m pseudonym token =
     (if am_Secret m = [] then am_AllowDevBypass m
      else hex_encode (hmac_sha256 (am_Secret m) (str_bytes pseudonym)) = token)"

definition WireProtocolVersion :: string where
  "WireProtocolVersion = ''1''"

definition WireProtocolVersionLineage :: string where
  "WireProtocolVersionLineage = ''2''"

record ws_message =
  ws_Version :: string
  ws_Type :: string
  ws_SessionID :: string
  ws_Seq :: int
  ws_Payload :: bytes
  ws_Timestamp :: string
  ws_Lineage :: "dag_node option"

datatype frame_err = LineageRequired | UnknownVersion string

definition ValidateInboundMessage :: "ws_message \<Rightarrow> frame_err option" where
  "ValidateInboundMessage msg =
     (let v = (if ws_Version msg = [] then WireProtocolVersion else ws_Version msg)
      in if v = WireProtocolVersion then None
         else if v = WireProtocolVersionLineage
         then (if ws_Lineage msg = None then Some LineageRequired else None)
         else Some (UnknownVersion v))"

section \<open>Artifacts: facts\<close>

lemma artifact_Get_Put:
  "artifact_Get now' k (artifact_Put now key data s) =
     (if k = key then (if now' > now + as_ttl s then None else Some data) else artifact_Get now' k s)"
  by (simp add: artifact_Get_def artifact_Put_def)

lemma artifact_Get_Delete:
  "artifact_Get now k (artifact_Delete key s) = (if k = key then None else artifact_Get now k s)"
  by (simp add: artifact_Get_def artifact_Delete_def)

lemma artifact_Get_Sweep:
  assumes "map_wf (as_entries s)" and "now \<le> now'"
  shows "artifact_Get now' k (snd (artifact_Sweep now s)) = artifact_Get now' k s"
proof -
  have "map_of (filter (\<lambda>(k, e). \<not> now > ae_expires e) m) k =
      (case map_of m k of None \<Rightarrow> None | Some e \<Rightarrow> if now > ae_expires e then None else Some e)"
    if "map_wf m" for m :: "(string \<times> artifact_entry) list"
    using that by (induction m) (auto simp: map_wf_def image_iff split: option.splits dest!: map_of_SomeD)
  with assms show ?thesis
    by (auto simp: artifact_Get_def artifact_Sweep_def split: option.split)
qed

text \<open>
  The content-addressed half of the artifact store: what \<^verbatim>\<open>PutContent\<close> stores is what
  \<^verbatim>\<open>GetContent\<close> returns for its handle until the time to live is over, and whatever the store holds,
  \<^verbatim>\<open>GetContent\<close> never returns bytes that do not hash to the handle.
\<close>

theorem content_addressed:
  "(PutContent now data s = (h, s') \<longrightarrow> h = sha256 data \<and>
      (now' \<le> now + as_ttl s \<longrightarrow> GetContent now' h s' = Ok data) \<and>
      (now' > now + as_ttl s \<longrightarrow> GetContent now' h s' = Err (ContentNotFound h))) \<and>
   (GetContent t handle st = Ok d \<longrightarrow> sha256 d = handle)"
  by (auto simp: PutContent_def GetContent_def Let_def artifact_Get_Put split: option.splits if_splits)

lemma content_addressed_witness:
  "GetContent 10 (sha256 [1]) (snd (PutContent 0 [1] NewArtifactStore)) = Ok [1]"
  using content_addressed [of 0 "[1]" NewArtifactStore "sha256 [1]" "snd (PutContent 0 [1] NewArtifactStore)" 10
      0 "[]" NewArtifactStore "[]"]
  by (simp add: PutContent_def Let_def NewArtifactStore_def NewArtifactStoreWithTTL_def)

text \<open>
  A sweep is invisible to readers: at the time of the sweep and later every key reads the
  same before and after it; it keeps exactly the entries that have not expired and reports
  how many it removed.
\<close>

theorem sweep_invisible:
  assumes "map_wf (as_entries s)" and "artifact_Sweep now s = (n, s')" and "now \<le> now'"
  shows "artifact_Get now' k s' = artifact_Get now' k s \<and>
    n + length (as_entries s') = length (as_entries s) \<and> map_wf (as_entries s') \<and>
    set (as_entries s') = {(k, e) \<in> set (as_entries s). now \<le> ae_expires e}"
proof -
  have s': "s' = snd (artifact_Sweep now s)" and n: "n = fst (artifact_Sweep now s)" using assms(2) by simp_all
  have "n + length (as_entries s') = length (as_entries s)"
    using sum_length_filter_compl [of "\<lambda>(k, e). now > ae_expires e" "as_entries s"]
    by (simp add: s' n artifact_Sweep_def case_prod_unfold)
  moreover have "map_wf (as_entries s')"
    using assms(1) by (simp add: s' artifact_Sweep_def map_wf_def distinct_map_filter)
  moreover have "set (as_entries s') = {(k, e) \<in> set (as_entries s). now \<le> ae_expires e}"
    by (auto simp: s' artifact_Sweep_def)
  ultimately show ?thesis using artifact_Get_Sweep [OF assms(1,3)] by (simp add: s')
qed

lemma sweep_invisible_witness:
  "artifact_Get 9 ''b'' (snd (artifact_Sweep 6 (artifact_Put 5 ''b'' [2] (artifact_Put 0 ''a'' [1] (NewArtifactStoreWithTTL 5))))) = Some [2]"
  using sweep_invisible [of "artifact_Put 5 ''b'' [2] (artifact_Put 0 ''a'' [1] (NewArtifactStoreWithTTL 5))" 6 _ _ 9 "''b''",
      OF _ surjective_pairing]
  by (simp add: artifact_Put_def NewArtifactStoreWithTTL_def map_wf_def artifact_Get_def)

section \<open>Events: facts\<close>

type_synonym event_args = "int \<times> string \<times> string \<times> string \<times> string"

definition record_all :: "event_args list \<Rightarrow> session_event_ring option \<Rightarrow> session_event_ring option" where
  "record_all evs r = fold (\<lambda>(now, sid, ty, from, e). ring_Record now sid ty from e) evs r"

definition event_of :: "event_args \<Rightarrow> session_event" where
  "event_of = (\<lambda>(now, sid, ty, from, e).
     \<lparr> se_Time = now, se_SessionID = sid, se_Type = ty, se_From = from, se_Error = e \<rparr>)"

definition last_n :: "nat \<Rightarrow> 'a list \<Rightarrow> 'a list" where
  "last_n n xs = drop (length xs - n) xs"

lemma last_n_snoc:
  assumes "0 < n"
  shows "last_n n (xs @ [x]) = (if length (last_n n xs) \<ge> n then tl (last_n n xs) else last_n n xs) @ [x]"
  using assms by (auto simp: last_n_def drop_Suc tl_drop Suc_diff_le)

lemma ring_Record_Some:
  "ring_Record now sid ty from e (Some r) =
     Some (r\<lparr> er_ring := mput sid ((if int (length (ring_events r sid)) \<ge> er_cap r \<and> er_cap r > 0
        then tl (ring_events r sid) else ring_events r sid) @ [event_of (now, sid, ty, from, e)]) (er_ring r) \<rparr>)"
  by (simp add: ring_Record_def Let_def event_of_def)

text \<open>
  The event ring is a bounded log: after any sequence of records into a fresh ring, the
  events of a session are the last ones recorded for it, in order, at most as many as the
  capacity (128 when a capacity of zero or less was asked for), whatever the other sessions
  recorded.
\<close>

theorem event_ring_keeps_last:
  "ring_Events sid (record_all evs (Some (NewSessionEventRing cap))) =
     (if \<exists>a \<in> set evs. fst (snd a) = sid
      then Some (last_n (nat (if cap \<le> 0 then 128 else cap)) (map event_of (filter (\<lambda>a. fst (snd a) = sid) evs)))
      else None)"
proof -
  let ?cap = "if cap \<le> 0 then 128 else cap"
  have "\<exists>r. record_all evs (Some (NewSessionEventRing cap)) = Some r \<and> er_cap r = ?cap \<and>
    map_of (er_ring r) sid = (if \<exists>a \<in> set evs. fst (snd a) = sid
      then Some (last_n (nat ?cap) (map event_of (filter (\<lambda>a. fst (snd a) = sid) evs))) else None)"
  proof (induction evs rule: rev_induct)
    case Nil
    then show ?case by (simp add: record_all_def NewSessionEventRing_def)
  next
    case (snoc a evs)
    obtain now sid' ty sender e where a: "a = (now, sid', ty, sender, e)" by (metis prod_cases5)
    let ?es = "map event_of (filter (\<lambda>a. fst (snd a) = sid) evs)"
    obtain r where r: "record_all evs (Some (NewSessionEventRing cap)) = Some r" "er_cap r = ?cap"
      "map_of (er_ring r) sid = (if \<exists>a \<in> set evs. fst (snd a) = sid then Some (last_n (nat ?cap) ?es) else None)"
      using snoc by blast
    have step: "record_all (evs @ [a]) (Some (NewSessionEventRing cap)) = ring_Record now sid' ty sender e (Some r)"
      using r(1) by (simp add: record_all_def a)
    have pos: "0 < nat ?cap" by auto
    have ev: "ring_events r sid = last_n (nat ?cap) ?es"
    proof (cases "\<exists>a \<in> set evs. fst (snd a) = sid")
      case False
      then have "?es = []" by (auto simp: filter_empty_conv)
      then show ?thesis using r(3) False by (simp add: ring_events_def last_n_def)
    qed (use r(3) in \<open>simp add: ring_events_def\<close>)
    have len: "int (length (ring_events r sid)) \<ge> er_cap r \<longleftrightarrow> length (last_n (nat ?cap) ?es) \<ge> nat ?cap"
      unfolding ev r(2) using pos by linarith
    have cpos: "er_cap r > 0" using r(2) pos by simp
    show ?case
    proof (cases "sid' = sid")
      case True
      have "last_n (nat ?cap) (map event_of (filter (\<lambda>a. fst (snd a) = sid) (evs @ [a])))
          = (if length (last_n (nat ?cap) ?es) \<ge> nat ?cap then tl (last_n (nat ?cap) ?es) else last_n (nat ?cap) ?es) @ [event_of a]"
        using last_n_snoc [OF pos, of ?es "event_of a"] by (simp add: a True)
      then show ?thesis
        unfolding step ring_Record_Some using True len cpos ev r(2) a by simp
    next
      case False
      then show ?thesis unfolding step ring_Record_Some using r(2,3) a by simp
    qed
  qed
  then obtain r where "record_all evs (Some (NewSessionEventRing cap)) = Some r"
    "map_of (er_ring r) sid = (if \<exists>a \<in> set evs. fst (snd a) = sid
      then Some (last_n (nat ?cap) (map event_of (filter (\<lambda>a. fst (snd a) = sid) evs))) else None)"
    by blast
  then show ?thesis by (simp only: ring_Events_def option.case)
qed

lemma event_ring_keeps_last_witness:
  "ring_Events ''s'' (record_all [(1, ''s'', ''a'', ''x'', []), (2, ''s'', ''b'', ''x'', [])]
      (Some (NewSessionEventRing 1))) = Some [event_of (2, ''s'', ''b'', ''x'', [])]"
  using event_ring_keeps_last [of "''s''" "[(1, ''s'', ''a'', ''x'', []), (2, ''s'', ''b'', ''x'', [])]" 1]
  by (simp add: last_n_def)

section \<open>Log lines: facts\<close>

lemma logRingSize_pos: "0 < logRingSize"
  by (simp add: logRingSize_def)

text \<open>What the ring holds after the lines \<open>ls\<close>, oldest first.\<close>

definition log_holds :: "log_stream \<Rightarrow> string list \<Rightarrow> bool" where
  "log_holds l ls \<longleftrightarrow>
     length (ls_ring l) = logRingSize \<and> ls_pos l = length ls mod logRingSize \<and>
     ls_full l = (length ls \<ge> logRingSize) \<and>
     (if ls_full l then drop (ls_pos l) (ls_ring l) else []) @ take (ls_pos l) (ls_ring l) = last_n logRingSize ls"

lemma log_holds_Write:
  assumes "log_holds l ls"
  shows "log_holds (log_Write p l) (ls @ [trim_right newline p])"
proof -
  let ?N = logRingSize and ?x = "trim_right newline p" and ?n = "length ls"
  let ?A = "drop (ls_pos l) (ls_ring l)" and ?B = "take (ls_pos l) (ls_ring l)"
  have len: "length (ls_ring l) = ?N" and pos: "ls_pos l = ?n mod ?N" and full: "ls_full l = (?n \<ge> ?N)"
    using assms by (auto simp: log_holds_def)
  have lt: "ls_pos l < ?N" using pos logRingSize_pos by simp
  have ring: "(ls_ring l)[ls_pos l := ?x] = ?B @ ?x # tl ?A"
    using lt len by (metis upd_conv_take_nth_drop drop_Suc tl_drop)
  have lenB: "length ?B = ls_pos l" and A: "?A \<noteq> []" using lt len by simp_all
  have pos': "(ls_pos l + 1) mod ?N = (?n + 1) mod ?N" using pos by (simp add: mod_Suc_eq)
  have W: "ls_ring (log_Write p l) = ?B @ ?x # tl ?A" "ls_pos (log_Write p l) = (?n + 1) mod ?N"
    "ls_full (log_Write p l) = (if (?n + 1) mod ?N = 0 then True else ls_full l)"
    using ring pos' by (simp_all add: log_Write_def Let_def)
  have full': "ls_full (log_Write p l) = (?n + 1 \<ge> ?N)"
  proof (cases "?n + 1 \<ge> ?N")
    case True
    then show ?thesis using W(3) full by (cases "?n \<ge> ?N") (auto simp: le_Suc_eq)
  next
    case False
    then show ?thesis using W(3) full by simp
  qed
  have lenW: "length (ls_ring (log_Write p l)) = ?N" using W(1) lenB A len lt by simp
  have body: "(if ?n + 1 \<ge> ?N then drop ((?n + 1) mod ?N) (?B @ ?x # tl ?A) else [])
      @ take ((?n + 1) mod ?N) (?B @ ?x # tl ?A) = last_n ?N (ls @ [?x])"
  proof (cases "?n \<ge> ?N")
    case False
    then have "?B = ls" "ls_pos l = ?n" "last_n ?N ls = ls"
      using assms full pos by (auto simp: log_holds_def last_n_def)
    then show ?thesis using False len lt
      by (cases "?n + 1 = ?N") (auto simp: last_n_def simp flip: length_0_conv)
  next
    case True
    then have AB: "last_n ?N ls = ?A @ ?B" using assms full by (auto simp: log_holds_def)
    have "length (last_n ?N ls) = ?N" using True by (simp add: last_n_def)
    then have "last_n ?N (ls @ [?x]) = tl (?A @ ?B) @ [?x]"
      using last_n_snoc [OF logRingSize_pos, of ls ?x] AB by simp
    then have last: "last_n ?N (ls @ [?x]) = tl ?A @ ?B @ [?x]" using A by (simp add: tl_append2)
    show ?thesis
    proof (cases "ls_pos l + 1 = ?N")
      case True
      then have "(?n + 1) mod ?N = 0" "tl ?A = []" using pos' len
        by (simp_all flip: length_0_conv)
      then show ?thesis using last \<open>?n \<ge> ?N\<close> by simp
    next
      case False
      then have "(?n + 1) mod ?N = ls_pos l + 1" using pos' lt by (metis Suc_eq_plus1 Suc_lessI mod_less)
      then show ?thesis using last \<open>?n \<ge> ?N\<close> lenB by simp
    qed
  qed
  show ?thesis
    unfolding log_holds_def full' W(2) length_append list.size
    using lenW body unfolding W(1) by simp
qed

text \<open>
  The log buffer is the tail of the log: after any sequence of writes, what a new
  subscriber is shown is the last 4000 lines written (each stripped of its trailing newlines),
  oldest first, without the empty ones.
\<close>

theorem log_buffer_is_tail:
  "log_buffered (fold log_Write ps NewLogStream) =
     filter (\<lambda>l. l \<noteq> []) (last_n logRingSize (map (trim_right newline) ps))"
proof -
  have "log_holds (fold log_Write ps NewLogStream) (map (trim_right newline) ps)"
  proof (induction ps rule: rev_induct)
    case Nil
    then show ?case using logRingSize_pos by (simp add: log_holds_def NewLogStream_def last_n_def)
  qed (simp add: log_holds_Write)
  then show ?thesis unfolding log_holds_def log_buffered_def by (elim conjE) metis
qed

lemma split_on_no_sep: "c \<notin> set s \<Longrightarrow> split_on c s = [s]"
  by (induction s) auto

lemma split_on_append: "c \<notin> set s \<Longrightarrow> split_on c (s @ c # t) = s # split_on c t"
  by (induction s) auto

lemma split_on_parts: "part \<in> set (split_on c s) \<Longrightarrow> c \<notin> set part"
proof (induction s arbitrary: part)
  case (Cons x xs)
  then show ?case by (cases "split_on c xs") (auto split: if_splits)
qed simp

lemma set_trim_right: "set (trim_right c s) \<subseteq> set s"
  by (auto simp: trim_right_def dest: set_dropWhileD)

lemma split_on_lines:
  assumes "\<forall>p \<in> set parts. newline \<notin> set p"
  shows "split_on newline (concat (map (\<lambda>p. p @ [newline]) parts) @ rest) = parts @ split_on newline rest"
  using assms by (induction parts) (auto simp: split_on_append)

text \<open>
  A log line cannot forge a server-sent event: whatever characters the line has, the text
  written for it consists of one \<^verbatim>\<open>data:\<close> line for each part between its newlines, followed by the
  single blank line that ends the event.
\<close>

theorem sse_no_injection:
  "split_on newline (writeSSE line) =
     map (\<lambda>part. ''data: '' @ trim_right (CHR 0x0D) part) (split_on newline line) @ [[], []]"
proof -
  let ?ps = "map (\<lambda>part. ''data: '' @ trim_right (CHR 0x0D) part) (split_on newline line)"
  have "newline \<notin> set p" if "p \<in> set ?ps" for p
    using that split_on_parts set_trim_right by (fastforce simp: newline_def)
  moreover have "writeSSE line = concat (map (\<lambda>p. p @ [newline]) ?ps) @ [newline]"
    by (simp add: writeSSE_def comp_def)
  ultimately show ?thesis using split_on_lines [of ?ps "[newline]"] by simp
qed

section \<open>Tokens: facts\<close>

text \<open>
  With a secret set, exactly the generated token of a pseudonym is accepted for it, and a
  token accepted for two pseudonyms means that they are equal or that the HMAC's SHA-256
  inputs for them collide; with no secret the answer is the dev-bypass flag, whatever the token.
\<close>

theorem token_spec:
  "(am_Secret m \<noteq> [] \<longrightarrow>
      (ValidateToken m p t \<longleftrightarrow> t = GenerateToken m p) \<and>
      (ValidateToken m p t \<and> ValidateToken m q t \<longrightarrow> p = q \<or>
         sha_collision (hmac_inner (am_Secret m) (str_bytes p)) (hmac_inner (am_Secret m) (str_bytes q)) \<or>
         sha_collision (hmac_outer (am_Secret m) (str_bytes p)) (hmac_outer (am_Secret m) (str_bytes q)))) \<and>
   (am_Secret m = [] \<longrightarrow> ValidateToken m p t = am_AllowDevBypass m)"
proof (intro conjI impI)
  assume sec: "am_Secret m \<noteq> []"
  then show iff: "ValidateToken m p t \<longleftrightarrow> t = GenerateToken m p"
    by (auto simp: ValidateToken_def GenerateToken_def)
  assume both: "ValidateToken m p t \<and> ValidateToken m q t"
  then have "hmac_sha256 (am_Secret m) (str_bytes p) = hmac_sha256 (am_Secret m) (str_bytes q)"
    using sec hex_encode_inj by (auto simp: ValidateToken_def)
  then show "p = q \<or>
      sha_collision (hmac_inner (am_Secret m) (str_bytes p)) (hmac_inner (am_Secret m) (str_bytes q)) \<or>
      sha_collision (hmac_outer (am_Secret m) (str_bytes p)) (hmac_outer (am_Secret m) (str_bytes q))"
    using hmac_sha256_eqD [of "am_Secret m" "str_bytes p" "str_bytes q"] by simp
next
  assume "am_Secret m = []"
  then show "ValidateToken m p t = am_AllowDevBypass m" by (simp add: ValidateToken_def)
qed

lemma token_spec_witness:
  "ValidateToken \<lparr> am_Secret = [1], am_AllowDevBypass = False \<rparr> ''alice''
     (GenerateToken \<lparr> am_Secret = [1], am_AllowDevBypass = False \<rparr> ''alice'')"
  using token_spec [of "\<lparr> am_Secret = [1], am_AllowDevBypass = False \<rparr>" "''alice''"
      "GenerateToken \<lparr> am_Secret = [1], am_AllowDevBypass = False \<rparr> ''alice''"]
  by simp

end
