(* ===== verification/Transport_Hub.thy ===== *)
theory Transport_Hub
  imports Transport_Store
begin

text \<open>
  \<^verbatim>\<open>pkg/ares/transport/rate_limit.go\<close> and \<^verbatim>\<open>hub.go\<close>: the token bucket of a connection and the WebSocket
  hub: who is connected, which frames reach the message handler, and what is queued for whom.

  A connection has an identity of its own (\<open>conns\<close>), because the hub's map of clients is keyed by
  pseudonym and a second connection under the same pseudonym replaces the first one there while
  both live. The send channel of a client is its queue. What the network and \<^verbatim>\<open>encoding/json\<close> do is
  an argument: whether the upgrade succeeded, the parsed frame (or \<open>None\<close> for text that does not
  parse), the rendering of an outgoing message, and the text of the time stamp. Logging is left
  out.
\<close>

section \<open>The token bucket\<close>

record rate_limiter =
  rl_capacity :: f64
  rl_refillRate :: f64
  rl_tokens :: f64
  rl_lastTick :: int

text \<open>\<^verbatim>\<open>time.Time.Sub\<close> saturates at the range of a \<^verbatim>\<open>time.Duration\<close>, an \<^verbatim>\<open>int64\<close> of nanoseconds.\<close>

definition time_Sub :: "int \<Rightarrow> int \<Rightarrow> int" where
  "time_Sub t u = max (- (2 ^ 63)) (min (2 ^ 63 - 1) (t - u))"

definition duration_Seconds :: "int \<Rightarrow> f64" where
  "duration_Seconds d =
     (let sec = sgn d * (\<bar>d\<bar> div 1000000000); nsec = sgn d * (\<bar>d\<bar> mod 1000000000)
      in f_add (f_of_int sec) (f_div (f_of_int nsec) 1000000000))"

definition newRateLimiter :: "f64 \<Rightarrow> f64 \<Rightarrow> int \<Rightarrow> rate_limiter option" where
  "newRateLimiter rate burst now =
     (if f_le rate (Fin 0) \<or> f_le burst (Fin 0) then None
      else Some \<lparr> rl_capacity = burst, rl_refillRate = rate, rl_tokens = burst, rl_lastTick = now \<rparr>)"

definition refill :: "int \<Rightarrow> rate_limiter \<Rightarrow> rate_limiter" where
  "refill now rl =
     (let elapsed = duration_Seconds (time_Sub now (rl_lastTick rl)) in
      if f_lt (Fin 0) elapsed
      then let tokens = f_add (rl_tokens rl) (f_mul elapsed (rl_refillRate rl))
           in rl\<lparr> rl_tokens := (if f_lt (rl_capacity rl) tokens then rl_capacity rl else tokens),
                  rl_lastTick := now \<rparr>
      else rl)"

definition limiter_Allow :: "int \<Rightarrow> rate_limiter option \<Rightarrow> bool \<times> rate_limiter option" where
  "limiter_Allow now lo =
     (case lo of
        None \<Rightarrow> (True, None)
      | Some rl \<Rightarrow>
          (let rl1 = refill now rl in
           if f_ge (rl_tokens rl1) (Fin 1)
           then (True, Some (rl1\<lparr> rl_tokens := f_sub (rl_tokens rl1) (Fin 1) \<rparr>))
           else (False, Some rl1)))"

section \<open>The hub\<close>

definition SendBufferSize :: nat where
  "SendBufferSize = 256"

definition DefaultMaxMessageSize :: int where
  "DefaultMaxMessageSize = 32 * 2 ^ 20"

record client =
  cl_Pseudonym :: string
  cl_Send :: "bytes list"
  cl_limiter :: "rate_limiter option"

record hub_options =
  ho_AllowedOrigins :: "string list"
  ho_AllowAnyOrigin :: bool
  ho_MaxMessageSize :: int
  ho_InboundRate :: f64
  ho_InboundBurst :: f64

record hub =
  hub_clients :: "(string \<times> nat) list"
  hub_conns :: "(nat \<times> client) list"
  hub_next :: nat
  hub_auth :: auth_middleware
  hub_allowed :: "string list"
  hub_allowAny :: bool
  hub_maxMessageSize :: int
  hub_inboundRate :: f64
  hub_inboundBurst :: f64
  hub_seqHigh :: "(string \<times> int) list"

definition NewHubWithOptions :: "auth_middleware \<Rightarrow> hub_options \<Rightarrow> hub" where
  "NewHubWithOptions auth opts =
     \<lparr> hub_clients = [], hub_conns = [], hub_next = 0, hub_auth = auth,
       hub_allowed = ho_AllowedOrigins opts, hub_allowAny = ho_AllowAnyOrigin opts,
       hub_maxMessageSize = (if ho_MaxMessageSize opts \<le> 0 then DefaultMaxMessageSize else ho_MaxMessageSize opts),
       hub_inboundRate = ho_InboundRate opts, hub_inboundBurst = ho_InboundBurst opts, hub_seqHigh = [] \<rparr>"

definition NewHub :: "auth_middleware \<Rightarrow> hub" where
  "NewHub auth = NewHubWithOptions auth
     \<lparr> ho_AllowedOrigins = [], ho_AllowAnyOrigin = True, ho_MaxMessageSize = 0,
       ho_InboundRate = Fin 0, ho_InboundBurst = Fin 0 \<rparr>"

definition CheckOrigin :: "hub \<Rightarrow> string \<Rightarrow> bool" where
  "CheckOrigin h origin \<longleftrightarrow>
     origin = [] \<or> (hub_allowAny h \<and> hub_allowed h = []) \<or> origin \<in> set (hub_allowed h)"

definition seq_key :: "string \<Rightarrow> ws_message \<Rightarrow> string" where
  "seq_key pseudonym msg = ws_SessionID msg @ ''|'' @ pseudonym @ ''|'' @ ws_Type msg"

definition checkAndRecordSeq :: "string \<Rightarrow> ws_message \<Rightarrow> hub \<Rightarrow> bool \<times> hub" where
  "checkAndRecordSeq pseudonym msg h =
     (if ws_Seq msg = 0 then (True, h)
      else
        (let key = seq_key pseudonym msg in
         case map_of (hub_seqHigh h) key of
           Some last_seq \<Rightarrow>
             if ws_Seq msg \<le> last_seq then (False, h)
             else (True, h\<lparr> hub_seqHigh := mput key (ws_Seq msg) (hub_seqHigh h) \<rparr>)
         | None \<Rightarrow> (True, h\<lparr> hub_seqHigh := mput key (ws_Seq msg) (hub_seqHigh h) \<rparr>)))"

datatype ws_result = BadRequest | Unauthorized | UpgradeFailed | Connected nat

definition HandleWS :: "int \<Rightarrow> string \<Rightarrow> string \<Rightarrow> string \<Rightarrow> bool \<Rightarrow> hub \<Rightarrow> ws_result \<times> hub" where
  "HandleWS now pseudonym token origin upgrade_ok h =
     (if pseudonym = [] then (BadRequest, h)
      else if \<not> ValidateToken (hub_auth h) pseudonym token then (Unauthorized, h)
      else if \<not> (CheckOrigin h origin \<and> upgrade_ok) then (UpgradeFailed, h)
      else
        (let cid = hub_next h;
             c = \<lparr> cl_Pseudonym = pseudonym, cl_Send = [],
                   cl_limiter = newRateLimiter (hub_inboundRate h) (hub_inboundBurst h) now \<rparr>
         in (Connected cid,
             h\<lparr> hub_clients := mput pseudonym cid (hub_clients h),
                hub_conns := mput cid c (hub_conns h), hub_next := cid + 1 \<rparr>)))"

text \<open>One turn of the loop of \<^verbatim>\<open>readPump\<close>, for a frame read from connection \<open>cid\<close>.\<close>

datatype frame_result =
    NoSuchConnection | BadJson | Invalid frame_err | Replayed | RateLimited | Delivered string ws_message

definition readPump_frame :: "int \<Rightarrow> nat \<Rightarrow> ws_message option \<Rightarrow> hub \<Rightarrow> frame_result \<times> hub" where
  "readPump_frame now cid parsed h =
     (case map_of (hub_conns h) cid of
        None \<Rightarrow> (NoSuchConnection, h)
      | Some c \<Rightarrow>
          (case parsed of
             None \<Rightarrow> (BadJson, h)
           | Some msg \<Rightarrow>
               (case ValidateInboundMessage msg of
                  Some e \<Rightarrow> (Invalid e, h)
                | None \<Rightarrow>
                    (let (fresh, h1) = checkAndRecordSeq (cl_Pseudonym c) msg h in
                     if \<not> fresh then (Replayed, h1)
                     else
                       (let (allow, l) = limiter_Allow now (cl_limiter c);
                            h2 = h1\<lparr> hub_conns := mput cid (c\<lparr> cl_limiter := l \<rparr>) (hub_conns h1) \<rparr>
                        in if \<not> allow then (RateLimited, h2) else (Delivered (cl_Pseudonym c) msg, h2))))))"

text \<open>The deferred function of \<^verbatim>\<open>readPump\<close>, when the connection ends.\<close>

definition readPump_close :: "nat \<Rightarrow> hub \<Rightarrow> hub" where
  "readPump_close cid h =
     (case map_of (hub_conns h) cid of
        None \<Rightarrow> h
      | Some c \<Rightarrow>
          h\<lparr> hub_clients := mdel (cl_Pseudonym c) (hub_clients h), hub_conns := mdel cid (hub_conns h) \<rparr>)"

text \<open>\<^verbatim>\<open>writePump\<close> takes the oldest queued message.\<close>

definition writePump_take :: "nat \<Rightarrow> hub \<Rightarrow> bytes option \<times> hub" where
  "writePump_take cid h =
     (case map_of (hub_conns h) cid of
        None \<Rightarrow> (None, h)
      | Some c \<Rightarrow>
          (case cl_Send c of
             [] \<Rightarrow> (None, h)
           | d # ds \<Rightarrow> (Some d, h\<lparr> hub_conns := mput cid (c\<lparr> cl_Send := ds \<rparr>) (hub_conns h) \<rparr>)))"

text \<open>
  \<^verbatim>\<open>writeWithRetry\<close>: up to three attempts; the outcome of attempt \<open>i\<close> is an argument, and \<open>None\<close> is
  success.
\<close>

definition writeWithRetry :: "(nat \<Rightarrow> string option) \<Rightarrow> string option" where
  "writeWithRetry attempt =
     (case attempt 0 of None \<Rightarrow> None | Some _ \<Rightarrow>
     (case attempt 1 of None \<Rightarrow> None | Some _ \<Rightarrow> attempt 2))"

text \<open>A non-blocking send on a client's channel: dropped when the queue is full.\<close>

definition enqueue :: "nat \<Rightarrow> bytes \<Rightarrow> hub \<Rightarrow> hub" where
  "enqueue cid data h =
     (case map_of (hub_conns h) cid of
        None \<Rightarrow> h
      | Some c \<Rightarrow>
          if length (cl_Send c) < SendBufferSize
          then h\<lparr> hub_conns := mput cid (c\<lparr> cl_Send := cl_Send c @ [data] \<rparr>) (hub_conns h) \<rparr>
          else h)"

type_synonym marshal = "ws_message \<Rightarrow> bytes option"

definition SendTo :: "marshal \<Rightarrow> string \<Rightarrow> string \<Rightarrow> ws_message \<Rightarrow> hub \<Rightarrow> bool \<times> hub" where
  "SendTo marshal ts pseudonym msg h =
     (case marshal (msg\<lparr> ws_Timestamp := ts \<rparr>) of
        None \<Rightarrow> (False, h)
      | Some data \<Rightarrow>
          (case map_of (hub_clients h) pseudonym of
             None \<Rightarrow> (True, h)
           | Some cid \<Rightarrow> (True, enqueue cid data h)))"

definition Broadcast :: "marshal \<Rightarrow> string \<Rightarrow> ws_message \<Rightarrow> hub \<Rightarrow> hub" where
  "Broadcast marshal ts msg h =
     (let data = (case marshal (msg\<lparr> ws_Timestamp := ts \<rparr>) of None \<Rightarrow> [] | Some d \<Rightarrow> d)
      in fold (\<lambda>(_, cid). enqueue cid data) (hub_clients h) h)"

definition BroadcastToSession :: "marshal \<Rightarrow> string \<Rightarrow> string \<Rightarrow> string list \<Rightarrow> ws_message \<Rightarrow> hub \<Rightarrow> hub" where
  "BroadcastToSession marshal ts sessionID pseudonyms msg h =
     (let data = (case marshal (msg\<lparr> ws_Timestamp := ts, ws_SessionID := sessionID \<rparr>) of None \<Rightarrow> [] | Some d \<Rightarrow> d)
      in fold (\<lambda>p h'. case map_of (hub_clients h') p of Some cid \<Rightarrow> enqueue cid data h' | None \<Rightarrow> h') pseudonyms h)"

definition IsConnected :: "hub \<Rightarrow> string \<Rightarrow> bool" where
  "IsConnected h pseudonym \<longleftrightarrow> map_of (hub_clients h) pseudonym \<noteq> None"

definition ConnectedCount :: "hub \<Rightarrow> nat" where
  "ConnectedCount h = length (hub_clients h)"

section \<open>The token bucket: facts\<close>

text \<open>A bucket with finite parameters: between zero and capacity tokens.\<close>

definition bucket_ok :: "rate_limiter \<Rightarrow> bool" where
  "bucket_ok rl \<longleftrightarrow>
     (\<exists>c r k. rl_capacity rl = Fin c \<and> is_f64 c \<and> 0 < c \<and> rl_refillRate rl = Fin r \<and> 0 < r \<and>
        rl_tokens rl = Fin k \<and> 0 \<le> k \<and> k \<le> c)"

lemma f_lt_Fin [simp]: "f_lt (Fin x) (Fin y) = (x < y)"
  by (auto simp: f_lt_def)

lemma f_add_nonneg:
  "0 \<le> k \<Longrightarrow> x = FInf False \<or> (\<exists>y. x = Fin y \<and> 0 \<le> y) \<Longrightarrow>
     f_add (Fin k) x = FInf False \<or> (\<exists>y. f_add (Fin k) x = Fin y \<and> 0 \<le> y)"
  by (elim disjE exE conjE) (simp_all add: rnd64_nonneg)

lemma refill_ok:
  assumes "bucket_ok rl"
  shows "bucket_ok (refill now rl) \<and> rl_capacity (refill now rl) = rl_capacity rl"
proof (cases "f_lt (Fin 0) (duration_Seconds (time_Sub now (rl_lastTick rl)))")
  case True
  obtain c r k where f: "rl_capacity rl = Fin c" "is_f64 c" "0 < c" "rl_refillRate rl = Fin r" "0 < r"
    "rl_tokens rl = Fin k" "0 \<le> k" "k \<le> c" using assms by (auto simp: bucket_ok_def)
  let ?e = "duration_Seconds (time_Sub now (rl_lastTick rl))"
  have "?e = FInf False \<or> (\<exists>y. ?e = Fin y \<and> 0 < y)"
    using True by (cases ?e) (auto simp: f_lt_def)
  then have "f_mul ?e (Fin r) = FInf False \<or> (\<exists>y. f_mul ?e (Fin r) = Fin y \<and> 0 \<le> y)"
    using f(5) by (elim disjE exE conjE) (simp_all add: rnd64_nonneg)
  then have t: "f_add (Fin k) (f_mul ?e (Fin r)) = FInf False \<or> (\<exists>y. f_add (Fin k) (f_mul ?e (Fin r)) = Fin y \<and> 0 \<le> y)"
    by (rule f_add_nonneg [OF f(7)])
  have "f_lt (Fin c) (FInf False)" by (simp add: f_lt_def)
  with t f True show ?thesis
    by (auto simp: bucket_ok_def refill_def Let_def not_less)
qed (use assms in \<open>simp add: refill_def\<close>)

text \<open>
  The token bucket never overflows and never goes negative: from a bucket with finite
  parameters, whatever the clock does, after \<^verbatim>\<open>Allow\<close> the tokens are again between zero and the
  capacity; a frame is admitted exactly when at least one token is there after the refill; and
  a nil limiter admits everything.
\<close>

theorem rate_limiter_bounds:
  assumes "bucket_ok rl"
  shows "\<exists>rl'. snd (limiter_Allow now (Some rl)) = Some rl' \<and> bucket_ok rl' \<and>
    rl_capacity rl' = rl_capacity rl \<and>
    (fst (limiter_Allow now (Some rl)) \<longleftrightarrow> f_ge (rl_tokens (refill now rl)) (Fin 1)) \<and>
    limiter_Allow now None = (True, None)"
proof -
  let ?rl = "refill now rl"
  have ok: "bucket_ok ?rl" and cap: "rl_capacity ?rl = rl_capacity rl" using refill_ok [OF assms] by auto
  obtain c r k where f: "rl_capacity ?rl = Fin c" "is_f64 c" "0 < c" "rl_refillRate ?rl = Fin r" "0 < r"
    "rl_tokens ?rl = Fin k" "0 \<le> k" "k \<le> c" using ok by (auto simp: bucket_ok_def)
  show ?thesis
  proof (cases "1 \<le> k")
    case True
    have "\<exists>y. f_sub (Fin k) (Fin 1) = Fin y \<and> 0 \<le> y \<and> y \<le> c"
    proof (cases "k = 1")
      case False
      then show ?thesis using rnd64_below [of "k - 1" c] True f by (auto simp: f_sub_def)
    qed (use f in \<open>simp add: f_sub_def rnd64_def\<close>)
    then obtain y where "f_sub (Fin k) (Fin 1) = Fin y" "0 \<le> y" "y \<le> c" by blast
    then show ?thesis
      using True f cap by (auto simp: limiter_Allow_def Let_def bucket_ok_def)
  next
    case False
    then show ?thesis using f ok cap by (simp add: limiter_Allow_def Let_def)
  qed
qed

lemma rate_limiter_bounds_witness:
  "\<exists>rl'. snd (limiter_Allow 5 (Some \<lparr> rl_capacity = Fin 2, rl_refillRate = Fin 1, rl_tokens = Fin 2, rl_lastTick = 5 \<rparr>)) = Some rl' \<and>
     bucket_ok rl'"
proof -
  have "is_f64 2" using f_of_int_exact [of 2] by (simp add: is_f64_def f_of_int_def)
  then have "bucket_ok \<lparr> rl_capacity = Fin 2, rl_refillRate = Fin 1, rl_tokens = Fin 2, rl_lastTick = 5 \<rparr>"
    by (simp add: bucket_ok_def)
  from rate_limiter_bounds [OF this, of 5] show ?thesis by blast
qed

section \<open>Replay protection\<close>

text \<open>The frames of a sequence that pass \<^verbatim>\<open>checkAndRecordSeq\<close>.\<close>

fun seq_accepted :: "(string \<times> ws_message) list \<Rightarrow> hub \<Rightarrow> (string \<times> ws_message) list" where
  "seq_accepted [] h = []"
| "seq_accepted ((p, m) # frames) h =
     (let (ok, h') = checkAndRecordSeq p m h
      in if ok then (p, m) # seq_accepted frames h' else seq_accepted frames h')"

lemma checkAndRecordSeq_high:
  assumes "checkAndRecordSeq p m h = (ok, h')"
  shows "map_of (hub_seqHigh h') k =
      (if ok \<and> ws_Seq m \<noteq> 0 \<and> k = seq_key p m then Some (ws_Seq m) else map_of (hub_seqHigh h) k)"
    and "ok \<longleftrightarrow> ws_Seq m = 0 \<or> (\<forall>x. map_of (hub_seqHigh h) (seq_key p m) = Some x \<longrightarrow> x < ws_Seq m)"
    and "hub_clients h' = hub_clients h" "hub_conns h' = hub_conns h" "hub_next h' = hub_next h"
      "hub_auth h' = hub_auth h"
  using assms by (auto simp: checkAndRecordSeq_def Let_def split: option.splits if_splits)

text \<open>
  No replays: however frames arrive, for each session, pseudonym and type (as joined in the
  hub's key) the sequence numbers of the accepted frames that carry one are strictly
  increasing, and all above what the hub had recorded before.
\<close>

theorem seq_strictly_increasing:
  "sorted_wrt (<) (map (ws_Seq \<circ> snd) (filter (\<lambda>(p, m). ws_Seq m \<noteq> 0 \<and> seq_key p m = k) (seq_accepted frames h))) \<and>
   (\<forall>x s. map_of (hub_seqHigh h) k = Some x \<and>
      s \<in> set (map (ws_Seq \<circ> snd) (filter (\<lambda>(p, m). ws_Seq m \<noteq> 0 \<and> seq_key p m = k) (seq_accepted frames h))) \<longrightarrow> x < s)"
proof (induction frames arbitrary: h)
  case (Cons f frames)
  obtain p m where f: "f = (p, m)" by fastforce
  obtain ok h' where c: "checkAndRecordSeq p m h = (ok, h')" by fastforce
  note high = checkAndRecordSeq_high(1) [OF c, of k] and okiff = checkAndRecordSeq_high(2) [OF c]
  show ?case
  proof (cases "ok \<and> ws_Seq m \<noteq> 0 \<and> seq_key p m = k")
    case True
    then have "map_of (hub_seqHigh h') k = Some (ws_Seq m)" using high by simp
    moreover have "\<forall>x. map_of (hub_seqHigh h) k = Some x \<longrightarrow> x < ws_Seq m" using okiff True by auto
    ultimately show ?thesis
      using Cons.IH [of h'] True by (force simp: f c)
  next
    case False
    then have "map_of (hub_seqHigh h') k = map_of (hub_seqHigh h) k" using high by auto
    then show ?thesis using Cons.IH [of h'] False by (auto simp: f c)
  qed
qed simp

definition sample_frame :: "int \<Rightarrow> ws_message" where
  "sample_frame n = \<lparr> ws_Version = ''1'', ws_Type = ''t'', ws_SessionID = ''s'', ws_Seq = n,
     ws_Payload = [], ws_Timestamp = [], ws_Lineage = None \<rparr>"

definition sample_hub :: hub where
  "sample_hub = NewHub \<lparr> am_Secret = [], am_AllowDevBypass = True \<rparr>"

lemma seq_strictly_increasing_witness:
  "sorted_wrt (<) (map (ws_Seq \<circ> snd) (filter (\<lambda>(p, m). ws_Seq m \<noteq> 0 \<and> seq_key p m = seq_key ''x'' (sample_frame 1))
     (seq_accepted [(''x'', sample_frame 2), (''x'', sample_frame 1), (''x'', sample_frame 3)] sample_hub)))"
  using seq_strictly_increasing [of "seq_key ''x'' (sample_frame 1)"
      "[(''x'', sample_frame 2), (''x'', sample_frame 1), (''x'', sample_frame 3)]" sample_hub]
  by (rule conjunct1)

section \<open>The hub's invariant\<close>

definition hub_inv :: "hub \<Rightarrow> bool" where
  "hub_inv h \<longleftrightarrow>
     map_wf (hub_clients h) \<and> map_wf (hub_conns h) \<and>
     (\<forall>cid c. map_of (hub_conns h) cid = Some c \<longrightarrow>
        cid < hub_next h \<and> length (cl_Send c) \<le> SendBufferSize \<and> cl_Pseudonym c \<noteq> []) \<and>
     (\<forall>p cid. map_of (hub_clients h) p = Some cid \<longrightarrow>
        (\<exists>c. map_of (hub_conns h) cid = Some c \<and> cl_Pseudonym c = p))"

lemma hub_inv_conn:
  "hub_inv h \<Longrightarrow> map_of (hub_conns h) cid = Some c \<Longrightarrow>
     cid < hub_next h \<and> length (cl_Send c) \<le> SendBufferSize \<and> cl_Pseudonym c \<noteq> []"
  by (simp add: hub_inv_def)

lemma hub_inv_client:
  "hub_inv h \<Longrightarrow> map_of (hub_clients h) p = Some cid \<Longrightarrow>
     \<exists>c. map_of (hub_conns h) cid = Some c \<and> cl_Pseudonym c = p"
  by (simp add: hub_inv_def)

text \<open>Replacing the record of a live connection under its own pseudonym, queue within bounds.\<close>

lemma hub_inv_update:
  assumes "hub_inv h" and "map_of (hub_conns h) cid = Some c"
    and "cl_Pseudonym c' = cl_Pseudonym c" and "length (cl_Send c') \<le> SendBufferSize"
  shows "hub_inv (h\<lparr> hub_conns := mput cid c' (hub_conns h) \<rparr>)"
proof -
  have "cl_Pseudonym c' = p" if "map_of (hub_clients h) p = Some cid" for p
    using hub_inv_client [OF assms(1) that] assms(2,3) by simp
  then show ?thesis
    using assms hub_inv_conn [OF assms(1)] hub_inv_client [OF assms(1)] by (auto simp: hub_inv_def)
qed

lemma hub_inv_enqueue: "hub_inv h \<Longrightarrow> hub_inv (enqueue cid d h)"
  unfolding enqueue_def by (auto split: option.split intro!: hub_inv_update)

lemma enqueue_clients [simp]: "hub_clients (enqueue cid d h) = hub_clients h"
  "hub_seqHigh (enqueue cid d h) = hub_seqHigh h" "hub_auth (enqueue cid d h) = hub_auth h"
  by (simp_all add: enqueue_def split: option.split)

lemma hub_inv_seq:
  assumes "hub_inv h" and "checkAndRecordSeq p m h = (ok, h')"
  shows "hub_inv h'"
  using assms checkAndRecordSeq_high(3-5) [OF assms(2)] by (simp add: hub_inv_def)

lemma hub_inv_HandleWS:
  assumes "hub_inv h"
  shows "hub_inv (snd (HandleWS now p token origin up h))"
proof (cases "p = [] \<or> \<not> ValidateToken (hub_auth h) p token \<or> \<not> (CheckOrigin h origin \<and> up)")
  case True
  then show ?thesis using assms by (auto simp: HandleWS_def)
next
  case False
  have fresh: "map_of (hub_conns h) (hub_next h) = None"
    using assms unfolding hub_inv_def by (meson less_irrefl not_None_eq)
  then have "\<forall>q cid. map_of (hub_clients h) q = Some cid \<longrightarrow> cid \<noteq> hub_next h"
    using assms unfolding hub_inv_def by fastforce
  moreover have "cid < Suc (hub_next h)" if "map_of (hub_conns h) cid = Some c" for cid c
    using hub_inv_conn [OF assms that] by simp
  ultimately show ?thesis
    using False assms hub_inv_conn [OF assms] hub_inv_client [OF assms]
    by (auto simp: hub_inv_def HandleWS_def Let_def)
qed

lemma hub_inv_readPump_frame: "hub_inv h \<Longrightarrow> hub_inv (snd (readPump_frame now cid parsed h))"
proof -
  assume inv: "hub_inv h"
  show ?thesis
  proof (cases "\<exists>c msg. map_of (hub_conns h) cid = Some c \<and> parsed = Some msg \<and> ValidateInboundMessage msg = None")
    case True
    then obtain c msg where c: "map_of (hub_conns h) cid = Some c" "parsed = Some msg" "ValidateInboundMessage msg = None"
      by blast
    obtain ok h1 where q: "checkAndRecordSeq (cl_Pseudonym c) msg h = (ok, h1)" by fastforce
    have inv1: "hub_inv h1" using hub_inv_seq [OF inv q] .
    have c1: "map_of (hub_conns h1) cid = Some c" using checkAndRecordSeq_high(4) [OF q] c by simp
    have "length (cl_Send c) \<le> SendBufferSize" using inv c unfolding hub_inv_def by blast
    then have "hub_inv (h1\<lparr> hub_conns := mput cid (c\<lparr> cl_limiter := l \<rparr>) (hub_conns h1) \<rparr>)" for l
      using hub_inv_update [OF inv1 c1] by simp
    then show ?thesis using c q inv1 by (auto simp: readPump_frame_def Let_def split: prod.splits)
  qed (use inv in \<open>auto simp: readPump_frame_def split: option.splits\<close>)
qed

lemma hub_inv_close:
  assumes "hub_inv h"
  shows "hub_inv (readPump_close cid h)"
proof (cases "map_of (hub_conns h) cid")
  case (Some c)
  have "cid' \<noteq> cid" if "map_of (hub_clients h) p = Some cid'" "p \<noteq> cl_Pseudonym c" for p cid'
    using hub_inv_client [OF assms that(1)] that(2) Some by auto
  then show ?thesis
    using Some assms hub_inv_conn [OF assms] hub_inv_client [OF assms]
    by (auto simp: hub_inv_def readPump_close_def split: if_splits)
qed (use assms in \<open>simp add: readPump_close_def\<close>)

lemma hub_inv_take:
  assumes "hub_inv h"
  shows "hub_inv (snd (writePump_take cid h))"
proof (cases "map_of (hub_conns h) cid")
  case (Some c)
  then have "length (tl (cl_Send c)) \<le> SendBufferSize" using hub_inv_conn [OF assms] by fastforce
  then have "hub_inv (h\<lparr> hub_conns := mput cid (c\<lparr> cl_Send := tl (cl_Send c) \<rparr>) (hub_conns h) \<rparr>)"
    using hub_inv_update [OF assms Some] by simp
  then show ?thesis using Some assms by (auto simp: writePump_take_def split: list.split)
qed (use assms in \<open>simp add: writePump_take_def\<close>)

lemma hub_inv_fold:
  assumes "\<And>x h. hub_inv h \<Longrightarrow> hub_inv (f x h)" and "hub_inv h"
  shows "hub_inv (fold f xs h)"
  using assms(2) by (induction xs arbitrary: h) (simp_all add: assms(1))

text \<open>What can happen to a hub, and a history as a list of it.\<close>

datatype hub_op =
    OpConnect int string string string bool
  | OpFrame int nat "ws_message option"
  | OpClose nat
  | OpTake nat
  | OpSend string string ws_message
  | OpBroadcast string ws_message
  | OpBroadcastSession string string "string list" ws_message

fun hub_step :: "marshal \<Rightarrow> hub_op \<Rightarrow> hub \<Rightarrow> hub" where
  "hub_step mar (OpConnect now p token origin up) h = snd (HandleWS now p token origin up h)"
| "hub_step mar (OpFrame now cid parsed) h = snd (readPump_frame now cid parsed h)"
| "hub_step mar (OpClose cid) h = readPump_close cid h"
| "hub_step mar (OpTake cid) h = snd (writePump_take cid h)"
| "hub_step mar (OpSend ts p msg) h = snd (SendTo mar ts p msg h)"
| "hub_step mar (OpBroadcast ts msg) h = Broadcast mar ts msg h"
| "hub_step mar (OpBroadcastSession ts sid ps msg) h = BroadcastToSession mar ts sid ps msg h"

definition hub_run :: "marshal \<Rightarrow> hub_op list \<Rightarrow> hub \<Rightarrow> hub" where
  "hub_run mar ops h = fold (hub_step mar) ops h"

lemma hub_inv_step:
  assumes "hub_inv h"
  shows "hub_inv (hub_step mar x h)"
proof (cases x)
  case (OpSend ts p msg)
  then show ?thesis using assms hub_inv_enqueue [OF assms] by (auto simp: SendTo_def split: option.split)
next
  case (OpBroadcast ts msg)
  then show ?thesis
    using assms hub_inv_enqueue by (auto simp: Broadcast_def Let_def intro!: hub_inv_fold split: prod.split)
next
  case (OpBroadcastSession ts sid ps msg)
  then show ?thesis
    using assms hub_inv_enqueue
    by (auto simp: BroadcastToSession_def Let_def intro!: hub_inv_fold split: option.split)
qed (use assms in \<open>simp_all add: hub_inv_HandleWS hub_inv_readPump_frame hub_inv_close hub_inv_take\<close>)

lemma hub_inv_New [simp]: "hub_inv (NewHubWithOptions auth opts)"
  by (simp add: hub_inv_def NewHubWithOptions_def)

text \<open>
  Over every history of connects, frames, disconnects, deliveries and broadcasts from a new
  hub: a pseudonym that counts as connected has a live connection of that very pseudonym, no
  pseudonym is empty, no outbound queue ever holds more than 256 messages, and the number of
  connected clients is the number of connected pseudonyms.
\<close>

theorem hub_history_invariant:
  assumes "h = hub_run mar ops (NewHubWithOptions auth opts)"
  shows "hub_inv h \<and>
    (\<forall>p. IsConnected h p \<longrightarrow> p \<noteq> [] \<and> (\<exists>cid c. map_of (hub_clients h) p = Some cid \<and>
       map_of (hub_conns h) cid = Some c \<and> cl_Pseudonym c = p \<and> length (cl_Send c) \<le> SendBufferSize)) \<and>
    ConnectedCount h = card {p. IsConnected h p}"
proof -
  have "hub_inv (fold (hub_step mar) ops h0)" if "hub_inv h0" for h0
    by (rule hub_inv_fold [OF hub_inv_step that])
  then have inv: "hub_inv h" by (simp add: assms hub_run_def)
  have "{p. IsConnected h p} = keys_of (hub_clients h)"
    by (auto simp: IsConnected_def map_of_eq_None_iff)
  then have "ConnectedCount h = card {p. IsConnected h p}"
    using inv by (simp add: ConnectedCount_def length_map_wf hub_inv_def)
  moreover have "p \<noteq> [] \<and> (\<exists>cid c. map_of (hub_clients h) p = Some cid \<and>
       map_of (hub_conns h) cid = Some c \<and> cl_Pseudonym c = p \<and> length (cl_Send c) \<le> SendBufferSize)"
    if "IsConnected h p" for p
    using that hub_inv_client [OF inv] hub_inv_conn [OF inv] by (fastforce simp: IsConnected_def)
  ultimately show ?thesis using inv by blast
qed

lemma hub_history_invariant_witness:
  "ConnectedCount (hub_run (\<lambda>_. None) [OpConnect 0 ''x'' [] [] True, OpConnect 1 ''x'' [] [] True, OpConnect 2 ''y'' [] [] True]
      sample_hub) =
   card {p. IsConnected (hub_run (\<lambda>_. None) [OpConnect 0 ''x'' [] [] True, OpConnect 1 ''x'' [] [] True, OpConnect 2 ''y'' [] [] True]
      sample_hub) p}"
  unfolding sample_hub_def NewHub_def using hub_history_invariant [OF refl] by blast

section \<open>What reaches the message handler, and who gets a broadcast\<close>

lemma readPump_frame_Delivered:
  assumes "readPump_frame now cid parsed h = (Delivered p msg, h')"
  obtains c h1 l where "map_of (hub_conns h) cid = Some c" "parsed = Some msg" "p = cl_Pseudonym c"
    "ValidateInboundMessage msg = None" "checkAndRecordSeq p msg h = (True, h1)"
    "limiter_Allow now (cl_limiter c) = (True, l)"
    "h' = h1\<lparr> hub_conns := mput cid (c\<lparr> cl_limiter := l \<rparr>) (hub_conns h1) \<rparr>"
  using assms by (auto simp: readPump_frame_def Let_def split: option.splits prod.splits if_splits)

text \<open>
  The gate in front of the message handler: a frame is handed on only under the pseudonym its
  connection authenticated with, whatever the frame says; its version is 1 (or empty), or 2 with
  a lineage node; a sequence number it carries is above the recorded one and becomes the recorded
  one, so that the same frame sent again on that connection is dropped as a replay; and a
  connection with a limiter had at least one token.
\<close>

theorem frame_gate:
  assumes "hub_inv h" and "readPump_frame now cid parsed h = (Delivered p msg, h')"
  shows "(\<exists>c. map_of (hub_conns h) cid = Some c \<and> p = cl_Pseudonym c \<and> p \<noteq> [] \<and> parsed = Some msg \<and>
       (\<forall>rl. cl_limiter c = Some rl \<longrightarrow> f_ge (rl_tokens (refill now rl)) (Fin 1))) \<and>
    (ws_Version msg \<in> {[], ''1''} \<or> ws_Version msg = ''2'' \<and> ws_Lineage msg \<noteq> None) \<and>
    (ws_Seq msg \<noteq> 0 \<longrightarrow>
       (\<forall>x. map_of (hub_seqHigh h) (seq_key p msg) = Some x \<longrightarrow> x < ws_Seq msg) \<and>
       map_of (hub_seqHigh h') (seq_key p msg) = Some (ws_Seq msg) \<and>
       readPump_frame now' cid parsed h' = (Replayed, h'))"
proof (rule readPump_frame_Delivered [OF assms(2)])
  fix c h1 l
  assume c: "map_of (hub_conns h) cid = Some c" and m: "parsed = Some msg" and p: "p = cl_Pseudonym c"
    and v: "ValidateInboundMessage msg = None" and s: "checkAndRecordSeq p msg h = (True, h1)"
    and a: "limiter_Allow now (cl_limiter c) = (True, l)"
    and h': "h' = h1\<lparr> hub_conns := mput cid (c\<lparr> cl_limiter := l \<rparr>) (hub_conns h1) \<rparr>"
  have "p \<noteq> []" using hub_inv_conn [OF assms(1) c] p by simp
  moreover have "\<forall>rl. cl_limiter c = Some rl \<longrightarrow> f_ge (rl_tokens (refill now rl)) (Fin 1)"
    using a by (auto simp: limiter_Allow_def Let_def split: if_splits)
  moreover have "ws_Version msg \<in> {[], ''1''} \<or> ws_Version msg = ''2'' \<and> ws_Lineage msg \<noteq> None"
    using v by (auto simp: ValidateInboundMessage_def Let_def WireProtocolVersion_def WireProtocolVersionLineage_def
        split: if_splits)
  moreover have "(\<forall>x. map_of (hub_seqHigh h) (seq_key p msg) = Some x \<longrightarrow> x < ws_Seq msg) \<and>
      map_of (hub_seqHigh h') (seq_key p msg) = Some (ws_Seq msg) \<and>
      readPump_frame now' cid parsed h' = (Replayed, h')" if "ws_Seq msg \<noteq> 0"
  proof -
    have high: "map_of (hub_seqHigh h') (seq_key p msg) = Some (ws_Seq msg)"
      using checkAndRecordSeq_high(1) [OF s, of "seq_key p msg"] that h' by simp
    then have "checkAndRecordSeq p msg h' = (False, h')"
      using that by (simp add: checkAndRecordSeq_def Let_def)
    then have "readPump_frame now' cid parsed h' = (Replayed, h')"
      using m p v by (simp add: readPump_frame_def h' Let_def)
    with high checkAndRecordSeq_high(2) [OF s] that show ?thesis by auto
  qed
  ultimately show ?thesis using c m p by blast
qed

lemma frame_gate_witness:
  "readPump_frame 8 0 (Some (sample_frame 2))
     (snd (readPump_frame 7 0 (Some (sample_frame 2)) (snd (HandleWS 0 ''x'' [] [] True sample_hub)))) =
   (Replayed, snd (readPump_frame 7 0 (Some (sample_frame 2)) (snd (HandleWS 0 ''x'' [] [] True sample_hub))))"
proof -
  let ?h = "snd (HandleWS 0 ''x'' [] [] True sample_hub)"
  have inv: "hub_inv ?h" by (rule hub_inv_HandleWS) (simp add: sample_hub_def NewHub_def)
  have "fst (readPump_frame 7 0 (Some (sample_frame 2)) ?h) = Delivered ''x'' (sample_frame 2)"
    by (simp add: readPump_frame_def HandleWS_def sample_hub_def NewHub_def NewHubWithOptions_def ValidateToken_def
        CheckOrigin_def Let_def sample_frame_def ValidateInboundMessage_def WireProtocolVersion_def
        checkAndRecordSeq_def newRateLimiter_def limiter_Allow_def)
  then have "readPump_frame 7 0 (Some (sample_frame 2)) ?h =
      (Delivered ''x'' (sample_frame 2), snd (readPump_frame 7 0 (Some (sample_frame 2)) ?h))"
    by (metis prod.collapse)
  from frame_gate [OF inv this, of 8] show ?thesis by (simp add: sample_frame_def)
qed

definition queued :: "bytes \<Rightarrow> client \<Rightarrow> client" where
  "queued data c = (if length (cl_Send c) < SendBufferSize then c\<lparr> cl_Send := cl_Send c @ [data] \<rparr> else c)"

lemma enqueue_conns:
  "map_of (hub_conns (enqueue cid d h)) x =
     (if x = cid then map_option (queued d) (map_of (hub_conns h) x) else map_of (hub_conns h) x)"
  by (auto simp: enqueue_def queued_def split: option.split)

lemma fold_enqueue_conns:
  assumes "distinct ps" and "inj_on (map_of (hub_clients h)) (keys_of (hub_clients h))"
  shows "map_of (hub_conns (fold (\<lambda>p h'. case map_of (hub_clients h') p of Some cid \<Rightarrow> enqueue cid d h' | None \<Rightarrow> h') ps h)) x =
    (if \<exists>p \<in> set ps. map_of (hub_clients h) p = Some x
     then map_option (queued d) (map_of (hub_conns h) x) else map_of (hub_conns h) x)"
  using assms
proof (induction ps arbitrary: h)
  case (Cons p ps)
  let ?h = "case map_of (hub_clients h) p of Some cid \<Rightarrow> enqueue cid d h | None \<Rightarrow> h"
  have cl: "hub_clients ?h = hub_clients h" by (simp split: option.split)
  have hd: "map_of (hub_conns ?h) x = (if map_of (hub_clients h) p = Some x
      then map_option (queued d) (map_of (hub_conns h) x) else map_of (hub_conns h) x)"
    by (auto simp: enqueue_conns split: option.split)
  have once: "\<not> (\<exists>q \<in> set ps. map_of (hub_clients h) q = Some x)" if "map_of (hub_clients h) p = Some x"
  proof
    assume "\<exists>q \<in> set ps. map_of (hub_clients h) q = Some x"
    then obtain q where q: "q \<in> set ps" "map_of (hub_clients h) q = Some x" by blast
    then have "q = p"
      using that inj_onD [OF Cons.prems(2), of q p] by (metis map_of_eq_None_iff option.distinct(1))
    then show False using q(1) Cons.prems(1) by simp
  qed
  show ?case using Cons.IH [of ?h] Cons.prems hd once by (auto simp: cl)
qed simp

text \<open>
  A session broadcast reaches exactly its addressees: every live connection that the hub holds
  for a listed pseudonym gets one copy at the end of its queue (none when the queue is full), carrying
  the session's identity whatever the caller put there; every other connection, the set of connected
  pseudonyms and the replay records stay as they were.
\<close>

theorem broadcast_scope:
  assumes "hub_inv h" and "distinct pseudonyms"
    and "mar (msg\<lparr> ws_Timestamp := ts, ws_SessionID := sid \<rparr>) = Some data"
  shows "map_of (hub_conns (BroadcastToSession mar ts sid pseudonyms msg h)) cid =
      (if \<exists>p \<in> set pseudonyms. map_of (hub_clients h) p = Some cid
       then map_option (queued data) (map_of (hub_conns h) cid) else map_of (hub_conns h) cid) \<and>
    hub_clients (BroadcastToSession mar ts sid pseudonyms msg h) = hub_clients h \<and>
    hub_seqHigh (BroadcastToSession mar ts sid pseudonyms msg h) = hub_seqHigh h"
proof -
  let ?f = "\<lambda>p h'. case map_of (hub_clients h') p of Some cid \<Rightarrow> enqueue cid data h' | None \<Rightarrow> h'"
  have inj: "inj_on (map_of (hub_clients h)) (keys_of (hub_clients h))"
  proof (rule inj_onI)
    fix p q assume p: "p \<in> keys_of (hub_clients h)" and eq: "map_of (hub_clients h) p = map_of (hub_clients h) q"
    then obtain cid where "map_of (hub_clients h) p = Some cid" by (metis map_of_eq_None_iff not_None_eq)
    then show "p = q" using eq hub_inv_client [OF assms(1), of p cid] hub_inv_client [OF assms(1), of q cid] by auto
  qed
  have frame: "hub_clients (fold ?f ps g) = hub_clients g \<and> hub_seqHigh (fold ?f ps g) = hub_seqHigh g" for ps g
    by (induction ps arbitrary: g) (auto split: option.split)
  show ?thesis
    using fold_enqueue_conns [OF assms(2) inj, of data cid] frame [of pseudonyms h] assms(3)
    by (simp add: BroadcastToSession_def)
qed

lemma broadcast_scope_witness:
  "map_option cl_Send (map_of (hub_conns (BroadcastToSession (\<lambda>m. Some (str_bytes (ws_SessionID m))) [] ''s9'' [''x'', ''z'']
      (sample_frame 0) (snd (HandleWS 0 ''x'' [] [] True sample_hub)))) 0) = Some [str_bytes ''s9'']"
proof -
  let ?h = "snd (HandleWS 0 ''x'' [] [] True sample_hub)"
  have inv: "hub_inv ?h" by (rule hub_inv_HandleWS) (simp add: sample_hub_def NewHub_def)
  from broadcast_scope [where h = ?h and pseudonyms = "[''x'', ''z'']" and mar = "\<lambda>m. Some (str_bytes (ws_SessionID m))"
      and msg = "sample_frame 0" and ts = "[]" and sid = "''s9''" and data = "str_bytes ''s9''" and cid = 0]
  show ?thesis using inv
    by (simp add: HandleWS_def sample_hub_def NewHub_def NewHubWithOptions_def ValidateToken_def CheckOrigin_def
        queued_def SendBufferSize_def)
qed

end
