(* ===== verification/Transport_Service.thy ===== *)
theory Transport_Service
  imports Runner_Lineage Transport_Hub
begin

text \<open>
  \<^verbatim>\<open>pkg/ares/transport/service.go\<close>, \<^verbatim>\<open>trigger.go\<close> and \<^verbatim>\<open>admin.go\<close>: the service that puts a session
  runner behind the hub. \<open>svc_state\<close> holds the objects the goroutines of a service share: the
  runner, the hub, the artifact store, the event ring and the counter of the default trigger.
  Every handler is one atomic step on it.

  Arguments stand for what is outside: the decoded body of a request (or the text of the
  decoding error), the JSON rendering of a message, the text of an error (\<open>errText\<close>; the model
  keeps errors as structure), the clock, the value of \<^verbatim>\<open>ARES_ENV\<close>, and the application's own
  trigger and post-dispatch hook. The listener, the route table and the log stream's route are
  left out.
\<close>

section \<open>The state of a service and its configuration\<close>

record 'v svc_state =
  svc_runner :: "'v session_runner"
  svc_hub :: hub
  svc_artifacts :: artifact_store
  svc_events :: "session_event_ring option"
  svc_started :: nat

text \<open>A \<^verbatim>\<open>SessionTrigger\<close>: the first argument is the time stamp its broadcasts would carry.\<close>

type_synonym 'v trigger =
  "string \<Rightarrow> string \<Rightarrow> string list \<Rightarrow> (string \<times> 'v any) list \<Rightarrow> 'v svc_state \<Rightarrow> (err, unit) outcome \<times> 'v svc_state"

type_synonym 'v post_hook = "string \<Rightarrow> ws_message \<Rightarrow> err option \<Rightarrow> 'v svc_state \<Rightarrow> 'v svc_state"

record 'v config =
  cfg_Addr :: string
  cfg_ServiceName :: string
  cfg_Secret :: bytes
  cfg_AllowDevBypass :: bool
  cfg_Runner :: "'v session_runner option"
  cfg_Trigger :: "'v trigger option"
  cfg_InviteType :: string
  cfg_EventRing :: "session_event_ring option"
  cfg_AllowedOrigins :: "string list"
  cfg_MaxWSMessageSize :: int
  cfg_MaxArtifactSize :: int
  cfg_PostDispatchHook :: "'v post_hook option"

section \<open>The default trigger\<close>

record manual_admin_trigger =
  mt_hasHub :: bool
  mt_InviteType :: string

definition invite_message :: "manual_admin_trigger \<Rightarrow> ws_message" where
  "invite_message mt = \<lparr> ws_Version = [], ws_Type = mt_InviteType mt, ws_SessionID = [], ws_Seq = 0,
     ws_Payload = [], ws_Timestamp = [], ws_Lineage = None \<rparr>"

definition seed_attrs :: "string \<Rightarrow> (string \<times> 'v any) list \<Rightarrow> 'v session_runner \<Rightarrow> 'v session_runner" where
  "seed_attrs sid attrs r = fold (\<lambda>(k, v). seed_context sid k v) attrs r"

definition manual_Start :: "marshal \<Rightarrow> manual_admin_trigger \<Rightarrow> 'v trigger" where
  "manual_Start mar mt ts sessionID participants attrs s =
     (if participants = [] then (Err (Msg ''trigger: no participants supplied'' []), s)
      else
        (let s1 = s\<lparr> svc_started := svc_started s + 1 \<rparr> in
         case BeginSession sessionID [] (svc_runner s1) of
           (Err e, r1) \<Rightarrow> (Err (Note ''trigger: BeginSession'' sessionID e), s1\<lparr> svc_runner := r1 \<rparr>)
         | (Panic m, r1) \<Rightarrow> (Panic m, s1\<lparr> svc_runner := r1 \<rparr>)
         | (Ok _, r1) \<Rightarrow>
             (let s2 = s1\<lparr> svc_runner := seed_attrs sessionID attrs r1 \<rparr>
              in (Ok (),
                  if mt_hasHub mt \<and> mt_InviteType mt \<noteq> []
                  then s2\<lparr> svc_hub := BroadcastToSession mar ts sessionID participants (invite_message mt) (svc_hub s2) \<rparr>
                  else s2))))"

definition StartedCount :: "'v svc_state \<Rightarrow> nat" where
  "StartedCount s = svc_started s"

section \<open>The service\<close>

record 'v service =
  sv_name :: string
  sv_trigger :: "'v trigger"
  sv_hook :: "'v post_hook option"
  sv_maxArtifact :: int
  sv_state :: "'v svc_state"

definition NewService :: "string \<Rightarrow> marshal \<Rightarrow> 'v config \<Rightarrow> (string, 'v service) outcome" where
  "NewService env mar cfg =
     (if cfg_Addr cfg = [] then Err ''transport: Config.Addr is required''
      else case cfg_Runner cfg of
             None \<Rightarrow> Err ''transport: Config.Runner is required''
           | Some runner \<Rightarrow>
               if cfg_Secret cfg = [] \<and> \<not> cfg_AllowDevBypass cfg
               then Err ''transport: empty Secret requires AllowDevBypass=true''
               else if cfg_AllowDevBypass cfg \<and> env = ''production''
               then Err ''transport: AllowDevBypass=true refused when ARES_ENV=production''
               else
                 (let ring = (case cfg_EventRing cfg of None \<Rightarrow> NewSessionEventRing 128 | Some r \<Rightarrow> r);
                      auth = \<lparr> am_Secret = cfg_Secret cfg, am_AllowDevBypass = cfg_AllowDevBypass cfg \<rparr>;
                      hub = NewHubWithOptions auth
                        \<lparr> ho_AllowedOrigins = cfg_AllowedOrigins cfg,
                          ho_AllowAnyOrigin = (cfg_AllowedOrigins cfg = [] \<and> cfg_AllowDevBypass cfg),
                          ho_MaxMessageSize = cfg_MaxWSMessageSize cfg,
                          ho_InboundRate = Fin 0, ho_InboundBurst = Fin 0 \<rparr>;
                      trig = (case cfg_Trigger cfg of
                                None \<Rightarrow> manual_Start mar \<lparr> mt_hasHub = True, mt_InviteType = cfg_InviteType cfg \<rparr>
                              | Some t \<Rightarrow> t)
                  in Ok \<lparr> sv_name = cfg_ServiceName cfg, sv_trigger = trig, sv_hook = cfg_PostDispatchHook cfg,
                          sv_maxArtifact = cfg_MaxArtifactSize cfg,
                          sv_state = \<lparr> svc_runner = runner, svc_hub = hub, svc_artifacts = NewArtifactStore,
                                       svc_events = Some ring, svc_started = 0 \<rparr> \<rparr>))"

text \<open>
  The message handler that \<^verbatim>\<open>NewService\<close> installs on the hub. It is run for a frame that
  \<^verbatim>\<open>readPump\<close> let through, with the connection's pseudonym. \<open>None\<close> is a frame without a session.
\<close>

definition dispatch ::
  "int \<Rightarrow> (err \<Rightarrow> string) \<Rightarrow> 'v post_hook option \<Rightarrow> string \<Rightarrow> ws_message \<Rightarrow> 'v svc_state
    \<Rightarrow> (err, bool) outcome option \<times> 'v svc_state" where
  "dispatch now errText hook pseudonym msg s =
     (if ws_SessionID msg = [] then (None, s)
      else
        (let (res, r1) =
               (case ws_Lineage msg of
                  Some node \<Rightarrow> HandleLineageMessage now (ws_SessionID msg) (ws_Type msg) pseudonym (ws_Payload msg) (Some node) (svc_runner s)
                | None \<Rightarrow> HandleMessage now (ws_SessionID msg) (ws_Type msg) pseudonym (ws_Payload msg) (svc_runner s));
             s1 = s\<lparr> svc_runner := r1 \<rparr>
         in case res of
              Panic m \<Rightarrow> (Some (Panic m), s1)
            | _ \<Rightarrow>
                (let errStr = (case err_of res of None \<Rightarrow> [] | Some e \<Rightarrow> errText e);
                     s2 = s1\<lparr> svc_events := ring_Record now (ws_SessionID msg) (ws_Type msg) pseudonym errStr (svc_events s1) \<rparr>
                 in (Some res, case hook of None \<Rightarrow> s2 | Some f \<Rightarrow> f pseudonym msg (err_of res) s2))))"

text \<open>
  A frame from the network: \<^verbatim>\<open>readPump\<close>, then the handler. A panic in the handler is not recovered and ends the process; the state that is returned then is the one it
  left, and histories that go on from it are more than the program has.
\<close>

definition handle_frame ::
  "int \<Rightarrow> (err \<Rightarrow> string) \<Rightarrow> 'v post_hook option \<Rightarrow> nat \<Rightarrow> ws_message option \<Rightarrow> 'v svc_state \<Rightarrow> frame_result \<times> 'v svc_state" where
  "handle_frame now errText hook cid parsed s =
     (case readPump_frame now cid parsed (svc_hub s) of
        (Delivered p msg, h) \<Rightarrow> (Delivered p msg, snd (dispatch now errText hook p msg (s\<lparr> svc_hub := h \<rparr>)))
      | (fr, h) \<Rightarrow> (fr, s\<lparr> svc_hub := h \<rparr>))"

section \<open>The admin handlers\<close>

datatype http_body =
    NoBody
  | TextBody string
  | OctetStream bytes
  | HealthBody string
  | StatsBody string nat
  | SessionBody string session_state
  | ResultsBody string "(string \<times> string) list"
  | EventsBody string "session_event list"

record http_response =
  http_status :: nat
  http_body :: http_body

definition http_Error :: "string \<Rightarrow> nat \<Rightarrow> http_response" where
  "http_Error msg st = \<lparr> http_status = st, http_body = TextBody msg \<rparr>"

definition writeJSON :: "nat \<Rightarrow> http_body \<Rightarrow> http_response" where
  "writeJSON st b = \<lparr> http_status = st, http_body = b \<rparr>"

definition handleHealth :: "string \<Rightarrow> http_response" where
  "handleHealth serviceName = writeJSON 200 (HealthBody serviceName)"

definition handleStats :: "string \<Rightarrow> hub option \<Rightarrow> http_response" where
  "handleStats serviceName h =
     writeJSON 200 (StatsBody serviceName (case h of None \<Rightarrow> 0 | Some h \<Rightarrow> ConnectedCount h))"

record 'v session_start_request =
  rq_SessionID :: string
  rq_Participants :: "string list"
  rq_Attrs :: "(string \<times> 'v any) list"

text \<open>A panic of the trigger (of a phase's \<^verbatim>\<open>Enter\<close>) is caught by \<^verbatim>\<open>net/http\<close>, which drops the connection: no response.\<close>

definition handleSessionStart ::
  "(err \<Rightarrow> string) \<Rightarrow> 'v trigger option \<Rightarrow> string \<Rightarrow> string + 'v session_start_request \<Rightarrow> 'v svc_state
    \<Rightarrow> http_response option \<times> 'v svc_state" where
  "handleSessionStart errText trig ts body s =
     (case trig of
        None \<Rightarrow> (Some (http_Error ''no SessionTrigger configured'' 503), s)
      | Some start \<Rightarrow>
          (case body of
             Inl e \<Rightarrow> (Some (http_Error (''invalid json: '' @ e) 400), s)
           | Inr req \<Rightarrow>
               if rq_SessionID req = [] then (Some (http_Error ''session_id is required'' 400), s)
               else
                 (case start ts (rq_SessionID req) (rq_Participants req) (rq_Attrs req) s of
                    (Err e, s1) \<Rightarrow> (Some (http_Error (errText e) 409), s1)
                  | (Panic m, s1) \<Rightarrow> (None, s1)
                  | (Ok _, s1) \<Rightarrow>
                      (Some (writeJSON 201 (SessionBody (rq_SessionID req)
                         (fst (CurrentState (svc_runner s1) (rq_SessionID req))))), s1))))"

definition handleSessionGet :: "string \<Rightarrow> 'v svc_state \<Rightarrow> http_response" where
  "handleSessionGet sid s =
     (case CurrentState (svc_runner s) sid of
        (state, ok) \<Rightarrow> if \<not> ok then http_Error ''session not found'' 404 else writeJSON 200 (SessionBody sid state))"

text \<open>
  \<^verbatim>\<open>SessionContextKeys\<close> of \<^verbatim>\<open>runner.go\<close>: the rendering of a \<^verbatim>\<open>map[string]any\<close> as JSON and of an
  application's own value are arguments. A nil context gives a nil map.
\<close>

fun context_text :: "('v \<Rightarrow> string) \<Rightarrow> ((string \<times> 'v any) list \<Rightarrow> string option) \<Rightarrow> 'v any \<Rightarrow> string option" where
  "context_text app jsonMap (VBytes b) = Some (hex_encode b)"
| "context_text app jsonMap (VString t) = Some t"
| "context_text app jsonMap (VMap m) = jsonMap m"
| "context_text app jsonMap v = Some (fmtv app v)"

definition SessionContextKeys ::
  "('v \<Rightarrow> string) \<Rightarrow> ((string \<times> 'v any) list \<Rightarrow> string option) \<Rightarrow> 'v session_runner \<Rightarrow> string \<Rightarrow> string list
    \<Rightarrow> (string \<times> string) list option" where
  "SessionContextKeys app jsonMap r sid names =
     (case session_context_of r sid of
        None \<Rightarrow> None
      | Some c \<Rightarrow>
          Some (fold (\<lambda>k out. case Option.bind (ctx_Get c k) (context_text app jsonMap) of
                                None \<Rightarrow> out | Some t \<Rightarrow> mput k t out) names []))"

definition handleSessionResults ::
  "('v \<Rightarrow> string) \<Rightarrow> ((string \<times> 'v any) list \<Rightarrow> string option) \<Rightarrow> string \<Rightarrow> string \<Rightarrow> 'v svc_state \<Rightarrow> http_response" where
  "handleSessionResults app jsonMap sid keysParam s =
     (if \<not> snd (CurrentState (svc_runner s) sid) then http_Error ''session not found'' 404
      else
        (let keys = split_on (CHR '','') keysParam in
         if keys = [] \<or> keys = [[]] then http_Error ''?keys= is required (comma-separated context key names)'' 400
         else writeJSON 200 (ResultsBody sid
                (case SessionContextKeys app jsonMap (svc_runner s) sid keys of None \<Rightarrow> [] | Some m \<Rightarrow> m))))"

definition handleSessionEvents :: "string \<Rightarrow> 'v svc_state \<Rightarrow> http_response" where
  "handleSessionEvents sid s =
     (if \<not> snd (CurrentState (svc_runner s) sid) then http_Error ''session not found'' 404
      else writeJSON 200 (EventsBody sid (case ring_Events sid (svc_events s) of None \<Rightarrow> [] | Some es \<Rightarrow> es)))"

definition DefaultMaxArtifactSize :: int where
  "DefaultMaxArtifactSize = 64 * 2 ^ 20"

text \<open>
  A request body: the bytes that arrive, and the text of the error that ends it, if any.
  \<^verbatim>\<open>http.MaxBytesReader\<close> fails with its own error once more than the limit has been read.
\<close>

record req_body =
  rb_bytes :: bytes
  rb_error :: "string option"

datatype read_err = MaxBytesError | ReadFailed string

definition ReadAll :: "int option \<Rightarrow> req_body \<Rightarrow> read_err + bytes" where
  "ReadAll limit b =
     (case limit of
        Some n \<Rightarrow> if int (length (rb_bytes b)) > n then Inl MaxBytesError
                  else (case rb_error b of Some e \<Rightarrow> Inl (ReadFailed e) | None \<Rightarrow> Inr (rb_bytes b))
      | None \<Rightarrow> (case rb_error b of Some e \<Rightarrow> Inl (ReadFailed e) | None \<Rightarrow> Inr (rb_bytes b)))"

definition handleArtifactPut ::
  "int \<Rightarrow> int \<Rightarrow> string \<Rightarrow> req_body \<Rightarrow> artifact_store option \<Rightarrow> http_response \<times> artifact_store option" where
  "handleArtifactPut now maxArtifactSize key b store =
     (case store of
        None \<Rightarrow> (http_Error ''no artifact store configured'' 503, None)
      | Some st \<Rightarrow>
          if key = [] then (http_Error ''missing key'' 400, Some st)
          else
            (let limit = (if maxArtifactSize = 0 then DefaultMaxArtifactSize else maxArtifactSize) in
             case ReadAll (if limit > 0 then Some limit else None) b of
               Inl MaxBytesError \<Rightarrow> (http_Error ''artifact exceeds size limit'' 413, Some st)
             | Inl (ReadFailed e) \<Rightarrow> (http_Error (''read body: '' @ e) 400, Some st)
             | Inr buf \<Rightarrow> (\<lparr> http_status = 204, http_body = NoBody \<rparr>, Some (artifact_Put now key buf st))))"

definition handleArtifactGet :: "int \<Rightarrow> string \<Rightarrow> artifact_store option \<Rightarrow> http_response" where
  "handleArtifactGet now key store =
     (case store of
        None \<Rightarrow> http_Error ''no artifact store configured'' 503
      | Some st \<Rightarrow>
          (case artifact_Get now key st of
             None \<Rightarrow> http_Error ''artifact not found'' 404
           | Some data \<Rightarrow> \<lparr> http_status = 200, http_body = OctetStream data \<rparr>))"

section \<open>The invariant of a service\<close>

definition hub_conf :: "hub \<Rightarrow> auth_middleware \<times> string list \<times> bool" where
  "hub_conf h = (hub_auth h, hub_allowed h, hub_allowAny h)"

definition svc_inv :: "'v svc_state \<Rightarrow> bool" where
  "svc_inv s \<longleftrightarrow> runner_inv (svc_runner s) \<and> hub_inv (svc_hub s) \<and> map_wf (as_entries (svc_artifacts s))"

text \<open>What every handler keeps: the invariant, the configuration of hub and runner, and the stored lineage nodes.\<close>

definition svc_frame :: "'v svc_state \<Rightarrow> 'v svc_state \<Rightarrow> bool" where
  "svc_frame s s' \<longleftrightarrow> svc_inv s' \<and> hub_conf (svc_hub s') = hub_conf (svc_hub s) \<and>
     same_config (svc_runner s) (svc_runner s') \<and>
     store_grows (lineageStore (svc_runner s)) (lineageStore (svc_runner s'))"

lemma svc_frame_refl: "svc_inv s \<Longrightarrow> svc_frame s s"
  by (simp add: svc_frame_def)

lemma svc_frame_trans: "svc_frame a b \<Longrightarrow> svc_frame b c \<Longrightarrow> svc_frame a c"
  by (auto simp: svc_frame_def intro: same_config_trans store_grows_trans)

lemma hub_conf_enqueue [simp]: "hub_conf (enqueue cid d h) = hub_conf h"
  by (simp add: hub_conf_def enqueue_def split: option.split)

lemma hub_conf_HandleWS [simp]: "hub_conf (snd (HandleWS now p token origin up h)) = hub_conf h"
  by (simp add: hub_conf_def HandleWS_def Let_def)

lemma hub_conf_seq: "checkAndRecordSeq p m h = (ok, h') \<Longrightarrow> hub_conf h' = hub_conf h"
  by (auto simp: hub_conf_def checkAndRecordSeq_def Let_def split: if_splits option.splits)

lemma hub_conf_frame [simp]: "hub_conf (snd (readPump_frame now cid parsed h)) = hub_conf h"
proof -
  have upd: "hub_conf (h1\<lparr> hub_conns := x \<rparr>) = hub_conf h1" for h1 x by (simp add: hub_conf_def)
  show ?thesis
    by (auto simp: readPump_frame_def Let_def upd dest: hub_conf_seq split: option.split prod.split)
qed

lemma hub_conf_close [simp]: "hub_conf (readPump_close cid h) = hub_conf h"
  by (simp add: hub_conf_def readPump_close_def split: option.split)

lemma hub_conf_take [simp]: "hub_conf (snd (writePump_take cid h)) = hub_conf h"
  by (simp add: hub_conf_def writePump_take_def split: option.split list.split)

lemma BroadcastToSession_frame [simp]:
  "hub_conf (BroadcastToSession mar ts sid ps msg h) = hub_conf h"
  "hub_inv h \<Longrightarrow> hub_inv (BroadcastToSession mar ts sid ps msg h)"
proof -
  have "hub_conf (fold (\<lambda>p h'. case map_of (hub_clients h') p of Some cid \<Rightarrow> enqueue cid d h' | None \<Rightarrow> h') ps h) = hub_conf h" for d
    by (induction ps arbitrary: h) (auto split: option.split)
  then show "hub_conf (BroadcastToSession mar ts sid ps msg h) = hub_conf h" by (simp add: BroadcastToSession_def)
  show "hub_inv h \<Longrightarrow> hub_inv (BroadcastToSession mar ts sid ps msg h)"
    using hub_inv_step [of h mar "OpBroadcastSession ts sid ps msg"] by simp
qed

text \<open>Replacing the runner by what a session operation made of it, and the hub by what a hub operation made of it.\<close>

lemma svc_frame_runner:
  assumes "svc_inv s" and "runner_inv r'" and "session_frame sid (svc_runner s) r'"
  shows "svc_frame s (s\<lparr> svc_runner := r' \<rparr>)"
  using assms by (simp add: svc_frame_def svc_inv_def session_frame_def)

lemma svc_frame_hub:
  "svc_inv s \<Longrightarrow> hub_inv h \<Longrightarrow> hub_conf h = hub_conf (svc_hub s) \<Longrightarrow> svc_frame s (s\<lparr> svc_hub := h \<rparr>)"
  by (simp add: svc_frame_def svc_inv_def)

lemma svc_frame_other [simp]:
  "svc_inv s \<Longrightarrow> svc_frame s (s\<lparr> svc_events := e \<rparr>)" "svc_inv s \<Longrightarrow> svc_frame s (s\<lparr> svc_started := n \<rparr>)"
  by (simp_all add: svc_frame_def svc_inv_def)

section \<open>The trigger's contract\<close>

text \<open>
  What \<^verbatim>\<open>admin.go\<close> relies on in a \<^verbatim>\<open>SessionTrigger\<close>: it keeps the service consistent and touches only the
  session it is asked to start; it succeeds only for a session that was not there and is there
  afterwards; and an error leaves the tracked sessions as they were.
\<close>

locale session_trigger =
  fixes start :: "'v trigger"
  assumes start_frame: "svc_inv s \<Longrightarrow> svc_frame s (snd (start ts sid ps attrs s))"
    and start_other: "svc_inv s \<Longrightarrow> sid' \<noteq> sid \<Longrightarrow>
      map_of (sessions (svc_runner (snd (start ts sid ps attrs s)))) sid' = map_of (sessions (svc_runner s)) sid'"
    and start_begins: "svc_inv s \<Longrightarrow> start ts sid ps attrs s = (Ok (), s') \<Longrightarrow>
      \<not> snd (CurrentState (svc_runner s) sid) \<and> snd (CurrentState (svc_runner s') sid)"
    and start_refuses: "svc_inv s \<Longrightarrow> start ts sid ps attrs s = (Err e, s') \<Longrightarrow>
      map_of (sessions (svc_runner s')) = map_of (sessions (svc_runner s))"
begin

lemma http_frame:
  assumes "svc_inv s"
  shows "svc_frame s (snd (handleSessionStart errText (Some start) ts body s))"
proof (cases body)
  case (Inr req)
  obtain res s1 where st: "start ts (rq_SessionID req) (rq_Participants req) (rq_Attrs req) s = (res, s1)" by fastforce
  then have "svc_frame s s1" using start_frame [OF assms, of ts "rq_SessionID req" "rq_Participants req" "rq_Attrs req"] by simp
  then show ?thesis
    using Inr st svc_frame_refl [OF assms] by (auto simp: handleSessionStart_def split: outcome.split)
qed (use svc_frame_refl [OF assms] in \<open>simp add: handleSessionStart_def\<close>)

lemma http_created:
  assumes "svc_inv s" and "handleSessionStart errText (Some start) ts body s = (Some resp, s')"
  shows "if http_status resp = 201
    then \<exists>req st. body = Inr req \<and> rq_SessionID req \<noteq> [] \<and> \<not> snd (CurrentState (svc_runner s) (rq_SessionID req)) \<and>
      CurrentState (svc_runner s') (rq_SessionID req) = (st, True) \<and> http_body resp = SessionBody (rq_SessionID req) st \<and>
      start ts (rq_SessionID req) (rq_Participants req) (rq_Attrs req) s = (Ok (), s')
    else http_status resp \<in> {400, 409} \<and> map_of (sessions (svc_runner s')) = map_of (sessions (svc_runner s)) \<and>
      (http_status resp = 400 \<longrightarrow> s' = s)"
proof (cases body)
  case (Inl e)
  then show ?thesis using assms by (auto simp: handleSessionStart_def http_Error_def)
next
  case (Inr req)
  show ?thesis
  proof (cases "rq_SessionID req = []")
    case True
    then show ?thesis using assms Inr by (auto simp: handleSessionStart_def http_Error_def)
  next
    case False
    obtain res s1 where st: "start ts (rq_SessionID req) (rq_Participants req) (rq_Attrs req) s = (res, s1)" by fastforce
    show ?thesis
    proof (cases res)
      case (Ok u)
      then have "snd (CurrentState (svc_runner s1) (rq_SessionID req))" "\<not> snd (CurrentState (svc_runner s) (rq_SessionID req))"
        using start_begins [OF assms(1), of ts "rq_SessionID req"] st by auto
      then show ?thesis
        using assms(2) Inr False st Ok by (auto simp: handleSessionStart_def writeJSON_def prod_eq_iff)
    next
      case (Err e)
      then have "map_of (sessions (svc_runner s1)) = map_of (sessions (svc_runner s))"
        using start_refuses [OF assms(1)] st by simp
      then show ?thesis using assms(2) Inr False st Err by (auto simp: handleSessionStart_def http_Error_def)
    next
      case (Panic m)
      then show ?thesis using assms(2) Inr False st by (auto simp: handleSessionStart_def)
    qed
  qed
qed

end

lemma seed_attrs_contract:
  assumes "runner_inv r"
  shows "runner_inv (seed_attrs sid attrs r) \<and> session_frame sid r (seed_attrs sid attrs r)"
  using assms
proof (induction attrs arbitrary: r)
  case (Cons a attrs)
  obtain k v where a: "a = (k, v)" by fastforce
  have "runner_inv (seed_context sid k v r)" "session_frame sid r (seed_context sid k v r)"
    using sd.op_inv [OF Cons.prems] sd.op_frame [OF Cons.prems] by auto
  then show ?case using Cons.IH [of "seed_context sid k v r"] session_frame_trans a by (auto simp: seed_attrs_def)
qed (simp add: seed_attrs_def)

lemma seed_attrs_tracker:
  assumes "map_of (sessions r) sid = Some t"
  shows "\<exists>t'. map_of (sessions (seed_attrs sid attrs r)) sid = Some t' \<and> trk_state t' = trk_state t \<and>
    trk_current t' = trk_current t \<and> (\<forall>k. ctx_Get (trk_ctx t') k = (case map_of (rev attrs) k of Some v \<Rightarrow> Some v | None \<Rightarrow> ctx_Get (trk_ctx t) k))"
  using assms
proof (induction attrs arbitrary: r t)
  case (Cons a attrs)
  obtain k v where a: "a = (k, v)" by fastforce
  let ?t = "t\<lparr> trk_ctx := ctx_Set (trk_ctx t) k v \<rparr>"
  have "map_of (sessions (seed_context sid k v r)) sid = Some ?t"
    using Cons.prems by (simp add: seed_context_def put_tracker_def)
  from Cons.IH [OF this] show ?case
    by (auto simp: a seed_attrs_def ctx_Get_def ctx_Set_def map_add_def split: option.split)
qed (simp add: seed_attrs_def)

lemma manual_Start_cases:
  assumes "svc_inv s" and "manual_Start mar mt ts sid ps attrs s = (res, s')"
  obtains (none) "ps = []" "s' = s" "res = Err (Msg ''trigger: no participants supplied'' [])"
  | (failed) r1 res1 where "ps \<noteq> []" "BeginSession sid [] (svc_runner s) = (res1, r1)" "\<not> is_ok res1" "\<not> is_ok res"
      "s' = s\<lparr> svc_started := svc_started s + 1, svc_runner := r1 \<rparr>" "\<forall>e. res = Err e \<longrightarrow> (\<exists>e'. res1 = Err e')"
  | (begun) r1 h where "ps \<noteq> []" "BeginSession sid [] (svc_runner s) = (Ok (), r1)" "res = Ok ()"
      "h = (if mt_hasHub mt \<and> mt_InviteType mt \<noteq> []
         then BroadcastToSession mar ts sid ps (invite_message mt) (svc_hub s) else svc_hub s)"
      "s' = s\<lparr> svc_started := svc_started s + 1, svc_runner := seed_attrs sid attrs r1, svc_hub := h \<rparr>"
proof (cases "ps = []")
  case True
  then show thesis using none assms(2) by (simp add: manual_Start_def)
next
  case False
  obtain res1 r1 where b: "BeginSession sid [] (svc_runner s) = (res1, r1)" by fastforce
  show thesis
  proof (cases res1)
    case (Ok u)
    then show thesis using begun [OF False] b False assms(2) by (auto simp: manual_Start_def Let_def split: if_splits)
  qed (use failed [OF False b] b False assms(2) in \<open>auto simp: manual_Start_def Let_def\<close>)
qed

lemma manual_Start_contract:
  assumes "svc_inv s" and "manual_Start mar mt ts sid ps attrs s = (res, s')"
  shows "svc_frame s s' \<and> session_frame sid (svc_runner s) (svc_runner s')"
  using assms
proof (cases rule: manual_Start_cases)
  case none
  then show ?thesis using svc_frame_refl [OF assms(1)] by simp
next
  case (failed r1 res1)
  have "runner_inv r1 \<and> session_frame sid (svc_runner s) r1"
    using BeginSession_contract [OF _ failed(2)] assms(1) by (simp add: svc_inv_def)
  then show ?thesis using assms(1) by (simp add: failed(5) svc_frame_def svc_inv_def session_frame_def)
next
  case (begun r1 h)
  have r1: "runner_inv r1 \<and> session_frame sid (svc_runner s) r1"
    using BeginSession_contract [OF _ begun(2)] assms(1) by (simp add: svc_inv_def)
  then have "runner_inv (seed_attrs sid attrs r1) \<and> session_frame sid (svc_runner s) (seed_attrs sid attrs r1)"
    using seed_attrs_contract session_frame_trans by blast
  moreover have "hub_inv h" "hub_conf h = hub_conf (svc_hub s)" using assms(1) begun(4) by (auto simp: svc_inv_def)
  ultimately show ?thesis using assms(1) by (simp add: begun(5) svc_frame_def svc_inv_def session_frame_def)
qed

lemma manual_Start_state:
  assumes "svc_inv s" and "manual_Start mar mt ts sid ps attrs s = (res, s')"
  shows "(res = Ok () \<longrightarrow> CurrentState (svc_runner s) sid = (StateNone, False) \<and> ps \<noteq> [] \<and>
      CurrentState (svc_runner s') sid = (initialState (svc_runner s), True) \<and>
      (\<forall>k v. map_of (rev attrs) k = Some v \<longrightarrow>
         (\<exists>c. session_context_of (svc_runner s') sid = Some c \<and> ctx_Get c k = Some v))) \<and>
    (\<forall>e. res = Err e \<longrightarrow> map_of (sessions (svc_runner s')) = map_of (sessions (svc_runner s)) \<and> svc_hub s' = svc_hub s)"
  using assms
proof (cases rule: manual_Start_cases)
  case none
  then show ?thesis by simp
next
  case (failed r1 res1)
  then show ?thesis using begin_session_facts [OF _ failed(2)] assms(1) by (auto simp: svc_inv_def)
next
  case (begun r1 h)
  have f: "CurrentState (svc_runner s) sid = (StateNone, False)" "CurrentState r1 sid = (initialState (svc_runner s), True)"
    using begin_session_facts [OF _ begun(2)] assms(1) by (auto simp: svc_inv_def)
  then obtain t where t: "map_of (sessions r1) sid = Some t" "trk_state t = initialState (svc_runner s)"
    by (auto simp: CurrentState_def split: option.splits)
  then show ?thesis
    using seed_attrs_tracker [OF t(1), of attrs] f begun(1,3,5) by (auto simp: CurrentState_def session_context_of_def ctx_Get_def)
qed

interpretation mt: session_trigger "manual_Start mar mt" for mar mt
proof
  fix s :: "'a svc_state" and ts sid sid' ps attrs s' e
  assume inv: "svc_inv s"
  show "svc_frame s (snd (manual_Start mar mt ts sid ps attrs s))"
    using manual_Start_contract [OF inv surjective_pairing] by blast
  show "sid' \<noteq> sid \<Longrightarrow> map_of (sessions (svc_runner (snd (manual_Start mar mt ts sid ps attrs s)))) sid' =
      map_of (sessions (svc_runner s)) sid'"
    using manual_Start_contract [OF inv surjective_pairing] by (auto simp: session_frame_def)
  show "manual_Start mar mt ts sid ps attrs s = (Ok (), s') \<Longrightarrow>
      \<not> snd (CurrentState (svc_runner s) sid) \<and> snd (CurrentState (svc_runner s') sid)"
    using manual_Start_state [OF inv] by fastforce
  show "manual_Start mar mt ts sid ps attrs s = (Err e, s') \<Longrightarrow>
      map_of (sessions (svc_runner s')) = map_of (sessions (svc_runner s))"
    using manual_Start_state [OF inv] by blast
qed

section \<open>Histories of a service\<close>

datatype 'v svc_op =
    SvcConnect int string string string bool
  | SvcFrame int nat "ws_message option"
  | SvcClose nat
  | SvcTake nat
  | SvcStart string "string + 'v session_start_request"
  | SvcPut int string req_body
  | SvcSweep int

fun svc_step :: "(err \<Rightarrow> string) \<Rightarrow> 'v service \<Rightarrow> 'v svc_op \<Rightarrow> 'v svc_state \<Rightarrow> 'v svc_state" where
  "svc_step errText sv (SvcConnect now p token origin up) s = s\<lparr> svc_hub := snd (HandleWS now p token origin up (svc_hub s)) \<rparr>"
| "svc_step errText sv (SvcFrame now cid parsed) s = snd (handle_frame now errText (sv_hook sv) cid parsed s)"
| "svc_step errText sv (SvcClose cid) s = s\<lparr> svc_hub := readPump_close cid (svc_hub s) \<rparr>"
| "svc_step errText sv (SvcTake cid) s = s\<lparr> svc_hub := snd (writePump_take cid (svc_hub s)) \<rparr>"
| "svc_step errText sv (SvcStart ts body) s = snd (handleSessionStart errText (Some (sv_trigger sv)) ts body s)"
| "svc_step errText sv (SvcPut now key b) s =
     (case snd (handleArtifactPut now (sv_maxArtifact sv) key b (Some (svc_artifacts s))) of
        Some st \<Rightarrow> s\<lparr> svc_artifacts := st \<rparr> | None \<Rightarrow> s)"
| "svc_step errText sv (SvcSweep now) s = s\<lparr> svc_artifacts := snd (artifact_Sweep now (svc_artifacts s)) \<rparr>"

definition svc_run :: "(err \<Rightarrow> string) \<Rightarrow> 'v service \<Rightarrow> 'v svc_op list \<Rightarrow> 'v svc_state" where
  "svc_run errText sv ops = fold (svc_step errText sv) ops (sv_state sv)"

text \<open>The application's hook works on the service through the service's own operations.\<close>

definition hook_ok :: "'v post_hook option \<Rightarrow> bool" where
  "hook_ok hook \<longleftrightarrow> (\<forall>f p m e s. hook = Some f \<and> svc_inv s \<longrightarrow> svc_frame s (f p m e s))"

lemma dispatch_frame:
  assumes "svc_inv s" and "hook_ok hook"
  shows "svc_frame s (snd (dispatch now errText hook p msg s))"
proof (cases "ws_SessionID msg = []")
  case True
  then show ?thesis using svc_frame_refl [OF assms(1)] by (simp add: dispatch_def)
next
  case False
  define out where "out = (case ws_Lineage msg of
      Some node \<Rightarrow> HandleLineageMessage now (ws_SessionID msg) (ws_Type msg) p (ws_Payload msg) (Some node) (svc_runner s)
    | None \<Rightarrow> HandleMessage now (ws_SessionID msg) (ws_Type msg) p (ws_Payload msg) (svc_runner s))"
  have inv: "runner_inv (svc_runner s)" using assms(1) by (simp add: svc_inv_def)
  have "runner_inv (snd out)" "session_frame (ws_SessionID msg) (svc_runner s) (snd out)"
    using hm.op_inv [OF inv] hm.op_frame [OF inv] hl.op_inv [OF inv] hl.op_frame [OF inv]
    by (auto simp: out_def split: option.split)
  then have f1: "svc_frame s (s\<lparr> svc_runner := snd out \<rparr>)" by (rule svc_frame_runner [OF assms(1)])
  then have i1: "svc_inv (s\<lparr> svc_runner := snd out \<rparr>)" by (simp add: svc_frame_def)
  have f2: "svc_frame s (s\<lparr> svc_runner := snd out, svc_events := ev \<rparr>)" for ev
    using svc_frame_trans [OF f1 svc_frame_other(1) [OF i1]] .
  have f3: "svc_frame s (f p msg e (s\<lparr> svc_runner := snd out, svc_events := ev \<rparr>))" if "hook = Some f" for f e ev
  proof -
    have "svc_inv (s\<lparr> svc_runner := snd out, svc_events := ev \<rparr>)" using f2 by (simp add: svc_frame_def)
    then show ?thesis using svc_frame_trans [OF f2] assms(2) that unfolding hook_ok_def by blast
  qed
  show ?thesis
    using False f1 f2 f3 unfolding dispatch_def Let_def out_def [symmetric]
    by (auto split: prod.split outcome.split option.split)
qed

lemma handle_frame_frame:
  assumes "svc_inv s" and "hook_ok hook"
  shows "svc_frame s (snd (handle_frame now errText hook cid parsed s))"
proof -
  obtain fr h where fh: "readPump_frame now cid parsed (svc_hub s) = (fr, h)" by fastforce
  then have "hub_inv h" "hub_conf h = hub_conf (svc_hub s)"
    using hub_inv_readPump_frame [of "svc_hub s" now cid parsed] hub_conf_frame [of now cid parsed "svc_hub s"] assms(1)
    by (simp_all add: svc_inv_def)
  then have f: "svc_frame s (s\<lparr> svc_hub := h \<rparr>)" by (rule svc_frame_hub [OF assms(1)])
  moreover have "svc_frame s (snd (dispatch now errText hook p msg (s\<lparr> svc_hub := h \<rparr>)))" for p msg
    by (rule svc_frame_trans [OF f dispatch_frame [OF _ assms(2)]]) (use f in \<open>simp add: svc_frame_def\<close>)
  ultimately show ?thesis using fh by (cases fr) (simp_all add: handle_frame_def)
qed

lemma artifact_wf:
  "map_wf (as_entries st) \<Longrightarrow> handleArtifactPut now mx key b (Some st) = (resp, Some st') \<Longrightarrow> map_wf (as_entries st')"
  "map_wf (as_entries st) \<Longrightarrow> map_wf (as_entries (snd (artifact_Sweep now st)))"
  by (auto simp: handleArtifactPut_def Let_def artifact_Put_def artifact_Sweep_def map_wf_def distinct_map_filter
      distinct_update split: if_splits sum.splits read_err.splits)

lemma svc_step_frame:
  assumes "svc_inv s" and "hook_ok (sv_hook sv)" and "session_trigger (sv_trigger sv)"
  shows "svc_frame s (svc_step errText sv x s)"
proof (cases x)
  case (SvcStart ts body)
  then show ?thesis using session_trigger.http_frame [OF assms(3,1)] by simp
next
  case (SvcFrame now cid parsed)
  then show ?thesis using handle_frame_frame [OF assms(1,2)] by simp
next
  case (SvcPut now key b)
  have "map_wf (as_entries st')"
    if "snd (handleArtifactPut now (sv_maxArtifact sv) key b (Some (svc_artifacts s))) = Some st'" for st'
    using artifact_wf(1) [of "svc_artifacts s" now "sv_maxArtifact sv" key b _ st'] assms(1) that
    by (metis prod.collapse svc_inv_def)
  then show ?thesis using assms(1) SvcPut by (auto simp: svc_frame_def svc_inv_def split: option.split)
next
  case (SvcSweep now)
  then show ?thesis using assms(1) artifact_wf(2) by (simp add: svc_frame_def svc_inv_def)
qed (use assms(1) svc_frame_hub [OF assms(1)] in
      \<open>simp_all add: svc_inv_def hub_inv_HandleWS hub_inv_close hub_inv_take\<close>)

lemma svc_run_frame:
  assumes "svc_inv (sv_state sv)" and "hook_ok (sv_hook sv)" and "session_trigger (sv_trigger sv)"
  shows "svc_frame (sv_state sv) (svc_run errText sv ops)"
proof -
  have "svc_frame s (fold (svc_step errText sv) ops s)" if "svc_inv s" for s
    using that
  proof (induction ops arbitrary: s)
    case (Cons x ops)
    have f: "svc_frame s (svc_step errText sv x s)" by (rule svc_step_frame [OF Cons.prems assms(2,3)])
    then have "svc_inv (svc_step errText sv x s)" by (simp add: svc_frame_def)
    then show ?case using Cons.IH svc_frame_trans [OF f] by simp
  qed (simp add: svc_frame_refl)
  then show ?thesis using assms(1) by (simp add: svc_run_def)
qed

lemma NewService_Ok:
  assumes "NewService env mar cfg = Ok sv"
  shows "cfg_Addr cfg \<noteq> [] \<and> (\<exists>r. cfg_Runner cfg = Some r \<and> svc_runner (sv_state sv) = r) \<and>
    (cfg_Secret cfg \<noteq> [] \<or> cfg_AllowDevBypass cfg) \<and> \<not> (cfg_AllowDevBypass cfg \<and> env = ''production'') \<and>
    hub_inv (svc_hub (sv_state sv)) \<and> map_wf (as_entries (svc_artifacts (sv_state sv))) \<and>
    hub_conf (svc_hub (sv_state sv)) = (\<lparr> am_Secret = cfg_Secret cfg, am_AllowDevBypass = cfg_AllowDevBypass cfg \<rparr>,
      cfg_AllowedOrigins cfg, cfg_AllowedOrigins cfg = [] \<and> cfg_AllowDevBypass cfg) \<and>
    sv_hook sv = cfg_PostDispatchHook cfg \<and>
    (cfg_Trigger cfg = None \<longrightarrow> sv_trigger sv = manual_Start mar \<lparr> mt_hasHub = True, mt_InviteType = cfg_InviteType cfg \<rparr>) \<and>
    (\<forall>t. cfg_Trigger cfg = Some t \<longrightarrow> sv_trigger sv = t) \<and> svc_events (sv_state sv) \<noteq> None"
  using assms
  by (auto simp: NewService_def Let_def NewArtifactStore_def NewArtifactStoreWithTTL_def hub_conf_def NewHubWithOptions_def
      hub_inv_def split: if_splits option.splits)

lemma new_service_start:
  assumes "NewService env mar cfg = Ok sv" and "cfg_Runner cfg = Some r" and "runner_inv r"
    and "\<And>t. cfg_Trigger cfg = Some t \<Longrightarrow> session_trigger t"
  shows "svc_inv (sv_state sv) \<and> session_trigger (sv_trigger sv)"
  using NewService_Ok [OF assms(1)] assms(2-4) mt.session_trigger_axioms
  by (cases "cfg_Trigger cfg") (auto simp: svc_inv_def)

text \<open>
  Claim C17. A production service never lets an unauthenticated connection in: when \<^verbatim>\<open>ARES_ENV\<close> is
  \<^verbatim>\<open>production\<close> and \<^verbatim>\<open>NewService\<close> accepts the configuration, then after every history of connections,
  frames, session starts and uploads, a WebSocket is accepted only with the HMAC token of its
  pseudonym under the configured, non-empty secret, and only without an \<^verbatim>\<open>Origin\<close> or with a
  whitelisted one.
\<close>

theorem production_auth:
  assumes "NewService ''production'' mar cfg = Ok sv" and "cfg_Runner cfg = Some r" and "runner_inv r"
    and "hook_ok (cfg_PostDispatchHook cfg)" and "\<And>t. cfg_Trigger cfg = Some t \<Longrightarrow> session_trigger t"
    and "HandleWS now p token origin up (svc_hub (svc_run errText sv ops)) = (Connected cid, h')"
  shows "cfg_Secret cfg \<noteq> [] \<and> p \<noteq> [] \<and>
    token = GenerateToken \<lparr> am_Secret = cfg_Secret cfg, am_AllowDevBypass = False \<rparr> p \<and>
    (origin = [] \<or> origin \<in> set (cfg_AllowedOrigins cfg))"
proof -
  note N = NewService_Ok [OF assms(1)]
  have "svc_frame (sv_state sv) (svc_run errText sv ops)"
    using svc_run_frame new_service_start [OF assms(1-3,5)] N assms(4) by metis
  then have "hub_conf (svc_hub (svc_run errText sv ops)) =
      (\<lparr> am_Secret = cfg_Secret cfg, am_AllowDevBypass = False \<rparr>, cfg_AllowedOrigins cfg, False)" and "cfg_Secret cfg \<noteq> []"
    using N by (auto simp: svc_frame_def)
  then show ?thesis
    using assms(6) by (auto simp: HandleWS_def Let_def hub_conf_def ValidateToken_def GenerateToken_def CheckOrigin_def
        split: if_splits)
qed

definition sample_config :: "unit config" where
  "sample_config = \<lparr> cfg_Addr = '':8000'', cfg_ServiceName = ''demo'', cfg_Secret = [1], cfg_AllowDevBypass = False,
     cfg_Runner = Some two_runner, cfg_Trigger = None, cfg_InviteType = ''invite'', cfg_EventRing = None,
     cfg_AllowedOrigins = [], cfg_MaxWSMessageSize = 0, cfg_MaxArtifactSize = 0, cfg_PostDispatchHook = None \<rparr>"

definition sample_service :: "unit service" where
  "sample_service = (case NewService ''production'' (\<lambda>_. Some []) sample_config of Ok sv \<Rightarrow> sv)"

lemma sample_service_Ok: "NewService ''production'' (\<lambda>_. Some []) sample_config = Ok sample_service"
  by (simp add: sample_service_def NewService_def sample_config_def Let_def)

lemma sample_service_facts:
  "svc_inv (sv_state sample_service)" "session_trigger (sv_trigger sample_service)" "hook_ok (sv_hook sample_service)"
  "svc_runner (sv_state sample_service) = two_runner"
proof -
  have "cfg_Runner sample_config = Some two_runner" "cfg_Trigger sample_config = None" "cfg_PostDispatchHook sample_config = None"
    by (simp_all add: sample_config_def)
  then show "svc_inv (sv_state sample_service)" "session_trigger (sv_trigger sample_service)" "hook_ok (sv_hook sample_service)"
    "svc_runner (sv_state sample_service) = two_runner"
    using new_service_start [OF sample_service_Ok _ two_runner_inv] NewService_Ok [OF sample_service_Ok]
    by (auto simp: hook_ok_def)
qed

lemma production_auth_witness:
  "fst (HandleWS 0 ''x'' (GenerateToken \<lparr> am_Secret = [1], am_AllowDevBypass = False \<rparr> ''x'') [] True
      (svc_hub (svc_run (\<lambda>_. []) sample_service [SvcSweep 5]))) = Connected 0 \<and> cfg_Secret sample_config \<noteq> []"
proof -
  let ?h = "svc_hub (svc_run (\<lambda>_. []) sample_service [SvcSweep 5])"
  let ?tok = "GenerateToken \<lparr> am_Secret = [1], am_AllowDevBypass = False \<rparr> ''x''"
  have ok: "fst (HandleWS 0 ''x'' ?tok [] True ?h) = Connected 0"
    by (simp add: svc_run_def sample_service_def NewService_def sample_config_def Let_def NewHubWithOptions_def
        HandleWS_def ValidateToken_def GenerateToken_def CheckOrigin_def)
  then have "HandleWS 0 ''x'' ?tok [] True ?h = (Connected 0, snd (HandleWS 0 ''x'' ?tok [] True ?h))"
    by (metis prod.collapse)
  from production_auth [OF sample_service_Ok _ two_runner_inv _ _ this] ok show ?thesis
    by (simp add: sample_config_def hook_ok_def)
qed

text \<open>
  Claim C18. The service keeps its parts consistent: from a configuration that \<^verbatim>\<open>NewService\<close> accepts, with
  a consistent runner and a trigger and hook that keep the contract, every history of connections,
  frames, disconnects, session starts, uploads and sweeps leaves the runner, the hub and the
  artifact store in their invariants, the runner's pipeline and the hub's authentication as
  configured, and no stored lineage node lost.
\<close>

theorem service_invariant:
  assumes "NewService env mar cfg = Ok sv" and "cfg_Runner cfg = Some r" and "runner_inv r"
    and "hook_ok (cfg_PostDispatchHook cfg)" and "\<And>t. cfg_Trigger cfg = Some t \<Longrightarrow> session_trigger t"
  shows "runner_inv (svc_runner (svc_run errText sv ops)) \<and> hub_inv (svc_hub (svc_run errText sv ops)) \<and>
    map_wf (as_entries (svc_artifacts (svc_run errText sv ops))) \<and>
    same_config r (svc_runner (svc_run errText sv ops)) \<and>
    am_Secret (hub_auth (svc_hub (svc_run errText sv ops))) = cfg_Secret cfg \<and>
    store_grows (lineageStore r) (lineageStore (svc_runner (svc_run errText sv ops)))"
proof -
  note N = NewService_Ok [OF assms(1)]
  have "svc_frame (sv_state sv) (svc_run errText sv ops)"
    using svc_run_frame new_service_start [OF assms(1-3,5)] N assms(4) by metis
  then show ?thesis using N assms(2) by (auto simp: svc_frame_def svc_inv_def hub_conf_def)
qed

lemma service_invariant_witness:
  "runner_inv (svc_runner (svc_run (\<lambda>_. []) sample_service
     [SvcStart [] (Inr \<lparr> rq_SessionID = ''s'', rq_Participants = [''x''], rq_Attrs = [] \<rparr>), SvcSweep 5]))"
  using service_invariant [OF sample_service_Ok _ two_runner_inv, of "\<lambda>_. []"
      "[SvcStart [] (Inr \<lparr> rq_SessionID = ''s'', rq_Participants = [''x''], rq_Attrs = [] \<rparr>), SvcSweep 5]"]
  by (simp add: sample_config_def hook_ok_def)

section \<open>One frame, end to end\<close>

lemma dispatch_routed:
  assumes "ws_SessionID msg \<noteq> []"
    and "(res, r1) = (case ws_Lineage msg of
      Some node \<Rightarrow> HandleLineageMessage now (ws_SessionID msg) (ws_Type msg) p (ws_Payload msg) (Some node) (svc_runner s)
    | None \<Rightarrow> HandleMessage now (ws_SessionID msg) (ws_Type msg) p (ws_Payload msg) (svc_runner s))"
  shows "svc_runner (snd (dispatch now errText None p msg s)) = r1"
    and "\<not> (\<exists>m. res = Panic m) \<Longrightarrow> svc_events (snd (dispatch now errText None p msg s)) =
      ring_Record now (ws_SessionID msg) (ws_Type msg) p (case err_of res of None \<Rightarrow> [] | Some e \<Rightarrow> errText e) (svc_events s)"
  unfolding dispatch_def assms(2) [symmetric] using assms(1) by (simp_all add: Let_def split: outcome.split)

lemma ring_Events_Record:
  "\<exists>es. ring_Events sid (ring_Record now sid ty from e (Some r)) =
     Some (es @ [\<lparr> se_Time = now, se_SessionID = sid, se_Type = ty, se_From = from, se_Error = e \<rparr>])"
  by (simp add: ring_Events_def ring_Record_def Let_def)

lemma dispatch_other_sessions:
  assumes "svc_inv s" and "sid \<noteq> ws_SessionID msg"
  shows "map_of (sessions (svc_runner (snd (dispatch now errText None p msg s)))) sid = map_of (sessions (svc_runner s)) sid"
proof (cases "ws_SessionID msg = []")
  case False
  obtain res r1 where out: "(res, r1) = (case ws_Lineage msg of
      Some node \<Rightarrow> HandleLineageMessage now (ws_SessionID msg) (ws_Type msg) p (ws_Payload msg) (Some node) (svc_runner s)
    | None \<Rightarrow> HandleMessage now (ws_SessionID msg) (ws_Type msg) p (ws_Payload msg) (svc_runner s))"
    by (metis surj_pair)
  have inv: "runner_inv (svc_runner s)" using assms(1) by (simp add: svc_inv_def)
  have "map_of (sessions r1) sid = map_of (sessions (svc_runner s)) sid"
    using hm.other_session [OF inv assms(2)] hl.other_session [OF inv assms(2)] arg_cong [OF out, of snd]
    by (auto split: option.splits)
  then show ?thesis using dispatch_routed(1) [OF False out] by simp
qed (simp add: dispatch_def)

lemma dispatch_rejected_node:
  assumes "ws_SessionID msg \<noteq> []" and "lineageStore (svc_runner s) = Some st" and "ws_Lineage msg = Some node"
    and "\<not> admissible (lineageVerifiers (svc_runner s)) st node (ws_Payload msg)" and "svc_events s = Some ring"
    and "s' = snd (dispatch now errText None p msg s)"
  shows "sessions (svc_runner s') = sessions (svc_runner s) \<and> lineageStore (svc_runner s') = Some st \<and>
    (\<exists>e es. err_is e ErrAppAttributable \<and> ring_Events (ws_SessionID msg) (svc_events s') =
       Some (es @ [\<lparr> se_Time = now, se_SessionID = ws_SessionID msg, se_Type = ws_Type msg, se_From = p, se_Error = errText e \<rparr>]))"
proof -
  obtain m where m: "HandleLineageMessage now (ws_SessionID msg) (ws_Type msg) p (ws_Payload msg) (Some node) (svc_runner s) =
      (Err (Classified ErrAppAttributable (Note ''HandleLineageMessage'' (ws_SessionID msg) (Lin (ErrMismatch m)))),
       fireFailureHook (failure_event ''mismatch-confirmed'' (ws_SessionID msg) node) (svc_runner s))"
    using HandleLineageMessage_rejected [OF assms(2,4)] by blast
  let ?e = "Classified ErrAppAttributable (Note ''HandleLineageMessage'' (ws_SessionID msg) (Lin (ErrMismatch m)))"
  have "(Err ?e, fireFailureHook (failure_event ''mismatch-confirmed'' (ws_SessionID msg) node) (svc_runner s)) =
      (case ws_Lineage msg of
         Some node \<Rightarrow> HandleLineageMessage now (ws_SessionID msg) (ws_Type msg) p (ws_Payload msg) (Some node) (svc_runner s)
       | None \<Rightarrow> HandleMessage now (ws_SessionID msg) (ws_Type msg) p (ws_Payload msg) (svc_runner s))"
    using m assms(3) by simp
  note dr = dispatch_routed [OF assms(1) this, of errText, folded assms(6)]
  have "svc_events s' = ring_Record now (ws_SessionID msg) (ws_Type msg) p (errText ?e) (Some ring)"
    using dr(2) assms(5) by simp
  then obtain es where "ring_Events (ws_SessionID msg) (svc_events s') =
      Some (es @ [\<lparr> se_Time = now, se_SessionID = ws_SessionID msg, se_Type = ws_Type msg, se_From = p, se_Error = errText ?e \<rparr>])"
    using ring_Events_Record [of "ws_SessionID msg" now "ws_Type msg" p "errText ?e" ring] by auto
  moreover have "err_is ?e ErrAppAttributable" by simp
  ultimately show ?thesis using dr(1) assms(2) by (metis fireFailureHook_frame(1,2))
qed

lemma readPump_frame_dropped:
  assumes "readPump_frame now cid parsed h = (fr, h')"
  shows "case fr of
      Delivered _ _ \<Rightarrow> True
    | RateLimited \<Rightarrow>
        (\<exists>c msg l. map_of (hub_conns h) cid = Some c \<and> parsed = Some msg \<and>
           h' = h\<lparr> hub_seqHigh := (if ws_Seq msg = 0 then hub_seqHigh h else mput (seq_key (cl_Pseudonym c) msg) (ws_Seq msg) (hub_seqHigh h)),
                   hub_conns := mput cid (c\<lparr> cl_limiter := l \<rparr>) (hub_conns h) \<rparr>)
    | _ \<Rightarrow> h' = h"
  using assms
  by (fastforce simp: readPump_frame_def checkAndRecordSeq_def Let_def split: option.splits if_splits prod.splits)

text \<open>
  Claim C16. One inbound frame, from the socket to the session, in a service without a \<^verbatim>\<open>PostDispatchHook\<close>. A frame that is not JSON, not valid, or a
  replay changes nothing. A frame that the rate limit drops has already recorded its sequence number, and changes that and the limiter of the connection,
  nothing else. A frame that is let through and names a session acts only on that
  session, under the pseudonym the connection authenticated with. A frame with a lineage node that
  does not verify against its payload, or with a parent that is not stored, leaves every session
  and the lineage store of a lineage-enabled runner untouched, and the session's event log ends
  with an entry that carries the attributable error.
\<close>

theorem frame_end_to_end:
  assumes "svc_inv s" and "svc_events s = Some ring" and "handle_frame now errText None cid parsed s = (fr, s')"
  shows "case fr of
      Delivered p msg \<Rightarrow>
        (\<exists>c. map_of (hub_conns (svc_hub s)) cid = Some c \<and> p = cl_Pseudonym c) \<and>
        (\<forall>sid. sid \<noteq> ws_SessionID msg \<longrightarrow> map_of (sessions (svc_runner s')) sid = map_of (sessions (svc_runner s)) sid) \<and>
        (ws_SessionID msg = [] \<longrightarrow> svc_runner s' = svc_runner s \<and> svc_events s' = svc_events s) \<and>
        (\<forall>st node. ws_SessionID msg \<noteq> [] \<and> lineageStore (svc_runner s) = Some st \<and> ws_Lineage msg = Some node \<and>
           \<not> admissible (lineageVerifiers (svc_runner s)) st node (ws_Payload msg) \<longrightarrow>
           sessions (svc_runner s') = sessions (svc_runner s) \<and> lineageStore (svc_runner s') = Some st \<and>
           (\<exists>e es. err_is e ErrAppAttributable \<and> ring_Events (ws_SessionID msg) (svc_events s') =
              Some (es @ [\<lparr> se_Time = now, se_SessionID = ws_SessionID msg, se_Type = ws_Type msg, se_From = p,
                            se_Error = errText e \<rparr>])))
    | RateLimited \<Rightarrow>
        (\<exists>c msg l. map_of (hub_conns (svc_hub s)) cid = Some c \<and> parsed = Some msg \<and>
           s' = s\<lparr> svc_hub := (svc_hub s)\<lparr>
             hub_seqHigh := (if ws_Seq msg = 0 then hub_seqHigh (svc_hub s)
                             else mput (seq_key (cl_Pseudonym c) msg) (ws_Seq msg) (hub_seqHigh (svc_hub s))),
             hub_conns := mput cid (c\<lparr> cl_limiter := l \<rparr>) (hub_conns (svc_hub s)) \<rparr> \<rparr>)
    | _ \<Rightarrow> s' = s"
proof -
  obtain fr0 h where fh: "readPump_frame now cid parsed (svc_hub s) = (fr0, h)" by fastforce
  then have fr: "fr = fr0" using assms(3) by (cases fr0) (auto simp: handle_frame_def)
  show ?thesis
  proof (cases "\<exists>p msg. fr = Delivered p msg")
    case False
    then have s': "s' = s\<lparr> svc_hub := h \<rparr>" using assms(3) fh fr by (cases fr0) (auto simp: handle_frame_def)
    show ?thesis using readPump_frame_dropped [OF fh] False fr unfolding s' by (cases fr0) (simp_all split del: if_split, blast)
  next
    case True
    then obtain p msg where d: "fr = Delivered p msg" by blast
    let ?s = "s\<lparr> svc_hub := h \<rparr>"
    note fd = fh [folded fr, unfolded d]
    have s': "s' = snd (dispatch now errText None p msg ?s)" using assms(3) fd d by (simp add: handle_frame_def)
    have conn: "\<exists>c. map_of (hub_conns (svc_hub s)) cid = Some c \<and> p = cl_Pseudonym c"
      using readPump_frame_Delivered [OF fd] by blast
    have "svc_inv ?s" using hub_inv_readPump_frame [of "svc_hub s" now cid parsed] assms(1) fh by (simp add: svc_inv_def)
    then have other: "map_of (sessions (svc_runner s')) sid = map_of (sessions (svc_runner s)) sid"
      if "sid \<noteq> ws_SessionID msg" for sid
      using dispatch_other_sessions [of ?s sid msg] that s' by simp
    have none: "s' = ?s" if "ws_SessionID msg = []" using that by (simp add: s' dispatch_def)
    show ?thesis
      using d conn other none dispatch_rejected_node [of msg ?s, OF _ _ _ _ _ s'] assms(2) by simp blast
  qed
qed

definition sample_connected :: "unit svc_state" where
  "sample_connected = (sv_state sample_service)\<lparr> svc_hub := snd (HandleWS 0 ''x''
     (GenerateToken \<lparr> am_Secret = [1], am_AllowDevBypass = False \<rparr> ''x'') [] True (svc_hub (sv_state sample_service))) \<rparr>"

lemma frame_end_to_end_witness:
  "\<exists>s'. handle_frame 0 (\<lambda>_. []) None 0 (Some (sample_frame 1)) sample_connected = (Delivered ''x'' (sample_frame 1), s') \<and>
     (\<forall>sid. sid \<noteq> ws_SessionID (sample_frame 1) \<longrightarrow> map_of (sessions (svc_runner s')) sid = map_of (sessions two_runner) sid)"
proof -
  let ?o = "handle_frame 0 (\<lambda>_. []) None 0 (Some (sample_frame 1)) sample_connected"
  have inv: "svc_inv sample_connected"
    using sample_service_facts(1) hub_inv_HandleWS by (simp add: svc_inv_def sample_connected_def)
  obtain ring where ring: "svc_events sample_connected = Some ring"
    using NewService_Ok [OF sample_service_Ok] by (auto simp: sample_connected_def)
  have "\<exists>c. map_of (hub_conns (svc_hub sample_connected)) 0 = Some c \<and> cl_Pseudonym c = ''x'' \<and> fst (limiter_Allow 0 (cl_limiter c))"
    "hub_seqHigh (svc_hub sample_connected) = []"
    by (simp_all add: sample_connected_def sample_service_def NewService_def sample_config_def Let_def NewHubWithOptions_def
        HandleWS_def ValidateToken_def GenerateToken_def CheckOrigin_def limiter_Allow_def newRateLimiter_def)
  then obtain c h1 l where c: "map_of (hub_conns (svc_hub sample_connected)) 0 = Some c" "cl_Pseudonym c = ''x''"
    "checkAndRecordSeq ''x'' (sample_frame 1) (svc_hub sample_connected) = (True, h1)" "limiter_Allow 0 (cl_limiter c) = (True, l)"
    by (auto simp: checkAndRecordSeq_def Let_def sample_frame_def) (metis prod.collapse)
  have "ValidateInboundMessage (sample_frame 1) = None" by (simp add: sample_frame_def ValidateInboundMessage_def WireProtocolVersion_def)
  then have "fst (readPump_frame 0 0 (Some (sample_frame 1)) (svc_hub sample_connected)) = Delivered ''x'' (sample_frame 1)"
    using c by (simp add: readPump_frame_def Let_def)
  then have d: "fst ?o = Delivered ''x'' (sample_frame 1)" by (auto simp: handle_frame_def split: prod.split frame_result.split)
  moreover have "svc_runner sample_connected = two_runner" by (simp add: sample_connected_def sample_service_facts(4))
  ultimately show ?thesis
    using frame_end_to_end [OF inv ring surjective_pairing, of 0 "\<lambda>_. []" 0 "Some (sample_frame 1)"]
    by (intro exI [of _ "snd ?o"]) (simp add: prod_eq_iff)
qed

section \<open>The admin surface\<close>

text \<open>
  Starting a session over HTTP with the default trigger. A 201 means that the session was not
  there before, is now in the pipeline's initial state (which the response carries) with every
  attribute of the request readable in its context, and had at least one participant; on every
  other answer (400 for a bad request, 409 for a refused start) the tracked sessions are unchanged
  and nobody is invited; and no other session is touched either way.
\<close>

theorem session_start_http:
  assumes "svc_inv s" and "map_wf (rq_Attrs req)"
    and "handleSessionStart errText (Some (manual_Start mar trig)) ts (Inr req) s = (Some resp, s')"
  shows "(if http_status resp = 201
     then CurrentState (svc_runner s) (rq_SessionID req) = (StateNone, False) \<and>
       CurrentState (svc_runner s') (rq_SessionID req) = (initialState (svc_runner s), True) \<and>
       http_body resp = SessionBody (rq_SessionID req) (initialState (svc_runner s)) \<and> rq_Participants req \<noteq> [] \<and>
       (\<forall>k v. (k, v) \<in> set (rq_Attrs req) \<longrightarrow>
          (\<exists>c. session_context_of (svc_runner s') (rq_SessionID req) = Some c \<and> ctx_Get c k = Some v))
     else http_status resp \<in> {400, 409} \<and> map_of (sessions (svc_runner s')) = map_of (sessions (svc_runner s)) \<and>
       svc_hub s' = svc_hub s) \<and>
    (\<forall>sid. sid \<noteq> rq_SessionID req \<longrightarrow> map_of (sessions (svc_runner s')) sid = map_of (sessions (svc_runner s)) sid)"
proof -
  obtain res s1 where st: "manual_Start mar trig ts (rq_SessionID req) (rq_Participants req) (rq_Attrs req) s = (res, s1)"
    by fastforce
  note M = manual_Start_state [OF assms(1) st] and C = mt.http_created [OF assms(1,3)]
  have look: "map_of (rev (rq_Attrs req)) k = Some v" if "(k, v) \<in> set (rq_Attrs req)" for k v
    using assms(2) that by (simp add: map_wf_def rev_map [symmetric])
  have s': "s' = s \<or> s' = s1 \<and> rq_SessionID req \<noteq> []"
    using assms(3) st by (auto simp: handleSessionStart_def split: if_splits outcome.splits)
  have other: "\<forall>sid. sid \<noteq> rq_SessionID req \<longrightarrow> map_of (sessions (svc_runner s')) sid = map_of (sessions (svc_runner s)) sid"
    using s' manual_Start_contract [OF assms(1) st] by (auto simp: session_frame_def)
  show ?thesis
  proof (cases "http_status resp = 201")
    case True
    then have "res = Ok ()" "s1 = s'" and body: "http_body resp = SessionBody (rq_SessionID req) (fst (CurrentState (svc_runner s') (rq_SessionID req)))"
      using C st by auto
    then show ?thesis using True M look other by auto
  next
    case False
    have "svc_hub s' = svc_hub s"
      using assms(3) st M False by (auto simp: handleSessionStart_def writeJSON_def split: if_splits outcome.splits)
    then show ?thesis using False C other by simp
  qed
qed

lemma session_start_http_witness:
  "CurrentState (svc_runner (snd (handleSessionStart (\<lambda>_. []) (Some (manual_Start (\<lambda>_. None) \<lparr> mt_hasHub = True, mt_InviteType = ''i'' \<rparr>)) []
      (Inr \<lparr> rq_SessionID = ''s'', rq_Participants = [''x''], rq_Attrs = [(''k'', VNil)] \<rparr>) (sv_state sample_service)))) ''s'' =
   (initialState two_runner, True)"
proof -
  let ?req = "\<lparr> rq_SessionID = ''s'', rq_Participants = [''x''], rq_Attrs = [(''k'', VNil)] \<rparr> :: unit session_start_request"
  let ?o = "handleSessionStart (\<lambda>_. []) (Some (manual_Start (\<lambda>_. None) \<lparr> mt_hasHub = True, mt_InviteType = ''i'' \<rparr>)) [] (Inr ?req) (sv_state sample_service)"
  have "fst (BeginSession ''s'' [] two_runner) = Ok ()"
    by (simp add: BeginSession_def two_runner_def two_phases_def wait_phase_def run_hook_def put_tracker_def Let_def)
  then have b: "BeginSession ''s'' [] two_runner = (Ok (), snd (BeginSession ''s'' [] two_runner))" by (metis prod.collapse)
  have "\<exists>resp s'. ?o = (Some resp, s') \<and> http_status resp = 201"
    by (simp add: handleSessionStart_def manual_Start_def sample_service_facts(4) writeJSON_def) (subst b, simp add: writeJSON_def)
  then obtain resp s' where o: "?o = (Some resp, s')" "http_status resp = 201" by blast
  from session_start_http [OF sample_service_facts(1) _ o(1)] o show ?thesis
    by (simp add: sample_service_facts(4) map_wf_def)
qed

text \<open>
  Uploads: a \<^verbatim>\<open>PUT\<close> that is answered with 204 is read back by a \<^verbatim>\<open>GET\<close> of the same key until the
  time to live is over, and leaves every other key as it was; a body over the limit (64 MiB when
  none is configured) is answered with 413, and every answer other than 204 leaves the store
  untouched.
\<close>

theorem artifact_http:
  assumes "handleArtifactPut now mx key b (Some st) = (resp, Some st')"
  shows "(if http_status resp = 204
     then (now' \<le> now + as_ttl st \<longrightarrow>
         handleArtifactGet now' key (Some st') = \<lparr> http_status = 200, http_body = OctetStream (rb_bytes b) \<rparr>) \<and>
       (\<forall>k. k \<noteq> key \<longrightarrow> handleArtifactGet now' k (Some st') = handleArtifactGet now' k (Some st)) \<and>
       (mx \<ge> 0 \<longrightarrow> int (length (rb_bytes b)) \<le> (if mx = 0 then DefaultMaxArtifactSize else mx))
     else st' = st) \<and>
    (key \<noteq> [] \<and> mx \<ge> 0 \<and> int (length (rb_bytes b)) > (if mx = 0 then DefaultMaxArtifactSize else mx) \<longrightarrow>
       http_status resp = 413)"
proof -
  have "DefaultMaxArtifactSize > 0" by (simp add: DefaultMaxArtifactSize_def)
  then show ?thesis
    using assms unfolding handleArtifactPut_def ReadAll_def
    by (auto simp: handleArtifactGet_def artifact_Get_Put http_Error_def split: if_splits option.splits sum.splits read_err.splits)
qed

lemma artifact_http_witness:
  "handleArtifactGet 9 ''k'' (snd (handleArtifactPut 5 0 ''k'' \<lparr> rb_bytes = [1, 2], rb_error = None \<rparr> (Some NewArtifactStore))) =
     \<lparr> http_status = 200, http_body = OctetStream [1, 2] \<rparr>"
proof -
  have "handleArtifactPut 5 0 ''k'' \<lparr> rb_bytes = [1, 2], rb_error = None \<rparr> (Some NewArtifactStore) =
      (\<lparr> http_status = 204, http_body = NoBody \<rparr>, Some (artifact_Put 5 ''k'' [1, 2] NewArtifactStore))"
    by (simp add: handleArtifactPut_def ReadAll_def DefaultMaxArtifactSize_def)
  from artifact_http [OF this, of 9] this show ?thesis
    by (simp add: NewArtifactStore_def NewArtifactStoreWithTTL_def)
qed

end
