(* ===== verification/Fhecalib.thy ===== *)
theory Fhecalib
  imports Bridge_Native
begin

text \<open>
  \<^verbatim>\<open>pkg/ares/crypto/fhecalib\<close>: the search for the smallest multiplicative depth at which a circuit is
  accurate enough (\<^verbatim>\<open>calibrator.go\<close>), and the run of one depth against the OpenFHE bridge with the
  check of the modulus budget in front of it (\<^verbatim>\<open>calibrate_openfhe.go\<close>). Depths and ring dimensions
  are 32-bit words and bit budgets 64-bit words, with the wrap-around Go gives them.

  The bridge to OpenFHE (\<^verbatim>\<open>pkg/ares/crypto/cgo\<close>, calls into a C++ library) is a record of functions,
  \<open>ckks_backend\<close>, an argument of what uses it; its errors are their texts. Nothing is assumed of it.
  The two loops that may not end, the sweep over the depths and the doubling of the ring dimension,
  are partial functions: \<open>None\<close> is a run that never returns. Error texts are ASCII.
\<close>

section \<open>Interfaces\<close>

text \<open>\<^verbatim>\<open>Inputs\<close> and \<^verbatim>\<open>Expected\<close> return no error but may panic (a negative or wrong length): \<open>Inl\<close>.\<close>

record contract_params =
  cp_Scheme :: string
  cp_RingDim :: "32 word"
  cp_ScalingFactor :: f64
  cp_ScalingModSize :: int
  cp_Depth :: "32 word"

record context_handle =
  ch_Params :: contract_params
  ch_EvalMult :: "bytes \<Rightarrow> bytes \<Rightarrow> (string, bytes) outcome"
  ch_EvalSubConst :: "bytes \<Rightarrow> f64 list \<Rightarrow> (string, bytes) outcome"
  ch_EvalProductSum :: "bytes \<Rightarrow> bytes \<Rightarrow> int \<Rightarrow> (string, bytes) outcome"

record circuit_under_test =
  cut_Name :: string
  cut_Inputs :: "string + f64 list list"
  cut_Expected :: "f64 list list \<Rightarrow> string + f64 list"
  cut_Eval :: "context_handle \<Rightarrow> bytes list \<Rightarrow> (string, bytes) outcome"

record calibration_params =
  cb_Base :: contract_params
  cb_StartDepth :: "32 word"
  cb_MaxDepth :: "32 word"
  cb_Tolerance :: f64

record calibration_result =
  cr_Circuit :: string
  cr_Depth :: "32 word"
  cr_ScalingModSize :: int
  cr_RingDim :: "32 word"
  cr_AchievedAbsError :: f64
  cr_Passed :: bool

section \<open>The error of one run\<close>

fun f_abs :: "f64 \<Rightarrow> f64" where
  "f_abs (Fin x) = Fin \<bar>x\<bar>"
| "f_abs (FInf _) = FInf False"
| "f_abs FNaN = FNaN"

definition maxSlotAbsError :: "f64 list \<Rightarrow> f64 list \<Rightarrow> f64" where
  "maxSlotAbsError got want =
     fold (\<lambda>(g, w) worst. let d = f_abs (f_sub g w) in if f_lt worst d then d else worst) (zip got want) (Fin 0)"

section \<open>The sweep\<close>

datatype calib_err = RunAtDepth "32 word" string | ErrModulusCap "32 word" | Refused string

type_synonym depth_run = "32 word \<Rightarrow> (string, f64 \<times> bool) outcome option"

partial_function (option) sweep_loop ::
  "depth_run \<Rightarrow> calibration_params \<Rightarrow> 32 word \<Rightarrow> calibration_result
    \<Rightarrow> ((calib_err, unit) outcome \<times> calibration_result) option" where
  "sweep_loop runAtDepth p depth res =
     (if \<not> depth \<le> cb_MaxDepth p then Some (Ok (), res)
      else (case runAtDepth depth of
              None \<Rightarrow> None
            | Some (Panic m) \<Rightarrow> Some (Panic m, res)
            | Some (Err e) \<Rightarrow> Some (Err (RunAtDepth depth e), res)
            | Some (Ok (absErr, capHit)) \<Rightarrow>
                if capHit then Some (Err (ErrModulusCap depth), res)
                else (let res1 = (if f_lt absErr (cr_AchievedAbsError res) then res\<lparr> cr_AchievedAbsError := absErr \<rparr> else res)
                      in if f_le absErr (cb_Tolerance p)
                         then Some (Ok (), res1\<lparr> cr_Depth := depth, cr_Passed := True \<rparr>)
                         else sweep_loop runAtDepth p (depth + 1) res1)))"

definition sweep ::
  "calibration_params \<Rightarrow> depth_run \<Rightarrow> ((calib_err, unit) outcome \<times> calibration_result) option" where
  "sweep p runAtDepth =
     sweep_loop runAtDepth p (cb_StartDepth p)
       \<lparr> cr_Circuit = [], cr_Depth = 0, cr_ScalingModSize = cp_ScalingModSize (cb_Base p),
         cr_RingDim = cp_RingDim (cb_Base p), cr_AchievedAbsError = FInf False, cr_Passed = False \<rparr>"

section \<open>The modulus budget\<close>

definition ckksFirstModSize :: "64 word" where "ckksFirstModSize = 60"

definition maxLog2Q :: "32 word \<Rightarrow> 64 word" where
  "maxLog2Q ringDim = ucast ringDim * 1761 div 65536"

definition exceedsModulusBudget :: "32 word \<Rightarrow> 32 word \<Rightarrow> int \<Rightarrow> bool" where
  "exceedsModulusBudget ringDim depth scalingModSize =
     (if ringDim = 0 \<or> scalingModSize = 0 then False
      else ckksFirstModSize + ucast depth * word_of_int scalingModSize > maxLog2Q ringDim)"

section \<open>Errors that mean the modulus is too large\<close>

definition lower_char :: "char \<Rightarrow> char" where
  "lower_char c = (if CHR ''A'' \<le> c \<and> c \<le> CHR ''Z'' then char_of (of_char c + 32 :: nat) else c)"

fun contains_str :: "string \<Rightarrow> string \<Rightarrow> bool" where
  "contains_str s [] = (s = [])"
| "contains_str s (c # t) = (prefix s (c # t) \<or> contains_str s t)"

definition modulusCapMarkers :: "string list" where
  "modulusCapMarkers = [''ciphertext modulus is too large'', ''not enough to support'', ''hestd'']"

definition isModulusCap :: "string \<Rightarrow> bool" where
  "isModulusCap msg \<longleftrightarrow> (\<exists>s \<in> set modulusCapMarkers. contains_str s (map lower_char msg))"

section \<open>The bridge\<close>

record ckks_backend =
  be_Smoke :: "(string, unit) outcome"
  be_KeyGenFirst :: "cgo_params \<Rightarrow> (string, key_share) outcome"
  be_KeyGenNext :: "cgo_params \<Rightarrow> bytes \<Rightarrow> (string, key_share) outcome"
  be_Round1Lead :: "cgo_params \<Rightarrow> bytes \<Rightarrow> (string, bytes \<times> bytes) outcome"
  be_Round1Participant :: "cgo_params \<Rightarrow> bytes \<Rightarrow> bytes \<Rightarrow> bytes \<Rightarrow> bytes \<Rightarrow> (string, bytes \<times> bytes) outcome"
  be_CombineRound1 :: "cgo_params \<Rightarrow> bytes list \<Rightarrow> bytes list \<Rightarrow> bytes list \<Rightarrow> (string, bytes \<times> bytes) outcome"
  be_Round2Participant :: "cgo_params \<Rightarrow> bytes \<Rightarrow> bytes \<Rightarrow> bytes \<Rightarrow> bool \<Rightarrow> (string, bytes) outcome"
  be_CombineRound2 :: "cgo_params \<Rightarrow> bytes \<Rightarrow> bytes list \<Rightarrow> bytes \<Rightarrow> (string, eval_key_final) outcome"
  be_Encrypt :: "cgo_params \<Rightarrow> bytes \<Rightarrow> f64 list \<Rightarrow> (string, bytes) outcome"
  be_EvalMult :: "cgo_params \<Rightarrow> bytes \<Rightarrow> bytes \<Rightarrow> bytes \<Rightarrow> (string, bytes) outcome"
  be_EvalSub :: "cgo_params \<Rightarrow> bytes \<Rightarrow> bytes \<Rightarrow> (string, bytes) outcome"
  be_EvalProductSum :: "cgo_params \<Rightarrow> eval_key_final \<Rightarrow> bytes \<Rightarrow> bytes \<Rightarrow> int \<Rightarrow> (string, bytes) outcome"
  be_PartialDecrypt :: "cgo_params \<Rightarrow> bytes \<Rightarrow> bytes \<Rightarrow> bool \<Rightarrow> (string, bytes) outcome"
  be_FusePartials :: "cgo_params \<Rightarrow> bytes list \<Rightarrow> int \<Rightarrow> (string, f64 list) outcome"

text \<open>\<^verbatim>\<open>if err != nil { return ..., fmt.Errorf("lbl: %w", err) }\<close>.\<close>

definition wrap_err :: "string \<Rightarrow> (string, 'a) outcome \<Rightarrow> ('a \<Rightarrow> (string, 'b) outcome) \<Rightarrow> (string, 'b) outcome" where
  "wrap_err lbl r k = (case r of Ok a \<Rightarrow> k a | Err e \<Rightarrow> Err (lbl @ '': '' @ e) | Panic m \<Rightarrow> Panic m)"

definition cgoHandle ::
  "ckks_backend \<Rightarrow> contract_params \<Rightarrow> cgo_params \<Rightarrow> eval_key_final \<Rightarrow> bytes \<Rightarrow> context_handle" where
  "cgoHandle B params cgoParams evalKeys jointPK =
     \<lparr> ch_Params = params,
       ch_EvalMult = be_EvalMult B cgoParams (ek_EvalMultFinal evalKeys),
       ch_EvalSubConst = (\<lambda>ct vals. wrap_err ''fhecalib: encrypt center'' (be_Encrypt B cgoParams jointPK vals)
                                    (\<lambda>encCenter. be_EvalSub B cgoParams ct encCenter)),
       ch_EvalProductSum = be_EvalProductSum B cgoParams evalKeys \<rparr>"

definition NewContextHandle :: "ckks_backend \<Rightarrow> contract_params \<Rightarrow> eval_key_final \<Rightarrow> bytes \<Rightarrow> context_handle" where
  "NewContextHandle B params evalKeys jointPK =
     cgoHandle B params
       \<lparr> cg_RingDim = cp_RingDim params,
         cg_ScalingFactor = (if cp_ScalingFactor params = Fin 0 then Fin (2 ^ 50) else cp_ScalingFactor params),
         cg_Depth = cp_Depth params, cg_MinimalRotationKeys = False, cg_ProfileDim = 0, cg_PayloadSlotCount = 0,
         cg_EvalSumOnlyRotationKeys = False \<rparr> evalKeys jointPK"

text \<open>The rounds of the joint evaluation keys over all shares, the first share leading.\<close>

fun round1_shares ::
  "ckks_backend \<Rightarrow> cgo_params \<Rightarrow> bytes \<times> bytes \<Rightarrow> nat \<Rightarrow> key_share list \<Rightarrow> (string, (bytes \<times> bytes) list) outcome" where
  "round1_shares B ps lead i [] = Ok []"
| "round1_shares B ps lead i (s # rest) =
     wrap_err (''evalkey round1 participant '' @ dec_nat i)
       (be_Round1Participant B ps (ks_SecretKeyShare s) (fst lead) (snd lead) (ks_PublicKey s))
       (\<lambda>r1. obind (round1_shares B ps lead (Suc i) rest) (\<lambda>rs. Ok (r1 # rs)))"

fun round2_shares ::
  "ckks_backend \<Rightarrow> cgo_params \<Rightarrow> bytes \<Rightarrow> bytes \<Rightarrow> nat \<Rightarrow> key_share list \<Rightarrow> (string, bytes list) outcome" where
  "round2_shares B ps joined finalPK i [] = Ok []"
| "round2_shares B ps joined finalPK i (s # rest) =
     wrap_err (''evalkey round2 participant '' @ dec_nat i)
       (be_Round2Participant B ps (ks_SecretKeyShare s) joined finalPK (ks_Lead s))
       (\<lambda>f. obind (round2_shares B ps joined finalPK (Suc i) rest) (\<lambda>fs. Ok (f # fs)))"

definition buildJointEvalMultN2 ::
  "ckks_backend \<Rightarrow> cgo_params \<Rightarrow> key_share list \<Rightarrow> (string, eval_key_final) outcome" where
  "buildJointEvalMultN2 B ps shares =
     (case shares of
        [] \<Rightarrow> Panic ''runtime error: index out of range''
      | first # rest \<Rightarrow>
          (let finalPK = ks_PublicKey (last shares) in
           wrap_err ''evalkey round1 lead'' (be_Round1Lead B ps (ks_SecretKeyShare first)) (\<lambda>lead.
           obind (round1_shares B ps lead 1 rest) (\<lambda>r1s.
           wrap_err ''combine round1''
             (be_CombineRound1 B ps (map ks_PublicKey shares) (map fst (lead # r1s)) (map snd (lead # r1s))) (\<lambda>combined.
           obind (round2_shares B ps (fst combined) finalPK 0 shares) (\<lambda>fs.
           wrap_err ''combine round2'' (be_CombineRound2 B ps finalPK fs (snd combined)) Ok))))))"

section \<open>One depth\<close>

text \<open>The pattern of \<^verbatim>\<open>runAtDepth\<close>: an error whose text names the modulus is a cap, any other one is returned.\<close>

definition cap_or ::
  "(string \<Rightarrow> string) \<Rightarrow> (string, 'a) outcome \<Rightarrow> ('a \<Rightarrow> (string, f64 \<times> bool) outcome) \<Rightarrow> (string, f64 \<times> bool) outcome" where
  "cap_or lbl r k =
     (case r of
        Ok a \<Rightarrow> k a
      | Err e \<Rightarrow> if isModulusCap e then Ok (Fin 0, True) else Err (lbl e)
      | Panic m \<Rightarrow> Panic m)"

text \<open>The loop over the inputs: the ciphertexts, or the index and error of the first input that fails.\<close>

fun encrypt_inputs ::
  "ckks_backend \<Rightarrow> cgo_params \<Rightarrow> bytes \<Rightarrow> nat \<Rightarrow> f64 list list \<Rightarrow> (nat \<times> string, bytes list) outcome" where
  "encrypt_inputs B ps pk i [] = Ok []"
| "encrypt_inputs B ps pk i (vec # rest) =
     (case be_Encrypt B ps pk vec of
        Err e \<Rightarrow> Err (i, e)
      | Panic m \<Rightarrow> Panic m
      | Ok ct \<Rightarrow> (case encrypt_inputs B ps pk (Suc i) rest of
                    Ok cts \<Rightarrow> Ok (ct # cts) | Err e \<Rightarrow> Err e | Panic m \<Rightarrow> Panic m))"

definition with_inputs ::
  "ckks_backend \<Rightarrow> cgo_params \<Rightarrow> bytes \<Rightarrow> f64 list list \<Rightarrow> (bytes list \<Rightarrow> (string, f64 \<times> bool) outcome)
    \<Rightarrow> (string, f64 \<times> bool) outcome" where
  "with_inputs B ps pk inputs k =
     (case encrypt_inputs B ps pk 0 inputs of
        Ok cts \<Rightarrow> k cts
      | Err (i, e) \<Rightarrow> if isModulusCap e then Ok (Fin 0, True) else Err (''encrypt input '' @ dec_nat i @ '': '' @ e)
      | Panic m \<Rightarrow> Panic m)"

abbreviation labelled :: "string \<Rightarrow> string \<Rightarrow> string" where
  "labelled lbl e \<equiv> lbl @ '': '' @ e"

definition effective_params :: "calibration_params \<Rightarrow> int \<Rightarrow> 32 word \<Rightarrow> cgo_params option" where
  "effective_params p profileDim depth =
     map_option (\<lambda>c. if cp_RingDim (cb_Base p) \<noteq> 0 then c\<lparr> cg_RingDim := cp_RingDim (cb_Base p) \<rparr> else c)
       (DefaultContractParams profileDim depth)"

definition effective_mod_size :: "calibration_params \<Rightarrow> int" where
  "effective_mod_size p = (if cp_ScalingModSize (cb_Base p) = 0 then 50 else cp_ScalingModSize (cb_Base p))"

definition run_with ::
  "ckks_backend \<Rightarrow> circuit_under_test \<Rightarrow> int \<Rightarrow> f64 list list \<Rightarrow> f64 list \<Rightarrow> cgo_params \<Rightarrow> 32 word
    \<Rightarrow> (string, f64 \<times> bool) outcome" where
  "run_with B circ scalingModSize inputs want ps depth =
     (if exceedsModulusBudget (cg_RingDim ps) depth scalingModSize then Ok (Fin 0, True)
      else
        cap_or (labelled ''keygen first'') (be_KeyGenFirst B ps) (\<lambda>first.
        cap_or (labelled ''keygen next'') (be_KeyGenNext B ps (ks_PublicKey first)) (\<lambda>second.
        cap_or id (buildJointEvalMultN2 B ps [first, second]) (\<lambda>evalKeys.
        with_inputs B ps (ks_PublicKey second) inputs (\<lambda>encIn.
        cap_or (labelled ''circuit eval'')
          (cut_Eval circ
             (cgoHandle B \<lparr> cp_Scheme = [], cp_RingDim = cg_RingDim ps, cp_ScalingFactor = Fin 0,
                            cp_ScalingModSize = scalingModSize, cp_Depth = depth \<rparr> ps evalKeys (ks_PublicKey second))
             encIn) (\<lambda>encOut.
        cap_or (labelled ''partial decrypt lead'') (be_PartialDecrypt B ps encOut (ks_SecretKeyShare first) True) (\<lambda>p0.
        cap_or (labelled ''partial decrypt follower'') (be_PartialDecrypt B ps encOut (ks_SecretKeyShare second) False) (\<lambda>p1.
        cap_or (labelled ''fuse partials'') (be_FusePartials B ps [p0, p1] (int (length want))) (\<lambda>got.
        Ok (maxSlotAbsError got want, False))))))))))"

definition runAtDepth ::
  "ckks_backend \<Rightarrow> circuit_under_test \<Rightarrow> calibration_params \<Rightarrow> int \<Rightarrow> f64 list list \<Rightarrow> f64 list \<Rightarrow> depth_run" where
  "runAtDepth B circ p profileDim inputs want depth =
     map_option (\<lambda>ps. run_with B circ (effective_mod_size p) inputs want ps depth) (effective_params p profileDim depth)"

text \<open>
  The ring dimension of the last run is reported in the result; every run resolves the same one,
  and there is a run exactly when the range of depths is not empty.
\<close>

definition Inputs_Expected :: "circuit_under_test \<Rightarrow> string + f64 list list \<times> f64 list" where
  "Inputs_Expected circ =
     (case cut_Inputs circ of
        Inl m \<Rightarrow> Inl m
      | Inr inputs \<Rightarrow> (case cut_Expected circ inputs of Inl m \<Rightarrow> Inl m | Inr want \<Rightarrow> Inr (inputs, want)))"

definition Calibrate ::
  "ckks_backend \<Rightarrow> circuit_under_test \<Rightarrow> calibration_params \<Rightarrow> int
    \<Rightarrow> ((calib_err, unit) outcome \<times> calibration_result) option" where
  "Calibrate B circ p profileDim =
     (let zero = \<lparr> cr_Circuit = [], cr_Depth = 0, cr_ScalingModSize = 0, cr_RingDim = 0,
                   cr_AchievedAbsError = Fin 0, cr_Passed = False \<rparr>
      in case be_Smoke B of
           Panic m \<Rightarrow> Some (Panic m, zero)
         | Err e \<Rightarrow> Some (Err (Refused (''fhecalib: OpenFHE unavailable: '' @ e)), zero)
         | Ok _ \<Rightarrow>
             if cb_StartDepth p = 0 then Some (Err (Refused ''fhecalib: StartDepth must be >= 1''), zero)
             else
               (case Inputs_Expected circ of
                  Inl m \<Rightarrow> Some (Panic m, zero)
                | Inr (inputs, want) \<Rightarrow>
                    (case sweep p (runAtDepth B circ p profileDim inputs want) of
                       None \<Rightarrow> None
                     | Some (err, res) \<Rightarrow>
                         (let resolved = (if cb_StartDepth p \<le> cb_MaxDepth p
                                          then case effective_params p profileDim (cb_StartDepth p) of
                                                 None \<Rightarrow> 0 | Some ps \<Rightarrow> cg_RingDim ps
                                          else 0)
                          in Some (err, res\<lparr> cr_Circuit := cut_Name circ,
                                             cr_RingDim := (if resolved \<noteq> 0 then resolved else cr_RingDim res) \<rparr>)))))"

section \<open>The sweep finds the least depth\<close>

text \<open>The run at a depth ends the sweep: it fails, hits the cap or is accurate enough.\<close>

definition stops :: "depth_run \<Rightarrow> f64 \<Rightarrow> 32 word \<Rightarrow> bool" where
  "stops run tol d \<longleftrightarrow> (case run d of Some (Ok (e, False)) \<Rightarrow> f_le e tol | _ \<Rightarrow> True)"

text \<open>How the run at \<open>d\<close> ends it.\<close>

fun ended_by :: "depth_run \<Rightarrow> 32 word \<Rightarrow> (calib_err, unit) outcome \<times> calibration_result \<Rightarrow> bool" where
  "ended_by run d (res, cr) =
     (case run d of
        Some (Ok (e, False)) \<Rightarrow> res = Ok () \<and> cr_Passed cr \<and> cr_Depth cr = d
      | Some (Ok (e, True)) \<Rightarrow> res = Err (ErrModulusCap d) \<and> \<not> cr_Passed cr
      | Some (Err e) \<Rightarrow> res = Err (RunAtDepth d e) \<and> \<not> cr_Passed cr
      | Some (Panic m) \<Rightarrow> res = Panic m \<and> \<not> cr_Passed cr
      | None \<Rightarrow> False)"

declare ended_by.simps [simp del]

lemma sweep_step:
  assumes "d \<le> cb_MaxDepth p" and "\<not> stops run (cb_Tolerance p) d"
  shows "\<exists>res1. sweep_loop run p d res = sweep_loop run p (d + 1) res1 \<and> cr_Passed res1 = cr_Passed res"
  using assms by (subst sweep_loop.simps)
    (auto simp: stops_def Let_def split: option.splits outcome.splits bool.splits prod.splits)

lemma sweep_skip:
  assumes "\<And>i. i < k \<Longrightarrow> d + of_nat i \<le> cb_MaxDepth p \<and> \<not> stops run (cb_Tolerance p) (d + of_nat i)"
  shows "\<exists>res1. sweep_loop run p d res = sweep_loop run p (d + of_nat k) res1 \<and> cr_Passed res1 = cr_Passed res"
  using assms
proof (induction k)
  case (Suc k)
  then obtain r1 where r1: "sweep_loop run p d res = sweep_loop run p (d + of_nat k) r1" "cr_Passed r1 = cr_Passed res" by auto
  obtain r2 where "sweep_loop run p (d + of_nat k) r1 = sweep_loop run p (d + of_nat k + 1) r2" "cr_Passed r2 = cr_Passed r1"
    using sweep_step [of "d + of_nat k" p run r1] Suc.prems [of k] by auto
  then show ?case using r1 by (auto simp: ac_simps)
qed auto

lemma sweep_from_start:
  assumes "\<And>i. i < k \<Longrightarrow> cb_StartDepth p + of_nat i \<le> cb_MaxDepth p \<and> \<not> stops run (cb_Tolerance p) (cb_StartDepth p + of_nat i)"
  shows "\<exists>res1. sweep p run = sweep_loop run p (cb_StartDepth p + of_nat k) res1 \<and> \<not> cr_Passed res1"
  unfolding sweep_def using sweep_skip [OF assms] by fastforce

lemma sweep_end:
  assumes "d \<le> cb_MaxDepth p" and "stops run (cb_Tolerance p) d" and "run d \<noteq> None" and "\<not> cr_Passed res"
  shows "\<exists>out. sweep_loop run p d res = Some out \<and> ended_by run d out"
  using assms by (subst sweep_loop.simps)
    (auto simp: stops_def Let_def ended_by.simps split: option.splits outcome.splits bool.splits prod.splits)

text \<open>If the loop returns, it does so after finitely many depths that did not end it.\<close>

lemma sweep_returns_at:
  assumes "sweep_loop run p d res = Some out"
  shows "\<exists>k. (\<forall>i < k. d + of_nat i \<le> cb_MaxDepth p \<and> \<not> stops run (cb_Tolerance p) (d + of_nat i)) \<and>
    \<not> (d + of_nat k \<le> cb_MaxDepth p \<and> \<not> stops run (cb_Tolerance p) (d + of_nat k))"
  using _ assms
proof (rule sweep_loop.raw_induct [where P = "\<lambda>run p d res out.
    \<exists>k. (\<forall>i < k. d + of_nat i \<le> cb_MaxDepth p \<and> \<not> stops run (cb_Tolerance p) (d + of_nat i)) \<and>
      \<not> (d + of_nat k \<le> cb_MaxDepth p \<and> \<not> stops run (cb_Tolerance p) (d + of_nat k))"], goal_cases)
  case (1 f run p d res out)
  show ?case
  proof (cases "d \<le> cb_MaxDepth p \<and> \<not> stops run (cb_Tolerance p) d")
    case False
    then show ?thesis by (intro exI [of _ 0]) simp
  next
    case True
    then obtain e where "run d = Some (Ok (e, False))" "\<not> f_le e (cb_Tolerance p)"
      by (auto simp: stops_def split: option.splits outcome.splits bool.splits)
    then obtain r1 where "f run p (d + 1) r1 = Some out" using 1(2) True by (auto simp: Let_def split: if_splits)
    from 1(1) [OF this] obtain k where
      k: "\<forall>i < k. d + 1 + of_nat i \<le> cb_MaxDepth p \<and> \<not> stops run (cb_Tolerance p) (d + 1 + of_nat i)"
        "\<not> (d + 1 + of_nat k \<le> cb_MaxDepth p \<and> \<not> stops run (cb_Tolerance p) (d + 1 + of_nat k))" by blast
    have "d + of_nat i \<le> cb_MaxDepth p \<and> \<not> stops run (cb_Tolerance p) (d + of_nat i)" if "i < Suc k" for i
      using that True k(1) by (cases i) (auto simp: ac_simps)
    then show ?thesis using k(2) by (intro exI [of _ "Suc k"]) (simp add: ac_simps)
  qed
qed

text \<open>The first depth from \<open>d\<close> on that ends the sweep.\<close>

lemma word_range_step:
  fixes d :: "32 word"
  assumes "i \<le> unat m - unat d" "d \<le> m"
  shows "unat (d + of_nat i) = unat d + i" "d + of_nat i \<le> m"
proof -
  have lt: "unat d + i \<le> unat m" using assms by (simp add: word_le_nat_alt)
  moreover have "unat m < 2 ^ LENGTH(32)" by (rule unsigned_less)
  ultimately have "unat d + i < 2 ^ 32" by simp
  then show eq: "unat (d + of_nat i) = unat d + i"
    by (simp add: unat_word_ariths unat_of_nat take_bit_eq_mod mod_simps)
  show "d + of_nat i \<le> m" unfolding word_le_nat_alt eq by (rule lt)
qed

lemma first_stop:
  fixes d m :: "32 word"
  assumes "\<exists>x. d \<le> x \<and> x \<le> m \<and> P x"
  obtains k where "d + of_nat k \<le> m" "P (d + of_nat k)" "\<And>i. i < k \<Longrightarrow> d + of_nat i \<le> m \<and> \<not> P (d + of_nat i)"
    "\<And>x. d \<le> x \<Longrightarrow> x < d + of_nat k \<Longrightarrow> \<not> P x" "d \<le> d + of_nat k"
proof -
  obtain x where x: "d \<le> x" "x \<le> m" "P x" using assms by blast
  have x': "d + of_nat (unat x - unat d) = x" if "d \<le> x" for x
    using that by (simp add: word_le_nat_alt of_nat_diff)
  define Q where "Q k \<longleftrightarrow> k \<le> unat x - unat d \<and> P (d + of_nat k)" for k
  have "Q (unat x - unat d)" using x x' [of x] by (simp add: Q_def)
  then obtain k where k: "Q k" "\<And>i. i < k \<Longrightarrow> \<not> Q i" using exists_least_iff [of Q] by blast
  have le: "k \<le> unat x - unat d" using k(1) by (simp add: Q_def)
  have rng: "unat (d + of_nat i) = unat d + i" "d + of_nat i \<le> m" if "i \<le> k" for i
    using word_range_step [OF _ x(1), of i] le that x(2) by (auto intro: order_trans)
  show ?thesis
  proof
    show "d + of_nat k \<le> m" using rng [of k] by simp
    show "P (d + of_nat k)" using k(1) by (simp add: Q_def)
    show "d + of_nat i \<le> m \<and> \<not> P (d + of_nat i)" if "i < k" for i using rng [of i] k(2) [OF that] le that by (simp add: Q_def)
    show "d \<le> d + of_nat k" unfolding word_le_nat_alt rng(1) [OF order_refl] by simp
    show "\<not> P y" if "d \<le> y" "y < d + of_nat k" for y
    proof -
      have "unat y - unat d < k" using that rng(1) [of k] by (simp add: word_less_nat_alt word_le_nat_alt)
      then show ?thesis using k(2) [of "unat y - unat d"] le x' [OF that(1)] by (simp add: Q_def)
    qed
  qed
qed

lemma sweep_result_total:
  assumes "\<And>d. run d \<noteq> None" and "cb_StartDepth p \<le> d" "d \<le> cb_MaxDepth p" "stops run (cb_Tolerance p) d"
  shows "\<exists>d out. cb_StartDepth p \<le> d \<and> d \<le> cb_MaxDepth p \<and> stops run (cb_Tolerance p) d \<and>
    (\<forall>d'. cb_StartDepth p \<le> d' \<and> d' < d \<longrightarrow> \<not> stops run (cb_Tolerance p) d') \<and>
    sweep p run = Some out \<and> ended_by run d out"
proof -
  obtain k where k: "cb_StartDepth p + of_nat k \<le> cb_MaxDepth p" "stops run (cb_Tolerance p) (cb_StartDepth p + of_nat k)"
    "\<And>i. i < k \<Longrightarrow> cb_StartDepth p + of_nat i \<le> cb_MaxDepth p \<and> \<not> stops run (cb_Tolerance p) (cb_StartDepth p + of_nat i)"
    "\<And>x. cb_StartDepth p \<le> x \<Longrightarrow> x < cb_StartDepth p + of_nat k \<Longrightarrow> \<not> stops run (cb_Tolerance p) x"
    "cb_StartDepth p \<le> cb_StartDepth p + of_nat k"
    using first_stop [of "cb_StartDepth p" "cb_MaxDepth p" "stops run (cb_Tolerance p)"] assms(2-4) by blast
  obtain r1 where r1: "sweep p run = sweep_loop run p (cb_StartDepth p + of_nat k) r1" "\<not> cr_Passed r1"
    using sweep_from_start [OF k(3)] by blast
  obtain out where "sweep_loop run p (cb_StartDepth p + of_nat k) r1 = Some out" "ended_by run (cb_StartDepth p + of_nat k) out"
    using sweep_end [OF k(1,2) assms(1) r1(2)] by blast
  then show ?thesis using r1(1) k by auto
qed

lemma sweep_exhausts:
  assumes "cb_MaxDepth p \<noteq> - 1" and "\<And>d. cb_StartDepth p \<le> d \<Longrightarrow> d \<le> cb_MaxDepth p \<Longrightarrow> \<not> stops run (cb_Tolerance p) d"
  shows "\<exists>res. sweep p run = Some (Ok (), res) \<and> \<not> cr_Passed res"
proof -
  let ?s = "cb_StartDepth p" and ?m = "cb_MaxDepth p"
  define k where "k = (if ?s \<le> ?m then unat ?m + 1 - unat ?s else 0)"
  have "?s + of_nat i \<le> ?m \<and> \<not> stops run (cb_Tolerance p) (?s + of_nat i)" if "i < k" for i
  proof -
    have *: "?s \<le> ?m" "i \<le> unat ?m - unat ?s" using that by (auto simp: k_def word_le_nat_alt split: if_splits)
    have "?s \<le> ?s + of_nat i" unfolding word_le_nat_alt word_range_step(1) [OF *(2,1)] by simp
    then show ?thesis using word_range_step(2) [OF *(2,1)] assms(2) by blast
  qed
  then obtain r1 where r1: "sweep p run = sweep_loop run p (?s + of_nat k) r1" "\<not> cr_Passed r1"
    using sweep_from_start [where k = k and p = p and run = run] by blast
  have "\<not> ?s + of_nat k \<le> ?m"
  proof (cases "?s \<le> ?m")
    case True
    then have "?s + of_nat k = ?m + 1"
      by (simp add: k_def word_le_nat_alt of_nat_diff)
    moreover have "?m < ?m + 1" using assms(1) unatSuc [of ?m]
      by (simp add: word_less_nat_alt ac_simps eq_neg_iff_add_eq_0)
    ultimately show ?thesis by simp
  qed (simp add: k_def)
  then show ?thesis using r1 by (simp add: sweep_loop.simps)
qed

text \<open>
  Claim C26. The sweep over the depths finds the least one that is accurate enough. When every run returns and
  the range does not end at the largest 32-bit number, the sweep returns: either no depth of the range
  ends it and the result says so, or it ends at the first depth whose run fails, hits the modulus cap or is
  within the tolerance, with that outcome. When the range ends at the largest number the counter wraps around,
  and the sweep returns exactly if some depth at all ends it.
\<close>

theorem sweep_least_depth:
  assumes "\<And>d. run d \<noteq> None"
  shows "(cb_MaxDepth p \<noteq> - 1 \<longrightarrow>
      (\<exists>res. sweep p run = Some (Ok (), res) \<and> \<not> cr_Passed res \<and>
         (\<forall>d. cb_StartDepth p \<le> d \<and> d \<le> cb_MaxDepth p \<longrightarrow> \<not> stops run (cb_Tolerance p) d)) \<or>
      (\<exists>d out. cb_StartDepth p \<le> d \<and> d \<le> cb_MaxDepth p \<and> stops run (cb_Tolerance p) d \<and>
         (\<forall>d'. cb_StartDepth p \<le> d' \<and> d' < d \<longrightarrow> \<not> stops run (cb_Tolerance p) d') \<and>
         sweep p run = Some out \<and> ended_by run d out)) \<and>
    (cb_MaxDepth p = - 1 \<longrightarrow> (sweep p run = None \<longleftrightarrow> (\<forall>d. \<not> stops run (cb_Tolerance p) d)))"
proof (intro conjI impI)
  let ?none = "\<exists>res. sweep p run = Some (Ok (), res) \<and> \<not> cr_Passed res \<and>
         (\<forall>d. cb_StartDepth p \<le> d \<and> d \<le> cb_MaxDepth p \<longrightarrow> \<not> stops run (cb_Tolerance p) d)"
  let ?first = "\<exists>d out. cb_StartDepth p \<le> d \<and> d \<le> cb_MaxDepth p \<and> stops run (cb_Tolerance p) d \<and>
         (\<forall>d'. cb_StartDepth p \<le> d' \<and> d' < d \<longrightarrow> \<not> stops run (cb_Tolerance p) d') \<and>
         sweep p run = Some out \<and> ended_by run d out"
  assume max: "cb_MaxDepth p \<noteq> - 1"
  show "?none \<or> ?first"
  proof (cases "\<exists>d. cb_StartDepth p \<le> d \<and> d \<le> cb_MaxDepth p \<and> stops run (cb_Tolerance p) d")
    case True
    then obtain d where "cb_StartDepth p \<le> d" "d \<le> cb_MaxDepth p" "stops run (cb_Tolerance p) d" by blast
    then have ?first by (rule sweep_result_total [OF assms])
    then show ?thesis ..
  next
    case False
    then have ?none using sweep_exhausts [OF max, of run] by blast
    then show ?thesis ..
  qed
next
  assume max: "cb_MaxDepth p = - 1"
  show "sweep p run = None \<longleftrightarrow> (\<forall>d. \<not> stops run (cb_Tolerance p) d)"
  proof
    assume none: "sweep p run = None"
    show "\<forall>d. \<not> stops run (cb_Tolerance p) d"
    proof (rule ccontr)
      assume "\<not> (\<forall>d. \<not> stops run (cb_Tolerance p) d)"
      then obtain d where "stops run (cb_Tolerance p) d" by blast
      then have "\<exists>k. stops run (cb_Tolerance p) (cb_StartDepth p + of_nat k)"
        by (intro exI [of _ "unat (d - cb_StartDepth p)"]) simp
      then obtain k where k: "stops run (cb_Tolerance p) (cb_StartDepth p + of_nat k)"
        "\<And>i. i < k \<Longrightarrow> \<not> stops run (cb_Tolerance p) (cb_StartDepth p + of_nat i)"
        using exists_least_iff [of "\<lambda>k. stops run (cb_Tolerance p) (cb_StartDepth p + of_nat k)"] by blast
      obtain r1 where "sweep p run = sweep_loop run p (cb_StartDepth p + of_nat k) r1" "\<not> cr_Passed r1"
        using sweep_from_start [where k = k and p = p and run = run] k(2) max by auto
      then show False using sweep_end [where p = p and run = run, OF _ k(1) assms] none max by force
    qed
  next
    assume "\<forall>d. \<not> stops run (cb_Tolerance p) d"
    then show "sweep p run = None" using sweep_returns_at max unfolding sweep_def
      by (metis not_Some_eq word_order.extremum)
  qed
qed

definition step_run :: depth_run where
  "step_run d = Some (Ok (if 3 \<le> d then Fin 0 else Fin 1, False))"

definition step_params :: calibration_params where
  "step_params = \<lparr> cb_Base = \<lparr> cp_Scheme = [], cp_RingDim = 16384, cp_ScalingFactor = Fin 0, cp_ScalingModSize = 50, cp_Depth = 0 \<rparr>,
     cb_StartDepth = 1, cb_MaxDepth = 5, cb_Tolerance = Fin (1 / 2) \<rparr>"

lemma sweep_least_depth_witness: "\<exists>res. sweep step_params step_run = Some (Ok (), res) \<and> cr_Passed res \<and> cr_Depth res = 3"
proof -
  have stop: "stops step_run (Fin (1 / 2)) d \<longleftrightarrow> 3 \<le> d" for d by (simp add: stops_def step_run_def)
  have fields: "cb_StartDepth step_params = 1" "cb_MaxDepth step_params = 5" "cb_Tolerance step_params = Fin (1 / 2)"
    by (simp_all add: step_params_def)
  have runs: "step_run d \<noteq> None" for d by (simp add: step_run_def)
  have "(\<exists>res. sweep step_params step_run = Some (Ok (), res) \<and> \<not> cr_Passed res \<and> (\<forall>d :: 32 word. 1 \<le> d \<and> d \<le> 5 \<longrightarrow> \<not> 3 \<le> d)) \<or>
      (\<exists>d out. 1 \<le> d \<and> d \<le> 5 \<and> 3 \<le> d \<and> (\<forall>d'. 1 \<le> d' \<and> d' < d \<longrightarrow> \<not> 3 \<le> d') \<and>
         sweep step_params step_run = Some out \<and> ended_by step_run d out)"
    using sweep_least_depth [where run = step_run and p = step_params, OF runs, unfolded fields stop, THEN conjunct1] by simp
  moreover have "\<not> (\<forall>d :: 32 word. 1 \<le> d \<and> d \<le> 5 \<longrightarrow> \<not> 3 \<le> d)"
  proof
    assume "\<forall>d :: 32 word. 1 \<le> d \<and> d \<le> 5 \<longrightarrow> \<not> 3 \<le> d"
    from spec [OF this, of 3] show False by simp
  qed
  ultimately obtain d out where d: "3 \<le> d" "\<forall>d'. 1 \<le> d' \<and> d' < d \<longrightarrow> \<not> 3 \<le> d'"
    "sweep step_params step_run = Some out" "ended_by step_run d out" by blast
  have "d = 3" using d(1) d(2) [THEN spec, of 3] by (simp add: not_less)
  then show ?thesis using d(3,4) by (cases out) (simp add: step_run_def ended_by.simps)
qed

section \<open>What a calibration accepts\<close>

lemma sweep_passed:
  assumes "sweep p run = Some (res, cr)" and "cr_Passed cr"
  shows "cb_StartDepth p \<le> cb_MaxDepth p \<and> cr_Depth cr \<le> cb_MaxDepth p \<and> res = Ok () \<and>
    (\<exists>e. run (cr_Depth cr) = Some (Ok (e, False)) \<and> f_le e (cb_Tolerance p)) \<and>
    (cb_MaxDepth p \<noteq> - 1 \<longrightarrow> cb_StartDepth p \<le> cr_Depth cr)"
proof -
  let ?s = "cb_StartDepth p" and ?m = "cb_MaxDepth p"
  obtain k where k: "\<And>i. i < k \<Longrightarrow> ?s + of_nat i \<le> ?m \<and> \<not> stops run (cb_Tolerance p) (?s + of_nat i)"
    "\<not> (?s + of_nat k \<le> ?m \<and> \<not> stops run (cb_Tolerance p) (?s + of_nat k))"
    using sweep_returns_at assms(1) unfolding sweep_def by blast
  obtain r1 where r1: "sweep p run = sweep_loop run p (?s + of_nat k) r1" "\<not> cr_Passed r1" using sweep_from_start [OF k(1)] by blast
  have le: "?s + of_nat k \<le> ?m"
  proof (rule ccontr)
    assume "\<not> ?s + of_nat k \<le> ?m"
    then show False using r1 assms by (simp add: sweep_loop.simps)
  qed
  have some: "run (?s + of_nat k) \<noteq> None"
  proof
    assume "run (?s + of_nat k) = None"
    then show False using r1 assms(1) le by (simp add: sweep_loop.simps)
  qed
  have stop: "stops run (cb_Tolerance p) (?s + of_nat k)" using k(2) le by blast
  have "ended_by run (?s + of_nat k) (res, cr)" using sweep_end [OF le stop some r1(2)] r1(1) assms(1) by auto
  then have fin: "res = Ok ()" "cr_Depth cr = ?s + of_nat k" "\<exists>e. run (cr_Depth cr) = Some (Ok (e, False)) \<and> f_le e (cb_Tolerance p)"
    using assms(2) stop by (auto simp: stops_def ended_by.simps split: option.splits outcome.splits bool.splits)
  have "?s \<le> ?m" using k(1) [of 0] le by (cases k) auto
  moreover have "?s \<le> ?s + of_nat k" if "?m \<noteq> - 1"
  proof -
    have "?s + of_nat i \<ge> ?s" if "i \<le> k" for i
      using that
    proof (induction i)
      case (Suc i)
      then have "?s + of_nat i \<le> ?m" "?s \<le> ?s + of_nat i" using k(1) [of i] by simp_all
      then have "1 + (?s + of_nat i) \<noteq> 0" using \<open>?m \<noteq> - 1\<close> word_order.extremum_uniqueI [of ?m]
        by (metis add.commute add_eq_0_iff)
      then have "unat (1 + (?s + of_nat i)) = Suc (unat (?s + of_nat i))" by (rule unatSuc)
      then show ?case using \<open>?s \<le> ?s + of_nat i\<close> by (simp add: word_le_nat_alt ac_simps)
    qed simp
    then show ?thesis by simp
  qed
  ultimately show ?thesis using fin le by simp
qed

lemma cap_or_accepts: "cap_or lbl r k = Ok (e, False) \<Longrightarrow> \<exists>a. r = Ok a \<and> k a = Ok (e, False)"
  by (auto simp: cap_or_def split: outcome.splits if_splits)

lemma run_with_budget: "run_with B circ sms inputs want ps d = Ok (e, False) \<Longrightarrow> \<not> exceedsModulusBudget (cg_RingDim ps) d sms"
  by (auto simp: run_with_def split: if_splits)

lemma effective_params_ring:
  assumes "effective_params p n d = Some ps"
  shows "\<exists>ps'. effective_params p n d' = Some ps' \<and> cg_RingDim ps' = cg_RingDim ps"
  using assms by (auto simp: effective_params_def DefaultContractParams_def split: option.splits if_splits)

text \<open>The budget in exact arithmetic: none of the 64-bit operations wraps for a sensible modulus size.\<close>

lemma budget_exact:
  assumes "ringDim \<noteq> 0" "0 < sms" "sms < 2 ^ 31"
  shows "exceedsModulusBudget ringDim depth sms \<longleftrightarrow> 60 + unat depth * nat sms > unat ringDim * 1761 div 65536"
proof -
  have lt: "unat x < 2 ^ 32" for x :: "32 word" using unsigned_less [of x, where 'a = nat] by simp
  have s: "unat (word_of_int sms :: 64 word) = nat sms" using assms(2,3) by (simp add: unsigned_of_int take_bit_int_eq_self)
  have ud: "unat (ucast x :: 64 word) = unat x" for x :: "32 word"
    using lt [of x] by (simp add: unsigned_ucast_eq take_bit_nat_eq_self)
  have "nat sms < 2 ^ 31" using assms(2,3) by simp
  then have m: "unat depth * nat sms < 2 ^ 32 * 2 ^ 31" using lt [of depth] by (intro mult_strict_mono) auto
  have e1: "unat (ucast depth * word_of_int sms :: 64 word) = unat depth * nat sms"
    using m by (simp add: unat_word_ariths(2) s ud)
  have e2: "unat (ckksFirstModSize + ucast depth * word_of_int sms) = 60 + unat depth * nat sms"
    using m by (simp add: unat_word_ariths(1) e1 ckksFirstModSize_def)
  have e3: "unat (ucast ringDim * 1761 :: 64 word) = unat ringDim * 1761" using lt [of ringDim] by (simp add: unat_word_ariths(2) ud)
  have "unat (maxLog2Q ringDim) = unat ringDim * 1761 div 65536" by (simp add: maxLog2Q_def unat_div_distrib e3)
  then show ?thesis using assms by (simp add: exceedsModulusBudget_def word_less_nat_alt e2)
qed

lemma effective_ring_nonzero: "effective_params p n d = Some ps \<Longrightarrow> cg_RingDim ps \<noteq> 0"
  by (auto simp: effective_params_def DefaultContractParams_def split: option.splits if_splits)

lemma effective_scale: "effective_params p n d = Some ps \<Longrightarrow> cg_ScalingFactor ps = Fin (2 ^ 50)"
  by (auto simp: effective_params_def DefaultContractParams_def split: option.splits if_splits)

text \<open>
  Claim C25. A calibration never accepts a depth that its own budget check refuses. Whatever the bridge does, when
  \<^verbatim>\<open>Calibrate\<close> reports a passed depth, that depth lies in the requested range (from below: unless the range ends at the
  largest number) and the circuit ran at it with an error, as \<^verbatim>\<open>maxSlotAbsError\<close> measures it, within the tolerance; that measure is the largest difference over the slots that
  both vectors have, and a slot that decrypts to NaN does not count (\<open>nan_slot_is_exact\<close>). The modulus that the scaling size of the caller asks for (50 bits when it is
  zero) stays within the 128-bit budget of the ring dimension that is reported: in exact arithmetic, the
  first prime and one scaling prime per level do not exceed \<open>ringDim * 1761 / 65536\<close> bits. The run itself always uses the scale \<open>2^50\<close>, so this is a bound on the
  modulus of the run when the caller's size is at least 50, and only then.
\<close>

theorem calibrate_secure:
  assumes "Calibrate B circ p profileDim = Some (res, cr)" and "cr_Passed cr"
  shows "res = Ok () \<and> cr_Circuit cr = cut_Name circ \<and> cr_Depth cr \<le> cb_MaxDepth p \<and>
    (cb_MaxDepth p \<noteq> - 1 \<longrightarrow> cb_StartDepth p \<le> cr_Depth cr) \<and>
    (\<exists>inputs want ps e. Inputs_Expected circ = Inr (inputs, want) \<and> effective_params p profileDim (cr_Depth cr) = Some ps \<and>
       cg_RingDim ps = cr_RingDim cr \<and> cg_ScalingFactor ps = Fin (2 ^ 50) \<and>
       run_with B circ (effective_mod_size p) inputs want ps (cr_Depth cr) = Ok (e, False) \<and> f_le e (cb_Tolerance p)) \<and>
    \<not> exceedsModulusBudget (cr_RingDim cr) (cr_Depth cr) (effective_mod_size p) \<and>
    (0 < effective_mod_size p \<and> effective_mod_size p < 2 ^ 31 \<longrightarrow>
       60 + unat (cr_Depth cr) * nat (effective_mod_size p) \<le> unat (cr_RingDim cr) * 1761 div 65536) \<and>
    (50 \<le> effective_mod_size p \<and> effective_mod_size p < 2 ^ 31 \<longrightarrow>
       60 + unat (cr_Depth cr) * 50 \<le> unat (cr_RingDim cr) * 1761 div 65536)"
proof -
  obtain inputs want cr0 where w: "Inputs_Expected circ = Inr (inputs, want)"
    "sweep p (runAtDepth B circ p profileDim inputs want) = Some (res, cr0)"
    and cr: "cr = cr0\<lparr> cr_Circuit := cut_Name circ, cr_RingDim :=
      (let resolved = (if cb_StartDepth p \<le> cb_MaxDepth p
                       then case effective_params p profileDim (cb_StartDepth p) of None \<Rightarrow> 0 | Some ps \<Rightarrow> cg_RingDim ps
                       else 0)
       in if resolved \<noteq> 0 then resolved else cr_RingDim cr0) \<rparr>"
    using assms by (auto simp: Calibrate_def Let_def split: outcome.splits if_splits sum.splits option.splits)
  then have "cr_Passed cr0" using assms(2) by simp
  from sweep_passed [OF w(2) this] obtain e where e: "cb_StartDepth p \<le> cb_MaxDepth p" "cr_Depth cr0 \<le> cb_MaxDepth p" "res = Ok ()"
    "runAtDepth B circ p profileDim inputs want (cr_Depth cr0) = Some (Ok (e, False))" "f_le e (cb_Tolerance p)"
    "cb_MaxDepth p \<noteq> - 1 \<longrightarrow> cb_StartDepth p \<le> cr_Depth cr0" by blast
  then obtain ps where ps: "effective_params p profileDim (cr_Depth cr0) = Some ps"
    "run_with B circ (effective_mod_size p) inputs want ps (cr_Depth cr0) = Ok (e, False)"
    by (auto simp: runAtDepth_def)
  obtain ps' where "effective_params p profileDim (cb_StartDepth p) = Some ps'" "cg_RingDim ps' = cg_RingDim ps"
    using effective_params_ring [OF ps(1)] by blast
  then have ring: "cr_RingDim cr = cg_RingDim ps" "cr_Depth cr = cr_Depth cr0" "cr_Circuit cr = cut_Name circ"
    using e(1) effective_ring_nonzero [OF ps(1)] by (simp_all add: cr)
  have safe: "\<not> exceedsModulusBudget (cr_RingDim cr) (cr_Depth cr) (effective_mod_size p)"
    using run_with_budget [OF ps(2)] by (simp add: ring)
  then have budget: "60 + unat (cr_Depth cr) * nat (effective_mod_size p) \<le> unat (cr_RingDim cr) * 1761 div 65536"
    if "0 < effective_mod_size p \<and> effective_mod_size p < 2 ^ 31"
    using budget_exact that effective_ring_nonzero [OF ps(1)] ring(1) by (metis not_less)
  have run: "60 + unat (cr_Depth cr) * 50 \<le> unat (cr_RingDim cr) * 1761 div 65536"
    if "50 \<le> effective_mod_size p \<and> effective_mod_size p < 2 ^ 31"
  proof -
    have "unat (cr_Depth cr) * 50 \<le> unat (cr_Depth cr) * nat (effective_mod_size p)" using that by (intro mult_left_mono) auto
    then show ?thesis using budget that by linarith
  qed
  show ?thesis using e w(1) ps safe ring budget run effective_scale [OF ps(1)] by auto
qed

text \<open>With a smaller scaling size the check accepts depths whose run is beyond the budget.\<close>

lemma budget_of_another_scale:
  "\<not> exceedsModulusBudget 16384 10 30 \<and> exceedsModulusBudget 16384 10 50 \<and>
   (effective_params p profileDim depth = Some ps \<longrightarrow> cg_ScalingFactor ps = Fin (2 ^ 50))"
  using effective_scale by (auto simp: exceedsModulusBudget_def ckksFirstModSize_def maxLog2Q_def)

text \<open>The circuit of \<^verbatim>\<open>square_circuit_openfhe.go\<close>, and a bridge that computes on plain bytes.\<close>

definition squareCircuit :: "f64 list \<Rightarrow> circuit_under_test" where
  "squareCircuit v =
     \<lparr> cut_Name = ''elementwise-square'', cut_Inputs = Inr [v],
       cut_Expected = (\<lambda>inputs. case inputs of [] \<Rightarrow> Inl ''runtime error: index out of range''
                                 | x # _ \<Rightarrow> Inr (map (\<lambda>y. f_mul y y) x)),
       cut_Eval = (\<lambda>h enc. case enc of [] \<Rightarrow> Panic ''runtime error: index out of range'' | c # _ \<Rightarrow> ch_EvalMult h c c) \<rparr>"

definition plain_backend :: ckks_backend where
  "plain_backend =
     \<lparr> be_Smoke = Ok (), be_KeyGenFirst = (\<lambda>_. Ok \<lparr> ks_PublicKey = [1], ks_SecretKeyShare = [2], ks_Lead = True \<rparr>),
       be_KeyGenNext = (\<lambda>_ _. Ok \<lparr> ks_PublicKey = [3], ks_SecretKeyShare = [4], ks_Lead = False \<rparr>),
       be_Round1Lead = (\<lambda>_ _. Ok ([], [])), be_Round1Participant = (\<lambda>_ _ _ _ _. Ok ([], [])),
       be_CombineRound1 = (\<lambda>_ _ _ _. Ok ([], [])), be_Round2Participant = (\<lambda>_ _ _ _ _. Ok []),
       be_CombineRound2 = (\<lambda>_ _ _ _. Ok \<lparr> ek_EvalMultFinal = [], ek_EvalSumFinal = [] \<rparr>),
       be_Encrypt = (\<lambda>_ _ _. Ok [9]), be_EvalMult = (\<lambda>_ _ _ _. Ok [9]), be_EvalSub = (\<lambda>_ _ _. Ok [9]),
       be_EvalProductSum = (\<lambda>_ _ _ _ _. Ok [9]), be_PartialDecrypt = (\<lambda>_ _ _ _. Ok [9]),
       be_FusePartials = (\<lambda>_ _ _. Ok [Fin 1]) \<rparr>"

lemma plain_run:
  "runAtDepth plain_backend (squareCircuit [Fin 1]) step_params 0 [[Fin 1]] [Fin 1] 1 = Some (Ok (Fin 0, False))"
proof -
  have "maxSlotAbsError [Fin 1] [Fin 1] = Fin 0"
    by (simp add: maxSlotAbsError_def f_sub_def rnd64_def f_lt_def)
  moreover have "\<not> exceedsModulusBudget 16384 1 50"
    by (simp add: exceedsModulusBudget_def ckksFirstModSize_def maxLog2Q_def)
  ultimately show ?thesis
    by (simp add: runAtDepth_def effective_params_def DefaultContractParams_def step_params_def effective_mod_size_def
        run_with_def cap_or_def with_inputs_def plain_backend_def squareCircuit_def buildJointEvalMultN2_def
        wrap_err_def obind_def cgoHandle_def)
qed

lemma calibrate_secure_witness:
  "\<exists>cr. Calibrate plain_backend (squareCircuit [Fin 1]) step_params 0 = Some (Ok (), cr) \<and> cr_Passed cr \<and>
     \<not> exceedsModulusBudget (cr_RingDim cr) (cr_Depth cr) 50"
proof -
  have "rnd64 1 = Fin 1" using f_of_int_exact [of 1] by (simp add: f_of_int_def)
  then have want: "Inputs_Expected (squareCircuit [Fin 1]) = Inr ([[Fin 1]], [Fin 1])"
    by (simp add: Inputs_Expected_def squareCircuit_def)
  have "\<exists>cr. sweep step_params (runAtDepth plain_backend (squareCircuit [Fin 1]) step_params 0 [[Fin 1]] [Fin 1]) = Some (Ok (), cr) \<and> cr_Passed cr"
    unfolding sweep_def by (subst sweep_loop.simps) (simp add: step_params_def plain_run [unfolded step_params_def])
  then obtain cr where cr: "Calibrate plain_backend (squareCircuit [Fin 1]) step_params 0 = Some (Ok (), cr)" "cr_Passed cr"
    using want by (auto simp: Calibrate_def Let_def plain_backend_def step_params_def)
  have "effective_mod_size step_params = 50" by (simp add: effective_mod_size_def step_params_def)
  then show ?thesis using calibrate_secure [OF cr] cr by auto
qed

text \<open>
  A slot that decrypts to NaN, and a slot that is missing, count as exact: the comparison with the
  running maximum is false for NaN, and only the common prefix is compared.
\<close>

lemma nan_slot_is_exact: "maxSlotAbsError [FNaN] [w] = Fin 0" "maxSlotAbsError [] want = Fin 0"
  by (simp_all add: maxSlotAbsError_def f_sub_def f_lt_def)

end
