(* ===== verification/Boundcheck.thy ===== *)
theory Boundcheck
  imports Default_Phases Fhecalib
begin

text \<open>
  \<^verbatim>\<open>pkg/ares/phase/boundcheck\<close>: the round that checks each participant's encrypted input against a
  bound, without decrypting the input itself: \<^verbatim>\<open>bound.go\<close> (the verdict on one value), \<^verbatim>\<open>circuits.go\<close>
  (the two circuits) and \<^verbatim>\<open>phase.go\<close> (the phase).

  A circuit is a calibrated circuit with a bound and a dimension. What the phase takes from outside
  is one record, \<open>bc_env\<close>: the type assertions of a context value to a handle and to a fuse function,
  the JSON decoder of a map of partial decryptions, and the order in which the runtime iterates over
  the set of withholding senders. The handler of violations gets the context and may change it; its
  error is dropped, as in the source. The random sleep before an abort has no effect on the state.
  Floating-point sums are evaluated without fused multiply-add.
\<close>

section \<open>Bounds and severities\<close>

record bound =
  bd_Lo :: f64
  bd_Hi :: f64

datatype severity = SeverityOK | SeveritySoft | SeverityHard

record bc_params =
  EpsNorm :: f64
  NuHard :: f64

definition DefaultParams :: bc_params where
  "DefaultParams = \<lparr> EpsNorm = rnd64 (1 / 100), NuHard = rnd64 (125 / 100) \<rparr>"

definition classify :: "f64 \<Rightarrow> bound \<Rightarrow> bc_params \<Rightarrow> f64 \<times> severity" where
  "classify value b p =
     (let nu = f_max (Fin 0) (f_max (f_sub (bd_Lo b) value) (f_sub value (bd_Hi b)))
      in if f_le nu (EpsNorm p) then (nu, SeverityOK)
         else if f_le nu (NuHard p) then (nu, SeveritySoft)
         else (nu, SeverityHard))"

definition CtxEncryptedInputs :: string where "CtxEncryptedInputs = ''boundcheck.encrypted_inputs''"
definition CtxInputDim :: string where "CtxInputDim = ''boundcheck.input_dim''"
definition CtxEvalKeyBundle :: string where "CtxEvalKeyBundle = ''boundcheck.eval_key_bundle''"
definition CtxJointPublicKey :: string where "CtxJointPublicKey = ''boundcheck.joint_public_key''"
definition CtxBoundCheckCiphers :: string where "CtxBoundCheckCiphers = ''boundcheck.check_ciphertexts''"
definition CtxBoundCheckCommitments :: string where "CtxBoundCheckCommitments = ''boundcheck.check_commitments''"
definition CtxBoundCheckHandle :: string where "CtxBoundCheckHandle = ''boundcheck.handle''"
definition CtxBoundCheckFuse :: string where "CtxBoundCheckFuse = ''boundcheck.fuse''"
definition MsgBoundPartial :: string where "MsgBoundPartial = ''bound_check.partial''"
definition bucketPartials :: string where "bucketPartials = ''boundcheck.bucket.partials''"

lemmas bc_names = CtxEncryptedInputs_def CtxInputDim_def CtxEvalKeyBundle_def CtxJointPublicKey_def CtxBoundCheckCiphers_def
  CtxBoundCheckCommitments_def CtxBoundCheckHandle_def CtxBoundCheckFuse_def MsgBoundPartial_def bucketPartials_def

section \<open>The circuits\<close>

record bound_circuit = circuit_under_test +
  bc_Bound :: bound
  bc_Dim :: int

text \<open>
  \<^verbatim>\<open>math.Sqrt\<close>, correctly rounded: the integer square root of the scaled argument has more bits than
  a result, and half a unit stands for a remainder.
\<close>

fun isqrt :: "nat \<Rightarrow> nat" where
  "isqrt n = (if n = 0 then 0 else let r = 2 * isqrt (n div 4) in if (r + 1) * (r + 1) \<le> n then r + 1 else r)"

declare isqrt.simps [simp del]

fun f_sqrt :: "f64 \<Rightarrow> f64" where
  "f_sqrt FNaN = FNaN"
| "f_sqrt (FInf s) = (if s then FNaN else FInf False)"
| "f_sqrt (Fin x) =
     (if x < 0 then FNaN
      else if x = 0 then Fin 0
      else let t = lg x div 2 - 60; y = x / 4 powi t; r = isqrt (nat \<lfloor>y\<rfloor>)
           in rnd64 ((of_nat r + (if of_nat (r * r) = y then 0 else 1 / 2)) * 2 powi t))"

fun f_quot :: "f64 \<Rightarrow> f64 \<Rightarrow> f64" where
  "f_quot (Fin x) (Fin y) =
     (if y = 0 then (if x = 0 then FNaN else FInf (x < 0)) else rnd64 (x / y))"
| "f_quot (Fin x) (FInf _) = Fin 0"
| "f_quot (FInf s) (Fin y) = FInf (s \<noteq> (y < 0))"
| "f_quot _ _ = FNaN"

definition sumOfSquares :: "f64 list \<Rightarrow> f64" where
  "sumOfSquares v = fold (\<lambda>x s. f_add s (f_mul x x)) v (Fin 0)"

definition index_panic :: string where
  "index_panic = ''runtime error: index out of range''"

definition NormCircuit :: "f64 \<Rightarrow> int \<Rightarrow> bound_circuit" where
  "NormCircuit eps NDim =
     \<lparr> cut_Name = ''norm'',
       cut_Inputs = (if NDim < 0 then Inl ''runtime error: makeslice: len out of range''
                     else Inr [replicate (nat NDim) (f_quot (Fin 1) (f_sqrt (f_of_int NDim)))]),
       cut_Expected = (\<lambda>inp. case inp of [] \<Rightarrow> Inl index_panic | v # _ \<Rightarrow> Inr [sumOfSquares v]),
       cut_Eval = (\<lambda>h enc. case enc of [] \<Rightarrow> Panic index_panic | c # _ \<Rightarrow> ch_EvalProductSum h c c NDim),
       bc_Bound = \<lparr> bd_Lo = f_sub (Fin 1) eps, bd_Hi = f_add (Fin 1) eps \<rparr>,
       bc_Dim = NDim \<rparr>"

definition distance_expected :: "f64 list \<Rightarrow> f64 list \<Rightarrow> string + f64" where
  "distance_expected center v =
     (if length center < length v then Inl index_panic
      else Inr (fold (\<lambda>(x, c) s. let d = f_sub x c in f_add s (f_mul d d)) (zip v center) (Fin 0)))"

definition DistanceBoundCircuit :: "f64 list \<Rightarrow> f64 \<Rightarrow> f64 \<Rightarrow> bound_circuit" where
  "DistanceBoundCircuit Center Lo Hi =
     \<lparr> cut_Name = ''distance'', cut_Inputs = Inr [Center],
       cut_Expected = (\<lambda>inp. case inp of [] \<Rightarrow> Inl index_panic
                               | v # _ \<Rightarrow> (case distance_expected Center v of Inl m \<Rightarrow> Inl m | Inr s \<Rightarrow> Inr [s])),
       cut_Eval = (\<lambda>h enc. case enc of
                      [] \<Rightarrow> Panic index_panic
                    | c # _ \<Rightarrow> (case ch_EvalSubConst h c Center of
                                  Ok shifted \<Rightarrow> ch_EvalProductSum h shifted shifted (int (length Center))
                                | Err e \<Rightarrow> Err e | Panic m \<Rightarrow> Panic m)),
       bc_Bound = \<lparr> bd_Lo = Lo, bd_Hi = Hi \<rparr>, bc_Dim = int (length Center) \<rparr>"

section \<open>The phase\<close>

type_synonym 'v violation_handler = "string \<Rightarrow> f64 \<Rightarrow> severity \<Rightarrow> 'v hook"
type_synonym fuse_fn = "bytes list \<Rightarrow> int \<Rightarrow> (string, f64 list) outcome"

record 'v bc_env =
  env_as_handle :: "'v any \<Rightarrow> context_handle option"
  env_as_fuse :: "'v any \<Rightarrow> fuse_fn option"
  env_decode :: "bytes \<Rightarrow> (string, (string \<times> bytes) list) outcome"
  env_iter :: "string list \<Rightarrow> string list"

record 'v bc_phase =
  bp_circuit :: bound_circuit
  bp_handler :: "'v violation_handler option"
  bp_params :: bc_params
  bp_entryState :: session_state
  bp_exitState :: session_state
  bp_jitter :: int
  bp_handle :: "context_handle option"
  bp_fuse :: "fuse_fn option"

definition defaultJitter :: int where "defaultJitter = 20 * 1000000"

definition NewPhase ::
  "bound_circuit \<Rightarrow> 'v violation_handler option \<Rightarrow> bc_params \<Rightarrow> session_state \<Rightarrow> session_state \<Rightarrow> 'v bc_phase" where
  "NewPhase circ handler params entryState exitState =
     \<lparr> bp_circuit = circ, bp_handler = handler, bp_params = params, bp_entryState = entryState,
       bp_exitState = exitState, bp_jitter = defaultJitter, bp_handle = None, bp_fuse = None \<rparr>"

definition NewPhaseWithCrypto ::
  "bound_circuit \<Rightarrow> 'v violation_handler option \<Rightarrow> bc_params \<Rightarrow> session_state \<Rightarrow> session_state
    \<Rightarrow> context_handle option \<Rightarrow> fuse_fn option \<Rightarrow> 'v bc_phase" where
  "NewPhaseWithCrypto circ handler params entryState exitState handle fuse =
     (NewPhase circ handler params entryState exitState)\<lparr> bp_handle := handle, bp_fuse := fuse \<rparr>"

definition check_commitment :: "bytes \<Rightarrow> bytes \<Rightarrow> string \<Rightarrow> bytes" where
  "check_commitment encCheck encInput sessionID = sha256 (encCheck @ sha256 encInput @ str_bytes sessionID)"

fun eval_checks ::
  "bound_circuit \<Rightarrow> context_handle \<Rightarrow> string \<Rightarrow> (string \<times> bytes) list \<Rightarrow> (string \<times> bytes) list \<Rightarrow> (string \<times> bytes) list
    \<Rightarrow> (err, (string \<times> bytes) list \<times> (string \<times> bytes) list) outcome" where
  "eval_checks circ h sid [] checks commitments = Ok (checks, commitments)"
| "eval_checks circ h sid ((party, encInput) # rest) checks commitments =
     (case cut_Eval circ h [encInput] of
        Err e \<Rightarrow> Err (Classified ErrTransient (Note ''boundcheck: eval circuit for party'' party (Msg e [])))
      | Panic m \<Rightarrow> Panic m
      | Ok encCheck \<Rightarrow>
          eval_checks circ h sid rest (mput party encCheck checks)
            (mput party (check_commitment encCheck encInput sid) commitments))"

definition bc_Enter :: "'v bc_env \<Rightarrow> 'v bc_phase \<Rightarrow> 'v hook" where
  "bc_Enter env p ctx =
     (case TryGet as_int ctx CtxInputDim of
        None \<Rightarrow> (Err (permanent ''boundcheck: context key not set'' [CtxInputDim]), ctx)
      | Some ndim \<Rightarrow>
          if ndim < 2 then (Err (permanent ''boundcheck: input dim < 2'' [dec_int ndim]), ctx)
          else if ndim \<noteq> bc_Dim (bp_circuit p)
          then (Err (permanent ''boundcheck: CtxInputDim != circuit dim'' [dec_int ndim, dec_int (bc_Dim (bp_circuit p))]), ctx)
          else
            (case (case bp_handle p of Some h \<Rightarrow> Some h | None \<Rightarrow> TryGet (env_as_handle env) ctx CtxBoundCheckHandle) of
               None \<Rightarrow> (Ok (), ctx)
             | Some h \<Rightarrow>
                 (case TryGet as_byte_map ctx CtxEncryptedInputs of
                    None \<Rightarrow> (Err (permanent ''boundcheck: context key not set'' [CtxEncryptedInputs]), ctx)
                  | Some encInputs \<Rightarrow>
                      (case eval_checks (bp_circuit p) h (SessionID ctx) encInputs [] [] of
                         Err e \<Rightarrow> (Err e, ctx)
                       | Panic m \<Rightarrow> (Panic m, ctx)
                       | Ok (checks, commitments) \<Rightarrow>
                           (Ok (), ctx_Set (ctx_Set ctx CtxBoundCheckCiphers (VByteMap checks))
                                     CtxBoundCheckCommitments (VByteMap commitments))))))"

definition bc_OnMessage :: "string \<Rightarrow> string \<Rightarrow> bytes \<Rightarrow> 'v hook" where
  "bc_OnMessage msgType from payload ctx = (Ok (), AccumulateMessage ctx bucketPartials from payload)"

definition bc_CheckComplete :: "'v session_context \<Rightarrow> bool" where
  "bc_CheckComplete ctx =
     (case TryGet as_strings ctx CtxParticipants of
        None \<Rightarrow> False
      | Some participants \<Rightarrow> QuorumReached ctx bucketPartials (int (length participants)))"

fun decode_partials ::
  "(bytes \<Rightarrow> (string, (string \<times> bytes) list) outcome) \<Rightarrow> (string \<times> bytes) list
    \<Rightarrow> (string \<times> (string \<times> bytes) list) list \<Rightarrow> (err, (string \<times> (string \<times> bytes) list) list) outcome" where
  "decode_partials dec [] senderMaps = Ok senderMaps"
| "decode_partials dec ((sender, raw) # rest) senderMaps =
     (case dec raw of
        Err e \<Rightarrow> Err (Classified ErrTransient (Note ''boundcheck: decode partial map from'' sender (Msg e [])))
      | Panic m \<Rightarrow> Panic m
      | Ok m \<Rightarrow> decode_partials dec rest (mput sender m senderMaps))"

text \<open>The inner loop for one checked party: the partials in participant order, and who withheld one.\<close>

fun gather_partials ::
  "(string \<times> (string \<times> bytes) list) list \<Rightarrow> string \<Rightarrow> string list \<Rightarrow> string list \<Rightarrow> bytes list \<times> bool \<times> string list" where
  "gather_partials senderMaps checked [] withholding = ([], True, withholding)"
| "gather_partials senderMaps checked (sender # rest) withholding =
     (case Option.bind (map_of senderMaps sender) (\<lambda>m. map_of m checked) of
        None \<Rightarrow> (let (blobs, _, w) = gather_partials senderMaps checked rest (List.insert sender withholding) in (blobs, False, w))
      | Some blob \<Rightarrow> (let (blobs, full, w) = gather_partials senderMaps checked rest withholding in (blob # blobs, full, w)))"

type_synonym violation = "string \<times> f64 \<times> severity"

fun check_parties ::
  "fuse_fn \<Rightarrow> bound \<Rightarrow> bc_params \<Rightarrow> (string \<times> (string \<times> bytes) list) list \<Rightarrow> string list \<Rightarrow> string list
    \<Rightarrow> violation list \<Rightarrow> string list \<Rightarrow> (err, violation list \<times> string list) outcome" where
  "check_parties fuse b ps senderMaps participants [] violators withholding = Ok (violators, withholding)"
| "check_parties fuse b ps senderMaps participants (party # rest) violators withholding =
     (let (blobs, full, w) = gather_partials senderMaps party participants withholding in
      if \<not> full then check_parties fuse b ps senderMaps participants rest violators w
      else
        (case fuse blobs 1 of
           Err e \<Rightarrow> Err (Classified ErrTransient (Note ''boundcheck: fuse partials for checked party'' party (Msg e [])))
         | Panic m \<Rightarrow> Panic m
         | Ok [] \<Rightarrow> Err (Classified ErrTransient (Msg ''boundcheck: fuse returned no values for checked party'' [party]))
         | Ok (value # _) \<Rightarrow>
             (let (nu, sev) = classify value b ps in
              check_parties fuse b ps senderMaps participants rest
                (if sev \<noteq> SeverityOK then violators @ [(party, nu, sev)] else violators) w)))"

fun notify :: "'v violation_handler option \<Rightarrow> violation list \<Rightarrow> 'v hook" where
  "notify None vs ctx = (Ok (), ctx)"
| "notify (Some h) [] ctx = (Ok (), ctx)"
| "notify (Some h) ((party, nu, sev) # vs) ctx =
     (case h party nu sev ctx of
        (Panic m, ctx1) \<Rightarrow> (Panic m, ctx1)
      | (_, ctx1) \<Rightarrow> notify (Some h) vs ctx1)"

definition bound_violation :: err where
  "bound_violation = Classified ErrAppAttributable (Msg ''bound violation'' [])"

definition bc_Exit :: "'v bc_env \<Rightarrow> 'v bc_phase \<Rightarrow> 'v hook" where
  "bc_Exit env p ctx =
     (case (case bp_fuse p of Some f \<Rightarrow> Some f | None \<Rightarrow> TryGet (env_as_fuse env) ctx CtxBoundCheckFuse) of
        None \<Rightarrow> (Ok (), ctx)
      | Some fuse \<Rightarrow>
          (let participants = (case TryGet as_strings ctx CtxParticipants of None \<Rightarrow> [] | Some ps \<Rightarrow> ps) in
           case decode_partials (env_decode env) (AccumulatedMessages ctx bucketPartials) [] of
             Err e \<Rightarrow> (Err e, ctx)
           | Panic m \<Rightarrow> (Panic m, ctx)
           | Ok senderMaps \<Rightarrow>
               (case check_parties fuse (bc_Bound (bp_circuit p)) (bp_params p) senderMaps participants participants [] [] of
                  Err e \<Rightarrow> (Err e, ctx)
                | Panic m \<Rightarrow> (Panic m, ctx)
                | Ok (numeric, withholding) \<Rightarrow>
                    (let nuMissing = f_add (NuHard (bp_params p)) (Fin 1);
                         violators = numeric @ map (\<lambda>s. (s, nuMissing, SeverityHard)) (env_iter env withholding)
                     in if violators = [] then (Ok (), ctx)
                        else (case notify (bp_handler p) violators ctx of
                                (Panic m, ctx1) \<Rightarrow> (Panic m, ctx1)
                              | (_, ctx1) \<Rightarrow> (Err bound_violation, ctx1))))))"

definition bound_check_phase :: "'v bc_env \<Rightarrow> 'v bc_phase \<Rightarrow> 'v phase" where
  "bound_check_phase env p =
     \<lparr> Name = ''bound-check'', Lifetime = LifetimePerSession, RunsAt = RunsAtInline,
       EntryState = bp_entryState p, ExitState = bp_exitState p, InternalStates = [],
       ConsumedMessageTypes = [MsgBoundPartial],
       Requires =
         [(CtxEncryptedInputs, ktype ''map[string][]byte'' True []),
          (CtxInputDim, ktype ''int'' True []),
          (CtxEvalKeyBundle, ktype ''[]byte'' True []),
          (CtxJointPublicKey, ktype ''[]byte'' True []),
          (CtxParticipants, ktype ''[]string'' True [])],
       Provides =
         [(CtxBoundCheckCiphers, ktype ''map[string][]byte'' False []),
          (CtxBoundCheckCommitments, ktype ''map[string][]byte'' False [])],
       Enter = bc_Enter env p, OnMessage = bc_OnMessage, CheckComplete = bc_CheckComplete, Exit = bc_Exit env p \<rparr>"

section \<open>The verdict on one value\<close>

lemma f_le_trans: "f_le x y \<Longrightarrow> f_le y z \<Longrightarrow> f_le x z"
  by (cases x; cases y; cases z) (auto elim!: f_le.elims split: bool.splits)

lemma f_le_total: "\<not> f_le y x \<Longrightarrow> x \<noteq> FNaN \<Longrightarrow> y \<noteq> FNaN \<Longrightarrow> f_le x y"
  by (cases x; cases y) (auto elim!: f_le.elims split: bool.splits)

lemma f_le_inf: "f_le (FInf False) t \<Longrightarrow> t = FInf False"
  by (cases t) (auto split: bool.splits)

lemma f_le_max: "t \<noteq> FInf False \<Longrightarrow> f_le (f_max a b) t \<longleftrightarrow> f_le a t \<and> f_le b t"
proof (cases "a = FInf False \<or> b = FInf False \<or> a = FNaN \<or> b = FNaN")
  case True
  moreover assume "t \<noteq> FInf False"
  ultimately show ?thesis using f_le_inf [of t] by (auto simp: f_max_def)
next
  case False
  then show ?thesis using f_le_trans [of a b t] f_le_trans [of b a t] f_le_total [of b a] by (auto simp: f_max_def)
qed

lemma rnd64_nonpos: "x \<le> 0 \<Longrightarrow> rnd64 x = FInf True \<or> (\<exists>y. rnd64 x = Fin y \<and> y \<le> 0)"
proof (cases "x = 0")
  case False
  moreover assume "x \<le> 0"
  ultimately have neg: "x < 0" by simp
  let ?q = "2 powi (max (lg \<bar>x\<bar> - 52) (- 1074)) :: rat"
  have "x / ?q \<le> 0" using neg by (simp add: divide_nonpos_pos)
  then have "rne (x / ?q) \<le> 0" using rne_mono [of "x / ?q" 0] rne_of_int [of 0] by simp
  then have "of_int (rne (x / ?q)) * ?q \<le> 0" by (simp add: mult_nonpos_nonneg)
  then show ?thesis using neg by (simp add: rnd64_def Let_def)
qed (simp add: rnd64_def)

text \<open>The value is within \<open>t\<close> of the bound, as the rounded differences say.\<close>

definition near_bound :: "f64 \<Rightarrow> bound \<Rightarrow> f64 \<Rightarrow> bool" where
  "near_bound v b t \<longleftrightarrow> f_le (f_sub (bd_Lo b) v) t \<and> f_le (f_sub v (bd_Hi b)) t"

lemma f_le_antisym_zero: "f_le x (Fin 0) \<Longrightarrow> x \<noteq> FNaN \<Longrightarrow> f_max (Fin 0) x = Fin 0"
  by (cases x) (auto simp: f_max_def elim!: f_le.elims split: bool.splits)

text \<open>
  The verdict on a decrypted check value. With thresholds \<open>0 \<le> EpsNorm \<le> NuHard\<close> below infinity, a value
  is in order exactly if it is within \<^verbatim>\<open>EpsNorm\<close> of the bound and a hard violation exactly if it is
  not within \<^verbatim>\<open>NuHard\<close>; a value inside a finite bound has distance zero and is in order; and a NaN, which
  no comparison can place, is a hard violation.
\<close>

theorem classify_verdict:
  assumes "f_le (Fin 0) (EpsNorm p)" "f_le (EpsNorm p) (NuHard p)" "NuHard p \<noteq> FInf False"
  shows "(snd (classify v b p) = SeverityOK \<longleftrightarrow> near_bound v b (EpsNorm p)) \<and>
    (snd (classify v b p) = SeverityHard \<longleftrightarrow> \<not> near_bound v b (NuHard p)) \<and>
    (\<forall>lo hi x. b = \<lparr> bd_Lo = Fin lo, bd_Hi = Fin hi \<rparr> \<and> v = Fin x \<and> lo \<le> x \<and> x \<le> hi \<longrightarrow> classify v b p = (Fin 0, SeverityOK)) \<and>
    (v = FNaN \<longrightarrow> snd (classify v b p) = SeverityHard)"
proof -
  have eps: "EpsNorm p \<noteq> FInf False" "f_le (Fin 0) (NuHard p)"
    using assms f_le_inf f_le_trans by metis+
  let ?nu = "f_max (Fin 0) (f_max (f_sub (bd_Lo b) v) (f_sub v (bd_Hi b)))"
  have nu: "f_le ?nu (EpsNorm p) \<longleftrightarrow> near_bound v b (EpsNorm p)" "f_le ?nu (NuHard p) \<longleftrightarrow> near_bound v b (NuHard p)"
    using assms eps by (simp_all add: f_le_max near_bound_def)
  have mono: "f_le ?nu (NuHard p)" if "f_le ?nu (EpsNorm p)"
    using that assms(2) by (rule f_le_trans)
  have "classify v b p = (Fin 0, SeverityOK)"
    if b: "b = \<lparr> bd_Lo = Fin lo, bd_Hi = Fin hi \<rparr>" "v = Fin x" "lo \<le> x" "x \<le> hi" for lo hi x
  proof -
    have z: "f_le y (Fin 0) \<and> y \<noteq> FNaN \<and> y \<noteq> FInf False" if "y = rnd64 d" "d \<le> 0" for y d
      using rnd64_nonpos [OF that(2)] that(1) by auto
    have s: "f_sub (bd_Lo b) v = rnd64 (lo - x)" "f_sub v (bd_Hi b) = rnd64 (x - hi)" using b by (simp_all add: f_sub_def)
    have "f_le (f_max (rnd64 (lo - x)) (rnd64 (x - hi))) (Fin 0)" "f_max (rnd64 (lo - x)) (rnd64 (x - hi)) \<noteq> FNaN"
      using z [OF refl, of "lo - x"] z [OF refl, of "x - hi"] b(3,4) by (auto simp: f_le_max) (auto simp: f_max_def split: if_splits)
    then have "?nu = Fin 0" unfolding s by (rule f_le_antisym_zero)
    then show ?thesis using assms(1) by (simp add: classify_def)
  qed
  moreover have "snd (classify v b p) = SeverityHard" if "v = FNaN"
    using that by (simp add: classify_def f_sub_def f_max_def Let_def) (cases "bd_Lo b"; simp)
  ultimately show ?thesis using nu mono by (auto simp: classify_def Let_def)
qed

lemma classify_verdict_witness:
  "snd (classify FNaN \<lparr> bd_Lo = Fin 0, bd_Hi = Fin 1 \<rparr> \<lparr> EpsNorm = Fin 0, NuHard = Fin 1 \<rparr>) = SeverityHard"
  using classify_verdict [of "\<lparr> EpsNorm = Fin 0, NuHard = Fin 1 \<rparr>" FNaN "\<lparr> bd_Lo = Fin 0, bd_Hi = Fin 1 \<rparr>"] by simp

section \<open>The outcome of the round\<close>

text \<open>The partial decryption that \<open>sender\<close> sent for the ciphertext of \<open>party\<close>, if it sent one.\<close>

definition partial_of :: "(string \<times> (string \<times> bytes) list) list \<Rightarrow> string \<Rightarrow> string \<Rightarrow> bytes option" where
  "partial_of senderMaps sender party = Option.bind (map_of senderMaps sender) (\<lambda>m. map_of m party)"

definition sent_partial :: "'v bc_env \<Rightarrow> 'v session_context \<Rightarrow> string \<Rightarrow> string \<Rightarrow> bytes option" where
  "sent_partial env c sender party =
     (case map_of (AccumulatedMessages c bucketPartials) sender of
        None \<Rightarrow> None
      | Some raw \<Rightarrow> (case env_decode env raw of Ok m \<Rightarrow> map_of m party | _ \<Rightarrow> None))"

lemma decode_partials_spec:
  assumes "\<And>m x. dec m \<noteq> Panic x" and "map_wf raw"
  shows "(\<forall>(_, m) \<in> set raw. is_ok (dec m)) \<Longrightarrow> \<exists>sm. decode_partials dec raw acc' = Ok sm \<and>
      map_of sm = map_of acc' ++ (\<lambda>s. Option.bind (map_of raw s) (\<lambda>m. case dec m of Ok x \<Rightarrow> Some x | _ \<Rightarrow> None))"
    and "\<not> (\<forall>(_, m) \<in> set raw. is_ok (dec m)) \<Longrightarrow>
      \<exists>e. decode_partials dec raw acc' = Err e \<and> err_is e ErrTransient \<and> \<not> err_is e ErrAppAttributable"
  using assms(2)
proof (induction raw arbitrary: acc')
  case (Cons sm raw)
  obtain s m where sm: "sm = (s, m)" by fastforce
  { case 1
    then have wf: "map_wf raw" "map_of raw s = None" by (auto simp: sm map_wf_def map_of_eq_None_iff)
    from 1 obtain x where x: "dec m = Ok x" by (auto simp: sm is_ok_iff)
    obtain sm' where "decode_partials dec raw (mput s x acc') = Ok sm'"
      "map_of sm' = map_of (mput s x acc') ++ (\<lambda>s. Option.bind (map_of raw s) (\<lambda>m. case dec m of Ok x \<Rightarrow> Some x | _ \<Rightarrow> None))"
      using Cons.IH(1) [OF _ wf(1), of "mput s x acc'"] 1(1) unfolding sm by fastforce
    then show ?case using x wf(2) by (auto simp: sm fun_eq_iff map_add_def split: option.split) }
  { case 2
    then have wf: "map_wf raw" by (simp add: map_wf_def)
    show ?case
    proof (cases "dec m")
      case (Ok x)
      then show ?thesis using Cons.IH(2) [OF _ wf, of "mput s x acc'"] 2 by (auto simp: sm)
    qed (use assms(1) in \<open>auto simp: sm\<close>) }
qed (auto simp: map_add_def fun_eq_iff)

lemma gather_partials_spec:
  "gather_partials sm party ps w = (blobs, full, w') \<Longrightarrow>
     (full \<longleftrightarrow> (\<forall>s \<in> set ps. partial_of sm s party \<noteq> None)) \<and>
     (full \<longrightarrow> blobs = map (\<lambda>s. the (partial_of sm s party)) ps) \<and>
     set w' = set w \<union> {s \<in> set ps. partial_of sm s party = None} \<and> (distinct w \<longrightarrow> distinct w')"
proof (induction ps arbitrary: w blobs full w')
  case (Cons s ps)
  show ?case
  proof (cases "partial_of sm s party")
    case None
    then obtain b2 c2 w2 where g: "gather_partials sm party ps (List.insert s w) = (b2, c2, w2)" "full = False" "w' = w2"
      using Cons.prems by (auto simp: partial_of_def split: prod.splits)
    show ?thesis using Cons.IH [OF g(1)] g(2,3) None by auto
  next
    case (Some blob)
    then obtain b2 w2 where g: "gather_partials sm party ps w = (b2, full, w2)" "blobs = blob # b2" "w' = w2"
      using Cons.prems by (auto simp: partial_of_def split: prod.splits)
    show ?thesis using Cons.IH [OF g(1)] g(2,3) Some by auto
  qed
qed auto

text \<open>What the round decides for one party whose quorum of partials is complete.\<close>

definition fused :: "fuse_fn \<Rightarrow> (string \<Rightarrow> string \<Rightarrow> bytes option) \<Rightarrow> string list \<Rightarrow> string \<Rightarrow> (string, f64 list) outcome" where
  "fused fuse sent ps party = fuse (map (\<lambda>s. the (sent s party)) ps) 1"

definition quorum_for :: "(string \<Rightarrow> string \<Rightarrow> bytes option) \<Rightarrow> string list \<Rightarrow> string \<Rightarrow> bool" where
  "quorum_for sent ps party \<longleftrightarrow> (\<forall>s \<in> set ps. sent s party \<noteq> None)"

definition fuse_works :: "fuse_fn \<Rightarrow> (string \<Rightarrow> string \<Rightarrow> bytes option) \<Rightarrow> string list \<Rightarrow> string \<Rightarrow> bool" where
  "fuse_works fuse sent ps party \<longleftrightarrow> (quorum_for sent ps party \<longrightarrow> (\<exists>v vs. fused fuse sent ps party = Ok (v # vs)))"

definition numeric_violation ::
  "fuse_fn \<Rightarrow> (string \<Rightarrow> string \<Rightarrow> bytes option) \<Rightarrow> bound \<Rightarrow> bc_params \<Rightarrow> string list \<Rightarrow> string \<Rightarrow> violation option" where
  "numeric_violation fuse sent b p ps party =
     (if \<not> quorum_for sent ps party then None
      else case fused fuse sent ps party of
             Ok (v # _) \<Rightarrow> (case classify v b p of (nu, sev) \<Rightarrow> if sev = SeverityOK then None else Some (party, nu, sev))
           | _ \<Rightarrow> None)"

lemma check_parties_spec:
  assumes "sent = partial_of sm" and "\<forall>party \<in> set parties. fuse_works fuse sent ps party" and "distinct w"
  shows "\<exists>w'. check_parties fuse b p sm ps parties vs w =
      Ok (vs @ List.map_filter (numeric_violation fuse sent b p ps) parties, w') \<and>
    distinct w' \<and> set w' = set w \<union> {s \<in> set ps. \<exists>party \<in> set parties. sent s party = None}"
  using assms(2,3)
proof (induction parties arbitrary: vs w)
  case (Cons party parties)
  obtain blobs full w1 where g: "gather_partials sm party ps w = (blobs, full, w1)" by (metis prod_cases3)
  note gs = gather_partials_spec [OF g]
  have w1: "distinct w1" "set w1 = set w \<union> {s \<in> set ps. sent s party = None}" using gs Cons.prems(2) assms(1) by auto
  have IH: "\<exists>w'. check_parties fuse b p sm ps parties vs' w1 =
      Ok (vs' @ List.map_filter (numeric_violation fuse sent b p ps) parties, w') \<and>
    distinct w' \<and> set w' = set w1 \<union> {s \<in> set ps. \<exists>party \<in> set parties. sent s party = None}" for vs'
    using Cons.IH [OF _ w1(1)] Cons.prems(1) by simp
  have un: "set w1 \<union> {s \<in> set ps. \<exists>party \<in> set parties. sent s party = None} =
      set w \<union> {s \<in> set ps. \<exists>q \<in> set (party # parties). sent s q = None}" using w1(2) by auto
  show ?case
  proof (cases full)
    case False
    then have "numeric_violation fuse sent b p ps party = None" using gs assms(1) by (simp add: numeric_violation_def quorum_for_def)
    then show ?thesis using IH [of vs] g False un by (simp add: List.map_filter_simps)
  next
    case True
    then have q: "quorum_for sent ps party" "blobs = map (\<lambda>s. the (sent s party)) ps" using gs assms(1) by (auto simp: quorum_for_def)
    then obtain v rest where v: "fused fuse sent ps party = Ok (v # rest)" using Cons.prems(1) by (auto simp: fuse_works_def)
    obtain nu sev where c: "classify v b p = (nu, sev)" by fastforce
    have n: "numeric_violation fuse sent b p ps party = (if sev = SeverityOK then None else Some (party, nu, sev))"
      using q v c by (simp add: numeric_violation_def)
    have "check_parties fuse b p sm ps (party # parties) vs w =
        check_parties fuse b p sm ps parties (if sev \<noteq> SeverityOK then vs @ [(party, nu, sev)] else vs) w1"
      using g True q v c by (simp add: fused_def)
    then show ?thesis using IH [of "if sev \<noteq> SeverityOK then vs @ [(party, nu, sev)] else vs"] un n
      by (auto simp: List.map_filter_simps)
  qed
qed (auto simp: List.map_filter_simps)

lemma check_parties_fails:
  assumes "sent = partial_of sm" and "\<exists>party \<in> set parties. \<not> fuse_works fuse sent ps party" and "\<And>xs n m. fuse xs n \<noteq> Panic m"
  shows "\<exists>e. check_parties fuse b p sm ps parties vs w = Err e \<and> err_is e ErrTransient \<and> \<not> err_is e ErrAppAttributable"
  using assms(2)
proof (induction parties arbitrary: vs w)
  case (Cons party parties)
  obtain blobs full w1 where g: "gather_partials sm party ps w = (blobs, full, w1)" by (metis prod_cases3)
  note gs = gather_partials_spec [OF g]
  show ?case
  proof (cases "fuse_works fuse sent ps party")
    case False
    then have "full" "fuse blobs 1 = fused fuse sent ps party" "\<nexists>v vs. fused fuse sent ps party = Ok (v # vs)"
      using gs assms(1) by (auto simp: fuse_works_def quorum_for_def fused_def)
    then show ?thesis using g assms(3) [of blobs 1]
      by (auto split: outcome.split list.split)
  next
    case True
    then have ex: "\<exists>party \<in> set parties. \<not> fuse_works fuse sent ps party" using Cons.prems by auto
    show ?thesis
    proof (cases full)
      case False
      then show ?thesis using g Cons.IH [OF ex] by simp
    next
      case c: True
      then obtain v rest where "fuse blobs 1 = Ok (v # rest)" using True gs assms(1) by (auto simp: fuse_works_def quorum_for_def fused_def)
      then show ?thesis using g c Cons.IH [OF ex] by (auto split: prod.split)
    qed
  qed
qed simp

text \<open>The handler's calls, one after the other; a handler that does not panic is called for every violator.\<close>

definition notified :: "'v violation_handler option \<Rightarrow> violation list \<Rightarrow> 'v session_context \<Rightarrow> 'v session_context" where
  "notified handler vs c =
     (case handler of None \<Rightarrow> c | Some h \<Rightarrow> fold (\<lambda>(party, nu, sev) c. snd (h party nu sev c)) vs c)"

definition calm :: "'v violation_handler option \<Rightarrow> bool" where
  "calm handler \<longleftrightarrow> (\<forall>h. handler = Some h \<longrightarrow> (\<forall>party nu sev c m. fst (h party nu sev c) \<noteq> Panic m))"

lemma notify_spec: "calm handler \<Longrightarrow> notify handler vs c = (Ok (), notified handler vs c)"
proof (induction vs arbitrary: c)
  case Nil
  then show ?case by (cases handler) (simp_all add: notified_def)
next
  case (Cons v vs)
  obtain party nu sev where v: "v = (party, nu, sev)" by (metis prod_cases3)
  show ?case
  proof (cases handler)
    case (Some h)
    obtain res c1 where h: "h party nu sev c = (res, c1)" by fastforce
    then have "\<And>m. res \<noteq> Panic m" using Cons.prems Some unfolding calm_def by (metis fst_conv)
    then show ?thesis using Cons.IH [OF Cons.prems, of c1] h Some by (cases res) (auto simp: v notified_def)
  qed (simp add: notified_def)
qed

lemma bc_Exit_verdict:
  assumes "(case bp_fuse p of Some f \<Rightarrow> Some f | None \<Rightarrow> TryGet (env_as_fuse env) c CtxBoundCheckFuse) = Some fuse" and "TryGet as_strings c CtxParticipants = Some ps"
    and "map_wf (AccumulatedMessages c bucketPartials)"
    and "\<And>m x. env_decode env m \<noteq> Panic x" and "\<And>xs n x. fuse xs n \<noteq> Panic x" and "calm (bp_handler p)"
    and "\<And>xs. mset (env_iter env xs) = mset xs"
    and "ok = ((\<forall>(_, m) \<in> set (AccumulatedMessages c bucketPartials). is_ok (env_decode env m)) \<and>
      (\<forall>party \<in> set ps. fuse_works fuse (sent_partial env c) ps party))"
  shows "(\<not> ok \<longrightarrow> (\<exists>e. Exit (bound_check_phase env p) c = (Err e, c) \<and> err_is e ErrTransient \<and> \<not> err_is e ErrAppAttributable)) \<and>
    (ok \<longrightarrow> (\<exists>vs ws. vs = List.map_filter (numeric_violation fuse (sent_partial env c) (bc_Bound (bp_circuit p)) (bp_params p) ps) ps
          @ map (\<lambda>s. (s, f_add (NuHard (bp_params p)) (Fin 1), SeverityHard)) ws \<and>
        distinct ws \<and> set ws = {s \<in> set ps. \<exists>party \<in> set ps. sent_partial env c s party = None} \<and>
        Exit (bound_check_phase env p) c =
          (if vs = [] then (Ok (), c) else (Err bound_violation, notified (bp_handler p) vs c))))"
proof (cases "\<forall>(_, m) \<in> set (AccumulatedMessages c bucketPartials). is_ok (env_decode env m)")
  case False
  obtain e where "decode_partials (env_decode env) (AccumulatedMessages c bucketPartials) [] = Err e"
    "err_is e ErrTransient" "\<not> err_is e ErrAppAttributable"
    using decode_partials_spec(2) [OF assms(4,3) False] by blast
  then have "Exit (bound_check_phase env p) c = (Err e, c)" "err_is e ErrTransient" "\<not> err_is e ErrAppAttributable"
    using assms(1) by (simp_all add: bound_check_phase_def bc_Exit_def Let_def)
  moreover have "\<not> ok" using False assms(8) by blast
  ultimately show ?thesis by blast
next
  case True
  let ?fuse = "fuse_works fuse (sent_partial env c) ps"
  obtain sm where sm: "decode_partials (env_decode env) (AccumulatedMessages c bucketPartials) [] = Ok sm"
    "map_of sm = Map.empty ++ (\<lambda>s. Option.bind (map_of (AccumulatedMessages c bucketPartials) s)
       (\<lambda>m. case env_decode env m of Ok x \<Rightarrow> Some x | _ \<Rightarrow> None))"
    using decode_partials_spec(1) [OF assms(4,3) True, of "[]"] by auto
  have sent: "sent_partial env c = partial_of sm"
    by (intro ext) (auto simp: sent_partial_def partial_of_def sm(2) split: option.split outcome.split)
  show ?thesis
  proof (cases "\<forall>party \<in> set ps. ?fuse party")
    case False
    then have bad: "\<exists>party \<in> set ps. \<not> ?fuse party" and "\<not> ok" using assms(8) by blast+
    obtain e where "check_parties fuse (bc_Bound (bp_circuit p)) (bp_params p) sm ps ps [] [] = Err e"
      "err_is e ErrTransient" "\<not> err_is e ErrAppAttributable"
      using check_parties_fails [OF sent bad assms(5)] by blast
    then show ?thesis using sm(1) assms(1,2) \<open>\<not> ok\<close> by (auto simp: bound_check_phase_def bc_Exit_def)
  next
    case works: True
    let ?num = "List.map_filter (numeric_violation fuse (sent_partial env c) (bc_Bound (bp_circuit p)) (bp_params p) ps) ps"
    obtain w where w: "check_parties fuse (bc_Bound (bp_circuit p)) (bp_params p) sm ps ps [] [] = Ok (?num, w)"
      "distinct w" "set w = {s \<in> set ps. \<exists>party \<in> set ps. sent_partial env c s party = None}"
      using check_parties_spec [OF sent works, where w = "[]" and vs = "[]" and b = "bc_Bound (bp_circuit p)" and p = "bp_params p"]
      by auto
    let ?ws = "env_iter env w"
    let ?vs = "?num @ map (\<lambda>s. (s, f_add (NuHard (bp_params p)) (Fin 1), SeverityHard)) ?ws"
    have ws: "distinct ?ws" "set ?ws = set w" using assms(7) [of w] w(2) by (metis mset_eq_imp_distinct_iff, metis mset_eq_setD)
    have "Exit (bound_check_phase env p) c = (if ?vs = [] then (Ok (), c) else (Err bound_violation, notified (bp_handler p) ?vs c))"
      using sm(1) w(1) assms(1,2) notify_spec [OF assms(6), of ?vs c] by (simp add: bound_check_phase_def bc_Exit_def Let_def)
    then show ?thesis using True works assms(8) ws w(3) by (intro conjI impI exI [of _ ?vs] exI [of _ ?ws]) auto
  qed
qed

text \<open>
  Claim C24. The outcome of a bound-check round in real mode, for every set of submitted partials that was accumulated
  (a well-formed bucket), any fuse function and any handler that do not panic. A message that does not
  decode, or a fusion that fails, gives a transient error and neither calls the handler nor changes the
  context. Otherwise the list of violations has the parties whose fused value is out of bounds, in participant order, and
  then every sender that withheld a partial from some party, once each, as a hard violation; a party that is out of bounds and also withheld a partial
  is in both halves. With no violation the round succeeds and
  changes nothing; with any, the handler is called once for each entry of the list, twice for a party that is in both halves, and the round aborts with one
  fixed error attributable to the application, which carries neither names nor values.
\<close>

theorem bound_check_verdict:
  assumes "bp_fuse p = Some fuse" and "TryGet as_strings c CtxParticipants = Some ps"
    and "map_wf (AccumulatedMessages c bucketPartials)"
    and "\<And>m x. env_decode env m \<noteq> Panic x" and "\<And>xs n x. fuse xs n \<noteq> Panic x" and "calm (bp_handler p)"
    and "\<And>xs. mset (env_iter env xs) = mset xs"
    and "ok = ((\<forall>(_, m) \<in> set (AccumulatedMessages c bucketPartials). is_ok (env_decode env m)) \<and>
      (\<forall>party \<in> set ps. fuse_works fuse (sent_partial env c) ps party))"
  shows "(\<not> ok \<longrightarrow> (\<exists>e. Exit (bound_check_phase env p) c = (Err e, c) \<and> err_is e ErrTransient \<and> \<not> err_is e ErrAppAttributable)) \<and>
    (ok \<longrightarrow> (\<exists>vs ws. vs = List.map_filter (numeric_violation fuse (sent_partial env c) (bc_Bound (bp_circuit p)) (bp_params p) ps) ps
          @ map (\<lambda>s. (s, f_add (NuHard (bp_params p)) (Fin 1), SeverityHard)) ws \<and>
        distinct ws \<and> set ws = {s \<in> set ps. \<exists>party \<in> set ps. sent_partial env c s party = None} \<and>
        Exit (bound_check_phase env p) c =
          (if vs = [] then (Ok (), c) else (Err bound_violation, notified (bp_handler p) vs c))))"
  by (rule bc_Exit_verdict [OF _ assms(2-8)]) (simp add: assms(1))

text \<open>
  Two participants of whom \<^verbatim>\<open>b\<close> withholds its partial for \<^verbatim>\<open>a\<close> and is out of bounds itself; the decoder reads one byte for each party, and the handler
  keeps a log of the parties it is called for.
\<close>

definition toy_env :: "unit bc_env" where
  "toy_env = \<lparr> env_as_handle = (\<lambda>_. None), env_as_fuse = (\<lambda>_. None),
     env_decode = (\<lambda>m. Ok (map (\<lambda>x. (if x = 0 then ''a'' else ''b'', [x])) m)), env_iter = rev \<rparr>"

definition toy_log :: "unit session_context \<Rightarrow> string list" where
  "toy_log c = (case TryGet as_strings c ''log'' of None \<Rightarrow> [] | Some xs \<Rightarrow> xs)"

definition toy_handler :: "unit violation_handler" where
  "toy_handler party nu sev c = (Ok (), ctx_Set c ''log'' (VStrings (toy_log c @ [party])))"

definition toy_phase :: "unit bc_phase" where
  "toy_phase = NewPhaseWithCrypto (DistanceBoundCircuit [Fin 0, Fin 0] (Fin 0) (Fin 1)) (Some toy_handler) \<lparr> EpsNorm = Fin 0, NuHard = Fin 1 \<rparr>
     ''SCORING'' ''DECRYPTING'' None (Some (\<lambda>xs n. Ok [Fin 9]))"

definition toy_ctx :: "unit session_context" where
  "toy_ctx = (NewSessionContext ''s'')\<lparr> ctx_values :=
     [(CtxParticipants, VStrings [''a'', ''b'']), (bucketPartials, VByteMap [(''a'', [0, 1]), (''b'', [1])])] \<rparr>"

lemma toy_facts:
  "AccumulatedMessages toy_ctx bucketPartials = [(''a'', [0, 1]), (''b'', [1])]"
  "sent_partial toy_env toy_ctx ''a'' ''a'' = Some [0]" "sent_partial toy_env toy_ctx ''a'' ''b'' = Some [1]"
  "sent_partial toy_env toy_ctx ''b'' ''a'' = None" "sent_partial toy_env toy_ctx ''b'' ''b'' = Some [1]" "toy_log toy_ctx = []"
proof -
  show msgs: "AccumulatedMessages toy_ctx bucketPartials = [(''a'', [0, 1]), (''b'', [1])]"
    by (simp add: AccumulatedMessages_def toy_ctx_def ctx_Get_def bc_names key_defs)
  show "sent_partial toy_env toy_ctx ''a'' ''a'' = Some [0]" "sent_partial toy_env toy_ctx ''a'' ''b'' = Some [1]"
    "sent_partial toy_env toy_ctx ''b'' ''a'' = None" "sent_partial toy_env toy_ctx ''b'' ''b'' = Some [1]"
    by (simp_all add: sent_partial_def msgs toy_env_def)
  show "toy_log toy_ctx = []" by (simp add: toy_log_def toy_ctx_def TryGet_def ctx_Get_def bc_names key_defs)
qed

lemma toy_numeric:
  "List.map_filter (numeric_violation (\<lambda>xs n. Ok [Fin 9]) (sent_partial toy_env toy_ctx) (bc_Bound (bp_circuit toy_phase)) (bp_params toy_phase) [''a'', ''b''])
     [''a'', ''b''] = [(''b'', Fin 8, SeverityHard)]"
  by code_simp

lemma toy_notified: "toy_log (notified (Some toy_handler) vs c) = toy_log c @ map fst vs"
  by (induction vs arbitrary: c) (auto simp: notified_def toy_handler_def toy_log_def TryGet_def)

text \<open>The party is reported twice.\<close>

lemma bound_check_verdict_witness:
  "\<exists>c. Exit (bound_check_phase toy_env toy_phase) toy_ctx = (Err bound_violation, c) \<and> toy_log c = [''b'', ''b'']"
proof -
  have "\<exists>vs ws. vs = List.map_filter (numeric_violation (\<lambda>xs n. Ok [Fin 9]) (sent_partial toy_env toy_ctx)
          (bc_Bound (bp_circuit toy_phase)) (bp_params toy_phase) [''a'', ''b'']) [''a'', ''b'']
        @ map (\<lambda>s. (s, f_add (NuHard (bp_params toy_phase)) (Fin 1), SeverityHard)) ws \<and> distinct ws \<and>
      set ws = {s \<in> set [''a'', ''b'']. \<exists>party \<in> set [''a'', ''b'']. sent_partial toy_env toy_ctx s party = None} \<and>
      Exit (bound_check_phase toy_env toy_phase) toy_ctx =
        (if vs = [] then (Ok (), toy_ctx) else (Err bound_violation, notified (bp_handler toy_phase) vs toy_ctx))"
    by (rule bound_check_verdict [THEN conjunct2, THEN mp])
       (simp_all add: toy_phase_def NewPhaseWithCrypto_def NewPhase_def toy_facts toy_env_def calm_def toy_handler_def fuse_works_def fused_def map_wf_def,
        simp add: toy_ctx_def TryGet_def ctx_Get_def)
  then obtain vs ws where vs: "vs = (''b'', Fin 8, SeverityHard) # map (\<lambda>s. (s, f_add (NuHard (bp_params toy_phase)) (Fin 1), SeverityHard)) ws"
    and *: "distinct ws" "set ws = {s \<in> set [''a'', ''b'']. \<exists>party \<in> set [''a'', ''b'']. sent_partial toy_env toy_ctx s party = None}"
    "Exit (bound_check_phase toy_env toy_phase) toy_ctx =
        (if vs = [] then (Ok (), toy_ctx) else (Err bound_violation, notified (bp_handler toy_phase) vs toy_ctx))"
    unfolding toy_numeric by auto
  have "x \<in> set ws \<longleftrightarrow> x = ''b''" for x
    unfolding *(2) using toy_facts by (cases "x = ''a''"; cases "x = ''b''") simp_all
  then have w: "set ws = {''b''}" by blast
  then have "length ws = 1" using distinct_card [OF *(1)] by simp
  then have "ws = [''b'']" using w by (cases ws) auto
  then have "toy_log (notified (Some toy_handler) vs toy_ctx) = [''b'', ''b'']" unfolding toy_notified vs by (simp add: toy_facts)
  moreover have "bp_handler toy_phase = Some toy_handler" by (simp add: toy_phase_def NewPhaseWithCrypto_def NewPhase_def)
  ultimately show ?thesis using *(3) vs by auto
qed

section \<open>What Enter stores\<close>

lemma eval_checks_Ok:
  assumes "eval_checks circ h sid inputs checks comms = Ok (checks', comms')" and "map_wf inputs"
  shows "(\<forall>party. party \<notin> keys_of inputs \<longrightarrow> map_of checks' party = map_of checks party \<and> map_of comms' party = map_of comms party) \<and>
    (\<forall>party input. map_of inputs party = Some input \<longrightarrow>
       (\<exists>ck. cut_Eval circ h [input] = Ok ck \<and> map_of checks' party = Some ck \<and>
          map_of comms' party = Some (check_commitment ck input sid)))"
  using assms
proof (induction inputs arbitrary: checks comms)
  case (Cons pi inputs)
  obtain party input where pi: "pi = (party, input)" by fastforce
  obtain ck where ck: "cut_Eval circ h [input] = Ok ck"
    "eval_checks circ h sid inputs (mput party ck checks) (mput party (check_commitment ck input sid) comms) = Ok (checks', comms')"
    using Cons.prems(1) by (auto simp: pi split: outcome.splits)
  have wf: "map_wf inputs" "party \<notin> keys_of inputs" using Cons.prems(2) by (auto simp: pi map_wf_def)
  show ?case using Cons.IH [OF ck(2) wf(1)] wf(2) ck(1) by (auto simp: pi)
qed simp

text \<open>A commitment names its check ciphertext and its input, or two byte strings collide under SHA-256.\<close>

definition collides :: "bytes \<Rightarrow> bytes \<Rightarrow> bool" where
  "collides a b \<longleftrightarrow> a \<noteq> b \<and> sha256 a = sha256 b"

definition commitment_binds :: "bytes \<Rightarrow> bytes \<Rightarrow> string \<Rightarrow> bool" where
  "commitment_binds ck inp sid \<longleftrightarrow>
     (\<forall>ck' inp'. check_commitment ck' inp' sid = check_commitment ck inp sid \<longrightarrow>
        ck' = ck \<and> inp' = inp \<or> collides inp' inp \<or>
        collides (ck' @ sha256 inp' @ str_bytes sid) (ck @ sha256 inp @ str_bytes sid))"

lemma check_commitment_binds: "commitment_binds ck inp sid"
  unfolding commitment_binds_def
proof (intro allI impI)
  fix ck' inp' assume eq: "check_commitment ck' inp' sid = check_commitment ck inp sid"
  show "ck' = ck \<and> inp' = inp \<or> collides inp' inp \<or>
      collides (ck' @ sha256 inp' @ str_bytes sid) (ck @ sha256 inp @ str_bytes sid)"
  proof (cases "ck' @ sha256 inp' @ str_bytes sid = ck @ sha256 inp @ str_bytes sid")
    case True
    have len: "length (sha256 m) = 32" for m using ref_wf_sha256 [of m] by (simp add: ref_wf_def)
    from True have "ck' @ sha256 inp' = ck @ sha256 inp" by (metis append.assoc append_same_eq)
    then have "ck' = ck \<and> sha256 inp' = sha256 inp" using len by (metis append_eq_append_conv)
    then show ?thesis by (auto simp: collides_def)
  next
    case False
    then show ?thesis using eq by (auto simp: check_commitment_def collides_def)
  qed
qed

text \<open>
  Entering the round. Without an input dimension of at least two that equals the circuit's, \<^verbatim>\<open>Enter\<close> refuses with
  a permanent error and leaves the context alone. When it succeeds with a handle, the context holds, for
  every party with an encrypted input, the circuit's value on that input and its commitment, and nothing
  for anybody else; and one commitment of a session determines both the check ciphertext and the input,
  short of a SHA-256 collision.
\<close>

theorem bound_check_enter:
  assumes "Enter (bound_check_phase env p) c = (res, c')"
  shows "(\<not> (\<exists>d \<ge> 2. TryGet as_int c CtxInputDim = Some d \<and> d = bc_Dim (bp_circuit p)) \<longrightarrow>
      (\<exists>e. res = Err e \<and> err_is e ErrPermanent) \<and> c' = c) \<and>
    (\<forall>h inputs. res = Ok () \<and> bp_handle p = Some h \<and> TryGet as_byte_map c CtxEncryptedInputs = Some inputs \<and> map_wf inputs \<longrightarrow>
      (\<exists>checks comms. TryGet as_byte_map c' CtxBoundCheckCiphers = Some checks \<and>
         TryGet as_byte_map c' CtxBoundCheckCommitments = Some comms \<and>
         (\<forall>party. party \<notin> keys_of inputs \<longrightarrow> map_of checks party = None \<and> map_of comms party = None) \<and>
         (\<forall>party input. map_of inputs party = Some input \<longrightarrow>
            (\<exists>ck. cut_Eval (bp_circuit p) h [input] = Ok ck \<and> map_of checks party = Some ck \<and>
               map_of comms party = Some (check_commitment ck input (SessionID c)) \<and>
               commitment_binds ck input (SessionID c)))))"
proof (intro conjI impI allI, goal_cases)
  case 1
  then show ?case using assms by (auto simp: bound_check_phase_def bc_Enter_def split: option.splits if_splits)
next
  case 2
  then show ?case using assms by (auto simp: bound_check_phase_def bc_Enter_def split: option.splits if_splits)
next
  case (3 h inputs)
  then obtain checks comms where e: "eval_checks (bp_circuit p) h (SessionID c) inputs [] [] = Ok (checks, comms)"
    "c' = ctx_Set (ctx_Set c CtxBoundCheckCiphers (VByteMap checks)) CtxBoundCheckCommitments (VByteMap comms)"
    using assms by (auto simp: bound_check_phase_def bc_Enter_def split: option.splits if_splits outcome.splits)
  have ne: "CtxBoundCheckCiphers \<noteq> CtxBoundCheckCommitments" by (simp add: bc_names)
  have "map_of checks party = None \<and> map_of comms party = None" if "party \<notin> keys_of inputs" for party
    using eval_checks_Ok [OF e(1)] 3 that by simp
  moreover have "\<exists>ck. cut_Eval (bp_circuit p) h [input] = Ok ck \<and> map_of checks party = Some ck \<and>
      map_of comms party = Some (check_commitment ck input (SessionID c)) \<and> commitment_binds ck input (SessionID c)"
    if "map_of inputs party = Some input" for party input
    using eval_checks_Ok [OF e(1)] 3 that check_commitment_binds by blast
  moreover have "TryGet as_byte_map c' CtxBoundCheckCiphers = Some checks" "TryGet as_byte_map c' CtxBoundCheckCommitments = Some comms"
    using ne by (simp_all add: e(2))
  ultimately show ?case by blast
qed

lemma bound_check_enter_witness:
  "\<exists>e. fst (Enter (bound_check_phase toy_env toy_phase) toy_ctx) = Err e \<and> err_is e ErrPermanent"
proof -
  have "TryGet as_int toy_ctx CtxInputDim = None" by (simp add: TryGet_def ctx_Get_def toy_ctx_def bc_names key_defs)
  then show ?thesis using bound_check_enter [OF surjective_pairing, where env = toy_env and p = toy_phase and c = toy_ctx] by auto
qed

section \<open>The phase in a runner\<close>

text \<open>
  With a handler that is confined to its context the phase satisfies what the runner's invariants ask of
  a phase, so they hold for every pipeline with a bound check in it.
\<close>

lemma notify_confined:
  "(\<forall>h. handler = Some h \<longrightarrow> (\<forall>party nu sev. hook_confined (h party nu sev))) \<Longrightarrow> ctx_confined c (snd (notify handler vs c))"
proof (induction vs arbitrary: c)
  case (Cons v vs)
  obtain party nu sev where v: "v = (party, nu, sev)" by (metis prod_cases3)
  show ?case
  proof (cases handler)
    case (Some h)
    obtain res c1 where h: "h party nu sev c = (res, c1)" by fastforce
    then have "ctx_confined c c1" using Cons.prems Some unfolding hook_confined_def by (metis snd_conv)
    then show ?thesis using Cons.IH [OF Cons.prems, of c1] h Some ctx_confined_trans
      by (cases res) (auto simp: v)
  qed simp
qed (cases handler; simp)

lemma abort_ctx: "snd (case x of (Panic m, c1) \<Rightarrow> (Panic m, c1) | (_, c1) \<Rightarrow> (Err e, c1)) = snd x"
  by (cases x, cases "fst x") auto

lemma bound_check_confined:
  assumes "\<forall>h. bp_handler p = Some h \<longrightarrow> (\<forall>party nu sev. hook_confined (h party nu sev))"
  shows "phase_confined (bound_check_phase env p)"
proof -
  have "ctx_confined c (snd (bc_Enter env p c))" for c
    by (auto simp: bc_Enter_def split: option.split outcome.split)
  moreover have "ctx_confined c (snd (bc_Exit env p c))" for c
    using notify_confined [OF assms, of c]
    by (simp add: bc_Exit_def Let_def abort_ctx split: option.split outcome.split prod.split)
  ultimately show ?thesis by (simp add: phase_confined_def hook_confined_def bound_check_phase_def bc_OnMessage_def)
qed

end
