(* ===== verification/App_Base.thy ===== *)
theory App_Base
  imports Anon Transport_Service Boundcheck
begin

text \<open>
  What the example applications under \<^verbatim>\<open>examples/\<close> share: phases that collect one message from every participant, and the
  passage of a session through phases whose hooks succeed, with or without a lineage store.
\<close>

section \<open>Contexts up to the store\<close>

text \<open>The store of a context is the runner's while a hook runs, so what a tracker keeps there between hooks does not matter.\<close>

abbreviation at_store :: "'v session_context \<Rightarrow> in_memory_store option \<Rightarrow> 'v session_context" where
  "at_store c st \<equiv> c\<lparr> ctx_lineageStore := st \<rparr>"

definition store_blind :: "'v hook \<Rightarrow> bool" where
  "store_blind h \<longleftrightarrow> (\<forall>c st. h (at_store c st) = (fst (h c), at_store (snd (h c)) st))"

lemma store_blindD: "store_blind h \<Longrightarrow> h c = (res, c') \<Longrightarrow> h (at_store c st) = (res, at_store c' st)"
  unfolding store_blind_def by (metis fst_conv snd_conv)

lemma ctx_at_store [simp]:
  "ctx_Get (at_store c st) k = ctx_Get c k" "ctx_Set (at_store c st) k v = at_store (ctx_Set c k v) st"
  "ctx_Has (at_store c st) k = ctx_Has c k" "QuorumReached (at_store c st) b n = QuorumReached c b n"
  "AccumulateMessage (at_store c st) b from m = at_store (AccumulateMessage c b from m) st"
  by (simp_all add: ctx_Get_def ctx_Set_def ctx_Has_def QuorumReached_def MessageCount_def AccumulateMessage_def ctx_Update_def)

lemma MustGet_at_store [simp]: "MustGet a (at_store c st) k = MustGet a c k"
  by (simp add: MustGet_def)

lemma accumulate_all_at_store [simp]: "accumulate_all (at_store c st) b ms = at_store (accumulate_all c b ms) st"
  by (induction ms arbitrary: c) auto

lemma skip_hook_blind [simp]: "store_blind skip_hook"
  by (simp add: store_blind_def skip_hook_def)

lemma mput_mput [simp]: "mput k v (mput k w m) = mput k v m"
  by (induction m) auto

lemma put_tracker_simps [simp]:
  "put_tracker sid t' (put_tracker sid t r) = put_tracker sid t' r" "map_of (sessions (put_tracker sid t r)) sid = Some t"
  "byEntryState (put_tracker sid t r) = byEntryState r" "phases (put_tracker sid t r) = phases r"
  "lineageStore (put_tracker sid t r) = lineageStore r" "lineageSigner (put_tracker sid t r) = lineageSigner r"
  "(put_tracker sid t r)\<lparr> lineageStore := st \<rparr> = put_tracker sid t (r\<lparr> lineageStore := st \<rparr>)"
  by (simp_all add: put_tracker_def)

lemma accumulate_all_new:
  "distinct (map fst ms) \<Longrightarrow> fst ` set ms \<inter> keys_of (AccumulatedMessages c b) = {} \<Longrightarrow>
   AccumulatedMessages (accumulate_all c b ms) b = AccumulatedMessages c b @ ms"
proof (induction ms arbitrary: c)
  case (Cons x ms)
  obtain f m where x: "x = (f, m)" by fastforce
  have "f \<notin> keys_of (AccumulatedMessages c b)" using Cons.prems(2) by (simp add: x)
  then have one: "AccumulatedMessages (AccumulateMessage c b f m) b = AccumulatedMessages c b @ [(f, m)]" by (simp add: mput_new)
  moreover have "fst ` set ms \<inter> keys_of (AccumulatedMessages (AccumulateMessage c b f m) b) = {}"
    using Cons.prems unfolding one by (auto simp: x image_iff)
  ultimately show ?case using Cons.IH [of "AccumulateMessage c b f m"] Cons.prems(1) by (simp add: x)
qed simp

lemma TryGet_accumulate_all [simp]: "k \<noteq> b \<Longrightarrow> TryGet a (accumulate_all c b ms) k = TryGet a c k"
  by (simp add: TryGet_def accumulate_all_other)

section \<open>Collecting one message from every participant\<close>

definition quorum_of :: "string \<Rightarrow> string \<Rightarrow> 'v session_context \<Rightarrow> bool" where
  "quorum_of pkey bucket ctx =
     (case TryGet as_strings ctx pkey of
        None \<Rightarrow> False
      | Some participants \<Rightarrow> QuorumReached ctx bucket (int (length participants)))"

definition taken :: "(bytes \<Rightarrow> (string, bytes) outcome) \<Rightarrow> (string \<times> bytes) list \<Rightarrow> (string \<times> bytes) list" where
  "taken dec = map (\<lambda>(from, m). (from, case dec m of Ok x \<Rightarrow> x | _ \<Rightarrow> []))"

lemma taken_fst [simp]: "map fst (taken dec ms) = map fst ms" "fst ` set (taken dec ms) = fst ` set ms"
proof -
  show "map fst (taken dec ms) = map fst ms" by (simp add: taken_def case_prod_unfold)
  then show "fst ` set (taken dec ms) = fst ` set ms" by (metis image_set)
qed

lemma taken_Ok [simp]: "taken Ok ms = ms"
  by (simp add: taken_def case_prod_unfold)

text \<open>
  A phase that keeps \<open>dec m\<close> for a message \<open>m\<close> of type \<open>mt\<close>, one for each sender, and is complete when it has as many as there are
  participants under \<open>pkey\<close>.
\<close>

locale collecting =
  fixes p :: "'v phase" and mt bucket pkey :: string and dec :: "bytes \<Rightarrow> (string, bytes) outcome"
  assumes consumes: "phaseConsumes p mt"
    and takes: "dec m = Ok x \<Longrightarrow> OnMessage p mt from m c = (Ok (), AccumulateMessage c bucket from x)"
    and completes: "CheckComplete p = quorum_of pkey bucket"
    and apart: "pkey \<noteq> bucket"
begin

lemma message_any:
  assumes "map_of (sessions r) sid = Some t" "trk_current t = Some p" "TryGet as_strings (trk_ctx t) pkey = Some ps" "dec m = Ok x"
    and "t1 = t\<lparr> trk_ctx := at_store (AccumulateMessage (trk_ctx t) bucket from x) (lineageStore r) \<rparr>"
  shows "HandleMessage now sid mt from m r =
    (if length (mput from x (AccumulatedMessages (trk_ctx t) bucket)) < length ps then (Ok False, put_tracker sid t1 r)
     else advance now sid t1 (put_tracker sid t1 r))"
proof -
  have h: "run_hook (OnMessage p mt from m) sid t r = (Ok (), t1, put_tracker sid t1 r)"
    using assms(5) by (simp add: run_hook_def takes [OF assms(4)] store_unchanged Let_def)
  have "TryGet as_strings (trk_ctx t1) pkey = Some ps" using assms(3,5) apart by simp
  then have "CheckComplete p (trk_ctx t1) \<longleftrightarrow> \<not> length (mput from x (AccumulatedMessages (trk_ctx t) bucket)) < length ps"
    using assms(5) by (auto simp: completes quorum_of_def QuorumReached_def MessageCount_eq)
  then show ?thesis using assms(1,2) consumes h by (auto simp: HandleMessage_def)
qed

lemma message:
  assumes "map_of (sessions r) sid = Some t" "trk_current t = Some p" "TryGet as_strings (trk_ctx t) pkey = Some ps"
    and "from \<notin> keys_of (AccumulatedMessages (trk_ctx t) bucket)" "dec m = Ok x"
    and "t1 = t\<lparr> trk_ctx := at_store (AccumulateMessage (trk_ctx t) bucket from x) (lineageStore r) \<rparr>"
  shows "HandleMessage now sid mt from m r =
    (if length (AccumulatedMessages (trk_ctx t) bucket) + 1 < length ps then (Ok False, put_tracker sid t1 r)
     else advance now sid t1 (put_tracker sid t1 r))"
  using message_any [OF assms(1-3,5,6), of now] assms(4) by (simp add: mput_new)

text \<open>Messages from new senders: all but the last are kept, and the last one moves the session on.\<close>

lemma collects:
  assumes "map_of (sessions r) sid = Some t" "trk_current t = Some p" "TryGet as_strings (trk_ctx t) pkey = Some ps"
    and "distinct (map fst ms)" "fst ` set ms \<inter> keys_of (AccumulatedMessages (trk_ctx t) bucket) = {}"
    and "\<forall>(from, m) \<in> set ms. is_ok (dec m)" "ms \<noteq> []"
    and "length (AccumulatedMessages (trk_ctx t) bucket) + length ms = length ps"
    and "t1 = t\<lparr> trk_ctx := at_store (accumulate_all (trk_ctx t) bucket (taken dec ms)) (lineageStore r) \<rparr>"
  shows "run_all (\<lambda>(from, m). HandleMessage (clock from) sid mt from m) ms r =
    (let (res, r') = advance (clock (fst (last ms))) sid t1 (put_tracker sid t1 r) in (replicate (length ms - 1) (Ok False) @ [res], r'))"
  using assms
proof (induction ms arbitrary: t r)
  case (Cons x ms)
  obtain f m y where x: "x = (f, m)" "dec m = Ok y" using Cons.prems(6) by (cases x) (auto simp: is_ok_iff)
  let ?t = "t\<lparr> trk_ctx := at_store (AccumulateMessage (trk_ctx t) bucket f y) (lineageStore r) \<rparr>" and ?r = "put_tracker sid
    (t\<lparr> trk_ctx := at_store (AccumulateMessage (trk_ctx t) bucket f y) (lineageStore r) \<rparr>) r"
  have f: "f \<notin> keys_of (AccumulatedMessages (trk_ctx t) bucket)" using Cons.prems(5) x by auto
  note step = message [OF Cons.prems(1-3) f x(2) refl, of "clock f"]
  show ?case
  proof (cases "ms = []")
    case True
    then show ?thesis using step Cons.prems(8,9) x by (simp add: taken_def split: prod.split)
  next
    case False
    have acc: "AccumulatedMessages (trk_ctx ?t) bucket = AccumulatedMessages (trk_ctx t) bucket @ [(f, y)]"
      using f by (simp add: mput_new)
    have h: "HandleMessage (clock f) sid mt f m r = (Ok False, ?r)"
      using step Cons.prems(8) False by (cases ms) auto
    have disj: "fst ` set ms \<inter> keys_of (AccumulatedMessages (trk_ctx ?t) bucket) = {}"
      using Cons.prems(4,5) x unfolding acc by (auto simp: image_iff)
    have "run_all (\<lambda>(from, m). HandleMessage (clock from) sid mt from m) ms ?r =
      (let (res, r') = advance (clock (fst (last ms))) sid t1 (put_tracker sid t1 r) in (replicate (length ms - 1) (Ok False) @ [res], r'))"
      using Cons.IH [OF _ _ _ _ disj _ False, of ?r] Cons.prems apart x acc by (simp add: taken_def)
    then show ?thesis using h False x by (cases ms) (simp_all add: Let_def split: prod.split)
  qed
qed simp

end

section \<open>Passing through phases\<close>

definition signs_ok :: "'v session_runner \<Rightarrow> bool" where
  "signs_ok r \<longleftrightarrow> lineageStore r = None \<or> (\<exists>sg. lineageSigner r = Some sg \<and> (\<forall>m. is_ok (sg_Sign sg m)))"

definition same_setup :: "'v session_runner \<Rightarrow> 'v session_runner \<Rightarrow> bool" where
  "same_setup r r' \<longleftrightarrow> phases r' = phases r \<and> byEntryState r' = byEntryState r \<and> lineageSigner r' = lineageSigner r \<and>
     (lineageStore r' = None \<longleftrightarrow> lineageStore r = None)"

lemma same_setup_trans [trans]: "same_setup r1 r2 \<Longrightarrow> same_setup r2 r3 \<Longrightarrow> same_setup r1 r3"
  by (simp add: same_setup_def)

lemma same_setup_put [simp]:
  "same_setup r (put_tracker sid t r)" "same_setup r r"
  "same_setup r (put_tracker sid t (r\<lparr> lineageStore := st \<rparr>)) \<longleftrightarrow> (st = None \<longleftrightarrow> lineageStore r = None)"
  by (simp_all add: same_setup_def put_tracker_def)

lemma signs_ok_same: "same_setup r r' \<Longrightarrow> signs_ok r \<Longrightarrow> signs_ok r'"
  by (auto simp: same_setup_def signs_ok_def)

lemma commit_outputs_ok:
  assumes "\<forall>m. is_ok (sg_Sign sg m)"
  shows "fst (commit_outputs now pn (Some sg) parents c prov st) = Ok ()"
proof (induction prov arbitrary: st)
  case (Cons x prov)
  obtain key kt where x: "x = (key, kt)" by fastforce
  have app: "fst (store_Append s n) = None \<or> fst (store_Append s n) = Some ErrNodeExists" for s n
    by (simp add: store_Append_def split: option.split)
  show ?case
  proof (cases "NoLineage kt \<or> ctx_Get c key = None \<or> (\<exists>raw. ctx_Get c key = Some raw \<and> as_bytes raw = None)")
    case True
    then show ?thesis using Cons.IH by (auto simp: x)
  next
    case False
    then obtain raw payload where r: "\<not> NoLineage kt" "ctx_Get c key = Some raw" "as_bytes raw = Some payload" by auto
    obtain node where "Commit now (SessionID c) pn key payload parents (Some sg) = Ok node" using Commit_total [OF assms] by blast
    then show ?thesis using r Cons.IH app [of st node] by (cases "store_Append st node") (auto simp: x)
  qed
qed simp

lemma commit_phase_ok:
  assumes "signs_ok r"
  obtains st where "commitPhaseOutputsIfEnabled now p c r = (Ok (), r\<lparr> lineageStore := st \<rparr>)" "st = None \<longleftrightarrow> lineageStore r = None"
proof (cases "lineageStore r")
  case None
  then have "commitPhaseOutputsIfEnabled now p c r = (Ok (), r\<lparr> lineageStore := None \<rparr>)"
    by (simp add: commitPhaseOutputsIfEnabled_def store_unchanged)
  then show ?thesis using that None by blast
next
  case (Some st)
  then obtain sg where sg: "lineageSigner r = Some sg" "\<forall>m. is_ok (sg_Sign sg m)" using assms by (auto simp: signs_ok_def)
  obtain st' where "commit_outputs now (Name p) (Some sg) (resolveParents st p c) c (Provides p) st = (Ok (), st')"
    using commit_outputs_ok [OF sg(2)] by (metis prod.collapse)
  then have "commitPhaseOutputsIfEnabled now p c r = (Ok (), r\<lparr> lineageStore := Some st' \<rparr>)"
    using Some sg(1) by (simp add: commitPhaseOutputsIfEnabled_def)
  then show ?thesis using that [of "Some st'"] Some by simp
qed

text \<open>The session \<open>sid\<close> is in state \<open>s\<close>, in phase \<open>q\<close>, with the values of \<open>c\<close>.\<close>

definition sits :: "string \<Rightarrow> session_state \<Rightarrow> 'v phase option \<Rightarrow> 'v session_context \<Rightarrow> 'v session_tracker \<Rightarrow> 'v session_runner \<Rightarrow> bool" where
  "sits sid s q c t r \<longleftrightarrow> map_of (sessions r) sid = Some t \<and> trk_state t = s \<and> trk_current t = q \<and> (\<exists>st. trk_ctx t = at_store c st)"

lemma sits_run_hook:
  assumes "sits sid s q c t r" "store_blind h" "h c = (Ok (), c')"
  obtains t' where "run_hook h sid t r = (Ok (), t', put_tracker sid t' r)" "t' = t\<lparr> trk_ctx := at_store c' (lineageStore r) \<rparr>"
proof -
  obtain st where st: "trk_ctx t = at_store c st" using assms(1) by (auto simp: sits_def)
  have "h (at_store c (lineageStore r)) = (Ok (), at_store c' (lineageStore r))" by (rule store_blindD [OF assms(2,3)])
  then show ?thesis using that st by (simp add: run_hook_def store_unchanged Let_def)
qed

lemma exit_phase_ok:
  assumes "sits sid s q c t r" "signs_ok r" "store_blind (Exit p)" "Exit p c = (Ok (), c')"
  obtains t' r' where "exit_phase lbl now sid p t r = (Ok (), t', r')" "sits sid s q c' t' r'" "same_setup r r'"
proof -
  obtain t' where h: "run_hook (Exit p) sid t r = (Ok (), t', put_tracker sid t' r)" "t' = t\<lparr> trk_ctx := at_store c' (lineageStore r) \<rparr>"
    using sits_run_hook [OF assms(1,3,4)] by blast
  have "signs_ok (put_tracker sid t' r)" using assms(2) signs_ok_same same_setup_put(1) by blast
  from commit_phase_ok [OF this, of now p "trk_ctx t'"] obtain st
    where st: "commitPhaseOutputsIfEnabled now p (trk_ctx t') (put_tracker sid t' r) = (Ok (), put_tracker sid t' (r\<lparr> lineageStore := st \<rparr>))"
      "st = None \<longleftrightarrow> lineageStore r = None" by auto
  have "sits sid s q c' t' (put_tracker sid t' (r\<lparr> lineageStore := st \<rparr>))" using assms(1) h(2) by (auto simp: sits_def)
  then show ?thesis using that h(1) st by (simp add: exit_phase_def)
qed

lemma enter_phase_ok:
  assumes "sits sid s p c t r" "store_blind (Enter q)" "Enter q c = (Ok (), c')"
  obtains t' r' where "enter_phase lbl sid s' q t r = (Ok (), t', r')" "sits sid s' (Some q) c' t' r'" "same_setup r r'"
proof -
  let ?t = "t\<lparr> trk_state := s', trk_current := Some q, trk_entered := False \<rparr>"
  have "sits sid s' (Some q) c ?t (put_tracker sid ?t r)" using assms(1) by (auto simp: sits_def)
  from sits_run_hook [OF this assms(2,3)] obtain t'
    where h: "run_hook (Enter q) sid ?t (put_tracker sid ?t r) = (Ok (), t', put_tracker sid t' r)"
      "t' = ?t\<lparr> trk_ctx := at_store c' (lineageStore r) \<rparr>" by auto
  let ?t' = "t'\<lparr> trk_entered := True \<rparr>"
  have "enter_phase lbl sid s' q t r = (Ok (), ?t', put_tracker sid ?t' r)" using h(1) by (simp add: enter_phase_def Let_def)
  moreover have "sits sid s' (Some q) c' ?t' (put_tracker sid ?t' r)" using h(2) by (auto simp: sits_def)
  ultimately show ?thesis using that by simp
qed

text \<open>One hop of the cascade, and its end.\<close>

lemma advance_hop:
  assumes "sits sid s (Some p) c t r" "signs_ok r" "store_blind (Exit p)" "Exit p c = (Ok (), c1)"
    and "ExitState p \<noteq> StateNone" "map_of (byEntryState r) (ExitState p) = Some q" "store_blind (Enter q)" "Enter q c1 = (Ok (), c2)"
    and "\<And>st. CheckComplete q (at_store c2 st) = CheckComplete q c2"
  obtains t' r' where "sits sid (ExitState p) (Some q) c2 t' r'" "same_setup r r'"
    "advance_loop (Suc n) now sid t r =
       (if ConsumedMessageTypes q \<noteq> [] \<or> \<not> CheckComplete q c2 then (Ok True, r') else advance_loop n now sid t' r')"
proof -
  obtain t1 r1 where e: "exit_phase [] now sid p t r = (Ok (), t1, r1)" "sits sid s (Some p) c1 t1 r1" "same_setup r r1"
    using exit_phase_ok [OF assms(1-4)] by blast
  obtain t2 r2 where n: "enter_phase [] sid (ExitState p) q t1 r1 = (Ok (), t2, r2)" "sits sid (ExitState p) (Some q) c2 t2 r2" "same_setup r1 r2"
    using enter_phase_ok [OF e(2) assms(7,8)] by blast
  have "trk_current t = Some p" "map_of (byEntryState r1) (ExitState p) = Some q" "CheckComplete q (trk_ctx t2) = CheckComplete q c2"
    using assms(1,6,9) e(3) n(2) by (auto simp: sits_def same_setup_def)
  then show ?thesis
    using that [OF n(2) same_setup_trans [OF e(3) n(3)]] e(1) n(1) assms(5) by auto
qed

lemma advance_end:
  assumes "sits sid s (Some p) c t r" "signs_ok r" "store_blind (Exit p)" "Exit p c = (Ok (), c1)" "ExitState p = StateNone"
  obtains t' r' where "advance_loop (Suc n) now sid t r = (Ok True, r')" "sits sid StateNone None c1 t' r'" "same_setup r r'"
proof -
  obtain t1 r1 where e: "exit_phase [] now sid p t r = (Ok (), t1, r1)" "sits sid s (Some p) c1 t1 r1" "same_setup r r1"
    using exit_phase_ok [OF assms(1-4)] by blast
  let ?t = "t1\<lparr> trk_state := StateNone, trk_current := None \<rparr>"
  have "advance_loop (Suc n) now sid t r = (Ok True, put_tracker sid ?t r1)" using e(1) assms(1,5) by (simp add: sits_def)
  moreover have "sits sid StateNone None c1 ?t (put_tracker sid ?t r1)" using e(2) by (auto simp: sits_def)
  ultimately show ?thesis using that same_setup_trans [OF e(3) same_setup_put(1)] by blast
qed

lemma advance_to_hop:
  assumes "sits sid s (Some p) c t r" "signs_ok r" "s \<noteq> target" "store_blind (Exit p)" "Exit p c = (Ok (), c1)"
    and "ExitState p \<noteq> StateNone" "map_of (byEntryState r) (ExitState p) = Some q" "store_blind (Enter q)" "Enter q c1 = (Ok (), c2)"
  obtains t' r' where "sits sid (ExitState p) (Some q) c2 t' r'" "same_setup r r'"
    "advance_to (Suc n) now sid target t r = advance_to n now sid target t' r'"
proof -
  obtain t1 r1 where e: "exit_phase '' during AdvanceToState'' now sid p t r = (Ok (), t1, r1)" "sits sid s (Some p) c1 t1 r1" "same_setup r r1"
    using exit_phase_ok [OF assms(1,2,4,5)] by blast
  obtain t2 r2 where n: "enter_phase '' during AdvanceToState'' sid (ExitState p) q t1 r1 = (Ok (), t2, r2)"
      "sits sid (ExitState p) (Some q) c2 t2 r2" "same_setup r1 r2"
    using enter_phase_ok [OF e(2) assms(8,9)] by blast
  have "trk_current t = Some p" "trk_state t = s" "map_of (byEntryState r1) (ExitState p) = Some q"
    using assms(1,7) e(3) by (auto simp: sits_def same_setup_def)
  then show ?thesis
    using that [OF n(2) same_setup_trans [OF e(3) n(3)]] e(1) n(1) assms(3,6) by auto
qed

lemma advance_to_here: "sits sid target q c t r \<Longrightarrow> advance_to (Suc n) now sid target t r = (Ok (), r)"
  by (simp add: sits_def)

section \<open>Starting a session\<close>

text \<open>The test of a pipeline, phase by phase.\<close>

fun ok_from :: "'v phase list \<Rightarrow> 'v phase list \<Rightarrow> bool" where
  "ok_from pre [] = True"
| "ok_from pre (p # ps) = (phase_ok pre p \<and> ok_from (pre @ [p]) ps)"

lemma ok_from_iff: "ok_from pre ps \<longleftrightarrow> (\<forall>i < length ps. phase_ok (pre @ take i ps) (ps ! i))"
  by (induction pre ps rule: ok_from.induct) (auto simp: less_Suc_eq_0_disj)

lemma pipeline_ok_from: "pipeline_ok ps \<longleftrightarrow> ps \<noteq> [] \<and> ok_from [] ps"
  by (simp add: pipeline_ok_def ok_from_iff)

lemmas pipeline_simps = pipeline_ok_from phase_ok_def state_defs key_defs latest_provider_def requirement_met_def constraint_met_def inlines_def

definition entries_of :: "'v phase list \<Rightarrow> (session_state \<times> 'v phase) list" where
  "entries_of ps = map (\<lambda>p. (EntryState p, p)) ps"

text \<open>A fresh runner over \<open>ps\<close>, in which signing works if there is a lineage store.\<close>

definition fresh_runner :: "'v phase list \<Rightarrow> 'v session_runner \<Rightarrow> bool" where
  "fresh_runner ps r \<longleftrightarrow> phases r = ps \<and> byEntryState r = entries_of ps \<and> initialState r = EntryState (hd ps) \<and> sessions r = [] \<and> signs_ok r"

lemma fresh_Compose:
  assumes "pipeline_ok ps" "inlines ps = ps" "Compose ps = Ok r" shows "fresh_runner ps r"
proof -
  have "ps \<noteq> []" using assms(1) by (simp add: pipeline_ok_def)
  then show ?thesis using assms by (simp add: Compose_Ok_iff fresh_runner_def entries_of_def signs_ok_def)
qed

lemma fresh_ComposeWith:
  assumes "pipeline_ok ps" "inlines ps = ps" "ComposeWith ps [WithSigner sg, WithPeerVerifiers vs, WithStore NewInMemoryStore] = Ok r"
    and "\<forall>m. is_ok (sg_Sign sg m)"
  shows "fresh_runner ps r"
proof -
  have o: "apply_options [WithSigner sg, WithPeerVerifiers vs, WithStore NewInMemoryStore] =
      \<lparr> opt_store = Some NewInMemoryStore, opt_signer = Some sg, opt_peerVerifiers = vs, opt_failureHook = None \<rparr>"
    by (simp add: apply_options_def WithSigner_def WithPeerVerifiers_def WithStore_def)
  obtain r0 where r0: "Compose ps = Ok r0"
    using assms(1) Compose_accepts by (metis is_ok_iff)
  from fresh_Compose [OF assms(1,2) r0] show ?thesis
    using assms(3,4) r0 by (auto simp: ComposeWith_def o Let_def attachLineage_def fresh_runner_def signs_ok_def split: if_splits)
qed

text \<open>A runner over \<open>ps\<close> in which there is no session \<open>sid\<close> yet.\<close>

definition idle_runner :: "'v phase list \<Rightarrow> string \<Rightarrow> 'v session_runner \<Rightarrow> bool" where
  "idle_runner ps sid r \<longleftrightarrow> phases r = ps \<and> byEntryState r = entries_of ps \<and> initialState r = EntryState (hd ps) \<and>
     map_of (sessions r) sid = None \<and> signs_ok r"

lemma fresh_idle: "fresh_runner ps r \<Longrightarrow> idle_runner ps sid r"
  by (simp add: fresh_runner_def idle_runner_def)

lemma begin_sits:
  assumes "idle_runner (p # ps) sid r" "sid \<noteq> []" "Enter p = skip_hook"
  obtains t r' where "BeginSession sid coh r = (Ok (), r')" "sits sid (EntryState p) (Some p) ((NewSessionContext sid)\<lparr> CohortID := coh, ctx_lineageSigner := lineageSigner r \<rparr>) t r'"
    "same_setup r r'"
proof -
  let ?c = "(NewSessionContext sid)\<lparr> CohortID := coh, ctx_lineageStore := lineageStore r, ctx_lineageSigner := lineageSigner r \<rparr>"
  let ?t = "\<lparr> trk_ctx = ?c, trk_state = EntryState p, trk_current = Some p, trk_entered = True \<rparr>"
  have "BeginSession sid coh r = (Ok (), put_tracker sid ?t r)"
    using assms by (simp add: BeginSession_def NewSessionContext_def idle_runner_def entries_of_def run_hook_def skip_hook_def store_unchanged Let_def)
  moreover have "sits sid (EntryState p) (Some p) ((NewSessionContext sid)\<lparr> CohortID := coh, ctx_lineageSigner := lineageSigner r \<rparr>) ?t (put_tracker sid ?t r)"
    by (auto simp: sits_def NewSessionContext_def intro!: exI [of _ "lineageStore r"])
  ultimately show ?thesis using that by simp
qed

lemma seed_sits:
  assumes "sits sid s q c t r"
  obtains t' where "sits sid s q (ctx_Set c k v) t' (seed_context sid k v r)" "same_setup r (seed_context sid k v r)"
proof -
  obtain st where st: "map_of (sessions r) sid = Some t" "trk_state t = s" "trk_current t = q" "trk_ctx t = at_store c st"
    using assms by (auto simp: sits_def)
  let ?t = "t\<lparr> trk_ctx := ctx_Set (trk_ctx t) k v \<rparr>"
  have r: "seed_context sid k v r = put_tracker sid ?t r" using st(1) by (simp add: seed_context_def)
  have "trk_ctx ?t = at_store (ctx_Set c k v) st" using st(4) by simp
  then have "sits sid s q (ctx_Set c k v) ?t (seed_context sid k v r)" unfolding r sits_def using st(2,3) by auto
  then show ?thesis using that r by simp
qed

section \<open>Stages of a session\<close>

text \<open>A runner over \<open>ps\<close>, and the session \<open>sid\<close> of it in phase \<open>q\<close> with the values of \<open>c\<close>.\<close>

definition runs :: "'v phase list \<Rightarrow> 'v session_runner \<Rightarrow> bool" where
  "runs ps r \<longleftrightarrow> phases r = ps \<and> byEntryState r = entries_of ps \<and> signs_ok r"

definition stage :: "'v phase list \<Rightarrow> string \<Rightarrow> session_state \<Rightarrow> 'v phase option \<Rightarrow> 'v session_context \<Rightarrow> 'v session_tracker \<Rightarrow> 'v session_runner \<Rightarrow> bool" where
  "stage ps sid s q c t r \<longleftrightarrow> runs ps r \<and> sits sid s q c t r"

lemma runs_same: "same_setup r r' \<Longrightarrow> runs ps r \<Longrightarrow> runs ps r'"
  using signs_ok_same [of r r'] by (simp add: runs_def) (simp add: same_setup_def)

lemma stage_begin:
  assumes "idle_runner (p # ps) sid r" "sid \<noteq> []" "Enter p = skip_hook"
  shows "\<exists>t r'. BeginSession sid coh r = (Ok (), r') \<and>
    stage (p # ps) sid (EntryState p) (Some p) ((NewSessionContext sid)\<lparr> CohortID := coh, ctx_lineageSigner := lineageSigner r \<rparr>) t r'"
proof -
  have "runs (p # ps) r" using assms(1) by (simp add: runs_def idle_runner_def)
  then show ?thesis using begin_sits [OF assms] runs_same unfolding stage_def by metis
qed

lemma stage_seed: "stage ps sid s q c t r \<Longrightarrow> \<exists>t'. stage ps sid s q (ctx_Set c k v) t' (seed_context sid k v r)"
  using seed_sits runs_same unfolding stage_def by metis

lemma stage_seed_attrs:
  assumes "stage ps sid s q c t r" "distinct (map fst attrs)"
  shows "\<exists>t' c'. stage ps sid s q c' t' (seed_attrs sid attrs r) \<and> (\<forall>k. ctx_Get c' k = (case map_of attrs k of Some v \<Rightarrow> Some v | None \<Rightarrow> ctx_Get c k))"
  using assms
proof (induction attrs arbitrary: c t r)
  case (Cons x attrs)
  obtain k v where x: "x = (k, v)" by fastforce
  obtain t1 where t1: "stage ps sid s q (ctx_Set c k v) t1 (seed_context sid k v r)" using stage_seed [OF Cons.prems(1)] by blast
  obtain t' c' where c': "stage ps sid s q c' t' (seed_attrs sid attrs (seed_context sid k v r))"
    "\<forall>k'. ctx_Get c' k' = (case map_of attrs k' of Some v \<Rightarrow> Some v | None \<Rightarrow> ctx_Get (ctx_Set c k v) k')"
    using Cons.IH [OF t1] Cons.prems(2) by auto
  have new: "map_of attrs k = None" using Cons.prems(2) by (simp add: x map_of_eq_None_iff)
  have "seed_attrs sid (x # attrs) r = seed_attrs sid attrs (seed_context sid k v r)" by (simp add: seed_attrs_def x)
  moreover have "\<forall>k'. ctx_Get c' k' = (case map_of (x # attrs) k' of Some v \<Rightarrow> Some v | None \<Rightarrow> ctx_Get c k')"
    using c'(2) new by (simp add: x split: option.split)
  ultimately show ?case using c'(1) by metis
qed (auto simp: seed_attrs_def)

lemma stage_hop:
  assumes "stage ps sid s (Some p) c t r" "map_of (entries_of ps) (ExitState p) = Some q" "ExitState p \<noteq> StateNone"
    and "store_blind (Exit p)" "Exit p c = (Ok (), c1)" "store_blind (Enter q)" "Enter q c1 = (Ok (), c2)"
    and "\<And>st. CheckComplete q (at_store c2 st) = CheckComplete q c2"
  shows "\<exists>t' r'. stage ps sid (ExitState p) (Some q) c2 t' r' \<and>
    advance_loop (Suc n) now sid t r =
      (if ConsumedMessageTypes q \<noteq> [] \<or> \<not> CheckComplete q c2 then (Ok True, r') else advance_loop n now sid t' r')"
proof -
  have r: "sits sid s (Some p) c t r" "signs_ok r" "map_of (byEntryState r) (ExitState p) = Some q" "runs ps r"
    using assms(1,2) by (simp_all add: stage_def runs_def)
  obtain t' r' where "sits sid (ExitState p) (Some q) c2 t' r'" "same_setup r r'"
    "advance_loop (Suc n) now sid t r =
       (if ConsumedMessageTypes q \<noteq> [] \<or> \<not> CheckComplete q c2 then (Ok True, r') else advance_loop n now sid t' r')"
    using advance_hop [OF r(1,2) assms(4,5,3) r(3) assms(6-8)] by blast
  then show ?thesis using runs_same [OF _ r(4)] unfolding stage_def by blast
qed

text \<open>An exit hook that fails: the session stays where it is, with what the hook has written.\<close>

lemma stage_exit_fails:
  assumes "stage ps sid s (Some p) c t r" "store_blind (Exit p)" "Exit p c = (Err e, c1)"
  shows "\<exists>t' r'. advance_loop (Suc n) now sid t r = (Err (Note ''Exit'' (Name p) e), r') \<and> stage ps sid s (Some p) c1 t' r'"
proof -
  obtain st where t: "map_of (sessions r) sid = Some t" "trk_state t = s" "trk_current t = Some p" "trk_ctx t = at_store c st" "runs ps r"
    using assms(1) by (auto simp: stage_def sits_def)
  let ?t = "t\<lparr> trk_ctx := at_store c1 (lineageStore r) \<rparr>"
  have "run_hook (Exit p) sid t r = (Err e, ?t, put_tracker sid ?t r)"
    using store_blindD [OF assms(2,3), of "lineageStore r"] t(4) by (simp add: run_hook_def store_unchanged Let_def)
  then have "advance_loop (Suc n) now sid t r = (Err (Note ''Exit'' (Name p) e), put_tracker sid ?t r)"
    using t(3) by (simp add: exit_phase_def)
  moreover have "stage ps sid s (Some p) c1 ?t (put_tracker sid ?t r)"
    using t runs_same [OF same_setup_put(1) t(5)] by (auto simp: stage_def sits_def)
  ultimately show ?thesis by blast
qed

lemma stage_end:
  assumes "stage ps sid s (Some p) c t r" "ExitState p = StateNone" "store_blind (Exit p)" "Exit p c = (Ok (), c1)"
  shows "\<exists>t' r'. advance_loop (Suc n) now sid t r = (Ok True, r') \<and> stage ps sid StateNone None c1 t' r'"
proof -
  have r: "sits sid s (Some p) c t r" "signs_ok r" "runs ps r" using assms(1) by (simp_all add: stage_def runs_def)
  show ?thesis using advance_end [OF r(1,2) assms(3,4,2)] runs_same [OF _ r(3)] unfolding stage_def by metis
qed

lemma stage_to_hop:
  assumes "stage ps sid s (Some p) c t r" "s \<noteq> target" "map_of (entries_of ps) (ExitState p) = Some q" "ExitState p \<noteq> StateNone"
    and "store_blind (Exit p)" "Exit p c = (Ok (), c1)" "store_blind (Enter q)" "Enter q c1 = (Ok (), c2)"
  shows "\<exists>t' r'. stage ps sid (ExitState p) (Some q) c2 t' r' \<and> advance_to (Suc n) now sid target t r = advance_to n now sid target t' r'"
proof -
  have r: "sits sid s (Some p) c t r" "signs_ok r" "map_of (byEntryState r) (ExitState p) = Some q" "runs ps r"
    using assms(1,3) by (simp_all add: stage_def runs_def)
  show ?thesis using advance_to_hop [OF r(1,2) assms(2,5,6,4) r(3) assms(7,8)] runs_same [OF _ r(4)] unfolding stage_def by metis
qed

lemma stage_to_here: "stage ps sid target q c t r \<Longrightarrow> advance_to (Suc n) now sid target t r = (Ok (), r)"
  unfolding stage_def using advance_to_here by blast

lemma stage_to_start:
  assumes "stage ps sid s (Some p) c t r" "s \<noteq> target" "target \<notin> set (InternalStates p)"
  shows "AdvanceToState now sid target r = advance_to (length ps + 1) now sid target t r"
  using assms by (simp add: AdvanceToState_def stage_def runs_def sits_def)

lemma stage_ctx: "stage ps sid s q c t r \<Longrightarrow> CurrentState r sid = (s, True) \<and> (\<exists>c'. session_context_of r sid = Some c' \<and> (\<forall>k. ctx_Get c' k = ctx_Get c k))"
  by (auto simp: stage_def sits_def CurrentState_def session_context_of_def)

context collecting
begin

text \<open>A message from anyone, a sender that has sent before included, at any time.\<close>

lemma stage_message:
  assumes "stage phs sid s (Some p) c t r" "ctx_Get c pkey = Some (VStrings ps)" "dec m = Ok x"
  shows "\<exists>t1 r1. stage phs sid s (Some p) (AccumulateMessage c bucket sender x) t1 r1 \<and>
    HandleMessage now sid mt sender m r =
      (if length (mput sender x (AccumulatedMessages c bucket)) < length ps then (Ok False, r1) else advance now sid t1 r1)"
proof -
  obtain st where t: "map_of (sessions r) sid = Some t" "trk_state t = s" "trk_current t = Some p" "trk_ctx t = at_store c st" "runs phs r"
    using assms(1) by (auto simp: stage_def sits_def)
  let ?t = "t\<lparr> trk_ctx := at_store (AccumulateMessage (trk_ctx t) bucket sender x) (lineageStore r) \<rparr>"
  have raw: "AccumulatedMessages (trk_ctx t) bucket = AccumulatedMessages c bucket" and pk: "TryGet as_strings (trk_ctx t) pkey = Some ps"
    using assms(2) t(4) by (simp_all add: AccumulatedMessages_def TryGet_def)
  have "stage phs sid s (Some p) (AccumulateMessage c bucket sender x) ?t (put_tracker sid ?t r)"
    using t runs_same [OF same_setup_put(1) t(5)] by (auto simp: stage_def sits_def)
  then show ?thesis using message_any [OF t(1,3) pk assms(3) refl, of now sender] unfolding raw by blast
qed

lemma stage_collects:
  assumes "stage phs sid s (Some p) c t r" "ctx_Get c pkey = Some (VStrings ps)" "ctx_Get c bucket = None"
    and "distinct (map fst ms)" "\<forall>(from, m) \<in> set ms. is_ok (dec m)" "ms \<noteq> []" "length ms = length ps"
  shows "\<exists>t1 r1. stage phs sid s (Some p) (accumulate_all c bucket (taken dec ms)) t1 r1 \<and>
    run_all (\<lambda>(from, m). HandleMessage (clock from) sid mt from m) ms r =
      (let (res, r') = advance (clock (fst (last ms))) sid t1 r1 in (replicate (length ms - 1) (Ok False) @ [res], r'))"
proof -
  obtain st where t: "map_of (sessions r) sid = Some t" "trk_state t = s" "trk_current t = Some p" "trk_ctx t = at_store c st" "runs phs r"
    using assms(1) by (auto simp: stage_def sits_def)
  let ?t = "t\<lparr> trk_ctx := at_store (accumulate_all (trk_ctx t) bucket (taken dec ms)) (lineageStore r) \<rparr>"
  have raw: "AccumulatedMessages (trk_ctx t) bucket = []" and pk: "TryGet as_strings (trk_ctx t) pkey = Some ps"
    using assms(2,3) t(4) by (simp_all add: AccumulatedMessages_def TryGet_def)
  have "stage phs sid s (Some p) (accumulate_all c bucket (taken dec ms)) ?t (put_tracker sid ?t r)"
    using t runs_same [OF same_setup_put(1) t(5)] by (auto simp: stage_def sits_def)
  then show ?thesis using collects [OF t(1,3) pk assms(4) _ assms(5,6) _ refl, of clock] raw assms(7) by fastforce
qed

end

end
