(* ===== verification/Voting.thy ===== *)
theory Voting
  imports App_Base Helper_Wire
begin

text \<open>
  \<^verbatim>\<open>examples/voting\<close>: weighted ballots, their tally and the published transcript, as phases of the framework; the three pipelines; and the
  trigger and the onion relay of its session service. Reading a ballot and an onion batch from JSON, and the order in which the runtime
  iterates over a map, are parameters (\<open>vote_env\<close>, \<open>relay_env\<close>); the text of the transcript is written out.
\<close>

section \<open>Ballots and tallies\<close>

definition CtxVoteParticipants :: string where "CtxVoteParticipants = ''vote.participants''"
definition CtxVoteBallots :: string where "CtxVoteBallots = ''vote.ballots''"
definition CtxVoteTally :: string where "CtxVoteTally = ''vote.tally''"
definition CtxVoteTranscript :: string where "CtxVoteTranscript = ''vote.transcript''"
definition bucketBallots :: string where "bucketBallots = ''vote.bucket.ballots''"

lemmas vote_names = CtxVoteParticipants_def CtxVoteBallots_def CtxVoteTally_def CtxVoteTranscript_def bucketBallots_def

record ballot =
  bl_Voter :: string
  bl_Choice :: int
  bl_Weight :: f64

record tally =
  ty_Totals :: "(int \<times> f64) list"
  ty_TotalBallots :: int
  ty_WinnerChoice :: int
  ty_WinnerWeight :: f64

text \<open>The application's own types in a session context.\<close>

datatype vote_value = BallotMap "(string \<times> ballot) list" | TallyValue tally

fun as_ballots :: "vote_value any \<Rightarrow> (string \<times> ballot) list option" where
  "as_ballots (VApp (BallotMap m)) = Some m"
| "as_ballots _ = None"

fun as_tally :: "vote_value any \<Rightarrow> tally option" where
  "as_tally (VApp (TallyValue t)) = Some t"
| "as_tally _ = None"

record vote_env =
  vn_decode :: "bytes \<Rightarrow> (string, int \<times> f64) outcome"
  vn_payloads :: "(string \<times> bytes) list \<Rightarrow> (string \<times> bytes) list"
  vn_ballots :: "(string \<times> ballot) list \<Rightarrow> (string \<times> ballot) list"

definition vote_env_ok :: "vote_env \<Rightarrow> bool" where
  "vote_env_ok E \<longleftrightarrow> (\<forall>m. mset (vn_payloads E m) = mset m) \<and> (\<forall>m. mset (vn_ballots E m) = mset m) \<and> (\<forall>m x. vn_decode E m \<noteq> Panic x)"

section \<open>The phases\<close>

definition vote_PhaseInvite :: "vote_value phase" where
  "vote_PhaseInvite =
     \<lparr> Name = ''vote-invitation'', Lifetime = LifetimePerSession, RunsAt = RunsAtInline,
       EntryState = StateInviting, ExitState = StateLocked, InternalStates = [], ConsumedMessageTypes = [], Requires = [],
       Provides = [(CtxVoteParticipants, ktype ''[]string'' False []), (CtxParticipants, ktype ''[]string'' False []),
                   (CtxAnonParticipants, ktype ''[]string'' False [])],
       Enter = skip_hook, OnMessage = skip_message, CheckComplete = (\<lambda>_. True), Exit = skip_hook \<rparr>"

definition submit_OnMessage :: "string \<Rightarrow> string \<Rightarrow> bytes \<Rightarrow> vote_value hook" where
  "submit_OnMessage msgType from payload ctx = (Ok (), AccumulateMessage ctx bucketBallots from payload)"

definition submit_CheckComplete :: "vote_value session_context \<Rightarrow> bool" where
  "submit_CheckComplete = quorum_of CtxVoteParticipants bucketBallots"

definition read_ballot :: "string \<Rightarrow> int \<times> f64 \<Rightarrow> ballot" where
  "read_ballot voter b = \<lparr> bl_Voter = voter, bl_Choice = fst b, bl_Weight = (if f_le (snd b) (Fin 0) then Fin 1 else snd b) \<rparr>"

fun parse_ballots :: "vote_env \<Rightarrow> (string \<times> bytes) list \<Rightarrow> (string \<times> ballot) list \<Rightarrow> (err, (string \<times> ballot) list) outcome" where
  "parse_ballots E [] parsed = Ok parsed"
| "parse_ballots E ((voter, payload) # raw) parsed =
     (case vn_decode E payload of
        Err e \<Rightarrow> Err (Note ''PhaseSubmitVote: decode ballot from'' voter (Msg e []))
      | Panic p \<Rightarrow> Panic p
      | Ok b \<Rightarrow> parse_ballots E raw (mput voter (read_ballot voter b) parsed))"

definition submit_Exit :: "vote_env \<Rightarrow> vote_value hook" where
  "submit_Exit E ctx =
     (case parse_ballots E (vn_payloads E (AccumulatedMessages ctx bucketBallots)) [] of
        Err e \<Rightarrow> (Err e, ctx)
      | Panic p \<Rightarrow> (Panic p, ctx)
      | Ok parsed \<Rightarrow> (Ok (), ctx_Set ctx CtxVoteBallots (VApp (BallotMap parsed))))"

definition vote_PhaseSubmitVoteAt :: "vote_env \<Rightarrow> session_state \<Rightarrow> vote_value phase" where
  "vote_PhaseSubmitVoteAt E entry =
     \<lparr> Name = ''vote-submit'', Lifetime = LifetimePerSession, RunsAt = RunsAtInline,
       EntryState = entry, ExitState = StateScoring, InternalStates = [], ConsumedMessageTypes = [''vote.ballot''],
       Requires = [(CtxVoteParticipants, ktype ''[]string'' True [])],
       Provides = [(CtxVoteBallots, ktype ''map[string]Ballot'' False [])],
       Enter = skip_hook, OnMessage = submit_OnMessage, CheckComplete = submit_CheckComplete, Exit = submit_Exit E \<rparr>"

definition vote_PhaseSubmitVote :: "vote_env \<Rightarrow> vote_value phase" where
  "vote_PhaseSubmitVote E = vote_PhaseSubmitVoteAt E StateGossip"

text \<open>A missing entry of a Go map of floats reads as 0.\<close>

definition total_of :: "(int \<times> f64) list \<Rightarrow> int \<Rightarrow> f64" where
  "total_of totals c = (case map_of totals c of None \<Rightarrow> Fin 0 | Some w \<Rightarrow> w)"

definition add_ballot :: "ballot \<Rightarrow> (int \<times> f64) list \<Rightarrow> (int \<times> f64) list" where
  "add_ballot b totals = mput (bl_Choice b) (f_add (total_of totals (bl_Choice b)) (bl_Weight b)) totals"

definition count_ballots :: "ballot list \<Rightarrow> (int \<times> f64) list" where
  "count_ballots bs = fold add_ballot bs []"

definition pick_winner :: "(int \<times> f64) list \<Rightarrow> int \<Rightarrow> int list \<Rightarrow> int" where
  "pick_winner totals first rest =
     fold (\<lambda>c winner. if f_lt (total_of totals winner) (total_of totals c) then c else winner) rest first"

definition tally_Enter :: "vote_env \<Rightarrow> vote_value hook" where
  "tally_Enter E ctx =
     (case MustGet as_ballots ctx CtxVoteBallots of
        Err e \<Rightarrow> (Err e, ctx)
      | Panic p \<Rightarrow> (Panic p, ctx)
      | Ok ballots \<Rightarrow>
          (let totals = count_ballots (map snd (vn_ballots E ballots)) in
           case sort (map fst totals) of
             [] \<Rightarrow> (Panic ''runtime error: index out of range [0] with length 0'', ctx)
           | first # rest \<Rightarrow>
               (let winner = pick_winner totals first rest
                in (Ok (), ctx_Set ctx CtxVoteTally (VApp (TallyValue
                      \<lparr> ty_Totals = totals, ty_TotalBallots = int (length ballots), ty_WinnerChoice = winner,
                        ty_WinnerWeight = total_of totals winner \<rparr>))))))"

definition vote_PhaseTally :: "vote_env \<Rightarrow> vote_value phase" where
  "vote_PhaseTally E =
     \<lparr> Name = ''vote-tally'', Lifetime = LifetimePerSession, RunsAt = RunsAtInline,
       EntryState = StateScoring, ExitState = StateDecrypting, InternalStates = [], ConsumedMessageTypes = [],
       Requires = [(CtxVoteBallots, ktype ''map[string]Ballot'' True [])],
       Provides = [(CtxVoteTally, ktype ''Tally'' False [])],
       Enter = tally_Enter E, OnMessage = skip_message, CheckComplete = (\<lambda>_. True), Exit = skip_hook \<rparr>"

subsection \<open>The transcript\<close>

text \<open>
  \<^verbatim>\<open>json.Marshal\<close> on a \<^verbatim>\<open>float64\<close>: the shortest digits, without an exponent between \<^verbatim>\<open>1e-6\<close> and \<^verbatim>\<open>1e21\<close>; infinities and NaN are refused. The
  keys of a map are sorted as strings.
\<close>

definition json_digits :: "rat \<Rightarrow> string \<Rightarrow> int \<Rightarrow> string" where
  "json_digits x ds e =
     (if f_lt (Fin x) (rnd64 (1 / 10 ^ 6)) \<or> x \<ge> 10 ^ 21
      then take 1 ds @ (if length ds > 1 then ''.'' @ tl ds else []) @ ''e'' @ (if e < 0 then ''-'' else ''+'') @ dec_pos \<bar>e\<bar>
      else if e < 0 then ''0.'' @ replicate (nat (- e) - 1) (CHR ''0'') @ ds
      else let k = nat e + 1
           in take k ds @ replicate (k - length ds) (CHR ''0'') @ (if length ds > k then ''.'' @ drop k ds else []))"

fun json_number :: "f64 \<Rightarrow> string option" where
  "json_number (Fin x) =
     (if x = 0 then Some ''0''
      else let (ds, e) = shortest rnd64 \<bar>x\<bar> in Some ((if x < 0 then ''-'' else []) @ json_digits \<bar>x\<bar> ds e))"
| "json_number _ = None"

text \<open>The strings quoted here are field names, digits and hex, so that nothing is escaped.\<close>

definition json_quote :: "string \<Rightarrow> string" where
  "json_quote s = ''\"'' @ s @ ''\"''"

fun json_fields :: "(string \<times> f64) list \<Rightarrow> string list option" where
  "json_fields [] = Some []"
| "json_fields ((k, v) # kvs) =
     (case (json_number v, json_fields kvs) of
        (Some s, Some ss) \<Rightarrow> Some ((json_quote k @ '':'' @ s) # ss)
      | _ \<Rightarrow> None)"

definition marshal_tally :: "tally \<Rightarrow> string option" where
  "marshal_tally t =
     (case (json_fields (sort_key fst (map (\<lambda>(c, w). (dec_int c, w)) (ty_Totals t))), json_number (ty_WinnerWeight t)) of
        (Some entries, Some weight) \<Rightarrow>
          Some (''{'' @ json_quote ''totals'' @ '':{'' @ join_with '','' entries @ ''},'' @
                json_quote ''total_ballots'' @ '':'' @ dec_int (ty_TotalBallots t) @ '','' @
                json_quote ''winner_choice'' @ '':'' @ dec_int (ty_WinnerChoice t) @ '','' @
                json_quote ''winner_weight'' @ '':'' @ weight @ ''}'')
      | _ \<Rightarrow> None)"

definition transcript_of :: "string \<Rightarrow> bytes" where
  "transcript_of body =
     str_bytes (''{'' @ json_quote ''hash'' @ '':'' @ json_quote (hex_encode (sha256 (str_bytes body))) @ '','' @
                json_quote ''tally'' @ '':'' @ body @ ''}'')"

definition settle_Enter :: "vote_value hook" where
  "settle_Enter ctx =
     (case MustGet as_tally ctx CtxVoteTally of
        Err e \<Rightarrow> (Err e, ctx)
      | Panic p \<Rightarrow> (Panic p, ctx)
      | Ok t \<Rightarrow>
          (case marshal_tally t of
             None \<Rightarrow> (Err (Note ''PhaseSettle: marshal tally'' [] (Msg ''json: unsupported value'' [])), ctx)
           | Some body \<Rightarrow> (Ok (), ctx_Set ctx CtxVoteTranscript (VBytes (transcript_of body)))))"

definition vote_PhaseSettle :: "vote_value phase" where
  "vote_PhaseSettle =
     \<lparr> Name = ''vote-settle'', Lifetime = LifetimePerSession, RunsAt = RunsAtInline,
       EntryState = StateDecrypting, ExitState = StateNone, InternalStates = [], ConsumedMessageTypes = [],
       Requires = [(CtxVoteTally, ktype ''Tally'' True [])],
       Provides = [(CtxVoteTranscript, ktype ''[]byte'' False [])],
       Enter = settle_Enter, OnMessage = skip_message, CheckComplete = (\<lambda>_. True), Exit = skip_hook \<rparr>"

section \<open>The pipelines\<close>

definition vote_phases :: "vote_env \<Rightarrow> vote_value phase list" where
  "vote_phases E = [vote_PhaseInvite, PlaintextKeygenPhase, vote_PhaseSubmitVote E, vote_PhaseTally E, vote_PhaseSettle]"

definition vote_Pipeline :: "vote_env \<Rightarrow> (err, vote_value session_runner) outcome" where
  "vote_Pipeline E = Compose (vote_phases E)"

definition vote_PipelineWithLineage :: "vote_env \<Rightarrow> signer \<Rightarrow> verifiers \<Rightarrow> (err, vote_value session_runner) outcome" where
  "vote_PipelineWithLineage E sg vs =
     ComposeWith (vote_phases E) [WithSigner sg, WithPeerVerifiers vs, WithStore NewInMemoryStore]"

definition shuffled_phases :: "vote_env \<Rightarrow> slot_codec \<Rightarrow> int \<Rightarrow> vote_value phase list" where
  "shuffled_phases E cd now =
     [vote_PhaseInvite, PlaintextKeygenPhase, PhaseGShuffle, PhaseGVerify cd now StateSubmitting,
      vote_PhaseSubmitVoteAt E StateSubmitting, vote_PhaseTally E, vote_PhaseSettle]"

definition vote_PipelineWithShuffle ::
  "vote_env \<Rightarrow> slot_codec \<Rightarrow> int \<Rightarrow> signer \<Rightarrow> verifiers \<Rightarrow> (err, vote_value session_runner) outcome" where
  "vote_PipelineWithShuffle E cd now sg vs =
     ComposeWith (shuffled_phases E cd now) [WithSigner sg, WithPeerVerifiers vs, WithStore NewInMemoryStore]"

section \<open>The session service\<close>

definition voting_Start :: "marshal \<Rightarrow> manual_admin_trigger \<Rightarrow> int \<Rightarrow> vote_value trigger" where
  "voting_Start mar mt now ts sessionID participants attrs s =
     (if length participants < 2
      then (Err (Msg ''voting needs at least 2 participants, got'' [dec_nat (length participants)]), s)
      else
        (let canonical = fold (\<lambda>(k, v). mput k v) attrs
               [(CtxVoteParticipants, VStrings participants), (CtxParticipants, VStrings participants),
                (CtxAnonParticipants, VStrings participants)]
         in case manual_Start mar mt ts sessionID participants canonical s of
              (Ok _, s1) \<Rightarrow>
                (let (res, r) = AdvanceToState now sessionID StateGossip (svc_runner s1) in (res, s1\<lparr> svc_runner := r \<rparr>))
            | e \<Rightarrow> e))"

text \<open>Reading and writing the wire form of an onion batch.\<close>

record relay_env =
  rl_decode :: "bytes \<Rightarrow> (string, string list) outcome"
  rl_encode :: "string list \<Rightarrow> bytes"

fun assembleBatch :: "relay_env \<Rightarrow> string list \<Rightarrow> (string \<times> bytes) list \<Rightarrow> (string, string list) outcome" where
  "assembleBatch R [] bucket = Ok []"
| "assembleBatch R (p # ps) bucket =
     (case map_of bucket p of
        None \<Rightarrow> Err (''missing onion batch from '' @ p)
      | Some raw \<Rightarrow>
          (case rl_decode R raw of
             Err e \<Rightarrow> Err (''decode batch from '' @ p @ '': '' @ e)
           | Panic m \<Rightarrow> Panic m
           | Ok [] \<Rightarrow> Err (''empty onion list from '' @ p)
           | Ok (o' # _) \<Rightarrow>
               if \<not> is_ok (DecodeString o') then Err (''invalid base64 from '' @ p)
               else (case assembleBatch R ps bucket of Ok os \<Rightarrow> Ok (o' # os) | e \<Rightarrow> e)))"

definition peel_message :: "string \<Rightarrow> bytes \<Rightarrow> ws_message" where
  "peel_message sessionID payload =
     \<lparr> ws_Version = [], ws_Type = MsgPeelForward, ws_SessionID = sessionID, ws_Seq = 0, ws_Payload = payload, ws_Timestamp = [], ws_Lineage = None \<rparr>"

fun index_of :: "'a \<Rightarrow> 'a list \<Rightarrow> nat option" where
  "index_of x [] = None"
| "index_of x (y # ys) = (if y = x then Some 0 else map_option Suc (index_of x ys))"

definition peelRelayIfNeeded :: "relay_env \<Rightarrow> marshal \<Rightarrow> string \<Rightarrow> vote_value post_hook" where
  "peelRelayIfNeeded R mar ts from msg e s =
     (case session_context_of (svc_runner s) (ws_SessionID msg) of
        None \<Rightarrow> s
      | Some ctx \<Rightarrow>
          (case TryGet as_strings ctx CtxAnonParticipants of
             None \<Rightarrow> s
           | Some participants \<Rightarrow>
               if participants = [] then s
               else if ws_Type msg = MsgOnionBatch then
                 (let bucket = AccumulatedOnions ctx in
                  if length bucket < length participants then s
                  else case assembleBatch R participants bucket of
                         Ok onions \<Rightarrow> s\<lparr> svc_hub := snd (SendTo mar ts (hd participants)
                                           (peel_message (ws_SessionID msg) (rl_encode R onions)) (svc_hub s)) \<rparr>
                       | _ \<Rightarrow> s)
               else if ws_Type msg = MsgPeelForward then
                 (case index_of from participants of
                    None \<Rightarrow> s
                  | Some k \<Rightarrow>
                      if k + 1 \<ge> length participants then s
                      else s\<lparr> svc_hub := snd (SendTo mar ts (participants ! (k + 1))
                                (peel_message (ws_SessionID msg) (ws_Payload msg)) (svc_hub s)) \<rparr>)
               else s))"

end
