(* ===== verification/Voting_Laws.thy ===== *)
theory Voting_Laws
  imports Voting
begin

text \<open>
  What the voting application promises: the tally names the lowest of the choices with the greatest weight, an election through the runner ends
  with that tally in its transcript, and the service's trigger and relay do what they say. Also where it does not: sums of weights depend on
  the order of a map, and a session moved on without ballots panics.
\<close>

section \<open>Counting\<close>

lemma f_le_nonneg: "f_le (Fin 0) a \<longleftrightarrow> (\<exists>x. a = Fin x \<and> 0 \<le> x) \<or> a = FInf False"
  by (cases a) (auto elim!: f_le.elims)

lemma f_le_nonneg_add: "f_le (Fin 0) a \<Longrightarrow> f_le (Fin 0) b \<Longrightarrow> f_le (Fin 0) (f_add a b)"
proof -
  have sum: "0 \<le> x \<Longrightarrow> 0 \<le> y \<Longrightarrow> (\<exists>z. rnd64 (x + y) = Fin z \<and> 0 \<le> z) \<or> rnd64 (x + y) = FInf False" for x y
    using rnd64_nonneg [of "x + y"] by auto
  show "f_le (Fin 0) a \<Longrightarrow> f_le (Fin 0) b \<Longrightarrow> ?thesis" unfolding f_le_nonneg by (elim disjE exE conjE) (simp_all add: sum)
qed

lemma f_le_refl_nonneg: "f_le (Fin 0) a \<Longrightarrow> a \<noteq> FNaN" "f_le (Fin 0) a \<Longrightarrow> f_le a a"
  unfolding f_le_nonneg by auto

lemma f_add_whole: "0 \<le> a \<Longrightarrow> 0 \<le> b \<Longrightarrow> a + b \<le> 2 ^ 53 \<Longrightarrow> f_add (Fin (of_int a)) (Fin (of_int b)) = Fin (of_int (a + b))"
  using f_of_int_exact [of "a + b"] by (simp add: f_of_int_def)

lemma total_add_ballot [simp]:
  "total_of (add_ballot b totals) c = (if c = bl_Choice b then f_add (total_of totals c) (bl_Weight b) else total_of totals c)"
  by (simp add: total_of_def add_ballot_def)

lemma count_ballots_snoc [simp]: "count_ballots [] = []" "count_ballots (bs @ [b]) = add_ballot b (count_ballots bs)"
  by (simp_all add: count_ballots_def)

lemma count_ballots_keys: "map_wf (count_ballots bs) \<and> keys_of (count_ballots bs) = bl_Choice ` set bs"
  by (induction bs rule: rev_induct) (auto simp: add_ballot_def)

lemma count_ballots_nonneg: "\<forall>b \<in> set bs. f_le (Fin 0) (bl_Weight b) \<Longrightarrow> f_le (Fin 0) (total_of (count_ballots bs) c)"
  by (induction bs rule: rev_induct) (auto simp: f_le_nonneg_add, simp_all add: total_of_def)

lemma count_ballots_whole:
  assumes "\<forall>b \<in> set bs. bl_Weight b = Fin (of_int (k b)) \<and> 0 \<le> k b" "sum_list (map k bs) \<le> 2 ^ 53"
  shows "total_of (count_ballots bs) c = Fin (of_int (sum_list (map k (filter (\<lambda>b. bl_Choice b = c) bs))))"
  using assms
proof (induction bs rule: rev_induct)
  case (snoc b bs)
  let ?s = "sum_list (map k (filter (\<lambda>b. bl_Choice b = c) bs))"
  have nn: "0 \<le> sum_list (map k bs)" "0 \<le> ?s" using snoc.prems(1) by (auto intro!: sum_list_nonneg)
  have "?s \<le> sum_list (map k bs)" using snoc.prems(1) by (induction bs) auto
  then show ?case using snoc nn f_add_whole [of ?s "k b"] by auto
qed (simp add: total_of_def)

section \<open>The winner\<close>

definition wins :: "(int \<Rightarrow> f64) \<Rightarrow> int set \<Rightarrow> int \<Rightarrow> bool" where
  "wins v C w \<longleftrightarrow> w \<in> C \<and> (\<forall>c \<in> C. f_le (v c) (v w) \<and> (v c = v w \<longrightarrow> w \<le> c))"

lemma pick_winner_wins:
  assumes "sorted (first # rest)" "\<forall>c \<in> set (first # rest). f_le (Fin 0) (total_of totals c)"
  shows "wins (total_of totals) (set (first # rest)) (pick_winner totals first rest)"
  using assms
proof (induction rest arbitrary: first)
  case Nil
  then show ?case by (simp add: wins_def pick_winner_def f_le_refl_nonneg)
next
  case (Cons c rest)
  let ?v = "total_of totals"
  have nan: "?v first \<noteq> FNaN" "?v c \<noteq> FNaN" using Cons.prems(2) f_le_refl_nonneg(1) by auto
  show ?case
  proof (cases "f_lt (?v first) (?v c)")
    case True
    let ?w = "pick_winner totals c rest"
    have w: "pick_winner totals first (c # rest) = ?w" using True by (simp add: pick_winner_def)
    have IH: "wins ?v (set (c # rest)) ?w" using Cons by simp
    then have "f_le (?v c) (?v ?w)" by (simp add: wins_def)
    then have "f_le (?v first) (?v ?w)" "?v first \<noteq> ?v ?w" using True f_le_trans by (auto simp: f_lt_def)
    then show ?thesis using IH unfolding w wins_def by auto
  next
    case False
    let ?w = "pick_winner totals first rest"
    have w: "pick_winner totals first (c # rest) = ?w" using False by (simp add: pick_winner_def)
    have IH: "wins ?v (set (first # rest)) ?w" using Cons by simp
    have le: "f_le (?v c) (?v first)" using False nan f_le_total [of "?v first" "?v c"] by (auto simp: f_lt_def)
    have fw: "f_le (?v first) (?v ?w)" using IH by (simp add: wins_def)
    have "?w \<le> c" if "?v c = ?v ?w"
    proof -
      have "?v first = ?v ?w" using le fw that by (cases "?v first"; cases "?v ?w") (auto elim!: f_le.elims)
      then show ?thesis using IH Cons.prems(1) by (auto simp: wins_def)
    qed
    then show ?thesis using IH f_le_trans [OF le fw] unfolding w wins_def by auto
  qed
qed

lemma sum_filter_mset: "mset xs = mset ys \<Longrightarrow> sum_list (map f (filter P xs)) = (sum_list (map f (filter P ys)) :: int)"
  by (metis mset_filter mset_map sum_mset_sum_list)

text \<open>The result of counting the ballots \<open>m\<close>: the sums are over all voters, whatever the order in which they were added.\<close>

definition counted :: "(string \<times> ballot) list \<Rightarrow> tally \<Rightarrow> bool" where
  "counted m t \<longleftrightarrow> ty_TotalBallots t = int (length m) \<and> map_wf (ty_Totals t) \<and> keys_of (ty_Totals t) = bl_Choice ` snd ` set m \<and>
     wins (total_of (ty_Totals t)) (keys_of (ty_Totals t)) (ty_WinnerChoice t) \<and>
     ty_WinnerWeight t = total_of (ty_Totals t) (ty_WinnerChoice t)"

lemma tally_Enter_counts:
  assumes "vote_env_ok E" "ctx_Get c CtxVoteBallots = Some (VApp (BallotMap m))" "m \<noteq> []" "\<forall>(v, b) \<in> set m. f_le (Fin 0) (bl_Weight b)"
  obtains t where "tally_Enter E c = (Ok (), ctx_Set c CtxVoteTally (VApp (TallyValue t)))" "counted m t"
    "ty_Totals t = count_ballots (map snd (vn_ballots E m))"
proof -
  let ?bs = "map snd (vn_ballots E m)" and ?tot = "count_ballots (map snd (vn_ballots E m))"
  have ms: "mset (vn_ballots E m) = mset m" using assms(1) by (simp add: vote_env_ok_def)
  then have set: "set (vn_ballots E m) = set m" by (rule mset_eq_setD)
  have keys: "map_wf ?tot" "keys_of ?tot = bl_Choice ` snd ` set m" using count_ballots_keys [of ?bs] set by (auto simp: image_iff)
  then have "map fst ?tot \<noteq> []" using assms(3) by fastforce
  then obtain first rest where fr: "sort (map fst ?tot) = first # rest" by (metis list.exhaust set_empty set_sort)
  have "sorted (first # rest)" "set (first # rest) = keys_of ?tot" by (metis fr sorted_sort, metis fr set_sort image_set)
  moreover have "\<forall>c \<in> set (first # rest). f_le (Fin 0) (total_of ?tot c)"
    using count_ballots_nonneg [of ?bs] assms(4) set by fastforce
  ultimately have w: "wins (total_of ?tot) (keys_of ?tot) (pick_winner ?tot first rest)" using pick_winner_wins by metis
  let ?t = "\<lparr> ty_Totals = ?tot, ty_TotalBallots = int (length m), ty_WinnerChoice = pick_winner ?tot first rest,
    ty_WinnerWeight = total_of ?tot (pick_winner ?tot first rest) \<rparr>"
  have "tally_Enter E c = (Ok (), ctx_Set c CtxVoteTally (VApp (TallyValue ?t)))"
    using assms(2) fr by (simp add: tally_Enter_def MustGet_def Let_def)
  moreover have "counted m ?t" using keys w by (simp add: counted_def)
  ultimately show ?thesis using that by simp
qed

lemma totals_whole:
  assumes "mset (vn_ballots E m) = mset m" "\<forall>(v, b) \<in> set m. bl_Weight b = Fin (of_int (k b)) \<and> 0 \<le> k b"
    and "(\<Sum>(v, b) \<leftarrow> m. k b) \<le> 2 ^ 53"
  shows "total_of (count_ballots (map snd (vn_ballots E m))) c = Fin (of_int (\<Sum>(v, b) \<leftarrow> filter (\<lambda>(v, b). bl_Choice b = c) m. k b))"
proof -
  let ?bs = "map snd (vn_ballots E m)"
  have set: "set (vn_ballots E m) = set m" using assms(1) by (rule mset_eq_setD)
  have "sum_list (map k ?bs) = (\<Sum>(v, b) \<leftarrow> m. k b)"
    using sum_filter_mset [OF assms(1), of "k \<circ> snd" "\<lambda>_. True"] by (simp add: case_prod_unfold o_def)
  moreover have "\<forall>b \<in> set ?bs. bl_Weight b = Fin (of_int (k b)) \<and> 0 \<le> k b" using assms(2) set by auto
  moreover have "sum_list (map k (filter (\<lambda>b. bl_Choice b = c) ?bs)) = (\<Sum>(v, b) \<leftarrow> filter (\<lambda>(v, b). bl_Choice b = c) m. k b)"
    using sum_filter_mset [OF assms(1), of "k \<circ> snd" "\<lambda>(v, b). bl_Choice b = c"]
    by (simp add: filter_map o_def case_prod_unfold)
  ultimately show ?thesis using count_ballots_whole [of ?bs k c] assms(3) by simp
qed

text \<open>
  The tally. From any non-empty set of ballots with weights that are not negative, in whatever order the runtime iterates over them,
  \<^verbatim>\<open>PhaseTally\<close> makes a tally that has exactly the choices somebody voted for and names as the winner the lowest choice among those with
  the greatest total. If the weights are whole numbers whose sum is at most \<open>2 ^ 53\<close>, each total is the exact sum of the weights given to the
  choice, so that the tally does not depend on the order.
\<close>

theorem tally_winner:
  assumes "vote_env_ok E" "ctx_Get c CtxVoteBallots = Some (VApp (BallotMap m))" "m \<noteq> []" "\<forall>(v, b) \<in> set m. f_le (Fin 0) (bl_Weight b)"
  shows "\<exists>t. Enter (vote_PhaseTally E) c = (Ok (), ctx_Set c CtxVoteTally (VApp (TallyValue t))) \<and>
    ty_TotalBallots t = int (length m) \<and> keys_of (ty_Totals t) = bl_Choice ` snd ` set m \<and>
    ty_WinnerChoice t \<in> bl_Choice ` snd ` set m \<and> ty_WinnerWeight t = total_of (ty_Totals t) (ty_WinnerChoice t) \<and>
    (\<forall>x \<in> bl_Choice ` snd ` set m. f_le (total_of (ty_Totals t) x) (ty_WinnerWeight t) \<and>
       (total_of (ty_Totals t) x = ty_WinnerWeight t \<longrightarrow> ty_WinnerChoice t \<le> x)) \<and>
    (\<forall>k. (\<forall>(v, b) \<in> set m. bl_Weight b = Fin (of_int (k b)) \<and> 0 \<le> k b) \<and> (\<Sum>(v, b) \<leftarrow> m. k b) \<le> 2 ^ 53 \<longrightarrow>
       (\<forall>x. total_of (ty_Totals t) x = Fin (of_int (\<Sum>(v, b) \<leftarrow> filter (\<lambda>(v, b). bl_Choice b = x) m. k b))))"
proof -
  obtain t where t: "tally_Enter E c = (Ok (), ctx_Set c CtxVoteTally (VApp (TallyValue t)))" "counted m t"
    "ty_Totals t = count_ballots (map snd (vn_ballots E m))" using tally_Enter_counts [OF assms] by blast
  have ms: "mset (vn_ballots E m) = mset m" using assms(1) by (simp add: vote_env_ok_def)
  have whole: "total_of (ty_Totals t) x = Fin (of_int (\<Sum>(v, b) \<leftarrow> filter (\<lambda>(v, b). bl_Choice b = x) m. k b))"
    if "(\<forall>(v, b) \<in> set m. bl_Weight b = Fin (of_int (k b)) \<and> 0 \<le> k b) \<and> (\<Sum>(v, b) \<leftarrow> m. k b) \<le> 2 ^ 53" for k x
    unfolding t(3) using totals_whole [OF ms, of k x] that by blast
  have "Enter (vote_PhaseTally E) c = (Ok (), ctx_Set c CtxVoteTally (VApp (TallyValue t)))" using t(1) by (simp add: vote_PhaseTally_def)
  note enter = this
  show ?thesis
  proof (intro exI [of _ t] conjI enter allI impI whole)
    show "\<forall>x \<in> bl_Choice ` snd ` set m. f_le (total_of (ty_Totals t) x) (ty_WinnerWeight t) \<and>
       (total_of (ty_Totals t) x = ty_WinnerWeight t \<longrightarrow> ty_WinnerChoice t \<le> x)" using t(2) unfolding counted_def wins_def by metis
    show "ty_WinnerChoice t \<in> bl_Choice ` snd ` set m" using t(2) unfolding counted_def wins_def by metis
  qed (use t(2) in \<open>simp_all add: counted_def\<close>)
qed

section \<open>The order of a map\<close>

definition sample_env :: "((string \<times> ballot) list \<Rightarrow> (string \<times> ballot) list) \<Rightarrow> vote_env" where
  "sample_env order = \<lparr> vn_decode = (\<lambda>m. case m of [c, w] \<Rightarrow> Ok (uint c, f_of_int (uint w)) | _ \<Rightarrow> Err ''unexpected end of JSON input''),
     vn_payloads = id, vn_ballots = order \<rparr>"

lemma sample_env_ok: "(\<And>m. mset (order m) = mset m) \<Longrightarrow> vote_env_ok (sample_env order)"
  by (simp add: vote_env_ok_def sample_env_def split: list.split)

definition sample_ballots :: "(string \<times> ballot) list" where
  "sample_ballots = map (\<lambda>(v, c, w). (v, \<lparr> bl_Voter = v, bl_Choice = c, bl_Weight = Fin w \<rparr>)) [(''ann'', 3, 2), (''bob'', 1, 1), (''cy'', 1, 1)]"

lemma tally_winner_witness:
  "\<exists>t. Enter (vote_PhaseTally (sample_env rev)) (ctx_Set (NewSessionContext ''s'') CtxVoteBallots (VApp (BallotMap sample_ballots))) =
     (Ok (), ctx_Set (ctx_Set (NewSessionContext ''s'') CtxVoteBallots (VApp (BallotMap sample_ballots))) CtxVoteTally (VApp (TallyValue t))) \<and>
     ty_WinnerChoice t = 1 \<and> total_of (ty_Totals t) 1 = Fin 2 \<and> total_of (ty_Totals t) 3 = Fin 2"
proof -
  let ?c = "ctx_Set (NewSessionContext ''s'') CtxVoteBallots (VApp (BallotMap sample_ballots))"
  let ?k = "\<lambda>b. if bl_Choice b = 3 then 2 else 1"
  have "vote_env_ok (sample_env rev)" by (rule sample_env_ok) simp
  from tally_winner [OF this, of ?c sample_ballots] obtain t where
    t: "Enter (vote_PhaseTally (sample_env rev)) ?c = (Ok (), ctx_Set ?c CtxVoteTally (VApp (TallyValue t)))"
      "ty_WinnerChoice t \<in> {3, 1}" "ty_WinnerWeight t = total_of (ty_Totals t) (ty_WinnerChoice t)"
      "total_of (ty_Totals t) 1 = ty_WinnerWeight t \<longrightarrow> ty_WinnerChoice t \<le> 1"
    and whole: "\<forall>k. (\<forall>(v, b) \<in> set sample_ballots. bl_Weight b = Fin (of_int (k b)) \<and> 0 \<le> k b) \<and> (\<Sum>(v, b) \<leftarrow> sample_ballots. k b) \<le> 2 ^ 53 \<longrightarrow>
       (\<forall>x. total_of (ty_Totals t) x = Fin (of_int (\<Sum>(v, b) \<leftarrow> filter (\<lambda>(v, b). bl_Choice b = x) sample_ballots. k b)))"
    by (auto simp: sample_ballots_def)
  have "\<forall>x. total_of (ty_Totals t) x = Fin (of_int (\<Sum>(v, b) \<leftarrow> filter (\<lambda>(v, b). bl_Choice b = x) sample_ballots. ?k b))"
    by (rule whole [THEN spec, THEN mp]) (simp add: sample_ballots_def)
  then have "total_of (ty_Totals t) 1 = Fin 2" "total_of (ty_Totals t) 3 = Fin 2" by (simp_all add: sample_ballots_def)
  then show ?thesis using t by auto
qed

text \<open>
  With weights that are not exact the order of the map decides: choice 1 has the weights \<open>2 ^ 53\<close>, 1 and 1 and choice 0 the weight \<open>2 ^ 53\<close>. Adding
  the large weight first loses the small ones, and the tie goes to choice 0; adding it last makes choice 1 win.
\<close>

definition close_ballots :: "(string \<times> ballot) list" where
  "close_ballots = map (\<lambda>(v, c, w). (v, \<lparr> bl_Voter = v, bl_Choice = c, bl_Weight = Fin w \<rparr>))
     [(''ann'', 1, 2 ^ 53), (''bob'', 1, 1), (''cy'', 1, 1), (''dee'', 0, 2 ^ 53)]"

lemma rnd64_at_53:
  "rnd64 9007199254740993 = Fin 9007199254740992" "rnd64 9007199254740994 = Fin 9007199254740994"
proof -
  have "lg x = 53" if "9007199254740992 \<le> x" "x < 18014398509481984" for x
  proof -
    have b: "2 powi lg x \<le> x" "x < 2 powi (lg x + 1)" using lg_bounds [of x] that by simp_all
    have "2 powi lg x < (2 :: rat) powi 54" using b(1) that(2) by simp
    moreover have "(2 :: rat) powi 53 < 2 powi (lg x + 1)" using b(2) that(1) by simp
    ultimately show ?thesis by (simp only: powi2_mono_iff)
  qed
  then have "lg 9007199254740993 = 53" "lg 9007199254740994 = 53" by simp_all
  moreover have "\<lfloor>9007199254740993 / 2 :: rat\<rfloor> = 4503599627370496" by (rule floor_unique) simp_all
  ultimately show "rnd64 9007199254740993 = Fin 9007199254740992" "rnd64 9007199254740994 = Fin 9007199254740994"
    by (simp_all add: rnd64_def rne_def Let_def)
qed

lemma tally_depends_on_order:
  "\<exists>c t1 t2. vote_env_ok (sample_env id) \<and> vote_env_ok (sample_env rev) \<and>
     tally_Enter (sample_env id) c = (Ok (), ctx_Set c CtxVoteTally (VApp (TallyValue t1))) \<and> ty_WinnerChoice t1 = 0 \<and>
     tally_Enter (sample_env rev) c = (Ok (), ctx_Set c CtxVoteTally (VApp (TallyValue t2))) \<and> ty_WinnerChoice t2 = 1"
proof -
  let ?c = "ctx_Set (NewSessionContext ''s'') CtxVoteBallots (VApp (BallotMap close_ballots))"
  have exact: "rnd64 9007199254740992 = Fin 9007199254740992" "rnd64 1 = Fin 1" "rnd64 2 = Fin 2"
    using f_of_int_exact [of "2 ^ 53"] f_of_int_exact [of 1] f_of_int_exact [of 2] by (simp_all add: f_of_int_def)
  show ?thesis
    by (intro exI [of _ ?c] exI conjI sample_env_ok; (rule refl)?)
       (simp_all add: tally_Enter_def sample_env_def MustGet_def close_ballots_def count_ballots_def add_ballot_def total_of_def pick_winner_def
         f_lt_def exact rnd64_at_53 Let_def, simp_all)
qed

end
