(* ===== verification/Voting_Run.thy ===== *)
theory Voting_Run
  imports Voting_Laws
begin

text \<open>
  Elections of \<^verbatim>\<open>examples/voting\<close> through the session runner: what the pipelines compose to, a whole election from \<^verbatim>\<open>BeginSession\<close> to the transcript,
  and the trigger and relay of the session service.
\<close>

section \<open>The pipelines\<close>

lemmas vote_phase_defs = vote_PhaseInvite_def vote_PhaseSubmitVote_def vote_PhaseSubmitVoteAt_def vote_PhaseTally_def vote_PhaseSettle_def

lemma vote_phases_ok: "pipeline_ok (vote_phases E)"
  by (simp add: pipeline_simps vote_phases_def vote_phase_defs vote_names anon_names PlaintextKeygenPhase_def)

lemma shuffled_phases_ok: "pipeline_ok (shuffled_phases E cd now)"
  by (simp add: pipeline_simps shuffled_phases_def vote_phase_defs vote_names anon_names PlaintextKeygenPhase_def PhaseGShuffle_def PhaseGVerify_def)

lemma vote_inline: "inlines (vote_phases E) = vote_phases E"
  by (simp add: inlines_def vote_phases_def vote_phase_defs PlaintextKeygenPhase_def)

section \<open>An election\<close>

interpretation sv: collecting "vote_PhaseSubmitVoteAt E entry" "''vote.ballot''" bucketBallots CtxVoteParticipants Ok for E entry
  by unfold_locales
     (simp_all add: vote_PhaseSubmitVoteAt_def phaseConsumes_def submit_OnMessage_def submit_CheckComplete_def vote_names)

lemma vote_hooks_blind [simp]: "store_blind (submit_Exit E)" "store_blind (tally_Enter E)" "store_blind settle_Enter"
  by (auto simp: store_blind_def submit_Exit_def tally_Enter_def settle_Enter_def Let_def split: outcome.split list.split option.split)

definition open_election :: "int \<Rightarrow> string \<Rightarrow> string list \<Rightarrow> vote_value session_runner \<Rightarrow> (err, unit) outcome \<times> vote_value session_runner" where
  "open_election now sid ps r =
     (let (_, r1) = BeginSession sid [] r
      in AdvanceToState now sid StateGossip (seed_context sid CtxVoteParticipants (VStrings ps) r1))"

lemma vote_entries:
  "map_of (entries_of (vote_phases E)) StateLocked = Some PlaintextKeygenPhase"
  "map_of (entries_of (vote_phases E)) StateGossip = Some (vote_PhaseSubmitVote E)"
  "map_of (entries_of (vote_phases E)) StateScoring = Some (vote_PhaseTally E)"
  "map_of (entries_of (vote_phases E)) StateDecrypting = Some vote_PhaseSettle"
  by (simp_all add: entries_of_def vote_phases_def vote_phase_defs PlaintextKeygenPhase_def state_defs)

lemma vote_phase_simps [simp]:
  "Exit vote_PhaseInvite = skip_hook" "Enter vote_PhaseInvite = skip_hook" "EntryState vote_PhaseInvite = StateInviting" "ExitState vote_PhaseInvite = StateLocked"
  "InternalStates vote_PhaseInvite = []"
  "Exit PlaintextKeygenPhase = skip_hook" "Enter PlaintextKeygenPhase = skip_hook" "ExitState PlaintextKeygenPhase = StateGossip"
  "Exit (vote_PhaseSubmitVoteAt E entry) = submit_Exit E" "Enter (vote_PhaseSubmitVoteAt E entry) = skip_hook"
  "ExitState (vote_PhaseSubmitVoteAt E entry) = StateScoring"
  "Enter (vote_PhaseTally E) = tally_Enter E" "Exit (vote_PhaseTally E) = skip_hook" "ExitState (vote_PhaseTally E) = StateDecrypting"
  "ConsumedMessageTypes (vote_PhaseTally E) = []" "CheckComplete (vote_PhaseTally E) c" "CheckComplete vote_PhaseSettle c"
  "Enter vote_PhaseSettle = settle_Enter" "Exit vote_PhaseSettle = skip_hook" "ExitState vote_PhaseSettle = StateNone"
  "ConsumedMessageTypes vote_PhaseSettle = []"
  by (simp_all add: vote_phase_defs PlaintextKeygenPhase_def)

lemma skip_hook_simp [simp]: "skip_hook c = (Ok (), c)"
  by (simp add: skip_hook_def)

text \<open>The session is open for ballots: it has the participants and no ballot yet.\<close>

definition polling :: "vote_env \<Rightarrow> string \<Rightarrow> string list \<Rightarrow> vote_value session_runner \<Rightarrow> bool" where
  "polling E sid ps r \<longleftrightarrow>
     (\<exists>c t. stage (vote_phases E) sid StateGossip (Some (vote_PhaseSubmitVote E)) c t r \<and> ctx_Get c CtxVoteParticipants = Some (VStrings ps) \<and>
        ctx_Get c bucketBallots = None)"

lemma election_opens:
  assumes "fresh_runner (vote_phases E) r" "sid \<noteq> []"
  shows "\<exists>r'. open_election now sid ps r = (Ok (), r') \<and> polling E sid ps r'"
proof -
  let ?new = "(NewSessionContext sid)\<lparr> CohortID := [], ctx_lineageSigner := lineageSigner r \<rparr>" and ?P = "vote_phases E"
  let ?c = "ctx_Set ?new CtxVoteParticipants (VStrings ps)"
  have P: "?P = vote_PhaseInvite # tl ?P" by (simp add: vote_phases_def)
  have names: "StateInviting \<noteq> StateGossip" "StateLocked \<noteq> StateGossip" "StateLocked \<noteq> StateNone" "StateGossip \<noteq> StateNone" by (simp_all add: state_defs)
  obtain t1 r1 where r1: "BeginSession sid [] r = (Ok (), r1)" "stage ?P sid StateInviting (Some vote_PhaseInvite) ?new t1 r1"
    using stage_begin [of vote_PhaseInvite "tl ?P" sid r "[]"] fresh_idle [OF assms(1), of sid] assms(2) P by auto
  let ?r2 = "seed_context sid CtxVoteParticipants (VStrings ps) r1"
  obtain t2 where r2: "stage ?P sid StateInviting (Some vote_PhaseInvite) ?c t2 ?r2" using stage_seed [OF r1(2)] by blast
  obtain t3 r3 where r3: "stage ?P sid StateLocked (Some PlaintextKeygenPhase) ?c t3 r3"
    "advance_to (Suc 5) now sid StateGossip t2 ?r2 = advance_to 5 now sid StateGossip t3 r3"
    using stage_to_hop [OF r2 names(1), of PlaintextKeygenPhase ?c ?c 5 now] names vote_entries by auto
  obtain t4 r4 where r4: "stage ?P sid StateGossip (Some (vote_PhaseSubmitVote E)) ?c t4 r4"
    "advance_to (Suc 4) now sid StateGossip t3 r3 = advance_to 4 now sid StateGossip t4 r4"
    using stage_to_hop [OF r3(1) names(2), of "vote_PhaseSubmitVote E" ?c ?c 4 now] names vote_entries by (auto simp: vote_PhaseSubmitVote_def)
  have "length ?P + 1 = 6" by (simp add: vote_phases_def)
  then have "AdvanceToState now sid StateGossip ?r2 = advance_to 6 now sid StateGossip t2 ?r2"
    using stage_to_start [OF r2 names(1), of now] by (simp del: advance_to.simps)
  also have "\<dots> = (Ok (), r4)" using r3(2) r4(2) stage_to_here [OF r4(1), of 3 now] by (simp del: advance_to.simps)
  finally have "AdvanceToState now sid StateGossip ?r2 = (Ok (), r4)" .
  moreover have "ctx_Get ?c CtxVoteParticipants = Some (VStrings ps)" "ctx_Get ?c bucketBallots = None"
    by (simp_all add: vote_names) (simp add: ctx_Get_def NewSessionContext_def)
  ultimately show ?thesis using r1(1) r4(1) unfolding polling_def open_election_def by auto
qed


lemma parse_ballots_ok:
  assumes "\<forall>(f, m) \<in> set raw. vn_decode E m = Ok (b f)" "map_wf raw" "fst ` set raw \<inter> keys_of acc = {}"
  shows "parse_ballots E raw acc = Ok (acc @ map (\<lambda>(f, m). (f, read_ballot f (b f))) raw)"
  using assms
proof (induction raw arbitrary: acc)
  case (Cons x raw)
  obtain f m where x: "x = (f, m)" by fastforce
  have "f \<notin> keys_of acc" using Cons.prems(3) by (simp add: x)
  moreover have "fst ` set raw \<inter> keys_of (acc @ [(f, read_ballot f (b f))]) = {}" using Cons.prems(2,3) by (auto simp: x map_wf_def)
  ultimately show ?case using Cons.IH [of "acc @ [(f, read_ballot f (b f))]"] Cons.prems by (simp add: x mput_new map_wf_def)
qed simp

text \<open>The votes for a choice: the weights of those who chose it.\<close>

definition votes :: "(string \<Rightarrow> int) \<Rightarrow> (string \<Rightarrow> int) \<Rightarrow> string list \<Rightarrow> int \<Rightarrow> int" where
  "votes choice weight voters x = sum_list (map weight (filter (\<lambda>f. choice f = x) voters))"

definition given_weight :: "int \<Rightarrow> int" where "given_weight w = (if w \<le> 0 then 1 else w)"

lemma json_fields_finite: "\<forall>(k, v) \<in> set kvs. \<exists>x. v = Fin x \<Longrightarrow> \<exists>ss. json_fields kvs = Some ss"
  by (induction kvs) (auto simp: Let_def split: prod.split)

lemma marshal_finite:
  assumes "map_wf (ty_Totals t)" "\<And>x. \<exists>y. total_of (ty_Totals t) x = Fin y" "\<exists>y. ty_WinnerWeight t = Fin y"
  shows "\<exists>body. marshal_tally t = Some body"
proof -
  have "\<exists>x. v = Fin x" if "(c, v) \<in> set (ty_Totals t)" for c v
    using assms(2) [of c] that assms(1) by (simp add: total_of_def map_wf_def map_of_is_SomeI)
  then have "\<exists>ss. json_fields (sort_key fst (map (\<lambda>(c, w). (dec_int c, w)) (ty_Totals t))) = Some ss"
    by (intro json_fields_finite) auto
  then show ?thesis using assms(3) by (auto simp: marshal_tally_def Let_def split: prod.split)
qed

lemma read_ballot_whole:
  "bl_Voter (read_ballot f (c, Fin (of_int w))) = f" "bl_Choice (read_ballot f (c, Fin (of_int w))) = c"
  "bl_Weight (read_ballot f (c, Fin (of_int w))) = Fin (of_int (given_weight w))" "0 < given_weight w"
  by (simp_all add: read_ballot_def given_weight_def)

text \<open>What \<^verbatim>\<open>PhaseSubmitVote\<close>, \<^verbatim>\<open>PhaseTally\<close> and \<^verbatim>\<open>PhaseSettle\<close> leave in the context.\<close>

definition settled_result :: "(string \<Rightarrow> int) \<Rightarrow> (string \<Rightarrow> int) \<Rightarrow> string list \<Rightarrow> vote_value session_context \<Rightarrow> bool" where
  "settled_result choice weight voters c \<longleftrightarrow>
     (\<exists>t body. ctx_Get c CtxVoteTally = Some (VApp (TallyValue t)) \<and>
        ty_TotalBallots t = int (length voters) \<and> (\<forall>x. total_of (ty_Totals t) x = Fin (of_int (votes choice weight voters x))) \<and>
        ty_WinnerChoice t \<in> choice ` set voters \<and>
        (\<forall>x \<in> choice ` set voters. votes choice weight voters x \<le> votes choice weight voters (ty_WinnerChoice t) \<and>
           (votes choice weight voters x = votes choice weight voters (ty_WinnerChoice t) \<longrightarrow> ty_WinnerChoice t \<le> x)) \<and>
        marshal_tally t = Some body \<and> ctx_Get c CtxVoteTranscript = Some (VBytes (transcript_of body)))"

lemma ballots_processed:
  assumes "vote_env_ok E" "AccumulatedMessages c bucketBallots = ms" "distinct (map fst ms)" "ms \<noteq> []"
    and "\<forall>(f, m) \<in> set ms. vn_decode E m = Ok (choice f, Fin (of_int (w f)))"
    and "weight = given_weight \<circ> w" "sum_list (map weight (map fst ms)) \<le> 2 ^ 53"
  shows "\<exists>c1 c2 c3. submit_Exit E c = (Ok (), c1) \<and> tally_Enter E c1 = (Ok (), c2) \<and> settle_Enter c2 = (Ok (), c3) \<and>
    settled_result choice weight (map fst ms) c3"
proof -
  let ?raw = "vn_payloads E ms" and ?V = "map fst ms" and ?m = "map (\<lambda>(f, m). (f, read_ballot f (choice f, Fin (of_int (w f))))) (vn_payloads E ms)"
  have ms: "mset ?raw = mset ms" using assms(1) by (simp add: vote_env_ok_def)
  then have set: "set ?raw = set ms" by (rule mset_eq_setD)
  have fsts: "mset (map fst ?raw) = mset ?V" using ms by (simp add: mset_map)
  then have "distinct (map fst ?raw)" using assms(3) by (metis mset_eq_imp_distinct_iff)
  then have "parse_ballots E ?raw [] = Ok ?m"
    using parse_ballots_ok [of ?raw E "\<lambda>f. (choice f, Fin (of_int (w f)))" "[]"] assms(5) set by (simp add: map_wf_def)
  then have ex: "submit_Exit E c = (Ok (), ctx_Set c CtxVoteBallots (VApp (BallotMap ?m)))" using assms(2) by (simp add: submit_Exit_def)
  let ?c1 = "ctx_Set c CtxVoteBallots (VApp (BallotMap ?m))" and ?k = "weight \<circ> bl_Voter"
  have len: "length ?m = length ?V" using ms by (metis length_map mset_eq_length)
  have "?m \<noteq> []" using len assms(4) by auto
  moreover have nn: "\<forall>(v, b) \<in> set ?m. bl_Weight b = Fin (of_int (?k b)) \<and> 0 \<le> ?k b"
    using read_ballot_whole assms(6) by (auto simp: less_imp_le)
  then have "\<forall>(v, b) \<in> set ?m. f_le (Fin 0) (bl_Weight b)" by auto
  ultimately obtain t where t: "tally_Enter E ?c1 = (Ok (), ctx_Set ?c1 CtxVoteTally (VApp (TallyValue t)))" "counted ?m t"
    "ty_Totals t = count_ballots (map snd (vn_ballots E ?m))"
    using tally_Enter_counts [OF assms(1), of ?c1 ?m] by auto
  have k: "(\<Sum>(v, b) \<leftarrow> filter (\<lambda>(v, b). P b) ?m. ?k b) = sum_list (map weight (filter (\<lambda>f. P (read_ballot f (choice f, Fin (of_int (w f))))) ?V))" for P
  proof -
    have "(\<Sum>(v, b) \<leftarrow> filter (\<lambda>(v, b). P b) ?m. ?k b) =
        sum_list (map weight (filter (\<lambda>f. P (read_ballot f (choice f, Fin (of_int (w f))))) (map fst ?raw)))"
      by (simp add: filter_map o_def case_prod_unfold read_ballot_whole)
    then show ?thesis using sum_filter_mset [OF fsts] by metis
  qed
  have mm: "mset (vn_ballots E ?m) = mset ?m" using assms(1) by (simp add: vote_env_ok_def)
  have sum: "(\<Sum>(v, b) \<leftarrow> ?m. ?k b) \<le> 2 ^ 53" using k [of "\<lambda>_. True"] assms(7) by (simp add: case_prod_unfold)
  have tot: "total_of (ty_Totals t) x = Fin (of_int (votes choice weight ?V x))" for x
    using totals_whole [OF mm nn sum, of x] k [of "\<lambda>b. bl_Choice b = x"] t(3) by (simp only: read_ballot_whole votes_def)
  have keys: "bl_Choice ` snd ` set ?m = choice ` set ?V" using set by (simp add: image_image case_prod_unfold read_ballot_whole)
  obtain body where body: "marshal_tally t = Some body"
    using marshal_finite [of t] t(2) tot unfolding counted_def by auto
  let ?c2 = "ctx_Set ?c1 CtxVoteTally (VApp (TallyValue t))"
  let ?c3 = "ctx_Set ?c2 CtxVoteTranscript (VBytes (transcript_of body))"
  have st: "settle_Enter ?c2 = (Ok (), ?c3)" using body by (simp add: settle_Enter_def MustGet_def)
  have win: "wins (total_of (ty_Totals t)) (choice ` set ?V) (ty_WinnerChoice t)" using t(2) unfolding counted_def keys by metis
  have num: "ty_TotalBallots t = int (length ?V)" using t(2) len by (simp add: counted_def)
  have "settled_result choice weight ?V ?c3"
    unfolding settled_result_def using win num body tot by (intro exI [of _ t] exI [of _ body]) (simp add: wins_def vote_names)
  then show ?thesis using ex t(1) st by blast
qed

lemma election_closes:
  assumes "vote_env_ok E" "polling E sid ps r" "distinct (map fst ms)" "ms \<noteq> []" "length ms = length ps"
    and "\<forall>(f, m) \<in> set ms. vn_decode E m = Ok (choice f, Fin (of_int (w f)))"
    and "weight = given_weight \<circ> w" "sum_list (map weight (map fst ms)) \<le> 2 ^ 53"
  shows "\<exists>r' c t. run_all (\<lambda>(from, m). HandleMessage (clock from) sid ''vote.ballot'' from m) ms r =
      (replicate (length ms - 1) (Ok False) @ [Ok True], r') \<and>
    stage (vote_phases E) sid StateNone None c t r' \<and> settled_result choice weight (map fst ms) c"
proof -
  let ?P = "vote_phases E" and ?clock = "clock (fst (last ms))"
  obtain c t where c: "stage ?P sid StateGossip (Some (vote_PhaseSubmitVoteAt E StateGossip)) c t r"
    "ctx_Get c CtxVoteParticipants = Some (VStrings ps)" "ctx_Get c bucketBallots = None"
    using assms(2) unfolding polling_def vote_PhaseSubmitVote_def by blast
  let ?c = "accumulate_all c bucketBallots ms"
  obtain t1 r1 where r1: "stage ?P sid StateGossip (Some (vote_PhaseSubmitVoteAt E StateGossip)) ?c t1 r1"
    "run_all (\<lambda>(from, m). HandleMessage (clock from) sid ''vote.ballot'' from m) ms r =
      (let (res, r') = advance ?clock sid t1 r1 in (replicate (length ms - 1) (Ok False) @ [res], r'))"
    using sv.stage_collects [OF c assms(3) _ assms(4,5), of clock] by auto
  have "AccumulatedMessages ?c bucketBallots = ms"
    using accumulate_all_new [OF assms(3), of c bucketBallots] c(3) by (simp add: AccumulatedMessages_def)
  from ballots_processed [OF assms(1) this assms(3,4,6,7,8)] obtain c1 c2 c3
    where h: "submit_Exit E ?c = (Ok (), c1)" "tally_Enter E c1 = (Ok (), c2)" "settle_Enter c2 = (Ok (), c3)"
      "settled_result choice weight (map fst ms) c3" by blast
  have names: "StateScoring \<noteq> StateNone" "StateDecrypting \<noteq> StateNone" by (simp_all add: state_defs)
  obtain t2 r2 where r2: "stage ?P sid StateScoring (Some (vote_PhaseTally E)) c2 t2 r2" "advance_loop (Suc 5) ?clock sid t1 r1 = advance_loop 5 ?clock sid t2 r2"
    using stage_hop [OF r1(1), of "vote_PhaseTally E" c1 c2 5 ?clock] names vote_entries h by auto
  obtain t3 r3 where r3: "stage ?P sid StateDecrypting (Some vote_PhaseSettle) c3 t3 r3" "advance_loop (Suc 4) ?clock sid t2 r2 = advance_loop 4 ?clock sid t3 r3"
    using stage_hop [OF r2(1), of vote_PhaseSettle c2 c3 4 ?clock] names vote_entries h by auto
  obtain t4 r4 where r4: "advance_loop (Suc 3) ?clock sid t3 r3 = (Ok True, r4)" "stage ?P sid StateNone None c3 t4 r4"
    using stage_end [OF r3(1), of c3 3 ?clock] by auto
  have "phases r1 = ?P" using r1(1) by (simp add: stage_def runs_def)
  moreover have "length ?P + 1 = 6" by (simp add: vote_phases_def)
  ultimately have "advance ?clock sid t1 r1 = advance_loop 6 ?clock sid t1 r1" by (simp add: advance_def del: advance_loop.simps)
  also have "\<dots> = (Ok True, r4)" using r2(2) r3(2) r4(1) by (simp del: advance_loop.simps)
  finally show ?thesis using r1(2) r4(2) h(4) by auto
qed

lemma vote_runner_fresh:
  "vote_Pipeline E = Ok r \<Longrightarrow> fresh_runner (vote_phases E) r"
  "vote_PipelineWithLineage E sg vs = Ok r \<Longrightarrow> \<forall>m. is_ok (sg_Sign sg m) \<Longrightarrow> fresh_runner (vote_phases E) r"
  unfolding vote_Pipeline_def vote_PipelineWithLineage_def
  using fresh_Compose [OF vote_phases_ok vote_inline] fresh_ComposeWith [OF vote_phases_ok vote_inline] by blast+

text \<open>
  Claim C39. A whole election. In a runner of the voting pipeline, with or without lineage, start a session with participants, move it to \<^verbatim>\<open>GOSSIP\<close>
  as the service does, and send one ballot from each of as many voters as there are participants, in any order. Every ballot but the last is
  accepted without a transition; the last one runs tally and settlement and ends the pipeline. The context then has the tally, whose totals are
  the sums of the given weights (a weight that is not positive counts as 1) and whose winner is the lowest choice with the most votes, and its
  transcript. Weights are whole numbers that sum up to at most \<open>2 ^ 53\<close>.
\<close>

theorem election_result:
  assumes "vote_env_ok E" "sid \<noteq> []"
    and "vote_Pipeline E = Ok r \<or> vote_PipelineWithLineage E sg vs = Ok r \<and> (\<forall>m. is_ok (sg_Sign sg m))"
    and "distinct (map fst ms)" "ms \<noteq> []" "length ms = length ps"
    and "\<forall>(f, m) \<in> set ms. vn_decode E m = Ok (choice f, Fin (of_int (w f)))"
    and "weight = given_weight \<circ> w" "sum_list (map weight (map fst ms)) \<le> 2 ^ 53"
  shows "\<exists>r1 r2 c t body. open_election now sid ps r = (Ok (), r1) \<and>
    run_all (\<lambda>(from, m). HandleMessage (clock from) sid ''vote.ballot'' from m) ms r1 = (replicate (length ms - 1) (Ok False) @ [Ok True], r2) \<and>
    CurrentState r2 sid = (StateNone, True) \<and> session_context_of r2 sid = Some c \<and> ctx_Get c CtxVoteTally = Some (VApp (TallyValue t)) \<and>
    (\<forall>x. total_of (ty_Totals t) x = Fin (of_int (votes choice weight (map fst ms) x))) \<and>
    ty_WinnerChoice t \<in> choice ` fst ` set ms \<and>
    (\<forall>x \<in> choice ` fst ` set ms. votes choice weight (map fst ms) x \<le> votes choice weight (map fst ms) (ty_WinnerChoice t) \<and>
       (votes choice weight (map fst ms) x = votes choice weight (map fst ms) (ty_WinnerChoice t) \<longrightarrow> ty_WinnerChoice t \<le> x)) \<and>
    marshal_tally t = Some body \<and> ctx_Get c CtxVoteTranscript = Some (VBytes (transcript_of body))"
proof -
  have "fresh_runner (vote_phases E) r" using assms(3) vote_runner_fresh by blast
  then obtain r1 where r1: "open_election now sid ps r = (Ok (), r1)" "polling E sid ps r1" using election_opens [OF _ assms(2)] by blast
  obtain r2 c t where r2: "run_all (\<lambda>(from, m). HandleMessage (clock from) sid ''vote.ballot'' from m) ms r1 =
      (replicate (length ms - 1) (Ok False) @ [Ok True], r2)" "stage (vote_phases E) sid StateNone None c t r2" "settled_result choice weight (map fst ms) c"
    using election_closes [OF assms(1) r1(2) assms(4-9)] by blast
  obtain c' where c': "CurrentState r2 sid = (StateNone, True)" "session_context_of r2 sid = Some c'" "\<And>k. ctx_Get c' k = ctx_Get c k"
    using stage_ctx [OF r2(2)] by blast
  have "settled_result choice weight (map fst ms) c'" using r2(3) c'(3) by (simp add: settled_result_def)
  then show ?thesis using r1(1) r2(1) c'(1,2) unfolding settled_result_def set_map by blast
qed

definition two_ballots :: "(string \<times> bytes) list" where
  "two_ballots = [(''bob'', [7, 3]), (''ann'', [4, 0])]"

lemma sample_weights: "f_of_int 3 = Fin 3" "f_of_int 0 = Fin 0"
  using f_of_int_exact [of 3] f_of_int_exact [of 0] by simp_all

lemma election_result_witness:
  "\<exists>r r1 r2 c t. vote_Pipeline (sample_env rev) = Ok r \<and> open_election 0 ''s'' [''ann'', ''bob''] r = (Ok (), r1) \<and>
     run_all (\<lambda>(from, m). HandleMessage 0 ''s'' ''vote.ballot'' from m) two_ballots r1 = ([Ok False, Ok True], r2) \<and>
     CurrentState r2 ''s'' = (StateNone, True) \<and> session_context_of r2 ''s'' = Some c \<and> ctx_Get c CtxVoteTally = Some (VApp (TallyValue t)) \<and>
     ty_WinnerChoice t = 7 \<and> total_of (ty_Totals t) 4 = Fin 1"
proof -
  let ?E = "sample_env rev" and ?choice = "\<lambda>f. if f = ''bob'' then 7 else 4" and ?w = "\<lambda>f. if f = ''bob'' then 3 else 0"
  have E: "vote_env_ok ?E" by (rule sample_env_ok) simp
  obtain r where r: "vote_Pipeline ?E = Ok r" using vote_phases_ok Compose_accepts unfolding vote_Pipeline_def by (metis is_ok_iff)
  have dec: "\<forall>(f, m) \<in> set two_ballots. vn_decode ?E m = Ok (?choice f, Fin (of_int (?w f)))"
    by (simp add: two_ballots_def sample_env_def sample_weights)
  have "\<exists>r1 r2 c t body. open_election 0 ''s'' [''ann'', ''bob''] r = (Ok (), r1) \<and>
    run_all (\<lambda>(from, m). HandleMessage ((\<lambda>_. 0) from) ''s'' ''vote.ballot'' from m) two_ballots r1 = (replicate (length two_ballots - 1) (Ok False) @ [Ok True], r2) \<and>
    CurrentState r2 ''s'' = (StateNone, True) \<and> session_context_of r2 ''s'' = Some c \<and> ctx_Get c CtxVoteTally = Some (VApp (TallyValue t)) \<and>
    (\<forall>x. total_of (ty_Totals t) x = Fin (of_int (votes ?choice (given_weight \<circ> ?w) (map fst two_ballots) x))) \<and>
    ty_WinnerChoice t \<in> ?choice ` fst ` set two_ballots \<and>
    (\<forall>x \<in> ?choice ` fst ` set two_ballots. votes ?choice (given_weight \<circ> ?w) (map fst two_ballots) x \<le> votes ?choice (given_weight \<circ> ?w) (map fst two_ballots) (ty_WinnerChoice t) \<and>
       (votes ?choice (given_weight \<circ> ?w) (map fst two_ballots) x = votes ?choice (given_weight \<circ> ?w) (map fst two_ballots) (ty_WinnerChoice t) \<longrightarrow> ty_WinnerChoice t \<le> x)) \<and>
    marshal_tally t = Some body \<and> ctx_Get c CtxVoteTranscript = Some (VBytes (transcript_of body))"
    by (rule election_result [OF E _ _ _ _ _ dec refl, where sg = undefined and vs = "[]"]) (use r in \<open>simp_all add: two_ballots_def given_weight_def\<close>)
  then obtain r1 r2 c t where run: "open_election 0 ''s'' [''ann'', ''bob''] r = (Ok (), r1)"
    "run_all (\<lambda>(from, m). HandleMessage 0 ''s'' ''vote.ballot'' from m) two_ballots r1 = ([Ok False, Ok True], r2)"
    "CurrentState r2 ''s'' = (StateNone, True)" "session_context_of r2 ''s'' = Some c" "ctx_Get c CtxVoteTally = Some (VApp (TallyValue t))"
    and tot: "\<forall>x. total_of (ty_Totals t) x = Fin (of_int (votes ?choice (given_weight \<circ> ?w) (map fst two_ballots) x))"
    and win: "ty_WinnerChoice t \<in> {7, 4}"
      "votes ?choice (given_weight \<circ> ?w) (map fst two_ballots) 7 \<le> votes ?choice (given_weight \<circ> ?w) (map fst two_ballots) (ty_WinnerChoice t)"
    unfolding two_ballots_def by (auto simp del: run_all.simps)
  have v: "votes ?choice (given_weight \<circ> ?w) (map fst two_ballots) 7 = 3" "votes ?choice (given_weight \<circ> ?w) (map fst two_ballots) 4 = 1"
    by (simp_all add: votes_def two_ballots_def given_weight_def)
  then have "ty_WinnerChoice t = 7" "total_of (ty_Totals t) 4 = Fin 1" using win tot by auto
  then show ?thesis using r run by blast
qed

section \<open>Without ballots\<close>

text \<open>A session that is moved on to \<^verbatim>\<open>SCORING\<close> before the first ballot panics in \<^verbatim>\<open>PhaseTally\<close>.\<close>

lemma no_ballots_panics:
  assumes "vote_env_ok E" "polling E sid ps r"
  shows "\<exists>m. fst (AdvanceToState now sid StateScoring r) = Panic m"
proof -
  obtain c t where c: "stage (vote_phases E) sid StateGossip (Some (vote_PhaseSubmitVoteAt E StateGossip)) c t r" "ctx_Get c bucketBallots = None"
    using assms(2) unfolding polling_def vote_PhaseSubmitVote_def by blast
  have names: "StateGossip \<noteq> StateScoring" "StateScoring \<noteq> StateNone" by (simp_all add: state_defs)
  have nil: "vn_payloads E [] = []" "vn_ballots E [] = []" using assms(1) unfolding vote_env_ok_def by (metis mset_zero_iff mset.simps(1))+
  let ?c = "ctx_Set c CtxVoteBallots (VApp (BallotMap []))"
  have ex: "submit_Exit E c = (Ok (), ?c)" using c(2) nil by (simp add: submit_Exit_def AccumulatedMessages_def)
  have en: "tally_Enter E (at_store ?c st) = (Panic ''runtime error: index out of range [0] with length 0'', at_store ?c st)" for st
    using nil by (simp add: tally_Enter_def MustGet_def)
  have s: "sits sid StateGossip (Some (vote_PhaseSubmitVoteAt E StateGossip)) c t r" "signs_ok r"
    "map_of (byEntryState r) StateScoring = Some (vote_PhaseTally E)" "phases r = vote_phases E"
    using c(1) vote_entries by (simp_all add: stage_def runs_def)
  obtain t1 r1 where e: "exit_phase '' during AdvanceToState'' now sid (vote_PhaseSubmitVoteAt E StateGossip) t r = (Ok (), t1, r1)"
      "sits sid StateGossip (Some (vote_PhaseSubmitVoteAt E StateGossip)) ?c t1 r1" "same_setup r r1"
    using exit_phase_ok [OF s(1,2), of "vote_PhaseSubmitVoteAt E StateGossip" ?c] ex by (metis vote_hooks_blind(1) vote_phase_simps(9))
  have "\<exists>m t2 r2. enter_phase '' during AdvanceToState'' sid StateScoring (vote_PhaseTally E) t1 r1 = (Panic m, t2, r2)"
    using e(2) en by (auto simp: enter_phase_def run_hook_def sits_def Let_def)
  then show ?thesis using s e names by (auto simp: AdvanceToState_def sits_def same_setup_def vote_phases_def vote_PhaseSubmitVoteAt_def Let_def)
qed

section \<open>The session service\<close>

text \<open>The relay keeps the service consistent, so it may be the post-dispatch hook of a service.\<close>

lemma peel_relay_ok: "hook_ok (Some (peelRelayIfNeeded R mar ts))"
proof -
  have send: "svc_frame s (s\<lparr> svc_hub := snd (SendTo mar ts p m (svc_hub s)) \<rparr>)" if "svc_inv s" for s :: "vote_value svc_state" and p m
    using that hub_inv_step [of "svc_hub s" mar "OpSend ts p m"]
    by (intro svc_frame_hub) (simp_all add: svc_inv_def SendTo_def split: option.split)
  show ?thesis
    unfolding hook_ok_def peelRelayIfNeeded_def
    by (auto simp: Let_def send svc_frame_refl split: option.split outcome.split)
qed

text \<open>
  The trigger: with two participants or more and attributes of other names, a session that is not there yet is started and waits for onions in
  \<^verbatim>\<open>GOSSIP\<close>, with its participants under all three keys.
\<close>

lemma shuffled_entries:
  "map_of (entries_of (shuffled_phases E cd n)) StateLocked = Some PlaintextKeygenPhase"
  "map_of (entries_of (shuffled_phases E cd n)) StateGossip = Some PhaseGShuffle"
  by (simp_all add: entries_of_def shuffled_phases_def vote_phase_defs PlaintextKeygenPhase_def PhaseGShuffle_def state_defs)

lemma fold_mput_other: "k \<notin> fst ` set attrs \<Longrightarrow> map_of (fold (\<lambda>(k, v). mput k v) attrs m) k = map_of m k"
  by (induction attrs arbitrary: m) auto

lemma fold_mput_wf: "distinct (map fst m) \<Longrightarrow> distinct (map fst (fold (\<lambda>(k, v). mput k v) attrs m))"
  by (induction attrs arbitrary: m) (auto simp flip: map_wf_def)

lemma voting_starts:
  assumes "idle_runner (shuffled_phases E cd n) sid (svc_runner s)" "sid \<noteq> []" "2 \<le> length ps"
    and "{CtxVoteParticipants, CtxParticipants, CtxAnonParticipants} \<inter> fst ` set attrs = {}"
  shows "\<exists>s' c. voting_Start mar mt now ts sid ps attrs s = (Ok (), s') \<and> CurrentState (svc_runner s') sid = (StateGossip, True) \<and>
    session_context_of (svc_runner s') sid = Some c \<and>
    (\<forall>k \<in> {CtxVoteParticipants, CtxParticipants, CtxAnonParticipants}. ctx_Get c k = Some (VStrings ps))"
proof -
  let ?P = "shuffled_phases E cd n" and ?r = "svc_runner s"
  let ?keys = "[(CtxVoteParticipants, VStrings ps), (CtxParticipants, VStrings ps), (CtxAnonParticipants, VStrings ps)]"
  let ?attrs = "fold (\<lambda>(k, v). mput k v) attrs ?keys"
  have P: "?P = vote_PhaseInvite # tl ?P" by (simp add: shuffled_phases_def)
  have names: "StateInviting \<noteq> StateGossip" "StateLocked \<noteq> StateGossip" "StateLocked \<noteq> StateNone" "StateGossip \<noteq> StateNone" by (simp_all add: state_defs)
  let ?new = "(NewSessionContext sid)\<lparr> CohortID := [], ctx_lineageSigner := lineageSigner ?r \<rparr>"
  obtain t1 r1 where r1: "BeginSession sid [] ?r = (Ok (), r1)" "stage ?P sid StateInviting (Some vote_PhaseInvite) ?new t1 r1"
    using stage_begin [of vote_PhaseInvite "tl ?P" sid ?r "[]"] assms(1,2) P by auto
  have dist: "distinct (map fst ?attrs)" by (rule fold_mput_wf) (simp add: vote_names key_defs anon_names)
  let ?r2 = "seed_attrs sid ?attrs r1"
  obtain t2 c where r2: "stage ?P sid StateInviting (Some vote_PhaseInvite) c t2 ?r2"
    "\<forall>k. ctx_Get c k = (case map_of ?attrs k of Some v \<Rightarrow> Some v | None \<Rightarrow> ctx_Get ?new k)" using stage_seed_attrs [OF r1(2) dist] by blast
  have c: "\<forall>k \<in> {CtxVoteParticipants, CtxParticipants, CtxAnonParticipants}. ctx_Get c k = Some (VStrings ps)"
    using assms(4) r2(2) by (auto simp: fold_mput_other vote_names key_defs anon_names)
  obtain t3 r3 where r3: "stage ?P sid StateLocked (Some PlaintextKeygenPhase) c t3 r3"
    "advance_to (Suc 7) now sid StateGossip t2 ?r2 = advance_to 7 now sid StateGossip t3 r3"
    using stage_to_hop [OF r2(1) names(1), of PlaintextKeygenPhase c c 7 now] names shuffled_entries by auto
  obtain t4 r4 where r4: "stage ?P sid StateGossip (Some PhaseGShuffle) c t4 r4"
    "advance_to (Suc 6) now sid StateGossip t3 r3 = advance_to 6 now sid StateGossip t4 r4"
    using stage_to_hop [OF r3(1) names(2), of PhaseGShuffle c c 6 now] names shuffled_entries by (auto simp: PhaseGShuffle_def)
  have "length ?P + 1 = 8" by (simp add: shuffled_phases_def)
  then have "AdvanceToState now sid StateGossip ?r2 = advance_to 8 now sid StateGossip t2 ?r2"
    using stage_to_start [OF r2(1) names(1), of now] by (simp del: advance_to.simps)
  also have "\<dots> = (Ok (), r4)" using r3(2) r4(2) stage_to_here [OF r4(1), of 5 now] by (simp del: advance_to.simps)
  finally have adv: "AdvanceToState now sid StateGossip ?r2 = (Ok (), r4)" .
  obtain s1 where s1: "manual_Start mar mt ts sid ps ?attrs s = (Ok (), s1)" "svc_runner s1 = ?r2"
    using r1(1) assms(3) by (cases "ps = []") (auto simp: manual_Start_def Let_def)
  have "voting_Start mar mt now ts sid ps attrs s = (Ok (), s1\<lparr> svc_runner := r4 \<rparr>)"
    using assms(3) s1 adv by (simp add: voting_Start_def Let_def)
  moreover obtain c' where "CurrentState r4 sid = (StateGossip, True)" "session_context_of r4 sid = Some c'" "\<And>k. ctx_Get c' k = ctx_Get c k"
    using stage_ctx [OF r4(1)] by blast
  ultimately show ?thesis using c by auto
qed

end
