(* ===== verification/Admission.thy ===== *)
theory Admission
  imports App_Base
begin

text \<open>
  \<^verbatim>\<open>examples/bounded_admission\<close>: parties submit encrypted vectors, the bound check decides whether each norm is within its bound, and violators
  are recorded. The phases, the pipeline, and the trigger and challenge hook of the session service. Reading and writing JSON and the
  conversion of a float to \<^verbatim>\<open>int\<close> out of range are parameters (\<open>adm_env\<close>), and so is \<^verbatim>\<open>BuildSessionCrypto\<close>, of which the
  repository has a real and a stub version.
\<close>

section \<open>States, keys, values\<close>

definition StateAdmInviting :: session_state where "StateAdmInviting = ''ADMISSION_INVITING''"
definition StateAdmLocked :: session_state where "StateAdmLocked = ''ADMISSION_LOCKED''"
definition StateAdmSubmitting :: session_state where "StateAdmSubmitting = ''ADMISSION_SUBMITTING''"
definition StateAdmChecking :: session_state where "StateAdmChecking = ''ADMISSION_CHECKING''"
definition StateAdmSettled :: session_state where "StateAdmSettled = ''ADMISSION_SETTLED''"
definition CtxAdmissionResults :: string where "CtxAdmissionResults = ''admission.results''"
definition MsgInput :: string where "MsgInput = ''admission.input''"
definition MsgChallenge :: string where "MsgChallenge = ''bound_check.challenge''"
definition bucketInputs :: string where "bucketInputs = ''admission.bucket.inputs''"
definition challenges_sent :: string where "challenges_sent = ''_admission_challenges_sent''"

lemmas adm_states = StateAdmInviting_def StateAdmLocked_def StateAdmSubmitting_def StateAdmChecking_def StateAdmSettled_def StateNone_def

lemmas adm_names = CtxAdmissionResults_def MsgInput_def MsgChallenge_def bucketInputs_def challenges_sent_def CtxEncryptedInputs_def CtxInputDim_def
  CtxEvalKeyBundle_def CtxJointPublicKey_def CtxBoundCheckCiphers_def CtxBoundCheckCommitments_def CtxBoundCheckHandle_def CtxBoundCheckFuse_def
  MsgBoundPartial_def bucketPartials_def

datatype adm_value = Results "(string \<times> string) list" | HandleValue context_handle | FuseValue fuse_fn

fun as_results :: "adm_value any \<Rightarrow> (string \<times> string) list option" where
  "as_results (VApp (Results m)) = Some m"
| "as_results _ = None"

fun as_handle :: "adm_value any \<Rightarrow> context_handle option" where
  "as_handle (VApp (HandleValue h)) = Some h"
| "as_handle _ = None"

fun as_fuse :: "adm_value any \<Rightarrow> fuse_fn option" where
  "as_fuse (VApp (FuseValue f)) = Some f"
| "as_fuse _ = None"

record adm_env =
  an_input :: "bytes \<Rightarrow> (string, string) outcome"
  an_partials :: "bytes \<Rightarrow> (string, (string \<times> bytes) list) outcome"
  an_iter :: "string list \<Rightarrow> string list"
  an_challenge :: "(string \<times> string) list \<Rightarrow> (string \<times> string) list \<Rightarrow> bytes"
  an_int :: "f64 \<Rightarrow> int"

definition adm_bc_env :: "adm_env \<Rightarrow> adm_value bc_env" where
  "adm_bc_env E = \<lparr> env_as_handle = as_handle, env_as_fuse = as_fuse, env_decode = an_partials E, env_iter = an_iter E \<rparr>"

section \<open>The phases\<close>

fun severity_number :: "severity \<Rightarrow> int" where
  "severity_number SeverityOK = 0"
| "severity_number SeveritySoft = 1"
| "severity_number SeverityHard = 2"

definition recorded_results :: "adm_value session_context \<Rightarrow> (string \<times> string) list" where
  "recorded_results ctx = (case TryGet as_results ctx CtxAdmissionResults of None \<Rightarrow> [] | Some results \<Rightarrow> results)"

definition recording_OnViolation :: "adm_value violation_handler" where
  "recording_OnViolation party nu sev ctx =
     (Ok (), ctx_Set ctx CtxAdmissionResults
        (VApp (Results (mput party (''violation:'' @ dec_int (severity_number sev)) (recorded_results ctx)))))"

definition adm_PhaseInvitation :: "adm_value phase" where
  "adm_PhaseInvitation =
     \<lparr> Name = ''admission-invitation'', Lifetime = LifetimePerSession, RunsAt = RunsAtInline,
       EntryState = StateAdmInviting, ExitState = StateAdmLocked, InternalStates = [], ConsumedMessageTypes = [], Requires = [],
       Provides = [(CtxParticipants, ktype ''[]string'' False [])],
       Enter = skip_hook, OnMessage = skip_message, CheckComplete = (\<lambda>_. True), Exit = skip_hook \<rparr>"

definition adm_keygen_Exit :: "adm_value hook" where
  "adm_keygen_Exit ctx =
     (case TryGet as_bytes ctx CtxJointPublicKey of
        Some _ \<Rightarrow> (Ok (), ctx)
      | None \<Rightarrow>
          (Ok (), ctx_Set (ctx_Set (ctx_Set ctx CtxInputDim (VInt KInt 8)) CtxEvalKeyBundle (VBytes (str_bytes ''stub-eval-key-bundle'')))
             CtxJointPublicKey (VBytes (str_bytes ''stub-joint-public-key''))))"

definition adm_PhaseKeygen :: "adm_value phase" where
  "adm_PhaseKeygen =
     \<lparr> Name = ''admission-keygen'', Lifetime = LifetimePerSession, RunsAt = RunsAtInline,
       EntryState = StateAdmLocked, ExitState = StateAdmSubmitting, InternalStates = [], ConsumedMessageTypes = [], Requires = [],
       Provides = [(CtxInputDim, ktype ''int'' False []), (CtxEvalKeyBundle, ktype ''[]byte'' False []), (CtxJointPublicKey, ktype ''[]byte'' False [])],
       Enter = skip_hook, OnMessage = skip_message, CheckComplete = (\<lambda>_. True), Exit = adm_keygen_Exit \<rparr>"

definition input_OnMessage :: "adm_env \<Rightarrow> string \<Rightarrow> string \<Rightarrow> bytes \<Rightarrow> adm_value hook" where
  "input_OnMessage E msgType from payload ctx =
     (case an_input E payload of
        Err e \<Rightarrow> (Err (Note (''decode '' @ from @ '' admission.input'') [] (Msg e [])), ctx)
      | Panic p \<Rightarrow> (Panic p, ctx)
      | Ok encX \<Rightarrow>
          (case hex_decode encX of
             None \<Rightarrow> (Err (Note ''decode enc_x hex from'' from (Msg ''encoding/hex: invalid'' [])), ctx)
           | Some b \<Rightarrow> (Ok (), AccumulateMessage ctx bucketInputs from b)))"

definition input_Exit :: "adm_value hook" where
  "input_Exit ctx = (Ok (), ctx_Set ctx CtxEncryptedInputs (VByteMap (AccumulatedMessages ctx bucketInputs)))"

definition adm_PhaseSubmitInput :: "adm_env \<Rightarrow> adm_value phase" where
  "adm_PhaseSubmitInput E =
     \<lparr> Name = ''admission-submit-input'', Lifetime = LifetimePerSession, RunsAt = RunsAtInline,
       EntryState = StateAdmSubmitting, ExitState = StateAdmChecking, InternalStates = [], ConsumedMessageTypes = [MsgInput],
       Requires = [(CtxParticipants, ktype ''[]string'' True [])],
       Provides = [(CtxEncryptedInputs, ktype ''map[string][]byte'' False [])],
       Enter = skip_hook, OnMessage = input_OnMessage E, CheckComplete = quorum_of CtxParticipants bucketInputs, Exit = input_Exit \<rparr>"

definition adm_settle_Enter :: "adm_value hook" where
  "adm_settle_Enter ctx = (Ok (), ctx_Set ctx CtxAdmissionResults (VApp (Results (recorded_results ctx))))"

definition adm_PhaseSettle :: "adm_value phase" where
  "adm_PhaseSettle =
     \<lparr> Name = ''admission-settle'', Lifetime = LifetimePerSession, RunsAt = RunsAtInline,
       EntryState = StateAdmSettled, ExitState = StateNone, InternalStates = [], ConsumedMessageTypes = [], Requires = [],
       Provides = [(CtxAdmissionResults, ktype ''map[string]string'' False [])],
       Enter = adm_settle_Enter, OnMessage = skip_message, CheckComplete = (\<lambda>_. True), Exit = skip_hook \<rparr>"

text \<open>The bound check on the norm, with a tolerance of 0.05, without a handle or a fuse function of its own.\<close>

definition adm_bound_phase :: "adm_value bc_phase" where
  "adm_bound_phase = NewPhase (NormCircuit (rnd64 (5 / 100)) 8) (Some recording_OnViolation) DefaultParams StateAdmChecking StateAdmSettled"

definition adm_phases :: "adm_env \<Rightarrow> adm_value phase list" where
  "adm_phases E =
     [adm_PhaseInvitation, adm_PhaseKeygen, adm_PhaseSubmitInput E, bound_check_phase (adm_bc_env E) adm_bound_phase, adm_PhaseSettle]"

definition PipelineWithCrypto :: "adm_env \<Rightarrow> (err, adm_value session_runner) outcome" where
  "PipelineWithCrypto E = Compose (adm_phases E)"

section \<open>The session service\<close>

record adm_trigger =
  at_ringDim :: int
  at_depth :: int
  at_inDim :: int

type_synonym build_crypto =
  "int \<Rightarrow> int \<Rightarrow> int \<Rightarrow> bytes \<Rightarrow> bytes \<Rightarrow> bytes \<Rightarrow> (err, (context_handle \<times> fuse_fn) option) outcome"

definition BuildSessionCrypto_stub :: build_crypto where
  "BuildSessionCrypto_stub ringDim depth ndim jointPK evalMultFinal evalSumFinal = Ok None"

text \<open>A hex attribute; one that is absent, empty or not a string is read as no bytes.\<close>

definition hex_attr :: "string \<Rightarrow> (string \<times> adm_value any) list \<Rightarrow> (err, bytes) outcome" where
  "hex_attr key attrs =
     (case Option.bind (map_of attrs key) as_string of
        None \<Rightarrow> Ok []
      | Some s \<Rightarrow>
          if s = [] then Ok []
          else (case hex_decode s of None \<Rightarrow> Err (Note (''decode '' @ key @ '' hex'') [] (Msg ''encoding/hex: invalid'' [])) | Some b \<Rightarrow> Ok b))"

definition dim_attr :: "adm_env \<Rightarrow> int \<Rightarrow> (string \<times> adm_value any) list \<Rightarrow> int" where
  "dim_attr E ndim attrs =
     (case map_of attrs ''dim'' of
        Some (VInt KInt i) \<Rightarrow> i
      | Some (VFloat64 x) \<Rightarrow> an_int E x
      | _ \<Rightarrow> ndim)"

definition adm_attrs :: "string list \<Rightarrow> int \<Rightarrow> bytes \<Rightarrow> bytes \<Rightarrow> (string \<times> adm_value any) list" where
  "adm_attrs participants ndim jointPK evalMultFinal =
     [(CtxParticipants, VStrings participants), (CtxInputDim, VInt KInt ndim)]
       @ (if jointPK = [] then [] else [(CtxJointPublicKey, VBytes jointPK)])
       @ (if evalMultFinal = [] then [] else [(CtxEvalKeyBundle, VBytes evalMultFinal)])"

definition seed_crypto ::
  "build_crypto \<Rightarrow> adm_trigger \<Rightarrow> int \<Rightarrow> string \<Rightarrow> bytes \<Rightarrow> bytes \<Rightarrow> bytes \<Rightarrow> adm_value svc_state \<Rightarrow> (err, unit) outcome \<times> adm_value svc_state" where
  "seed_crypto build trig ndim sessionID jointPK evalMultFinal evalSumFinal s =
     (if jointPK = [] \<or> evalMultFinal = [] \<or> evalSumFinal = [] then (Ok (), s)
      else if session_context_of (svc_runner s) sessionID = None then (Err (Msg ''session context not found after BeginSession'' []), s)
      else case build (at_ringDim trig) (at_depth trig) ndim jointPK evalMultFinal evalSumFinal of
             Err e \<Rightarrow> (Err (Note ''build session crypto'' [] e), s)
           | Panic p \<Rightarrow> (Panic p, s)
           | Ok None \<Rightarrow> (Ok (), s)
           | Ok (Some (handle, fuse)) \<Rightarrow>
               (Ok (), s\<lparr> svc_runner := seed_attrs sessionID
                  [(CtxBoundCheckHandle, VApp (HandleValue handle)), (CtxBoundCheckFuse, VApp (FuseValue fuse))] (svc_runner s) \<rparr>))"

definition admission_Start :: "adm_env \<Rightarrow> build_crypto \<Rightarrow> adm_trigger \<Rightarrow> marshal \<Rightarrow> manual_admin_trigger \<Rightarrow> int \<Rightarrow> adm_value trigger" where
  "admission_Start E build trig mar mt now ts sessionID participants attrs s =
     (case hex_attr ''collective_pk'' attrs of
        Err e \<Rightarrow> (Err e, s) | Panic p \<Rightarrow> (Panic p, s)
      | Ok jointPK \<Rightarrow>
     (case hex_attr ''eval_mult_final'' attrs of
        Err e \<Rightarrow> (Err e, s) | Panic p \<Rightarrow> (Panic p, s)
      | Ok evalMultFinal \<Rightarrow>
     (case hex_attr ''eval_sum_final'' attrs of
        Err e \<Rightarrow> (Err e, s) | Panic p \<Rightarrow> (Panic p, s)
      | Ok evalSumFinal \<Rightarrow>
          (let ndim = dim_attr E (at_inDim trig) attrs in
           case manual_Start mar mt ts sessionID participants (adm_attrs participants ndim jointPK evalMultFinal) s of
             (Ok _, s1) \<Rightarrow>
               (case seed_crypto build trig ndim sessionID jointPK evalMultFinal evalSumFinal s1 of
                  (Ok _, s2) \<Rightarrow>
                    (let (res, r) = AdvanceToState now sessionID StateAdmSubmitting (svc_runner s2) in (res, s2\<lparr> svc_runner := r \<rparr>))
                | e \<Rightarrow> e)
           | e \<Rightarrow> e))))"

definition challengeUnicastIfNeeded :: "adm_env \<Rightarrow> marshal \<Rightarrow> string \<Rightarrow> adm_value post_hook" where
  "challengeUnicastIfNeeded E mar ts from msg e s =
     (case session_context_of (svc_runner s) (ws_SessionID msg) of
        None \<Rightarrow> s
      | Some ctx \<Rightarrow>
          if ctx_Has ctx challenges_sent then s
          else case TryGet as_byte_map ctx CtxBoundCheckCiphers of
                 None \<Rightarrow> s
               | Some checks \<Rightarrow>
                   if checks = [] then s
                   else
                     (let commitments = (case TryGet as_byte_map ctx CtxBoundCheckCommitments of None \<Rightarrow> [] | Some cs \<Rightarrow> cs);
                          participants = (case TryGet as_strings ctx CtxParticipants of None \<Rightarrow> [] | Some ps \<Rightarrow> ps);
                          payload = an_challenge E (map (\<lambda>(p, b). (p, hex_encode b)) checks) (map (\<lambda>(p, b). (p, hex_encode b)) commitments);
                          m = \<lparr> ws_Version = [], ws_Type = MsgChallenge, ws_SessionID = ws_SessionID msg, ws_Seq = 0, ws_Payload = payload,
                                ws_Timestamp = [], ws_Lineage = None \<rparr>
                      in s\<lparr> svc_hub := fold (\<lambda>p h. snd (SendTo mar ts p m h)) participants (svc_hub s),
                            svc_runner := seed_context (ws_SessionID msg) challenges_sent (VBool True) (svc_runner s) \<rparr>))"

end
