(* ===== verification/Admission_Laws.thy ===== *)
theory Admission_Laws
  imports Admission
begin

text \<open>
  What the admission application promises: its pipeline composes, and a round of partial decryptions ends the session only if every party is
  within its bound and sent all its partials; otherwise the session stays in the check and the violators are added to the record. A later
  round may pass, with the violators of earlier rounds still on record.
\<close>

section \<open>The pipeline\<close>

lemmas adm_phase_defs = adm_PhaseInvitation_def adm_PhaseKeygen_def adm_PhaseSubmitInput_def adm_PhaseSettle_def

lemma adm_phases_ok: "pipeline_ok (adm_phases E)" "inlines (adm_phases E) = adm_phases E"
  by (simp_all add: pipeline_simps adm_phases_def adm_phase_defs adm_states adm_names bound_check_phase_def adm_bound_phase_def NewPhase_def)

lemma adm_runner_fresh: "PipelineWithCrypto E = Ok r \<Longrightarrow> fresh_runner (adm_phases E) r"
  unfolding PipelineWithCrypto_def by (rule fresh_Compose [OF adm_phases_ok])

abbreviation check_phase :: "adm_env \<Rightarrow> adm_value phase" where
  "check_phase E \<equiv> bound_check_phase (adm_bc_env E) adm_bound_phase"

interpretation bcc: collecting "bound_check_phase env p" MsgBoundPartial bucketPartials CtxParticipants Ok for env p
proof
  show "CheckComplete (bound_check_phase env p) = quorum_of CtxParticipants bucketPartials"
    by (rule ext) (simp add: bound_check_phase_def bc_CheckComplete_def quorum_of_def)
qed (simp_all add: bound_check_phase_def phaseConsumes_def bc_OnMessage_def bc_names key_defs)

definition input_of :: "adm_env \<Rightarrow> bytes \<Rightarrow> (string, bytes) outcome" where
  "input_of E payload =
     (case an_input E payload of
        Ok encX \<Rightarrow> (case hex_decode encX of None \<Rightarrow> Err ''encoding/hex: invalid'' | Some b \<Rightarrow> Ok b)
      | Err e \<Rightarrow> Err e
      | Panic p \<Rightarrow> Panic p)"

interpretation sic: collecting "adm_PhaseSubmitInput E" MsgInput bucketInputs CtxParticipants "input_of E" for E
  by unfold_locales
     (auto simp: adm_PhaseSubmitInput_def phaseConsumes_def input_OnMessage_def input_of_def adm_names key_defs split: outcome.splits option.splits)

section \<open>Recording violators\<close>

lemma recording_calm: "calm (Some recording_OnViolation)"
  by (simp add: calm_def recording_OnViolation_def)

lemma recording_blind: "store_blind (recording_OnViolation party nu sev)"
  by (simp add: store_blind_def recording_OnViolation_def recorded_results_def)

lemma notify_blind:
  assumes "\<And>party nu sev. store_blind (h party nu sev)" shows "store_blind (notify (Some h) vs)"
proof (induction vs)
  case (Cons v vs)
  obtain party nu sev where v: "v = (party, nu, sev)" by (metis prod_cases3)
  have "h party nu sev (at_store c st) = (fst (h party nu sev c), at_store (snd (h party nu sev c)) st)" for c st
    using assms unfolding store_blind_def by blast
  moreover have "notify (Some h) vs (at_store c st) = (fst (notify (Some h) vs c), at_store (snd (notify (Some h) vs c)) st)" for c st
    using Cons.IH unfolding store_blind_def by blast
  ultimately show ?case by (auto simp: store_blind_def v split: prod.split outcome.split)
qed (simp add: store_blind_def)

lemma check_Exit_blind: "store_blind (Exit (check_phase E))"
proof -
  have n: "notify (Some recording_OnViolation) vs (at_store c st) =
      (fst (notify (Some recording_OnViolation) vs c), at_store (snd (notify (Some recording_OnViolation) vs c)) st)" for vs c st
    using notify_blind [of recording_OnViolation vs, OF recording_blind] unfolding store_blind_def by blast
  show ?thesis
    by (auto simp: store_blind_def bound_check_phase_def bc_Exit_def adm_bound_phase_def NewPhase_def adm_bc_env_def n Let_def
        split: option.split outcome.split prod.split)
qed

definition violation_text :: "severity \<Rightarrow> string" where
  "violation_text sev = ''violation:'' @ dec_int (severity_number sev)"

lemma recorded_notified:
  "map_of (recorded_results (notified (Some recording_OnViolation) vs c)) =
     map_of (recorded_results c) ++ map_of (rev (map (\<lambda>(party, nu, sev). (party, violation_text sev)) vs))"
proof (induction vs arbitrary: c)
  case (Cons v vs)
  obtain party nu sev where v: "v = (party, nu, sev)" by (metis prod_cases3)
  have "recorded_results (snd (recording_OnViolation party nu sev c)) = mput party (violation_text sev) (recorded_results c)"
    by (simp add: recording_OnViolation_def recorded_results_def violation_text_def)
  then show ?case using Cons.IH [of "snd (recording_OnViolation party nu sev c)"]
    by (auto simp: notified_def v fun_eq_iff map_add_def split: option.split)
qed (simp add: notified_def)

lemma notified_get: "k \<noteq> CtxAdmissionResults \<Longrightarrow> ctx_Get (notified (Some recording_OnViolation) vs c) k = ctx_Get c k"
  by (induction vs arbitrary: c) (auto simp: notified_def recording_OnViolation_def)

section \<open>A round\<close>

lemma map_of_rev_const: "map_of (rev (map (\<lambda>s. (s, x)) ws)) q = (if q \<in> set ws then Some x else None)"
  by (induction ws) (auto simp: map_add_def split: option.split)

lemma map_of_rev_filter:
  assumes "\<And>q v. f q = Some v \<Longrightarrow> fst v = q"
  shows "map_of (rev (map (\<lambda>(party, nu, sev). (party, violation_text sev)) (List.map_filter f ps))) q =
    (if q \<in> set ps then map_option (\<lambda>(party, nu, sev). violation_text sev) (f q) else None)"
proof (induction ps)
  case (Cons p ps)
  show ?case
  proof (cases "f p")
    case (Some v)
    obtain nu sev where v: "v = (p, nu, sev)" using assms [OF Some] by (cases v) auto
    show ?thesis using Cons.IH Some by (auto simp: List.map_filter_simps v map_add_def split: option.split)
  qed (use Cons.IH in \<open>auto simp: List.map_filter_simps\<close>)
qed (simp add: List.map_filter_simps)

text \<open>Who is on record after a round: whoever withheld a partial, as a hard violation, and whoever is out of bounds, with the severity of that.\<close>

definition verdict_of :: "fuse_fn \<Rightarrow> (string \<Rightarrow> string \<Rightarrow> bytes option) \<Rightarrow> string list \<Rightarrow> string \<Rightarrow> string option" where
  "verdict_of fuse sent ps q =
     (if q \<notin> set ps then None
      else if \<exists>party \<in> set ps. sent q party = None then Some (violation_text SeverityHard)
      else map_option (\<lambda>(party, nu, sev). violation_text sev)
             (numeric_violation fuse sent (bc_Bound (bp_circuit adm_bound_phase)) (bp_params adm_bound_phase) ps q))"

definition adm_env_ok :: "adm_env \<Rightarrow> bool" where
  "adm_env_ok E \<longleftrightarrow> (\<forall>m x. an_partials E m \<noteq> Panic x) \<and> (\<forall>xs. mset (an_iter E xs) = mset xs)"

lemma check_Exit_verdict:
  assumes "adm_env_ok E" "\<And>xs n x. fuse xs n \<noteq> Panic x" "ctx_Get c CtxBoundCheckFuse = Some (VApp (FuseValue fuse))"
    and "ctx_Get c CtxParticipants = Some (VStrings ps)" "AccumulatedMessages c bucketPartials = ms" "distinct (map fst ms)"
    and "sent = sent_partial (adm_bc_env E) c"
    and "ok = ((\<forall>(_, m) \<in> set ms. is_ok (an_partials E m)) \<and> (\<forall>party \<in> set ps. fuse_works fuse sent ps party))"
  shows "(\<not> ok \<longrightarrow> (\<exists>e. Exit (check_phase E) c = (Err e, c) \<and> err_is e ErrTransient)) \<and>
    (ok \<longrightarrow> (if \<forall>q. verdict_of fuse sent ps q = None then Exit (check_phase E) c = (Ok (), c)
       else \<exists>c'. Exit (check_phase E) c = (Err bound_violation, c') \<and> (\<forall>k. k \<noteq> CtxAdmissionResults \<longrightarrow> ctx_Get c' k = ctx_Get c k) \<and>
              map_of (recorded_results c') = map_of (recorded_results c) ++ verdict_of fuse sent ps))"
proof -
  let ?num = "numeric_violation fuse sent (bc_Bound (bp_circuit adm_bound_phase)) (bp_params adm_bound_phase) ps"
  have h: "bp_handler adm_bound_phase = Some recording_OnViolation" "bp_fuse adm_bound_phase = None"
    by (simp_all add: adm_bound_phase_def NewPhase_def)
  have gen: "(\<not> ok \<longrightarrow> (\<exists>e. Exit (check_phase E) c = (Err e, c) \<and> err_is e ErrTransient \<and> \<not> err_is e ErrAppAttributable)) \<and>
    (ok \<longrightarrow> (\<exists>vs ws. vs = List.map_filter ?num ps @ map (\<lambda>s. (s, f_add (NuHard (bp_params adm_bound_phase)) (Fin 1), SeverityHard)) ws \<and>
        distinct ws \<and> set ws = {s \<in> set ps. \<exists>party \<in> set ps. sent s party = None} \<and>
        Exit (check_phase E) c = (if vs = [] then (Ok (), c) else (Err bound_violation, notified (bp_handler adm_bound_phase) vs c))))"
    unfolding assms(7)
    by (rule bc_Exit_verdict [where fuse = fuse])
       (use assms recording_calm in \<open>simp_all add: h adm_bc_env_def TryGet_def adm_env_ok_def map_wf_def case_prod_unfold\<close>)
  have fst_num: "?num q = Some v \<Longrightarrow> fst v = q" for q v
    by (auto simp: numeric_violation_def split: if_splits outcome.splits list.splits prod.splits)
  show ?thesis
  proof (cases ok)
    case True
    from gen [unfolded h(1), THEN conjunct2, THEN mp, OF this] obtain vs ws where vs: "vs = List.map_filter ?num ps @ map (\<lambda>s. (s, f_add (NuHard (bp_params adm_bound_phase)) (Fin 1), SeverityHard)) ws"
      "set ws = {s \<in> set ps. \<exists>party \<in> set ps. sent s party = None}"
      "Exit (check_phase E) c = (if vs = [] then (Ok (), c) else (Err bound_violation, notified (Some recording_OnViolation) vs c))"
      by (elim exE conjE)
    let ?g = "\<lambda>(party, nu :: f64, sev). (party, violation_text sev)"
    have hard: "map ?g (map (\<lambda>s. (s, f_add (NuHard (bp_params adm_bound_phase)) (Fin 1), SeverityHard)) ws) = map (\<lambda>s. (s, violation_text SeverityHard)) ws"
      by simp
    have v: "map_of (rev (map ?g vs)) q = verdict_of fuse sent ps q" for q
    proof -
      have "map_of (rev (map ?g vs)) q = (if q \<in> set ws then Some (violation_text SeverityHard) else map_of (rev (map ?g (List.map_filter ?num ps))) q)"
        unfolding vs(1) map_append rev_append map_of_append map_add_def hard map_of_rev_const by simp
      also have "map_of (rev (map ?g (List.map_filter ?num ps))) q = (if q \<in> set ps then map_option (\<lambda>(party, nu, sev). violation_text sev) (?num q) else None)"
        by (rule map_of_rev_filter) (rule fst_num)
      finally show ?thesis by (simp add: verdict_of_def vs(2) del: not_None_eq not_Some_eq)
    qed
    have none: "vs = [] \<longleftrightarrow> (\<forall>q. verdict_of fuse sent ps q = None)"
    proof
      assume "\<forall>q. verdict_of fuse sent ps q = None"
      then have "\<forall>q. q \<notin> fst ` set (map ?g vs)" using v by (metis map_of_eq_None_iff set_rev)
      then show "vs = []" by (cases vs) auto
    qed (use v in force)
    have "map_of (recorded_results (notified (Some recording_OnViolation) vs c)) = map_of (recorded_results c) ++ verdict_of fuse sent ps"
      unfolding recorded_notified using v by (simp add: fun_eq_iff map_add_def)
    moreover have "k \<noteq> CtxAdmissionResults \<Longrightarrow> ctx_Get (notified (Some recording_OnViolation) vs c) k = ctx_Get c k" for k
      by (rule notified_get)
    ultimately show ?thesis using True vs(3) none by auto
  qed (use gen in blast)
qed

text \<open>The partial for \<open>party\<close> that a sender's message holds.\<close>

definition partials_of :: "adm_env \<Rightarrow> (string \<times> bytes) list \<Rightarrow> string \<Rightarrow> string \<Rightarrow> bytes option" where
  "partials_of E ms sender party =
     Option.bind (map_of ms sender) (\<lambda>raw. case an_partials E raw of Ok m \<Rightarrow> map_of m party | _ \<Rightarrow> None)"

lemma partials_of_sent: "AccumulatedMessages c bucketPartials = ms \<Longrightarrow> sent_partial (adm_bc_env E) c = partials_of E ms"
  by (auto simp: fun_eq_iff sent_partial_def partials_of_def adm_bc_env_def split: option.split)

lemma settle_entry: "map_of (entries_of (adm_phases E)) (ExitState (check_phase E)) = Some adm_PhaseSettle"
  by (simp add: entries_of_def adm_phases_def adm_phase_defs bound_check_phase_def adm_bound_phase_def NewPhase_def adm_states)

lemma settle_blind: "store_blind adm_settle_Enter"
  by (simp add: store_blind_def adm_settle_Enter_def recorded_results_def TryGet_def)

text \<open>A round without a verdict against anybody ends the session, by way of \<^verbatim>\<open>PhaseSettle\<close>.\<close>

lemma round_settles:
  assumes "stage (adm_phases E) sid StateAdmChecking (Some (check_phase E)) c t r" "Exit (check_phase E) c = (Ok (), c)"
  shows "\<exists>t' r'. advance now sid t r = (Ok True, r') \<and>
    stage (adm_phases E) sid StateNone None (ctx_Set c CtxAdmissionResults (VApp (Results (recorded_results c)))) t' r'"
proof -
  let ?c = "ctx_Set c CtxAdmissionResults (VApp (Results (recorded_results c)))"
  have S: "ExitState (check_phase E) = StateAdmSettled" "StateAdmSettled \<noteq> StateNone"
    by (simp_all add: bound_check_phase_def adm_bound_phase_def NewPhase_def adm_states)
  have P: "Enter adm_PhaseSettle = adm_settle_Enter" "Exit adm_PhaseSettle = skip_hook" "ConsumedMessageTypes adm_PhaseSettle = []"
    "CheckComplete adm_PhaseSettle = (\<lambda>_. True)" "ExitState adm_PhaseSettle = StateNone"
    by (simp_all add: adm_PhaseSettle_def)
  have en: "Enter adm_PhaseSettle c = (Ok (), ?c)"
    by (simp add: P(1) adm_settle_Enter_def)
  obtain t1 r1 where r1: "stage (adm_phases E) sid StateAdmSettled (Some adm_PhaseSettle) ?c t1 r1"
    "advance_loop (Suc 5) now sid t r = advance_loop 5 now sid t1 r1"
    using stage_hop [OF assms(1) settle_entry _ check_Exit_blind assms(2) _ en, of 5 now] S P settle_blind by auto
  obtain t2 r2 where r2: "advance_loop (Suc 4) now sid t1 r1 = (Ok True, r2)" "stage (adm_phases E) sid StateNone None ?c t2 r2"
    using stage_end [OF r1(1) P(5), of ?c 4 now] P(2) by (auto simp: skip_hook_def [abs_def] store_blind_def)
  have "phases r = adm_phases E" using assms(1) by (simp add: stage_def runs_def)
  then have "advance now sid t r = advance_loop (Suc 5) now sid t r" by (simp add: advance_def adm_phases_def eval_nat_numeral del: advance_loop.simps)
  also have "\<dots> = (Ok True, r2)" using r1(2) r2(1) by (simp del: advance_loop.simps)
  finally show ?thesis using r2(2) by blast
qed

lemma round_fails:
  assumes "stage (adm_phases E) sid StateAdmChecking (Some (check_phase E)) c t r" "Exit (check_phase E) c = (Err e, c')"
  shows "\<exists>t' r' e'. advance now sid t r = (Err e', r') \<and> (\<forall>k. err_is e' k = err_is e k) \<and>
    stage (adm_phases E) sid StateAdmChecking (Some (check_phase E)) c' t' r'"
proof -
  obtain t' r' where "advance_loop (Suc (length (phases r))) now sid t r = (Err (Note ''Exit'' (Name (check_phase E)) e), r')"
    "stage (adm_phases E) sid StateAdmChecking (Some (check_phase E)) c' t' r'"
    using stage_exit_fails [OF assms(1) check_Exit_blind assms(2)] by blast
  then show ?thesis by (auto simp: advance_def simp del: advance_loop.simps)
qed

text \<open>
  What a message leaves behind: its answer, the context \<open>c'\<close> and whether the session is still in the check, given the results that were on record before
  (\<open>old\<close>), whether the messages are complete (\<open>full\<close>), whether they can be judged (\<open>ok\<close>), and the verdicts.
\<close>

definition round_outcome ::
  "bool \<Rightarrow> bool \<Rightarrow> (string \<Rightarrow> string option) \<Rightarrow> (string \<times> string) list \<Rightarrow> (err, bool) outcome \<Rightarrow> session_state \<Rightarrow> adm_value session_context \<Rightarrow> bool" where
  "round_outcome full ok verdict old res st c \<longleftrightarrow>
     (if \<not> full then res = Ok False \<and> st = StateAdmChecking \<and> recorded_results c = old
      else if \<not> ok then (\<exists>e. res = Err e \<and> err_is e ErrTransient) \<and> st = StateAdmChecking \<and> recorded_results c = old
      else if \<forall>q. verdict q = None
      then res = Ok True \<and> st = StateNone \<and> ctx_Get c CtxAdmissionResults = Some (VApp (Results old))
      else (\<exists>e. res = Err e \<and> err_is e ErrAppAttributable) \<and> st = StateAdmChecking \<and> map_of (recorded_results c) = map_of old ++ verdict)"

definition in_state :: "adm_env \<Rightarrow> string \<Rightarrow> session_state \<Rightarrow> adm_value session_context \<Rightarrow> adm_value session_runner \<Rightarrow> bool" where
  "in_state E sid st c r \<longleftrightarrow> (\<exists>t. stage (adm_phases E) sid st (if st = StateNone then None else Some (check_phase E)) c t r)"

text \<open>
  Claim C40. What a message of partial decryptions does to a session of the bounded-admission pipeline that is in the check, with participants and a fuse function in its context,
  whatever messages it has and whoever is on record already. The message takes the place of an earlier one of the same sender. Below one message per
  participant the session stays as it is otherwise. From then on every message decides: if one of the messages cannot be decoded, or fusing fails for a party whose partials are complete,
  the error is transient and the record is as it was; if nobody withheld a partial and everybody is within the bound, the session passes
  \<^verbatim>\<open>PhaseSettle\<close> and ends, with the record of earlier failed rounds as its results; otherwise the error is attributable to the application, the session is still in
  the check, and the parties that withheld a partial, as hard violators, and the parties out of bounds, with the severity of that, are added to the record, where
  earlier entries of other parties stay. Of the context only the messages and the record change.
\<close>

theorem admission_round:
  assumes "adm_env_ok E" "\<And>xs n x. fuse xs n \<noteq> Panic x"
    and "in_state E sid StateAdmChecking c r" "ctx_Get c CtxParticipants = Some (VStrings ps)"
    and "ctx_Get c CtxBoundCheckFuse = Some (VApp (FuseValue fuse))" "map_wf (AccumulatedMessages c bucketPartials)"
    and "ms = mput sender m (AccumulatedMessages c bucketPartials)" "sent = partials_of E ms"
  shows "\<exists>res r' st c'. HandleMessage now sid MsgBoundPartial sender m r = (res, r') \<and> in_state E sid st c' r' \<and>
    AccumulatedMessages c' bucketPartials = ms \<and> (\<forall>k. k \<noteq> bucketPartials \<longrightarrow> k \<noteq> CtxAdmissionResults \<longrightarrow> ctx_Get c' k = ctx_Get c k) \<and>
    round_outcome (length ps \<le> length ms) ((\<forall>(_, m) \<in> set ms. is_ok (an_partials E m)) \<and> (\<forall>party \<in> set ps. fuse_works fuse sent ps party))
      (verdict_of fuse sent ps) (recorded_results c) res st c'"
proof -
  let ?c = "AccumulateMessage c bucketPartials sender m"
  define ok where "ok \<longleftrightarrow> (\<forall>(_, m) \<in> set ms. is_ok (an_partials E m)) \<and> (\<forall>party \<in> set ps. fuse_works fuse sent ps party)"
  obtain t where t: "stage (adm_phases E) sid StateAdmChecking (Some (check_phase E)) c t r"
    using assms(3) by (auto simp: in_state_def adm_states)
  obtain t1 r1 where r1: "stage (adm_phases E) sid StateAdmChecking (Some (check_phase E)) ?c t1 r1"
    "HandleMessage now sid MsgBoundPartial sender m r = (if length ms < length ps then (Ok False, r1) else advance now sid t1 r1)"
    using bcc.stage_message [OF t assms(4) refl, where now = now and sender = sender and m = m] unfolding assms(7) by blast
  have acc: "AccumulatedMessages ?c bucketPartials = ms" by (simp add: assms(7))
  have other: "ctx_Get ?c k = ctx_Get c k" if "k \<noteq> bucketPartials" for k using that by simp
  have get: "ctx_Get ?c CtxBoundCheckFuse = Some (VApp (FuseValue fuse))" "ctx_Get ?c CtxParticipants = Some (VStrings ps)"
    using assms(4,5) by (simp_all add: other adm_names key_defs)
  have old: "recorded_results ?c = recorded_results c" by (simp add: recorded_results_def TryGet_def other adm_names)
  have sent: "sent = sent_partial (adm_bc_env E) ?c" unfolding assms(8) using partials_of_sent [OF acc] by simp
  have d: "distinct (map fst ms)" using map_wf_mput [OF assms(6), of sender m] by (simp add: assms(7) map_wf_def)
  note v = check_Exit_verdict [OF assms(1,2) get acc d sent ok_def]
  have msgs: "AccumulatedMessages c' bucketPartials = ms" if "\<forall>k. k \<noteq> CtxAdmissionResults \<longrightarrow> ctx_Get c' k = ctx_Get ?c k" for c'
    using that acc by (simp add: AccumulatedMessages_def adm_names)
  have check: "in_state E sid StateAdmChecking c' r'" if "stage (adm_phases E) sid StateAdmChecking (Some (check_phase E)) c' t' r'" for c' t' r'
    using that by (auto simp: in_state_def adm_states)
  consider "length ms < length ps" | "length ps \<le> length ms" "ok" "\<forall>q. verdict_of fuse sent ps q = None"
    | "length ps \<le> length ms" "\<not> (ok \<and> (\<forall>q. verdict_of fuse sent ps q = None))" by (metis not_less)
  then show ?thesis
  proof cases
    case 1
    then show ?thesis using r1 check [OF r1(1)] acc other old by (intro exI [of _ "Ok False"] exI [of _ r1] exI [of _ StateAdmChecking] exI [of _ ?c]) (simp add: round_outcome_def)
  next
    case 2
    then have "Exit (check_phase E) ?c = (Ok (), ?c)" using v by simp
    then obtain t' r' where r': "advance now sid t1 r1 = (Ok True, r')"
      "stage (adm_phases E) sid StateNone None (ctx_Set ?c CtxAdmissionResults (VApp (Results (recorded_results ?c)))) t' r'"
      using round_settles [OF r1(1)] by blast
    let ?c' = "ctx_Set ?c CtxAdmissionResults (VApp (Results (recorded_results ?c)))"
    have "in_state E sid StateNone ?c' r'" using r'(2) by (auto simp: in_state_def)
    moreover have "AccumulatedMessages ?c' bucketPartials = ms" by (rule msgs) simp
    ultimately show ?thesis
      using 2 r1(2) r'(1) other old ok_def by (intro exI [of _ "Ok True"] exI [of _ r'] exI [of _ StateNone] exI [of _ ?c']) (simp add: round_outcome_def)
  next
    case 3
    then obtain e c' where e: "Exit (check_phase E) ?c = (Err e, c')" "\<forall>k. k \<noteq> CtxAdmissionResults \<longrightarrow> ctx_Get c' k = ctx_Get ?c k"
      "if ok then e = bound_violation \<and> map_of (recorded_results c') = map_of (recorded_results c) ++ verdict_of fuse sent ps
       else c' = ?c \<and> err_is e ErrTransient" using v old by (cases ok) (auto split: if_splits)
    obtain t' r' e' where r': "advance now sid t1 r1 = (Err e', r')" "\<forall>k. err_is e' k = err_is e k"
      "stage (adm_phases E) sid StateAdmChecking (Some (check_phase E)) c' t' r'" using round_fails [OF r1(1) e(1)] by blast
    have "round_outcome True ok (verdict_of fuse sent ps) (recorded_results c) (Err e') StateAdmChecking c'"
      using 3(2) e(3) r'(2) old by (cases ok) (auto simp: round_outcome_def bound_violation_def)
    then show ?thesis
      using 3(1) r1(2) r'(1) check [OF r'(3)] msgs [OF e(2)] e(2) other ok_def
      by (intro exI [of _ "Err e'"] exI [of _ r'] exI [of _ StateAdmChecking] exI [of _ c']) auto
  qed
qed

section \<open>Two rounds of two\<close>

text \<open>Ann sends a partial for both, Bob first sends none and then both.\<close>

definition two_env :: adm_env where
  "two_env = \<lparr> an_input = (\<lambda>_. Err ''json''), an_partials = (\<lambda>m. Ok (if m = [1] then [(''ann'', [9]), (''bob'', [9])] else [])),
     an_iter = (\<lambda>xs. xs), an_challenge = (\<lambda>_ _. []), an_int = (\<lambda>_. 0) \<rparr>"

definition two_fuse :: fuse_fn where "two_fuse _ _ = Ok [Fin 1]"

definition two_ctx :: "adm_value session_context" where
  "two_ctx = ctx_Set (ctx_Set (NewSessionContext ''s'') CtxParticipants (VStrings [''ann'', ''bob''])) CtxBoundCheckFuse (VApp (FuseValue two_fuse))"

lemma two_ctx_get:
  "ctx_Get two_ctx CtxParticipants = Some (VStrings [''ann'', ''bob''])" "ctx_Get two_ctx CtxBoundCheckFuse = Some (VApp (FuseValue two_fuse))"
  "AccumulatedMessages two_ctx bucketPartials = []"
  by (simp_all add: two_ctx_def adm_names key_defs NewSessionContext_def AccumulatedMessages_def ctx_Get_def ctx_Set_def)

lemma two_start: "\<exists>r. in_state two_env ''s'' StateAdmChecking two_ctx r"
proof -
  obtain r0 where "PipelineWithCrypto two_env = Ok r0" using adm_phases_ok(1) Compose_accepts unfolding PipelineWithCrypto_def by (metis is_ok_iff)
  then have r0: "runs (adm_phases two_env) r0" using adm_runner_fresh by (fastforce simp: runs_def fresh_runner_def)
  let ?t = "\<lparr> trk_ctx = two_ctx, trk_state = StateAdmChecking, trk_current = Some (check_phase two_env), trk_entered = True \<rparr>"
  have "sits ''s'' StateAdmChecking (Some (check_phase two_env)) two_ctx ?t (put_tracker ''s'' ?t r0)"
    by (auto simp: sits_def intro: exI [of _ "ctx_lineageStore two_ctx"])
  then show ?thesis using runs_same [OF same_setup_put(1) r0] unfolding in_state_def stage_def by (auto simp: adm_states)
qed

lemma two_ok: "adm_env_ok two_env" "two_fuse xs n \<noteq> Panic x" "is_ok (an_partials two_env m)" "fuse_works two_fuse sent ps party"
  by (simp_all add: adm_env_ok_def two_env_def two_fuse_def fuse_works_def fused_def)

lemma two_missing: "verdict_of two_fuse (partials_of two_env [(''ann'', [1]), (''bob'', [2])]) [''ann'', ''bob''] ''bob'' = Some ''violation:2''"
proof -
  have "dec_int 2 = ''2''" by code_simp
  moreover have "\<exists>party \<in> set [''ann'', ''bob'']. partials_of two_env [(''ann'', [1]), (''bob'', [2])] ''bob'' party = None"
    by (rule bexI [of _ "''ann''"]) (simp_all add: partials_of_def two_env_def)
  ultimately show ?thesis by (simp add: verdict_of_def violation_text_def)
qed

text \<open>The binary64 numbers of the tolerance and of the bound.\<close>

lemma tolerance_lg:
  "lg (1 / 20) = -5" "lg (1 / 100) = -7" "lg (125 / 100) = 0" "lg (1 - 3602879701896397 / 2 ^ 56) = -1" "lg (1 + 3602879701896397 / 2 ^ 56) = 0"
  by (simp_all add: lg.simps)

lemma tolerance_floor:
  "\<lfloor>36028797018963968 / 5 :: rat\<rfloor> = 7205759403792793" "\<lfloor>144115188075855872 / 25 :: rat\<rfloor> = 5764607523034234"
  "\<lfloor>68454714336031539 / 8 :: rat\<rfloor> = 8556839292003942" "\<lfloor>75660473739824333 / 16 :: rat\<rfloor> = 4728779608739020"
  by (rule floor_unique; simp)+

lemma tolerance_rounded:
  "rnd64 (1 / 20) = Fin (3602879701896397 / 2 ^ 56)" "rnd64 (1 / 100) = Fin (5764607523034235 / 576460752303423488)" "rnd64 (125 / 100) = Fin (125 / 100)"
  by (simp_all add: rnd64_def tolerance_lg [simplified] Let_def rne_def tolerance_floor)

lemma bound_rounded:
  "f_sub (Fin 1) (Fin (3602879701896397 / 2 ^ 56)) = Fin (4278419646001971 / 4503599627370496)"
  "f_add (Fin 1) (Fin (3602879701896397 / 2 ^ 56)) = Fin (4728779608739021 / 4503599627370496)"
  by (simp add: f_sub_def, simp add: rnd64_def tolerance_lg [simplified] Let_def rne_def tolerance_floor)
     (simp, simp add: rnd64_def tolerance_lg [simplified] Let_def rne_def tolerance_floor)

lemma two_within: "classify (Fin 1) (bc_Bound (bp_circuit adm_bound_phase)) (bp_params adm_bound_phase) = (Fin 0, SeverityOK)"
proof -
  have b: "bc_Bound (bp_circuit adm_bound_phase) = \<lparr> bd_Lo = Fin (4278419646001971 / 4503599627370496), bd_Hi = Fin (4728779608739021 / 4503599627370496) \<rparr>"
    using tolerance_rounded(1) bound_rounded by (simp add: adm_bound_phase_def NewPhase_def NormCircuit_def)
  have p: "bp_params adm_bound_phase = \<lparr> EpsNorm = Fin (5764607523034235 / 576460752303423488), NuHard = Fin (125 / 100) \<rparr>"
    using tolerance_rounded(2,3) by (simp add: adm_bound_phase_def NewPhase_def DefaultParams_def)
  show ?thesis unfolding b p
    by (rule classify_verdict [THEN conjunct2, THEN conjunct2, THEN conjunct1, rule_format,
          of _ _ "4278419646001971 / 4503599627370496" "4728779608739021 / 4503599627370496" _ 1]) simp_all
qed

lemma two_passes: "verdict_of two_fuse (partials_of two_env [(''ann'', [1]), (''bob'', [1])]) [''ann'', ''bob''] q = None"
  using two_within by (auto simp: verdict_of_def numeric_violation_def fused_def two_fuse_def partials_of_def two_env_def split: prod.splits)

text \<open>The results of the session that ends with everybody within the bound still name Bob as a violator.\<close>

lemma admission_round_witness:
  "\<exists>r r1 r2 r3 e c old. in_state two_env ''s'' StateAdmChecking two_ctx r \<and>
     HandleMessage 0 ''s'' MsgBoundPartial ''ann'' [1] r = (Ok False, r1) \<and>
     HandleMessage 1 ''s'' MsgBoundPartial ''bob'' [2] r1 = (Err e, r2) \<and> err_is e ErrAppAttributable \<and>
     HandleMessage 2 ''s'' MsgBoundPartial ''bob'' [1] r2 = (Ok True, r3) \<and>
     in_state two_env ''s'' StateNone c r3 \<and> ctx_Get c CtxAdmissionResults = Some (VApp (Results old)) \<and> map_of old ''bob'' = Some ''violation:2''"
proof -
  note round = admission_round [OF two_ok(1,2) _ _ _ _ refl refl, unfolded two_ok(3,4), where sid = "''s''"]
  have apart: "CtxParticipants \<noteq> bucketPartials" "CtxParticipants \<noteq> CtxAdmissionResults" "CtxBoundCheckFuse \<noteq> bucketPartials" "CtxBoundCheckFuse \<noteq> CtxAdmissionResults"
    by (simp_all add: adm_names key_defs)
  obtain r where r: "in_state two_env ''s'' StateAdmChecking two_ctx r" using two_start by blast
  obtain r1 c1 where r1: "HandleMessage 0 ''s'' MsgBoundPartial ''ann'' [1] r = (Ok False, r1)" "in_state two_env ''s'' StateAdmChecking c1 r1"
    "AccumulatedMessages c1 bucketPartials = [(''ann'', [1])]" "ctx_Get c1 CtxParticipants = Some (VStrings [''ann'', ''bob''])"
    "ctx_Get c1 CtxBoundCheckFuse = Some (VApp (FuseValue two_fuse))"
    using round [OF r two_ctx_get(1,2), where sender = "''ann''" and m = "[1]" and now = 0] two_ctx_get apart by (auto simp: round_outcome_def)
  have some: "(\<forall>q. verdict_of two_fuse (partials_of two_env [(''ann'', [1]), (''bob'', [2])]) [''ann'', ''bob''] q = None) = False"
    using two_missing by (metis option.distinct(1))
  obtain e r2 c2 where r2: "HandleMessage 1 ''s'' MsgBoundPartial ''bob'' [2] r1 = (Err e, r2)" "err_is e ErrAppAttributable"
    "in_state two_env ''s'' StateAdmChecking c2 r2" "AccumulatedMessages c2 bucketPartials = [(''ann'', [1]), (''bob'', [2])]"
    "ctx_Get c2 CtxParticipants = Some (VStrings [''ann'', ''bob''])" "ctx_Get c2 CtxBoundCheckFuse = Some (VApp (FuseValue two_fuse))"
    "map_of (recorded_results c2) ''bob'' = Some ''violation:2''"
    using round [OF r1(2,4,5), where sender = "''bob''" and m = "[2]" and now = 1] r1(3-5) apart two_missing some by (auto simp: round_outcome_def map_wf_def two_ok)
  obtain r3 c3 where "HandleMessage 2 ''s'' MsgBoundPartial ''bob'' [1] r2 = (Ok True, r3)" "in_state two_env ''s'' StateNone c3 r3"
    "ctx_Get c3 CtxAdmissionResults = Some (VApp (Results (recorded_results c2)))"
    using round [OF r2(3,5,6), where sender = "''bob''" and m = "[1]" and now = 2] r2(4) two_passes by (auto simp: round_outcome_def map_wf_def two_ok)
  then show ?thesis using r r1(1) r2(1,2,7) by blast
qed

section \<open>The challenge\<close>

text \<open>The hook sends the challenges of a session once: another frame of the session leaves the service as it is.\<close>

lemma seeded_ctx: "session_context_of r sid = Some c \<Longrightarrow> session_context_of (seed_context sid k v r) sid = Some (ctx_Set c k v)"
  by (auto simp: session_context_of_def seed_context_def split: option.splits)

lemma challenge_once:
  assumes "s' = challengeUnicastIfNeeded E mar ts from msg e s" "ws_SessionID msg' = ws_SessionID msg" "s' \<noteq> s"
  shows "challengeUnicastIfNeeded E mar ts' from' msg' e' s' = s'"
proof -
  obtain c where c: "session_context_of (svc_runner s) (ws_SessionID msg) = Some c"
    using assms(1,3) by (auto simp: challengeUnicastIfNeeded_def split: option.splits)
  have "svc_runner s' = seed_context (ws_SessionID msg) challenges_sent (VBool True) (svc_runner s)"
    using assms(1,3) by (auto simp: challengeUnicastIfNeeded_def Let_def split: option.splits if_splits)
  then show ?thesis using seeded_ctx [OF c] assms(2) by (simp add: challengeUnicastIfNeeded_def ctx_Has_def ctx_Set_def)
qed

end
