(* ===== verification/Authclient.thy ===== *)
theory Authclient
  imports Transport_Hub
begin

text \<open>
  \<^verbatim>\<open>pkg/ares/authclient\<close>: the issuing and verification of credentials (\<^verbatim>\<open>credentials.go\<close>) and the HTTP
  authentication service that turns a credential into a WebSocket token (\<^verbatim>\<open>service.go\<close>).

  A credential blob is its envelope: \<^verbatim>\<open>json.Marshal\<close> of it, plain or in base64, and the decoding
  in \<^verbatim>\<open>Verify\<close> belong to the standard library, so a blob is the decoded envelope or the text of
  the decoding error. The random bytes of the nonce are an argument, and so is the clock
  (nanoseconds since the epoch).
\<close>

section \<open>Credentials\<close>

definition CredentialVersion :: int where
  "CredentialVersion = 1"

datatype cred_err =
    ErrCredentialExpired
  | ErrCredentialSignature
  | ErrMissingSigningKey
  | DecodeCredential string
  | UnsupportedVersion int
  | UnexpectedIssuer string string
  | RandFailed string

record claims =
  cm_Version :: int
  cm_Issuer :: string
  cm_AccountID :: string
  cm_SubjectHash :: string
  cm_Provider :: string
  cm_TokenHash :: string
  cm_Nonce :: string
  cm_IssuedAt :: int
  cm_ExpiresAt :: int

record envelope =
  env_Claims :: claims
  env_Signature :: string

record issuer =
  is_Issuer :: string
  is_SigningKey :: bytes
  is_TTL :: int

definition defaultTTL :: int where
  "defaultTTL = 30 * 24 * 3600 * 1000000000"

definition NewIssuer :: "string \<Rightarrow> bytes \<Rightarrow> issuer" where
  "NewIssuer issuerName signingKey = \<lparr> is_Issuer = issuerName, is_SigningKey = signingKey, is_TTL = defaultTTL \<rparr>"

text \<open>The environment variable, empty when unset; the result \<open>None\<close> is a nil key.\<close>

definition SigningKeyFromEnv :: "string \<Rightarrow> bool \<Rightarrow> bytes option" where
  "SigningKeyFromEnv raw production =
     (if raw \<noteq> []
      then case hex_decode raw of
             Some decoded \<Rightarrow> if length decoded \<ge> 32 then Some decoded else Some (str_bytes raw)
           | None \<Rightarrow> Some (str_bytes raw)
      else if production then None
      else Some (str_bytes ''ares-dev-credential-signing-key-do-not-use''))"

definition time_Unix :: "int \<Rightarrow> int" where
  "time_Unix t = t div 1000000000"

definition hashString :: "string \<Rightarrow> string" where
  "hashString value = hex_encode (sha256 (str_bytes value))"

definition randomHex :: "string + bytes \<Rightarrow> (cred_err, string) outcome" where
  "randomHex rnd = (case rnd of Inl e \<Rightarrow> Err (RandFailed e) | Inr buf \<Rightarrow> Ok (hex_encode buf))"

definition canonical_parts :: "claims \<Rightarrow> string list" where
  "canonical_parts c =
     [''account_id='' @ cm_AccountID c,
      ''expires_at='' @ dec_int (cm_ExpiresAt c),
      ''issued_at='' @ dec_int (cm_IssuedAt c),
      ''issuer='' @ cm_Issuer c,
      ''nonce='' @ cm_Nonce c,
      ''provider='' @ cm_Provider c,
      ''subject_hash='' @ cm_SubjectHash c,
      ''token_hash='' @ cm_TokenHash c,
      ''version='' @ dec_int (cm_Version c)]"

definition canonical :: "claims \<Rightarrow> string list" where
  "canonical c = sort (canonical_parts c)"

definition mac_input :: "claims \<Rightarrow> bytes" where
  "mac_input c = concat (map (\<lambda>part. str_bytes part @ [0]) (canonical c))"

definition sign :: "bytes \<Rightarrow> claims \<Rightarrow> string" where
  "sign key c = hex_encode (hmac_sha256 key (mac_input c))"

definition IssueWithTokenHash ::
  "int \<Rightarrow> string + bytes \<Rightarrow> issuer \<Rightarrow> string \<Rightarrow> string \<Rightarrow> string \<Rightarrow> (cred_err, envelope) outcome" where
  "IssueWithTokenHash now rnd s accountID provider tokenHash =
     (if is_SigningKey s = [] then Err ErrMissingSigningKey
      else case randomHex rnd of
             Err e \<Rightarrow> Err e
           | Panic m \<Rightarrow> Panic m
           | Ok nonce \<Rightarrow>
               (let ttl = (if is_TTL s \<le> 0 then defaultTTL else is_TTL s);
                    c = \<lparr> cm_Version = CredentialVersion, cm_Issuer = is_Issuer s, cm_AccountID = accountID,
                          cm_SubjectHash = hashString (is_Issuer s @ ''|'' @ provider @ ''|'' @ accountID @ ''|'' @ nonce),
                          cm_Provider = provider, cm_TokenHash = tokenHash, cm_Nonce = nonce,
                          cm_IssuedAt = time_Unix now, cm_ExpiresAt = time_Unix (now + ttl) \<rparr>
                in Ok \<lparr> env_Claims = c, env_Signature = sign (is_SigningKey s) c \<rparr>))"

definition Issue :: "int \<Rightarrow> string + bytes \<Rightarrow> issuer \<Rightarrow> string \<Rightarrow> string \<Rightarrow> (cred_err, envelope) outcome" where
  "Issue now rnd s accountID provider =
     IssueWithTokenHash now rnd s accountID provider (hashString (accountID @ ''|'' @ provider))"

definition cred_Verify :: "int \<Rightarrow> issuer \<Rightarrow> string + envelope \<Rightarrow> (cred_err, claims) outcome" where
  "cred_Verify now s blob =
     (if is_SigningKey s = [] then Err ErrMissingSigningKey
      else case blob of
             Inl e \<Rightarrow> Err (DecodeCredential e)
           | Inr env \<Rightarrow>
               (let c = env_Claims env in
                if sign (is_SigningKey s) c \<noteq> env_Signature env then Err ErrCredentialSignature
                else if cm_ExpiresAt c \<le> time_Unix now then Err ErrCredentialExpired
                else if cm_Version c \<noteq> CredentialVersion then Err (UnsupportedVersion (cm_Version c))
                else if cm_Issuer c \<noteq> is_Issuer s then Err (UnexpectedIssuer (cm_Issuer c) (is_Issuer s))
                else Ok c))"

section \<open>The authentication service\<close>

record auth_service =
  au_Issuer :: issuer
  au_WSSecret :: bytes

definition NewAuthService :: "issuer \<Rightarrow> bytes \<Rightarrow> auth_service" where
  "NewAuthService iss wsSecret = \<lparr> au_Issuer = iss, au_WSSecret = wsSecret \<rparr>"

datatype auth_body =
    AuthText string
  | AuthError string cred_err
  | IssueResponse envelope
  | VerifyResponse bool "claims option" "cred_err option"
  | WSTokenResponse string string
  | AuthHealth string

record auth_response =
  ar_status :: nat
  ar_body :: auth_body

record issue_request =
  ir_AccountID :: string
  ir_Provider :: string

record ws_token_request =
  wr_Pseudonym :: string
  wr_Credential :: "string + envelope"

definition handleIssue :: "int \<Rightarrow> string + bytes \<Rightarrow> auth_service \<Rightarrow> string + issue_request \<Rightarrow> auth_response option" where
  "handleIssue now rnd s body =
     (case body of
        Inl e \<Rightarrow> Some \<lparr> ar_status = 400, ar_body = AuthText (''invalid json: '' @ e) \<rparr>
      | Inr req \<Rightarrow>
          if ir_AccountID req = [] then Some \<lparr> ar_status = 400, ar_body = AuthText ''account_id is required'' \<rparr>
          else
            (let provider = (if ir_Provider req = [] then ''anonymous'' else ir_Provider req) in
             case Issue now rnd (au_Issuer s) (ir_AccountID req) provider of
               Err e \<Rightarrow> Some \<lparr> ar_status = 500, ar_body = AuthError [] e \<rparr>
             | Panic m \<Rightarrow> None
             | Ok env \<Rightarrow> Some \<lparr> ar_status = 200, ar_body = IssueResponse env \<rparr>))"

definition handleVerify :: "int \<Rightarrow> auth_service \<Rightarrow> string + (string + envelope) \<Rightarrow> auth_response option" where
  "handleVerify now s body =
     (case body of
        Inl e \<Rightarrow> Some \<lparr> ar_status = 400, ar_body = AuthText (''invalid json: '' @ e) \<rparr>
      | Inr credential \<Rightarrow>
          (case cred_Verify now (au_Issuer s) credential of
             Err e \<Rightarrow> Some \<lparr> ar_status = 200, ar_body = VerifyResponse False None (Some e) \<rparr>
           | Panic m \<Rightarrow> None
           | Ok c \<Rightarrow> Some \<lparr> ar_status = 200, ar_body = VerifyResponse True (Some c) None \<rparr>))"

definition wsTokenFor :: "bytes \<Rightarrow> string \<Rightarrow> string" where
  "wsTokenFor secret pseudonym = hex_encode (hmac_sha256 secret (str_bytes pseudonym))"

definition DeriveWSToken :: "bytes \<Rightarrow> string \<Rightarrow> string" where
  "DeriveWSToken wsSecret pseudonym = wsTokenFor wsSecret pseudonym"

definition handleWSToken :: "int \<Rightarrow> auth_service \<Rightarrow> string + ws_token_request \<Rightarrow> auth_response option" where
  "handleWSToken now s body =
     (case body of
        Inl e \<Rightarrow> Some \<lparr> ar_status = 400, ar_body = AuthText (''invalid json: '' @ e) \<rparr>
      | Inr req \<Rightarrow>
          if wr_Pseudonym req = [] then Some \<lparr> ar_status = 400, ar_body = AuthText ''pseudonym is required'' \<rparr>
          else
            (case cred_Verify now (au_Issuer s) (wr_Credential req) of
               Err e \<Rightarrow> Some \<lparr> ar_status = 401, ar_body = AuthError ''invalid credential: '' e \<rparr>
             | Panic m \<Rightarrow> None
             | Ok _ \<Rightarrow> Some \<lparr> ar_status = 200,
                 ar_body = WSTokenResponse (wr_Pseudonym req) (wsTokenFor (au_WSSecret s) (wr_Pseudonym req)) \<rparr>))"

definition auth_handleHealth :: "auth_response" where
  "auth_handleHealth = \<lparr> ar_status = 200, ar_body = AuthHealth ''auth-service'' \<rparr>"

section \<open>What the signature covers\<close>

text \<open>The labels of the nine parts are already in order, so sorting changes nothing.\<close>

lemma canonical_sorted: "canonical c = canonical_parts c"
proof -
  have lt: "(CHR ''a'' :: char) < CHR ''e''" "CHR ''e'' < CHR ''i''" "CHR ''d'' < CHR ''r''" "CHR ''i'' < CHR ''n''"
    "CHR ''n'' < CHR ''p''" "CHR ''p'' < CHR ''s''" "CHR ''s'' < CHR ''t''" "CHR ''t'' < CHR ''v''"
    by code_simp+
  have "sorted (canonical_parts c)"
    unfolding sorted_wrt2_simps canonical_parts_def sorted2_simps by (simp add: lt less_imp_le)
  then show ?thesis by (simp add: canonical_def sort_key_id_if_sorted)
qed

definition nul_free :: "claims \<Rightarrow> bool" where
  "nul_free c \<longleftrightarrow> (\<forall>part \<in> set (canonical_parts c). CHR 0x00 \<notin> set part)"

lemma nul_terminated_inj:
  assumes "\<forall>x \<in> set xs. 0 \<notin> set x" "\<forall>y \<in> set ys. 0 \<notin> set y" "length xs = length ys"
    and "concat (map (\<lambda>x. x @ [0]) xs) = concat (map (\<lambda>x. x @ [0]) ys)"
  shows "(xs :: byte list list) = ys"
  using assms(3,1,2,4)
proof (induction xs ys rule: list_induct2)
  case (Cons x xs y ys)
  have split: "takeWhile (\<lambda>b. b \<noteq> 0) (z @ [0] @ r) = z \<and> dropWhile (\<lambda>b. b \<noteq> 0) (z @ [0] @ r) = [0] @ r"
    if "0 \<notin> set z" for z r :: bytes
    using that by (induction z) auto
  have eq: "x @ [0] @ concat (map (\<lambda>x. x @ [0]) xs) = y @ [0] @ concat (map (\<lambda>x. x @ [0]) ys)" using Cons.prems by simp
  have "x = y" using split [of x] split [of y] eq Cons.prems(1,2) by (metis list.set_intros(1))
  then show ?case using Cons eq by simp
qed simp

lemma str_bytes_nul: "0 \<in> set (str_bytes s) \<longleftrightarrow> CHR 0x00 \<in> set s"
proof -
  have "(0 :: byte) = of_char (CHR 0x00)" by simp
  then show ?thesis unfolding str_bytes_def set_map by (metis (no_types, lifting) image_iff of_char_byte_inj)
qed

lemma mac_input_inj:
  assumes "nul_free c" "nul_free d" "mac_input c = mac_input d"
  shows "c = d"
proof -
  have "map str_bytes (canonical_parts c) = map str_bytes (canonical_parts d)"
    by (rule nul_terminated_inj)
       (use assms in \<open>auto simp: nul_free_def str_bytes_nul mac_input_def canonical_sorted comp_def\<close>,
        simp add: canonical_parts_def)
  then have "canonical_parts c = canonical_parts d"
    using str_bytes_inj by (metis inj_def inj_map_eq_map)
  then show ?thesis by (simp add: canonical_parts_def dec_int_inj)
qed

text \<open>
  With NUL characters the concatenation is ambiguous: the end of the provider can be read as the
  beginning of the subject hash, so one signature is valid for two different sets of claims.
\<close>

lemma nul_ambiguity:
  assumes "cm_Provider c = p @ [CHR 0x00] @ ''subject_hash='' @ x"
  shows "sign key (c\<lparr> cm_Provider := p, cm_SubjectHash := x @ [CHR 0x00] @ ''subject_hash='' @ cm_SubjectHash c \<rparr>) = sign key c \<and>
    c\<lparr> cm_Provider := p, cm_SubjectHash := x @ [CHR 0x00] @ ''subject_hash='' @ cm_SubjectHash c \<rparr> \<noteq> c"
proof
  show "sign key (c\<lparr> cm_Provider := p, cm_SubjectHash := x @ [CHR 0x00] @ ''subject_hash='' @ cm_SubjectHash c \<rparr>) = sign key c"
    using assms by (simp add: sign_def mac_input_def canonical_sorted) (simp add: canonical_parts_def)
  have "cm_Provider (c\<lparr> cm_Provider := p, cm_SubjectHash := x @ [CHR 0x00] @ ''subject_hash='' @ cm_SubjectHash c \<rparr>) \<noteq> cm_Provider c"
    using assms by simp
  then show "c\<lparr> cm_Provider := p, cm_SubjectHash := x @ [CHR 0x00] @ ''subject_hash='' @ cm_SubjectHash c \<rparr> \<noteq> c"
    by metis
qed

section \<open>Properties\<close>

text \<open>
  Issued credentials verify: a credential that \<^verbatim>\<open>Issue\<close> returns carries the account, the
  provider, the issuer's name and the current version; the same issuer accepts it at every time
  before the expiry it carries (the issuer's time to live, 30 days by default) and returns exactly
  its claims, and from the expiry on answers \<^verbatim>\<open>ErrCredentialExpired\<close>; an issuer with the same key
  but another name refuses it.
\<close>

theorem credential_roundtrip:
  assumes "Issue now rnd iss accountID provider = Ok env"
  shows "cm_AccountID (env_Claims env) = accountID \<and> cm_Provider (env_Claims env) = provider \<and>
    cm_ExpiresAt (env_Claims env) = time_Unix (now + (if is_TTL iss \<le> 0 then defaultTTL else is_TTL iss)) \<and>
    cred_Verify t iss (Inr env) = (if time_Unix t < cm_ExpiresAt (env_Claims env) then Ok (env_Claims env) else Err ErrCredentialExpired) \<and>
    (\<forall>other. is_SigningKey other = is_SigningKey iss \<and> is_Issuer other \<noteq> is_Issuer iss \<longrightarrow>
       \<not> is_ok (cred_Verify t other (Inr env)))"
proof -
  obtain nonce where "randomHex rnd = Ok nonce" "is_SigningKey iss \<noteq> []"
    using assms by (auto simp: Issue_def IssueWithTokenHash_def split: if_splits outcome.splits)
  then show ?thesis
    using assms by (auto simp: Issue_def IssueWithTokenHash_def cred_Verify_def Let_def)
qed

definition sample_issuer :: issuer where
  "sample_issuer = NewIssuer ''ares'' [1, 2]"

lemma sample_Issue_Ok: "\<exists>env. Issue 0 (Inr [7]) sample_issuer ''alice'' ''test'' = Ok env"
  by (simp add: Issue_def IssueWithTokenHash_def sample_issuer_def NewIssuer_def randomHex_def Let_def)

lemma credential_roundtrip_witness:
  "\<exists>env. Issue 0 (Inr [7]) sample_issuer ''alice'' ''test'' = Ok env \<and> cred_Verify 0 sample_issuer (Inr env) = Ok (env_Claims env)"
proof -
  obtain env where env: "Issue 0 (Inr [7]) sample_issuer ''alice'' ''test'' = Ok env" using sample_Issue_Ok by blast
  then show ?thesis
    using credential_roundtrip [OF env, of 0]
    by (simp add: time_Unix_def sample_issuer_def NewIssuer_def defaultTTL_def)
qed

text \<open>
  Claim C19. A credential cannot be altered: when \<^verbatim>\<open>Verify\<close> accepts claims under the signature that the
  issuer made for other claims, both without NUL characters, the claims are the same or the two HMAC
  inputs are a SHA-256 collision. \<^verbatim>\<open>Verify\<close> accepts exactly the unexpired claims of its own name and of
  the current version whose signature matches, and it never panics.
\<close>

theorem credential_binding:
  "(cred_Verify now iss (Inr env) = Ok c \<longleftrightarrow>
      c = env_Claims env \<and> is_SigningKey iss \<noteq> [] \<and> env_Signature env = sign (is_SigningKey iss) c \<and>
      time_Unix now < cm_ExpiresAt c \<and> cm_Version c = CredentialVersion \<and> cm_Issuer c = is_Issuer iss) \<and>
   (cred_Verify now iss (Inr \<lparr> env_Claims = c, env_Signature = sign (is_SigningKey iss) d \<rparr>) = Ok c \<and>
      nul_free c \<and> nul_free d \<longrightarrow>
      c = d \<or> sha_collision (hmac_inner (is_SigningKey iss) (mac_input c)) (hmac_inner (is_SigningKey iss) (mac_input d)) \<or>
      sha_collision (hmac_outer (is_SigningKey iss) (mac_input c)) (hmac_outer (is_SigningKey iss) (mac_input d))) \<and>
   fails_only (\<lambda>_. True) (cred_Verify now iss blob)"
proof (intro conjI impI)
  show "cred_Verify now iss (Inr env) = Ok c \<longleftrightarrow>
      c = env_Claims env \<and> is_SigningKey iss \<noteq> [] \<and> env_Signature env = sign (is_SigningKey iss) c \<and>
      time_Unix now < cm_ExpiresAt c \<and> cm_Version c = CredentialVersion \<and> cm_Issuer c = is_Issuer iss"
    by (auto simp: cred_Verify_def Let_def)
  show "fails_only (\<lambda>_. True) (cred_Verify now iss blob)"
    by (auto simp: cred_Verify_def Let_def split: sum.split)
next
  assume a: "cred_Verify now iss (Inr \<lparr> env_Claims = c, env_Signature = sign (is_SigningKey iss) d \<rparr>) = Ok c \<and> nul_free c \<and> nul_free d"
  then have "hmac_sha256 (is_SigningKey iss) (mac_input c) = hmac_sha256 (is_SigningKey iss) (mac_input d)"
    by (auto simp: cred_Verify_def Let_def sign_def split: if_splits)
  then show "c = d \<or> sha_collision (hmac_inner (is_SigningKey iss) (mac_input c)) (hmac_inner (is_SigningKey iss) (mac_input d)) \<or>
      sha_collision (hmac_outer (is_SigningKey iss) (mac_input c)) (hmac_outer (is_SigningKey iss) (mac_input d))"
    using hmac_sha256_eqD [of "is_SigningKey iss" "mac_input c" "mac_input d"] mac_input_inj a by blast
qed

lemma credential_binding_witness:
  "\<exists>env c. Issue 0 (Inr [7]) sample_issuer ''alice'' ''test'' = Ok env \<and> cred_Verify 0 sample_issuer (Inr env) = Ok c \<and>
     env_Signature env = sign (is_SigningKey sample_issuer) c"
proof -
  obtain env where env: "Issue 0 (Inr [7]) sample_issuer ''alice'' ''test'' = Ok env" using sample_Issue_Ok by blast
  then have "cred_Verify 0 sample_issuer (Inr env) = Ok (env_Claims env)"
    by (auto simp: Issue_def IssueWithTokenHash_def cred_Verify_def sample_issuer_def NewIssuer_def randomHex_def Let_def
        time_Unix_def defaultTTL_def)
  with credential_binding [of 0 sample_issuer env "env_Claims env" "env_Claims env" "Inr env"] env show ?thesis by blast
qed

text \<open>
  The two services agree on tokens: a token that the authentication service hands out was asked
  for with a valid credential and a non-empty pseudonym, and a hub that shares the secret accepts it
  for that pseudonym and opens the connection; the service hands out nothing on any other request.
\<close>

theorem ws_token_agreement:
  assumes "handleWSToken now svc body = Some resp" and "au_WSSecret svc \<noteq> []"
    and "am_Secret (hub_auth h) = au_WSSecret svc"
  shows "(\<forall>p token. ar_body resp = WSTokenResponse p token \<longrightarrow>
       (\<exists>req c. body = Inr req \<and> wr_Pseudonym req = p \<and> p \<noteq> [] \<and> cred_Verify now (au_Issuer svc) (wr_Credential req) = Ok c) \<and>
       token = DeriveWSToken (au_WSSecret svc) p \<and> ValidateToken (hub_auth h) p token \<and>
       fst (HandleWS t p token [] True h) = Connected (hub_next h)) \<and>
    (ar_status resp = 200 \<longleftrightarrow> (\<exists>p token. ar_body resp = WSTokenResponse p token))"
proof -
  have "\<exists>req c. body = Inr req \<and> wr_Pseudonym req = p \<and> p \<noteq> [] \<and>
      cred_Verify now (au_Issuer svc) (wr_Credential req) = Ok c \<and> token = wsTokenFor (au_WSSecret svc) p"
    if "ar_body resp = WSTokenResponse p token" for p token
    using assms(1) that by (auto simp: handleWSToken_def split: sum.splits if_splits outcome.splits)
  moreover have "ValidateToken (hub_auth h) p (wsTokenFor (au_WSSecret svc) p)" for p
    using assms(2,3) by (simp add: ValidateToken_def wsTokenFor_def)
  moreover have "ar_status resp = 200 \<longleftrightarrow> (\<exists>p token. ar_body resp = WSTokenResponse p token)"
    using assms(1) by (auto simp: handleWSToken_def split: sum.splits if_splits outcome.splits)
  ultimately show ?thesis
    by (auto simp: DeriveWSToken_def HandleWS_def CheckOrigin_def Let_def)
qed

lemma ws_token_agreement_witness:
  "\<exists>env resp. Issue 0 (Inr [7]) sample_issuer ''alice'' ''test'' = Ok env \<and>
     handleWSToken 0 (NewAuthService sample_issuer [9]) (Inr \<lparr> wr_Pseudonym = ''p'', wr_Credential = Inr env \<rparr>) = Some resp \<and>
     ValidateToken \<lparr> am_Secret = [9], am_AllowDevBypass = False \<rparr> ''p'' (DeriveWSToken [9] ''p'')"
proof -
  obtain env where env: "Issue 0 (Inr [7]) sample_issuer ''alice'' ''test'' = Ok env" using sample_Issue_Ok by blast
  then have "cred_Verify 0 sample_issuer (Inr env) = Ok (env_Claims env)"
    by (auto simp: Issue_def IssueWithTokenHash_def cred_Verify_def sample_issuer_def NewIssuer_def randomHex_def Let_def
        time_Unix_def defaultTTL_def)
  then have r: "handleWSToken 0 (NewAuthService sample_issuer [9]) (Inr \<lparr> wr_Pseudonym = ''p'', wr_Credential = Inr env \<rparr>) =
      Some \<lparr> ar_status = 200, ar_body = WSTokenResponse ''p'' (wsTokenFor [9] ''p'') \<rparr>"
    by (simp add: handleWSToken_def NewAuthService_def)
  from ws_token_agreement [OF r, of "NewHub \<lparr> am_Secret = [9], am_AllowDevBypass = False \<rparr>" 0] r env
  show ?thesis by (simp add: NewAuthService_def NewHub_def NewHubWithOptions_def DeriveWSToken_def)
qed

end
