(* ===== verification/Spec2Isabelle.thy ===== *)
theory Spec2Isabelle
  imports Bridge_Score Bridge_Tune Helper_Laws Profiles Voting_Run Admission_Laws Transport_Service Authclient Anon Boundcheck
begin

text \<open>
  \<^bold>\<open>A verification development for ARES-core.\<close>

  ARES-core is a Go framework for multi-party sessions. An application declares \<^emph>\<open>phases\<close>; the
  framework composes them into a pipeline (\<^verbatim>\<open>phase.Compose\<close>), runs one state machine per session
  over it (\<^verbatim>\<open>phase.SessionRunner\<close>), commits what the phases produce to a signed Merkle DAG
  (\<^verbatim>\<open>lineage\<close>), and serves the sessions over WebSocket and an admin HTTP surface (\<^verbatim>\<open>transport\<close>),
  with credentials from \<^verbatim>\<open>authclient\<close>. Ready-made phases cover key generation
  (\<^verbatim>\<open>phase/defaults\<close>, \<^verbatim>\<open>phase/keygen\<close>), anonymous slot assignment with onions (\<^verbatim>\<open>phase/anon\<close>,
  \<^verbatim>\<open>onion\<close>) and a bound check on encrypted inputs (\<^verbatim>\<open>phase/boundcheck\<close>, \<^verbatim>\<open>crypto/fhecalib\<close>).
  Paths below are under \<^verbatim>\<open>src/pkg/ares/\<close>, those that begin with \<^verbatim>\<open>cmd/\<close> or \<^verbatim>\<open>examples/\<close> under \<^verbatim>\<open>src/\<close>.

  \<^bold>\<open>The theories.\<close>

  \<^item> \<^verbatim>\<open>Go_Base\<close>, \<^verbatim>\<open>Go_Crypto\<close>, \<^verbatim>\<open>Go_Float\<close>, \<^verbatim>\<open>Go_Value\<close>: the prelude. Bytes, outcomes (value, error,
    panic), Go maps as association lists, big-endian integers; SHA-256, HMAC and hex, executable;
    binary64 with one rounding per operation; Go's \<^verbatim>\<open>any\<close> and its \<^verbatim>\<open>%v\<close> rendering.
  \<^item> \<^verbatim>\<open>Lineage\<close>: \<^verbatim>\<open>sign/*.go\<close> and \<^verbatim>\<open>lineage/*.go\<close>. Node hashes, \<^verbatim>\<open>Commit\<close>, \<^verbatim>\<open>Verify\<close>, the JSON form (with the
    replacement of bytes that are not UTF-8 and the range of years that \<^verbatim>\<open>encoding/json\<close> accepts), the in-memory store behind the locale \<open>lineage_store\<close>. Lemmas: encodings are injective, committed nodes
    verify, verified nodes bind their payload, the store only grows.
  \<^item> \<^verbatim>\<open>Session_Context\<close>, \<^verbatim>\<open>Phase_Compose\<close>: \<^verbatim>\<open>phase/context.go\<close>, \<^verbatim>\<open>accumulator.go\<close>, \<^verbatim>\<open>errors.go\<close>, \<^verbatim>\<open>types.go\<close>,
    \<^verbatim>\<open>phase.go\<close>, \<^verbatim>\<open>options.go\<close>, \<^verbatim>\<open>compose_with.go\<close>. The context of a session, quorums, what a phase declares, and
    exactly which pipelines \<^verbatim>\<open>Compose\<close> accepts.
  \<^item> \<^verbatim>\<open>Session_Runner\<close>, \<^verbatim>\<open>Runner_Invariants\<close>, \<^verbatim>\<open>Runner_Lineage\<close>: \<^verbatim>\<open>phase/runner.go\<close> and \<^verbatim>\<open>runner_lineage.go\<close>.
    The operations as functions on the runner's state, whose lineage store every session reads through its context
    (\<open>session_context_of\<close>); the invariant of the runner and that
    every operation keeps it and touches the tracker of one session only (locale \<open>session_op\<close>, interpreted for each
    operation); progress of messages and of \<^verbatim>\<open>AdvanceToState\<close>; verification before dispatch;
    the auto-commit; histories as lists of operations.
  \<^item> \<^verbatim>\<open>Transport_Store\<close>, \<^verbatim>\<open>Transport_Hub\<close>, \<^verbatim>\<open>Transport_Service\<close>: \<^verbatim>\<open>transport/*.go\<close>. Artifacts, event ring, log
    ring, tokens, the WebSocket hub with replay protection and rate limit, the service that
    dispatches frames into the runner, the trigger (locale \<open>session_trigger\<close>) and every admin handler;
    histories of the hub and of the whole service.
  \<^item> \<^verbatim>\<open>Authclient\<close>: \<^verbatim>\<open>authclient/*.go\<close>. Credentials, their canonical form and signature, the handlers, and the agreement of
    tokens with the hub.
  \<^item> \<^verbatim>\<open>Default_Phases\<close>: \<^verbatim>\<open>phase/defaults/*.go\<close>, \<^verbatim>\<open>phase/keygen/variants.go\<close>. The phases as values, and which key
    topologies can stand in front of threshold decryption.
  \<^item> \<^verbatim>\<open>Onion\<close>, \<^verbatim>\<open>Anon\<close>: \<^verbatim>\<open>onion/*.go\<close>, \<^verbatim>\<open>phase/anon/*.go\<close>. The seeded permutation and that its loops end, ECIES layers, the
    shuffle; the participants and the two phases, up to a whole round of honest participants
    through the runner.
  \<^item> \<^verbatim>\<open>Fhecalib\<close>, \<^verbatim>\<open>Boundcheck\<close>: \<^verbatim>\<open>crypto/fhecalib/*.go\<close>, \<^verbatim>\<open>phase/boundcheck/*.go\<close>. The depth sweep on 32-bit words, the modulus
    budget, one calibration run; the verdict on a value in binary64, the circuits, the phase.

  \<^item> \<^verbatim>\<open>Bridge_Native\<close>, \<^verbatim>\<open>Bridge_Keys\<close>, \<^verbatim>\<open>Bridge_Refine\<close>, \<^verbatim>\<open>Bridge_Combine\<close>, \<^verbatim>\<open>Bridge_Fold\<close>, \<^verbatim>\<open>Bridge_Index\<close>, \<^verbatim>\<open>Bridge_Round1\<close>,
    \<^verbatim>\<open>Bridge_Laws\<close>: the Go side of the OpenFHE bridge, \<^verbatim>\<open>crypto/cgo/bridge.go\<close>, \<^verbatim>\<open>incremental_combine.go\<close>, \<^verbatim>\<open>bonly_keygen.go\<close>,
    \<^verbatim>\<open>minimal_rotation_keys.go\<close>. Objects of the C++ library are cells of an explicit native heap, and undefined behaviour is
    counted as a fault. \<open>Bridge_Native\<close> has the heap, the calls and an ownership logic; \<open>Bridge_Keys\<close> the contexts and key
    ceremonies; \<open>Bridge_Combine\<close> the ways of combining rotation-key shares; \<open>Bridge_Refine\<close>, \<open>Bridge_Fold\<close> and \<open>Bridge_Index\<close> show what they
    compute, over the locale \<open>rotation_library\<close>, which the C routines they call interpret. Lemmas: nothing is used
    after it was freed and nothing leaks, but for the object that \<^verbatim>\<open>DeserializeAVectors\<close> loses when it is given bytes it cannot read
    (\<open>avectors_leak\<close>): a claim about a function that reads shares by reference has the condition \<open>given_readable\<close>; the incremental,
    all-at-once, per-index and lazy combiners agree. The combiners of multiplication keys have the condition \<open>short_keys\<close>: a
    serialized key is shorter than \<open>2 ^ 31\<close> bytes.
  \<^item> \<^verbatim>\<open>Bridge_Eval\<close>, \<^verbatim>\<open>Bridge_Single\<close>, \<^verbatim>\<open>Bridge_Auction\<close>: encryption, arithmetic on ciphertexts, the encrypted argmax, threshold and
    single-key decryption, the sealed-bid auction, of the same file. Lemmas: ownership on every path, given parameters whose doubling of
    the batch size ends (\<open>batch_ok\<close>), and which bidder wins.
  \<^item> \<^verbatim>\<open>Bridge_Fuse\<close>, \<^verbatim>\<open>Bridge_Union\<close>, \<^verbatim>\<open>Bridge_Score\<close>, \<^verbatim>\<open>Bridge_Tune\<close>: payload fusion, union scoring by several comparators with its pool of
    workers, and the tuning of the comparators. Lemmas: the flattened blobs are split again as they were, no fusion whose chunks fit
    (\<open>plain_fits\<close>, \<open>encrypted_fits\<close>) leaks, though one may change the evaluation keys in the context it is given, every
    schedule of the pool gives the result of the sequential loop, statistics and input scales are what they should be in rounded binary64.
  \<^item> \<^verbatim>\<open>Helper_Wire\<close>, \<^verbatim>\<open>Helper\<close>, \<^verbatim>\<open>Helper_Laws\<close>: \<^verbatim>\<open>crypto/helperclient/*.go\<close> and \<^verbatim>\<open>cmd/openfhe-contract-helper/main.go\<close>. Base64, requests and
    responses, the helper's dispatch and daemon loop, the client and its key ceremonies. Lemmas: the client refines the bridge, the
    helper keeps its heap, ceremonies return.
  \<^item> \<^verbatim>\<open>Profiles\<close>: \<^verbatim>\<open>crypto/bfv/encoding.go\<close> and \<^verbatim>\<open>crypto/profiles/profiles.go\<close>. Quantization, packing of payloads, the named profiles.
  \<^item> \<^verbatim>\<open>App_Base\<close>, \<^verbatim>\<open>Voting\<close>, \<^verbatim>\<open>Voting_Laws\<close>, \<^verbatim>\<open>Voting_Run\<close>: \<^verbatim>\<open>examples/voting\<close>. \<open>App_Base\<close> has what applications share: the locale \<open>collecting\<close>, for
    phases that take one message from every participant, and the stages of a session as it passes through phases. Then
    the phases, the three pipelines, the trigger and the onion relay of the voting service. Lemmas: an election ends with the exact totals and
    the right winner; with weights that round, the winner may depend on the iteration order of a map; without ballots the tally panics.
  \<^item> \<^verbatim>\<open>Admission\<close>, \<^verbatim>\<open>Admission_Laws\<close>: \<^verbatim>\<open>examples/bounded_admission\<close>. The phases around the bound check, the trigger, the challenge hook. Lemmas: the
    message that completes a round of partial decryptions ends the session or adds the violators to the record, where those of earlier rounds stay; challenges are sent once.

  \<^bold>\<open>How state and effects correspond.\<close> A struct is a record with the fields of the source, prefixed
  where names clash. A method is a function that returns its results and the new state; a method under
  a lock is one atomic step, and concurrency is the arbitrary order of such steps in a history. Errors
  keep the structure of the \<^verbatim>\<open>fmt.Errorf\<close> calls (\<open>err\<close>), so \<^verbatim>\<open>errors.Is\<close> is a function on them; panics and nil
  dereferences are outcomes. Clock readings, random bytes and the iteration order of Go maps are arguments. A pool of goroutines is a
  schedule: the order in which the jobs run and the order in which their results arrive. The helper process is alive or ended,
  with a native state of its own; a request and its response are one step.

  \<^bold>\<open>Loops, bounds and fuel.\<close> The cascades of the runner carry the source's own hop limit as their
  fuel (one more than the number of phases), so running out of it is the source's error. Loops that may
  not end are partial functions with values in \<open>option\<close>: the rejection sampling of \<^verbatim>\<open>intn\<close>, the depth
  sweep, the doubling of a ring dimension, of a batch size,
  of a rotation step and of a buffer, the choice of a chunk size; their theorems say when they return. Everything else is
  structural recursion. Words keep their width where the source computes with fixed widths (hash
  lengths, stream counters, depths, bit budgets); Go's \<^verbatim>\<open>int\<close> is \<open>int\<close> where no operation can overflow it.

  \<^bold>\<open>Parameters.\<close> Ed25519, X25519, HKDF and AES-GCM, JSON decoding of payloads, the functions of the OpenFHE wrapper and its version text are functions in
  records that the definitions take as arguments. What is relied on is named (\<open>signer_accepts\<close>, \<open>prims_ok\<close>, \<open>coins_ok\<close>,
  \<open>masks_ok\<close>, \<open>room_ok\<close>, \<open>buffers_ok\<close>, \<open>writes_ok\<close>, \<open>keyless_quiet\<close>, \<open>given_readable\<close>, \<open>refs_readable\<close>, \<open>vote_env_ok\<close>, \<open>adm_env_ok\<close>, the round trip of an encoded slot entry) and shown satisfiable where it is used. SHA-256 is defined, and no
  property assumes anything of it: binding properties conclude \<open>or two strings collide\<close>.

  \<^bold>\<open>Not modelled.\<close> OpenFHE itself and the C++ wrapper around it, but for the routines of the rotation-key combiners; the memory
  benchmarks and smoke tests of \<^verbatim>\<open>crypto/cgo\<close>, which are one call of a C function each; pipes, network
  listeners and shutdown; client libraries in other languages; the other applications under \<^verbatim>\<open>examples/\<close>
  (auctions, rankings, ride sharing, payload fusion) and the \<^verbatim>\<open>main\<close> functions of the services.
  Simplified: \<open>HandleMessage\<close> and \<open>AdvanceToState\<close> are one step each, hooks and cascade included, though the source
  releases its lock around them; a panic in a handler is an outcome, and the service's history goes on after it, where the
  process of the source may end; binary64 has one zero; the two C calls of \<^verbatim>\<open>MinimalRotationIndicesWithContext\<close> are one;
  a slice too large for memory is not a panic.
\<close>

section \<open>Behaviours at the edges\<close>

text \<open>
  A message for a session whose pipeline has ended dereferences the nil phase: two \<^verbatim>\<open>go\<close> messages end the session of
  \<open>two_runner\<close>, and a third one, to the session that is still tracked, panics.
\<close>

lemma message_after_the_end_panics:
  "fst (HandleMessage 0 ''s'' ''go'' ''x'' []
     (run_ops [OpMessage 0 ''s'' ''go'' ''x'' [], OpMessage 0 ''s'' ''go'' ''x'' []] two_begun)) = Panic nil_deref"
proof -
  have "map_of (sessions two_begun) ''s'' = Some \<lparr> trk_ctx = NewSessionContext ''s'', trk_state = ''A'',
      trk_current = Some (wait_phase ''a'' ''A'' ''B''), trk_entered = True \<rparr>"
    "phases two_begun = two_phases" "lineageStore two_begun = None"
    using two_begun_facts by simp_all
  moreover have "byEntryState two_begun = map (\<lambda>p. (EntryState p, p)) two_phases"
    by (simp add: two_begun_def BeginSession_def two_runner_def two_phases_def wait_phase_def run_hook_def
        put_tracker_def NewSessionContext_def Let_def)
  ultimately show ?thesis
    by (simp add: run_ops_def HandleMessage_def wait_phase_def phaseConsumes_def run_hook_def put_tracker_def Let_def
        advance_def two_phases_def exit_phase_def enter_phase_def commitPhaseOutputsIfEnabled_def StateNone_def NewSessionContext_def)
qed

text \<open>Two different pairs of session and pseudonym share one replay counter when they contain the separator.\<close>

lemma replay_key_ambiguous: "seq_key ''bob'' m1 = seq_key ''c|bob'' m2"
  if "ws_SessionID m1 = ''s|c''" "ws_SessionID m2 = ''s''" "ws_Type m1 = ws_Type m2"
  using that by (simp add: seq_key_def)

end
